(* ===== verification/Prelude.thy ===== *)
theory Prelude
  imports Main "HOL-Library.Word" "HOL-Library.Signed_Division"
begin

text \<open>
  Shared vocabulary of the development: the names of the machine integer types of the
  kernel (\<open>byte\<close>, \<open>uint16_t\<close>, \<open>unsigned\<close>/\<open>uint32_t\<close>, \<open>uint64_t\<close>), the two ways a C++
  function of the kernel may fail to give a value, and the generic facts on words,
  lists and options that several components use.

  \<^item> A read outside an array, a loop that does not end or another undefined behaviour of
    the C++ code is \<open>None\<close> of an \<open>option\<close>.
  \<^item> A \<open>throw upan::exception\<close> is \<open>Inl e\<close> of a sum type, with \<open>e\<close> a constructor of the
    component's own error type that names the throwing statement.
\<close>

unbundle bit_operations_syntax

subsection \<open>Machine integers\<close>

type_synonym u8 = "8 word"
type_synonym u16 = "16 word"
type_synonym u32 = "32 word"
type_synonym u64 = "64 word"

named_theorems word_facts \<open>arithmetic of machine words read as natural numbers\<close>

lemma unat_add_no_wrap [word_facts]:
  fixes a b :: "'a::len word"
  assumes "unat a + unat b < 2 ^ LENGTH('a)"
  shows "unat (a + b) = unat a + unat b"
  using assms by (simp add: unat_word_ariths)

lemma unat_sub_no_wrap [word_facts]:
  fixes a b :: "'a::len word"
  assumes "b \<le> a"
  shows "unat (a - b) = unat a - unat b"
  using assms by (simp add: unat_sub)

lemma u32_unat_bound [simp]: "unat (x :: u32) < 4294967296"
  using unsigned_less [of x] by simp

lemma unat_ucast_u16: "unat (ucast (x :: u16) :: u32) = unat x"
proof -
  have "unat x < 2 ^ 16" using unsigned_less [of x] by simp
  then have "unat x < 2 ^ 32" by simp
  then show ?thesis by (simp only: unsigned_ucast_eq) (simp add: take_bit_nat_eq_self)
qed

lemma of_nat_unat_u32: "n < 4294967296 \<Longrightarrow> unat (of_nat n :: u32) = n"
  by (simp add: unat_of_nat)

lemma sint_small:
  assumes "unat (x :: u32) < 2147483648"
  shows "sint x = int (unat x)"
proof -
  have "uint x = int (unat x)" by simp
  then have "uint x < 2147483648" using assms by linarith
  then have "signed_take_bit 31 (uint x) = uint x"
    using order_trans [of "- 2147483648" 0 "uint x"] by (intro signed_take_bit_int_eq_self) simp_all
  then show ?thesis by (simp add: sint_uint)
qed

lemma of_nat_le_u32:
  "x < 4294967296 \<Longrightarrow> y < 4294967296 \<Longrightarrow> (of_nat x \<le> (of_nat y :: u32)) = (x \<le> y)"
  by (simp add: word_le_nat_alt of_nat_unat_u32)

lemma of_nat_less_u32:
  "x < 4294967296 \<Longrightarrow> y < 4294967296 \<Longrightarrow> (of_nat x < (of_nat y :: u32)) = (x < y)"
  by (simp add: word_less_nat_alt of_nat_unat_u32)

lemma of_nat_eq_0_u32: "x < 4294967296 \<Longrightarrow> (of_nat x = (0 :: u32)) = (x = 0)"
  using of_nat_unat_u32 [of x] by auto

subsection \<open>C division\<close>

text \<open>
  Signed division and remainder of C++ truncate towards zero: \<open>sdiv\<close> and \<open>smod\<close> of
  \<open>HOL-Library.Signed_Division\<close>. On non-negative operands they are \<open>div\<close> and \<open>mod\<close>.
\<close>

lemma sdiv_nonneg: "0 \<le> (a::int) \<Longrightarrow> 0 < b \<Longrightarrow> a sdiv b = a div b"
  by (simp add: signed_divide_int_def sgn_if pos_imp_zdiv_nonneg_iff zdiv_eq_0_iff)

lemma smod_nonneg: "0 \<le> (a::int) \<Longrightarrow> 0 < b \<Longrightarrow> a smod b = a mod b"
  by (cases "a = 0") (simp_all add: signed_modulo_int_def)

lemma smod_eq_0_iff: "(a::int) smod b = 0 \<longleftrightarrow> b dvd a"
  by (auto simp: signed_modulo_int_def sgn_if dvd_eq_mod_eq_0 [symmetric])

subsection \<open>Lists and options\<close>

lemma nth_append_Cons_eq [simp]: "(xs @ y # ys) ! length xs = y"
  by (simp add: nth_append)

lemma list_update_append_Cons [simp]: "(xs @ y # ys)[length xs := z] = xs @ z # ys"
  by (simp add: list_update_append)

lemma bind_SomeE:
  assumes "Option.bind x f = Some y"
  obtains z where "x = Some z" "f z = Some y"
  using assms by (cases x) auto

text \<open>\<open>xs\<close> read at a C++ \<open>int\<close> index: outside the array is \<open>None\<close>.\<close>

definition array_get :: "'a list \<Rightarrow> int \<Rightarrow> 'a option" where
  "array_get xs i = (if 0 \<le> i \<and> i < int (length xs) then Some (xs ! nat i) else None)"

lemma array_get_Some_iff:
  "array_get xs i = Some x \<longleftrightarrow> 0 \<le> i \<and> nat i < length xs \<and> xs ! nat i = x"
  by (auto simp: array_get_def)

lemma array_get_None_iff: "array_get xs i = None \<longleftrightarrow> i < 0 \<or> int (length xs) \<le> i"
  by (auto simp: array_get_def)

end
