(* ===== verification/MDate.thy ===== *)
theory MDate
  imports Prelude "HOL-Library.Monad_Syntax"
begin

text \<open>
  The calendar library \<open>libmcpp/cal/mdate.cpp\<close> (\<open>mdate.h\<close>): the date record, its validity
  tests, the additions and subtractions of days, weeks, months and years, the comparisons,
  the difference of two dates and the day of the week.

  A C++ \<open>int\<close> is a HOL \<open>int\<close> and the arguments are meant to lie in its range. A signed overflow
  is undefined behaviour: an operation that can leave the range for some arguments goes through
  \<open>int_op\<close>, which is \<open>None\<close> outside. (The others cannot: the functions that compute with a year
  validate the date first, so the year starts below 10000 and moves by at most one in 365 days.)
  A read of the month tables outside \<open>0..12\<close> is \<open>None\<close>, and so is a loop that does not end. A
  function that writes through its \<open>mdate*\<close> argument returns the new record beside its result.

  The lemmas relate every operation to a reference that uses nothing of the code:
  \<open>julian_day\<close> is the textbook closed formula of the day number of a date of the Julian calendar
  (every fourth year is a leap year), the calendar the library implements, and \<open>gregorian_day\<close>
  the one of the civil calendar; the two differ by a constant between March 1900 and February
  2100.
\<close>

section \<open>Data\<close>

record mdate =
  dayOfMonth :: int
  month :: int
  year :: int
  dayOfWeek :: int

abbreviation (input) JANUARY :: int where "JANUARY \<equiv> 1"
abbreviation (input) FEBRUARY :: int where "FEBRUARY \<equiv> 2"
abbreviation (input) DECEMBER :: int where "DECEMBER \<equiv> 12"
abbreviation (input) MONTHS_PER_YEAR :: int where "MONTHS_PER_YEAR \<equiv> 12"
abbreviation (input) MONDAY :: int where "MONDAY \<equiv> 0"
abbreviation (input) FRIDAY :: int where "FRIDAY \<equiv> 4"
abbreviation (input) SUNDAY :: int where "SUNDAY \<equiv> 6"
abbreviation (input) DAYS_PER_WEEK :: int where "DAYS_PER_WEEK \<equiv> 7"

definition IS_LEAP_YEAR :: "int \<Rightarrow> bool" where
  "IS_LEAP_YEAR y \<longleftrightarrow> y smod 4 = 0"

definition seedDate :: mdate where
  "seedDate = \<lparr>dayOfMonth = 15, month = 8, year = 1947, dayOfWeek = FRIDAY\<rparr>"

definition mdate_NoOfDaysInMonth_NLY :: "int list" where
  "mdate_NoOfDaysInMonth_NLY = [0, 31, 28, 31, 30, 31, 30, 31, 31, 30, 31, 30, 31]"

definition mdate_NoOfDaysInMonth_LY :: "int list" where
  "mdate_NoOfDaysInMonth_LY = [0, 31, 29, 31, 30, 31, 30, 31, 31, 30, 31, 30, 31]"

definition mdate_szMonths :: "string list" where
  "mdate_szMonths = [''NA'', ''January'', ''February'', ''March'', ''April'', ''May'', ''June'',
     ''July'', ''August'', ''September'', ''October'', ''November'', ''December'']"

definition mdate_szDays :: "string list" where
  "mdate_szDays = [''Monday'', ''Tuesday'', ''Wednesday'', ''Thursday'', ''Friday'',
     ''Saturday'', ''Sunday'', ''NA'']"

text \<open>The result of a signed operation: undefined outside the range of a 32-bit \<open>int\<close>.\<close>

abbreviation (input) INT_MAX :: int where "INT_MAX \<equiv> 2147483647"
abbreviation (input) INT_MIN :: int where "INT_MIN \<equiv> - 2147483648"

definition int_op :: "int \<Rightarrow> int option" where
  "int_op x = (if INT_MIN \<le> x \<and> x \<le> INT_MAX then Some x else None)"

lemma int_op_Some [simp]: "INT_MIN \<le> x \<Longrightarrow> x \<le> INT_MAX \<Longrightarrow> int_op x = Some x"
  by (simp add: int_op_def)

lemma int_op_None [simp]: "INT_MAX < x \<Longrightarrow> int_op x = None"
  by (simp add: int_op_def)

section \<open>Operations\<close>

subsection \<open>Setting, copying and validating\<close>

definition mdate_Copy :: "mdate \<Rightarrow> mdate \<Rightarrow> mdate" where
  "mdate_Copy d1 d2 = d1\<lparr>dayOfMonth := dayOfMonth d2, month := month d2, year := year d2,
     dayOfWeek := dayOfWeek d2\<rparr>"

definition mdate_GetSeedDate :: "mdate \<Rightarrow> mdate" where
  "mdate_GetSeedDate d1 = mdate_Copy d1 seedDate"

definition mdate_Normalize :: "mdate \<Rightarrow> mdate \<Rightarrow> mdate" where
  "mdate_Normalize src dest =
     dest\<lparr>dayOfMonth := dayOfMonth src, month := month src - 1, year := year src\<rparr>"

definition mdate_GetDaysInMonth_1 :: "int \<Rightarrow> int \<Rightarrow> int option" where
  "mdate_GetDaysInMonth_1 m y =
     (if IS_LEAP_YEAR y then array_get mdate_NoOfDaysInMonth_LY m
      else array_get mdate_NoOfDaysInMonth_NLY m)"

definition mdate_GetDaysInMonth :: "mdate \<Rightarrow> int option" where
  "mdate_GetDaysInMonth d =
     (if IS_LEAP_YEAR (year d) then array_get mdate_NoOfDaysInMonth_LY (month d)
      else array_get mdate_NoOfDaysInMonth_NLY (month d))"

definition mdate_IsValidMonth :: "int \<Rightarrow> bool" where
  "mdate_IsValidMonth m \<longleftrightarrow> m \<ge> JANUARY \<and> m \<le> DECEMBER"

definition mdate_IsValidYear :: "int \<Rightarrow> bool" where
  "mdate_IsValidYear y \<longleftrightarrow> y > 0 \<and> y < 10000"

definition mdate_IsValidDayOfMonth :: "mdate \<Rightarrow> bool option" where
  "mdate_IsValidDayOfMonth d =
     (if dayOfMonth d < 1 then Some False
      else do {
        n \<leftarrow> mdate_GetDaysInMonth d;
        if dayOfMonth d > n then Some False else Some True
      })"

definition mdate_IsValidDayOfWeek :: "int \<Rightarrow> bool" where
  "mdate_IsValidDayOfWeek w \<longleftrightarrow> w \<ge> MONDAY \<and> w \<le> SUNDAY"

definition mdate_IsValid :: "mdate \<Rightarrow> bool option" where
  "mdate_IsValid d =
     (if mdate_IsValidYear (year d) then
        if mdate_IsValidMonth (month d) then mdate_IsValidDayOfMonth d
        else Some False
      else Some False)"

definition mdate_Set :: "mdate \<Rightarrow> int \<Rightarrow> int \<Rightarrow> int \<Rightarrow> (bool \<times> mdate) option" where
  "mdate_Set date dm m y =
     (let date' = date\<lparr>dayOfMonth := dm, month := m, year := y\<rparr>
      in do { ok \<leftarrow> mdate_IsValid date'; Some (ok, date') })"

subsection \<open>Adding\<close>

text \<open>The \<open>for\<close> loop of \<open>mdate_AddDays\<close>, over its locals \<open>days\<close>, \<open>dayOfMonth\<close>, \<open>month\<close> and
  \<open>year\<close>. It ends because every round after the first starts at day 0 of a month and takes
  that month's length (at least 28) from \<open>days\<close>.\<close>

function AddDays_loop :: "int \<Rightarrow> int \<Rightarrow> int \<Rightarrow> int \<Rightarrow> (int \<times> int \<times> int) option" where
  "AddDays_loop days dm m y =
     (if days > 0 then
        (case mdate_GetDaysInMonth_1 m y of
           None \<Rightarrow> None
         | Some daysInMonth \<Rightarrow>
             (case int_op (dm + days) of
                None \<Rightarrow> None
              | Some added \<Rightarrow>
                  if added > daysInMonth then
                    (if m + 1 > DECEMBER
                     then AddDays_loop (days - (daysInMonth - dm)) 0 JANUARY (y + 1)
                     else AddDays_loop (days - (daysInMonth - dm)) 0 (m + 1) y)
                  else Some (added, m, y)))
      else Some (dm, m, y))"
  by pat_completeness auto

lemma GetDaysInMonth_1_Some:
  "mdate_GetDaysInMonth_1 m y = Some n \<Longrightarrow> 0 \<le> m \<and> m \<le> 12 \<and> (1 \<le> m \<longrightarrow> 28 \<le> n \<and> n \<le> 31)"
proof -
  assume a: "mdate_GetDaysInMonth_1 m y = Some n"
  then have r: "0 \<le> m \<and> m \<le> 12"
    by (auto simp: mdate_GetDaysInMonth_1_def array_get_Some_iff mdate_NoOfDaysInMonth_LY_def
        mdate_NoOfDaysInMonth_NLY_def split: if_splits)
  then have "m = 0 \<or> m = 1 \<or> m = 2 \<or> m = 3 \<or> m = 4 \<or> m = 5 \<or> m = 6 \<or> m = 7 \<or> m = 8 \<or>
      m = 9 \<or> m = 10 \<or> m = 11 \<or> m = 12"
    by arith
  then show ?thesis using a
    by (auto simp: mdate_GetDaysInMonth_1_def array_get_def mdate_NoOfDaysInMonth_LY_def
        mdate_NoOfDaysInMonth_NLY_def split: if_splits)
qed

termination AddDays_loop
  by (relation "measures [\<lambda>(days, dm, m, y). if dm = 0 \<and> 1 \<le> m then 0 else 1,
                          \<lambda>(days, dm, m, y). nat days]")
    (auto dest!: GetDaysInMonth_1_Some simp: int_op_def split: if_splits)

declare AddDays_loop.simps [simp del]

definition mdate_AddDays :: "mdate \<Rightarrow> int \<Rightarrow> (bool \<times> mdate) option" where
  "mdate_AddDays date days = do {
     ok \<leftarrow> mdate_IsValid date;
     if \<not> ok then Some (False, date)
     else if days < 0 then Some (False, date)
     else if days = 0 then Some (True, date)
     else do {
       (dm, m, y) \<leftarrow> AddDays_loop days (dayOfMonth date) (month date) (year date);
       Some (True, date\<lparr>dayOfMonth := dm, month := m, year := y\<rparr>)
     }
   }"

definition mdate_AddWeeks :: "mdate \<Rightarrow> int \<Rightarrow> (bool \<times> mdate) option" where
  "mdate_AddWeeks date weeks = do {
     days \<leftarrow> int_op (weeks * DAYS_PER_WEEK);
     mdate_AddDays date days
   }"

definition mdate_AddMonths :: "mdate \<Rightarrow> int \<Rightarrow> (bool \<times> mdate) option" where
  "mdate_AddMonths date months = do {
     ok \<leftarrow> mdate_IsValid date;
     if \<not> ok then Some (False, date)
     else if months < 0 then Some (False, date)
     else if months = 0 then Some (True, date)
     else do {
       added \<leftarrow> int_op (month date + months);
       let y = year date + (added - 1) sdiv MONTHS_PER_YEAR;
           m = (added - 1) smod MONTHS_PER_YEAR + 1
       in do {
         daysInMonth \<leftarrow> mdate_GetDaysInMonth_1 m y;
         Some (True, date\<lparr>dayOfMonth := (if dayOfMonth date > daysInMonth then daysInMonth
                                         else dayOfMonth date),
                          month := m, year := y\<rparr>)
       }
     }
   }"

definition mdate_AddYears :: "mdate \<Rightarrow> int \<Rightarrow> (bool \<times> mdate) option" where
  "mdate_AddYears date years = do {
     ok \<leftarrow> mdate_IsValid date;
     if \<not> ok then Some (False, date)
     else if years < 0 then Some (False, date)
     else if years = 0 then Some (True, date)
     else do {
       y \<leftarrow> int_op (year date + years);
       if month date = FEBRUARY then do {
         daysInMonth \<leftarrow> mdate_GetDaysInMonth_1 (month date) y;
         Some (True, date\<lparr>dayOfMonth := (if dayOfMonth date > daysInMonth then daysInMonth
                                         else dayOfMonth date),
                          year := y\<rparr>)
       }
       else Some (True, date\<lparr>year := y\<rparr>)
     }
   }"

subsection \<open>Subtracting\<close>

function SubtractDays_loop :: "int \<Rightarrow> int \<Rightarrow> int \<Rightarrow> int \<Rightarrow> (int \<times> int \<times> int) option" where
  "SubtractDays_loop days dm m y =
     (if days > 0 then
        (if days \<ge> dm then
           let days' = days - dm;
               (m', y') = (if m - 1 < JANUARY then (DECEMBER, y - 1) else (m - 1, y))
           in (case mdate_GetDaysInMonth_1 m' y' of
                 None \<Rightarrow> None
               | Some dm' \<Rightarrow> SubtractDays_loop days' dm' m' y')
         else Some (dm - days, m, y))
      else Some (dm, m, y))"
  by pat_completeness auto

termination SubtractDays_loop
  by (relation "measures [\<lambda>(days, dm, m, y). if 1 \<le> dm then 0 else 1,
                          \<lambda>(days, dm, m, y). nat days]")
    (auto dest!: GetDaysInMonth_1_Some split: if_splits)

declare SubtractDays_loop.simps [simp del]

definition mdate_SubtractDays :: "mdate \<Rightarrow> int \<Rightarrow> (bool \<times> mdate) option" where
  "mdate_SubtractDays date days = do {
     ok \<leftarrow> mdate_IsValid date;
     if \<not> ok then Some (False, date)
     else if days < 0 then Some (False, date)
     else if days = 0 then Some (True, date)
     else do {
       (dm, m, y) \<leftarrow> SubtractDays_loop days (dayOfMonth date) (month date) (year date);
       Some (True, date\<lparr>dayOfMonth := dm, month := m, year := y\<rparr>)
     }
   }"

definition mdate_SubtractWeeks :: "mdate \<Rightarrow> int \<Rightarrow> (bool \<times> mdate) option" where
  "mdate_SubtractWeeks date weeks = do {
     days \<leftarrow> int_op (weeks * DAYS_PER_WEEK);
     mdate_SubtractDays date days
   }"

definition mdate_SubtractMonths :: "mdate \<Rightarrow> int \<Rightarrow> (bool \<times> mdate) option" where
  "mdate_SubtractMonths date months = do {
     ok \<leftarrow> mdate_IsValid date;
     if \<not> ok then Some (False, date)
     else if months < 0 then Some (False, date)
     else if months = 0 then Some (True, date)
     else
       let norMonths = months smod MONTHS_PER_YEAR;
           m0 = 12 - norMonths + month date;
           m = (if m0 = 0 then DECEMBER else m0);
           y0 = year date - months sdiv MONTHS_PER_YEAR;
           y = (if m - norMonths < 1 then y0 - 1 else y0)
       in do {
         daysInMonth \<leftarrow> mdate_GetDaysInMonth_1 m y;
         Some (True, date\<lparr>dayOfMonth := (if dayOfMonth date > daysInMonth then daysInMonth
                                         else dayOfMonth date),
                          month := m, year := y\<rparr>)
       }
   }"

definition mdate_SubtractYears :: "mdate \<Rightarrow> int \<Rightarrow> (bool \<times> mdate) option" where
  "mdate_SubtractYears date years = do {
     ok \<leftarrow> mdate_IsValid date;
     if \<not> ok then Some (False, date)
     else if years < 0 then Some (False, date)
     else if years = 0 then Some (True, date)
     else
       let y = year date - years
       in if y \<le> 0 then Some (False, date)
          else if month date = FEBRUARY then do {
            daysInMonth \<leftarrow> mdate_GetDaysInMonth_1 (month date) y;
            Some (True, date\<lparr>dayOfMonth := (if dayOfMonth date > daysInMonth then daysInMonth
                                            else dayOfMonth date),
                             year := y\<rparr>)
          }
          else Some (True, date\<lparr>year := y\<rparr>)
   }"

subsection \<open>Comparing\<close>

definition mdate_IsGreater :: "mdate \<Rightarrow> mdate \<Rightarrow> bool" where
  "mdate_IsGreater a b =
     (if year a > year b then True
      else if year a < year b then False
      else if month a > month b then True
      else if month a < month b then False
      else if dayOfMonth a > dayOfMonth b then True
      else False)"

definition mdate_IsLesser :: "mdate \<Rightarrow> mdate \<Rightarrow> bool" where
  "mdate_IsLesser a b =
     (if year a < year b then True
      else if year a > year b then False
      else if month a < month b then True
      else if month a > month b then False
      else if dayOfMonth a < dayOfMonth b then True
      else False)"

definition mdate_IsEqual :: "mdate \<Rightarrow> mdate \<Rightarrow> bool" where
  "mdate_IsEqual a b \<longleftrightarrow> year a = year b \<and> month a = month b \<and> dayOfMonth a = dayOfMonth b"

definition mdate_IsNotEqual :: "mdate \<Rightarrow> mdate \<Rightarrow> bool" where
  "mdate_IsNotEqual a b \<longleftrightarrow> year a \<noteq> year b \<or> month a \<noteq> month b \<or> dayOfMonth a \<noteq> dayOfMonth b"

subsection \<open>Differences and the day of the week\<close>

function SameYear_loop :: "int \<Rightarrow> int \<Rightarrow> int \<Rightarrow> int \<Rightarrow> int option" where
  "SameYear_loop m am y res =
     (if m \<noteq> am then
        (case mdate_GetDaysInMonth_1 m y of
           None \<Rightarrow> None
         | Some n \<Rightarrow> (case int_op (res + n) of
             None \<Rightarrow> None
           | Some added \<Rightarrow> SameYear_loop (m + 1) am y added))
      else Some res)"
  by pat_completeness auto

termination SameYear_loop
  by (relation "measure (\<lambda>(m, am, y, res). nat (13 - m))") (auto dest!: GetDaysInMonth_1_Some)

declare SameYear_loop.simps [simp del]

definition mdate_SameYearDateDifference :: "mdate \<Rightarrow> mdate \<Rightarrow> int option" where
  "mdate_SameYearDateDifference a b =
     (if mdate_IsEqual a b then Some 0
      else if year a \<noteq> year b then Some (-1)
      else if month a = month b then int_op (dayOfMonth a - dayOfMonth b)
      else do {
        n \<leftarrow> mdate_GetDaysInMonth b;
        res \<leftarrow> int_op (n - dayOfMonth b);
        res \<leftarrow> SameYear_loop (month b + 1) (month a) (year b) res;
        int_op (res + dayOfMonth a)
      })"

partial_function (option) Year_loop :: "int \<Rightarrow> int \<Rightarrow> int \<Rightarrow> int option" where
  "Year_loop y y1 res =
     (if y \<noteq> y1 then
        (case int_op (if IS_LEAP_YEAR y then res + 366 else res + 365) of
           None \<Rightarrow> None
         | Some added \<Rightarrow> Year_loop (y + 1) y1 added)
      else Some res)"

text \<open>\<open>mdate d\<close> of the code is uninitialised; \<open>mdate_Set\<close> writes every field but the day of the
  week, which is not read.\<close>

definition uninit_mdate :: mdate where
  "uninit_mdate = \<lparr>dayOfMonth = 0, month = 0, year = 0, dayOfWeek = 0\<rparr>"

text \<open>The part of \<open>mdate_DateDifference\<close> after its swap: the later date minus the earlier one.\<close>

definition date1_minus_date2 :: "mdate \<Rightarrow> mdate \<Rightarrow> int option" where
  "date1_minus_date2 date1 date2 =
     (if year date1 = year date2 then
        if month date1 = month date2 then int_op (dayOfMonth date1 - dayOfMonth date2)
        else mdate_SameYearDateDifference date1 date2
      else do {
        r0 \<leftarrow> Year_loop (year date2 + 1) (year date1) 0;
        (_, d) \<leftarrow> mdate_Set uninit_mdate 31 12 (year date2);
        r1 \<leftarrow> mdate_SameYearDateDifference d date2;
        res \<leftarrow> int_op (r0 + r1);
        (_, d) \<leftarrow> mdate_Set d 1 1 (year date1);
        r2 \<leftarrow> mdate_SameYearDateDifference date1 d;
        res \<leftarrow> int_op (res + r2);
        int_op (res + 1)
      })"

definition mdate_DateDifference :: "mdate \<Rightarrow> mdate \<Rightarrow> int option" where
  "mdate_DateDifference a b =
     (if mdate_IsEqual a b then Some 0
      else
        let (switchSign, date1, date2) = (if mdate_IsLesser a b then (-1, b, a) else (1, a, b))
        in do { res \<leftarrow> date1_minus_date2 date1 date2; int_op (res * switchSign) })"

definition mdate_SetDayOfWeek :: "mdate \<Rightarrow> (bool \<times> mdate) option" where
  "mdate_SetDayOfWeek date = do {
     ok \<leftarrow> mdate_IsValid date;
     if \<not> ok then Some (False, date)
     else if mdate_IsEqual date seedDate then
       Some (True, date\<lparr>dayOfWeek := dayOfWeek seedDate\<rparr>)
     else do {
       days \<leftarrow> mdate_DateDifference date seedDate;
       let res =
         (if days \<ge> 0 then (dayOfWeek seedDate + days) smod DAYS_PER_WEEK
          else
            let r = (days * -1) smod DAYS_PER_WEEK
            in if r \<le> dayOfWeek seedDate then dayOfWeek seedDate - r
               else DAYS_PER_WEEK - (r - dayOfWeek seedDate))
       in Some (True, date\<lparr>dayOfWeek := res\<rparr>)
     }
   }"

definition mdate_SeedDateDifference :: "mdate \<Rightarrow> (bool \<times> int) option" where
  "mdate_SeedDateDifference dt = do {
     ok \<leftarrow> mdate_IsValid dt;
     if \<not> ok then Some (False, 0)
     else if mdate_IsEqual dt seedDate then Some (True, 0)
     else do { days \<leftarrow> mdate_DateDifference dt seedDate; Some (True, days) }
   }"

definition mdate_GetMonthName :: "mdate \<Rightarrow> string" where
  "mdate_GetMonthName date =
     (if month date \<ge> JANUARY \<and> month date \<le> DECEMBER then mdate_szMonths ! nat (month date)
      else mdate_szMonths ! 0)"

definition mdate_GetDayName :: "mdate \<Rightarrow> string" where
  "mdate_GetDayName date =
     (if dayOfWeek date \<ge> MONDAY \<and> dayOfWeek date \<le> SUNDAY
      then mdate_szDays ! nat (dayOfWeek date)
      else mdate_szDays ! nat DAYS_PER_WEEK)"

section \<open>The calendar as day numbers\<close>

text \<open>
  The references, independent of the tables and tests of the code: the day numbers of the
  chronologists (day 0 is 1 January of the year -4712 of the Julian calendar), whose years begin
  in March so that a leap day is the last day of its year.
\<close>

definition march_year :: "mdate \<Rightarrow> int" where
  "march_year d = year d + 4800 - (if month d \<le> 2 then 1 else 0)"

definition march_days :: "mdate \<Rightarrow> int" where
  "march_days d = (153 * (if month d \<le> 2 then month d + 9 else month d - 3) + 2) div 5 + dayOfMonth d"

definition julian_day :: "mdate \<Rightarrow> int" where
  "julian_day d = 365 * march_year d + march_year d div 4 + march_days d - 32083"

definition gregorian_day :: "mdate \<Rightarrow> int" where
  "gregorian_day d = 365 * march_year d + march_year d div 4 - march_year d div 100
     + march_year d div 400 + march_days d - 32045"

text \<open>Thirty days have April, June, September and November; a Julian year divisible by four is a
  leap year.\<close>

definition month_days :: "int \<Rightarrow> int \<Rightarrow> int" where
  "month_days y m = (if m = 2 then if 4 dvd y then 29 else 28
                     else if m \<in> {4, 6, 9, 11} then 30 else 31)"

text \<open>The days counted year by year and month by month, the form the loops are compared with.\<close>

definition days_before_year :: "int \<Rightarrow> int" where
  "days_before_year y = 365 * (y - 1) + (y - 1) div 4"

definition days_before_month :: "int \<Rightarrow> int \<Rightarrow> int" where
  "days_before_month y m = sum_list (map (month_days y) [1..m - 1])"

definition ymd_number :: "int \<Rightarrow> int \<Rightarrow> int \<Rightarrow> int" where
  "ymd_number y m d = days_before_year y + days_before_month y m + d"

definition day_number :: "mdate \<Rightarrow> int" where
  "day_number d = ymd_number (year d) (month d) (dayOfMonth d)"

text \<open>A day that exists in its month, in any year; \<open>mdate_valid\<close> adds the library's range of years.\<close>

definition date_ok :: "mdate \<Rightarrow> bool" where
  "date_ok d \<longleftrightarrow> 1 \<le> month d \<and> month d \<le> 12 \<and> 1 \<le> dayOfMonth d \<and>
     dayOfMonth d \<le> month_days (year d) (month d)"

definition mdate_valid :: "mdate \<Rightarrow> bool" where
  "mdate_valid d \<longleftrightarrow> 0 < year d \<and> year d < 10000 \<and> date_ok d"

named_theorems calendar \<open>the calendar recurrences\<close>

lemma IS_LEAP_YEAR_iff [simp]: "IS_LEAP_YEAR y \<longleftrightarrow> 4 dvd y"
  by (simp add: IS_LEAP_YEAR_def smod_eq_0_iff)

lemma month_cases:
  fixes m :: int
  assumes "1 \<le> m" "m \<le> 12"
  obtains "m = 1" | "m = 2" | "m = 3" | "m = 4" | "m = 5" | "m = 6" | "m = 7" | "m = 8"
    | "m = 9" | "m = 10" | "m = 11" | "m = 12"
  using assms by (smt (verit))

lemma month_days_bounds: "1 \<le> m \<Longrightarrow> m \<le> 12 \<Longrightarrow> 28 \<le> month_days y m \<and> month_days y m \<le> 31"
  by (auto simp: month_days_def)

lemma GetDaysInMonth_1_eq [simp]:
  "1 \<le> m \<Longrightarrow> m \<le> 12 \<Longrightarrow> mdate_GetDaysInMonth_1 m y = Some (month_days y m)"
  by (erule (1) month_cases)
    (auto simp: mdate_GetDaysInMonth_1_def array_get_def month_days_def
      mdate_NoOfDaysInMonth_LY_def mdate_NoOfDaysInMonth_NLY_def)

lemma GetDaysInMonth_eq:
  "mdate_GetDaysInMonth d = mdate_GetDaysInMonth_1 (month d) (year d)"
  by (simp add: mdate_GetDaysInMonth_def mdate_GetDaysInMonth_1_def)

lemma mdate_IsValid_eq [simp]: "mdate_IsValid d = Some (mdate_valid d)"
  by (auto simp: mdate_IsValid_def mdate_IsValidYear_def mdate_IsValidMonth_def
      mdate_IsValidDayOfMonth_def GetDaysInMonth_eq mdate_valid_def date_ok_def)

lemma mdate_validD: "mdate_valid d \<Longrightarrow> date_ok d"
  by (simp add: mdate_valid_def)

lemma days_before_year_Suc [calendar]:
  "days_before_year (y + 1) = days_before_year y + 365 + (if 4 dvd y then 1 else 0)"
  by (simp add: days_before_year_def) presburger

lemma days_before_month_1 [simp]: "days_before_month y 1 = 0"
  by (simp add: days_before_month_def)

lemma days_before_month_Suc [calendar]:
  "1 \<le> m \<Longrightarrow> days_before_month y (m + 1) = days_before_month y m + month_days y m"
  using upto_rec2 [of 1 m] by (simp add: days_before_month_def)

lemma days_before_month_12 [calendar]:
  "days_before_month y 12 + 31 = 365 + (if 4 dvd y then 1 else 0)"
proof -
  have "[1..12 - 1] = [1::int, 2, 3, 4, 5, 6, 7, 8, 9, 10, 11]" by (simp add: upto_rec1)
  then show ?thesis
    by (simp add: days_before_month_def month_days_def)
qed

lemma month_days_12 [simp]: "month_days y 12 = 31"
  by (simp add: month_days_def)

text \<open>Day 0 of a month is the last day of the month before.\<close>

lemma ymd_next_month [calendar]:
  "1 \<le> m \<Longrightarrow> ymd_number y (m + 1) 0 = ymd_number y m (month_days y m)"
  by (simp add: ymd_number_def days_before_month_Suc)

lemma ymd_next_year [calendar]: "ymd_number (y + 1) 1 0 = ymd_number y 12 31"
  using days_before_month_12 [of y] by (simp add: ymd_number_def days_before_year_Suc)

lemma ymd_shift: "ymd_number y m d = ymd_number y m 0 + d"
  by (simp add: ymd_number_def)

section \<open>Adding and subtracting days\<close>

lemma AddDays_loop_correct:
  "0 < days \<Longrightarrow> 1 \<le> m \<Longrightarrow> m \<le> 12 \<Longrightarrow> 0 \<le> dm \<Longrightarrow> dm \<le> month_days y m \<Longrightarrow> dm + days \<le> INT_MAX \<Longrightarrow>
   \<exists>dm' m' y'. AddDays_loop days dm m y = Some (dm', m', y') \<and>
     1 \<le> m' \<and> m' \<le> 12 \<and> 1 \<le> dm' \<and> dm' \<le> month_days y' m' \<and> y \<le> y' \<and>
     ymd_number y' m' dm' = ymd_number y m dm + days"
proof (induction days dm m y rule: AddDays_loop.induct)
  case (1 days dm m y)
  let ?n = "month_days y m"
  have n: "mdate_GetDaysInMonth_1 m y = Some ?n" using "1.prems" by simp
  have n28: "28 \<le> ?n" using month_days_bounds "1.prems" by blast
  have add: "int_op (dm + days) = Some (dm + days)" using "1.prems" by simp
  show ?case
  proof (cases "dm + days > ?n")
    case False
    then show ?thesis
      using "1.prems" n by (subst AddDays_loop.simps) (simp add: ymd_number_def)
  next
    case big: True
    show ?thesis
    proof (cases "m + 1 > DECEMBER")
      case True
      then have m: "m = 12" using "1.prems" by simp
      have "\<exists>dm' m' y'. AddDays_loop (days - (?n - dm)) 0 JANUARY (y + 1) = Some (dm', m', y') \<and>
          1 \<le> m' \<and> m' \<le> 12 \<and> 1 \<le> dm' \<and> dm' \<le> month_days y' m' \<and> y + 1 \<le> y' \<and>
          ymd_number y' m' dm' = ymd_number (y + 1) 1 0 + (days - (?n - dm))"
        by (rule "1.IH"(1) [OF _ n add big True])
          (use "1.prems" big n28 month_days_bounds [of 1 "y + 1"] in auto)
      then show ?thesis
        using "1.prems" n big True m ymd_next_year [of y] ymd_shift [of y 12 31]
          ymd_shift [of y 12 dm]
        by (subst AddDays_loop.simps) force
    next
      case False
      then have m: "m + 1 \<le> 12" by simp
      have "\<exists>dm' m' y'. AddDays_loop (days - (?n - dm)) 0 (m + 1) y = Some (dm', m', y') \<and>
          1 \<le> m' \<and> m' \<le> 12 \<and> 1 \<le> dm' \<and> dm' \<le> month_days y' m' \<and> y \<le> y' \<and>
          ymd_number y' m' dm' = ymd_number y (m + 1) 0 + (days - (?n - dm))"
        by (rule "1.IH"(2) [OF _ n add big False])
          (use "1.prems" m big n28 month_days_bounds [of "m + 1" y] in auto)
      then show ?thesis
        using "1.prems" n big False ymd_next_month [of m y] ymd_shift [of y m ?n]
          ymd_shift [of y m dm]
        by (subst AddDays_loop.simps) force
    qed
  qed
qed

lemma SubtractDays_loop_correct:
  "1 \<le> m \<Longrightarrow> m \<le> 12 \<Longrightarrow> 1 \<le> dm \<Longrightarrow> dm \<le> month_days y m \<Longrightarrow> 0 \<le> days \<Longrightarrow>
   \<exists>dm' m' y'. SubtractDays_loop days dm m y = Some (dm', m', y') \<and>
     1 \<le> m' \<and> m' \<le> 12 \<and> 1 \<le> dm' \<and> dm' \<le> month_days y' m' \<and> y' \<le> y \<and>
     ymd_number y' m' dm' = ymd_number y m dm - days"
proof (induction days dm m y rule: SubtractDays_loop.induct)
  case (1 days dm m y)
  show ?case
  proof (cases "days > 0 \<and> days \<ge> dm")
    case False
    then show ?thesis
      using "1.prems" by (subst SubtractDays_loop.simps) (auto simp: ymd_number_def)
  next
    case ge: True
    define m' where "m' = (if m - 1 < JANUARY then DECEMBER else m - 1)"
    define y' where "y' = (if m - 1 < JANUARY then y - 1 else y)"
    have eq: "(m', y') = (if m - 1 < JANUARY then (DECEMBER, y - 1) else (m - 1, y))"
      by (simp add: m'_def y'_def)
    have m': "1 \<le> m'" "m' \<le> 12" using "1.prems" by (auto simp: m'_def)
    have n: "mdate_GetDaysInMonth_1 m' y' = Some (month_days y' m')" using m' by simp
    have prev: "ymd_number y' m' (month_days y' m') = ymd_number y m 0"
    proof (cases "m = 1")
      case True
      then show ?thesis using ymd_next_year [of "y - 1"] by (simp add: m'_def y'_def)
    next
      case False
      then show ?thesis
        using "1.prems" ymd_next_month [of "m - 1" y] by (simp add: m'_def y'_def)
    qed
    have "\<exists>dm'' m'' y''. SubtractDays_loop (days - dm) (month_days y' m') m' y' = Some (dm'', m'', y'') \<and>
        1 \<le> m'' \<and> m'' \<le> 12 \<and> 1 \<le> dm'' \<and> dm'' \<le> month_days y'' m'' \<and> y'' \<le> y' \<and>
        ymd_number y'' m'' dm'' = ymd_number y' m' (month_days y' m') - (days - dm)"
      by (rule "1.IH" [OF _ _ refl eq refl n])
        (use ge m' month_days_bounds [of m' y'] in auto)
    moreover have "SubtractDays_loop days dm m y =
        SubtractDays_loop (days - dm) (month_days y' m') m' y'"
      using ge n by (subst SubtractDays_loop.simps) (auto simp: m'_def y'_def)
    moreover have "y' \<le> y" by (simp add: y'_def)
    ultimately show ?thesis
      using prev ymd_shift [of y m dm] by force
  qed
qed

lemma mdate_AddDays_correct:
  assumes "mdate_valid d" "0 \<le> n" "dayOfMonth d + n \<le> INT_MAX"
  shows "\<exists>d'. mdate_AddDays d n = Some (True, d') \<and> date_ok d' \<and> year d \<le> year d' \<and>
    day_number d' = day_number d + n \<and> dayOfWeek d' = dayOfWeek d"
proof (cases "n = 0")
  case True
  with assms show ?thesis by (simp add: mdate_AddDays_def mdate_validD)
next
  case False
  then show ?thesis
    using assms AddDays_loop_correct [of n "month d" "dayOfMonth d" "year d"]
    by (auto simp: mdate_AddDays_def mdate_valid_def date_ok_def day_number_def)
qed

lemma mdate_AddDays_overflow:
  assumes "mdate_valid d" "0 < n" "INT_MAX < dayOfMonth d + n"
  shows "mdate_AddDays d n = None"
  using assms by (subst mdate_AddDays_def, subst AddDays_loop.simps)
    (simp add: mdate_valid_def date_ok_def)

lemma mdate_SubtractDays_correct:
  assumes "mdate_valid d" "0 \<le> n"
  shows "\<exists>d'. mdate_SubtractDays d n = Some (True, d') \<and> date_ok d' \<and> year d' \<le> year d \<and>
    day_number d' = day_number d - n \<and> dayOfWeek d' = dayOfWeek d"
proof (cases "n = 0")
  case True
  with assms show ?thesis by (simp add: mdate_SubtractDays_def mdate_validD)
next
  case False
  then show ?thesis
    using assms SubtractDays_loop_correct [of "month d" "dayOfMonth d" "year d" n]
    by (auto simp: mdate_SubtractDays_def mdate_valid_def date_ok_def day_number_def)
qed

text \<open>The error branches: an invalid date or a negative count leaves the date alone.\<close>

lemma mdate_AddDays_error:
  "\<not> mdate_valid d \<or> n < 0 \<Longrightarrow> mdate_AddDays d n = Some (False, d)"
  by (auto simp: mdate_AddDays_def)

lemma mdate_SubtractDays_error:
  "\<not> mdate_valid d \<or> n < 0 \<Longrightarrow> mdate_SubtractDays d n = Some (False, d)"
  by (auto simp: mdate_SubtractDays_def)

subsection \<open>Order and injectivity of day numbers\<close>

lemma days_before_month_mono:
  assumes "1 \<le> m" "m \<le> m'" "m' \<le> 13"
  shows "days_before_month y m \<le> days_before_month y m'"
proof -
  have "days_before_month y m \<le> days_before_month y (m + int k)" if "m + int k \<le> 13" for k
    using that
  proof (induction k)
    case (Suc k)
    have "0 \<le> month_days y (m + int k)"
      using Suc.prems assms month_days_bounds [of "m + int k" y] by simp
    then show ?case
      using Suc assms days_before_month_Suc [of "m + int k" y] by (simp add: ac_simps)
  qed simp
  from this [of "nat (m' - m)"] show ?thesis using assms by simp
qed

lemma days_before_year_mono: "y \<le> y' \<Longrightarrow> days_before_year y \<le> days_before_year y'"
  using zdiv_mono1 [of "y - 1" "y' - 1" 4] by (simp add: days_before_year_def)

lemma ymd_number_month_bounds:
  assumes "1 \<le> m" "m \<le> 12" "1 \<le> d" "d \<le> month_days y m"
  shows "days_before_month y m < ymd_number y m d - days_before_year y"
    "ymd_number y m d - days_before_year y \<le> days_before_month y (m + 1)"
  using assms by (auto simp: ymd_number_def days_before_month_Suc)

lemma ymd_number_year_bounds:
  assumes "1 \<le> m" "m \<le> 12" "1 \<le> d" "d \<le> month_days y m"
  shows "days_before_year y < ymd_number y m d" "ymd_number y m d \<le> days_before_year (y + 1)"
  using assms days_before_month_mono [of 1 m y] days_before_month_mono [of "m + 1" 13 y]
    days_before_month_12 [of y] days_before_month_Suc [of 12 y] days_before_year_Suc [of y]
    days_before_month_Suc [of m y]
  by (auto simp: ymd_number_def)

lemma day_number_less:
  assumes "date_ok a" "date_ok b" "mdate_IsLesser a b"
  shows "day_number a < day_number b"
proof -
  note bounds = ymd_number_year_bounds [of "month a" "dayOfMonth a" "year a"]
    ymd_number_year_bounds [of "month b" "dayOfMonth b" "year b"]
  note mbounds = ymd_number_month_bounds [of "month a" "dayOfMonth a" "year a"]
    ymd_number_month_bounds [of "month b" "dayOfMonth b" "year b"]
  from assms(3) consider "year a < year b" | "year a = year b" "month a < month b"
    | "year a = year b" "month a = month b" "dayOfMonth a < dayOfMonth b"
    by (auto simp: mdate_IsLesser_def split: if_splits)
  then show ?thesis
  proof cases
    case 1
    then have "days_before_year (year a + 1) \<le> days_before_year (year b)"
      by (simp add: days_before_year_mono)
    with bounds assms show ?thesis by (auto simp: date_ok_def day_number_def)
  next
    case 2
    then have "days_before_month (year a) (month a + 1) \<le> days_before_month (year a) (month b)"
      using assms by (intro days_before_month_mono) (auto simp: date_ok_def)
    with mbounds 2 assms show ?thesis by (auto simp: date_ok_def day_number_def)
  next
    case 3
    then show ?thesis by (simp add: day_number_def ymd_number_def)
  qed
qed

lemma mdate_trichotomy: "mdate_IsLesser a b \<or> mdate_IsEqual a b \<or> mdate_IsLesser b a"
  by (auto simp: mdate_IsLesser_def mdate_IsEqual_def)

lemma day_number_eq: "mdate_IsEqual a b \<Longrightarrow> day_number a = day_number b"
  by (simp add: mdate_IsEqual_def day_number_def)

lemma mdate_IsLesser_iff:
  assumes "date_ok a" "date_ok b"
  shows "mdate_IsLesser a b \<longleftrightarrow> day_number a < day_number b"
  using assms mdate_trichotomy [of a b] day_number_less [of a b] day_number_less [of b a]
    day_number_eq [of a b]
  by auto

lemma mdate_IsEqual_iff:
  assumes "date_ok a" "date_ok b"
  shows "mdate_IsEqual a b \<longleftrightarrow> day_number a = day_number b"
  using assms mdate_trichotomy [of a b] day_number_less [of a b] day_number_less [of b a]
    day_number_eq [of a b]
  by auto

lemma mdate_IsGreater_swap: "mdate_IsGreater a b = mdate_IsLesser b a"
  by (simp add: mdate_IsGreater_def mdate_IsLesser_def)

lemma mdate_IsNotEqual_neg: "mdate_IsNotEqual a b = (\<not> mdate_IsEqual a b)"
  by (auto simp: mdate_IsNotEqual_def mdate_IsEqual_def)

section \<open>Differences, months, years and the day of the week\<close>

lemma SameYear_loop_correct:
  "1 \<le> m \<Longrightarrow> m \<le> am \<Longrightarrow> am \<le> 12 \<Longrightarrow> 0 \<le> res \<Longrightarrow> res + 31 * (am - m) \<le> INT_MAX \<Longrightarrow>
   SameYear_loop m am y res = Some (res + days_before_month y am - days_before_month y m)"
proof (induction m am y res rule: SameYear_loop.induct)
  case (1 m am y res)
  show ?case
  proof (cases "m = am")
    case True
    then show ?thesis by (subst SameYear_loop.simps) simp
  next
    case False
    have bounds: "28 \<le> month_days y m" "month_days y m \<le> 31"
      using month_days_bounds [of m y] "1.prems" by auto
    then have op: "int_op (res + month_days y m) = Some (res + month_days y m)"
      using False "1.prems" by simp
    have "SameYear_loop (m + 1) am y (res + month_days y m) =
        Some (res + month_days y m + days_before_month y am - days_before_month y (m + 1))"
      using False "1.prems" bounds by (intro "1.IH" [OF False _ op]) auto
    then show ?thesis
      using False "1.prems" op by (subst SameYear_loop.simps) (simp add: days_before_month_Suc)
  qed
qed

lemma SameYearDateDifference_correct:
  assumes "date_ok a" "date_ok b" "year a = year b" "month b \<le> month a"
  shows "mdate_SameYearDateDifference a b = Some (day_number a - day_number b)"
proof -
  let ?n = "month_days (year b) (month b)"
  have a: "1 \<le> dayOfMonth a" "dayOfMonth a \<le> 31" "month a \<le> 12"
    and b: "1 \<le> dayOfMonth b" "dayOfMonth b \<le> ?n" "1 \<le> month b" "?n \<le> 31"
    using assms month_days_bounds [of "month a" "year a"] month_days_bounds [of "month b" "year b"]
    by (auto simp: date_ok_def)
  show ?thesis
  proof (cases "month a = month b")
    case True
    then show ?thesis
      using assms(3) a b by (simp add: mdate_SameYearDateDifference_def mdate_IsEqual_def day_number_def
          ymd_number_def)
  next
    case False
    let ?r = "?n - dayOfMonth b + days_before_month (year b) (month a) - days_before_month (year b) (month b + 1)"
    have loop: "SameYear_loop (month b + 1) (month a) (year b) (?n - dayOfMonth b) = Some ?r"
      using False assms(4) a b by (intro SameYear_loop_correct) auto
    have "days_before_month (year b) (month b + 1) \<le> days_before_month (year b) (month a)"
      "days_before_month (year b) (month a) \<le> days_before_month (year b) 12"
      "0 \<le> days_before_month (year b) (month b + 1)"
      using False assms(4) a b days_before_month_mono [of 1 "month b + 1" "year b"]
      by (auto intro!: days_before_month_mono)
    moreover have "days_before_month (year b) 12 \<le> 335"
      using days_before_month_12 [of "year b"] by (simp split: if_splits)
    ultimately have "0 \<le> ?r" "?r \<le> 400" using b by linarith+
    with loop show ?thesis
      using False assms a b days_before_month_Suc [of "month b" "year b"]
      by (simp add: mdate_SameYearDateDifference_def mdate_IsEqual_def GetDaysInMonth_eq day_number_def
          ymd_number_def)
  qed
qed

text \<open>The sum over the years is defined exactly as long as it fits an \<open>int\<close>.\<close>

lemma Year_loop_correct:
  "y \<le> y1 \<Longrightarrow> 0 \<le> res \<Longrightarrow> res \<le> INT_MAX \<Longrightarrow>
   Year_loop y y1 res = int_op (res + days_before_year y1 - days_before_year y)"
proof (induction "nat (y1 - y)" arbitrary: y res)
  case 0
  then show ?case by (simp add: Year_loop.simps)
next
  case (Suc k)
  let ?s = "res + 365 + (if 4 dvd y then 1 else 0)"
  have ne: "y \<noteq> y1" using Suc.hyps(2) by simp
  have s: "(if IS_LEAP_YEAR y then res + 366 else res + 365) = ?s" by simp
  have mono: "days_before_year (y + 1) \<le> days_before_year y1"
    using ne Suc.prems by (intro days_before_year_mono) simp
  show ?case
  proof (cases "?s \<le> INT_MAX")
    case True
    have "Year_loop (y + 1) y1 ?s = int_op (?s + days_before_year y1 - days_before_year (y + 1))"
      by (rule Suc.hyps(1)) (use Suc.hyps(2) Suc.prems ne True in auto)
    moreover have "Year_loop y y1 res = Year_loop (y + 1) y1 ?s"
      using ne s True Suc.prems by (subst Year_loop.simps) simp
    moreover have "?s + days_before_year y1 - days_before_year (y + 1) =
        res + days_before_year y1 - days_before_year y"
      using days_before_year_Suc [of y] by simp
    ultimately show ?thesis by (simp only:)
  next
    case False
    then have "Year_loop y y1 res = None"
      using ne s by (subst Year_loop.simps) simp
    moreover have "INT_MAX < res + days_before_year y1 - days_before_year y"
      using False mono days_before_year_Suc [of y] by linarith
    ultimately show ?thesis by simp
  qed
qed

lemma mdate_Set_eq:
  "mdate_Set d dm m y =
     Some (mdate_valid (d\<lparr>dayOfMonth := dm, month := m, year := y\<rparr>),
           d\<lparr>dayOfMonth := dm, month := m, year := y\<rparr>)"
  by (simp add: mdate_Set_def Let_def)

lemma date_ok_year_ends [simp]:
  "date_ok (d\<lparr>dayOfMonth := 31, month := 12, year := y\<rparr>)"
  "date_ok (d\<lparr>dayOfMonth := 1, month := 1, year := y\<rparr>)"
  using month_days_bounds [of 1 y] by (auto simp: date_ok_def)

lemma DateDifference_years:
  assumes "date_ok a" "date_ok b" "year b < year a"
  shows "date1_minus_date2 a b = int_op (day_number a - day_number b)"
proof -
  let ?e = "uninit_mdate\<lparr>dayOfMonth := 31, month := 12, year := year b\<rparr>"
  let ?f = "uninit_mdate\<lparr>dayOfMonth := 1, month := 1, year := year a\<rparr>"
  let ?r0 = "days_before_year (year a) - days_before_year (year b + 1)"
  let ?r1 = "day_number ?e - day_number b" and ?r2 = "day_number a - day_number ?f"
  have m: "month b \<le> 12" "1 \<le> month a" using assms by (auto simp: date_ok_def)
  have Y: "Year_loop (year b + 1) (year a) 0 = int_op ?r0"
    using assms(3) by (simp add: Year_loop_correct)
  have "days_before_year (year b + 1) \<le> days_before_year (year a)"
    using assms(3) by (intro days_before_year_mono) simp
  moreover have "day_number b \<le> day_number ?e" "day_number ?f \<le> day_number a"
    using assms(1,2) ymd_number_year_bounds [of "month b" "dayOfMonth b" "year b"] ymd_next_year [of "year b"]
      ymd_number_year_bounds [of "month a" "dayOfMonth a" "year a"]
    by (auto simp: day_number_def date_ok_def ymd_number_def)
  moreover have total: "?r0 + ?r1 + ?r2 + 1 = day_number a - day_number b"
    using days_before_month_12 [of "year b"] days_before_year_Suc [of "year b"]
    by (simp add: day_number_def ymd_number_def)
  ultimately show ?thesis
    using assms m Y
    by (simp add: date1_minus_date2_def mdate_Set_eq SameYearDateDifference_correct int_op_def)
qed

lemma date1_minus_date2_correct:
  assumes "date_ok a" "date_ok b" "mdate_IsLesser b a"
  shows "date1_minus_date2 a b = int_op (day_number a - day_number b)"
proof (cases "year b < year a")
  case True
  with assms show ?thesis by (simp add: DateDifference_years)
next
  case False
  with assms have y: "year a = year b" and m: "month b \<le> month a"
    by (auto simp: mdate_IsLesser_def split: if_splits)
  have "day_number b < day_number a" "day_number a \<le> days_before_year (year a + 1)"
    "days_before_year (year a) < day_number b"
    using assms day_number_less [of b a] y ymd_number_year_bounds [of "month b" "dayOfMonth b" "year b"]
      ymd_number_year_bounds [of "month a" "dayOfMonth a" "year a"]
    by (auto simp: day_number_def date_ok_def)
  then have op: "int_op (day_number a - day_number b) = Some (day_number a - day_number b)"
    using days_before_year_Suc [of "year a"] y by (simp split: if_splits)
  moreover have "int_op (dayOfMonth a - dayOfMonth b) = Some (day_number a - day_number b)"
    if "month a = month b"
  proof -
    have "dayOfMonth a - dayOfMonth b = day_number a - day_number b"
      using y that by (simp add: day_number_def ymd_number_def)
    with op show ?thesis by simp
  qed
  ultimately show ?thesis
    using assms y m by (simp add: date1_minus_date2_def SameYearDateDifference_correct)
qed

lemma mdate_IsLesser_asym: "mdate_IsLesser a b \<Longrightarrow> \<not> mdate_IsLesser b a \<and> \<not> mdate_IsEqual a b"
  by (auto simp: mdate_IsLesser_def mdate_IsEqual_def split: if_splits)

lemma DateDifference_correct:
  assumes "date_ok a" "date_ok b"
  shows "mdate_DateDifference a b =
    (if \<bar>day_number a - day_number b\<bar> \<le> INT_MAX then Some (day_number a - day_number b) else None)"
proof -
  consider "mdate_IsEqual a b" | "mdate_IsLesser a b" | "mdate_IsLesser b a"
    using mdate_trichotomy by blast
  then show ?thesis
  proof cases
    case 1
    then show ?thesis using day_number_eq [of a b] by (simp add: mdate_DateDifference_def)
  next
    case 2
    then show ?thesis
      using date1_minus_date2_correct [of b a] mdate_IsLesser_asym [of a b] assms
        day_number_less [of a b]
      by (auto simp: mdate_DateDifference_def int_op_def)
  next
    case 3
    then have "\<not> mdate_IsLesser a b" "\<not> mdate_IsEqual a b"
      using mdate_IsLesser_asym [of b a] by (auto simp: mdate_IsEqual_def)
    with 3 show ?thesis
      using date1_minus_date2_correct [of a b] day_number_less [of b a] assms
      by (auto simp: mdate_DateDifference_def int_op_def)
  qed
qed

text \<open>The dates the library accepts are less than four million days apart.\<close>

lemma valid_day_number:
  assumes "mdate_valid d"
  shows "0 < day_number d" "day_number d \<le> 3652134"
proof -
  have "days_before_year 1 \<le> days_before_year (year d)"
    "days_before_year (year d + 1) \<le> days_before_year 10000"
    using assms by (auto intro!: days_before_year_mono simp: mdate_valid_def)
  then show "0 < day_number d" "day_number d \<le> 3652134"
    using assms ymd_number_year_bounds [of "month d" "dayOfMonth d" "year d"]
    by (auto simp: mdate_valid_def date_ok_def day_number_def days_before_year_def)
qed

lemma valid_DateDifference:
  assumes "mdate_valid a" "mdate_valid b"
  shows "mdate_DateDifference a b = Some (day_number a - day_number b)"
  using assms DateDifference_correct [of a b] valid_day_number [of a] valid_day_number [of b]
  by (simp add: mdate_validD)

lemma date_ok_seed [simp]: "date_ok seedDate"
  using month_days_bounds [of 8 1947]
  by (simp add: date_ok_def seedDate_def month_days_def)

lemma valid_seed [simp]: "mdate_valid seedDate"
  using date_ok_seed by (simp add: mdate_valid_def) (simp add: seedDate_def)

lemma SeedDateDifference_correct:
  assumes "mdate_valid d"
  shows "mdate_SeedDateDifference d = Some (True, day_number d - day_number seedDate)"
  using assms valid_DateDifference [of d seedDate] day_number_eq [of d seedDate]
  by (simp add: mdate_SeedDateDifference_def)

lemma weekday_before:
  fixes n :: int
  assumes "n < 0"
  shows "(let r = (n * -1) smod 7 in if r \<le> 4 then 4 - r else 7 - (r - 4)) = (4 + n) mod 7"
proof -
  define r where "r = (- n) mod 7"
  have r: "0 \<le> r" "r < 7" by (simp_all add: r_def)
  have "(4 + n) mod 7 = (4 - r) mod 7"
    by (metis r_def diff_minus_eq_add mod_diff_right_eq)
  also have "\<dots> = (if r \<le> 4 then 4 - r else 7 - (r - 4))"
    using r by (smt (verit) mod_pos_pos_trivial mod_add_self2)
  finally have "(4 + n) mod 7 = (if r \<le> 4 then 4 - r else 7 - (r - 4))" .
  moreover have "(n * -1) smod 7 = r"
    using assms smod_nonneg [of "- n" 7] by (simp add: r_def del: minus_smod_eq)
  ultimately show ?thesis by (simp add: Let_def)
qed

lemma SetDayOfWeek_correct:
  assumes "mdate_valid d"
  shows "mdate_SetDayOfWeek d =
    Some (True, d\<lparr>dayOfWeek := (FRIDAY + (day_number d - day_number seedDate)) mod 7\<rparr>)"
proof (cases "mdate_IsEqual d seedDate")
  case True
  then show ?thesis
    using assms day_number_eq [of d seedDate]
    by (simp add: mdate_SetDayOfWeek_def seedDate_def)
next
  case False
  let ?n = "day_number d - day_number seedDate"
  have D: "mdate_DateDifference d seedDate = Some ?n"
    using assms by (simp add: valid_DateDifference)
  have dow: "dayOfWeek seedDate = 4" by (simp add: seedDate_def)
  show ?thesis
    using assms False D weekday_before [of ?n]
    by (cases "?n < 0")
      (simp_all add: mdate_SetDayOfWeek_def dow smod_nonneg Let_def split: if_splits)
qed

subsection \<open>Months and years\<close>

text \<open>Months counted from the start of the calendar.\<close>

definition month_index :: "mdate \<Rightarrow> int" where
  "month_index d = 12 * year d + (month d - 1)"

lemma min_day_ok:
  "1 \<le> dm \<Longrightarrow> 1 \<le> m \<Longrightarrow> m \<le> 12 \<Longrightarrow>
   date_ok (d\<lparr>dayOfMonth := min dm (month_days y m), month := m, year := y\<rparr>)"
  using month_days_bounds [of m y] by (auto simp: date_ok_def)

lemma min_as_if: "(if a > (b::int) then b else a) = min a b"
  by (simp add: min_def)

lemma AddMonths_correct:
  assumes "mdate_valid d" "0 \<le> n" "month d + n \<le> INT_MAX"
  shows "\<exists>d'. mdate_AddMonths d n = Some (True, d') \<and> date_ok d' \<and>
    month_index d' = month_index d + n \<and>
    dayOfMonth d' = min (dayOfMonth d) (month_days (year d') (month d'))"
proof (cases "n = 0")
  case True
  then show ?thesis
    using assms by (auto simp: mdate_AddMonths_def mdate_valid_def date_ok_def month_index_def)
next
  case False
  define q where "q = month d + n - 1"
  have q: "0 \<le> q" using assms by (auto simp: q_def mdate_valid_def date_ok_def)
  have m: "1 \<le> q mod 12 + 1" "q mod 12 + 1 \<le> 12"
    using pos_mod_bound [of 12 q] by (auto simp del: pos_mod_bound)
  define y where "y = year d + q div 12"
  have step: "mdate_AddMonths d n = Some (True, d\<lparr>dayOfMonth := min (dayOfMonth d)
      (month_days y (q mod 12 + 1)), month := q mod 12 + 1, year := y\<rparr>)"
    using assms False q m
    by (simp add: mdate_AddMonths_def Let_def sdiv_nonneg smod_nonneg min_as_if q_def y_def
        mdate_valid_def date_ok_def)
  have "12 * y + q mod 12 = 12 * year d + (month d - 1) + n"
    using mult_div_mod_eq [of 12 q] by (simp add: y_def q_def algebra_simps)
  moreover have "1 \<le> dayOfMonth d" using assms by (simp add: mdate_valid_def date_ok_def)
  ultimately show ?thesis
    using step min_day_ok [of "dayOfMonth d" "q mod 12 + 1" y d] m
    by (simp add: month_index_def)
qed

text \<open>Only a 29 February can be clipped when the year changes.\<close>

lemma month_days_other_year: "m \<noteq> 2 \<Longrightarrow> 1 \<le> m \<Longrightarrow> m \<le> 12 \<Longrightarrow> month_days y m = month_days y' m"
  by (auto simp: month_days_def)

text \<open>The day \<open>mdate_AddYears\<close> and \<open>mdate_SubtractYears\<close> keep or clip.\<close>

lemma year_clip:
  assumes "date_ok d"
  shows "(if month d = FEBRUARY
          then do { n \<leftarrow> mdate_GetDaysInMonth_1 (month d) y;
                    Some (True, d\<lparr>dayOfMonth := (if dayOfMonth d > n then n else dayOfMonth d),
                                  year := y\<rparr>) }
          else Some (True, d\<lparr>year := y\<rparr>)) =
    Some (True, d\<lparr>dayOfMonth := min (dayOfMonth d) (month_days y (month d)), year := y\<rparr>)"
  using assms month_days_other_year [of "month d" "year d" y]
  by (cases "month d = 2") (auto simp: date_ok_def min_def)

lemma year_clip_ok:
  assumes "date_ok d"
  shows "date_ok (d\<lparr>dayOfMonth := min (dayOfMonth d) (month_days y (month d)), year := y\<rparr>)"
  using assms month_days_bounds [of "month d" y] by (auto simp: date_ok_def)

lemma AddYears_correct:
  assumes "mdate_valid d" "0 \<le> n" "year d + n \<le> INT_MAX"
  shows "\<exists>d'. mdate_AddYears d n = Some (True, d') \<and> date_ok d' \<and>
    year d' = year d + n \<and> month d' = month d \<and>
    dayOfMonth d' = min (dayOfMonth d) (month_days (year d') (month d'))"
proof (cases "n = 0")
  case True
  then show ?thesis
    using assms by (simp add: mdate_AddYears_def mdate_valid_def date_ok_def)
next
  case False
  have ok: "date_ok d" using assms by (simp add: mdate_validD)
  have "int_op (year d + n) = Some (year d + n)" using assms by (simp add: mdate_valid_def)
  then show ?thesis
    using assms False year_clip [OF ok, of "year d + n"] year_clip_ok [OF ok, of "year d + n"]
    by (simp add: mdate_AddYears_def)
qed

lemma SubtractYears_correct:
  assumes "mdate_valid d" "0 \<le> n" "n < year d"
  shows "\<exists>d'. mdate_SubtractYears d n = Some (True, d') \<and> mdate_valid d' \<and>
    year d' = year d - n \<and> month d' = month d \<and>
    dayOfMonth d' = min (dayOfMonth d) (month_days (year d') (month d'))"
proof (cases "n = 0")
  case True
  then show ?thesis
    using assms by (simp add: mdate_SubtractYears_def mdate_valid_def date_ok_def)
next
  case False
  have ok: "date_ok d" using assms by (simp add: mdate_validD)
  have "year d < 10000" using assms by (simp add: mdate_valid_def)
  then show ?thesis
    using assms False year_clip [OF ok, of "year d - n"] year_clip_ok [OF ok, of "year d - n"]
    by (simp add: mdate_SubtractYears_def Let_def mdate_valid_def)
qed

lemma SubtractYears_error:
  assumes "mdate_valid d" "0 < n" "year d \<le> n"
  shows "mdate_SubtractYears d n = Some (False, d)"
  using assms by (simp add: mdate_SubtractYears_def)

lemma GetDaysInMonth_1_above: "12 < m \<Longrightarrow> mdate_GetDaysInMonth_1 m y = None"
  by (simp add: mdate_GetDaysInMonth_1_def array_get_def mdate_NoOfDaysInMonth_LY_def
      mdate_NoOfDaysInMonth_NLY_def)

lemma SubtractMonths_reads_outside:
  assumes "mdate_valid d" "0 < n" "n mod 12 < month d"
  shows "mdate_SubtractMonths d n = None"
  using assms
  by (auto simp: mdate_SubtractMonths_def smod_nonneg Let_def GetDaysInMonth_1_above
      split: if_splits)

lemma SubtractMonths_borrow:
  assumes "mdate_valid d" "0 < n" "month d \<le> n mod 12"
  shows "\<exists>d'. mdate_SubtractMonths d n = Some (True, d') \<and> date_ok d' \<and>
    month_index d' = month_index d - n + (if 12 + month d \<le> 2 * (n mod 12) then 0 else 12)"
proof -
  define r where "r = n mod 12"
  define y where "y = (if 12 - r + month d - r < 1 then year d - n div 12 - 1
                       else year d - n div 12)"
  have r: "r < 12" "month d \<le> r" "1 \<le> month d" "1 \<le> dayOfMonth d"
    using assms by (auto simp: r_def mdate_valid_def date_ok_def)
  have n: "n = 12 * (n div 12) + r" by (simp add: r_def)
  have m: "1 \<le> 12 - r + month d" "12 - r + month d \<le> 12" using r by auto
  have step: "mdate_SubtractMonths d n = Some (True, d\<lparr>dayOfMonth := min (dayOfMonth d)
      (month_days y (12 - r + month d)), month := 12 - r + month d, year := y\<rparr>)"
    using assms m r
    by (simp add: mdate_SubtractMonths_def smod_nonneg sdiv_nonneg Let_def r_def [symmetric]
        y_def min_as_if)
  have "12 * y + (12 - r + month d - 1) =
      12 * year d + (month d - 1) - n + (if 12 + month d \<le> 2 * r then 0 else 12)"
    using n by (auto simp: y_def)
  with step min_day_ok [OF r(4) m] show ?thesis
    by (auto simp: month_index_def r_def [symmetric])
qed

section \<open>The day numbers of the two calendars\<close>

text \<open>The closed formula and the count by years and months number the days alike.\<close>

lemma days_before_month_march:
  assumes "1 \<le> m" "m \<le> 12"
  shows "days_before_month y m =
    (if m \<le> 2 then 31 * (m - 1) else 59 + (if 4 dvd y then 1 else 0) + (153 * (m - 3) + 2) div 5)"
  by (cases rule: month_cases [OF assms]) (simp_all add: days_before_month_def upto_rec1 month_days_def)

lemma quarter: "(y :: int) div 4 = (y - 1) div 4 + (if 4 dvd y then 1 else 0)"
  by presburger

lemma julian_day_number:
  assumes "1 \<le> month d" "month d \<le> 12"
  shows "julian_day d = day_number d + 1721423"
proof -
  have "(y + 4800) div 4 = y div 4 + 1200" "(y + 4800 - 1) div 4 = (y - 1) div 4 + 1200" for y :: int
    by presburger+
  then show ?thesis
    using days_before_month_march [OF assms, of "year d"] quarter [of "year d"]
    by (cases rule: month_cases [OF assms])
      (simp_all add: julian_day_def march_year_def march_days_def day_number_def ymd_number_def
        days_before_year_def)
qed

lemma date_ok_julian: "date_ok d \<Longrightarrow> julian_day d = day_number d + 1721423"
  by (simp add: date_ok_def julian_day_number)

text \<open>The dates from 1 March 1900 to 28 February 2100.\<close>

definition civil_range :: "mdate \<Rightarrow> bool" where
  "civil_range d \<longleftrightarrow>
     (1900 < year d \<or> year d = 1900 \<and> 3 \<le> month d) \<and>
     (year d < 2100 \<or> year d = 2100 \<and> (month d = 1 \<or> month d = 2 \<and> dayOfMonth d \<le> 28))"

lemma civil_march_year: "civil_range d \<Longrightarrow> 6700 \<le> march_year d \<and> march_year d < 6900"
  by (auto simp: civil_range_def march_year_def)

lemma gregorian_julian:
  assumes "civil_range d"
  shows "gregorian_day d = julian_day d - 13"
proof -
  have "y div 400 = y div 100 - 51" if "6700 \<le> y" "y < 6900" for y :: int
  proof (cases "y < 6800")
    case True
    then have "y div 100 = 67" "y div 400 = 16"
      using that int_div_pos_eq [of y 100 67 "y - 6700"] int_div_pos_eq [of y 400 16 "y - 6400"]
      by auto
    then show ?thesis by simp
  next
    case False
    then have "y div 100 = 68" "y div 400 = 17"
      using that int_div_pos_eq [of y 100 68 "y - 6800"] int_div_pos_eq [of y 400 17 "y - 6800"]
      by auto
    then show ?thesis by simp
  qed
  then show ?thesis
    using civil_march_year [OF assms] by (simp add: gregorian_day_def julian_day_def)
qed

section \<open>Round trips and properties\<close>

lemma day_number_inj:
  assumes "date_ok a" "date_ok b" "day_number a = day_number b" "dayOfWeek a = dayOfWeek b"
  shows "a = b"
  using assms mdate_IsEqual_iff [of a b]
  by (cases a; cases b) (simp add: mdate_IsEqual_def)

lemma mdate_AddDays_Some:
  assumes "mdate_valid d" "0 \<le> n" "mdate_AddDays d n = Some (True, d')"
  shows "date_ok d' \<and> year d \<le> year d' \<and> day_number d' = day_number d + n \<and>
    dayOfWeek d' = dayOfWeek d"
proof -
  have "dayOfMonth d \<le> 31"
    using assms(1) month_days_bounds [of "month d" "year d"] by (auto simp: mdate_valid_def date_ok_def)
  then have "n = 0 \<or> dayOfMonth d + n \<le> INT_MAX"
    using mdate_AddDays_overflow [of d n] assms by (cases "n = 0") force+
  then show ?thesis
    using mdate_AddDays_correct [of d n] assms \<open>dayOfMonth d \<le> 31\<close> by auto
qed

lemma Add_then_Subtract:
  assumes "mdate_valid d" "0 \<le> n" "mdate_AddDays d n = Some (True, d')" "year d' < 10000"
  shows "mdate_SubtractDays d' n = Some (True, d)"
proof -
  have d': "date_ok d'" "year d \<le> year d'" "day_number d' = day_number d + n"
      "dayOfWeek d' = dayOfWeek d"
    using mdate_AddDays_Some [OF assms(1,2,3)] by auto
  then have "mdate_valid d'"
    using assms by (simp add: mdate_valid_def)
  then obtain e where "mdate_SubtractDays d' n = Some (True, e)" "date_ok e"
      "day_number e = day_number d" "dayOfWeek e = dayOfWeek d"
    using mdate_SubtractDays_correct [of d' n] assms(2) d' by auto
  then show ?thesis
    using day_number_inj [of e d] assms(1) by (simp add: mdate_validD)
qed

text \<open>C20: \<open>mdate_AddDays\<close> on a valid date and a non-negative count, as long as the sum of the
  day of the month and the count fits an \<open>int\<close>: the loop ends, the tables are read in range, the
  result is true and the date is the existing one that many days later in the Julian calendar
  (every fourth year a leap year), its day of the week left as it was. If the sum does not fit, the
  addition overflows and the behaviour is undefined.\<close>

theorem mdate_AddDays_moves_day_number:
  assumes "mdate_valid d" "0 \<le> n"
  shows "if dayOfMonth d + n \<le> INT_MAX
    then \<exists>d'. mdate_AddDays d n = Some (True, d') \<and> date_ok d' \<and>
      julian_day d' = julian_day d + n \<and> dayOfWeek d' = dayOfWeek d
    else mdate_AddDays d n = None"
proof (cases "dayOfMonth d + n \<le> INT_MAX")
  case True
  then show ?thesis
    using mdate_AddDays_correct [OF assms] assms by (auto simp: date_ok_julian mdate_validD)
next
  case False
  have "dayOfMonth d \<le> 31"
    using assms(1) month_days_bounds [of "month d" "year d"] by (auto simp: mdate_valid_def date_ok_def)
  with False show ?thesis using mdate_AddDays_overflow [of d n] assms by simp
qed

theorem mdate_AddDays_moves_day_number_witness:
  "\<exists>d'. mdate_AddDays \<lparr>dayOfMonth = 30, month = 12, year = 1999, dayOfWeek = 3\<rparr> 900 = Some (True, d') \<and>
     date_ok d' \<and>
     julian_day d' = julian_day \<lparr>dayOfMonth = 30, month = 12, year = 1999, dayOfWeek = 3\<rparr> + 900 \<and>
     dayOfWeek d' = 3"
  using mdate_AddDays_moves_day_number
    [of "\<lparr>dayOfMonth = 30, month = 12, year = 1999, dayOfWeek = 3\<rparr>" 900]
  by (simp add: mdate_valid_def date_ok_def)

text \<open>C21: \<open>mdate_DateDifference\<close> of any two dates that exist in the Julian calendar is the signed
  number of its days between them when that fits an \<open>int\<close>, and an overflow otherwise; for two dates
  from 1 March 1900 to 28 February 2100 it is the number of days of the Gregorian calendar.\<close>

theorem mdate_DateDifference_is_day_count:
  assumes "date_ok a" "date_ok b"
  shows "mdate_DateDifference a b =
      (if \<bar>julian_day a - julian_day b\<bar> \<le> INT_MAX then Some (julian_day a - julian_day b) else None) \<and>
    (civil_range a \<and> civil_range b \<longrightarrow>
      mdate_DateDifference a b = Some (gregorian_day a - gregorian_day b))"
proof -
  have "mdate_valid c" if "civil_range c" "date_ok c" for c
    using that by (auto simp: civil_range_def mdate_valid_def)
  then show ?thesis
    using assms DateDifference_correct [OF assms] valid_DateDifference [of a b]
    by (simp add: date_ok_julian gregorian_julian)
qed

lemma date_differences:
  "julian_day \<lparr>dayOfMonth = 31, month = 12, year = 2023, dayOfWeek = 0\<rparr> - julian_day seedDate = 27897"
  "gregorian_day \<lparr>dayOfMonth = 31, month = 12, year = 2023, dayOfWeek = 0\<rparr> - gregorian_day seedDate = 27897"
  "civil_range \<lparr>dayOfMonth = 31, month = 12, year = 2023, dayOfWeek = 0\<rparr>" "civil_range seedDate"
  "date_ok \<lparr>dayOfMonth = 31, month = 12, year = 2023, dayOfWeek = 0\<rparr>"
  by (simp_all add: date_ok_def seedDate_def julian_day_def gregorian_day_def march_year_def march_days_def
      civil_range_def)

theorem mdate_DateDifference_is_day_count_witness:
  "mdate_DateDifference \<lparr>dayOfMonth = 31, month = 12, year = 2023, dayOfWeek = 0\<rparr> seedDate = Some 27897"
  using mdate_DateDifference_is_day_count
    [of "\<lparr>dayOfMonth = 31, month = 12, year = 2023, dayOfWeek = 0\<rparr>" seedDate]
  by (simp add: date_differences)

text \<open>C26: when \<open>mdate_AddDays\<close> of a non-negative count to a valid date returns true with a year
  below 10000, subtracting the same count restores the date, and the difference of the two dates
  is that count.\<close>

theorem mdate_AddDays_SubtractDays_roundtrip:
  assumes "mdate_valid d" "0 \<le> n" "mdate_AddDays d n = Some (True, d')" "year d' < 10000"
  shows "mdate_SubtractDays d' n = Some (True, d) \<and> mdate_DateDifference d' d = Some n"
proof
  show "mdate_SubtractDays d' n = Some (True, d)" by (rule Add_then_Subtract [OF assms])
  have "mdate_valid d'" "day_number d' = day_number d + n"
    using mdate_AddDays_Some [OF assms(1,2,3)] assms(1,4) by (auto simp: mdate_valid_def)
  then show "mdate_DateDifference d' d = Some n"
    using assms(1) by (simp add: valid_DateDifference)
qed

lemma AddDays_31_Jan:
  "mdate_AddDays \<lparr>dayOfMonth = 31, month = 1, year = 2023, dayOfWeek = 0\<rparr> 1 =
   Some (True, \<lparr>dayOfMonth = 1, month = 2, year = 2023, dayOfWeek = 0\<rparr>)"
  by (simp add: mdate_AddDays_def AddDays_loop.simps mdate_valid_def date_ok_def month_days_def
      mdate_NoOfDaysInMonth_NLY_def)

theorem mdate_AddDays_SubtractDays_roundtrip_witness:
  "mdate_SubtractDays \<lparr>dayOfMonth = 1, month = 2, year = 2023, dayOfWeek = 0\<rparr> 1 =
     Some (True, \<lparr>dayOfMonth = 31, month = 1, year = 2023, dayOfWeek = 0\<rparr>) \<and>
   mdate_DateDifference \<lparr>dayOfMonth = 1, month = 2, year = 2023, dayOfWeek = 0\<rparr>
     \<lparr>dayOfMonth = 31, month = 1, year = 2023, dayOfWeek = 0\<rparr> = Some 1"
  by (rule mdate_AddDays_SubtractDays_roundtrip [OF _ _ AddDays_31_Jan])
    (simp_all add: mdate_valid_def date_ok_def month_days_def mdate_NoOfDaysInMonth_NLY_def)

text \<open>\<open>mdate_SetDayOfWeek\<close> stores the weekday that lies the right number of days, modulo 7,
  from the seed date's Friday, for dates before and after the seed.\<close>

theorem mdate_SetDayOfWeek_counts_from_seed:
  assumes "mdate_valid d"
  shows "mdate_SetDayOfWeek d =
    Some (True, d\<lparr>dayOfWeek := (FRIDAY + (day_number d - day_number seedDate)) mod 7\<rparr>)"
  using assms by (rule SetDayOfWeek_correct)

theorem mdate_SetDayOfWeek_counts_from_seed_witness:
  "mdate_SetDayOfWeek \<lparr>dayOfMonth = 1, month = 1, year = 1900, dayOfWeek = 0\<rparr> =
   Some (True, \<lparr>dayOfMonth = 1, month = 1, year = 1900, dayOfWeek =
     (FRIDAY + (day_number \<lparr>dayOfMonth = 1, month = 1, year = 1900, dayOfWeek = 0\<rparr>
       - day_number seedDate)) mod 7\<rparr>)"
  using mdate_SetDayOfWeek_counts_from_seed
    [of "\<lparr>dayOfMonth = 1, month = 1, year = 1900, dayOfWeek = 0\<rparr>"]
  by (simp add: mdate_valid_def date_ok_def month_days_def mdate_NoOfDaysInMonth_LY_def)

text \<open>C27: \<open>mdate_SubtractMonths\<close> does not wrap the month it computes: whenever the date's month
  is greater than the count modulo 12, it indexes the month tables past December; otherwise it
  borrows a year only if the new month does not exceed the count, and so can come out a year
  late.\<close>

theorem mdate_SubtractMonths_months_not_wrapped:
  assumes "mdate_valid d" "0 < n"
  shows "if n mod 12 < month d then mdate_SubtractMonths d n = None
    else \<exists>d'. mdate_SubtractMonths d n = Some (True, d') \<and> date_ok d' \<and>
      month_index d' = month_index d - n + (if 12 + month d \<le> 2 * (n mod 12) then 0 else 12)"
  using assms SubtractMonths_reads_outside [OF assms] SubtractMonths_borrow [OF assms] by auto

theorem mdate_SubtractMonths_months_not_wrapped_witness:
  "mdate_SubtractMonths \<lparr>dayOfMonth = 15, month = 5, year = 2000, dayOfWeek = 0\<rparr> 1 = None"
  using mdate_SubtractMonths_months_not_wrapped
    [of "\<lparr>dayOfMonth = 15, month = 5, year = 2000, dayOfWeek = 0\<rparr>" 1]
  by (simp add: mdate_valid_def date_ok_def month_days_def mdate_NoOfDaysInMonth_LY_def)

end
