(* ===== verification/ByteMem.thy ===== *)
theory ByteMem
  imports Prelude
begin

text \<open>
  The flat 32-bit memory of the kernel, byte by byte: the heap headers, the page directories
  and page tables and the file system's boot block are read and written through pointers
  into it. A pointer is a \<open>u32\<close>, pointer arithmetic wraps, and \<open>unsigned\<close> objects are stored
  with the least significant byte first, as the i386 does.

  Addresses of the lemmas are natural numbers; \<open>of_nat a\<close> is the pointer.
\<close>

type_synonym memory = "u32 \<Rightarrow> u8"

definition load32 :: "memory \<Rightarrow> u32 \<Rightarrow> u32" where
  "load32 m a = ucast (m a) OR push_bit 8 (ucast (m (a + 1))) OR
     push_bit 16 (ucast (m (a + 2))) OR push_bit 24 (ucast (m (a + 3)))"

definition store32 :: "memory \<Rightarrow> u32 \<Rightarrow> u32 \<Rightarrow> memory" where
  "store32 m a v = m(a := ucast v, a + 1 := ucast (drop_bit 8 v),
     a + 2 := ucast (drop_bit 16 v), a + 3 := ucast (drop_bit 24 v))"

lemma word_bytes_join:
  fixes v :: u32
  shows "ucast (ucast v :: u8) OR push_bit 8 (ucast (ucast (drop_bit 8 v) :: u8)) OR
     push_bit 16 (ucast (ucast (drop_bit 16 v) :: u8)) OR
     push_bit 24 (ucast (ucast (drop_bit 24 v) :: u8)) = v"
proof (rule bit_word_eqI)
  fix n assume "n < LENGTH(32)"
  then show "bit (ucast (ucast v :: u8) OR push_bit 8 (ucast (ucast (drop_bit 8 v) :: u8)) OR
     push_bit 16 (ucast (ucast (drop_bit 16 v) :: u8)) OR
     push_bit 24 (ucast (ucast (drop_bit 24 v) :: u8)) :: u32) n = bit v n"
    by (cases "n < 24"; cases "n < 16")
      (auto simp: bit_or_iff bit_push_bit_iff bit_ucast_iff bit_drop_bit_eq)
qed

lemma load32_store32_same [simp]: "load32 (store32 m a v) a = v"
  using word_bytes_join [of v]
  by (simp add: load32_def store32_def)

text \<open>The bytes a store of four bytes at \<open>a\<close> touches.\<close>

definition span :: "nat \<Rightarrow> nat \<Rightarrow> u32 set" where
  "span a n = of_nat ` {a ..< a + n}"

lemma span_iff:
  "a + n \<le> 4294967296 \<Longrightarrow> x \<in> span a n \<longleftrightarrow> a \<le> unat x \<and> unat x < a + n"
proof
  assume b: "a + n \<le> 4294967296"
  {
    assume "x \<in> span a n"
    then obtain i where "a \<le> i" "i < a + n" "x = of_nat i" by (auto simp: span_def)
    with b show "a \<le> unat x \<and> unat x < a + n" by (simp add: of_nat_unat_u32)
  next
    assume "a \<le> unat x \<and> unat x < a + n"
    then show "x \<in> span a n"
      unfolding span_def by (intro image_eqI [of _ _ "unat x"]) auto
  }
qed

lemma store32_outside:
  assumes "x \<notin> span a 4"
  shows "store32 m (of_nat a) v x = m x"
proof -
  have "of_nat a \<in> span a 4" "of_nat a + 1 \<in> span a 4" "of_nat a + 2 \<in> span a 4"
      "of_nat a + 3 \<in> span a 4"
    unfolding span_def
    by (auto intro: image_eqI [of _ _ a] image_eqI [of _ _ "a + 1"] image_eqI [of _ _ "a + 2"]
        image_eqI [of _ _ "a + 3"])
  then have "x \<noteq> of_nat a" "x \<noteq> of_nat a + 1" "x \<noteq> of_nat a + 2" "x \<noteq> of_nat a + 3"
    using assms by auto
  then show ?thesis by (simp add: store32_def)
qed

lemma load32_cong:
  assumes "\<And>x. x \<in> span a 4 \<Longrightarrow> m x = m' x"
  shows "load32 m (of_nat a) = load32 m' (of_nat a)"
proof -
  have "of_nat a \<in> span a 4" "of_nat a + 1 \<in> span a 4" "of_nat a + 2 \<in> span a 4"
      "of_nat a + 3 \<in> span a 4"
    unfolding span_def
    by (auto intro: image_eqI [of _ _ a] image_eqI [of _ _ "a + 1"] image_eqI [of _ _ "a + 2"]
        image_eqI [of _ _ "a + 3"])
  then show ?thesis using assms by (simp add: load32_def)
qed

lemma span_disjoint:
  assumes "a + k \<le> b \<or> b + n \<le> a" "a + k \<le> 4294967296" "b + n \<le> 4294967296"
  shows "span a k \<inter> span b n = {}"
  using assms by (auto simp: span_iff)

lemma span_mono: "a \<le> b \<Longrightarrow> b + k \<le> a + n \<Longrightarrow> span b k \<subseteq> span a n"
  by (auto simp: span_def)

lemma load32_store32_other:
  assumes "a + 4 \<le> b \<or> b + 4 \<le> a" "a + 4 \<le> 4294967296" "b + 4 \<le> 4294967296"
  shows "load32 (store32 m (of_nat b) v) (of_nat a) = load32 m (of_nat a)"
proof (rule load32_cong)
  fix x assume "x \<in> span a 4"
  moreover have "span a 4 \<inter> span b 4 = {}" by (rule span_disjoint [OF assms])
  ultimately show "store32 m (of_nat b) v x = m x" by (intro store32_outside) blast
qed

end
