(* ===== verification/Heap.thy ===== *)
theory Heap
  imports ByteMem
begin

text \<open>
  The dynamic memory manager \<open>memory/DMM.cpp\<close>: the kernel heap and the user process heaps are
  first-fit allocators over a singly linked list of free chunks. A chunk carries its
  \<open>AllocationUnitTracker\<close> header (16 bytes) in the memory it manages: a free chunk at its start,
  an allocated one right before the address handed out. The fourth word of the header is a
  union: the next free chunk, or the number of bytes skipped for alignment.

  \<open>heap_state\<close> is the memory and the list head (\<open>m_uiKernelAUTAddress\<close> of the memory manager,
  \<open>_uiAUTAddress\<close> of a process); a list that is not NULL-terminated makes the walk diverge
  (\<open>None\<close>). Interrupt masking and the heap mutex are not modelled: an operation is one step.

  The lemmas relate the memory to the lists of free and live chunks (\<open>heap_ok\<close>): the chunks
  tile the heap, and every operation keeps the contents of every live chunk.
\<close>

section \<open>The allocator\<close>

subsection \<open>Headers\<close>

datatype dmm_result = DMM_SUCCESS | DMM_BAD_DEALLOC | DMM_BAD_ALIGN | DMM_FAILURE

datatype dmm_error = NotPowerOfTwoAligned u32 | OutOfMemory

record AllocationUnitTracker =
  uiAllocatedAddress :: u32
  uiReturnAddress :: u32
  uiSize :: u32
  uiNextAUTAddress :: u32 \<comment> \<open>in a union with \<open>uiByteStuffForAlign\<close>\<close>

abbreviation (input) uiByteStuffForAlign :: "AllocationUnitTracker \<Rightarrow> u32" where
  "uiByteStuffForAlign \<equiv> uiNextAUTAddress"

abbreviation (input) AUT_SIZE :: u32 where "AUT_SIZE \<equiv> 16"
abbreviation (input) MEM_KERNEL_HEAP_SIZE :: u32 where "MEM_KERNEL_HEAP_SIZE \<equiv> 0x3000000"
abbreviation (input) PROCESS_HEAP_START_ADDRESS :: u32 where
  "PROCESS_HEAP_START_ADDRESS \<equiv> 0x80000000"
abbreviation (input) PROCESS_HEAP_SIZE :: u32 where "PROCESS_HEAP_SIZE \<equiv> 0x40000000"
abbreviation (input) PROCESS_BASE :: u32 where "PROCESS_BASE \<equiv> 0x8000000"
abbreviation (input) PAGE_SIZE :: u32 where "PAGE_SIZE \<equiv> 4096"

definition AUT_at :: "memory \<Rightarrow> u32 \<Rightarrow> AllocationUnitTracker" where
  "AUT_at m p = \<lparr>uiAllocatedAddress = load32 m p, uiReturnAddress = load32 m (p + 4),
     uiSize = load32 m (p + 8), uiNextAUTAddress = load32 m (p + 12)\<rparr>"

definition put_AUT :: "memory \<Rightarrow> u32 \<Rightarrow> AllocationUnitTracker \<Rightarrow> memory" where
  "put_AUT m p t = store32 (store32 (store32 (store32 m
     p (uiAllocatedAddress t)) (p + 4) (uiReturnAddress t)) (p + 8) (uiSize t))
     (p + 12) (uiNextAUTAddress t)"

definition set_uiSize :: "memory \<Rightarrow> u32 \<Rightarrow> u32 \<Rightarrow> memory" where
  "set_uiSize m p v = store32 m (p + 8) v"

definition set_uiNextAUTAddress :: "memory \<Rightarrow> u32 \<Rightarrow> u32 \<Rightarrow> memory" where
  "set_uiNextAUTAddress m p v = store32 m (p + 12) v"

record heap_state =
  mem :: memory
  AUTAddress :: u32

subsection \<open>Operations\<close>

definition DMM_GetByteStuffForAlign :: "u32 \<Rightarrow> u32 \<Rightarrow> u32" where
  "DMM_GetByteStuffForAlign uiAddress uiAlignNumber =
     (if uiAlignNumber \<noteq> 0 then
        let uiAlignMod = uiAddress mod uiAlignNumber
        in if uiAlignMod \<noteq> 0 then uiAlignNumber - uiAlignMod else 0
      else 0)"

definition IsPowerOfTwo :: "u32 \<Rightarrow> bool" where
  "IsPowerOfTwo n \<longleftrightarrow> n AND (n - 1) = 0"

definition DMM_CheckAlignNumber :: "u32 \<Rightarrow> dmm_error + unit" where
  "DMM_CheckAlignNumber uiAlignNumber =
     (if uiAlignNumber = 0 then Inr ()
      else if IsPowerOfTwo uiAlignNumber then Inr ()
      else Inl (NotPowerOfTwoAligned uiAlignNumber))"

text \<open>The dedicated head node, written when the list head is NULL.\<close>

definition InitHead :: "u32 \<Rightarrow> u32 \<Rightarrow> 'a heap_state_scheme \<Rightarrow> 'a heap_state_scheme" where
  "InitHead uiHeapStartAddress heapSize h =
     (if AUTAddress h = 0 then
        h\<lparr>mem := put_AUT (mem h) uiHeapStartAddress
                   \<lparr>uiAllocatedAddress = uiHeapStartAddress, uiReturnAddress = 0,
                    uiSize = heapSize, uiNextAUTAddress = 0\<rparr>,
          AUTAddress := uiHeapStartAddress\<rparr>
      else h)"

text \<open>The body of the walk for a chunk that fits: the allocated header, and either a new free
  chunk behind it or, when at most 17 bytes remain, the whole chunk.\<close>

definition TakeChunk ::
  "u32 \<Rightarrow> u32 \<Rightarrow> u32 \<Rightarrow> u32 \<Rightarrow> u32 \<Rightarrow> u32 \<Rightarrow> 'a heap_state_scheme \<Rightarrow> 'a heap_state_scheme" where
  "TakeChunk uiAddress uiMaxSize uiNext uiByteStuff need prevAut h =
     (let allocAUT = uiAddress + uiByteStuff;
          m = put_AUT (mem h) allocAUT
                \<lparr>uiAllocatedAddress = uiAddress,
                 uiReturnAddress = uiAddress + AUT_SIZE + uiByteStuff,
                 uiSize = need, uiNextAUTAddress = uiByteStuff\<rparr>;
          uiRemaining = uiMaxSize - need
      in if uiRemaining > AUT_SIZE + 1 then
           let freeAUT = uiAddress + need;
               m = put_AUT m freeAUT
                     \<lparr>uiAllocatedAddress = uiAddress + need, uiReturnAddress = 0,
                      uiSize = uiRemaining, uiNextAUTAddress = uiNext\<rparr>;
               new = uiAllocatedAddress (AUT_at m freeAUT)
           in if prevAut = 0 then h\<lparr>mem := m, AUTAddress := new\<rparr>
              else h\<lparr>mem := set_uiNextAUTAddress m prevAut new\<rparr>
         else
           let m = set_uiSize m allocAUT (uiSize (AUT_at m allocAUT) + uiRemaining)
           in if prevAut = 0 then h\<lparr>mem := m, AUTAddress := uiNext\<rparr>
              else h\<lparr>mem := set_uiNextAUTAddress m prevAut uiNext\<rparr>)"

text \<open>The walk over the free list; it returns \<open>aut\<close> and \<open>allocAUT\<close> of the chunk taken.\<close>

partial_function (option) Allocate_loop ::
  "u32 \<Rightarrow> u32 \<Rightarrow> u32 \<Rightarrow> u32 \<Rightarrow> 'a heap_state_scheme \<Rightarrow>
   ((dmm_error + u32 \<times> u32) \<times> 'a heap_state_scheme) option" where
  "Allocate_loop uiSizeInBytes uiAlignNumber aut prevAut h =
     (if aut = 0 then Some (Inl OutOfMemory, h)
      else
        let t = AUT_at (mem h) aut;
            uiAddress = uiAllocatedAddress t;
            uiMaxSize = uiSize t;
            uiNext = uiNextAUTAddress t;
            uiByteStuff = DMM_GetByteStuffForAlign (uiAddress + AUT_SIZE) uiAlignNumber;
            need = uiSizeInBytes + AUT_SIZE + uiByteStuff
        in if need \<le> uiMaxSize then
             Some (Inr (aut, uiAddress + uiByteStuff),
                   TakeChunk uiAddress uiMaxSize uiNext uiByteStuff need prevAut h)
           else Allocate_loop uiSizeInBytes uiAlignNumber uiNext aut h)"

definition DMM_AllocateForKernel ::
  "u32 \<Rightarrow> u32 \<Rightarrow> u32 \<Rightarrow> heap_state \<Rightarrow> ((dmm_error + u32) \<times> heap_state) option" where
  "DMM_AllocateForKernel heapStart uiSizeInBytes uiAlignNumber h =
     (case DMM_CheckAlignNumber uiAlignNumber of
        Inl e \<Rightarrow> Some (Inl e, h)
      | Inr _ \<Rightarrow>
          let h = InitHead heapStart MEM_KERNEL_HEAP_SIZE h
          in case Allocate_loop uiSizeInBytes uiAlignNumber (AUTAddress h) 0 h of
               None \<Rightarrow> None
             | Some (Inl e, h) \<Rightarrow> Some (Inl e, h)
             | Some (Inr (aut, allocAUT), h) \<Rightarrow>
                 Some (Inr (uiReturnAddress (AUT_at (mem h) allocAUT)), h))"

definition DMM_DeAllocateForKernel ::
  "u32 \<Rightarrow> u32 \<Rightarrow> heap_state \<Rightarrow> dmm_result \<times> heap_state" where
  "DMM_DeAllocateForKernel heapStart uiAddress h =
     (if uiAddress = 0 then (DMM_SUCCESS, h)
      else if uiAddress = heapStart then (DMM_BAD_DEALLOC, h)
      else
        let t = AUT_at (mem h) (uiAddress - AUT_SIZE);
            addr = uiAddress - AUT_SIZE - uiByteStuffForAlign t;
            m = put_AUT (mem h) addr
                  \<lparr>uiAllocatedAddress = addr, uiReturnAddress = 0, uiSize = uiSize t,
                   uiNextAUTAddress = AUTAddress h\<rparr>
        in (DMM_SUCCESS, h\<lparr>mem := m, AUTAddress := addr\<rparr>))"

definition DMM_GetAllocSizeForKernel :: "u32 \<Rightarrow> u32 \<Rightarrow> heap_state \<Rightarrow> dmm_result \<times> int" where
  "DMM_GetAllocSizeForKernel heapStart uiAddress h =
     (if uiAddress = 0 \<or> uiAddress < AUT_SIZE \<or> uiAddress = heapStart then (DMM_FAILURE, 0)
      else (DMM_SUCCESS, sint (uiSize (AUT_at (mem h) (uiAddress - AUT_SIZE)))))"

text \<open>\<open>DMM_KernelHeapAllocSize\<close> walks from the heap start, not from the list head.\<close>

partial_function (option) HeapAllocSize_loop :: "u32 \<Rightarrow> u32 \<Rightarrow> heap_state \<Rightarrow> u32 option" where
  "HeapAllocSize_loop aut uiTotal h =
     (if aut = 0 then Some uiTotal
      else HeapAllocSize_loop (uiNextAUTAddress (AUT_at (mem h) aut))
             (uiTotal + uiSize (AUT_at (mem h) aut)) h)"

definition DMM_KernelHeapAllocSize :: "u32 \<Rightarrow> heap_state \<Rightarrow> u32 option" where
  "DMM_KernelHeapAllocSize heapStart h = HeapAllocSize_loop heapStart 0 h"

subsection \<open>The heap of a user process\<close>

text \<open>\<open>SEG\<close> is the variable \<open>GLOBAL_DATA_SEGMENT_BASE\<close> of the start-up code. \<open>DMMFlag\<close> is the flag of the current process that makes the page
  fault handler accept heap addresses. The reads that make the handler map the new chunk are
  returned as the list of their addresses.\<close>

record process_heap = heap_state +
  DMMFlag :: bool

definition PROCESS_VIRTUAL_ALLOCATED_ADDRESS :: "u32 \<Rightarrow> u32 \<Rightarrow> u32" where
  "PROCESS_VIRTUAL_ALLOCATED_ADDRESS SEG RealAddress = RealAddress + SEG - PROCESS_BASE"

definition PROCESS_REAL_ALLOCATED_ADDRESS :: "u32 \<Rightarrow> u32 \<Rightarrow> u32" where
  "PROCESS_REAL_ALLOCATED_ADDRESS SEG VirtualAddress = VirtualAddress + PROCESS_BASE - SEG"

partial_function (option) TouchPages_loop :: "u32 \<Rightarrow> u32 \<Rightarrow> u32 list option" where
  "TouchPages_loop addr limit =
     (if addr < limit then Option.bind (TouchPages_loop (addr + PAGE_SIZE) limit)
                             (\<lambda>xs. Some (addr # xs))
      else Some [])"

definition DMM_Allocate ::
  "u32 \<Rightarrow> u32 \<Rightarrow> u32 \<Rightarrow> process_heap \<Rightarrow>
   ((dmm_error + u32 \<times> u32 list) \<times> process_heap) option" where
  "DMM_Allocate SEG uiSizeInBytes uiAlignNumber h =
     (case DMM_CheckAlignNumber uiAlignNumber of
        Inl e \<Rightarrow> Some (Inl e, h)
      | Inr _ \<Rightarrow>
          let h = h\<lparr>DMMFlag := True\<rparr>;
              h = InitHead (PROCESS_HEAP_START_ADDRESS - SEG) PROCESS_HEAP_SIZE h
          in case Allocate_loop uiSizeInBytes uiAlignNumber (AUTAddress h) 0 h of
               None \<Rightarrow> None
             | Some (Inl e, h) \<Rightarrow> Some (Inl e, h)
             | Some (Inr (aut, allocAUT), h') \<Rightarrow>
                 let uiAddress = uiAllocatedAddress (AUT_at (mem h) aut);
                     limit = uiAddress + uiSize (AUT_at (mem h') aut)
                 in case TouchPages_loop (uiAddress + AUT_SIZE) limit of
                      None \<Rightarrow> None
                    | Some reads \<Rightarrow>
                        Some (Inr (PROCESS_VIRTUAL_ALLOCATED_ADDRESS SEG
                                     (uiReturnAddress (AUT_at (mem h') aut)),
                                   reads @ [limit - 1]),
                              h'\<lparr>DMMFlag := False\<rparr>))"

definition DMM_DeAllocate ::
  "u32 \<Rightarrow> u32 \<Rightarrow> process_heap \<Rightarrow> dmm_result \<times> process_heap" where
  "DMM_DeAllocate SEG virtualAddress h =
     (let uiAddress = PROCESS_REAL_ALLOCATED_ADDRESS SEG virtualAddress;
          uiHeapStartAddress = PROCESS_HEAP_START_ADDRESS - SEG
      in if uiAddress = 0 then (DMM_SUCCESS, h)
         else if uiAddress = uiHeapStartAddress then (DMM_BAD_DEALLOC, h)
         else
           let t = AUT_at (mem h) (uiAddress - AUT_SIZE);
               addr = uiAddress - AUT_SIZE - uiByteStuffForAlign t;
               m = put_AUT (mem h) addr
                     \<lparr>uiAllocatedAddress = addr, uiReturnAddress = 0, uiSize = uiSize t,
                      uiNextAUTAddress = AUTAddress h\<rparr>
           in (DMM_SUCCESS, h\<lparr>mem := m, AUTAddress := addr\<rparr>))"

definition DMM_GetAllocSize :: "u32 \<Rightarrow> u32 \<Rightarrow> process_heap \<Rightarrow> dmm_result \<times> int" where
  "DMM_GetAllocSize SEG virtualAddress h =
     (let uiAddress = PROCESS_REAL_ALLOCATED_ADDRESS SEG virtualAddress;
          uiHeapStartAddress = PROCESS_HEAP_START_ADDRESS - SEG
      in if uiAddress = 0 \<or> uiAddress < AUT_SIZE \<or> uiAddress = uiHeapStartAddress
         then (DMM_FAILURE, 0)
         else (DMM_SUCCESS, sint (uiSize (AUT_at (mem h) (uiAddress - AUT_SIZE)))))"

section \<open>Headers in memory\<close>

lemma AUT_at_cong:
  assumes "k + 16 \<le> 4294967296" "\<And>x. x \<in> span k 16 \<Longrightarrow> m x = m' x"
  shows "AUT_at m (of_nat k) = AUT_at m' (of_nat k)"
proof -
  have "load32 m (of_nat (k + i)) = load32 m' (of_nat (k + i))" if "i \<le> 12" for i
    using assms(2) span_mono [of k "k + i" 4 16] that by (intro load32_cong) auto
  from this [of 0] this [of 4] this [of 8] this [of 12] show ?thesis
    by (simp add: AUT_at_def)
qed

lemma span_sub: "x \<in> span b k \<Longrightarrow> a \<le> b \<Longrightarrow> b + k \<le> a + n \<Longrightarrow> x \<in> span a n"
  using span_mono by blast

lemma store32_at_outside:
  "x \<notin> span k 16 \<Longrightarrow> i \<le> 12 \<Longrightarrow> store32 m (of_nat k + of_nat i) v x = m x"
  using store32_outside [of x "k + i" m v] span_sub [of x "k + i" 4 k 16] by auto

lemma put_AUT_outside [simp]: "x \<notin> span k 16 \<Longrightarrow> put_AUT m (of_nat k) t x = m x"
  using store32_at_outside [of x k 0] store32_at_outside [of x k 4] store32_at_outside [of x k 8]
    store32_at_outside [of x k 12]
  by (simp add: put_AUT_def)

lemma set_fields_outside [simp]:
  "x \<notin> span k 16 \<Longrightarrow> set_uiSize m (of_nat k) v x = m x"
  "x \<notin> span k 16 \<Longrightarrow> set_uiNextAUTAddress m (of_nat k) v x = m x"
  using store32_at_outside [of x k 8] store32_at_outside [of x k 12]
  by (simp_all add: set_uiSize_def set_uiNextAUTAddress_def)

lemma load32_store32_at:
  assumes "k + 16 \<le> 4294967296" "i \<le> 12" "j \<le> 12" "i + 4 \<le> j \<or> j + 4 \<le> i"
  shows "load32 (store32 m (of_nat k + of_nat j) v) (of_nat k + of_nat i) =
         load32 m (of_nat k + of_nat i)"
  using load32_store32_other [of "k + i" "k + j" m v] assms by auto

lemma AUT_at_updates [simp]:
  assumes "k + 16 \<le> 4294967296"
  shows "AUT_at (put_AUT m (of_nat k) t) (of_nat k) = t"
    and "AUT_at (set_uiSize m (of_nat k) v) (of_nat k) = (AUT_at m (of_nat k))\<lparr>uiSize := v\<rparr>"
    and "AUT_at (set_uiNextAUTAddress m (of_nat k) v) (of_nat k) =
         (AUT_at m (of_nat k))\<lparr>uiNextAUTAddress := v\<rparr>"
proof -
  note o = load32_store32_at [OF assms]
  have d: "load32 (store32 m (of_nat k + 4) v) (of_nat k) = load32 m (of_nat k)"
    "load32 (store32 m (of_nat k + 8) v) (of_nat k) = load32 m (of_nat k)"
    "load32 (store32 m (of_nat k + 12) v) (of_nat k) = load32 m (of_nat k)"
    "load32 (store32 m (of_nat k + 8) v) (of_nat k + 4) = load32 m (of_nat k + 4)"
    "load32 (store32 m (of_nat k + 12) v) (of_nat k + 4) = load32 m (of_nat k + 4)"
    "load32 (store32 m (of_nat k + 12) v) (of_nat k + 8) = load32 m (of_nat k + 8)"
    "load32 (store32 m (of_nat k + 8) v) (of_nat k + 12) = load32 m (of_nat k + 12)" for m v
    using o [of 0 4 m v] o [of 0 8 m v] o [of 0 12 m v] o [of 4 8 m v] o [of 4 12 m v]
      o [of 8 12 m v] o [of 12 8 m v] by simp_all
  show "AUT_at (put_AUT m (of_nat k) t) (of_nat k) = t"
    by (simp add: AUT_at_def put_AUT_def d)
  show "AUT_at (set_uiSize m (of_nat k) v) (of_nat k) = (AUT_at m (of_nat k))\<lparr>uiSize := v\<rparr>"
    by (simp add: AUT_at_def set_uiSize_def d)
  show "AUT_at (set_uiNextAUTAddress m (of_nat k) v) (of_nat k) =
      (AUT_at m (of_nat k))\<lparr>uiNextAUTAddress := v\<rparr>"
    by (simp add: AUT_at_def set_uiNextAUTAddress_def d)
qed

section \<open>The chunks of a heap\<close>

text \<open>A free chunk is its address and size; a live one has also the bytes skipped before its
  header, so that the address handed out is \<open>a + st + 16\<close>.\<close>

type_synonym free_chunk = "nat \<times> nat"
type_synonym live_chunk = "nat \<times> nat \<times> nat"

fun free_list :: "memory \<Rightarrow> u32 \<Rightarrow> free_chunk list \<Rightarrow> u32 \<Rightarrow> bool" where
  "free_list m p [] q \<longleftrightarrow> p = q"
| "free_list m p ((a, s) # fs) q \<longleftrightarrow> p = of_nat a \<and>
     uiAllocatedAddress (AUT_at m (of_nat a)) = of_nat a \<and>
     uiReturnAddress (AUT_at m (of_nat a)) = 0 \<and>
     uiSize (AUT_at m (of_nat a)) = of_nat s \<and>
     free_list m (uiNextAUTAddress (AUT_at m (of_nat a))) fs q"

definition live_header :: "memory \<Rightarrow> live_chunk \<Rightarrow> bool" where
  "live_header m = (\<lambda>(a, s, st). 16 + st \<le> s \<and>
     uiReturnAddress (AUT_at m (of_nat (a + st))) = of_nat (a + st + 16) \<and>
     uiSize (AUT_at m (of_nat (a + st))) = of_nat s \<and>
     uiByteStuffForAlign (AUT_at m (of_nat (a + st))) = of_nat st)"

definition extent :: "live_chunk \<Rightarrow> free_chunk" where
  "extent = (\<lambda>(a, s, st). (a, s))"

definition apart :: "free_chunk \<Rightarrow> free_chunk \<Rightarrow> bool" where
  "apart = (\<lambda>(a, s) (b, t). a + s \<le> b \<or> b + t \<le> a)"

definition chunk_in :: "nat \<Rightarrow> nat \<Rightarrow> free_chunk \<Rightarrow> bool" where
  "chunk_in S N = (\<lambda>(a, s). S \<le> a \<and> a + s \<le> S + N \<and> 16 \<le> s)"

definition tiles :: "nat \<Rightarrow> nat \<Rightarrow> free_chunk list \<Rightarrow> bool" where
  "tiles S N bs \<longleftrightarrow> list_all (chunk_in S N) bs \<and> sorted_wrt apart bs \<and> sum_list (map snd bs) = N"

definition heap_ok ::
  "nat \<Rightarrow> nat \<Rightarrow> 'a heap_state_scheme \<Rightarrow> free_chunk list \<Rightarrow> live_chunk list \<Rightarrow> bool" where
  "heap_ok S N h fs ls \<longleftrightarrow> 0 < S \<and> S + N < 4294967296 \<and>
     tiles S N (fs @ map extent ls) \<and>
     free_list (mem h) (AUTAddress h) fs 0 \<and> list_all (live_header (mem h)) ls"

lemma apart_sym: "apart x y \<longleftrightarrow> apart y x"
  by (auto simp: apart_def)

lemma free_list_append:
  "free_list m p (xs @ ys) q \<longleftrightarrow> (\<exists>r. free_list m p xs r \<and> free_list m r ys q)"
  by (induction xs arbitrary: p) auto

lemma free_list_cong:
  assumes "\<And>a s x. (a, s) \<in> set fs \<Longrightarrow> x \<in> span a s \<Longrightarrow> m x = m' x"
    "list_all (chunk_in S N) fs" "S + N < 4294967296"
  shows "free_list m p fs q = free_list m' p fs q"
  using assms
proof (induction fs arbitrary: p)
  case (Cons c fs)
  obtain a s where c: "c = (a, s)" by (cases c)
  have "AUT_at m (of_nat a) = AUT_at m' (of_nat a)"
    using Cons.prems span_mono [of a a 16 s]
    by (intro AUT_at_cong) (auto simp: c chunk_in_def)
  moreover have "free_list m r fs q = free_list m' r fs q" for r
    using Cons.prems by (intro Cons.IH) auto
  ultimately show ?case by (simp add: c)
qed simp

lemma live_header_cong:
  assumes "\<And>x. x \<in> span a s \<Longrightarrow> m x = m' x" "a + s < 4294967296"
  shows "live_header m (a, s, st) = live_header m' (a, s, st)"
proof (cases "16 + st \<le> s")
  case True
  then have "AUT_at m (of_nat (a + st)) = AUT_at m' (of_nat (a + st))"
    using assms span_mono [of a "a + st" 16 s] by (intro AUT_at_cong) auto
  then show ?thesis by (simp add: live_header_def)
qed (simp add: live_header_def)

lemma apart_span:
  assumes "apart (a, s) (b, t)" "a + s \<le> 4294967296" "b + t \<le> 4294967296"
  shows "span a s \<inter> span b t = {}"
  using assms by (intro span_disjoint) (auto simp: apart_def)

section \<open>The abstract allocator\<close>

definition pad :: "nat \<Rightarrow> nat \<Rightarrow> nat" where
  "pad al x = (if al = 0 \<or> x mod al = 0 then 0 else al - x mod al)"

fun first_fit ::
  "nat \<Rightarrow> nat \<Rightarrow> free_chunk list \<Rightarrow> (free_chunk list \<times> free_chunk \<times> free_chunk list) option" where
  "first_fit sz al [] = None"
| "first_fit sz al ((a, s) # fs) =
     (if sz + 16 + pad al (a + 16) \<le> s then Some ([], (a, s), fs)
      else map_option (\<lambda>(xs, c, ys). ((a, s) # xs, c, ys)) (first_fit sz al fs))"

definition carve ::
  "free_chunk list \<Rightarrow> free_chunk \<Rightarrow> free_chunk list \<Rightarrow> nat \<Rightarrow> nat \<Rightarrow> free_chunk list \<times> live_chunk" where
  "carve xs c ys need st =
     (case c of (a, s) \<Rightarrow>
        if s - need > 17 then (xs @ (a + need, s - need) # ys, (a, need, st))
        else (xs @ ys, (a, s, st)))"

definition abs_alloc ::
  "nat \<Rightarrow> nat \<Rightarrow> free_chunk list \<Rightarrow> (free_chunk list \<times> live_chunk) option" where
  "abs_alloc sz al fs =
     map_option (\<lambda>(xs, (a, s), ys). carve xs (a, s) ys (sz + 16 + pad al (a + 16)) (pad al (a + 16)))
       (first_fit sz al fs)"

lemma pad_less: "al \<noteq> 0 \<Longrightarrow> pad al x < al"
  by (auto simp: pad_def)

lemma pad_aligned: "al \<noteq> 0 \<Longrightarrow> al dvd x + pad al x"
proof (cases "x mod al = 0")
  case False
  assume "al \<noteq> 0"
  then have "x mod al < al" by simp
  moreover have "x = al * (x div al) + x mod al" by simp
  ultimately have "x + (al - x mod al) = al * (x div al) + al" by linarith
  then have "al dvd x + (al - x mod al)" by simp
  then show ?thesis using False \<open>al \<noteq> 0\<close> by (simp add: pad_def)
qed (auto simp: pad_def)

lemma ByteStuff_pad:
  assumes "x < 4294967296"
  shows "DMM_GetByteStuffForAlign (of_nat x) al = of_nat (pad (unat al) x)"
proof (cases "al = 0")
  case False
  have m: "unat (of_nat x mod al) = x mod unat al"
    using assms by (simp add: unat_mod of_nat_unat_u32)
  have "of_nat x mod al = 0 \<longleftrightarrow> x mod unat al = 0"
    using m by (metis unat_eq_zero)
  moreover have "al - of_nat x mod al = of_nat (unat al - x mod unat al)"
  proof -
    have "unat (of_nat x mod al) \<le> unat al"
      using False by (simp add: m unat_gt_0 less_imp_le mod_less_divisor)
    then have "of_nat x mod al \<le> al" by (simp add: word_le_nat_alt)
    then have "unat (al - of_nat x mod al) = unat al - x mod unat al"
      by (simp add: unat_sub m)
    then have "(of_nat (unat (al - of_nat x mod al)) :: u32) = of_nat (unat al - x mod unat al)"
      by simp
    then show ?thesis by (simp add: of_nat_unat)
  qed
  ultimately show ?thesis
    using False by (auto simp: DMM_GetByteStuffForAlign_def pad_def Let_def unat_eq_zero)
qed (simp add: DMM_GetByteStuffForAlign_def pad_def)

lemma first_fit_Some:
  "first_fit sz al fs = Some (xs, (a, s), ys) \<Longrightarrow>
     fs = xs @ (a, s) # ys \<and> sz + 16 + pad al (a + 16) \<le> s"
  by (induction fs arbitrary: xs) (auto split: if_splits)

lemma first_fit_None:
  "first_fit sz al fs = None \<longleftrightarrow> (\<forall>(a, s) \<in> set fs. s < sz + 16 + pad al (a + 16))"
  by (induction fs) (auto split: if_splits)

lemma Allocate_loop_first_fit:
  assumes "free_list (mem h) aut fs 0" "list_all (chunk_in S N) fs" "0 < S" "S + N < 4294967296"
    "sz + 16 + unat al < 4294967296"
  shows "Allocate_loop (of_nat sz) al aut prv h =
     (case first_fit sz (unat al) fs of
        None \<Rightarrow> Some (Inl OutOfMemory, h)
      | Some (xs, (a, s), ys) \<Rightarrow>
          let st = pad (unat al) (a + 16)
          in Some (Inr (of_nat a, of_nat (a + st)),
                   TakeChunk (of_nat a) (of_nat s) (uiNextAUTAddress (AUT_at (mem h) (of_nat a)))
                     (of_nat st) (of_nat (sz + 16 + st))
                     (if xs = [] then prv else of_nat (fst (last xs))) h))"
  using assms
proof (induction fs arbitrary: aut prv)
  case Nil
  then show ?case by (simp add: Allocate_loop.simps)
next
  case (Cons c fs)
  obtain a s where c: "c = (a, s)" by (cases c)
  define st where "st = pad (unat al) (a + 16)"
  have b: "0 < a" "a + s < 4294967296" "16 \<le> s"
    using Cons.prems by (auto simp: c chunk_in_def)
  have aut: "aut = of_nat a" "aut \<noteq> 0"
    using Cons.prems b by (auto simp: c of_nat_eq_0_u32)
  have stuff: "DMM_GetByteStuffForAlign (of_nat a + AUT_SIZE) al = of_nat st"
    using ByteStuff_pad [of "a + 16" al] b by (simp add: st_def)
  have "sz + 16 + st < 4294967296"
    using Cons.prems(5) pad_less [of "unat al" "a + 16"]
    by (cases "unat al = 0") (auto simp: st_def pad_def)
  then have fits: "of_nat sz + AUT_SIZE + of_nat st \<le> (of_nat s :: u32) \<longleftrightarrow> sz + 16 + st \<le> s"
    using of_nat_le_u32 [of "sz + 16 + st" s] b by (simp add: ac_simps)
  show ?case
  proof (cases "sz + 16 + st \<le> s")
    case True
    then show ?thesis
      using Cons.prems fits aut(2) b
      by (subst Allocate_loop.simps) (simp add: aut c Let_def stuff flip: st_def)
  next
    case False
    have "Allocate_loop (of_nat sz) al aut prv h =
        Allocate_loop (of_nat sz) al (uiNextAUTAddress (AUT_at (mem h) aut)) aut h"
      using Cons.prems False fits aut(2) b
      by (subst Allocate_loop.simps) (simp add: aut c Let_def stuff)
    also have "\<dots> = (case first_fit sz (unat al) fs of
        None \<Rightarrow> Some (Inl OutOfMemory, h)
      | Some (xs, (a, s), ys) \<Rightarrow>
          let st = pad (unat al) (a + 16)
          in Some (Inr (of_nat a, of_nat (a + st)),
                   TakeChunk (of_nat a) (of_nat s) (uiNextAUTAddress (AUT_at (mem h) (of_nat a)))
                     (of_nat st) (of_nat (sz + 16 + st))
                     (if xs = [] then aut else of_nat (fst (last xs))) h))"
      using Cons.prems by (intro Cons.IH) (auto simp: c aut)
    finally show ?thesis
      using False by (auto simp: c aut st_def split: option.split)
  qed
qed

section \<open>Allocation refines the abstract allocator\<close>

lemma apart_sub:
  assumes "apart (a, s) z" "a \<le> b" "b + t \<le> a + s"
  shows "apart (b, t) z" "apart z (b, t)"
  using assms by (auto simp: apart_def split: prod.splits)

lemma tiles_split:
  assumes "tiles S N (xs @ (a, s) # ys @ zs)" "16 \<le> n" "16 + n \<le> s"
  shows "tiles S N (xs @ (a + n, s - n) # ys @ (a, n) # zs)"
proof -
  have "apart (a + n, s - n) z" "apart z (a + n, s - n)" "apart (a, n) z" "apart z (a, n)"
    if "z \<in> set xs \<union> set ys \<union> set zs" for z
  proof -
    have "apart (a, s) z" using assms(1) that
      by (auto simp: tiles_def sorted_wrt_append apart_sym [of "(a, s)"])
    then show "apart (a + n, s - n) z" "apart z (a + n, s - n)" "apart (a, n) z" "apart z (a, n)"
      using assms(3) apart_sub [of a s z "a + n" "s - n"] apart_sub [of a s z a n] by auto
  qed
  then show ?thesis
    using assms by (auto simp: tiles_def sorted_wrt_append chunk_in_def)
      (auto simp: apart_def)
qed

lemma tiles_move:
  assumes "tiles S N (xs @ c # ys @ zs)"
  shows "tiles S N (xs @ ys @ c # zs)"
  using assms by (auto simp: tiles_def sorted_wrt_append apart_sym [of c])

lemma tiles_chunks: "tiles S N bs \<Longrightarrow> list_all (chunk_in S N) bs"
  by (simp add: tiles_def)

lemma tiles_apart:
  assumes "tiles S N (xs @ c # ys)" "d \<in> set xs \<union> set ys"
  shows "apart c d" "chunk_in S N c" "chunk_in S N d"
  using assms by (auto simp: tiles_def sorted_wrt_append apart_sym [of c] list_all_iff)

lemma spans_disjoint:
  assumes "tiles S N (xs @ (a, s) # ys)" "(b, t) \<in> set xs \<union> set ys" "S + N < 4294967296"
  shows "span a s \<inter> span b t = {}"
  using tiles_apart [OF assms(1,2)] assms(3) by (intro apart_span) (auto simp: chunk_in_def)

lemma free_list_relink:
  assumes "free_list m p (xs @ [(b, t)]) q" "tiles S N (xs @ (b, t) # ys)" "S + N < 4294967296"
  shows "free_list (set_uiNextAUTAddress m (of_nat b) q') p (xs @ [(b, t)]) q'"
proof -
  have b: "b + 16 \<le> 4294967296" "16 \<le> t"
    using assms(2,3) by (auto simp: tiles_def chunk_in_def)
  have "free_list m p xs r = free_list (set_uiNextAUTAddress m (of_nat b) q') p xs r" for r
  proof (rule free_list_cong)
    fix a s x assume "(a, s) \<in> set xs" "x \<in> span a s"
    then have "x \<notin> span b t"
      using spans_disjoint [OF assms(2), of a s] assms(3) by auto
    then have "x \<notin> span b 16" using span_mono [of b b 16 t] b by auto
    then show "m x = set_uiNextAUTAddress m (of_nat b) q' x" by simp
  next
    show "list_all (chunk_in S N) xs" using assms(2) by (simp add: tiles_def)
  qed (rule assms)
  then show ?thesis
    using assms(1) b by (auto simp: free_list_append)
qed

text \<open>Replacing the free chunk \<open>(a, s)\<close> by the free chunks \<open>mids\<close> and the live chunk \<open>l\<close> inside
  it, and linking \<open>q\<close> in its place.\<close>

definition linked :: "u32 \<Rightarrow> u32 \<Rightarrow> memory \<Rightarrow> 'a heap_state_scheme \<Rightarrow> 'a heap_state_scheme" where
  "linked prv q m h =
     (if prv = 0 then h\<lparr>mem := m, AUTAddress := q\<rparr>
      else h\<lparr>mem := set_uiNextAUTAddress m prv q\<rparr>)"

lemma replace_chunk:
  assumes ok: "heap_ok S N h (xs @ (a, s) # ys) ls"
    and same: "\<And>x. x \<notin> span a s \<Longrightarrow> m x = mem h x"
    and mids: "free_list m q mids (uiNextAUTAddress (AUT_at (mem h) (of_nat a)))"
    and inside: "\<And>b t. (b, t) \<in> set mids \<Longrightarrow> a \<le> b \<and> b + t \<le> a + s"
    and live: "live_header m l" "fst l = a" "fst (snd l) \<le> s"
    and tile: "tiles S N ((xs @ mids @ ys) @ map extent (l # ls))"
    and prv: "prv = (if xs = [] then 0 else of_nat (fst (last xs)))"
  shows "heap_ok S N (linked prv q m h) (xs @ mids @ ys) (l # ls)"
    and "x \<notin> span a s \<Longrightarrow> (\<And>b t. (b, t) \<in> set xs \<Longrightarrow> x \<notin> span b 16) \<Longrightarrow>
         mem (linked prv q m h) x = mem h x"
proof -
  let ?h = "linked prv q m h" and ?n = "uiNextAUTAddress (AUT_at (mem h) (of_nat a))"
  have T: "tiles S N (xs @ (a, s) # (ys @ map extent ls))" and B: "0 < S" "S + N < 4294967296"
    and F: "free_list (mem h) (AUTAddress h) (xs @ (a, s) # ys) 0"
    and L: "list_all (live_header (mem h)) ls"
    using ok by (auto simp: heap_ok_def)
  have dis: "span a s \<inter> span b t = {}" if "(b, t) \<in> set xs \<union> set ys \<union> set (map extent ls)" for b t
    using spans_disjoint [OF T _ B(2), of b t] that by auto
  have ch: "list_all (chunk_in S N) xs" "list_all (chunk_in S N) ys" "chunk_in S N (a, s)"
    using T by (auto simp: tiles_def)
  have xs0: "free_list (mem h) (AUTAddress h) xs (of_nat a)" and ys0: "free_list (mem h) ?n ys 0"
    using F by (auto simp: free_list_append)
  have out: "mem h x = m x" if "(b, t) \<in> set xs \<union> set ys" "x \<in> span b t" for b t x
    using dis [of b t] same [of x, symmetric] that by auto
  have "free_list (mem h) p xs r = free_list m p xs r" for p r
    by (rule free_list_cong [OF _ ch(1) B(2)]) (rule out, auto)
  with xs0 have fx: "free_list m (AUTAddress h) xs (of_nat a)" by simp
  have "free_list (mem h) p ys r = free_list m p ys r" for p r
    by (rule free_list_cong [OF _ ch(2) B(2)]) (rule out, auto)
  with ys0 have fy: "free_list m ?n ys 0" by simp
  have P: "mem ?h x = m x" if "\<And>b t. (b, t) \<in> set xs \<Longrightarrow> x \<notin> span b 16" for x
  proof (cases "xs = []")
    case False
    then have "(fst (last xs), snd (last xs)) \<in> set xs" by simp
    with that have "x \<notin> span (fst (last xs)) 16" by blast
    then show ?thesis using False prv by (auto simp: linked_def)
  qed (simp add: linked_def prv)
  {
    fix b t x assume c: "(b, t) \<in> set (mids @ ys) \<union> set (map extent (l # ls))" "x \<in> span b t"
    have "x \<notin> span b' 16" if "(b', t') \<in> set xs" for b' t'
    proof -
      have "apart (b', t') (b, t)" "chunk_in S N (b', t')" "chunk_in S N (b, t)"
        using c that tile by (auto simp: tiles_def sorted_wrt_append list_all_iff)
      then have "span b' t' \<inter> span b t = {}" "span b' 16 \<subseteq> span b' t'"
        using B apart_span [of b' t' b t] span_mono [of b' b' 16 t'] by (auto simp: chunk_in_def)
      then show ?thesis using c(2) by auto
    qed
    then have "mem ?h x = m x" by (rule P)
  } note R = this
  have head: "free_list (mem ?h) (AUTAddress ?h) xs q"
  proof (cases "xs = []")
    case True
    then show ?thesis using fx by (simp add: linked_def prv)
  next
    case False
    obtain us b t where xs: "xs = us @ [(b, t)]" by (metis False rev_exhaust surj_pair)
    have "0 < b" "b < 4294967296" using ch B by (auto simp: xs chunk_in_def)
    then have "prv \<noteq> 0" "prv = of_nat b" by (auto simp: prv xs of_nat_eq_0_u32)
    then show ?thesis
      using free_list_relink [of m "AUTAddress h" us b t "of_nat a" S N
          "(a, s) # ys @ map extent ls" q] fx T B
      by (simp add: linked_def xs)
  qed
  have cm: "list_all (chunk_in S N) mids"
    using tiles_chunks [OF tile] by simp
  have "free_list m q mids ?n = free_list (mem ?h) q mids ?n"
    by (rule free_list_cong [OF _ cm B(2)]) (rule R [symmetric], auto)
  moreover have "free_list m ?n ys 0 = free_list (mem ?h) ?n ys 0"
    by (rule free_list_cong [OF _ ch(2) B(2)]) (rule R [symmetric], auto)
  ultimately have "free_list (mem ?h) (AUTAddress ?h) (xs @ mids @ ys) 0"
    using head mids fy by (auto simp: free_list_append)
  moreover have "list_all (live_header (mem ?h)) (l # ls)"
  proof -
    have "live_header (mem ?h) k" if "k \<in> set (l # ls)" for k
    proof -
      obtain b t st where k: "k = (b, t, st)" by (cases k)
      have e: "(b, t) \<in> set (map extent (l # ls))"
        using that k by (force simp: extent_def)
      then have "chunk_in S N (b, t)"
        using tiles_chunks [OF tile] unfolding list_all_iff by auto
      then have "b + t < 4294967296" using B by (simp add: chunk_in_def)
      moreover have "live_header m k"
      proof (cases "k = l")
        case False
        then have "k \<in> set ls" "(b, t) \<in> set (map extent ls)"
          using that k by (force simp: extent_def)+
        then show ?thesis
          using L same dis [of b t] live_header_cong [of b t "mem h" m st] \<open>b + t < _\<close>
          by (fastforce simp: k list_all_iff)
      qed (use live in simp)
      moreover have "mem ?h x = m x" if "x \<in> span b t" for x
        using R [of b t x] e that by auto
      ultimately show ?thesis
        using live_header_cong [of b t m "mem ?h" st] by (simp add: k)
    qed
    then show ?thesis by (simp add: list_all_iff)
  qed
  ultimately show "heap_ok S N ?h (xs @ mids @ ys) (l # ls)"
    using tile B by (simp add: heap_ok_def)
  show "mem ?h x = mem h x" if "x \<notin> span a s" "\<And>b t. (b, t) \<in> set xs \<Longrightarrow> x \<notin> span b 16"
    using P [OF that(2)] same [OF that(1)] by simp
qed

lemma TakeChunk_linked:
  fixes h :: "'a heap_state_scheme"
  assumes "need \<le> s" "16 + st \<le> need" "a + s < 4294967296"
  defines "m \<equiv> put_AUT (mem h) (of_nat (a + st))
      \<lparr>uiAllocatedAddress = of_nat a, uiReturnAddress = of_nat (a + st + 16),
       uiSize = of_nat need, uiNextAUTAddress = of_nat st\<rparr>"
  shows "TakeChunk (of_nat a) (of_nat s) n (of_nat st) (of_nat need) prv h =
    (if s - need > 17 then
       linked prv (of_nat (a + need))
         (put_AUT m (of_nat (a + need))
            \<lparr>uiAllocatedAddress = of_nat (a + need), uiReturnAddress = 0,
             uiSize = of_nat (s - need), uiNextAUTAddress = n\<rparr>) h
     else linked prv n (set_uiSize m (of_nat (a + st)) (of_nat s)) h)"
proof -
  have r: "(of_nat s - of_nat need :: u32) = of_nat (s - need)"
    using assms(1) by (simp add: of_nat_diff)
  have g: "(AUT_SIZE + 1 < (of_nat s - of_nat need :: u32)) \<longleftrightarrow> 17 < s - need"
    using of_nat_less_u32 [of 17 "s - need"] assms(3) unfolding r by simp
  have c: "of_nat a + of_nat st = (of_nat (a + st) :: u32)"
    "of_nat a + AUT_SIZE + of_nat st = (of_nat (a + st + 16) :: u32)"
    "of_nat a + of_nat need = (of_nat (a + need) :: u32)"
    "of_nat need + (of_nat s - of_nat need) = (of_nat s :: u32)"
    by simp_all
  have b: "a + st + 16 \<le> 4294967296" "17 < s - need \<Longrightarrow> a + need + 16 \<le> 4294967296"
    using assms by auto
  show ?thesis
  proof (cases "17 < s - need")
    case True
    then show ?thesis
      unfolding TakeChunk_def Let_def g c(1,2,3) linked_def m_def
      using b(2) assms(1) by (simp del: of_nat_add)
  next
    case False
    then show ?thesis
      unfolding TakeChunk_def Let_def g c(1,2,3) linked_def m_def
      using b(1) c(4) by (simp del: of_nat_add)
  qed
qed

lemma TakeChunk_correct:
  assumes ok: "heap_ok S N h (xs @ (a, s) # ys) ls"
    and need: "need \<le> s" "16 + st \<le> need"
    and h': "h' = TakeChunk (of_nat a) (of_nat s) (uiNextAUTAddress (AUT_at (mem h) (of_nat a)))
          (of_nat st) (of_nat need) (if xs = [] then 0 else of_nat (fst (last xs))) h"
    and res: "carve xs (a, s) ys need st = (fs', l)"
  shows "heap_ok S N h' fs' (l # ls)"
    and "x \<notin> span a s \<Longrightarrow> (\<And>b t. (b, t) \<in> set xs \<Longrightarrow> x \<notin> span b 16) \<Longrightarrow> mem h' x = mem h x"
proof -
  let ?n = "uiNextAUTAddress (AUT_at (mem h) (of_nat a))"
  let ?prv = "if xs = [] then 0 else of_nat (fst (last xs))"
  define m where "m = put_AUT (mem h) (of_nat (a + st))
      \<lparr>uiAllocatedAddress = of_nat a, uiReturnAddress = of_nat (a + st + 16),
       uiSize = of_nat need, uiNextAUTAddress = of_nat st\<rparr>"
  have T: "tiles S N (xs @ (a, s) # ys @ map extent ls)" and B: "S + N < 4294967296"
    using ok by (auto simp: heap_ok_def)
  have b: "a + s < 4294967296" using tiles_chunks [OF T] B by (auto simp: chunk_in_def)
  note tc = TakeChunk_linked [OF need b, where h = h and n = ?n and prv = ?prv, folded m_def]
  have m: "m x = mem h x" if "x \<notin> span a s" for x
  proof -
    have "x \<notin> span (a + st) 16" using that span_mono [of a "a + st" 16 s] need by auto
    then show ?thesis by (simp add: m_def del: of_nat_add)
  qed
  have live: "live_header m (a, need, st)"
    using need b by (auto simp: live_header_def m_def simp del: of_nat_add)
  have "heap_ok S N h' fs' (l # ls) \<and>
      (x \<notin> span a s \<longrightarrow> (\<forall>b t. (b, t) \<in> set xs \<longrightarrow> x \<notin> span b 16) \<longrightarrow> mem h' x = mem h x)" for x
  proof (cases "s - need > 17")
    case True
    define m2 where "m2 = put_AUT m (of_nat (a + need))
            \<lparr>uiAllocatedAddress = of_nat (a + need), uiReturnAddress = 0,
             uiSize = of_nat (s - need), uiNextAUTAddress = ?n\<rparr>"
    have m2: "m2 x = m x" if "x \<notin> span (a + need) 16" for x
      using that by (simp add: m2_def del: of_nat_add)
    have sub: "span (a + need) 16 \<subseteq> span a s" using True need by (intro span_mono) auto
    have "span (a + need) 16 \<inter> span a need = {}"
      using True b by (intro span_disjoint) auto
    then have "m x = m2 x" if "x \<in> span a need" for x
      using m2 [of x, symmetric] that by auto
    then have l2: "live_header m2 (a, need, st)"
      using live live_header_cong [of a need m m2 st] b need by auto
    have f2: "free_list m2 (of_nat (a + need)) [(a + need, s - need)] ?n"
      using True b by (simp add: m2_def del: of_nat_add)
    have o2: "m2 x = mem h x" if "x \<notin> span a s" for x
      using that m [of x] m2 [of x] sub by auto
    have t2: "tiles S N ((xs @ [(a + need, s - need)] @ ys) @ map extent ((a, need, st) # ls))"
      using tiles_split [OF T, of need] True need by (simp add: extent_def)
    have "h' = linked ?prv (of_nat (a + need)) m2 h"
      using tc True by (simp add: h' m2_def)
    moreover have "fs' = xs @ [(a + need, s - need)] @ ys" "l = (a, need, st)"
      using res True by (auto simp: carve_def)
    moreover have i: "a \<le> c \<and> c + t \<le> a + s" if "(c, t) \<in> set [(a + need, s - need)]" for c t
      using that need by auto
    have l3: "fst (a, need, st) = a" "fst (snd (a, need, st)) \<le> s" using need by auto
    note rc = replace_chunk [OF ok o2 f2 i l2 l3 t2 refl]
    ultimately show ?thesis using rc by blast
  next
    case False
    define m2 where "m2 = set_uiSize m (of_nat (a + st)) (of_nat s)"
    have l2: "live_header m2 (a, s, st)"
      using need b by (auto simp: live_header_def m_def m2_def simp del: of_nat_add)
    have o2: "m2 x = mem h x" if "x \<notin> span a s" for x
    proof -
      have "x \<notin> span (a + st) 16" using that span_mono [of a "a + st" 16 s] need by auto
      then show ?thesis using m [OF that] by (simp add: m2_def del: of_nat_add)
    qed
    have t2: "tiles S N ((xs @ [] @ ys) @ map extent ((a, s, st) # ls))"
      using tiles_move [of S N xs "(a, s)" ys "map extent ls"] T by (simp add: extent_def)
    have "h' = linked ?prv ?n m2 h"
      using tc False by (simp add: h' m2_def)
    moreover have "fs' = xs @ [] @ ys" "l = (a, s, st)"
      using res False by (auto simp: carve_def)
    moreover have i: "a \<le> c \<and> c + t \<le> a + s" if "(c, t) \<in> set []" for c t
      using that by simp
    have l3: "fst (a, s, st) = a" "fst (snd (a, s, st)) \<le> s" and "free_list m2 ?n [] ?n" by auto
    note rc = replace_chunk [OF ok o2 this(3) i l2 l3(1,2) t2 refl]
    ultimately show ?thesis using rc by blast
  qed
  then show "heap_ok S N h' fs' (l # ls)"
    "x \<notin> span a s \<Longrightarrow> (\<And>b t. (b, t) \<in> set xs \<Longrightarrow> x \<notin> span b 16) \<Longrightarrow> mem h' x = mem h x"
    by blast+
qed

definition live_bytes :: "live_chunk list \<Rightarrow> u32 set" where
  "live_bytes ls = (\<Union>(a, s, st) \<in> set ls. span a s)"

lemma heap_ok_AUTAddress:
  assumes "heap_ok S N h fs ls"
  shows "AUTAddress h = 0 \<longleftrightarrow> fs = []"
proof (cases fs)
  case (Cons c fs')
  obtain a s where c: "c = (a, s)" by (cases c)
  have "chunk_in S N (a, s)" "AUTAddress h = of_nat a" "0 < S" "S + N < 4294967296"
    using assms tiles_chunks [of S N "fs @ map extent ls"] by (auto simp: heap_ok_def Cons c)
  then show ?thesis using Cons by (auto simp: chunk_in_def of_nat_eq_0_u32)
qed (use assms in \<open>auto simp: heap_ok_def\<close>)

lemma live_bytes_apart:
  assumes ok: "heap_ok S N h (xs @ (a, s) # ys) ls" and x: "x \<in> live_bytes ls"
  shows "x \<notin> span a s" "\<And>b t. (b, t) \<in> set xs \<union> set ys \<Longrightarrow> x \<notin> span b 16"
proof -
  have T: "tiles S N (xs @ (a, s) # ys @ map extent ls)" and B: "S + N < 4294967296"
    using ok by (auto simp: heap_ok_def)
  obtain c t st where l: "(c, t, st) \<in> set ls" "x \<in> span c t"
    using x by (auto simp: live_bytes_def)
  then have e: "(c, t) \<in> set (map extent ls)" by (force simp: extent_def)
  then show "x \<notin> span a s"
    using spans_disjoint [OF T, of c t] B l by auto
  fix b t' assume b: "(b, t') \<in> set xs \<union> set ys"
  have "apart (b, t') (c, t)" "chunk_in S N (b, t')" "chunk_in S N (c, t)"
    using T b e by (auto simp: tiles_def sorted_wrt_append list_all_iff)
  then show "x \<notin> span b 16"
    using apart_span [of b t' c t] span_mono [of b b 16 t'] B l by (auto simp: chunk_in_def)
qed

lemma TakeChunk_header:
  assumes "heap_ok S N h fs ((a, s, st) # ls)"
  shows "uiReturnAddress (AUT_at (mem h) (of_nat (a + st))) = of_nat (a + st + 16)"
  using assms by (simp add: heap_ok_def live_header_def)

lemma carve_chunk:
  assumes "carve xs (a, s) ys need st = (fs', l)" "need \<le> s"
  obtains s' where "l = (a, s', st)" "need \<le> s'"
  using assms by (auto simp: carve_def split: if_splits)

lemma InitHead_id: "AUTAddress h \<noteq> 0 \<Longrightarrow> InitHead p n h = h"
  by (simp add: InitHead_def)

lemma TakeChunk_old_header:
  assumes ok: "heap_ok S N h (xs @ (a, s) # ys) ls" and need: "sz + 16 + st \<le> s" "16 \<le> st"
  shows "AUT_at (mem (TakeChunk (of_nat a) (of_nat s) n (of_nat st) (of_nat (sz + 16 + st))
      (if xs = [] then 0 else of_nat (fst (last xs))) h)) (of_nat a) = AUT_at (mem h) (of_nat a)"
proof (rule AUT_at_cong)
  let ?need = "sz + 16 + st" and ?prv = "if xs = [] then 0 else of_nat (fst (last xs))"
  have T: "tiles S N (xs @ (a, s) # ys @ map extent ls)" and B: "S + N < 4294967296"
    using ok by (auto simp: heap_ok_def)
  have b: "a + s < 4294967296" using tiles_chunks [OF T] B by (auto simp: chunk_in_def)
  then show "a + 16 \<le> 4294967296" using need by simp
  fix x assume x: "x \<in> span a 16"
  have 1: "x \<notin> span (a + st) 16"
    using x span_disjoint [of a 16 "a + st" 16] need b by auto
  have 2: "x \<notin> span (a + ?need) 16" if "17 < s - ?need"
  proof -
    have "a + ?need + 16 \<le> 4294967296" using that b by linarith
    then have "span a 16 \<inter> span (a + ?need) 16 = {}" by (intro span_disjoint) auto
    then show ?thesis using x by blast
  qed
  have 3: "x \<notin> span (fst (last xs)) 16" if "xs \<noteq> []"
  proof -
    have "(fst (last xs), snd (last xs)) \<in> set xs" using that by simp
    then have "span a s \<inter> span (fst (last xs)) (snd (last xs)) = {}"
        "chunk_in S N (fst (last xs), snd (last xs))"
      using spans_disjoint [OF T] B tiles_apart(3) [OF T] by blast+
    moreover have "span (fst (last xs)) 16 \<subseteq> span (fst (last xs)) (snd (last xs))" "span a 16 \<subseteq> span a s"
      using calculation need by (intro span_mono; simp add: chunk_in_def split: prod.splits)+
    ultimately show ?thesis using x by blast
  qed
  show "mem (TakeChunk (of_nat a) (of_nat s) n (of_nat st) (of_nat ?need) ?prv h) x = mem h x"
    using 1 2 3 by (subst TakeChunk_linked [OF need(1) _ b]) (simp_all add: linked_def del: of_nat_add)
qed

lemma Allocate_loop_refines:
  assumes ok: "heap_ok S N h fs ls" and fit: "sz + 16 + unat al < 4294967296"
  shows "case abs_alloc sz (unat al) fs of
      None \<Rightarrow> Allocate_loop (of_nat sz) al (AUTAddress h) 0 h = Some (Inl OutOfMemory, h)
    | Some (fs', (a, s, st)) \<Rightarrow> \<exists>h'. Allocate_loop (of_nat sz) al (AUTAddress h) 0 h =
          Some (Inr (of_nat a, of_nat (a + st)), h') \<and>
        heap_ok S N h' fs' ((a, s, st) # ls) \<and>
        (\<forall>x \<in> live_bytes ls. mem h' x = mem h x) \<and>
        st = pad (unat al) (a + 16) \<and> sz + st + 16 \<le> s \<and>
        a \<in> fst ` set fs \<and>
        (16 \<le> st \<longrightarrow> AUT_at (mem h') (of_nat a) = AUT_at (mem h) (of_nat a))"
proof -
  have loop: "Allocate_loop (of_nat sz) al (AUTAddress h) 0 h =
     (case first_fit sz (unat al) fs of
        None \<Rightarrow> Some (Inl OutOfMemory, h)
      | Some (xs, (a, s), ys) \<Rightarrow>
          let st = pad (unat al) (a + 16)
          in Some (Inr (of_nat a, of_nat (a + st)),
                   TakeChunk (of_nat a) (of_nat s) (uiNextAUTAddress (AUT_at (mem h) (of_nat a)))
                     (of_nat st) (of_nat (sz + 16 + st))
                     (if xs = [] then 0 else of_nat (fst (last xs))) h))"
    using ok fit by (intro Allocate_loop_first_fit [where S = S and N = N])
      (auto simp: heap_ok_def tiles_def)
  show ?thesis
  proof (cases "first_fit sz (unat al) fs")
    case None
    then show ?thesis using loop by (simp add: abs_alloc_def)
  next
    case (Some r)
    then obtain xs a s ys where r: "first_fit sz (unat al) fs = Some (xs, (a, s), ys)"
      by (cases r) auto
    define st where "st = pad (unat al) (a + 16)"
    have fs: "fs = xs @ (a, s) # ys" "sz + 16 + st \<le> s"
      using first_fit_Some [OF r] by (auto simp: st_def)
    obtain fs' l where res: "carve xs (a, s) ys (sz + 16 + st) st = (fs', l)"
      by (rule prod.exhaust)
    then obtain s' where l: "l = (a, s', st)" "sz + 16 + st \<le> s'"
      using carve_chunk fs by metis
    have ok': "heap_ok S N h (xs @ (a, s) # ys) ls" using ok fs by simp
    note tc = TakeChunk_correct [OF ok' fs(2) _ refl res]
    define h' where "h' = TakeChunk (of_nat a) (of_nat s)
        (uiNextAUTAddress (AUT_at (mem h) (of_nat a))) (of_nat st) (of_nat (sz + 16 + st))
        (if xs = [] then 0 else of_nat (fst (last xs))) h"
    have L: "Allocate_loop (of_nat sz) al (AUTAddress h) 0 h =
        Some (Inr (of_nat a, of_nat (a + st)), h')"
      unfolding loop r h'_def st_def Let_def by (simp del: of_nat_add)
    have A: "abs_alloc sz (unat al) fs = Some (fs', (a, s', st))"
      using r res l(1) by (simp add: abs_alloc_def flip: st_def)
    have M: "mem h' x = mem h x" if "x \<in> live_bytes ls" for x
      using live_bytes_apart [OF ok' that] unfolding h'_def by (intro tc(2)) auto
    have O: "heap_ok S N h' fs' ((a, s', st) # ls)" using tc(1) unfolding h'_def l(1) by simp
    have K: "16 \<le> st \<Longrightarrow> AUT_at (mem h') (of_nat a) = AUT_at (mem h) (of_nat a)"
      using TakeChunk_old_header [OF ok' fs(2)] unfolding h'_def by simp
    have F: "a \<in> fst ` set fs" by (force simp: fs)
    show ?thesis
      unfolding A L using O M l(2) K F by (simp add: st_def)
  qed
qed

lemma DMM_AllocateForKernel_correct:
  assumes ok: "heap_ok S N h fs ls" "fs \<noteq> []"
    and al: "uiAlign = 0 \<or> IsPowerOfTwo uiAlign"
    and fit: "unat uiSz + 16 + unat uiAlign < 4294967296"
  shows "case abs_alloc (unat uiSz) (unat uiAlign) fs of
      None \<Rightarrow> DMM_AllocateForKernel start uiSz uiAlign h = Some (Inl OutOfMemory, h)
    | Some (fs', (a, s, st)) \<Rightarrow> \<exists>h'.
        DMM_AllocateForKernel start uiSz uiAlign h = Some (Inr (of_nat (a + st + 16)), h') \<and>
        heap_ok S N h' fs' ((a, s, st) # ls) \<and>
        (\<forall>x \<in> live_bytes ls. mem h' x = mem h x) \<and>
        st = pad (unat uiAlign) (a + 16) \<and> unat uiSz + st + 16 \<le> s"
proof -
  have c: "DMM_CheckAlignNumber uiAlign = Inr ()"
    using al by (auto simp: DMM_CheckAlignNumber_def)
  have i: "InitHead start MEM_KERNEL_HEAP_SIZE h = h"
    using heap_ok_AUTAddress [OF ok(1)] ok(2) by (simp add: InitHead_id)
  show ?thesis
    using Allocate_loop_refines [OF ok(1) fit]
    by (auto simp: DMM_AllocateForKernel_def c i TakeChunk_header split: option.splits
        simp del: of_nat_add)
qed

section \<open>Freeing, sizes and the first allocation\<close>

lemma live_chunk_bounds:
  assumes "heap_ok S N h fs ls" "(a, s, st) \<in> set ls"
  shows "S \<le> a" "a + s \<le> S + N" "S + N < 4294967296" "0 < S" "16 + st \<le> s"
    "uiSize (AUT_at (mem h) (of_nat (a + st))) = of_nat s"
    "uiByteStuffForAlign (AUT_at (mem h) (of_nat (a + st))) = of_nat st"
proof -
  have "(a, s) \<in> set (map extent ls)" using assms(2) by (force simp: extent_def)
  moreover have "list_all (chunk_in S N) (map extent ls)"
    using assms(1) tiles_chunks [of S N "fs @ map extent ls"] by (simp add: heap_ok_def)
  ultimately have "chunk_in S N (a, s)" unfolding list_all_iff by blast
  moreover have "live_header (mem h) (a, s, st)"
    using assms by (auto simp: heap_ok_def list_all_iff)
  ultimately show "S \<le> a" "a + s \<le> S + N" "S + N < 4294967296" "0 < S" "16 + st \<le> s"
    "uiSize (AUT_at (mem h) (of_nat (a + st))) = of_nat s"
    "uiByteStuffForAlign (AUT_at (mem h) (of_nat (a + st))) = of_nat st"
    using assms(1) by (auto simp: chunk_in_def live_header_def heap_ok_def)
qed

lemma in_middle: "x \<in> set (xs @ x # ys)"
  by simp

lemma tiles_rotate:
  assumes "tiles S N (xs @ ys @ c # zs)"
  shows "tiles S N (c # xs @ ys @ zs)"
  using assms by (auto simp: tiles_def sorted_wrt_append apart_sym [of c])

text \<open>Pushing a live chunk back on the free list.\<close>

lemma push_free:
  assumes ok: "heap_ok S N h fs (ls @ (a, s, st) # ls')"
    and h': "mem h' = put_AUT (mem h) (of_nat a)
        \<lparr>uiAllocatedAddress = of_nat a, uiReturnAddress = 0, uiSize = of_nat s,
         uiNextAUTAddress = AUTAddress h\<rparr>" "AUTAddress h' = of_nat a"
  shows "heap_ok S N h' ((a, s) # fs) (ls @ ls')"
    and "x \<in> live_bytes (ls @ ls') \<Longrightarrow> mem h' x = mem h x"
proof -
  note b = live_chunk_bounds [OF ok in_middle]
  have T: "tiles S N (fs @ map extent ls @ (a, s) # map extent ls')"
    using ok by (simp add: heap_ok_def extent_def)
  then have T': "tiles S N ([] @ (a, s) # (fs @ map extent ls @ map extent ls'))"
    using tiles_rotate by simp
  have out: "mem h' x = mem h x"
    if "(c, t) \<in> set fs \<union> set (map extent ls @ map extent ls')" "x \<in> span c t" for c t x
  proof -
    have "span a s \<inter> span c t = {}"
      using spans_disjoint [OF T', of c t] that b by auto
    moreover have "span a 16 \<subseteq> span a s" using b by (intro span_mono) auto
    ultimately have "x \<notin> span a 16" using that by auto
    then show ?thesis by (simp add: h')
  qed
  have cf: "list_all (chunk_in S N) fs" using tiles_chunks [OF T'] by simp
  have "free_list (mem h) p fs 0 = free_list (mem h') p fs 0" for p
    by (rule free_list_cong [OF _ cf b(3)]) (rule out [symmetric], auto)
  then have "free_list (mem h') (AUTAddress h') ((a, s) # fs) 0"
    using ok b by (simp add: heap_ok_def h')
  moreover have "list_all (live_header (mem h')) (ls @ ls')"
  proof -
    have "live_header (mem h') k" if k: "k \<in> set (ls @ ls')" for k
    proof -
      obtain c t u where k': "k = (c, t, u)" by (cases k)
      have "(c, t) \<in> set (map extent ls @ map extent ls')"
        using k k' by (force simp: extent_def)
      then have "mem h x = mem h' x" if "x \<in> span c t" for x
        using out [of c t x] that by simp
      moreover have "c + t < 4294967296"
        using live_chunk_bounds [OF ok, of c t u] k k' by auto
      moreover have "live_header (mem h) k"
        using ok k by (auto simp: heap_ok_def list_all_iff)
      ultimately show ?thesis
        unfolding k' using live_header_cong [of c t "mem h" "mem h'" u] by blast
    qed
    then show ?thesis by (simp add: list_all_iff)
  qed
  ultimately show "heap_ok S N h' ((a, s) # fs) (ls @ ls')"
    using T' b by (simp add: heap_ok_def)
  show "mem h' x = mem h x" if "x \<in> live_bytes (ls @ ls')"
  proof -
    obtain c t u where "(c, t, u) \<in> set (ls @ ls')" "x \<in> span c t"
      using \<open>x \<in> live_bytes (ls @ ls')\<close> by (auto simp: live_bytes_def)
    then show ?thesis by (intro out [of c t]) (force simp: extent_def)+
  qed
qed

lemma handed_out_address:
  assumes "heap_ok S N h fs (ls @ (a, s, st) # ls')"
  shows "(of_nat (a + st + 16) :: u32) \<noteq> 0" "(of_nat (a + st + 16) :: u32) \<noteq> of_nat S"
    "(of_nat (a + st + 16) :: u32) - AUT_SIZE = of_nat (a + st)"
    "(of_nat (a + st) :: u32) - of_nat st = of_nat a"
    "\<not> (of_nat (a + st + 16) :: u32) < AUT_SIZE"
proof -
  note b = live_chunk_bounds [OF assms in_middle]
  have "unat (of_nat (a + st + 16) :: u32) = a + st + 16" "unat (of_nat S :: u32) = S"
    using b by (simp_all add: of_nat_unat_u32 del: of_nat_add)
  then show "(of_nat (a + st + 16) :: u32) \<noteq> 0" "(of_nat (a + st + 16) :: u32) \<noteq> of_nat S"
    "\<not> (of_nat (a + st + 16) :: u32) < AUT_SIZE"
    using b by (auto simp: word_less_nat_alt simp del: of_nat_add)
qed simp_all

lemma DMM_DeAllocateForKernel_correct:
  assumes ok: "heap_ok S N h fs (ls @ (a, s, st) # ls')"
  shows "\<exists>h'. DMM_DeAllocateForKernel (of_nat S) (of_nat (a + st + 16)) h = (DMM_SUCCESS, h') \<and>
     heap_ok S N h' ((a, s) # fs) (ls @ ls') \<and>
     (\<forall>x \<in> live_bytes (ls @ ls'). mem h' x = mem h x)"
proof -
  note b = live_chunk_bounds [OF ok in_middle]
  note a = handed_out_address [OF ok]
  define h' where "h' = h\<lparr>mem := put_AUT (mem h) (of_nat a)
        \<lparr>uiAllocatedAddress = of_nat a, uiReturnAddress = 0, uiSize = of_nat s,
         uiNextAUTAddress = AUTAddress h\<rparr>, AUTAddress := of_nat a\<rparr>"
  have "DMM_DeAllocateForKernel (of_nat S) (of_nat (a + st + 16)) h = (DMM_SUCCESS, h')"
    using a b by (simp add: DMM_DeAllocateForKernel_def Let_def h'_def del: of_nat_add)
  then show ?thesis
    using push_free [OF ok, of h'] by (auto simp: h'_def)
qed

lemma DMM_GetAllocSizeForKernel_correct:
  assumes ok: "heap_ok S N h fs (ls @ (a, s, st) # ls')" and small: "N < 2147483648"
  shows "DMM_GetAllocSizeForKernel (of_nat S) (of_nat (a + st + 16)) h = (DMM_SUCCESS, int s)"
proof -
  note b = live_chunk_bounds [OF ok in_middle]
  note a = handed_out_address [OF ok]
  have "s < 2147483648" using b small by linarith
  then have "sint (of_nat s :: u32) = int s"
    by (simp add: signed_of_nat take_bit_eq_mod signed_take_bit_int_eq_self)
  then show ?thesis
    using a b by (simp add: DMM_GetAllocSizeForKernel_def del: of_nat_add)
qed

text \<open>A list head of NULL stands for a heap never used: the next call writes one free chunk over
  the whole heap.\<close>

lemma InitHead_ok:
  assumes "AUTAddress h = 0" "16 \<le> N" "0 < S" "S + N < 4294967296"
  shows "heap_ok S N (InitHead (of_nat S) (of_nat N) h) [(S, N)] []"
  using assms by (simp add: InitHead_def heap_ok_def tiles_def chunk_in_def of_nat_eq_0_u32)

section \<open>Exhaustion and oversized requests\<close>

lemma tiles_union:
  "sorted_wrt apart bs \<Longrightarrow> card (\<Union>(a, s) \<in> set bs. {a ..< a + s}) = sum_list (map snd bs)"
proof (induction bs)
  case (Cons c bs)
  obtain a s where c: "c = (a, s)" by (cases c)
  have "{a ..< a + s} \<inter> (\<Union>(a, s) \<in> set bs. {a ..< a + s}) = {}"
    using Cons.prems by (fastforce simp: c apart_def)
  moreover have "finite (\<Union>(a, s) \<in> set bs. {a ..< a + s})" by auto
  ultimately have "card ({a ..< a + s} \<union> (\<Union>(a, s) \<in> set bs. {a ..< a + s})) =
      s + card (\<Union>(a, s) \<in> set bs. {a ..< a + s})"
    by (simp only: card_Un_disjoint finite_atLeastLessThan card_atLeastLessThan add_diff_cancel_left')
  then show ?case using Cons by (simp add: c)
qed simp

lemma tiles_cover:
  assumes "tiles S N bs" "S \<le> x" "x < S + N"
  obtains a s where "(a, s) \<in> set bs" "a \<le> x" "x < a + s"
proof -
  let ?U = "\<Union>(a, s) \<in> set bs. {a ..< a + s}"
  have "\<And>a s. (a, s) \<in> set bs \<Longrightarrow> S \<le> a \<and> a + s \<le> S + N"
    using tiles_chunks [OF assms(1)] by (auto simp: list_all_iff chunk_in_def)
  then have "?U \<subseteq> {S ..< S + N}" by force
  moreover have "card ?U = N"
    using tiles_union assms(1) by (simp add: tiles_def)
  ultimately have "?U = {S ..< S + N}"
    by (intro card_subset_eq) auto
  then have "x \<in> ?U" using assms(2,3) by simp
  then show ?thesis using that by auto
qed

lemma exhausted_heap_all_live:
  assumes "heap_ok S N h [] ls" "S \<le> x" "x < S + N"
  shows "of_nat x \<in> live_bytes ls"
proof -
  have "tiles S N (map extent ls)" using assms(1) by (simp add: heap_ok_def)
  then obtain a s where "(a, s) \<in> set (map extent ls)" "a \<le> x" "x < a + s"
    using tiles_cover [OF _ assms(2,3)] by blast
  then show ?thesis
    by (force simp: live_bytes_def extent_def span_def)
qed

lemma DMM_AllocateForKernel_fresh:
  assumes "AUTAddress h = 0" "0 < S" "S + 0x3000000 < 4294967296" "unat uiSz + 16 \<le> 0x3000000"
  shows "\<exists>h'. DMM_AllocateForKernel (of_nat S) uiSz 0 h = Some (Inr (of_nat (S + 16)), h')"
proof -
  define h0 where "h0 = InitHead (of_nat S) MEM_KERNEL_HEAP_SIZE h"
  have ok: "heap_ok S 0x3000000 h0 [(S, 0x3000000)] []"
    using InitHead_ok [OF assms(1) _ assms(2), of "0x3000000"] assms(3) by (simp add: h0_def)
  have "DMM_AllocateForKernel (of_nat S) uiSz 0 h = DMM_AllocateForKernel (of_nat S) uiSz 0 h0"
    using heap_ok_AUTAddress [OF ok]
    by (simp add: DMM_AllocateForKernel_def DMM_CheckAlignNumber_def InitHead_id Let_def
        flip: h0_def)
  moreover have "abs_alloc (unat uiSz) (unat (0 :: u32)) [(S, 0x3000000)] \<noteq> None"
    using assms(4) by (simp add: abs_alloc_def pad_def)
  ultimately show ?thesis
    using DMM_AllocateForKernel_correct [OF ok, of 0 uiSz "of_nat S"] assms(4)
    by (auto simp: abs_alloc_def pad_def carve_def split: option.splits if_splits)
qed

lemma exhausted_heap_overlaps:
  assumes ok: "heap_ok S 0x3000000 h [] ls" and sz: "unat uiSz + 16 \<le> 0x3000000"
  shows "\<exists>h'. DMM_AllocateForKernel (of_nat S) uiSz 0 h = Some (Inr (of_nat (S + 16)), h') \<and>
     span (S + 16) (unat uiSz) \<subseteq> live_bytes ls"
proof -
  have "span (S + 16) (unat uiSz) \<subseteq> live_bytes ls"
    using exhausted_heap_all_live [OF ok] sz by (auto simp: span_def)
  moreover have "AUTAddress h = 0" using heap_ok_AUTAddress [OF ok] by simp
  ultimately show ?thesis
    using DMM_AllocateForKernel_fresh [of h S uiSz] ok sz by (auto simp: heap_ok_def)
qed

lemma put_AUT_load_before:
  assumes "k + 4 \<le> l" "l + 16 \<le> 4294967296"
  shows "load32 (put_AUT m (of_nat l) t) (of_nat k) = load32 m (of_nat k)"
proof (rule load32_cong)
  fix x assume "x \<in> span k 4"
  then have "x \<notin> span l 16" using span_disjoint [of k 4 l 16] assms by auto
  then show "put_AUT m (of_nat l) t x = m x" by simp
qed

lemma oversized_request_overlaps:
  assumes ok: "heap_ok S N h ((a, s) # fs) ls" and s: "26 \<le> s"
  shows "\<exists>h'. DMM_AllocateForKernel start 0xFFFFFFF8 0 h = Some (Inr (of_nat (a + 16)), h') \<and>
     AUTAddress h' = of_nat (a + 8) \<and>
     uiAllocatedAddress (AUT_at (mem h') (of_nat (a + 8))) = of_nat (a + 8) \<and>
     uiSize (AUT_at (mem h') (of_nat (a + 8))) = of_nat (s - 8)"
proof -
  have T: "tiles S N ((a, s) # fs @ map extent ls)" using ok by (simp add: heap_ok_def)
  have b: "0 < a" "a + s < 4294967296"
    using tiles_chunks [OF T] ok by (auto simp: chunk_in_def heap_ok_def)
  have head: "AUTAddress h = of_nat a" "uiAllocatedAddress (AUT_at (mem h) (of_nat a)) = of_nat a"
    "uiSize (AUT_at (mem h) (of_nat a)) = of_nat s"
    using ok by (auto simp: heap_ok_def)
  have nz: "(of_nat a :: u32) \<noteq> 0" using b by (simp add: of_nat_eq_0_u32)
  define m where "m = put_AUT (mem h) (of_nat a)
      \<lparr>uiAllocatedAddress = of_nat a, uiReturnAddress = of_nat (a + 16),
       uiSize = 8, uiNextAUTAddress = 0\<rparr>"
  define m' where "m' = put_AUT m (of_nat (a + 8))
      \<lparr>uiAllocatedAddress = of_nat (a + 8), uiReturnAddress = 0, uiSize = of_nat (s - 8),
       uiNextAUTAddress = uiNextAUTAddress (AUT_at (mem h) (of_nat a))\<rparr>"
  have fit: "(0x100000008 :: u32) = 8" "(8 :: u32) \<le> of_nat s"
    using of_nat_le_u32 [of 8 s] b s by auto
  have g: "AUT_SIZE + 1 < (of_nat s - 8 :: u32)"
    using of_nat_less_u32 [of 17 "s - 8"] b s by simp
  have at: "AUT_at m' (of_nat (a + 8)) =
      \<lparr>uiAllocatedAddress = of_nat (a + 8), uiReturnAddress = 0, uiSize = of_nat (s - 8),
       uiNextAUTAddress = uiNextAUTAddress (AUT_at (mem h) (of_nat a))\<rparr>"
    using b s unfolding m'_def by (intro AUT_at_updates) simp
  have "load32 m' (of_nat (a + 4)) = load32 m (of_nat (a + 4))"
    using b s unfolding m'_def by (intro put_AUT_load_before) auto
  then have "uiReturnAddress (AUT_at m' (of_nat a)) = uiReturnAddress (AUT_at m (of_nat a))"
    by (simp add: AUT_at_def)
  also have "\<dots> = of_nat (a + 16)"
    using b s unfolding m_def by (subst AUT_at_updates) simp_all
  finally have ret: "uiReturnAddress (AUT_at m' (of_nat a)) = of_nat (a + 16)" .
  have take: "TakeChunk (of_nat a) (of_nat s) (uiNextAUTAddress (AUT_at (mem h) (of_nat a))) 0 8 0 h
      = h\<lparr>mem := m', AUTAddress := of_nat (a + 8)\<rparr>"
    using at s g by (simp add: TakeChunk_def Let_def m_def m'_def)
  have loop: "Allocate_loop 0xFFFFFFF8 0 (of_nat a) 0 h =
      Some (Inr (of_nat a, of_nat a), h\<lparr>mem := m', AUTAddress := of_nat (a + 8)\<rparr>)"
    using nz by (subst Allocate_loop.simps)
      (simp add: fit head DMM_GetByteStuffForAlign_def take Let_def del: of_nat_add)
  have "DMM_AllocateForKernel start 0xFFFFFFF8 0 h =
      Some (Inr (of_nat (a + 16)), h\<lparr>mem := m', AUTAddress := of_nat (a + 8)\<rparr>)"
    using nz ret loop by (simp add: DMM_AllocateForKernel_def DMM_CheckAlignNumber_def InitHead_id
        head Let_def del: of_nat_add)
  then show ?thesis using at by simp
qed

section \<open>Runs of the kernel heap\<close>

text \<open>The states a kernel heap at address \<open>S\<close> passes through, with the blocks its clients hold
  (address handed out and size asked for): allocations of any size and alignment that succeed or
  fail, the release of a block held, and the writes of a client to a block it holds. The run keeps
  a log with an entry for every allocation: whether it met an exhausted heap (the list head NULL
  while blocks are held, where the code starts a new heap over the old one), and the bytes it asked
  for, header and alignment included, which the code adds up modulo \<open>2^32\<close>.\<close>

type_synonym request_log = "(bool \<times> nat) list"

definition request_entry :: "heap_state \<Rightarrow> (u32 \<times> u32) list \<Rightarrow> u32 \<Rightarrow> u32 \<Rightarrow> bool \<times> nat" where
  "request_entry h bs sz al = (AUTAddress h = 0 \<and> bs \<noteq> [], unat sz + 16 + unat al)"

inductive kernel_heap_run :: "nat \<Rightarrow> heap_state \<Rightarrow> (u32 \<times> u32) list \<Rightarrow> request_log \<Rightarrow> bool" for S where
  unused: "AUTAddress h = 0 \<Longrightarrow> kernel_heap_run S h [] []"
| alloc: "kernel_heap_run S h bs log \<Longrightarrow> DMM_AllocateForKernel (of_nat S) sz al h = Some (Inr r, h') \<Longrightarrow>
    kernel_heap_run S h' ((r, sz) # bs) (request_entry h bs sz al # log)"
| failed: "kernel_heap_run S h bs log \<Longrightarrow> DMM_AllocateForKernel (of_nat S) sz al h = Some (Inl e, h') \<Longrightarrow>
    kernel_heap_run S h' bs (request_entry h bs sz al # log)"
| release: "kernel_heap_run S h (bs @ (r, sz) # bs') log \<Longrightarrow>
    DMM_DeAllocateForKernel (of_nat S) r h = (res, h') \<Longrightarrow> kernel_heap_run S h' (bs @ bs') log"
| client_write: "kernel_heap_run S h bs log \<Longrightarrow> (r, sz) \<in> set bs \<Longrightarrow> x \<in> span (unat r) (unat sz) \<Longrightarrow>
    kernel_heap_run S (h\<lparr>mem := (mem h)(x := v)\<rparr>) bs log"

inductive_cases unused_heapE: "kernel_heap_run S h bs []"

definition holds :: "u32 \<times> u32 \<Rightarrow> live_chunk \<Rightarrow> bool" where
  "holds = (\<lambda>(r, sz) (a, s, st). r = of_nat (a + st + 16) \<and> unat sz + st + 16 \<le> s)"

lemma holds_span:
  assumes "holds (r, n) (a, s, st)" "a + s < 4294967296"
  shows "span (unat r) (unat n) \<subseteq> span a s"
proof -
  have "unat r = a + st + 16" "unat n + st + 16 \<le> s"
    using assms by (auto simp: holds_def of_nat_unat_u32 simp del: of_nat_add)
  then show ?thesis using span_mono [of a "a + st + 16" "unat n" s] by simp
qed

definition tracked :: "nat \<Rightarrow> heap_state \<Rightarrow> (u32 \<times> u32) list \<Rightarrow> bool" where
  "tracked S h bs \<longleftrightarrow> AUTAddress h = 0 \<and> bs = [] \<or>
     (\<exists>fs ls. heap_ok S 0x3000000 h fs ls \<and> list_all2 holds bs ls)"

lemma tracked_unfold_head:
  assumes "tracked S h bs" "AUTAddress h \<noteq> 0 \<or> bs = []" "0 < S" "S + 0x3000000 < 4294967296"
  obtains fs ls where "heap_ok S 0x3000000 (InitHead (of_nat S) MEM_KERNEL_HEAP_SIZE h) fs ls"
    "fs \<noteq> []" "list_all2 holds bs ls"
proof (cases "AUTAddress h = 0")
  case True
  then show ?thesis
    using that [of "[(S, 0x3000000)]" "[]"] InitHead_ok [OF True _ assms(3), of "0x3000000"] assms
    by auto
next
  case False
  then show ?thesis
    using that assms(1) heap_ok_AUTAddress [of S "0x3000000" h]
    by (auto simp: tracked_def InitHead_id)
qed

lemma AllocateForKernel_InitHead:
  assumes "DMM_CheckAlignNumber al = Inr ()"
    "AUTAddress (InitHead (of_nat S) MEM_KERNEL_HEAP_SIZE h) \<noteq> 0"
  shows "DMM_AllocateForKernel (of_nat S) sz al h =
    DMM_AllocateForKernel (of_nat S) sz al (InitHead (of_nat S) MEM_KERNEL_HEAP_SIZE h)"
  using assms by (simp add: DMM_AllocateForKernel_def InitHead_id)

lemma tracked_alloc:
  assumes "tracked S h bs" "AUTAddress h \<noteq> 0 \<or> bs = []" "0 < S" "S + 0x3000000 < 4294967296"
    "unat sz + 16 + unat al < 4294967296"
    "DMM_AllocateForKernel (of_nat S) sz al h = Some (res, h')"
  shows "case res of Inl e \<Rightarrow> tracked S h' bs | Inr r \<Rightarrow> tracked S h' ((r, sz) # bs)"
proof (cases "DMM_CheckAlignNumber al")
  case (Inl e)
  then show ?thesis using assms(1,6) by (auto simp: DMM_AllocateForKernel_def)
next
  case (Inr u)
  then have al: "al = 0 \<or> IsPowerOfTwo al"
    by (auto simp: DMM_CheckAlignNumber_def split: if_splits)
  let ?h = "InitHead (of_nat S) MEM_KERNEL_HEAP_SIZE h"
  obtain fs ls where ok: "heap_ok S 0x3000000 ?h fs ls" "fs \<noteq> []" "list_all2 holds bs ls"
    using tracked_unfold_head [OF assms(1-4)] by blast
  have "DMM_AllocateForKernel (of_nat S) sz al ?h = Some (res, h')"
    using AllocateForKernel_InitHead [of al S h sz] Inr heap_ok_AUTAddress [OF ok(1)] ok(2) assms(6)
    by simp
  with DMM_AllocateForKernel_correct [OF ok(1,2) al assms(5), of "of_nat S"] ok
  show ?thesis
    by (cases "abs_alloc (unat sz) (unat al) fs")
      (fastforce simp: tracked_def holds_def)+
qed

lemma tracked_release:
  assumes "tracked S h (bs @ (r, sz) # bs')" "DMM_DeAllocateForKernel (of_nat S) r h = (res, h')"
  shows "tracked S h' (bs @ bs')"
proof -
  obtain fs l1 a s st l2 where ok: "heap_ok S 0x3000000 h fs (l1 @ (a, s, st) # l2)"
      "list_all2 holds bs l1" "list_all2 holds bs' l2" "r = of_nat (a + st + 16)"
    using assms(1) by (auto simp: tracked_def list_all2_append1 list_all2_Cons1 holds_def)
  then show ?thesis
    using DMM_DeAllocateForKernel_correct [OF ok(1)] assms(2)
    by (fastforce simp: tracked_def list_all2_appendI simp del: of_nat_add)
qed

lemma tracked_write:
  assumes "tracked S h bs" "(r, sz) \<in> set bs" "x \<in> span (unat r) (unat sz)"
  shows "tracked S (h\<lparr>mem := (mem h)(x := v)\<rparr>) bs"
proof -
  let ?m = "(mem h)(x := v)"
  obtain fs ls where ok: "heap_ok S 0x3000000 h fs ls" "list_all2 holds bs ls"
    using assms(1,2) by (auto simp: tracked_def)
  obtain a s st where l: "(a, s, st) \<in> set ls" "holds (r, sz) (a, s, st)"
    using ok(2) assms(2) by (metis list_all2_conv_all_nth in_set_conv_nth prod_cases3)
  note b = live_chunk_bounds [OF ok(1) l(1)]
  have r: "unat r = a + st + 16" "unat sz + st + 16 \<le> s"
    using l(2) b by (auto simp: holds_def of_nat_unat_u32 simp del: of_nat_add)
  have x: "x \<in> span (a + st + 16) (unat sz)" using assms(3) r by simp
  have xs: "x \<in> span a s"
    using x span_mono [of a "a + st + 16" "unat sz" s] r by auto
  obtain l1 l2 where ls: "ls = l1 @ (a, s, st) # l2" using l(1) by (meson split_list)
  have T: "tiles S 0x3000000 ((fs @ map extent l1) @ (a, s) # map extent l2)"
    using ok(1) by (simp add: heap_ok_def ls extent_def)
  have other: "x \<notin> span c t" if "(c, t) \<in> set fs \<union> set (map extent l1) \<union> set (map extent l2)" for c t
    using spans_disjoint [OF T, of c t] that xs b by auto
  have cf: "list_all (chunk_in S 0x3000000) fs" using tiles_chunks [OF T] by simp
  have "free_list (mem h) p fs 0 = free_list ?m p fs 0" for p
  proof (rule free_list_cong [OF _ cf b(3)])
    fix c t y assume "(c, t) \<in> set fs" "y \<in> span c t"
    then show "mem h y = ?m y" using other [of c t] by auto
  qed
  moreover have "live_header ?m (c, t, u)" if k: "(c, t, u) \<in> set ls" for c t u
  proof (cases "(c, t, u) \<in> set l1 \<union> set l2")
    case True
    then have "(c, t) \<in> set (map extent l1) \<union> set (map extent l2)" by (force simp: extent_def)
    then have "mem h y = ?m y" if "y \<in> span c t" for y using other [of c t] that by auto
    then show ?thesis
      using live_header_cong [of c t "mem h" ?m u] live_chunk_bounds [OF ok(1) k] ok(1) k
      by (auto simp: heap_ok_def list_all_iff)
  next
    case False
    then have c: "c = a" "t = s" "u = st" using k by (auto simp: ls)
    have "x \<notin> span (a + st) 16"
      using x span_disjoint [of "a + st" 16 "a + st + 16" "unat sz"] r b by auto
    then have "AUT_at ?m (of_nat (a + st)) = AUT_at (mem h) (of_nat (a + st))"
      using b by (intro AUT_at_cong) auto
    moreover have "live_header (mem h) (a, s, st)"
      using ok(1) l(1) by (auto simp: heap_ok_def list_all_iff)
    ultimately show ?thesis by (simp add: c live_header_def)
  qed
  ultimately have "free_list ?m (AUTAddress h) fs 0" "list_all (live_header ?m) ls"
    using ok(1) by (simp_all add: heap_ok_def list_all_iff split_paired_all)
  then have "heap_ok S 0x3000000 (h\<lparr>mem := ?m\<rparr>) fs ls"
    using ok(1) by (simp add: heap_ok_def)
  then show ?thesis using ok(2) by (auto simp: tracked_def)
qed

lemma kernel_heap_run_tracked:
  assumes "kernel_heap_run S h bs log" "0 < S" "S + 0x3000000 < 4294967296"
    "\<forall>(exhausted, needed) \<in> set log. \<not> exhausted \<and> needed < 4294967296"
  shows "tracked S h bs"
  using assms
proof (induction rule: kernel_heap_run.induct)
  case (unused h)
  then show ?case by (simp add: tracked_def)
next
  case (alloc h bs log sz al r h')
  then show ?case using tracked_alloc [of S h bs sz al "Inr r" h'] by (simp add: request_entry_def)
next
  case (failed h bs log sz al e h')
  then show ?case using tracked_alloc [of S h bs sz al "Inl e" h'] by (simp add: request_entry_def)
next
  case (release h bs r sz bs' log res h')
  then show ?case using tracked_release [of S h bs r sz bs' res h'] by blast
next
  case (client_write h bs log r sz x v)
  then show ?case using tracked_write [of S h bs r sz x v] by blast
qed

lemma held_blocks_apart:
  assumes "tracked S h bs"
  shows "sorted_wrt (\<lambda>(r, n) (r', n'). span (unat r) (unat n) \<inter> span (unat r') (unat n') = {}) bs"
proof (cases "bs = []")
  case False
  then obtain fs ls where ok: "heap_ok S 0x3000000 h fs ls" "list_all2 holds bs ls"
    using assms by (auto simp: tracked_def)
  have T: "sorted_wrt apart (map extent ls)" "list_all (chunk_in S 0x3000000) (map extent ls)"
    and B: "S + 0x3000000 < 4294967296"
    using ok(1) by (auto simp: heap_ok_def tiles_def sorted_wrt_append)
  have "span (unat r) (unat n) \<inter> span (unat r') (unat n') = {}"
    if "i < j" "j < length bs" "bs ! i = (r, n)" "bs ! j = (r', n')" for i j r n r' n'
  proof -
    obtain a s st where i: "ls ! i = (a, s, st)" by (cases "ls ! i")
    obtain a' s' st' where j: "ls ! j = (a', s', st')" by (cases "ls ! j")
    have len: "length bs = length ls" using ok(2) by (rule list_all2_lengthD)
    have h: "holds (r, n) (a, s, st)" "holds (r', n') (a', s', st')"
      using ok(2) that i j len by (metis list_all2_nthD less_trans)+
    have "apart (map extent ls ! i) (map extent ls ! j)"
      using T(1) that len by (intro sorted_wrt_nth_less) auto
    then have ap: "apart (a, s) (a', s')" using that len i j by (simp add: extent_def)
    have "(a, s, st) \<in> set ls" "(a', s', st') \<in> set ls"
      using i j that len by (metis nth_mem less_trans)+
    then have b: "a + s < 4294967296" "a' + s' < 4294967296"
      using live_chunk_bounds(2,3) [OF ok(1)] by fastforce+
    have "span (unat r) (unat n) \<subseteq> span a s" "span (unat r') (unat n') \<subseteq> span a' s'"
      using h b by (simp_all add: holds_span)
    then show ?thesis using apart_span [OF ap] b by auto
  qed
  then show ?thesis by (auto simp: sorted_wrt_iff_nth_less split: prod.splits)
qed simp

section \<open>The heap of a process\<close>

lemma TouchPages_loop_ends:
  assumes "n < 4294963200"
  shows "\<exists>xs. TouchPages_loop addr (of_nat n) = Some xs"
proof (induction "n - unat addr" arbitrary: addr rule: less_induct)
  case less
  show ?case
  proof (cases "addr < of_nat n")
    case True
    then have a: "unat addr < n"
      using assms by (simp add: word_less_nat_alt of_nat_unat_u32)
    then have "unat (addr + PAGE_SIZE) = unat addr + 4096"
      using assms by (intro trans [OF unat_add_no_wrap]) auto
    then obtain xs where "TouchPages_loop (addr + PAGE_SIZE) (of_nat n) = Some xs"
      using less [of "addr + PAGE_SIZE"] a by (metis diff_less_mono2 less_add_same_cancel1 zero_less_numeral)
    then show ?thesis using True by (subst TouchPages_loop.simps) simp
  qed (simp add: TouchPages_loop.simps)
qed

lemma free_chunk_header:
  assumes "heap_ok S N h fs ls" "(a, s) \<in> set fs"
  shows "uiReturnAddress (AUT_at (mem h) (of_nat a)) = 0"
    "uiAllocatedAddress (AUT_at (mem h) (of_nat a)) = of_nat a"
    "uiSize (AUT_at (mem h) (of_nat a)) = of_nat s"
proof -
  have "free_list m p fs q \<Longrightarrow> (a, s) \<in> set fs \<Longrightarrow>
      uiReturnAddress (AUT_at m (of_nat a)) = 0 \<and>
      uiAllocatedAddress (AUT_at m (of_nat a)) = of_nat a \<and>
      uiSize (AUT_at m (of_nat a)) = of_nat s" for m p q
    by (induction fs arbitrary: p) auto
  then show "uiReturnAddress (AUT_at (mem h) (of_nat a)) = 0"
    "uiAllocatedAddress (AUT_at (mem h) (of_nat a)) = of_nat a"
    "uiSize (AUT_at (mem h) (of_nat a)) = of_nat s"
    using assms by (auto simp: heap_ok_def)
qed

lemma heap_ok_scheme:
  "heap_ok S N (h :: 'a heap_state_scheme) fs ls \<Longrightarrow> mem h' = mem h \<Longrightarrow> AUTAddress h' = AUTAddress h \<Longrightarrow>
   heap_ok S N (h' :: 'b heap_state_scheme) fs ls"
  by (simp add: heap_ok_def)

lemma DMM_Allocate_result:
  assumes ok: "heap_ok S N h fs ls" "S + N < 4294963200"
    and al: "uiAlign = 0 \<or> IsPowerOfTwo uiAlign"
    and fit: "unat uiSz + 16 + unat uiAlign < 4294967296"
    and some: "abs_alloc (unat uiSz) (unat uiAlign) fs = Some (fs', (a, s, st))"
    and st: "st = 0 \<or> 16 \<le> st"
  shows "\<exists>h' reads. DMM_Allocate SEG uiSz uiAlign h = Some (Inr (PROCESS_VIRTUAL_ALLOCATED_ADDRESS SEG
       (if st = 0 then of_nat (a + 16) else 0), reads), h') \<and>
     heap_ok S N h' fs' ((a, s, st) # ls) \<and> (\<forall>x \<in> live_bytes ls. mem h' x = mem h x) \<and>
     \<not> DMMFlag h'"
proof -
  have c: "DMM_CheckAlignNumber uiAlign = Inr ()"
    using al by (auto simp: DMM_CheckAlignNumber_def)
  define h1 where "h1 = h\<lparr>DMMFlag := True\<rparr>"
  have ok1: "heap_ok S N h1 fs ls" using heap_ok_scheme [OF ok(1), of h1] by (simp add: h1_def)
  have fs: "fs \<noteq> []" using some by (auto simp: abs_alloc_def)
  then have i: "InitHead start n h1 = h1" for start n
    using heap_ok_AUTAddress [OF ok1] by (simp add: InitHead_id)
  obtain h' where h': "Allocate_loop uiSz uiAlign (AUTAddress h1) 0 h1 =
        Some (Inr (of_nat a, of_nat (a + st)), h')" "heap_ok S N h' fs' ((a, s, st) # ls)"
      "\<forall>x \<in> live_bytes ls. mem h' x = mem h1 x" "a \<in> fst ` set fs"
      "16 \<le> st \<longrightarrow> AUT_at (mem h') (of_nat a) = AUT_at (mem h1) (of_nat a)"
    using Allocate_loop_refines [OF ok1 fit] some by auto
  obtain s0 where s0: "(a, s0) \<in> set fs" using h'(4) by auto
  note old = free_chunk_header [OF ok1 s0]
  note b = live_chunk_bounds [OF h'(2), of a s st, simplified]
  have s0b: "a + s0 < 4294963200"
  proof -
    have "list_all (chunk_in S N) fs"
      using tiles_chunks [of S N "fs @ map extent ls"] ok(1) by (simp add: heap_ok_def)
    then have "chunk_in S N (a, s0)" using s0 unfolding list_all_iff by blast
    then show ?thesis using ok(2) by (simp add: chunk_in_def)
  qed
  have size: "uiSize (AUT_at (mem h') (of_nat a)) = of_nat (if st = 0 then s else s0)"
    and ret: "uiReturnAddress (AUT_at (mem h') (of_nat a)) = (if st = 0 then of_nat (a + 16) else 0)"
    using st h' old b TakeChunk_header [OF h'(2)] by auto
  define limit where "limit = a + (if st = 0 then s else s0)"
  have "limit < 4294963200" using s0b b ok by (auto simp: limit_def)
  then obtain reads where reads: "TouchPages_loop (of_nat a + AUT_SIZE) (of_nat limit) = Some reads"
    using TouchPages_loop_ends by blast
  have lim: "of_nat a + of_nat (if st = 0 then s else s0) = (of_nat limit :: u32)"
    by (simp add: limit_def)
  have "DMM_Allocate SEG uiSz uiAlign h = Some (Inr (PROCESS_VIRTUAL_ALLOCATED_ADDRESS SEG
       (if st = 0 then of_nat (a + 16) else 0), reads @ [of_nat limit - 1]), h'\<lparr>DMMFlag := False\<rparr>)"
    unfolding DMM_Allocate_def c Let_def h1_def [symmetric] i
    using h'(1) reads by (simp only: sum.case option.case prod.case old size lim ret)
  moreover have "heap_ok S N (h'\<lparr>DMMFlag := False\<rparr>) fs' ((a, s, st) # ls)"
    using heap_ok_scheme [OF h'(2), of "h'\<lparr>DMMFlag := False\<rparr>"] by simp
  ultimately show ?thesis using h'(3) by (auto simp: h1_def)
qed

lemma DMM_Allocate_out_of_memory:
  assumes ok: "heap_ok S N h fs ls" "fs \<noteq> []"
    and fit: "unat uiSz + 16 < 4294967296"
    and none: "abs_alloc (unat uiSz) 0 fs = None"
  shows "DMM_Allocate SEG uiSz 0 h = Some (Inl OutOfMemory, h\<lparr>DMMFlag := True\<rparr>)"
proof -
  define h1 where "h1 = h\<lparr>DMMFlag := True\<rparr>"
  have ok1: "heap_ok S N h1 fs ls" using heap_ok_scheme [OF ok(1), of h1] by (simp add: h1_def)
  have i: "InitHead start n h1 = h1" for start n
    using heap_ok_AUTAddress [OF ok1] ok(2) by (simp add: InitHead_id)
  have "Allocate_loop uiSz 0 (AUTAddress h1) 0 h1 = Some (Inl OutOfMemory, h1)"
    using Allocate_loop_refines [OF ok1, of "unat uiSz" 0] fit none by simp
  then show ?thesis
    by (simp add: DMM_Allocate_def DMM_CheckAlignNumber_def i flip: h1_def)
qed

lemma DMM_DeAllocate_correct:
  assumes ok: "heap_ok S N h fs (ls @ (a, s, st) # ls')" and S: "of_nat S = PROCESS_HEAP_START_ADDRESS - SEG"
  shows "\<exists>h'. DMM_DeAllocate SEG (PROCESS_VIRTUAL_ALLOCATED_ADDRESS SEG (of_nat (a + st + 16))) h =
       (DMM_SUCCESS, h') \<and>
     heap_ok S N h' ((a, s) # fs) (ls @ ls') \<and>
     (\<forall>x \<in> live_bytes (ls @ ls'). mem h' x = mem h x)"
proof -
  note b = live_chunk_bounds [OF ok in_middle]
  note a = handed_out_address [OF ok]
  define h' where "h' = h\<lparr>mem := put_AUT (mem h) (of_nat a)
        \<lparr>uiAllocatedAddress = of_nat a, uiReturnAddress = 0, uiSize = of_nat s,
         uiNextAUTAddress = AUTAddress h\<rparr>, AUTAddress := of_nat a\<rparr>"
  have v: "PROCESS_REAL_ALLOCATED_ADDRESS SEG (PROCESS_VIRTUAL_ALLOCATED_ADDRESS SEG x) = x" for x
    by (simp add: PROCESS_REAL_ALLOCATED_ADDRESS_def PROCESS_VIRTUAL_ALLOCATED_ADDRESS_def)
  have "DMM_DeAllocate SEG (PROCESS_VIRTUAL_ALLOCATED_ADDRESS SEG (of_nat (a + st + 16))) h =
      (DMM_SUCCESS, h')"
    using a b unfolding DMM_DeAllocate_def Let_def v S [symmetric]
    by (simp add: h'_def del: of_nat_add)
  then show ?thesis
    using push_free [OF ok, of h'] by (auto simp: h'_def)
qed

section \<open>Properties\<close>

lemma sample_heap_ok:
  "heap_ok 0x4000000 0x3000000 (InitHead (of_nat 0x4000000) (of_nat 0x3000000)
     \<lparr>mem = \<lambda>_. 0, AUTAddress = 0\<rparr>) [(0x4000000, 0x3000000)] []"
  by (rule InitHead_ok) simp_all

lemma full_heap_ok:
  assumes "0 < S" "S + N < 4294967296" "16 \<le> N"
  shows "heap_ok S N \<lparr>mem = put_AUT m (of_nat S) \<lparr>uiAllocatedAddress = of_nat S,
     uiReturnAddress = of_nat (S + 16), uiSize = of_nat N, uiNextAUTAddress = 0\<rparr>,
     AUTAddress = 0\<rparr> [] [(S, N, 0)]"
  using assms by (simp add: heap_ok_def tiles_def chunk_in_def extent_def live_header_def)

lemma sample_full_heap_ok:
  "heap_ok 0x4000000 0x3000000 \<lparr>mem = put_AUT (\<lambda>_. 0) (of_nat 0x4000000)
     \<lparr>uiAllocatedAddress = of_nat 0x4000000, uiReturnAddress = of_nat (0x4000000 + 16),
      uiSize = of_nat 0x3000000, uiNextAUTAddress = 0\<rparr>, AUTAddress = 0\<rparr> []
     ([] @ (0x4000000, 0x3000000, 0) # [])"
  unfolding append_Nil by (rule full_heap_ok) simp_all

text \<open>C1: \<open>DMM_AllocateForKernel\<close> on a well-formed heap with a free chunk refines the abstract
  first-fit allocator: the walk ends; it throws out-of-memory and leaves the heap as it was
  exactly when no free chunk fits; otherwise the heap stays well formed with the chunk moved
  to the live ones, the address returned is aligned and has room for the request behind the
  header, and no byte of a live chunk changes.\<close>

theorem kernel_allocation_refines_first_fit:
  assumes "heap_ok S N h fs ls" "fs \<noteq> []" "uiAlign = 0 \<or> IsPowerOfTwo uiAlign"
    "unat uiSz + 16 + unat uiAlign < 4294967296"
  shows "case abs_alloc (unat uiSz) (unat uiAlign) fs of
      None \<Rightarrow> DMM_AllocateForKernel start uiSz uiAlign h = Some (Inl OutOfMemory, h)
    | Some (fs', (a, s, st)) \<Rightarrow> \<exists>h'.
        DMM_AllocateForKernel start uiSz uiAlign h = Some (Inr (of_nat (a + st + 16)), h') \<and>
        heap_ok S N h' fs' ((a, s, st) # ls) \<and>
        (\<forall>x \<in> live_bytes ls. mem h' x = mem h x) \<and>
        (uiAlign \<noteq> 0 \<longrightarrow> unat uiAlign dvd a + st + 16) \<and> unat uiSz + st + 16 \<le> s"
proof -
  have "uiAlign \<noteq> 0 \<Longrightarrow> unat uiAlign dvd a + pad (unat uiAlign) (a + 16) + 16" for a
    using pad_aligned [of "unat uiAlign" "a + 16"] by (simp add: unat_eq_zero ac_simps)
  then show ?thesis
    using DMM_AllocateForKernel_correct [OF assms, of start] by (auto split: option.splits)
qed

theorem kernel_allocation_refines_first_fit_witness:
  "case abs_alloc (unat (100 :: u32)) (unat (4096 :: u32)) [(0x4000000, 0x3000000)] of
      None \<Rightarrow> DMM_AllocateForKernel 0x4000000 100 4096 (InitHead (of_nat 0x4000000)
        (of_nat 0x3000000) \<lparr>mem = \<lambda>_. 0, AUTAddress = 0\<rparr>) = Some (Inl OutOfMemory,
        InitHead (of_nat 0x4000000) (of_nat 0x3000000) \<lparr>mem = \<lambda>_. 0, AUTAddress = 0\<rparr>)
    | Some (fs', (a, s, st)) \<Rightarrow> \<exists>h'.
        DMM_AllocateForKernel 0x4000000 100 4096 (InitHead (of_nat 0x4000000)
          (of_nat 0x3000000) \<lparr>mem = \<lambda>_. 0, AUTAddress = 0\<rparr>) = Some (Inr (of_nat (a + st + 16)), h') \<and>
        heap_ok 0x4000000 0x3000000 h' fs' [(a, s, st)] \<and>
        (\<forall>x \<in> live_bytes []. mem h' x = mem (InitHead (of_nat 0x4000000)
          (of_nat 0x3000000) \<lparr>mem = \<lambda>_. 0, AUTAddress = 0\<rparr>) x) \<and>
        ((4096 :: u32) \<noteq> 0 \<longrightarrow> unat (4096 :: u32) dvd a + st + 16) \<and>
        unat (100 :: u32) + st + 16 \<le> s"
  by (rule kernel_allocation_refines_first_fit [OF sample_heap_ok]) (simp_all add: IsPowerOfTwo_def)

text \<open>\<open>DMM_DeAllocateForKernel\<close> on the address of a live chunk succeeds, finds the start of the
  chunk from the alignment bytes stored in its header, pushes the whole chunk on the free list
  and keeps the heap well formed and every other live chunk's bytes.\<close>

theorem kernel_release_restores_chunk:
  assumes "heap_ok S N h fs (ls @ (a, s, st) # ls')"
  shows "\<exists>h'. DMM_DeAllocateForKernel (of_nat S) (of_nat (a + st + 16)) h = (DMM_SUCCESS, h') \<and>
     heap_ok S N h' ((a, s) # fs) (ls @ ls') \<and>
     (\<forall>x \<in> live_bytes (ls @ ls'). mem h' x = mem h x)"
  by (rule DMM_DeAllocateForKernel_correct [OF assms])

theorem kernel_release_restores_chunk_witness:
  "\<exists>h'. DMM_DeAllocateForKernel (of_nat 0x4000000) (of_nat (0x4000000 + 0 + 16))
      \<lparr>mem = put_AUT (\<lambda>_. 0) (of_nat 0x4000000) \<lparr>uiAllocatedAddress = of_nat 0x4000000,
         uiReturnAddress = of_nat (0x4000000 + 16), uiSize = of_nat 0x3000000,
         uiNextAUTAddress = 0\<rparr>, AUTAddress = 0\<rparr> = (DMM_SUCCESS, h') \<and>
     heap_ok 0x4000000 0x3000000 h' [(0x4000000, 0x3000000)] ([] @ []) \<and>
     (\<forall>x \<in> live_bytes ([] @ []). mem h' x = mem \<lparr>mem = put_AUT (\<lambda>_. 0) (of_nat 0x4000000)
        \<lparr>uiAllocatedAddress = of_nat 0x4000000, uiReturnAddress = of_nat (0x4000000 + 16),
         uiSize = of_nat 0x3000000, uiNextAUTAddress = 0\<rparr>, AUTAddress = 0\<rparr> x)"
  by (rule kernel_release_restores_chunk [OF sample_full_heap_ok])

text \<open>C16: take any run of allocations, failed allocations, releases of held blocks and writes of
  the clients to the blocks they hold, in which no allocation was made with the list head NULL
  while blocks were held and none asked for \<open>2^32\<close> bytes or more with header and alignment (neither
  is checked by the code). Then the blocks held, as many bytes as were asked for, are pairwise
  disjoint.\<close>

theorem kernel_heap_blocks_disjoint:
  assumes "kernel_heap_run S h bs log" "0 < S" "S + 0x3000000 < 4294967296"
    "\<forall>(exhausted, needed) \<in> set log. \<not> exhausted \<and> needed < 4294967296"
  shows "sorted_wrt (\<lambda>(r, n) (r', n'). span (unat r) (unat n) \<inter> span (unat r') (unat n') = {}) bs"
  by (rule held_blocks_apart [OF kernel_heap_run_tracked [OF assms]])

lemma sample_run:
  "\<exists>h r1 r2. kernel_heap_run 0x4000000 h [(r2, 8), (r1, 100)] [(False, 24), (False, 116)]"
proof -
  have start: "kernel_heap_run 0x4000000 \<lparr>mem = \<lambda>_. 0, AUTAddress = 0\<rparr> [] []"
    by (rule kernel_heap_run.unused) simp
  let ?h = "InitHead (of_nat 0x4000000) MEM_KERNEL_HEAP_SIZE \<lparr>mem = \<lambda>_. 0, AUTAddress = 0\<rparr>"
  have ok: "heap_ok 0x4000000 0x3000000 ?h [(0x4000000, 0x3000000)] []"
    using sample_heap_ok by simp
  have "AUTAddress ?h \<noteq> 0" using heap_ok_AUTAddress [OF ok] by simp
  then obtain h1 r1 where 1: "DMM_AllocateForKernel (of_nat 0x4000000) 100 0
      \<lparr>mem = \<lambda>_. 0, AUTAddress = 0\<rparr> = Some (Inr r1, h1)"
      "heap_ok 0x4000000 0x3000000 h1 [(0x4000000 + 116, 0x3000000 - 116)] [(0x4000000, 116, 0)]"
    using AllocateForKernel_InitHead [of 0 "0x4000000" _ 100]
      DMM_AllocateForKernel_correct [OF ok, of 0 100 "of_nat 0x4000000"]
    by (auto simp: abs_alloc_def pad_def carve_def DMM_CheckAlignNumber_def)
  have run1: "kernel_heap_run 0x4000000 h1 [(r1, 100)] [(False, 116)]"
    using kernel_heap_run.alloc [OF start 1(1)] by (simp add: request_entry_def)
  have n1: "AUTAddress h1 \<noteq> 0" using heap_ok_AUTAddress [OF 1(2)] by simp
  obtain h2 r2 where 2: "DMM_AllocateForKernel (of_nat 0x4000000) 8 0 h1 = Some (Inr r2, h2)"
    using DMM_AllocateForKernel_correct [OF 1(2), of 0 8 "of_nat 0x4000000"]
    by (auto simp: abs_alloc_def pad_def carve_def)
  have "kernel_heap_run 0x4000000 h2 [(r2, 8), (r1, 100)] [(False, 24), (False, 116)]"
    using kernel_heap_run.alloc [OF run1 2] by (simp add: request_entry_def n1)
  then show ?thesis by blast
qed

theorem kernel_heap_blocks_disjoint_witness:
  "\<exists>h r1 r2. kernel_heap_run 0x4000000 h [(r2, 8), (r1, 100)] [(False, 24), (False, 116)] \<and>
     span (unat r2) 8 \<inter> span (unat r1) 100 = {}"
proof -
  obtain h r1 r2 where run: "kernel_heap_run 0x4000000 h [(r2, 8), (r1, 100)] [(False, 24), (False, 116)]"
    using sample_run by blast
  then show ?thesis using kernel_heap_blocks_disjoint [OF run]
    by (intro exI [of _ h] exI [of _ r1] exI [of _ r2] conjI) simp_all
qed

text \<open>C19: a NULL list head also means that every free chunk has been taken; then
  \<open>DMM_AllocateForKernel\<close> does not report out-of-memory but starts a new heap over the old one
  and returns a block all of whose bytes belong to live chunks.\<close>

theorem exhausted_kernel_heap_is_reset:
  assumes "heap_ok S 0x3000000 h [] ls" "unat uiSz + 16 \<le> 0x3000000"
  shows "\<exists>h'. DMM_AllocateForKernel (of_nat S) uiSz 0 h = Some (Inr (of_nat (S + 16)), h') \<and>
     span (S + 16) (unat uiSz) \<subseteq> live_bytes ls"
  by (rule exhausted_heap_overlaps [OF assms])

theorem exhausted_kernel_heap_is_reset_witness:
  "\<exists>h'. DMM_AllocateForKernel (of_nat 0x4000000) 64 0
      \<lparr>mem = put_AUT (\<lambda>_. 0) (of_nat 0x4000000) \<lparr>uiAllocatedAddress = of_nat 0x4000000,
         uiReturnAddress = of_nat (0x4000000 + 16), uiSize = of_nat 0x3000000,
         uiNextAUTAddress = 0\<rparr>, AUTAddress = 0\<rparr> = Some (Inr (of_nat (0x4000000 + 16)), h') \<and>
     span (0x4000000 + 16) (unat (64 :: u32)) \<subseteq> live_bytes [(0x4000000, 0x3000000, 0)]"
  by (rule exhausted_kernel_heap_is_reset [OF sample_full_heap_ok [unfolded append_Nil]]) simp

text \<open>the size a request needs is computed modulo \<open>2^32\<close>: asking for 4294967288 bytes does not
  fail but returns the address 16 bytes into the first free chunk, which now starts 8 bytes
  before it.\<close>

theorem huge_kernel_request_wraps:
  assumes "heap_ok S N h ((a, s) # fs) ls" "26 \<le> s"
  shows "\<exists>h'. DMM_AllocateForKernel start 0xFFFFFFF8 0 h = Some (Inr (of_nat (a + 16)), h') \<and>
     AUTAddress h' = of_nat (a + 8) \<and>
     uiAllocatedAddress (AUT_at (mem h') (of_nat (a + 8))) = of_nat (a + 8) \<and>
     uiSize (AUT_at (mem h') (of_nat (a + 8))) = of_nat (s - 8)"
  by (rule oversized_request_overlaps [OF assms])

theorem huge_kernel_request_wraps_witness:
  "\<exists>h'. DMM_AllocateForKernel 0x4000000 0xFFFFFFF8 0 (InitHead (of_nat 0x4000000)
        (of_nat 0x3000000) \<lparr>mem = \<lambda>_. 0, AUTAddress = 0\<rparr>) = Some (Inr (of_nat (0x4000000 + 16)), h') \<and>
     AUTAddress h' = of_nat (0x4000000 + 8) \<and>
     uiAllocatedAddress (AUT_at (mem h') (of_nat (0x4000000 + 8))) = of_nat (0x4000000 + 8) \<and>
     uiSize (AUT_at (mem h') (of_nat (0x4000000 + 8))) = of_nat (0x3000000 - 8)"
  by (rule huge_kernel_request_wraps [OF sample_heap_ok]) simp

text \<open>\<open>DMM_Allocate\<close> for a process reads the address it returns from the header of the free
  chunk, not from the one it wrote: it returns the block when no byte is skipped for
  alignment, and the image of NULL when 16 or more are; the heap is updated correctly either
  way, the walk over the pages of the block ends and the DMM flag is cleared.\<close>

theorem process_allocation_returns_stale_header:
  assumes "heap_ok S N h fs ls" "S + N < 4294963200" "uiAlign = 0 \<or> IsPowerOfTwo uiAlign"
    "unat uiSz + 16 + unat uiAlign < 4294967296"
    "abs_alloc (unat uiSz) (unat uiAlign) fs = Some (fs', (a, s, st))" "st = 0 \<or> 16 \<le> st"
  shows "\<exists>h' reads. DMM_Allocate SEG uiSz uiAlign h = Some (Inr (PROCESS_VIRTUAL_ALLOCATED_ADDRESS SEG
       (if st = 0 then of_nat (a + 16) else 0), reads), h') \<and>
     heap_ok S N h' fs' ((a, s, st) # ls) \<and> (\<forall>x \<in> live_bytes ls. mem h' x = mem h x) \<and>
     \<not> DMMFlag h'"
  by (rule DMM_Allocate_result [OF assms])

lemma sample_process_heap_ok:
  "heap_ok 0x80000000 0x40000000 (InitHead (of_nat 0x80000000) (of_nat 0x40000000)
     \<lparr>mem = \<lambda>_. 0, AUTAddress = 0, DMMFlag = False\<rparr>) [(0x80000000, 0x40000000)] []"
  by (rule InitHead_ok) simp_all

theorem process_allocation_returns_stale_header_witness:
  "\<exists>h' reads. DMM_Allocate 0 100 4096 (InitHead (of_nat 0x80000000) (of_nat 0x40000000)
       \<lparr>mem = \<lambda>_. 0, AUTAddress = 0, DMMFlag = False\<rparr>) =
       Some (Inr (PROCESS_VIRTUAL_ALLOCATED_ADDRESS 0
         (if (4080 :: nat) = 0 then of_nat (0x80000000 + 16) else 0), reads), h') \<and>
     heap_ok 0x80000000 0x40000000 h' [(0x80000000 + 4196, 0x40000000 - 4196)]
       [(0x80000000, 4196, 4080)] \<and>
     (\<forall>x \<in> live_bytes []. mem h' x = mem (InitHead (of_nat 0x80000000) (of_nat 0x40000000)
       \<lparr>mem = \<lambda>_. 0, AUTAddress = 0, DMMFlag = False\<rparr>) x) \<and> \<not> DMMFlag h'"
  by (rule process_allocation_returns_stale_header [OF sample_process_heap_ok])
    (simp_all add: IsPowerOfTwo_def abs_alloc_def pad_def carve_def)

end
