(* ===== verification/Pool.thy ===== *)
theory Pool
  imports Prelude
begin

text \<open>
  The contract shared by the allocators of the kernel that hand out numbered resources:
  physical pages, pages of the kernel pool, kernel stack blocks, disk sectors, process and
  file descriptor ids. A provider names the resources in use; taking yields one that was not
  in use, giving back frees exactly that one. Whatever the order in which a client takes and
  gives back, it never holds a resource twice and nothing leaks.
\<close>

locale resource_pool =
  fixes inv :: "'s \<Rightarrow> bool"
    and used :: "'s \<Rightarrow> 'r set"
    and take :: "'s \<Rightarrow> ('r \<times> 's) option"
    and give :: "'r \<Rightarrow> 's \<Rightarrow> 's"
  assumes take_fresh: "inv s \<Longrightarrow> take s = Some (r, s') \<Longrightarrow>
      inv s' \<and> r \<notin> used s \<and> used s' = insert r (used s)"
    and give_frees: "inv s \<Longrightarrow> r \<in> used s \<Longrightarrow> inv (give r s) \<and> used (give r s) = used s - {r}"

text \<open>A client: it takes a resource, or gives back the \<open>i\<close>-th of those it holds.\<close>

datatype pool_command = Take | Give nat

fun run_pool ::
  "('s \<Rightarrow> ('r \<times> 's) option) \<Rightarrow> ('r \<Rightarrow> 's \<Rightarrow> 's) \<Rightarrow> pool_command list \<Rightarrow> 's \<times> 'r list \<Rightarrow> 's \<times> 'r list" where
  "run_pool tk gv [] (s, held) = (s, held)"
| "run_pool tk gv (Take # cs) (s, held) =
     (case tk s of None \<Rightarrow> run_pool tk gv cs (s, held)
      | Some (r, s') \<Rightarrow> run_pool tk gv cs (s', r # held))"
| "run_pool tk gv (Give i # cs) (s, held) =
     (if i < length held then run_pool tk gv cs (gv (held ! i) s, List.take i held @ drop (Suc i) held)
      else run_pool tk gv cs (s, held))"

lemma set_remove_nth:
  assumes "distinct xs" "i < length xs"
  shows "set (List.take i xs @ drop (Suc i) xs) = set xs - {xs ! i}"
    "distinct (List.take i xs @ drop (Suc i) xs)"
proof -
  have xs: "xs = List.take i xs @ xs ! i # drop (Suc i) xs"
    using assms(2) by (simp add: id_take_nth_drop)
  have "distinct (List.take i xs @ xs ! i # drop (Suc i) xs)" using assms(1) xs by simp
  then show "distinct (List.take i xs @ drop (Suc i) xs)" "set (List.take i xs @ drop (Suc i) xs) = set xs - {xs ! i}"
    using arg_cong [OF xs, of set] by auto
qed

context resource_pool
begin

lemma run_exact:
  assumes "inv s" "distinct held" "set held \<inter> base = {}" "used s = base \<union> set held"
    "run_pool take give cs (s, held) = (s', held')"
  shows "inv s' \<and> distinct held' \<and> set held' \<inter> base = {} \<and> used s' = base \<union> set held'"
  using assms
proof (induction cs arbitrary: s held)
  case (Cons c cs)
  show ?case
  proof (cases c)
    case Take
    show ?thesis
    proof (cases "take s")
      case None
      then show ?thesis using Cons Take by simp
    next
      case (Some rs)
      obtain r t where t: "take s = Some (r, t)" using Some by (cases rs) simp
      have "inv t" "r \<notin> used s" "used t = insert r (used s)"
        using take_fresh [OF Cons.prems(1) t] by auto
      moreover have "run_pool take give cs (t, r # held) = (s', held')"
        using Cons.prems(5) t Take by simp
      ultimately show ?thesis using Cons.prems(2-4) by (intro Cons.IH [of t "r # held"]) auto
    qed
  next
    case (Give i)
    show ?thesis
    proof (cases "i < length held")
      case True
      note rm = set_remove_nth [OF Cons.prems(2) True]
      have "held ! i \<in> set held" using True by simp
      then have "held ! i \<in> used s" "held ! i \<notin> base" using Cons.prems(3,4) by auto
      with give_frees [OF Cons.prems(1), of "held ! i"] Cons.prems rm True Give
      show ?thesis by (intro Cons.IH) auto
    next
      case False
      then show ?thesis using Cons Give by simp
    qed
  qed
qed simp

text \<open>A client that starts with nothing ends with distinct resources, none of which was in use
  before, and exactly these are in use beside the old ones.\<close>

lemma client_exact:
  assumes "inv s" "run_pool take give cs (s, []) = (s', held)"
  shows "inv s' \<and> distinct held \<and> set held \<inter> used s = {} \<and> used s' = used s \<union> set held"
  using run_exact [of s "[]" "used s" cs s' held] assms by simp

lemma take_give:
  assumes "inv s" "take s = Some (r, s')"
  shows "used (give r s') = used s"
  using take_fresh [OF assms] give_frees [of s' r] by auto

end

end
