(* ===== verification/Pages.thy ===== *)
theory Pages
  imports Pool
begin

text \<open>
  Physical memory of \<open>memory/MemManager.cpp\<close>: the page bit map built at start-up, the physical
  page allocator, the pool of kernel pages and the map of kernel stack blocks.

  A page map is the array of 32-bit words at \<open>m_uiPageMap\<close>, bit \<open>n mod 32\<close> of word \<open>n div 32\<close>
  standing for page \<open>n\<close>; the arrays are as long as the areas reserved for them in
  \<open>MemConstants.h\<close>. A read or write behind the array is \<open>None\<close>. \<open>ProcessSwitchLock\<close> makes each
  operation one step.
\<close>

section \<open>The memory manager's maps\<close>

datatype return_code = Success | Failure | DupDealloc

datatype page_error = OutOfMemoryPages | OutOfKernelPoolPages | NoFreeStackBlocks

abbreviation (input) MEM_KERNEL_RESV_SIZE :: u32 where "MEM_KERNEL_RESV_SIZE \<equiv> 0x8000000"
abbreviation (input) MEM_PAGE_MAP_AREA :: u32 where "MEM_PAGE_MAP_AREA \<equiv> 0x20000"
abbreviation (input) MEM_KERNEL_PAGE_POOL_SIZE :: u32 where "MEM_KERNEL_PAGE_POOL_SIZE \<equiv> 0x1000000"
abbreviation (input) MEM_KERNEL_PAGE_POOL_MAP_AREA :: u32 where
  "MEM_KERNEL_PAGE_POOL_MAP_AREA \<equiv> 0x2000"
abbreviation (input) KERNEL_POOL_START :: u32 where
  "KERNEL_POOL_START \<equiv> 0x7000000" \<comment> \<open>\<open>MEM_KERNEL_HEAP_START + MEM_KERNEL_HEAP_SIZE\<close>\<close>
abbreviation (input) PAGE_SIZE :: u32 where "PAGE_SIZE \<equiv> 4096"
abbreviation (input) PAGE_TABLE_ENTRIES :: nat where "PAGE_TABLE_ENTRIES \<equiv> 1024"
abbreviation (input) PROCESS_KERNEL_STACK_PAGES :: nat where "PROCESS_KERNEL_STACK_PAGES \<equiv> 8"

record page_maps =
  m_uiPageMap :: "u32 list"
  m_uiPageMapSize :: nat
  m_uiResvSize :: nat
  m_uiKernelPagePoolMap :: "u32 list"
  m_uiKernelPagePoolMapSize :: nat
  m_uiKernelPagePoolStartPage :: u32
  m_iNoOfKernelProcessStackBlocks :: nat
  m_bAllocationMapForKernelProcessStackBlock :: "bool list"

definition array_at :: "'a list \<Rightarrow> nat \<Rightarrow> 'a option" where
  "array_at xs i = (if i < length xs then Some (xs ! i) else None)"

subsection \<open>Start-up\<close>

definition BuildRawPageMap :: "u32 \<Rightarrow> 'a page_maps_scheme \<Rightarrow> bool \<times> 'a page_maps_scheme" where
  "BuildRawPageMap RAM_SIZE mm =
     (let mapSize = RAM_SIZE div PAGE_SIZE div 8 div 4;
          resvSize = MEM_KERNEL_RESV_SIZE div PAGE_SIZE div 8 div 4;
          mm = mm\<lparr>m_uiPageMapSize := unat mapSize, m_uiResvSize := unat resvSize\<rparr>
      in if mapSize * 4 > MEM_PAGE_MAP_AREA then (False, mm)
         else
           let m = foldl (\<lambda>m i. m[i := m ! i AND 0]) (m_uiPageMap mm) [0 ..< unat mapSize];
               m = foldl (\<lambda>m i. m[i := m ! i OR 0xFFFFFFFF]) m [0 ..< unat resvSize]
           in (True, mm\<lparr>m_uiPageMap := m\<rparr>))"

definition BuildPagePoolMap :: "'a page_maps_scheme \<Rightarrow> bool \<times> 'a page_maps_scheme" where
  "BuildPagePoolMap mm =
     (let mapSize = MEM_KERNEL_PAGE_POOL_SIZE div PAGE_SIZE div 8 div 4;
          mm = mm\<lparr>m_uiKernelPagePoolMapSize := unat mapSize,
                  m_uiKernelPagePoolStartPage := KERNEL_POOL_START div PAGE_SIZE\<rparr>
      in if mapSize * 4 > MEM_KERNEL_PAGE_POOL_MAP_AREA then (False, mm)
         else
           let m = foldl (\<lambda>m i. m[i := m ! i AND 0]) (m_uiKernelPagePoolMap mm)
                     [0 ..< unat mapSize]
           in (True, mm\<lparr>m_uiKernelPagePoolMap := m\<rparr>))"

text \<open>The part of \<open>BuildPageTable\<close> that sets up the kernel stack blocks.\<close>

definition InitKernelStackBlocks :: "'a page_maps_scheme \<Rightarrow> 'a page_maps_scheme" where
  "InitKernelStackBlocks mm =
     (let n = PAGE_TABLE_ENTRIES div PROCESS_KERNEL_STACK_PAGES
      in mm\<lparr>m_iNoOfKernelProcessStackBlocks := n,
           m_bAllocationMapForKernelProcessStackBlock :=
             foldl (\<lambda>m i. m[i := False]) (m_bAllocationMapForKernelProcessStackBlock mm) [0 ..< n]\<rparr>)"

subsection \<open>Physical pages\<close>

text \<open>The inner loop of the allocators: the first clear bit of \<open>entry\<close>, shifting it right.\<close>

function ClearBit_loop :: "u32 \<Rightarrow> nat \<Rightarrow> nat option" where
  "ClearBit_loop entry uiPageOffset =
     (if uiPageOffset < 32 then
        if entry AND 1 = 0 then Some uiPageOffset
        else ClearBit_loop (drop_bit 1 entry) (uiPageOffset + 1)
      else None)"
  by pat_completeness auto

termination by (relation "measure (\<lambda>(_, n). 32 - n)") auto

declare ClearBit_loop.simps [simp del]

text \<open>The outer loop, over \<open>uiPageMapPosition\<close>. It returns the map and the position and offset of
  the bit it set; \<open>Some None\<close> is a map with no clear bit.\<close>

function ClearWord_loop :: "u32 list \<Rightarrow> nat \<Rightarrow> nat \<Rightarrow> (u32 list \<times> nat \<times> nat) option option" where
  "ClearWord_loop map0 pos mapSize =
     (if pos < mapSize then
        (case array_at map0 pos of
           None \<Rightarrow> None
         | Some entry \<Rightarrow>
             if entry AND 0xFFFFFFFF \<noteq> 0xFFFFFFFF then
               (case ClearBit_loop entry 0 of
                  Some off \<Rightarrow> Some (Some (map0[pos := entry OR push_bit off 1], pos, off))
                | None \<Rightarrow> ClearWord_loop map0 (pos + 1) mapSize)
             else ClearWord_loop map0 (pos + 1) mapSize)
      else Some None)"
  by pat_completeness auto

termination by (relation "measure (\<lambda>(_, p, n). n - p)") auto

declare ClearWord_loop.simps [simp del]

definition AllocatePhysicalPage ::
  "'a page_maps_scheme \<Rightarrow> ((page_error + u32) \<times> 'a page_maps_scheme) option" where
  "AllocatePhysicalPage mm =
     (case ClearWord_loop (m_uiPageMap mm) (m_uiResvSize mm) (m_uiPageMapSize mm) of
        None \<Rightarrow> None
      | Some None \<Rightarrow> Some (Inl OutOfMemoryPages, mm)
      | Some (Some (m, pos, off)) \<Rightarrow>
          Some (Inr (of_nat pos * 4 * 8 + of_nat off), mm\<lparr>m_uiPageMap := m\<rparr>))"

definition DeAllocatePhysicalPage :: "u32 \<Rightarrow> 'a page_maps_scheme \<Rightarrow> 'a page_maps_scheme option" where
  "DeAllocatePhysicalPage uiPageNumber mm =
     (let uiPageOffset = uiPageNumber mod (8 * 4);
          uiPageMapPosition = unat (uiPageNumber div (8 * 4))
      in case array_at (m_uiPageMap mm) uiPageMapPosition of
           None \<Rightarrow> None
         | Some entry \<Rightarrow>
             Some (mm\<lparr>m_uiPageMap := (m_uiPageMap mm)[uiPageMapPosition :=
               entry AND NOT (push_bit (unat uiPageOffset) 1)]\<rparr>))"

text \<open>\<open>prevRetCode\<close> only decides whether the error is printed.\<close>

definition MarkPageAsAllocated ::
  "u32 \<Rightarrow> return_code \<Rightarrow> 'a page_maps_scheme \<Rightarrow> (return_code \<times> 'a page_maps_scheme) option" where
  "MarkPageAsAllocated uiPageNumber prevRetCode mm =
     (let uiPageMapIndex = unat (uiPageNumber div 32)
      in if uiPageMapIndex \<ge> m_uiPageMapSize mm then Some (Success, mm)
         else case array_at (m_uiPageMap mm) uiPageMapIndex of
           None \<Rightarrow> None
         | Some entry \<Rightarrow>
             let uiPageBitIndex = unat (uiPageNumber mod 32);
                 uiCurVal = drop_bit uiPageBitIndex entry AND 1
             in if uiCurVal \<noteq> 0 then Some (Failure, mm)
                else Some (Success, mm\<lparr>m_uiPageMap := (m_uiPageMap mm)[uiPageMapIndex :=
                       entry OR push_bit uiPageBitIndex 1]\<rparr>))"

text \<open>The count \<open>DisplayNoOfFreePages\<close> prints.\<close>

function CountClear_loop :: "u32 \<Rightarrow> nat \<Rightarrow> nat \<Rightarrow> nat" where
  "CountClear_loop entry uiPageOffset count =
     (if uiPageOffset < 32 then
        CountClear_loop (drop_bit 1 entry) (uiPageOffset + 1)
          (if entry AND 1 = 0 then count + 1 else count)
      else count)"
  by pat_completeness auto

termination by (relation "measure (\<lambda>(_, n, _). 32 - n)") auto

declare CountClear_loop.simps [simp del]

function FreePageCount_loop :: "u32 list \<Rightarrow> nat \<Rightarrow> nat \<Rightarrow> nat \<Rightarrow> nat option" where
  "FreePageCount_loop map0 pos mapSize count =
     (if pos < mapSize then
        (case array_at map0 pos of
           None \<Rightarrow> None
         | Some entry \<Rightarrow> FreePageCount_loop map0 (pos + 1) mapSize
             (if entry AND 0xFFFFFFFF \<noteq> 0xFFFFFFFF then CountClear_loop entry 0 count else count))
      else Some count)"
  by pat_completeness auto

termination by (relation "measure (\<lambda>(_, p, n, _). n - p)") auto

declare FreePageCount_loop.simps [simp del]

definition DisplayNoOfFreePages :: "'a page_maps_scheme \<Rightarrow> nat option" where
  "DisplayNoOfFreePages mm =
     FreePageCount_loop (m_uiPageMap mm) (m_uiResvSize mm) (m_uiPageMapSize mm) 0"

subsection \<open>Pages of the kernel pool\<close>

definition AllocatePageForKernel ::
  "'a page_maps_scheme \<Rightarrow> ((page_error + u32) \<times> 'a page_maps_scheme) option" where
  "AllocatePageForKernel mm =
     (case ClearWord_loop (m_uiKernelPagePoolMap mm) 0 (m_uiKernelPagePoolMapSize mm) of
        None \<Rightarrow> None
      | Some None \<Rightarrow> Some (Inl OutOfKernelPoolPages, mm)
      | Some (Some (m, i, off)) \<Rightarrow>
          Some (Inr (of_nat i * 4 * 8 + of_nat off + m_uiKernelPagePoolStartPage mm),
                mm\<lparr>m_uiKernelPagePoolMap := m\<rparr>))"

definition DeAllocatePageForKernel :: "u32 \<Rightarrow> 'a page_maps_scheme \<Rightarrow> 'a page_maps_scheme option" where
  "DeAllocatePageForKernel uiPageNumber mm =
     (let uiPageNumber = uiPageNumber - m_uiKernelPagePoolStartPage mm;
          uiPageMapPosition = unat (uiPageNumber div (8 * 4));
          uiPageOffset = uiPageNumber mod (8 * 4)
      in case array_at (m_uiKernelPagePoolMap mm) uiPageMapPosition of
           None \<Rightarrow> None
         | Some entry \<Rightarrow>
             Some (mm\<lparr>m_uiKernelPagePoolMap := (m_uiKernelPagePoolMap mm)[uiPageMapPosition :=
               entry AND NOT (push_bit (unat uiPageOffset) 1)]\<rparr>))"

subsection \<open>Kernel stack blocks\<close>

function FreeBlock_loop :: "bool list \<Rightarrow> nat \<Rightarrow> nat \<Rightarrow> (bool list \<times> nat) option option" where
  "FreeBlock_loop blocks i n =
     (if i < n then
        (case array_at blocks i of
           None \<Rightarrow> None
         | Some b \<Rightarrow>
             if \<not> b then Some (Some (blocks[i := True], i))
             else FreeBlock_loop blocks (i + 1) n)
      else Some None)"
  by pat_completeness auto

termination by (relation "measure (\<lambda>(_, i, n). n - i)") auto

declare FreeBlock_loop.simps [simp del]

definition GetFreeKernelProcessStackBlockID ::
  "'a page_maps_scheme \<Rightarrow> (int \<times> 'a page_maps_scheme) option" where
  "GetFreeKernelProcessStackBlockID mm =
     (case FreeBlock_loop (m_bAllocationMapForKernelProcessStackBlock mm) 0
             (m_iNoOfKernelProcessStackBlocks mm) of
        None \<Rightarrow> None
      | Some None \<Rightarrow> Some (-1, mm)
      | Some (Some (blocks, i)) \<Rightarrow>
          Some (int i, mm\<lparr>m_bAllocationMapForKernelProcessStackBlock := blocks\<rparr>))"

section \<open>The bit map\<close>

definition page_bit :: "u32 list \<Rightarrow> nat \<Rightarrow> bool" where
  "page_bit m n \<longleftrightarrow> bit (m ! (n div 32)) (n mod 32)"

lemma and_one_eq_0: "(e :: u32) AND 1 = 0 \<longleftrightarrow> \<not> bit e 0"
  by (simp add: and_one_eq bit_0 even_iff_mod_2_eq_zero)

lemma not_all_ones: "(e :: u32) AND 0xFFFFFFFF \<noteq> 0xFFFFFFFF \<longleftrightarrow> (\<exists>j < 32. \<not> bit e j)"
proof -
  have m: "(0xFFFFFFFF :: u32) = - 1" by simp
  have "e = - 1 \<longleftrightarrow> (\<forall>j < 32. bit e j)"
    by (auto intro: bit_word_eqI)
  then show ?thesis unfolding m by simp
qed

lemma ClearBit_loop_Some:
  "ClearBit_loop e off = Some k \<Longrightarrow> off \<le> k \<and> k < 32 \<and> \<not> bit e (k - off) \<and> (\<forall>j < k - off. bit e j)"
proof (induction e off rule: ClearBit_loop.induct)
  case (1 e off)
  have less: "off < 32" using "1.prems" by (subst (asm) ClearBit_loop.simps) (simp split: if_splits)
  show ?case
  proof (cases "bit e 0")
    case False
    then have "k = off"
      using "1.prems" less by (subst (asm) ClearBit_loop.simps) (simp add: and_one_eq_0)
    then show ?thesis using less False by simp
  next
    case True
    then have "ClearBit_loop (drop_bit 1 e) (off + 1) = Some k"
      using "1.prems" less by (subst (asm) ClearBit_loop.simps) (simp add: and_one_eq_0)
    then have ih: "off + 1 \<le> k" "k < 32" "\<not> bit (drop_bit 1 e) (k - (off + 1))"
        "\<forall>j < k - (off + 1). bit (drop_bit 1 e) j"
      using "1.IH" less True by (auto simp: and_one_eq_0)
    have "bit e j" if "j < k - off" for j
      using ih(4) that True by (cases j) (auto simp: bit_drop_bit_eq)
    then show ?thesis using ih(1,2,3) by (auto simp: bit_drop_bit_eq Suc_diff_Suc)
  qed
qed

lemma ClearBit_loop_None:
  "ClearBit_loop e off = None \<Longrightarrow> j < 32 - off \<Longrightarrow> bit e j"
proof (induction e off arbitrary: j rule: ClearBit_loop.induct)
  case (1 e off)
  have less: "off < 32" using "1.prems" by simp
  have b: "bit e 0"
    using "1.prems" less by (subst (asm) ClearBit_loop.simps) (auto simp: and_one_eq_0 split: if_splits)
  then have "ClearBit_loop (drop_bit 1 e) (off + 1) = None"
    using "1.prems" less by (subst (asm) ClearBit_loop.simps) (simp add: and_one_eq_0)
  then have "bit (drop_bit 1 e) i" if "i < 32 - (off + 1)" for i
    using "1.IH" less b that by (auto simp: and_one_eq_0)
  then show ?case using b "1.prems" by (cases j) (auto simp: bit_drop_bit_eq)
qed

lemma page_bit_set:
  assumes "p < length m" "off < 32"
  shows "page_bit (m[p := m ! p OR push_bit off 1]) n \<longleftrightarrow> n = 32 * p + off \<or> page_bit m n"
proof (cases "n div 32 = p")
  case True
  then have "n = 32 * p + n mod 32" by auto
  moreover have "n mod 32 < 32" by simp
  ultimately have "n mod 32 = off \<longleftrightarrow> n = 32 * p + off" by linarith
  then show ?thesis
    using True assms
    by (auto simp: page_bit_def bit_or_iff bit_push_bit_iff bit_exp_iff)
next
  case False
  then show ?thesis using assms by (auto simp: page_bit_def)
qed

lemma page_bit_clear:
  assumes "p < length m" "off < 32"
  shows "page_bit (m[p := m ! p AND NOT (push_bit off 1)]) n \<longleftrightarrow> n \<noteq> 32 * p + off \<and> page_bit m n"
proof (cases "n div 32 = p")
  case True
  then have "n = 32 * p + n mod 32" by auto
  moreover have "n mod 32 < 32" by simp
  ultimately have "n mod 32 = off \<longleftrightarrow> n = 32 * p + off" by linarith
  then show ?thesis
    using True assms
    by (auto simp: page_bit_def bit_and_iff bit_not_iff bit_push_bit_iff bit_exp_iff)
next
  case False
  then show ?thesis using assms by (auto simp: page_bit_def)
qed

text \<open>The allocators take the lowest clear bit of their range.\<close>

definition lowest_clear :: "u32 list \<Rightarrow> nat \<Rightarrow> nat \<Rightarrow> nat \<Rightarrow> bool" where
  "lowest_clear m lo hi n \<longleftrightarrow> lo \<le> n \<and> n < hi \<and> \<not> page_bit m n \<and> (\<forall>k. lo \<le> k \<and> k < n \<longrightarrow> page_bit m k)"

lemma word_bits:
  assumes "32 * p \<le> n" "n < 32 * (p + 1)"
  shows "page_bit m n \<longleftrightarrow> bit (m ! p) (n - 32 * p)"
proof -
  have "n div 32 = p" using assms by (intro div_nat_eqI) auto
  moreover from this have "n mod 32 = n - 32 * p" by (simp add: minus_div_mult_eq_mod [symmetric] mult.commute)
  ultimately show ?thesis by (simp add: page_bit_def)
qed

lemma ClearWord_loop_spec:
  assumes "size0 \<le> length m"
  shows "case ClearWord_loop m pos size0 of
      None \<Rightarrow> False
    | Some None \<Rightarrow> \<forall>n. 32 * pos \<le> n \<and> n < 32 * size0 \<longrightarrow> page_bit m n
    | Some (Some (m', p, off)) \<Rightarrow> pos \<le> p \<and> p < size0 \<and> off < 32 \<and>
        m' = m[p := m ! p OR push_bit off 1] \<and> lowest_clear m (32 * pos) (32 * size0) (32 * p + off)"
  using assms
proof (induction m pos size0 rule: ClearWord_loop.induct)
  case (1 m pos size0)
  show ?case
  proof (cases "pos < size0")
    case False
    then show ?thesis by (auto simp: ClearWord_loop.simps)
  next
    case True
    then have at: "array_at m pos = Some (m ! pos)" using "1.prems" by (simp add: array_at_def)
    show ?thesis
    proof (cases "\<exists>j < 32. \<not> bit (m ! pos) j")
      case clear: True
      then obtain off where off: "ClearBit_loop (m ! pos) 0 = Some off"
        using ClearBit_loop_None [of "m ! pos" 0] by (cases "ClearBit_loop (m ! pos) 0") auto
      note cb = ClearBit_loop_Some [OF off]
      have "lowest_clear m (32 * pos) (32 * size0) (32 * pos + off)"
        unfolding lowest_clear_def using cb True word_bits [of pos _ m] by auto
      then show ?thesis
        using True clear cb by (subst ClearWord_loop.simps) (simp add: at off not_all_ones)
    next
      case full: False
      have eq: "ClearWord_loop m pos size0 = ClearWord_loop m (pos + 1) size0"
        using True full by (subst ClearWord_loop.simps) (auto simp: at not_all_ones)
      have bits: "page_bit m n" if "32 * pos \<le> n" "n < 32 * (pos + 1)" for n
        using full that word_bits [OF that, of m] by auto
      have ih: "case ClearWord_loop m (pos + 1) size0 of
          None \<Rightarrow> False
        | Some None \<Rightarrow> \<forall>n. 32 * (pos + 1) \<le> n \<and> n < 32 * size0 \<longrightarrow> page_bit m n
        | Some (Some (m', p, off)) \<Rightarrow> pos + 1 \<le> p \<and> p < size0 \<and> off < 32 \<and>
            m' = m[p := m ! p OR push_bit off 1] \<and>
            lowest_clear m (32 * (pos + 1)) (32 * size0) (32 * p + off)"
        by (rule "1.IH"(2) [OF True at _ "1.prems"]) (use full not_all_ones in blast)
      show ?thesis
      proof (cases "ClearWord_loop m (pos + 1) size0")
        case None
        then show ?thesis using ih by simp
      next
        case (Some r)
        show ?thesis
        proof (cases r)
          case None
          then have "page_bit m n" if "32 * pos \<le> n" "n < 32 * size0" for n
            using ih Some bits [of n] that by (cases "n < 32 * (pos + 1)") auto
          then show ?thesis unfolding eq using Some None by simp
        next
          case (Some t)
          obtain m' p off where t: "t = (m', p, off)" by (cases t)
          have i: "pos + 1 \<le> p" "p < size0" "off < 32" "m' = m[p := m ! p OR push_bit off 1]"
              "lowest_clear m (32 * (pos + 1)) (32 * size0) (32 * p + off)"
            using ih \<open>_ = Some r\<close> Some t by simp_all
          have "lowest_clear m (32 * pos) (32 * size0) (32 * p + off)"
            unfolding lowest_clear_def
          proof (intro conjI allI impI)
            fix k assume k: "32 * pos \<le> k \<and> k < 32 * p + off"
            show "page_bit m k"
              using bits [of k] i(5) k by (cases "k < 32 * (pos + 1)") (simp_all add: lowest_clear_def)
          qed (use i in \<open>simp_all add: lowest_clear_def\<close>)
          then show ?thesis unfolding eq using \<open>_ = Some r\<close> Some t i by simp
        qed
      qed
    qed
  qed
qed

section \<open>The allocators\<close>

definition page_maps_ok :: "'a page_maps_scheme \<Rightarrow> bool" where
  "page_maps_ok mm \<longleftrightarrow> m_uiPageMapSize mm \<le> length (m_uiPageMap mm) \<and>
     length (m_uiPageMap mm) \<le> 32768 \<and>
     m_uiKernelPagePoolMapSize mm \<le> length (m_uiKernelPagePoolMap mm) \<and>
     length (m_uiKernelPagePoolMap mm) \<le> 2048 \<and>
     m_iNoOfKernelProcessStackBlocks mm \<le> length (m_bAllocationMapForKernelProcessStackBlock mm) \<and>
     length (m_bAllocationMapForKernelProcessStackBlock mm) \<le> 128"

definition free_page :: "'a page_maps_scheme \<Rightarrow> nat \<Rightarrow> bool" where
  "free_page mm n \<longleftrightarrow> 32 * m_uiResvSize mm \<le> n \<and> n < 32 * m_uiPageMapSize mm \<and>
     \<not> page_bit (m_uiPageMap mm) n"

lemma page_number_u32:
  assumes "p < 32768" "off < 32"
  shows "(of_nat p * 4 * 8 + of_nat off :: u32) = of_nat (32 * p + off)"
    "unat (of_nat (32 * p + off) :: u32) = 32 * p + off"
  using assms by (simp_all add: of_nat_unat_u32 del: of_nat_add of_nat_mult) simp

lemma ClearWord_loop_cases:
  assumes "size0 \<le> length m"
  obtains "ClearWord_loop m pos size0 = Some None"
      "\<And>n. 32 * pos \<le> n \<Longrightarrow> n < 32 * size0 \<Longrightarrow> page_bit m n"
    | m' p off where "ClearWord_loop m pos size0 = Some (Some (m', p, off))" "p < size0" "off < 32"
      "lowest_clear m (32 * pos) (32 * size0) (32 * p + off)" "length m' = length m"
      "\<And>k. page_bit m' k \<longleftrightarrow> k = 32 * p + off \<or> page_bit m k"
proof -
  note spec = ClearWord_loop_spec [OF assms, of pos]
  consider "ClearWord_loop m pos size0 = Some None"
    | m' p off where "ClearWord_loop m pos size0 = Some (Some (m', p, off))"
    using spec by (auto split: option.splits)
  then show ?thesis
  proof cases
    case 1
    then show ?thesis using spec that(1) by simp
  next
    case (2 m' p off)
    then show ?thesis
      using spec assms page_bit_set [of p m off] by (intro that(2) [of m' p off]) auto
  qed
qed

text \<open>A physical page is allocated iff one is free; it is the lowest free one, and only its bit
  changes.\<close>

lemma AllocatePhysicalPage_cases:
  assumes "page_maps_ok mm"
  obtains "\<And>n. \<not> free_page mm n" "AllocatePhysicalPage mm = Some (Inl OutOfMemoryPages, mm)"
    | n m where "free_page mm n" "\<And>k. free_page mm k \<Longrightarrow> n \<le> k"
       "AllocatePhysicalPage mm = Some (Inr (of_nat n), mm\<lparr>m_uiPageMap := m\<rparr>)"
       "n < 1048576" "length m = length (m_uiPageMap mm)"
       "\<And>k. page_bit m k \<longleftrightarrow> k = n \<or> page_bit (m_uiPageMap mm) k"
proof -
  have len: "m_uiPageMapSize mm \<le> length (m_uiPageMap mm)" "length (m_uiPageMap mm) \<le> 32768"
    using assms by (simp_all add: page_maps_ok_def)
  show ?thesis
  proof (cases rule: ClearWord_loop_cases [OF len(1), of "m_uiResvSize mm"])
    case 1
    then show ?thesis by (intro that(1)) (auto simp: AllocatePhysicalPage_def free_page_def)
  next
    case (2 m p off)
    then have "p < 32768" using len by simp
    then have "AllocatePhysicalPage mm = Some (Inr (of_nat (32 * p + off)), mm\<lparr>m_uiPageMap := m\<rparr>)"
      using 2(1,3) page_number_u32(1) [of p off] by (simp add: AllocatePhysicalPage_def)
    then show ?thesis
      using 2 \<open>p < 32768\<close>
      by (intro that(2) [of "32 * p + off" m])
        (auto simp: lowest_clear_def free_page_def not_le [symmetric])
  qed
qed

definition free_pool_page :: "'a page_maps_scheme \<Rightarrow> nat \<Rightarrow> bool" where
  "free_pool_page mm n \<longleftrightarrow> n < 32 * m_uiKernelPagePoolMapSize mm \<and>
     \<not> page_bit (m_uiKernelPagePoolMap mm) n"

lemma AllocatePageForKernel_cases:
  assumes "page_maps_ok mm"
  obtains "\<And>n. \<not> free_pool_page mm n"
       "AllocatePageForKernel mm = Some (Inl OutOfKernelPoolPages, mm)"
    | n m where "free_pool_page mm n" "\<And>k. free_pool_page mm k \<Longrightarrow> n \<le> k"
       "AllocatePageForKernel mm = Some (Inr (of_nat n + m_uiKernelPagePoolStartPage mm),
          mm\<lparr>m_uiKernelPagePoolMap := m\<rparr>)"
       "n < 65536" "length m = length (m_uiKernelPagePoolMap mm)"
       "\<And>k. page_bit m k \<longleftrightarrow> k = n \<or> page_bit (m_uiKernelPagePoolMap mm) k"
proof -
  have len: "m_uiKernelPagePoolMapSize mm \<le> length (m_uiKernelPagePoolMap mm)"
      "length (m_uiKernelPagePoolMap mm) \<le> 2048"
    using assms by (simp_all add: page_maps_ok_def)
  show ?thesis
  proof (cases rule: ClearWord_loop_cases [OF len(1), of 0])
    case 1
    then show ?thesis by (intro that(1)) (auto simp: AllocatePageForKernel_def free_pool_page_def)
  next
    case (2 m p off)
    then have p: "p < 2048" using len by simp
    then have "AllocatePageForKernel mm =
        Some (Inr (of_nat (32 * p + off) + m_uiKernelPagePoolStartPage mm),
          mm\<lparr>m_uiKernelPagePoolMap := m\<rparr>)"
      using 2(1,3) page_number_u32(1) [of p off] by (simp add: AllocatePageForKernel_def)
    then show ?thesis
      using 2 p
      by (intro that(2) [of "32 * p + off" m])
        (auto simp: lowest_clear_def free_pool_page_def not_le [symmetric])
  qed
qed

lemma u32_div_mod_32:
  "unat (x div (8 * 4) :: u32) = unat x div 32" "unat (x mod (8 * 4) :: u32) = unat x mod 32"
  by (simp_all add: unat_div unat_mod)

lemma DeAllocatePhysicalPage_spec:
  assumes "unat p < 32 * length (m_uiPageMap mm)"
  shows "\<exists>m. DeAllocatePhysicalPage p mm = Some (mm\<lparr>m_uiPageMap := m\<rparr>) \<and>
    length m = length (m_uiPageMap mm) \<and>
    (\<forall>k. page_bit m k \<longleftrightarrow> k \<noteq> unat p \<and> page_bit (m_uiPageMap mm) k)"
proof -
  have i: "unat p div 32 < length (m_uiPageMap mm)" using assms by auto
  let ?m = "(m_uiPageMap mm)[unat p div 32 := m_uiPageMap mm ! (unat p div 32) AND
      NOT (push_bit (unat p mod 32) 1)]"
  have "DeAllocatePhysicalPage p mm = Some (mm\<lparr>m_uiPageMap := ?m\<rparr>)"
    using i unfolding DeAllocatePhysicalPage_def Let_def u32_div_mod_32 array_at_def
    by (simp only: if_True option.case)
  moreover have "\<forall>k. page_bit ?m k \<longleftrightarrow> k \<noteq> unat p \<and> page_bit (m_uiPageMap mm) k"
    using page_bit_clear [OF i, of "unat p mod 32"] by simp
  moreover have "length ?m = length (m_uiPageMap mm)" by (rule length_list_update)
  ultimately show ?thesis by (intro exI [of _ ?m] conjI)
qed

lemma DeAllocatePageForKernel_spec:
  assumes "unat (p - m_uiKernelPagePoolStartPage mm) < 32 * length (m_uiKernelPagePoolMap mm)"
  shows "\<exists>m. DeAllocatePageForKernel p mm = Some (mm\<lparr>m_uiKernelPagePoolMap := m\<rparr>) \<and>
    length m = length (m_uiKernelPagePoolMap mm) \<and>
    (\<forall>k. page_bit m k \<longleftrightarrow> k \<noteq> unat (p - m_uiKernelPagePoolStartPage mm) \<and>
       page_bit (m_uiKernelPagePoolMap mm) k)"
proof -
  let ?n = "unat (p - m_uiKernelPagePoolStartPage mm)"
  have i: "?n div 32 < length (m_uiKernelPagePoolMap mm)" using assms by auto
  let ?m = "(m_uiKernelPagePoolMap mm)[?n div 32 := m_uiKernelPagePoolMap mm ! (?n div 32) AND
      NOT (push_bit (?n mod 32) 1)]"
  have "DeAllocatePageForKernel p mm = Some (mm\<lparr>m_uiKernelPagePoolMap := ?m\<rparr>)"
    using i unfolding DeAllocatePageForKernel_def Let_def u32_div_mod_32 array_at_def
    by (simp only: if_True option.case)
  moreover have "\<forall>k. page_bit ?m k \<longleftrightarrow> k \<noteq> ?n \<and> page_bit (m_uiKernelPagePoolMap mm) k"
    using page_bit_clear [OF i, of "?n mod 32"] by simp
  moreover have "length ?m = length (m_uiKernelPagePoolMap mm)" by (rule length_list_update)
  ultimately show ?thesis by (intro exI [of _ ?m] conjI)
qed

lemma MarkPageAsAllocated_spec:
  assumes "page_maps_ok mm" "unat p < 32 * m_uiPageMapSize mm"
  shows "if page_bit (m_uiPageMap mm) (unat p)
    then MarkPageAsAllocated p rc mm = Some (Failure, mm)
    else \<exists>m. MarkPageAsAllocated p rc mm = Some (Success, mm\<lparr>m_uiPageMap := m\<rparr>) \<and>
      length m = length (m_uiPageMap mm) \<and>
      (\<forall>k. page_bit m k \<longleftrightarrow> k = unat p \<or> page_bit (m_uiPageMap mm) k)"
proof -
  have i: "unat p div 32 < m_uiPageMapSize mm" "unat p div 32 < length (m_uiPageMap mm)"
    using assms by (auto simp: page_maps_ok_def)
  have d: "unat (p div 32) = unat p div 32" "unat (p mod 32) = unat p mod 32"
    by (simp_all add: unat_div unat_mod)
  let ?e = "m_uiPageMap mm ! (unat p div 32)"
  have b: "drop_bit (unat p mod 32) ?e AND 1 = 0 \<longleftrightarrow> \<not> page_bit (m_uiPageMap mm) (unat p)"
    by (simp only: and_one_eq_0 bit_drop_bit_eq o_def page_bit_def add_0_right)
  let ?m = "(m_uiPageMap mm)[unat p div 32 := ?e OR push_bit (unat p mod 32) 1]"
  have "MarkPageAsAllocated p rc mm = (if page_bit (m_uiPageMap mm) (unat p) then Some (Failure, mm)
      else Some (Success, mm\<lparr>m_uiPageMap := ?m\<rparr>))"
    using i unfolding MarkPageAsAllocated_def Let_def d array_at_def
    by (simp add: b del: push_bit_of_1)
  moreover have "\<forall>k. page_bit ?m k \<longleftrightarrow> k = unat p \<or> page_bit (m_uiPageMap mm) k"
    using page_bit_set [OF i(2), of "unat p mod 32"] by simp
  ultimately show ?thesis by (simp del: push_bit_of_1) (metis length_list_update)
qed

lemma FreeBlock_loop_spec:
  assumes "n \<le> length bs"
  shows "case FreeBlock_loop bs i n of
      None \<Rightarrow> False
    | Some None \<Rightarrow> \<forall>k. i \<le> k \<and> k < n \<longrightarrow> bs ! k
    | Some (Some (bs', k)) \<Rightarrow> i \<le> k \<and> k < n \<and> \<not> bs ! k \<and> bs' = bs[k := True] \<and>
        (\<forall>j. i \<le> j \<and> j < k \<longrightarrow> bs ! j)"
  using assms
proof (induction bs i n rule: FreeBlock_loop.induct)
  case (1 bs i n)
  show ?case
  proof (cases "i < n \<and> bs ! i")
    case True
    then have at: "array_at bs i = Some True" using "1.prems" by (simp add: array_at_def)
    have eq: "FreeBlock_loop bs i n = FreeBlock_loop bs (i + 1) n"
      using True at by (subst FreeBlock_loop.simps) simp
    have "case FreeBlock_loop bs (i + 1) n of
        None \<Rightarrow> False
      | Some None \<Rightarrow> \<forall>k. i + 1 \<le> k \<and> k < n \<longrightarrow> bs ! k
      | Some (Some (bs', k)) \<Rightarrow> i + 1 \<le> k \<and> k < n \<and> \<not> bs ! k \<and> bs' = bs[k := True] \<and>
          (\<forall>j. i + 1 \<le> j \<and> j < k \<longrightarrow> bs ! j)"
      using "1.IH" True at "1.prems" by simp
    then show ?thesis
      unfolding eq using True
      by (auto split: option.splits) (metis Suc_leI nat_less_le)+
  next
    case False
    then show ?thesis
      using "1.prems" by (subst FreeBlock_loop.simps) (auto simp: array_at_def)
  qed
qed

section \<open>The allocators as resource pools\<close>

definition take_page :: "'a page_maps_scheme \<Rightarrow> (u32 \<times> 'a page_maps_scheme) option" where
  "take_page mm = (case AllocatePhysicalPage mm of Some (Inr p, mm') \<Rightarrow> Some (p, mm') | _ \<Rightarrow> None)"

definition give_page :: "u32 \<Rightarrow> 'a page_maps_scheme \<Rightarrow> 'a page_maps_scheme" where
  "give_page p mm = the (DeAllocatePhysicalPage p mm)"

definition used_pages :: "'a page_maps_scheme \<Rightarrow> u32 set" where
  "used_pages mm = {p. unat p < 32 * length (m_uiPageMap mm) \<and> page_bit (m_uiPageMap mm) (unat p)}"

lemma page_maps_ok_update [simp]:
  "length m = length (m_uiPageMap mm) \<Longrightarrow> page_maps_ok (mm\<lparr>m_uiPageMap := m\<rparr>) = page_maps_ok mm"
  "length m = length (m_uiKernelPagePoolMap mm) \<Longrightarrow>
     page_maps_ok (mm\<lparr>m_uiKernelPagePoolMap := m\<rparr>) = page_maps_ok mm"
  "length b = length (m_bAllocationMapForKernelProcessStackBlock mm) \<Longrightarrow>
     page_maps_ok (mm\<lparr>m_bAllocationMapForKernelProcessStackBlock := b\<rparr>) = page_maps_ok mm"
  by (simp_all add: page_maps_ok_def)

interpretation pages: resource_pool page_maps_ok used_pages take_page give_page
proof
  fix s :: "'a page_maps_scheme" and r s'
  assume ok: "page_maps_ok s" and t: "take_page s = Some (r, s')"
  show "page_maps_ok s' \<and> r \<notin> used_pages s \<and> used_pages s' = insert r (used_pages s)"
  proof (cases rule: AllocatePhysicalPage_cases [OF ok])
    case 1
    then show ?thesis using t by (simp add: take_page_def)
  next
    case (2 n m)
    have r: "r = of_nat n" "s' = s\<lparr>m_uiPageMap := m\<rparr>" using 2(3) t by (auto simp: take_page_def)
    have n: "unat r = n" using 2(4) by (simp add: r of_nat_unat_u32)
    have "n < 32 * length (m_uiPageMap s)"
      using 2(1) ok by (auto simp: free_page_def page_maps_ok_def)
    then show ?thesis
      using 2(1,5) ok
      by (auto simp: r(2) used_pages_def free_page_def 2(6) n [symmetric] word_unat_eq_iff [symmetric])
  qed
next
  fix s :: "'a page_maps_scheme" and r
  assume ok: "page_maps_ok s" and r: "r \<in> used_pages s"
  then obtain m where m: "DeAllocatePhysicalPage r s = Some (s\<lparr>m_uiPageMap := m\<rparr>)"
      "length m = length (m_uiPageMap s)"
      "\<And>k. page_bit m k \<longleftrightarrow> k \<noteq> unat r \<and> page_bit (m_uiPageMap s) k"
    using DeAllocatePhysicalPage_spec [of r s] by (auto simp: used_pages_def)
  show "page_maps_ok (give_page r s) \<and> used_pages (give_page r s) = used_pages s - {r}"
    using ok m(2) by (auto simp: give_page_def m(1,3) used_pages_def word_unat_eq_iff [symmetric])
qed

definition take_pool_page :: "'a page_maps_scheme \<Rightarrow> (u32 \<times> 'a page_maps_scheme) option" where
  "take_pool_page mm =
     (case AllocatePageForKernel mm of Some (Inr p, mm') \<Rightarrow> Some (p, mm') | _ \<Rightarrow> None)"

definition give_pool_page :: "u32 \<Rightarrow> 'a page_maps_scheme \<Rightarrow> 'a page_maps_scheme" where
  "give_pool_page p mm = the (DeAllocatePageForKernel p mm)"

definition used_pool_pages :: "'a page_maps_scheme \<Rightarrow> u32 set" where
  "used_pool_pages mm = {p. unat (p - m_uiKernelPagePoolStartPage mm) < 32 * length (m_uiKernelPagePoolMap mm) \<and>
     page_bit (m_uiKernelPagePoolMap mm) (unat (p - m_uiKernelPagePoolStartPage mm))}"

interpretation pool_pages: resource_pool page_maps_ok used_pool_pages take_pool_page give_pool_page
proof
  fix s :: "'a page_maps_scheme" and r s'
  let ?b = "m_uiKernelPagePoolStartPage s"
  assume ok: "page_maps_ok s" and t: "take_pool_page s = Some (r, s')"
  show "page_maps_ok s' \<and> r \<notin> used_pool_pages s \<and> used_pool_pages s' = insert r (used_pool_pages s)"
  proof (cases rule: AllocatePageForKernel_cases [OF ok])
    case 1
    then show ?thesis using t by (simp add: take_pool_page_def)
  next
    case (2 n m)
    have r: "r = of_nat n + ?b" "s' = s\<lparr>m_uiKernelPagePoolMap := m\<rparr>"
      using 2(3) t by (auto simp: take_pool_page_def)
    have n: "unat (r - ?b) = n" using 2(4) by (simp add: r of_nat_unat_u32)
    have "unat (x - ?b) = n \<longleftrightarrow> x = r" for x
      using n by (metis diff_add_cancel word_unat_eq_iff)
    moreover have "n < 32 * length (m_uiKernelPagePoolMap s)"
      using 2(1) ok by (auto simp: free_pool_page_def page_maps_ok_def)
    ultimately show ?thesis
      using 2(1,5) ok n by (auto simp: r(2) used_pool_pages_def free_pool_page_def 2(6) n)
  qed
next
  fix s :: "'a page_maps_scheme" and r
  let ?b = "m_uiKernelPagePoolStartPage s"
  assume ok: "page_maps_ok s" and r: "r \<in> used_pool_pages s"
  then obtain m where m: "DeAllocatePageForKernel r s = Some (s\<lparr>m_uiKernelPagePoolMap := m\<rparr>)"
      "length m = length (m_uiKernelPagePoolMap s)"
      "\<And>k. page_bit m k \<longleftrightarrow> k \<noteq> unat (r - ?b) \<and> page_bit (m_uiKernelPagePoolMap s) k"
    using DeAllocatePageForKernel_spec [of r s] by (auto simp: used_pool_pages_def)
  have "unat (x - ?b) = unat (r - ?b) \<longleftrightarrow> x = r" for x
    by (metis diff_add_cancel word_unat_eq_iff)
  then show "page_maps_ok (give_pool_page r s) \<and> used_pool_pages (give_pool_page r s) = used_pool_pages s - {r}"
    using ok m(2) by (auto simp: give_pool_page_def m(1,3) used_pool_pages_def)
qed

section \<open>Counting and start-up\<close>

lemma CountClear_loop_filter:
  "CountClear_loop e off count = count + length (filter (\<lambda>j. \<not> bit e j) [0 ..< 32 - off])"
proof (induction e off count rule: CountClear_loop.induct)
  case (1 e off count)
  show ?case
  proof (cases "off < 32")
    case True
    then have "32 - off = Suc (31 - off)" "32 - Suc off = 31 - off" by simp_all
    then have "[0 ..< 32 - off] = 0 # map Suc [0 ..< 32 - Suc off]"
      using upt_conv_Cons [of 0 "Suc (31 - off)"] by (simp add: map_Suc_upt del: upt_Suc)
    then show ?thesis
      using "1.IH" True
      by (subst CountClear_loop.simps) (simp add: filter_map o_def and_one_eq_0 bit_drop_bit_eq)
  qed (simp add: CountClear_loop.simps)
qed

lemma FreePageCount_loop_filter:
  assumes "size0 \<le> length m"
  shows "FreePageCount_loop m pos size0 count =
    Some (count + length (filter (\<lambda>n. \<not> page_bit m n) [32 * pos ..< 32 * size0]))"
  using assms
proof (induction m pos size0 count rule: FreePageCount_loop.induct)
  case (1 m pos size0 count)
  show ?case
  proof (cases "pos < size0")
    case True
    have at: "array_at m pos = Some (m ! pos)" using True "1.prems" by (simp add: array_at_def)
    have "[32 * pos ..< 32 * size0] = [32 * pos ..< 32 * pos + 32] @ [32 * (pos + 1) ..< 32 * size0]"
    proof -
      have "32 * size0 = (32 * pos + 32) + (32 * size0 - (32 * pos + 32))" using True by simp
      then show ?thesis
        using upt_add_eq_append [of "32 * pos" "32 * pos + 32" "32 * size0 - (32 * pos + 32)"]
        by (simp add: ac_simps)
    qed
    moreover have "length (filter (\<lambda>n. \<not> page_bit m n) [32 * pos ..< 32 * pos + 32]) =
        length (filter (\<lambda>j. \<not> bit (m ! pos) j) [0 ..< 32])"
    proof -
      have e: "[32 * pos ..< 32 * pos + 32] = map (\<lambda>j. 32 * pos + j) [0 ..< 32]"
        by (rule nth_equalityI) auto
      show ?thesis
        unfolding e filter_map length_map
        by (rule arg_cong [of _ _ length], rule filter_cong) (auto simp: page_bit_def)
    qed
    moreover have "(if m ! pos AND 0xFFFFFFFF \<noteq> 0xFFFFFFFF then CountClear_loop (m ! pos) 0 count
        else count) = count + length (filter (\<lambda>j. \<not> bit (m ! pos) j) [0 ..< 32])"
    proof (cases "\<exists>j < 32. \<not> bit (m ! pos) j")
      case True
      then have "m ! pos AND 0xFFFFFFFF \<noteq> 0xFFFFFFFF" by (simp only: not_all_ones)
      then show ?thesis by (simp only: if_True not_False_eq_True CountClear_loop_filter diff_zero)
    next
      case False
      then have "filter (\<lambda>j. \<not> bit (m ! pos) j) [0 ..< 32] = []" by (auto simp: filter_empty_conv)
      moreover have "m ! pos AND 0xFFFFFFFF = 0xFFFFFFFF" using False not_all_ones by blast
      ultimately show ?thesis by simp
    qed
    ultimately show ?thesis
      using "1.IH" True at "1.prems"
      by (subst FreePageCount_loop.simps) (simp del: upt_Suc)
  qed (simp add: FreePageCount_loop.simps)
qed

lemma free_page_set: "{n. free_page mm n} =
    set (filter (\<lambda>n. \<not> page_bit (m_uiPageMap mm) n) [32 * m_uiResvSize mm ..< 32 * m_uiPageMapSize mm])"
  by (auto simp: free_page_def)

lemma DisplayNoOfFreePages_card:
  assumes "page_maps_ok mm"
  shows "DisplayNoOfFreePages mm = Some (card {n. free_page mm n})"
  using assms unfolding DisplayNoOfFreePages_def free_page_set
  by (subst FreePageCount_loop_filter)
    (simp_all add: page_maps_ok_def distinct_card del: set_filter set_upt)

lemma foldl_update_prefix:
  assumes "n \<le> length xs"
  shows "foldl (\<lambda>m i. m[i := f (m ! i)]) xs [0 ..< n] = map f (List.take n xs) @ drop n xs"
  using assms
proof (induction n)
  case (Suc n)
  have "foldl (\<lambda>m i. m[i := f (m ! i)]) xs [0 ..< Suc n] =
      (map f (List.take n xs) @ drop n xs)[n := f ((map f (List.take n xs) @ drop n xs) ! n)]"
    using Suc by simp
  also have "drop n xs = xs ! n # drop (Suc n) xs" using Suc.prems by (simp add: Cons_nth_drop_Suc)
  also have "(map f (List.take n xs) @ xs ! n # drop (Suc n) xs)[n := f
      ((map f (List.take n xs) @ xs ! n # drop (Suc n) xs) ! n)] =
      map f (List.take n xs) @ f (xs ! n) # drop (Suc n) xs"
    using Suc.prems list_update_append_Cons [of "map f (List.take n xs)"]
      nth_append_Cons_eq [of "map f (List.take n xs)"] by simp
  finally show ?case using Suc.prems by (simp add: take_Suc_conv_app_nth)
qed simp

lemma page_bit_prefix:
  assumes "n < 32 * length m"
  shows "page_bit (map f (List.take k m) @ drop k m) n \<longleftrightarrow>
    (if n div 32 < k then bit (f (m ! (n div 32))) (n mod 32) else page_bit m n)"
proof -
  have "n div 32 < length m" using assms by auto
  then show ?thesis by (auto simp: page_bit_def nth_append min_def)
qed

lemma ram_words: "unat (RAM :: u32) div 131072 \<le> 32767"
  using div_le_mono [of "unat RAM" 4294967295 131072] u32_unat_bound [of RAM] by simp

lemma BuildRawPageMap_spec:
  assumes "length (m_uiPageMap mm) = 32768"
  shows "\<exists>m. BuildRawPageMap RAM mm = (True, mm\<lparr>m_uiPageMapSize := unat RAM div 131072,
      m_uiResvSize := 1024, m_uiPageMap := m\<rparr>) \<and> length m = 32768 \<and>
    (\<forall>n < 32 * (unat RAM div 131072). page_bit m n \<longleftrightarrow> n < 32768)"
proof -
  let ?k = "unat RAM div 131072"
  have size0: "unat (RAM div PAGE_SIZE div 8 div 4) = ?k"
    by (simp add: unat_div div_mult2_eq [symmetric])
  have resv: "unat (MEM_KERNEL_RESV_SIZE div PAGE_SIZE div 8 div 4) = 1024"
    by (simp add: unat_div)
  have k: "?k \<le> 32767" by (rule ram_words)
  have "unat (RAM div PAGE_SIZE div 8 div 4 * 4) = ?k * 4"
    using k by (subst unat_mult_lem [THEN iffD1]) (simp_all add: size0)
  then have fits: "\<not> RAM div PAGE_SIZE div 8 div 4 * 4 > MEM_PAGE_MAP_AREA"
    using k by (simp add: word_less_nat_alt)
  define m1 where "m1 = map (\<lambda>w. w AND 0) (List.take ?k (m_uiPageMap mm)) @ drop ?k (m_uiPageMap mm)"
  define m2 where "m2 = map (\<lambda>w. w OR 0xFFFFFFFF) (List.take 1024 m1) @ drop 1024 m1"
  have len: "length m1 = 32768" "length m2 = 32768" using k assms by (auto simp: m1_def m2_def)
  have f1: "foldl (\<lambda>m i. m[i := m ! i AND 0]) (m_uiPageMap mm) [0 ..< ?k] = m1"
    using foldl_update_prefix [of ?k "m_uiPageMap mm" "\<lambda>w. w AND 0"] k assms by (simp add: m1_def)
  have f2: "foldl (\<lambda>m i. m[i := m ! i OR 0xFFFFFFFF]) m1 [0 ..< 1024] = m2"
    using foldl_update_prefix [of 1024 m1 "\<lambda>w. w OR 0xFFFFFFFF"] len unfolding m2_def by simp
  have bits: "page_bit m2 n \<longleftrightarrow> n < 32768" if "n < 32 * ?k" for n
  proof -
    have n: "n div 32 < ?k" "n < 32 * 32768" using that k by (auto simp: less_mult_imp_div_less)
    have "(0xFFFFFFFF :: u32) = - 1" by simp
    then have ones: "bit ((w :: u32) OR 0xFFFFFFFF) (n mod 32)" for w
      by (simp only: bit_or_iff) simp
    have "page_bit m2 n \<longleftrightarrow> n div 32 < 1024 \<or> page_bit m1 n"
      using page_bit_prefix [of n m1 "\<lambda>w. w OR 0xFFFFFFFF" 1024] n(2) len ones unfolding m2_def by simp
    moreover have "\<not> page_bit m1 n"
      using page_bit_prefix [of n "m_uiPageMap mm" "\<lambda>w. w AND 0" ?k] n assms unfolding m1_def by simp
    moreover have "n div 32 < 1024 \<longleftrightarrow> n < 32768" by auto
    ultimately show ?thesis by simp
  qed
  have "BuildRawPageMap RAM mm = (True, mm\<lparr>m_uiPageMapSize := ?k, m_uiResvSize := 1024,
      m_uiPageMap := m2\<rparr>)"
    using fits f1 f2 unfolding BuildRawPageMap_def Let_def size0 resv by simp
  then show ?thesis using len bits by blast
qed

section \<open>Properties\<close>

text \<open>\<open>AllocatePhysicalPage\<close> throws exactly when no page between the reserved kernel area and
  the end of the map is free; otherwise it returns the lowest free page, sets its bit and no
  other, and the count of free pages goes down by one.\<close>

theorem physical_page_is_lowest_free:
  assumes "page_maps_ok mm"
  shows "(if \<exists>n. free_page mm n
     then \<exists>n mm'. AllocatePhysicalPage mm = Some (Inr (of_nat n), mm') \<and> free_page mm n \<and>
       (\<forall>k. free_page mm k \<longrightarrow> n \<le> k) \<and> page_maps_ok mm' \<and>
       (\<forall>k. free_page mm' k \<longleftrightarrow> k \<noteq> n \<and> free_page mm k) \<and>
       DisplayNoOfFreePages mm' = Some (card {k. free_page mm k} - 1)
     else AllocatePhysicalPage mm = Some (Inl OutOfMemoryPages, mm))"
proof (cases rule: AllocatePhysicalPage_cases [OF assms])
  case 1
  then show ?thesis by simp
next
  case (2 n m)
  define mm' where "mm' = mm\<lparr>m_uiPageMap := m\<rparr>"
  have free: "free_page mm' k \<longleftrightarrow> k \<noteq> n \<and> free_page mm k" for k
    using 2(6) by (auto simp: mm'_def free_page_def)
  have ok: "page_maps_ok mm'" using 2(5) assms by (simp add: mm'_def)
  have "{k. free_page mm' k} = {k. free_page mm k} - {n}" using free by auto
  then have "DisplayNoOfFreePages mm' = Some (card {k. free_page mm k} - 1)"
    using DisplayNoOfFreePages_card [OF ok] 2(1) by simp
  moreover have "AllocatePhysicalPage mm = Some (Inr (of_nat n), mm')" using 2(3) by (simp add: mm'_def)
  ultimately show ?thesis using 2(1,2) free ok by auto
qed

definition sample_maps :: page_maps where
  "sample_maps = \<lparr>m_uiPageMap = [0xFFFFFFFF, 7], m_uiPageMapSize = 2, m_uiResvSize = 1,
     m_uiKernelPagePoolMap = [1], m_uiKernelPagePoolMapSize = 1, m_uiKernelPagePoolStartPage = 28672,
     m_iNoOfKernelProcessStackBlocks = 2, m_bAllocationMapForKernelProcessStackBlock = [True, False]\<rparr>"

lemma sample_maps_ok: "page_maps_ok sample_maps"
  by (simp add: page_maps_ok_def sample_maps_def)

theorem physical_page_is_lowest_free_witness:
  "(if \<exists>n. free_page sample_maps n
     then \<exists>n mm'. AllocatePhysicalPage sample_maps = Some (Inr (of_nat n), mm') \<and> free_page sample_maps n \<and>
       (\<forall>k. free_page sample_maps k \<longrightarrow> n \<le> k) \<and> page_maps_ok mm' \<and>
       (\<forall>k. free_page mm' k \<longleftrightarrow> k \<noteq> n \<and> free_page sample_maps k) \<and>
       DisplayNoOfFreePages mm' = Some (card {k. free_page sample_maps k} - 1)
     else AllocatePhysicalPage sample_maps = Some (Inl OutOfMemoryPages, sample_maps))"
  by (rule physical_page_is_lowest_free [OF sample_maps_ok])

text \<open>C17: whatever a client of the physical page allocator does, allocating pages and freeing
  pages it holds in any order, the pages it holds are distinct, were free when it began, and
  are exactly the pages in use beyond those in use then.\<close>

theorem physical_page_clients_exact:
  assumes "page_maps_ok mm" "run_pool take_page give_page cs (mm, []) = (mm', held)"
  shows "page_maps_ok mm' \<and> distinct held \<and> set held \<inter> used_pages mm = {} \<and>
    used_pages mm' = used_pages mm \<union> set held"
  by (rule pages.client_exact [OF assms])

theorem physical_page_clients_exact_witness:
  "\<exists>mm' held. run_pool take_page give_page [Take, Take, Give 1] (sample_maps, []) = (mm', held) \<and>
    page_maps_ok mm' \<and> distinct held \<and> set held \<inter> used_pages sample_maps = {} \<and>
    used_pages mm' = used_pages sample_maps \<union> set held"
proof -
  obtain mm' held where r: "run_pool take_page give_page [Take, Take, Give 1] (sample_maps, []) = (mm', held)"
    by (rule prod.exhaust)
  show ?thesis using physical_page_clients_exact [OF sample_maps_ok r] r by blast
qed

text \<open>The same for the pages of the kernel pool.\<close>

theorem kernel_pool_clients_exact:
  assumes "page_maps_ok mm" "run_pool take_pool_page give_pool_page cs (mm, []) = (mm', held)"
  shows "page_maps_ok mm' \<and> distinct held \<and> set held \<inter> used_pool_pages mm = {} \<and>
    used_pool_pages mm' = used_pool_pages mm \<union> set held"
  by (rule pool_pages.client_exact [OF assms])

theorem kernel_pool_clients_exact_witness:
  "\<exists>mm' held. run_pool take_pool_page give_pool_page [Take, Give 0, Take] (sample_maps, []) = (mm', held) \<and>
    page_maps_ok mm' \<and> distinct held \<and> set held \<inter> used_pool_pages sample_maps = {} \<and>
    used_pool_pages mm' = used_pool_pages sample_maps \<union> set held"
proof -
  obtain mm' held where r: "run_pool take_pool_page give_pool_page [Take, Give 0, Take] (sample_maps, []) = (mm', held)"
    by (rule prod.exhaust)
  show ?thesis using kernel_pool_clients_exact [OF sample_maps_ok r] r by blast
qed

text \<open>\<open>BuildRawPageMap\<close> accepts every RAM size, and the pages handed out from the map it
  builds lie above the 128 MB reserved for the kernel and inside the RAM.\<close>

theorem first_page_is_outside_the_kernel:
  assumes "length (m_uiPageMap mm) = 32768" "BuildRawPageMap RAM mm = (ok, mm')"
    "AllocatePhysicalPage mm' = Some (Inr p, mm'')"
  shows "ok \<and> 0x8000000 \<le> unat p * 4096 \<and> unat p * 4096 + 4096 \<le> unat RAM"
proof -
  obtain m where m: "mm' = mm\<lparr>m_uiPageMapSize := unat RAM div 131072, m_uiResvSize := 1024,
      m_uiPageMap := m\<rparr>" "ok" "length m = 32768"
    using BuildRawPageMap_spec [OF assms(1), of RAM] assms(2) by auto
  have k: "unat RAM div 131072 \<le> 32767" by (rule ram_words)
  have len: "m_uiPageMapSize mm' \<le> length (m_uiPageMap mm')" using k by (simp add: m)
  show ?thesis
  proof (cases rule: ClearWord_loop_cases [OF len, of "m_uiResvSize mm'"])
    case 1
    then show ?thesis using assms(3) by (simp add: AllocatePhysicalPage_def)
  next
    case (2 m' q off)
    then have "q < 32768" using k by (simp add: m)
    then have "unat p = 32 * q + off"
      using assms(3) 2(1,3) page_number_u32 [of q off] by (simp add: AllocatePhysicalPage_def)
    moreover have "32 * 1024 \<le> 32 * q + off" "32 * q + off < 32 * (unat RAM div 131072)"
      using 2(4) by (simp_all add: lowest_clear_def m)
    ultimately show ?thesis using m(2) by linarith
  qed
qed

theorem first_page_is_outside_the_kernel_witness:
  "\<exists>p mm' mm''. BuildRawPageMap 0x10000000 (sample_maps\<lparr>m_uiPageMap := replicate 32768 5\<rparr>) = (True, mm') \<and>
     AllocatePhysicalPage mm' = Some (Inr p, mm'') \<and>
     True \<and> 0x8000000 \<le> unat p * 4096 \<and> unat p * 4096 + 4096 \<le> unat (0x10000000 :: u32)"
proof -
  let ?mm = "sample_maps\<lparr>m_uiPageMap := replicate 32768 5\<rparr>"
  have len: "length (m_uiPageMap ?mm) = 32768" by simp
  obtain m where m: "BuildRawPageMap 0x10000000 ?mm = (True, ?mm\<lparr>m_uiPageMapSize := 2048,
      m_uiResvSize := 1024, m_uiPageMap := m\<rparr>)" "length m = 32768"
      "\<forall>n < 65536. page_bit m n \<longleftrightarrow> n < 32768"
    using BuildRawPageMap_spec [OF len, of "0x10000000"] by auto
  let ?mm' = "?mm\<lparr>m_uiPageMapSize := 2048, m_uiResvSize := 1024, m_uiPageMap := m\<rparr>"
  have "page_maps_ok ?mm'" using m(2) by (simp add: page_maps_ok_def sample_maps_def)
  moreover have "free_page ?mm' 32768" using m(3) by (simp add: free_page_def)
  ultimately obtain p mm'' where p: "AllocatePhysicalPage ?mm' = Some (Inr p, mm'')"
    by (cases rule: AllocatePhysicalPage_cases) blast+
  show ?thesis using first_page_is_outside_the_kernel [OF len m(1) p] m(1) p by blast
qed

end
