(* ===== verification/Paging.thy ===== *)
theory Paging
  imports Pages ByteMem
begin

text \<open>
  The page tables of \<open>memory/MemManager.cpp\<close>: the start-up page table of the kernel, the kernel
  stacks, the page fault path \<open>AllocatePage\<close>, \<open>GetFlatAddress\<close>, and the release of a process's
  heap pages in \<open>memory/DMM.cpp\<close>.

  Directories and tables live in the physical memory \<open>phys\<close> and are read and written through
  pointers: entry \<open>i\<close> of the table at physical address \<open>t\<close> is the word at
  \<open>t - GLOBAL_DATA_SEGMENT_BASE + 4 * i\<close>; \<open>SEG\<close> stands for that variable. What the code asks the
  process manager for (is it a kernel process, its DMM flag, its page directory) is an argument.
  Endless loops (\<open>while(1)\<close>) are \<open>None\<close>; TLB flushes have no effect on this state.
\<close>

section \<open>The code\<close>

record paging = page_maps +
  phys :: memory
  m_uiNoOfPages :: u32
  m_uiPDEBase :: u32
  m_uiPTEBase :: u32
  m_uipKernelProcessStackPTEBase :: u32
  MEM_PDBR :: u32

abbreviation (input) KERNEL_PROCESS_PDE_ID :: u32 where "KERNEL_PROCESS_PDE_ID \<equiv> 1022"
abbreviation (input) PROCESS_STACK_PDE_ID :: u32 where "PROCESS_STACK_PDE_ID \<equiv> 1022"
abbreviation (input) PROCESS_GUI_FRAMEBUFFER_PDE_ID :: u32 where
  "PROCESS_GUI_FRAMEBUFFER_PDE_ID \<equiv> 1021"
abbreviation (input) PROCESS_HEAP_START_ADDRESS :: u32 where
  "PROCESS_HEAP_START_ADDRESS \<equiv> 0x80000000"
abbreviation (input) MEM_PDE_START :: u32 where "MEM_PDE_START \<equiv> 0x1420000"
abbreviation (input) MEM_PDE_END :: u32 where "MEM_PDE_END \<equiv> 0x1421000"
abbreviation (input) MEM_PTE_START :: u32 where "MEM_PTE_START \<equiv> 0x1000000"
abbreviation (input) MEM_PTE_END :: u32 where "MEM_PTE_END \<equiv> 0x1400000"
abbreviation (input) MEM_GRAPHICS_VIDEO_MAP_START :: u32 where
  "MEM_GRAPHICS_VIDEO_MAP_START \<equiv> 0x2000000"
abbreviation (input) MEM_GRAPHICS_VIDEO_MAP_SIZE :: u32 where
  "MEM_GRAPHICS_VIDEO_MAP_SIZE \<equiv> 0x1000000"

definition memset :: "memory \<Rightarrow> u32 \<Rightarrow> u8 \<Rightarrow> u32 \<Rightarrow> memory" where
  "memset m p v n = (\<lambda>x. if x - p < n then v else m x)"

text \<open>\<open>((unsigned*)(t - GLOBAL_DATA_SEGMENT_BASE))[i]\<close>\<close>

definition entry :: "u32 \<Rightarrow> memory \<Rightarrow> u32 \<Rightarrow> u32 \<Rightarrow> u32" where
  "entry SEG m t i = load32 m (t - SEG + 4 * i)"

definition set_entry :: "u32 \<Rightarrow> memory \<Rightarrow> u32 \<Rightarrow> u32 \<Rightarrow> u32 \<Rightarrow> memory" where
  "set_entry SEG m t i v = store32 m (t - SEG + 4 * i) v"

definition InitPage :: "u32 \<Rightarrow> u32 \<Rightarrow> memory \<Rightarrow> memory" where
  "InitPage SEG uiPage m = memset m (uiPage * PAGE_SIZE - SEG) 0 PAGE_SIZE"

subsection \<open>Start-up\<close>

fun FillPDE_loop :: "memory \<Rightarrow> u32 \<Rightarrow> nat \<Rightarrow> nat \<Rightarrow> u32 \<Rightarrow> memory" where
  "FillPDE_loop m pdeBase uiPDE 0 uiPageTableAddress = m"
| "FillPDE_loop m pdeBase uiPDE (Suc n) uiPageTableAddress =
     FillPDE_loop (store32 m (pdeBase + 4 * of_nat uiPDE) (uiPageTableAddress AND 0xFFFFF000 OR 3))
       pdeBase (Suc uiPDE) n (uiPageTableAddress + 4096)"

fun FillPTE_loop :: "memory \<Rightarrow> u32 \<Rightarrow> nat \<Rightarrow> nat \<Rightarrow> u32 \<Rightarrow> memory" where
  "FillPTE_loop m pteBase uiPTE 0 uiPageAddress = m"
| "FillPTE_loop m pteBase uiPTE (Suc n) uiPageAddress =
     FillPTE_loop (store32 m (pteBase + 4 * of_nat uiPTE) (uiPageAddress AND 0xFFFFF000 OR 3))
       pteBase (Suc uiPTE) n (uiPageAddress + PAGE_SIZE)"

definition BuildPageTable :: "u32 \<Rightarrow> u32 \<Rightarrow> paging \<Rightarrow> bool \<times> paging" where
  "BuildPageTable SEG RAM_SIZE mm =
     (let mm = mm\<lparr>MEM_PDBR := MEM_PDE_START + SEG, m_uiNoOfPages := RAM_SIZE div PAGE_SIZE,
                  m_uiPDEBase := MEM_PDE_START, m_uiPTEBase := MEM_PTE_START\<rparr>;
          uiNoOfPDEEntries = m_uiNoOfPages mm div 1024
      in if uiNoOfPDEEntries * 4 > MEM_PDE_END - MEM_PDE_START then (False, mm)
         else if m_uiNoOfPages mm * 4 > MEM_PTE_END - MEM_PTE_START then (False, mm)
         else
           let m = memset (phys mm) MEM_PDE_START 0 (MEM_PDE_END - MEM_PDE_START);
               m = memset m MEM_PTE_START 0 (MEM_PTE_END - MEM_PTE_START);
               m = FillPDE_loop m (m_uiPDEBase mm) 0 PAGE_TABLE_ENTRIES (MEM_PTE_START + SEG);
               m = store32 m (m_uiPTEBase mm) 0;
               m = FillPTE_loop m (m_uiPTEBase mm) 1 (unat (m_uiNoOfPages mm) - 1) PAGE_SIZE
           in (True, InitKernelStackBlocks (mm\<lparr>phys := m,
                 m_uipKernelProcessStackPTEBase := MEM_PTE_START + KERNEL_PROCESS_PDE_ID * 4096\<rparr>)))"

text \<open>\<open>MemMapGraphicsLFB\<close>, for a frame buffer of \<open>LFBSize\<close> bytes at \<open>FlatLFBAddress\<close>.\<close>

fun MapLFB_loop ::
  "u32 \<Rightarrow> u32 \<Rightarrow> u32 \<Rightarrow> nat \<Rightarrow> nat \<Rightarrow> u32 \<Rightarrow> return_code \<Rightarrow> paging \<Rightarrow> paging option" where
  "MapLFB_loop SEG memTypeFlag lfbaddress i 0 mapAddress rc mm = Some mm"
| "MapLFB_loop SEG memTypeFlag lfbaddress i (Suc n) mapAddress rc mm =
     (let addr = lfbaddress + PAGE_SIZE * of_nat i;
          uiPDEIndex = drop_bit 22 mapAddress AND 0x3FF;
          uiPTEAddress = entry SEG (phys mm) (MEM_PDBR mm) uiPDEIndex AND 0xFFFFF000;
          uiPTEIndex = drop_bit 12 mapAddress AND 0x3FF;
          mm = mm\<lparr>phys := set_entry SEG (phys mm) uiPTEAddress uiPTEIndex
                   (addr AND 0xFFFFF000 OR 5 OR (memTypeFlag AND 0xFF))\<rparr>
      in case MarkPageAsAllocated (addr div PAGE_SIZE) rc mm of
           None \<Rightarrow> None
         | Some (rc, mm) \<Rightarrow> MapLFB_loop SEG memTypeFlag lfbaddress (Suc i) n (mapAddress + PAGE_SIZE) rc mm)"

definition MemMapGraphicsLFB :: "u32 \<Rightarrow> u32 \<Rightarrow> u32 \<Rightarrow> u32 \<Rightarrow> paging \<Rightarrow> paging option" where
  "MemMapGraphicsLFB SEG LFBSize FlatLFBAddress memTypeFlag mm =
     (let noOfPages = LFBSize div PAGE_SIZE + 1;
          availablePages = MEM_GRAPHICS_VIDEO_MAP_SIZE div PAGE_SIZE
      in if noOfPages > availablePages then None
         else MapLFB_loop SEG memTypeFlag FlatLFBAddress 0 (unat noOfPages)
                MEM_GRAPHICS_VIDEO_MAP_START Success mm)"

subsection \<open>Kernel stacks\<close>

fun MapStack_loop :: "nat \<Rightarrow> nat \<Rightarrow> int \<Rightarrow> paging \<Rightarrow> ((page_error + unit) \<times> paging) option" where
  "MapStack_loop i 0 iStackBlockID mm = Some (Inr (), mm)"
| "MapStack_loop i (Suc n) iStackBlockID mm =
     (case AllocatePhysicalPage mm of
        None \<Rightarrow> None
      | Some (Inl e, mm) \<Rightarrow> Some (Inl e, mm)
      | Some (Inr uiFreePageNo, mm) \<Rightarrow>
          MapStack_loop (Suc i) n iStackBlockID
            (mm\<lparr>phys := store32 (phys mm)
              (m_uipKernelProcessStackPTEBase mm + 4 * of_int (iStackBlockID * 8 + int i))
              ((uiFreePageNo * PAGE_SIZE) AND 0xFFFFF000 OR 3)\<rparr>))"

definition AllocateKernelStack :: "paging \<Rightarrow> ((page_error + int) \<times> paging) option" where
  "AllocateKernelStack mm =
     (case GetFreeKernelProcessStackBlockID mm of
        None \<Rightarrow> None
      | Some (iStackBlockID, mm) \<Rightarrow>
          if iStackBlockID < 0 then Some (Inl NoFreeStackBlocks, mm)
          else case MapStack_loop 0 PROCESS_KERNEL_STACK_PAGES iStackBlockID mm of
                 None \<Rightarrow> None
               | Some (Inl e, mm) \<Rightarrow> Some (Inl e, mm)
               | Some (Inr _, mm) \<Rightarrow> Some (Inr iStackBlockID, mm))"

fun UnmapStack_loop :: "nat \<Rightarrow> nat \<Rightarrow> int \<Rightarrow> paging \<Rightarrow> paging option" where
  "UnmapStack_loop i 0 stackBlockId mm = Some mm"
| "UnmapStack_loop i (Suc n) stackBlockId mm =
     (case DeAllocatePhysicalPage
             ((load32 (phys mm) (m_uipKernelProcessStackPTEBase mm +
                 4 * of_int (stackBlockId * 8 + int i)) AND 0xFFFFF000) div PAGE_SIZE) mm of
        None \<Rightarrow> None
      | Some mm \<Rightarrow> UnmapStack_loop (Suc i) n stackBlockId mm)"

definition DeAllocateKernelStack :: "int \<Rightarrow> paging \<Rightarrow> paging option" where
  "DeAllocateKernelStack stackBlockId mm =
     (if stackBlockId < 0 \<or> stackBlockId \<ge> int (m_iNoOfKernelProcessStackBlocks mm) then Some mm
      else case UnmapStack_loop 0 PROCESS_KERNEL_STACK_PAGES stackBlockId mm of
             None \<Rightarrow> None
           | Some mm \<Rightarrow> Some (mm\<lparr>m_bAllocationMapForKernelProcessStackBlock :=
               (m_bAllocationMapForKernelProcessStackBlock mm)[nat stackBlockId := False]\<rparr>))"

definition GetKernelStackAddress :: "int \<Rightarrow> u32" where
  "GetKernelStackAddress stackBlockId =
     KERNEL_PROCESS_PDE_ID * 1024 * PAGE_SIZE + of_int stackBlockId * 8 * PAGE_SIZE"

subsection \<open>Page faults\<close>

text \<open>The second half of \<open>AllocatePage\<close>: the page table is at \<open>uiPTEAddress\<close>.\<close>

definition AllocateInTable ::
  "u32 \<Rightarrow> u32 \<Rightarrow> u32 \<Rightarrow> paging \<Rightarrow> ((page_error + return_code) \<times> paging) option" where
  "AllocateInTable SEG uiFaultyAddress uiPTEAddress mm =
     (let k = drop_bit 12 uiFaultyAddress AND 0x3FF;
          uiPageAdress = entry SEG (phys mm) uiPTEAddress k
      in if uiPageAdress AND 1 = 0 then
           case AllocatePhysicalPage mm of
             None \<Rightarrow> None
           | Some (Inl e, mm) \<Rightarrow> Some (Inl e, mm)
           | Some (Inr uiFreePageNo, mm) \<Rightarrow>
               let m = set_entry SEG (phys mm) uiPTEAddress k
                         ((uiFreePageNo * PAGE_SIZE) AND 0xFFFFF000 OR 7)
               in Some (Inr Success, mm\<lparr>phys := InitPage SEG uiFreePageNo m\<rparr>)
         else if uiPageAdress AND 7 = 7 then Some (Inr Success, mm)
         else Some (Inr Failure, mm))"

definition AllocatePage ::
  "u32 \<Rightarrow> bool \<Rightarrow> bool \<Rightarrow> u32 \<Rightarrow> u32 \<Rightarrow> paging \<Rightarrow> ((page_error + return_code) \<times> paging) option" where
  "AllocatePage SEG isKernelProcess isDMMOn CR3_PDBR uiFaultyAddress mm =
     (if isKernelProcess then None
      else
        let pdeIndex = drop_bit 22 uiFaultyAddress AND 0x3FF
        in if (pdeIndex \<noteq> PROCESS_STACK_PDE_ID \<or> pdeIndex \<noteq> PROCESS_GUI_FRAMEBUFFER_PDE_ID \<or> isDMMOn) \<and>
              (uiFaultyAddress < PROCESS_HEAP_START_ADDRESS \<or>
               (uiFaultyAddress \<ge> PROCESS_HEAP_START_ADDRESS \<and> \<not> isDMMOn) \<or>
               (pdeIndex = PROCESS_STACK_PDE_ID \<and> isDMMOn) \<or>
               pdeIndex = PROCESS_GUI_FRAMEBUFFER_PDE_ID)
           then Some (Inr Failure, mm)
           else
             let uiPTEAddress = entry SEG (phys mm) CR3_PDBR pdeIndex
             in if uiPTEAddress AND 1 = 0 then
                  case AllocatePhysicalPage mm of
                    None \<Rightarrow> None
                  | Some (Inl e, mm) \<Rightarrow> Some (Inl e, mm)
                  | Some (Inr uiPTEFreePage, mm) \<Rightarrow>
                      let m = set_entry SEG (phys mm) CR3_PDBR pdeIndex
                                ((uiPTEFreePage * PAGE_SIZE) AND 0xFFFFF000 OR 7)
                      in AllocateInTable SEG uiFaultyAddress (uiPTEFreePage * PAGE_SIZE)
                           (mm\<lparr>phys := InitPage SEG uiPTEFreePage m\<rparr>)
                else if uiPTEAddress AND 7 = 7 then
                  AllocateInTable SEG uiFaultyAddress (uiPTEAddress AND 0xFFFFF000) mm
                else Some (Inr Failure, mm))"

definition DeAllocatePage :: "u32 \<Rightarrow> paging \<Rightarrow> (return_code \<times> paging) option" where
  "DeAllocatePage uiAddress mm =
     (let uiVirtualPageNo = uiAddress div PAGE_SIZE;
          p = m_uiPTEBase mm + 4 * uiVirtualPageNo;
          e = load32 (phys mm) p
      in if e AND 1 = 0 then Some (DupDealloc, mm)
         else case DeAllocatePhysicalPage ((e AND 0xFFFFF000) div PAGE_SIZE)
                     (mm\<lparr>phys := store32 (phys mm) p (e AND 2)\<rparr>) of
                None \<Rightarrow> None
              | Some mm \<Rightarrow> Some (Success, mm))"

definition GetFlatAddress :: "u32 \<Rightarrow> u32 \<Rightarrow> u32 \<Rightarrow> memory \<Rightarrow> u32" where
  "GetFlatAddress SEG pdbr uiVirtualAddress m =
     (let uiPTEAddress = entry SEG m pdbr (drop_bit 22 uiVirtualAddress AND 0x3FF)
      in if uiPTEAddress AND 1 = 0 then 0
         else
           let uiPTEAddress = uiPTEAddress AND 0xFFFFF000;
               uiPageAddress = entry SEG m uiPTEAddress (drop_bit 12 uiVirtualAddress AND 0x3FF)
           in if uiPageAddress AND 1 = 0 then 0
              else (uiPageAddress AND 0xFFFFF000) + (uiVirtualAddress AND 0xFFF))"

subsection \<open>Releasing the heap of a process\<close>

text \<open>\<open>DMM_DeAllocatePhysicalPages\<close> walks the directory from the heap's first entry and each table
  from its first heap entry; both walks stop at the first entry that is not present.\<close>

fun FreeTable_loop :: "u32 \<Rightarrow> u32 \<Rightarrow> nat \<Rightarrow> nat \<Rightarrow> paging \<Rightarrow> paging option" where
  "FreeTable_loop SEG uiPTEAddress j 0 mm = Some mm"
| "FreeTable_loop SEG uiPTEAddress j (Suc n) mm =
     (let uiAddr = entry SEG (phys mm) uiPTEAddress (of_nat j);
          uiPageNumber = (uiAddr AND 0xFFFFF000) div PAGE_SIZE
      in if uiAddr AND 1 \<noteq> 0 \<and> uiPageNumber \<noteq> 0 then
           case DeAllocatePhysicalPage uiPageNumber mm of
             None \<Rightarrow> None
           | Some mm \<Rightarrow> FreeTable_loop SEG uiPTEAddress (Suc j) n mm
         else Some mm)"

fun FreeDirectory_loop :: "u32 \<Rightarrow> u32 \<Rightarrow> nat \<Rightarrow> nat \<Rightarrow> nat \<Rightarrow> paging \<Rightarrow> paging option" where
  "FreeDirectory_loop SEG uiPDEAddress i 0 uiPTEIndex mm = Some mm"
| "FreeDirectory_loop SEG uiPDEAddress i (Suc n) uiPTEIndex mm =
     (let uiAddr = entry SEG (phys mm) uiPDEAddress (of_nat i);
          uiPTEAddress = uiAddr AND 0xFFFFF000
      in if uiAddr AND 1 \<noteq> 0 \<and> uiPTEAddress \<noteq> 0 then
           case FreeTable_loop SEG uiPTEAddress uiPTEIndex (PAGE_TABLE_ENTRIES - uiPTEIndex) mm of
             None \<Rightarrow> None
           | Some mm \<Rightarrow>
               (case DeAllocatePhysicalPage (uiPTEAddress div PAGE_SIZE) mm of
                  None \<Rightarrow> None
                | Some mm \<Rightarrow> FreeDirectory_loop SEG uiPDEAddress (Suc i) n 0 mm)
         else Some mm)"

definition DMM_DeAllocatePhysicalPages :: "u32 \<Rightarrow> u32 \<Rightarrow> paging \<Rightarrow> paging option" where
  "DMM_DeAllocatePhysicalPages SEG pdbr mm =
     (let uiPDEIndex = unat (drop_bit 22 PROCESS_HEAP_START_ADDRESS AND 0x3FF);
          uiPTEIndex = unat (drop_bit 12 PROCESS_HEAP_START_ADDRESS AND 0x3FF)
      in FreeDirectory_loop SEG pdbr uiPDEIndex (PAGE_TABLE_ENTRIES - uiPDEIndex) uiPTEIndex mm)"

section \<open>Cells and frames\<close>

text \<open>Word \<open>c\<close> of physical memory; frame \<open>f\<close> is the words \<open>1024 f .. 1024 f + 1023\<close>.\<close>

definition cell :: "u32 \<Rightarrow> nat \<Rightarrow> u32" where
  "cell SEG c = of_nat (4 * c) - SEG"

definition word_bytes :: "u32 \<Rightarrow> u32 set" where
  "word_bytes p = (\<lambda>j. p + of_nat j) ` {..< 4}"

lemma lessThan_4: "{..< 4 :: nat} = {0, 1, 2, 3}"
  by auto

lemma store32_bytes: "x \<notin> word_bytes p \<Longrightarrow> store32 m p v x = m x"
  by (auto simp: word_bytes_def store32_def lessThan_4)

lemma load32_bytes: "(\<And>x. x \<in> word_bytes p \<Longrightarrow> m x = m' x) \<Longrightarrow> load32 m p = load32 m' p"
  by (simp add: word_bytes_def load32_def lessThan_4)

lemma cell_bytes_disjoint:
  assumes "c \<noteq> c'" "c < 1073741824" "c' < 1073741824"
  shows "word_bytes (cell SEG c) \<inter> word_bytes (cell SEG c') = {}"
proof -
  have "cell SEG c + of_nat j \<noteq> cell SEG c' + of_nat k" if "j < 4" "k < 4" for j k
  proof
    assume "cell SEG c + of_nat j = cell SEG c' + of_nat k"
    then have "(of_nat (4 * c + j) :: u32) = of_nat (4 * c' + k)"
      by (simp add: cell_def algebra_simps)
    then have "unat (of_nat (4 * c + j) :: u32) = unat (of_nat (4 * c' + k) :: u32)" by simp
    then have "4 * c + j = 4 * c' + k"
      using assms that by (simp add: of_nat_unat_u32 del: of_nat_add of_nat_mult)
    then show False using that assms(1) by presburger
  qed
  then show ?thesis by (auto simp: word_bytes_def)
qed

lemma load_store_cell:
  assumes "c < 1073741824" "c' < 1073741824"
  shows "load32 (store32 m (cell SEG c') v) (cell SEG c) = (if c = c' then v else load32 m (cell SEG c))"
proof (cases "c = c'")
  case False
  then show ?thesis
    using cell_bytes_disjoint [OF False assms, of SEG]
    by (auto intro!: load32_bytes store32_bytes)
qed simp

lemma in_page_iff:
  assumes "f < 1048576" "n < 4294967296"
  shows "(of_nat n - of_nat (f * 4096) :: u32) < 4096 \<longleftrightarrow> n div 4096 = f"
proof (cases "f * 4096 \<le> n")
  case True
  then have "(of_nat n - of_nat (f * 4096) :: u32) = of_nat (n - f * 4096)" by (simp add: of_nat_diff)
  then have "(of_nat n - of_nat (f * 4096) :: u32) < 4096 \<longleftrightarrow> n - f * 4096 < 4096"
    using assms(2) of_nat_less_u32 [of "n - f * 4096" 4096] by simp
  also have "\<dots> \<longleftrightarrow> n div 4096 = f" using True by (auto simp: div_nat_eqI)
  finally show ?thesis .
next
  case False
  define d where "d = 4294967296 - (f * 4096 - n)"
  have "(of_nat d :: u32) = of_nat 4294967296 - of_nat (f * 4096 - n)"
    using assms(1) unfolding d_def by (intro of_nat_diff) simp
  also have "\<dots> = of_nat n - of_nat (f * 4096)" using False by (simp add: of_nat_diff)
  finally have "(of_nat n - of_nat (f * 4096) :: u32) = of_nat d" by simp
  moreover have "4096 \<le> d" "d < 4294967296"
    using assms False by (auto simp: d_def)
  ultimately have "\<not> (of_nat n - of_nat (f * 4096) :: u32) < 4096"
    using of_nat_less_u32 [of d 4096] by simp
  moreover have "n div 4096 \<noteq> f" using False by auto
  ultimately show ?thesis by simp
qed

lemma InitPage_bytes:
  assumes "f < 1048576" "c < 1073741824" "x \<in> word_bytes (cell SEG c)"
  shows "InitPage SEG (of_nat f) m x = (if c div 1024 = f then 0 else m x)"
proof -
  obtain j where j: "j < 4" "x = cell SEG c + of_nat j" using assms(3) by (auto simp: word_bytes_def)
  have eq: "x - (of_nat f * PAGE_SIZE - SEG) = of_nat (4 * c + j) - of_nat (f * 4096)"
    by (simp add: j cell_def)
  have "x - (of_nat f * PAGE_SIZE - SEG) < 4096 \<longleftrightarrow> (4 * c + j) div 4096 = f"
    unfolding eq using assms(2) j(1) by (intro in_page_iff [OF assms(1)]) simp
  moreover have "(4 * c + j) div 4096 = c div 1024"
    using j(1) by (simp add: div_mult2_eq [of _ 4 1024, simplified])
  ultimately show ?thesis by (simp add: InitPage_def memset_def)
qed

lemma InitPage_cell:
  assumes "f < 1048576" "c < 1073741824"
  shows "load32 (InitPage SEG (of_nat f) m) (cell SEG c) = (if c div 1024 = f then 0 else load32 m (cell SEG c))"
proof (cases "c div 1024 = f")
  case True
  have "load32 (InitPage SEG (of_nat f) m) (cell SEG c) = load32 (\<lambda>_. 0) (cell SEG c)"
    using InitPage_bytes [OF assms] True by (intro load32_bytes) simp
  then show ?thesis using True by (simp add: load32_def)
next
  case False
  then show ?thesis
    using InitPage_bytes [OF assms] by (auto intro!: load32_bytes)
qed

lemma entry_cell:
  "entry SEG m (of_nat (f * 4096)) (of_nat k) = load32 m (cell SEG (f * 1024 + k))"
  "set_entry SEG m (of_nat (f * 4096)) (of_nat k) v = store32 m (cell SEG (f * 1024 + k)) v"
  by (simp_all add: entry_def set_entry_def cell_def algebra_simps)

text \<open>The frame an entry refers to.\<close>

definition frame_of :: "u32 \<Rightarrow> nat" where
  "frame_of e = unat (drop_bit 12 e)"

lemma frame_of_div: "frame_of e = unat e div 4096"
  by (simp only: frame_of_def unat_drop_bit_eq) (simp add: drop_bit_eq_div)

lemma frame_of_less: "frame_of e < 1048576"
  using div_le_mono [of "unat e" 4294967295 4096] u32_unat_bound [of e] by (simp add: frame_of_div)

lemma entry_address: "e AND 0xFFFFF000 = of_nat (frame_of e * 4096)"
proof -
  have "e AND NOT (mask 12) = push_bit 12 (drop_bit 12 e)"
    by (rule bit_word_eqI)
      (auto simp: bit_and_iff bit_not_iff bit_mask_iff bit_push_bit_iff bit_drop_bit_eq)
  moreover have "(0xFFFFF000 :: u32) = NOT (mask 12)" by (simp add: mask_eq_exp_minus_1)
  ultimately have "e AND 0xFFFFF000 = push_bit 12 (drop_bit 12 e)" by metis
  also have "\<dots> = of_nat (frame_of e * 4096)"
    by (simp add: frame_of_def push_bit_eq_mult of_nat_unat)
  finally show ?thesis .
qed

lemma make_entry:
  assumes "n < 1048576" "fl < 8"
  defines "e \<equiv> (of_nat n * PAGE_SIZE) AND 0xFFFFF000 OR fl"
  shows "frame_of e = n" "e AND 7 = fl"
proof -
  have d: "drop_bit 12 (of_nat n * PAGE_SIZE :: u32) = of_nat n"
  proof -
    have u: "unat (of_nat n * PAGE_SIZE :: u32) = n * 4096"
      using of_nat_unat_u32 [of "n * 4096"] assms(1) by simp
    have "unat (drop_bit 12 (of_nat n * PAGE_SIZE :: u32)) = n"
      by (simp only: unat_drop_bit_eq u) (simp add: drop_bit_eq_div)
    then show ?thesis using assms(1) by (simp add: word_unat_eq_iff of_nat_unat_u32)
  qed
  have f: "frame_of ((of_nat n * PAGE_SIZE) AND 0xFFFFF000) = n"
  proof -
    have "drop_bit 12 ((of_nat n * PAGE_SIZE) AND 0xFFFFF000) = (drop_bit 12 (of_nat n * PAGE_SIZE) AND drop_bit 12 0xFFFFF000 :: u32)"
      by (simp only: drop_bit_and)
    also have "\<dots> = of_nat n AND mask 20" unfolding d by (simp add: mask_eq_exp_minus_1)
    also have "\<dots> = of_nat n"
    proof -
      have "take_bit 20 (of_nat n :: u32) = of_nat n"
        using assms(1) unfolding word_unat_eq_iff unsigned_take_bit_eq
        by (simp add: of_nat_unat_u32 take_bit_eq_mod)
      then show ?thesis by (simp only: take_bit_eq_mask)
    qed
    finally show ?thesis using assms(1) by (simp add: frame_of_def of_nat_unat_u32)
  qed
  have fl: "bit fl j \<Longrightarrow> j < 3" for j
  proof (rule ccontr)
    assume "bit fl j" "\<not> j < 3"
    moreover have "take_bit 3 fl = fl" 

      using assms(2) unfolding word_unat_eq_iff unsigned_take_bit_eq
      by (simp add: take_bit_eq_mod word_less_nat_alt)
    ultimately show False by (metis bit_take_bit_iff)
  qed
  have "drop_bit 12 fl = 0" by (rule bit_word_eqI) (auto simp: bit_drop_bit_eq dest: fl)
  then show "frame_of e = n" using f by (simp add: frame_of_def e_def drop_bit_or)
  show "e AND 7 = fl"
  proof (rule bit_word_eqI)
    fix j assume "j < LENGTH(32)"
    have seven: "(7 :: u32) = mask 3" by (simp add: mask_eq_exp_minus_1)
    have "\<not> bit (0xFFFFF000 :: u32) j" if "j < 3"
    proof -
      have "j = 0 \<or> j = 1 \<or> j = 2" using that by arith
      then show ?thesis by auto
    qed
    then show "bit (e AND 7) j = bit fl j"
      using fl [of j] unfolding seven by (auto simp: e_def bit_and_iff bit_or_iff bit_mask_iff)
  qed
qed

section \<open>The frames of an address space\<close>

text \<open>The places of an address space that refer to a frame: the directory itself, entry \<open>i\<close> of the
  directory, entry \<open>k\<close> of the table of entry \<open>i\<close>. \<open>owner\<close> is the frame a place refers to.\<close>

datatype place = Directory | Table nat | Leaf nat nat

definition table_frame :: "u32 \<Rightarrow> memory \<Rightarrow> nat \<Rightarrow> nat \<Rightarrow> nat option" where
  "table_frame SEG m d i =
     (let e = load32 m (cell SEG (d * 1024 + i)) in if bit e 0 then Some (frame_of e) else None)"

fun owner :: "u32 \<Rightarrow> memory \<Rightarrow> nat \<Rightarrow> place \<Rightarrow> nat option" where
  "owner SEG m d Directory = Some d"
| "owner SEG m d (Table i) = table_frame SEG m d i"
| "owner SEG m d (Leaf i k) =
     (case table_frame SEG m d i of
        None \<Rightarrow> None
      | Some t \<Rightarrow> (let e = load32 m (cell SEG (t * 1024 + k))
                  in if bit e 0 then Some (frame_of e) else None))"

lemma owner_Table: "owner SEG m d (Table i) =
    (let e = load32 m (cell SEG (d * 1024 + i)) in if bit e 0 then Some (frame_of e) else None)"
  by (simp add: table_frame_def)

lemma owner_Leaf: "owner SEG m d (Leaf i k) =
    (case owner SEG m d (Table i) of
        None \<Rightarrow> None
      | Some t \<Rightarrow> (let e = load32 m (cell SEG (t * 1024 + k))
                  in if bit e 0 then Some (frame_of e) else None))"
  by simp

declare owner.simps(2,3) [simp del]

text \<open>The places under the directory entries \<open>I\<close> (the ones a process does not share with the
  kernel).\<close>

definition places :: "nat set \<Rightarrow> place set" where
  "places I = insert Directory (Table ` I \<union> (\<Union>i \<in> I. Leaf i ` {..< 1024}))"

definition space_ok :: "u32 \<Rightarrow> nat set \<Rightarrow> nat \<Rightarrow> paging \<Rightarrow> bool" where
  "space_ok SEG I d mm \<longleftrightarrow> page_maps_ok mm \<and> I \<subseteq> {..< 1024} \<and>
     inj_on (owner SEG (phys mm) d) {l \<in> places I. owner SEG (phys mm) d l \<noteq> None} \<and>
     (\<forall>l \<in> places I. \<forall>f. owner SEG (phys mm) d l = Some f \<longrightarrow>
        f < 1048576 \<and> page_bit (m_uiPageMap mm) f)"

lemma space_ok_inj:
  assumes "space_ok SEG I d mm" "l \<in> places I" "l' \<in> places I"
    "owner SEG (phys mm) d l = Some f" "owner SEG (phys mm) d l' = Some f"
  shows "l = l'"
  using assms unfolding space_ok_def inj_on_def by (metis (mono_tags, lifting) mem_Collect_eq option.discI)

lemma space_ok_frame:
  assumes "space_ok SEG I d mm" "owner SEG (phys mm) d p = Some f" "p \<in> places I"
  shows "f < 1048576" "page_bit (m_uiPageMap mm) f"
  using assms unfolding space_ok_def by blast+

lemma places_simps [simp]:
  "Directory \<in> places I" "Table i \<in> places I \<longleftrightarrow> i \<in> I"
  "Leaf i k \<in> places I \<longleftrightarrow> i \<in> I \<and> k < 1024"
  by (auto simp: places_def)

text \<open>Filling one empty place with a fresh frame.\<close>

lemma space_ok_fill:
  assumes ok: "space_ok SEG I d mm" and l: "l \<in> places I" "l \<noteq> Directory" "owner SEG (phys mm) d l = None"
    and fresh: "\<not> page_bit (m_uiPageMap mm) n" "n < 1048576"
    and bits: "\<And>k. page_bit (m_uiPageMap mm') k \<longleftrightarrow> k = n \<or> page_bit (m_uiPageMap mm) k"
    and maps: "page_maps_ok mm'"
    and own: "\<And>p. p \<in> places I \<Longrightarrow> owner SEG (phys mm') d p = ((owner SEG (phys mm) d)(l := Some n)) p"
  shows "space_ok SEG I d mm'"
proof -
  have f: "owner SEG (phys mm) d p = Some f \<Longrightarrow> p \<in> places I \<Longrightarrow> f < 1048576 \<and> page_bit (m_uiPageMap mm) f \<and> f \<noteq> n" for p f
    using ok fresh by (auto simp: space_ok_def)
  have "inj_on (owner SEG (phys mm') d) {p \<in> places I. owner SEG (phys mm') d p \<noteq> None}"
  proof (rule inj_onI)
    fix p q
    assume p: "p \<in> {p \<in> places I. owner SEG (phys mm') d p \<noteq> None}"
      and q: "q \<in> {p \<in> places I. owner SEG (phys mm') d p \<noteq> None}"
      and eq: "owner SEG (phys mm') d p = owner SEG (phys mm') d q"
    obtain g where g: "owner SEG (phys mm') d p = Some g" "owner SEG (phys mm') d q = Some g"
      using p eq by auto
    show "p = q"
    proof (cases "p = l \<or> q = l")
      case True
      then show ?thesis using p q g own f by (metis (no_types, lifting) fun_upd_apply mem_Collect_eq option.inject)
    next
      case False
      then show ?thesis using p q g own space_ok_inj [OF ok, of p q g] by simp
    qed
  qed
  moreover have "g < 1048576 \<and> page_bit (m_uiPageMap mm') g"
    if "p \<in> places I" "owner SEG (phys mm') d p = Some g" for p g
    using that own [OF that(1)] f [of p g] fresh(2) bits by (auto split: if_splits)
  ultimately show ?thesis using ok maps unfolding space_ok_def by blast
qed

lemma cell_frame: "(k :: nat) < 1024 \<Longrightarrow> (f * 1024 + k) div 1024 = f"
  by auto

lemma cell_less: "(f :: nat) < 1048576 \<Longrightarrow> k < 1024 \<Longrightarrow> f * 1024 + k < 1073741824"
  by auto

lemma cell_eq_iff: "k < 1024 \<Longrightarrow> k' < 1024 \<Longrightarrow> f * 1024 + k = f' * 1024 + k' \<longleftrightarrow> f = f' \<and> k = (k' :: nat)"
  by (metis cell_frame add_left_cancel)

text \<open>Reading an entry after a store to another entry and the zeroing of a fresh frame.\<close>

lemma load_after:
  assumes "f < 1048576" "k < 1024" "t < 1048576" "i < 1024" "n < 1048576"
  shows "load32 (InitPage SEG (of_nat n) (store32 m (cell SEG (t * 1024 + i)) v)) (cell SEG (f * 1024 + k)) =
    (if f = n then 0 else if f = t \<and> k = i then v else load32 m (cell SEG (f * 1024 + k)))"
  using assms by (simp add: InitPage_cell load_store_cell cell_less cell_frame cell_eq_iff)

lemma owner_install_table:
  assumes ok: "space_ok SEG I d mm" and i: "i \<in> I" "owner SEG (phys mm) d (Table i) = None"
    and n: "\<not> page_bit (m_uiPageMap mm) n" "n < 1048576"
    and e: "frame_of e = n" "bit e 0"
    and m': "m' = InitPage SEG (of_nat n) (store32 (phys mm) (cell SEG (d * 1024 + i)) e)"
    and p: "p \<in> places I"
  shows "owner SEG m' d p = ((owner SEG (phys mm) d)(Table i := Some n)) p"
proof -
  have I: "I \<subseteq> {..< 1024}" using ok by (simp add: space_ok_def)
  have d: "d < 1048576" "page_bit (m_uiPageMap mm) d"
    using space_ok_frame [OF ok, of Directory d] by simp_all
  then have dn: "d \<noteq> n" "i < 1024" using n i I d by auto
  have tab: "owner SEG m' d (Table j) = (if j = i then Some n else owner SEG (phys mm) d (Table j))"
    if "j \<in> I" for j
  proof -
    have "j < 1024" using that I by auto
    then show ?thesis using d dn n(2) e by (auto simp: m' load_after Let_def owner_Table)
  qed
  have leaf: "owner SEG m' d (Leaf j k) = owner SEG (phys mm) d (Leaf j k)" if "j \<in> I" "k < 1024" for j k
  proof (cases "j = i")
    case True
    then show ?thesis using tab [of i] i n that dn d by (simp add: m' load_after owner_Leaf)
  next
    case False
    show ?thesis
    proof (cases "owner SEG (phys mm) d (Table j)")
      case None
      then show ?thesis using tab [OF that(1)] False by (simp add: owner_Leaf)
    next
      case (Some t)
      then have "t < 1048576" "page_bit (m_uiPageMap mm) t" "t \<noteq> d"
        using space_ok_frame [OF ok Some] that space_ok_inj [OF ok, of "Table j" Directory t] Some
        by auto
      moreover have "owner SEG m' d (Table j) = Some t" using tab [OF that(1)] False Some by simp
      ultimately show ?thesis
        using Some n d dn that by (auto simp: m' load_after owner_Leaf)
    qed
  qed
  show ?thesis
    using p d tab leaf by (cases p) auto
qed

lemma owner_install_leaf:
  assumes ok: "space_ok SEG I d mm" and i: "i \<in> I" "k < 1024"
    and t: "owner SEG (phys mm) d (Table i) = Some t"
    and n: "\<not> page_bit (m_uiPageMap mm) n" "n < 1048576"
    and e: "frame_of e = n" "bit e 0"
    and m': "m' = InitPage SEG (of_nat n) (store32 (phys mm) (cell SEG (t * 1024 + k)) e)"
    and p: "p \<in> places I"
  shows "owner SEG m' d p = ((owner SEG (phys mm) d)(Leaf i k := Some n)) p"
proof -
  have I: "I \<subseteq> {..< 1024}" using ok by (simp add: space_ok_def)
  have d: "d < 1048576" "page_bit (m_uiPageMap mm) d"
    using space_ok_frame [OF ok, of Directory d] by simp_all
  have fr: "f < 1048576" "page_bit (m_uiPageMap mm) f" if "owner SEG (phys mm) d (Table j) = Some f" "j \<in> I" for j f
    using space_ok_frame [OF ok that(1)] that(2) by simp_all
  have td: "t \<noteq> d" using space_ok_inj [OF ok, of "Table i" Directory t] t i by auto
  have dn: "d \<noteq> n" "t \<noteq> n" using n d fr [OF t i(1)] by auto
  have tab: "owner SEG m' d (Table j) = owner SEG (phys mm) d (Table j)" if "j \<in> I" for j
  proof -
    have "j < 1024" using that I by auto
    then show ?thesis using d dn n(2) td i fr [OF t i(1)] by (simp add: m' load_after owner_Table)
  qed
  have leaf: "owner SEG m' d (Leaf j l) = (if j = i \<and> l = k then Some n else owner SEG (phys mm) d (Leaf j l))"
    if "j \<in> I" "l < 1024" for j l
  proof (cases "owner SEG (phys mm) d (Table j)")
    case None
    then show ?thesis using tab [OF that(1)] t by (auto simp: owner_Leaf)
  next
    case (Some u)
    have "u = t \<Longrightarrow> j = i"
      using space_ok_inj [OF ok, of "Table j" "Table i" t] Some t that i by auto
    moreover have "u \<noteq> n" using fr [OF Some that(1)] n by auto
    ultimately show ?thesis
      using tab [OF that(1)] Some t that fr [OF Some that(1)] fr [OF t i(1)] n e i dn
      by (auto simp: m' load_after owner_Leaf)
  qed
  show ?thesis
    using p d tab leaf by (cases p) auto
qed

section \<open>The page fault path\<close>

definition pde_index :: "u32 \<Rightarrow> nat" where
  "pde_index va = unat (drop_bit 22 va AND 0x3FF)"

definition pte_index :: "u32 \<Rightarrow> nat" where
  "pte_index va = unat (drop_bit 12 va AND 0x3FF)"

lemma pte_index_less: "pte_index va < 1024"
proof -
  have "(drop_bit 12 va AND 0x3FF :: u32) \<le> 0x3FF" by (rule word_and_le1)
  then show ?thesis by (simp add: pte_index_def word_le_nat_alt)
qed

lemma index_of_nat:
  "drop_bit 22 va AND 0x3FF = (of_nat (pde_index va) :: u32)"
  "drop_bit 12 va AND 0x3FF = (of_nat (pte_index va) :: u32)"
  by (simp_all add: pde_index_def pte_index_def of_nat_unat)

lemma GetFlatAddress_owner:
  "GetFlatAddress SEG (of_nat (d * 4096)) va m =
     (case owner SEG m d (Leaf (pde_index va) (pte_index va)) of
        None \<Rightarrow> 0 | Some f \<Rightarrow> of_nat (f * 4096) + (va AND 0xFFF))"
  unfolding GetFlatAddress_def index_of_nat owner_Leaf owner_Table Let_def entry_address entry_cell
    and_one_eq_0
  by (simp del: of_nat_mult)

text \<open>The effect of a handled page fault on the places of the address space: the faulting page
  refers to frame \<open>f\<close>; what was mapped stays mapped to the same frame with the same contents;
  if the page was not mapped, \<open>f\<close> was a free frame and is zero.\<close>

definition page_mapped ::
  "u32 \<Rightarrow> nat set \<Rightarrow> nat \<Rightarrow> nat \<Rightarrow> nat \<Rightarrow> paging \<Rightarrow> paging \<Rightarrow> nat \<Rightarrow> bool" where
  "page_mapped SEG I d i k mm mm' f \<longleftrightarrow> space_ok SEG I d mm' \<and>
     owner SEG (phys mm') d (Leaf i k) = Some f \<and>
     (\<forall>p \<in> places I. owner SEG (phys mm) d p \<noteq> None \<or> p \<notin> {Table i, Leaf i k} \<longrightarrow>
        owner SEG (phys mm') d p = owner SEG (phys mm) d p) \<and>
     (owner SEG (phys mm) d (Leaf i k) = None \<longrightarrow> \<not> page_bit (m_uiPageMap mm) f \<and>
        (\<forall>j < 1024. load32 (phys mm') (cell SEG (f * 1024 + j)) = 0)) \<and>
     (\<forall>a b g j. Leaf a b \<in> places I \<and> owner SEG (phys mm) d (Leaf a b) = Some g \<and> j < 1024 \<longrightarrow>
        load32 (phys mm') (cell SEG (g * 1024 + j)) = load32 (phys mm) (cell SEG (g * 1024 + j)))"

lemma AllocatePhysicalPage_fresh:
  assumes "page_maps_ok mm" "AllocatePhysicalPage mm = Some (Inr p, mm')"
  obtains n m where "p = of_nat n" "mm' = mm\<lparr>m_uiPageMap := m\<rparr>" "n < 1048576"
    "\<not> page_bit (m_uiPageMap mm) n" "page_maps_ok mm'"
    "\<And>k. page_bit m k \<longleftrightarrow> k = n \<or> page_bit (m_uiPageMap mm) k"
proof (cases rule: AllocatePhysicalPage_cases [OF assms(1)])
  case 1
  then show ?thesis using assms(2) by simp
next
  case (2 n m)
  then show ?thesis
    using assms by (intro that [of n m]) (auto simp: free_page_def)
qed

lemma AllocateInTable_mapped:
  assumes ok: "space_ok SEG I d mm" and i: "i \<in> I"
    and t: "owner SEG (phys mm) d (Table i) = Some t"
    and run: "AllocateInTable SEG va (of_nat (t * 4096)) mm = Some (Inr Success, mm')"
  shows "\<exists>f. page_mapped SEG I d i (pte_index va) mm mm' f"
proof -
  define k where "k = pte_index va"
  have k: "k < 1024" by (simp add: k_def pte_index_less)
  let ?e = "load32 (phys mm) (cell SEG (t * 1024 + k))"
  show ?thesis
  proof (cases "bit ?e 0")
    case True
    then have "mm' = mm"
      using run unfolding AllocateInTable_def index_of_nat k_def [symmetric] Let_def entry_cell and_one_eq_0
      by (simp split: if_splits)
    moreover have "owner SEG (phys mm) d (Leaf i k) = Some (frame_of ?e)"
      using True t by (simp add: owner_Leaf)
    ultimately show ?thesis using ok by (auto simp: page_mapped_def k_def)
  next
    case False
    obtain p m1 where a: "AllocatePhysicalPage mm = Some (Inr p, m1)"
        "mm' = m1\<lparr>phys := InitPage SEG p (set_entry SEG (phys m1) (of_nat (t * 4096)) (of_nat k)
          ((p * PAGE_SIZE) AND 0xFFFFF000 OR 7))\<rparr>"
      using run False unfolding AllocateInTable_def index_of_nat k_def [symmetric] Let_def entry_cell and_one_eq_0
      by (auto split: option.splits sum.splits)
    obtain n m where n: "p = of_nat n" "m1 = mm\<lparr>m_uiPageMap := m\<rparr>" "n < 1048576"
        "\<not> page_bit (m_uiPageMap mm) n" "page_maps_ok m1"
        "\<And>k. page_bit m k \<longleftrightarrow> k = n \<or> page_bit (m_uiPageMap mm) k"
      using AllocatePhysicalPage_fresh [OF _ a(1)] ok by (auto simp: space_ok_def)
    define e where "e = (of_nat n * PAGE_SIZE) AND 0xFFFFF000 OR (7 :: u32)"
    have e: "frame_of e = n" "bit e 0"
      using make_entry [OF n(3), of 7] and_one_eq_0 [of e] by (auto simp: e_def bit_and_iff bit_or_iff)
    have ph: "phys mm' = InitPage SEG (of_nat n) (store32 (phys mm) (cell SEG (t * 1024 + k)) e)"
      by (simp add: a(2) n(1,2) e_def entry_cell del: of_nat_mult)
    have none: "owner SEG (phys mm) d (Leaf i k) = None" using False t by (simp add: owner_Leaf)
    note own = owner_install_leaf [OF ok i k t n(4,3) e ph]
    have sp: "space_ok SEG I d mm'"
    proof (rule space_ok_fill [OF ok _ _ none n(4,3) _ _ own])
      show "page_maps_ok mm'" using n(5) by (simp add: a(2) page_maps_ok_def)
      show "page_bit (m_uiPageMap mm') j \<longleftrightarrow> j = n \<or> page_bit (m_uiPageMap mm) j" for j
        using n(6) by (simp add: a(2) n(2))
    qed (use i k in simp_all)
    have tf: "t < 1048576" using space_ok_frame [OF ok t] i by simp
    have cont: "load32 (phys mm') (cell SEG (g * 1024 + j)) = load32 (phys mm) (cell SEG (g * 1024 + j))"
      if "Leaf a b \<in> places I" "owner SEG (phys mm) d (Leaf a b) = Some g" "j < 1024" for a b g j
    proof -
      have "g < 1048576" "g \<noteq> n" using space_ok_frame [OF ok that(2,1)] n(4) by auto
      moreover have "g \<noteq> t" using space_ok_inj [OF ok that(1) _ that(2), of "Table i"] t i by auto
      ultimately show ?thesis using that(3) tf k n(3) by (simp add: ph load_after)
    qed
    have zero: "load32 (phys mm') (cell SEG (n * 1024 + j)) = 0" if "j < 1024" for j
      using that tf k n(3) by (simp add: ph load_after)
    have "page_mapped SEG I d i k mm mm' n"
      unfolding page_mapped_def using sp own none cont zero n(4) i k by (auto split: if_splits)
    then show ?thesis unfolding k_def by blast
  qed
qed

theorem AllocatePage_mapped:
  assumes ok: "space_ok SEG I d mm" and i: "pde_index va \<in> I"
    and run: "AllocatePage SEG False dmm (of_nat (d * 4096)) va mm = Some (Inr Success, mm')"
  shows "\<exists>f. page_mapped SEG I d (pde_index va) (pte_index va) mm mm' f"
proof -
  define i where "i = pde_index va"
  have iI: "i \<in> I" "i < 1024" using i ok by (auto simp: i_def space_ok_def)
  let ?e = "load32 (phys mm) (cell SEG (d * 1024 + i))"
  show ?thesis
  proof (cases "bit ?e 0")
    case True
    then have "AllocateInTable SEG va (of_nat (frame_of ?e * 4096)) mm = Some (Inr Success, mm')"
      using run unfolding AllocatePage_def index_of_nat i_def [symmetric] Let_def entry_cell and_one_eq_0
        entry_address by (simp split: if_splits del: of_nat_mult)
    moreover have "owner SEG (phys mm) d (Table i) = Some (frame_of ?e)" using True by (simp add: owner_Table)
    ultimately show ?thesis using AllocateInTable_mapped [OF ok iI(1)] unfolding i_def by blast
  next
    case False
    obtain p m1 where a: "AllocatePhysicalPage mm = Some (Inr p, m1)"
        "AllocateInTable SEG va (p * PAGE_SIZE) (m1\<lparr>phys := InitPage SEG p (set_entry SEG (phys m1)
           (of_nat (d * 4096)) (of_nat i) ((p * PAGE_SIZE) AND 0xFFFFF000 OR 7))\<rparr>) = Some (Inr Success, mm')"
      using run False unfolding AllocatePage_def index_of_nat i_def [symmetric] Let_def entry_cell and_one_eq_0
      by (auto split: option.splits sum.splits if_splits)
    define m2 where "m2 = m1\<lparr>phys := InitPage SEG p (set_entry SEG (phys m1)
           (of_nat (d * 4096)) (of_nat i) ((p * PAGE_SIZE) AND 0xFFFFF000 OR 7))\<rparr>"
    obtain n m where n: "p = of_nat n" "m1 = mm\<lparr>m_uiPageMap := m\<rparr>" "n < 1048576"
        "\<not> page_bit (m_uiPageMap mm) n" "page_maps_ok m1"
        "\<And>k. page_bit m k \<longleftrightarrow> k = n \<or> page_bit (m_uiPageMap mm) k"
      using AllocatePhysicalPage_fresh [OF _ a(1)] ok by (auto simp: space_ok_def)
    define e where "e = (of_nat n * PAGE_SIZE) AND 0xFFFFF000 OR (7 :: u32)"
    have e: "frame_of e = n" "bit e 0"
      using make_entry [OF n(3), of 7] and_one_eq_0 [of e] by (auto simp: e_def bit_and_iff bit_or_iff)
    have ph: "phys m2 = InitPage SEG (of_nat n) (store32 (phys mm) (cell SEG (d * 1024 + i)) e)"
      by (simp add: m2_def n(1,2) e_def entry_cell del: of_nat_mult)
    have none: "owner SEG (phys mm) d (Table i) = None" using False by (simp add: owner_Table)
    note own = owner_install_table [OF ok iI(1) none n(4,3) e ph]
    have maps: "\<And>j. page_bit (m_uiPageMap m2) j \<longleftrightarrow> j = n \<or> page_bit (m_uiPageMap mm) j"
      using n(6) by (simp add: m2_def n(2))
    have sp: "space_ok SEG I d m2"
    proof (rule space_ok_fill [OF ok _ _ none n(4,3) maps _ own])
      show "page_maps_ok m2" using n(5) by (simp add: m2_def page_maps_ok_def)
    qed (use iI in simp_all)
    have "owner SEG (phys m2) d (Table i) = Some n" using own [of "Table i"] iI by simp
    moreover have "AllocateInTable SEG va (of_nat (n * 4096)) m2 = Some (Inr Success, mm')"
      using a(2) by (simp add: m2_def n(1))
    ultimately obtain f where f: "page_mapped SEG I d i (pte_index va) m2 mm' f"
      using AllocateInTable_mapped [OF sp iI(1)] by blast
    have df: "d < 1048576" "page_bit (m_uiPageMap mm) d" using space_ok_frame [OF ok, of Directory d] by simp_all
    have k: "pte_index va < 1024" by (rule pte_index_less)
    have o2: "owner SEG (phys m2) d q = owner SEG (phys mm) d q" if "q \<in> places I" "q \<noteq> Table i" for q
      using own [OF that(1)] that(2) by simp
    have leafnone: "owner SEG (phys mm) d (Leaf i (pte_index va)) = None" using none by (simp add: owner_Leaf)
    have cont: "load32 (phys m2) (cell SEG (g * 1024 + j)) = load32 (phys mm) (cell SEG (g * 1024 + j))"
      if "Leaf a b \<in> places I" "owner SEG (phys mm) d (Leaf a b) = Some g" "j < 1024" for a b g j
    proof -
      have "g < 1048576" "g \<noteq> n" using space_ok_frame [OF ok that(2,1)] n(4) by auto
      moreover have "g \<noteq> d" using space_ok_inj [OF ok that(1) _ that(2), of Directory] by auto
      ultimately show ?thesis using that(3) df iI n(3) by (simp add: ph load_after)
    qed
    have "page_mapped SEG I d i (pte_index va) mm mm' f"
      unfolding page_mapped_def
    proof (intro conjI ballI allI impI)
      show "space_ok SEG I d mm'" "owner SEG (phys mm') d (Leaf i (pte_index va)) = Some f"
        using f by (simp_all add: page_mapped_def)
      fix q assume q: "q \<in> places I" "owner SEG (phys mm) d q \<noteq> None \<or> q \<notin> {Table i, Leaf i (pte_index va)}"
      then have "q \<noteq> Table i" using none by auto
      then show "owner SEG (phys mm') d q = owner SEG (phys mm) d q"
        using f q o2 [OF q(1)] unfolding page_mapped_def by metis
    next
      have "owner SEG (phys m2) d (Leaf i (pte_index va)) = None"
        using o2 [of "Leaf i (pte_index va)"] iI k leafnone by simp
      then have "\<not> page_bit (m_uiPageMap m2) f"
          "\<forall>j < 1024. load32 (phys mm') (cell SEG (f * 1024 + j)) = 0"
        using f unfolding page_mapped_def by blast+
      then show "\<not> page_bit (m_uiPageMap mm) f"
        "\<And>j. j < 1024 \<Longrightarrow> load32 (phys mm') (cell SEG (f * 1024 + j)) = 0"
        using maps by auto
    next
      fix a b g j :: nat
      assume g: "Leaf a b \<in> places I \<and> owner SEG (phys mm) d (Leaf a b) = Some g \<and> j < 1024"
      then have "owner SEG (phys m2) d (Leaf a b) = Some g" using o2 by simp
      then show "load32 (phys mm') (cell SEG (g * 1024 + j)) = load32 (phys mm) (cell SEG (g * 1024 + j))"
        using f g cont [of a b g j] unfolding page_mapped_def by metis
    qed
    then show ?thesis unfolding i_def by blast
  qed
qed

section \<open>Kernel stacks\<close>

lemma stack_entry_cell:
  assumes "m_uipKernelProcessStackPTEBase mm = of_nat (b * 4096)" "0 \<le> id0"
  shows "m_uipKernelProcessStackPTEBase mm + 4 * of_int (id0 * 8 + int i) =
    cell 0 (b * 1024 + (nat id0 * 8 + i))"
proof -
  obtain j where "id0 = int j" using assms(2) by (rule nonneg_int_cases)
  then show ?thesis using assms(1) by (simp add: cell_def algebra_simps)
qed

text \<open>The loop maps fresh pages one by one; when it throws, the pages mapped so far stay
  allocated.\<close>

lemma MapStack_loop_pages:
  assumes "page_maps_ok mm" "m_uipKernelProcessStackPTEBase mm = of_nat (b * 4096)" "b < 1048576"
    "0 \<le> id0" "nat id0 * 8 + i + n \<le> 1024"
  shows "\<exists>r mm' ps. MapStack_loop i n id0 mm = Some (r, mm') \<and> page_maps_ok mm' \<and> distinct ps \<and>
    (\<forall>p \<in> set ps. p < 1048576 \<and> free_page mm p) \<and>
    m_uiResvSize mm' = m_uiResvSize mm \<and> m_uiPageMapSize mm' = m_uiPageMapSize mm \<and>
    (\<forall>k. page_bit (m_uiPageMap mm') k \<longleftrightarrow> k \<in> set ps \<or> page_bit (m_uiPageMap mm) k) \<and>
    m_bAllocationMapForKernelProcessStackBlock mm' = m_bAllocationMapForKernelProcessStackBlock mm \<and>
    m_uipKernelProcessStackPTEBase mm' = m_uipKernelProcessStackPTEBase mm \<and>
    (\<forall>j < length ps. frame_of (load32 (phys mm') (cell 0 (b * 1024 + (nat id0 * 8 + i + j)))) = ps ! j \<and>
       load32 (phys mm') (cell 0 (b * 1024 + (nat id0 * 8 + i + j))) AND 7 = 3) \<and>
    (\<forall>j < 1024. j < nat id0 * 8 + i \<or> nat id0 * 8 + i + n \<le> j \<longrightarrow>
       load32 (phys mm') (cell 0 (b * 1024 + j)) = load32 (phys mm) (cell 0 (b * 1024 + j))) \<and>
    (case r of Inr _ \<Rightarrow> length ps = n
     | Inl e \<Rightarrow> e = OutOfMemoryPages \<and> length ps < n \<and> (\<forall>k. \<not> free_page mm' k))"
  using assms
proof (induction n arbitrary: i mm)
  case 0
  then show ?case by (intro exI [of _ "Inr ()"] exI [of _ mm] exI [of _ "[]"]) simp
next
  case (Suc n)
  show ?case
  proof (cases rule: AllocatePhysicalPage_cases [OF Suc.prems(1)])
    case 1
    then show ?thesis
      using Suc.prems by (intro exI [of _ "Inl OutOfMemoryPages"] exI [of _ mm] exI [of _ "[]"]) simp
  next
    case (2 p m)
    define e where "e = (of_nat p * PAGE_SIZE) AND 0xFFFFF000 OR (3 :: u32)"
    let ?c = "nat id0 * 8 + i"
    define m1 where "m1 = mm\<lparr>m_uiPageMap := m, phys := store32 (phys mm) (cell 0 (b * 1024 + ?c)) e\<rparr>"
    have p: "\<not> page_bit (m_uiPageMap mm) p" using 2(1) by (simp add: free_page_def)
    have e: "frame_of e = p" "e AND 7 = 3" using make_entry [of p 3] 2(4) by (simp_all add: e_def)
    have step: "MapStack_loop i (Suc n) id0 mm = MapStack_loop (Suc i) n id0 m1"
      using 2(3) stack_entry_cell [OF Suc.prems(2,4), of i] by (simp add: m1_def e_def)
    have ok1: "page_maps_ok m1" using Suc.prems(1) 2(5) by (simp add: m1_def page_maps_ok_def)
    have ld: "load32 (phys m1) (cell 0 (b * 1024 + j)) = (if j = ?c then e else load32 (phys mm) (cell 0 (b * 1024 + j)))"
      if "j < 1024" for j
      using that Suc.prems by (simp add: m1_def load_store_cell cell_less cell_eq_iff)
    obtain r mm' ps where ih: "MapStack_loop (Suc i) n id0 m1 = Some (r, mm')" "page_maps_ok mm'" "distinct ps"
      "\<forall>q \<in> set ps. q < 1048576 \<and> free_page m1 q"
      "m_uiResvSize mm' = m_uiResvSize m1" "m_uiPageMapSize mm' = m_uiPageMapSize m1"
      "\<forall>k. page_bit (m_uiPageMap mm') k \<longleftrightarrow> k \<in> set ps \<or> page_bit (m_uiPageMap m1) k"
      "m_bAllocationMapForKernelProcessStackBlock mm' = m_bAllocationMapForKernelProcessStackBlock m1"
      "m_uipKernelProcessStackPTEBase mm' = m_uipKernelProcessStackPTEBase m1"
      "\<forall>j < length ps. frame_of (load32 (phys mm') (cell 0 (b * 1024 + (nat id0 * 8 + Suc i + j)))) = ps ! j \<and>
         load32 (phys mm') (cell 0 (b * 1024 + (nat id0 * 8 + Suc i + j))) AND 7 = 3"
      "\<forall>j < 1024. j < nat id0 * 8 + Suc i \<or> nat id0 * 8 + Suc i + n \<le> j \<longrightarrow>
         load32 (phys mm') (cell 0 (b * 1024 + j)) = load32 (phys m1) (cell 0 (b * 1024 + j))"
      "case r of Inr _ \<Rightarrow> length ps = n
       | Inl e \<Rightarrow> e = OutOfMemoryPages \<and> length ps < n \<and> (\<forall>k. \<not> free_page mm' k)"
      using Suc.IH [of m1 "Suc i"] ok1 Suc.prems by (auto simp: m1_def)
    have bits1: "page_bit (m_uiPageMap m1) k \<longleftrightarrow> k = p \<or> page_bit (m_uiPageMap mm) k" for k
      using 2(6) by (simp add: m1_def)
    have here: "load32 (phys mm') (cell 0 (b * 1024 + ?c)) = e"
      using ih(11) ld [of ?c] Suc.prems by simp
    have "frame_of (load32 (phys mm') (cell 0 (b * 1024 + (?c + j)))) = (p # ps) ! j \<and>
        load32 (phys mm') (cell 0 (b * 1024 + (?c + j))) AND 7 = 3" if "j < length (p # ps)" for j
      using that ih(10) here e by (cases j) auto
    moreover have "load32 (phys mm') (cell 0 (b * 1024 + j)) = load32 (phys mm) (cell 0 (b * 1024 + j))"
      if "j < 1024" "j < ?c \<or> ?c + Suc n \<le> j" for j
      using ih(11) ld [of j] that by auto
    moreover have "free_page m1 q \<longleftrightarrow> q \<noteq> p \<and> free_page mm q" for q
      using bits1 [of q] by (auto simp: free_page_def m1_def)
    ultimately show ?thesis
      using ih 2(1,4) bits1 step
      by (intro exI [of _ r] exI [of _ mm'] exI [of _ "p # ps"])
        (auto simp: m1_def split: sum.splits)
  qed
qed

definition stack_tables_ok :: "nat \<Rightarrow> paging \<Rightarrow> bool" where
  "stack_tables_ok b mm \<longleftrightarrow> page_maps_ok mm \<and> b < 1048576 \<and>
     m_uipKernelProcessStackPTEBase mm = of_nat (b * 4096)"

lemma GetFreeBlock_cases:
  assumes "page_maps_ok mm"
  obtains "GetFreeKernelProcessStackBlockID mm = Some (-1, mm)"
      "\<And>k. k < m_iNoOfKernelProcessStackBlocks mm \<Longrightarrow> m_bAllocationMapForKernelProcessStackBlock mm ! k"
    | k where "k < m_iNoOfKernelProcessStackBlocks mm" "k < 128"
      "\<not> m_bAllocationMapForKernelProcessStackBlock mm ! k"
      "\<And>j. j < k \<Longrightarrow> m_bAllocationMapForKernelProcessStackBlock mm ! j"
      "GetFreeKernelProcessStackBlockID mm = Some (int k, mm\<lparr>m_bAllocationMapForKernelProcessStackBlock :=
         (m_bAllocationMapForKernelProcessStackBlock mm)[k := True]\<rparr>)"
proof -
  have len: "m_iNoOfKernelProcessStackBlocks mm \<le> length (m_bAllocationMapForKernelProcessStackBlock mm)"
      "length (m_bAllocationMapForKernelProcessStackBlock mm) \<le> 128"
    using assms by (simp_all add: page_maps_ok_def)
  show ?thesis
  proof (cases "FreeBlock_loop (m_bAllocationMapForKernelProcessStackBlock mm) 0 (m_iNoOfKernelProcessStackBlocks mm)")
    case None
    then show ?thesis using FreeBlock_loop_spec [OF len(1), of 0] by simp
  next
    case (Some found)
    show ?thesis
    proof (cases found)
      case None
      then show ?thesis
        using Some FreeBlock_loop_spec [OF len(1), of 0]
        by (intro that(1)) (auto simp: GetFreeKernelProcessStackBlockID_def)
    next
      case (Some p)
      then show ?thesis
        using \<open>FreeBlock_loop _ _ _ = _\<close> FreeBlock_loop_spec [OF len(1), of 0] len
        by (intro that(2) [of "snd p"]) (auto simp: GetFreeKernelProcessStackBlockID_def)
    qed
  qed
qed

text \<open>What a run of allocations has taken: all the pages that were free once none is left.\<close>

lemma taken_pages:
  assumes "distinct ps" "\<forall>p \<in> set ps. free_page mm p"
    "m_uiResvSize mm' = m_uiResvSize mm" "m_uiPageMapSize mm' = m_uiPageMapSize mm"
    "\<forall>p. page_bit (m_uiPageMap mm') p \<longleftrightarrow> p \<in> set ps \<or> page_bit (m_uiPageMap mm) p"
  shows "length ps \<le> card {p. free_page mm p}"
    "\<forall>p. \<not> free_page mm' p \<Longrightarrow> set ps = {p. free_page mm p} \<and> card {p. free_page mm p} = length ps"
proof -
  have "{p. free_page mm p} \<subseteq> {..< 32 * m_uiPageMapSize mm}" by (auto simp: free_page_def)
  then have fin: "finite {p. free_page mm p}" by (rule finite_subset) simp
  have sub: "set ps \<subseteq> {p. free_page mm p}" using assms(2) by auto
  show "length ps \<le> card {p. free_page mm p}"
    using card_mono [OF fin sub] assms(1) by (simp add: distinct_card)
  assume none: "\<forall>p. \<not> free_page mm' p"
  then have "set ps = {p. free_page mm p}" using sub assms(3-5) by (auto simp: free_page_def)
  then show "set ps = {p. free_page mm p} \<and> card {p. free_page mm p} = length ps"
    using assms(1) distinct_card [of ps] by simp
qed

section \<open>Which faults are handled\<close>

definition heap_fault :: "bool \<Rightarrow> u32 \<Rightarrow> bool" where
  "heap_fault dmm va \<longleftrightarrow> PROCESS_HEAP_START_ADDRESS \<le> va \<and> dmm \<and> pde_index va \<noteq> 1021 \<and> pde_index va \<noteq> 1022"

lemma pde_index_eq: "(drop_bit 22 va AND 0x3FF = (of_nat n :: u32)) \<longleftrightarrow> pde_index va = n" if "n < 1024"
proof
  assume "drop_bit 22 va AND 0x3FF = (of_nat n :: u32)"
  then show "pde_index va = n" using that by (simp add: pde_index_def of_nat_unat_u32)
qed (use index_of_nat(1) [of va] in simp)

lemma AllocatePage_rejects:
  assumes "\<not> heap_fault dmm va"
  shows "AllocatePage SEG False dmm pd va mm = Some (Inr Failure, mm)"
  using assms pde_index_eq [of 1021 va] pde_index_eq [of 1022 va]
  by (auto simp: AllocatePage_def heap_fault_def Let_def)

lemma AllocatePage_guard:
  assumes "heap_fault dmm va"
  shows "AllocatePage SEG False dmm pd va mm =
    (let i = of_nat (pde_index va); e = entry SEG (phys mm) pd i
     in if e AND 1 = 0 then
          case AllocatePhysicalPage mm of
            None \<Rightarrow> None
          | Some (Inl e, mm) \<Rightarrow> Some (Inl e, mm)
          | Some (Inr p, mm) \<Rightarrow>
              AllocateInTable SEG va (p * PAGE_SIZE) (mm\<lparr>phys := InitPage SEG p
                (set_entry SEG (phys mm) pd i ((p * PAGE_SIZE) AND 0xFFFFF000 OR 7))\<rparr>)
        else if e AND 7 = 7 then AllocateInTable SEG va (e AND 0xFFFFF000) mm
        else Some (Inr Failure, mm))"
proof -
  have "drop_bit 22 va AND 0x3FF \<noteq> (1021 :: u32)" "drop_bit 22 va AND 0x3FF \<noteq> (1022 :: u32)"
    using assms pde_index_eq [of 1021 va] pde_index_eq [of 1022 va] by (auto simp: heap_fault_def)
  moreover have "\<not> va < PROCESS_HEAP_START_ADDRESS" "dmm"
    using assms by (auto simp: heap_fault_def not_less)
  ultimately show ?thesis
    unfolding AllocatePage_def index_of_nat(1) [symmetric] Let_def by simp
qed

text \<open>Present entries of a process's own tables are user, writable, present.\<close>

definition user_entries :: "u32 \<Rightarrow> nat set \<Rightarrow> nat \<Rightarrow> paging \<Rightarrow> bool" where
  "user_entries SEG I d mm \<longleftrightarrow> (\<forall>i \<in> I. let e = load32 (phys mm) (cell SEG (d * 1024 + i)) in
     bit e 0 \<longrightarrow> e AND 7 = 7 \<and>
       (\<forall>k < 1024. let e' = load32 (phys mm) (cell SEG (frame_of e * 1024 + k)) in
          bit e' 0 \<longrightarrow> e' AND 7 = 7))"

lemma AllocateInTable_succeeds:
  assumes "page_maps_ok mm" "free_page mm n" "t < 1048576"
    "bit (load32 (phys mm) (cell SEG (t * 1024 + pte_index va))) 0 \<Longrightarrow>
     load32 (phys mm) (cell SEG (t * 1024 + pte_index va)) AND 7 = 7"
  shows "\<exists>mm'. AllocateInTable SEG va (of_nat (t * 4096)) mm = Some (Inr Success, mm')"
proof (cases rule: AllocatePhysicalPage_cases [OF assms(1)])
  case 1
  then show ?thesis using assms(2) by simp
next
  case (2 n' m)
  then show ?thesis
    using assms(4) unfolding AllocateInTable_def index_of_nat Let_def entry_cell and_one_eq_0
    by (simp del: of_nat_mult)
qed

lemma AllocatePage_succeeds:
  assumes ok: "space_ok SEG I d mm" "user_entries SEG I d mm" and i: "pde_index va \<in> I"
    and va: "heap_fault dmm va" and two: "free_page mm n1" "free_page mm n2" "n1 \<noteq> n2"
  shows "\<exists>mm'. AllocatePage SEG False dmm (of_nat (d * 4096)) va mm = Some (Inr Success, mm')"
proof -
  define i where "i = pde_index va"
  have iI: "i \<in> I" "i < 1024" using i ok(1) by (auto simp: i_def space_ok_def)
  have maps: "page_maps_ok mm" using ok(1) by (simp add: space_ok_def)
  let ?e = "load32 (phys mm) (cell SEG (d * 1024 + i))"
  show ?thesis
  proof (cases "bit ?e 0")
    case True
    then have u: "?e AND 7 = 7" "bit (load32 (phys mm) (cell SEG (frame_of ?e * 1024 + pte_index va))) 0 \<Longrightarrow>
        load32 (phys mm) (cell SEG (frame_of ?e * 1024 + pte_index va)) AND 7 = 7"
      using ok(2) iI(1) pte_index_less [of va] unfolding user_entries_def Let_def by blast+
    have "\<exists>mm'. AllocateInTable SEG va (of_nat (frame_of ?e * 4096)) mm = Some (Inr Success, mm')"
      using AllocateInTable_succeeds [OF maps two(1) frame_of_less] u(2) by blast
    then show ?thesis
      using True u(1) unfolding AllocatePage_guard [OF va] i_def [symmetric] Let_def entry_cell
        and_one_eq_0 entry_address by (simp del: of_nat_mult)
  next
    case False
    show ?thesis
    proof (cases rule: AllocatePhysicalPage_cases [OF maps])
      case 1
      then show ?thesis using two by simp
    next
      case (2 n m)
      define m2 where "m2 = mm\<lparr>m_uiPageMap := m, phys := InitPage SEG (of_nat n) (store32 (phys mm)
          (cell SEG (d * 1024 + i)) ((of_nat n * PAGE_SIZE) AND 0xFFFFF000 OR 7))\<rparr>"
      have d: "d < 1048576" using space_ok_frame [OF ok(1), of Directory d] by simp
      obtain n3 where "free_page mm n3" "n3 \<noteq> n" using two by metis
      then have "free_page m2 n3" using 2(6) by (simp add: m2_def free_page_def)
      moreover have "page_maps_ok m2" using maps 2(5) by (simp add: m2_def page_maps_ok_def)
      moreover have "load32 (phys m2) (cell SEG (n * 1024 + pte_index va)) = 0"
        using 2(4) pte_index_less [of va] by (simp add: m2_def InitPage_cell cell_less)
      ultimately have "\<exists>mm'. AllocateInTable SEG va (of_nat (n * 4096)) m2 = Some (Inr Success, mm')"
        using AllocateInTable_succeeds [of m2 n3 n SEG va] 2(4) by simp
      then show ?thesis
        using False 2(3) unfolding AllocatePage_guard [OF va] i_def [symmetric] Let_def entry_cell and_one_eq_0
        by (simp add: m2_def)
    qed
  qed
qed

section \<open>Properties\<close>

text \<open>C2: a page fault in the heap of a process whose DMM flag is on, with two pages free, is handled: the
  faulting address is then translated by \<open>GetFlatAddress\<close> to the same offset of a frame; no
  frame is referred to from two places of the address space; every other place keeps its frame
  and every page its contents; a frame new to the address space was free and is zero.\<close>

theorem heap_fault_maps_one_page:
  assumes "space_ok SEG I d mm" "user_entries SEG I d mm" "pde_index va \<in> I" "heap_fault dmm va"
    "free_page mm n1" "free_page mm n2" "n1 \<noteq> n2"
  shows "\<exists>mm' f. AllocatePage SEG False dmm (of_nat (d * 4096)) va mm = Some (Inr Success, mm') \<and>
    page_mapped SEG I d (pde_index va) (pte_index va) mm mm' f \<and>
    GetFlatAddress SEG (of_nat (d * 4096)) va (phys mm') = of_nat (f * 4096) + (va AND 0xFFF)"
proof -
  obtain mm' where r: "AllocatePage SEG False dmm (of_nat (d * 4096)) va mm = Some (Inr Success, mm')"
    using AllocatePage_succeeds [OF assms] by blast
  obtain f where f: "page_mapped SEG I d (pde_index va) (pte_index va) mm mm' f"
    using AllocatePage_mapped [OF assms(1,3) r] by blast
  have "GetFlatAddress SEG (of_nat (d * 4096)) va (phys mm') = of_nat (f * 4096) + (va AND 0xFFF)"
    using f unfolding GetFlatAddress_owner page_mapped_def by simp
  with r f show ?thesis by blast
qed

definition sample_paging :: paging where
  "sample_paging = \<lparr>m_uiPageMap = [0xFFFFFFFF, 7], m_uiPageMapSize = 2, m_uiResvSize = 1,
     m_uiKernelPagePoolMap = [1], m_uiKernelPagePoolMapSize = 1, m_uiKernelPagePoolStartPage = 28672,
     m_iNoOfKernelProcessStackBlocks = 2, m_bAllocationMapForKernelProcessStackBlock = [True, False],
     phys = \<lambda>_. 0, m_uiNoOfPages = 64, m_uiPDEBase = 0x1420000, m_uiPTEBase = 0x1000000,
     m_uipKernelProcessStackPTEBase = of_nat (33 * 4096), MEM_PDBR = 0x1420000\<rparr>"

lemma load32_zero [simp]: "load32 (\<lambda>_. 0) p = 0"
  by (simp add: load32_def)

lemma sample_space_ok: "space_ok 0 {512} 33 sample_paging"
proof -
  have o: "owner 0 (\<lambda>_. 0) 33 p = (if p = Directory then Some 33 else None)" for p
    by (cases p) (simp_all add: owner_Table owner_Leaf)
  have "page_bit (m_uiPageMap sample_paging) 33"
    by (simp add: page_bit_def sample_paging_def)
  then show ?thesis
    unfolding space_ok_def by (auto simp: o page_maps_ok_def sample_paging_def inj_on_def)
qed

lemma sample_free: "free_page sample_paging 35" "free_page sample_paging 36"
  by (simp_all add: free_page_def page_bit_def sample_paging_def)

theorem heap_fault_maps_one_page_witness:
  "\<exists>mm' f. AllocatePage 0 False True (of_nat (33 * 4096)) 0x80000123 sample_paging = Some (Inr Success, mm') \<and>
    page_mapped 0 {512} 33 (pde_index 0x80000123) (pte_index 0x80000123) sample_paging mm' f \<and>
    GetFlatAddress 0 (of_nat (33 * 4096)) 0x80000123 (phys mm') = of_nat (f * 4096) + (0x80000123 AND 0xFFF)"
proof (rule heap_fault_maps_one_page [OF sample_space_ok _ _ _ sample_free])
  show "user_entries 0 {512} 33 sample_paging" by (simp add: user_entries_def sample_paging_def)
  show "pde_index 0x80000123 \<in> {512}" "heap_fault True 0x80000123"
    by (simp_all add: pde_index_def heap_fault_def)
qed simp

text \<open>\<open>AllocatePage\<close> fails, changing nothing, for every other address: below the heap, anywhere while
  the DMM flag is off, in the frame buffer area and, whatever the flag, in the area of the
  process stack.\<close>

theorem page_fault_outside_heap_fails:
  assumes "va < PROCESS_HEAP_START_ADDRESS \<or> \<not> dmm \<or> pde_index va = 1021 \<or> pde_index va = 1022"
  shows "AllocatePage SEG False dmm pd va mm = Some (Inr Failure, mm)"
  using assms by (intro AllocatePage_rejects) (auto simp: heap_fault_def)

theorem page_fault_outside_heap_fails_witness:
  "AllocatePage 0 False False (of_nat (33 * 4096)) 0xFF800000 sample_paging = Some (Inr Failure, sample_paging)"
  by (rule page_fault_outside_heap_fails) (simp add: pde_index_def)

text \<open>C18: \<open>AllocateKernelStack\<close> throws with nothing changed when every block is taken. Otherwise it
  takes the lowest block that is free. When at least eight pages are free it returns the block,
  its eight entries mapped to eight distinct pages that were free and are now allocated; otherwise
  it throws with the block still marked as taken and every page that was free allocated and mapped
  from the start of the block. No other entry of the table and no other page changes.\<close>

theorem kernel_stack_allocation:
  assumes "stack_tables_ok b mm"
  shows "(\<forall>k < m_iNoOfKernelProcessStackBlocks mm. m_bAllocationMapForKernelProcessStackBlock mm ! k) \<and>
      AllocateKernelStack mm = Some (Inl NoFreeStackBlocks, mm) \<or>
    (\<exists>k r mm' ps. k < m_iNoOfKernelProcessStackBlocks mm \<and>
      \<not> m_bAllocationMapForKernelProcessStackBlock mm ! k \<and>
      (\<forall>j < k. m_bAllocationMapForKernelProcessStackBlock mm ! j) \<and>
      AllocateKernelStack mm = Some (r, mm') \<and>
      (if 8 \<le> card {p. free_page mm p} then r = Inr (int k) \<and> length ps = 8
       else r = Inl OutOfMemoryPages \<and> set ps = {p. free_page mm p}) \<and>
      m_bAllocationMapForKernelProcessStackBlock mm' = (m_bAllocationMapForKernelProcessStackBlock mm)[k := True] \<and>
      distinct ps \<and> (\<forall>p \<in> set ps. free_page mm p) \<and>
      (\<forall>p. page_bit (m_uiPageMap mm') p \<longleftrightarrow> p \<in> set ps \<or> page_bit (m_uiPageMap mm) p) \<and>
      (\<forall>j < length ps. frame_of (load32 (phys mm') (cell 0 (b * 1024 + (k * 8 + j)))) = ps ! j) \<and>
      (\<forall>j < 1024. j < k * 8 \<or> k * 8 + 8 \<le> j \<longrightarrow>
         load32 (phys mm') (cell 0 (b * 1024 + j)) = load32 (phys mm) (cell 0 (b * 1024 + j))))"
proof -
  have ok: "page_maps_ok mm" "b < 1048576" "m_uipKernelProcessStackPTEBase mm = of_nat (b * 4096)"
    using assms by (simp_all add: stack_tables_ok_def)
  show ?thesis
  proof (cases rule: GetFreeBlock_cases [OF ok(1)])
    case 1
    then show ?thesis by (simp add: AllocateKernelStack_def)
  next
    case (2 k)
    define m1 where "m1 = mm\<lparr>m_bAllocationMapForKernelProcessStackBlock :=
         (m_bAllocationMapForKernelProcessStackBlock mm)[k := True]\<rparr>"
    have m1: "page_maps_ok m1" using ok(1) by (simp add: m1_def)
    moreover have "m_uipKernelProcessStackPTEBase m1 = of_nat (b * 4096)" using ok(3) by (simp add: m1_def)
    moreover have "nat (int k) * 8 + 0 + PROCESS_KERNEL_STACK_PAGES \<le> 1024" using 2(2) by simp
    ultimately obtain r mm' ps where *: "MapStack_loop 0 8 (int k) m1 = Some (r, mm')" "distinct ps"
      "\<forall>p \<in> set ps. p < 1048576 \<and> free_page m1 p"
      "m_uiResvSize mm' = m_uiResvSize m1" "m_uiPageMapSize mm' = m_uiPageMapSize m1"
      "\<forall>p. page_bit (m_uiPageMap mm') p \<longleftrightarrow> p \<in> set ps \<or> page_bit (m_uiPageMap m1) p"
      "m_bAllocationMapForKernelProcessStackBlock mm' = m_bAllocationMapForKernelProcessStackBlock m1"
      "\<forall>j < length ps. frame_of (load32 (phys mm') (cell 0 (b * 1024 + (k * 8 + j)))) = ps ! j"
      "\<forall>j < 1024. j < k * 8 \<or> k * 8 + 8 \<le> j \<longrightarrow>
         load32 (phys mm') (cell 0 (b * 1024 + j)) = load32 (phys m1) (cell 0 (b * 1024 + j))"
      "case r of Inr _ \<Rightarrow> length ps = 8 | Inl e \<Rightarrow> e = OutOfMemoryPages \<and> length ps < 8 \<and> (\<forall>k. \<not> free_page mm' k)"
      using MapStack_loop_pages [of m1 b "int k" 0 8] ok(2) by auto
    have same: "free_page m1 p \<longleftrightarrow> free_page mm p" for p by (simp add: free_page_def m1_def)
    then have counts: "case r of Inr _ \<Rightarrow> 8 \<le> card {p. free_page mm p} \<and> length ps = 8
        | Inl e \<Rightarrow> e = OutOfMemoryPages \<and> \<not> 8 \<le> card {p. free_page mm p} \<and> set ps = {p. free_page mm p}"
      using taken_pages [OF *(2) _ *(4-6)] *(3,10) by (auto split: sum.splits)
    have "AllocateKernelStack mm = Some (case r of Inl e \<Rightarrow> Inl e | Inr _ \<Rightarrow> Inr (int k), mm')"
      using 2(5) *(1) by (auto simp: AllocateKernelStack_def m1_def split: sum.splits)
    then show ?thesis
      using * 2(1,3,4) same counts
      by (intro disjI2 exI [of _ k] exI [of _ "case r of Inl e \<Rightarrow> Inl e | Inr _ \<Rightarrow> Inr (int k)"]
          exI [of _ mm'] exI [of _ ps]) (auto simp: m1_def split: sum.splits)
  qed
qed

lemma sample_stacks_ok: "stack_tables_ok 33 sample_paging"
  by (simp add: stack_tables_ok_def sample_paging_def page_maps_ok_def)

lemma sample_many_free: "8 \<le> card {p. free_page sample_paging p}"
proof -
  have "free_page sample_paging p" if "p \<in> {35 ..< 43}" for p
  proof -
    have "p = 35 \<or> p = 36 \<or> p = 37 \<or> p = 38 \<or> p = 39 \<or> p = 40 \<or> p = 41 \<or> p = 42" using that by auto
    then show ?thesis by (auto simp: free_page_def page_bit_def sample_paging_def)
  qed
  moreover have "{p. free_page sample_paging p} \<subseteq> {..< 64}" by (auto simp: free_page_def sample_paging_def)
  then have "finite {p. free_page sample_paging p}" by (rule finite_subset) simp
  ultimately have "card {35 ..< 43 :: nat} \<le> card {p. free_page sample_paging p}"
    by (intro card_mono) auto
  then show ?thesis by simp
qed

lemma sample_lowest_block:
  "m_iNoOfKernelProcessStackBlocks sample_paging = 2"
  "k < 2 \<Longrightarrow> m_bAllocationMapForKernelProcessStackBlock sample_paging ! k \<longleftrightarrow> k = 0"
  by (auto simp: sample_paging_def less_2_cases_iff)

theorem kernel_stack_allocation_witness:
  "\<exists>mm' ps. AllocateKernelStack sample_paging = Some (Inr 1, mm') \<and> length ps = 8 \<and> distinct ps \<and>
     (\<forall>p \<in> set ps. free_page sample_paging p) \<and>
     (\<forall>p. page_bit (m_uiPageMap mm') p \<longleftrightarrow> p \<in> set ps \<or> page_bit (m_uiPageMap sample_paging) p) \<and>
     (\<forall>j < 8. frame_of (load32 (phys mm') (cell 0 (33 * 1024 + (8 + j)))) = ps ! j)"
proof -
  have "\<not> (\<forall>k < 2. m_bAllocationMapForKernelProcessStackBlock sample_paging ! k)"
    using sample_lowest_block(2) [of 1] by (auto intro!: exI [of _ 1])
  then show ?thesis
    using kernel_stack_allocation [OF sample_stacks_ok] sample_many_free sample_lowest_block
    by (auto simp: less_2_cases_iff)
qed

end
