(* ===== verification/FileDescs.thy ===== *)
theory FileDescs
  imports Prelude
begin

text \<open>
  The file descriptor table of a process, \<open>filesystem/FileDescriptorTable.cpp\<close> and
  \<open>FileDescriptor.h\<close>: opening, closing, seeking and \<open>dup2\<close>, with the reference counts and the
  chains of duplicated descriptors.

  The table is a map from descriptor numbers to descriptors; a \<open>FileDescriptor&\<close> is the number
  it is stored under. A use of a deleted descriptor and a recursion that does not end are
  \<open>None\<close>. The flags \<open>O_*\<close> and \<open>SEEK_*\<close> come from the C library's \<open>fs.h\<close>, which is not part of
  the repository: they are the fields of \<open>fs_consts\<close>, an argument \<open>K\<close> of the operations that use
  them. \<open>upan::map\<close> is used like \<open>std::map\<close>: \<open>insert\<close> keeps an existing entry.
\<close>

section \<open>The code\<close>

record fs_consts =
  O_RDWR :: u8
  O_APPEND :: u8
  SEEK_SET :: int
  SEEK_CUR :: int
  SEEK_END :: int

abbreviation (input) PROC_FREE_FD :: int where "PROC_FREE_FD \<equiv> 1100"
abbreviation (input) PROC_STDIN :: int where "PROC_STDIN \<equiv> 1101"
abbreviation (input) PROC_STDOUT :: int where "PROC_STDOUT \<equiv> 1102"
abbreviation (input) PROC_STDERR :: int where "PROC_STDERR \<equiv> 1103"
abbreviation (input) DUPPED :: u8 where "DUPPED \<equiv> 100"
abbreviation (input) PROC_SYS_MAX_OPEN_FILES :: nat where "PROC_SYS_MAX_OPEN_FILES \<equiv> 4096"

datatype fd_error =
    MaxOpenFiles
  | EntryNotCreated
  | InvalidFileDescriptor int
  | FileDescriptorOpen int
  | InvalidSeekType int
  | InvalidOffset int
  | InvalidStdFD int

record file_descriptor =
  fd_fileName :: string
  fd_offset :: u32
  fd_mode :: u8
  fd_driveID :: int
  fd_fileSize :: u32
  fd_refCount :: int
  fd_lastReadSectorIndex :: int
  fd_lastReadSectorNo :: u32

definition FileDescriptor ::
  "fs_consts \<Rightarrow> string \<Rightarrow> u8 \<Rightarrow> int \<Rightarrow> u32 \<Rightarrow> u32 \<Rightarrow> file_descriptor" where
  "FileDescriptor K fileName mode driveID fileSize startSectorID =
     \<lparr>fd_fileName = fileName, fd_offset = (if mode AND O_APPEND K \<noteq> 0 then fileSize else 0),
      fd_mode = mode, fd_driveID = driveID, fd_fileSize = fileSize, fd_refCount = 1,
      fd_lastReadSectorIndex = 0, fd_lastReadSectorNo = startSectorID\<rparr>"

definition addOffset :: "u32 \<Rightarrow> file_descriptor \<Rightarrow> file_descriptor" where
  "addOffset v f = f\<lparr>fd_offset := fd_offset f + v\<rparr>"

definition setOffset :: "int \<Rightarrow> file_descriptor \<Rightarrow> file_descriptor" where
  "setOffset offset f = f\<lparr>fd_offset := of_int offset\<rparr>"

definition decrementRefCount :: "file_descriptor \<Rightarrow> file_descriptor" where
  "decrementRefCount f = f\<lparr>fd_refCount := fd_refCount f - 1\<rparr>"

definition incrementRefCount :: "file_descriptor \<Rightarrow> file_descriptor" where
  "incrementRefCount f = f\<lparr>fd_refCount := fd_refCount f + 1\<rparr>"

definition isStdOut :: "file_descriptor \<Rightarrow> bool" where
  "isStdOut f \<longleftrightarrow> fd_driveID f = PROC_STDOUT \<or> fd_driveID f = PROC_STDERR"

definition isStdIn :: "file_descriptor \<Rightarrow> bool" where
  "isStdIn f \<longleftrightarrow> fd_driveID f = PROC_STDIN"

record fd_table =
  fdIdCounter :: int
  fdTable :: "int \<rightharpoonup> file_descriptor"

definition fd_allocate ::
  "fs_consts \<Rightarrow> string \<Rightarrow> u8 \<Rightarrow> int \<Rightarrow> u32 \<Rightarrow> u32 \<Rightarrow> fd_table \<Rightarrow> (fd_error + int) \<times> fd_table" where
  "fd_allocate K fileName mode driveID fileSize startSectorID t =
     (if card (dom (fdTable t)) \<ge> PROC_SYS_MAX_OPEN_FILES then (Inl MaxOpenFiles, t)
      else
        let fd = fdIdCounter t;
            t = t\<lparr>fdIdCounter := fd + 1\<rparr>
        in if fdTable t fd \<noteq> None then (Inl EntryNotCreated, t)
           else (Inr fd, t\<lparr>fdTable := (fdTable t)(fd \<mapsto>
                  FileDescriptor K fileName mode driveID fileSize startSectorID)\<rparr>))"

definition FileDescriptorTable :: "fs_consts \<Rightarrow> fd_table" where
  "FileDescriptorTable K =
     (let t = \<lparr>fdIdCounter = 0, fdTable = Map.empty\<rparr>;
          (_, t) = fd_allocate K [] (O_RDWR K) PROC_STDIN 0 0 t;
          (_, t) = fd_allocate K [] (O_RDWR K) PROC_STDOUT 0 0 t;
          (_, t) = fd_allocate K [] (O_RDWR K) PROC_STDERR 0 0 t
      in t)"

definition getItr :: "int \<Rightarrow> fd_table \<Rightarrow> fd_error + file_descriptor" where
  "getItr fd t = (case fdTable t fd of None \<Rightarrow> Inl (InvalidFileDescriptor fd) | Some e \<Rightarrow> Inr e)"

text \<open>The result is the number of the descriptor referred to.\<close>

partial_function (option) getRealNonDupped :: "int \<Rightarrow> fd_table \<Rightarrow> (fd_error + int) option" where
  "getRealNonDupped fd t =
     (case getItr fd t of
        Inl e \<Rightarrow> Some (Inl e)
      | Inr f \<Rightarrow> if fd_mode f \<noteq> DUPPED then Some (Inr fd) else getRealNonDupped (fd_driveID f) t)"

definition fd_free :: "int \<Rightarrow> fd_table \<Rightarrow> (fd_error + unit) \<times> fd_table" where
  "fd_free fd t =
     (case getItr fd t of
        Inl e \<Rightarrow> (Inl e, t)
      | Inr e \<Rightarrow>
          if fd_refCount e > 1 then (Inl (FileDescriptorOpen (fd_refCount e)), t)
          else
            let t = t\<lparr>fdTable := (fdTable t)(fd \<mapsto> decrementRefCount e)\<rparr>
            in if fd_mode e = DUPPED then
                 (case getItr (fd_driveID e) t of
                    Inl err \<Rightarrow> (Inl err, t)
                  | Inr o0 \<Rightarrow>
                      let t = t\<lparr>fdTable := (fdTable t)(fd_driveID e \<mapsto> decrementRefCount o0)\<rparr>
                      in (Inr (), t\<lparr>fdTable := (fdTable t)(fd := None)\<rparr>))
               else (Inr (), t\<lparr>fdTable := (fdTable t)(fd := None)\<rparr>))"

text \<open>\<open>offset += f.getOffset()\<close> adds an \<open>unsigned\<close> to an \<open>int\<close>: the sum is taken modulo \<open>2^32\<close> and
  read as an \<open>int\<close> again.\<close>

definition int_plus_u32 :: "int \<Rightarrow> u32 \<Rightarrow> int" where
  "int_plus_u32 i w = sint (of_int i + w :: u32)"

definition updateOffset ::
  "fs_consts \<Rightarrow> int \<Rightarrow> int \<Rightarrow> int \<Rightarrow> fd_table \<Rightarrow> ((fd_error + unit) \<times> fd_table) option" where
  "updateOffset K fd seekType offset t =
     (case getRealNonDupped fd t of
        None \<Rightarrow> None
      | Some (Inl e) \<Rightarrow> Some (Inl e, t)
      | Some (Inr rfd) \<Rightarrow>
          (case fdTable t rfd of
             None \<Rightarrow> None
           | Some f \<Rightarrow>
               let newOffset =
                     (if seekType = SEEK_SET K then Some offset
                      else if seekType = SEEK_CUR K then Some (int_plus_u32 offset (fd_offset f))
                      else if seekType = SEEK_END K then Some (int_plus_u32 offset (fd_fileSize f))
                      else None)
               in case newOffset of
                    None \<Rightarrow> Some (Inl (InvalidSeekType seekType), t)
                  | Some offset \<Rightarrow>
                      if offset < 0 then Some (Inl (InvalidOffset offset), t)
                      else Some (Inr (), t\<lparr>fdTable := (fdTable t)(rfd \<mapsto> setOffset offset f)\<rparr>)))"

definition getOffset :: "int \<Rightarrow> fd_table \<Rightarrow> (fd_error + u32) option" where
  "getOffset fd t =
     (case getRealNonDupped fd t of
        None \<Rightarrow> None
      | Some (Inl e) \<Rightarrow> Some (Inl e)
      | Some (Inr rfd) \<Rightarrow> map_option (\<lambda>f. Inr (fd_offset f)) (fdTable t rfd))"

text \<open>\<open>oldF\<close> is a reference taken before \<open>newFD\<close> is freed: if the descriptor it refers to is gone,
  incrementing its count is undefined.\<close>

definition dup2 :: "fs_consts \<Rightarrow> int \<Rightarrow> int \<Rightarrow> fd_table \<Rightarrow> ((fd_error + unit) \<times> fd_table) option" where
  "dup2 K oldFD newFD t =
     (case getItr oldFD t of
        Inl e \<Rightarrow> Some (Inl e, t)
      | Inr _ \<Rightarrow>
          (case getItr newFD t of
             Inl e \<Rightarrow> Some (Inl e, t)
           | Inr newF \<Rightarrow>
               (case (if fd_driveID newF \<noteq> PROC_FREE_FD then fd_free newFD t else (Inr (), t)) of
                  (Inl e, t) \<Rightarrow> Some (Inl e, t)
                | (Inr _, t) \<Rightarrow>
                    (case fdTable t oldFD of
                       None \<Rightarrow> None
                     | Some oldF \<Rightarrow>
                         let t = t\<lparr>fdTable := (fdTable t)(oldFD \<mapsto> incrementRefCount oldF)\<rparr>
                         in Some (Inr (),
                              if fdTable t newFD = None
                              then t\<lparr>fdTable := (fdTable t)(newFD \<mapsto> FileDescriptor K [] DUPPED oldFD 0 0)\<rparr>
                              else t)))))"

definition initStdFile :: "fs_consts \<Rightarrow> int \<Rightarrow> fd_table \<Rightarrow> (fd_error + unit) \<times> fd_table" where
  "initStdFile K stdFD t =
     (if stdFD \<notin> {0, 1, 2} then (Inl (InvalidStdFD stdFD), t)
      else case fd_free stdFD t of
             (Inl e, t) \<Rightarrow> (Inl e, t)
           | (Inr _, t) \<Rightarrow>
               (Inr (), if fdTable t stdFD = None
                        then t\<lparr>fdTable := (fdTable t)(stdFD \<mapsto>
                               FileDescriptor K [] (O_RDWR K) (stdFD + PROC_STDIN) 0 0)\<rparr>
                        else t))"

section \<open>The invariant of the table\<close>

text \<open>The descriptors that duplicate \<open>fd\<close>.\<close>

definition dups :: "(int \<rightharpoonup> file_descriptor) \<Rightarrow> int \<Rightarrow> int set" where
  "dups m fd = {d. \<exists>e. m d = Some e \<and> fd_mode e = DUPPED \<and> fd_driveID e = fd}"

definition links_down :: "(int \<rightharpoonup> file_descriptor) \<Rightarrow> (int \<Rightarrow> nat) \<Rightarrow> bool" where
  "links_down m rank \<longleftrightarrow> (\<forall>fd e. m fd = Some e \<and> fd_mode e = DUPPED \<longrightarrow>
     rank (fd_driveID e) < rank fd \<and> fd_driveID e \<in> dom m)"

definition fd_ok :: "fd_table \<Rightarrow> bool" where
  "fd_ok t \<longleftrightarrow> finite (dom (fdTable t)) \<and> dom (fdTable t) \<subseteq> {0 ..< fdIdCounter t} \<and>
     3 \<le> fdIdCounter t \<and> (\<exists>rank. links_down (fdTable t) rank) \<and>
     (\<forall>fd e. fdTable t fd = Some e \<longrightarrow> int (card (dups (fdTable t) fd)) < fd_refCount e)"

lemma dups_finite: "finite (dom m) \<Longrightarrow> finite (dups m fd)"
  by (rule finite_subset [of _ "dom m"]) (auto simp: dups_def)

lemma getRealNonDupped_ends:
  assumes "links_down (fdTable t) rank" "fd \<in> dom (fdTable t)"
  shows "\<exists>r f. getRealNonDupped fd t = Some (Inr r) \<and> fdTable t r = Some f \<and> fd_mode f \<noteq> DUPPED"
  using assms(2)
proof (induction "rank fd" arbitrary: fd rule: less_induct)
  case less
  then obtain e where e: "fdTable t fd = Some e" by auto
  show ?case
  proof (cases "fd_mode e = DUPPED")
    case True
    then have "rank (fd_driveID e) < rank fd" "fd_driveID e \<in> dom (fdTable t)"
      using assms(1) e by (auto simp: links_down_def)
    then show ?thesis
      using less.hyps [of "fd_driveID e"] e True
      by (subst getRealNonDupped.simps) (simp add: getItr_def)
  next
    case False
    then show ?thesis using e by (subst getRealNonDupped.simps) (simp add: getItr_def)
  qed
qed

text \<open>What the links of a table depend on.\<close>

definition shape :: "(int \<rightharpoonup> file_descriptor) \<Rightarrow> int \<rightharpoonup> u8 \<times> int" where
  "shape m = (\<lambda>x. map_option (\<lambda>e. (fd_mode e, fd_driveID e)) (m x))"

lemma shape_simps [simp]:
  "shape (m(x \<mapsto> e)) = (shape m)(x \<mapsto> (fd_mode e, fd_driveID e))"
  "shape (m(x := None)) = (shape m)(x := None)"
  "shape m x = None \<longleftrightarrow> m x = None"
  by (auto simp: shape_def)

lemma shape_dom: "dom (shape m) = dom m"
  by (auto simp: shape_def)

lemma dups_shape: "dups m fd = {d. shape m d = Some (DUPPED, fd)}"
  by (auto simp: dups_def shape_def)

lemma links_down_shape:
  "links_down m rank \<longleftrightarrow>
     (\<forall>fd x. shape m fd = Some (DUPPED, x) \<longrightarrow> rank x < rank fd \<and> x \<in> dom (shape m))"
  unfolding links_down_def shape_dom by (auto simp: shape_def)

lemma links_down_remove:
  assumes "links_down m rank" "dups m fd = {}" "shape m' = (shape m)(fd := None)"
  shows "links_down m' rank"
  using assms by (auto simp: links_down_shape dups_shape split: if_splits)

lemma decrement_shape:
  "m x = Some e \<Longrightarrow> shape (m(x \<mapsto> decrementRefCount e)) = shape m"
  "m x = Some e \<Longrightarrow> shape (m(x \<mapsto> incrementRefCount e)) = shape m"
  "m x = Some e \<Longrightarrow> shape (m(x \<mapsto> setOffset v e)) = shape m"
  by (auto simp: shape_def decrementRefCount_def incrementRefCount_def setOffset_def)

text \<open>The reference counts seen as a number for each open descriptor.\<close>

definition counted :: "(int \<rightharpoonup> file_descriptor) \<Rightarrow> bool" where
  "counted m \<longleftrightarrow> (\<forall>x e. m x = Some e \<longrightarrow> int (card (dups m x)) < fd_refCount e)"

lemma fd_ok_iff:
  "fd_ok t \<longleftrightarrow> finite (dom (fdTable t)) \<and> dom (fdTable t) \<subseteq> {0 ..< fdIdCounter t} \<and>
     3 \<le> fdIdCounter t \<and> (\<exists>rank. links_down (fdTable t) rank) \<and> counted (fdTable t)"
  by (simp add: fd_ok_def counted_def)

lemma fd_free_spec:
  assumes ok: "fd_ok t" and e: "fdTable t fd = Some e" "fd_refCount e \<le> 1"
  shows "\<exists>m. fd_free fd t = (Inr (), t\<lparr>fdTable := m\<rparr>) \<and> shape m = (shape (fdTable t))(fd := None) \<and>
     counted m \<and> dups (fdTable t) fd = {}"
proof -
  let ?m = "fdTable t"
  have fin: "finite (dom ?m)" and cnt: "counted ?m" using ok by (auto simp: fd_ok_iff)
  obtain rank where rank: "links_down ?m rank" using ok by (auto simp: fd_ok_iff)
  have "int (card (dups ?m fd)) < fd_refCount e" using cnt e by (auto simp: counted_def)
  then have "card (dups ?m fd) = 0" using e(2) by linarith
  then have none: "dups ?m fd = {}" using dups_finite [OF fin, of fd] by simp
  show ?thesis
  proof (cases "fd_mode e = DUPPED")
    case True
    define x where "x = fd_driveID e"
    have "rank x < rank fd" "x \<in> dom ?m" using rank e True by (auto simp: links_down_def x_def)
    then obtain f where f: "?m x = Some f" "x \<noteq> fd" by auto
    let ?m' = "(?m(fd \<mapsto> decrementRefCount e, x \<mapsto> decrementRefCount f))(fd := None)"
    have run: "fd_free fd t = (Inr (), t\<lparr>fdTable := ?m'\<rparr>)"
      using e f True by (simp add: fd_free_def getItr_def Let_def x_def [symmetric])
    have sh: "shape ?m' = (shape ?m)(fd := None)"
      using f by (auto simp: shape_def decrementRefCount_def fun_eq_iff)
    have d: "dups ?m' y = dups ?m y - {fd}" for y
      unfolding dups_shape sh by auto
    have "fd \<in> dups ?m x" using e True by (auto simp: dups_def x_def)
    then have cx: "card (dups ?m' x) + 1 = card (dups ?m x)"
      using dups_finite [OF fin, of x] d [of x] by (simp add: card_Suc_Diff1 [symmetric] del: card_Diff_insert)
    have "counted ?m'"
      unfolding counted_def
    proof (intro allI impI)
      fix y g assume g: "?m' y = Some g"
      show "int (card (dups ?m' y)) < fd_refCount g"
      proof (cases "y = x")
        case True
        then have "g = decrementRefCount f" using g f by simp
        moreover have "int (card (dups ?m x)) < fd_refCount f" using cnt f by (auto simp: counted_def)
        ultimately show ?thesis using True cx by (simp add: decrementRefCount_def)
      next
        case False
        then have "?m y = Some g" using g f by (auto split: if_splits)
        then have "int (card (dups ?m y)) < fd_refCount g" using cnt by (auto simp: counted_def)
        moreover have "card (dups ?m' y) \<le> card (dups ?m y)"
          using d [of y] dups_finite [OF fin, of y] by (metis Diff_subset card_mono)
        ultimately show ?thesis by linarith
      qed
    qed
    then show ?thesis using run sh none by blast
  next
    case False
    let ?m' = "(?m(fd \<mapsto> decrementRefCount e))(fd := None)"
    have run: "fd_free fd t = (Inr (), t\<lparr>fdTable := ?m'\<rparr>)"
      using e False by (simp add: fd_free_def getItr_def Let_def)
    have sh: "shape ?m' = (shape ?m)(fd := None)" by (auto simp: shape_def)
    have "shape ?m fd \<noteq> Some (DUPPED, y)" for y using e False by (auto simp: shape_def)
    then have d: "dups ?m' y = dups ?m y" for y unfolding dups_shape sh by auto
    have "counted ?m'"
      using cnt unfolding counted_def d by (auto split: if_splits)
    then show ?thesis using run sh none by blast
  qed
qed

lemma fd_free_ok:
  assumes ok: "fd_ok t" and run: "fd_free fd t = (r, t')"
  shows "fd_ok t' \<and> (case r of Inl _ \<Rightarrow> t' = t
    | Inr _ \<Rightarrow> \<exists>m. t' = t\<lparr>fdTable := m\<rparr> \<and> fd \<in> dom (fdTable t) \<and>
        shape m = (shape (fdTable t))(fd := None) \<and> dups (fdTable t) fd = {})"
proof (cases "\<exists>e. fdTable t fd = Some e \<and> fd_refCount e \<le> 1")
  case True
  then obtain e where e: "fdTable t fd = Some e" "fd_refCount e \<le> 1" by blast
  obtain m where m: "fd_free fd t = (Inr (), t\<lparr>fdTable := m\<rparr>)" "shape m = (shape (fdTable t))(fd := None)"
      "counted m" "dups (fdTable t) fd = {}"
    using fd_free_spec [OF ok e] by blast
  obtain rank where "links_down (fdTable t) rank" using ok by (auto simp: fd_ok_iff)
  then have "links_down m rank" using links_down_remove m by blast
  moreover have "dom m = dom (fdTable t) - {fd}"
    using arg_cong [OF m(2), of dom] by (simp add: shape_dom)
  ultimately have "fd_ok (t\<lparr>fdTable := m\<rparr>)" using ok m(3) by (auto simp: fd_ok_iff)
  then show ?thesis using m e run by auto
next
  case False
  then have "r \<noteq> Inr () \<and> t' = t"
    using run by (auto simp: fd_free_def getItr_def split: option.splits if_splits)
  then show ?thesis using ok by (cases r) auto
qed

lemma fd_insert_ok:
  assumes ok: "fd_ok t" and fd: "0 \<le> fd" "fd < c" "fdTable t fd = None" "fdIdCounter t \<le> c"
    and mode: "fd_mode e \<noteq> DUPPED" "0 < fd_refCount e" and free: "dups (fdTable t) fd = {}"
  shows "fd_ok (t\<lparr>fdIdCounter := c, fdTable := (fdTable t)(fd \<mapsto> e)\<rparr>)"
proof -
  let ?m = "fdTable t" and ?m' = "(fdTable t)(fd \<mapsto> e)"
  have d: "dups ?m' y = dups ?m y" for y
    using mode fd by (auto simp: dups_def)
  obtain rank where "links_down ?m rank" using ok by (auto simp: fd_ok_iff)
  then have "links_down ?m' rank" using mode by (auto simp: links_down_def split: if_splits)
  moreover have "counted ?m'"
    using ok mode free unfolding counted_def d by (auto simp: fd_ok_iff counted_def)
  ultimately show ?thesis using ok fd by (auto simp: fd_ok_iff)
qed

lemma dups_of_closed: "fd_ok t \<Longrightarrow> fdTable t fd = None \<Longrightarrow> dups (fdTable t) fd = {}"
  by (auto simp: fd_ok_iff links_down_def dups_def)

lemma FileDescriptor_simps [simp]:
  "fd_mode (FileDescriptor K n md dr sz st) = md"
  "fd_driveID (FileDescriptor K n md dr sz st) = dr"
  "fd_refCount (FileDescriptor K n md dr sz st) = 1"
  by (simp_all add: FileDescriptor_def)

lemma fd_allocate_ok:
  assumes ok: "fd_ok t" and mode: "mode \<noteq> DUPPED" and run: "fd_allocate K n mode dr sz st t = (r, t')"
  shows "fd_ok t' \<and> (case r of
      Inr fd \<Rightarrow> fdTable t fd = None \<and> fdTable t' = (fdTable t)(fd \<mapsto> FileDescriptor K n mode dr sz st)
    | Inl e \<Rightarrow> e = MaxOpenFiles \<and> t' = t)"
proof -
  have none: "fdTable t (fdIdCounter t) = None" using ok by (force simp: fd_ok_iff)
  have c: "0 \<le> fdIdCounter t" using ok by (simp add: fd_ok_iff)
  have "fd_ok (t\<lparr>fdIdCounter := fdIdCounter t + 1, fdTable := (fdTable t)(fdIdCounter t \<mapsto>
      FileDescriptor K n mode dr sz st)\<rparr>)"
    using fd_insert_ok [OF ok c _ none, of "fdIdCounter t + 1" "FileDescriptor K n mode dr sz st"]
      mode dups_of_closed [OF ok none] by simp
  then show ?thesis
    using run none ok by (auto simp: fd_allocate_def Let_def split: if_splits)
qed

lemma counted_update:
  assumes "counted m" "m x = Some e" "shape (m(x \<mapsto> e')) = shape m" "fd_refCount e \<le> fd_refCount e'"
  shows "counted (m(x \<mapsto> e'))"
proof -
  have "dups (m(x \<mapsto> e')) y = dups m y" for y unfolding dups_shape assms(3) ..
  then show ?thesis using assms(1,2,4) by (fastforce simp: counted_def)
qed

lemma fd_update_ok:
  assumes ok: "fd_ok t" and e: "fdTable t x = Some e" "fd_mode e' = fd_mode e" "fd_driveID e' = fd_driveID e"
    "fd_refCount e \<le> fd_refCount e'"
  shows "fd_ok (t\<lparr>fdTable := (fdTable t)(x \<mapsto> e')\<rparr>)"
proof -
  have sh: "shape ((fdTable t)(x \<mapsto> e')) = shape (fdTable t)"
    using e by (auto simp: shape_def)
  have "dom ((fdTable t)(x \<mapsto> e')) = dom (fdTable t)" using e(1) by auto
  moreover have "links_down ((fdTable t)(x \<mapsto> e')) rank = links_down (fdTable t) rank" for rank
    unfolding links_down_shape sh ..
  ultimately show ?thesis
    using ok counted_update [OF _ e(1) sh e(4)] by (auto simp: fd_ok_iff)
qed

lemma add_dup_ok:
  assumes ok: "fd_ok t" and n: "fdTable t n = None" "0 \<le> n" "n < fdIdCounter t"
    and old: "fdTable t old = Some e"
  shows "fd_ok (t\<lparr>fdTable := (fdTable t)(old \<mapsto> incrementRefCount e, n \<mapsto> FileDescriptor K [] DUPPED old 0 0)\<rparr>)"
proof -
  let ?m = "fdTable t" and ?m' = "(fdTable t)(old \<mapsto> incrementRefCount e, n \<mapsto> FileDescriptor K [] DUPPED old 0 0)"
  have no: "n \<noteq> old" using n old by auto
  obtain rank where rank: "links_down ?m rank" using ok by (auto simp: fd_ok_iff)
  have sh: "shape ?m' = (shape ?m)(n \<mapsto> (DUPPED, old))"
    using old no by (auto simp: shape_def incrementRefCount_def)
  have free: "dups ?m n = {}" using dups_of_closed [OF ok n(1)] .
  have "links_down ?m' (rank(n := rank old + 1))"
    unfolding links_down_shape sh
  proof (intro allI impI)
    fix fd x assume s: "((shape ?m)(n \<mapsto> (DUPPED, old))) fd = Some (DUPPED, x)"
    show "(rank(n := rank old + 1)) x < (rank(n := rank old + 1)) fd \<and> x \<in> dom ((shape ?m)(n \<mapsto> (DUPPED, old)))"
    proof (cases "fd = n")
      case True
      then show ?thesis using s no old by (auto simp: shape_def)
    next
      case False
      then have "shape ?m fd = Some (DUPPED, x)" using s by simp
      then have "rank x < rank fd" "x \<in> dom (shape ?m)" "x \<noteq> n"
        using rank free unfolding links_down_shape dups_shape by auto
      then show ?thesis using False by simp
    qed
  qed
  moreover have "counted ?m'"
    unfolding counted_def
  proof (intro allI impI)
    fix y g assume g: "?m' y = Some g"
    have d: "dups ?m' y = (if y = old then insert n (dups ?m y) else dups ?m y)"
      unfolding dups_shape sh using n(1) by (auto simp: shape_def)
    have fin: "finite (dups ?m y)" using ok dups_finite by (auto simp: fd_ok_iff)
    have "y \<noteq> n \<Longrightarrow> \<exists>g0. ?m y = Some g0 \<and> fd_refCount g = fd_refCount g0 + (if y = old then 1 else 0)"
      using g old by (auto simp: incrementRefCount_def split: if_splits)
    moreover have "?m y = Some g0 \<Longrightarrow> int (card (dups ?m y)) < fd_refCount g0" for g0
      using ok by (auto simp: fd_ok_iff counted_def)
    moreover have "card (insert n (dups ?m y)) \<le> card (dups ?m y) + 1"
      using fin by (simp add: card_insert_if)
    moreover have "y = n \<Longrightarrow> fd_refCount g = 1 \<and> dups ?m' y = {}" using g no free d by auto
    ultimately show "int (card (dups ?m' y)) < fd_refCount g"
      unfolding d by (cases "y = n") (auto split: if_splits)
  qed
  ultimately show ?thesis using ok n old by (auto simp: fd_ok_iff)
qed

lemma shape_SomeD: "shape m x = Some s \<Longrightarrow> \<exists>e. m x = Some e"
  by (auto simp: shape_def)

lemma dup2_cases:
  assumes ok: "fd_ok t" and ne: "oldFD \<noteq> newFD"
  obtains e where "dup2 K oldFD newFD t = Some (Inl e, t)"
    | t' where "dup2 K oldFD newFD t = Some (Inr (), t')" "fd_ok t'" "oldFD \<in> dom (fdTable t)"
      "newFD \<in> dom (fdTable t)" "dups (fdTable t) newFD = {}"
      "shape (fdTable t') = (shape (fdTable t))(newFD \<mapsto> (DUPPED, oldFD))"
    | t' e where "fdTable t newFD = Some e" "fd_driveID e = PROC_FREE_FD" "dup2 K oldFD newFD t = Some (Inr (), t')"
      "fd_ok t'" "shape (fdTable t') = shape (fdTable t)"
proof (cases "oldFD \<in> dom (fdTable t) \<and> newFD \<in> dom (fdTable t)")
  case False
  then have "fdTable t oldFD = None \<or> fdTable t newFD = None" by auto
  then have "\<exists>e. dup2 K oldFD newFD t = Some (Inl e, t)"
    by (auto simp: dup2_def getItr_def split: option.splits)
  then show ?thesis using that(1) by blast
next
  case True
  then obtain e1 e2 where e: "fdTable t oldFD = Some e1" "fdTable t newFD = Some e2" by auto
  show ?thesis
  proof (cases "fd_driveID e2 = PROC_FREE_FD")
    case True
    let ?t' = "t\<lparr>fdTable := (fdTable t)(oldFD \<mapsto> incrementRefCount e1)\<rparr>"
    have "dup2 K oldFD newFD t = Some (Inr (), ?t')"
      using e True ne by (simp add: dup2_def getItr_def)
    moreover have "fd_ok ?t'"
      using fd_update_ok [OF ok e(1), of "incrementRefCount e1"] by (simp add: incrementRefCount_def)
    ultimately show ?thesis using that(3) e True decrement_shape(2) [of "fdTable t", OF e(1)] by auto
  next
    case False
    obtain r t1 where f: "fd_free newFD t = (r, t1)" by (rule prod.exhaust)
    note fo = fd_free_ok [OF ok f]
    show ?thesis
    proof (cases r)
      case (Inl x)
      then have "dup2 K oldFD newFD t = Some (Inl x, t)"
        using e False f fo by (simp add: dup2_def getItr_def)
      then show ?thesis using that(1) by blast
    next
      case (Inr u)
      then obtain m where m: "t1 = t\<lparr>fdTable := m\<rparr>" "shape m = (shape (fdTable t))(newFD := None)"
          "dups (fdTable t) newFD = {}" "fd_ok t1"
        using fo by auto
      have "shape m oldFD = shape (fdTable t) oldFD" using m(2) ne by simp
      then obtain e1' where e1': "m oldFD = Some e1'" "fd_mode e1' = fd_mode e1" "fd_driveID e1' = fd_driveID e1"
        using e by (auto simp: shape_def)
      have n: "m newFD = None" using arg_cong [OF m(2), of "\<lambda>g. g newFD"] by simp
      let ?t' = "t1\<lparr>fdTable := m(oldFD \<mapsto> incrementRefCount e1', newFD \<mapsto> FileDescriptor K [] DUPPED oldFD 0 0)\<rparr>"
      have run: "dup2 K oldFD newFD t = Some (Inr (), ?t')"
        using e False f Inr m(1) e1' n ne by (simp add: dup2_def getItr_def Let_def)
      have "0 \<le> newFD" "newFD < fdIdCounter t1" using ok e m(1) by (auto simp: fd_ok_iff)
      then have "fd_ok ?t'"
        using add_dup_ok [OF m(4), of newFD oldFD e1' K] n e1'(1) m(1) by simp
      moreover have "shape (fdTable ?t') = (shape (fdTable t))(newFD \<mapsto> (DUPPED, oldFD))"
        using decrement_shape(2) [of m, OF e1'(1)] m(2) by simp
      ultimately show ?thesis using that(2) run e m(3) by blast
    qed
  qed
qed

lemma initStdFile_ok:
  assumes ok: "fd_ok t" and K: "O_RDWR K \<noteq> DUPPED" and run: "initStdFile K fd t = (r, t')"
  shows "fd_ok t'"
proof (cases "fd \<in> {0, 1, 2}")
  case False
  then show ?thesis using run ok by (simp add: initStdFile_def)
next
  case True
  obtain r1 t1 where f: "fd_free fd t = (r1, t1)" by (rule prod.exhaust)
  note fo = fd_free_ok [OF ok f]
  show ?thesis
  proof (cases r1)
    case (Inl x)
    then show ?thesis using run True f fo by (auto simp: initStdFile_def)
  next
    case (Inr u)
    then obtain m where m: "t1 = t\<lparr>fdTable := m\<rparr>" "shape m = (shape (fdTable t))(fd := None)" and ok1: "fd_ok t1"
      using fo by auto
    have "shape m fd = None" by (simp only: m(2) fun_upd_same)
    then have none: "fdTable t1 fd = None" by (simp add: m(1))
    have "fd_ok (t1\<lparr>fdIdCounter := fdIdCounter t1, fdTable := (fdTable t1)(fd \<mapsto>
        FileDescriptor K [] (O_RDWR K) (fd + PROC_STDIN) 0 0)\<rparr>)"
      using ok1 True K none dups_of_closed [OF ok1 none] by (intro fd_insert_ok) (auto simp: fd_ok_iff)
    then show ?thesis using run True f Inr none by (auto simp: initStdFile_def)
  qed
qed

lemma updateOffset_ok:
  assumes ok: "fd_ok t" and run: "updateOffset K fd st off t = Some (r, t')"
  shows "fd_ok t' \<and> shape (fdTable t') = shape (fdTable t)"
  using run ok fd_update_ok [OF ok] decrement_shape(3)
  by (auto simp: updateOffset_def Let_def setOffset_def split: option.splits sum.splits if_splits)

lemma FileDescriptorTable_ok:
  assumes "O_RDWR K \<noteq> DUPPED"
  shows "fd_ok (FileDescriptorTable K)"
proof -
  let ?f = "\<lambda>d. FileDescriptor K [] (O_RDWR K) d 0 0"
  have t: "FileDescriptorTable K = \<lparr>fdIdCounter = 3,
      fdTable = [0 \<mapsto> ?f PROC_STDIN, 1 \<mapsto> ?f PROC_STDOUT, 2 \<mapsto> ?f PROC_STDERR]\<rparr>"
    by (simp add: FileDescriptorTable_def fd_allocate_def Let_def)
  have "dups (fdTable (FileDescriptorTable K)) x = {}" for x
    using assms by (auto simp: t dups_def split: if_splits)
  then show ?thesis
    using assms by (auto simp: fd_ok_iff t counted_def links_down_def split: if_splits)
qed

section \<open>Reachable tables\<close>

text \<open>The tables a process passes through: the constructor's, and what each operation leaves,
  failed or not, with the modes of the files opened. A run ends where an operation is undefined.\<close>

inductive fd_run :: "fs_consts \<Rightarrow> fd_table \<Rightarrow> u8 list \<Rightarrow> bool" for K where
  start: "fd_run K (FileDescriptorTable K) []"
| allocate: "fd_run K t ms \<Longrightarrow> fd_allocate K n mode dr sz st t = (r, t') \<Longrightarrow> fd_run K t' (mode # ms)"
| free: "fd_run K t ms \<Longrightarrow> fd_free fd t = (r, t') \<Longrightarrow> fd_run K t' ms"
| seek: "fd_run K t ms \<Longrightarrow> updateOffset K fd st off t = Some (r, t') \<Longrightarrow> fd_run K t' ms"
| dup2: "fd_run K t ms \<Longrightarrow> dup2 K oldFD newFD t = Some (r, t') \<Longrightarrow> fd_run K t' ms"
| std: "fd_run K t ms \<Longrightarrow> initStdFile K fd t = (r, t') \<Longrightarrow> fd_run K t' ms"

text \<open>\<open>dup2\<close> of a descriptor on itself either fails in \<open>free\<close>, or is undefined, or, for the drive id
  that marks a free entry, counts one more reference.\<close>

lemma dup2_same_ok:
  assumes ok: "fd_ok t" and run: "dup2 K fd fd t = Some (r, t')"
  shows "fd_ok t'"
proof (cases "fdTable t fd")
  case None
  then show ?thesis using ok run by (simp add: dup2_def getItr_def)
next
  case (Some e)
  show ?thesis
  proof (cases "fd_driveID e = PROC_FREE_FD")
    case True
    then have "t' = t\<lparr>fdTable := (fdTable t)(fd \<mapsto> incrementRefCount e)\<rparr>"
      using Some run by (simp add: dup2_def getItr_def)
    then show ?thesis
      using fd_update_ok [OF ok Some, of "incrementRefCount e"] by (simp add: incrementRefCount_def)
  next
    case False
    obtain r1 t1 where f: "fd_free fd t = (r1, t1)" by (rule prod.exhaust)
    note fo = fd_free_ok [OF ok f]
    show ?thesis
    proof (cases r1)
      case (Inl x)
      then show ?thesis using Some False f fo ok run by (auto simp: dup2_def getItr_def)
    next
      case (Inr u)
      then obtain m where m: "t1 = t\<lparr>fdTable := m\<rparr>" "shape m = (shape (fdTable t))(fd := None)"
        using fo by auto
      have "shape m fd = None" by (simp only: m(2) fun_upd_same)
      with m(1) show ?thesis using Some False f Inr run by (simp add: dup2_def getItr_def)
    qed
  qed
qed

lemma dup2_ok:
  assumes "fd_ok t" "dup2 K oldFD newFD t = Some (r, t')"
  shows "fd_ok t'"
proof (cases "oldFD = newFD")
  case True
  then show ?thesis using dup2_same_ok assms by simp
next
  case False
  show ?thesis by (rule dup2_cases [OF assms(1) False, of K]) (use assms in auto)
qed

lemma fd_run_ok: "fd_run K t ms \<Longrightarrow> DUPPED \<notin> set ms \<Longrightarrow> O_RDWR K \<noteq> DUPPED \<Longrightarrow> fd_ok t"
proof (induction rule: fd_run.induct)
  case start
  then show ?case by (intro FileDescriptorTable_ok)
next
  case (allocate t ms n mode dr sz st r t')
  then show ?case using fd_allocate_ok [of t mode K n dr sz st r t'] by simp
next
  case (free t ms fd r t')
  then show ?case using fd_free_ok [of t fd r t'] by simp
next
  case (seek t ms fd st off r t')
  then show ?case using updateOffset_ok [of t K fd st off r t'] by simp
next
  case (dup2 t ms oldFD newFD r t')
  then show ?case using dup2_ok [of t K oldFD newFD r t'] by blast
next
  case (std t ms fd r t')
  then show ?case using initStdFile_ok [of t K fd r t'] by simp
qed

lemma getReal_same:
  assumes rank: "links_down m rank" and same: "\<And>y. y \<noteq> n \<Longrightarrow> shape (fdTable t') y = shape m y"
    and m: "m = fdTable t" and free: "dups m n = {}" and x: "x \<in> dom m" "x \<noteq> n"
  shows "getRealNonDupped x t' = getRealNonDupped x t"
  using x
proof (induction "rank x" arbitrary: x rule: less_induct)
  case less
  obtain e e' where e: "m x = Some e" "fdTable t' x = Some e'" "fd_mode e' = fd_mode e" "fd_driveID e' = fd_driveID e"
    using less.prems same [OF less.prems(2)] by (auto simp: shape_def)
  show ?case
  proof (cases "fd_mode e = DUPPED")
    case True
    then have "rank (fd_driveID e) < rank x" "fd_driveID e \<in> dom m" "fd_driveID e \<noteq> n"
      using rank e(1) free by (auto simp: links_down_def dups_def)
    then have "getRealNonDupped (fd_driveID e) t' = getRealNonDupped (fd_driveID e) t"
      using less.hyps by blast
    then show ?thesis
      using e True m by (subst (1 2) getRealNonDupped.simps) (simp add: getItr_def)
  next
    case False
    then show ?thesis using e m by (subst (1 2) getRealNonDupped.simps) (simp add: getItr_def)
  qed
qed

section \<open>Properties\<close>

text \<open>C28: take any run of opening, closing, seeking, \<open>dup2\<close> and the set-up of standard descriptors,
  each failing or not, in which no file was opened with the mode 100 that marks duplicates (the code
  does not refuse it). In the table it reaches the chains of duplicated descriptors are acyclic and
  every link leads to an open descriptor, so \<open>getRealNonDupped\<close> ends, for every open descriptor,
  at an open descriptor that is not a duplicate; and a descriptor's reference count is larger
  than the number of its duplicates.\<close>

theorem open_descriptors_resolve:
  assumes "fd_run K t ms" "DUPPED \<notin> set ms" "O_RDWR K \<noteq> DUPPED" "fdTable t fd = Some e"
  shows "(\<exists>r f. getRealNonDupped fd t = Some (Inr r) \<and> fdTable t r = Some f \<and> fd_mode f \<noteq> DUPPED) \<and>
    int (card {d. \<exists>x. fdTable t d = Some x \<and> fd_mode x = DUPPED \<and> fd_driveID x = fd}) < fd_refCount e"
proof -
  have ok: "fd_ok t" by (rule fd_run_ok [OF assms(1-3)])
  then obtain rank where "links_down (fdTable t) rank" by (auto simp: fd_ok_iff)
  then show ?thesis
    using getRealNonDupped_ends [of t rank fd] ok assms(4) by (auto simp: fd_ok_iff counted_def dups_def)
qed

definition sample_consts :: fs_consts where
  "sample_consts = \<lparr>O_RDWR = 4, O_APPEND = 8, SEEK_SET = 0, SEEK_CUR = 1, SEEK_END = 2\<rparr>"

lemma sample_table: "FileDescriptorTable sample_consts = \<lparr>fdIdCounter = 3,
    fdTable = [0 \<mapsto> FileDescriptor sample_consts [] 4 1101 0 0, 1 \<mapsto> FileDescriptor sample_consts [] 4 1102 0 0,
      2 \<mapsto> FileDescriptor sample_consts [] 4 1103 0 0]\<rparr>"
  by (simp add: FileDescriptorTable_def fd_allocate_def Let_def sample_consts_def)

text \<open>The table after the standard output was made a duplicate of the standard input.\<close>

lemma sample_dup2:
  "\<exists>t e. fd_run sample_consts t [] \<and> fdTable t 0 = Some e \<and> fd_refCount e = 2 \<and>
     (\<exists>d. fdTable t 1 = Some d \<and> fd_mode d = DUPPED \<and> fd_driveID d = 0)"
proof -
  let ?t = "FileDescriptorTable sample_consts"
  have "\<exists>t e. dup2 sample_consts 0 1 ?t = Some (Inr (), t) \<and> fdTable t 0 = Some e \<and> fd_refCount e = 2 \<and>
     (\<exists>d. fdTable t 1 = Some d \<and> fd_mode d = DUPPED \<and> fd_driveID d = 0)"
    by (simp add: sample_table dup2_def getItr_def fd_free_def incrementRefCount_def Let_def)
  then show ?thesis using fd_run.dup2 [OF fd_run.start, of sample_consts 0 1] by blast
qed

theorem open_descriptors_resolve_witness:
  "\<exists>t e. fdTable t 0 = Some e \<and> fd_refCount e = 2 \<and>
     (\<exists>r f. getRealNonDupped 1 t = Some (Inr r) \<and> fdTable t r = Some f \<and> fd_mode f \<noteq> DUPPED)"
proof -
  obtain t e d where t: "fd_run sample_consts t []" "fdTable t 0 = Some e" "fd_refCount e = 2"
      "fdTable t 1 = Some d"
    using sample_dup2 by blast
  have "O_RDWR sample_consts \<noteq> DUPPED" by (simp add: sample_consts_def)
  then show ?thesis using open_descriptors_resolve [OF t(1) _ _ t(4)] t(2,3) by auto
qed

text \<open>What the exclusion is for: a file opened with mode 100 on drive \<open>dr\<close> passes for a duplicate of
  descriptor number \<open>dr\<close> and is read and written through that one.\<close>

lemma mode_100_is_another_descriptor:
  assumes "fd_allocate K n DUPPED dr sz st t = (Inr fd, t')"
  shows "getRealNonDupped fd t' = getRealNonDupped dr t'"
  using assms by (subst getRealNonDupped.simps)
    (auto simp: fd_allocate_def getItr_def Let_def split: if_splits)

text \<open>\<open>dup2\<close> of different descriptors, when it succeeds and the new descriptor does not carry the
  reserved drive id, makes the new descriptor resolve to what the old one resolved to, and
  leaves the resolution of every other descriptor as it was.\<close>

theorem dup2_shares_descriptor:
  assumes "fd_run K t ms" "DUPPED \<notin> set ms" "O_RDWR K \<noteq> DUPPED" "oldFD \<noteq> newFD" "dup2 K oldFD newFD t = Some (Inr (), t')"
    "fdTable t newFD = Some e" "fd_driveID e \<noteq> PROC_FREE_FD"
  shows "getRealNonDupped newFD t' = getRealNonDupped oldFD t \<and> getRealNonDupped newFD t' \<noteq> None \<and>
    (\<forall>fd \<in> dom (fdTable t) - {newFD}. getRealNonDupped fd t' = getRealNonDupped fd t)"
proof -
  have ok: "fd_ok t" by (rule fd_run_ok [OF assms(1-3)])
  have d: "oldFD \<in> dom (fdTable t)" "dups (fdTable t) newFD = {}"
      "shape (fdTable t') = (shape (fdTable t))(newFD \<mapsto> (DUPPED, oldFD))"
    by (rule dup2_cases [OF ok assms(4), of K]; use assms(5-7) in auto)+
  obtain rank where rank: "links_down (fdTable t) rank" using ok by (auto simp: fd_ok_iff)
  have same: "getRealNonDupped fd t' = getRealNonDupped fd t" if "fd \<in> dom (fdTable t)" "fd \<noteq> newFD" for fd
    using getReal_same [OF rank _ refl d(2) that, of t'] d(3) by simp
  have "shape (fdTable t') newFD = Some (DUPPED, oldFD)" using d(3) by (simp only: fun_upd_same)
  then have "getRealNonDupped newFD t' = getRealNonDupped oldFD t'"
    by (subst getRealNonDupped.simps) (auto simp: shape_def getItr_def)
  then show ?thesis
    using same [OF d(1) assms(4)] same getRealNonDupped_ends [OF rank d(1)] by auto
qed

theorem dup2_shares_descriptor_witness:
  "\<exists>t'. dup2 sample_consts 1 2 (FileDescriptorTable sample_consts) = Some (Inr (), t') \<and>
    getRealNonDupped 2 t' = getRealNonDupped 1 (FileDescriptorTable sample_consts) \<and> getRealNonDupped 2 t' \<noteq> None \<and>
    (\<forall>fd \<in> dom (fdTable (FileDescriptorTable sample_consts)) - {2}.
       getRealNonDupped fd t' = getRealNonDupped fd (FileDescriptorTable sample_consts))"
proof -
  have "\<exists>t'. dup2 sample_consts 1 2 (FileDescriptorTable sample_consts) = Some (Inr (), t')"
    by (simp add: sample_table dup2_def getItr_def fd_free_def Let_def)
  then obtain t' where r: "dup2 sample_consts 1 2 (FileDescriptorTable sample_consts) = Some (Inr (), t')" by blast
  have "DUPPED \<notin> set []" "O_RDWR sample_consts \<noteq> DUPPED" "(1 :: int) \<noteq> 2"
    "fdTable (FileDescriptorTable sample_consts) 2 = Some (FileDescriptor sample_consts [] 4 1103 0 0)"
    "fd_driveID (FileDescriptor sample_consts [] 4 1103 0 0) \<noteq> PROC_FREE_FD"
    by (simp_all add: sample_table) (simp add: sample_consts_def)
  with dup2_shares_descriptor [OF fd_run.start _ _ _ r] r show ?thesis by blast
qed

text \<open>\<open>dup2\<close> of a descriptor on itself, which should do nothing, deletes the descriptor it holds a
  reference to and then uses it.\<close>

theorem dup2_of_itself_is_undefined:
  assumes "fd_run K t ms" "DUPPED \<notin> set ms" "O_RDWR K \<noteq> DUPPED" "fdTable t fd = Some e" "fd_refCount e \<le> 1"
    "fd_driveID e \<noteq> PROC_FREE_FD"
  shows "dup2 K fd fd t = None"
proof -
  obtain m where m: "fd_free fd t = (Inr (), t\<lparr>fdTable := m\<rparr>)" "shape m = (shape (fdTable t))(fd := None)"
    using fd_free_spec [OF fd_run_ok [OF assms(1-3)] assms(4,5)] by blast
  have "shape m fd = None" by (simp only: m(2) fun_upd_same)
  then show ?thesis using assms(4,6) m(1) by (simp add: dup2_def getItr_def)
qed

theorem dup2_of_itself_is_undefined_witness:
  "dup2 sample_consts 1 1 (FileDescriptorTable sample_consts) = None"
  by (rule dup2_of_itself_is_undefined [OF fd_run.start, where e = "FileDescriptor sample_consts [] 4 1102 0 0"])
    (simp_all add: sample_table, simp add: sample_consts_def)

end
