(* ===== verification/ProcEnv.thy ===== *)
theory ProcEnv
  imports Prelude
begin

text \<open>
  The environment page of a process, \<open>process/ProcessEnv.cpp\<close>: sixteen entries of a name of up to
  55 and a value of up to 199 characters. A \<open>strcpy\<close> that does not fit is undefined. The placing of
  the page in the address space and its mutex are not modelled.
\<close>

section \<open>The code\<close>

record env_entry =
  ee_Var :: string
  ee_Val :: string

type_synonym env = "env_entry list"

abbreviation (input) NO_OF_ENVS :: nat where "NO_OF_ENVS \<equiv> 16"

datatype env_status = ProcessEnv_SUCCESS | ProcessEnv_ERR_FULL

text \<open>The first entry that satisfies the condition, the loop \<open>for(i = 0; i < NO_OF_ENVS; i++)\<close>.\<close>

fun first_env :: "(env_entry \<Rightarrow> bool) \<Rightarrow> env \<Rightarrow> nat option" where
  "first_env P [] = None"
| "first_env P (e # es) = (if P e then Some 0 else map_option Suc (first_env P es))"

definition ProcessEnv_Get :: "string \<Rightarrow> env \<Rightarrow> string option" where
  "ProcessEnv_Get szEnvVar env =
     (case first_env (\<lambda>e. ee_Var e = szEnvVar) env of None \<Rightarrow> None | Some i \<Rightarrow> Some (ee_Val (env ! i)))"

definition ProcessEnv_Set :: "string \<Rightarrow> string \<Rightarrow> env \<Rightarrow> (env_status \<times> env) option" where
  "ProcessEnv_Set szEnvVar szEnvValue env =
     (case first_env (\<lambda>e. ee_Var e = szEnvVar) env of
        Some i \<Rightarrow>
          if 200 \<le> length szEnvValue then None
          else Some (ProcessEnv_SUCCESS, env[i := (env ! i)\<lparr>ee_Val := szEnvValue\<rparr>])
      | None \<Rightarrow>
          case first_env (\<lambda>e. ee_Val e = []) env of
            Some i \<Rightarrow>
              if 56 \<le> length szEnvVar \<or> 200 \<le> length szEnvValue then None
              else Some (ProcessEnv_SUCCESS, env[i := \<lparr>ee_Var = szEnvVar, ee_Val = szEnvValue\<rparr>])
          | None \<Rightarrow> Some (ProcessEnv_ERR_FULL, env))"

text \<open>\<open>ProcessEnv_InitializeForKernelProcess\<close> clears the values, not the names, of a page with
  contents \<open>env\<close>.\<close>

definition ProcessEnv_InitializeForKernelProcess :: "env \<Rightarrow> (env_status \<times> env) option" where
  "ProcessEnv_InitializeForKernelProcess env = ProcessEnv_Set ''PWD'' ''/'' (map (\<lambda>e. e\<lparr>ee_Val := []\<rparr>) env)"

section \<open>Lookups\<close>

lemma first_env_Some: "first_env P env = Some i \<Longrightarrow> i < length env \<and> P (env ! i) \<and> (\<forall>j<i. \<not> P (env ! j))"
proof (induction env arbitrary: i)
  case (Cons e es)
  then show ?case by (cases i) (auto split: if_splits simp: less_Suc_eq_0_disj)
qed simp

lemma first_env_None: "first_env P env = None \<longleftrightarrow> (\<forall>e \<in> set env. \<not> P e)"
  by (induction env) auto

lemma first_env_update_other:
  assumes "P e = P (env ! i)" "i < length env"
  shows "first_env P (env[i := e]) = first_env P env"
  using assms
proof (induction env arbitrary: i)
  case (Cons x xs)
  then show ?case by (cases i) auto
qed simp

lemma first_env_hit:
  "P e \<Longrightarrow> i < length env \<Longrightarrow> \<forall>j<i. \<not> P (env ! j) \<Longrightarrow> first_env P (env[i := e]) = Some i"
proof (induction env arbitrary: i)
  case (Cons x xs)
  show ?case
  proof (cases i)
    case (Suc k)
    then have "\<forall>j<k. \<not> P (xs ! j)" using Cons.prems(3) by auto
    then show ?thesis using Suc Cons.prems Cons.IH [of k] by auto
  qed (use Cons in simp)
qed simp

lemma first_env_skip:
  "first_env P env = Some j \<Longrightarrow> j \<noteq> i \<Longrightarrow> \<not> P e \<Longrightarrow> first_env P (env[i := e]) = Some j"
proof (induction env arbitrary: i j)
  case (Cons x xs)
  then show ?case by (cases i) (auto split: if_splits)
qed simp

text \<open>C40: A successful \<open>ProcessEnv_Set\<close> makes the variable read back with the new value, and every other
  variable that had a non-empty value keeps it, whether an entry was changed or a free one taken. (An
  entry with an empty value counts as free: its variable may disappear.)\<close>

theorem environment_set_get:
  assumes "ProcessEnv_Set v x env = Some (ProcessEnv_SUCCESS, env')" "w \<noteq> v"
    "ProcessEnv_Get w env = Some y" "y \<noteq> []"
  shows "ProcessEnv_Get v env' = Some x \<and> ProcessEnv_Get w env' = Some y \<and> length env' = length env"
proof -
  obtain j where j: "first_env (\<lambda>e. ee_Var e = w) env = Some j" "ee_Val (env ! j) = y"
    using assms(3) by (auto simp: ProcessEnv_Get_def split: option.splits)
  note jw = first_env_Some [OF j(1)]
  show ?thesis
  proof (cases "first_env (\<lambda>e. ee_Var e = v) env")
    case (Some i)
    have e': "env' = env[i := (env ! i)\<lparr>ee_Val := x\<rparr>]"
      using assms(1) Some by (auto simp: ProcessEnv_Set_def split: if_splits)
    note iv = first_env_Some [OF Some]
    then have "i \<noteq> j" using jw assms(2) by auto
    then show ?thesis
      using iv jw j Some by (simp add: ProcessEnv_Get_def e' first_env_update_other)
  next
    case None
    obtain i where i: "first_env (\<lambda>e. ee_Val e = []) env = Some i" "env' = env[i := \<lparr>ee_Var = v, ee_Val = x\<rparr>]"
      using assms(1) None by (auto simp: ProcessEnv_Set_def split: option.splits if_splits)
    note iv = first_env_Some [OF i(1)]
    have ne: "j \<noteq> i" using iv j(2) assms(4) by auto
    have "\<forall>k<i. ee_Var (env ! k) \<noteq> v" using None iv by (simp add: first_env_None)
    then have "first_env (\<lambda>e. ee_Var e = v) env' = Some i" unfolding i(2) using iv by (intro first_env_hit) auto
    moreover have "first_env (\<lambda>e. ee_Var e = w) env' = Some j"
      unfolding i(2) using ne assms(2) by (intro first_env_skip [OF j(1)]) auto
    ultimately show ?thesis using ne iv j(2) by (simp add: ProcessEnv_Get_def i(2))
  qed
qed

theorem environment_set_get_witness:
  "ProcessEnv_Get ''PWD'' [\<lparr>ee_Var = ''PATH'', ee_Val = ''/bin''\<rparr>, \<lparr>ee_Var = ''PWD'', ee_Val = ''/''\<rparr>] = Some ''/'' \<and>
   ProcessEnv_Get ''PATH'' [\<lparr>ee_Var = ''PATH'', ee_Val = ''/bin''\<rparr>, \<lparr>ee_Var = ''PWD'', ee_Val = ''/''\<rparr>] = Some ''/bin'' \<and>
   length [\<lparr>ee_Var = ''PATH'', ee_Val = ''/bin''\<rparr>, \<lparr>ee_Var = ''PWD'', ee_Val = ''/''\<rparr>] =
   length [\<lparr>ee_Var = ''PATH'', ee_Val = ''/bin''\<rparr>, \<lparr>ee_Var = [], ee_Val = []\<rparr>]"
  by (rule environment_set_get [of "''PWD''" "''/''" "[\<lparr>ee_Var = ''PATH'', ee_Val = ''/bin''\<rparr>, \<lparr>ee_Var = [], ee_Val = []\<rparr>]"])
    (simp_all add: ProcessEnv_Set_def ProcessEnv_Get_def)

end
