(* ===== verification/Effects.thy ===== *)
theory Effects
  imports Prelude
begin

text \<open>
  Operations that change a state, may throw and may run into undefined behaviour:
  \<open>('s, 'e, 'a) eff\<close> maps a state to \<open>None\<close> (undefined), or to a thrown error or a value together
  with the new state. The file system components are written with these combinators, in the order
  of the statements of the code.

  \<open>wp u m Q X s\<close> says that \<open>m\<close> run in \<open>s\<close> ends with a value for which \<open>Q\<close> holds or throws with
  \<open>X\<close>; an undefined run counts as \<open>u\<close>. The rules of the collection \<open>wp_rules\<close> compute it.
\<close>

type_synonym ('s, 'e, 'a) eff = "'s \<Rightarrow> (('e + 'a) \<times> 's) option"

definition yield :: "'a \<Rightarrow> ('s, 'e, 'a) eff" where
  "yield x s = Some (Inr x, s)"

definition throw :: "'e \<Rightarrow> ('s, 'e, 'a) eff" where
  "throw e s = Some (Inl e, s)"

definition undef :: "('s, 'e, 'a) eff" where
  "undef s = None"

definition and_then :: "('s, 'e, 'a) eff \<Rightarrow> ('a \<Rightarrow> ('s, 'e, 'b) eff) \<Rightarrow> ('s, 'e, 'b) eff" where
  "and_then m f s = (case m s of
     None \<Rightarrow> None | Some (Inl e, t) \<Rightarrow> Some (Inl e, t) | Some (Inr x, t) \<Rightarrow> f x t)"

definition then_do :: "('s, 'e, 'a) eff \<Rightarrow> ('s, 'e, 'b) eff \<Rightarrow> ('s, 'e, 'b) eff" where
  "then_do m k = and_then m (\<lambda>_. k)"

definition gets :: "('s \<Rightarrow> 'a) \<Rightarrow> ('s, 'e, 'a) eff" where
  "gets f s = Some (Inr (f s), s)"

definition modify :: "('s \<Rightarrow> 's) \<Rightarrow> ('s, 'e, unit) eff" where
  "modify f s = Some (Inr (), f s)"

definition catch :: "('s, 'e, 'a) eff \<Rightarrow> ('e \<Rightarrow> ('s, 'e, 'a) eff) \<Rightarrow> ('s, 'e, 'a) eff" where
  "catch m h s = (case m s of
     None \<Rightarrow> None | Some (Inl e, t) \<Rightarrow> h e t | Some (Inr x, t) \<Rightarrow> Some (Inr x, t))"

definition only_if :: "bool \<Rightarrow> ('s, 'e, unit) eff \<Rightarrow> ('s, 'e, unit) eff" where
  "only_if b m = (if b then m else yield ())"

text \<open>\<open>steps\<close> runs an operation for every element of a list, the loop \<open>for(x : xs)\<close> without exits.\<close>

fun steps :: "('a \<Rightarrow> ('s, 'e, unit) eff) \<Rightarrow> 'a list \<Rightarrow> ('s, 'e, unit) eff" where
  "steps f [] = yield ()"
| "steps f (x # xs) = then_do (f x) (steps f xs)"

text \<open>An operation on a part of the state, and one whose errors are wrapped.\<close>

definition zoom :: "('s \<Rightarrow> 't) \<Rightarrow> ('t \<Rightarrow> 's \<Rightarrow> 's) \<Rightarrow> ('t, 'e, 'a) eff \<Rightarrow> ('s, 'e, 'a) eff" where
  "zoom get put m s = (case m (get s) of None \<Rightarrow> None | Some (r, t) \<Rightarrow> Some (r, put t s))"

definition wrap_error :: "('e \<Rightarrow> 'f) \<Rightarrow> ('s, 'e, 'a) eff \<Rightarrow> ('s, 'f, 'a) eff" where
  "wrap_error f m s = (case m s of None \<Rightarrow> None | Some (Inl e, t) \<Rightarrow> Some (Inl (f e), t) | Some (Inr x, t) \<Rightarrow> Some (Inr x, t))"

text \<open>\<open>the_or m\<close> takes the value of an option, or does \<open>m\<close>, which does not give one.\<close>

definition the_or :: "('s, 'e, 'a) eff \<Rightarrow> 'a option \<Rightarrow> ('s, 'e, 'a) eff" where
  "the_or m x = (case x of None \<Rightarrow> m | Some y \<Rightarrow> yield y)"

section \<open>Running\<close>

lemma run_gets: "and_then (gets f) k s = k (f s) s"
  by (simp add: and_then_def gets_def)

lemma run_then: "and_then (yield x) k s = k x s" "and_then (modify h) k' s = k' () (h s)" "then_do m' n s = and_then m' (\<lambda>_. n) s"
  "and_then (and_then m f) g s = and_then m (\<lambda>x. and_then (f x) g) s"
  "and_then (then_do m' n) g' s = and_then m' (\<lambda>_. and_then n g') s"
  by (auto simp: and_then_def yield_def modify_def then_do_def split: option.split sum.split)

lemma run_step: "m s = Some (Inr x, t) \<Longrightarrow> and_then m k s = k x t"
  by (simp add: and_then_def)

section \<open>Preconditions\<close>

definition wp :: "bool \<Rightarrow> ('s, 'e, 'a) eff \<Rightarrow> ('a \<Rightarrow> 's \<Rightarrow> bool) \<Rightarrow> ('e \<Rightarrow> 's \<Rightarrow> bool) \<Rightarrow> 's \<Rightarrow> bool" where
  "wp u m Q X s = (case m s of None \<Rightarrow> u | Some (Inl e, t) \<Rightarrow> X e t | Some (Inr x, t) \<Rightarrow> Q x t)"

named_theorems wp_rules \<open>preconditions of the combinators\<close>

lemma wp_yield [wp_rules]: "wp u (yield x) Q X = Q x"
  by (simp add: wp_def yield_def fun_eq_iff)

lemma wp_throw [wp_rules]: "wp u (throw e) Q X = X e"
  by (simp add: wp_def throw_def fun_eq_iff)

lemma wp_undef [wp_rules]: "wp u undef Q X = (\<lambda>s. u)"
  by (simp add: wp_def undef_def fun_eq_iff)

lemma wp_gets [wp_rules]: "wp u (gets f) Q X = (\<lambda>s. Q (f s) s)"
  by (simp add: wp_def gets_def fun_eq_iff)

lemma wp_modify [wp_rules]: "wp u (modify f) Q X = (\<lambda>s. Q () (f s))"
  by (simp add: wp_def modify_def fun_eq_iff)

lemma wp_and_then [wp_rules]: "wp u (and_then m f) Q X = wp u m (\<lambda>x. wp u (f x) Q X) X"
  by (auto simp: wp_def and_then_def fun_eq_iff split: option.splits sum.splits prod.splits)

lemma wp_then_do [wp_rules]: "wp u (then_do m k) Q X = wp u m (\<lambda>_. wp u k Q X) X"
  by (simp add: then_do_def wp_and_then)

lemma wp_catch [wp_rules]: "wp u (catch m h) Q X = wp u m Q (\<lambda>e. wp u (h e) Q X)"
  by (auto simp: wp_def catch_def fun_eq_iff split: option.splits sum.splits prod.splits)

lemma wp_if [wp_rules]: "wp u (if b then m else k) Q X s = (if b then wp u m Q X s else wp u k Q X s)"
  by simp

lemma wp_only_if [wp_rules]: "wp u (only_if b m) Q X s = (if b then wp u m Q X s else Q () s)"
  by (simp add: only_if_def wp_yield)

lemma wp_zoom [wp_rules]:
  "wp u (zoom g p m) Q X = (\<lambda>s. wp u m (\<lambda>x t. Q x (p t s)) (\<lambda>e t. X e (p t s)) (g s))"
  by (auto simp: wp_def zoom_def fun_eq_iff split: option.splits sum.splits prod.splits)

lemma wp_wrap_error [wp_rules]: "wp u (wrap_error f m) Q X = wp u m Q (\<lambda>e. X (f e))"
  by (auto simp: wp_def wrap_error_def fun_eq_iff split: option.splits sum.splits prod.splits)

lemma wp_the_or [wp_rules]: "wp u (the_or m x) Q X s = (case x of None \<Rightarrow> wp u m Q X s | Some y \<Rightarrow> Q y s)"
  by (simp add: the_or_def wp_yield split: option.split)

lemma wp_mono:
  assumes "wp u m Q X s" "\<And>x t. Q x t \<Longrightarrow> Q' x t" "\<And>e t. X e t \<Longrightarrow> X' e t" "u \<Longrightarrow> u'"
  shows "wp u' m Q' X' s"
  using assms by (auto simp: wp_def split: option.splits sum.splits)

lemma wp_conj:
  "wp u m Q X s \<Longrightarrow> wp u' m Q' X' s \<Longrightarrow> wp (u \<and> u') m (\<lambda>x t. Q x t \<and> Q' x t) (\<lambda>e t. X e t \<and> X' e t) s"
  by (auto simp: wp_def split: option.splits sum.splits)

lemma wp_result: "wp u m Q X s \<Longrightarrow> m s = Some (Inr x, t) \<Longrightarrow> Q x t"
  by (simp add: wp_def)

lemma wp_error: "wp u m Q X s \<Longrightarrow> m s = Some (Inl e, t) \<Longrightarrow> X e t"
  by (simp add: wp_def)

lemma wp_outcome:
  "wp False m Q X s \<longleftrightarrow> (\<exists>e t. m s = Some (Inl e, t) \<and> X e t) \<or> (\<exists>x t. m s = Some (Inr x, t) \<and> Q x t)"
  by (auto simp: wp_def split: option.splits sum.splits prod.splits)

lemma wp_returns: "wp False m Q (\<lambda>_ _. False) s \<longleftrightarrow> (\<exists>x t. m s = Some (Inr x, t) \<and> Q x t)"
  by (simp add: wp_outcome)

lemma wp_defined: "wp False m Q X s \<Longrightarrow> m s \<noteq> None"
  by (cases "m s") (simp_all add: wp_def)

text \<open>The loop rule: \<open>I i\<close> holds before element \<open>i\<close>.\<close>

lemma wp_steps:
  assumes "I 0 s" "\<And>i t. i < length xs \<Longrightarrow> I i t \<Longrightarrow> wp u (f (xs ! i)) (\<lambda>_. I (Suc i)) X t"
    "\<And>t. I (length xs) t \<Longrightarrow> Q () t"
  shows "wp u (steps f xs) Q X s"
  using assms
proof (induction xs arbitrary: s I)
  case Nil
  then show ?case by (simp add: wp_yield)
next
  case (Cons x xs)
  have first: "wp u (f x) (\<lambda>_. I (Suc 0)) X s" using Cons.prems(2) [of 0 s] Cons.prems(1) by simp
  have rest: "wp u (steps f xs) Q X t" if "I (Suc 0) t" for t
  proof (rule Cons.IH [where I = "\<lambda>i. I (Suc i)"])
    show "I (Suc 0) t" by (rule that)
    show "wp u (f (xs ! i)) (\<lambda>_. I (Suc (Suc i))) X t" if "i < length xs" "I (Suc i) t" for i t
      using Cons.prems(2) [of "Suc i" t] that by simp
    show "Q () t" if "I (Suc (length xs)) t" for t using Cons.prems(3) [of t] that by simp
  qed
  show ?case unfolding steps.simps wp_then_do by (rule wp_mono [OF first]) (use rest in auto)
qed

end
