(* ===== verification/BlockDev.thy ===== *)
theory BlockDev
  imports Prelude
begin

text \<open>
  The contract between the file system and the drive below it: sectors are read and written
  through \<open>DiskDrive::Read\<close> and \<open>DiskDrive::Write\<close>, and whatever caching the drive does, the
  contents seen through these calls behave like an array of sectors.

  The operations take the caller's buffer, a list of sectors, and give a status, the buffer
  and the new drive. \<open>None\<close> is an undefined behaviour of the drive (a use of a freed cache
  entry). The capacity bounds the sector numbers for which the addresses do not wrap.
\<close>

type_synonym sector = "u8 list"

datatype drive_error = DeviceFault | InvalidDeviceType

record 'd block_io =
  io_read :: "u32 \<Rightarrow> u32 \<Rightarrow> sector list \<Rightarrow> 'd \<Rightarrow> ((drive_error + unit) \<times> sector list \<times> 'd) option"
  io_write :: "u32 \<Rightarrow> u32 \<Rightarrow> sector list \<Rightarrow> 'd \<Rightarrow> ((drive_error + unit) \<times> 'd) option"

text \<open>\<open>overwrite f s xs\<close>: the sectors from \<open>s\<close> on hold \<open>xs\<close>.\<close>

definition overwrite :: "(u32 \<Rightarrow> 'a) \<Rightarrow> u32 \<Rightarrow> 'a list \<Rightarrow> u32 \<Rightarrow> 'a" where
  "overwrite f s xs x =
     (if unat s \<le> unat x \<and> unat x - unat s < length xs then xs ! (unat x - unat s) else f x)"

lemma overwrite_one: "overwrite f s [b] = f(s := b)"
  by (auto simp: overwrite_def fun_eq_iff) (metis diff_is_0_eq' le_antisym unsigned_word_eqI)

lemma overwrite_outside: "\<not> (unat s \<le> unat x \<and> unat x < unat s + length buf) \<Longrightarrow> overwrite f s buf x = f x"
  by (auto simp: overwrite_def)

text \<open>A range of sectors seen from the start \<open>l\<close> of a partition.\<close>

lemma overwrite_moved:
  assumes r: "unat s + unat l + length buf < 4294967296"
  shows "overwrite f (s + l) buf (x + l) = overwrite (\<lambda>y. f (y + l)) s buf x"
proof -
  have s: "unat (s + l) = unat s + unat l" using r by (intro unat_add_no_wrap) simp
  show ?thesis
  proof (cases "unat x + unat l < 4294967296")
    case True
    then have "unat (x + l) = unat x + unat l" by (intro unat_add_no_wrap) simp
    then show ?thesis by (simp add: overwrite_def s)
  next
    case False
    have "unat (x + l) = (unat x + unat l) mod 4294967296"
      using unat_word_ariths(1) [of x l] by simp
    also have "\<dots> = (unat x + unat l - 4294967296) mod 4294967296"
      using False by (intro le_mod_geq) simp
    also have "\<dots> = unat x + unat l - 4294967296"
      using u32_unat_bound [of x] u32_unat_bound [of l] by (intro mod_less) linarith
    finally have "unat (x + l) < unat (s + l)" using s u32_unat_bound [of x] False by linarith
    moreover have "\<not> unat x < unat s + length buf" using False r by linarith
    ultimately show ?thesis by (subst (1 2) overwrite_outside) simp_all
  qed
qed

definition in_range :: "u32 \<Rightarrow> u32 \<Rightarrow> u32 \<Rightarrow> bool" where
  "in_range s n x \<longleftrightarrow> unat s \<le> unat x \<and> unat x < unat s + unat n"

locale block_device =
  fixes io :: "'d block_io"
    and ok :: "'d \<Rightarrow> bool"
    and contents :: "'d \<Rightarrow> u32 \<Rightarrow> sector"
    and capacity :: nat
  assumes read_law: "ok d \<Longrightarrow> unat s + unat n \<le> capacity \<Longrightarrow> length buf = unat n \<Longrightarrow>
      io_read io s n buf d = Some (r, buf', d') \<Longrightarrow>
      ok d' \<and> contents d' = contents d \<and>
      (r = Inr () \<longrightarrow> buf' = map (\<lambda>i. contents d (s + of_nat i)) [0..<unat n])"
    and write_law: "ok d \<Longrightarrow> unat s + unat n \<le> capacity \<Longrightarrow> length buf = unat n \<Longrightarrow>
      io_write io s n buf d = Some (r, d') \<Longrightarrow>
      ok d' \<and> (r = Inr () \<longrightarrow> contents d' = overwrite (contents d) s buf) \<and>
      (\<forall>x. contents d' x = contents d x \<or> in_range s n x \<and> contents d' x = overwrite (contents d) s buf x)"
    and read_one_defined: "ok d \<Longrightarrow> unat s + 1 \<le> capacity \<Longrightarrow> io_read io s 1 [b] d \<noteq> None"
    and write_one_defined: "ok d \<Longrightarrow> unat s + 1 \<le> capacity \<Longrightarrow> io_write io s 1 [b] d \<noteq> None"

context block_device
begin

lemma read_one:
  assumes "ok d" "unat s < capacity"
  obtains e bs d' where "io_read io s 1 [b] d = Some (Inl e, bs, d')" "ok d'" "contents d' = contents d"
      | d' where "io_read io s 1 [b] d = Some (Inr (), [contents d s], d')" "ok d'" "contents d' = contents d"
proof -
  obtain r bs d' where r: "io_read io s 1 [b] d = Some (r, bs, d')"
    using read_one_defined [of d s b] assms by (cases "io_read io s 1 [b] d") auto
  show ?thesis
  proof (cases r)
    case (Inl e)
    then show ?thesis using that(1) r read_law [OF assms(1) _ _ r] assms(2) by auto
  next
    case (Inr u)
    then show ?thesis using that(2) r read_law [OF assms(1) _ _ r] assms(2) by auto
  qed
qed

lemma write_one:
  assumes "ok d" "unat s < capacity"
  obtains e d' where "io_write io s 1 [b] d = Some (Inl e, d')" "ok d'"
        "contents d' = contents d \<or> contents d' = (contents d)(s := b)"
      | d' where "io_write io s 1 [b] d = Some (Inr (), d')" "ok d'" "contents d' = (contents d)(s := b)"
proof -
  obtain r d' where r: "io_write io s 1 [b] d = Some (r, d')"
    using write_one_defined [of d s b] assms by (cases "io_write io s 1 [b] d") auto
  have law: "ok d' \<and> (r = Inr () \<longrightarrow> contents d' = overwrite (contents d) s [b]) \<and>
      (\<forall>x. contents d' x = contents d x \<or> in_range s 1 x \<and> contents d' x = overwrite (contents d) s [b] x)"
    using write_law [OF assms(1) _ _ r] assms(2) by simp
  show ?thesis
  proof (cases r)
    case (Inl e)
    have "contents d' = contents d \<or> contents d' = (contents d)(s := b)"
    proof (cases "contents d' s = contents d s")
      case True
      have "contents d' x = contents d x" for x
        using law True by (cases "x = s") (auto simp: overwrite_one)
      then show ?thesis by blast
    next
      case False
      have "contents d' x = ((contents d)(s := b)) x" for x
        using law False by (cases "x = s") (auto simp: overwrite_one)
      then show ?thesis by blast
    qed
    then show ?thesis using that(1) r Inl law by blast
  next
    case (Inr u)
    then show ?thesis using that(2) r law by (simp add: overwrite_one)
  qed
qed

end

end
