(* ===== verification/FsTable.thy ===== *)
theory FsTable
  imports Effects BlockDev
begin

text \<open>
  The file system of a drive, \<open>filesystem/FileSystem.cpp\<close>: the boot block, formatting and
  mounting checks, the file system table with its write-back cache of table sectors, the pool of
  free sectors, allocation and release of sectors, and the directory nodes.

  The state is \<open>'d fsys\<close>, with the drive below as the component \<open>fs_dev\<close>, read and written through
  a \<open>block_io\<close>. A table sector is 128 entries of 32 bits, stored little endian. The layout of a
  node in a sector is that of \<open>struct FS_Node\<close> of the C library's \<open>fs.h\<close>, which is not part of
  the repository: it is the argument \<open>C\<close>, a \<open>node_codec\<close>; the attribute constants are \<open>A\<close>.
  Buffers on the stack that are filled by a read start as zeros here; a buffer whose old contents
  reach the disk is an argument.
\<close>

section \<open>The code\<close>

datatype fs_error =
    DriveError drive_error
  | InvalidBpbSignature
  | InvalidBootSignature
  | InvalidTotSec32
  | InvalidFSTableSize
  | InvalidBytesPerSec
  | InvalidJmpBoot
  | InvalidMedia
  | InvalidExtFlags
  | InvalidFSVer
  | InvalidFSInfo
  | InvalidVolID
  | NoFreeSectors
  | InvalidClusterId u32
  | NotInCache u32
  | AlreadyMounted
  | NotMounted

abbreviation (input) EOC :: u32 where "EOC \<equiv> 0x0FFFFFFF"
abbreviation (input) ENTRIES_PER_TABLE_SECTOR :: nat where "ENTRIES_PER_TABLE_SECTOR \<equiv> 128"
abbreviation (input) MAX_SECTORS_IN_TABLE_CACHE :: nat where "MAX_SECTORS_IN_TABLE_CACHE \<equiv> 2048"

definition BLOCK_ID :: "u32 \<Rightarrow> u32" where
  "BLOCK_ID SectorID = SectorID div 128"

definition BLOCK_OFFSET :: "u32 \<Rightarrow> u32" where
  "BLOCK_OFFSET SectorID = SectorID mod 128"

record sector_block_entry =
  sb_sectorBlock :: "u32 list"
  sb_blockId :: u32
  sb_readCount :: u32
  sb_writeCount :: u32

record boot_block =
  BPB_jmpBoot :: "u8 list"
  BPB_Media :: u8
  BPB_SecPerTrk :: u16
  BPB_NumHeads :: u16
  BPB_BytesPerSec :: u16
  BPB_TotSec32 :: u32
  BPB_HiddSec :: u32
  BPB_RsvdSecCnt :: u16
  BPB_FSTableSize :: u32
  BPB_ExtFlags :: u16
  BPB_FSVer :: u16
  BPB_FSInfo :: u16
  BPB_BootSig :: u8
  BPB_VolID :: u32
  BPB_VolLab :: "u8 list"
  uiUsedSectors :: u32

record fs_node =
  nd_name :: string
  nd_attribute :: u16
  nd_createdTime :: u32
  nd_accessedTime :: u32
  nd_modifiedTime :: u32
  nd_startSectorID :: u32
  nd_size :: u32
  nd_parentSectorID :: u32
  nd_parentSectorPos :: u16
  nd_userID :: int

text \<open>\<open>nc_put n bs\<close> stores a node over the bytes \<open>bs\<close>; the bytes it does not define are kept.\<close>

record node_codec =
  nc_size :: nat
  nc_get :: "u8 list \<Rightarrow> fs_node"
  nc_put :: "fs_node \<Rightarrow> u8 list \<Rightarrow> u8 list"

record node_consts =
  ATTR_TYPE_FILE :: u16
  ATTR_TYPE_DIRECTORY :: u16
  ATTR_DELETED_DIR :: u16
  ATTR_DIR_DEFAULT :: u16
  ROOT_USER_ID :: int

text \<open>What the file system asks of the drive: whether it is a floppy, and its geometry.\<close>

record geometry =
  g_floppy :: bool
  g_SectorsPerTrack :: u32
  g_NoOfHeads :: u32
  g_SizeInSectors :: u32
  g_MaxSectorsInFreePoolCache :: nat

record pwd =
  pw_DirEntry :: fs_node
  pw_uiSectorNo :: u32
  pw_bSectorEntryPosition :: u8

text \<open>\<open>fs_freePool\<close> is the queue behind \<open>_freePoolQueue\<close>, \<open>None\<close> for a null pointer, with its capacity.\<close>

record 'd fsys =
  fs_boot :: boot_block
  fs_freePool :: "(u32 list \<times> nat) option"
  fs_tableCache :: "sector_block_entry list"
  fs_pwd :: pwd
  fs_mounted :: bool
  fs_dev :: 'd

type_synonym ('d, 'a) fs_eff = "('d fsys, fs_error, 'a) eff"

subsection \<open>Bytes\<close>

fun words_of :: "u8 list \<Rightarrow> u32 list" where
  "words_of (a # b # c # d # bs) =
     (ucast a OR push_bit 8 (ucast b) OR push_bit 16 (ucast c) OR push_bit 24 (ucast d)) # words_of bs"
| "words_of _ = []"

fun bytes_of :: "u32 list \<Rightarrow> u8 list" where
  "bytes_of [] = []"
| "bytes_of (w # ws) = ucast w # ucast (drop_bit 8 w) # ucast (drop_bit 16 w) # ucast (drop_bit 24 w) # bytes_of ws"

definition le16 :: "u16 \<Rightarrow> u8 list" where
  "le16 w = [ucast w, ucast (drop_bit 8 w)]"

definition from_le16 :: "u8 list \<Rightarrow> u16" where
  "from_le16 bs = ucast (bs ! 0) OR push_bit 8 (ucast (bs ! 1))"

text \<open>\<open>struct BootBlock\<close>, packed: 51 bytes.\<close>

definition boot_bytes :: "boot_block \<Rightarrow> u8 list" where
  "boot_bytes b = BPB_jmpBoot b @ [BPB_Media b] @ le16 (BPB_SecPerTrk b) @ le16 (BPB_NumHeads b) @
     le16 (BPB_BytesPerSec b) @ bytes_of [BPB_TotSec32 b] @ bytes_of [BPB_HiddSec b] @ le16 (BPB_RsvdSecCnt b) @
     bytes_of [BPB_FSTableSize b] @ le16 (BPB_ExtFlags b) @ le16 (BPB_FSVer b) @ le16 (BPB_FSInfo b) @
     [BPB_BootSig b] @ bytes_of [BPB_VolID b] @ BPB_VolLab b @ bytes_of [uiUsedSectors b]"

definition boot_of_bytes :: "u8 list \<Rightarrow> boot_block" where
  "boot_of_bytes bs =
     \<lparr>BPB_jmpBoot = take 3 bs, BPB_Media = bs ! 3, BPB_SecPerTrk = from_le16 (drop 4 bs),
      BPB_NumHeads = from_le16 (drop 6 bs), BPB_BytesPerSec = from_le16 (drop 8 bs),
      BPB_TotSec32 = hd (words_of (drop 10 bs)), BPB_HiddSec = hd (words_of (drop 14 bs)),
      BPB_RsvdSecCnt = from_le16 (drop 18 bs), BPB_FSTableSize = hd (words_of (drop 20 bs)),
      BPB_ExtFlags = from_le16 (drop 24 bs), BPB_FSVer = from_le16 (drop 26 bs), BPB_FSInfo = from_le16 (drop 28 bs),
      BPB_BootSig = bs ! 30, BPB_VolID = hd (words_of (drop 31 bs)), BPB_VolLab = take 12 (drop 35 bs),
      uiUsedSectors = hd (words_of (drop 47 bs))\<rparr>"

subsection \<open>The drive below\<close>

definition zeros :: sector where
  "zeros = replicate 512 0"

definition dev_read :: "'d block_io \<Rightarrow> u32 \<Rightarrow> u32 \<Rightarrow> ('d, sector list) fs_eff" where
  "dev_read io s n st =
     (case io_read io s n (replicate (unat n) zeros) (fs_dev st) of
        None \<Rightarrow> None
      | Some (Inl e, _, d) \<Rightarrow> Some (Inl (DriveError e), st\<lparr>fs_dev := d\<rparr>)
      | Some (Inr _, buf, d) \<Rightarrow> Some (Inr buf, st\<lparr>fs_dev := d\<rparr>))"

definition dev_write :: "'d block_io \<Rightarrow> u32 \<Rightarrow> u32 \<Rightarrow> sector list \<Rightarrow> ('d, unit) fs_eff" where
  "dev_write io s n buf st =
     (case io_write io s n buf (fs_dev st) of
        None \<Rightarrow> None
      | Some (Inl e, d) \<Rightarrow> Some (Inl (DriveError e), st\<lparr>fs_dev := d\<rparr>)
      | Some (Inr _, d) \<Rightarrow> Some (Inr (), st\<lparr>fs_dev := d\<rparr>))"

definition GetTableSectorId :: "boot_block \<Rightarrow> u32 \<Rightarrow> u32" where
  "GetTableSectorId b uiSectorID = uiSectorID + 1 + ucast (BPB_RsvdSecCnt b)"

definition GetRealSectorNumber :: "boot_block \<Rightarrow> u32 \<Rightarrow> u32" where
  "GetRealSectorNumber b uiSectorID = uiSectorID + 1 + ucast (BPB_RsvdSecCnt b) + BPB_FSTableSize b"

text \<open>\<open>DiskDrive::xRead\<close> and \<open>xWrite\<close>: sector numbers of the data area.\<close>

definition xRead :: "'d block_io \<Rightarrow> u32 \<Rightarrow> u32 \<Rightarrow> ('d, sector list) fs_eff" where
  "xRead io uiSector n = and_then (gets fs_boot) (\<lambda>b. dev_read io (GetRealSectorNumber b uiSector) n)"

definition xWrite :: "'d block_io \<Rightarrow> sector list \<Rightarrow> u32 \<Rightarrow> u32 \<Rightarrow> ('d, unit) fs_eff" where
  "xWrite io buf uiSector n = and_then (gets fs_boot) (\<lambda>b. dev_write io (GetRealSectorNumber b uiSector) n buf)"

text \<open>One sector.\<close>

definition xRead1 :: "'d block_io \<Rightarrow> u32 \<Rightarrow> ('d, sector) fs_eff" where
  "xRead1 io uiSector = and_then (xRead io uiSector 1) (\<lambda>buf. yield (hd buf))"

subsection \<open>The table cache\<close>

text \<open>The binary search; \<open>ids\<close> are the block ids of the vector. \<open>pos\<close> is \<open>*iPos\<close>.\<close>

function BinarySearch_loop :: "u32 list \<Rightarrow> u32 \<Rightarrow> int \<Rightarrow> int \<Rightarrow> int \<Rightarrow> bool \<times> int" where
  "BinarySearch_loop ids uiBlockID low high pos =
     (if low \<le> high then
        let mid = (low + high) div 2
        in if uiBlockID = ids ! nat mid then (True, mid)
           else if uiBlockID < ids ! nat mid then BinarySearch_loop ids uiBlockID low (mid - 1) mid
           else BinarySearch_loop ids uiBlockID (mid + 1) high (mid + 1)
      else (False, pos))"
  by pat_completeness auto
termination
  by (relation "measure (\<lambda>(ids, b, low, high, pos). nat (high + 1 - low))") auto

declare BinarySearch_loop.simps [simp del]

definition FSManager_BinarySearch :: "sector_block_entry list \<Rightarrow> u32 \<Rightarrow> bool \<times> int" where
  "FSManager_BinarySearch blocks uiBlockID =
     (case BinarySearch_loop (map sb_blockId blocks) uiBlockID 0 (int (length blocks) - 1) (-1) of
        (True, pos) \<Rightarrow> (True, pos)
      | (False, pos) \<Rightarrow> (False, if pos < 0 then 0 else if int (length blocks) \<le> pos then int (length blocks) else pos))"

definition Entry_Read :: "u32 \<Rightarrow> sector_block_entry \<Rightarrow> u32 \<times> sector_block_entry" where
  "Entry_Read sectorId e =
     (sb_sectorBlock e ! unat (BLOCK_OFFSET sectorId) AND EOC, e\<lparr>sb_readCount := sb_readCount e + 1\<rparr>)"

definition Entry_Write :: "u32 \<Rightarrow> u32 \<Rightarrow> sector_block_entry \<Rightarrow> sector_block_entry" where
  "Entry_Write sectorId val e =
     (let index = unat (BLOCK_OFFSET sectorId);
          block = (sb_sectorBlock e)[index := sb_sectorBlock e ! index AND 0xF0000000];
          block = block[index := block ! index OR (val AND EOC)]
      in e\<lparr>sb_sectorBlock := block, sb_writeCount := sb_writeCount e + 1\<rparr>)"

definition FlushTableCache :: "'d block_io \<Rightarrow> nat \<Rightarrow> ('d, unit) fs_eff" where
  "FlushTableCache io iFlushSize =
     and_then (gets fs_tableCache) (\<lambda>cache.
       let iFlushSize = min iFlushSize (length cache)
       in then_do
            (steps (\<lambda>i.
               if sb_writeCount (cache ! i) = 0 then yield ()
               else and_then (gets fs_boot) (\<lambda>b.
                      dev_write io (sb_blockId (cache ! i) + ucast (BPB_RsvdSecCnt b) + 1) 1
                        [bytes_of (sb_sectorBlock (cache ! i))]))
             [0..<iFlushSize])
            (only_if (iFlushSize < length cache)
               (modify (\<lambda>st. st\<lparr>fs_tableCache := drop iFlushSize (fs_tableCache st)\<rparr>))))"

text \<open>\<open>_fsTableCache[iPos].Load\<close>: the entry was inserted before, with all fields zero.\<close>

definition EmptyEntry :: sector_block_entry where
  "EmptyEntry = \<lparr>sb_sectorBlock = replicate 128 0, sb_blockId = 0, sb_readCount = 0, sb_writeCount = 0\<rparr>"

definition Entry_Load :: "'d block_io \<Rightarrow> nat \<Rightarrow> u32 \<Rightarrow> ('d, unit) fs_eff" where
  "Entry_Load io iPos sectorId =
     and_then (gets fs_boot) (\<lambda>b.
     and_then (dev_read io (GetTableSectorId b (BLOCK_ID sectorId)) 1) (\<lambda>buf.
       modify (\<lambda>st. st\<lparr>fs_tableCache := (fs_tableCache st)[iPos :=
         \<lparr>sb_sectorBlock = words_of (hd buf), sb_blockId = BLOCK_ID sectorId, sb_readCount = 0, sb_writeCount = 0\<rparr>]\<rparr>)))"

definition AddToTableCache :: "'d block_io \<Rightarrow> u32 \<Rightarrow> ('d, unit) fs_eff" where
  "AddToTableCache io uiSectorEntry =
     and_then (gets fs_tableCache) (\<lambda>cache.
     then_do (only_if (length cache = MAX_SECTORS_IN_TABLE_CACHE) (FlushTableCache io 1))
       (and_then (gets fs_tableCache) (\<lambda>cache.
          case FSManager_BinarySearch cache (BLOCK_ID uiSectorEntry) of
            (True, _) \<Rightarrow> yield ()
          | (False, iPos) \<Rightarrow>
              then_do (modify (\<lambda>st. st\<lparr>fs_tableCache := take (nat iPos) cache @ EmptyEntry # drop (nat iPos) cache\<rparr>))
                (Entry_Load io (nat iPos) uiSectorEntry))))"

text \<open>The pointer to the cached block is its position in the vector.\<close>

definition GetSectorEntryFromCache :: "u32 \<Rightarrow> sector_block_entry list \<Rightarrow> nat option" where
  "GetSectorEntryFromCache uiSectorEntry cache =
     (if cache = [] then None
      else case FSManager_BinarySearch cache (BLOCK_ID uiSectorEntry) of
             (True, iPos) \<Rightarrow> Some (nat iPos) | (False, _) \<Rightarrow> None)"

definition table_limit :: "boot_block \<Rightarrow> u32" where
  "table_limit b = BPB_FSTableSize b * ucast (BPB_BytesPerSec b) div 4"

definition cached_entry :: "'d block_io \<Rightarrow> u32 \<Rightarrow> ('d, nat) fs_eff" where
  "cached_entry io uiSectorID =
     and_then (gets fs_tableCache) (\<lambda>cache.
     case GetSectorEntryFromCache uiSectorID cache of
       Some p \<Rightarrow> yield p
     | None \<Rightarrow>
         then_do (AddToTableCache io uiSectorID)
           (and_then (gets fs_tableCache) (\<lambda>cache.
            case GetSectorEntryFromCache uiSectorID cache of
              Some p \<Rightarrow> yield p
            | None \<Rightarrow> throw (NotInCache uiSectorID))))"

definition GetSectorEntryValue :: "'d block_io \<Rightarrow> u32 \<Rightarrow> ('d, u32) fs_eff" where
  "GetSectorEntryValue io uiSectorID =
     and_then (gets fs_boot) (\<lambda>b.
       if uiSectorID > table_limit b then throw (InvalidClusterId uiSectorID)
       else
         and_then (cached_entry io uiSectorID) (\<lambda>p.
         and_then (gets (\<lambda>st. Entry_Read uiSectorID (fs_tableCache st ! p))) (\<lambda>(v, e).
         then_do (modify (\<lambda>st. st\<lparr>fs_tableCache := (fs_tableCache st)[p := e]\<rparr>)) (yield v))))"

definition UpdateUsedSectors :: "u32 \<Rightarrow> boot_block \<Rightarrow> boot_block" where
  "UpdateUsedSectors uiSectorEntryValue b =
     (if uiSectorEntryValue = EOC then b\<lparr>uiUsedSectors := uiUsedSectors b + 1\<rparr>
      else if uiSectorEntryValue = 0 then b\<lparr>uiUsedSectors := uiUsedSectors b - 1\<rparr>
      else b)"

definition SetSectorEntryValue :: "'d block_io \<Rightarrow> u32 \<Rightarrow> u32 \<Rightarrow> ('d, unit) fs_eff" where
  "SetSectorEntryValue io uiSectorID uiSectorEntryValue =
     and_then (gets fs_boot) (\<lambda>b.
       if uiSectorID > table_limit b then throw (InvalidClusterId uiSectorID)
       else
         then_do (modify (\<lambda>st. st\<lparr>fs_boot := UpdateUsedSectors uiSectorEntryValue (fs_boot st)\<rparr>))
           (and_then (cached_entry io uiSectorID) (\<lambda>p.
              modify (\<lambda>st. st\<lparr>fs_tableCache := (fs_tableCache st)[p :=
                Entry_Write uiSectorID uiSectorEntryValue (fs_tableCache st ! p)]\<rparr>))))"

subsection \<open>The pool of free sectors\<close>

text \<open>\<open>upan::queue::push_back\<close> refuses when the queue is full.\<close>

definition push_back :: "u32 \<Rightarrow> u32 list \<times> nat \<Rightarrow> bool \<times> (u32 list \<times> nat)" where
  "push_back x q = (if snd q \<le> length (fst q) then (False, q) else (True, (fst q @ [x], snd q)))"

text \<open>Entries of a block of the table pushed from the first on: \<open>True\<close> when the queue got full
  (\<open>bStop\<close>). \<open>base\<close> is the sector of the first entry.\<close>

fun push_free :: "u32 \<Rightarrow> u32 list \<Rightarrow> u32 list \<times> nat \<Rightarrow> bool \<times> (u32 list \<times> nat)" where
  "push_free base [] q = (False, q)"
| "push_free base (e # es) q =
     (if e AND EOC = 0 then
        (case push_back base q of
           (False, q) \<Rightarrow> (True, q)
         | (True, q) \<Rightarrow> push_free (base + 1) es q)
      else push_free (base + 1) es q)"

fun push_cached :: "sector_block_entry list \<Rightarrow> u32 list \<times> nat \<Rightarrow> bool \<times> (u32 list \<times> nat)" where
  "push_cached [] q = (False, q)"
| "push_cached (e # es) q =
     (case push_free (sb_blockId e * 128) (sb_sectorBlock e) q of
        (True, q) \<Rightarrow> (True, q)
      | (False, q) \<Rightarrow> push_cached es q)"

definition AllocateFreePoolQueue :: "nat \<Rightarrow> ('d, unit) fs_eff" where
  "AllocateFreePoolQueue n = modify (\<lambda>st. st\<lparr>fs_freePool := Some ([], n)\<rparr>)"

definition UnallocateFreePoolQueue :: "('d, unit) fs_eff" where
  "UnallocateFreePoolQueue = modify (\<lambda>st. st\<lparr>fs_freePool := None\<rparr>)"

definition AddToFreePoolCache :: "u32 \<Rightarrow> ('d, unit) fs_eff" where
  "AddToFreePoolCache sectorId =
     and_then (gets fs_freePool) (\<lambda>p.
     case p of
       None \<Rightarrow> undef
     | Some q \<Rightarrow> modify (\<lambda>st. st\<lparr>fs_freePool := Some (snd (push_back sectorId q))\<rparr>))"

text \<open>The loop over the table on the disk: up to 8 table sectors are read at once. \<open>n\<close> is the
  number of iterations left; \<open>i\<close> grows in each, so the table size is enough.\<close>

fun LoadFree_loop :: "'d block_io \<Rightarrow> nat \<Rightarrow> u32 \<Rightarrow> ('d, unit) fs_eff" where
  "LoadFree_loop io 0 i = yield ()"
| "LoadFree_loop io (Suc n) i =
     and_then (gets fs_boot) (\<lambda>b.
     if \<not> i < BPB_FSTableSize b then yield ()
     else
       and_then (gets fs_tableCache) (\<lambda>cache.
       if fst (FSManager_BinarySearch cache i) then LoadFree_loop io n (i + 1)
       else
         let uiBlockSize = (if BPB_FSTableSize b - i > 8 then 8 else BPB_FSTableSize b - i)
         in and_then (dev_read io (i + ucast (BPB_RsvdSecCnt b) + 1) uiBlockSize) (\<lambda>buf.
            and_then (gets fs_freePool) (\<lambda>p.
            case p of
              None \<Rightarrow> undef
            | Some q \<Rightarrow>
                case push_free (i * 128) (concat (map words_of buf)) q of
                  (bStop, q) \<Rightarrow>
                    then_do (modify (\<lambda>st. st\<lparr>fs_freePool := Some q\<rparr>))
                      (if bStop then yield () else LoadFree_loop io n (i + uiBlockSize))))))"

definition LoadFreeSectors :: "'d block_io \<Rightarrow> ('d, unit) fs_eff" where
  "LoadFreeSectors io =
     and_then (gets fs_freePool) (\<lambda>p.
     case p of
       None \<Rightarrow> undef
     | Some q \<Rightarrow>
         if snd q \<le> length (fst q) then yield ()
         else
           and_then (gets fs_tableCache) (\<lambda>cache.
           case push_cached cache q of
             (bStop, q) \<Rightarrow>
               then_do (modify (\<lambda>st. st\<lparr>fs_freePool := Some q\<rparr>))
                 (if bStop then yield ()
                  else and_then (gets (\<lambda>st. unat (BPB_FSTableSize (fs_boot st)))) (\<lambda>n. LoadFree_loop io n 0))))"

definition AllocateSector :: "'d block_io \<Rightarrow> ('d, u32) fs_eff" where
  "AllocateSector io =
     and_then (gets fs_freePool) (\<lambda>p.
     case p of
       None \<Rightarrow> undef
     | Some q \<Rightarrow>
         then_do (only_if (fst q = []) (LoadFreeSectors io))
           (and_then (gets fs_freePool) (\<lambda>p.
            case p of
              None \<Rightarrow> undef
            | Some ([], _) \<Rightarrow> throw NoFreeSectors
            | Some (uiFreeSectorID # rest, n) \<Rightarrow>
                then_do (modify (\<lambda>st. st\<lparr>fs_freePool := Some (rest, n)\<rparr>))
                  (then_do (SetSectorEntryValue io uiFreeSectorID EOC) (yield uiFreeSectorID)))))"

definition FileSystem_DeAllocateSector :: "'d block_io \<Rightarrow> u32 \<Rightarrow> ('d, u32) fs_eff" where
  "FileSystem_DeAllocateSector io uiCurrentSectorID =
     and_then (GetSectorEntryValue io uiCurrentSectorID) (\<lambda>uiNextSectorID.
     then_do (SetSectorEntryValue io uiCurrentSectorID 0)
       (then_do (AddToFreePoolCache uiCurrentSectorID) (yield uiNextSectorID)))"

subsection \<open>Nodes\<close>

definition node_at :: "node_codec \<Rightarrow> sector \<Rightarrow> nat \<Rightarrow> fs_node" where
  "node_at C sec i = nc_get C (take (nc_size C) (drop (i * nc_size C) sec))"

definition put_node :: "node_codec \<Rightarrow> nat \<Rightarrow> fs_node \<Rightarrow> sector \<Rightarrow> sector" where
  "put_node C i n sec =
     take (i * nc_size C) sec @ nc_put C n (take (nc_size C) (drop (i * nc_size C) sec)) @ drop (Suc i * nc_size C) sec"

definition Node_Init :: "u32 \<Rightarrow> string \<Rightarrow> u16 \<Rightarrow> int \<Rightarrow> u32 \<Rightarrow> u8 \<Rightarrow> fs_node" where
  "Node_Init now szDirName usDirAttribute iUserID uiParentSecNo bParentSecPos =
     \<lparr>nd_name = szDirName, nd_attribute = usDirAttribute, nd_createdTime = now, nd_accessedTime = now,
      nd_modifiedTime = now, nd_startSectorID = EOC, nd_size = 0, nd_parentSectorID = uiParentSecNo,
      nd_parentSectorPos = ucast bParentSecPos, nd_userID = iUserID\<rparr>"

definition Node_InitAsRoot :: "node_consts \<Rightarrow> u32 \<Rightarrow> u32 \<Rightarrow> fs_node" where
  "Node_InitAsRoot A now parentSectorId =
     Node_Init now ''/'' (ATTR_DIR_DEFAULT A OR ATTR_TYPE_DIRECTORY A) (ROOT_USER_ID A) parentSectorId 0"

definition IsDirectory :: "node_consts \<Rightarrow> fs_node \<Rightarrow> bool" where
  "IsDirectory A n \<longleftrightarrow> nd_attribute n AND ATTR_TYPE_DIRECTORY A = ATTR_TYPE_DIRECTORY A"

definition IsFile :: "node_consts \<Rightarrow> fs_node \<Rightarrow> bool" where
  "IsFile A n \<longleftrightarrow> nd_attribute n AND ATTR_TYPE_FILE A = ATTR_TYPE_FILE A"

definition IsDeleted :: "node_consts \<Rightarrow> fs_node \<Rightarrow> bool" where
  "IsDeleted A n \<longleftrightarrow> nd_attribute n AND ATTR_DELETED_DIR A \<noteq> 0"

definition MarkAsDeleted :: "node_consts \<Rightarrow> fs_node \<Rightarrow> fs_node" where
  "MarkAsDeleted A n = n\<lparr>nd_attribute := nd_attribute n OR ATTR_DELETED_DIR A\<rparr>"

definition AddNode :: "fs_node \<Rightarrow> fs_node" where
  "AddNode n = n\<lparr>nd_size := nd_size n + 1\<rparr>"

definition RemoveNode :: "fs_node \<Rightarrow> fs_node" where
  "RemoveNode n = n\<lparr>nd_size := nd_size n - 1\<rparr>"

text \<open>The path is collected from the node up to the root; a cycle of parents does not end (no fuel
  left: undefined) and a position outside the sector is a read past the buffer.\<close>

fun FullPath_loop :: "'d block_io \<Rightarrow> node_codec \<Rightarrow> nat \<Rightarrow> fs_node \<Rightarrow> string \<Rightarrow> bool \<Rightarrow> ('d, string) fs_eff" where
  "FullPath_loop io C 0 n fullPath bFirst = undef"
| "FullPath_loop io C (Suc fuel) n fullPath bFirst =
     (if nd_name n = ''/'' then yield (''/'' @ fullPath)
      else
        let fullPath = (if \<not> bFirst then nd_name n @ ''/'' @ fullPath else nd_name n)
        in and_then (xRead1 io (nd_parentSectorID n)) (\<lambda>sec.
             let pos = unat (ucast (nd_parentSectorPos n) :: u8)
             in if 512 < Suc pos * nc_size C then undef
                else FullPath_loop io C fuel (node_at C sec pos) fullPath False))"

definition FullPath :: "'d block_io \<Rightarrow> node_codec \<Rightarrow> nat \<Rightarrow> fs_node \<Rightarrow> ('d, string) fs_eff" where
  "FullPath io C fuel n = FullPath_loop io C fuel n [] True"

subsection \<open>The boot block, formatting, mounting\<close>

text \<open>\<open>strcpy(BPB_VolLab, "No Name   ")\<close> writes 11 bytes; the twelfth keeps its value.\<close>

definition no_name :: "u8 list" where
  "no_name = [78, 111, 32, 78, 97, 109, 101, 32, 32, 32, 0]"

definition InitBootBlock :: "geometry \<Rightarrow> boot_block \<Rightarrow> boot_block" where
  "InitBootBlock G b =
     (let b = b\<lparr>BPB_jmpBoot := [0xEB, 0xFE, 0x90], BPB_BytesPerSec := 0x200, BPB_RsvdSecCnt := 2,
                BPB_Media := (if g_floppy G then 0xF0 else 0xF8),
                BPB_SecPerTrk := ucast (g_SectorsPerTrack G), BPB_NumHeads := ucast (g_NoOfHeads G),
                BPB_HiddSec := 0, BPB_TotSec32 := g_SizeInSectors G, BPB_ExtFlags := 0x0080,
                BPB_FSVer := 0x0100, BPB_FSInfo := 1, BPB_BootSig := 0x29, BPB_VolID := 1,
                BPB_VolLab := no_name @ drop 11 (BPB_VolLab b), uiUsedSectors := 1\<rparr>
      in b\<lparr>BPB_FSTableSize := (BPB_TotSec32 b - ucast (BPB_RsvdSecCnt b) - 1) div (128 + 1)\<rparr>)"

text \<open>\<open>junk\<close> is the uninitialised buffer of 512 bytes, \<open>now\<close> the time of day.\<close>

definition Format :: "'d block_io \<Rightarrow> node_codec \<Rightarrow> node_consts \<Rightarrow> geometry \<Rightarrow> u8 list \<Rightarrow> u32 \<Rightarrow> ('d, unit) fs_eff" where
  "Format io C A G junk now =
     (let b = InitBootBlock G (boot_of_bytes junk);
          sec = (boot_bytes b @ drop 51 junk)[510 := 0x55, 511 := 0xAA]
      in then_do (dev_write io 1 1 [sec])
        (then_do
           (steps (\<lambda>i. dev_write io (of_nat i + ucast (BPB_RsvdSecCnt b) + 1) 1
                     [if i = 0 then bytes_of (EOC # replicate 127 0) else zeros])
             [0..<unat (BPB_FSTableSize b)])
           (then_do (modify (\<lambda>st. st\<lparr>fs_boot := b\<rparr>))
              (let uiSec = GetRealSectorNumber b 0
               in dev_write io uiSec 1 [put_node C 0 (Node_InitAsRoot A now uiSec) zeros]))))"

definition ReadFSBootBlock :: "'d block_io \<Rightarrow> geometry \<Rightarrow> ('d, unit) fs_eff" where
  "ReadFSBootBlock io G =
     and_then (dev_read io 1 1) (\<lambda>buf.
       let bArrFSBootBlock = hd buf
       in if bArrFSBootBlock ! 510 \<noteq> 0x55 \<or> bArrFSBootBlock ! 511 \<noteq> 0xAA then throw InvalidBpbSignature
          else
            let b = boot_of_bytes bArrFSBootBlock
            in then_do (modify (\<lambda>st. st\<lparr>fs_boot := b\<rparr>))
              (if BPB_BootSig b \<noteq> 0x29 then throw InvalidBootSignature
               else if BPB_TotSec32 b \<noteq> g_SizeInSectors G then throw InvalidTotSec32
               else if BPB_FSTableSize b = 0 then throw InvalidFSTableSize
               else if BPB_BytesPerSec b \<noteq> 0x200 then throw InvalidBytesPerSec
               else if BPB_jmpBoot b ! 0 \<noteq> 0xEB \<or> BPB_jmpBoot b ! 1 \<noteq> 0xFE \<or> BPB_jmpBoot b ! 2 \<noteq> 0x90 then throw InvalidJmpBoot
               else if g_floppy G \<and> BPB_Media b \<noteq> 0xF0 then throw InvalidMedia
               else if BPB_ExtFlags b \<noteq> 0x0080 then throw InvalidExtFlags
               else if BPB_FSVer b \<noteq> 0x0100 then throw InvalidFSVer
               else if BPB_FSInfo b \<noteq> 1 then throw InvalidFSInfo
               else if BPB_VolID b \<noteq> 0x01 then throw InvalidVolID
               else yield ()))"

text \<open>The signature is stored before the boot block is copied over the buffer.\<close>

definition WriteFSBootBlock :: "'d block_io \<Rightarrow> u8 list \<Rightarrow> ('d, unit) fs_eff" where
  "WriteFSBootBlock io junk =
     and_then (gets fs_boot) (\<lambda>b.
       dev_write io 1 1 [boot_bytes b @ drop 51 (junk[510 := 0x55, 511 := 0xAA])])"

text \<open>\<open>DiskDrive::Mount\<close> and \<open>UnMount\<close>; the flush of the sector cache at the end of \<open>UnMount\<close> is the
  argument \<open>flush\<close>, whose status is ignored.\<close>

definition ReadRootDirectory :: "'d block_io \<Rightarrow> node_codec \<Rightarrow> ('d, unit) fs_eff" where
  "ReadRootDirectory io C =
     and_then (xRead1 io 0) (\<lambda>sec.
       modify (\<lambda>st. st\<lparr>fs_pwd := \<lparr>pw_DirEntry = node_at C sec 0, pw_uiSectorNo = 0, pw_bSectorEntryPosition = 0\<rparr>\<rparr>))"

definition Mount :: "'d block_io \<Rightarrow> node_codec \<Rightarrow> geometry \<Rightarrow> ('d, unit) fs_eff" where
  "Mount io C G =
     and_then (gets fs_mounted) (\<lambda>m.
     if m then throw AlreadyMounted
     else
       then_do (AllocateFreePoolQueue (g_MaxSectorsInFreePoolCache G))
         (then_do (ReadFSBootBlock io G)
            (then_do (LoadFreeSectors io)
               (then_do (ReadRootDirectory io C)
                  (modify (\<lambda>st. st\<lparr>fs_mounted := True\<rparr>))))))"

definition UnMount :: "'d block_io \<Rightarrow> ('d \<Rightarrow> (bool \<times> 'd) option) \<Rightarrow> u8 list \<Rightarrow> ('d, unit) fs_eff" where
  "UnMount io flush junk =
     and_then (gets fs_mounted) (\<lambda>m.
     if \<not> m then throw NotMounted
     else
       then_do (WriteFSBootBlock io junk)
         (then_do (FlushTableCache io MAX_SECTORS_IN_TABLE_CACHE)
            (then_do (\<lambda>st. map_option (\<lambda>(_, d). (Inr (), st\<lparr>fs_dev := d\<rparr>)) (flush (fs_dev st)))
               (then_do UnallocateFreePoolQueue
                  (modify (\<lambda>st. st\<lparr>fs_mounted := False\<rparr>))))))"

end
