(* ===== verification/Drives.thy ===== *)
theory Drives
  imports BlockDev
begin

text \<open>
  A disk drive with its sector cache: \<open>DiskDrive\<close> of \<open>drivers/DeviceDrive.cpp\<close> (reads, writes,
  the flushing of dirty sectors) and \<open>drivers/DiskCache.cpp\<close> (the cache, its dirty list and the
  replacement of sectors).

  The cache is a \<open>BTree\<close> from sector numbers to values; the tree is not part of the repository
  and is modelled by a map, with the reasons why it may refuse an insertion as a parameter.
  A \<open>DiskCacheValue*\<close> is the sector number it was found under: a pointer found by \<open>Find\<close> is used
  in the same call, and in between the sector is never inserted anew, so the pointer is dangling
  exactly when the tree has no entry for the sector; its use is then \<open>None\<close>. The same holds for
  the buffer pointers of the dirty list. The ranks are quotients of type \<open>double\<close>: division is a
  parameter with values in any linear order. The medium below the drivers holds sectors and has
  a list of outcomes for the next transfers (\<open>True\<close>: the driver throws, nothing is transferred).
  The mutexes and the statistics counters are left out.
\<close>

section \<open>The code\<close>

datatype device_type = DEV_FLOPPY | DEV_ATA_IDE | DEV_SCSI_USB_DISK | DEV_OTHER

record medium =
  md_sectors :: "u32 \<Rightarrow> sector"
  md_faults :: "bool list"

record cache_value =
  m_uiLastAccess :: u32
  m_uiHitCount :: u32
  m_bSectorBuffer :: sector

record 'r cache_params =
  bt_refuses :: "u32 \<Rightarrow> (u32 \<rightharpoonup> cache_value) \<Rightarrow> bool"
  dbl_div :: "u32 \<Rightarrow> u32 \<Rightarrow> 'r"

record 'r drive =
  dd_deviceType :: device_type
  dd_lba :: u32
  dd_enabled :: bool
  dd_tree :: "u32 \<rightharpoonup> cache_value"
  dd_dirty :: "u32 list"
  dd_release :: "(u32 \<times> 'r) list"
  dd_built :: bool
  dd_medium :: medium
  dd_clock :: u32

abbreviation (input) MAX_CACHE_SECTORS :: nat where "MAX_CACHE_SECTORS \<equiv> 32"

text \<open>\<open>m_uiMaxRelListSize\<close> is \<open>0.1 * MAX_CACHE_SECTORS\<close> as an \<open>unsigned\<close>.\<close>

abbreviation (input) m_uiMaxRelListSize :: nat where "m_uiMaxRelListSize \<equiv> 3"

subsection \<open>Cache values and the cache\<close>

definition DiskCacheValue :: "u32 \<Rightarrow> cache_value" where
  "DiskCacheValue clk = \<lparr>m_uiLastAccess = clk, m_uiHitCount = 1, m_bSectorBuffer = []\<rparr>"

definition Value_Read :: "u32 \<Rightarrow> cache_value \<Rightarrow> sector \<times> cache_value" where
  "Value_Read clk v =
     (m_bSectorBuffer v, v\<lparr>m_uiHitCount := m_uiHitCount v + 1, m_uiLastAccess := clk\<rparr>)"

definition Value_Write :: "u32 \<Rightarrow> sector \<Rightarrow> cache_value \<Rightarrow> cache_value" where
  "Value_Write clk pSrc v =
     v\<lparr>m_bSectorBuffer := pSrc, m_uiHitCount := m_uiHitCount v + 1, m_uiLastAccess := clk\<rparr>"

definition CreateValue :: "u32 \<Rightarrow> sector \<Rightarrow> cache_value" where
  "CreateValue clk pSrc = Value_Write clk pSrc (DiskCacheValue clk)"

definition Cache_Full :: "'r drive \<Rightarrow> bool" where
  "Cache_Full d \<longleftrightarrow> MAX_CACHE_SECTORS \<le> card (dom (dd_tree d))"

definition Cache_Add :: "'r cache_params \<Rightarrow> u32 \<Rightarrow> sector \<Rightarrow> 'r drive \<Rightarrow> 'r drive option" where
  "Cache_Add E uiSectorID bDataBuffer d =
     (if bt_refuses E uiSectorID (dd_tree d) then None
      else Some (d\<lparr>dd_tree := (dd_tree d)(uiSectorID \<mapsto> CreateValue (dd_clock d) bDataBuffer)\<rparr>))"

definition InsertToDirtyList :: "u32 \<Rightarrow> 'r drive \<Rightarrow> 'r drive" where
  "InsertToDirtyList v d = (if v \<in> set (dd_dirty d) then d else d\<lparr>dd_dirty := dd_dirty d @ [v]\<rparr>)"

definition Cache_Get :: "'r drive \<Rightarrow> (u32 \<times> 'r drive) option" where
  "Cache_Get d = (case dd_dirty d of [] \<Rightarrow> None | v # vs \<Rightarrow> Some (v, d\<lparr>dd_dirty := vs\<rparr>))"

subsection \<open>Replacement\<close>

text \<open>The visitor: \<open>rel\<close> is the release list, sorted by rank; the sector is \<open>k\<close> with value \<open>v\<close>.\<close>

definition LFU_visit ::
  "'r :: linorder cache_params \<Rightarrow> u32 \<Rightarrow> u32 list \<Rightarrow> u32 \<Rightarrow> cache_value \<Rightarrow> (u32 \<times> 'r) list \<Rightarrow> (u32 \<times> 'r) list" where
  "LFU_visit E uiCurrent dirty k v rel =
     (if k \<in> set dirty then rel
      else
        let uiTimeDiff = uiCurrent - m_uiLastAccess v;
            dRank = dbl_div E uiTimeDiff (m_uiHitCount v)
        in if length rel = m_uiMaxRelListSize then
             (if dRank \<le> snd (last rel) then rel else insort_key snd (k, dRank) (butlast rel))
           else insort_key snd (k, dRank) rel)"

definition LFU_Run :: "'r :: linorder cache_params \<Rightarrow> 'r drive \<Rightarrow> 'r drive" where
  "LFU_Run E d =
     (if \<not> Cache_Full d then d
      else if dd_built d then d
      else
        let rel = fold (\<lambda>k. LFU_visit E (dd_clock d) (dd_dirty d) k (the (dd_tree d k)))
                    (sorted_list_of_set (dom (dd_tree d))) (dd_release d);
            d = d\<lparr>dd_release := rel\<rparr>
        in if length rel = m_uiMaxRelListSize then d\<lparr>dd_built := True\<rparr> else d)"

definition ReplaceCache ::
  "'r cache_params \<Rightarrow> u32 \<Rightarrow> sector \<Rightarrow> 'r drive \<Rightarrow> bool \<times> 'r drive" where
  "ReplaceCache E uiSectorID bDataBuffer d =
     (if \<not> dd_built d then (True, d)
      else if dd_release d = [] then (True, d\<lparr>dd_built := False\<rparr>)
      else
        (case dropWhile (\<lambda>node. fst node \<in> set (dd_dirty d)) (dd_release d) of
           [] \<Rightarrow> (True, d\<lparr>dd_release := [], dd_built := False\<rparr>)
         | node # rest \<Rightarrow>
             let d = d\<lparr>dd_release := rest\<rparr>
             in if dd_tree d (fst node) = None then (False, d)
                else
                  let d = d\<lparr>dd_tree := (dd_tree d)(fst node := None)\<rparr>
                  in if bt_refuses E uiSectorID (dd_tree d) then (False, d)
                     else
                       let d = d\<lparr>dd_tree := (dd_tree d)(uiSectorID \<mapsto> CreateValue (dd_clock d) bDataBuffer)\<rparr>
                       in (True, if rest = [] then d\<lparr>dd_built := False\<rparr> else d)))"

subsection \<open>Transfers with the medium\<close>

definition next_fault :: "medium \<Rightarrow> bool \<times> medium" where
  "next_fault m = (case md_faults m of [] \<Rightarrow> (False, m) | f # fs \<Rightarrow> (f, m\<lparr>md_faults := fs\<rparr>))"

definition RawRead ::
  "u32 \<Rightarrow> u32 \<Rightarrow> 'r drive \<Rightarrow> (drive_error + sector list) \<times> 'r drive" where
  "RawRead uiStartSector uiNoOfSectors d =
     (if dd_deviceType d \<notin> {DEV_FLOPPY, DEV_ATA_IDE, DEV_SCSI_USB_DISK} then (Inl InvalidDeviceType, d)
      else
        let (f, m) = next_fault (dd_medium d)
        in if f then (Inl DeviceFault, d\<lparr>dd_medium := m\<rparr>)
           else (Inr (map (\<lambda>i. md_sectors m (uiStartSector + of_nat i)) [0..<unat uiNoOfSectors]),
                 d\<lparr>dd_medium := m\<rparr>))"

definition RawWrite ::
  "u32 \<Rightarrow> sector list \<Rightarrow> 'r drive \<Rightarrow> (drive_error + unit) \<times> 'r drive" where
  "RawWrite uiStartSector bData d =
     (if dd_deviceType d \<notin> {DEV_FLOPPY, DEV_ATA_IDE, DEV_SCSI_USB_DISK} then (Inl InvalidDeviceType, d)
      else
        let (f, m) = next_fault (dd_medium d)
        in if f then (Inl DeviceFault, d\<lparr>dd_medium := m\<rparr>)
           else (Inr (), d\<lparr>dd_medium := m\<lparr>md_sectors := overwrite (md_sectors m) uiStartSector bData\<rparr>\<rparr>))"

text \<open>A write of \<open>n\<close> sectors from the buffer at \<open>bDataBuffer + idx * 512\<close>: reading past the end of
  the buffer is undefined.\<close>

definition RawWrite_at ::
  "u32 \<Rightarrow> nat \<Rightarrow> sector list \<Rightarrow> nat \<Rightarrow> 'r drive \<Rightarrow> ((drive_error + unit) \<times> 'r drive) option" where
  "RawWrite_at uiStartSector n buf idx d =
     (if idx + n \<le> length buf then Some (RawWrite uiStartSector (take n (drop idx buf)) d) else None)"

subsection \<open>Reads and writes through the cache\<close>

text \<open>\<open>upt32 a b\<close>: the values of \<open>for(i = a; i < b; i++)\<close>.\<close>

definition upt32 :: "u32 \<Rightarrow> u32 \<Rightarrow> u32 list" where
  "upt32 a b = map (\<lambda>i. a + of_nat i) [0..<unat b - unat a]"

fun Read_cached ::
  "u32 \<Rightarrow> u32 list \<Rightarrow> sector list \<Rightarrow> 'r drive \<Rightarrow> (sector list \<times> 'r drive) option" where
  "Read_cached start [] buf d = Some (buf, d)"
| "Read_cached start (x # xs) buf d =
     (case dd_tree d x of
        None \<Rightarrow> None
      | Some v \<Rightarrow>
          let (b, v) = Value_Read (dd_clock d) v
          in Read_cached start xs (buf[unat (x - start) := b]) (d\<lparr>dd_tree := (dd_tree d)(x \<mapsto> v)\<rparr>))"

text \<open>The sectors from the first to the last one not in the cache, after they were read into the
  buffer; \<open>cached x\<close>: \<open>pCacheValue\<close> is not null.\<close>

fun Read_fill ::
  "'r cache_params \<Rightarrow> u32 \<Rightarrow> (u32 \<Rightarrow> bool) \<Rightarrow> u32 list \<Rightarrow> sector list \<Rightarrow> 'r drive \<Rightarrow> (sector list \<times> 'r drive) option" where
  "Read_fill E start cached [] buf d = Some (buf, d)"
| "Read_fill E start cached (x # xs) buf d =
     (if \<not> cached x then
        if Cache_Full d then
          (case ReplaceCache E x (buf ! unat (x - start)) d of
             (True, d) \<Rightarrow> Read_fill E start cached xs buf d
           | (False, d) \<Rightarrow> Some (buf, d\<lparr>dd_enabled := False\<rparr>))
        else
          (case Cache_Add E x (buf ! unat (x - start)) d of
             None \<Rightarrow> Some (buf, d\<lparr>dd_enabled := False\<rparr>)
           | Some d \<Rightarrow> Read_fill E start cached xs buf d)
      else
        (case dd_tree d x of
           None \<Rightarrow> None
         | Some v \<Rightarrow>
             let (b, v) = Value_Read (dd_clock d) v
             in Read_fill E start cached xs (buf[unat (x - start) := b]) (d\<lparr>dd_tree := (dd_tree d)(x \<mapsto> v)\<rparr>)))"

definition patch :: "'a list \<Rightarrow> nat \<Rightarrow> 'a list \<Rightarrow> 'a list" where
  "patch buf i xs = take i buf @ xs @ drop (i + length xs) buf"

definition Drive_Read ::
  "'r cache_params \<Rightarrow> u32 \<Rightarrow> u32 \<Rightarrow> sector list \<Rightarrow> 'r drive \<Rightarrow> ((drive_error + unit) \<times> sector list \<times> 'r drive) option" where
  "Drive_Read E uiStartSector uiNoOfSectors buf d =
     (let start = uiStartSector + dd_lba d
      in if \<not> dd_enabled d then
           (case RawRead start uiNoOfSectors d of
              (Inl e, d) \<Rightarrow> Some (Inl e, buf, d)
            | (Inr xs, d) \<Rightarrow> Some (Inr (), patch buf 0 xs, d))
         else
           let uiEndSector = start + uiNoOfSectors;
               cached = (\<lambda>x. dd_tree d x \<noteq> None);
               missing = filter (\<lambda>x. \<not> cached x) (upt32 start uiEndSector);
               uiFirstBreak = (if missing = [] then uiEndSector else hd missing);
               uiLastBreak = (if missing = [] then uiEndSector else last missing)
           in case Read_cached start (upt32 start uiFirstBreak) buf d of
                None \<Rightarrow> None
              | Some (buf, d) \<Rightarrow>
                  (case Read_cached start (upt32 (uiLastBreak + 1) uiEndSector) buf d of
                     None \<Rightarrow> None
                   | Some (buf, d) \<Rightarrow>
                       if uiFirstBreak < uiEndSector then
                         (case RawRead uiFirstBreak (uiLastBreak - uiFirstBreak + 1) d of
                            (Inl e, d) \<Rightarrow> Some (Inl e, buf, d)
                          | (Inr xs, d) \<Rightarrow>
                              map_option (\<lambda>(buf, d). (Inr (), buf, d))
                                (Read_fill E start cached
                                   (map (\<lambda>i. uiFirstBreak + of_nat i) [0..<unat uiLastBreak + 1 - unat uiFirstBreak])
                                   (patch buf (unat (uiFirstBreak - start)) xs) d))
                       else Some (Inr (), buf, d)))"

fun Write_cached ::
  "u32 \<Rightarrow> u32 list \<Rightarrow> sector list \<Rightarrow> 'r drive \<Rightarrow> 'r drive option" where
  "Write_cached start [] buf d = Some d"
| "Write_cached start (x # xs) buf d =
     (case dd_tree d x of
        None \<Rightarrow> None
      | Some v \<Rightarrow>
          let d = d\<lparr>dd_tree := (dd_tree d)(x \<mapsto> Value_Write (dd_clock d) (buf ! unat (x - start)) v)\<rparr>
          in Write_cached start xs buf (InsertToDirtyList x d))"

fun Write_fill ::
  "'r cache_params \<Rightarrow> u32 \<Rightarrow> (u32 \<Rightarrow> bool) \<Rightarrow> u32 \<Rightarrow> nat \<Rightarrow> u32 list \<Rightarrow> sector list \<Rightarrow> 'r drive \<Rightarrow>
     ((drive_error + unit) \<times> 'r drive) option" where
  "Write_fill E start cached first n [] buf d = Some (Inr (), d)"
| "Write_fill E start cached first n (x # xs) buf d =
     (let uiIndex = unat (x - start)
      in if \<not> cached x then
           if Cache_Full d then
             (case RawWrite x [buf ! uiIndex] d of
                (Inl e, d) \<Rightarrow> Some (Inl e, d)
              | (Inr _, d) \<Rightarrow>
                  (case ReplaceCache E x (buf ! uiIndex) d of
                     (True, d) \<Rightarrow> Write_fill E start cached first n xs buf d
                   | (False, d) \<Rightarrow> RawWrite_at first n buf uiIndex (d\<lparr>dd_enabled := False\<rparr>)))
           else
             (case Cache_Add E x (buf ! uiIndex) d of
                None \<Rightarrow> Some (Inr (), d\<lparr>dd_enabled := False\<rparr>)
              | Some d \<Rightarrow> Write_fill E start cached first n xs buf (InsertToDirtyList x d))
         else
           (case dd_tree d x of
              None \<Rightarrow> None
            | Some v \<Rightarrow>
                let d = d\<lparr>dd_tree := (dd_tree d)(x \<mapsto> Value_Write (dd_clock d) (buf ! uiIndex) v)\<rparr>
                in Write_fill E start cached first n xs buf (InsertToDirtyList x d)))"

definition Drive_Write ::
  "'r cache_params \<Rightarrow> u32 \<Rightarrow> u32 \<Rightarrow> sector list \<Rightarrow> 'r drive \<Rightarrow> ((drive_error + unit) \<times> 'r drive) option" where
  "Drive_Write E uiStartSector uiNoOfSectors buf d =
     (let start = uiStartSector + dd_lba d
      in if \<not> dd_enabled d then Some (RawWrite start (take (unat uiNoOfSectors) buf) d)
         else
           let uiEndSector = start + uiNoOfSectors;
               cached = (\<lambda>x. dd_tree d x \<noteq> None);
               missing = filter (\<lambda>x. \<not> cached x) (upt32 start uiEndSector);
               uiFirstBreak = (if missing = [] then uiEndSector else hd missing);
               uiLastBreak = (if missing = [] then uiEndSector else last missing)
           in case Write_cached start (upt32 start uiFirstBreak) buf d of
                None \<Rightarrow> None
              | Some d \<Rightarrow>
                  (case Write_cached start (upt32 (uiLastBreak + 1) uiEndSector) buf d of
                     None \<Rightarrow> None
                   | Some d \<Rightarrow>
                       if uiFirstBreak < uiEndSector then
                         Write_fill E start cached uiFirstBreak (unat uiLastBreak + 1 - unat uiFirstBreak)
                           (map (\<lambda>i. uiFirstBreak + of_nat i) [0..<unat uiLastBreak + 1 - unat uiFirstBreak]) buf d
                       else Some (Inr (), d)))"

subsection \<open>Flushing\<close>

definition FlushSector :: "u32 \<Rightarrow> sector \<Rightarrow> 'r drive \<Rightarrow> bool \<times> 'r drive" where
  "FlushSector uiSectorID pBuffer d =
     (case RawWrite uiSectorID [pBuffer] d of (Inl _, d) \<Rightarrow> (False, d) | (Inr _, d) \<Rightarrow> (True, d))"

text \<open>The result is \<open>True\<close> for \<open>DiskCache_SUCCESS\<close>. A negative count flushes everything.\<close>

function Flush_loop :: "int \<Rightarrow> 'r drive \<Rightarrow> (bool \<times> 'r drive) option" where
  "Flush_loop iCount d =
     (if iCount = 0 then Some (True, d)
      else
        (case Cache_Get d of
           None \<Rightarrow> Some (True, d)
         | Some (v, d) \<Rightarrow>
             (case dd_tree d v of
                None \<Rightarrow> None
              | Some val \<Rightarrow>
                  (case FlushSector v (m_bSectorBuffer val) d of
                     (False, d) \<Rightarrow> Some (False, d)
                   | (True, d) \<Rightarrow> Flush_loop (iCount - 1) d))))"
  by pat_completeness auto

lemma RawWrite_fields:
  "RawWrite s xs d = (r, d') \<Longrightarrow> dd_tree d' = dd_tree d \<and> dd_dirty d' = dd_dirty d \<and> dd_release d' = dd_release d \<and>
     dd_built d' = dd_built d \<and> dd_enabled d' = dd_enabled d \<and> dd_lba d' = dd_lba d \<and>
     dd_deviceType d' = dd_deviceType d \<and> dd_clock d' = dd_clock d"
  by (auto simp: RawWrite_def Let_def split: prod.splits if_splits)

lemma FlushSector_fields:
  "FlushSector v b d = (r, d') \<Longrightarrow> dd_tree d' = dd_tree d \<and> dd_dirty d' = dd_dirty d \<and> dd_release d' = dd_release d \<and>
     dd_built d' = dd_built d \<and> dd_enabled d' = dd_enabled d \<and> dd_lba d' = dd_lba d \<and>
     dd_deviceType d' = dd_deviceType d \<and> dd_clock d' = dd_clock d"
  by (auto simp: FlushSector_def dest!: RawWrite_fields split: prod.splits sum.splits)

termination Flush_loop
proof (relation "measure (\<lambda>(i, d). length (dd_dirty d))", simp)
  fix iCount :: int and d :: "'r drive" and p v d1 val b d2
  assume a: "Cache_Get d = Some p" "(v, d1) = p" "(b, d2) = FlushSector v (m_bSectorBuffer val) d1"
  then have "FlushSector v (m_bSectorBuffer val) d1 = (b, d2)" by simp
  from FlushSector_fields [OF this] a(1,2)
  show "((iCount - 1, d2), iCount, d) \<in> measure (\<lambda>(i, d). length (dd_dirty d))"
    by (auto simp: Cache_Get_def split: list.splits)
qed

declare Flush_loop.simps [simp del]

definition FlushDirtyCacheSectors :: "int \<Rightarrow> 'r drive \<Rightarrow> (bool \<times> 'r drive) option" where
  "FlushDirtyCacheSectors iCount d = (if \<not> dd_enabled d then Some (True, d) else Flush_loop iCount d)"

section \<open>The contents seen through the cache\<close>

text \<open>What a reader sees of sector \<open>x\<close> of the medium.\<close>

definition through :: "(u32 \<rightharpoonup> cache_value) \<Rightarrow> (u32 \<Rightarrow> sector) \<Rightarrow> u32 \<Rightarrow> sector" where
  "through t f x = (case t x of Some v \<Rightarrow> m_bSectorBuffer v | None \<Rightarrow> f x)"

definition view :: "'r drive \<Rightarrow> u32 \<Rightarrow> sector" where
  "view d = through (dd_tree d) (md_sectors (dd_medium d))"

lemma through_upd: "through (t(x \<mapsto> v)) f = (through t f)(x := m_bSectorBuffer v)"
  by (auto simp: through_def fun_eq_iff)

lemma through_apply: "t x = Some v \<Longrightarrow> through t f x = m_bSectorBuffer v" "t x = None \<Longrightarrow> through t f x = f x"
  by (simp_all add: through_def)

lemma through_evict: "t y = Some w \<Longrightarrow> f y = m_bSectorBuffer w \<Longrightarrow> through (t(y := None)) f = through t f"
  by (auto simp: through_def fun_eq_iff)

lemma through_medium: "t x = Some v \<Longrightarrow> through t (f(x := b)) = through t f"
  "t x = None \<Longrightarrow> through t (f(x := b)) = (through t f)(x := b)"
  by (auto simp: through_def fun_eq_iff split: option.splits)

text \<open>Cached sectors that are not on the dirty list agree with the medium, dirty sectors are cached,
  and the release list holds distinct cached sectors.\<close>

definition coherent :: "'r drive \<Rightarrow> bool" where
  "coherent d \<longleftrightarrow> dd_enabled d \<and> finite (dom (dd_tree d)) \<and> card (dom (dd_tree d)) \<le> MAX_CACHE_SECTORS \<and>
     (\<forall>x v. dd_tree d x = Some v \<and> x \<notin> set (dd_dirty d) \<longrightarrow> m_bSectorBuffer v = md_sectors (dd_medium d) x) \<and>
     set (dd_dirty d) \<subseteq> dom (dd_tree d) \<and> distinct (dd_dirty d) \<and>
     distinct (map fst (dd_release d)) \<and> fst ` set (dd_release d) \<subseteq> dom (dd_tree d)"

text \<open>The tree takes a new key as long as it is not full.\<close>

definition tree_accepts :: "'r cache_params \<Rightarrow> bool" where
  "tree_accepts E \<longleftrightarrow> (\<forall>x t. t x = None \<longrightarrow> card (dom t) < MAX_CACHE_SECTORS \<longrightarrow> \<not> bt_refuses E x t)"

definition same_drive :: "'r drive \<Rightarrow> 'r drive \<Rightarrow> bool" where
  "same_drive d d' \<longleftrightarrow> coherent d' \<and> view d' = view d \<and> dd_lba d' = dd_lba d"

lemma coherent_touch:
  assumes "coherent d" "dd_tree d x = Some v" "m_bSectorBuffer v' = m_bSectorBuffer v"
  shows "same_drive d (d\<lparr>dd_tree := (dd_tree d)(x \<mapsto> v')\<rparr>)"
proof -
  have "view (d\<lparr>dd_tree := (dd_tree d)(x \<mapsto> v')\<rparr>) = view d"
    using assms(2,3) by (simp add: view_def through_upd through_apply fun_upd_idem)
  moreover have "coherent (d\<lparr>dd_tree := (dd_tree d)(x \<mapsto> v')\<rparr>)"
    using assms by (auto simp: coherent_def insert_absorb domI)
  ultimately show ?thesis by (simp add: same_drive_def)
qed

lemma dirty_fields [simp]:
  "dd_tree (InsertToDirtyList x d) = dd_tree d" "dd_medium (InsertToDirtyList x d) = dd_medium d"
  "dd_lba (InsertToDirtyList x d) = dd_lba d" "dd_enabled (InsertToDirtyList x d) = dd_enabled d"
  "dd_release (InsertToDirtyList x d) = dd_release d" "dd_clock (InsertToDirtyList x d) = dd_clock d"
  "set (dd_dirty (InsertToDirtyList x d)) = insert x (set (dd_dirty d))"
  "distinct (dd_dirty (InsertToDirtyList x d)) = distinct (dd_dirty d)"
  "view (InsertToDirtyList x d) = view d"
  by (auto simp: InsertToDirtyList_def view_def)

lemma coherent_store:
  assumes "coherent d" "dd_tree d x = Some v"
    and d': "d' = InsertToDirtyList x (d\<lparr>dd_tree := (dd_tree d)(x \<mapsto> v')\<rparr>)"
  shows "coherent d'" "view d' = (view d)(x := m_bSectorBuffer v')" "dom (dd_tree d') = dom (dd_tree d)"
    "dd_lba d' = dd_lba d" "md_sectors (dd_medium d') = md_sectors (dd_medium d)"
  using assms(1,2) by (auto simp: d' coherent_def insert_absorb domI view_def through_upd)

lemma view_None: "dd_tree d x = None \<Longrightarrow> md_sectors (dd_medium d) x = view d x"
  by (simp add: view_def through_apply)

lemma CreateValue_buffer [simp]: "m_bSectorBuffer (CreateValue clk b) = b"
  by (simp add: CreateValue_def Value_Write_def)

lemma coherent_add:
  assumes "coherent d" "dd_tree d x = None" "\<not> Cache_Full d" "Cache_Add E x b d = Some d'"
  shows "view d' = (view d)(x := b)" "dom (dd_tree d') = insert x (dom (dd_tree d))" "dd_lba d' = dd_lba d"
    "b = view d x \<Longrightarrow> coherent d'" "coherent (InsertToDirtyList x d')"
proof -
  have d': "d' = d\<lparr>dd_tree := (dd_tree d)(x \<mapsto> CreateValue (dd_clock d) b)\<rparr>"
    using assms(4) by (simp add: Cache_Add_def split: if_splits)
  show "view d' = (view d)(x := b)" "dom (dd_tree d') = insert x (dom (dd_tree d))" "dd_lba d' = dd_lba d"
    by (simp_all add: d' view_def through_upd)
  have "card (insert x (dom (dd_tree d))) \<le> MAX_CACHE_SECTORS"
    using assms(1-3) by (simp add: coherent_def Cache_Full_def card_insert_if)
  then show "coherent (InsertToDirtyList x d')" and "b = view d x \<Longrightarrow> coherent d'"
    using assms(1-3) view_None [OF assms(2)] by (auto simp: coherent_def d' Cache_Full_def)
qed

lemma add_accepted:
  "tree_accepts E \<Longrightarrow> dd_tree d x = None \<Longrightarrow> \<not> Cache_Full d \<Longrightarrow> Cache_Add E x b d \<noteq> None"
  by (simp add: tree_accepts_def Cache_Add_def Cache_Full_def)

lemma coherent_drop_release:
  "coherent d \<Longrightarrow> coherent (d\<lparr>dd_release := [], dd_built := False\<rparr>) \<and> coherent (d\<lparr>dd_built := False\<rparr>)"
  by (simp add: coherent_def)

text \<open>Replacing a clean sector by one whose contents are on the medium changes nothing that is seen.\<close>

lemma coherent_swap:
  assumes ok: "coherent d" and y: "dd_tree d y = Some w" "y \<notin> set (dd_dirty d)" and x: "dd_tree d x = None"
    and rel: "dd_release d = pre @ (y, r) # rest" "\<forall>p \<in> set pre. True" and v: "m_bSectorBuffer v = view d x"
  shows "coherent (d\<lparr>dd_release := rest, dd_tree := (dd_tree d)(y := None, x \<mapsto> v), dd_built := g\<rparr>)"
    "view (d\<lparr>dd_release := rest, dd_tree := (dd_tree d)(y := None, x \<mapsto> v), dd_built := g\<rparr>) = view d"
    "card (dom ((dd_tree d)(y := None))) < MAX_CACHE_SECTORS"
proof -
  have fin: "finite (dom (dd_tree d))" and card: "card (dom (dd_tree d)) \<le> MAX_CACHE_SECTORS"
    using ok by (auto simp: coherent_def)
  have c: "card (dom (dd_tree d) - {y}) < card (dom (dd_tree d))"
    using fin y(1) by (intro psubset_card_mono) auto
  then show "card (dom ((dd_tree d)(y := None))) < MAX_CACHE_SECTORS" using card by simp
  have ne: "x \<noteq> y" using x y by auto
  have "md_sectors (dd_medium d) y = m_bSectorBuffer w" using ok y by (auto simp: coherent_def)
  then show "view (d\<lparr>dd_release := rest, dd_tree := (dd_tree d)(y := None, x \<mapsto> v), dd_built := g\<rparr>) = view d"
    using v x y ne by (simp add: view_def through_upd through_evict [where t = "dd_tree d" and w = w] fun_upd_idem)
  have "card (insert x (dom (dd_tree d) - {y})) \<le> MAX_CACHE_SECTORS"
    using c card fin by (simp add: card_insert_if)
  moreover have "dom ((dd_tree d)(y := None, x \<mapsto> v)) = insert x (dom (dd_tree d) - {y})" using ne by auto
  moreover have "y \<notin> fst ` set rest" "fst ` set rest \<subseteq> dom (dd_tree d)" "distinct (map fst rest)"
    using ok by (auto simp: coherent_def rel)
  ultimately show "coherent (d\<lparr>dd_release := rest, dd_tree := (dd_tree d)(y := None, x \<mapsto> v), dd_built := g\<rparr>)"
    using ok y(2) v x ne fin by (auto simp: coherent_def view_None)
qed

lemma dropWhile_ConsD:
  "dropWhile P xs = y # ys \<Longrightarrow> \<not> P y \<and> (\<exists>pre. xs = pre @ y # ys)"
  by (metis append_Cons dropWhile_eq_Cons_conv takeWhile_dropWhile_id)

lemma coherent_replace:
  assumes E: "tree_accepts E" and ok: "coherent d" and x: "dd_tree d x = None"
    and run: "ReplaceCache E x (view d x) d = (b, d')"
  shows "b \<and> same_drive d d' \<and> dom (dd_tree d') \<subseteq> insert x (dom (dd_tree d))"
proof (cases "dd_built d \<and> dd_release d \<noteq> []")
  case False
  then show ?thesis
    using run ok coherent_drop_release [OF ok] by (auto simp: ReplaceCache_def same_drive_def view_def split: if_splits)
next
  case True
  note built = this
  show ?thesis
  proof (cases "dropWhile (\<lambda>node. fst node \<in> set (dd_dirty d)) (dd_release d)")
    case Nil
    then have "b" "d' = d\<lparr>dd_release := [], dd_built := False\<rparr>"
      using run True by (simp_all only: ReplaceCache_def if_False if_True simp_thms list.case prod.inject)
    then show ?thesis using coherent_drop_release [OF ok] by (simp add: same_drive_def view_def subset_insertI)
  next
    case (Cons node rest)
    obtain y r where node: "node = (y, r)" by (cases node)
    obtain pre where pre: "dd_release d = pre @ (y, r) # rest" and nd: "y \<notin> set (dd_dirty d)"
      using dropWhile_ConsD [OF Cons] node by auto
    obtain w where w: "dd_tree d y = Some w" using ok pre by (auto simp: coherent_def)
    have ne: "x \<noteq> y" using x w by auto
    let ?v = "CreateValue (dd_clock d) (view d x)"
    have v: "m_bSectorBuffer ?v = view d x" by simp
    note sw = coherent_swap [OF ok w nd x pre _ v]
    have acc: "\<not> bt_refuses E x ((dd_tree d)(y := None))"
      using E x ne sw(3) by (simp add: tree_accepts_def)
    have d': "b = True" "d' = d\<lparr>dd_release := rest, dd_tree := (dd_tree d)(y := None, x \<mapsto> ?v),
        dd_built := (if rest = [] then False else dd_built d)\<rparr>"
      using run built Cons node w acc by (auto simp: ReplaceCache_def Let_def)
    have "dom ((dd_tree d)(y := None, x \<mapsto> ?v)) \<subseteq> insert x (dom (dd_tree d))" by auto
    then show ?thesis
      unfolding same_drive_def d' using sw(1,2) by simp
  qed
qed

lemma next_fault_sectors: "next_fault m = (f, m') \<Longrightarrow> md_sectors m' = md_sectors m"
  by (auto simp: next_fault_def split: list.splits)

lemma RawRead_medium:
  assumes "RawRead s n d = (r, d')"
  obtains m where "d' = d\<lparr>dd_medium := m\<rparr>" "md_sectors m = md_sectors (dd_medium d)"
    "\<And>xs. r = Inr xs \<Longrightarrow> xs = map (\<lambda>i. md_sectors (dd_medium d) (s + of_nat i)) [0..<unat n]"
proof (cases "dd_deviceType d \<in> {DEV_FLOPPY, DEV_ATA_IDE, DEV_SCSI_USB_DISK}")
  case False
  then show ?thesis using assms that [of "dd_medium d"] by (auto simp: RawRead_def)
next
  case True
  obtain f m where f: "next_fault (dd_medium d) = (f, m)" by (rule prod.exhaust)
  then show ?thesis using assms that [of m] True next_fault_sectors [OF f]
    by (auto simp: RawRead_def split: if_splits)
qed

lemma medium_same:
  assumes "md_sectors m = md_sectors (dd_medium d)"
  shows "view (d\<lparr>dd_medium := m\<rparr>) = view d" "coherent (d\<lparr>dd_medium := m\<rparr>) = coherent d"
  using assms by (simp_all add: view_def coherent_def)

lemma RawWrite_one:
  assumes "RawWrite x [b] d = (r, d')"
  shows "r = Inr () \<Longrightarrow> md_sectors (dd_medium d') = (md_sectors (dd_medium d))(x := b)"
    "r \<noteq> Inr () \<Longrightarrow> md_sectors (dd_medium d') = md_sectors (dd_medium d)"
  using assms next_fault_sectors [of "dd_medium d"]
  by (auto simp: RawWrite_def overwrite_one split: if_splits prod.splits)


section \<open>The loops\<close>

text \<open>\<open>secs s is\<close>: the sectors at the indices \<open>is\<close> of a transfer that starts at \<open>s\<close>.\<close>

definition secs :: "u32 \<Rightarrow> nat list \<Rightarrow> u32 list" where
  "secs s is = map (\<lambda>i. s + of_nat i) is"

lemma secs_simps [simp]: "secs s [] = []" "secs s (i # is) = (s + of_nat i) # secs s is"
  by (simp_all add: secs_def)

lemma unat_sec: "unat (s :: u32) + i < 4294967296 \<Longrightarrow> unat (s + of_nat i) = unat s + i"
  by (simp add: unat_add_no_wrap of_nat_unat_u32)

lemma sec_index: "i < 4294967296 \<Longrightarrow> unat ((s :: u32) + of_nat i - s) = i"
  by (simp add: of_nat_unat_u32)

lemma sec_inj:
  "i < 4294967296 \<Longrightarrow> j < 4294967296 \<Longrightarrow> (s :: u32) + of_nat i = s + of_nat j \<longleftrightarrow> i = j"
  by (metis sec_index)

lemma upt32_secs:
  assumes "a \<le> b" "unat (s :: u32) + b < 4294967296"
  shows "upt32 (s + of_nat a) (s + of_nat b) = secs s [a..<b]"
proof -
  have "upt32 (s + of_nat a) (s + of_nat b) = map (\<lambda>i. s + of_nat (i + a)) [0..<b - a]"
    using assms by (simp add: upt32_def unat_sec ac_simps)
  also have "\<dots> = map (\<lambda>i. s + of_nat i) (map (\<lambda>i. i + a) [0..<b - a])" by simp
  also have "map (\<lambda>i. i + a) [0..<b - a] = [a..<b]" using assms(1) by (simp add: map_add_upt)
  finally show ?thesis by (simp add: secs_def)
qed

lemma Read_cached_spec:
  assumes "coherent d" "length buf < 4294967296" "\<forall>i\<in>set is. i < length buf \<and> dd_tree d (s + of_nat i) \<noteq> None"
  shows "\<exists>buf' d'. Read_cached s (secs s is) buf d = Some (buf', d') \<and> same_drive d d' \<and>
    dom (dd_tree d') = dom (dd_tree d) \<and> md_sectors (dd_medium d') = md_sectors (dd_medium d) \<and>
    length buf' = length buf \<and>
    (\<forall>j < length buf. buf' ! j = (if j \<in> set is then view d (s + of_nat j) else buf ! j))"
  using assms
proof (induction "is" arbitrary: buf d)
  case Nil
  then show ?case by (simp add: same_drive_def)
next
  case (Cons i "is")
  obtain v where v: "dd_tree d (s + of_nat i) = Some v" using Cons.prems(3) by auto
  obtain b v' where bv: "Value_Read (dd_clock d) v = (b, v')" by (rule prod.exhaust)
  then have b: "b = view d (s + of_nat i)" and v': "m_bSectorBuffer v' = m_bSectorBuffer v"
    using v by (auto simp: Value_Read_def view_def through_apply)
  obtain d1 where d1: "d1 = d\<lparr>dd_tree := (dd_tree d)(s + of_nat i \<mapsto> v')\<rparr>" by blast
  have sd: "same_drive d d1" unfolding d1 by (rule coherent_touch [OF Cons.prems(1) v v'])
  have dm: "dom (dd_tree d1) = dom (dd_tree d)" "md_sectors (dd_medium d1) = md_sectors (dd_medium d)"
    using v by (auto simp: d1)
  have "\<forall>j\<in>set is. j < length (buf[i := b]) \<and> dd_tree d1 (s + of_nat j) \<noteq> None"
    using Cons.prems(3) by (auto simp: d1)
  moreover have "coherent d1" using sd by (simp add: same_drive_def)
  ultimately obtain buf' d' where r: "Read_cached s (secs s is) (buf[i := b]) d1 = Some (buf', d')"
      "same_drive d1 d'" "dom (dd_tree d') = dom (dd_tree d1)" "length buf' = length buf"
      "md_sectors (dd_medium d') = md_sectors (dd_medium d1)"
      "\<forall>j < length buf. buf' ! j = (if j \<in> set is then view d1 (s + of_nat j) else buf[i := b] ! j)"
    using Cons.IH [of d1 "buf[i := b]"] Cons.prems(2) by auto
  have "Read_cached s (secs s (i # is)) buf d = Some (buf', d')"
    using v bv r(1) Cons.prems(2,3) by (simp add: of_nat_unat_u32 d1)
  moreover have "\<forall>j < length buf. buf' ! j = (if j \<in> set (i # is) then view d (s + of_nat j) else buf ! j)"
    using r(6) sd b by (auto simp: same_drive_def nth_list_update)
  moreover have "same_drive d d'" using sd r(2) by (simp add: same_drive_def)
  ultimately show ?case using r(3-5) dm by auto
qed

lemma Read_fill_spec:
  assumes "tree_accepts E" "coherent d" "length buf < 4294967296" "distinct is"
    "\<forall>i\<in>set is. i < length buf \<and>
       (\<not> cached (s + of_nat i) \<longrightarrow> dd_tree d (s + of_nat i) = None \<and> buf ! i = md_sectors (dd_medium d) (s + of_nat i))"
    "Read_fill E s cached (secs s is) buf d = Some (buf', d')"
  shows "same_drive d d' \<and> length buf' = length buf \<and>
    (\<forall>j < length buf. buf' ! j = (if j \<in> set is then view d (s + of_nat j) else buf ! j))"
  using assms
proof (induction "is" arbitrary: buf d)
  case Nil
  then show ?case by (simp add: same_drive_def)
next
  case (Cons i "is")
  let ?x = "s + of_nat i"
  have i: "i < length buf" using Cons.prems(5) by simp
  have ix: "unat (?x - s) = i" using i Cons.prems(3) by (simp add: of_nat_unat_u32)
  have step: ?case
    if sd: "same_drive d d1" and run: "Read_fill E s cached (secs s is) (buf[i := view d ?x]) d1 = Some (buf', d')"
      and dm: "\<And>j. j \<in> set is \<Longrightarrow> \<not> cached (s + of_nat j) \<Longrightarrow> dd_tree d1 (s + of_nat j) = None" for d1
  proof -
    have "buf[i := view d ?x] ! j = md_sectors (dd_medium d1) (s + of_nat j)"
      if j: "j \<in> set is" "\<not> cached (s + of_nat j)" for j
    proof -
      have "buf ! j = view d (s + of_nat j)" "i \<noteq> j" using Cons.prems(4,5) j by (auto simp: view_None)
      moreover have "view d1 (s + of_nat j) = md_sectors (dd_medium d1) (s + of_nat j)"
        using view_None [OF dm [OF j]] by simp
      ultimately show ?thesis using sd by (simp add: same_drive_def)
    qed
    then have "same_drive d1 d' \<and> length buf' = length (buf[i := view d ?x]) \<and>
        (\<forall>j < length (buf[i := view d ?x]). buf' ! j =
          (if j \<in> set is then view d1 (s + of_nat j) else buf[i := view d ?x] ! j))"
      using Cons.prems dm sd run by (intro Cons.IH) (auto simp: same_drive_def)
    then show ?thesis using sd by (auto simp: same_drive_def nth_list_update)
  qed
  have new: "dd_tree d1 (s + of_nat j) = None"
    if "dom (dd_tree d1) \<subseteq> insert ?x (dom (dd_tree d))" "j \<in> set is" "\<not> cached (s + of_nat j)" for d1 j
  proof -
    have "s + of_nat j \<noteq> ?x" "dd_tree d (s + of_nat j) = None"
      using that(2,3) Cons.prems(3,4,5) sec_inj [of j i s] by (auto dest!: bspec)
    then show ?thesis using that(1) by auto
  qed
  show ?case
  proof (cases "cached ?x")
    case False
    have none: "dd_tree d ?x = None" and b: "buf ! i = view d ?x"
      using Cons.prems(5) False by (auto simp: view_None)
    have keep: "buf[i := view d ?x] = buf" using b i by (metis list_update_id)
    show ?thesis
    proof (cases "Cache_Full d")
      case True
      obtain r d1 where rep: "ReplaceCache E ?x (view d ?x) d = (r, d1)" by (rule prod.exhaust)
      note rs = coherent_replace [OF Cons.prems(1,2) none rep]
      then show ?thesis
        using Cons.prems(6) False True rep b ix keep new by (intro step [of d1]) auto
    next
      case full: False
      obtain d1 where add: "Cache_Add E ?x (view d ?x) d = Some d1"
        using add_accepted [OF Cons.prems(1) none full] by auto
      note ca = coherent_add [OF Cons.prems(2) none full add]
      have "same_drive d d1" using ca by (simp add: same_drive_def fun_upd_idem)
      moreover have "dom (dd_tree d1) \<subseteq> insert ?x (dom (dd_tree d))" using ca(2) by simp
      ultimately show ?thesis
        using Cons.prems(6) False full add b ix keep new by (intro step [of d1]) auto
    qed
  next
    case True
    obtain v where v: "dd_tree d ?x = Some v" using Cons.prems(6) True by (auto split: option.splits)
    obtain b v' where bv: "Value_Read (dd_clock d) v = (b, v')" by (rule prod.exhaust)
    then have b: "b = view d ?x" and v': "m_bSectorBuffer v' = m_bSectorBuffer v"
      using v by (auto simp: Value_Read_def view_def through_apply)
    let ?d1 = "d\<lparr>dd_tree := (dd_tree d)(?x \<mapsto> v')\<rparr>"
    have "dom (dd_tree ?d1) \<subseteq> insert ?x (dom (dd_tree d))" by auto
    then show ?thesis
      using Cons.prems(6) True v bv b ix new coherent_touch [OF Cons.prems(2) v v'] by (intro step [of ?d1]) auto
  qed
qed


text \<open>The first and the last sector of a transfer that are not in the cache, as indices.\<close>

definition first_missing :: "(u32 \<Rightarrow> bool) \<Rightarrow> u32 \<Rightarrow> nat \<Rightarrow> nat" where
  "first_missing cached s n =
     (let M = filter (\<lambda>i. \<not> cached (s + of_nat i)) [0..<n] in if M = [] then n else hd M)"

definition last_missing :: "(u32 \<Rightarrow> bool) \<Rightarrow> u32 \<Rightarrow> nat \<Rightarrow> nat" where
  "last_missing cached s n =
     (let M = filter (\<lambda>i. \<not> cached (s + of_nat i)) [0..<n] in if M = [] then n else last M)"

lemma sorted_hd_last:
  assumes "sorted xs" "x \<in> set xs"
  shows "hd xs \<le> x" "x \<le> (last xs :: nat)"
  using assms by (induction xs) auto

lemma missing_bounds:
  defines "M \<equiv> \<lambda>cached s n. filter (\<lambda>i. \<not> cached ((s::u32) + of_nat i)) [0..<n]"
  assumes "first_missing cached s n = a" "last_missing cached s n = l"
  shows "M cached s n = [] \<and> a = n \<and> l = n \<and> (\<forall>i<n. cached (s + of_nat i)) \<or>
    M cached s n \<noteq> [] \<and> a \<le> l \<and> l < n \<and> a = hd (M cached s n) \<and> l = last (M cached s n) \<and>
    (\<forall>i<n. i < a \<or> l < i \<longrightarrow> cached (s + of_nat i))"
proof (cases "M cached s n = []")
  case True
  then show ?thesis using assms by (auto simp: first_missing_def last_missing_def filter_empty_conv)
next
  case False
  have "sorted (M cached s n)" by (simp add: M_def sorted_wrt_filter)
  note hl = sorted_hd_last [OF this]
  have "a = hd (M cached s n)" "l = last (M cached s n)"
    using False assms by (simp_all add: first_missing_def last_missing_def M_def)
  moreover have "last (M cached s n) \<in> set (M cached s n)" using False by simp
  ultimately show ?thesis using False hl by (force simp: M_def)
qed

lemma transfer_breaks:
  fixes cached :: "u32 \<Rightarrow> bool"
  assumes "unat (s :: u32) + n < 4294967295"
  defines "miss \<equiv> filter (\<lambda>x. \<not> cached x) (upt32 s (s + of_nat n))"
  shows "(if miss = [] then s + of_nat n else hd miss) = s + of_nat (first_missing cached s n)"
    "(if miss = [] then s + of_nat n else last miss) = s + of_nat (last_missing cached s n)"
proof -
  have "upt32 s (s + of_nat n) = secs s [0..<n]"
    using upt32_secs [of 0 n s] assms by simp
  then have "miss = secs s (filter (\<lambda>i. \<not> cached (s + of_nat i)) [0..<n])"
    by (simp add: miss_def secs_def filter_map comp_def)
  then show "(if miss = [] then s + of_nat n else hd miss) = s + of_nat (first_missing cached s n)"
    "(if miss = [] then s + of_nat n else last miss) = s + of_nat (last_missing cached s n)"
    by (auto simp: first_missing_def last_missing_def secs_def Let_def hd_map last_map)
qed

lemma transfer_segments:
  assumes n: "unat (s :: u32) + n < 4294967295"
    and a: "first_missing cached s n = a" and l: "last_missing cached s n = l"
  shows "upt32 s (s + of_nat a) = secs s [0..<a]" "a \<le> n" "l \<le> n"
    "upt32 (s + of_nat l + 1) (s + of_nat n) = secs s [l + 1..<n]"
    "s + of_nat a < s + of_nat n \<longleftrightarrow> a < n"
    "unat (s + of_nat l) + 1 - unat (s + of_nat a) = l + 1 - a"
    "map (\<lambda>i. s + of_nat a + of_nat i) [0..<l + 1 - a] = secs s [a..<l + 1]"
    "unat (s + of_nat a - s) = a"
    "a < n \<Longrightarrow> unat (s + of_nat l - (s + of_nat a) + 1) = l + 1 - a"
proof -
  show an: "a \<le> n" "l \<le> n" using missing_bounds [OF a l] by linarith+
  then show "upt32 s (s + of_nat a) = secs s [0..<a]" using upt32_secs [of 0 a s] n by simp
  have eq: "s + of_nat l + 1 = s + of_nat (l + 1)" by simp
  show "upt32 (s + of_nat l + 1) (s + of_nat n) = secs s [l + 1..<n]"
  proof (cases "l < n")
    case True
    then show ?thesis unfolding eq by (intro upt32_secs) (use n in auto)
  next
    case False
    have "unat (s + of_nat (l + 1)) = unat s + (l + 1)" "unat (s + of_nat n) = unat s + n"
      by (rule unat_sec, use n an in simp)+
    then show ?thesis using False an by (simp only: eq upt32_def) simp
  qed
  show "s + of_nat a < s + of_nat n \<longleftrightarrow> a < n" using n an by (simp add: word_less_nat_alt unat_sec)
  show "unat (s + of_nat l) + 1 - unat (s + of_nat a) = l + 1 - a" using n an by (simp add: unat_sec)
  show "unat (s + of_nat a - s) = a" using n an by (simp add: of_nat_unat_u32)
  have "map (\<lambda>i. s + of_nat a + of_nat i) [0..<l + 1 - a] = map (\<lambda>i. s + of_nat i) (map (\<lambda>i. i + a) [0..<l + 1 - a])"
    by (simp add: ac_simps)
  also have "map (\<lambda>i. i + a) [0..<l + 1 - a] = [a..<l + 1]"
    by (cases "a \<le> l + 1") (simp_all add: map_add_upt)
  finally show "map (\<lambda>i. s + of_nat a + of_nat i) [0..<l + 1 - a] = secs s [a..<l + 1]" by (simp add: secs_def)
  assume "a < n"
  then have "a \<le> l" "l < n" using missing_bounds [OF a l] by linarith+
  then have "s + of_nat l - (s + of_nat a) + 1 = of_nat (l + 1 - a)" by simp
  then show "unat (s + of_nat l - (s + of_nat a) + 1) = l + 1 - a"
    using n an by (simp only: of_nat_unat_u32)
qed


section \<open>Reads and writes\<close>

text \<open>\<open>Drive_Read\<close> in terms of indices.\<close>

lemma Drive_Read_breaks:
  assumes en: "dd_enabled d" and n: "unat (s0 + dd_lba d) + unat n < 4294967295"
    and s: "s = s0 + dd_lba d" and a: "first_missing (\<lambda>x. dd_tree d x \<noteq> None) s (unat n) = a"
    and l: "last_missing (\<lambda>x. dd_tree d x \<noteq> None) s (unat n) = l"
  shows "Drive_Read E s0 n buf d =
    (case Read_cached s (secs s [0..<a]) buf d of
       None \<Rightarrow> None
     | Some (buf, d1) \<Rightarrow>
         (case Read_cached s (secs s [l + 1..<unat n]) buf d1 of
            None \<Rightarrow> None
          | Some (buf, d2) \<Rightarrow>
              if a < unat n then
                (case RawRead (s + of_nat a) (s + of_nat l - (s + of_nat a) + 1) d2 of
                   (Inl e, d3) \<Rightarrow> Some (Inl e, buf, d3)
                 | (Inr xs, d3) \<Rightarrow>
                     map_option (\<lambda>(buf, d4). (Inr (), buf, d4))
                       (Read_fill E s (\<lambda>x. dd_tree d x \<noteq> None) (secs s [a..<l + 1]) (patch buf a xs) d3))
              else Some (Inr (), buf, d2)))"
proof -
  have n': "unat s + unat n < 4294967295" using n s by simp
  have e: "s + n = s + of_nat (unat n)" by simp
  note br = transfer_breaks [OF n', of "\<lambda>x. dd_tree d x \<noteq> None", unfolded a l]
  note seg = transfer_segments [OF n' a l]
  show ?thesis
    unfolding Drive_Read_def s [symmetric] Let_def
    by (simp only: en not_True_eq_False if_False e br seg)
qed

lemma length_patch [simp]: "pos + length bs \<le> length img \<Longrightarrow> length (patch img pos bs) = length img"
  by (simp add: patch_def)

lemma patch_Nil [simp]: "patch img pos [] = img"
  by (simp add: patch_def)

lemma patch_patch:
  assumes "pos + length bs + length cs \<le> length img"
  shows "patch (patch img pos bs) (pos + length bs) cs = patch img pos (bs @ cs)"
  using assms by (simp add: patch_def ac_simps)

lemma patch_nth:
  assumes "i + length xs \<le> length buf"
  shows "length (patch buf i xs) = length buf"
    "j < length buf \<Longrightarrow> patch buf i xs ! j = (if i \<le> j \<and> j < i + length xs then xs ! (j - i) else buf ! j)"
  using assms by (auto simp: patch_def nth_append)

lemma Drive_Read_spec:
  assumes E: "tree_accepts E" and ok: "coherent d" and n: "unat (s0 + dd_lba d) + unat n < 4294967295"
    and len: "length buf = unat n" and run: "Drive_Read E s0 n buf d = Some (r, buf', d')"
  shows "same_drive d d' \<and> (r = Inr () \<longrightarrow> buf' = map (\<lambda>i. view d (s0 + dd_lba d + of_nat i)) [0..<unat n])"
proof -
  define s where "s = s0 + dd_lba d"
  let ?c = "\<lambda>x. dd_tree d x \<noteq> None"
  define a where "a = first_missing ?c s (unat n)"
  define l where "l = last_missing ?c s (unat n)"
  have n': "unat s + unat n < 4294967295" using n s_def by simp
  have lb: "length buf < 4294967296" using len n' by simp
  have mb: "a = unat n \<and> l = unat n \<and> (\<forall>i<unat n. ?c (s + of_nat i)) \<or>
      a \<le> l \<and> l < unat n \<and> (\<forall>i<unat n. i < a \<or> l < i \<longrightarrow> ?c (s + of_nat i))"
    using missing_bounds [OF a_def [symmetric] l_def [symmetric]] by blast
  have an: "a \<le> unat n" using mb by linarith
  note rd = Drive_Read_breaks [OF _ n s_def a_def [symmetric] l_def [symmetric], of E buf]
  have c1: "\<forall>i\<in>set [0..<a]. i < length buf \<and> dd_tree d (s + of_nat i) \<noteq> None"
    using mb an len by auto
  obtain b1 d1 where r1: "Read_cached s (secs s [0..<a]) buf d = Some (b1, d1)" "same_drive d d1"
      "dom (dd_tree d1) = dom (dd_tree d)" "length b1 = length buf"
      "\<forall>j < length buf. b1 ! j = (if j \<in> set [0..<a] then view d (s + of_nat j) else buf ! j)"
    using Read_cached_spec [OF ok lb c1] by blast
  have ok1: "coherent d1" using r1(2) by (simp add: same_drive_def)
  have c2: "\<forall>i\<in>set [l + 1..<unat n]. i < length b1 \<and> dd_tree d1 (s + of_nat i) \<noteq> None"
    using mb len r1(3,4) by (auto simp: dom_def set_eq_iff)
  have lb1: "length b1 < 4294967296" using lb r1(4) by simp
  obtain b2 d2 where r2: "Read_cached s (secs s [l + 1..<unat n]) b1 d1 = Some (b2, d2)" "same_drive d1 d2"
      "dom (dd_tree d2) = dom (dd_tree d1)" "length b2 = length b1"
      "\<forall>j < length b1. b2 ! j = (if j \<in> set [l + 1..<unat n] then view d1 (s + of_nat j) else b1 ! j)"
    using Read_cached_spec [OF ok1 lb1 c2] by blast
  have sd2: "same_drive d d2" using r1(2) r2(2) by (simp add: same_drive_def)
  have b2: "b2 ! j = view d (s + of_nat j)" if "j < unat n" "j < a \<or> l < j" for j
    using that r2(5) r1(5) r1(2,4) len by (auto simp: same_drive_def)
  have en: "dd_enabled d" using ok by (simp add: coherent_def)
  show ?thesis
  proof (cases "a < unat n")
    case False
    then have "a = unat n" using an by simp
    then have "r = Inr ()" "buf' = b2" "d' = d2" using run rd [OF en] r1(1) r2(1) by simp_all
    moreover have "buf' = map (\<lambda>i. view d (s + of_nat i)) [0..<unat n]"
      using calculation b2 False r1(4) r2(4) len an by (intro nth_equalityI) auto
    ultimately show ?thesis using sd2 s_def by simp
  next
    case True
    have al: "a \<le> l" "l < unat n" using mb True by linarith+
    obtain r3 d3 where r3: "RawRead (s + of_nat a) (s + of_nat l - (s + of_nat a) + 1) d2 = (r3, d3)"
      by (rule prod.exhaust)
    obtain m where m: "d3 = d2\<lparr>dd_medium := m\<rparr>" "md_sectors m = md_sectors (dd_medium d2)"
        "\<And>xs. r3 = Inr xs \<Longrightarrow> xs = map (\<lambda>i. md_sectors (dd_medium d2) (s + of_nat a + of_nat i)) [0..<l + 1 - a]"
      using RawRead_medium [OF r3] transfer_segments(9) [OF n' a_def [symmetric] l_def [symmetric] True] by metis
    have sd3: "same_drive d d3" using sd2 medium_same [OF m(2)] m(1) by (simp add: same_drive_def)
    show ?thesis
    proof (cases r3)
      case (Inl e)
      then show ?thesis using run rd [OF en] r1(1) r2(1) r3 True sd3 by auto
    next
      case (Inr xs)
      have xs: "xs = map (\<lambda>i. md_sectors (dd_medium d2) (s + of_nat a + of_nat i)) [0..<l + 1 - a]"
        by (rule m(3) [OF Inr])
      have pl: "a + length xs \<le> length b2" using xs al r1(4) r2(4) len by simp
      have rf: "Read_fill E s ?c (secs s [a..<l + 1]) (patch b2 a xs) d3 = Some (buf', d')" "r = Inr ()"
        using run rd [OF en] r1(1) r2(1) r3 True Inr by (auto split: option.splits)
      have "i < length (patch b2 a xs) \<and> (\<not> ?c (s + of_nat i) \<longrightarrow> dd_tree d3 (s + of_nat i) = None \<and>
          patch b2 a xs ! i = md_sectors (dd_medium d3) (s + of_nat i))" if "i \<in> set [a..<l + 1]" for i
      proof -
        have i: "a \<le> i" "i < l + 1" "i < length b2" using that al r1(4) r2(4) len by auto
        have "dd_tree d3 (s + of_nat i) = None" if "\<not> ?c (s + of_nat i)"
        proof -
          have "s + of_nat i \<notin> dom (dd_tree d2)" unfolding r2(3) r1(3) using that by auto
          then show ?thesis by (auto simp: m(1))
        qed
        moreover have "xs ! (i - a) = md_sectors (dd_medium d2) (s + of_nat i)"
          using i by (simp add: xs less_diff_conv2 add.assoc flip: of_nat_add)
        ultimately show ?thesis using patch_nth [OF pl] i m(1,2) by (simp add: xs)
      qed
      then have fill: "same_drive d3 d' \<and> length buf' = length (patch b2 a xs) \<and>
          (\<forall>j < length (patch b2 a xs). buf' ! j =
             (if j \<in> set [a..<l + 1] then view d3 (s + of_nat j) else patch b2 a xs ! j))"
        using rf(1) sd3 patch_nth(1) [OF pl] lb r1(4) r2(4)
        by (intro Read_fill_spec [OF E]) (auto simp: same_drive_def)
      have "buf' ! j = view d (s + of_nat j)" if "j < unat n" for j
        using that fill sd3 b2 [OF that] patch_nth [OF pl] xs r1(4) r2(4) len
        by (cases "a \<le> j \<and> j \<le> l") (auto simp: same_drive_def)
      then have "buf' = map (\<lambda>i. view d (s + of_nat i)) [0..<unat n]"
        using fill patch_nth(1) [OF pl] r1(4) r2(4) len by (intro nth_equalityI) auto
      then show ?thesis using fill sd3 s_def by (simp add: same_drive_def)
    qed
  qed
qed


text \<open>A read is defined when it does not evict sectors of its own range: one sector, or no release
  list.\<close>

lemma ReplaceCache_unbuilt: "\<not> dd_built d \<Longrightarrow> ReplaceCache E x b d = (True, d)"
  by (simp add: ReplaceCache_def)

lemma Read_fill_defined:
  assumes "(\<forall>x\<in>set xs. \<not> cached x) \<or> \<not> dd_built d \<and> (\<forall>x\<in>set xs. cached x \<longrightarrow> dd_tree d x \<noteq> None)"
  shows "Read_fill E s cached xs buf d \<noteq> None"
  using assms
proof (induction xs arbitrary: buf d)
  case (Cons x xs)
  show ?case
  proof (cases "\<forall>x\<in>set (x # xs). \<not> cached x")
    case True
    then show ?thesis using Cons.IH by (auto split: prod.splits bool.splits option.splits)
  next
    case False
    then have nb: "\<not> dd_built d" and t: "\<forall>x\<in>set (x # xs). cached x \<longrightarrow> dd_tree d x \<noteq> None"
      using Cons.prems by auto
    have IH: "Read_fill E s cached xs b d1 \<noteq> None"
      if "\<not> dd_built d1" "dom (dd_tree d) \<subseteq> dom (dd_tree d1)" for b d1
    proof (rule Cons.IH)
      show "(\<forall>x\<in>set xs. \<not> cached x) \<or> \<not> dd_built d1 \<and> (\<forall>x\<in>set xs. cached x \<longrightarrow> dd_tree d1 x \<noteq> None)"
        using that t by fastforce
    qed
    have "Read_fill E s cached xs b d \<noteq> None" for b using IH [of d] nb by simp
    moreover have "Read_fill E s cached xs b d1 \<noteq> None" if "Cache_Add E x b2 d = Some d1" for b b2 d1
      using that nb by (intro IH) (auto simp: Cache_Add_def split: if_splits)
    moreover have "Read_fill E s cached xs b (d\<lparr>dd_tree := (dd_tree d)(x \<mapsto> v)\<rparr>) \<noteq> None" for b v
      using nb by (intro IH) auto
    ultimately show ?thesis
      using t by (auto simp: ReplaceCache_unbuilt [OF nb] Value_Read_def split: option.splits)
  qed
qed simp

lemma Drive_Read_one_defined:
  assumes ok: "coherent d" and n: "unat (s0 + dd_lba d) + 1 < 4294967295"
  shows "Drive_Read E s0 1 [b] d \<noteq> None"
proof -
  define s where "s = s0 + dd_lba d"
  have en: "dd_enabled d" using ok by (simp add: coherent_def)
  show ?thesis
  proof (cases "dd_tree d s")
    case None
    then have "first_missing (\<lambda>x. dd_tree d x \<noteq> None) s 1 = 0" "last_missing (\<lambda>x. dd_tree d x \<noteq> None) s 1 = 0"
      by (simp_all add: first_missing_def last_missing_def)
    then have "Drive_Read E s0 1 [b] d = (case RawRead (s + of_nat 0) (s + of_nat 0 - (s + of_nat 0) + 1) d of
          (Inl e, d3) \<Rightarrow> Some (Inl e, [b], d3)
        | (Inr xs, d3) \<Rightarrow> map_option (\<lambda>(buf, d4). (Inr (), buf, d4))
            (Read_fill E s (\<lambda>x. dd_tree d x \<noteq> None) (secs s [0..<0 + 1]) (patch [b] 0 xs) d3))"
      using Drive_Read_breaks [OF en, of s0 1 s 0 0 E "[b]"] n s_def by simp
    moreover have "Read_fill E s (\<lambda>x. dd_tree d x \<noteq> None) (secs s [0..<0 + 1]) bf d3 \<noteq> None" for bf d3
      using None by (intro Read_fill_defined) simp
    ultimately show ?thesis by (auto split: prod.splits sum.splits)
  next
    case (Some v)
    then have "first_missing (\<lambda>x. dd_tree d x \<noteq> None) s 1 = 1" "last_missing (\<lambda>x. dd_tree d x \<noteq> None) s 1 = 1"
      by (simp_all add: first_missing_def last_missing_def)
    then show ?thesis
      using Drive_Read_breaks [OF en, of s0 1 s 1 1 E "[b]"] n s_def Some
      by (simp add: Value_Read_def)
  qed
qed

subsection \<open>Writes\<close>

definition wrote :: "u32 \<Rightarrow> sector list \<Rightarrow> nat list \<Rightarrow> (u32 \<Rightarrow> sector) \<Rightarrow> u32 \<Rightarrow> sector" where
  "wrote s buf is f x = (if x \<in> set (secs s is) then buf ! unat (x - s) else f x)"

lemma wrote_Cons:
  assumes "i < 4294967296"
  shows "wrote s buf is (f(s + of_nat i := buf ! i)) = wrote s buf (i # is) f"
  using assms by (auto simp: wrote_def fun_eq_iff of_nat_unat_u32)

lemma wrote_Nil [simp]: "wrote s buf [] f = f"
  by (simp add: wrote_def fun_eq_iff)

lemma Write_cached_spec:
  assumes "coherent d" "length buf < 4294967296" "\<forall>i\<in>set is. i < length buf \<and> dd_tree d (s + of_nat i) \<noteq> None"
  shows "\<exists>d'. Write_cached s (secs s is) buf d = Some d' \<and> coherent d' \<and> dd_lba d' = dd_lba d \<and>
    dom (dd_tree d') = dom (dd_tree d) \<and> view d' = wrote s buf is (view d)"
  using assms
proof (induction "is" arbitrary: d)
  case (Cons i "is")
  let ?x = "s + of_nat i"
  have i: "i < 4294967296" using Cons.prems(2,3) by simp
  obtain v where v: "dd_tree d ?x = Some v" using Cons.prems(3) by auto
  obtain d1 where d1: "d1 = InsertToDirtyList ?x
      (d\<lparr>dd_tree := (dd_tree d)(?x \<mapsto> Value_Write (dd_clock d) (buf ! i) v)\<rparr>)" by blast
  note st = coherent_store [OF Cons.prems(1) v d1]
  have "\<forall>j\<in>set is. j < length buf \<and> dd_tree d1 (s + of_nat j) \<noteq> None"
    using Cons.prems(3) by (simp add: d1)
  from Cons.IH [OF st(1) Cons.prems(2) this] obtain d' where d': "Write_cached s (secs s is) buf d1 = Some d'"
      "coherent d'" "dd_lba d' = dd_lba d1" "dom (dd_tree d') = dom (dd_tree d1)" "view d' = wrote s buf is (view d1)"
    by blast
  have "Write_cached s (secs s (i # is)) buf d = Some d'"
    using v d'(1) i by (simp add: d1 of_nat_unat_u32)
  moreover have "view d' = wrote s buf (i # is) (view d)"
    using d'(5) st(2) wrote_Cons [OF i] by (simp add: Value_Write_def)
  ultimately show ?case using d' st by auto
qed simp

text \<open>The outcome of a write: everything on success, a part of it on failure.\<close>

definition write_outcome ::
  "u32 \<Rightarrow> sector list \<Rightarrow> nat list \<Rightarrow> 'r drive \<Rightarrow> drive_error + unit \<Rightarrow> 'r drive \<Rightarrow> bool" where
  "write_outcome s buf is d r d' \<longleftrightarrow> coherent d' \<and> dd_lba d' = dd_lba d \<and>
     (r = Inr () \<longrightarrow> view d' = wrote s buf is (view d)) \<and>
     (\<forall>x. view d' x = view d x \<or> view d' x = wrote s buf is (view d) x)"

lemma write_outcome_Cons:
  assumes "write_outcome s buf is d1 r d'" "view d1 = (view d)(s + of_nat i := buf ! i)" "dd_lba d1 = dd_lba d"
    "i < 4294967296"
  shows "write_outcome s buf (i # is) d r d'"
proof -
  have w: "wrote s buf (i # is) (view d) = wrote s buf is (view d1)"
    using wrote_Cons [OF assms(4)] assms(2) by metis
  have "view d1 x = view d x \<or> view d1 x = wrote s buf (i # is) (view d) x" for x
    using assms(2,4) by (auto simp: wrote_def of_nat_unat_u32)
  moreover have "wrote s buf is (view d1) x = view d1 x \<or> wrote s buf is (view d1) x = buf ! unat (x - s)" for x
    by (simp add: wrote_def)
  ultimately show ?thesis using assms(1,3) unfolding write_outcome_def w by metis
qed

lemma RawWrite_missing:
  assumes "coherent d" "dd_tree d x = None" "RawWrite x [b] d = (r, d1)"
  shows "coherent d1" "dd_tree d1 = dd_tree d" "dd_lba d1 = dd_lba d" "r = Inr () \<Longrightarrow> view d1 = (view d)(x := b)"
    "r \<noteq> Inr () \<Longrightarrow> view d1 = view d"
proof -
  note f = RawWrite_fields [OF assms(3)] and w = RawWrite_one [OF assms(3)]
  show "dd_tree d1 = dd_tree d" "dd_lba d1 = dd_lba d" using f by simp_all
  show "r = Inr () \<Longrightarrow> view d1 = (view d)(x := b)" using f w(1) assms(2) by (simp add: view_def through_medium(2))
  show "r \<noteq> Inr () \<Longrightarrow> view d1 = view d" using f w(2) by (simp add: view_def)
  have "md_sectors (dd_medium d1) y = md_sectors (dd_medium d) y" if "y \<noteq> x" for y
    using w that by (cases "r = Inr ()") auto
  then show "coherent d1" using assms(1,2) f unfolding coherent_def by (metis option.distinct(1))
qed

lemma Write_fill_spec:
  assumes "tree_accepts E" "coherent d" "length buf < 4294967296" "distinct is"
    "\<forall>i\<in>set is. i < length buf \<and> (\<not> cached (s + of_nat i) \<longrightarrow> dd_tree d (s + of_nat i) = None)"
    "Write_fill E s cached f n (secs s is) buf d = Some (r, d')"
  shows "write_outcome s buf is d r d'"
  using assms
proof (induction "is" arbitrary: d)
  case Nil
  then show ?case by (simp add: write_outcome_def)
next
  case (Cons i "is")
  let ?x = "s + of_nat i" and ?b = "buf ! i"
  have i: "i < 4294967296" using Cons.prems(3,5) by simp
  have ix: "unat (?x - s) = i" using i by (simp add: of_nat_unat_u32)
  have step: ?case
    if "coherent d1" "view d1 = (view d)(?x := ?b)" "dd_lba d1 = dd_lba d"
      "dom (dd_tree d1) \<subseteq> insert ?x (dom (dd_tree d))"
      "Write_fill E s cached f n (secs s is) buf d1 = Some (r, d')" for d1
  proof (rule write_outcome_Cons [OF _ that(2,3) i])
    have "j < length buf \<and> (\<not> cached (s + of_nat j) \<longrightarrow> dd_tree d1 (s + of_nat j) = None)" if j: "j \<in> set is" for j
    proof -
      have "s + of_nat j \<noteq> ?x" using j Cons.prems(3,4,5) sec_inj [of j i s] by (auto dest!: bspec)
      then show ?thesis using Cons.prems(5) j \<open>dom (dd_tree d1) \<subseteq> _\<close> by auto
    qed
    then show "write_outcome s buf is d1 r d'"
      using Cons.prems(1,3,4) that(1,5) by (intro Cons.IH) auto
  qed
  show ?case
  proof (cases "cached ?x")
    case False
    then have none: "dd_tree d ?x = None" using Cons.prems(5) by simp
    show ?thesis
    proof (cases "Cache_Full d")
      case True
      obtain r1 d1 where w: "RawWrite ?x [?b] d = (r1, d1)" by (rule prod.exhaust)
      note rw = RawWrite_missing [OF Cons.prems(2) none w]
      show ?thesis
      proof (cases r1)
        case (Inl e)
        then have "r = Inl e" "d' = d1" using Cons.prems(6) False True w ix by simp_all
        then show ?thesis using rw(1,3,5) Inl by (simp add: write_outcome_def)
      next
        case (Inr u)
        have v1: "view d1 = (view d)(?x := ?b)" and none1: "dd_tree d1 ?x = None" using rw Inr none by simp_all
        obtain t d2 where rep: "ReplaceCache E ?x ?b d1 = (t, d2)" by (rule prod.exhaust)
        have "ReplaceCache E ?x (view d1 ?x) d1 = (t, d2)" using rep v1 by simp
        note rs = coherent_replace [OF Cons.prems(1) rw(1) none1 this]
        then show ?thesis
          using Cons.prems(6) False True w Inr rep ix v1 rw(2,3) by (intro step [of d2]) (auto simp: same_drive_def)
      qed
    next
      case full: False
      obtain d1 where add: "Cache_Add E ?x ?b d = Some d1"
        using add_accepted [OF Cons.prems(1) none full] by auto
      note ca = coherent_add [OF Cons.prems(2) none full add]
      then show ?thesis
        using Cons.prems(6) False full add ix by (intro step [of "InsertToDirtyList ?x d1"]) auto
    qed
  next
    case True
    obtain v where v: "dd_tree d ?x = Some v" using Cons.prems(6) True by (auto split: option.splits)
    obtain d1 where d1: "d1 = InsertToDirtyList ?x
        (d\<lparr>dd_tree := (dd_tree d)(?x \<mapsto> Value_Write (dd_clock d) ?b v)\<rparr>)" by blast
    note st = coherent_store [OF Cons.prems(2) v d1]
    show ?thesis
    proof (rule step [OF st(1) _ st(4)])
      show "view d1 = (view d)(?x := ?b)" using st(2) by (simp add: Value_Write_def)
      show "dom (dd_tree d1) \<subseteq> insert ?x (dom (dd_tree d))" using st(3) by auto
      show "Write_fill E s cached f n (secs s is) buf d1 = Some (r, d')"
        using Cons.prems(6) True v ix by (simp add: d1)
    qed
  qed
qed


lemma Drive_Write_breaks:
  assumes en: "dd_enabled d" and n: "unat (s0 + dd_lba d) + unat n < 4294967295"
    and s: "s = s0 + dd_lba d" and a: "first_missing (\<lambda>x. dd_tree d x \<noteq> None) s (unat n) = a"
    and l: "last_missing (\<lambda>x. dd_tree d x \<noteq> None) s (unat n) = l"
  shows "Drive_Write E s0 n buf d =
    (case Write_cached s (secs s [0..<a]) buf d of
       None \<Rightarrow> None
     | Some d1 \<Rightarrow>
         (case Write_cached s (secs s [l + 1..<unat n]) buf d1 of
            None \<Rightarrow> None
          | Some d2 \<Rightarrow>
              if a < unat n then
                Write_fill E s (\<lambda>x. dd_tree d x \<noteq> None) (s + of_nat a) (l + 1 - a) (secs s [a..<l + 1]) buf d2
              else Some (Inr (), d2)))"
proof -
  have n': "unat s + unat n < 4294967295" using n s by simp
  have e: "s + n = s + of_nat (unat n)" by simp
  note br = transfer_breaks [OF n', of "\<lambda>x. dd_tree d x \<noteq> None", unfolded a l]
  note seg = transfer_segments [OF n' a l]
  show ?thesis
    unfolding Drive_Write_def s [symmetric] Let_def
    by (simp only: en not_True_eq_False if_False e br seg)
qed

lemma wrote_all:
  assumes "unat (s :: u32) + length buf < 4294967295"
  shows "wrote s buf [0..<length buf] f = overwrite f s buf"
proof
  fix x
  show "wrote s buf [0..<length buf] f x = overwrite f s buf x"
  proof (cases "unat s \<le> unat x \<and> unat x - unat s < length buf")
    case True
    then have "x = s + of_nat (unat x - unat s)" using assms by (simp add: of_nat_diff)
    then have "x \<in> set (secs s [0..<length buf])" using True unfolding secs_def by force
    moreover have "unat (x - s) = unat x - unat s" using True by (simp add: unat_sub word_le_nat_alt)
    ultimately show ?thesis using True by (simp add: wrote_def overwrite_def)
  next
    case False
    have "x \<notin> set (secs s [0..<length buf])"
    proof
      assume "x \<in> set (secs s [0..<length buf])"
      then obtain i where "i < length buf" "x = s + of_nat i" by (auto simp: secs_def)
      then have "unat x = unat s + i" using assms by (simp add: unat_sec)
      then show False using False \<open>i < length buf\<close> by simp
    qed
    then show ?thesis using False by (auto simp: wrote_def overwrite_def)
  qed
qed

lemma wrote_append:
  "wrote s buf js (wrote s buf is f) = wrote s buf (is @ js) f"
  by (auto simp: wrote_def secs_def fun_eq_iff)

lemma wrote_set: "set is = set js \<Longrightarrow> wrote s buf is f = wrote s buf js f"
  by (simp add: wrote_def secs_def fun_eq_iff)

lemma Drive_Write_spec:
  assumes E: "tree_accepts E" and ok: "coherent d" and n: "unat (s0 + dd_lba d) + unat n < 4294967295"
    and len: "length buf = unat n" and run: "Drive_Write E s0 n buf d = Some (r, d')"
  shows "write_outcome (s0 + dd_lba d) buf [0..<unat n] d r d'"
proof -
  define s where "s = s0 + dd_lba d"
  let ?c = "\<lambda>x. dd_tree d x \<noteq> None"
  define a where "a = first_missing ?c s (unat n)"
  define l where "l = last_missing ?c s (unat n)"
  have n': "unat s + unat n < 4294967295" using n s_def by simp
  have lb: "length buf < 4294967296" using len n' by simp
  have mb: "a = unat n \<and> l = unat n \<and> (\<forall>i<unat n. ?c (s + of_nat i)) \<or>
      a \<le> l \<and> l < unat n \<and> (\<forall>i<unat n. i < a \<or> l < i \<longrightarrow> ?c (s + of_nat i))"
    using missing_bounds [OF a_def [symmetric] l_def [symmetric]] by blast
  have an: "a \<le> unat n" using mb by linarith
  have en: "dd_enabled d" using ok by (simp add: coherent_def)
  note wr = Drive_Write_breaks [OF en n s_def a_def [symmetric] l_def [symmetric], of E buf]
  have c1: "\<forall>i\<in>set [0..<a]. i < length buf \<and> dd_tree d (s + of_nat i) \<noteq> None"
    using mb an len by auto
  obtain d1 where r1: "Write_cached s (secs s [0..<a]) buf d = Some d1" "coherent d1" "dd_lba d1 = dd_lba d"
      "dom (dd_tree d1) = dom (dd_tree d)" "view d1 = wrote s buf [0..<a] (view d)"
    using Write_cached_spec [OF ok lb c1] by blast
  have c2: "\<forall>i\<in>set [l + 1..<unat n]. i < length buf \<and> dd_tree d1 (s + of_nat i) \<noteq> None"
    using mb len r1(4) by (auto simp: dom_def set_eq_iff)
  obtain d2 where r2: "Write_cached s (secs s [l + 1..<unat n]) buf d1 = Some d2" "coherent d2" "dd_lba d2 = dd_lba d1"
      "dom (dd_tree d2) = dom (dd_tree d1)" "view d2 = wrote s buf [l + 1..<unat n] (view d1)"
    using Write_cached_spec [OF r1(2) lb c2] by blast
  have v2: "view d2 = wrote s buf ([0..<a] @ [l + 1..<unat n]) (view d)"
    using r1(5) r2(5) by (simp only: wrote_append)
  show ?thesis
  proof (cases "a < unat n")
    case False
    then have "r = Inr ()" "d' = d2" using run wr r1(1) r2(1) by simp_all
    moreover have "view d2 = wrote s buf [0..<unat n] (view d)"
      unfolding v2 by (rule wrote_set) (use False an in auto)
    ultimately show ?thesis using r1(3) r2(2,3) by (simp add: write_outcome_def s_def)
  next
    case True
    have al: "a \<le> l" "l < unat n" using mb True by linarith+
    have fl: "Write_fill E s ?c (s + of_nat a) (l + 1 - a) (secs s [a..<l + 1]) buf d2 = Some (r, d')"
      using run wr r1(1) r2(1) True by simp
    have "i < length buf \<and> (\<not> ?c (s + of_nat i) \<longrightarrow> dd_tree d2 (s + of_nat i) = None)" if "i \<in> set [a..<l + 1]" for i
    proof -
      have "dd_tree d2 (s + of_nat i) = None" if "\<not> ?c (s + of_nat i)"
      proof -
        have "s + of_nat i \<notin> dom (dd_tree d2)" unfolding r2(4) r1(4) using that by auto
        then show ?thesis by auto
      qed
      then show ?thesis using that al len by auto
    qed
    then have wo: "write_outcome s buf [a..<l + 1] d2 r d'"
      using fl by (intro Write_fill_spec [OF E r2(2) lb]) auto
    have all: "wrote s buf [a..<l + 1] (view d2) = wrote s buf [0..<unat n] (view d)"
      unfolding v2 wrote_append by (rule wrote_set) (use al in auto)
    have part: "view d2 x = view d x \<or> view d2 x = wrote s buf [0..<unat n] (view d) x" for x
      using an unfolding v2 by (auto simp: wrote_def secs_def)
    show ?thesis
      using wo [unfolded write_outcome_def all] part r1(3) r2(3)
      unfolding write_outcome_def s_def [symmetric] by metis
  qed
qed

lemma Drive_Write_one_defined:
  assumes ok: "coherent d" and n: "unat (s0 + dd_lba d) + 1 < 4294967295"
  shows "Drive_Write E s0 1 [b] d \<noteq> None"
proof -
  define s where "s = s0 + dd_lba d"
  have en: "dd_enabled d" using ok by (simp add: coherent_def)
  show ?thesis
  proof (cases "dd_tree d s")
    case None
    then have "first_missing (\<lambda>x. dd_tree d x \<noteq> None) s 1 = 0" "last_missing (\<lambda>x. dd_tree d x \<noteq> None) s 1 = 0"
      by (simp_all add: first_missing_def last_missing_def)
    then have "Drive_Write E s0 1 [b] d =
        Write_fill E s (\<lambda>x. dd_tree d x \<noteq> None) (s + of_nat 0) (0 + 1 - 0) (secs s [0..<0 + 1]) [b] d"
      using Drive_Write_breaks [OF en, of s0 1 s 0 0 E "[b]"] n s_def by simp
    then show ?thesis using None by (auto simp: RawWrite_at_def split: prod.splits sum.splits bool.splits option.splits)
  next
    case (Some v)
    then have "first_missing (\<lambda>x. dd_tree d x \<noteq> None) s 1 = 1" "last_missing (\<lambda>x. dd_tree d x \<noteq> None) s 1 = 1"
      by (simp_all add: first_missing_def last_missing_def)
    then show ?thesis
      using Drive_Write_breaks [OF en, of s0 1 s 1 1 E "[b]"] n s_def Some by simp
  qed
qed


section \<open>The drive as a block device\<close>

text \<open>Sector numbers are relative to the partition.\<close>

definition drive_contents :: "'r drive \<Rightarrow> u32 \<Rightarrow> sector" where
  "drive_contents d x = view d (x + dd_lba d)"

definition drive_ok :: "nat \<Rightarrow> 'r drive \<Rightarrow> bool" where
  "drive_ok cap d \<longleftrightarrow> coherent d \<and> unat (dd_lba d) + cap < 4294967295"

definition drive_io :: "'r cache_params \<Rightarrow> 'r drive block_io" where
  "drive_io E = \<lparr>io_read = Drive_Read E, io_write = Drive_Write E\<rparr>"

lemma drive_range:
  assumes "drive_ok cap d" "unat s + unat (n :: u32) \<le> cap"
  shows "unat (s + dd_lba d) = unat s + unat (dd_lba d)" "unat (s + dd_lba d) + unat n < 4294967295"
  using assms by (simp_all add: drive_ok_def unat_add_no_wrap)

lemma overwrite_drive:
  assumes "drive_ok cap d" "unat s + length buf \<le> cap"
  shows "overwrite (view d) (s + dd_lba d) buf (x + dd_lba d) = overwrite (drive_contents d) s buf x"
proof -
  have "drive_contents d = (\<lambda>y. view d (y + dd_lba d))" by (simp add: drive_contents_def fun_eq_iff)
  then show ?thesis using overwrite_moved [of s "dd_lba d" buf "view d" x] assms by (simp add: drive_ok_def)
qed

interpretation disk: block_device "drive_io E" "\<lambda>d. drive_ok cap d \<and> tree_accepts E" drive_contents cap
proof
  fix d :: "'a drive" and s n buf r buf' d'
  assume ok: "drive_ok cap d \<and> tree_accepts E" and fits: "unat s + unat n \<le> cap"
    and len: "length buf = unat n" and run: "io_read (drive_io E) s n buf d = Some (r, buf', d')"
  note rg = drive_range [OF conjunct1 [OF ok] fits]
  have run': "Drive_Read E s n buf d = Some (r, buf', d')" using run by (simp add: drive_io_def)
  have "coherent d" using ok by (simp add: drive_ok_def)
  from Drive_Read_spec [OF _ this rg(2) len run'] ok
  show "(drive_ok cap d' \<and> tree_accepts E) \<and> drive_contents d' = drive_contents d \<and>
      (r = Inr () \<longrightarrow> buf' = map (\<lambda>i. drive_contents d (s + of_nat i)) [0..<unat n])"
    by (auto simp: same_drive_def drive_ok_def drive_contents_def fun_eq_iff ac_simps)
next
  fix d :: "'a drive" and s n buf r d'
  assume ok: "drive_ok cap d \<and> tree_accepts E" and fits: "unat s + unat n \<le> cap"
    and len: "length buf = unat n" and run: "io_write (drive_io E) s n buf d = Some (r, d')"
  note rg = drive_range [OF conjunct1 [OF ok] fits]
  have run': "Drive_Write E s n buf d = Some (r, d')" using run by (simp add: drive_io_def)
  have co: "coherent d" and E: "tree_accepts E" using ok by (simp_all add: drive_ok_def)
  have wo: "write_outcome (s + dd_lba d) buf [0..<length buf] d r d'"
    using Drive_Write_spec [OF E co rg(2) len run'] len by simp
  have wa: "wrote (s + dd_lba d) buf [0..<length buf] (view d) = overwrite (view d) (s + dd_lba d) buf"
    by (rule wrote_all) (use rg(2) len in simp)
  note ov = overwrite_drive [OF conjunct1 [OF ok] fits [folded len]]
  have "drive_contents d' x = drive_contents d x \<or> in_range s n x \<and> drive_contents d' x = overwrite (drive_contents d) s buf x" for x
  proof (cases "in_range s n x")
    case True
    then show ?thesis
      using wo ov [of x] unfolding write_outcome_def wa by (auto simp: drive_contents_def)
  next
    case False
    then have "overwrite (drive_contents d) s buf x = drive_contents d x"
      using len by (intro overwrite_outside) (auto simp: in_range_def)
    then show ?thesis using wo ov [of x] unfolding write_outcome_def wa by (auto simp: drive_contents_def)
  qed
  moreover have "r = Inr () \<longrightarrow> drive_contents d' = overwrite (drive_contents d) s buf"
    using wo ov unfolding write_outcome_def wa by (auto simp: drive_contents_def fun_eq_iff)
  ultimately show "(drive_ok cap d' \<and> tree_accepts E) \<and> (r = Inr () \<longrightarrow> drive_contents d' = overwrite (drive_contents d) s buf) \<and>
      (\<forall>x. drive_contents d' x = drive_contents d x \<or> in_range s n x \<and> drive_contents d' x = overwrite (drive_contents d) s buf x)"
    using wo ok by (auto simp: write_outcome_def drive_ok_def)
next
  fix d :: "'a drive" and s :: u32 and b
  assume ok: "drive_ok cap d \<and> tree_accepts E" and fits: "unat s + 1 \<le> cap"
  then have "coherent d" "unat (s + dd_lba d) + 1 < 4294967295"
    using drive_range [of cap d s 1] by (auto simp: drive_ok_def)
  then show "io_read (drive_io E) s 1 [b] d \<noteq> None" "io_write (drive_io E) s 1 [b] d \<noteq> None"
    using Drive_Read_one_defined [of d s E b] Drive_Write_one_defined [of d s E b] by (auto simp: drive_io_def)
qed


section \<open>The background tasks\<close>

lemma flush_one:
  assumes ok: "coherent d" and g: "Cache_Get d = Some (x, d1)" and t: "dd_tree d1 x = Some v"
    and f: "FlushSector x (m_bSectorBuffer v) d1 = (b, d2)"
  shows "dd_lba d2 = dd_lba d" "view d2 = view d" "b \<Longrightarrow> coherent d2" "dd_tree d2 = dd_tree d" "dd_enabled d2"
    "b \<Longrightarrow> md_sectors (dd_medium d2) = (md_sectors (dd_medium d))(x := m_bSectorBuffer v)"
    "\<not> b \<Longrightarrow> md_sectors (dd_medium d2) = md_sectors (dd_medium d)"
    "dd_dirty d = x # dd_dirty d2"
proof -
  have d1: "d1 = d\<lparr>dd_dirty := dd_dirty d1\<rparr>" "dd_dirty d = x # dd_dirty d1"
    using g by (auto simp: Cache_Get_def split: list.splits)
  have same: "dd_tree d1 = dd_tree d" "dd_medium d1 = dd_medium d" "dd_lba d1 = dd_lba d" "dd_enabled d1 = dd_enabled d"
      "dd_release d1 = dd_release d"
    by (subst d1(1), simp)+
  obtain r where w: "RawWrite x [m_bSectorBuffer v] d1 = (r, d2)" "b = (r = Inr ())"
    using f by (auto simp: FlushSector_def split: prod.splits sum.splits)
  note fl = RawWrite_fields [OF w(1)] and wr = RawWrite_one [OF w(1)]
  show "dd_lba d2 = dd_lba d" "dd_tree d2 = dd_tree d" "dd_dirty d = x # dd_dirty d2" "dd_enabled d2"
    using fl same d1(2) ok by (simp_all add: coherent_def)
  show m1: "b \<Longrightarrow> md_sectors (dd_medium d2) = (md_sectors (dd_medium d))(x := m_bSectorBuffer v)"
    and m2: "\<not> b \<Longrightarrow> md_sectors (dd_medium d2) = md_sectors (dd_medium d)"
    using wr w(2) same by simp_all
  have tx: "dd_tree d x = Some v" using t same by simp
  show "view d2 = view d"
    using m1 m2 fl same through_medium(1) [of "dd_tree d" x v, OF tx] by (cases b) (simp_all add: view_def)
  show "coherent d2" if b
    using ok m1 [OF that] fl same d1(2) tx unfolding coherent_def
    by (auto simp: m1 [OF that])
qed

text \<open>Flushing never changes what is seen; if it succeeds the drive stays coherent.\<close>

lemma Flush_loop_spec:
  assumes "coherent d"
  shows "\<exists>b d'. Flush_loop i d = Some (b, d') \<and> view d' = view d \<and> dd_lba d' = dd_lba d \<and> dd_enabled d' \<and>
    (b \<longrightarrow> coherent d') \<and> (b \<and> i < 0 \<longrightarrow> dd_dirty d' = []) \<and>
    (\<forall>x. x \<notin> set (dd_dirty d) \<longrightarrow> md_sectors (dd_medium d') x = md_sectors (dd_medium d) x) \<and>
    (\<not> b \<longrightarrow> (\<exists>x pre. dd_dirty d = pre @ x # dd_dirty d' \<and>
       md_sectors (dd_medium d') x = md_sectors (dd_medium d) x))"
  using assms
proof (induction i d rule: Flush_loop.induct)
  case (1 i d)
  show ?case
  proof (cases "i = 0 \<or> Cache_Get d = None")
    case True
    then show ?thesis
      using 1(2) by (subst Flush_loop.simps) (auto simp: Cache_Get_def coherent_def split: list.splits)
  next
    case False
    then obtain x d1 where g: "Cache_Get d = Some (x, d1)" by auto
    then have "x \<in> set (dd_dirty d)" "dd_tree d1 = dd_tree d" by (auto simp: Cache_Get_def split: list.splits)
    then obtain v where t: "dd_tree d1 x = Some v" using 1(2) by (auto simp: coherent_def)
    obtain b d2 where f: "FlushSector x (m_bSectorBuffer v) d1 = (b, d2)" by (rule prod.exhaust)
    note one = flush_one [OF 1(2) g t f]
    show ?thesis
    proof (cases b)
      case fail: False
      have "Flush_loop i d = Some (False, d2)"
        using False g t f fail by (subst Flush_loop.simps) simp
      then show ?thesis using one fail by auto
    next
      case True
      have IH: "\<exists>b d'. Flush_loop (i - 1) d2 = Some (b, d') \<and> view d' = view d2 \<and> dd_lba d' = dd_lba d2 \<and> dd_enabled d' \<and>
        (b \<longrightarrow> coherent d') \<and> (b \<and> i - 1 < 0 \<longrightarrow> dd_dirty d' = []) \<and>
        (\<forall>x. x \<notin> set (dd_dirty d2) \<longrightarrow> md_sectors (dd_medium d') x = md_sectors (dd_medium d2) x) \<and>
        (\<not> b \<longrightarrow> (\<exists>x pre. dd_dirty d2 = pre @ x # dd_dirty d' \<and>
           md_sectors (dd_medium d') x = md_sectors (dd_medium d2) x))"
        using 1(1) False g t f True one(3) by simp
      have run: "Flush_loop i d = Flush_loop (i - 1) d2"
        using False g t f True by (subst Flush_loop.simps) simp
      have nx: "x \<notin> set (dd_dirty d2)" using 1(2) one(8) by (simp add: coherent_def)
      from IH obtain b3 d' where d': "Flush_loop (i - 1) d2 = Some (b3, d')" "view d' = view d2" "dd_lba d' = dd_lba d2"
        "dd_enabled d'" "b3 \<longrightarrow> coherent d'" "b3 \<and> i - 1 < 0 \<longrightarrow> dd_dirty d' = []"
        "\<forall>x. x \<notin> set (dd_dirty d2) \<longrightarrow> md_sectors (dd_medium d') x = md_sectors (dd_medium d2) x"
        "\<not> b3 \<longrightarrow> (\<exists>x pre. dd_dirty d2 = pre @ x # dd_dirty d' \<and>
           md_sectors (dd_medium d') x = md_sectors (dd_medium d2) x)" by blast
      have "\<exists>y pre. dd_dirty d = pre @ y # dd_dirty d' \<and> md_sectors (dd_medium d') y = md_sectors (dd_medium d) y"
        if nb: "\<not> b3"
      proof -
        obtain y pre where y: "dd_dirty d2 = pre @ y # dd_dirty d'"
            "md_sectors (dd_medium d') y = md_sectors (dd_medium d2) y" using d'(8) nb by blast
        then have "y \<noteq> x" using nx by auto
        then show ?thesis using y one(6,8) True by (intro exI [of _ y] exI [of _ "x # pre"]) simp
      qed
      then show ?thesis unfolding run using d' one True nx by auto
    qed
  qed
qed

text \<open>A traversal for the release list, from an empty list.\<close>

lemma insort_release:
  "set (insort_key snd p rel) = insert p (set rel)" "distinct (map fst (insort_key snd p rel)) \<longleftrightarrow>
     fst p \<notin> fst ` set rel \<and> distinct (map fst rel)"
  "length (insort_key snd p rel) = Suc (length rel)"
proof -
  show s: "set (insort_key snd p rel) = insert p (set rel)" by (rule set_insort_key)
  show "length (insort_key snd p rel) = Suc (length rel)" by simp
  show "distinct (map fst (insort_key snd p rel)) \<longleftrightarrow> fst p \<notin> fst ` set rel \<and> distinct (map fst rel)"
    by (induction rel) (auto simp: set_insort_key)
qed

lemma LFU_visit_keys:
  "fst ` set (LFU_visit E c dirty k v rel) \<subseteq> insert k (fst ` set rel) \<and> (k \<in> set dirty \<longrightarrow> LFU_visit E c dirty k v rel = rel)"
  by (auto simp: LFU_visit_def Let_def insort_release(1) dest: in_set_butlastD)

lemma LFU_visit_distinct:
  assumes "distinct (map fst rel)" "k \<notin> fst ` set rel"
  shows "distinct (map fst (LFU_visit E c dirty k v rel))"
proof -
  have "fst ` set (butlast rel) \<subseteq> fst ` set rel" by (auto dest: in_set_butlastD)
  then show ?thesis
    using assms by (auto simp: LFU_visit_def Let_def insort_release(2) map_butlast distinct_butlast simp del: set_map)
qed

lemma LFU_fold:
  assumes "distinct ks" "distinct (map fst rel)" "set ks \<inter> fst ` set rel = {}"
  shows "distinct (map fst (fold (\<lambda>k. LFU_visit E c dirty k (f k)) ks rel)) \<and>
    fst ` set (fold (\<lambda>k. LFU_visit E c dirty k (f k)) ks rel) \<subseteq> fst ` set rel \<union> set ks"
  using assms
proof (induction ks arbitrary: rel)
  case (Cons k ks)
  have "k \<notin> fst ` set rel" using Cons.prems(3) by simp
  note vd = LFU_visit_distinct [OF Cons.prems(2) this, of E c dirty "f k"]
    and vk = LFU_visit_keys [of E c dirty k "f k" rel]
  have "set ks \<inter> fst ` set (LFU_visit E c dirty k (f k) rel) = {}"
    using vk Cons.prems(1,3) by auto
  from Cons.IH [OF _ vd this] Cons.prems(1) vk show ?case by auto
qed simp

lemma LFU_Run_spec:
  assumes ok: "coherent d" and rel: "dd_built d \<or> dd_release d = []"
  shows "same_drive d (LFU_Run E d)"
proof (cases "\<not> Cache_Full d \<or> dd_built d")
  case True
  then show ?thesis using ok by (auto simp: LFU_Run_def same_drive_def)
next
  case False
  let ?rel = "fold (\<lambda>k. LFU_visit E (dd_clock d) (dd_dirty d) k (the (dd_tree d k))) (sorted_list_of_set (dom (dd_tree d))) []"
  have fin: "finite (dom (dd_tree d))" using ok by (simp add: coherent_def)
  have "distinct (map fst ?rel) \<and> fst ` set ?rel \<subseteq> dom (dd_tree d)"
    using LFU_fold [of "sorted_list_of_set (dom (dd_tree d))" "[]" E "dd_clock d" "dd_dirty d" "\<lambda>k. the (dd_tree d k)"]
    by (simp add: fin)
  then have "coherent (d\<lparr>dd_release := ?rel\<rparr>)" "coherent (d\<lparr>dd_release := ?rel, dd_built := True\<rparr>)"
    using ok by (simp_all add: coherent_def)
  then show ?thesis using False rel by (auto simp: LFU_Run_def Let_def same_drive_def view_def)
qed


section \<open>Runs of a drive\<close>

text \<open>The steps a drive takes, with the contents \<open>f\<close> its clients expect of it (sector numbers relative
  to the partition of \<open>C\<close> sectors): transfers of any number of sectors, flushes, the release task, the
  clock, each with any outcome. The run keeps a log of what the code does not guard against: a
  transfer beyond the partition, a write or a flush that the device fails, and a release task that
  finds a list left over from an incomplete traversal.\<close>

datatype mishap = OutsidePartition | FailedWrite | FailedFlush | LeftoverReleaseList

definition note_unless :: "bool \<Rightarrow> mishap \<Rightarrow> mishap list \<Rightarrow> mishap list" where
  "note_unless good m log = (if good then log else m # log)"

lemma note_unless_Nil [simp]: "note_unless good m log = [] \<longleftrightarrow> good \<and> log = []"
  by (simp add: note_unless_def)

inductive serves :: "'r :: linorder cache_params \<Rightarrow> nat \<Rightarrow> 'r drive \<Rightarrow> 'r drive \<Rightarrow> (u32 \<Rightarrow> sector) \<Rightarrow> mishap list \<Rightarrow> bool"
  for E C d0 where
  start: "serves E C d0 d0 (drive_contents d0) []"
| fetch: "serves E C d0 d f log \<Longrightarrow> length buf = unat n \<Longrightarrow> Drive_Read E s n buf d = Some (r, buf', d') \<Longrightarrow>
    serves E C d0 d' f (note_unless (unat s + unat n \<le> C) OutsidePartition log)"
| store: "serves E C d0 d f log \<Longrightarrow> length buf = unat n \<Longrightarrow> Drive_Write E s n buf d = Some (r, d') \<Longrightarrow>
    serves E C d0 d' (overwrite f s buf)
      (note_unless (unat s + unat n \<le> C) OutsidePartition (note_unless (r = Inr ()) FailedWrite log))"
| flush: "serves E C d0 d f log \<Longrightarrow> FlushDirtyCacheSectors k d = Some (b, d') \<Longrightarrow>
    serves E C d0 d' f (note_unless b FailedFlush log)"
| release: "serves E C d0 d f log \<Longrightarrow>
    serves E C d0 (LFU_Run E d) f (note_unless (dd_built d \<or> dd_release d = []) LeftoverReleaseList log)"
| tick: "serves E C d0 d f log \<Longrightarrow> serves E C d0 (d\<lparr>dd_clock := c\<rparr>) f log"

lemma serves_contents:
  assumes "serves E C d0 d f log" "drive_ok C d0" "tree_accepts E" "log = []"
  shows "drive_ok C d \<and> drive_contents d = f"
  using assms
proof (induction rule: serves.induct)
  case (fetch d f log buf n s r buf' d')
  then show ?case
    using disk.read_law [of C d E s n buf r buf' d'] by (auto simp: drive_io_def)
next
  case (store d f log buf n s r d')
  then show ?case
    using disk.write_law [of C d E s n buf "Inr ()" d'] by (auto simp: drive_io_def)
next
  case (flush d f log k b d')
  then have co: "coherent d" and b by (simp_all add: drive_ok_def)
  then have "Flush_loop k d = Some (True, d')"
    using flush.hyps by (simp add: FlushDirtyCacheSectors_def coherent_def)
  with Flush_loop_spec [OF co, of k] flush show ?case
    by (auto simp: drive_ok_def drive_contents_def fun_eq_iff)
next
  case (release d f log)
  then have "same_drive d (LFU_Run E d)" using LFU_Run_spec [of d E] by (auto simp: drive_ok_def)
  then show ?case using release by (auto simp: drive_ok_def drive_contents_def fun_eq_iff same_drive_def)
qed (auto simp: drive_ok_def drive_contents_def coherent_def view_def fun_eq_iff)

section \<open>Properties\<close>

text \<open>C29: the cached drive refines an array of sectors. Take any run of transfers, flushes, release
  tasks and clock ticks whose log is empty: transfers stay inside the partition, no write and no
  flush fails (reads may), and every release task finds its list empty or complete. Then a read
  inside the partition that succeeds gives, for every sector, what was last written there, or what
  the medium held at the start.\<close>

theorem drive_refines_sector_array:
  assumes "serves E C d0 d f []" "drive_ok C d0" "tree_accepts E" "unat s + unat n \<le> C" "length buf = unat n"
    "Drive_Read E s n buf d = Some (Inr (), buf', d')"
  shows "buf' = map (\<lambda>i. f (s + of_nat i)) [0..<unat n]"
  using disk.read_law [of C d E s n buf "Inr ()" buf' d'] serves_contents [OF assms(1-3) refl] assms
  by (auto simp: drive_io_def)

text \<open>An empty cache over a medium whose sector \<open>x\<close> holds one byte, and the ranking by age.\<close>

definition sample_drive :: "nat drive" where
  "sample_drive = \<lparr>dd_deviceType = DEV_ATA_IDE, dd_lba = 63, dd_enabled = True, dd_tree = Map.empty,
     dd_dirty = [], dd_release = [], dd_built = False,
     dd_medium = \<lparr>md_sectors = (\<lambda>x. [ucast x]), md_faults = []\<rparr>, dd_clock = 0\<rparr>"

definition sample_params :: "nat cache_params" where
  "sample_params = \<lparr>bt_refuses = (\<lambda>_ _. False), dbl_div = (\<lambda>a b. unat a div unat b)\<rparr>"

lemma sample_drive_ok: "drive_ok 1000 sample_drive" "tree_accepts sample_params"
  by (simp_all add: drive_ok_def coherent_def sample_drive_def tree_accepts_def sample_params_def)

lemma upt_two: "[0..<2] = [0, Suc 0]"
  by (simp add: numeral_2_eq_2)

lemma sample_write:
  "\<exists>d. Drive_Write sample_params 5 1 [[9]] sample_drive = Some (Inr (), d) \<and>
     dd_tree d = [68 \<mapsto> CreateValue 0 [9]] \<and> dd_medium d = dd_medium sample_drive \<and> dd_enabled d \<and> dd_lba d = 63 \<and>
     dd_deviceType d = DEV_ATA_IDE"
  by (simp add: Drive_Write_def sample_drive_def sample_params_def upt32_def Cache_Full_def Cache_Add_def
      InsertToDirtyList_def)

lemma sample_read:
  assumes "dd_tree d = [68 \<mapsto> CreateValue 0 [9]]" "dd_medium d = dd_medium sample_drive" "dd_enabled d" "dd_lba d = 63"
    "dd_deviceType d = DEV_ATA_IDE"
  shows "\<exists>buf d'. Drive_Read sample_params 5 2 [[], []] d = Some (Inr (), buf, d')"
  using assms
  by (simp add: Drive_Read_def sample_drive_def sample_params_def upt32_def Cache_Full_def Cache_Add_def upt_two
      Value_Read_def RawRead_def next_fault_def patch_def)

theorem drive_refines_sector_array_witness:
  "\<exists>d d'. Drive_Write sample_params 5 1 [[9]] sample_drive = Some (Inr (), d) \<and>
     Drive_Read sample_params 5 2 [[], []] d = Some (Inr (), [[9], [69]], d')"
proof -
  obtain d where w: "Drive_Write sample_params 5 1 [[9]] sample_drive = Some (Inr (), d)"
      "dd_tree d = [68 \<mapsto> CreateValue 0 [9]]" "dd_medium d = dd_medium sample_drive" "dd_enabled d" "dd_lba d = 63"
      "dd_deviceType d = DEV_ATA_IDE"
    using sample_write by blast
  obtain buf d' where r: "Drive_Read sample_params 5 2 [[], []] d = Some (Inr (), buf, d')"
    using sample_read [OF w(2-6)] by blast
  have run: "serves sample_params 1000 sample_drive d (overwrite (drive_contents sample_drive) 5 [[9]]) []"
    using serves.store [OF serves.start [of sample_params 1000 sample_drive] _ w(1)] by (simp add: note_unless_def)
  have "buf = [[9], [69]]"
    using drive_refines_sector_array [OF run sample_drive_ok _ _ r]
    by (simp add: overwrite_def drive_contents_def view_def through_def sample_drive_def upt_two)
  then show ?thesis using w(1) r by blast
qed


lemma Flush_frame:
  "Flush_loop k d = Some (b, d') \<Longrightarrow> x \<notin> set (dd_dirty d) \<Longrightarrow>
     md_sectors (dd_medium d') x = md_sectors (dd_medium d) x"
proof (induction k d rule: Flush_loop.induct)
  case (1 k d)
  show ?case
  proof (cases "k = 0 \<or> Cache_Get d = None")
    case True
    then show ?thesis using 1(2) by (subst (asm) Flush_loop.simps) (auto split: if_splits)
  next
    case False
    then obtain y d1 where g: "Cache_Get d = Some (y, d1)" by auto
    then have d1: "dd_medium d1 = dd_medium d" "dd_dirty d = y # dd_dirty d1"
      by (auto simp: Cache_Get_def split: list.splits)
    obtain v where t: "dd_tree d1 y = Some v" using 1(2) g False by (subst (asm) Flush_loop.simps) (auto split: option.splits)
    obtain c d2 where f: "FlushSector y (m_bSectorBuffer v) d1 = (c, d2)" by (rule prod.exhaust)
    then obtain r where w: "RawWrite y [m_bSectorBuffer v] d1 = (r, d2)"
      by (auto simp: FlushSector_def split: prod.splits sum.splits)
    have m: "md_sectors (dd_medium d2) x = md_sectors (dd_medium d) x"
      using RawWrite_one [OF w] 1(3) d1 by (cases "r = Inr ()") auto
    show ?thesis
    proof (cases c)
      case True
      have "Flush_loop (k - 1) d2 = Some (b, d')" using 1(2) g t f True False by (subst (asm) Flush_loop.simps) simp
      moreover have "x \<notin> set (dd_dirty d2)" using FlushSector_fields [OF f] 1(3) d1 by simp
      ultimately show ?thesis using 1(1) False g t f True m by simp
    next
      case fail: False
      then show ?thesis using 1(2) g t f False m by (subst (asm) Flush_loop.simps) simp
    qed
  qed
qed

text \<open>C30: flushing a coherent cache always returns; without a limit it reports success exactly
  when every sector that was written is on the medium, nothing is left dirty, and the contents are
  as they were. What the reader sees does not change even when it fails.\<close>

theorem flush_makes_durable:
  assumes "coherent d"
  shows "\<exists>b d'. FlushDirtyCacheSectors (-1) d = Some (b, d') \<and> view d' = view d \<and>
    (b \<longrightarrow> dd_dirty d' = [] \<and> md_sectors (dd_medium d') = view d \<and> coherent d')"
proof -
  obtain b d' where f: "Flush_loop (-1) d = Some (b, d')" "view d' = view d" "b \<longrightarrow> coherent d'"
      "b \<longrightarrow> dd_dirty d' = []"
    using Flush_loop_spec [OF assms, of "-1"] by auto
  have "md_sectors (dd_medium d') x = view d' x" if "coherent d'" "dd_dirty d' = []" for x
    using that by (cases "dd_tree d' x") (auto simp: coherent_def view_def through_def)
  then have "b \<longrightarrow> md_sectors (dd_medium d') = view d" using f by fastforce
  moreover have "FlushDirtyCacheSectors (-1) d = Some (b, d')"
    using f(1) assms by (simp add: FlushDirtyCacheSectors_def coherent_def)
  ultimately show ?thesis using f(2-4) by blast
qed

theorem flush_makes_durable_witness:
  "\<exists>b d'. FlushDirtyCacheSectors (-1) sample_drive = Some (b, d') \<and> view d' = view sample_drive \<and>
    (b \<longrightarrow> dd_dirty d' = [] \<and> md_sectors (dd_medium d') = view sample_drive \<and> coherent d')"
  by (rule flush_makes_durable) (simp add: coherent_def sample_drive_def)

text \<open>when the device fails while a sector is flushed, the sector has already been taken off the
  dirty list: it stays in the cache, but no later flush writes it.\<close>

theorem failed_flush_forgets_sector:
  assumes "coherent d" "FlushDirtyCacheSectors k d = Some (False, d')"
  shows "\<exists>x \<in> set (dd_dirty d). x \<notin> set (dd_dirty d') \<and> view d' x = view d x \<and>
    (\<forall>k b d''. FlushDirtyCacheSectors k d' = Some (b, d'') \<longrightarrow>
       md_sectors (dd_medium d'') x = md_sectors (dd_medium d) x)"
proof -
  have f: "Flush_loop k d = Some (False, d')"
    using assms by (simp add: FlushDirtyCacheSectors_def coherent_def)
  then obtain x pre where x: "dd_dirty d = pre @ x # dd_dirty d'" "md_sectors (dd_medium d') x = md_sectors (dd_medium d) x"
      and v: "view d' = view d"
    using Flush_loop_spec [OF assms(1), of k] by auto
  have "x \<notin> set (dd_dirty d')" using assms(1) x(1) by (auto simp: coherent_def)
  moreover have "md_sectors (dd_medium d'') x = md_sectors (dd_medium d) x"
    if "FlushDirtyCacheSectors k d' = Some (b, d'')" for k b d''
    using that x(2) Flush_frame [of k d' b d'' x] calculation
    by (auto simp: FlushDirtyCacheSectors_def split: if_splits)
  ultimately show ?thesis using x(1) v by auto
qed

definition faulty_drive :: "nat drive" where
  "faulty_drive = sample_drive\<lparr>dd_tree := [70 \<mapsto> CreateValue 0 [1]], dd_dirty := [70],
     dd_medium := (dd_medium sample_drive)\<lparr>md_faults := [True]\<rparr>\<rparr>"

lemma faulty_drive_flush:
  "coherent faulty_drive" "\<exists>d'. FlushDirtyCacheSectors 10 faulty_drive = Some (False, d')"
proof -
  show "coherent faulty_drive" by (auto simp: coherent_def faulty_drive_def sample_drive_def)
  have "dd_enabled faulty_drive" by (simp add: faulty_drive_def sample_drive_def)
  then show "\<exists>d'. FlushDirtyCacheSectors 10 faulty_drive = Some (False, d')"
    unfolding FlushDirtyCacheSectors_def by (subst Flush_loop.simps)
      (simp add: faulty_drive_def sample_drive_def Cache_Get_def FlushSector_def RawWrite_def next_fault_def)
qed

theorem failed_flush_forgets_sector_witness:
  "\<exists>d'. FlushDirtyCacheSectors 10 faulty_drive = Some (False, d') \<and>
    (\<exists>x \<in> {70}. x \<notin> set (dd_dirty d') \<and> view d' x = view faulty_drive x \<and>
    (\<forall>k b d''. FlushDirtyCacheSectors k d' = Some (b, d'') \<longrightarrow>
       md_sectors (dd_medium d'') x = md_sectors (dd_medium faulty_drive) x))"
proof -
  obtain d' where f: "FlushDirtyCacheSectors 10 faulty_drive = Some (False, d')" using faulty_drive_flush(2) by blast
  have "set (dd_dirty faulty_drive) = {70}" by (simp add: faulty_drive_def)
  with failed_flush_forgets_sector [OF faulty_drive_flush(1) f] f show ?thesis by auto
qed


text \<open>A working device: the type is known and no transfer fails.\<close>

definition device_works :: "'r drive \<Rightarrow> bool" where
  "device_works d \<longleftrightarrow> dd_deviceType d \<in> {DEV_FLOPPY, DEV_ATA_IDE, DEV_SCSI_USB_DISK} \<and> md_faults (dd_medium d) = []"

lemma RawRead_works:
  "device_works d \<Longrightarrow> RawRead s n d = (Inr (map (\<lambda>i. md_sectors (dd_medium d) (s + of_nat i)) [0..<unat n]), d)"
  by (auto simp: device_works_def RawRead_def next_fault_def)

lemma three_missing:
  assumes "dd_tree d s = None" "dd_tree d (s + 2) = None"
  shows "first_missing (\<lambda>x. dd_tree d x \<noteq> None) s 3 = 0" "last_missing (\<lambda>x. dd_tree d x \<noteq> None) s 3 = 2"
proof -
  have u: "[0..<3] = [0, Suc 0, Suc (Suc 0)]" by (simp add: numeral_3_eq_3)
  show "first_missing (\<lambda>x. dd_tree d x \<noteq> None) s 3 = 0" "last_missing (\<lambda>x. dd_tree d x \<noteq> None) s 3 = 2"
    using assms by (simp_all add: first_missing_def last_missing_def u Let_def)
qed

lemma read_three:
  assumes "dd_enabled d" "device_works d" "unat (s0 + dd_lba d) + 3 < 4294967295" "s = s0 + dd_lba d"
    "dd_tree d s = None" "dd_tree d (s + 2) = None" "length buf = 3"
  shows "\<exists>buf'. length buf' = 3 \<and> Drive_Read E s0 3 buf d =
    map_option (\<lambda>(buf, d). (Inr (), buf, d)) (Read_fill E s (\<lambda>x. dd_tree d x \<noteq> None) [s, s + 1, s + 2] buf' d)"
proof -
  have u: "[0..<2 + 1] = [0, Suc 0, Suc (Suc 0)]" by (simp add: numeral_2_eq_2)
  have r: "unat (s + of_nat 2 - (s + of_nat 0) + 1) = 3" by simp
  let ?xs = "map (\<lambda>i. md_sectors (dd_medium d) (s + of_nat 0 + of_nat i)) [0..<3]"
  have "Drive_Read E s0 3 buf d =
    map_option (\<lambda>(buf, d). (Inr (), buf, d)) (Read_fill E s (\<lambda>x. dd_tree d x \<noteq> None) (secs s [0..<2 + 1]) (patch buf 0 ?xs) d)"
    using Drive_Read_breaks [OF assms(1), of s0 3 s 0 2 E buf] three_missing [OF assms(5,6)] assms(3,4)
      RawRead_works [OF assms(2), of "s + of_nat 0" "s + of_nat 2 - (s + of_nat 0) + 1"] r
    by simp
  moreover have "length (patch buf 0 ?xs) = 3" using assms(7) by (simp add: patch_def)
  moreover have "secs s [0..<2 + 1] = [s, s + 1, s + 2]" by (simp only: u) simp
  ultimately show ?thesis by metis
qed

text \<open>C31: a transfer may evict sectors of its own range whose cache entries it has already looked up.
  If the cache is full, the release list starts with a clean sector \<open>s + 1\<close>, and both of its
  neighbours \<open>s\<close> and \<open>s + 2\<close> are not cached, reading the three sectors uses the freed entry.\<close>

theorem read_uses_evicted_entry:
  assumes "coherent d" "Cache_Full d" "tree_accepts E" "device_works d" "dd_built d"
    "unat (s0 + dd_lba d) + 3 < 4294967295" "s = s0 + dd_lba d" "dd_release d = (s + 1, r) # rest"
    "s + 1 \<notin> set (dd_dirty d)" "dd_tree d s = None" "dd_tree d (s + 2) = None" "length buf = 3"
  shows "Drive_Read E s0 3 buf d = None"
proof -
  have en: "dd_enabled d" using assms(1) by (simp add: coherent_def)
  obtain buf' where run: "Drive_Read E s0 3 buf d =
    map_option (\<lambda>(buf, d). (Inr (), buf, d)) (Read_fill E s (\<lambda>x. dd_tree d x \<noteq> None) [s, s + 1, s + 2] buf' d)"
    using read_three [OF en assms(4,6,7,10,11,12)] by blast
  obtain w where w: "dd_tree d (s + 1) = Some w" using assms(1,8) by (auto simp: coherent_def)
  obtain g d1 where rep: "ReplaceCache E s (buf' ! 0) d = (g, d1)" by (rule prod.exhaust)
  have "card (dom ((dd_tree d)(s + 1 := None))) < MAX_CACHE_SECTORS"
    using coherent_swap(3) [OF assms(1) w assms(9,10), of "[]" r rest "CreateValue 0 (view d s)"] assms(8) by simp
  then have acc: "\<not> bt_refuses E s ((dd_tree d)(s + 1 := None))"
    using assms(3,10) by (simp add: tree_accepts_def)
  have d1: "g" "dd_tree d1 (s + 1) = None"
    using rep assms(5,8,9) acc w by (auto simp: ReplaceCache_def Let_def split: if_splits)
  have "Read_fill E s (\<lambda>x. dd_tree d x \<noteq> None) [s, s + 1, s + 2] buf' d = None"
    using assms(2,10) rep d1 w by simp
  then show ?thesis using run by simp
qed

definition full_tree :: "u32 \<rightharpoonup> cache_value" where
  "full_tree x = (if unat x < 32 then Some (CreateValue 0 [ucast x]) else None)"

lemma full_tree_dom: "dom full_tree = of_nat ` {0..<32}"
proof (intro set_eqI iffI)
  fix x assume "x \<in> dom full_tree"
  then have "unat x < 32" by (auto simp: full_tree_def split: if_splits)
  then show "x \<in> of_nat ` {0..<32}" by (intro image_eqI [of _ _ "unat x"]) auto
qed (auto simp: full_tree_def of_nat_unat_u32)

lemma full_tree_card: "card (dom full_tree) = 32" "finite (dom full_tree)"
proof -
  have "inj_on (of_nat :: nat \<Rightarrow> u32) {0..<32}"
    by (rule inj_on_inverseI [of _ unat]) (simp add: of_nat_unat_u32)
  then show "card (dom full_tree) = 32" by (simp add: full_tree_dom card_image)
  show "finite (dom full_tree)" by (simp add: full_tree_dom)
qed


lemma full_tree_rel:
  "full_tree k = Some v \<Longrightarrow> m_bSectorBuffer v = [ucast k]"
  by (auto simp: full_tree_def split: if_splits)

text \<open>A full cache: the sectors below 32; the first \<open>n\<close> of them are dirty.\<close>

definition full_drive :: "nat \<Rightarrow> nat drive" where
  "full_drive n = sample_drive\<lparr>dd_lba := 0, dd_tree := full_tree, dd_dirty := map of_nat [0..<n]\<rparr>"

lemma full_drive_fields [simp]:
  "dd_tree (full_drive n) = full_tree" "dd_dirty (full_drive n) = map of_nat [0..<n]" "dd_lba (full_drive n) = 0"
  "dd_enabled (full_drive n)" "dd_release (full_drive n) = []" "\<not> dd_built (full_drive n)"
  "md_sectors (dd_medium (full_drive n)) = (\<lambda>x. [ucast x])" "device_works (full_drive n)"
  by (simp_all add: full_drive_def sample_drive_def device_works_def)

lemma full_drive_ok:
  assumes "n \<le> 32"
  shows "coherent (full_drive n)" "Cache_Full (full_drive n)"
proof -
  have "of_nat ` {0..<n} \<subseteq> dom full_tree" using assms by (auto simp: full_tree_def of_nat_unat_u32)
  moreover have "inj_on (of_nat :: nat \<Rightarrow> u32) {0..<n}"
    using assms by (intro inj_on_inverseI [of _ unat]) (simp add: of_nat_unat_u32)
  ultimately show "coherent (full_drive n)" "Cache_Full (full_drive n)"
    by (simp_all add: coherent_def Cache_Full_def full_tree_card full_tree_rel distinct_map)
qed

theorem read_uses_evicted_entry_witness:
  "Drive_Read sample_params 40 3 [[], [], []]
     ((full_drive 0)\<lparr>dd_tree := (full_tree(31 := None))(41 \<mapsto> CreateValue 0 [41]),
        dd_release := [(41, 7)], dd_built := True\<rparr>) = None"
proof (rule read_uses_evicted_entry [where s = 40 and r = 7 and rest = "[]"])
  let ?t = "(full_tree(31 := None))(41 \<mapsto> CreateValue 0 [41])"
  have d: "dom ?t = insert 41 (dom full_tree - {31})" by auto
  have "31 \<in> dom full_tree" "41 \<notin> dom full_tree" by (auto simp: full_tree_def)
  then have c: "card (dom ?t) = 32" "finite (dom ?t)"
    unfolding d using full_tree_card by (simp_all add: card_insert_if)
  show "coherent ((full_drive 0)\<lparr>dd_tree := ?t, dd_release := [(41, 7)], dd_built := True\<rparr>)"
    unfolding coherent_def using c by (auto simp: full_tree_rel split: if_splits)
  show "Cache_Full ((full_drive 0)\<lparr>dd_tree := ?t, dd_release := [(41, 7)], dd_built := True\<rparr>)"
    using c(1) by (simp add: Cache_Full_def)
qed (simp_all add: sample_drive_ok device_works_def full_tree_def full_drive_def sample_drive_def)


lemma replace_step:
  assumes "dd_built d" "dd_release d = (k, r) # rest" "k \<notin> set (dd_dirty d)" "bt_refuses E = (\<lambda>_ _. False)"
  shows "dd_tree d k = None \<Longrightarrow> ReplaceCache E x b d = (False, d\<lparr>dd_release := rest\<rparr>)"
    "dd_tree d k \<noteq> None \<Longrightarrow> rest \<noteq> [] \<Longrightarrow> ReplaceCache E x b d =
       (True, d\<lparr>dd_release := rest, dd_tree := (dd_tree d)(k := None, x \<mapsto> CreateValue (dd_clock d) b)\<rparr>)"
  using assms by (simp_all add: ReplaceCache_def Let_def)

lemma card_swap:
  "finite (dom t) \<Longrightarrow> t k \<noteq> None \<Longrightarrow> t x = None \<Longrightarrow> card (dom (t(k := None, x \<mapsto> v))) = card (dom t)"
proof -
  assume t: "finite (dom t)" "t k \<noteq> None" "t x = None"
  then have "dom (t(k := None, x \<mapsto> v)) = insert x (dom t - {k})" "x \<notin> dom t" "k \<in> dom t" by auto
  then show ?thesis using t(1) card_Suc_Diff1 [of "dom t" k] by (simp add: card_insert_if)
qed

lemma LFU_fold_length:
  "length rel \<le> 3 \<Longrightarrow> length (fold (\<lambda>k. LFU_visit E c dirty k (f k)) ks rel) =
     min 3 (length rel + length (filter (\<lambda>k. k \<notin> set dirty) ks))"
proof (induction ks arbitrary: rel)
  case (Cons k ks)
  have "length (LFU_visit E c dirty k (f k) rel) = (if k \<in> set dirty then length rel else min 3 (length rel + 1))"
    using Cons.prems by (auto simp: LFU_visit_def Let_def)
  then show ?case using Cons by (cases "k \<in> set dirty") (simp_all add: min_def)
qed simp

lemma LFU_fold_keys:
  "fst ` set (fold (\<lambda>k. LFU_visit E c dirty k (f k)) ks rel) \<subseteq> fst ` set rel \<union> (set ks - set dirty)"
proof (induction ks arbitrary: rel)
  case (Cons k ks)
  let ?v = "LFU_visit E c dirty k (f k) rel"
  have h1: "fst ` set ?v \<subseteq> fst ` set rel \<union> ({k} - set dirty)"
    using LFU_visit_keys [of E c dirty k "f k" rel] by (cases "k \<in> set dirty") auto
  have eq: "(fst ` set rel \<union> ({k} - set dirty)) \<union> (set ks - set dirty) = fst ` set rel \<union> (set (k # ks) - set dirty)"
    by auto
  have "fst ` set (fold (\<lambda>k. LFU_visit E c dirty k (f k)) (k # ks) rel) \<subseteq> fst ` set ?v \<union> (set ks - set dirty)"
    using Cons.IH [of ?v] by simp
  then show ?case unfolding eq [symmetric] by (rule subset_trans [OF _ Un_mono [OF h1 subset_refl]])
qed simp

text \<open>Three entries for two sectors: one of three replacements fails and the cache is disabled.\<close>

lemma Read_fill_duplicates:
  assumes "dd_built d" "dd_release d = [(k1, r1), (k2, r2), (k3, r3)]" "{k1, k2, k3} \<subseteq> {a, b}"
    "a \<notin> set (dd_dirty d)" "b \<notin> set (dd_dirty d)" "dd_tree d a \<noteq> None" "dd_tree d b \<noteq> None"
    "bt_refuses E = (\<lambda>_ _. False)" "Cache_Full d" "finite (dom (dd_tree d))"
    "dd_tree d s = None" "dd_tree d (s + 1) = None" "dd_tree d (s + 2) = None"
    "\<not> cached s" "\<not> cached (s + 1)" "\<not> cached (s + 2)"
  shows "\<exists>buf' d'. Read_fill E s cached [s, s + 1, s + 2] buf d = Some (buf', d'\<lparr>dd_enabled := False\<rparr>)"
proof -
  have k: "dd_tree d k1 \<noteq> None" "dd_tree d k2 \<noteq> None" "dd_tree d k3 \<noteq> None"
      "k1 \<notin> set (dd_dirty d)" "k2 \<notin> set (dd_dirty d)" "k3 \<notin> set (dd_dirty d)"
    using assms(3-7) by auto
  then have ne: "s \<noteq> k1" "s \<noteq> k2" "s \<noteq> k3" "s + 1 \<noteq> k1" "s + 1 \<noteq> k2" "s + 1 \<noteq> k3" "s + 1 \<noteq> s"
    using assms(11,12) by auto
  define d1 where "d1 = d\<lparr>dd_release := [(k2, r2), (k3, r3)],
    dd_tree := (dd_tree d)(k1 := None, s \<mapsto> CreateValue (dd_clock d) (buf ! 0))\<rparr>"
  have s1: "ReplaceCache E s (buf ! 0) d = (True, d1)"
    unfolding d1_def by (rule replace_step(2) [OF assms(1,2) k(4) assms(8) k(1)]) simp
  have b1: "dd_built d1" "dd_release d1 = [(k2, r2), (k3, r3)]" "k2 \<notin> set (dd_dirty d1)" "dd_dirty d1 = dd_dirty d"
    using assms(1) k(5) by (simp_all add: d1_def)
  have f1: "Cache_Full d1" "finite (dom (dd_tree d1))"
    using card_swap [OF assms(10) k(1) assms(11)] assms(9,10) by (simp_all add: Cache_Full_def d1_def)
  show ?thesis
  proof (cases "k2 = k1")
    case True
    then have "dd_tree d1 k2 = None" using ne by (simp add: d1_def)
    from replace_step(1) [OF b1(1,2,3) assms(8) this] show ?thesis
      using assms(9,14,15) s1 f1 by auto
  next
    case False
    have t2: "dd_tree d1 k2 \<noteq> None" using k ne False by (simp add: d1_def)
    define d2 where "d2 = d1\<lparr>dd_release := [(k3, r3)],
      dd_tree := (dd_tree d1)(k2 := None, s + 1 \<mapsto> CreateValue (dd_clock d1) (buf ! 1))\<rparr>"
    have s2: "ReplaceCache E (s + 1) (buf ! 1) d1 = (True, d2)"
      unfolding d2_def by (rule replace_step(2) [OF b1(1,2,3) assms(8) t2]) simp
    have "dd_tree d1 (s + 1) = None" using assms(12) ne by (simp add: d1_def)
    then have f2: "Cache_Full d2"
      using card_swap [OF f1(2) t2] f1(1) by (simp add: Cache_Full_def d2_def)
    have b2: "dd_built d2" "dd_release d2 = [(k3, r3)]" "k3 \<notin> set (dd_dirty d2)"
      using b1 k(6) by (simp_all add: d2_def)
    have "k3 = k1 \<or> k3 = k2" using assms(3) False by auto
    then have "dd_tree d2 k3 = None" using ne by (auto simp: d1_def d2_def)
    from replace_step(1) [OF b2 assms(8) this] show ?thesis
      using assms(9,14-16) s1 s2 f1 f2 by auto
  qed
qed

text \<open>the release task keeps the list of an earlier, incomplete traversal and adds the same
  sectors again. If a full cache has only two clean sectors, both on the list, the next run of the
  task completes the list with a duplicate; three replacements later a sector is to be deleted that
  is already gone and the cache is disabled: no sector on the dirty list is ever written, while
  every flush reports success.\<close>

theorem leftover_release_list_disables_cache:
  assumes "coherent d" "Cache_Full d" "\<not> dd_built d" "dd_release d = [(a, ra), (b, rb)]"
    "{k \<in> dom (dd_tree d). k \<notin> set (dd_dirty d)} = {a, b}" "bt_refuses E = (\<lambda>_ _. False)" "device_works d"
    "unat (s0 + dd_lba d) + 3 < 4294967295" "s = s0 + dd_lba d" "length buf = 3"
    "dd_tree d s = None" "dd_tree d (s + 1) = None" "dd_tree d (s + 2) = None"
  shows "\<exists>buf' d'. Drive_Read E s0 3 buf (LFU_Run E d) = Some (Inr (), buf', d') \<and> \<not> dd_enabled d' \<and>
    (\<forall>k. FlushDirtyCacheSectors k d' = Some (True, d'))"
proof -
  let ?ks = "sorted_list_of_set (dom (dd_tree d))"
  define rel where "rel = fold (\<lambda>k. LFU_visit E (dd_clock d) (dd_dirty d) k (the (dd_tree d k))) ?ks (dd_release d)"
  have fin: "finite (dom (dd_tree d))" and en: "dd_enabled d" using assms(1) by (auto simp: coherent_def)
  have ab: "a \<notin> set (dd_dirty d)" "b \<notin> set (dd_dirty d)" "dd_tree d a \<noteq> None" "dd_tree d b \<noteq> None"
    using assms(5) by auto
  then have "a \<in> set (filter (\<lambda>k. k \<notin> set (dd_dirty d)) ?ks)" using fin by auto
  then have "1 \<le> length (filter (\<lambda>k. k \<notin> set (dd_dirty d)) ?ks)"
    by (metis One_nat_def Suc_leI length_pos_if_in_set)
  then have "min 3 (length (dd_release d) + length (filter (\<lambda>k. k \<notin> set (dd_dirty d)) ?ks)) = 3"
    using assms(4) by (simp only: list.size)
  then have len: "length rel = 3" unfolding rel_def using assms(4) by (subst LFU_fold_length) simp_all
  have "fst ` set rel \<subseteq> {a, b}"
    using LFU_fold_keys [of E "dd_clock d" "dd_dirty d" "\<lambda>k. the (dd_tree d k)" ?ks "dd_release d"] assms(4,5) fin
    by (auto simp: rel_def)
  moreover obtain p1 p2 p3 where "rel = [p1, p2, p3]"
    using len by (auto simp: numeral_3_eq_3 length_Suc_conv)
  ultimately obtain k1 r1 k2 r2 k3 r3 where r: "rel = [(k1, r1), (k2, r2), (k3, r3)]" "{k1, k2, k3} \<subseteq> {a, b}"
    by (cases p1, cases p2, cases p3) auto
  have run: "LFU_Run E d = d\<lparr>dd_release := rel, dd_built := True\<rparr>"
    using assms(2,3) len by (simp add: LFU_Run_def rel_def Let_def)
  obtain d1 where d1: "d1 = LFU_Run E d" by blast
  have f: "dd_enabled d1" "device_works d1" "dd_lba d1 = dd_lba d" "dd_tree d1 = dd_tree d" "Cache_Full d1"
      "dd_dirty d1 = dd_dirty d" "dd_built d1" "dd_release d1 = [(k1, r1), (k2, r2), (k3, r3)]"
    using assms(2,7) en by (simp_all add: d1 run device_works_def Cache_Full_def r(1))
  obtain buf' where rd: "Drive_Read E s0 3 buf d1 =
    map_option (\<lambda>(buf, d). (Inr (), buf, d)) (Read_fill E s (\<lambda>x. dd_tree d1 x \<noteq> None) [s, s + 1, s + 2] buf' d1)"
    using read_three [OF f(1,2), of s0 s buf E] assms(8-13) f(3,4) by auto
  obtain buf2 d2 where "Read_fill E s (\<lambda>x. dd_tree d1 x \<noteq> None) [s, s + 1, s + 2] buf' d1 = Some (buf2, d2\<lparr>dd_enabled := False\<rparr>)"
    using Read_fill_duplicates [OF f(7,8) r(2), of E s "\<lambda>x. dd_tree d1 x \<noteq> None" buf'] ab assms(6,11-13) f fin by auto
  then show ?thesis using rd unfolding d1 by (auto simp: FlushDirtyCacheSectors_def)
qed

theorem leftover_release_list_disables_cache_witness:
  "\<exists>buf' d'. Drive_Read sample_params 50 3 [[], [], []]
      (LFU_Run sample_params ((full_drive 30)\<lparr>dd_release := [(30, 1), (31, 1)]\<rparr>)) = Some (Inr (), buf', d') \<and>
    \<not> dd_enabled d' \<and> (\<forall>k. FlushDirtyCacheSectors k d' = Some (True, d'))"
proof (rule leftover_release_list_disables_cache [where s = 50 and a = 30 and b = 31 and ra = 1 and rb = 1])
  let ?d = "(full_drive 30)\<lparr>dd_release := [(30, 1), (31, 1)]\<rparr>"
  have "coherent (full_drive 30)" "Cache_Full (full_drive 30)" using full_drive_ok [of 30] by simp_all
  then show "coherent ?d" "Cache_Full ?d" by (simp_all add: coherent_def Cache_Full_def full_tree_def domIff)
  have "set (dd_dirty ?d) = of_nat ` {0..<30}" by simp
  show "{k \<in> dom (dd_tree ?d). k \<notin> set (dd_dirty ?d)} = {30, 31}"
  proof (intro set_eqI iffI)
    fix k assume "k \<in> {k \<in> dom (dd_tree ?d). k \<notin> set (dd_dirty ?d)}"
    then have k: "unat k < 32" "k \<notin> of_nat ` {0..<30}" by (auto simp: full_tree_def split: if_splits)
    have "k \<in> of_nat ` {0..<30}" if "unat k < 30" using that by (intro image_eqI [of _ _ "unat k"]) auto
    then have "\<not> unat k < 30" using k(2) by blast
    then have "unat k = 30 \<or> unat k = 31" using k(1) by auto
    then have "unat k = unat (30 :: u32) \<or> unat k = unat (31 :: u32)" by simp
    then show "k \<in> {30, 31}" using unsigned_word_eqI by blast
  next
    fix k :: u32 assume "k \<in> {30, 31}"
    moreover have "(30 :: u32) \<notin> of_nat ` {0..<30}" "(31 :: u32) \<notin> of_nat ` {0..<30}"
      by (auto dest!: arg_cong [of _ _ unat] simp: of_nat_unat_u32)
    ultimately show "k \<in> {k \<in> dom (dd_tree ?d). k \<notin> set (dd_dirty ?d)}" by (auto simp: full_tree_def)
  qed
qed (simp_all add: sample_params_def device_works_def full_tree_def full_drive_def sample_drive_def)

end
