(* ===== verification/Volumes.thy ===== *)
theory Volumes
  imports Drives
begin

text \<open>
  A drive with or without its sector cache as a block device. The cache may be switched off (the
  property on leftover release lists shows how); then reads and writes go to the device, and a
  transfer of any length is defined. \<open>usable c\<close> says whether it is on; \<open>stored\<close> is what a reader
  of the drive sees.
\<close>

definition raw_contents :: "'r drive \<Rightarrow> u32 \<Rightarrow> sector" where
  "raw_contents d x = md_sectors (dd_medium d) (x + dd_lba d)"

definition usable :: "bool \<Rightarrow> 'r cache_params \<Rightarrow> nat \<Rightarrow> 'r drive \<Rightarrow> bool" where
  "usable c E cap d \<longleftrightarrow> dd_enabled d = c \<and> (if c then drive_ok cap d \<and> tree_accepts E else unat (dd_lba d) + cap < 4294967295)"

definition stored :: "'r drive \<Rightarrow> u32 \<Rightarrow> sector" where
  "stored d = (if dd_enabled d then drive_contents d else raw_contents d)"

lemma drive_ok_enabled: "drive_ok cap d \<Longrightarrow> dd_enabled d"
  by (simp add: drive_ok_def coherent_def)

lemma raw_read:
  assumes "\<not> dd_enabled d" "Drive_Read E s n buf d = Some (r, buf', d')" "length buf = unat n"
  shows "\<not> dd_enabled d'" "dd_lba d' = dd_lba d" "raw_contents d' = raw_contents d"
    "r = Inr () \<Longrightarrow> buf' = map (\<lambda>i. raw_contents d (s + of_nat i)) [0..<unat n]"
proof -
  obtain f m where f: "next_fault (dd_medium d) = (f, m)" by (rule prod.exhaust)
  note ms = next_fault_sectors [OF f]
  have p: "patch buf 0 (map g [0..<unat n]) = map g [0..<unat n]" for g
    using assms(3) by (simp add: patch_def)
  show "\<not> dd_enabled d'" "dd_lba d' = dd_lba d" "raw_contents d' = raw_contents d"
    "r = Inr () \<Longrightarrow> buf' = map (\<lambda>i. raw_contents d (s + of_nat i)) [0..<unat n]"
    using assms f ms p
    by (auto simp: Drive_Read_def RawRead_def raw_contents_def fun_eq_iff ac_simps split: if_splits)
qed

lemma raw_write:
  assumes "\<not> dd_enabled d" "Drive_Write E s n buf d = Some (r, d')" "length buf = unat n"
    "unat s + unat (dd_lba d) + length buf < 4294967296"
  shows "\<not> dd_enabled d'" "dd_lba d' = dd_lba d"
    "raw_contents d' = (if r = Inr () then overwrite (raw_contents d) s buf else raw_contents d)"
proof -
  obtain f m where f: "next_fault (dd_medium d) = (f, m)" by (rule prod.exhaust)
  note ms = next_fault_sectors [OF f]
  have t: "take (unat n) buf = buf" using assms(3) by simp
  have raw: "raw_contents d = (\<lambda>y. md_sectors (dd_medium d) (y + dd_lba d))" by (simp add: raw_contents_def fun_eq_iff)
  show "\<not> dd_enabled d'" "dd_lba d' = dd_lba d"
    "raw_contents d' = (if r = Inr () then overwrite (raw_contents d) s buf else raw_contents d)"
    using assms f ms t
    by (auto simp: Drive_Write_def RawWrite_def raw raw_contents_def overwrite_moved fun_eq_iff split: if_splits)
qed

interpretation volume: block_device "drive_io E" "usable c E cap" stored cap
proof
  fix d :: "'a drive" and s n buf r buf' d'
  assume ok: "usable c E cap d" and fits: "unat s + unat n \<le> cap" and len: "length buf = unat n"
    and run: "io_read (drive_io E) s n buf d = Some (r, buf', d')"
  show "usable c E cap d' \<and> stored d' = stored d \<and>
      (r = Inr () \<longrightarrow> buf' = map (\<lambda>i. stored d (s + of_nat i)) [0..<unat n])"
  proof (cases "dd_enabled d")
    case True
    then have "drive_ok cap d \<and> tree_accepts E" using ok by (simp add: usable_def)
    from disk.read_law [OF this fits len run] True ok show ?thesis
      by (auto simp: usable_def stored_def dest: drive_ok_enabled)
  next
    case False
    have run': "Drive_Read E s n buf d = Some (r, buf', d')" using run by (simp add: drive_io_def)
    show ?thesis using raw_read [OF False run' len] ok False by (simp add: usable_def stored_def)
  qed
next
  fix d :: "'a drive" and s n buf r d'
  assume ok: "usable c E cap d" and fits: "unat s + unat n \<le> cap" and len: "length buf = unat n"
    and run: "io_write (drive_io E) s n buf d = Some (r, d')"
  show "usable c E cap d' \<and> (r = Inr () \<longrightarrow> stored d' = overwrite (stored d) s buf) \<and>
      (\<forall>x. stored d' x = stored d x \<or> in_range s n x \<and> stored d' x = overwrite (stored d) s buf x)"
  proof (cases "dd_enabled d")
    case True
    then have "drive_ok cap d \<and> tree_accepts E" using ok by (simp add: usable_def)
    from disk.write_law [OF this fits len run] True ok show ?thesis
      by (auto simp: usable_def stored_def dest: drive_ok_enabled)
  next
    case False
    have small: "unat s + unat (dd_lba d) + length buf < 4294967296" using ok fits len False by (auto simp: usable_def)
    have "Drive_Write E s n buf d = Some (r, d')" using run by (simp add: drive_io_def)
    note rw = raw_write [OF False this len small]
    have "overwrite (raw_contents d) s buf x = raw_contents d x \<or> in_range s n x" for x
      using overwrite_outside [of s x buf "raw_contents d"] len unfolding in_range_def by linarith
    then show ?thesis using rw ok False unfolding usable_def stored_def by simp
  qed
next
  fix d :: "'a drive" and s :: u32 and b
  assume ok: "usable c E cap d" and fits: "unat s + 1 \<le> cap"
  show "io_read (drive_io E) s 1 [b] d \<noteq> None" "io_write (drive_io E) s 1 [b] d \<noteq> None"
  proof -
    have "io_read (drive_io E) s 1 [b] d \<noteq> None \<and> io_write (drive_io E) s 1 [b] d \<noteq> None"
    proof (cases "dd_enabled d")
      case True
      then have "drive_ok cap d \<and> tree_accepts E" using ok by (simp add: usable_def)
      from disk.read_one_defined [OF this fits] disk.write_one_defined [OF this fits] show ?thesis by blast
    next
      case False
      then show ?thesis
        by (auto simp: drive_io_def Drive_Read_def Drive_Write_def split: prod.splits sum.splits)
    qed
    then show "io_read (drive_io E) s 1 [b] d \<noteq> None" "io_write (drive_io E) s 1 [b] d \<noteq> None" by auto
  qed
qed

text \<open>Without the cache every transfer is defined.\<close>

lemma raw_defined:
  assumes "\<not> dd_enabled d"
  shows "io_read (drive_io E) s n buf d \<noteq> None" "io_write (drive_io E) s n buf d \<noteq> None"
  using assms by (auto simp: drive_io_def Drive_Read_def Drive_Write_def split: prod.splits sum.splits)

end
