(* ===== verification/FsProofs.thy ===== *)
theory FsProofs
  imports FsTable Volumes ByteMem
begin

text \<open>
  The file system table as an array of entries. The table cache of \<open>FsTable\<close> is a write-back cache
  of table sectors: \<open>blk\<close> gives the contents of a table block as the file system sees it, from
  the cache or from the disk. The lemmas on the operations are proved for every \<open>block_device\<close>; the
  properties state them for the cached drive of \<open>Drives\<close>.
\<close>

section \<open>The binary search\<close>

lemma BinarySearch_loop_spec:
  assumes "sorted_wrt (<) ids" "0 \<le> low" "low \<le> high + 1" "high < int (length ids)"
    "\<forall>j < nat low. ids ! j < k" "\<forall>j < length ids. high < int j \<longrightarrow> k < ids ! j"
    "pos = low \<or> pos = high + 1 \<or> (pos = -1 \<and> low = 0 \<and> high = int (length ids) - 1)"
    "BinarySearch_loop ids k low high pos = (found, p)"
  shows "if found then 0 \<le> p \<and> p < int (length ids) \<and> ids ! nat p = k
    else (p = -1 \<and> ids = [] \<or> 0 \<le> p \<and> p \<le> int (length ids) \<and> (\<forall>j < nat p. ids ! j < k) \<and>
      (\<forall>j < length ids. nat p \<le> j \<longrightarrow> k < ids ! j))"
  using assms
proof (induction ids k low high pos rule: BinarySearch_loop.induct)
  case (1 ids k low high pos)
  let ?mid = "(low + high) div 2"
  show ?case
  proof (cases "low \<le> high")
    case False
    then have "low = high + 1" "found = False" "p = pos"
      using "1.prems"(3,8) by (auto simp: BinarySearch_loop.simps [of ids k low high pos])
    then show ?thesis using "1.prems" by auto
  next
    case True
    have mid: "0 \<le> ?mid" "?mid < int (length ids)" "low \<le> ?mid" "?mid \<le> high"
      using True "1.prems"(2,4) by auto
    have less: "ids ! i < ids ! j" if "i < j" "j < length ids" for i j
      using "1.prems"(1) that by (simp add: sorted_wrt_iff_nth_less)
    consider "k = ids ! nat ?mid" | "k < ids ! nat ?mid" | "ids ! nat ?mid < k" by force
    then show ?thesis
    proof cases
      case 1
      have "BinarySearch_loop ids k low high pos = (True, ?mid)"
        by (subst BinarySearch_loop.simps) (simp add: True Let_def flip: 1)
      then have "found" "p = ?mid" using "1.prems"(8) by simp_all
      then show ?thesis using 1 mid by simp
    next
      case 2
      then have ne: "k \<noteq> ids ! nat ?mid" by simp
      have run: "BinarySearch_loop ids k low (?mid - 1) ?mid = (found, p)"
        using True "1.prems"(8) 2 ne by (simp add: BinarySearch_loop.simps [of ids k low high pos] Let_def)
      have "k < ids ! j" if j: "j < length ids" "?mid - 1 < int j" for j
        using less [of "nat ?mid" j] 2 j mid by (cases "j = nat ?mid") (auto intro: less_trans)
      then show ?thesis
        using "1.prems" mid by (intro "1.IH"(1) [OF True refl ne 2 _ _ _ _ _ _ _ run]) (use 2 in auto)
    next
      case 3
      then have ne: "k \<noteq> ids ! nat ?mid" "\<not> k < ids ! nat ?mid" by auto
      have run: "BinarySearch_loop ids k (?mid + 1) high (?mid + 1) = (found, p)"
        using True "1.prems"(8) 3 ne by (simp add: BinarySearch_loop.simps [of ids k low high pos] Let_def)
      have "ids ! j < k" if j: "j < nat (?mid + 1)" for j
      proof (cases "j = nat ?mid")
        case False
        then have "j < nat ?mid" "nat ?mid < length ids" using j mid by linarith+
        then show ?thesis using less 3 by (blast intro: less_trans)
      qed (use 3 in simp)
      then show ?thesis
        using "1.prems" mid by (intro "1.IH"(2) [OF True refl ne _ _ _ _ _ _ _ run]) (use 3 in auto)
    qed
  qed
qed

lemma BinarySearch_spec:
  assumes "sorted_wrt (<) (map sb_blockId cache)" "FSManager_BinarySearch cache k = (found, p)"
  shows "0 \<le> p" "found \<Longrightarrow> p < int (length cache) \<and> sb_blockId (cache ! nat p) = k"
    "\<not> found \<Longrightarrow> p \<le> int (length cache) \<and> (\<forall>j < nat p. sb_blockId (cache ! j) < k) \<and>
      (\<forall>j < length cache. nat p \<le> j \<longrightarrow> k < sb_blockId (cache ! j))"
proof -
  let ?ids = "map sb_blockId cache"
  obtain f q where l: "BinarySearch_loop ?ids k 0 (int (length cache) - 1) (-1) = (f, q)" by (rule prod.exhaust)
  note sp = BinarySearch_loop_spec [OF assms(1) _ _ _ _ _ _ l]
  have r: "found = f" "p = (if f \<or> (0 \<le> q \<and> q < int (length cache)) then q else if q < 0 then 0 else int (length cache))"
    using assms(2) l by (auto simp: FSManager_BinarySearch_def split: bool.splits if_splits)
  show "0 \<le> p" "found \<Longrightarrow> p < int (length cache) \<and> sb_blockId (cache ! nat p) = k"
    "\<not> found \<Longrightarrow> p \<le> int (length cache) \<and> (\<forall>j < nat p. sb_blockId (cache ! j) < k) \<and>
      (\<forall>j < length cache. nat p \<le> j \<longrightarrow> k < sb_blockId (cache ! j))"
    using sp r by (auto split: if_splits)
qed


section \<open>Table sectors as bytes\<close>

lemma words_of_bytes_of [simp]: "words_of (bytes_of ws) = ws"
  by (induction ws) (simp_all add: word_bytes_join)

lemma length_bytes_of [simp]: "length (bytes_of ws) = 4 * length ws"
  by (induction ws) simp_all

lemma length_words_of [simp]: "length (words_of bs) = length bs div 4"
  by (induction bs rule: words_of.induct) simp_all

lemma words_of_append: "length xs mod 4 = 0 \<Longrightarrow> words_of (xs @ ys) = words_of xs @ words_of ys"
proof (induction xs rule: words_of.induct)
  case (1 a b c d bs)
  then have "length bs mod 4 = 0" by (metis add_Suc_right length_Cons mod_add_self2 numeral_2_eq_2 plus_1_eq_Suc
      One_nat_def Suc_1 Suc_eq_plus1 numeral_Bit0 numeral_One add_2_eq_Suc')
  then show ?case using 1 by simp
qed auto

section \<open>The table seen through the cache\<close>

definition cmap :: "sector_block_entry list \<Rightarrow> u32 \<rightharpoonup> u32 list" where
  "cmap cache = map_of (map (\<lambda>e. (sb_blockId e, sb_sectorBlock e)) cache)"

definition blk :: "sector_block_entry list \<Rightarrow> (u32 \<Rightarrow> sector) \<Rightarrow> boot_block \<Rightarrow> u32 \<Rightarrow> u32 list" where
  "blk cache f b k = (case cmap cache k of Some ws \<Rightarrow> ws | None \<Rightarrow> words_of (f (GetTableSectorId b k)))"

text \<open>The areas of the partition and the bounds that keep the arithmetic from wrapping.\<close>

definition layout :: "nat \<Rightarrow> boot_block \<Rightarrow> bool" where
  "layout cap b \<longleftrightarrow> BPB_BytesPerSec b = 512 \<and>
     1 + unat (BPB_RsvdSecCnt b) + unat (BPB_FSTableSize b) + 128 * unat (BPB_FSTableSize b) \<le> cap \<and>
     512 * unat (BPB_FSTableSize b) < 4294967296 \<and> cap < 4294967296"

definition data_start :: "boot_block \<Rightarrow> nat" where
  "data_start b = 1 + unat (BPB_RsvdSecCnt b) + unat (BPB_FSTableSize b)"

definition table_inv :: "(u32 \<Rightarrow> sector) \<Rightarrow> boot_block \<Rightarrow> sector_block_entry list \<Rightarrow> bool" where
  "table_inv f b cache \<longleftrightarrow> (\<forall>x. length (f x) = 512) \<and> sorted_wrt (<) (map sb_blockId cache) \<and>
     length cache \<le> MAX_SECTORS_IN_TABLE_CACHE \<and>
     (\<forall>e \<in> set cache. sb_blockId e < BPB_FSTableSize b \<and> length (sb_sectorBlock e) = 128 \<and>
        (sb_writeCount e = 0 \<longrightarrow> sb_sectorBlock e = words_of (f (GetTableSectorId b (sb_blockId e)))))"

definition fs_inv :: "('d \<Rightarrow> bool) \<Rightarrow> ('d \<Rightarrow> u32 \<Rightarrow> sector) \<Rightarrow> nat \<Rightarrow> 'd fsys \<Rightarrow> bool" where
  "fs_inv ok cont cap st \<longleftrightarrow> ok (fs_dev st) \<and> layout cap (fs_boot st) \<and>
     table_inv (cont (fs_dev st)) (fs_boot st) (fs_tableCache st)"

definition tblk :: "('d \<Rightarrow> u32 \<Rightarrow> sector) \<Rightarrow> 'd fsys \<Rightarrow> u32 \<Rightarrow> u32 list" where
  "tblk cont st = blk (fs_tableCache st) (cont (fs_dev st)) (fs_boot st)"

text \<open>The raw entry of sector \<open>i\<close>; the code masks it with \<open>EOC\<close>.\<close>

definition entry :: "('d \<Rightarrow> u32 \<Rightarrow> sector) \<Rightarrow> 'd fsys \<Rightarrow> u32 \<Rightarrow> u32" where
  "entry cont st i = tblk cont st (BLOCK_ID i) ! unat (BLOCK_OFFSET i)"

text \<open>The parts of the state other than cache and drive.\<close>

definition same_rest :: "'d fsys \<Rightarrow> 'd fsys \<Rightarrow> bool" where
  "same_rest st st' \<longleftrightarrow> fs_boot st' = fs_boot st \<and> fs_freePool st' = fs_freePool st \<and> fs_pwd st' = fs_pwd st \<and>
     fs_mounted st' = fs_mounted st"

definition same_table :: "('d \<Rightarrow> u32 \<Rightarrow> sector) \<Rightarrow> 'd fsys \<Rightarrow> 'd fsys \<Rightarrow> bool" where
  "same_table cont st st' \<longleftrightarrow> (\<forall>k < BPB_FSTableSize (fs_boot st). tblk cont st' k = tblk cont st k)"

definition same_data :: "('d \<Rightarrow> u32 \<Rightarrow> sector) \<Rightarrow> 'd fsys \<Rightarrow> 'd fsys \<Rightarrow> bool" where
  "same_data cont st st' \<longleftrightarrow> (\<forall>x. data_start (fs_boot st) \<le> unat x \<longrightarrow> cont (fs_dev st') x = cont (fs_dev st) x)"

definition same_fs :: "('d \<Rightarrow> u32 \<Rightarrow> sector) \<Rightarrow> 'd fsys \<Rightarrow> 'd fsys \<Rightarrow> bool" where
  "same_fs cont st st' \<longleftrightarrow> same_rest st st' \<and> same_table cont st st' \<and> same_data cont st st'"

lemmas same_defs = same_fs_def same_rest_def same_table_def same_data_def

text \<open>A throw of the table code: an error of the device, with the data area as it was.\<close>

definition device_failed :: "('d \<Rightarrow> u32 \<Rightarrow> sector) \<Rightarrow> 'd fsys \<Rightarrow> fs_error \<Rightarrow> 'd fsys \<Rightarrow> bool" where
  "device_failed cont st e t \<longleftrightarrow> (\<exists>x. e = DriveError x) \<and> same_data cont st t"

lemma same_fs_refl [simp]: "same_fs cont st st"
  by (simp add: same_defs)

lemma same_fs_trans: "same_fs cont s t \<Longrightarrow> same_fs cont t u \<Longrightarrow> same_fs cont s u"
  by (auto simp: same_defs)

lemma table_sector_inj: "GetTableSectorId b k = GetTableSectorId b k' \<longleftrightarrow> k = k'"
  by (simp add: GetTableSectorId_def)

lemma table_sector_bound:
  assumes "layout cap b" "k < BPB_FSTableSize b"
  shows "unat (GetTableSectorId b k) < data_start b" "data_start b \<le> cap"
proof -
  have k: "unat k < unat (BPB_FSTableSize b)" using assms(2) by (simp add: word_less_nat_alt)
  have u: "unat (ucast (BPB_RsvdSecCnt b) :: u32) = unat (BPB_RsvdSecCnt b)"
    by (rule unat_ucast_u16)
  have "unat (GetTableSectorId b k) = unat k + 1 + unat (BPB_RsvdSecCnt b)"
    unfolding GetTableSectorId_def using assms(1) k u
    by (simp add: unat_add_no_wrap layout_def)
  then show "unat (GetTableSectorId b k) < data_start b" "data_start b \<le> cap"
    using assms k by (simp_all add: layout_def data_start_def)
qed

lemma cmap_Cons: "cmap (e # cache) = (cmap cache)(sb_blockId e \<mapsto> sb_sectorBlock e)"
  by (simp add: cmap_def)

lemma cmap_None: "cmap cache k = None \<longleftrightarrow> k \<notin> sb_blockId ` set cache"
  by (force simp: cmap_def map_of_eq_None_iff)

lemma cmap_distinct:
  "distinct (map sb_blockId cache) \<Longrightarrow> e \<in> set cache \<Longrightarrow> cmap cache (sb_blockId e) = Some (sb_sectorBlock e)"
  unfolding cmap_def by (intro map_of_is_SomeI) (auto simp: comp_def)

lemma cmap_insert:
  "sb_blockId e \<notin> sb_blockId ` set cache \<Longrightarrow>
     cmap (take p cache @ e # drop p cache) = (cmap cache)(sb_blockId e \<mapsto> sb_sectorBlock e)"
proof -
  assume new: "sb_blockId e \<notin> sb_blockId ` set cache"
  have "cmap (xs @ e # ys) = (cmap (xs @ ys))(sb_blockId e \<mapsto> sb_sectorBlock e)"
    if "sb_blockId e \<notin> sb_blockId ` set xs" for xs ys
    using that by (induction xs) (auto simp: cmap_Cons fun_upd_twist)
  moreover have "set (take p cache) \<subseteq> set cache" by (rule set_take_subset)
  ultimately show ?thesis using new by (metis append_take_drop_id image_mono subsetD)
qed

lemma cmap_drop:
  "sorted_wrt (<) (map sb_blockId cache) \<Longrightarrow>
     cmap (drop n cache) k = (if k \<in> sb_blockId ` set (take n cache) then None else cmap cache k)"
proof (induction n arbitrary: cache)
  case (Suc n)
  then show ?case
  proof (cases cache)
    case (Cons e es)
    have "sb_blockId e \<notin> sb_blockId ` set es" using Suc.prems Cons by auto
    then have "sb_blockId e \<notin> sb_blockId ` set (drop n es)" by (auto dest: in_set_dropD)
    then show ?thesis using Suc Cons cmap_None [of "drop n es" "sb_blockId e"] by (auto simp: cmap_Cons)
  qed simp
qed simp

lemma cmap_update:
  assumes "distinct (map sb_blockId cache)" "p < length cache" "sb_blockId e = sb_blockId (cache ! p)"
  shows "cmap (cache[p := e]) = (cmap cache)(sb_blockId e \<mapsto> sb_sectorBlock e)"
proof -
  have c: "cache = take p cache @ cache ! p # drop (Suc p) cache" using assms(2) by (rule id_take_nth_drop)
  let ?xs = "take p cache" and ?ys = "drop (Suc p) cache"
  have "distinct (map sb_blockId (?xs @ cache ! p # ?ys))" using assms(1) c by simp
  then have "sb_blockId (cache ! p) \<notin> sb_blockId ` set (?xs @ ?ys)" by auto
  then have new: "\<And>f. sb_blockId f = sb_blockId e \<Longrightarrow> sb_blockId f \<notin> sb_blockId ` set (?xs @ ?ys)"
    using assms(3) by simp
  have ins: "cmap (?xs @ f # ?ys) = (cmap (?xs @ ?ys))(sb_blockId f \<mapsto> sb_sectorBlock f)" if "sb_blockId f = sb_blockId e" for f
    using cmap_insert [OF new [OF that], of p] assms(2) by simp
  have "cmap (cache[p := e]) = (cmap (?xs @ ?ys))(sb_blockId e \<mapsto> sb_sectorBlock e)"
    using ins [of e] assms(2) by (simp add: upd_conv_take_nth_drop)
  moreover have "cmap cache = (cmap (?xs @ ?ys))(sb_blockId e \<mapsto> sb_sectorBlock (cache ! p))"
    using ins [of "cache ! p"] assms(3) c by simp
  ultimately show ?thesis by simp
qed


lemma blk_cached: "cmap cache k = Some ws \<Longrightarrow> blk cache f b k = ws"
  by (simp add: blk_def)

text \<open>Writing a block of the cache to its place on the disk.\<close>

lemma table_inv_flush_block:
  assumes inv: "table_inv f b cache" and e: "e \<in> set cache"
    and g: "g = f \<or> g = f(GetTableSectorId b (sb_blockId e) := bytes_of (sb_sectorBlock e))"
  shows "table_inv g b cache" "blk cache g b k = blk cache f b k"
proof -
  have d: "distinct (map sb_blockId cache)" using inv by (simp add: table_inv_def strict_sorted_iff)
  have len: "length (sb_sectorBlock e) = 128" using inv e by (simp add: table_inv_def)
  have same: "sb_sectorBlock e' = sb_sectorBlock e" if "e' \<in> set cache" "sb_blockId e' = sb_blockId e" for e'
    using cmap_distinct [OF d e] cmap_distinct [OF d that(1)] that(2) by simp
  have "sb_sectorBlock e' = words_of (g (GetTableSectorId b (sb_blockId e')))"
    if e': "e' \<in> set cache" "sb_writeCount e' = 0" for e'
  proof (cases "sb_blockId e' = sb_blockId e")
    case True
    have "sb_sectorBlock e' = words_of (f (GetTableSectorId b (sb_blockId e')))"
      using inv e' by (simp add: table_inv_def)
    then show ?thesis using g True same [OF e'(1) True] by auto
  next
    case False
    then show ?thesis using inv e' g by (auto simp: table_inv_def table_sector_inj)
  qed
  then show "table_inv g b cache"
    using inv g len by (auto simp: table_inv_def)
  show "blk cache g b k = blk cache f b k"
  proof (cases "cmap cache k")
    case None
    then have "k \<noteq> sb_blockId e" using e by (auto simp: cmap_None)
    then show ?thesis using None g by (auto simp: blk_def table_sector_inj)
  qed (simp add: blk_cached)
qed

context block_device
begin

lemma wp_dev_write1:
  assumes "ok (fs_dev st)" "unat s < capacity"
    "\<And>d. ok d \<Longrightarrow> contents d = (contents (fs_dev st))(s := b) \<Longrightarrow> Q () (st\<lparr>fs_dev := d\<rparr>)"
    "\<And>e d. ok d \<Longrightarrow> contents d = contents (fs_dev st) \<or> contents d = (contents (fs_dev st))(s := b) \<Longrightarrow>
       X (DriveError e) (st\<lparr>fs_dev := d\<rparr>)"
  shows "wp False (dev_write io s 1 [b]) Q X st"
  by (rule write_one [OF assms(1,2), of b]) (auto simp: wp_def dev_write_def intro: assms(3,4))

lemma wp_dev_read1:
  assumes "ok (fs_dev st)" "unat s < capacity"
    "\<And>d. ok d \<Longrightarrow> contents d = contents (fs_dev st) \<Longrightarrow> Q [contents d s] (st\<lparr>fs_dev := d\<rparr>)"
    "\<And>e d. ok d \<Longrightarrow> contents d = contents (fs_dev st) \<Longrightarrow> X (DriveError e) (st\<lparr>fs_dev := d\<rparr>)"
  shows "wp False (dev_read io s 1) Q X st"
proof -
  have r: "replicate (unat (1 :: u32)) zeros = [zeros]" by simp
  show ?thesis
    by (rule read_one [OF assms(1,2), of zeros])
      (auto simp: wp_def dev_read_def r intro: assms(4), metis assms(3))
qed

lemma inv_drive_same:
  assumes "fs_inv ok contents capacity st" "ok d" "contents d = contents (fs_dev st)"
  shows "fs_inv ok contents capacity (st\<lparr>fs_dev := d\<rparr>)" "same_fs contents st (st\<lparr>fs_dev := d\<rparr>)"
  using assms by (simp_all add: fs_inv_def same_defs tblk_def)

text \<open>One block written in a flush.\<close>

lemma flush_block:
  assumes inv: "fs_inv ok contents capacity st" and e: "e \<in> set (fs_tableCache st)" and d: "ok d"
    and g: "contents d = contents (fs_dev st) \<or>
      contents d = (contents (fs_dev st))(GetTableSectorId (fs_boot st) (sb_blockId e) := bytes_of (sb_sectorBlock e))"
  shows "fs_inv ok contents capacity (st\<lparr>fs_dev := d\<rparr>)" "same_fs contents st (st\<lparr>fs_dev := d\<rparr>)"
proof -
  have ti: "table_inv (contents (fs_dev st)) (fs_boot st) (fs_tableCache st)"
    and lay: "layout capacity (fs_boot st)" using inv by (simp_all add: fs_inv_def)
  show "fs_inv ok contents capacity (st\<lparr>fs_dev := d\<rparr>)"
    using table_inv_flush_block(1) [OF ti e g] lay d by (simp add: fs_inv_def)
  have "sb_blockId e < BPB_FSTableSize (fs_boot st)" using ti e by (simp add: table_inv_def)
  from table_sector_bound(1) [OF lay this]
  show "same_fs contents st (st\<lparr>fs_dev := d\<rparr>)"
    using table_inv_flush_block(2) [OF ti e g] g by (auto simp: same_defs tblk_def)
qed

lemma flush_steps:
  assumes inv: "fs_inv ok contents capacity st" and n: "n \<le> length (fs_tableCache st)"
  shows "wp False
     (steps (\<lambda>i. if sb_writeCount (fs_tableCache st ! i) = 0 then yield ()
        else and_then (gets fs_boot) (\<lambda>b.
          dev_write io (sb_blockId (fs_tableCache st ! i) + ucast (BPB_RsvdSecCnt b) + 1) 1
            [bytes_of (sb_sectorBlock (fs_tableCache st ! i))])) [0..<n])
     (\<lambda>_ t. fs_inv ok contents capacity t \<and> same_fs contents st t \<and> fs_tableCache t = fs_tableCache st \<and>
        (\<forall>j<n. words_of (contents (fs_dev t) (GetTableSectorId (fs_boot st) (sb_blockId (fs_tableCache st ! j)))) =
           sb_sectorBlock (fs_tableCache st ! j)))
     (\<lambda>e t. (\<exists>x. e = DriveError x) \<and> fs_inv ok contents capacity t \<and> same_fs contents st t \<and> fs_tableCache t = fs_tableCache st) st"
proof (rule wp_steps [where I = "\<lambda>i t. fs_inv ok contents capacity t \<and> same_fs contents st t \<and> fs_tableCache t = fs_tableCache st \<and>
    (\<forall>j<i. words_of (contents (fs_dev t) (GetTableSectorId (fs_boot st) (sb_blockId (fs_tableCache st ! j)))) =
       sb_sectorBlock (fs_tableCache st ! j))"], goal_cases)
  case (2 i t)
  let ?c = "fs_tableCache st" and ?b = "fs_boot st"
  let ?e = "?c ! i"
  have i: "[0..<n] ! i = i" "i < length ?c" using 2(1) n by auto
  have t: "fs_inv ok contents capacity t" "same_fs contents st t" "fs_tableCache t = ?c" "fs_boot t = ?b"
    and old: "\<forall>j<i. words_of (contents (fs_dev t) (GetTableSectorId ?b (sb_blockId (?c ! j)))) = sb_sectorBlock (?c ! j)"
    using 2(2) by (auto simp: same_defs)
  have e: "?e \<in> set (fs_tableCache t)" using i t(3) by simp
  have ti: "table_inv (contents (fs_dev t)) ?b ?c" and lay: "layout capacity ?b" and okt: "ok (fs_dev t)"
    using t by (simp_all add: fs_inv_def)
  have eid: "sb_blockId ?e < BPB_FSTableSize ?b" using ti i(2) by (simp add: table_inv_def)
  have sec: "sb_blockId ?e + ucast (BPB_RsvdSecCnt ?b) + 1 = GetTableSectorId ?b (sb_blockId ?e)"
    by (simp add: GetTableSectorId_def)
  have cap: "unat (GetTableSectorId ?b (sb_blockId ?e)) < capacity"
    using table_sector_bound [OF lay eid] by simp
  show ?case
  proof (cases "sb_writeCount ?e = 0")
    case True
    then have "words_of (contents (fs_dev t) (GetTableSectorId ?b (sb_blockId ?e))) = sb_sectorBlock ?e"
      using ti i(2) by (auto simp: table_inv_def)
    then show ?thesis using True i t old by (auto simp: wp_rules less_Suc_eq)
  next
    case False
    have fb: "fs_inv ok contents capacity (t\<lparr>fs_dev := d\<rparr>) \<and> same_fs contents st (t\<lparr>fs_dev := d\<rparr>)"
      if "ok d" "contents d = contents (fs_dev t) \<or>
        contents d = (contents (fs_dev t))(GetTableSectorId ?b (sb_blockId ?e) := bytes_of (sb_sectorBlock ?e))" for d
      using flush_block [OF t(1) e that(1)] that(2) t(4) same_fs_trans [OF t(2)] by simp
    have "wp False (dev_write io (GetTableSectorId ?b (sb_blockId ?e)) 1 [bytes_of (sb_sectorBlock ?e)])
      (\<lambda>_ u. fs_inv ok contents capacity u \<and> same_fs contents st u \<and> fs_tableCache u = ?c \<and>
        (\<forall>j<Suc i. words_of (contents (fs_dev u) (GetTableSectorId ?b (sb_blockId (?c ! j)))) = sb_sectorBlock (?c ! j)))
      (\<lambda>e u. (\<exists>x. e = DriveError x) \<and> fs_inv ok contents capacity u \<and> same_fs contents st u \<and> fs_tableCache u = ?c) t"
    proof (rule wp_dev_write1 [OF okt cap], goal_cases)
      case (1 d)
      have dist: "distinct (map sb_blockId ?c)" using ti by (simp add: table_inv_def strict_sorted_iff)
      have "words_of (contents d (GetTableSectorId ?b (sb_blockId (?c ! j)))) = sb_sectorBlock (?c ! j)" if "j < Suc i" for j
      proof (cases "j = i")
        case False
        then have "j < i" "sb_blockId (?c ! j) \<noteq> sb_blockId ?e"
          using that dist i(2) nth_eq_iff_index_eq [OF dist, of j i] by auto
        then show ?thesis using old 1(2) by (simp add: table_sector_inj)
      qed (simp add: 1(2))
      then show ?case using fb [of d] 1 t(3) by simp
    next
      case (2 e d)
      then show ?case using fb [of d] t(3) by simp
    qed
    then show ?thesis using False i t(4) sec by (simp add: wp_rules)
  qed
qed (use inv in auto)

lemma flush_ok:
  assumes inv: "fs_inv ok contents capacity st"
  shows "wp False (FlushTableCache io k)
     (\<lambda>_ t. fs_inv ok contents capacity t \<and> same_fs contents st t \<and>
        fs_tableCache t = (if k < length (fs_tableCache st) then drop k (fs_tableCache st) else fs_tableCache st))
     (\<lambda>e t. (\<exists>x. e = DriveError x) \<and> fs_inv ok contents capacity t \<and> same_fs contents st t \<and> fs_tableCache t = fs_tableCache st) st"
proof -
  let ?c = "fs_tableCache st" and ?n = "min k (length (fs_tableCache st))"
  have dropped: "fs_inv ok contents capacity (t\<lparr>fs_tableCache := drop ?n ?c\<rparr>) \<and> same_fs contents st (t\<lparr>fs_tableCache := drop ?n ?c\<rparr>)"
    if t: "fs_inv ok contents capacity t" "same_fs contents st t" "fs_tableCache t = ?c"
      and w: "\<forall>j<?n. words_of (contents (fs_dev t) (GetTableSectorId (fs_boot st) (sb_blockId (?c ! j)))) = sb_sectorBlock (?c ! j)"
    for t
  proof -
    have b: "fs_boot t = fs_boot st" using t(2) by (simp add: same_defs)
    have ti: "table_inv (contents (fs_dev t)) (fs_boot st) ?c" using t(1,3) b by (simp add: fs_inv_def)
    then have s: "sorted_wrt (<) (map sb_blockId ?c)" and dist: "distinct (map sb_blockId ?c)"
      by (simp_all add: table_inv_def strict_sorted_iff)
    have "blk (drop ?n ?c) (contents (fs_dev t)) (fs_boot st) x = blk ?c (contents (fs_dev t)) (fs_boot st) x" for x
    proof (cases "x \<in> sb_blockId ` set (take ?n ?c)")
      case True
      then obtain j where j: "j < ?n" "x = sb_blockId (?c ! j)" by (auto simp: in_set_conv_nth)
      then have "cmap ?c x = Some (sb_sectorBlock (?c ! j))" using cmap_distinct [OF dist, of "?c ! j"] by simp
      then show ?thesis using True w j cmap_drop [OF s, of ?n x] by (simp add: blk_def)
    next
      case False
      then show ?thesis using cmap_drop [OF s, of ?n x] by (simp add: blk_def)
    qed
    moreover have "table_inv (contents (fs_dev t)) (fs_boot st) (drop ?n ?c)"
      using ti by (auto simp: table_inv_def drop_map [symmetric] sorted_wrt_drop dest: in_set_dropD)
    ultimately show ?thesis
      using t b by (auto simp: fs_inv_def same_defs tblk_def)
  qed
  show ?thesis
    unfolding FlushTableCache_def wp_rules Let_def
    by (rule wp_mono [OF flush_steps [OF inv, of ?n]]) (use dropped in \<open>auto simp: wp_rules min_def\<close>)
qed

end


section \<open>Blocks and offsets\<close>

lemma block_offset_bound: "unat (BLOCK_OFFSET i) < 128"
  by (simp add: BLOCK_OFFSET_def unat_mod_distrib)

lemma block_id_less:
  "layout cap b \<Longrightarrow> BLOCK_ID i < BPB_FSTableSize b \<longleftrightarrow> unat i < 128 * unat (BPB_FSTableSize b)"
  by (simp add: BLOCK_ID_def word_less_nat_alt unat_div_distrib) linarith

lemma block_eq_iff: "BLOCK_ID i = BLOCK_ID j \<and> BLOCK_OFFSET i = BLOCK_OFFSET j \<longleftrightarrow> i = j"
proof
  assume "BLOCK_ID i = BLOCK_ID j \<and> BLOCK_OFFSET i = BLOCK_OFFSET j"
  then have "i div 128 = j div 128" "i mod 128 = j mod 128" by (simp_all add: BLOCK_ID_def BLOCK_OFFSET_def)
  then show "i = j" by (metis div_mult_mod_eq)
qed auto

lemma table_limit_value:
  assumes "layout cap b"
  shows "unat (table_limit b) = 128 * unat (BPB_FSTableSize b)"
proof -
  have b: "ucast (BPB_BytesPerSec b) = (512 :: u32)" using assms by (simp add: layout_def)
  have "unat (BPB_FSTableSize b * 512) = unat (BPB_FSTableSize b) * 512"
    using assms by (simp add: unat_word_ariths layout_def)
  then show ?thesis by (simp add: table_limit_def b unat_div_distrib)
qed

lemma used_sectors_fields [simp]:
  "BPB_FSTableSize (UpdateUsedSectors v b) = BPB_FSTableSize b" "BPB_RsvdSecCnt (UpdateUsedSectors v b) = BPB_RsvdSecCnt b"
  "BPB_BytesPerSec (UpdateUsedSectors v b) = BPB_BytesPerSec b"
  by (simp_all add: UpdateUsedSectors_def)

lemma used_sectors_layout [simp]:
  "GetTableSectorId (UpdateUsedSectors v b) = GetTableSectorId b" "layout cap (UpdateUsedSectors v b) = layout cap b"
  "data_start (UpdateUsedSectors v b) = data_start b" "GetRealSectorNumber (UpdateUsedSectors v b) = GetRealSectorNumber b"
  by (simp_all add: GetTableSectorId_def layout_def data_start_def GetRealSectorNumber_def fun_eq_iff)

lemma used_sectors_table [simp]:
  "blk cache f (UpdateUsedSectors v b) = blk cache f b"
  "table_inv f (UpdateUsedSectors v b) cache = table_inv f b cache"
  by (simp_all add: blk_def table_inv_def fun_eq_iff cong: option.case_cong)

lemma sorted_insert:
  assumes "sorted_wrt (<) (map sb_blockId cache)" "\<forall>j<p. sb_blockId (cache ! j) < sb_blockId e"
    "\<forall>j<length cache. p \<le> j \<longrightarrow> sb_blockId e < sb_blockId (cache ! j)" "p \<le> length cache"
  shows "sorted_wrt (<) (map sb_blockId (take p cache @ e # drop p cache))"
proof -
  have tl: "\<forall>x \<in> set (take p cache). sb_blockId x < sb_blockId e"
    using assms(2,4) by (auto simp: in_set_conv_nth)
  have dr: "\<forall>x \<in> set (drop p cache). sb_blockId e < sb_blockId x"
    using assms(3,4) by (auto simp: in_set_conv_nth)
  have "sorted_wrt (<) (map sb_blockId (take p cache))" "sorted_wrt (<) (map sb_blockId (drop p cache))"
    using assms(1) by (simp_all add: take_map [symmetric] drop_map [symmetric] sorted_wrt_take sorted_wrt_drop)
  then show ?thesis using tl dr by (fastforce simp: sorted_wrt_append)
qed

lemma device_failed_after: "same_fs cont st u \<Longrightarrow> device_failed cont u e t \<Longrightarrow> device_failed cont st e t"
  by (auto simp: device_failed_def same_defs)

text \<open>No block of the cache has been written \<open>2^32 - 1\<close> times.\<close>

definition counts_ok :: "sector_block_entry list \<Rightarrow> bool" where
  "counts_ok cache \<longleftrightarrow> (\<forall>e \<in> set cache. sb_writeCount e + 1 \<noteq> 0)"

context block_device
begin

lemma load_ok:
  assumes inv: "fs_inv ok contents capacity st" and i: "BLOCK_ID i < BPB_FSTableSize (fs_boot st)"
    and len: "length (fs_tableCache st) < MAX_SECTORS_IN_TABLE_CACHE"
    and p: "FSManager_BinarySearch (fs_tableCache st) (BLOCK_ID i) = (False, p)"
  shows "wp False (Entry_Load io (nat p) i)
    (\<lambda>_ t. fs_inv ok contents capacity t \<and> same_fs contents st t \<and> BLOCK_ID i \<in> sb_blockId ` set (fs_tableCache t) \<and>
       (counts_ok (fs_tableCache st) \<longrightarrow> counts_ok (fs_tableCache t))) (device_failed contents st)
    (st\<lparr>fs_tableCache := take (nat p) (fs_tableCache st) @ EmptyEntry # drop (nat p) (fs_tableCache st)\<rparr>)"
proof -
  let ?c = "fs_tableCache st" and ?b = "fs_boot st" and ?s = "GetTableSectorId (fs_boot st) (BLOCK_ID i)"
  have ti: "table_inv (contents (fs_dev st)) ?b ?c" and lay: "layout capacity ?b" and okd: "ok (fs_dev st)"
    using inv by (simp_all add: fs_inv_def)
  have so: "sorted_wrt (<) (map sb_blockId ?c)" using ti by (simp add: table_inv_def)
  note bs = BinarySearch_spec [OF so p]
  have pl: "nat p \<le> length ?c" using bs(1,3) by auto
  define e where "e = (\<lambda>d. \<lparr>sb_sectorBlock = words_of (contents d ?s), sb_blockId = BLOCK_ID i, sb_readCount = 0, sb_writeCount = 0\<rparr>)"
  have new: "BLOCK_ID i \<notin> sb_blockId ` set ?c"
  proof
    assume "BLOCK_ID i \<in> sb_blockId ` set ?c"
    then obtain j where "j < length ?c" "sb_blockId (?c ! j) = BLOCK_ID i" by (auto simp: in_set_conv_nth)
    then show False using bs(3) by (cases "j < nat p") auto
  qed
  have fin: "fs_inv ok contents capacity t \<and> same_fs contents st t \<and> BLOCK_ID i \<in> sb_blockId ` set (fs_tableCache t) \<and>
       (counts_ok ?c \<longrightarrow> counts_ok (fs_tableCache t))"
    if d: "ok d" "contents d = contents (fs_dev st)"
      and t: "t = st\<lparr>fs_dev := d, fs_tableCache := take (nat p) ?c @ e d # drop (nat p) ?c\<rparr>" for d t
  proof -
    have cm: "cmap (fs_tableCache t) = (cmap ?c)(BLOCK_ID i \<mapsto> words_of (contents d ?s))"
      using cmap_insert [of "e d" ?c "nat p"] new by (simp add: t e_def)
    have "blk (fs_tableCache t) (contents d) ?b k = blk ?c (contents (fs_dev st)) ?b k" for k
      using new d(2) cmap_None [of ?c "BLOCK_ID i"] by (auto simp: blk_def cm)
    moreover have "table_inv (contents d) ?b (fs_tableCache t)"
      unfolding table_inv_def
    proof (intro conjI ballI allI)
      show "sorted_wrt (<) (map sb_blockId (fs_tableCache t))"
        unfolding t using sorted_insert [OF so, of "nat p" "e d"] bs(3) pl by (simp add: e_def)
      show "length (fs_tableCache t) \<le> MAX_SECTORS_IN_TABLE_CACHE" using len pl by (simp add: t)
      fix x assume "x \<in> set (fs_tableCache t)"
      then have x: "x = e d \<or> x \<in> set ?c" by (auto simp: t dest: in_set_takeD in_set_dropD)
      have cl: "length (contents d ?s) = 512" using ti d(2) by (simp add: table_inv_def)
      show "sb_blockId x < BPB_FSTableSize ?b" "length (sb_sectorBlock x) = 128"
        "sb_writeCount x = 0 \<longrightarrow> sb_sectorBlock x = words_of (contents d (GetTableSectorId ?b (sb_blockId x)))"
        using x ti d(2) i cl by (auto simp: table_inv_def e_def)
    qed (use ti d(2) in \<open>simp add: table_inv_def\<close>)
    moreover have "counts_ok ?c \<longrightarrow> counts_ok (fs_tableCache t)"
      by (auto simp: counts_ok_def t e_def dest: in_set_takeD in_set_dropD)
    moreover have "BLOCK_ID i \<in> sb_blockId ` set (fs_tableCache t)" by (simp add: t e_def)
    ultimately show ?thesis using d lay by (simp add: fs_inv_def same_defs tblk_def t)
  qed
  have cap: "unat ?s < capacity" using table_sector_bound [OF lay i] by simp
  have upd: "(take (nat p) ?c @ EmptyEntry # drop (nat p) ?c)[nat p := e d] = take (nat p) ?c @ e d # drop (nat p) ?c" for d
    using pl by (simp add: list_update_append)
  show ?thesis
    unfolding Entry_Load_def wp_rules
    by (rule wp_dev_read1)
      (use okd cap fin upd in \<open>simp_all add: wp_rules e_def device_failed_def same_data_def\<close>)
qed

lemma add_ok:
  assumes inv: "fs_inv ok contents capacity st" and i: "BLOCK_ID i < BPB_FSTableSize (fs_boot st)"
  shows "wp False (AddToTableCache io i)
    (\<lambda>_ t. fs_inv ok contents capacity t \<and> same_fs contents st t \<and> BLOCK_ID i \<in> sb_blockId ` set (fs_tableCache t) \<and>
       (counts_ok (fs_tableCache st) \<longrightarrow> counts_ok (fs_tableCache t))) (device_failed contents st) st"
proof -
  define tl where "tl = and_then (gets fs_tableCache) (\<lambda>cache.
          case FSManager_BinarySearch cache (BLOCK_ID i) of
            (True, _) \<Rightarrow> yield ()
          | (False, iPos) \<Rightarrow>
              then_do (modify (\<lambda>st. st\<lparr>fs_tableCache := take (nat iPos) cache @ EmptyEntry # drop (nat iPos) cache\<rparr>))
                (Entry_Load io (nat iPos) i))"
  have run: "AddToTableCache io i = and_then (gets fs_tableCache) (\<lambda>cache.
      then_do (only_if (length cache = MAX_SECTORS_IN_TABLE_CACHE) (FlushTableCache io 1)) tl)"
    by (simp add: AddToTableCache_def tl_def)
  have tail: "wp False tl
    (\<lambda>_ t. fs_inv ok contents capacity t \<and> same_fs contents st t \<and> BLOCK_ID i \<in> sb_blockId ` set (fs_tableCache t) \<and>
       (counts_ok (fs_tableCache st) \<longrightarrow> counts_ok (fs_tableCache t))) (device_failed contents st) t"
    if t: "fs_inv ok contents capacity t" "same_fs contents st t" "length (fs_tableCache t) < MAX_SECTORS_IN_TABLE_CACHE"
      "counts_ok (fs_tableCache st) \<longrightarrow> counts_ok (fs_tableCache t)" for t
  proof -
    obtain f p where bs: "FSManager_BinarySearch (fs_tableCache t) (BLOCK_ID i) = (f, p)" by (rule prod.exhaust)
    have so: "sorted_wrt (<) (map sb_blockId (fs_tableCache t))" using t(1) by (simp add: fs_inv_def table_inv_def)
    have it: "BLOCK_ID i < BPB_FSTableSize (fs_boot t)" using i t(2) by (simp add: same_defs)
    show ?thesis
    proof (cases f)
      case True
      then have "nat p < length (fs_tableCache t) \<and> sb_blockId (fs_tableCache t ! nat p) = BLOCK_ID i"
        using BinarySearch_spec(1,2) [OF so bs] by auto
      then have "BLOCK_ID i \<in> sb_blockId ` set (fs_tableCache t)" by (metis image_eqI nth_mem)
      then show ?thesis using bs True t by (simp add: wp_rules tl_def)
    next
      case False
      have "wp False (Entry_Load io (nat p) i)
        (\<lambda>_ u. fs_inv ok contents capacity u \<and> same_fs contents st u \<and> BLOCK_ID i \<in> sb_blockId ` set (fs_tableCache u) \<and>
          (counts_ok (fs_tableCache st) \<longrightarrow> counts_ok (fs_tableCache u))) (device_failed contents st)
        (t\<lparr>fs_tableCache := take (nat p) (fs_tableCache t) @ EmptyEntry # drop (nat p) (fs_tableCache t)\<rparr>)"
        using bs False by (intro wp_mono [OF load_ok [OF t(1) it t(3)]]) (auto intro: same_fs_trans [OF t(2)] t(4) [rule_format] device_failed_after [OF t(2)])
      then show ?thesis using bs False by (simp add: wp_rules tl_def)
    qed
  qed
  show ?thesis
  proof (cases "length (fs_tableCache st) = MAX_SECTORS_IN_TABLE_CACHE")
    case True
    have "counts_ok (fs_tableCache st) \<longrightarrow> counts_ok (drop 1 (fs_tableCache st))"
      by (auto simp: counts_ok_def dest: in_set_dropD)
    with True have "wp False (FlushTableCache io 1) (\<lambda>_ t. fs_inv ok contents capacity t \<and> same_fs contents st t \<and>
        length (fs_tableCache t) < MAX_SECTORS_IN_TABLE_CACHE \<and>
        (counts_ok (fs_tableCache st) \<longrightarrow> counts_ok (fs_tableCache t))) (device_failed contents st) st"
      by (intro wp_mono [OF flush_ok [OF inv, of 1]]) (auto simp: device_failed_def same_fs_def)
    from this [THEN wp_mono] True show ?thesis
      unfolding run by (simp add: wp_rules tail)
  next
    case False
    moreover have "length (fs_tableCache st) \<le> MAX_SECTORS_IN_TABLE_CACHE" using inv by (simp add: fs_inv_def table_inv_def)
    ultimately have "length (fs_tableCache st) < MAX_SECTORS_IN_TABLE_CACHE" by simp
    from tail [OF inv same_fs_refl this] False show ?thesis
      unfolding run by (simp add: wp_rules)
  qed
qed

end


lemma eoc_mask [simp]:
  fixes w v :: u32
  shows "(w AND 0xF0000000 OR v AND EOC) AND EOC = v AND EOC"
proof -
  have "(0xF0000000 AND EOC :: u32) = 0" by simp
  then show ?thesis by (simp add: bit.conj_disj_distrib2 and.assoc)
qed

context block_device
begin

lemma cache_lookup:
  assumes "fs_inv ok contents capacity st"
  shows "GetSectorEntryFromCache i (fs_tableCache st) = Some p \<Longrightarrow>
      p < length (fs_tableCache st) \<and> sb_blockId (fs_tableCache st ! p) = BLOCK_ID i"
    "BLOCK_ID i \<in> sb_blockId ` set (fs_tableCache st) \<Longrightarrow> GetSectorEntryFromCache i (fs_tableCache st) \<noteq> None"
proof -
  let ?c = "fs_tableCache st"
  obtain f q where bs: "FSManager_BinarySearch ?c (BLOCK_ID i) = (f, q)" by (rule prod.exhaust)
  have so: "sorted_wrt (<) (map sb_blockId ?c)" using assms by (simp add: fs_inv_def table_inv_def)
  note sp = BinarySearch_spec [OF so bs]
  show "p < length ?c \<and> sb_blockId (?c ! p) = BLOCK_ID i" if "GetSectorEntryFromCache i ?c = Some p"
    using that bs sp by (auto simp: GetSectorEntryFromCache_def split: if_splits bool.splits)
  show "GetSectorEntryFromCache i ?c \<noteq> None" if mem: "BLOCK_ID i \<in> sb_blockId ` set ?c"
  proof -
    obtain j where j: "j < length ?c" "sb_blockId (?c ! j) = BLOCK_ID i"
      using mem by (metis (no_types, lifting) imageE in_set_conv_nth)
    have f
    proof (rule ccontr)
      assume "\<not> f"
      then show False using sp(3) j by (cases "j < nat q") auto
    qed
    then show ?thesis using bs j by (auto simp: GetSectorEntryFromCache_def)
  qed
qed

lemma cached_entry_ok:
  assumes inv: "fs_inv ok contents capacity st" and i: "BLOCK_ID i < BPB_FSTableSize (fs_boot st)"
  shows "wp False (cached_entry io i)
    (\<lambda>p t. fs_inv ok contents capacity t \<and> same_fs contents st t \<and> p < length (fs_tableCache t) \<and>
       sb_blockId (fs_tableCache t ! p) = BLOCK_ID i \<and> (counts_ok (fs_tableCache st) \<longrightarrow> counts_ok (fs_tableCache t)))
    (device_failed contents st) st"
proof (cases "GetSectorEntryFromCache i (fs_tableCache st)")
  case (Some p)
  then show ?thesis using cache_lookup(1) [OF inv Some] inv by (simp add: cached_entry_def wp_rules)
next
  case None
  have "wp False (AddToTableCache io i) (\<lambda>_ t. wp False (and_then (gets fs_tableCache) (\<lambda>cache.
            case GetSectorEntryFromCache i cache of Some p \<Rightarrow> yield p | None \<Rightarrow> throw (NotInCache i)))
      (\<lambda>p t. fs_inv ok contents capacity t \<and> same_fs contents st t \<and> p < length (fs_tableCache t) \<and>
         sb_blockId (fs_tableCache t ! p) = BLOCK_ID i \<and> (counts_ok (fs_tableCache st) \<longrightarrow> counts_ok (fs_tableCache t)))
      (device_failed contents st) t) (device_failed contents st) st"
  proof (rule wp_mono [OF add_ok [OF inv i]], goal_cases)
    case (1 _ t)
    then obtain p where "GetSectorEntryFromCache i (fs_tableCache t) = Some p" using cache_lookup(2) [of t i] by auto
    then show ?case using cache_lookup(1) [of t i p] 1 by (simp add: wp_rules)
  qed simp_all
  then show ?thesis using None by (simp add: cached_entry_def wp_rules)
qed

lemma entry_at:
  assumes "fs_inv ok contents capacity t" "p < length (fs_tableCache t)" "sb_blockId (fs_tableCache t ! p) = BLOCK_ID i"
  shows "sb_sectorBlock (fs_tableCache t ! p) ! unat (BLOCK_OFFSET i) = entry contents t i"
proof -
  have "distinct (map sb_blockId (fs_tableCache t))" using assms(1) by (simp add: fs_inv_def table_inv_def strict_sorted_iff)
  from cmap_distinct [OF this, of "fs_tableCache t ! p"] assms(2,3)
  show ?thesis by (simp add: entry_def tblk_def blk_cached)
qed

text \<open>Replacing a cached entry.\<close>

lemma replace_entry:
  assumes inv: "fs_inv ok contents capacity t" and p: "p < length (fs_tableCache t)"
    and e: "sb_blockId e = sb_blockId (fs_tableCache t ! p)" "length (sb_sectorBlock e) = 128"
    and w: "sb_writeCount e = 0 \<longrightarrow> sb_sectorBlock e = sb_sectorBlock (fs_tableCache t ! p) \<and> sb_writeCount (fs_tableCache t ! p) = 0"
  shows "fs_inv ok contents capacity (t\<lparr>fs_tableCache := (fs_tableCache t)[p := e]\<rparr>)"
    "tblk contents (t\<lparr>fs_tableCache := (fs_tableCache t)[p := e]\<rparr>) = (tblk contents t)(sb_blockId e := sb_sectorBlock e)"
proof -
  let ?c = "fs_tableCache t"
  have ti: "table_inv (contents (fs_dev t)) (fs_boot t) ?c" using inv by (simp add: fs_inv_def)
  have ids: "map sb_blockId (?c[p := e]) = map sb_blockId ?c"
    using e(1) p by (simp add: map_update list_update_id [symmetric]) (metis list_update_id nth_map)
  have pc: "?c ! p \<in> set ?c" using p by simp
  have "table_inv (contents (fs_dev t)) (fs_boot t) (?c[p := e])"
    unfolding table_inv_def ids
  proof (intro conjI ballI)
    fix x assume "x \<in> set (?c[p := e])"
    then have "x = e \<or> x \<in> set ?c" using set_update_subset_insert by fastforce
    then show "sb_blockId x < BPB_FSTableSize (fs_boot t)" "length (sb_sectorBlock x) = 128"
      "sb_writeCount x = 0 \<longrightarrow> sb_sectorBlock x = words_of (contents (fs_dev t) (GetTableSectorId (fs_boot t) (sb_blockId x)))"
      using ti pc e w by (auto simp: table_inv_def)
  qed (use ti in \<open>simp_all add: table_inv_def\<close>)
  then show "fs_inv ok contents capacity (t\<lparr>fs_tableCache := ?c[p := e]\<rparr>)" using inv by (simp add: fs_inv_def)
  have "distinct (map sb_blockId ?c)" using ti by (simp add: table_inv_def strict_sorted_iff)
  from cmap_update [OF this p e(1)]
  show "tblk contents (t\<lparr>fs_tableCache := ?c[p := e]\<rparr>) = (tblk contents t)(sb_blockId e := sb_sectorBlock e)"
    by (auto simp: tblk_def blk_def fun_eq_iff)
qed

lemma get_ok:
  assumes inv: "fs_inv ok contents capacity st" and i: "unat i < 128 * unat (BPB_FSTableSize (fs_boot st))"
  shows "wp False (GetSectorEntryValue io i)
    (\<lambda>v t. fs_inv ok contents capacity t \<and> same_fs contents st t \<and> v = entry contents st i AND EOC \<and>
       (counts_ok (fs_tableCache st) \<longrightarrow> counts_ok (fs_tableCache t))) (device_failed contents st) st"
proof -
  have lay: "layout capacity (fs_boot st)" using inv by (simp add: fs_inv_def)
  have bi: "BLOCK_ID i < BPB_FSTableSize (fs_boot st)" using i block_id_less [OF lay] by simp
  have lim: "\<not> i > table_limit (fs_boot st)" using i table_limit_value [OF lay] by (simp add: word_less_nat_alt)
  have "wp False (cached_entry io i) (\<lambda>p t. wp False
      (and_then (gets (\<lambda>st. Entry_Read i (fs_tableCache st ! p))) (\<lambda>(v, e).
         then_do (modify (\<lambda>st. st\<lparr>fs_tableCache := (fs_tableCache st)[p := e]\<rparr>)) (yield v)))
      (\<lambda>v t. fs_inv ok contents capacity t \<and> same_fs contents st t \<and> v = entry contents st i AND EOC \<and>
         (counts_ok (fs_tableCache st) \<longrightarrow> counts_ok (fs_tableCache t))) (device_failed contents st) t) (device_failed contents st) st"
  proof (rule wp_mono [OF cached_entry_ok [OF inv bi]], goal_cases)
    case (1 p t)
    let ?c = "fs_tableCache t"
    obtain v e where r: "Entry_Read i (?c ! p) = (v, e)" by (rule prod.exhaust)
    have ev: "v = entry contents t i AND EOC" using entry_at [of t p i] 1 r by (auto simp: Entry_Read_def)
    have ef: "sb_blockId e = sb_blockId (?c ! p)" "sb_sectorBlock e = sb_sectorBlock (?c ! p)" "sb_writeCount e = sb_writeCount (?c ! p)"
      using r by (auto simp: Entry_Read_def)
    have pl: "p < length ?c" and it: "fs_inv ok contents capacity t" using 1 by simp_all
    have l: "length (sb_sectorBlock (?c ! p)) = 128" using it pl by (simp add: fs_inv_def table_inv_def)
    note re = replace_entry [OF it pl ef(1), unfolded ef, OF l]
    have blk: "tblk contents (t\<lparr>fs_tableCache := ?c[p := e]\<rparr>) = tblk contents t"
    proof -
      have "distinct (map sb_blockId ?c)" using it by (simp add: fs_inv_def table_inv_def strict_sorted_iff)
      from cmap_distinct [OF this, of "?c ! p"] pl
      have "tblk contents t (sb_blockId (?c ! p)) = sb_sectorBlock (?c ! p)" by (simp add: tblk_def blk_cached)
      then show ?thesis using re(2) by (simp add: fun_upd_idem)
    qed
    have "counts_ok ?c \<longrightarrow> counts_ok (?c[p := e])"
      using ef(3) pl set_update_subset_insert [of ?c p e] by (auto simp: counts_ok_def)
    moreover have "entry contents t i = entry contents st i"
      using 1 bi by (simp add: entry_def same_defs)
    ultimately show ?case using 1 r ev re(1) blk by (simp add: wp_rules same_defs)
  qed simp_all
  then show ?thesis using lim by (simp add: GetSectorEntryValue_def wp_rules)
qed

lemma entry_set:
  assumes "tblk contents t' = (tblk contents t)(BLOCK_ID i := (tblk contents t (BLOCK_ID i))[unat (BLOCK_OFFSET i) := v])"
    "length (tblk contents t (BLOCK_ID i)) = 128"
  shows "entry contents t' j = (if j = i then v else entry contents t j)"
proof (cases "j = i")
  case True
  then show ?thesis using assms block_offset_bound [of i] by (simp add: entry_def)
next
  case False
  then have "BLOCK_ID j \<noteq> BLOCK_ID i \<or> unat (BLOCK_OFFSET j) \<noteq> unat (BLOCK_OFFSET i)"
    using block_eq_iff [of j i] by (metis unsigned_word_eqI)
  then show ?thesis using assms(1) False by (auto simp: entry_def)
qed

lemma set_ok:
  assumes inv: "fs_inv ok contents capacity st" and i: "unat i < 128 * unat (BPB_FSTableSize (fs_boot st))"
    and cnt: "counts_ok (fs_tableCache st)"
  shows "wp False (SetSectorEntryValue io i v)
    (\<lambda>_ t. fs_inv ok contents capacity t \<and> same_data contents st t \<and>
       fs_boot t = UpdateUsedSectors v (fs_boot st) \<and> fs_freePool t = fs_freePool st \<and> fs_pwd t = fs_pwd st \<and>
       fs_mounted t = fs_mounted st \<and>
       (\<forall>j. unat j < 128 * unat (BPB_FSTableSize (fs_boot st)) \<longrightarrow> entry contents t j =
          (if j = i then entry contents st i AND 0xF0000000 OR v AND EOC else entry contents st j)))
    (device_failed contents st) st"
proof -
  have lay: "layout capacity (fs_boot st)" using inv by (simp add: fs_inv_def)
  have bi: "BLOCK_ID i < BPB_FSTableSize (fs_boot st)" using i block_id_less [OF lay] by simp
  have lim: "\<not> i > table_limit (fs_boot st)" using i table_limit_value [OF lay] by (simp add: word_less_nat_alt)
  let ?s = "st\<lparr>fs_boot := UpdateUsedSectors v (fs_boot st)\<rparr>"
  have inv': "fs_inv ok contents capacity ?s" using inv by (simp add: fs_inv_def)
  have bi': "BLOCK_ID i < BPB_FSTableSize (fs_boot ?s)" using bi by simp
  have bl: "tblk contents ?s = tblk contents st" by (simp add: tblk_def)
  have "wp False (cached_entry io i) (\<lambda>p t. wp False
      (modify (\<lambda>st. st\<lparr>fs_tableCache := (fs_tableCache st)[p := Entry_Write i v (fs_tableCache st ! p)]\<rparr>))
      (\<lambda>_ t. fs_inv ok contents capacity t \<and> same_data contents st t \<and>
         fs_boot t = UpdateUsedSectors v (fs_boot st) \<and> fs_freePool t = fs_freePool st \<and> fs_pwd t = fs_pwd st \<and>
         fs_mounted t = fs_mounted st \<and>
         (\<forall>j. unat j < 128 * unat (BPB_FSTableSize (fs_boot st)) \<longrightarrow> entry contents t j =
            (if j = i then entry contents st i AND 0xF0000000 OR v AND EOC else entry contents st j)))
      (device_failed contents st) t) (device_failed contents st) ?s"
  proof (rule wp_mono [OF cached_entry_ok [OF inv' bi']], goal_cases)
    case (1 p t)
    let ?c = "fs_tableCache t"
    let ?e = "Entry_Write i v (?c ! p)"
    have pl: "p < length ?c" and it: "fs_inv ok contents capacity t" and id: "sb_blockId (?c ! p) = BLOCK_ID i"
      and sf: "same_fs contents ?s t" using 1 by simp_all
    have "sb_writeCount (?c ! p) + 1 \<noteq> 0" using 1 cnt pl by (simp add: counts_ok_def)
    then have w: "sb_writeCount ?e \<noteq> 0" by (simp add: Entry_Write_def Let_def)
    have l: "length (sb_sectorBlock (?c ! p)) = 128" using it pl by (simp add: fs_inv_def table_inv_def)
    have ix: "unat (BLOCK_OFFSET i) < length (sb_sectorBlock (?c ! p))" using l block_offset_bound [of i] by simp
    have ef: "sb_blockId ?e = sb_blockId (?c ! p)" "length (sb_sectorBlock ?e) = 128"
      "sb_sectorBlock ?e = (sb_sectorBlock (?c ! p))[unat (BLOCK_OFFSET i) :=
         sb_sectorBlock (?c ! p) ! unat (BLOCK_OFFSET i) AND 0xF0000000 OR v AND EOC]"
      using l ix by (simp_all add: Entry_Write_def Let_def)
    note re = replace_entry [OF it pl ef(1,2)]
    have tb: "tblk contents t (BLOCK_ID i) = sb_sectorBlock (?c ! p)"
    proof -
      have "distinct (map sb_blockId ?c)" using it by (simp add: fs_inv_def table_inv_def strict_sorted_iff)
      from cmap_distinct [OF this, of "?c ! p"] pl id show ?thesis by (simp add: tblk_def blk_cached)
    qed
    let ?t = "t\<lparr>fs_tableCache := ?c[p := ?e]\<rparr>"
    have "tblk contents ?t = (tblk contents t)(BLOCK_ID i := (tblk contents t (BLOCK_ID i))[unat (BLOCK_OFFSET i) :=
        entry contents t i AND 0xF0000000 OR v AND EOC])"
      using re(2) w id ef(1,3) tb by (simp add: entry_def)
    from entry_set [OF this] tb l
    have en: "entry contents ?t j = (if j = i then entry contents t i AND 0xF0000000 OR v AND EOC else entry contents t j)" for j
      by simp
    have same: "entry contents t j = entry contents st j" if "unat j < 128 * unat (BPB_FSTableSize (fs_boot st))" for j
      using that sf block_id_less [OF lay, of j] bl by (simp add: entry_def same_defs)
    have "\<forall>j. unat j < 128 * unat (BPB_FSTableSize (fs_boot st)) \<longrightarrow> entry contents ?t j =
        (if j = i then entry contents st i AND 0xF0000000 OR v AND EOC else entry contents st j)"
      using en same i by simp
    moreover have "fs_inv ok contents capacity ?t" using re(1) w by simp
    ultimately show ?case using sf by (simp add: wp_rules same_defs)
  qed (simp_all add: device_failed_def same_data_def)
  then show ?thesis using lim by (simp add: SetSectorEntryValue_def wp_rules)
qed

end


section \<open>The pool of free sectors\<close>

text \<open>The pool holds distinct sectors whose entries are free.\<close>

definition pool_ok :: "('d \<Rightarrow> u32 \<Rightarrow> sector) \<Rightarrow> 'd fsys \<Rightarrow> bool" where
  "pool_ok cont st \<longleftrightarrow> (case fs_freePool st of None \<Rightarrow> False
     | Some (xs, n) \<Rightarrow> distinct xs \<and> (\<forall>s \<in> set xs. unat s < 128 * unat (BPB_FSTableSize (fs_boot st)) \<and>
         entry cont st s AND EOC = 0))"

text \<open>\<open>links cont st j\<close>: the entry of sector \<open>j\<close> as the code reads it.\<close>

definition links :: "('d \<Rightarrow> u32 \<Rightarrow> sector) \<Rightarrow> 'd fsys \<Rightarrow> u32 \<Rightarrow> u32" where
  "links cont st j = entry cont st j AND EOC"

definition sectors_of :: "'d fsys \<Rightarrow> u32 set" where
  "sectors_of st = {j. unat j < 128 * unat (BPB_FSTableSize (fs_boot st))}"

text \<open>The effect of setting the entry of \<open>i\<close> to \<open>v\<close>.\<close>

definition links_set :: "('d \<Rightarrow> u32 \<Rightarrow> sector) \<Rightarrow> u32 \<Rightarrow> u32 \<Rightarrow> 'd fsys \<Rightarrow> 'd fsys \<Rightarrow> bool" where
  "links_set cont i v st t \<longleftrightarrow> sectors_of t = sectors_of st \<and>
     (\<forall>j \<in> sectors_of st. links cont t j = (if j = i then v AND EOC else links cont st j))"

definition data_at :: "('d \<Rightarrow> u32 \<Rightarrow> sector) \<Rightarrow> 'd fsys \<Rightarrow> u32 \<Rightarrow> sector" where
  "data_at cont st i = cont (fs_dev st) (GetRealSectorNumber (fs_boot st) i)"

context block_device
begin

lemma same_fs_links:
  assumes "same_fs contents st t" "layout capacity (fs_boot st)" "j \<in> sectors_of st"
  shows "links contents t j = links contents st j"
  using assms block_id_less [OF assms(2), of j] by (simp add: links_def entry_def same_defs sectors_of_def)

lemma same_fs_sectors: "same_fs contents st t \<Longrightarrow> sectors_of t = sectors_of st"
  by (simp add: same_defs sectors_of_def)

lemma get_links:
  assumes inv: "fs_inv ok contents capacity st" and i: "i \<in> sectors_of st"
  shows "wp False (GetSectorEntryValue io i)
    (\<lambda>v t. fs_inv ok contents capacity t \<and> same_fs contents st t \<and> v = links contents st i \<and>
       (counts_ok (fs_tableCache st) \<longrightarrow> counts_ok (fs_tableCache t))) (device_failed contents st) st"
  using get_ok [OF inv] i by (simp add: sectors_of_def links_def)

lemma set_links:
  assumes inv: "fs_inv ok contents capacity st" and i: "i \<in> sectors_of st" and cnt: "counts_ok (fs_tableCache st)"
  shows "wp False (SetSectorEntryValue io i v)
    (\<lambda>_ t. fs_inv ok contents capacity t \<and> same_data contents st t \<and> links_set contents i v st t \<and>
       fs_boot t = UpdateUsedSectors v (fs_boot st) \<and> fs_freePool t = fs_freePool st \<and> fs_pwd t = fs_pwd st \<and>
       fs_mounted t = fs_mounted st) (device_failed contents st) st"
  by (rule wp_mono [OF set_ok [OF inv _ cnt, of i v]])
    (use i in \<open>auto simp: sectors_of_def links_set_def links_def\<close>)

lemma allocate_from_pool:
  assumes inv: "fs_inv ok contents capacity st" and pool: "pool_ok contents st" "fs_freePool st = Some (s # xs, n)"
    and cnt: "counts_ok (fs_tableCache st)"
  shows "wp False (AllocateSector io)
    (\<lambda>r t. r = s \<and> fs_inv ok contents capacity t \<and> same_data contents st t \<and> links_set contents s EOC st t \<and>
       pool_ok contents t \<and> fs_freePool t = Some (xs, n)) (\<lambda>_ _. True) st"
proof -
  let ?s = "st\<lparr>fs_freePool := Some (xs, n)\<rparr>"
  have en: "entry contents ?s = entry contents st" by (simp add: entry_def tblk_def fun_eq_iff)
  have inv': "fs_inv ok contents capacity ?s" using inv by (simp add: fs_inv_def)
  have s: "s \<in> sectors_of ?s" using pool by (simp add: pool_ok_def sectors_of_def)
  have free: "distinct xs" "s \<notin> set xs" "\<forall>x \<in> set xs. x \<in> sectors_of st \<and> links contents st x = 0"
    using pool by (auto simp: pool_ok_def sectors_of_def links_def)
  have "wp False (SetSectorEntryValue io s EOC)
    (\<lambda>_ t. fs_inv ok contents capacity t \<and> same_data contents st t \<and> links_set contents s EOC st t \<and>
       pool_ok contents t \<and> fs_freePool t = Some (xs, n)) (\<lambda>_ _. True) ?s"
  proof (rule wp_mono [OF set_links [OF inv' s]], goal_cases)
    case (2 _ t)
    then have ls: "links_set contents s EOC st t"
      by (auto simp: links_set_def sectors_of_def links_def en)
    then have "\<forall>x \<in> set xs. x \<in> sectors_of t \<and> links contents t x = 0"
      using free by (auto simp: links_set_def)
    then have "pool_ok contents t" using 2 free(1) by (auto simp: pool_ok_def sectors_of_def links_def)
    then show ?case using 2 ls by (simp add: same_data_def)
  qed (use cnt in simp_all)
  then show ?thesis using pool(2) by (simp add: AllocateSector_def wp_rules)
qed

lemma deallocate_ok:
  assumes inv: "fs_inv ok contents capacity st" and pool: "pool_ok contents st"
    and i: "i \<in> sectors_of st" "links contents st i \<noteq> 0" and cnt: "counts_ok (fs_tableCache st)"
  shows "wp False (FileSystem_DeAllocateSector io i)
    (\<lambda>r t. r = links contents st i \<and> fs_inv ok contents capacity t \<and> same_data contents st t \<and>
       links_set contents i 0 st t \<and> pool_ok contents t) (\<lambda>_ _. True) st"
proof -
  have lay: "layout capacity (fs_boot st)" using inv by (simp add: fs_inv_def)
  obtain xs n where p: "fs_freePool st = Some (xs, n)" using pool by (auto simp: pool_ok_def split: option.splits)
  have free: "distinct xs" "\<forall>x \<in> set xs. x \<in> sectors_of st \<and> links contents st x = 0"
    using pool p by (auto simp: pool_ok_def sectors_of_def links_def)
  have "wp False (GetSectorEntryValue io i) (\<lambda>v. wp False (SetSectorEntryValue io i 0)
      (\<lambda>_. wp False (then_do (AddToFreePoolCache i) (yield v))
        (\<lambda>r t. r = links contents st i \<and> fs_inv ok contents capacity t \<and> same_data contents st t \<and>
           links_set contents i 0 st t \<and> pool_ok contents t) (\<lambda>_ _. True)) (\<lambda>_ _. True)) (\<lambda>_ _. True) st"
  proof (rule wp_mono [OF get_links [OF inv i(1)]], goal_cases)
    case (1 v t)
    have it: "i \<in> sectors_of t" using 1 i same_fs_sectors by blast
    have inv1: "fs_inv ok contents capacity t" "counts_ok (fs_tableCache t)" using 1 cnt by simp_all
    show ?case
    proof (rule wp_mono [OF set_links [OF inv1(1) it inv1(2)]], goal_cases)
      case (1 _ u)
      have sf: "same_fs contents st t" using \<open>_ \<and> same_fs contents st t \<and> _\<close> by simp
      have ls: "links_set contents i 0 st u"
        using 1 same_fs_links [OF sf lay] same_fs_sectors [OF sf] by (simp add: links_set_def)
      have pu: "fs_freePool u = Some (xs, n)" using 1 sf p by (simp add: same_defs)
      let ?q = "snd (push_back i (xs, n))"
      have q: "set (fst ?q) \<subseteq> insert i (set xs)" "distinct (fst ?q)"
        using free i(2) by (auto simp: push_back_def)
      have "\<forall>x \<in> set (fst ?q). x \<in> sectors_of u \<and> links contents u x = 0"
        using q(1) free(2) ls i(1) by (auto simp: links_set_def)
      then have po: "pool_ok contents (u\<lparr>fs_freePool := Some ?q\<rparr>)"
        using q(2) by (cases ?q) (simp add: pool_ok_def sectors_of_def links_def entry_def tblk_def)
      have "links_set contents i 0 st (u\<lparr>fs_freePool := Some ?q\<rparr>)"
        using ls by (simp add: links_set_def sectors_of_def links_def entry_def tblk_def)
      moreover have "v = links contents st i" using \<open>_ \<and> _ \<and> v = _ \<and> _\<close> by simp
      moreover have "fs_inv ok contents capacity u" using 1 by blast
      then have "fs_inv ok contents capacity (u\<lparr>fs_freePool := Some ?q\<rparr>)" by (simp add: fs_inv_def)
      moreover have "same_data contents st (u\<lparr>fs_freePool := Some ?q\<rparr>)" using 1 sf by (simp add: same_defs)
      moreover have "wp False (then_do (AddToFreePoolCache i) (yield v)) Q X u = Q v (u\<lparr>fs_freePool := Some ?q\<rparr>)" for Q X
        using pu by (simp add: AddToFreePoolCache_def wp_rules)
      ultimately show ?case using po by simp
    qed simp_all
  qed simp_all
  then show ?thesis by (simp add: FileSystem_DeAllocateSector_def wp_rules)
qed

end

end
