(* ===== verification/FsDisk.thy ===== *)
theory FsDisk
  imports FsProofs
begin

text \<open>
  The properties of the file system table on a drive: the lemmas of \<open>FsProofs\<close>, which hold for every
  block device, at the drive of \<open>Drives\<close>, with its sector cache on or off (\<open>Volumes\<close>). A run either ends with the stated result or
  throws; it is never undefined unless the statement says so.
\<close>

definition disk_fs :: "bool \<Rightarrow> 'r cache_params \<Rightarrow> nat \<Rightarrow> 'r drive fsys \<Rightarrow> bool" where
  "disk_fs c E cap st \<longleftrightarrow> fs_inv (usable c E cap) stored cap st"

section \<open>A sample file system\<close>

definition blank_drive :: "nat drive" where
  "blank_drive = sample_drive\<lparr>dd_medium := \<lparr>md_sectors = (\<lambda>x. zeros), md_faults = []\<rparr>\<rparr>"

definition sample_boot :: boot_block where
  "sample_boot = \<lparr>BPB_jmpBoot = [0xEB, 0xFE, 0x90], BPB_Media = 0xF8, BPB_SecPerTrk = 63, BPB_NumHeads = 16,
     BPB_BytesPerSec = 512, BPB_TotSec32 = 300, BPB_HiddSec = 0, BPB_RsvdSecCnt = 2, BPB_FSTableSize = 2,
     BPB_ExtFlags = 0x80, BPB_FSVer = 0x100, BPB_FSInfo = 1, BPB_BootSig = 0x29, BPB_VolID = 1,
     BPB_VolLab = replicate 12 0, uiUsedSectors = 1\<rparr>"

definition sample_fs :: "nat drive fsys" where
  "sample_fs = \<lparr>fs_boot = sample_boot, fs_freePool = Some ([5, 6], 4096), fs_tableCache = [],
     fs_pwd = \<lparr>pw_DirEntry = Node_Init 0 ''/'' 0 0 0 0, pw_uiSectorNo = 0, pw_bSectorEntryPosition = 0\<rparr>,
     fs_mounted = True, fs_dev = blank_drive\<rparr>"

lemma blank_drive_fields [simp]:
  "stored blank_drive x = zeros" "usable True sample_params 1000 blank_drive" "dd_tree blank_drive = Map.empty"
  "dd_lba blank_drive = 63" "dd_enabled blank_drive" "md_faults (dd_medium blank_drive) = []"
  by (simp_all add: blank_drive_def sample_drive_def stored_def drive_contents_def usable_def view_def through_def drive_ok_def
      coherent_def sample_drive_ok)

lemma length_zeros [simp]: "length zeros = 512"
  by (simp add: zeros_def)

lemma words_of_replicate: "words_of (replicate (4 * n) 0) = replicate n 0"
  by (induction n) (simp_all add: numeral_eq_Suc)

lemma words_of_zeros: "words_of zeros = replicate 128 0"
  using words_of_replicate [of 128] by (simp add: zeros_def)

lemma sample_layout: "layout 1000 sample_boot" "BPB_FSTableSize sample_boot = 2" "BPB_RsvdSecCnt sample_boot = 2"
  by (simp_all add: layout_def sample_boot_def)

lemma sample_fs_ok:
  "disk_fs True sample_params 1000 sample_fs" "counts_ok (fs_tableCache sample_fs)"
  "fs_boot sample_fs = sample_boot" "fs_freePool sample_fs = Some ([5, 6], 4096)" "fs_tableCache sample_fs = []" "fs_dev sample_fs = blank_drive"
  "sectors_of sample_fs = {j. unat j < 256}" "links stored sample_fs j = 0"
proof -
  show "links stored sample_fs j = 0"
    using block_offset_bound [of j]
    by (simp add: links_def entry_def tblk_def blk_def cmap_def sample_fs_def words_of_zeros)
qed (simp_all add: disk_fs_def fs_inv_def table_inv_def sample_fs_def sample_layout sample_drive_ok
      counts_ok_def sectors_of_def)

text \<open>The same with table block \<open>k\<close> in the cache, written once: its first entry is in use.\<close>

definition busy_fs :: "u32 \<Rightarrow> nat drive fsys" where
  "busy_fs k = sample_fs\<lparr>fs_tableCache :=
     [\<lparr>sb_sectorBlock = EOC # replicate 127 0, sb_blockId = k, sb_readCount = 0, sb_writeCount = 1\<rparr>]\<rparr>"

lemma busy_fs_ok:
  assumes "k < 2"
  shows "disk_fs True sample_params 1000 (busy_fs k)" "counts_ok (fs_tableCache (busy_fs k))"
    "fs_boot (busy_fs k) = sample_boot" "fs_freePool (busy_fs k) = Some ([5, 6], 4096)"
    "fs_dev (busy_fs k) = blank_drive"
    "sectors_of (busy_fs k) = {j. unat j < 256}" "links stored (busy_fs k) (k * 128) = EOC"
    "links stored (busy_fs k) 5 = 0" "links stored (busy_fs k) 6 = 0"
proof -
  have "k = 0 \<or> k = 1" using assms by (auto simp: word_less_nat_alt) (metis One_nat_def less_2_cases_iff unat_1 unat_eq_0 unsigned_word_eqI)
  then show "links stored (busy_fs k) (k * 128) = EOC" "links stored (busy_fs k) 5 = 0"
      "links stored (busy_fs k) 6 = 0"
    by (auto simp: links_def entry_def tblk_def blk_def cmap_def busy_fs_def BLOCK_ID_def BLOCK_OFFSET_def
        sample_fs_ok words_of_zeros)
qed (use assms sample_fs_ok in \<open>simp_all add: disk_fs_def fs_inv_def table_inv_def busy_fs_def sample_layout counts_ok_def
       sectors_of_def\<close>)

section \<open>The table\<close>

text \<open>C32: The file system table behind its write-back cache is an array. For a sector below the number
  of entries of the table, setting and getting return, or throw an error of the device. When setting
  returns, the entry of that sector is the value masked to 28 bits and no other entry has changed;
  getting returns the entry, whatever is cached, and changes none; a full table cache is flushed and
  refilled on the way, and the invariant holds afterwards. The data area is unchanged in every case.
  (After a throw only that is claimed: a load that fails leaves a bad block in the cache, see
  \<open>failed_load_leaves_phantom_block\<close>; the sector equal to the number of entries, which the code does
  not refuse, is not covered.)\<close>

theorem table_entries_are_an_array:
  assumes "disk_fs c E cap st" "i \<in> sectors_of st" "counts_ok (fs_tableCache st)"
  shows "wp False (SetSectorEntryValue (drive_io E) i v)
      (\<lambda>_ t. disk_fs c E cap t \<and> sectors_of t = sectors_of st \<and> same_data stored st t \<and>
         (\<forall>j \<in> sectors_of st. links stored t j = (if j = i then v AND EOC else links stored st j)))
      (device_failed stored st) st \<and>
    wp False (GetSectorEntryValue (drive_io E) i)
      (\<lambda>r t. r = links stored st i \<and> disk_fs c E cap t \<and> same_fs stored st t) (device_failed stored st) st"
proof
  show "wp False (SetSectorEntryValue (drive_io E) i v)
      (\<lambda>_ t. disk_fs c E cap t \<and> sectors_of t = sectors_of st \<and> same_data stored st t \<and>
         (\<forall>j \<in> sectors_of st. links stored t j = (if j = i then v AND EOC else links stored st j)))
      (device_failed stored st) st"
    by (rule wp_mono [OF volume.set_links [OF assms [unfolded disk_fs_def], of v]])
      (simp_all add: disk_fs_def links_set_def)
  show "wp False (GetSectorEntryValue (drive_io E) i)
      (\<lambda>r t. r = links stored st i \<and> disk_fs c E cap t \<and> same_fs stored st t) (device_failed stored st) st"
    by (rule wp_mono [OF volume.get_links [OF assms(1,2) [unfolded disk_fs_def]]]) (simp_all add: disk_fs_def)
qed

theorem table_entries_are_an_array_witness:
  "wp False (SetSectorEntryValue (drive_io sample_params) 200 7)
      (\<lambda>_ t. disk_fs True sample_params 1000 t \<and> sectors_of t = sectors_of sample_fs \<and> same_data stored sample_fs t \<and>
         (\<forall>j \<in> sectors_of sample_fs. links stored t j =
            (if j = 200 then 7 AND EOC else links stored sample_fs j)))
      (device_failed stored sample_fs) sample_fs \<and>
    wp False (GetSectorEntryValue (drive_io sample_params) 200)
      (\<lambda>r t. r = links stored sample_fs 200 \<and> disk_fs True sample_params 1000 t \<and> same_fs stored sample_fs t)
      (device_failed stored sample_fs) sample_fs"
  by (rule table_entries_are_an_array) (simp_all add: sample_fs_ok counts_ok_def)

text \<open>C33: Allocating a sector takes the first sector of the pool of free sectors, which was free in
  the table, marks it as the end of a chain and changes nothing else; releasing a sector in use returns
  its successor, frees it and offers it to the pool. The pool keeps holding distinct free sectors, so
  no sector is given out twice while it is in use.\<close>

theorem sector_allocation_is_exclusive:
  assumes "disk_fs c E cap st" "pool_ok stored st" "fs_freePool st = Some (s # xs, n)"
    "counts_ok (fs_tableCache st)" "i \<in> sectors_of st" "links stored st i \<noteq> 0"
  shows "wp False (AllocateSector (drive_io E))
      (\<lambda>r t. r = s \<and> links stored st s = 0 \<and> links_set stored s EOC st t \<and> disk_fs c E cap t \<and>
         same_data stored st t \<and> pool_ok stored t \<and> fs_freePool t = Some (xs, n)) (\<lambda>_ _. True) st \<and>
    wp False (FileSystem_DeAllocateSector (drive_io E) i)
      (\<lambda>r t. r = links stored st i \<and> links_set stored i 0 st t \<and> disk_fs c E cap t \<and>
         same_data stored st t \<and> pool_ok stored t) (\<lambda>_ _. True) st"
proof
  have "links stored st s = 0" using assms(2,3) by (simp add: pool_ok_def links_def)
  then show "wp False (AllocateSector (drive_io E))
      (\<lambda>r t. r = s \<and> links stored st s = 0 \<and> links_set stored s EOC st t \<and> disk_fs c E cap t \<and>
         same_data stored st t \<and> pool_ok stored t \<and> fs_freePool t = Some (xs, n)) (\<lambda>_ _. True) st"
    by (intro wp_mono [OF volume.allocate_from_pool [OF assms(1) [unfolded disk_fs_def] assms(2-4)]])
      (simp_all add: disk_fs_def)
  show "wp False (FileSystem_DeAllocateSector (drive_io E) i)
      (\<lambda>r t. r = links stored st i \<and> links_set stored i 0 st t \<and> disk_fs c E cap t \<and>
         same_data stored st t \<and> pool_ok stored t) (\<lambda>_ _. True) st"
    by (rule wp_mono [OF volume.deallocate_ok [OF assms(1) [unfolded disk_fs_def] assms(2,5,6,4)]])
      (simp_all add: disk_fs_def)
qed

theorem sector_allocation_is_exclusive_witness:
  "wp False (AllocateSector (drive_io sample_params))
      (\<lambda>r t. r = 5 \<and> links stored (busy_fs 0) 5 = 0 \<and> links_set stored 5 EOC (busy_fs 0) t \<and>
         disk_fs True sample_params 1000 t \<and> same_data stored (busy_fs 0) t \<and> pool_ok stored t \<and>
         fs_freePool t = Some ([6], 4096)) (\<lambda>_ _. True) (busy_fs 0) \<and>
    wp False (FileSystem_DeAllocateSector (drive_io sample_params) 0)
      (\<lambda>r t. r = links stored (busy_fs 0) 0 \<and> links_set stored 0 0 (busy_fs 0) t \<and>
         disk_fs True sample_params 1000 t \<and> same_data stored (busy_fs 0) t \<and> pool_ok stored t)
      (\<lambda>_ _. True) (busy_fs 0)"
  by (rule sector_allocation_is_exclusive)
    (use busy_fs_ok [of 0] in \<open>simp_all add: pool_ok_def links_def sample_layout\<close>)

section \<open>Loading free sectors, and a failing device\<close>


lemma less_Suc_set: "{base + of_nat j | j. j < Suc m \<and> P ((e # es) ! j)} =
    (if P e then {base} else {}) \<union> {base + 1 + of_nat j | j. j < m \<and> P (es ! j)}" for base :: u32
proof (intro set_eqI iffI)
  fix x assume "x \<in> {base + of_nat j | j. j < Suc m \<and> P ((e # es) ! j)}"
  then obtain j where j: "x = base + of_nat j" "j < Suc m" "P ((e # es) ! j)" by blast
  show "x \<in> (if P e then {base} else {}) \<union> {base + 1 + of_nat j | j. j < m \<and> P (es ! j)}"
  proof (cases j)
    case (Suc i)
    then have "x = base + 1 + of_nat i" "i < m" "P (es ! i)" using j by simp_all
    then show ?thesis by blast
  qed (use j in simp)
next
  fix x assume x: "x \<in> (if P e then {base} else {}) \<union> {base + 1 + of_nat j | j. j < m \<and> P (es ! j)}"
  show "x \<in> {base + of_nat j | j. j < Suc m \<and> P ((e # es) ! j)}"
  proof (cases "x = base \<and> P e")
    case True
    then have "x = base + of_nat 0" "0 < Suc m" "P ((e # es) ! 0)" by simp_all
    then show ?thesis by blast
  next
    case False
    then obtain j where "x = base + 1 + of_nat j" "j < m" "P (es ! j)" using x by (auto split: if_splits)
    then have "x = base + of_nat (Suc j)" "Suc j < Suc m" "P ((e # es) ! Suc j)" by simp_all
    then show ?thesis by blast
  qed
qed

lemma push_free_room:
  assumes "push_free base es (xs, n) = (b, ys, m)" "length xs + length es \<le> n"
  shows "\<not> b \<and> m = n \<and> length ys \<le> length xs + length es \<and>
    set ys = set xs \<union> {base + of_nat j | j. j < length es \<and> es ! j AND EOC = 0}"
  using assms
proof (induction es arbitrary: base xs)
  case (Cons e es)
  show ?case
  proof (cases "e AND EOC = 0")
    case True
    then have "push_free (base + 1) es (xs @ [base], n) = (b, ys, m)" using Cons.prems by (simp add: push_back_def)
    from Cons.IH [OF this] Cons.prems(2) True show ?thesis
      using less_Suc_set [of base "length es" "\<lambda>w. w AND EOC = 0" e es] by simp
  next
    case False
    then have "push_free (base + 1) es (xs, n) = (b, ys, m)" using Cons.prems by simp
    from Cons.IH [OF this] Cons.prems(2) False show ?thesis
      using less_Suc_set [of base "length es" "\<lambda>w. w AND EOC = 0" e es] by simp
  qed
qed simp

lemma push_cached_room:
  assumes "push_cached cache (xs, n) = (b, ys, m)" "length xs + 128 * length cache \<le> n"
    "\<forall>e \<in> set cache. length (sb_sectorBlock e) = 128"
  shows "\<not> b \<and> m = n \<and> length ys \<le> length xs + 128 * length cache \<and> set xs \<subseteq> set ys"
  using assms
proof (induction cache arbitrary: xs)
  case (Cons e es)
  obtain b1 ys1 m1 where p: "push_free (sb_blockId e * 128) (sb_sectorBlock e) (xs, n) = (b1, ys1, m1)" by (metis prod.collapse)
  have r: "\<not> b1" "m1 = n" "length ys1 \<le> length xs + 128" "set xs \<subseteq> set ys1"
    using push_free_room [OF p] Cons.prems by auto
  then have "push_cached es (ys1, n) = (b, ys, m)" using Cons.prems(1) p by simp
  from Cons.IH [OF this] r Cons.prems show ?case by force
qed simp

lemma concat_blocks:
  assumes "\<forall>ws \<in> set xss. length ws = c" "k < length xss" "j < c"
  shows "concat xss ! (c * k + j) = xss ! k ! j" "c * k + j < length (concat xss)"
proof -
  have "concat xss ! (c * k + j) = xss ! k ! j \<and> c * k + j < length (concat xss)"
    using assms
  proof (induction xss arbitrary: k)
    case (Cons ws xss)
    then show ?case by (cases k) (auto simp: nth_append)
  qed simp
  then show "concat xss ! (c * k + j) = xss ! k ! j" "c * k + j < length (concat xss)" by auto
qed

lemma block_arith:
  assumes "unat (k :: u32) < 33554432" "j < 128"
  shows "unat (k * 128 + of_nat j) = 128 * unat k + j" "BLOCK_ID (k * 128 + of_nat j) = k"
    "unat (BLOCK_OFFSET (k * 128 + of_nat j)) = j"
proof -
  have j: "unat (of_nat j :: u32) = j" using assms(2) by (simp add: of_nat_unat_u32)
  have k: "unat (k * 128) = 128 * unat k" using assms(1) by (simp add: unat_word_ariths)
  then show u: "unat (k * 128 + of_nat j) = 128 * unat k + j"
    using j assms by (subst unat_add_no_wrap) simp_all
  have "unat (BLOCK_ID (k * 128 + of_nat j)) = unat k"
    unfolding BLOCK_ID_def unat_div_distrib u using assms(2) by simp
  then show "BLOCK_ID (k * 128 + of_nat j) = k" by (rule unsigned_word_eqI)
  show "unat (BLOCK_OFFSET (k * 128 + of_nat j)) = j"
    unfolding BLOCK_OFFSET_def unat_mod_distrib u using assms(2) by simp
qed

lemma small_cache:
  assumes "table_inv f b cache" "unat (BPB_FSTableSize b) \<le> m"
  shows "length cache \<le> m"
proof -
  have "distinct (map sb_blockId cache)" using assms(1) by (simp add: table_inv_def strict_sorted_iff)
  then have "distinct (map (unat \<circ> sb_blockId) cache)"
    by (simp add: distinct_map inj_on_def word_unat_eq_iff [symmetric])
  moreover have "set (map (unat \<circ> sb_blockId) cache) \<subseteq> {0..<m}"
    using assms by (auto simp: table_inv_def word_less_nat_alt)
  ultimately have "card (set (map (unat \<circ> sb_blockId) cache)) = length cache" "card (set (map (unat \<circ> sb_blockId) cache)) \<le> m"
    using card_mono [of "{0..<m}" "set (map (unat \<circ> sb_blockId) cache)"] by (simp_all only: distinct_card) simp_all
  then show ?thesis by simp
qed

text \<open>C36: Loading the pool of free sectors skips a table block on the disk only when it is the first
  of a group: up to eight blocks are read together, without looking at the cache for the others. A
  sector whose allocation is in the cache and not yet on the disk is put into the pool as free.\<close>

theorem allocated_sector_loaded_as_free:
  assumes "disk_fs c E cap st" "fs_freePool st = Some ([], n)" "2048 \<le> n" "unat (BPB_FSTableSize (fs_boot st)) \<le> 8"
    "0 \<notin> sb_blockId ` set (fs_tableCache st)" "e \<in> set (fs_tableCache st)" "j < 128"
    "sb_sectorBlock e ! j AND EOC \<noteq> 0"
    "words_of (stored (fs_dev st) (GetTableSectorId (fs_boot st) (sb_blockId e))) ! j AND EOC = 0"
    "Drive_Read E (ucast (BPB_RsvdSecCnt (fs_boot st)) + 1) (BPB_FSTableSize (fs_boot st))
       (replicate (unat (BPB_FSTableSize (fs_boot st))) zeros) (fs_dev st) = Some (Inr (), buf, d)"
    "s = sb_blockId e * 128 + of_nat j"
  shows "\<exists>t xs. LoadFreeSectors (drive_io E) st = Some (Inr (), t) \<and> fs_freePool t = Some (xs, n) \<and>
    s \<in> set xs \<and> links stored t s \<noteq> 0"
proof -
  let ?b = "fs_boot st" and ?c = "fs_tableCache st" and ?T = "BPB_FSTableSize (fs_boot st)"
  have ti: "table_inv (stored (fs_dev st)) ?b ?c" and lay: "layout cap ?b"
    and okd: "usable c E cap (fs_dev st)"
    using assms(1) by (simp_all add: disk_fs_def fs_inv_def)
  have k: "sb_blockId e < ?T" using ti assms(6) by (simp add: table_inv_def)
  obtain m where m: "unat ?T = Suc m" using k by (cases "unat ?T") (auto simp: word_less_nat_alt)
  have T: "?T \<le> 8" "0 < ?T" "\<not> 8 < ?T" using assms(4) m by (simp_all add: word_le_nat_alt word_less_nat_alt)
  have ks: "unat (sb_blockId e) < 33554432" "unat (sb_blockId e) < unat ?T" using k assms(4) by (simp_all add: word_less_nat_alt)
  obtain b1 xs1 n1 where pc: "push_cached ?c ([], n) = (b1, xs1, n1)" by (metis prod.collapse)
  have p1: "\<not> b1" "n1 = n" "length xs1 \<le> 1024"
    using push_cached_room [OF pc] small_cache [OF ti assms(4)] assms(3) ti by (auto simp: table_inv_def)
  let ?ws = "concat (map words_of buf)" and ?s0 = "ucast (BPB_RsvdSecCnt ?b) + 1 :: u32"
  have u: "unat ?s0 = unat (BPB_RsvdSecCnt ?b) + 1"
    using lay by (subst unat_add_no_wrap) (simp_all add: unat_ucast_u16 layout_def)
  have "unat ?s0 + unat ?T \<le> cap" using u lay unfolding layout_def by linarith
  from volume.read_law [OF okd this, of "replicate (unat ?T) zeros" "Inr ()" buf d] assms(10)
  have buf: "buf = map (\<lambda>i. stored (fs_dev st) (?s0 + of_nat i)) [0..<unat ?T]"
    by (simp add: drive_io_def)
  have lens: "\<forall>ws \<in> set (map words_of buf). length ws = 128" using ti by (auto simp: buf table_inv_def)
  have nth: "map words_of buf ! unat (sb_blockId e) = words_of (stored (fs_dev st) (GetTableSectorId ?b (sb_blockId e)))"
    using ks by (simp add: buf GetTableSectorId_def ac_simps)
  have kl: "unat (sb_blockId e) < length (map words_of buf)" using ks by (simp add: buf)
  note cb = concat_blocks [OF lens kl assms(7), unfolded nth]
  have lenw: "length ?ws \<le> 1024"
  proof -
    have "map length (map words_of buf) = replicate (unat ?T) 128" using lens by (intro nth_equalityI) (auto simp: buf)
    then show ?thesis using assms(4) by (simp add: length_concat sum_list_replicate)
  qed
  obtain b2 xs2 n2 where pf: "push_free 0 ?ws (xs1, n) = (b2, xs2, n2)" by (metis prod.collapse)
  have p2: "\<not> b2" "n2 = n" "set xs2 = set xs1 \<union> {0 + of_nat j | j. j < length ?ws \<and> ?ws ! j AND EOC = 0}"
    using push_free_room [OF pf] p1 lenw assms(3) by auto
  note ba = block_arith [OF ks(1) assms(7), folded assms(11)]
  have "s = of_nat (128 * unat (sb_blockId e) + j)" by (simp flip: ba(1))
  then have "s \<in> set xs2" unfolding p2(3) using cb assms(9) by force
  have nf: "fst (FSManager_BinarySearch ?c 0) = False"
  proof -
    obtain f p where bs: "FSManager_BinarySearch ?c 0 = (f, p)" by (rule prod.exhaust)
    have "sorted_wrt (<) (map sb_blockId ?c)" using ti by (simp add: table_inv_def)
    from BinarySearch_spec(1,2) [OF this bs] assms(5) show ?thesis using bs by (cases f) (auto simp: image_iff)
  qed
  let ?t = "st\<lparr>fs_dev := d, fs_freePool := Some (xs2, n)\<rparr>"
  have "LoadFreeSectors (drive_io E) st = Some (Inr (), ?t)"
  proof -
    have "dev_read (drive_io E) ?s0 ?T (st\<lparr>fs_freePool := Some (xs1, n)\<rparr>) =
        Some (Inr buf, st\<lparr>fs_freePool := Some (xs1, n), fs_dev := d\<rparr>)"
      using assms(10) by (simp add: dev_read_def drive_io_def)
    moreover have "\<not> ?T < ?T - 0" "(if ?T - 0 > 8 then 8 else ?T - 0) = ?T" using T by simp_all
    moreover have "LoadFree_loop (drive_io E) m (0 + ?T) ?t = Some (Inr (), ?t)"
      by (cases m) (simp_all add: yield_def and_then_def gets_def)
    ultimately have "LoadFree_loop (drive_io E) (Suc m) 0 (st\<lparr>fs_freePool := Some (xs1, n)\<rparr>) = Some (Inr (), ?t)"
      using nf T pf p2 by (simp add: and_then_def gets_def then_do_def modify_def Let_def)
    then show ?thesis
      using assms(2,3) pc p1 m by (simp add: LoadFreeSectors_def and_then_def gets_def then_do_def modify_def)
  qed
  moreover have "links stored ?t s = sb_sectorBlock e ! j AND EOC"
  proof -
    have "distinct (map sb_blockId ?c)" using ti by (simp add: table_inv_def strict_sorted_iff)
    from cmap_distinct [OF this assms(6)] show ?thesis by (simp add: links_def entry_def tblk_def blk_cached ba)
  qed
  ultimately show ?thesis using \<open>s \<in> set xs2\<close> assms(8) by simp
qed

theorem allocated_sector_loaded_as_free_witness:
  "\<exists>t xs. LoadFreeSectors (drive_io sample_params) ((busy_fs 1)\<lparr>fs_freePool := Some ([], 4096)\<rparr>) = Some (Inr (), t) \<and>
    fs_freePool t = Some (xs, 4096) \<and> 128 \<in> set xs \<and> links stored t 128 \<noteq> 0"
proof -
  let ?st = "(busy_fs 1)\<lparr>fs_freePool := Some ([], 4096)\<rparr>"
  have r2: "replicate 2 x = [x, x]" for x :: sector by (simp add: numeral_2_eq_2)
  obtain d where d: "Drive_Read sample_params 3 2 (replicate 2 zeros) blank_drive = Some (Inr (), [zeros, zeros], d)"
    by (simp add: Drive_Read_def blank_drive_def sample_drive_def sample_params_def upt32_def Cache_Full_def Cache_Add_def
        upt_two r2 Value_Read_def RawRead_def next_fault_def patch_def)
  show ?thesis
    by (rule allocated_sector_loaded_as_free [where c = True and cap = 1000 and j = 0 and d = d and buf = "[zeros, zeros]"
          and e = "\<lparr>sb_sectorBlock = EOC # replicate 127 0, sb_blockId = 1, sb_readCount = 0, sb_writeCount = 1\<rparr>"])
      (use busy_fs_ok [of 1] d in \<open>simp_all add: sample_layout busy_fs_def disk_fs_def fs_inv_def words_of_zeros\<close>)
qed

text \<open>When the device fails while a table block is loaded, the entry inserted for it stays in the
  cache as a block of zeros with number 0. From then on sectors below 128 are looked up there: sectors
  in use read as free, without any access to the volume.\<close>

theorem failed_load_leaves_phantom_block:
  assumes "disk_fs c E cap st" "fs_tableCache st = []" "i \<in> sectors_of st" "unat j < 128" "links stored st j \<noteq> 0"
    "Drive_Read E (GetTableSectorId (fs_boot st) (BLOCK_ID i)) 1 [zeros] (fs_dev st) = Some (Inl err, buf, d)"
  shows "\<exists>t u. GetSectorEntryValue (drive_io E) i st = Some (Inl (DriveError err), t) \<and>
    GetSectorEntryValue (drive_io E) j t = Some (Inr 0, u) \<and> fs_dev u = fs_dev t"
proof -
  have lay: "layout cap (fs_boot st)" using assms(1) by (simp add: disk_fs_def fs_inv_def)
  have i: "\<not> i > table_limit (fs_boot st)" "0 < unat (BPB_FSTableSize (fs_boot st))"
    using assms(3) table_limit_value [OF lay] by (auto simp: word_less_nat_alt sectors_of_def intro: Nat.gr0I)
  then have j: "\<not> j > table_limit (fs_boot st)" using assms(4) table_limit_value [OF lay] by (simp add: word_less_nat_alt)
  have bj: "BLOCK_ID j = 0"
    using assms(4) by (simp add: BLOCK_ID_def word_unat_eq_iff unat_div_distrib)
  have e: "FSManager_BinarySearch [] k = (False, 0)" for k
    by (simp add: FSManager_BinarySearch_def BinarySearch_loop.simps)
  have f: "FSManager_BinarySearch [EmptyEntry] 0 = (True, 0)"
    by (simp add: FSManager_BinarySearch_def BinarySearch_loop.simps EmptyEntry_def)
  let ?t = "st\<lparr>fs_tableCache := [EmptyEntry], fs_dev := d\<rparr>"
  have "GetSectorEntryValue (drive_io E) i st = Some (Inl (DriveError err), ?t)"
    using i assms(2,6) e
    by (simp add: GetSectorEntryValue_def cached_entry_def AddToTableCache_def Entry_Load_def GetSectorEntryFromCache_def
        and_then_def gets_def then_do_def modify_def only_if_def yield_def dev_read_def drive_io_def)
  moreover have "\<exists>u. GetSectorEntryValue (drive_io E) j ?t = Some (Inr 0, u) \<and> fs_dev u = fs_dev ?t"
    using j f bj block_offset_bound [of j]
    by (simp add: GetSectorEntryValue_def cached_entry_def GetSectorEntryFromCache_def Entry_Read_def
        and_then_def gets_def then_do_def modify_def yield_def) (simp add: EmptyEntry_def)
  ultimately show ?thesis by blast
qed

definition failing_drive :: "nat drive" where
  "failing_drive = blank_drive\<lparr>dd_medium :=
     \<lparr>md_sectors = (\<lambda>x. if x = 66 then bytes_of (EOC # replicate 127 0) else zeros), md_faults = [True]\<rparr>\<rparr>"

theorem failed_load_leaves_phantom_block_witness:
  "\<exists>t u. GetSectorEntryValue (drive_io sample_params) 200 (sample_fs\<lparr>fs_dev := failing_drive\<rparr>) = Some (Inl (DriveError DeviceFault), t) \<and>
    GetSectorEntryValue (drive_io sample_params) 0 t = Some (Inr 0, u) \<and> fs_dev u = fs_dev t"
proof -
  have b: "BLOCK_ID 200 = 1" by (simp add: BLOCK_ID_def)
  have v: "stored failing_drive x = (if x = 3 then bytes_of (EOC # replicate 127 0) else zeros)" for x
    by (auto simp: failing_drive_def blank_drive_def sample_drive_def stored_def drive_contents_def view_def through_def)
  obtain buf d where d: "Drive_Read sample_params 4 1 [zeros] failing_drive = Some (Inl DeviceFault, buf, d)"
    by (simp add: Drive_Read_def failing_drive_def blank_drive_def sample_drive_def upt32_def RawRead_def next_fault_def)
  show ?thesis
  proof (rule failed_load_leaves_phantom_block [where c = True and cap = 1000 and d = d and buf = buf])
    show "disk_fs True sample_params 1000 (sample_fs\<lparr>fs_dev := failing_drive\<rparr>)"
      using sample_fs_ok by (simp add: disk_fs_def fs_inv_def table_inv_def v sample_drive_ok)
        (simp add: usable_def drive_ok_def coherent_def failing_drive_def blank_drive_def sample_drive_def sample_drive_ok)
    show "links stored (sample_fs\<lparr>fs_dev := failing_drive\<rparr>) 0 \<noteq> 0"
      by (simp add: links_def entry_def tblk_def blk_def cmap_def v sample_fs_ok GetTableSectorId_def sample_layout
          BLOCK_ID_def BLOCK_OFFSET_def)
  qed (use d sample_fs_ok in \<open>simp_all add: b sectors_of_def GetTableSectorId_def sample_layout\<close>)
qed


section \<open>The boot block\<close>

lemma from_le16_le16 [simp]: "from_le16 (le16 w @ r) = w"
proof -
  have "ucast (ucast w :: u8) OR push_bit 8 (ucast (ucast (drop_bit 8 w) :: u8)) = (w :: u16)"
    by (rule bit_word_eqI) (auto simp: bit_simps)
  then show ?thesis by (simp add: from_le16_def le16_def)
qed

lemma length_le16 [simp]: "length (le16 w) = 2"
  by (simp add: le16_def)

lemma hd_words [simp]: "hd (words_of (bytes_of [w] @ r)) = w"
  by (simp add: word_bytes_join)

lemma drop_at: "length xs = n \<Longrightarrow> drop (n + m) (xs @ ys) = drop m ys"
  by simp

lemma boot_bytes_length: "length (BPB_jmpBoot b) = 3 \<Longrightarrow> length (BPB_VolLab b) = 12 \<Longrightarrow> length (boot_bytes b) = 51"
  by (simp add: boot_bytes_def)

lemma boot_bytes_roundtrip:
  assumes "length (BPB_jmpBoot b) = 3" "length (BPB_VolLab b) = 12"
  shows "boot_of_bytes (boot_bytes b @ r) = b"
  using assms by (simp add: boot_of_bytes_def boot_bytes_def nth_append del: bytes_of.simps)


lemma init_boot_fields:
  assumes "length (BPB_VolLab b0) = 12"
  shows "length (BPB_jmpBoot (InitBootBlock G b0)) = 3" "length (BPB_VolLab (InitBootBlock G b0)) = 12"
    "BPB_jmpBoot (InitBootBlock G b0) = [0xEB, 0xFE, 0x90]" "BPB_BytesPerSec (InitBootBlock G b0) = 512"
    "BPB_RsvdSecCnt (InitBootBlock G b0) = 2" "BPB_FSTableSize (InitBootBlock G b0) = (g_SizeInSectors G - 2 - 1) div 129"
    "BPB_TotSec32 (InitBootBlock G b0) = g_SizeInSectors G" "g_floppy G \<Longrightarrow> BPB_Media (InitBootBlock G b0) = 0xF0"
    "BPB_ExtFlags (InitBootBlock G b0) = 0x80" "BPB_FSVer (InitBootBlock G b0) = 0x100" "BPB_FSInfo (InitBootBlock G b0) = 1"
    "BPB_BootSig (InitBootBlock G b0) = 0x29" "BPB_VolID (InitBootBlock G b0) = 1"
  using assms by (simp_all add: InitBootBlock_def Let_def no_name_def)

definition good_geometry :: "nat \<Rightarrow> geometry \<Rightarrow> bool" where
  "good_geometry cap G \<longleftrightarrow> 132 \<le> unat (g_SizeInSectors G) \<and> unat (g_SizeInSectors G) \<le> cap \<and> cap < 1082130432"

lemma format_layout:
  assumes "good_geometry cap G" "length (BPB_VolLab b0) = 12" "b = InitBootBlock G b0"
  shows "layout cap b" "unat (BPB_FSTableSize b) < 8388608" "0 < unat (BPB_FSTableSize b)"
    "3 + 129 * unat (BPB_FSTableSize b) \<le> cap"
proof -
  let ?s = "unat (g_SizeInSectors G)"
  have "unat (g_SizeInSectors G - 2 - 1) = ?s - 3"
    using assms(1) by (simp add: good_geometry_def unat_sub word_le_nat_alt)
  then have T: "unat (BPB_FSTableSize b) = (?s - 3) div 129"
    by (simp add: assms(3) init_boot_fields [OF assms(2)] unat_div_distrib)
  have "129 * ((?s - 3) div 129) \<le> ?s - 3" by simp
  moreover have "1 \<le> (?s - 3) div 129"
  proof -
    have "129 \<le> ?s - 3" using assms(1) unfolding good_geometry_def by linarith
    from div_le_mono [OF this, of 129] show ?thesis by simp
  qed
  ultimately show "unat (BPB_FSTableSize b) < 8388608" "0 < unat (BPB_FSTableSize b)" "3 + 129 * unat (BPB_FSTableSize b) \<le> cap"
    using assms(1) unfolding T good_geometry_def by linarith+
  then show "layout cap b"
    using assms(1) init_boot_fields [OF assms(2)] by (simp add: layout_def assms(3) good_geometry_def)
qed

text \<open>The table sector that formatting writes for block \<open>k\<close>.\<close>

definition fresh_table :: "nat \<Rightarrow> sector" where
  "fresh_table k = (if k = 0 then bytes_of (EOC # replicate 127 0) else zeros)"

lemma table_sec: "k < 8388608 \<Longrightarrow> unat (of_nat k + 3 :: u32) = k + 3"
  by (subst unat_add_no_wrap) (simp_all add: of_nat_unat_u32)

lemma table_sec_eq: "k < 8388608 \<Longrightarrow> j < 8388608 \<Longrightarrow> (of_nat k + 3 = (of_nat j + 3 :: u32)) = (k = j)"
  using table_sec [of k] table_sec [of j] by (metis add_right_cancel)

context block_device
begin

lemma format_ok:
  assumes okd: "ok (fs_dev st)" "\<forall>x. length (contents (fs_dev st) x) = 512"
    and G: "good_geometry capacity G" and junk: "length junk = 512" and b: "b = InitBootBlock G (boot_of_bytes junk)"
    and root: "length (put_node C 0 (Node_InitAsRoot A now (GetRealSectorNumber b 0)) zeros) = 512"
  shows "wp False (Format io C A G junk now)
    (\<lambda>_ t. ok (fs_dev t) \<and> fs_boot t = b \<and> fs_tableCache t = fs_tableCache st \<and>
       (\<forall>x. length (contents (fs_dev t) x) = 512) \<and>
       contents (fs_dev t) 1 = (boot_bytes b @ drop 51 junk)[510 := 0x55, 511 := 0xAA] \<and>
       (\<forall>k < unat (BPB_FSTableSize b). contents (fs_dev t) (of_nat k + 3) = fresh_table k) \<and>
       contents (fs_dev t) (GetRealSectorNumber b 0) =
         put_node C 0 (Node_InitAsRoot A now (GetRealSectorNumber b 0)) zeros)
    (\<lambda>e _. \<exists>x. e = DriveError x) st"
proof -
  let ?T = "unat (BPB_FSTableSize b)" and ?r = "GetRealSectorNumber b 0"
  let ?sec = "(boot_bytes b @ drop 51 junk)[510 := 0x55, 511 := 0xAA]"
  have vl: "length (BPB_VolLab (boot_of_bytes junk)) = 12" using junk by (simp add: boot_of_bytes_def)
  note lay = format_layout [OF G vl b] and flds = init_boot_fields [OF vl, of G, folded b]
  have sl: "length ?sec = 512" using junk by (simp add: boot_bytes_length flds)
  have fl: "length (fresh_table k) = 512" for k by (simp add: fresh_table_def zeros_def)
  have r: "unat ?r = 3 + ?T"
  proof -
    have "?r = of_nat ?T + 3" by (simp add: GetRealSectorNumber_def flds)
    then show ?thesis using table_sec [of ?T] lay(2) by simp
  qed
  have capr: "unat ?r < capacity" using r lay(3,4) by linarith
  have r1: "?r \<noteq> 1" using r by auto
  have rt: "of_nat k + 3 \<noteq> ?r" if "k < ?T" for k
  proof -
    have "unat (of_nat k + 3 :: u32) \<noteq> unat ?r" using table_sec [of k] that r lay(2) by simp
    then show ?thesis by metis
  qed
  have t1: "of_nat k + 3 \<noteq> (1 :: u32)" if "k < ?T" for k
  proof -
    have "unat (of_nat k + 3 :: u32) \<noteq> unat (1 :: u32)" using table_sec [of k] that lay(2) by simp
    then show ?thesis by metis
  qed
  define I :: "nat \<Rightarrow> 'd fsys \<Rightarrow> bool" where "I = (\<lambda>i t. ok (fs_dev t) \<and> fs_tableCache t = fs_tableCache st \<and>
    (\<forall>x. length (contents (fs_dev t) x) = 512) \<and> contents (fs_dev t) 1 = ?sec \<and>
    (\<forall>k < i. contents (fs_dev t) (of_nat k + 3) = fresh_table k))"
  have loop: "wp False (steps (\<lambda>i. dev_write io (of_nat i + ucast (BPB_RsvdSecCnt b) + 1) 1
                     [if i = 0 then bytes_of (EOC # replicate 127 0) else zeros]) [0..<?T])
      (\<lambda>_. I ?T) (\<lambda>e _. \<exists>x. e = DriveError x) t" if "I 0 t" for t
  proof (rule wp_steps [where I = I], goal_cases)
    case (2 i t)
    then have i: "i < ?T" "[0..<?T] ! i = i" by simp_all
    have eq: "of_nat i + ucast (BPB_RsvdSecCnt b) + 1 = (of_nat i + 3 :: u32)" by (simp add: flds)
    have cap: "unat (of_nat i + 3 :: u32) < capacity" using table_sec [of i] i lay(2,4) by simp
    show ?case
      unfolding i(2) eq fresh_table_def [symmetric]
    proof (rule wp_dev_write1 [OF _ cap])
      show "ok (fs_dev t)" using 2 by (simp add: I_def)
      show "I (Suc i) (t\<lparr>fs_dev := d\<rparr>)" if "ok d" "contents d = (contents (fs_dev t))(of_nat i + 3 := fresh_table i)" for d
        using 2(2) that t1 [OF i(1)] fl table_sec_eq [of _ i] i(1) lay(2)
        by (auto simp: I_def less_Suc_eq)
    qed simp
  qed (use that in simp_all)
  show ?thesis
    unfolding Format_def b [symmetric] Let_def wp_rules
  proof (rule wp_dev_write1 [OF okd(1)], goal_cases)
    case 1
    then show ?case using lay(4) by simp
  next
    case (2 d)
    have "I 0 (st\<lparr>fs_dev := d\<rparr>)" using 2 okd sl by (simp add: I_def)
    then show ?case
    proof (rule wp_mono [OF loop], goal_cases)
      case (1 _ t)
      show ?case
      proof (rule wp_dev_write1, goal_cases)
        case (3 d)
        then show ?case using \<open>I ?T t\<close> r1 rt root by (auto simp: I_def)
      qed (use 1 capr in \<open>simp_all add: I_def\<close>)
    qed simp_all
  qed simp
qed

end


context block_device
begin

text \<open>Reading back what formatting wrote.\<close>

lemma read_boot_ok:
  assumes okd: "ok (fs_dev st)" and cap: "1 < capacity"
    and sec: "contents (fs_dev st) 1 = (boot_bytes b @ drop 51 junk)[510 := 0x55, 511 := 0xAA]" "length junk = 512"
    and b: "b = InitBootBlock G b0" "length (BPB_VolLab b0) = 12" "BPB_FSTableSize b \<noteq> 0"
  shows "wp False (ReadFSBootBlock io G) (\<lambda>_ t. \<exists>d. t = st\<lparr>fs_dev := d, fs_boot := b\<rparr> \<and> ok d \<and> contents d = contents (fs_dev st))
    (\<lambda>e _. \<exists>x. e = DriveError x) st"
proof -
  note flds = init_boot_fields [OF b(2), of G, folded b(1)]
  let ?sec = "(boot_bytes b @ drop 51 junk)[510 := 0x55, 511 := 0xAA]"
  have sig: "?sec ! 510 = 0x55" "?sec ! 511 = 0xAA" using sec(2) by (simp_all add: boot_bytes_length flds)
  have "?sec = boot_bytes b @ (drop 51 junk)[459 := 0x55, 460 := 0xAA]"
    by (simp add: list_update_append boot_bytes_length flds)
  then have bb: "boot_of_bytes ?sec = b" using boot_bytes_roundtrip [OF flds(1,2)] by simp
  show ?thesis
    unfolding ReadFSBootBlock_def wp_rules
    by (rule wp_dev_read1 [OF okd]) (use cap sec(1) sig bb flds b(3) in \<open>auto simp: wp_rules Let_def\<close>)
qed

lemma fresh_links:
  assumes "\<forall>k < unat (BPB_FSTableSize (fs_boot t)). contents (fs_dev t) (of_nat k + 3) = fresh_table k"
    "fs_tableCache t = []" "layout capacity (fs_boot t)" "BPB_RsvdSecCnt (fs_boot t) = 2" "j \<in> sectors_of t"
  shows "links contents t j = (if j = 0 then EOC else 0)"
proof -
  let ?k = "BLOCK_ID j"
  have k: "unat ?k < unat (BPB_FSTableSize (fs_boot t))"
    using block_id_less [OF assms(3), of j] assms(5) by (simp add: sectors_of_def word_less_nat_alt)
  have "contents (fs_dev t) (GetTableSectorId (fs_boot t) ?k) = fresh_table (unat ?k)"
  proof -
    have "GetTableSectorId (fs_boot t) ?k = of_nat (unat ?k) + 3" by (simp add: GetTableSectorId_def assms(4))
    then show ?thesis using spec [OF assms(1), of "unat ?k"] k by simp
  qed
  then have "links contents t j = words_of (fresh_table (unat ?k)) ! unat (BLOCK_OFFSET j) AND EOC"
    using assms(2) by (simp add: links_def entry_def tblk_def blk_def cmap_def)
  moreover have "j = 0 \<longleftrightarrow> ?k = 0 \<and> unat (BLOCK_OFFSET j) = 0"
    using block_eq_iff [of j 0] by (auto simp: unat_eq_0 BLOCK_ID_def BLOCK_OFFSET_def)
  ultimately show ?thesis
    using block_offset_bound [of j]
    by (cases "unat (BLOCK_OFFSET j)") (auto simp: fresh_table_def words_of_zeros unat_eq_0 simp del: bytes_of.simps)
qed

end


lemma node_at_put:
  assumes "nc_size C \<le> 512" "\<And>bs. length bs = nc_size C \<Longrightarrow> length (nc_put C n bs) = nc_size C \<and> nc_get C (nc_put C n bs) = n"
    "length sec = 512" "Suc i * nc_size C \<le> 512"
  shows "length (put_node C i n sec) = 512" "node_at C (put_node C i n sec) i = n"
proof -
  have l: "length (take (nc_size C) (drop (i * nc_size C) sec)) = nc_size C" using assms(3,4) by simp
  note p = assms(2) [OF l]
  show "length (put_node C i n sec) = 512" using p assms(3,4) by (simp add: put_node_def)
  show "node_at C (put_node C i n sec) i = n" using p assms(3,4) by (simp add: node_at_def put_node_def)
qed

text \<open>C37: Formatting a drive of 132 sectors or more whose table cache is empty, and reading the boot
  block and the root directory back as mounting does, succeeds unless the device fails: no check of
  the boot block rejects what was written, the file system invariant holds, every sector is free but
  the first, which ends its chain, and the root directory is the current one.\<close>

theorem formatted_drive_mounts:
  assumes "usable c E cap (fs_dev st)" "\<forall>x. length (stored (fs_dev st) x) = 512"
    "fs_tableCache st = []" "good_geometry cap G" "length junk = 512" "b = InitBootBlock G (boot_of_bytes junk)"
    "root = Node_InitAsRoot A now (GetRealSectorNumber b 0)" "nc_size C \<le> 512"
    "\<And>bs. length bs = nc_size C \<Longrightarrow> length (nc_put C root bs) = nc_size C \<and> nc_get C (nc_put C root bs) = root"
  shows "wp False (then_do (Format (drive_io E) C A G junk now)
        (then_do (ReadFSBootBlock (drive_io E) G) (ReadRootDirectory (drive_io E) C)))
      (\<lambda>_ t. disk_fs c E cap t \<and> fs_boot t = b \<and> pw_DirEntry (fs_pwd t) = root \<and>
         (\<forall>j \<in> sectors_of t. links stored t j = (if j = 0 then EOC else 0)))
      (\<lambda>e _. \<exists>x. e = DriveError x) st"
proof -
  have vl: "length (BPB_VolLab (boot_of_bytes junk)) = 12" using assms(5) by (simp add: boot_of_bytes_def)
  note lay = format_layout [OF assms(4) vl assms(6)]
  have rs: "length (put_node C 0 root zeros) = 512" "node_at C (put_node C 0 root zeros) 0 = root"
    using node_at_put [of C root zeros 0] assms(8,9) by simp_all
  have T0: "BPB_FSTableSize b \<noteq> 0" using lay(3) by auto
  have rsv: "BPB_RsvdSecCnt b = 2" using init_boot_fields [OF vl] assms(6) by simp
  have dk: "usable c E cap (fs_dev st)" using assms(1) by simp
  have capr: "unat (GetRealSectorNumber b 0) < cap"
  proof -
    have "GetRealSectorNumber b 0 = of_nat (unat (BPB_FSTableSize b)) + 3" by (simp add: GetRealSectorNumber_def rsv)
    then have "unat (GetRealSectorNumber b 0) = unat (BPB_FSTableSize b) + 3"
      using table_sec [of "unat (BPB_FSTableSize b)"] lay(2) by simp
    then show ?thesis using lay(3,4) by linarith
  qed
  show ?thesis
    unfolding wp_rules
  proof (rule wp_mono [OF volume.format_ok [OF dk assms(2,4-6), where C = C and A = A and now = now]], goal_cases)
    case 1
    then show ?case using rs(1) assms(7) by simp
  next
    case (2 _ t)
    then have t: "usable c E cap (fs_dev t)" "fs_boot t = b" "fs_tableCache t = []"
      "stored (fs_dev t) 1 = (boot_bytes b @ drop 51 junk)[510 := 0x55, 511 := 0xAA]"
      "stored (fs_dev t) (GetRealSectorNumber b 0) = put_node C 0 root zeros"
      "\<forall>k < unat (BPB_FSTableSize b). stored (fs_dev t) (of_nat k + 3) = fresh_table k"
      "\<forall>x. length (stored (fs_dev t) x) = 512"
      using assms(3,7) by simp_all
    have cap1: "1 < cap" using assms(4) by (simp add: good_geometry_def)
    show ?case
    proof (rule wp_mono [OF volume.read_boot_ok [OF t(1) cap1 t(4) assms(5,6) vl T0]], goal_cases)
      case (1 _ u)
      then obtain d where u: "u = t\<lparr>fs_dev := d, fs_boot := b\<rparr>" "usable c E cap d"
        "stored d = stored (fs_dev t)" by blast
      have fin: "disk_fs c E cap v \<and> fs_boot v = b \<and> (\<forall>j \<in> sectors_of v. links stored v j = (if j = 0 then EOC else 0))"
        if v: "fs_boot v = b" "fs_tableCache v = []" "usable c E cap (fs_dev v)"
          "stored (fs_dev v) = stored (fs_dev t)" for v
      proof -
        have "links stored v j = (if j = 0 then EOC else 0)" if "j \<in> sectors_of v" for j
          by (rule volume.fresh_links [where cap = cap]) (use that v t lay(1) rsv in simp_all)
        then show ?thesis using v t(7) lay(1) by (simp add: disk_fs_def fs_inv_def table_inv_def)
      qed
      have okd: "usable c E cap (fs_dev u)" using u by simp
      have bu: "fs_boot u = b" using u by simp
      show ?case
        unfolding ReadRootDirectory_def xRead1_def xRead_def wp_rules bu
        by (rule volume.wp_dev_read1 [OF okd capr]) (use u t fin rs(2) in \<open>auto simp: wp_rules\<close>)
    qed simp_all
  qed simp_all
qed


text \<open>A codec for the samples: 65 bytes of fields in a slot of 73.\<close>

definition sample_codec :: node_codec where
  "sample_codec = \<lparr>nc_size = 73,
     nc_get = (\<lambda>bs. \<lparr>nd_name = map (\<lambda>b. char_of (unat b)) (takeWhile (\<lambda>b. b \<noteq> 0) (take 33 bs)),
       nd_attribute = from_le16 (drop 33 bs), nd_createdTime = hd (words_of (drop 35 bs)),
       nd_accessedTime = hd (words_of (drop 39 bs)), nd_modifiedTime = hd (words_of (drop 43 bs)),
       nd_startSectorID = hd (words_of (drop 47 bs)), nd_size = hd (words_of (drop 51 bs)),
       nd_parentSectorID = hd (words_of (drop 55 bs)), nd_parentSectorPos = from_le16 (drop 59 bs),
       nd_userID = uint (hd (words_of (drop 61 bs)))\<rparr>),
     nc_put = (\<lambda>n bs. map of_char (nd_name n) @ replicate (33 - length (nd_name n)) 0 @ le16 (nd_attribute n) @
       bytes_of [nd_createdTime n] @ bytes_of [nd_accessedTime n] @ bytes_of [nd_modifiedTime n] @
       bytes_of [nd_startSectorID n] @ bytes_of [nd_size n] @ bytes_of [nd_parentSectorID n] @
       le16 (nd_parentSectorPos n) @ bytes_of [of_int (nd_userID n)] @ drop 65 bs)\<rparr>"

definition sample_fits :: "fs_node \<Rightarrow> bool" where
  "sample_fits n \<longleftrightarrow> length (nd_name n) \<le> 32 \<and> CHR 0x00 \<notin> set (nd_name n) \<and> 0 \<le> nd_userID n \<and> nd_userID n < 4294967296"

lemma char_byte: "char_of (unat (of_char c :: u8)) = c"
proof -
  have "(of_char c :: u8) = of_nat (of_char c)" by (simp add: of_nat_of_char)
  then have "unat (of_char c :: u8) = of_char c mod 256" by (simp only: unat_of_nat) simp
  then show ?thesis by simp
qed

lemma char_byte_zero: "(of_char c :: u8) = 0 \<longleftrightarrow> c = CHR 0x00"
proof
  assume "(of_char c :: u8) = 0"
  then have "char_of (unat (of_char c :: u8)) = char_of (0 :: nat)" by simp
  then show "c = CHR 0x00" unfolding char_byte by (simp add: char_of_def)
qed simp

lemma sample_codec_law:
  assumes "sample_fits n" "length bs = nc_size sample_codec"
  shows "length (nc_put sample_codec n bs) = nc_size sample_codec \<and> nc_get sample_codec (nc_put sample_codec n bs) = n"
proof -
  let ?name = "map of_char (nd_name n) @ replicate (33 - length (nd_name n)) (0 :: u8)"
  have l: "length ?name = 33" "length bs = 73" using assms by (simp_all add: sample_fits_def sample_codec_def)
  have "takeWhile (\<lambda>b. b \<noteq> 0) ?name = map of_char (nd_name n)"
  proof (subst takeWhile_append2)
    show "map of_char (nd_name n) @ takeWhile (\<lambda>b. b \<noteq> 0) (replicate (33 - length (nd_name n)) (0 :: u8)) = map of_char (nd_name n)"
      by simp
  qed (use assms(1) in \<open>auto simp: sample_fits_def char_byte_zero\<close>)
  then have nm: "map (\<lambda>b. char_of (unat b)) (takeWhile (\<lambda>b. b \<noteq> 0) ?name) = nd_name n" by (simp add: comp_def char_byte)
  have us: "uint (of_int (nd_userID n) :: u32) = nd_userID n"
    using assms(1) by (simp add: sample_fits_def uint_word_of_int_eq take_bit_int_eq_self)
  let ?r = "le16 (nd_attribute n) @
       bytes_of [nd_createdTime n] @ bytes_of [nd_accessedTime n] @ bytes_of [nd_modifiedTime n] @
       bytes_of [nd_startSectorID n] @ bytes_of [nd_size n] @ bytes_of [nd_parentSectorID n] @
       le16 (nd_parentSectorPos n) @ bytes_of [of_int (nd_userID n)] @ drop 65 bs"
  define nm' where "nm' = ?name"
  have put: "nc_put sample_codec n bs = nm' @ ?r" by (simp add: sample_codec_def nm'_def del: bytes_of.simps)
  have "nc_get sample_codec (nm' @ ?r) = n"
    using l nm us unfolding nm'_def [symmetric] by (simp add: sample_codec_def del: bytes_of.simps)
  moreover have "length (nm' @ ?r) = 73" using l by (simp add: nm'_def del: bytes_of.simps)
  ultimately show ?thesis by (simp add: put) (simp add: sample_codec_def)
qed

definition sample_attrs :: node_consts where
  "sample_attrs = \<lparr>ATTR_TYPE_FILE = 0x200, ATTR_TYPE_DIRECTORY = 0x400, ATTR_DELETED_DIR = 0x800,
     ATTR_DIR_DEFAULT = 0x1ED, ROOT_USER_ID = 0\<rparr>"

definition sample_geometry :: geometry where
  "sample_geometry = \<lparr>g_floppy = False, g_SectorsPerTrack = 63, g_NoOfHeads = 16, g_SizeInSectors = 300,
     g_MaxSectorsInFreePoolCache = 4096\<rparr>"

theorem formatted_drive_mounts_witness:
  "\<exists>b root. b = InitBootBlock sample_geometry (boot_of_bytes zeros) \<and>
    root = Node_InitAsRoot sample_attrs 7 (GetRealSectorNumber b 0) \<and>
    wp False (then_do (Format (drive_io sample_params) sample_codec sample_attrs sample_geometry zeros 7)
        (then_do (ReadFSBootBlock (drive_io sample_params) sample_geometry)
           (ReadRootDirectory (drive_io sample_params) sample_codec)))
      (\<lambda>_ t. disk_fs True sample_params 1000 t \<and> fs_boot t = b \<and> pw_DirEntry (fs_pwd t) = root \<and>
         (\<forall>j \<in> sectors_of t. links stored t j = (if j = 0 then EOC else 0)))
      (\<lambda>e _. \<exists>x. e = DriveError x) sample_fs"
proof (intro exI conjI)
  let ?b = "InitBootBlock sample_geometry (boot_of_bytes zeros)"
  let ?root = "Node_InitAsRoot sample_attrs 7 (GetRealSectorNumber ?b 0)"
  have "sample_fits ?root" by (simp add: sample_fits_def Node_InitAsRoot_def Node_Init_def sample_attrs_def)
  from sample_codec_law [OF this]
  show "wp False (then_do (Format (drive_io sample_params) sample_codec sample_attrs sample_geometry zeros 7)
        (then_do (ReadFSBootBlock (drive_io sample_params) sample_geometry)
           (ReadRootDirectory (drive_io sample_params) sample_codec)))
      (\<lambda>_ t. disk_fs True sample_params 1000 t \<and> fs_boot t = ?b \<and> pw_DirEntry (fs_pwd t) = ?root \<and>
         (\<forall>j \<in> sectors_of t. links stored t j = (if j = 0 then EOC else 0)))
      (\<lambda>e _. \<exists>x. e = DriveError x) sample_fs"
    by (intro formatted_drive_mounts [where c = True])
      (simp_all add: sample_fs_ok sample_drive_ok good_geometry_def sample_geometry_def, simp_all add: sample_codec_def)
qed simp_all

end
