(* ===== verification/Directory.thy ===== *)
theory Directory
  imports FsTable FileDescs ProcEnv
begin

text \<open>
  Directories and file data: \<open>filesystem/Directory.cpp\<close>, with the tokenizer of
  \<open>util/StringUtil.cpp\<close>.

  The operations on one drive act on its \<open>fsys\<close>; reading and writing a file acts on the file system
  and the file descriptor together (\<open>file_state\<close>); the operations that find the drive by its id act
  on the \<open>world\<close>: the drives, the current process, the id of the root drive. A pointer to a node in
  a sector buffer is the buffer and the position. The loops along a chain of sectors have fuel
  (\<open>fuel\<close> sectors), which a cyclic chain exhausts: undefined.
\<close>

section \<open>The code\<close>

datatype dir_error =
    FsError fs_error
  | FdError fd_error
  | DriveNotFound int
  | DirectoryExists string
  | DirectoryNotToDelete string
  | DirectoryNotEmpty string
  | CurrentOrRootDirectory
  | DirectoryNotFound string
  | SpecialDirectory string
  | EntryDeleted string
  | NotADirectory string
  | ZeroByteWrite
  | IsADirectory string
  | EmptyFileName
  | FileNotFound string
  | PwdNotSet
  | NotAFile string
  | NoPermission string
  | InvalidFileAttribute u16
  | BufferTooSmall

abbreviation (input) EOC_B :: u8 where "EOC_B \<equiv> 0xFF"
abbreviation (input) DIR_ENTRIES_PER_SECTOR :: nat where "DIR_ENTRIES_PER_SECTOR \<equiv> 7"
abbreviation (input) MAX_SECTORS_PER_RW :: nat where "MAX_SECTORS_PER_RW \<equiv> 8"

record cwd =
  cw_DirEntry :: fs_node
  cw_uiSectorNo :: u32
  cw_bSectorEntryPosition :: u8

definition cwd_of :: "pwd \<Rightarrow> cwd" where
  "cwd_of p = \<lparr>cw_DirEntry = pw_DirEntry p, cw_uiSectorNo = pw_uiSectorNo p,
     cw_bSectorEntryPosition = pw_bSectorEntryPosition p\<rparr>"

type_synonym ('d, 'a) dir_eff = "('d fsys, dir_error, 'a) eff"

abbreviation fs_op :: "('d, 'a) fs_eff \<Rightarrow> ('d, 'a) dir_eff" where
  "fs_op \<equiv> wrap_error FsError"

subsection \<open>Tokens\<close>

text \<open>\<open>String_Tokenize\<close> with a \<open>StringDefTokenizer\<close>: ten tokens of at most 32 characters; more are
  written past its arrays. \<open>cur\<close> holds the characters since \<open>iStartIndex\<close>.\<close>

fun Tokenize_loop :: "char \<Rightarrow> string \<Rightarrow> string \<Rightarrow> string list" where
  "Tokenize_loop chToken [] cur = (if cur \<noteq> [] then [cur] else [])"
| "Tokenize_loop chToken (c # src) cur =
     (if c = chToken then (if cur \<noteq> [] then [cur] else []) @ Tokenize_loop chToken src []
      else Tokenize_loop chToken src (cur @ [c]))"

definition String_Tokenize :: "string \<Rightarrow> char \<Rightarrow> string list option" where
  "String_Tokenize src chToken =
     (let tokens = Tokenize_loop chToken src []
      in if length tokens \<le> 10 \<and> list_all (\<lambda>t. length t < 33) tokens then Some tokens else None)"

fun Chr_loop :: "string \<Rightarrow> char \<Rightarrow> int \<Rightarrow> int" where
  "Chr_loop [] ch i = -1"
| "Chr_loop (c # szStr) ch i = (if c = ch then i else Chr_loop szStr ch (i + 1))"

definition String_Chr :: "string \<Rightarrow> char \<Rightarrow> int" where
  "String_Chr szStr ch = Chr_loop szStr ch 0"

subsection \<open>Searching a directory\<close>

text \<open>\<open>((FileSystem::Node*)buffer)[pos]\<close>; behind the buffer is undefined.\<close>

definition node_ref :: "node_codec \<Rightarrow> sector \<Rightarrow> u8 \<Rightarrow> ('s, 'e, fs_node) eff" where
  "node_ref C sec pos = (if Suc (unat pos) * nc_size C \<le> 512 then yield (node_at C sec (unat pos)) else undef)"

text \<open>The results of the search: sector, position, the buffer of the caller, and the local variables
  \<open>bDeletedEntryFound\<close> and \<open>uiScanDirCount\<close>.\<close>

record find =
  fn_uiSectorNo :: u32
  fn_bSectorPos :: u8
  fn_dest :: sector
  fn_deleted :: bool
  fn_count :: u32

text \<open>The entries of one sector; \<open>n\<close> of them are left. \<open>None\<close>: the entry was found; otherwise the
  value of \<open>bSectorPosIndex\<close> when the loop is left.\<close>

fun Scan_loop :: "node_consts \<Rightarrow> node_codec \<Rightarrow> string \<Rightarrow> u32 \<Rightarrow> sector \<Rightarrow> u32 \<Rightarrow> nat \<Rightarrow> nat \<Rightarrow> find \<Rightarrow> nat option \<times> find" where
  "Scan_loop A C szDirName dirSize buf uiCurrent 0 pos f = (Some pos, f)"
| "Scan_loop A C szDirName dirSize buf uiCurrent (Suc n) pos f =
     (let curDir = node_at C buf pos
      in if szDirName = nd_name curDir \<and> \<not> IsDeleted A curDir then
           (None, f\<lparr>fn_dest := buf, fn_uiSectorNo := uiCurrent, fn_bSectorPos := of_nat pos\<rparr>)
         else if IsDeleted A curDir then
           Scan_loop A C szDirName dirSize buf uiCurrent n (Suc pos)
             (if fn_deleted f then f
              else f\<lparr>fn_dest := buf, fn_uiSectorNo := uiCurrent, fn_bSectorPos := of_nat pos, fn_deleted := True\<rparr>)
         else
           let f = f\<lparr>fn_count := fn_count f + 1\<rparr>
           in if fn_count f \<ge> dirSize then (Some pos, f)
              else Scan_loop A C szDirName dirSize buf uiCurrent n (Suc pos) f)"

fun Find_loop :: "'d block_io \<Rightarrow> node_consts \<Rightarrow> node_codec \<Rightarrow> string \<Rightarrow> u32 \<Rightarrow> nat \<Rightarrow> u32 \<Rightarrow> find \<Rightarrow> ('d, bool \<times> find) fs_eff" where
  "Find_loop io A C szDirName dirSize 0 uiCurrent f = undef"
| "Find_loop io A C szDirName dirSize (Suc n) uiCurrent f =
     (if uiCurrent = EOC then yield (False, f)
      else
        and_then (xRead1 io uiCurrent) (\<lambda>buf.
        case Scan_loop A C szDirName dirSize buf uiCurrent DIR_ENTRIES_PER_SECTOR 0 f of
          (None, f) \<Rightarrow> yield (True, f)
        | (Some pos, f) \<Rightarrow>
            and_then (GetSectorEntryValue io uiCurrent) (\<lambda>uiNext.
            if fn_count f \<ge> dirSize then
              if fn_deleted f then yield (False, f)
              else if pos < DIR_ENTRIES_PER_SECTOR - 1 then
                yield (False, f\<lparr>fn_dest := buf, fn_uiSectorNo := uiCurrent, fn_bSectorPos := of_nat pos + 1\<rparr>)
              else if pos = DIR_ENTRIES_PER_SECTOR - 1 then
                if uiNext \<noteq> EOC then yield (False, f\<lparr>fn_uiSectorNo := uiNext, fn_bSectorPos := 0\<rparr>)
                else yield (False, f\<lparr>fn_uiSectorNo := uiCurrent, fn_bSectorPos := EOC_B\<rparr>)
              else Find_loop io A C szDirName dirSize n uiNext f
            else Find_loop io A C szDirName dirSize n uiNext f)))"

definition Directory_FindDirectory ::
  "'d block_io \<Rightarrow> node_consts \<Rightarrow> node_codec \<Rightarrow> nat \<Rightarrow> cwd \<Rightarrow> string \<Rightarrow> sector \<Rightarrow> ('d, bool \<times> u32 \<times> u8 \<times> sector) dir_eff" where
  "Directory_FindDirectory io A C fuel cwd szDirName bDestSectorBuffer =
     (let pDirEntry = cw_DirEntry cwd
      in if \<not> IsDirectory A pDirEntry then throw (NotADirectory szDirName)
         else if szDirName = ''.'' then
           and_then (fs_op (xRead1 io (cw_uiSectorNo cwd))) (\<lambda>buf.
             yield (True, cw_uiSectorNo cwd, cw_bSectorEntryPosition cwd, buf))
         else if szDirName = ''..'' then
           let (uiSectorNo, bSectorPos) =
                 (if nd_name pDirEntry = ''/'' then (cw_uiSectorNo cwd, cw_bSectorEntryPosition cwd)
                  else (nd_parentSectorID pDirEntry, ucast (nd_parentSectorPos pDirEntry)))
           in and_then (fs_op (xRead1 io uiSectorNo)) (\<lambda>buf. yield (True, uiSectorNo, bSectorPos, buf))
         else
           and_then (fs_op (Find_loop io A C szDirName (nd_size pDirEntry) fuel (nd_startSectorID pDirEntry)
               \<lparr>fn_uiSectorNo = EOC, fn_bSectorPos = EOC_B, fn_dest = bDestSectorBuffer, fn_deleted = False, fn_count = 0\<rparr>))
             (\<lambda>(found, f). yield (found, fn_uiSectorNo f, fn_bSectorPos f, fn_dest f)))"

text \<open>The components of a path, each looked up in the one before.\<close>

fun Resolve_loop ::
  "'d block_io \<Rightarrow> node_consts \<Rightarrow> node_codec \<Rightarrow> nat \<Rightarrow> (string \<Rightarrow> dir_error) \<Rightarrow> string list \<Rightarrow> cwd \<Rightarrow> u32 \<times> u8 \<times> sector \<Rightarrow>
   ('d, u32 \<times> u8 \<times> sector) dir_eff" where
  "Resolve_loop io A C fuel err [] cwd r = yield r"
| "Resolve_loop io A C fuel err (token # tokens) cwd r =
     and_then (Directory_FindDirectory io A C fuel cwd token (snd (snd r))) (\<lambda>(found, uiSectorNo, bSectorPos, buf).
     if \<not> found then throw (err token)
     else
       and_then (node_ref C buf bSectorPos) (\<lambda>tempDirEntry.
       Resolve_loop io A C fuel err tokens
         \<lparr>cw_DirEntry = tempDirEntry, cw_uiSectorNo = uiSectorNo, cw_bSectorEntryPosition = bSectorPos\<rparr>
         (uiSectorNo, bSectorPos, buf)))"

text \<open>A path of slashes only has no token and leaves the caller's variables unset.\<close>

definition Directory_ReadDirEntryInfo ::
  "'d block_io \<Rightarrow> node_consts \<Rightarrow> node_codec \<Rightarrow> nat \<Rightarrow> cwd \<Rightarrow> string \<Rightarrow> ('d, u32 \<times> u8 \<times> sector) dir_eff" where
  "Directory_ReadDirEntryInfo io A C fuel cwd szFileName =
     and_then (gets fs_pwd) (\<lambda>fsPwd.
     if szFileName = [] then throw EmptyFileName
     else if szFileName = ''/'' then
       and_then (fs_op (xRead1 io (pw_uiSectorNo fsPwd))) (\<lambda>buf.
         yield (pw_uiSectorNo fsPwd, pw_bSectorEntryPosition fsPwd, buf))
     else
       let start = (if hd szFileName = CHR ''/'' then cwd_of fsPwd else cwd)
       in case String_Tokenize szFileName (CHR ''/'') of
            None \<Rightarrow> undef
          | Some [] \<Rightarrow> undef
          | Some tokens \<Rightarrow> Resolve_loop io A C fuel (\<lambda>_. FileNotFound szFileName) tokens start (0, 0, zeros))"

end
