(* ===== verification/DirProofs.thy ===== *)
theory DirProofs
  imports FsProofs Directory
begin

text \<open>
  Looking up names: a directory is the list of the entries in its chain of sectors, and
  \<open>Directory_FindDirectory\<close> finds the first entry in use with the name. The lemmas hold for every
  block device; a failing device makes the operations throw.
\<close>

section \<open>Chains of sectors\<close>

fun chain :: "(u32 \<Rightarrow> u32) \<Rightarrow> u32 \<Rightarrow> u32 list \<Rightarrow> bool" where
  "chain nxt s [] \<longleftrightarrow> s = EOC"
| "chain nxt s (x # xs) \<longleftrightarrow> s = x \<and> x \<noteq> EOC \<and> chain nxt (nxt x) xs"

lemma chain_cong: "\<forall>x \<in> set xs. f x = g x \<Longrightarrow> chain f s xs = chain g s xs"
  by (induction xs arbitrary: s) auto

lemma chain_drop: "chain f s xs \<Longrightarrow> k < length xs \<Longrightarrow> chain f (xs ! k) (drop k xs)"
proof (induction xs arbitrary: s k)
  case (Cons x xs)
  show ?case
  proof (cases k)
    case (Suc j)
    then show ?thesis using Cons.IH [of "f x" j] Cons.prems by simp
  qed (use Cons.prems in simp)
qed simp

lemma chain_next: "chain f s xs \<Longrightarrow> k < length xs \<Longrightarrow> chain f (f (xs ! k)) (drop (Suc k) xs)"
  using chain_drop [of f s xs k] by (simp add: Cons_nth_drop_Suc [symmetric])

text \<open>A chain whose sectors belong to the file system.\<close>

definition file_chain :: "('d \<Rightarrow> u32 \<Rightarrow> sector) \<Rightarrow> 'd fsys \<Rightarrow> u32 \<Rightarrow> u32 list \<Rightarrow> bool" where
  "file_chain cont st s xs \<longleftrightarrow> chain (links cont st) s xs \<and> set xs \<subseteq> sectors_of st"

section \<open>Directories\<close>

text \<open>The entry at a place, a sector and a position in it; the entries in use of a chain, in order.\<close>

definition entry_node :: "node_codec \<Rightarrow> ('d \<Rightarrow> u32 \<Rightarrow> sector) \<Rightarrow> 'd fsys \<Rightarrow> u32 \<times> nat \<Rightarrow> fs_node" where
  "entry_node C cont st s = node_at C (data_at cont st (fst s)) (snd s)"

definition live_entries :: "node_consts \<Rightarrow> (u32 \<times> nat \<Rightarrow> fs_node) \<Rightarrow> u32 list \<Rightarrow> (u32 \<times> nat) list" where
  "live_entries A N xs = filter (\<lambda>s. \<not> IsDeleted A (N s)) (List.product xs [0..<DIR_ENTRIES_PER_SECTOR])"

text \<open>The place of a name among the first \<open>n\<close> entries in use.\<close>

definition lookup :: "node_consts \<Rightarrow> (u32 \<times> nat \<Rightarrow> fs_node) \<Rightarrow> string \<Rightarrow> nat \<Rightarrow> u32 list \<Rightarrow> (u32 \<times> nat) option" where
  "lookup A N name n xs = List.find (\<lambda>s. nd_name (N s) = name) (take n (live_entries A N xs))"

lemma find_append: "List.find P (xs @ ys) = (case List.find P xs of None \<Rightarrow> List.find P ys | Some x \<Rightarrow> Some x)"
  by (induction xs) auto

lemma find_map: "List.find P (map f xs) = map_option f (List.find (P \<circ> f) xs)"
  by (induction xs) auto

lemma live_entries_Cons:
  "live_entries A N (x # xs) =
     map (Pair x) (filter (\<lambda>p. \<not> IsDeleted A (N (x, p))) [0..<DIR_ENTRIES_PER_SECTOR]) @ live_entries A N xs"
  by (simp add: live_entries_def filter_map comp_def)

lemma lookup_Cons:
  "lookup A N name n (x # xs) =
     (let L = filter (\<lambda>p. \<not> IsDeleted A (N (x, p))) [0..<DIR_ENTRIES_PER_SECTOR]
      in case List.find (\<lambda>p. nd_name (N (x, p)) = name) (take n L) of
           Some p \<Rightarrow> Some (x, p)
         | None \<Rightarrow> lookup A N name (n - length L) xs)"
  by (simp add: lookup_def live_entries_Cons find_append take_map find_map comp_def Let_def split: option.splits)

lemma lookup_Some:
  assumes "lookup A N name n xs = Some (x, p)"
  shows "x \<in> set xs" "p < DIR_ENTRIES_PER_SECTOR" "nd_name (N (x, p)) = name" "\<not> IsDeleted A (N (x, p))"
proof -
  obtain i where "i < length (take n (live_entries A N xs))" "take n (live_entries A N xs) ! i = (x, p)"
      "nd_name (N (x, p)) = name"
    using assms by (auto simp: lookup_def find_Some_iff)
  then have "(x, p) \<in> set (take n (live_entries A N xs))" by (metis nth_mem)
  then have "(x, p) \<in> set (live_entries A N xs)" by (rule in_set_takeD)
  then show "x \<in> set xs" "p < DIR_ENTRIES_PER_SECTOR" "\<not> IsDeleted A (N (x, p))"
    by (auto simp: live_entries_def)
  show "nd_name (N (x, p)) = name" by fact
qed

lemma lookup_cong:
  assumes "\<And>e. fst e \<in> set xs \<Longrightarrow> M e = N e"
  shows "lookup A M name n xs = lookup A N name n xs"
proof -
  have l: "live_entries A M xs = live_entries A N xs" "\<And>e. e \<in> set (live_entries A N xs) \<Longrightarrow> M e = N e"
    unfolding live_entries_def using assms by (auto intro!: filter_cong)
  then show ?thesis unfolding lookup_def by (intro find_cong) (auto dest: in_set_takeD)
qed

text \<open>The result of a search is that of \<open>lookup\<close>, and the sector found is in the buffer.\<close>

definition found_at :: "('d \<Rightarrow> u32 \<Rightarrow> sector) \<Rightarrow> 'd fsys \<Rightarrow> (u32 \<times> nat) option \<Rightarrow> bool \<Rightarrow> u32 \<Rightarrow> u8 \<Rightarrow> sector \<Rightarrow> bool" where
  "found_at cont st l found uiSectorNo bSectorPos buf \<longleftrightarrow>
     (case l of None \<Rightarrow> \<not> found
      | Some (x, p) \<Rightarrow> found \<and> uiSectorNo = x \<and> bSectorPos = of_nat p \<and> buf = data_at cont st x)"

text \<open>The scan of one sector, with room for \<open>r\<close> more entries in use.\<close>

lemma Scan_spec:
  assumes "unat (fn_count f) + r = unat dirSize" "0 < r"
    "L = filter (\<lambda>p. \<not> IsDeleted A (node_at C buf p)) [pos..<pos + n]"
  shows "case List.find (\<lambda>p. nd_name (node_at C buf p) = name) (take r L) of
      Some p \<Rightarrow> \<exists>f'. Scan_loop A C name dirSize buf cur n pos f = (None, f') \<and> fn_dest f' = buf \<and>
        fn_uiSectorNo f' = cur \<and> fn_bSectorPos f' = of_nat p
    | None \<Rightarrow> \<exists>q f'. Scan_loop A C name dirSize buf cur n pos f = (Some q, f') \<and>
        (if r \<le> length L then dirSize \<le> fn_count f' \<and> q < pos + n else unat (fn_count f') = unat (fn_count f) + length L)"
  using assms
proof (induction n arbitrary: pos f r L)
  case (Suc n)
  let ?d = "node_at C buf pos"
  have up: "[pos..<pos + Suc n] = pos # [Suc pos..<Suc pos + n]" by (simp add: upt_conv_Cons)
  define L' where "L' = filter (\<lambda>p. \<not> IsDeleted A (node_at C buf p)) [Suc pos..<Suc pos + n]"
  show ?case
  proof (cases "IsDeleted A ?d")
    case True
    then have L: "L = L'" using Suc.prems(3) unfolding up L'_def by simp
    define g where "g = (if fn_deleted f then f
      else f\<lparr>fn_dest := buf, fn_uiSectorNo := cur, fn_bSectorPos := of_nat pos, fn_deleted := True\<rparr>)"
    have step: "Scan_loop A C name dirSize buf cur (Suc n) pos f = Scan_loop A C name dirSize buf cur n (Suc pos) g"
      using True by (simp add: g_def Let_def)
    have g: "unat (fn_count g) + r = unat dirSize" "fn_count g = fn_count f" using Suc.prems(1) by (simp_all add: g_def)
    show ?thesis
      using Suc.IH [OF g(1) Suc.prems(2) L'_def] unfolding step L g(2) add_Suc_right add_Suc .
  next
    case live: False
    then have L: "L = pos # L'" using Suc.prems(3) unfolding up L'_def by simp
    have tk: "take r L = pos # take (r - 1) L'" using Suc.prems(2) L by (cases r) simp_all
    show ?thesis
    proof (cases "name = nd_name ?d")
      case True
      then show ?thesis using live by (simp add: tk Let_def)
    next
      case False
      let ?f = "f\<lparr>fn_count := fn_count f + 1\<rparr>"
      have c: "unat (fn_count f + 1) = unat (fn_count f) + 1"
        using unat_add_no_wrap [of "fn_count f" 1] Suc.prems(1,2) u32_unat_bound [of dirSize] by simp
      show ?thesis
      proof (cases "r = 1")
        case True
        then have "dirSize \<le> fn_count f + 1" using c Suc.prems(1) by (simp add: word_le_nat_alt)
        then show ?thesis using False live True by (simp add: tk L Let_def)
      next
        case more: False
        obtain r' where r: "r = Suc r'" "0 < r'" using more Suc.prems(2) by (cases r) auto
        define g where "g = f\<lparr>fn_count := fn_count f + 1\<rparr>"
        have "\<not> dirSize \<le> fn_count f + 1" using c Suc.prems(1) r by (simp add: word_le_nat_alt)
        then have step: "Scan_loop A C name dirSize buf cur (Suc n) pos f = Scan_loop A C name dirSize buf cur n (Suc pos) g"
          using False live by (simp add: g_def Let_def)
        have g: "unat (fn_count g) + r' = unat dirSize" "unat (fn_count f) + length L = unat (fn_count g) + length L'"
          using c Suc.prems(1) r by (simp_all add: g_def L)
        have fnd: "List.find (\<lambda>p. nd_name (node_at C buf p) = name) (take r L) =
            List.find (\<lambda>p. nd_name (node_at C buf p) = name) (take r' L')"
          using False by (simp add: L r)
        have len: "r \<le> length L \<longleftrightarrow> r' \<le> length L'" by (simp add: L r)
        show ?thesis
          using Suc.IH [OF g(1) r(2) L'_def] unfolding step fnd len g(2) add_Suc_right add_Suc .
      qed
    qed
  qed
qed simp


section \<open>Reading sectors of the data area\<close>

lemma real_sector:
  assumes "layout cap (fs_boot st)" "i \<in> sectors_of st"
  shows "unat (GetRealSectorNumber (fs_boot st) i) = data_start (fs_boot st) + unat i"
    "unat (GetRealSectorNumber (fs_boot st) i) < cap"
proof -
  let ?b = "fs_boot st"
  have u: "unat (ucast (BPB_RsvdSecCnt ?b) :: u32) = unat (BPB_RsvdSecCnt ?b)" by (rule unat_ucast_u16)
  have i: "unat i < 128 * unat (BPB_FSTableSize ?b)" using assms(2) by (simp add: sectors_of_def)
  have bound: "unat i + 1 + unat (BPB_RsvdSecCnt ?b) + unat (BPB_FSTableSize ?b) < cap" "cap < 4294967296"
    using assms(1) i unfolding layout_def by linarith+
  then show r: "unat (GetRealSectorNumber ?b i) = data_start ?b + unat i"
    unfolding GetRealSectorNumber_def data_start_def by (simp add: unat_add_no_wrap u)
  show "unat (GetRealSectorNumber ?b i) < cap" using r bound(1) by (simp add: data_start_def)
qed

lemma same_fs_data:
  assumes "same_fs cont st t" "layout cap (fs_boot st)" "i \<in> sectors_of st"
  shows "data_at cont t i = data_at cont st i"
  using assms real_sector(1) [OF assms(2,3)] by (simp add: data_at_def same_defs)

lemma fs_inv_layout: "fs_inv ok cont cap st \<Longrightarrow> layout cap (fs_boot st)"
  by (simp add: fs_inv_def)

text \<open>A state that differs from \<open>st\<close> only in what is cached.\<close>

definition alike :: "('d \<Rightarrow> bool) \<Rightarrow> ('d \<Rightarrow> u32 \<Rightarrow> sector) \<Rightarrow> nat \<Rightarrow> 'd fsys \<Rightarrow> 'd fsys \<Rightarrow> bool" where
  "alike ok cont cap st t \<longleftrightarrow> fs_inv ok cont cap t \<and> same_fs cont st t \<and>
     (counts_ok (fs_tableCache st) \<longrightarrow> counts_ok (fs_tableCache t))"

context block_device
begin

lemma alike_refl: "fs_inv ok contents capacity st \<Longrightarrow> alike ok contents capacity st st"
  by (simp add: alike_def)

lemma alike_trans: "alike ok contents capacity s t \<Longrightarrow> alike ok contents capacity t u \<Longrightarrow> alike ok contents capacity s u"
  using same_fs_trans by (auto simp: alike_def)

lemma alike_inv: "alike ok contents capacity st t \<Longrightarrow> fs_inv ok contents capacity t"
  by (simp add: alike_def)

lemma alike_view:
  assumes "fs_inv ok contents capacity st" "alike ok contents capacity st t"
  shows "sectors_of t = sectors_of st" "i \<in> sectors_of st \<Longrightarrow> links contents t i = links contents st i"
    "i \<in> sectors_of st \<Longrightarrow> data_at contents t i = data_at contents st i" "fs_boot t = fs_boot st"
    "fs_freePool t = fs_freePool st" "fs_pwd t = fs_pwd st"
proof -
  have lay: "layout capacity (fs_boot st)" and sf: "same_fs contents st t"
    using assms by (simp_all add: fs_inv_layout alike_def)
  show "sectors_of t = sectors_of st" using sf by (rule same_fs_sectors)
  show "i \<in> sectors_of st \<Longrightarrow> links contents t i = links contents st i" using same_fs_links [OF sf lay] .
  show "i \<in> sectors_of st \<Longrightarrow> data_at contents t i = data_at contents st i" using same_fs_data [OF sf lay] .
  show "fs_boot t = fs_boot st" "fs_freePool t = fs_freePool st" "fs_pwd t = fs_pwd st"
    using sf by (simp_all add: same_defs)
qed

lemma file_chain_alike:
  assumes "fs_inv ok contents capacity st" "alike ok contents capacity st t"
  shows "file_chain contents t s xs = file_chain contents st s xs"
proof -
  have "chain (links contents t) s xs = chain (links contents st) s xs" if "set xs \<subseteq> sectors_of st"
    using that alike_view(2) [OF assms] by (intro chain_cong) auto
  then show ?thesis using alike_view(1) [OF assms] by (auto simp: file_chain_def)
qed

lemma lookup_alike:
  assumes "fs_inv ok contents capacity st" "alike ok contents capacity st t" "set xs \<subseteq> sectors_of st"
  shows "lookup A (entry_node C contents t) name n xs = lookup A (entry_node C contents st) name n xs"
  using assms(3) alike_view(3) [OF assms(1,2)] by (intro lookup_cong) (auto simp: entry_node_def)

lemma get_alike:
  assumes "fs_inv ok contents capacity st" "i \<in> sectors_of st"
  shows "wp False (GetSectorEntryValue io i) (\<lambda>v t. v = links contents st i \<and> alike ok contents capacity st t) (\<lambda>_ _. True) st"
  by (rule wp_mono [OF get_links [OF assms]]) (simp_all add: alike_def)

lemma read_alike:
  assumes inv: "fs_inv ok contents capacity st" and i: "i \<in> sectors_of st"
  shows "wp False (xRead1 io i) (\<lambda>b t. b = data_at contents st i \<and> alike ok contents capacity st t) (\<lambda>_ _. True) st"
proof -
  have "ok (fs_dev st)" using inv by (simp add: fs_inv_def)
  then show ?thesis
    unfolding xRead1_def xRead_def wp_rules
    by (rule wp_dev_read1)
      (use inv_drive_same [OF inv] real_sector(2) [OF fs_inv_layout [OF inv] i] in \<open>auto simp: data_at_def alike_def\<close>)
qed

text \<open>The operation \<open>m\<close> only reads: it ends alike with a result for which \<open>Q\<close> holds, or throws.\<close>

lemma alike_seq:
  assumes "wp u m (\<lambda>x t. R x \<and> alike ok contents capacity st t) (\<lambda>_ _. True) st"
    "\<And>x t. R x \<Longrightarrow> alike ok contents capacity st t \<Longrightarrow> wp u (k x) (\<lambda>y t'. Q y \<and> alike ok contents capacity t t') (\<lambda>_ _. True) t"
  shows "wp u (and_then m k) (\<lambda>y t. Q y \<and> alike ok contents capacity st t) (\<lambda>_ _. True) st"
  unfolding wp_and_then
proof (rule wp_mono [OF assms(1)], goal_cases)
  case (1 x t)
  then show ?case by (intro wp_mono [OF assms(2)]) (auto intro: alike_trans)
qed simp_all

lemma find_in_directory:
  assumes inv: "fs_inv ok contents capacity st" and ch: "file_chain contents st s xs" and fuel: "length xs < fuel"
    and n: "unat (fn_count f) + r = unat dirSize" "0 < r"
  shows "wp False (Find_loop io A C name dirSize fuel s f)
    (\<lambda>res t. found_at contents st (lookup A (entry_node C contents st) name r xs)
        (fst res) (fn_uiSectorNo (snd res)) (fn_bSectorPos (snd res)) (fn_dest (snd res)) \<and>
       alike ok contents capacity st t) (\<lambda>_ _. True) st"
  using assms
proof (induction fuel arbitrary: st s xs f r)
  case (Suc fuel)
  show ?case
  proof (cases xs)
    case Nil
    then have "s = EOC" using Suc.prems(2) by (simp add: file_chain_def)
    then show ?thesis using Nil Suc.prems(1) by (simp add: wp_rules lookup_def live_entries_def alike_refl found_at_def)
  next
    case (Cons x ys)
    have x: "s = x" "x \<noteq> EOC" "x \<in> sectors_of st" and ys: "file_chain contents st (links contents st x) ys"
      using Suc.prems(2) Cons by (auto simp: file_chain_def)
    let ?N = "entry_node C contents st" and ?b = "data_at contents st x"
    define L where "L = filter (\<lambda>p. \<not> IsDeleted A (node_at C ?b p)) [0..<DIR_ENTRIES_PER_SECTOR]"
    then have L0: "L = filter (\<lambda>p. \<not> IsDeleted A (node_at C ?b p)) [0..<0 + DIR_ENTRIES_PER_SECTOR]" by simp
    have lk: "lookup A ?N name r xs = (case List.find (\<lambda>p. nd_name (node_at C ?b p) = name) (take r L) of
        Some p \<Rightarrow> Some (x, p) | None \<Rightarrow> lookup A ?N name (r - length L) ys)"
      unfolding L_def by (simp add: Cons lookup_Cons entry_node_def Let_def)
    note sc = Scan_spec [OF Suc.prems(4,5) L0, of name x]
    show ?thesis
      unfolding Find_loop.simps if_not_P [OF x(2) [folded x(1)]]
    proof (rule alike_seq [where R = "\<lambda>b. b = ?b"], goal_cases)
      case 1
      then show ?case using read_alike [OF Suc.prems(1) x(3)] x(1) by simp
    next
      case (2 b t)
      have it: "fs_inv ok contents capacity t" by (rule alike_inv [OF 2(2)])
      note av = alike_view [OF Suc.prems(1) 2(2)]
      show ?case
      proof (cases "List.find (\<lambda>p. nd_name (node_at C ?b p) = name) (take r L)")
        case (Some p)
        with sc obtain f' where "Scan_loop A C name dirSize ?b x DIR_ENTRIES_PER_SECTOR 0 f = (None, f')"
          "fn_dest f' = ?b" "fn_uiSectorNo f' = x" "fn_bSectorPos f' = of_nat p" by auto
        then show ?thesis using Some lk it 2(1) x(1) by (simp add: wp_rules alike_refl found_at_def)
      next
        case None
        with sc obtain q f' where sl: "Scan_loop A C name dirSize ?b x DIR_ENTRIES_PER_SECTOR 0 f = (Some q, f')"
          and st: "if r \<le> length L then dirSize \<le> fn_count f' \<and> q < 0 + 7 else unat (fn_count f') = unat (fn_count f) + length L"
          by auto
        have ga: "wp False (GetSectorEntryValue io x) (\<lambda>v t'. v = links contents st x \<and> alike ok contents capacity t t') (\<lambda>_ _. True) t"
          using get_alike [OF it, of x] av(1,2) x(3) by simp
        show ?thesis
        proof (cases "r \<le> length L")
          case True
          then have "dirSize \<le> fn_count f'" "q < 7" using st by auto
          moreover have "lookup A ?N name r xs = None" using None True lk by (simp add: lookup_def)
          ultimately show ?thesis
            using sl 2(1) x(1)
            by (simp add: wp_rules) (rule wp_mono [OF ga], auto simp: wp_rules found_at_def)
        next
          case False
          then have c: "unat (fn_count f') = unat (fn_count f) + length L" "\<not> dirSize \<le> fn_count f'"
            using st Suc.prems(4) by (auto simp: word_le_nat_alt)
          have n': "unat (fn_count f') + (r - length L) = unat dirSize" "0 < r - length L" using c Suc.prems(4) False by auto
          have ys': "file_chain contents t (links contents st x) ys" using ys file_chain_alike [OF Suc.prems(1) 2(2)] by simp
          have lk': "lookup A ?N name r xs = lookup A ?N name (r - length L) ys" using None lk by simp
          show ?thesis
            unfolding 2(1) sl x(1) prod.case option.case
          proof (rule alike_seq [OF ga], goal_cases)
            case (1 v t')
            have at: "alike ok contents capacity st t'" using 2(2) 1(2) by (rule alike_trans)
            have sub: "set ys \<subseteq> sectors_of st" using ys by (simp add: file_chain_def)
            have ys': "file_chain contents t' (links contents st x) ys" using ys file_chain_alike [OF Suc.prems(1) at] by simp
            have dat: "lookup A ?N name r xs = Some (y, p) \<Longrightarrow> data_at contents t' y = data_at contents st y" for y p
              using lookup_Some(1) [of A ?N name "r - length L" ys y p] lk' sub alike_view(3) [OF Suc.prems(1) at] by auto
            have fu: "length ys < fuel" using Suc.prems(3) Cons by simp
            show ?case
              unfolding if_not_P [OF c(2)] 1(1)
              by (rule wp_mono [OF Suc.IH [OF alike_inv [OF 1(2)] ys' fu n']])
                (auto simp: lookup_alike [OF Suc.prems(1) at sub] lk' [symmetric] found_at_def dat split: option.splits)
          qed
        qed
      qed
    qed
  qed
qed simp

lemma find_directory_ok:
  assumes inv: "fs_inv ok contents capacity st" and d: "IsDirectory A (cw_DirEntry cwd)" "name \<noteq> ''.''" "name \<noteq> ''..''"
    and ch: "file_chain contents st (nd_startSectorID (cw_DirEntry cwd)) xs" "length xs < fuel"
    and n: "0 < nd_size (cw_DirEntry cwd)"
  shows "wp False (Directory_FindDirectory io A C fuel cwd name dest)
    (\<lambda>res t. found_at contents st (lookup A (entry_node C contents st) name (unat (nd_size (cw_DirEntry cwd))) xs)
        (fst res) (fst (snd res)) (fst (snd (snd res))) (snd (snd (snd res))) \<and> alike ok contents capacity st t)
    (\<lambda>_ _. True) st"
proof -
  let ?f = "\<lparr>fn_uiSectorNo = EOC, fn_bSectorPos = EOC_B, fn_dest = dest, fn_deleted = False, fn_count = 0\<rparr>"
  have "unat (fn_count ?f) + unat (nd_size (cw_DirEntry cwd)) = unat (nd_size (cw_DirEntry cwd))"
    "0 < unat (nd_size (cw_DirEntry cwd))" using n by (simp_all add: word_less_nat_alt)
  from find_in_directory [OF inv ch this, of A C name]
  show ?thesis
    using d unfolding Directory_FindDirectory_def Let_def
    by (simp add: wp_rules) (erule wp_mono; auto simp: wp_rules)
qed

end

section \<open>Paths\<close>

text \<open>The components of a path, each found in the directory before, lead to the entry \<open>r\<close>.\<close>

fun resolves ::
  "node_consts \<Rightarrow> node_codec \<Rightarrow> ('d \<Rightarrow> u32 \<Rightarrow> sector) \<Rightarrow> 'd fsys \<Rightarrow> nat \<Rightarrow> string list \<Rightarrow> cwd \<Rightarrow> u32 \<times> nat \<Rightarrow> bool" where
  "resolves A C cont st fuel [] cwd r \<longleftrightarrow> cw_uiSectorNo cwd = fst r \<and> cw_bSectorEntryPosition cwd = of_nat (snd r)"
| "resolves A C cont st fuel (t # ts) cwd r \<longleftrightarrow> IsDirectory A (cw_DirEntry cwd) \<and> t \<noteq> ''.'' \<and> t \<noteq> ''..'' \<and>
     0 < nd_size (cw_DirEntry cwd) \<and>
     (\<exists>xs x p. file_chain cont st (nd_startSectorID (cw_DirEntry cwd)) xs \<and> length xs < fuel \<and>
        lookup A (entry_node C cont st) t (unat (nd_size (cw_DirEntry cwd))) xs = Some (x, p) \<and>
        resolves A C cont st fuel ts
          \<lparr>cw_DirEntry = entry_node C cont st (x, p), cw_uiSectorNo = x, cw_bSectorEntryPosition = of_nat p\<rparr> r)"

definition path_resolves ::
  "node_consts \<Rightarrow> node_codec \<Rightarrow> ('d \<Rightarrow> u32 \<Rightarrow> sector) \<Rightarrow> 'd fsys \<Rightarrow> nat \<Rightarrow> string \<Rightarrow> cwd \<Rightarrow> u32 \<times> nat \<Rightarrow> bool" where
  "path_resolves A C cont st fuel path cwd r \<longleftrightarrow> path \<noteq> [] \<and> path \<noteq> ''/'' \<and> 7 * nc_size C \<le> 512 \<and> snd r < DIR_ENTRIES_PER_SECTOR \<and>
     (\<exists>ts. String_Tokenize path (CHR ''/'') = Some ts \<and> ts \<noteq> [] \<and>
        resolves A C cont st fuel ts (if hd path = CHR ''/'' then cwd_of (fs_pwd st) else cwd) r)"

lemma node_ref_ok:
  assumes "7 * nc_size C \<le> 512" "p < 7"
  shows "wp u (node_ref C buf (of_nat p)) Q X st = Q (node_at C buf p) st"
proof -
  have p: "unat (of_nat p :: u8) = p" using assms(2) by (simp add: unat_of_nat)
  have "Suc p * nc_size C \<le> 7 * nc_size C" using assms(2) by (intro mult_right_mono) simp_all
  from this assms(1) have "Suc p * nc_size C \<le> 512" by (rule le_trans)
  then show ?thesis using p by (simp add: node_ref_def wp_rules)
qed

context block_device
begin

lemma resolve_ok:
  assumes "fs_inv ok contents capacity st" "resolves A C contents st0 fuel ts cwd r" "7 * nc_size C \<le> 512"
    "fs_inv ok contents capacity st0" "alike ok contents capacity st0 st"
    "ts = [] \<Longrightarrow> fst res = fst r \<and> fst (snd res) = of_nat (snd r) \<and> snd (snd res) = data_at contents st0 (fst r)"
  shows "wp False (Resolve_loop io A C fuel err ts cwd res)
    (\<lambda>res t. (fst res = fst r \<and> fst (snd res) = of_nat (snd r) \<and> snd (snd res) = data_at contents st0 (fst r)) \<and>
       alike ok contents capacity st t) (\<lambda>_ _. True) st"
  using assms
proof (induction ts arbitrary: st cwd res)
  case Nil
  then show ?case by (simp add: wp_rules alike_refl)
next
  case (Cons tk ts)
  obtain xs x p where d: "IsDirectory A (cw_DirEntry cwd)" "tk \<noteq> ''.''" "tk \<noteq> ''..''" "0 < nd_size (cw_DirEntry cwd)"
    and ch: "file_chain contents st0 (nd_startSectorID (cw_DirEntry cwd)) xs" "length xs < fuel"
    and lk: "lookup A (entry_node C contents st0) tk (unat (nd_size (cw_DirEntry cwd))) xs = Some (x, p)"
    and rest: "resolves A C contents st0 fuel ts
      \<lparr>cw_DirEntry = entry_node C contents st0 (x, p), cw_uiSectorNo = x, cw_bSectorEntryPosition = of_nat p\<rparr> r"
    using Cons.prems(2) by auto
  note av = alike_view [OF Cons.prems(4,5)]
  have sub: "set xs \<subseteq> sectors_of st0" using ch by (simp add: file_chain_def)
  note xp = lookup_Some [OF lk]
  have x: "x \<in> sectors_of st0" using xp(1) sub by auto
  have ch': "file_chain contents st (nd_startSectorID (cw_DirEntry cwd)) xs"
    using ch file_chain_alike [OF Cons.prems(4,5)] by simp
  have lk': "lookup A (entry_node C contents st) tk (unat (nd_size (cw_DirEntry cwd))) xs = Some (x, p)"
    using lk lookup_alike [OF Cons.prems(4,5) sub] by simp
  note fd = find_directory_ok [OF Cons.prems(1) d(1-3) ch' ch(2) d(4), of C "snd (snd res)", unfolded lk']
  show ?case
    unfolding Resolve_loop.simps
  proof (rule alike_seq [OF fd], goal_cases)
    case (1 res' t)
    obtain found sec pos buf where rs: "res' = (found, sec, pos, buf)" by (cases res') auto
    have f: "found" "sec = x" "pos = of_nat p" "buf = data_at contents st x"
      using 1(1) by (simp_all add: rs found_at_def)
    have at: "alike ok contents capacity st0 t" using Cons.prems(5) 1(2) by (rule alike_trans)
    have "node_at C buf p = entry_node C contents st0 (x, p)" "buf = data_at contents st0 x"
      using f(4) av(3) [OF x] by (simp_all add: entry_node_def)
    moreover have "fst r = x \<and> (of_nat (snd r) :: u8) = of_nat p" if "ts = []"
      using rest that by simp
    ultimately show ?case
      using Cons.IH [OF alike_inv [OF 1(2)] rest Cons.prems(3,4) at, of "(sec, pos, buf)"] f(1-3)
      by (simp add: rs wp_rules node_ref_ok [OF Cons.prems(3) xp(2)])
  qed
qed

lemma read_entry_info_ok:
  assumes inv: "fs_inv ok contents capacity st" and p: "path_resolves A C contents st fuel path cwd r"
  shows "wp False (Directory_ReadDirEntryInfo io A C fuel cwd path)
    (\<lambda>res t. (fst res = fst r \<and> fst (snd res) = of_nat (snd r) \<and> snd (snd res) = data_at contents st (fst r)) \<and>
       alike ok contents capacity st t) (\<lambda>_ _. True) st"
proof -
  obtain ts where ts: "path \<noteq> []" "path \<noteq> ''/''" "String_Tokenize path (CHR ''/'') = Some ts" "ts \<noteq> []"
    "resolves A C contents st fuel ts (if hd path = CHR ''/'' then cwd_of (fs_pwd st) else cwd) r" "7 * nc_size C \<le> 512"
    using p by (auto simp: path_resolves_def)
  note rs = resolve_ok [OF inv ts(5,6) inv alike_refl [OF inv], of "(0, 0, zeros)" "\<lambda>_. FileNotFound path"]
  obtain tk tl where "ts = tk # tl" using ts(4) by (cases ts) auto
  then show ?thesis
    unfolding Directory_ReadDirEntryInfo_def Let_def using ts(1-3) rs by (simp add: wp_rules)
qed

end

end
