(* ===== verification/FileIO.thy ===== *)
theory FileIO
  imports Directory
begin

text \<open>
  Reading and writing the data of a file: \<open>Directory_FileRead\<close>, \<open>Directory_FileWrite\<close> and what they
  call in \<open>filesystem/Directory.cpp\<close>. The state is the file system and the file descriptor, whose
  offset and last sector used are read and written. The data of the caller are a list of bytes; a
  read gives the bytes it stores. \<open>junk\<close> is the uninitialised sector buffer of a write.
\<close>

section \<open>The code\<close>

record 'd file_state =
  fi_fs :: "'d fsys"
  fi_fd :: file_descriptor

type_synonym ('d, 'a) file_eff = "('d file_state, dir_error, 'a) eff"

definition dir_op :: "('d, 'a) dir_eff \<Rightarrow> ('d, 'a) file_eff" where
  "dir_op = zoom fi_fs (\<lambda>t s. s\<lparr>fi_fs := t\<rparr>)"

abbreviation disk_op :: "('d, 'a) fs_eff \<Rightarrow> ('d, 'a) file_eff" where
  "disk_op m \<equiv> dir_op (fs_op m)"

definition Directory_SetLastReadSectorDetails :: "int \<Rightarrow> u32 \<Rightarrow> ('d, unit) file_eff" where
  "Directory_SetLastReadSectorDetails sectorIndex sectorID =
     modify (\<lambda>s. s\<lparr>fi_fd := (fi_fd s)\<lparr>fd_lastReadSectorIndex := sectorIndex, fd_lastReadSectorNo := sectorID\<rparr>\<rparr>)"

definition Directory_GetLastReadSectorDetails :: "('d, int \<times> u32) file_eff" where
  "Directory_GetLastReadSectorDetails = gets (\<lambda>s. (fd_lastReadSectorIndex (fi_fd s), fd_lastReadSectorNo (fi_fd s)))"

subsection \<open>The buffer of consecutive sectors\<close>

text \<open>\<open>wb_data\<close> holds the \<open>iCount\<close> sectors of \<open>bBuffer\<close>.\<close>

record write_buffer =
  wb_data :: "sector list"
  wb_start :: u32
  wb_prev :: u32

definition Directory_BufferedWrite ::
  "'d block_io \<Rightarrow> u32 \<Rightarrow> sector \<Rightarrow> bool \<Rightarrow> write_buffer \<Rightarrow> ('d, write_buffer) fs_eff" where
  "Directory_BufferedWrite io uiSectorID bSectorBuffer bFlush b =
     (if bFlush then
        then_do (only_if (wb_data b \<noteq> []) (xWrite io (wb_data b) (wb_start b) (of_nat (length (wb_data b)))))
          (yield (b\<lparr>wb_data := []\<rparr>))
      else
        let fresh = \<lparr>wb_data = [bSectorBuffer], wb_start = uiSectorID, wb_prev = uiSectorID\<rparr>;
            (b, bNewBuffering) =
              (if wb_data b = [] then (fresh, False)
               else if wb_prev b + 1 = uiSectorID then
                 (b\<lparr>wb_prev := uiSectorID, wb_data := wb_data b @ [bSectorBuffer]\<rparr>, False)
               else (b, True))
        in if length (wb_data b) = MAX_SECTORS_PER_RW \<or> bNewBuffering then
             then_do (xWrite io (wb_data b) (wb_start b) (of_nat (length (wb_data b))))
               (yield (if bNewBuffering then fresh else b\<lparr>wb_data := []\<rparr>))
           else yield b)"

subsection \<open>Writing\<close>

text \<open>\<open>while(iSectorIndex < iStartWriteSectorNo && uiCurrentSectorID != EOC)\<close>, \<open>n\<close> being the
  difference of the indices: index, current and previous sector.\<close>

fun WriteSeek_loop :: "'d block_io \<Rightarrow> nat \<Rightarrow> int \<Rightarrow> u32 \<Rightarrow> u32 \<Rightarrow> ('d, int \<times> u32 \<times> u32) fs_eff" where
  "WriteSeek_loop io 0 iSectorIndex uiCurrent uiPrev = yield (iSectorIndex, uiCurrent, uiPrev)"
| "WriteSeek_loop io (Suc n) iSectorIndex uiCurrent uiPrev =
     (if uiCurrent = EOC then yield (iSectorIndex, uiCurrent, uiPrev)
      else and_then (GetSectorEntryValue io uiCurrent) (\<lambda>uiNext.
             WriteSeek_loop io n (iSectorIndex + 1) uiNext uiCurrent))"

text \<open>The sectors that are missing up to the first one to write, filled with zeros: the \<open>do\<close> loop
  with \<open>n\<close> rounds. It gives the last sector and the node of the file.\<close>

fun Extend_loop :: "'d block_io \<Rightarrow> nat \<Rightarrow> int \<Rightarrow> u32 \<Rightarrow> fs_node \<Rightarrow> ('d, u32 \<times> fs_node) file_eff" where
  "Extend_loop io 0 iSectorIndex uiPrev dirFile = yield (uiPrev, dirFile)"
| "Extend_loop io (Suc n) iSectorIndex uiPrev dirFile =
     and_then (disk_op (AllocateSector io)) (\<lambda>uiCurrent.
     and_then (if nd_startSectorID dirFile = EOC then yield (dirFile\<lparr>nd_startSectorID := uiCurrent\<rparr>)
               else then_do (disk_op (SetSectorEntryValue io uiPrev uiCurrent)) (yield dirFile)) (\<lambda>dirFile.
     then_do (disk_op (xWrite io [zeros] uiCurrent 1))
       (then_do (Directory_SetLastReadSectorDetails iSectorIndex uiCurrent)
          (Extend_loop io n (iSectorIndex + 1) uiCurrent dirFile))))"

text \<open>The main loop; \<open>data\<close> are the \<open>uiWriteRemainingCount\<close> bytes not yet written, \<open>inside\<close> is
  \<open>uiOffset + uiDataSize < uiCurrentFileSize\<close>.\<close>

function Write_loop ::
  "'d block_io \<Rightarrow> bool \<Rightarrow> u32 \<Rightarrow> u32 \<Rightarrow> bool \<Rightarrow> sector \<Rightarrow> write_buffer \<Rightarrow> u8 list \<Rightarrow> ('d, unit) fs_eff" where
  "Write_loop io inside uiPrev uiCurrent bStartAllocation bSectorBuffer b data =
     and_then
       (if uiCurrent = EOC \<or> bStartAllocation then
          and_then (AllocateSector io) (\<lambda>s. then_do (SetSectorEntryValue io uiPrev s) (yield (s, True)))
        else yield (uiCurrent, bStartAllocation)) (\<lambda>(uiCurrent, bStartAllocation).
     if length data < 512 then
       and_then (if \<not> bStartAllocation \<and> inside then xRead1 io uiCurrent else yield bSectorBuffer) (\<lambda>bSectorBuffer.
       and_then (Directory_BufferedWrite io uiCurrent (data @ drop (length data) bSectorBuffer) False b) (\<lambda>b.
       then_do (Directory_BufferedWrite io EOC [] True b) (yield ())))
     else
       and_then (Directory_BufferedWrite io uiCurrent (take 512 data) False b) (\<lambda>b.
       if drop 512 data = [] then then_do (Directory_BufferedWrite io EOC [] True b) (yield ())
       else
         and_then (GetSectorEntryValue io uiCurrent) (\<lambda>uiNext.
           Write_loop io inside uiCurrent uiNext bStartAllocation bSectorBuffer b (drop 512 data))))"
  by pat_completeness auto
termination
  by (relation "measure (\<lambda>(io, inside, uiPrev, uiCurrent, sa, buf, b, data). length data)") auto

declare Write_loop.simps [simp del]

text \<open>\<open>data\<close> are the \<open>uiDataSize\<close> bytes to write; the node comes back with its start sector.\<close>

definition Directory_ActualFileWrite ::
  "'d block_io \<Rightarrow> sector \<Rightarrow> u8 list \<Rightarrow> fs_node \<Rightarrow> ('d, fs_node) file_eff" where
  "Directory_ActualFileWrite io junk data dirFile =
     and_then (gets (\<lambda>s. fd_offset (fi_fd s))) (\<lambda>uiOffset.
     let uiDataSize = of_nat (length data);
         iStartWriteSectorNo = int (unat (uiOffset div 512));
         iStartWriteSectorPos = unat (uiOffset mod 512);
         uiCurrentFileSize = nd_size dirFile
     in
       and_then Directory_GetLastReadSectorDetails (\<lambda>(iSectorIndex, uiCurrent).
       let (iSectorIndex, uiCurrent) =
             (if iSectorIndex < 0 \<or> iSectorIndex > iStartWriteSectorNo then (0, nd_startSectorID dirFile)
              else (iSectorIndex, uiCurrent))
       in
         and_then (disk_op (WriteSeek_loop io (nat (iStartWriteSectorNo - iSectorIndex)) iSectorIndex uiCurrent EOC))
           (\<lambda>(iSectorIndex, uiCurrent, uiPrev).
         and_then
           (if uiCurrent = EOC then
              and_then (Extend_loop io (nat (iStartWriteSectorNo - iSectorIndex) + 1) iSectorIndex uiPrev dirFile)
                (\<lambda>(s, dirFile). yield (s, s, zeros, dirFile))
            else then_do (Directory_SetLastReadSectorDetails iSectorIndex uiCurrent) (yield (uiCurrent, uiPrev, junk, dirFile)))
           (\<lambda>(uiCurrent, uiPrev, bSectorBuffer, dirFile).
         let inside = uiOffset + uiDataSize < uiCurrentFileSize;
             b = \<lparr>wb_data = [], wb_start = 0, wb_prev = 0\<rparr>
         in
           if iStartWriteSectorPos \<noteq> 0 then
             and_then (disk_op (xRead1 io uiCurrent)) (\<lambda>bSectorBuffer.
             let uiWrittenCount = min (512 - iStartWriteSectorPos) (length data);
                 bSectorBuffer = take iStartWriteSectorPos bSectorBuffer @ take uiWrittenCount data @
                   drop (iStartWriteSectorPos + uiWrittenCount) bSectorBuffer
             in
               then_do (disk_op (xWrite io [bSectorBuffer] uiCurrent 1))
                 (if uiWrittenCount = length data then yield dirFile
                  else
                    and_then (disk_op (GetSectorEntryValue io uiCurrent)) (\<lambda>uiNext.
                    then_do (disk_op (Write_loop io inside uiCurrent uiNext False bSectorBuffer b (drop uiWrittenCount data)))
                      (yield dirFile))))
           else
             then_do (disk_op (Write_loop io inside uiPrev uiCurrent False bSectorBuffer b data)) (yield dirFile)))))"

definition Directory_FileWrite ::
  "'d block_io \<Rightarrow> node_consts \<Rightarrow> node_codec \<Rightarrow> nat \<Rightarrow> sector \<Rightarrow> cwd \<Rightarrow> u8 list \<Rightarrow> ('d, unit) file_eff" where
  "Directory_FileWrite io A C fuel junk cwd data =
     (if data = [] then throw ZeroByteWrite
      else
        and_then (gets fi_fd) (\<lambda>fd.
        and_then (dir_op (Directory_ReadDirEntryInfo io A C fuel cwd (fd_fileName fd))) (\<lambda>(uiSectorNo, bSectorPos, buf).
        and_then (node_ref C buf bSectorPos) (\<lambda>dirFile.
        if IsDirectory A dirFile then throw (IsADirectory (fd_fileName fd))
        else
          and_then (Directory_ActualFileWrite io junk data dirFile) (\<lambda>dirFile.
          let end_pos = fd_offset fd + of_nat (length data)
          in only_if (nd_size dirFile < end_pos)
               (disk_op (xWrite io [put_node C (unat bSectorPos) (dirFile\<lparr>nd_size := end_pos\<rparr>) buf] uiSectorNo 1)))))))"

subsection \<open>Reading\<close>

text \<open>\<open>while(iSectorIndex != iStartReadSectorNo)\<close>\<close>

fun ReadSeek_loop :: "'d block_io \<Rightarrow> nat \<Rightarrow> u32 \<Rightarrow> ('d, u32) fs_eff" where
  "ReadSeek_loop io 0 uiCurrent = yield uiCurrent"
| "ReadSeek_loop io (Suc n) uiCurrent =
     and_then (GetSectorEntryValue io uiCurrent) (\<lambda>uiNext. ReadSeek_loop io n uiNext)"

text \<open>The inner loop collects consecutive sectors: the number of sectors and of bytes to take, and the
  sector after them. Eight rounds are enough: the number of sectors grows in each.\<close>

fun Batch_loop :: "'d block_io \<Rightarrow> nat \<Rightarrow> int \<Rightarrow> int \<Rightarrow> u32 \<Rightarrow> int \<Rightarrow> ('d, int \<times> int \<times> u32) fs_eff" where
  "Batch_loop io 0 iStartPos iRemaining uiCurrent iSectorCount = undef"
| "Batch_loop io (Suc n) iStartPos iRemaining uiCurrent iSectorCount =
     and_then (GetSectorEntryValue io uiCurrent) (\<lambda>uiNext.
     if uiCurrent + 1 = uiNext then
       let iSectorCount = iSectorCount + 1; iCurrentReadSize = iSectorCount * 512 - iStartPos
       in if iRemaining \<le> iCurrentReadSize then
            yield (if iStartPos + iRemaining \<le> 512 then iSectorCount - 1 else iSectorCount, iRemaining, uiNext)
          else if iSectorCount = int MAX_SECTORS_PER_RW then
            and_then (GetSectorEntryValue io uiNext) (\<lambda>uiNext. yield (iSectorCount, iCurrentReadSize, uiNext))
          else Batch_loop io n iStartPos iRemaining uiNext iSectorCount
     else
       let iCurrentReadSize = iSectorCount * 512 - iStartPos
       in yield (iSectorCount, if iRemaining \<le> iCurrentReadSize then iRemaining else iCurrentReadSize, uiNext))"

text \<open>The outer loop, \<open>acc\<close> being the \<open>iReadCount\<close> bytes stored. Each round takes a byte at least.\<close>

fun Read_loop :: "'d block_io \<Rightarrow> nat \<Rightarrow> int \<Rightarrow> int \<Rightarrow> u32 \<Rightarrow> u32 \<Rightarrow> int \<Rightarrow> int \<Rightarrow> u8 list \<Rightarrow> ('d, u8 list) file_eff" where
  "Read_loop io 0 iStartPos iRemaining uiCurrent uiLast iLastIndex iSectorCount acc = undef"
| "Read_loop io (Suc n) iStartPos iRemaining uiCurrent uiLast iLastIndex iSectorCount acc =
     (if uiCurrent = EOC then then_do (Directory_SetLastReadSectorDetails iLastIndex uiLast) (yield acc)
      else
        let iLastIndex = iLastIndex + iSectorCount; uiLast = uiCurrent
        in and_then (disk_op (Batch_loop io MAX_SECTORS_PER_RW iStartPos iRemaining uiCurrent 1))
             (\<lambda>(iSectorCount, iCurrentReadSize, uiCurrent).
           and_then (disk_op (xRead io uiLast (of_int iSectorCount))) (\<lambda>bufs.
           if iCurrentReadSize < 0 then undef
           else
             let acc = acc @ take (nat iCurrentReadSize) (drop (nat iStartPos) (concat bufs));
                 iRemaining = iRemaining - iCurrentReadSize
             in if iRemaining \<le> 0 then then_do (Directory_SetLastReadSectorDetails iLastIndex uiLast) (yield acc)
                else Read_loop io n 0 iRemaining uiCurrent uiLast iLastIndex iSectorCount acc)))"

text \<open>The bytes stored at the start of \<open>bDataBuffer\<close>; their number is the result, except that
  an empty file stores a zero.\<close>

definition Directory_FileRead ::
  "'d block_io \<Rightarrow> node_consts \<Rightarrow> node_codec \<Rightarrow> nat \<Rightarrow> cwd \<Rightarrow> u32 \<Rightarrow> ('d, int \<times> u8 list) file_eff" where
  "Directory_FileRead io A C fuel cwd uiDataSize =
     and_then (gets fi_fd) (\<lambda>fd.
     let uiOffset = fd_offset fd
     in
       and_then (dir_op (Directory_ReadDirEntryInfo io A C fuel cwd (fd_fileName fd))) (\<lambda>(uiSectorNo, bSectorPos, buf).
       and_then (node_ref C buf bSectorPos) (\<lambda>dirFile.
       if IsDirectory A dirFile then throw (IsADirectory (fd_fileName fd))
       else if uiOffset \<ge> nd_size dirFile then yield (0, [])
       else if nd_size dirFile = 0 then yield (0, [0])
       else
         let iStartReadSectorNo = int (unat (uiOffset div 512));
             iStartReadSectorPos = int (unat (uiOffset mod 512));
             uiCurrentFileSize = nd_size dirFile
         in
           and_then Directory_GetLastReadSectorDetails (\<lambda>(iSectorIndex, uiCurrent).
           let (iSectorIndex, uiCurrent) =
                 (if iSectorIndex < 0 \<or> iSectorIndex > iStartReadSectorNo then (0, nd_startSectorID dirFile)
                  else (iSectorIndex, uiCurrent))
           in
             and_then (disk_op (ReadSeek_loop io (nat (iStartReadSectorNo - iSectorIndex)) uiCurrent)) (\<lambda>uiCurrent.
             then_do (Directory_SetLastReadSectorDetails iStartReadSectorNo uiCurrent)
               (let iReadRemainingCount =
                      sint (if uiDataSize < uiCurrentFileSize - uiOffset \<and> 0 < uiDataSize then uiDataSize
                            else uiCurrentFileSize - uiOffset)
                in and_then (Read_loop io (Suc (nat iReadRemainingCount)) iStartReadSectorPos iReadRemainingCount
                       uiCurrent uiCurrent iStartReadSectorNo 0 [])
                     (\<lambda>acc. yield (int (length acc), acc))))))))"

end
