(* ===== verification/FileProofs.thy ===== *)
theory FileProofs
  imports DirProofs FileIO
begin

text \<open>
  Reading a file gives the bytes of its chain of sectors. \<open>u\<close> is true when transfers of several
  sectors may be undefined on the drive below: a run then may be undefined as well, otherwise it
  ends with the stated result or throws.
\<close>

section \<open>The contents of a chain\<close>

definition chain_bytes :: "('d \<Rightarrow> u32 \<Rightarrow> sector) \<Rightarrow> 'd fsys \<Rightarrow> u32 list \<Rightarrow> u8 list" where
  "chain_bytes cont st xs = concat (map (data_at cont st) xs)"

lemma length_chain_bytes:
  "\<forall>x. length (cont (fs_dev st) x) = 512 \<Longrightarrow> length (chain_bytes cont st xs) = 512 * length xs"
  by (induction xs) (simp_all add: chain_bytes_def data_at_def)

lemma chain_bytes_append: "chain_bytes cont st (xs @ ys) = chain_bytes cont st xs @ chain_bytes cont st ys"
  by (simp add: chain_bytes_def)

lemma chain_bytes_drop:
  assumes "\<forall>x. length (cont (fs_dev st) x) = 512" "k \<le> length xs"
  shows "drop (512 * k + p) (chain_bytes cont st xs) = drop p (chain_bytes cont st (drop k xs))"
proof -
  have len: "length (chain_bytes cont st (take k xs)) = 512 * k"
    using length_chain_bytes [of cont st "take k xs", OF assms(1)] assms(2) by simp
  have "drop (512 * k + p) (chain_bytes cont st (take k xs @ drop k xs)) = drop p (chain_bytes cont st (drop k xs))"
    by (simp only: chain_bytes_append drop_append len) (simp add: len)
  then show ?thesis by (simp only: append_take_drop_id)
qed

text \<open>\<open>n\<close> consecutive sectors at the front of a chain.\<close>

definition consecutive :: "u32 list \<Rightarrow> nat \<Rightarrow> bool" where
  "consecutive zs n \<longleftrightarrow> n \<le> length zs \<and> (\<forall>j < n. zs ! j = hd zs + of_nat j)"

text \<open>A batch: \<open>k\<close> consecutive sectors, the bytes taken of them, and what is left of the chain.\<close>

definition batch_result :: "('d \<Rightarrow> u32 \<Rightarrow> sector) \<Rightarrow> 'd fsys \<Rightarrow> u32 list \<Rightarrow> nat \<Rightarrow> int \<Rightarrow> int \<times> int \<times> u32 \<Rightarrow> bool" where
  "batch_result cont st zs pos rem res \<longleftrightarrow> (\<exists>k. fst res = int k \<and> 0 < k \<and> k \<le> MAX_SECTORS_PER_RW \<and> consecutive zs k \<and>
     fst (snd res) = min rem (512 * int k - int pos) \<and>
     (fst (snd res) < rem \<longrightarrow> file_chain cont st (snd (snd res)) (drop k zs)))"

lemma consecutive_Suc:
  assumes "consecutive zs c" "0 < c" "c < length zs" "zs ! c = zs ! (c - 1) + 1"
  shows "consecutive zs (Suc c)"
proof -
  have "zs ! (c - 1) = hd zs + of_nat (c - 1)" using assms(1,2) by (simp add: consecutive_def)
  moreover have "(of_nat c :: u32) = of_nat (c - 1) + 1" using assms(2) by (cases c) simp_all
  ultimately have "zs ! c = hd zs + of_nat c" using assms(4) by (simp add: ac_simps)
  then show ?thesis using assms(1,3) by (auto simp: consecutive_def less_Suc_eq)
qed

context block_device
begin

lemma seek_ok:
  assumes "fs_inv ok contents capacity st" "file_chain contents st s xs" "n < length xs"
  shows "wp False (ReadSeek_loop io n s) (\<lambda>r t. r = xs ! n \<and> alike ok contents capacity st t) (\<lambda>_ _. True) st"
  using assms
proof (induction n arbitrary: st s xs)
  case 0
  then show ?case by (cases xs) (simp_all add: wp_rules alike_refl file_chain_def)
next
  case (Suc n)
  then obtain x ys where xs: "xs = x # ys" by (cases xs) auto
  have x: "s = x" "x \<in> sectors_of st" and ys: "file_chain contents st (links contents st x) ys"
    using Suc.prems(2) xs by (auto simp: file_chain_def)
  show ?case
    unfolding ReadSeek_loop.simps x(1)
  proof (rule alike_seq [OF get_alike [OF Suc.prems(1) x(2)]], goal_cases)
    case (1 v t)
    have "file_chain contents t v ys" using ys file_chain_alike [OF Suc.prems(1) 1(2)] 1(1) by simp
    from Suc.IH [OF alike_inv [OF 1(2)] this] Suc.prems(3) show ?case by (simp add: xs)
  qed
qed

lemma chain_bytes_alike:
  assumes "fs_inv ok contents capacity st" "alike ok contents capacity st t" "set ys \<subseteq> sectors_of st"
  shows "chain_bytes contents t ys = chain_bytes contents st ys"
proof -
  have "map (data_at contents t) ys = map (data_at contents st) ys"
    using assms(3) alike_view(3) [OF assms(1,2)] by auto
  then show ?thesis by (simp only: chain_bytes_def)
qed

lemma batch_ok:
  assumes "fs_inv ok contents capacity st" "file_chain contents st s zs" "EOC - 1 \<notin> set zs"
    "consecutive zs c" "0 < c" "c + n = 9" "2 \<le> n" "cur = zs ! (c - 1)" "pos < 512" "0 < rem"
  shows "wp False (Batch_loop io n (int pos) rem cur (int c))
    (\<lambda>res t. batch_result contents st zs pos rem res \<and> alike ok contents capacity st t) (\<lambda>_ _. True) st"
  using assms
proof (induction n arbitrary: st c cur)
  case (Suc n)
  have cl: "c - 1 < length zs" "c - 1 < c" using Suc.prems(4,5) by (auto simp: consecutive_def)
  have cz: "cur \<in> set zs" using cl Suc.prems(8) by simp
  have cs: "cur \<in> sectors_of st" using cz Suc.prems(2) by (auto simp: file_chain_def)
  have nx: "chain (links contents st) (links contents st cur) (drop c zs)"
    using chain_next [of "links contents st" s zs "c - 1"] Suc.prems(2,5,8) cl by (simp add: file_chain_def)
  have sub: "set (drop k zs) \<subseteq> sectors_of st" for k using Suc.prems(2) by (auto simp: file_chain_def dest: in_set_dropD)
  show ?case
    unfolding Batch_loop.simps
  proof (rule alike_seq [OF get_alike [OF Suc.prems(1) cs]], goal_cases)
    case (1 v t)
    note fc = file_chain_alike [OF Suc.prems(1) 1(2)]
    have inv: "fs_inv ok contents capacity t" by (rule alike_inv [OF 1(2)])
    show ?case
    proof (cases "cur + 1 = v")
      case False
      have "batch_result contents st zs pos rem (int c, if rem \<le> int c * 512 - int pos then rem else int c * 512 - int pos, v)"
        unfolding batch_result_def using Suc.prems(4-6) nx sub [of c] 1(1)
        by (intro exI [of _ c]) (auto simp: file_chain_def)
      then show ?thesis using False inv by (simp add: wp_rules alike_refl Let_def)
    next
      case True
      have ne: "drop c zs \<noteq> []"
      proof
        assume "drop c zs = []"
        then have "cur + 1 = EOC" using nx True 1(1) by simp
        then have "cur = EOC - 1" by (metis add_diff_cancel_right')
        then show False using cz Suc.prems(3) by simp
      qed
      then have c2: "c < length zs" by simp
      have "zs ! c = cur + 1"
        using nx True 1(1) c2 by (simp add: Cons_nth_drop_Suc [symmetric])
      then have con: "consecutive zs (Suc c)" using consecutive_Suc [OF Suc.prems(4,5) c2] Suc.prems(8) by simp
      have vz: "v = zs ! c" using \<open>zs ! c = cur + 1\<close> True by simp
      show ?thesis
      proof (cases "rem \<le> (int c + 1) * 512 - int pos")
        case fin: True
        let ?k = "if int pos + rem \<le> 512 then c else Suc c"
        have "batch_result contents st zs pos rem (if int pos + rem \<le> 512 then int c + 1 - 1 else int c + 1, rem, v)"
          unfolding batch_result_def using con Suc.prems(4-7) fin by (intro exI [of _ ?k]) auto
        then show ?thesis using True fin inv by (simp add: wp_rules alike_refl Let_def)
      next
        case more: False
        show ?thesis
        proof (cases "c = 7")
          case full: True
          have vs: "v \<in> sectors_of t" using vz c2 Suc.prems(2) alike_view(1) [OF Suc.prems(1) 1(2)] by (auto simp: file_chain_def)
          have nx2: "file_chain contents st (links contents st v) (drop (Suc c) zs)"
            using chain_next [of "links contents st" s zs c] Suc.prems(2) c2 vz sub [of "Suc c"] by (simp add: file_chain_def)
          have lv: "links contents t v = links contents st v"
            using alike_view(1,2) [OF Suc.prems(1) 1(2)] vs by simp
          have "wp False (and_then (GetSectorEntryValue io v) (\<lambda>w. yield (8, 8 * 512 - int pos, w)))
            (\<lambda>res t'. batch_result contents st zs pos rem res \<and> alike ok contents capacity t t') (\<lambda>_ _. True) t"
          proof (rule alike_seq [OF get_alike [OF inv vs]], goal_cases)
            case (1 w t')
            have "batch_result contents st zs pos rem (8, 8 * 512 - int pos, w)"
              unfolding batch_result_def using con more full nx2 1(1) lv by (intro exI [of _ 8]) auto
            then show ?case using alike_inv [OF 1(2)] by (simp add: wp_rules alike_refl)
          qed
          then show ?thesis using True more full by (simp add: Let_def)
        next
          case False
          then have n: "Suc c + n = 9" "2 \<le> n" using Suc.prems(5-7) by auto
          have "wp False (Batch_loop io n (int pos) rem v (int (Suc c)))
            (\<lambda>res t'. batch_result contents t zs pos rem res \<and> alike ok contents capacity t t') (\<lambda>_ _. True) t"
            by (rule Suc.IH) (use inv fc Suc.prems(2,3,9,10) con n vz in auto)
          then have "wp False (Batch_loop io n (int pos) rem v (int (Suc c)))
            (\<lambda>res t'. batch_result contents st zs pos rem res \<and> alike ok contents capacity t t') (\<lambda>_ _. True) t"
            by (simp add: batch_result_def fc)
          then show ?thesis using True more False by (simp add: Let_def add.commute)
        qed
      qed
    qed
  qed
qed simp

lemma read_batch:
  assumes inv: "fs_inv ok contents capacity st" and con: "consecutive zs k" "0 < k" "k \<le> MAX_SECTORS_PER_RW"
    and sub: "set zs \<subseteq> sectors_of st"
    and multi: "\<And>d s n. ok d \<Longrightarrow> u \<or> io_read io s n (replicate (unat n) zeros) d \<noteq> None"
  shows "wp u (xRead io (hd zs) (of_int (int k)))
    (\<lambda>bufs t. bufs = map (data_at contents st) (take k zs) \<and> alike ok contents capacity st t) (\<lambda>_ _. True) st"
proof -
  let ?b = "fs_boot st"
  let ?r = "GetRealSectorNumber ?b (hd zs)" and ?n = "of_int (int k) :: u32"
  have lay: "layout capacity ?b" and okd: "ok (fs_dev st)" using inv by (simp_all add: fs_inv_def)
  have kl: "k \<le> length zs" "hd zs = zs ! 0" using con by (auto simp: consecutive_def hd_conv_nth)
  have n: "unat ?n = k" using con(3) by (simp add: of_nat_unat_u32)
  have "zs ! 0 \<in> set zs" "zs ! (k - 1) \<in> set zs" using kl(1) con(2) by (intro nth_mem; linarith)+
  then have h: "hd zs \<in> sectors_of st" "zs ! (k - 1) \<in> sectors_of st" using kl(2) sub by auto
  have lim: "unat (hd zs) < 1073741824" using h(1) lay by (simp add: sectors_of_def layout_def)
  have "zs ! (k - 1) = hd zs + of_nat (k - 1)" using con by (simp add: consecutive_def)
  moreover have "unat (hd zs + of_nat (k - 1)) = unat (hd zs) + (k - 1)"
  proof -
    have "unat (of_nat (k - 1) :: u32) = k - 1" using con(3) by (simp add: of_nat_unat_u32)
    then show ?thesis using lim con(3) by (subst unat_add_no_wrap) simp_all
  qed
  ultimately have "unat ?r + k \<le> capacity"
    using real_sector [OF lay h(1)] real_sector [OF lay h(2)] con(2) by simp
  then have cap: "unat ?r + unat ?n \<le> capacity" by (simp only: n)
  have eq: "map (\<lambda>i. contents (fs_dev st) (?r + of_nat i)) [0..<unat ?n] = map (data_at contents st) (take k zs)"
  proof (rule nth_equalityI)
    fix i assume "i < length (map (\<lambda>i. contents (fs_dev st) (?r + of_nat i)) [0..<unat ?n])"
    then have i: "i < k" by (simp only: length_map length_upt diff_zero n)
    then have zi: "zs ! i = hd zs + of_nat i" using con(1) by (simp add: consecutive_def)
    have m: "map g [0..<unat ?n] ! i = g i" for g :: "nat \<Rightarrow> sector" using i by (simp only: n) simp
    show "map (\<lambda>i. contents (fs_dev st) (?r + of_nat i)) [0..<unat ?n] ! i = map (data_at contents st) (take k zs) ! i"
      unfolding m using i kl zi by (simp add: data_at_def GetRealSectorNumber_def ac_simps)
  next
    show "length (map (\<lambda>i. contents (fs_dev st) (?r + of_nat i)) [0..<unat ?n]) = length (map (data_at contents st) (take k zs))"
      unfolding n using kl by simp
  qed
  show ?thesis
    unfolding xRead_def wp_rules
  proof (cases "io_read io ?r ?n (replicate (unat ?n) zeros) (fs_dev st)")
    case None
    then have u using multi [OF okd, of ?r ?n] by simp
    then show "wp u (dev_read io ?r ?n) (\<lambda>bufs t. bufs = map (data_at contents st) (take k zs) \<and>
        alike ok contents capacity st t) (\<lambda>_ _. True) st"
      unfolding wp_def dev_read_def None by simp
  next
    case (Some x)
    obtain r buf d where x: "x = (r, buf, d)" by (cases x) auto
    note law = read_law [OF okd cap _ Some [unfolded x]]
    have "ok d" "contents d = contents (fs_dev st)" "r = Inr () \<Longrightarrow> buf = map (data_at contents st) (take k zs)"
      using law eq by auto
    then show "wp u (dev_read io ?r ?n) (\<lambda>bufs t. bufs = map (data_at contents st) (take k zs) \<and>
        alike ok contents capacity st t) (\<lambda>_ _. True) st"
      using Some x inv_drive_same [OF inv] by (cases r) (simp_all add: wp_def dev_read_def alike_def)
  qed
qed

end

section \<open>The descriptor\<close>

text \<open>The last sector used, as the descriptor remembers it, is one of the file.\<close>

definition last_ok :: "u32 list \<Rightarrow> file_descriptor \<Rightarrow> bool" where
  "last_ok xs fd \<longleftrightarrow> (\<exists>j < length xs. fd_lastReadSectorIndex fd = int j \<and> fd_lastReadSectorNo fd = xs ! j)"

text \<open>The place it remembers, where the operations use it for a start in sector \<open>k\<close>.\<close>

definition last_fits :: "nat \<Rightarrow> u32 list \<Rightarrow> file_descriptor \<Rightarrow> bool" where
  "last_fits k xs fd \<longleftrightarrow> fd_lastReadSectorIndex fd < 0 \<or> int k < fd_lastReadSectorIndex fd \<or> last_ok xs fd"

text \<open>The number of bytes that a read of \<open>want\<close> bytes takes.\<close>

definition read_size :: "u32 \<Rightarrow> u32 \<Rightarrow> u32 \<Rightarrow> nat" where
  "read_size want len off = (if 0 < want \<and> want < len - off then unat want else unat len - unat off)"

definition same_file :: "file_descriptor \<Rightarrow> file_descriptor \<Rightarrow> bool" where
  "same_file fd fd' \<longleftrightarrow> fd' = fd\<lparr>fd_lastReadSectorIndex := fd_lastReadSectorIndex fd', fd_lastReadSectorNo := fd_lastReadSectorNo fd'\<rparr>"

lemma fi_fs_upd: "fi_fs (F\<lparr>fi_fs := t\<rparr>) = t"
  by simp

lemma wp_disk_op: "wp u (disk_op m) Q X s = wp u m (\<lambda>x t. Q x (s\<lparr>fi_fs := t\<rparr>)) (\<lambda>e t. X (FsError e) (s\<lparr>fi_fs := t\<rparr>)) (fi_fs s)"
  by (simp add: dir_op_def wp_rules)

context block_device
begin

lemma read_loop_ok:
  assumes "fs_inv ok contents capacity (fi_fs F)" "file_chain contents (fi_fs F) s (drop k xs)" "EOC - 1 \<notin> set xs"
    and multi: "\<And>d s n. ok d \<Longrightarrow> u \<or> io_read io s n (replicate (unat n) zeros) d \<noteq> None"
    and "pos < 512" "0 < rem" "nat rem < n" "j < length xs" "iLast = int j" "uiLast = xs ! j" "iLast + cnt = int k" "k \<le> length xs"
  shows "wp u (Read_loop io n (int pos) rem s uiLast iLast cnt acc)
    (\<lambda>r F'. r = acc @ take (nat rem) (drop pos (chain_bytes contents (fi_fs F) (drop k xs))) \<and>
       alike ok contents capacity (fi_fs F) (fi_fs F') \<and> last_ok xs (fi_fd F') \<and> same_file (fi_fd F) (fi_fd F'))
    (\<lambda>_ _. True) F"
  using assms(1-3,5-)
proof (induction n arbitrary: F s k pos rem j iLast uiLast cnt acc)
  case (Suc n)
  let ?st = "fi_fs F" and ?zs = "drop k xs"
  show ?case
  proof (cases "k = length xs")
    case True
    then have "s = EOC" using Suc.prems(2) by (simp add: file_chain_def)
    then show ?thesis
      using True Suc.prems(1,7-9)
      by (auto simp: wp_rules Directory_SetLastReadSectorDetails_def alike_refl chain_bytes_def last_ok_def same_file_def)
  next
    case False
    then have k: "k < length xs" using Suc.prems(11) by simp
    have s: "s = xs ! k" "s \<noteq> EOC" using Suc.prems(2) k by (simp_all add: file_chain_def Cons_nth_drop_Suc [symmetric])
    have hz: "hd ?zs = s" using s(1) k by (simp add: hd_drop_conv_nth)
    have sub: "set ?zs \<subseteq> sectors_of ?st" using Suc.prems(2) by (simp add: file_chain_def)
    have c1: "consecutive ?zs 1" using k by (simp add: consecutive_def hz [symmetric] hd_drop_conv_nth)
    have ne: "EOC - 1 \<notin> set ?zs" using Suc.prems(3) by (auto dest: in_set_dropD)
    have b: "wp False (Batch_loop io 8 (int pos) rem s (int 1))
        (\<lambda>res t. batch_result contents ?st ?zs pos rem res \<and> alike ok contents capacity ?st t) (\<lambda>_ _. True) ?st"
      by (rule batch_ok) (use Suc.prems c1 ne k s in auto)
    show ?thesis
      unfolding Read_loop.simps if_not_P [OF s(2)] Let_def wp_and_then wp_disk_op
    proof (rule wp_mono [OF b [simplified of_nat_1]], goal_cases)
      case (1 res t)
      obtain k' crs nx where res: "res = (int k', crs, nx)" "0 < k'" "k' \<le> 8" "consecutive ?zs k'"
        "crs = min rem (512 * int k' - int pos)" "crs < rem \<Longrightarrow> file_chain contents ?st nx (drop k' ?zs)"
        using 1 by (cases res) (auto simp: batch_result_def)
      have at: "alike ok contents capacity ?st t" using 1 by simp
      note av = alike_view [OF Suc.prems(1) at] and it = alike_inv [OF at]
      have dat: "map (data_at contents t) ys = map (data_at contents ?st) ys" if "set ys \<subseteq> sectors_of ?st" for ys
        using that av(3) by auto
      have tk: "set (take k' ?zs) \<subseteq> sectors_of ?st" using sub by (auto dest: in_set_takeD)
      have len: "\<forall>x. length (contents (fs_dev ?st) x) = 512" using Suc.prems(1) by (simp add: fs_inv_def table_inv_def)
      have kz: "k' \<le> length ?zs" using res(4) by (simp add: consecutive_def)
      have la: "length (chain_bytes contents ?st (take k' ?zs)) = 512 * k'" using length_chain_bytes [of contents ?st, OF len] kz by simp
      have split: "chain_bytes contents ?st ?zs = chain_bytes contents ?st (take k' ?zs) @ chain_bytes contents ?st (drop k' ?zs)"
        by (simp only: chain_bytes_append [symmetric] append_take_drop_id)
      have crs: "0 < crs" using res(2,5) Suc.prems(4,5) by auto
      show ?case
        unfolding res(1) prod.case wp_and_then wp_disk_op fi_fs_upd
      proof (rule wp_mono [OF read_batch [OF it, of ?zs k' u, unfolded hz] ], goal_cases)
        case (6 bufs t')
        have bufs: "concat bufs = chain_bytes contents ?st (take k' ?zs)"
          using 6 dat [OF tk] by (simp add: chain_bytes_def)
        have at': "alike ok contents capacity ?st t'" using at 6 by (auto intro: alike_trans)
        let ?A = "chain_bytes contents ?st (take k' ?zs)" and ?B = "chain_bytes contents ?st (drop k' ?zs)"
        show ?case
        proof (cases "rem - crs \<le> 0")
          case True
          then have r: "crs = rem" "int pos + rem \<le> 512 * int k'" using res(5) by auto
          then have tak: "take (nat rem) (drop pos (chain_bytes contents ?st ?zs)) = take (nat crs) (drop pos ?A)"
            unfolding split using la Suc.prems(4,5) by simp
          show ?thesis
            using True crs bufs tak at' Suc.prems(10) k s(1)
            by (auto simp: wp_rules Directory_SetLastReadSectorDetails_def last_ok_def same_file_def intro!: exI [of _ k])
        next
          case False
          then have c: "crs = 512 * int k' - int pos" using res(5) by auto
          then have nc: "nat crs = 512 * k' - pos" by simp
          have "nat (512 * int k') = 512 * k'" by linarith
          then have nk: "nat (rem - crs) = nat rem + pos - 512 * k'" using c crs False by linarith
          have ps: "pos \<le> 512 * k'" using Suc.prems(4) res(2) by simp
          have rl: "512 * k' - pos \<le> nat rem" using c False crs by linarith
          have "take (nat rem) (drop pos (chain_bytes contents ?st ?zs)) = drop pos ?A @ take (nat (rem - crs)) ?B"
            unfolding split nk using la ps rl by simp
          moreover have "take (nat crs) (drop pos ?A) = drop pos ?A" using la nc by simp
          ultimately have tak: "take (nat rem) (drop pos (chain_bytes contents ?st ?zs)) =
              take (nat crs) (drop pos ?A) @ take (nat (rem - crs)) ?B" by simp
          let ?F = "F\<lparr>fi_fs := t, fi_fs := t'\<rparr>"
          have it': "fs_inv ok contents capacity (fi_fs ?F)" using alike_inv [OF at'] by simp
          have fc: "file_chain contents (fi_fs ?F) nx (drop (k + k') xs)"
            using res(6) False file_chain_alike [OF Suc.prems(1) at'] by (simp add: add.commute)
          have kk: "k + k' \<le> length xs" using kz k by simp
          have ih: "wp u (Read_loop io n (int 0) (rem - crs) nx s (iLast + cnt) (int k') (acc @ take (nat crs) (drop pos ?A)))
            (\<lambda>r F'. r = (acc @ take (nat crs) (drop pos ?A)) @ take (nat (rem - crs)) (drop 0 (chain_bytes contents (fi_fs ?F) (drop (k + k') xs))) \<and>
               alike ok contents capacity (fi_fs ?F) (fi_fs F') \<and> last_ok xs (fi_fd F') \<and> same_file (fi_fd ?F) (fi_fd F'))
            (\<lambda>_ _. True) ?F"
            by (rule Suc.IH [OF it' fc Suc.prems(3), of 0 "rem - crs" k]) (use False Suc.prems(6,10) crs k s(1) kk in auto)
          have "set (drop (k + k') xs) \<subseteq> set ?zs" by (rule set_drop_subset_set_drop) simp
          then have sub2: "set (drop (k + k') xs) \<subseteq> sectors_of ?st" using sub by (rule subset_trans)
          have dB: "chain_bytes contents (fi_fs ?F) (drop (k + k') xs) = ?B"
            using chain_bytes_alike [OF Suc.prems(1) at', of "drop (k + k') xs"] sub2 by (simp add: add.commute)
          show ?thesis
            using False crs bufs ih at' unfolding dB
            by simp (erule wp_mono, auto simp: tak intro: alike_trans)
        qed
      qed (use res(2-4) sub av(1) multi hz in auto)
    qed simp_all
  qed
qed simp

lemma file_read_ok:
  assumes inv: "fs_inv ok contents capacity (fi_fs F)"
    and path: "path_resolves A C contents (fi_fs F) fuel (fd_fileName (fi_fd F)) cwd r"
    and nd: "nd = entry_node C contents (fi_fs F) r" "\<not> IsDirectory A nd"
    and ch: "file_chain contents (fi_fs F) (nd_startSectorID nd) xs" "EOC - 1 \<notin> set xs"
    and off: "fd_offset (fi_fd F) < nd_size nd" "unat (nd_size nd) < 2147483648"
      "unat (fd_offset (fi_fd F)) div 512 < length xs"
    and last: "last_fits (unat (fd_offset (fi_fd F)) div 512) xs (fi_fd F)"
    and multi: "\<And>d s n. ok d \<Longrightarrow> u \<or> io_read io s n (replicate (unat n) zeros) d \<noteq> None"
  shows "wp u (Directory_FileRead io A C fuel cwd want)
    (\<lambda>res F'. snd res = take (read_size want (nd_size nd) (fd_offset (fi_fd F))) (drop (unat (fd_offset (fi_fd F))) (chain_bytes contents (fi_fs F) xs)) \<and>
       fst res = int (length (snd res)) \<and>
       alike ok contents capacity (fi_fs F) (fi_fs F') \<and> last_ok xs (fi_fd F') \<and> same_file (fi_fd F) (fi_fd F'))
    (\<lambda>_ _. True) F"
proof -
  let ?st = "fi_fs F" and ?fd = "fi_fd F" and ?k = "unat (fd_offset (fi_fd F)) div 512"
  let ?j = "if fd_lastReadSectorIndex ?fd < 0 \<or> int ?k < fd_lastReadSectorIndex ?fd then 0 else nat (fd_lastReadSectorIndex ?fd)"
  let ?c = "if fd_lastReadSectorIndex ?fd < 0 \<or> int ?k < fd_lastReadSectorIndex ?fd then nd_startSectorID nd else fd_lastReadSectorNo ?fd"
  let ?p = "unat (fd_offset ?fd) mod 512" and ?m = "read_size want (nd_size nd) (fd_offset ?fd)"
  have kp: "unat (fd_offset ?fd div 512) = ?k" "unat (fd_offset ?fd mod 512) = ?p" by (simp_all add: unat_div unat_mod)
  have kj: "nat (int ?k - int ?j) = ?k - ?j" by simp
  have start: "(if fd_lastReadSectorIndex ?fd < 0 \<or> int ?k < fd_lastReadSectorIndex ?fd then (0, nd_startSectorID nd)
      else (fd_lastReadSectorIndex ?fd, fd_lastReadSectorNo ?fd)) = (int ?j, ?c)" by auto
  note rd = read_entry_info_ok [OF inv path]
  have pr: "7 * nc_size C \<le> 512" "snd r < 7" using path by (auto simp: path_resolves_def)
  have jk: "?j \<le> ?k" by auto
  have fc: "file_chain contents ?st ?c (drop ?j xs)"
    using last ch(1) off(3) chain_drop [of "links contents ?st" "nd_startSectorID nd" xs] set_drop_subset [of ?j xs]
    by (auto simp: last_fits_def last_ok_def file_chain_def)
  have off': "\<not> nd_size nd \<le> fd_offset ?fd" "nd_size nd \<noteq> 0" using off(1) by auto
  have ln: "?k - ?j < length (drop ?j xs)" "drop ?j xs ! (?k - ?j) = xs ! ?k" using off(3) jk by auto
  note sk = seek_ok [OF _ _ ln(1), unfolded ln(2)]
  define w where "w = (if want < nd_size nd - fd_offset ?fd \<and> 0 < want then want else nd_size nd - fd_offset ?fd)"
  have w: "unat w = ?m" "unat w < 2147483648" "0 < ?m"
    using off(1,2) by (auto simp: w_def read_size_def word_less_nat_alt unat_sub_if')
  then have rem: "sint w = int ?m" by (simp add: sint_small)
  show ?thesis
    unfolding Directory_FileRead_def Let_def wp_and_then wp_gets dir_op_def wp_zoom
  proof (rule wp_mono [OF rd], goal_cases)
    case (1 res t)
    obtain sec pos buf where res: "res = (sec, pos, buf)" by (cases res) auto
    have n: "pos = of_nat (snd r)" "node_at C buf (snd r) = nd" and at: "alike ok contents capacity ?st t"
      using 1 by (simp_all add: res nd(1) entry_node_def)
    have F1: "fi_fd (F\<lparr>fi_fs := t\<rparr>) = ?fd" by simp
    have it: "fs_inv ok contents capacity t" by (rule alike_inv [OF at])
    have fct: "file_chain contents t ?c (drop ?j xs)" using fc file_chain_alike [OF inv at] by simp
    show ?case
      unfolding res prod.case n(1) node_ref_ok [OF pr] n(2) if_not_P [OF nd(2)] if_not_P [OF off'(1)] if_not_P [OF off'(2)]
        wp_and_then Directory_GetLastReadSectorDetails_def wp_gets F1 w_def [symmetric] rem kp start dir_op_def wp_zoom wp_wrap_error fi_fs_upd kj
    proof (rule wp_mono [OF sk [OF it fct]], goal_cases)
      case (1 s t')
      let ?F = "F\<lparr>fi_fs := t, fi_fs := t', fi_fd := ?fd\<lparr>fd_lastReadSectorIndex := int ?k, fd_lastReadSectorNo := s\<rparr>\<rparr>"
      have s: "s = xs ! ?k" using 1 by simp
      have at': "alike ok contents capacity ?st t'" using at 1 by (auto intro: alike_trans)
      have it': "fs_inv ok contents capacity (fi_fs ?F)" using alike_inv [OF at'] by simp
      have cd: "file_chain contents (fi_fs ?F) s (drop ?k xs)"
        using file_chain_alike [OF inv at'] ch(1) off(3) s chain_drop [of "links contents ?st" "nd_startSectorID nd" xs] set_drop_subset [of ?k xs]
        by (auto simp: file_chain_def)
      have len: "\<forall>x. length (contents (fs_dev ?st) x) = 512" using inv by (simp add: fs_inv_def table_inv_def)
      have sub: "set (drop ?k xs) \<subseteq> sectors_of ?st"
        using ch(1) set_drop_subset [of ?k xs] by (auto simp: file_chain_def)
      have "drop (512 * ?k + ?p) (chain_bytes contents ?st xs) = drop ?p (chain_bytes contents (fi_fs ?F) (drop ?k xs))"
        using chain_bytes_drop [of contents ?st ?k xs ?p, OF len] off(3) chain_bytes_alike [OF inv at' sub] by simp
      then have dr: "drop (unat (fd_offset ?fd)) (chain_bytes contents ?st xs) = drop ?p (chain_bytes contents (fi_fs ?F) (drop ?k xs))"
        by simp
      have "wp u (Read_loop io (Suc (nat (int ?m))) (int ?p) (int ?m) s s (int ?k) 0 [])
        (\<lambda>r F'. r = [] @ take (nat (int ?m)) (drop ?p (chain_bytes contents (fi_fs ?F) (drop ?k xs))) \<and>
          alike ok contents capacity (fi_fs ?F) (fi_fs F') \<and> last_ok xs (fi_fd F') \<and> same_file (fi_fd ?F) (fi_fd F'))
        (\<lambda>_ _. True) ?F"
        by (rule read_loop_ok [OF it' cd ch(2) multi, where j = ?k]) (use w(3) off(3) s in auto)
      then show ?case
        unfolding wp_then_do Directory_SetLastReadSectorDetails_def wp_modify wp_and_then wp_yield
        by (simp del: Read_loop.simps) (erule wp_mono, use at' dr in \<open>auto simp: same_file_def intro: alike_trans\<close>)
    qed simp_all
  qed simp_all
qed

end

end
