(* ===== verification/FileDisk.thy ===== *)
theory FileDisk
  imports FsDisk FileProofs
begin

text \<open>
  Finding and reading files on a drive: the lemmas of \<open>DirProofs\<close> and \<open>FileProofs\<close> at the drive of
  \<open>Drives\<close>, cached or not.
\<close>

section \<open>A sample file\<close>

text \<open>The root directory, at data sector 2, has one entry: the file \<open>a\<close> of 600 bytes in the sectors 3
  and 4, the first filled with 7, the second with 9. The table block is in the cache.\<close>

definition sample_node :: fs_node where
  "sample_node = (Node_Init 0 ''a'' 0x2FF 0 2 0)\<lparr>nd_startSectorID := 3, nd_size := 600\<rparr>"

definition file_drive :: "nat drive" where
  "file_drive = blank_drive\<lparr>dd_medium := \<lparr>md_sectors = (\<lambda>x. if x = 70 then put_node sample_codec 0 sample_node zeros
     else if x = 71 then replicate 512 7 else if x = 72 then replicate 512 9 else zeros), md_faults = []\<rparr>\<rparr>"

definition sample_root :: fs_node where
  "sample_root = (Node_Init 0 ''/'' 0x5ED 0 5 0)\<lparr>nd_startSectorID := 2, nd_size := 1\<rparr>"

definition file_fs :: "nat drive fsys" where
  "file_fs = sample_fs\<lparr>fs_dev := file_drive,
     fs_pwd := \<lparr>pw_DirEntry = sample_root, pw_uiSectorNo = 0, pw_bSectorEntryPosition = 0\<rparr>,
     fs_tableCache := [\<lparr>sb_sectorBlock = [EOC, 0, EOC, 4, EOC] @ replicate 123 0, sb_blockId = 0,
       sb_readCount = 0, sb_writeCount = 1\<rparr>]\<rparr>"

lemma file_sectors:
  "stored file_drive 7 = put_node sample_codec 0 sample_node zeros" "stored file_drive 8 = replicate 512 7"
  "stored file_drive 9 = replicate 512 9"
  by (simp_all add: file_drive_def blank_drive_def sample_drive_def stored_def drive_contents_def view_def through_def)

lemma sample_node_stored:
  "length (put_node sample_codec 0 sample_node zeros) = 512"
  "node_at sample_codec (put_node sample_codec 0 sample_node zeros) 0 = sample_node"
proof -
  have f: "sample_fits sample_node" by (simp add: sample_fits_def sample_node_def Node_Init_def)
  have sz: "nc_size sample_codec = 73" by (simp add: sample_codec_def)
  show "length (put_node sample_codec 0 sample_node zeros) = 512"
    "node_at sample_codec (put_node sample_codec 0 sample_node zeros) 0 = sample_node"
    using node_at_put [of sample_codec sample_node zeros 0] sample_codec_law [OF f] sz by simp_all
qed

lemma file_fs_ok: "disk_fs True sample_params 1000 file_fs"
proof -
  have "usable True sample_params 1000 file_drive"
    by (simp add: file_drive_def blank_drive_def sample_drive_def usable_def drive_ok_def coherent_def sample_drive_ok)
  moreover have "length (stored file_drive x) = 512" for x
    by (simp add: file_drive_def blank_drive_def sample_drive_def stored_def drive_contents_def view_def through_def sample_node_stored)
  ultimately show ?thesis
    by (simp add: disk_fs_def fs_inv_def table_inv_def file_fs_def sample_layout sample_fs_ok)
qed

lemma file_fs_links:
  "links stored file_fs 2 = EOC" "links stored file_fs 3 = 4" "links stored file_fs 4 = EOC"
  "sectors_of file_fs = {j. unat j < 256}"
  by (simp_all add: links_def entry_def tblk_def blk_def cmap_def file_fs_def BLOCK_ID_def BLOCK_OFFSET_def
        sample_fs_ok sectors_of_def sample_layout)

lemma file_fs_data: "data_at stored file_fs 2 = put_node sample_codec 0 sample_node zeros"
    "data_at stored file_fs 3 = replicate 512 7" "data_at stored file_fs 4 = replicate 512 9"
  using file_sectors by (simp_all add: data_at_def file_fs_def sample_fs_ok GetRealSectorNumber_def sample_boot_def)

lemma file_fs_chains: "file_chain stored file_fs 2 [2]" "file_chain stored file_fs 3 [3, 4]"
  by (simp_all add: file_chain_def file_fs_links)

lemma file_fs_lookup: "lookup sample_attrs (entry_node sample_codec stored file_fs) ''a'' 1 [2] = Some (2, 0)"
    "entry_node sample_codec stored file_fs (2, 0) = sample_node"
proof -
  show n: "entry_node sample_codec stored file_fs (2, 0) = sample_node"
    by (simp add: entry_node_def file_fs_data sample_node_stored)
  have "\<not> IsDeleted sample_attrs sample_node" "nd_name sample_node = ''a''"
    by (simp_all add: IsDeleted_def sample_attrs_def sample_node_def Node_Init_def)
  then show "lookup sample_attrs (entry_node sample_codec stored file_fs) ''a'' 1 [2] = Some (2, 0)"
    using n by (simp add: lookup_Cons upt_conv_Cons Let_def)
qed

section \<open>Searching and reading\<close>

text \<open>C38: Searching a directory for a name other than \<open>.\<close> and \<open>..\<close> is \<open>lookup\<close>: of the first
  \<open>Size\<close> entries in use along the chain of the directory it finds the first with the name, and gives
  its sector, its position and the sector's data; if there is none it says so. It needs no more steps
  than the chain has sectors, changes nothing, and returns unless the drive fails.\<close>

theorem directory_search_is_lookup:
  assumes "disk_fs c E cap st" "IsDirectory A (cw_DirEntry cwd)" "name \<noteq> ''.''" "name \<noteq> ''..''"
    "file_chain stored st (nd_startSectorID (cw_DirEntry cwd)) xs" "length xs < fuel" "0 < nd_size (cw_DirEntry cwd)"
  shows "wp False (Directory_FindDirectory (drive_io E) A C fuel cwd name dest)
    (\<lambda>res t. found_at stored st (lookup A (entry_node C stored st) name (unat (nd_size (cw_DirEntry cwd))) xs)
        (fst res) (fst (snd res)) (fst (snd (snd res))) (snd (snd (snd res))) \<and>
       disk_fs c E cap t \<and> same_fs stored st t) (\<lambda>_ _. True) st"
  by (rule wp_mono [OF volume.find_directory_ok [OF assms [unfolded disk_fs_def], of C dest]])
    (simp_all add: alike_def disk_fs_def)

theorem directory_search_is_lookup_witness:
  "wp False (Directory_FindDirectory (drive_io sample_params) sample_attrs sample_codec 2
      \<lparr>cw_DirEntry = sample_root, cw_uiSectorNo = 0, cw_bSectorEntryPosition = 0\<rparr> ''a'' zeros)
    (\<lambda>res t. found_at stored file_fs (Some (2, 0)) (fst res) (fst (snd res)) (fst (snd (snd res))) (snd (snd (snd res))) \<and>
       disk_fs True sample_params 1000 t \<and> same_fs stored file_fs t) (\<lambda>_ _. True) file_fs"
proof -
  have r: "nd_startSectorID sample_root = 2" "nd_size sample_root = 1" "IsDirectory sample_attrs sample_root"
    by (simp_all add: sample_root_def Node_Init_def IsDirectory_def sample_attrs_def)
  show ?thesis
    using directory_search_is_lookup [OF file_fs_ok, of sample_attrs
        "\<lparr>cw_DirEntry = sample_root, cw_uiSectorNo = 0, cw_bSectorEntryPosition = 0\<rparr>" "''a''" "[2]" 2 sample_codec zeros]
    by (simp add: r file_fs_chains file_fs_lookup [simplified])
qed

lemma file_path: "path_resolves sample_attrs sample_codec stored file_fs 2 ''/a'' cwd (2, 0)"
proof -
  have "nd_startSectorID sample_root = 2" "nd_size sample_root = 1" "IsDirectory sample_attrs sample_root"
    by (simp_all add: sample_root_def Node_Init_def IsDirectory_def sample_attrs_def)
  then have "resolves sample_attrs sample_codec stored file_fs 2 [''a''] (cwd_of (fs_pwd file_fs)) (2, 0)"
    using file_fs_chains file_fs_lookup by (auto simp: cwd_of_def file_fs_def intro!: exI [of _ "[2]"])
  moreover have "7 * nc_size sample_codec \<le> 512" by (simp add: sample_codec_def)
  moreover have "String_Tokenize ''/a'' (CHR ''/'') = Some [''a'']" by (simp add: String_Tokenize_def)
  ultimately show ?thesis by (simp add: path_resolves_def)
qed

text \<open>C39: Reading a file whose path resolves gives its bytes: the sectors of its chain one after the
  other, from the offset of the descriptor, as many as asked for and no more than the file has (a count
  of 0 asks for all). Runs of consecutive sectors are read in one transfer of up to eight; the sector
  the descriptor remembers is one of the chain afterwards, and nothing else changes. The descriptor
  must not remember a sector that is not of the chain, and the disk must not use sector \<open>EOC - 1\<close>.\<close>

theorem file_read_gives_chain_bytes:
  assumes "disk_fs c E cap (fi_fs F)" "path_resolves A C stored (fi_fs F) fuel (fd_fileName (fi_fd F)) cwd r"
    "nd = entry_node C stored (fi_fs F) r" "\<not> IsDirectory A nd" "file_chain stored (fi_fs F) (nd_startSectorID nd) xs"
    "EOC - 1 \<notin> set xs" "fd_offset (fi_fd F) < nd_size nd" "unat (nd_size nd) < 2147483648"
    "unat (fd_offset (fi_fd F)) div 512 < length xs" "last_fits (unat (fd_offset (fi_fd F)) div 512) xs (fi_fd F)"
  shows "wp c (Directory_FileRead (drive_io E) A C fuel cwd want)
    (\<lambda>res F'. snd res = take (read_size want (nd_size nd) (fd_offset (fi_fd F)))
         (drop (unat (fd_offset (fi_fd F))) (chain_bytes stored (fi_fs F) xs)) \<and>
       fst res = int (length (snd res)) \<and> disk_fs c E cap (fi_fs F') \<and> same_fs stored (fi_fs F) (fi_fs F') \<and>
       last_ok xs (fi_fd F') \<and> same_file (fi_fd F) (fi_fd F')) (\<lambda>_ _. True) F"
proof -
  have multi: "c \<or> io_read (drive_io E) s n (replicate (unat n) zeros) d \<noteq> None" if "usable c E cap d" for d s n
    using that raw_defined(1) [of d E s n] by (cases c) (simp_all add: usable_def)
  show ?thesis
    by (rule wp_mono [OF volume.file_read_ok [OF assms(1) [unfolded disk_fs_def] assms(2-10) multi]])
      (simp_all add: alike_def disk_fs_def)
qed

definition sample_cwd :: cwd where
  "sample_cwd = cwd_of (fs_pwd file_fs)"

definition reader :: "int \<Rightarrow> u32 \<Rightarrow> nat drive file_state" where
  "reader k s = \<lparr>fi_fs = file_fs, fi_fd = \<lparr>fd_fileName = ''/a'', fd_offset = 510, fd_mode = 0, fd_driveID = 0,
     fd_fileSize = 600, fd_refCount = 1, fd_lastReadSectorIndex = k, fd_lastReadSectorNo = s\<rparr>\<rparr>"

lemma sample_node_fields:
  "nd_startSectorID sample_node = 3" "nd_size sample_node = 600" "\<not> IsDirectory sample_attrs sample_node"
  by (simp_all add: sample_node_def Node_Init_def IsDirectory_def sample_attrs_def)

theorem file_read_gives_chain_bytes_witness:
  "wp True (Directory_FileRead (drive_io sample_params) sample_attrs sample_codec 2 sample_cwd 4)
    (\<lambda>res F'. snd res = [7, 7, 9, 9] \<and> fst res = 4 \<and> disk_fs True sample_params 1000 (fi_fs F') \<and>
       last_ok [3, 4] (fi_fd F')) (\<lambda>_ _. True) (reader 0 3)"
proof -
  have e: "fi_fs (reader 0 3) = file_fs" "fd_fileName (fi_fd (reader 0 3)) = ''/a''" "fd_offset (fi_fd (reader 0 3)) = 510"
    by (simp_all add: reader_def)
  have l: "last_fits 0 [3, 4] (fi_fd (reader 0 3))" by (auto simp: last_fits_def last_ok_def reader_def)
  have b: "drop 510 (chain_bytes stored file_fs [3, 4]) = [7, 7] @ replicate 512 9"
    by (simp add: chain_bytes_def file_fs_data numeral_2_eq_2)
  have r2: "replicate 2 x = [x, x]" for x :: u8 by (simp add: numeral_2_eq_2)
  have t: "take 4 ([7, 7] @ replicate 512 9 :: u8 list) = [7, 7, 9, 9]" by (simp add: numeral_2_eq_2)
  have "wp True (Directory_FileRead (drive_io sample_params) sample_attrs sample_codec 2 sample_cwd 4)
    (\<lambda>res F'. snd res = take (read_size 4 (nd_size sample_node) (fd_offset (fi_fd (reader 0 3))))
         (drop (unat (fd_offset (fi_fd (reader 0 3)))) (chain_bytes stored (fi_fs (reader 0 3)) [3, 4])) \<and>
       fst res = int (length (snd res)) \<and> disk_fs True sample_params 1000 (fi_fs F') \<and>
       same_fs stored (fi_fs (reader 0 3)) (fi_fs F') \<and> last_ok [3, 4] (fi_fd F') \<and>
       same_file (fi_fd (reader 0 3)) (fi_fd F')) (\<lambda>_ _. True) (reader 0 3)"
    by (rule file_read_gives_chain_bytes [where r = "(2, 0)"])
      (use file_fs_ok file_path file_fs_lookup(2) file_fs_chains l in \<open>simp_all add: e sample_node_fields\<close>)
  then show ?thesis
    by (rule wp_mono) (auto simp: e b sample_node_fields read_size_def t r2)
qed

section \<open>Descriptors that outlive the chain they saw\<close>

text \<open>A descriptor that was opened on the empty file remembers \<open>EOC\<close> as its sector. When the file
  has got bytes through another descriptor, reading the start of it through this one returns no byte,
  and goes on remembering \<open>EOC\<close>.\<close>

theorem stale_descriptor_reads_nothing:
  assumes "disk_fs c E cap (fi_fs F)" "path_resolves A C stored (fi_fs F) fuel (fd_fileName (fi_fd F)) cwd r"
    "\<not> IsDirectory A (entry_node C stored (fi_fs F) r)"
    "fd_offset (fi_fd F) < nd_size (entry_node C stored (fi_fs F) r)" "fd_offset (fi_fd F) < 512"
    "fd_lastReadSectorIndex (fi_fd F) = 0" "fd_lastReadSectorNo (fi_fd F) = EOC"
  shows "wp False (Directory_FileRead (drive_io E) A C fuel cwd want)
    (\<lambda>res F'. res = (0, []) \<and> fi_fd F' = fi_fd F) (\<lambda>_ _. True) F"
proof -
  let ?nd = "entry_node C stored (fi_fs F) r" and ?fd = "fi_fd F"
  note rd = volume.read_entry_info_ok [OF assms(1) [unfolded disk_fs_def] assms(2)]
  have pr: "7 * nc_size C \<le> 512" "snd r < 7" using assms(2) by (auto simp: path_resolves_def)
  have o: "\<not> nd_size ?nd \<le> fd_offset ?fd" "nd_size ?nd \<noteq> 0" "fd_offset ?fd div 512 = 0"
    using assms(4,5) by (auto simp: word_less_nat_alt word_le_nat_alt word_unat_eq_iff unat_div)
  show ?thesis
    unfolding Directory_FileRead_def Let_def wp_and_then wp_gets dir_op_def wp_zoom
  proof (rule wp_mono [OF rd], goal_cases)
    case (1 res t)
    obtain sec pos buf where res: "res = (sec, pos, buf)" by (cases res) auto
    have n: "pos = of_nat (snd r)" "node_at C buf (snd r) = ?nd"
      using 1 by (simp_all add: res entry_node_def)
    show ?case
      unfolding res prod.case n(1) node_ref_ok [OF pr] n(2) if_not_P [OF assms(3)] if_not_P [OF o(1)] if_not_P [OF o(2)]
        wp_and_then
      using assms(6,7) o(3) by (simp add: wp_rules Directory_GetLastReadSectorDetails_def Directory_SetLastReadSectorDetails_def)
  qed simp_all
qed

theorem stale_descriptor_reads_nothing_witness:
  "wp False (Directory_FileRead (drive_io sample_params) sample_attrs sample_codec 2 sample_cwd 4)
    (\<lambda>res F'. res = (0, []) \<and> fi_fd F' = fi_fd (reader 0 EOC)) (\<lambda>_ _. True) (reader 0 EOC)"
proof -
  have e: "fi_fs (reader 0 EOC) = file_fs" "fd_fileName (fi_fd (reader 0 EOC)) = ''/a''" "fd_offset (fi_fd (reader 0 EOC)) = 510"
      "fd_lastReadSectorIndex (fi_fd (reader 0 EOC)) = 0" "fd_lastReadSectorNo (fi_fd (reader 0 EOC)) = EOC"
    by (simp_all add: reader_def)
  show ?thesis
    by (rule stale_descriptor_reads_nothing [where r = "(2, 0)"])
      (use file_fs_ok file_path file_fs_lookup(2) in \<open>simp_all add: e sample_node_fields\<close>)
qed

lemma below_eq:
  assumes "{i :: u32. unat i < a} = {i. unat i < b}" "a < 4294967296" "b < 4294967296"
  shows "a = b"
proof -
  have "unat (of_nat a :: u32) = a" "unat (of_nat b :: u32) = b" using assms(2,3) by (simp_all add: of_nat_unat_u32)
  then show ?thesis using assms(1) by (metis (mono_tags, lifting) linorder_neqE_nat mem_Collect_eq order_less_irrefl)
qed

text \<open>A write at the start of the file through such a descriptor never succeeds: unless it fails to
  get a sector it takes a free one, marks it as the end of a chain, fails to link it behind \<open>EOC\<close>, and
  throws; the sector stays marked as in use, in no chain. (On a drive whose sector numbers reach
  \<open>EOC\<close> the link would be made.)\<close>

theorem stale_descriptor_write_leaks:
  assumes "disk_fs c E cap (fi_fs F)" "nd_startSectorID nd \<noteq> EOC"
    "fd_offset (fi_fd F) < 512" "fd_lastReadSectorIndex (fi_fd F) = 0" "fd_lastReadSectorNo (fi_fd F) = EOC"
    "pool_ok stored (fi_fs F)" "fs_freePool (fi_fs F) = Some (s # xs, n)" "counts_ok (fs_tableCache (fi_fs F))"
    "128 * unat (BPB_FSTableSize (fs_boot (fi_fs F))) < 268435455"
  shows "\<exists>r t. AllocateSector (drive_io E) (fi_fs F) = Some (r, t) \<and>
    (case r of Inl e \<Rightarrow> Directory_ActualFileWrite (drive_io E) junk data nd F = Some (Inl (FsError e), F\<lparr>fi_fs := t\<rparr>)
     | Inr s' \<Rightarrow> s' = s \<and> links stored (fi_fs F) s = 0 \<and> links stored t s = EOC \<and> fs_freePool t = Some (xs, n) \<and>
         Directory_ActualFileWrite (drive_io E) junk data nd F = Some (Inl (FsError (InvalidClusterId EOC)), F\<lparr>fi_fs := t\<rparr>))"
proof -
  let ?io = "drive_io E" and ?st = "fi_fs F" and ?fd = "fi_fd F"
  note inv = assms(1) [unfolded disk_fs_def]
  note al = volume.allocate_from_pool [OF inv assms(6-8)]
  obtain r t where rt: "AllocateSector ?io ?st = Some (r, t)" using wp_defined [OF al] by auto
  have o: "fd_offset ?fd div 512 = 0" using assms(3) by (auto simp: word_less_nat_alt word_unat_eq_iff unat_div)
  note run = Directory_ActualFileWrite_def Let_def and_then_def gets_def dir_op_def zoom_def wrap_error_def yield_def then_do_def
    Directory_GetLastReadSectorDetails_def
  show ?thesis
  proof (cases r)
    case (Inl e)
    then have "Directory_ActualFileWrite ?io junk data nd F = Some (Inl (FsError e), F\<lparr>fi_fs := t\<rparr>)"
      using rt o assms(4,5) by (simp add: run)
    then show ?thesis using rt Inl by simp
  next
    case (Inr s')
    have post: "s' = s" "links_set stored s EOC ?st t" "fs_freePool t = Some (xs, n)" "fs_inv (usable c E cap) stored cap t"
      using wp_result [OF al rt [unfolded Inr]] by simp_all
    have s: "links stored ?st s = 0" "s \<in> sectors_of ?st" using assms(6,7) by (auto simp: pool_ok_def links_def sectors_of_def)
    have l: "links stored t s = EOC" and se: "sectors_of t = sectors_of ?st" using post(2) s by (simp_all add: links_set_def)
    have T: "unat (BPB_FSTableSize (fs_boot t)) = unat (BPB_FSTableSize (fs_boot ?st))"
      using below_eq [of "128 * unat (BPB_FSTableSize (fs_boot t))" "128 * unat (BPB_FSTableSize (fs_boot ?st))"] se
        fs_inv_layout [OF post(4)] fs_inv_layout [OF inv] by (simp add: sectors_of_def layout_def)
    have "table_limit (fs_boot t) < EOC"
      using table_limit_value [OF fs_inv_layout [OF post(4)]] assms(9) T by (simp add: word_less_nat_alt)
    then have "SetSectorEntryValue ?io EOC s' t = Some (Inl (InvalidClusterId EOC), t)"
      by (simp add: SetSectorEntryValue_def and_then_def gets_def throw_def)
    then have "Directory_ActualFileWrite ?io junk data nd F = Some (Inl (FsError (InvalidClusterId EOC)), F\<lparr>fi_fs := t\<rparr>)"
      using rt o assms(2,4,5) Inr by (simp add: run)
    then show ?thesis using rt Inr l s post by simp
  qed
qed

definition late_writer :: "nat drive file_state" where
  "late_writer = \<lparr>fi_fs = busy_fs 0, fi_fd = fi_fd (reader 0 EOC)\<rparr>"

theorem stale_descriptor_write_leaks_witness:
  "\<exists>r t. AllocateSector (drive_io sample_params) (fi_fs late_writer) = Some (r, t) \<and>
    (case r of Inl e \<Rightarrow> Directory_ActualFileWrite (drive_io sample_params) zeros [1, 2] sample_node late_writer =
          Some (Inl (FsError e), late_writer\<lparr>fi_fs := t\<rparr>)
     | Inr s' \<Rightarrow> s' = 5 \<and> links stored (fi_fs late_writer) 5 = 0 \<and> links stored t 5 = EOC \<and> fs_freePool t = Some ([6], 4096) \<and>
         Directory_ActualFileWrite (drive_io sample_params) zeros [1, 2] sample_node late_writer =
           Some (Inl (FsError (InvalidClusterId EOC)), late_writer\<lparr>fi_fs := t\<rparr>))"
  by (rule stale_descriptor_write_leaks [where c = True and cap = 1000])
    (use busy_fs_ok [of 0] in \<open>simp_all add: late_writer_def reader_def sample_node_fields sample_layout pool_ok_def links_def\<close>)

end
