(* ===== verification/DirOps.thy ===== *)
theory DirOps
  imports FileIO
begin

text \<open>
  The operations of \<open>filesystem/Directory.cpp\<close> that look up the drive and use the current process:
  creating and deleting entries, listing, changing the directory. \<open>world\<close> holds the drives of
  \<open>DiskDriveManager\<close>, the id of the root drive, what was
  sent to the display, and of the current process, a scheduled process, the drive, the working
  directory, the user, the descriptors and the environment. The memory that a
  listing is copied to is not modelled: the list is the result.
\<close>

section \<open>The code\<close>

record 'd disk_entry =
  dk_id :: int
  dk_driveName :: string
  dk_driveNumber :: u32
  dk_fs :: "'d fsys"

record process =
  pr_driveID :: int
  pr_processPWD :: pwd
  pr_userID :: int
  pr_kernel :: bool
  pr_fdTable :: fd_table
  pr_env :: env

record 'd world =
  w_driveList :: "'d disk_entry list"
  w_rootDriveID :: int
  w_process :: process
  w_display :: "u8 list"

text \<open>Constants of the C library's headers, and what the model needs besides: \<open>sy_junk\<close> is the contents
  of an uninitialised sector buffer, \<open>sy_uninit\<close> that of an uninitialised drive id.\<close>

record file_consts = fs_consts +
  O_RDONLY :: u8
  O_WRONLY :: u8
  O_TRUNC :: u8

record 'd sys =
  sy_io :: "'d block_io"
  sy_A :: node_consts
  sy_C :: node_codec
  sy_K :: file_consts
  sy_fuel :: nat
  sy_junk :: sector
  sy_uninit :: int
  ROOT_DRIVE :: int
  CURRENT_DRIVE :: int
  FROM_FILE :: int

type_synonym ('d, 'a) world_eff = "('d world, dir_error, 'a) eff"

subsection \<open>Finding a drive\<close>

fun find_drive :: "('d disk_entry \<Rightarrow> bool) \<Rightarrow> 'd disk_entry list \<Rightarrow> nat option" where
  "find_drive P [] = None"
| "find_drive P (d # ds) = (if P d then Some 0 else map_option Suc (find_drive P ds))"

definition GetByDriveName :: "string \<Rightarrow> bool \<Rightarrow> 'd world \<Rightarrow> nat option" where
  "GetByDriveName driveName bCheckMount w =
     find_drive (\<lambda>d. dk_driveName d = driveName \<and> (fs_mounted (dk_fs d) \<or> \<not> bCheckMount)) (w_driveList w)"

definition GetByID :: "'d sys \<Rightarrow> int \<Rightarrow> bool \<Rightarrow> 'd world \<Rightarrow> nat option" where
  "GetByID S iID bCheckMount w =
     (let iID = (if iID = ROOT_DRIVE S then w_rootDriveID w
                 else if iID = CURRENT_DRIVE S then pr_driveID (w_process w) else iID)
      in find_drive (\<lambda>d. dk_id d = iID \<and> (fs_mounted (dk_fs d) \<or> \<not> bCheckMount)) (w_driveList w))"

text \<open>\<open>GetByID(iDriveID, true).goodValueOrThrow\<close>; the drive is its place in the list.\<close>

definition drive_or_throw :: "'d sys \<Rightarrow> int \<Rightarrow> ('d, nat) world_eff" where
  "drive_or_throw S iDriveID = and_then (gets (GetByID S iDriveID True)) (the_or (throw (DriveNotFound iDriveID)))"

definition on_drive :: "nat \<Rightarrow> ('d, 'a) dir_eff \<Rightarrow> ('d, 'a) world_eff" where
  "on_drive i = zoom (\<lambda>w. dk_fs (w_driveList w ! i))
     (\<lambda>t w. w\<lparr>w_driveList := (w_driveList w)[i := (w_driveList w ! i)\<lparr>dk_fs := t\<rparr>]\<rparr>)"

abbreviation on_disk :: "nat \<Rightarrow> ('d, 'a) fs_eff \<Rightarrow> ('d, 'a) world_eff" where
  "on_disk i m \<equiv> on_drive i (fs_op m)"

definition process_pwd :: "pwd \<Rightarrow> ('d, unit) world_eff" where
  "process_pwd p = modify (\<lambda>w. w\<lparr>w_process := (w_process w)\<lparr>pr_processPWD := p\<rparr>\<rparr>)"

text \<open>The directory a path starts from: that of the process if it is on this drive, else the root.\<close>

definition start_cwd :: "int \<Rightarrow> nat \<Rightarrow> ('d, cwd) world_eff" where
  "start_cwd iDriveID i =
     gets (\<lambda>w. if pr_driveID (w_process w) = iDriveID then cwd_of (pr_processPWD (w_process w))
               else cwd_of (fs_pwd (dk_fs (w_driveList w ! i))))"

definition entry_info :: "'d sys \<Rightarrow> nat \<Rightarrow> cwd \<Rightarrow> string \<Rightarrow> ('d, u32 \<times> u8 \<times> sector) world_eff" where
  "entry_info S i cwd szFileName =
     on_drive i (Directory_ReadDirEntryInfo (sy_io S) (sy_A S) (sy_C S) (sy_fuel S) cwd szFileName)"

subsection \<open>Creating and deleting entries\<close>

text \<open>The node of the parent directory was changed: the copies of it in the working directories.\<close>

definition update_pwds :: "nat \<Rightarrow> u32 \<Rightarrow> u8 \<Rightarrow> fs_node \<Rightarrow> ('d, unit) world_eff" where
  "update_pwds i uiSectorNo bPos dir =
     and_then (gets (\<lambda>w. (dk_id (w_driveList w ! i), pr_driveID (w_process w), pr_processPWD (w_process w)))) (\<lambda>(drive, current, pwd).
     then_do
       (only_if (drive = current \<and> uiSectorNo = pw_uiSectorNo pwd \<and> bPos = pw_bSectorEntryPosition pwd)
          (process_pwd (pwd\<lparr>pw_DirEntry := dir\<rparr>)))
       (only_if (nd_name dir = ''/'')
          (on_drive i (modify (\<lambda>st. st\<lparr>fs_pwd := (fs_pwd st)\<lparr>pw_DirEntry := dir\<rparr>\<rparr>)))))"

text \<open>The parent is the node at \<open>bParentPos\<close> of \<open>bParentDirectoryBuffer\<close>, which was read from sector
  \<open>uiParentSectorNo\<close>. \<open>now\<close> is the time of day, \<open>junk\<close> the uninitialised sector buffer.\<close>

definition Directory_Create ::
  "'d sys \<Rightarrow> u32 \<Rightarrow> sector \<Rightarrow> int \<Rightarrow> sector \<Rightarrow> u32 \<Rightarrow> u8 \<Rightarrow> string \<Rightarrow> u16 \<Rightarrow> ('d, unit) world_eff" where
  "Directory_Create S now junk iDriveID bParentDirectoryBuffer uiParentSectorNo bParentPos szDirName usDirAttribute =
     (let io = sy_io S; C = sy_C S
      in
        and_then (drive_or_throw S iDriveID) (\<lambda>i.
        and_then (node_ref C bParentDirectoryBuffer bParentPos) (\<lambda>dir.
        and_then
          (if nd_startSectorID dir = EOC then
             and_then (on_disk i (AllocateSector io)) (\<lambda>uiFreeSectorID.
               yield (dir\<lparr>nd_startSectorID := uiFreeSectorID\<rparr>, uiFreeSectorID, 0, junk))
           else
             and_then (on_drive i (Directory_FindDirectory io (sy_A S) C (sy_fuel S)
                 \<lparr>cw_DirEntry = dir, cw_uiSectorNo = uiParentSectorNo, cw_bSectorEntryPosition = bParentPos\<rparr> szDirName junk))
               (\<lambda>(found, uiSectorNo, bSectorPos, bSectorBuffer).
             if found then throw (DirectoryExists szDirName)
             else if bSectorPos = EOC_B then
               and_then (on_disk i (AllocateSector io)) (\<lambda>uiFreeSectorID.
               then_do (on_disk i (SetSectorEntryValue io uiSectorNo uiFreeSectorID))
                 (yield (dir, uiFreeSectorID, 0, bSectorBuffer)))
             else yield (dir, uiSectorNo, bSectorPos, bSectorBuffer)))
          (\<lambda>(dir, uiSectorNo, bSectorPos, bSectorBuffer).
        and_then (gets (\<lambda>w. pr_userID (w_process w))) (\<lambda>user.
        let node = Node_Init now szDirName usDirAttribute user uiParentSectorNo bParentPos;
            dir = AddNode dir
        in
          then_do (on_disk i (xWrite io [put_node C (unat bSectorPos) node bSectorBuffer] uiSectorNo 1))
            (then_do (on_disk i (xWrite io [put_node C (unat bParentPos) dir bParentDirectoryBuffer] uiParentSectorNo 1))
               (update_pwds i uiParentSectorNo bParentPos dir)))))))"

text \<open>The sectors of the deleted entry are released one by one.\<close>

fun Release_loop :: "'d block_io \<Rightarrow> nat \<Rightarrow> u32 \<Rightarrow> ('d, unit) fs_eff" where
  "Release_loop io 0 uiCurrentSectorID = undef"
| "Release_loop io (Suc n) uiCurrentSectorID =
     (if uiCurrentSectorID = EOC then yield ()
      else and_then (FileSystem_DeAllocateSector io uiCurrentSectorID) (Release_loop io n))"

definition Directory_Delete ::
  "'d sys \<Rightarrow> int \<Rightarrow> sector \<Rightarrow> u32 \<Rightarrow> u8 \<Rightarrow> string \<Rightarrow> ('d, unit) world_eff" where
  "Directory_Delete S iDriveID bParentDirectoryBuffer uiParentSectorNo bParentPos szDirName =
     (let io = sy_io S; C = sy_C S
      in
        and_then (drive_or_throw S iDriveID) (\<lambda>i.
        and_then (node_ref C bParentDirectoryBuffer bParentPos) (\<lambda>dir.
        if nd_startSectorID dir = EOC then throw (DirectoryNotToDelete szDirName)
        else
          and_then (on_drive i (Directory_FindDirectory io (sy_A S) C (sy_fuel S)
              \<lparr>cw_DirEntry = dir, cw_uiSectorNo = uiParentSectorNo, cw_bSectorEntryPosition = bParentPos\<rparr> szDirName zeros))
            (\<lambda>(found, uiSectorNo, bSectorPos, bSectorBuffer).
          if \<not> found then throw (DirectoryNotToDelete szDirName)
          else
            and_then (node_ref C bSectorBuffer bSectorPos) (\<lambda>delDir.
            if IsDirectory (sy_A S) delDir \<and> nd_size delDir \<noteq> 0 then throw (DirectoryNotEmpty szDirName)
            else
              then_do (on_disk i (Release_loop io (sy_fuel S) (nd_startSectorID delDir)))
                (then_do (on_disk i (xWrite io [put_node C (unat bSectorPos) (MarkAsDeleted (sy_A S) delDir) bSectorBuffer] uiSectorNo 1))
                   (let dir = RemoveNode dir
                    in then_do (on_disk i (xWrite io [put_node C (unat bParentPos) dir bParentDirectoryBuffer] uiParentSectorNo 1))
                         (update_pwds i uiParentSectorNo bParentPos dir))))))))"

text \<open>The directory that holds the entry named by the last component of a path. A path of slashes only
  reads the token before the first.\<close>

definition Directory_GetDirEntryForCreateDelete ::
  "'d sys \<Rightarrow> int \<Rightarrow> string \<Rightarrow> ('d, string \<times> u32 \<times> u8 \<times> sector) world_eff" where
  "Directory_GetDirEntryForCreateDelete S iDriveID szDirPath =
     and_then (drive_or_throw S iDriveID) (\<lambda>i.
     if szDirPath = [] \<or> szDirPath = ''/'' then throw CurrentOrRootDirectory
     else
       and_then (gets (\<lambda>w. if hd szDirPath = CHR ''/'' \<or> pr_driveID (w_process w) \<noteq> iDriveID
                           then cwd_of (fs_pwd (dk_fs (w_driveList w ! i)))
                           else cwd_of (pr_processPWD (w_process w)))) (\<lambda>cwd.
       and_then (on_disk i (xRead1 (sy_io S) (cw_uiSectorNo cwd))) (\<lambda>buf.
       case String_Tokenize szDirPath (CHR ''/'') of
         None \<Rightarrow> undef
       | Some [] \<Rightarrow> undef
       | Some tokens \<Rightarrow>
           and_then (on_drive i (Resolve_loop (sy_io S) (sy_A S) (sy_C S) (sy_fuel S) DirectoryNotFound (butlast tokens) cwd
               (cw_uiSectorNo cwd, cw_bSectorEntryPosition cwd, buf))) (\<lambda>(uiSectorNo, bSectorPos, buf).
           if last tokens = ''.'' \<or> last tokens = ''..'' then throw (SpecialDirectory (last tokens))
           else yield (last tokens, uiSectorNo, bSectorPos, buf)))))"

subsection \<open>Looking up and listing\<close>

definition Directory_GetDirEntry :: "'d sys \<Rightarrow> string \<Rightarrow> int \<Rightarrow> ('d, fs_node) world_eff" where
  "Directory_GetDirEntry S szFileName iDriveID =
     and_then (drive_or_throw S iDriveID) (\<lambda>i.
     and_then (start_cwd iDriveID i) (\<lambda>cwd.
     and_then (entry_info S i cwd szFileName) (\<lambda>(uiSectorNo, bSectorPos, buf).
     and_then (node_ref (sy_C S) buf bSectorPos) (\<lambda>dirFile.
     if IsDeleted (sy_A S) dirFile then throw (EntryDeleted szFileName) else yield dirFile))))"

text \<open>The loop over the directory: at most \<open>iListSize\<close> entries are copied.\<close>

fun List_entries :: "node_consts \<Rightarrow> node_codec \<Rightarrow> sector \<Rightarrow> nat \<Rightarrow> nat \<Rightarrow> int \<Rightarrow> fs_node list \<Rightarrow> bool \<times> fs_node list" where
  "List_entries A C buf 0 pos iListSize acc = (False, acc)"
| "List_entries A C buf (Suc n) pos iListSize acc =
     (let curDir = node_at C buf pos
      in if IsDeleted A curDir then List_entries A C buf n (Suc pos) iListSize acc
         else if int (length acc) + 1 > iListSize then (True, acc)
         else List_entries A C buf n (Suc pos) iListSize (acc @ [curDir]))"

fun List_loop :: "'d block_io \<Rightarrow> node_consts \<Rightarrow> node_codec \<Rightarrow> nat \<Rightarrow> u32 \<Rightarrow> int \<Rightarrow> fs_node list \<Rightarrow> ('d, fs_node list) fs_eff" where
  "List_loop io A C 0 uiCurrentSectorID iListSize acc = undef"
| "List_loop io A C (Suc n) uiCurrentSectorID iListSize acc =
     (if uiCurrentSectorID = EOC then yield acc
      else
        and_then (xRead1 io uiCurrentSectorID) (\<lambda>buf.
        case List_entries A C buf DIR_ENTRIES_PER_SECTOR 0 iListSize acc of
          (True, acc) \<Rightarrow> yield acc
        | (False, acc) \<Rightarrow>
            and_then (GetSectorEntryValue io uiCurrentSectorID) (\<lambda>uiNext. List_loop io A C n uiNext iListSize acc)))"

text \<open>\<open>*iListSize\<close> and the entries stored; entries behind them in the allocated list are not set.\<close>

definition Directory_GetDirectoryContent :: "'d sys \<Rightarrow> string \<Rightarrow> int \<Rightarrow> ('d, int \<times> fs_node list) world_eff" where
  "Directory_GetDirectoryContent S szFileName iDriveID =
     and_then (drive_or_throw S iDriveID) (\<lambda>i.
     and_then (start_cwd iDriveID i) (\<lambda>cwd.
     and_then
       (if szFileName = [] then yield (cw_DirEntry cwd)
        else
          and_then (entry_info S i cwd szFileName) (\<lambda>(uiSectorNo, bSectorPos, buf).
          and_then (node_ref (sy_C S) buf bSectorPos) (\<lambda>dirFile.
          if IsDeleted (sy_A S) dirFile then throw (EntryDeleted szFileName) else yield dirFile)))
       (\<lambda>dirFile.
     if szFileName \<noteq> [] \<and> \<not> IsDirectory (sy_A S) dirFile then yield (1, [dirFile])
     else
       and_then (on_disk i (List_loop (sy_io S) (sy_A S) (sy_C S) (sy_fuel S) (nd_startSectorID dirFile)
           (sint (nd_size dirFile)) [])) (\<lambda>list.
       yield (sint (nd_size dirFile), list)))))"

subsection \<open>The working directory\<close>

text \<open>The path from a directory up to the root, in buffers of 256 characters.\<close>

fun Path_loop :: "'d block_io \<Rightarrow> node_codec \<Rightarrow> nat \<Rightarrow> fs_node \<Rightarrow> string \<Rightarrow> ('d, string) fs_eff" where
  "Path_loop io C 0 dirFile szTempPwd = undef"
| "Path_loop io C (Suc n) dirFile szTempPwd =
     (let szPWD = ''/'' @ nd_name dirFile @ szTempPwd
      in if 256 \<le> length szPWD then undef
         else
           and_then (xRead1 io (nd_parentSectorID dirFile)) (\<lambda>buf.
           and_then (node_ref C buf (ucast (nd_parentSectorPos dirFile))) (\<lambda>dirFile.
           if nd_name dirFile = ''/'' then yield szPWD else Path_loop io C n dirFile szPWD)))"

text \<open>The status of \<open>ProcessEnv_Set\<close> is ignored.\<close>

definition set_env :: "string \<Rightarrow> string \<Rightarrow> ('d, unit) world_eff" where
  "set_env var val w =
     (case ProcessEnv_Set var val (pr_env (w_process w)) of
        None \<Rightarrow> None
      | Some (_, e) \<Rightarrow> Some (Inr (), w\<lparr>w_process := (w_process w)\<lparr>pr_env := e\<rparr>\<rparr>))"

definition Directory_Change :: "'d sys \<Rightarrow> string \<Rightarrow> int \<Rightarrow> ('d, unit) world_eff" where
  "Directory_Change S szFileName iDriveID =
     and_then (drive_or_throw S iDriveID) (\<lambda>i.
     and_then (start_cwd iDriveID i) (\<lambda>cwd.
     and_then (entry_info S i cwd szFileName) (\<lambda>(uiSectorNo, bSectorPos, buf).
     and_then (node_ref (sy_C S) buf bSectorPos) (\<lambda>dirFile.
     if \<not> IsDirectory (sy_A S) dirFile then throw (NotADirectory szFileName)
     else
       then_do (modify (\<lambda>w. w\<lparr>w_process := (w_process w)\<lparr>pr_driveID := iDriveID,
           pr_processPWD := \<lparr>pw_DirEntry = dirFile, pw_uiSectorNo = uiSectorNo, pw_bSectorEntryPosition = bSectorPos\<rparr>\<rparr>\<rparr>))
         (and_then (if nd_name dirFile = ''/'' then yield ''/''
                    else on_disk i (Path_loop (sy_io S) (sy_C S) (sy_fuel S) dirFile [])) (\<lambda>szTempPwd.
          and_then (gets (\<lambda>w. dk_driveName (w_driveList w ! i))) (\<lambda>name.
          let szPWD = name @ ''@'' @ szTempPwd
          in if 256 \<le> length szPWD then undef else set_env ''PWD'' szPWD)))))))"

definition Directory_PresentWorkingDirectory :: "('d, string) world_eff" where
  "Directory_PresentWorkingDirectory =
     and_then (gets (\<lambda>w. ProcessEnv_Get ''PWD'' (pr_env (w_process w)))) (the_or (throw PwdNotSet))"

definition Directory_SyncPWD :: "'d sys \<Rightarrow> ('d, unit) world_eff" where
  "Directory_SyncPWD S =
     and_then (gets (\<lambda>w. (pr_driveID (w_process w), pr_processPWD (w_process w)))) (\<lambda>(drive, pwd).
     and_then (drive_or_throw S drive) (\<lambda>i.
     and_then (on_disk i (xRead1 (sy_io S) (pw_uiSectorNo pwd))) (\<lambda>buf.
     and_then (node_ref (sy_C S) buf (pw_bSectorEntryPosition pwd)) (\<lambda>dir.
     process_pwd (pwd\<lparr>pw_DirEntry := dir\<rparr>)))))"

end
