(* ===== verification/FileOps.thy ===== *)
theory FileOps
  imports DirOps
begin

text \<open>
  The file operations of the kernel, \<open>filesystem/FileOperations.cpp\<close>, with the permission checks of
  \<open>process/SchedulableProcess.cpp\<close>: what the system calls for files end in. They act on the \<open>world\<close> of
  \<open>DirOps\<close>; \<open>now\<close> is the time of day.
\<close>

section \<open>The code\<close>

subsection \<open>Permissions\<close>

definition FILE_PERM :: "u16 \<Rightarrow> u16" where
  "FILE_PERM attr = attr AND 0x1FF"

definition FILE_TYPE :: "u16 \<Rightarrow> u16" where
  "FILE_TYPE attr = attr AND 0xF000"

definition G_OWNER :: "u16 \<Rightarrow> u16" where
  "G_OWNER perm = drop_bit 6 perm AND 7"

definition G_OTHERS :: "u16 \<Rightarrow> u16" where
  "G_OTHERS perm = perm AND 7"

definition HAS_READ_PERM :: "u16 \<Rightarrow> bool" where
  "HAS_READ_PERM perm \<longleftrightarrow> (perm AND 7) AND 4 \<noteq> 0"

definition HAS_WRITE_PERM :: "u16 \<Rightarrow> bool" where
  "HAS_WRITE_PERM perm \<longleftrightarrow> (perm AND 7) AND 2 \<noteq> 0"

datatype FILE_USER_TYPE = USER_OWNER | USER_GROUP | USER_OTHERS

definition fileUserType :: "node_consts \<Rightarrow> process \<Rightarrow> fs_node \<Rightarrow> FILE_USER_TYPE" where
  "fileUserType A p node =
     (if pr_kernel p \<or> pr_userID p = ROOT_USER_ID A \<or> nd_userID node = pr_userID p then USER_OWNER else USER_OTHERS)"

definition hasFilePermission :: "'d sys \<Rightarrow> process \<Rightarrow> fs_node \<Rightarrow> u8 \<Rightarrow> bool" where
  "hasFilePermission S p node mode =
     (let K = sy_K S;
          usMode = FILE_PERM (nd_attribute node);
          access = (\<lambda>perm.
            if mode AND O_RDONLY K \<noteq> 0 then HAS_READ_PERM perm \<or> HAS_WRITE_PERM perm
            else if mode AND O_WRONLY K \<noteq> 0 \<or> mode AND O_RDWR K \<noteq> 0 \<or> mode AND O_APPEND K \<noteq> 0 then HAS_WRITE_PERM perm
            else False)
      in case fileUserType (sy_A S) p node of
           USER_OWNER \<Rightarrow> access (G_OWNER usMode)
         | USER_OTHERS \<Rightarrow> access (G_OTHERS usMode)
         | USER_GROUP \<Rightarrow> False)"

definition FileOperations_ValidateAndGetFileAttr :: "node_consts \<Rightarrow> u16 \<Rightarrow> u16 \<Rightarrow> u16 + u16" where
  "FileOperations_ValidateAndGetFileAttr A usFileType usMode =
     (let usMode = FILE_PERM usMode; usFileType = FILE_TYPE usFileType
      in if \<not> (usFileType = ATTR_TYPE_FILE A \<or> usFileType = ATTR_TYPE_DIRECTORY A) then Inl usFileType
         else Inr (usFileType OR usMode))"

subsection \<open>Paths with a drive\<close>

text \<open>The path in the buffer \<open>szFile[100]\<close> and the drive id; \<open>before\<close> is the value of the variable for
  the id, which is not set when the drive name is longer than 32 characters.\<close>

definition FileOperations_ParseFilePathWithDrive :: "string \<Rightarrow> int \<Rightarrow> ('d, string \<times> int) world_eff" where
  "FileOperations_ParseFilePathWithDrive szFileNameWithDrive before w =
     (let i = String_Chr szFileNameWithDrive (CHR ''@'');
          result = (\<lambda>path drive. if 100 \<le> length path then None else Some (Inr (path, drive), w))
      in if i = -1 then result szFileNameWithDrive (pr_driveID (w_process w))
         else if i > 32 then result szFileNameWithDrive before
         else
           let szDriveName = take (nat i) szFileNameWithDrive;
               path = drop (nat i + 1) szFileNameWithDrive
           in if szDriveName = ''ROOT'' then result path (w_rootDriveID w)
              else case GetByDriveName szDriveName False w of
                     None \<Rightarrow> result path (w_rootDriveID w)
                   | Some d \<Rightarrow> result path (dk_id (w_driveList w ! d)))"

subsection \<open>Descriptors\<close>

definition on_fds :: "(fd_table \<Rightarrow> ((fd_error + 'a) \<times> fd_table) option) \<Rightarrow> ('d, 'a) world_eff" where
  "on_fds f w =
     (case f (pr_fdTable (w_process w)) of
        None \<Rightarrow> None
      | Some (Inl e, t) \<Rightarrow> Some (Inl (FdError e), w\<lparr>w_process := (w_process w)\<lparr>pr_fdTable := t\<rparr>\<rparr>)
      | Some (Inr x, t) \<Rightarrow> Some (Inr x, w\<lparr>w_process := (w_process w)\<lparr>pr_fdTable := t\<rparr>\<rparr>))"

text \<open>\<open>fdTable().getRealNonDupped(fd)\<close>: the number of the descriptor and its entry.\<close>

definition real_fd :: "int \<Rightarrow> ('d, int \<times> file_descriptor) world_eff" where
  "real_fd fd =
     and_then (on_fds (\<lambda>t. map_option (\<lambda>r. (r, t)) (getRealNonDupped fd t))) (\<lambda>r.
     and_then (gets (\<lambda>w. fdTable (pr_fdTable (w_process w)) r)) (\<lambda>e.
     case e of None \<Rightarrow> undef | Some f \<Rightarrow> yield (r, f)))"

text \<open>An operation on the file behind descriptor \<open>r\<close> of drive \<open>i\<close>.\<close>

definition on_file :: "nat \<Rightarrow> int \<Rightarrow> ('d, 'a) file_eff \<Rightarrow> ('d, 'a) world_eff" where
  "on_file i r = zoom
     (\<lambda>w. \<lparr>fi_fs = dk_fs (w_driveList w ! i), fi_fd = the (fdTable (pr_fdTable (w_process w)) r)\<rparr>)
     (\<lambda>t w. w\<lparr>w_driveList := (w_driveList w)[i := (w_driveList w ! i)\<lparr>dk_fs := fi_fs t\<rparr>],
        w_process := (w_process w)\<lparr>pr_fdTable := (pr_fdTable (w_process w))\<lparr>fdTable :=
          (fdTable (pr_fdTable (w_process w)))(r \<mapsto> fi_fd t)\<rparr>\<rparr>\<rparr>)"

definition add_offset :: "nat \<Rightarrow> int \<Rightarrow> u32 \<Rightarrow> ('d, unit) world_eff" where
  "add_offset i r n = on_file i r (modify (\<lambda>s. s\<lparr>fi_fd := addOffset n (fi_fd s)\<rparr>))"

subsection \<open>Status and times\<close>

text \<open>\<open>DIR_ACCESS_TIME\<close> is 1, \<open>DIR_MODIFIED_TIME\<close> is 2.\<close>

definition FileOperations_UpdateTime :: "'d sys \<Rightarrow> u32 \<Rightarrow> string \<Rightarrow> int \<Rightarrow> u8 \<Rightarrow> ('d, unit) world_eff" where
  "FileOperations_UpdateTime S now szFileName iDriveID bTimeType =
     and_then (gets (\<lambda>w. if iDriveID = CURRENT_DRIVE S then pr_driveID (w_process w) else iDriveID)) (\<lambda>iDriveID.
     and_then (drive_or_throw S iDriveID) (\<lambda>i.
     and_then (start_cwd iDriveID i) (\<lambda>cwd.
     and_then (entry_info S i cwd szFileName) (\<lambda>(uiSectorNo, bSectorPos, buf).
     and_then (node_ref (sy_C S) buf bSectorPos) (\<lambda>node.
     let node = (if bTimeType AND 1 \<noteq> 0 then node\<lparr>nd_accessedTime := now\<rparr> else node);
         node = (if bTimeType AND 2 \<noteq> 0 then node\<lparr>nd_modifiedTime := now\<rparr> else node)
     in on_disk i (xWrite (sy_io S) [put_node (sy_C S) (unat bSectorPos) node buf] uiSectorNo 1))))))"

record file_stat =
  st_dev :: u32
  st_mode :: u16
  st_uid :: int
  st_size :: u32
  st_atime :: u32
  st_mtime :: u32
  st_ctime :: u32
  st_blksize :: u32
  st_blocks :: u32
  st_rdev :: int
  st_gid :: int
  st_nlink :: int
  st_ino :: int

definition stat_of :: "u32 \<Rightarrow> fs_node \<Rightarrow> file_stat" where
  "stat_of driveNumber n =
     \<lparr>st_dev = driveNumber, st_mode = nd_attribute n, st_uid = nd_userID n, st_size = nd_size n,
      st_atime = nd_accessedTime n, st_mtime = nd_modifiedTime n, st_ctime = nd_createdTime n, st_blksize = 512,
      st_blocks = nd_size n div 512 + (if nd_size n mod 512 \<noteq> 0 then 1 else 0),
      st_rdev = 0, st_gid = 1, st_nlink = 1, st_ino = 0\<rparr>"

definition FileOperations_GetStat :: "'d sys \<Rightarrow> string \<Rightarrow> int \<Rightarrow> ('d, file_stat) world_eff" where
  "FileOperations_GetStat S szFileName iDriveID =
     and_then
       (if iDriveID = FROM_FILE S then FileOperations_ParseFilePathWithDrive szFileName iDriveID
        else if 100 \<le> length szFileName then undef
        else yield (szFileName, iDriveID)) (\<lambda>(szFile, iDriveID).
     and_then (drive_or_throw S iDriveID) (\<lambda>i.
     and_then (start_cwd iDriveID i) (\<lambda>cwd.
     and_then (entry_info S i cwd szFile) (\<lambda>(uiSectorNo, bSectorPos, buf).
     and_then (node_ref (sy_C S) buf bSectorPos) (\<lambda>node.
     gets (\<lambda>w. stat_of (dk_driveNumber (w_driveList w ! i)) node))))))"

definition FileOperations_GetStatFD :: "'d sys \<Rightarrow> int \<Rightarrow> ('d, file_stat) world_eff" where
  "FileOperations_GetStatFD S iFD =
     and_then (real_fd iFD) (\<lambda>(_, f). FileOperations_GetStat S (fd_fileName f) (fd_driveID f))"

definition FileOperations_GetDirEntry :: "'d sys \<Rightarrow> string \<Rightarrow> ('d, fs_node) world_eff" where
  "FileOperations_GetDirEntry S szFileName =
     and_then (FileOperations_ParseFilePathWithDrive szFileName (sy_uninit S)) (\<lambda>(szFile, iDriveID).
     and_then (drive_or_throw S iDriveID) (\<lambda>i.
     and_then (start_cwd iDriveID i) (\<lambda>cwd.
     and_then (entry_info S i cwd szFile) (\<lambda>(uiSectorNo, bSectorPos, buf).
     node_ref (sy_C S) buf bSectorPos))))"

subsection \<open>Creating, deleting, opening\<close>

definition FileOperations_Create :: "'d sys \<Rightarrow> u32 \<Rightarrow> string \<Rightarrow> u16 \<Rightarrow> u16 \<Rightarrow> ('d, unit) world_eff" where
  "FileOperations_Create S now szFilePath usFileType usMode =
     and_then (FileOperations_ParseFilePathWithDrive szFilePath (sy_uninit S)) (\<lambda>(szFile, iDriveID).
     case FileOperations_ValidateAndGetFileAttr (sy_A S) usFileType usMode of
       Inl t \<Rightarrow> throw (InvalidFileAttribute t)
     | Inr usFileAttr \<Rightarrow>
         and_then (Directory_GetDirEntryForCreateDelete S iDriveID szFile) (\<lambda>(szDirName, uiParentSectorNo, bParentSectorPos, buf).
         and_then (node_ref (sy_C S) buf bParentSectorPos) (\<lambda>dir.
         and_then (gets w_process) (\<lambda>p.
         if \<not> hasFilePermission S p dir (O_RDWR (sy_K S)) then throw (NoPermission szFilePath)
         else Directory_Create S now (sy_junk S) iDriveID buf uiParentSectorNo bParentSectorPos szDirName usFileAttr))))"

definition FileOperations_Delete :: "'d sys \<Rightarrow> string \<Rightarrow> ('d, unit) world_eff" where
  "FileOperations_Delete S szFilePath =
     and_then (FileOperations_ParseFilePathWithDrive szFilePath (sy_uninit S)) (\<lambda>(szFile, iDriveID).
     and_then (Directory_GetDirEntryForCreateDelete S iDriveID szFile) (\<lambda>(szDirName, uiParentSectorNo, bParentSectorPos, buf).
     and_then (node_ref (sy_C S) buf bParentSectorPos) (\<lambda>dir.
     and_then (gets w_process) (\<lambda>p.
     if \<not> hasFilePermission S p dir (O_RDWR (sy_K S)) then throw (NoPermission szFilePath)
     else
       and_then (FileOperations_GetDirEntry S szFilePath) (\<lambda>fileDirEntry.
       if fileUserType (sy_A S) p fileDirEntry \<noteq> USER_OWNER then throw (NoPermission szFilePath)
       else Directory_Delete S iDriveID buf uiParentSectorNo bParentSectorPos szDirName)))))"

definition FileOperations_Open :: "'d sys \<Rightarrow> u32 \<Rightarrow> string \<Rightarrow> u8 \<Rightarrow> ('d, int) world_eff" where
  "FileOperations_Open S now szFileName mode =
     and_then (FileOperations_ParseFilePathWithDrive szFileName (sy_uninit S)) (\<lambda>(szFile, iDriveID).
     and_then (drive_or_throw S iDriveID) (\<lambda>i.
     and_then (Directory_GetDirEntry S szFile iDriveID) (\<lambda>dirEntry.
     if \<not> IsFile (sy_A S) dirEntry then throw (NotAFile szFileName)
     else
       and_then (gets w_process) (\<lambda>p.
       if \<not> hasFilePermission S p dirEntry mode then throw (NoPermission szFileName)
       else
         and_then
           (if mode AND O_TRUNC (sy_K S) \<noteq> 0 then
              then_do (FileOperations_Delete S szFileName)
                (then_do (FileOperations_Create S now szFileName (FILE_TYPE (nd_attribute dirEntry)) (FILE_PERM (nd_attribute dirEntry)))
                   (Directory_GetDirEntry S szFile iDriveID))
            else yield dirEntry) (\<lambda>dirEntry.
         and_then (on_disk i (FullPath (sy_io S) (sy_C S) (sy_fuel S) dirEntry)) (\<lambda>path.
         on_fds (\<lambda>t. Some (fd_allocate (fs_consts.truncate (sy_K S)) path mode iDriveID (nd_size dirEntry) (nd_startSectorID dirEntry) t))))))))"

text \<open>\<open>FileOperations_SUCCESS\<close> is 0 and \<open>FileOperations_FAILURE\<close> 5.\<close>

definition FileOperations_Close :: "int \<Rightarrow> ('d, u8) world_eff" where
  "FileOperations_Close fd =
     catch (then_do (on_fds (\<lambda>t. Some (fd_free fd t))) (yield 0)) (\<lambda>e. yield 5)"

definition FileOperations_Exists :: "'d sys \<Rightarrow> string \<Rightarrow> u16 \<Rightarrow> ('d, bool) world_eff" where
  "FileOperations_Exists S szFileName usFileType =
     catch
       (and_then (FileOperations_ParseFilePathWithDrive szFileName (sy_uninit S)) (\<lambda>(szFile, iDriveID).
        and_then (Directory_GetDirEntry S szFile iDriveID) (\<lambda>dirEntry.
        yield (nd_attribute dirEntry AND usFileType = usFileType))))
       (\<lambda>e. yield False)"

definition FileOperations_FileAccess :: "'d sys \<Rightarrow> string \<Rightarrow> int \<Rightarrow> u8 \<Rightarrow> ('d, bool) world_eff" where
  "FileOperations_FileAccess S szFileName iDriveID mode =
     catch
       (and_then
          (if iDriveID = FROM_FILE S then FileOperations_ParseFilePathWithDrive szFileName iDriveID
           else if 100 \<le> length szFileName then undef
           else yield (szFileName, iDriveID)) (\<lambda>(szFile, iDriveID).
        and_then (Directory_GetDirEntry S szFile iDriveID) (\<lambda>dirEntry.
        if \<not> IsFile (sy_A S) dirEntry then yield False
        else and_then (gets w_process) (\<lambda>p. yield (hasFilePermission S p dirEntry mode)))))
       (\<lambda>e. yield False)"

subsection \<open>Reading and writing\<close>

definition FileOperations_Read :: "'d sys \<Rightarrow> u32 \<Rightarrow> int \<Rightarrow> int \<Rightarrow> ('d, int \<times> u8 list) world_eff" where
  "FileOperations_Read S now fd len =
     and_then (real_fd fd) (\<lambda>(r, fdEntry).
     let iDriveID = fd_driveID fdEntry
     in
       and_then (drive_or_throw S iDriveID) (\<lambda>i.
       and_then (start_cwd iDriveID i) (\<lambda>cwd.
       and_then (on_file i r (Directory_FileRead (sy_io S) (sy_A S) (sy_C S) (sy_fuel S) cwd (of_int len))) (\<lambda>(readLen, buffer).
       then_do (FileOperations_UpdateTime S now (fd_fileName fdEntry) iDriveID 1)
         (then_do (add_offset i r (of_int readLen)) (yield (readLen, buffer)))))))"

text \<open>The loop over chunks of 1 MB; \<open>buffer\<close> is never advanced.\<close>

function Chunk_loop :: "'d sys \<Rightarrow> nat \<Rightarrow> int \<Rightarrow> cwd \<Rightarrow> u8 list \<Rightarrow> nat \<Rightarrow> ('d, unit) world_eff" where
  "Chunk_loop S i r cwd buffer uiIncLen =
     (let n = (if uiIncLen > 1048576 then 1048576 else uiIncLen)
      in
        then_do (on_file i r (Directory_FileWrite (sy_io S) (sy_A S) (sy_C S) (sy_fuel S) (sy_junk S) cwd (take n buffer)))
          (then_do (add_offset i r (of_nat n))
             (if uiIncLen - n = 0 then yield () else Chunk_loop S i r cwd buffer (uiIncLen - n))))"
  by pat_completeness auto
termination
  by (relation "measure (\<lambda>(S, i, r, cwd, buffer, uiIncLen). uiIncLen)") auto

declare Chunk_loop.simps [simp del]

text \<open>\<open>buffer\<close> holds the \<open>len\<close> bytes to write; the result is \<open>*pWriteLen\<close>.\<close>

definition FileOperations_Write :: "'d sys \<Rightarrow> u32 \<Rightarrow> int \<Rightarrow> u8 list \<Rightarrow> ('d, int) world_eff" where
  "FileOperations_Write S now fd buffer =
     and_then (real_fd fd) (\<lambda>(r, f).
     if isStdOut f then
       then_do (modify (\<lambda>w. w\<lparr>w_display := w_display w @ buffer\<rparr>)) (yield (int (length buffer)))
     else if fd_mode f AND O_WRONLY (sy_K S) = 0 \<and> fd_mode f AND O_RDWR (sy_K S) = 0 \<and> fd_mode f AND O_APPEND (sy_K S) = 0 then
       throw (NoPermission (fd_fileName f))
     else
       let iDriveID = fd_driveID f
       in
         and_then (drive_or_throw S iDriveID) (\<lambda>i.
         and_then (start_cwd iDriveID i) (\<lambda>cwd.
         then_do (Chunk_loop S i r cwd buffer (length buffer))
           (then_do (FileOperations_UpdateTime S now (fd_fileName f) iDriveID 3) (yield (int (length buffer)))))))"

definition FileOperations_Seek :: "'d sys \<Rightarrow> int \<Rightarrow> int \<Rightarrow> int \<Rightarrow> ('d, unit) world_eff" where
  "FileOperations_Seek S fd iOffset seekType = on_fds (updateOffset (fs_consts.truncate (sy_K S)) fd seekType iOffset)"

definition FileOperations_GetOffset :: "int \<Rightarrow> ('d, u32) world_eff" where
  "FileOperations_GetOffset fd = on_fds (\<lambda>t. map_option (\<lambda>r. (r, t)) (getOffset fd t))"

text \<open>Lines are read in chunks of 64 bytes; a chunk is a C string, cut at a zero byte.\<close>

fun ReadLine_loop :: "'d sys \<Rightarrow> u32 \<Rightarrow> int \<Rightarrow> nat \<Rightarrow> u8 list list \<Rightarrow> ('d, u8 list list) world_eff" where
  "ReadLine_loop S now fd 0 buffers = undef"
| "ReadLine_loop S now fd (Suc n) buffers =
     and_then (FileOperations_Read S now fd 64) (\<lambda>(readLen, buffer).
     if readLen = 0 then yield buffers
     else
       let line = takeWhile (\<lambda>c. c \<noteq> 10) (take (nat readLen) buffer);
           i = int (length line);
           buffers = buffers @ [takeWhile (\<lambda>c. c \<noteq> 0) line];
           offset = i - readLen + 1
       in if offset < 0 then then_do (FileOperations_Seek S fd offset (SEEK_CUR (sy_K S))) (yield buffers)
          else ReadLine_loop S now fd n buffers)"

definition FileOperations_ReadLine :: "'d sys \<Rightarrow> u32 \<Rightarrow> nat \<Rightarrow> int \<Rightarrow> ('d, bool \<times> u8 list) world_eff" where
  "FileOperations_ReadLine S now fuel fd =
     and_then (ReadLine_loop S now fd fuel []) (\<lambda>buffers.
     if buffers = [] then yield (False, []) else yield (True, concat buffers))"

subsection \<open>The working directory and the rest\<close>

definition FileOperations_GetCWD :: "'d sys \<Rightarrow> int \<Rightarrow> ('d, string) world_eff" where
  "FileOperations_GetCWD S iBufSize =
     and_then (gets w_process) (\<lambda>p.
     and_then (drive_or_throw S (pr_driveID p)) (\<lambda>i.
     and_then (on_disk i (FullPath (sy_io S) (sy_C S) (sy_fuel S) (pw_DirEntry (pr_processPWD p)))) (\<lambda>fullPath.
     if int (length fullPath) > iBufSize then throw BufferTooSmall
     else if int (length fullPath) = iBufSize then undef
     else yield fullPath)))"

definition FileOperations_ChangeDir :: "'d sys \<Rightarrow> string \<Rightarrow> ('d, unit) world_eff" where
  "FileOperations_ChangeDir S szFileName =
     and_then (FileOperations_ParseFilePathWithDrive szFileName (sy_uninit S)) (\<lambda>(szFile, iDriveID).
     Directory_Change S szFile iDriveID)"

definition FileOperations_GetDirectoryContent :: "'d sys \<Rightarrow> string \<Rightarrow> ('d, int \<times> fs_node list) world_eff" where
  "FileOperations_GetDirectoryContent S szPathAddress =
     and_then (FileOperations_ParseFilePathWithDrive szPathAddress (sy_uninit S)) (\<lambda>(szPath, iDriveID).
     Directory_GetDirectoryContent S szPath iDriveID)"

definition FileOperations_GetFileOpenMode :: "int \<Rightarrow> ('d, u8) world_eff" where
  "FileOperations_GetFileOpenMode fd = and_then (real_fd fd) (\<lambda>(_, f). yield (fd_mode f))"

definition FileOperations_SyncPWD :: "'d sys \<Rightarrow> ('d, unit) world_eff" where
  "FileOperations_SyncPWD S = Directory_SyncPWD S"

definition FileOperations_Dup2 :: "'d sys \<Rightarrow> int \<Rightarrow> int \<Rightarrow> ('d, unit) world_eff" where
  "FileOperations_Dup2 S oldFD newFD = on_fds (dup2 (fs_consts.truncate (sy_K S)) oldFD newFD)"

definition FileOperations_ReInitStdFd :: "'d sys \<Rightarrow> int \<Rightarrow> ('d, unit) world_eff" where
  "FileOperations_ReInitStdFd S stdFD = on_fds (\<lambda>t. Some (initStdFile (fs_consts.truncate (sy_K S)) stdFD t))"

end
