(* ===== verification/Scheduler.thy ===== *)
theory Scheduler
  imports Effects
begin

text \<open>
  Processes and the scheduler: \<open>process/ProcessManager.cpp\<close>, the life cycle of
  \<open>process/SchedulableProcess.cpp\<close>, \<open>process/AutonomousProcess.cpp\<close>, \<open>process/Thread.cpp\<close>,
  \<open>process/ProcessGroup.cpp\<close>, \<open>kernel/ResourceMutex.cpp\<close> and the interrupt counters of
  \<open>kernel/IrqManager.cpp\<close>.

  A process object is known by its process id, which is unique; \<open>sc_objects\<close> holds the objects that
  exist, \<open>sc_map\<close> the keys of \<open>_processMap\<close>. The scheduler list is split at the iterator of
  \<open>StartScheduler\<close>: \<open>sc_done\<close> lies before it, \<open>sc_todo\<close> starts with the element it points to. The
  iterator \<open>_nextThreadIt\<close> is an index, \<open>None\<close> for \<open>end()\<close>. The use of an object that is deleted
  is undefined. What a process does in its time slice is a list of kernel calls and the way the
  slice ends; a call that waits ends it. The address spaces, the saved registers, the drives, the
  user ids and the mutexes of the processes are not part of the state.
\<close>

section \<open>The state\<close>

datatype PROCESS_STATUS = NEW | RUN | WAIT_SLEEP | WAIT_INT | WAIT_EVENT | WAIT_CHILD | WAIT_RESOURCE
  | WAIT_KERNEL_SERVICE | TERMINATED | RELEASED

abbreviation (input) NO_PROCESS_ID :: int where "NO_PROCESS_ID \<equiv> -1"
abbreviation (input) MAX_NO_PROCESS :: nat where "MAX_NO_PROCESS \<equiv> 3500"
abbreviation (input) RESOURCE_NIL :: nat where "RESOURCE_NIL \<equiv> 999"
abbreviation (input) MAX_RESOURCE :: nat where "MAX_RESOURCE \<equiv> 5"
abbreviation (input) NO_IRQ :: int where "NO_IRQ \<equiv> 999"
abbreviation (input) KEYBOARD_IRQ :: int where "KEYBOARD_IRQ \<equiv> 1"

record state_info =
  si_sleepTime :: u32
  si_irq :: int
  si_waitChildProcId :: int
  si_waitResourceId :: nat
  si_eventCompleted :: bool
  si_kernelServiceComplete :: bool

definition ProcessStateInfo :: state_info where
  "ProcessStateInfo = \<lparr>si_sleepTime = 0, si_irq = NO_IRQ, si_waitChildProcId = NO_PROCESS_ID,
     si_waitResourceId = RESOURCE_NIL, si_eventCompleted = False, si_kernelServiceComplete = False\<rparr>"

text \<open>An \<open>AutonomousProcess\<close> with its threads and the next one to schedule, or a \<open>Thread\<close> of one.\<close>

datatype proc_kind = Autonomous "int list" "nat option" | ChildThread int

record proc =
  pr_kind :: proc_kind
  pr_mainThreadID :: int
  pr_parentProcessID :: int
  pr_status :: PROCESS_STATUS
  pr_stateInfo :: state_info
  pr_group :: int
  pr_childProcessIDs :: "int list"

record group =
  gr_iProcessCount :: int
  gr_fgProcessList :: "int list"

record sched =
  sc_objects :: "int \<Rightarrow> proc option"
  sc_map :: "int list"
  sc_done :: "int list"
  sc_todo :: "int list"
  sc_nextPid :: int
  sc_current :: int
  sc_kernelPid :: int
  sc_groups :: "int \<Rightarrow> group option"
  sc_groupSeq :: int
  sc_fgGroup :: int
  sc_kernelModeStateInfo :: state_info
  sc_resources :: "bool list"
  sc_irqs :: "int \<Rightarrow> u32"
  sc_clock :: u32
  sc_contextSwitch :: bool
  sc_taskSwitch :: bool

datatype proc_error = MaxProcessLimit | NoParentProcess int

type_synonym 'a sched_eff = "(sched, proc_error, 'a) eff"

section \<open>Objects\<close>

definition object :: "int \<Rightarrow> proc sched_eff" where
  "object pid = and_then (gets (\<lambda>S. sc_objects S pid)) (the_or undef)"

definition change :: "int \<Rightarrow> (proc \<Rightarrow> proc) \<Rightarrow> unit sched_eff" where
  "change pid f = and_then (object pid) (\<lambda>p. modify (\<lambda>S. S\<lparr>sc_objects := (sc_objects S)(pid \<mapsto> f p)\<rparr>))"

definition delete :: "int \<Rightarrow> unit sched_eff" where
  "delete pid = then_do (object pid) (modify (\<lambda>S. S\<lparr>sc_objects := (sc_objects S)(pid := None)\<rparr>))"

definition setStatus :: "PROCESS_STATUS \<Rightarrow> int \<Rightarrow> unit sched_eff" where
  "setStatus st pid = change pid (\<lambda>p. p\<lparr>pr_status := st\<rparr>)"

definition set_info :: "(state_info \<Rightarrow> state_info) \<Rightarrow> int \<Rightarrow> unit sched_eff" where
  "set_info f pid = change pid (\<lambda>p. p\<lparr>pr_stateInfo := f (pr_stateInfo p)\<rparr>)"

definition isChildThread :: "int \<Rightarrow> proc \<Rightarrow> bool" where
  "isChildThread pid p \<longleftrightarrow> pid \<noteq> pr_mainThreadID p"

definition addChildProcessID :: "int \<Rightarrow> int \<Rightarrow> unit sched_eff" where
  "addChildProcessID child pid = change pid (\<lambda>p. p\<lparr>pr_childProcessIDs := List.insert child (pr_childProcessIDs p)\<rparr>)"

definition removeChildProcessID :: "int \<Rightarrow> int \<Rightarrow> unit sched_eff" where
  "removeChildProcessID child pid = change pid (\<lambda>p. p\<lparr>pr_childProcessIDs := removeAll child (pr_childProcessIDs p)\<rparr>)"

text \<open>\<open>GetAddressSpace\<close>: the process id again when it is in the process map.\<close>

definition GetAddressSpace :: "int \<Rightarrow> (int option) sched_eff" where
  "GetAddressSpace pid = gets (\<lambda>S. if pid \<in> set (sc_map S) then Some pid else None)"

definition ifPresent :: "int option \<Rightarrow> (int \<Rightarrow> unit sched_eff) \<Rightarrow> unit sched_eff" where
  "ifPresent x f = (case x of None \<Rightarrow> yield () | Some y \<Rightarrow> f y)"

definition AddToProcessMap :: "int \<Rightarrow> unit sched_eff" where
  "AddToProcessMap pid = and_then (gets sc_map) (\<lambda>m.
     if length m + 1 > MAX_NO_PROCESS then throw MaxProcessLimit
     else modify (\<lambda>S. S\<lparr>sc_map := List.insert pid (sc_map S)\<rparr>))"

definition RemoveFromProcessMap :: "int \<Rightarrow> unit sched_eff" where
  "RemoveFromProcessMap pid = then_do (object pid) (modify (\<lambda>S. S\<lparr>sc_map := removeAll pid (sc_map S)\<rparr>))"

definition AddToSchedulerList :: "int \<Rightarrow> unit sched_eff" where
  "AddToSchedulerList pid =
     then_do (AddToProcessMap pid)
       (then_do (setStatus RUN pid) (modify (\<lambda>S. S\<lparr>sc_todo := sc_todo S @ [pid]\<rparr>)))"

section \<open>Process groups\<close>

definition group_of :: "int \<Rightarrow> group sched_eff" where
  "group_of g = and_then (gets (\<lambda>S. sc_groups S g)) (the_or undef)"

definition change_group :: "int \<Rightarrow> (group \<Rightarrow> group) \<Rightarrow> unit sched_eff" where
  "change_group g f = and_then (group_of g) (\<lambda>x. modify (\<lambda>S. S\<lparr>sc_groups := (sc_groups S)(g \<mapsto> f x)\<rparr>))"

definition ProcessGroup :: "bool \<Rightarrow> int sched_eff" where
  "ProcessGroup isFGProcessGroup =
     and_then (gets (\<lambda>S. sc_groupSeq S + 1)) (\<lambda>g.
     then_do (modify (\<lambda>S. S\<lparr>sc_groupSeq := g, sc_groups := (sc_groups S)(g \<mapsto> \<lparr>gr_iProcessCount = 0, gr_fgProcessList = []\<rparr>),
         sc_fgGroup := (if isFGProcessGroup then g else sc_fgGroup S)\<rparr>))
       (yield g))"

definition PutOnFGProcessList :: "int \<Rightarrow> int \<Rightarrow> unit sched_eff" where
  "PutOnFGProcessList pid g = change_group g (\<lambda>x. x\<lparr>gr_fgProcessList := pid # gr_fgProcessList x\<rparr>)"

definition RemoveFromFGProcessList :: "int \<Rightarrow> int \<Rightarrow> unit sched_eff" where
  "RemoveFromFGProcessList pid g = change_group g (\<lambda>x. x\<lparr>gr_fgProcessList := removeAll pid (gr_fgProcessList x)\<rparr>)"

definition AddProcess :: "int \<Rightarrow> unit sched_eff" where
  "AddProcess g = change_group g (\<lambda>x. x\<lparr>gr_iProcessCount := gr_iProcessCount x + 1\<rparr>)"

definition RemoveProcess :: "int \<Rightarrow> unit sched_eff" where
  "RemoveProcess g = change_group g (\<lambda>x. x\<lparr>gr_iProcessCount := gr_iProcessCount x - 1\<rparr>)"

definition SwitchToFG :: "int \<Rightarrow> unit sched_eff" where
  "SwitchToFG g = modify (\<lambda>S. S\<lparr>sc_fgGroup := g\<rparr>)"

definition IsFGProcess :: "int \<Rightarrow> group \<Rightarrow> bool" where
  "IsFGProcess pid x \<longleftrightarrow> (case gr_fgProcessList x of [] \<Rightarrow> False | q # _ \<Rightarrow> q = pid)"

section \<open>Creating processes and threads\<close>

definition SchedulableProcess :: "proc_kind \<Rightarrow> int option \<Rightarrow> int \<Rightarrow> bool \<Rightarrow> int sched_eff" where
  "SchedulableProcess kind mainID parentID isFGProcess =
     and_then (gets sc_nextPid) (\<lambda>pid.
     then_do (modify (\<lambda>S. S\<lparr>sc_nextPid := pid + 1\<rparr>))
       (and_then (GetAddressSpace parentID) (\<lambda>parentProcess.
        and_then (case parentProcess of None \<Rightarrow> ProcessGroup isFGProcess
                  | Some pp \<Rightarrow> and_then (object pp) (\<lambda>p. yield (pr_group p))) (\<lambda>g.
        then_do (AddProcess g)
          (then_do (only_if isFGProcess (PutOnFGProcessList pid g))
             (then_do (modify (\<lambda>S. S\<lparr>sc_objects := (sc_objects S)(pid \<mapsto>
                  \<lparr>pr_kind = kind, pr_mainThreadID = (case mainID of None \<Rightarrow> pid | Some m \<Rightarrow> m),
                   pr_parentProcessID = parentID, pr_status = NEW,
                   pr_stateInfo = ProcessStateInfo, pr_group = g, pr_childProcessIDs = []\<rparr>)\<rparr>))
                (yield pid)))))))"

text \<open>A \<open>KernelProcess\<close> or a \<open>UserProcess\<close>.\<close>

definition NewAutonomousProcess :: "int \<Rightarrow> bool \<Rightarrow> int sched_eff" where
  "NewAutonomousProcess parentID isFGProcess =
     and_then (SchedulableProcess (Autonomous [] None) None parentID isFGProcess) (\<lambda>pid.
     and_then (GetAddressSpace parentID) (\<lambda>parentProcess.
     then_do (ifPresent parentProcess (addChildProcessID pid)) (yield pid)))"

text \<open>\<open>CreateKernelProcess\<close> and \<open>Create\<close>: a thrown error is printed and gives -1.\<close>

definition CreateProcess :: "int \<Rightarrow> bool \<Rightarrow> int sched_eff" where
  "CreateProcess iParentProcessID bIsFGProcess =
     catch (and_then (NewAutonomousProcess iParentProcessID bIsFGProcess) (\<lambda>pid.
        then_do (AddToSchedulerList pid) (yield pid))) (\<lambda>_. yield (-1))"

definition GetThreadParentProcess :: "int \<Rightarrow> int sched_eff" where
  "GetThreadParentProcess pid =
     and_then (GetAddressSpace pid) (\<lambda>parent. case parent of None \<Rightarrow> throw (NoParentProcess pid)
     | Some q \<Rightarrow> and_then (object q) (\<lambda>p. case pr_kind p of Autonomous _ _ \<Rightarrow> yield q | ChildThread m \<Rightarrow> yield m))"

definition addToThreadScheduler :: "int \<Rightarrow> int \<Rightarrow> unit sched_eff" where
  "addToThreadScheduler t pid =
     then_do (change pid (\<lambda>p. case pr_kind p of
         Autonomous ts nx \<Rightarrow> p\<lparr>pr_kind := Autonomous (ts @ [t]) nx\<rparr> | ChildThread m \<Rightarrow> p))
       (setStatus RUN t)"

definition CreateThreadTask :: "int \<Rightarrow> int sched_eff" where
  "CreateThreadTask parentID =
     catch (and_then (GetThreadParentProcess parentID) (\<lambda>m.
        then_do (object m)
          (and_then (SchedulableProcess (ChildThread m) (Some m) m False) (\<lambda>t.
             then_do (addToThreadScheduler t m)
               (then_do (AddToProcessMap t) (yield t)))))) (\<lambda>_. yield (-1))"

section \<open>Ending processes\<close>

definition Release :: "int \<Rightarrow> unit sched_eff" where
  "Release pid = setStatus RELEASED pid"

text \<open>\<open>Destroy\<close> from the redirection of the child processes on.\<close>

definition Destroy_rest :: "int \<Rightarrow> unit sched_eff" where
  "Destroy_rest pid =
     and_then (object pid) (\<lambda>me.
     and_then (GetAddressSpace (pr_parentProcessID me)) (\<lambda>parentProcess.
     then_do
       (steps (\<lambda>child. and_then (GetAddressSpace child) (\<lambda>x. ifPresent x (\<lambda>c.
          and_then (object c) (\<lambda>p.
            if pr_status p = TERMINATED then Release c
            else ifPresent parentProcess (\<lambda>pp.
              then_do (change c (\<lambda>p. p\<lparr>pr_parentProcessID := pp\<rparr>)) (addChildProcessID c pp))))))
        (pr_childProcessIDs me))
       (then_do (RemoveFromFGProcessList pid (pr_group me))
          (then_do (RemoveProcess (pr_group me))
             (and_then (group_of (pr_group me)) (\<lambda>x.
              then_do (only_if (gr_iProcessCount x = 0) (modify (\<lambda>S. S\<lparr>sc_groups := (sc_groups S)(pr_group me := None)\<rparr>)))
                (only_if (pr_parentProcessID me = NO_PROCESS_ID) (Release pid))))))))"

definition Destroy_thread :: "int \<Rightarrow> unit sched_eff" where
  "Destroy_thread t = then_do (setStatus TERMINATED t) (Destroy_rest t)"

definition DestroyThreads :: "int \<Rightarrow> unit sched_eff" where
  "DestroyThreads pid =
     and_then (object pid) (\<lambda>me. case pr_kind me of
       ChildThread m \<Rightarrow> yield ()
     | Autonomous ts nx \<Rightarrow>
         then_do
           (steps (\<lambda>t. and_then (object t) (\<lambda>p.
              then_do (only_if (pr_status p \<noteq> TERMINATED \<and> pr_status p \<noteq> RELEASED) (Destroy_thread t))
                (then_do (Release t) (then_do (RemoveFromProcessMap t) (delete t))))) ts)
           (change pid (\<lambda>p. p\<lparr>pr_kind := Autonomous [] None\<rparr>)))"

definition Destroy :: "int \<Rightarrow> unit sched_eff" where
  "Destroy pid = then_do (setStatus TERMINATED pid) (then_do (DestroyThreads pid) (Destroy_rest pid))"

section \<open>Waiting\<close>

text \<open>\<open>PIT_DisableTaskSwitch\<close> and \<open>PIT_EnableTaskSwitch\<close>, without their results.\<close>

definition task_switch :: "bool \<Rightarrow> unit sched_eff" where
  "task_switch b = modify (\<lambda>S. S\<lparr>sc_taskSwitch := b\<rparr>)"

text \<open>\<open>ProcessManager_Yield\<close> up to the switch to the scheduler.\<close>

definition ProcessManager_Yield :: "unit sched_eff" where
  "ProcessManager_Yield = then_do (task_switch False) (modify (\<lambda>S. S\<lparr>sc_contextSwitch := True\<rparr>))"

definition ProcessManager_Exit :: "unit sched_eff" where
  "ProcessManager_Exit = then_do (task_switch False) (modify (\<lambda>S. S\<lparr>sc_contextSwitch := False\<rparr>))"

text \<open>The waiting calls of the current process, where it is not polling: it prepares its state
  information, takes a waiting status and yields.\<close>

definition wait_with :: "(state_info \<Rightarrow> state_info) \<Rightarrow> PROCESS_STATUS \<Rightarrow> unit sched_eff" where
  "wait_with f st = and_then (gets sc_current) (\<lambda>me.
     then_do (task_switch False)
       (then_do (set_info f me)
          (then_do (setStatus st me) ProcessManager_Yield)))"

definition PIT_RoundSleepTime :: "u32 \<Rightarrow> u32" where
  "PIT_RoundSleepTime uiSleepTime = uiSleepTime"

definition Sleep :: "u32 \<Rightarrow> unit sched_eff" where
  "Sleep uiSleepTime = and_then (gets sc_clock) (\<lambda>now.
     wait_with (\<lambda>i. i\<lparr>si_sleepTime := now + PIT_RoundSleepTime uiSleepTime\<rparr>) WAIT_SLEEP)"

definition WaitOnInterrupt :: "int \<Rightarrow> unit sched_eff" where
  "WaitOnInterrupt irq = wait_with (\<lambda>i. i\<lparr>si_irq := irq\<rparr>) WAIT_INT"

definition WaitForEvent :: "unit sched_eff" where
  "WaitForEvent = wait_with id WAIT_EVENT"

definition WaitOnChild :: "int \<Rightarrow> unit sched_eff" where
  "WaitOnChild iChildProcessID = and_then (gets sc_current) (\<lambda>me.
     if me < 0 \<or> iChildProcessID < 0 \<or> int MAX_NO_PROCESS \<le> iChildProcessID then yield ()
     else wait_with (\<lambda>i. i\<lparr>si_waitChildProcId := iChildProcessID\<rparr>) WAIT_CHILD)"

definition WaitOnResource :: "nat \<Rightarrow> unit sched_eff" where
  "WaitOnResource resourceKey = and_then (gets sc_current) (\<lambda>me.
     if me < 0 then yield () else wait_with (\<lambda>i. i\<lparr>si_waitResourceId := resourceKey\<rparr>) WAIT_RESOURCE)"

definition WaitOnKernelService :: "unit sched_eff" where
  "WaitOnKernelService = and_then (gets sc_current) (\<lambda>me.
     if me < 0 then yield () else wait_with (\<lambda>i. i\<lparr>si_kernelServiceComplete := False\<rparr>) WAIT_KERNEL_SERVICE)"

definition Kill :: "int \<Rightarrow> unit sched_eff" where
  "Kill iProcessID = and_then (GetAddressSpace iProcessID) (\<lambda>x. ifPresent x (\<lambda>q.
     then_do (setStatus TERMINATED q) ProcessManager_Yield))"

section \<open>Waking up\<close>

definition WakeUpFromKSWait :: "int \<Rightarrow> unit sched_eff" where
  "WakeUpFromKSWait iProcessID = and_then (GetAddressSpace iProcessID) (\<lambda>x. ifPresent x
     (set_info (\<lambda>i. i\<lparr>si_kernelServiceComplete := True\<rparr>)))"

text \<open>\<open>GetProcessStateInfo\<close>: that of the process, or the one of the kernel mode.\<close>

definition EventCompleted :: "int \<Rightarrow> unit sched_eff" where
  "EventCompleted pid = and_then (GetAddressSpace pid) (\<lambda>x. case x of
     Some q \<Rightarrow> set_info (\<lambda>i. i\<lparr>si_eventCompleted := True\<rparr>) q
   | None \<Rightarrow> modify (\<lambda>S. S\<lparr>sc_kernelModeStateInfo := (sc_kernelModeStateInfo S)\<lparr>si_eventCompleted := True\<rparr>\<rparr>))"

definition IsEventCompleted :: "int \<Rightarrow> bool sched_eff" where
  "IsEventCompleted pid = and_then (GetAddressSpace pid) (\<lambda>x. case x of
     Some q \<Rightarrow> and_then (object q) (\<lambda>p. then_do (set_info (\<lambda>i. i\<lparr>si_eventCompleted := False\<rparr>) q)
       (yield (si_eventCompleted (pr_stateInfo p))))
   | None \<Rightarrow> and_then (gets sc_kernelModeStateInfo) (\<lambda>i.
       then_do (modify (\<lambda>S. S\<lparr>sc_kernelModeStateInfo := i\<lparr>si_eventCompleted := False\<rparr>\<rparr>)) (yield (si_eventCompleted i))))"

definition IRQ_Signal :: "int \<Rightarrow> unit sched_eff" where
  "IRQ_Signal irq = modify (\<lambda>S. S\<lparr>sc_irqs := (sc_irqs S)(irq := sc_irqs S irq + 1)\<rparr>)"

definition IRQ_Consume :: "int \<Rightarrow> bool sched_eff" where
  "IRQ_Consume irq = and_then (gets (\<lambda>S. sc_irqs S irq)) (\<lambda>n.
     if n > 0 then then_do (modify (\<lambda>S. S\<lparr>sc_irqs := (sc_irqs S)(irq := n - 1)\<rparr>)) (yield True)
     else yield False)"

definition WakeupProcessOnInterrupt :: "int \<Rightarrow> bool sched_eff" where
  "WakeupProcessOnInterrupt pid =
     and_then (object pid) (\<lambda>p.
     let irq = si_irq (pr_stateInfo p)
     in if irq = NO_IRQ then yield True
        else
          and_then
            (if irq = KEYBOARD_IRQ then
               and_then (group_of (pr_group p)) (\<lambda>x. and_then (gets sc_fgGroup) (\<lambda>fg.
                 yield (IsFGProcess pid x \<and> pr_group p = fg)))
             else yield True) (\<lambda>may.
          if \<not> may then yield False
          else and_then (IRQ_Consume irq) (\<lambda>b. then_do (only_if b (setStatus RUN pid)) (yield b))))"

definition IsResourceBusy :: "nat \<Rightarrow> bool sched_eff" where
  "IsResourceBusy uiType = and_then (gets sc_resources) (\<lambda>rs. if uiType < length rs then yield (rs ! uiType) else undef)"

definition SetResourceBusy :: "nat \<Rightarrow> bool \<Rightarrow> unit sched_eff" where
  "SetResourceBusy uiType bVal = and_then (gets sc_resources) (\<lambda>rs.
     if uiType < length rs then modify (\<lambda>S. S\<lparr>sc_resources := rs[uiType := bVal]\<rparr>) else undef)"

text \<open>\<open>ResourceMutex::Lock\<close>: \<open>Lock_end\<close> are its last two statements. The result is \<open>None\<close> when the process waits: then it goes on
  with \<open>Lock_end\<close> when the scheduler gives it the processor again. The kernel itself (a negative process id) does not wait and goes on
  at once. \<open>UnLock\<close> restores the task switch.\<close>

definition Lock_end :: "bool sched_eff" where
  "Lock_end = then_do (task_switch True) (yield True)"

definition ResourceMutex_Lock :: "bool \<Rightarrow> nat \<Rightarrow> bool option sched_eff" where
  "ResourceMutex_Lock blocking key =
     then_do (task_switch False)
       (and_then (IsResourceBusy key) (\<lambda>busy.
        if \<not> busy then then_do (SetResourceBusy key True) (and_then Lock_end (\<lambda>b. yield (Some b)))
        else if \<not> blocking then yield (Some False)
        else and_then (gets sc_current) (\<lambda>me.
          then_do (WaitOnResource key)
            (if me < 0 then and_then Lock_end (\<lambda>b. yield (Some b)) else yield None))))"

definition ResourceMutex_UnLock :: "nat \<Rightarrow> unit sched_eff" where
  "ResourceMutex_UnLock key = SetResourceBusy key False"

section \<open>Questions\<close>

definition IsAlive :: "int \<Rightarrow> bool sched_eff" where
  "IsAlive pid = and_then (GetAddressSpace pid) (\<lambda>x. case x of None \<Rightarrow> yield False
     | Some q \<Rightarrow> and_then (object q) (\<lambda>p. yield (pr_status p \<noteq> TERMINATED \<and> pr_status p \<noteq> RELEASED)))"

definition IsChildAlive :: "int \<Rightarrow> bool sched_eff" where
  "IsChildAlive iChildProcessID =
     (if iChildProcessID < 0 \<or> int MAX_NO_PROCESS \<le> iChildProcessID then yield False
      else and_then (GetAddressSpace iChildProcessID) (\<lambda>x. case x of None \<Rightarrow> yield False
        | Some q \<Rightarrow> and_then (object q) (\<lambda>p. and_then (gets sc_current) (\<lambda>me. yield (pr_parentProcessID p = me)))))"

section \<open>A time slice\<close>

text \<open>What happens during the slice of the current process: its kernel calls that do not wait, and
  what interrupts do. A slice ends by the timer, by leaving, or in a call that waits.\<close>

datatype kernel_call =
    CallCreateProcess int bool
  | CallCreateThread int
  | CallWakeUpFromKSWait int
  | CallEventCompleted int
  | CallSetResourceBusy nat bool
  | CallSwitchToFG int
  | InterruptSignal int
  | TimerTick

datatype slice_end =
    Preempted
  | Exits
  | Sleeps u32
  | WaitsOnInterrupt int
  | WaitsForEvent
  | WaitsOnChild int
  | WaitsOnResource nat
  | WaitsOnKernelService
  | Kills int

fun run_call :: "kernel_call \<Rightarrow> unit sched_eff" where
  "run_call (CallCreateProcess parentID fg) = then_do (CreateProcess parentID fg) (yield ())"
| "run_call (CallCreateThread parentID) = then_do (CreateThreadTask parentID) (yield ())"
| "run_call (CallWakeUpFromKSWait pid) = WakeUpFromKSWait pid"
| "run_call (CallEventCompleted pid) = EventCompleted pid"
| "run_call (CallSetResourceBusy key b) = SetResourceBusy key b"
| "run_call (CallSwitchToFG g) = SwitchToFG g"
| "run_call (InterruptSignal irq) = IRQ_Signal irq"
| "run_call TimerTick = modify (\<lambda>S. S\<lparr>sc_clock := sc_clock S + 1\<rparr>)"

text \<open>A call that returns without waiting (\<open>WaitOnChild\<close> of an impossible child, \<open>Kill\<close> of an unknown
  process) goes on until the timer.\<close>

definition preempt :: "unit sched_eff" where
  "preempt = modify (\<lambda>S. S\<lparr>sc_contextSwitch := True\<rparr>)"

fun run_end :: "slice_end \<Rightarrow> unit sched_eff" where
  "run_end Preempted = preempt"
| "run_end Exits = ProcessManager_Exit"
| "run_end (Sleeps t) = Sleep t"
| "run_end (WaitsOnInterrupt irq) = WaitOnInterrupt irq"
| "run_end WaitsForEvent = WaitForEvent"
| "run_end (WaitsOnChild c) = then_do (WaitOnChild c) preempt"
| "run_end (WaitsOnResource key) = then_do (WaitOnResource key) preempt"
| "run_end WaitsOnKernelService = then_do WaitOnKernelService preempt"
| "run_end (Kills pid) = then_do (Kill pid) preempt"

type_synonym slice = "kernel_call list \<times> slice_end"

definition run_slice :: "slice \<Rightarrow> unit sched_eff" where
  "run_slice sl = then_do (steps run_call (fst sl)) (run_end (snd sl))"

section \<open>The scheduler\<close>

text \<open>Whether a process gets the processor: what \<open>DoContextSwitch\<close> does by its status, before the switch.\<close>

definition wake :: "int \<Rightarrow> bool sched_eff" where
  "wake pid =
     and_then (object pid) (\<lambda>p.
     let i = pr_stateInfo p; runs = then_do (setStatus RUN pid) (yield True)
     in case pr_status p of
          RELEASED \<Rightarrow> yield False
        | TERMINATED \<Rightarrow> and_then (gets sc_kernelPid) (\<lambda>k.
            then_do (only_if (pr_parentProcessID p = k) (Release pid)) (yield False))
        | WAIT_SLEEP \<Rightarrow> and_then (gets sc_clock) (\<lambda>now.
            if now \<ge> si_sleepTime i then then_do (set_info (\<lambda>i. i\<lparr>si_sleepTime := 0\<rparr>) pid) runs
            else yield False)
        | WAIT_INT \<Rightarrow> WakeupProcessOnInterrupt pid
        | WAIT_EVENT \<Rightarrow> and_then (IsEventCompleted pid) (\<lambda>b. if \<not> b then yield False else runs)
        | WAIT_CHILD \<Rightarrow>
            let no_child = set_info (\<lambda>i. i\<lparr>si_waitChildProcId := NO_PROCESS_ID\<rparr>) pid;
                c = si_waitChildProcId i
            in if c < 0 then then_do no_child runs
               else
                 and_then (GetAddressSpace c) (\<lambda>childProcess. case childProcess of
                   None \<Rightarrow> then_do (removeChildProcessID c pid) (then_do no_child runs)
                 | Some q \<Rightarrow> and_then (object q) (\<lambda>ch. and_then (gets sc_current) (\<lambda>me.
                     if pr_parentProcessID ch \<noteq> me then then_do (removeChildProcessID c pid) (then_do no_child runs)
                     else if pr_status ch = TERMINATED then
                       then_do (Release q) (then_do (removeChildProcessID c pid) (then_do no_child runs))
                     else yield False)))
        | WAIT_RESOURCE \<Rightarrow>
            if si_waitResourceId i = RESOURCE_NIL then runs
            else and_then (IsResourceBusy (si_waitResourceId i)) (\<lambda>busy.
              if \<not> busy then then_do (set_info (\<lambda>i. i\<lparr>si_waitResourceId := RESOURCE_NIL\<rparr>) pid) runs
              else yield False)
        | WAIT_KERNEL_SERVICE \<Rightarrow>
            if si_kernelServiceComplete i then
              then_do (set_info (\<lambda>i. i\<lparr>si_kernelServiceComplete := False\<rparr>) pid) runs
            else yield False
        | RUN \<Rightarrow> yield True
        | NEW \<Rightarrow> yield False)"

text \<open>\<open>sl\<close> is the slice of the process, if it gets one.\<close>

definition DoContextSwitch :: "slice \<Rightarrow> int \<Rightarrow> unit sched_eff" where
  "DoContextSwitch sl pid =
     then_do (modify (\<lambda>S. S\<lparr>sc_current := pid\<rparr>))
       (and_then (wake pid) (\<lambda>go. only_if go
          (then_do (modify (\<lambda>S. S\<lparr>sc_contextSwitch := False\<rparr>))
             (then_do (run_slice sl)
                (and_then (gets sc_contextSwitch) (\<lambda>switch.
                 and_then (object pid) (\<lambda>p.
                 then_do (only_if (\<not> switch \<or> pr_status p = TERMINATED) (Destroy pid)) (task_switch True))))))))"

text \<open>\<open>AutonomousProcess::forSchedule\<close>, the loop over the threads from index \<open>i\<close> on: \<open>pre\<close> lies before
  the iterator. Threads that are released are deleted; each round deletes one or ends the loop.\<close>

function Threads_loop :: "int \<Rightarrow> int list \<Rightarrow> int list \<Rightarrow> int sched_eff" where
  "Threads_loop pid pre post =
     (let keep = (\<lambda>ts nx. change pid (\<lambda>p. p\<lparr>pr_kind := Autonomous ts nx\<rparr>))
      in case (case post of [] \<Rightarrow> ([], pre) | _ \<Rightarrow> (pre, post)) of
        (pre, []) \<Rightarrow> yield pid
      | (pre, t # post) \<Rightarrow>
          and_then (object t) (\<lambda>p.
          if pr_status p = RELEASED then
            then_do (keep (pre @ post) (if post = [] then None else Some (length pre)))
              (then_do (RemoveFromProcessMap t) (then_do (delete t) (Threads_loop pid pre post)))
          else
            then_do (keep (pre @ t # post) (if post = [] then None else Some (Suc (length pre)))) (yield t)))"
  by pat_completeness auto
termination
  by (relation "measure (\<lambda>(pid, pre, post). length pre + length post)") (auto split: list.splits)

declare Threads_loop.simps [simp del]

definition forSchedule :: "int \<Rightarrow> int sched_eff" where
  "forSchedule pid =
     and_then (object pid) (\<lambda>p.
     if pr_status p = TERMINATED \<or> pr_status p = RELEASED then yield pid
     else case pr_kind p of
       ChildThread m \<Rightarrow> undef
     | Autonomous ts None \<Rightarrow>
         then_do (change pid (\<lambda>p. p\<lparr>pr_kind := Autonomous ts (if ts = [] then None else Some 0)\<rparr>)) (yield pid)
     | Autonomous ts (Some i) \<Rightarrow> Threads_loop pid (take i ts) (drop i ts))"

text \<open>One round of \<open>StartScheduler\<close>; nothing when the list is empty.\<close>

definition Schedule_step :: "slice \<Rightarrow> unit sched_eff" where
  "Schedule_step sl =
     then_do (modify (\<lambda>S. if sc_todo S = [] then S\<lparr>sc_todo := sc_done S, sc_done := []\<rparr> else S))
       (and_then (gets sc_todo) (\<lambda>todo. case todo of [] \<Rightarrow> yield ()
        | q # _ \<Rightarrow>
            and_then (forSchedule q) (\<lambda>pid.
            then_do (DoContextSwitch sl pid)
              (and_then (object pid) (\<lambda>p.
               let released = (\<not> isChildThread pid p \<and> pr_status p = RELEASED)
               in then_do
                    (modify (\<lambda>S. S\<lparr>sc_todo := tl (sc_todo S), sc_done := (if released then sc_done S else sc_done S @ [q])\<rparr>))
                    (only_if released (then_do (RemoveFromProcessMap pid) (delete pid))))))))"

text \<open>The first \<open>n\<close> rounds of \<open>StartScheduler\<close>.\<close>

definition StartScheduler :: "(nat \<Rightarrow> slice) \<Rightarrow> nat \<Rightarrow> unit sched_eff" where
  "StartScheduler slices n = steps (\<lambda>k. Schedule_step (slices k)) [0..<n]"

end
