(* ===== verification/SchedProofs.thy ===== *)
theory SchedProofs
  imports Scheduler
begin

text \<open>
  The scheduler never uses an object that is gone, and serves its list in turn. The invariant: the
  entries of the scheduler list are distinct processes, the process map names objects that exist,
  the threads in the list of a process are its own, and a process group counts at least its members
  that are not destroyed.
\<close>

section \<open>The invariant\<close>

definition live :: "proc \<Rightarrow> bool" where
  "live p \<longleftrightarrow> pr_status p \<noteq> TERMINATED \<and> pr_status p \<noteq> RELEASED"

lemma live_simps [simp]:
  "live (p\<lparr>pr_kind := k\<rparr>) = live p" "live (p\<lparr>pr_stateInfo := i\<rparr>) = live p" "live (p\<lparr>pr_parentProcessID := q\<rparr>) = live p"
  "live (p\<lparr>pr_childProcessIDs := cs\<rparr>) = live p" "\<not> live (p\<lparr>pr_status := TERMINATED\<rparr>)" "\<not> live (p\<lparr>pr_status := RELEASED\<rparr>)"
  "live (p\<lparr>pr_status := RUN\<rparr>)"
  by (simp_all add: live_def)

text \<open>What most operations leave alone.\<close>

definition shape :: "sched \<Rightarrow> (int \<Rightarrow> (proc_kind \<times> int \<times> int) option) \<times> int list \<times> int list \<times> int list" where
  "shape S = (\<lambda>q. map_option (\<lambda>p. (pr_kind p, pr_mainThreadID p, pr_group p)) (sc_objects S q), sc_done S, sc_todo S, sc_map S)"

text \<open>\<open>gone q\<close>: the threads of process \<open>q\<close> that are deleted and still in its list.\<close>

definition kind_ok :: "(int \<Rightarrow> int set) \<Rightarrow> sched \<Rightarrow> int \<Rightarrow> proc \<Rightarrow> bool" where
  "kind_ok gone S q p \<longleftrightarrow> (case pr_kind p of
     Autonomous ts nx \<Rightarrow> pr_mainThreadID p = q \<and> (\<forall>i. nx = Some i \<longrightarrow> i < length ts) \<and> distinct ts \<and>
       (\<forall>t \<in> set ts - gone q. \<exists>x. sc_objects S t = Some x \<and> pr_kind x = ChildThread q)
   | ChildThread m \<Rightarrow> pr_mainThreadID p \<noteq> q)"

definition lists_ok :: "sched \<Rightarrow> bool" where
  "lists_ok S \<longleftrightarrow> distinct (sc_done S @ sc_todo S) \<and>
     (\<forall>q \<in> set (sc_done S @ sc_todo S). \<exists>p ts nx. sc_objects S q = Some p \<and> pr_kind p = Autonomous ts nx) \<and>
     (\<forall>q \<in> set (sc_map S). sc_objects S q \<noteq> None) \<and> finite (dom (sc_objects S))"

text \<open>The members of a group that it must count: those that live, and the ones in \<open>X\<close>.\<close>

definition members :: "int set \<Rightarrow> sched \<Rightarrow> int \<Rightarrow> int set" where
  "members X S g = {q. \<exists>p. sc_objects S q = Some p \<and> pr_group p = g \<and> (live p \<or> q \<in> X)}"

definition groups_ok :: "int set \<Rightarrow> sched \<Rightarrow> bool" where
  "groups_ok X S \<longleftrightarrow> (\<forall>g. members X S g \<noteq> {} \<longrightarrow>
     (\<exists>x. sc_groups S g = Some x \<and> int (card (members X S g)) \<le> gr_iProcessCount x))"

definition waits_ok :: "sched \<Rightarrow> bool" where
  "waits_ok S \<longleftrightarrow> length (sc_resources S) = MAX_RESOURCE \<and>
     (\<forall>q p. sc_objects S q = Some p \<longrightarrow> pr_status p = WAIT_RESOURCE \<longrightarrow>
        si_waitResourceId (pr_stateInfo p) = RESOURCE_NIL \<or> si_waitResourceId (pr_stateInfo p) < MAX_RESOURCE)"

definition holds :: "(int \<Rightarrow> int set) \<Rightarrow> int set \<Rightarrow> sched \<Rightarrow> bool" where
  "holds gone X S \<longleftrightarrow> lists_ok S \<and> (\<forall>q p. sc_objects S q = Some p \<longrightarrow> kind_ok gone S q p) \<and> groups_ok X S \<and> waits_ok S"

definition sched_ok :: "sched \<Rightarrow> bool" where
  "sched_ok S \<longleftrightarrow> holds (\<lambda>_. {}) {} S"

section \<open>Operations that keep the shape\<close>

definition calm :: "sched \<Rightarrow> sched \<Rightarrow> bool" where
  "calm S t \<longleftrightarrow> shape t = shape S \<and> sc_groups t = sc_groups S \<and> (waits_ok S \<longrightarrow> waits_ok t) \<and>
     (\<forall>q p p'. sc_objects S q = Some p \<longrightarrow> sc_objects t q = Some p' \<longrightarrow> live p' \<longrightarrow> live p)"

lemma calm_refl [simp]: "calm S S"
  by (simp add: calm_def)

lemma shape_iff:
  "shape t = shape S \<longleftrightarrow> sc_done t = sc_done S \<and> sc_todo t = sc_todo S \<and> sc_map t = sc_map S \<and>
     (\<forall>q. map_option (\<lambda>p. (pr_kind p, pr_mainThreadID p, pr_group p)) (sc_objects t q) =
        map_option (\<lambda>p. (pr_kind p, pr_mainThreadID p, pr_group p)) (sc_objects S q))"
  unfolding shape_def fun_eq_iff prod.inject by blast

lemma shapeD:
  assumes "shape t = shape S"
  shows "sc_done t = sc_done S" "sc_todo t = sc_todo S" "sc_map t = sc_map S"
    "sc_objects S q = Some p \<Longrightarrow> \<exists>p'. sc_objects t q = Some p' \<and> pr_kind p' = pr_kind p \<and> pr_mainThreadID p' = pr_mainThreadID p \<and> pr_group p' = pr_group p"
    "sc_objects t q = None \<longleftrightarrow> sc_objects S q = None"
proof -
  have e: "map_option (\<lambda>p. (pr_kind p, pr_mainThreadID p, pr_group p)) (sc_objects t q) =
      map_option (\<lambda>p. (pr_kind p, pr_mainThreadID p, pr_group p)) (sc_objects S q)" for q
    using assms unfolding shape_iff by blast
  show "sc_objects S q = Some p \<Longrightarrow> \<exists>p'. sc_objects t q = Some p' \<and> pr_kind p' = pr_kind p \<and> pr_mainThreadID p' = pr_mainThreadID p \<and> pr_group p' = pr_group p"
    using e [of q] by (cases "sc_objects t q") auto
  show "sc_objects t q = None \<longleftrightarrow> sc_objects S q = None" using e [of q] by (cases "sc_objects t q"; cases "sc_objects S q") simp_all
  show "sc_done t = sc_done S" "sc_todo t = sc_todo S" "sc_map t = sc_map S" using assms unfolding shape_iff by blast+
qed

lemma calm_trans:
  assumes a: "calm S t" and b: "calm t u"
  shows "calm S u"
proof -
  have "live p" if q: "sc_objects S q = Some p" "sc_objects u q = Some p'" "live p'" for q p p'
  proof -
    have "shape t = shape S" using a by (simp add: calm_def)
    from shapeD(4) [OF this q(1)] obtain p2 where t: "sc_objects t q = Some p2" by blast
    have "live p2" using b q(2,3) t unfolding calm_def by blast
    then show ?thesis using a q(1) t unfolding calm_def by blast
  qed
  then show ?thesis using a b by (simp add: calm_def)
qed

lemma finite_members: "lists_ok S \<Longrightarrow> finite (members X S g)"
  by (rule finite_subset [of _ "dom (sc_objects S)"]) (auto simp: members_def lists_ok_def)

lemma groups_ok_shrink:
  assumes "groups_ok X S" "lists_ok S" "sc_groups t = sc_groups S" "\<And>g. members Y t g \<subseteq> members X S g"
  shows "groups_ok Y t"
  unfolding groups_ok_def
proof (intro allI impI)
  fix g assume "members Y t g \<noteq> {}"
  then have "members X S g \<noteq> {}" using assms(4) by blast
  then obtain x where "sc_groups S g = Some x" "int (card (members X S g)) \<le> gr_iProcessCount x"
    using assms(1) unfolding groups_ok_def by blast
  moreover have "card (members Y t g) \<le> card (members X S g)"
    using assms(4) finite_members [OF assms(2)] by (intro card_mono)
  ultimately show "\<exists>x. sc_groups t g = Some x \<and> int (card (members Y t g)) \<le> gr_iProcessCount x"
    using assms(3) by auto
qed

lemma holds_calm:
  assumes "holds gone X S" "calm S t"
  shows "holds gone X t"
proof -
  have s: "shape t = shape S" "sc_groups t = sc_groups S" using assms(2) by (simp_all add: calm_def)
  note d = shapeD [OF s(1)] and d' = shapeD(4) [OF s(1) [symmetric]]
  have h: "lists_ok S" "\<And>q p. sc_objects S q = Some p \<Longrightarrow> kind_ok gone S q p" "groups_ok X S" "waits_ok S"
    using assms(1) unfolding holds_def by auto
  have dm: "dom (sc_objects t) = dom (sc_objects S)" using d(5) by (auto simp: dom_def)
  have "\<exists>p ts nx. sc_objects t q = Some p \<and> pr_kind p = Autonomous ts nx"
    if "\<exists>p ts nx. sc_objects S q = Some p \<and> pr_kind p = Autonomous ts nx" for q
    using that d(4) by fastforce
  then have "lists_ok t" using h(1) d(5) unfolding lists_ok_def d(1-3) dm by auto
  moreover have "kind_ok gone t q p'" if t: "sc_objects t q = Some p'" for q p'
  proof -
    obtain p where p: "sc_objects S q = Some p" "pr_kind p = pr_kind p'" "pr_mainThreadID p = pr_mainThreadID p'"
      using d' [OF t] by auto
    have "\<exists>x. sc_objects t i = Some x \<and> pr_kind x = ChildThread q"
      if "\<exists>x. sc_objects S i = Some x \<and> pr_kind x = ChildThread q" for i
      using that d(4) by fastforce
    then show ?thesis using h(2) [OF p(1)] unfolding kind_ok_def p(2,3) by (simp split: proc_kind.splits)
  qed
  moreover have "members X t g \<subseteq> members X S g" for g
  proof
    fix q assume "q \<in> members X t g"
    then obtain p' where p': "sc_objects t q = Some p'" "pr_group p' = g" "live p' \<or> q \<in> X" by (auto simp: members_def)
    obtain p where "sc_objects S q = Some p" "pr_group p = pr_group p'" using d' [OF p'(1)] by auto
    then show "q \<in> members X S g" using p' assms(2) unfolding members_def calm_def by blast
  qed
  moreover have "waits_ok t" using assms(2) h(4) by (simp add: calm_def)
  ultimately show ?thesis using groups_ok_shrink [OF h(3,1) s(2)] unfolding holds_def by blast
qed

section \<open>Rules\<close>

lemma wp_object [wp_rules]: "wp u (object q) Q X S = (case sc_objects S q of None \<Rightarrow> u | Some p \<Rightarrow> Q p S)"
  by (simp add: object_def wp_and_then wp_gets wp_the_or wp_undef split: option.split)

lemma wp_change [wp_rules]: "wp u (change q f) Q X S =
    (case sc_objects S q of None \<Rightarrow> u | Some p \<Rightarrow> Q () (S\<lparr>sc_objects := (sc_objects S)(q \<mapsto> f p)\<rparr>))"
  by (simp add: change_def wp_and_then wp_object wp_modify cong: option.case_cong)

lemma wp_delete [wp_rules]: "wp u (delete q) Q X S =
    (case sc_objects S q of None \<Rightarrow> u | Some p \<Rightarrow> Q () (S\<lparr>sc_objects := (sc_objects S)(q := None)\<rparr>))"
  by (simp add: delete_def wp_then_do wp_object wp_modify)

lemma wp_GetAddressSpace [wp_rules]:
  "wp u (GetAddressSpace q) Q X S = Q (if q \<in> set (sc_map S) then Some q else None) S"
  by (simp add: GetAddressSpace_def wp_gets)

lemma wp_ifPresent [wp_rules]:
  "wp u (ifPresent x f) Q X S = (case x of None \<Rightarrow> Q () S | Some q \<Rightarrow> wp u (f q) Q X S)"
  by (simp add: ifPresent_def wp_yield split: option.split)

lemma wp_group_of [wp_rules]: "wp u (group_of g) Q X S = (case sc_groups S g of None \<Rightarrow> u | Some x \<Rightarrow> Q x S)"
  by (simp add: group_of_def wp_and_then wp_gets wp_the_or wp_undef split: option.split)

lemma wp_change_group [wp_rules]: "wp u (change_group g f) Q X S =
    (case sc_groups S g of None \<Rightarrow> u | Some x \<Rightarrow> Q () (S\<lparr>sc_groups := (sc_groups S)(g \<mapsto> f x)\<rparr>))"
  by (simp add: change_group_def wp_and_then wp_group_of wp_modify cong: option.case_cong)

lemmas status_defs = setStatus_def set_info_def Release_def addChildProcessID_def removeChildProcessID_def

text \<open>An update of one object, and any other update that does not matter.\<close>

lemma calm_upd:
  assumes "sc_objects t = (sc_objects S)(q \<mapsto> p')" "sc_done t = sc_done S" "sc_todo t = sc_todo S" "sc_map t = sc_map S"
    "sc_groups t = sc_groups S" "length (sc_resources t) = length (sc_resources S)"
    "sc_objects S q = Some p" "pr_kind p' = pr_kind p" "pr_mainThreadID p' = pr_mainThreadID p" "pr_group p' = pr_group p"
    "live p' \<Longrightarrow> live p" "pr_status p' = WAIT_RESOURCE \<Longrightarrow> si_waitResourceId (pr_stateInfo p') = RESOURCE_NIL \<or>
       si_waitResourceId (pr_stateInfo p') < MAX_RESOURCE \<or>
       pr_status p = WAIT_RESOURCE \<and> si_waitResourceId (pr_stateInfo p') = si_waitResourceId (pr_stateInfo p)"
  shows "calm S t"
proof -
  have "shape t = shape S" using assms(1-10) by (simp add: shape_iff)
  moreover have "waits_ok t" if w: "waits_ok S"
  proof -
    have "pr_status p = WAIT_RESOURCE \<Longrightarrow> si_waitResourceId (pr_stateInfo p) = RESOURCE_NIL \<or> si_waitResourceId (pr_stateInfo p) < MAX_RESOURCE"
      using w assms(7) unfolding waits_ok_def by blast
    then have n: "pr_status p' = WAIT_RESOURCE \<Longrightarrow> si_waitResourceId (pr_stateInfo p') = RESOURCE_NIL \<or> si_waitResourceId (pr_stateInfo p') < MAX_RESOURCE"
      using assms(12) by metis
    show ?thesis
      using w n unfolding waits_ok_def assms(1,6) by (simp del: disj_not1)
  qed
  ultimately show ?thesis using assms(1,5,7,11) by (simp add: calm_def)
qed

lemma calm_same:
  assumes "sc_objects t = sc_objects S" "sc_done t = sc_done S" "sc_todo t = sc_todo S" "sc_map t = sc_map S"
    "sc_groups t = sc_groups S" "length (sc_resources t) = length (sc_resources S)"
  shows "calm S t"
  using assms by (auto simp: calm_def shape_iff waits_ok_def)

text \<open>\<open>m\<close> returns, calmly.\<close>

definition calmly :: "'a sched_eff \<Rightarrow> sched \<Rightarrow> bool" where
  "calmly m S \<longleftrightarrow> wp False m (\<lambda>_ t. calm S t) (\<lambda>_ _. False) S"

lemma calm_seq:
  assumes "wp False m (\<lambda>x t. R x t \<and> calm S t) (\<lambda>_ _. False) S"
    "\<And>x t. R x t \<Longrightarrow> calm S t \<Longrightarrow> wp False (k x) (\<lambda>y u. Q y u \<and> calm t u) (\<lambda>_ _. False) t"
  shows "wp False (and_then m k) (\<lambda>y u. Q y u \<and> calm S u) (\<lambda>_ _. False) S"
  unfolding wp_and_then
  by (rule wp_mono [OF assms(1)]) (auto intro: wp_mono [OF assms(2)] calm_trans)

lemma holds_object:
  assumes "holds gone X S" "q \<in> set (sc_map S)"
  obtains p where "sc_objects S q = Some p"
  using assms by (auto simp: holds_def lists_ok_def)

lemma holds_group:
  assumes "holds gone X S" "sc_objects S q = Some p" "live p \<or> q \<in> X"
  obtains x where "sc_groups S (pr_group p) = Some x" "int (card (members X S (pr_group p))) \<le> gr_iProcessCount x"
proof -
  have "members X S (pr_group p) \<noteq> {}" using assms(2,3) by (auto simp: members_def)
  then show ?thesis using assms(1) that unfolding holds_def groups_ok_def by blast
qed

lemma wake_ok:
  assumes h: "holds gone X S" and p: "sc_objects S pid = Some p"
  shows "wp False (wake pid) (\<lambda>go t. (sc_current t = sc_current S \<and> (go \<longrightarrow> (\<exists>p'. sc_objects t pid = Some p' \<and> live p'))) \<and> calm S t)
    (\<lambda>_ _. False) S"
proof (cases "pr_status p")
  case WAIT_SLEEP
  then show ?thesis using p by (auto simp: wake_def Let_def wp_rules status_defs live_def intro!: calm_upd)
next
  case WAIT_CHILD
  let ?c = "si_waitChildProcId (pr_stateInfo p)"
  have wake: "wp False (then_do (set_info (\<lambda>i. i\<lparr>si_waitChildProcId := NO_PROCESS_ID\<rparr>) pid) (then_do (setStatus RUN pid) (yield True)))
      (\<lambda>go t. (sc_current t = sc_current S' \<and> (go \<longrightarrow> (\<exists>p'. sc_objects t pid = Some p' \<and> live p'))) \<and> calm S' t) (\<lambda>_ _. False) S'"
    if "sc_objects S' pid = Some p'" "live p'" for S' p'
    using that by (auto simp: wp_rules status_defs live_def intro!: calm_upd)
  have drop: "wp False (then_do (removeChildProcessID ?c pid) m)
      (\<lambda>go t. (sc_current t = sc_current S' \<and> (go \<longrightarrow> (\<exists>p'. sc_objects t pid = Some p' \<and> live p'))) \<and> calm S' t) (\<lambda>_ _. False) S'"
    if m: "m = then_do (set_info (\<lambda>i. i\<lparr>si_waitChildProcId := NO_PROCESS_ID\<rparr>) pid) (then_do (setStatus RUN pid) (yield True))"
      and "sc_objects S' pid = Some p'" "live p'" for S' p' m
    using that(2,3) unfolding m by (auto simp: wp_rules status_defs live_def intro!: calm_upd)
  show ?thesis
  proof (cases "?c < 0 \<or> ?c \<notin> set (sc_map S)")
    case True
    then show ?thesis
      using wake [OF p] drop [OF refl p] WAIT_CHILD p by (auto simp: wake_def Let_def wp_object wp_and_then wp_GetAddressSpace live_def)
  next
    case False
    then obtain ch where ch: "sc_objects S ?c = Some ch" using h holds_object by blast
    show ?thesis
    proof (cases "pr_parentProcessID ch = sc_current S \<and> pr_status ch = TERMINATED")
      case True
      let ?S' = "S\<lparr>sc_objects := (sc_objects S)(?c \<mapsto> ch\<lparr>pr_status := RELEASED\<rparr>)\<rparr>"
      have "?c \<noteq> pid" using True ch p WAIT_CHILD by auto
      then have p': "sc_objects ?S' pid = Some p" "live p" using p WAIT_CHILD by (auto simp: live_def)
      have "calm S ?S'" by (rule calm_upd [where q = ?c and p = ch and p' = "ch\<lparr>pr_status := RELEASED\<rparr>"]) (use ch in \<open>simp_all add: live_def\<close>)
      then have "wp False (then_do (removeChildProcessID ?c pid) (then_do (set_info (\<lambda>i. i\<lparr>si_waitChildProcId := NO_PROCESS_ID\<rparr>) pid) (then_do (setStatus RUN pid) (yield True))))
          (\<lambda>go t. (sc_current t = sc_current S \<and> (go \<longrightarrow> (\<exists>p'. sc_objects t pid = Some p' \<and> live p'))) \<and> calm S t) (\<lambda>_ _. False) ?S'"
        by (intro wp_mono [OF drop [OF refl p']]) (auto intro: calm_trans)
      then show ?thesis
        using True False ch p WAIT_CHILD
        by (simp add: wake_def Let_def wp_object wp_and_then wp_GetAddressSpace wp_gets Release_def setStatus_def wp_then_do wp_change)
    next
      case False
      then show ?thesis
        using \<open>\<not> (?c < 0 \<or> ?c \<notin> set (sc_map S))\<close> ch p WAIT_CHILD drop [OF refl p]
        by (auto simp: wake_def Let_def wp_object wp_and_then wp_GetAddressSpace wp_gets wp_yield live_def)
    qed
  qed
next
  case WAIT_INT
  have "live p" using WAIT_INT by (simp add: live_def)
  then obtain x where "sc_groups S (pr_group p) = Some x" using holds_group [OF h p] by blast
  then show ?thesis
    using WAIT_INT p \<open>live p\<close>
    by (auto simp: wake_def Let_def WakeupProcessOnInterrupt_def IRQ_Consume_def wp_rules status_defs live_def intro!: calm_upd [where q = pid and p = p])
next
  case WAIT_EVENT
  show ?thesis
  proof (cases "pid \<in> set (sc_map S) \<or> si_eventCompleted (sc_kernelModeStateInfo S)")
    case True
    then show ?thesis using WAIT_EVENT p
      by (auto simp: wake_def Let_def IsEventCompleted_def wp_rules status_defs live_def intro!: calm_upd [where q = pid and p = p])
  next
    case False
    then show ?thesis using WAIT_EVENT p
      by (auto simp: wake_def Let_def IsEventCompleted_def wp_rules intro!: calm_same)
  qed
next
  case WAIT_RESOURCE
  have "si_waitResourceId (pr_stateInfo p) = RESOURCE_NIL \<or> si_waitResourceId (pr_stateInfo p) < MAX_RESOURCE" "length (sc_resources S) = MAX_RESOURCE"
    using h p WAIT_RESOURCE unfolding holds_def waits_ok_def by blast+
  then show ?thesis
    using WAIT_RESOURCE p by (auto simp: wake_def Let_def IsResourceBusy_def wp_rules status_defs live_def intro!: calm_upd)
qed (use p h in \<open>auto simp: wake_def Let_def wp_rules status_defs live_def intro!: calm_upd\<close>)

section \<open>Slices\<close>

text \<open>The calls that do not create processes or threads, with keys of \<open>RESOURCE_KEYS\<close>.\<close>

fun call_ok :: "kernel_call \<Rightarrow> bool" where
  "call_ok (CallCreateProcess parentID fg) = False"
| "call_ok (CallCreateThread parentID) = False"
| "call_ok (CallSetResourceBusy key b) = (key < MAX_RESOURCE)"
| "call_ok _ = True"

fun end_ok :: "slice_end \<Rightarrow> bool" where
  "end_ok (WaitsOnResource key) = (key = RESOURCE_NIL \<or> key < MAX_RESOURCE)"
| "end_ok _ = True"

definition slice_ok :: "slice \<Rightarrow> bool" where
  "slice_ok sl \<longleftrightarrow> list_all call_ok (fst sl) \<and> end_ok (snd sl)"

text \<open>The current process exists and lives.\<close>

definition running :: "int \<Rightarrow> sched \<Rightarrow> bool" where
  "running pid S \<longleftrightarrow> sc_current S = pid \<and> (\<exists>p. sc_objects S pid = Some p \<and> live p)"

lemma run_call_ok:
  assumes h: "holds gone X S" and r: "running pid S" and c: "call_ok c"
  shows "wp False (run_call c) (\<lambda>_ t. running pid t \<and> calm S t) (\<lambda>_ _. False) S"
proof -
  obtain me where me: "sc_current S = pid" "sc_objects S pid = Some me" "live me" using r by (auto simp: running_def)
  have len: "length (sc_resources S) = MAX_RESOURCE" using h by (simp add: holds_def waits_ok_def)
  have info: "running pid (S\<lparr>sc_objects := (sc_objects S)(q \<mapsto> p\<lparr>pr_stateInfo := i\<rparr>)\<rparr>) \<and>
      calm S (S\<lparr>sc_objects := (sc_objects S)(q \<mapsto> p\<lparr>pr_stateInfo := i\<rparr>)\<rparr>)"
    if "sc_objects S q = Some p" "si_waitResourceId i = si_waitResourceId (pr_stateInfo p)" for q p i
    using that me by (auto simp: running_def live_def intro!: calm_upd)
  show ?thesis
  proof (cases c)
    case (CallWakeUpFromKSWait q)
    then show ?thesis using h r info by (auto simp: WakeUpFromKSWait_def wp_rules set_info_def elim!: holds_object split: option.splits)
  next
    case (CallEventCompleted q)
    then show ?thesis using h me r info
      by (auto simp: EventCompleted_def wp_rules set_info_def running_def intro!: calm_same elim!: holds_object split: option.splits)
  next
    case (CallSetResourceBusy key b)
    then show ?thesis using c len me by (auto simp: SetResourceBusy_def wp_rules running_def intro!: calm_same)
  next
    case (CallSwitchToFG g)
    then show ?thesis using me by (auto simp: SwitchToFG_def wp_rules running_def intro!: calm_same)
  next
    case (InterruptSignal irq)
    then show ?thesis using me by (auto simp: IRQ_Signal_def wp_rules running_def intro!: calm_same)
  next
    case TimerTick
    then show ?thesis using me by (auto simp: wp_rules running_def intro!: calm_same)
  qed (use c in simp_all)
qed

lemma run_calls_ok:
  "holds gone X S \<Longrightarrow> running pid S \<Longrightarrow> list_all call_ok cs \<Longrightarrow>
   wp False (steps run_call cs) (\<lambda>_ t. running pid t \<and> calm S t) (\<lambda>_ _. False) S"
proof (induction cs arbitrary: S)
  case (Cons c cs)
  show ?case
    unfolding steps.simps then_do_def
  proof (rule calm_seq [where R = "\<lambda>_. running pid"], goal_cases)
    case 1
    then show ?case using run_call_ok [OF Cons.prems(1,2)] Cons.prems(3) by simp
  next
    case (2 x t)
    then show ?case using Cons.IH [OF holds_calm [OF Cons.prems(1)]] Cons.prems(3) by simp
  qed
qed (simp add: wp_yield)

lemma wait_with_ok:
  assumes "running pid S" "\<And>i. st = WAIT_RESOURCE \<Longrightarrow> si_waitResourceId (f i) = RESOURCE_NIL \<or> si_waitResourceId (f i) < MAX_RESOURCE"
  shows "wp False (wait_with f st) (\<lambda>_ t. sc_current t = pid \<and> calm S t) (\<lambda>_ _. False) S"
proof -
  obtain me where me: "sc_current S = pid" "sc_objects S pid = Some me" "live me" using assms(1) by (auto simp: running_def)
  then show ?thesis using assms(2) [of "pr_stateInfo me"]
    by (auto simp: wait_with_def ProcessManager_Yield_def task_switch_def wp_rules status_defs live_def intro!: calm_upd [where q = pid and p = me])
qed

lemma run_end_ok:
  assumes h: "holds gone X S" and r: "running pid S" and e: "end_ok e"
  shows "wp False (run_end e) (\<lambda>_ t. sc_current t = pid \<and> calm S t) (\<lambda>_ _. False) S"
proof -
  obtain me where me: "sc_current S = pid" "sc_objects S pid = Some me" "live me" using r by (auto simp: running_def)
  have pre: "wp False preempt (\<lambda>_ u. sc_current u = pid \<and> calm t u) (\<lambda>_ _. False) t" if "sc_current t = pid" for t
    using that by (auto simp: preempt_def wp_rules intro!: calm_same)
  have seq: "wp False (then_do m preempt) (\<lambda>_ t. sc_current t = pid \<and> calm S t) (\<lambda>_ _. False) S"
    if "wp False m (\<lambda>_ t. sc_current t = pid \<and> calm S t) (\<lambda>_ _. False) S" for m :: "unit sched_eff"
    unfolding then_do_def by (rule calm_seq [where R = "\<lambda>_ t. sc_current t = pid"]) (use that pre in auto)
  show ?thesis
  proof (cases e)
    case (Sleeps t)
    then show ?thesis using wait_with_ok [OF r, of WAIT_SLEEP] by (simp add: Sleep_def wp_rules)
  next
    case (WaitsOnInterrupt irq)
    then show ?thesis using wait_with_ok [OF r, of WAIT_INT] by (simp add: WaitOnInterrupt_def)
  next
    case WaitsForEvent
    then show ?thesis using wait_with_ok [OF r, of WAIT_EVENT] by (simp add: WaitForEvent_def)
  next
    case (WaitsOnChild c)
    show ?thesis unfolding WaitsOnChild run_end.simps
      by (rule seq) (use wait_with_ok [OF r, of WAIT_CHILD] me in \<open>auto simp: WaitOnChild_def wp_rules\<close>)
  next
    case (WaitsOnResource k)
    show ?thesis unfolding WaitsOnResource run_end.simps
      by (rule seq) (use wait_with_ok [OF r, of WAIT_RESOURCE "\<lambda>i. i\<lparr>si_waitResourceId := k\<rparr>"] me e WaitsOnResource in
        \<open>auto simp: WaitOnResource_def wp_rules\<close>)
  next
    case WaitsOnKernelService
    show ?thesis unfolding WaitsOnKernelService run_end.simps
      by (rule seq) (use wait_with_ok [OF r, of WAIT_KERNEL_SERVICE] me in \<open>auto simp: WaitOnKernelService_def wp_rules\<close>)
  next
    case (Kills q)
    have "wp False (Kill q) (\<lambda>_ t. sc_current t = pid \<and> calm S t) (\<lambda>_ _. False) S"
      using h me by (auto simp: Kill_def ProcessManager_Yield_def task_switch_def wp_rules status_defs live_def
          intro!: calm_upd elim!: holds_object split: option.splits)
    then show ?thesis using Kills seq by simp
  qed (use me in \<open>auto simp: preempt_def ProcessManager_Exit_def task_switch_def wp_rules intro!: calm_same\<close>)
qed

lemma run_slice_ok:
  assumes h: "holds gone X S" and r: "running pid S" and sl: "slice_ok sl"
  shows "wp False (run_slice sl) (\<lambda>_ t. sc_current t = pid \<and> calm S t) (\<lambda>_ _. False) S"
  unfolding run_slice_def then_do_def
  by (rule calm_seq [OF run_calls_ok [OF h r]], use sl in \<open>simp add: slice_ok_def\<close>)
    (rule run_end_ok [OF holds_calm [OF h]], use sl in \<open>auto simp: slice_ok_def\<close>)

section \<open>The end of a process\<close>

lemma steps_calm:
  assumes "\<And>t c. c \<in> set cs \<Longrightarrow> calm S t \<Longrightarrow> wp False (f c) (\<lambda>_ u. calm t u) (\<lambda>_ _. False) t"
  shows "wp False (steps f cs) (\<lambda>_ t. calm S t) (\<lambda>_ _. False) S"
proof (rule wp_steps [where I = "\<lambda>_ t. calm S t"])
  show "wp False (f (cs ! i)) (\<lambda>_. calm S) (\<lambda>_ _. False) t" if "i < length cs" "calm S t" for i t
    by (rule wp_mono [OF assms [OF nth_mem [OF that(1)] that(2)]]) (auto intro: calm_trans [OF that(2)])
qed simp_all

lemma finite_objects: "holds gone X S \<Longrightarrow> finite (members Y S g)"
  by (rule finite_members) (simp add: holds_def)

lemma drop_member:
  assumes h: "holds gone (insert q X) S" and q: "sc_objects S q = Some p" "\<not> live p" "q \<notin> X"
    and x: "sc_groups S (pr_group p) = Some x" "gr_iProcessCount y = gr_iProcessCount x - 1"
    and t: "t = S\<lparr>sc_groups := (if gr_iProcessCount y = 0 then (sc_groups S)(pr_group p := None) else (sc_groups S)(pr_group p \<mapsto> y))\<rparr>"
  shows "holds gone X t"
proof -
  have ob: "sc_objects t = sc_objects S" "sc_done t = sc_done S" "sc_todo t = sc_todo S" "sc_map t = sc_map S" "sc_resources t = sc_resources S"
    by (simp_all add: t)
  have m: "members X t g = members (insert q X) S g - {q}" for g using q by (auto simp: members_def ob)
  have c: "int (card (members X t (pr_group p))) \<le> gr_iProcessCount y"
  proof -
    have i: "q \<in> members (insert q X) S (pr_group p)" using q(1) by (auto simp: members_def)
    then have "members (insert q X) S (pr_group p) \<noteq> {}" by blast
    then have "int (card (members (insert q X) S (pr_group p))) \<le> gr_iProcessCount x"
      using h x(1) unfolding holds_def groups_ok_def by (metis option.inject)
    moreover have "0 < card (members (insert q X) S (pr_group p))"
      using i finite_objects [OF h] by (auto simp: card_gt_0_iff)
    moreover have "card (members X t (pr_group p)) = card (members (insert q X) S (pr_group p)) - 1"
      unfolding m using i by (rule card_Diff_singleton)
    ultimately show ?thesis using x(2) by linarith
  qed
  have "groups_ok X t"
    unfolding groups_ok_def
  proof (intro allI impI)
    fix g assume ne: "members X t g \<noteq> {}"
    show "\<exists>x. sc_groups t g = Some x \<and> int (card (members X t g)) \<le> gr_iProcessCount x"
    proof (cases "g = pr_group p")
      case True
      have "0 < card (members X t g)" using ne finite_objects [OF h] by (simp add: m card_gt_0_iff)
      then have "gr_iProcessCount y \<noteq> 0" using c True by auto
      then show ?thesis using c True by (auto simp: t)
    next
      case False
      then have e: "members X t g = members (insert q X) S g" using q(1) unfolding m by (auto simp: members_def)
      then show ?thesis using h ne False unfolding holds_def groups_ok_def by (auto simp: t)
    qed
  qed
  then show ?thesis using h unfolding holds_def lists_ok_def kind_ok_def waits_ok_def ob by simp
qed

text \<open>The shape stays and nothing comes back to life.\<close>

definition tame :: "sched \<Rightarrow> sched \<Rightarrow> bool" where
  "tame S t \<longleftrightarrow> shape t = shape S \<and> (\<forall>q p p'. sc_objects S q = Some p \<longrightarrow> sc_objects t q = Some p' \<longrightarrow> live p' \<longrightarrow> live p)"

lemma calm_tame: "calm S t \<Longrightarrow> tame S t"
  by (simp add: calm_def tame_def)

lemma tame_trans:
  assumes a: "tame S t" and b: "tame t u"
  shows "tame S u"
proof -
  have "live p" if q: "sc_objects S q = Some p" "sc_objects u q = Some p'" "live p'" for q p p'
  proof -
    have "shape t = shape S" using a by (simp add: tame_def)
    from shapeD(4) [OF this q(1)] obtain p2 where t: "sc_objects t q = Some p2" by blast
    have "live p2" using b q(2,3) t unfolding tame_def by blast
    then show ?thesis using a q(1) t unfolding tame_def by blast
  qed
  then show ?thesis using a b by (simp add: tame_def)
qed

lemma tameD: "tame S t \<Longrightarrow> sc_objects S q = Some p \<Longrightarrow> \<exists>p'. sc_objects t q = Some p' \<and> pr_kind p' = pr_kind p \<and>
    pr_mainThreadID p' = pr_mainThreadID p \<and> pr_group p' = pr_group p \<and> (live p' \<longrightarrow> live p)"
  using shapeD(4) [of t S q p] unfolding tame_def by blast

lemma tame_lists: "tame S t \<Longrightarrow> sc_done t = sc_done S" "tame S t \<Longrightarrow> sc_todo t = sc_todo S" "tame S t \<Longrightarrow> sc_map t = sc_map S"
  using shapeD(1-3) [of t S] by (simp_all add: tame_def)

lemma Destroy_rest_ok:
  assumes h: "holds gone (insert q X) S" and q: "sc_objects S q = Some p" "\<not> live p" "q \<notin> X"
  shows "wp False (Destroy_rest q) (\<lambda>_ t. holds gone X t \<and> tame S t) (\<lambda>_ _. False) S"
proof -
  let ?par = "if pr_parentProcessID p \<in> set (sc_map S) then Some (pr_parentProcessID p) else None"
  let ?child = "\<lambda>c. and_then (GetAddressSpace c) (\<lambda>x. ifPresent x (\<lambda>c.
          and_then (object c) (\<lambda>p.
            if pr_status p = TERMINATED then Release c
            else ifPresent ?par (\<lambda>pp.
              then_do (change c (\<lambda>p. p\<lparr>pr_parentProcessID := pp\<rparr>)) (addChildProcessID c pp)))))"
  have child: "wp False (?child c) (\<lambda>_ u. calm t u) (\<lambda>_ _. False) t" if ct: "calm S t" for c t
  proof (cases "c \<in> set (sc_map t)")
    case True
    have ht: "holds gone (insert q X) t" by (rule holds_calm [OF h ct])
    obtain ch where ch: "sc_objects t c = Some ch" using holds_object [OF ht True] .
    show ?thesis
    proof (cases "pr_status ch = TERMINATED \<or> ?par = None")
      case stop: True
      then show ?thesis using True ch
        by (auto simp: wp_rules status_defs live_def intro!: calm_upd [where q = c and p = ch])
    next
      case False
      then obtain pp where pp: "?par = Some pp" "pp \<in> set (sc_map t)"
        using ct by (auto simp: calm_def dest: shapeD split: if_splits)
      let ?t = "t\<lparr>sc_objects := (sc_objects t)(c \<mapsto> ch\<lparr>pr_parentProcessID := pp\<rparr>)\<rparr>"
      have c1: "calm t ?t" by (rule calm_upd [where q = c and p = ch and p' = "ch\<lparr>pr_parentProcessID := pp\<rparr>"]) (use ch in \<open>auto simp: live_def\<close>)
      obtain po where po: "sc_objects ?t pp = Some po" using holds_object [OF holds_calm [OF ht c1], of pp] pp(2) by auto
      have "calm ?t (?t\<lparr>sc_objects := (sc_objects ?t)(pp \<mapsto> po\<lparr>pr_childProcessIDs := List.insert c (pr_childProcessIDs po)\<rparr>)\<rparr>)"
        by (rule calm_upd [where q = pp and p = po and p' = "po\<lparr>pr_childProcessIDs := List.insert c (pr_childProcessIDs po)\<rparr>"]) (use po in \<open>auto simp: live_def\<close>)
      then show ?thesis using calm_trans [OF c1] True ch False po
        unfolding pp(1) by (simp add: wp_rules addChildProcessID_def)
    qed
  qed (simp add: wp_rules)
  show ?thesis
    unfolding Destroy_rest_def wp_and_then wp_object q(1) option.case wp_GetAddressSpace wp_then_do
  proof (rule wp_mono [OF steps_calm], goal_cases)
    case (1 t c)
    then show ?case by (intro child)
  next
    case (2 _ t)
    have ht: "holds gone (insert q X) t" by (rule holds_calm [OF h 2])
    have sh: "shape t = shape S" using 2 by (simp add: calm_def)
    obtain p' where p': "sc_objects t q = Some p'" "pr_group p' = pr_group p" using shapeD(4) [OF sh q(1)] by auto
    have dead: "\<not> live p'" using 2 q(1,2) p'(1) unfolding calm_def by blast
    obtain x where x: "sc_groups t (pr_group p) = Some x" using holds_group [OF ht p'(1)] p'(2) by auto
    let ?y = "x\<lparr>gr_fgProcessList := removeAll q (gr_fgProcessList x), gr_iProcessCount := gr_iProcessCount x - 1\<rparr>"
    define u where "u = t\<lparr>sc_groups := (if gr_iProcessCount ?y = 0 then (sc_groups t)(pr_group p' := None) else (sc_groups t)(pr_group p' \<mapsto> ?y))\<rparr>"
    have hu: "holds gone X u" by (rule drop_member [OF ht p'(1) dead q(3) _ _ u_def]) (use x p' in simp_all)
    have "tame t u" by (simp add: u_def shape_def tame_def)
    then have su: "tame S u" using tame_trans [OF calm_tame [OF 2]] by blast
    have "calm u (u\<lparr>sc_objects := (sc_objects u)(q \<mapsto> p'\<lparr>pr_status := RELEASED\<rparr>)\<rparr>)"
      by (rule calm_upd [where q = q and p = p' and p' = "p'\<lparr>pr_status := RELEASED\<rparr>"]) (use p' in \<open>auto simp: live_def u_def\<close>)
    from holds_calm [OF hu this] tame_trans [OF su calm_tame [OF this]]
    have rel: "holds gone X (u\<lparr>sc_objects := (sc_objects u)(q \<mapsto> p'\<lparr>pr_status := RELEASED\<rparr>)\<rparr>) \<and>
        tame S (u\<lparr>sc_objects := (sc_objects u)(q \<mapsto> p'\<lparr>pr_status := RELEASED\<rparr>)\<rparr>)"
      by simp
    show ?case
      using x p' hu su rel
      by (auto simp: RemoveFromFGProcessList_def RemoveProcess_def wp_rules status_defs u_def)
  qed simp_all
qed

text \<open>An object that is in no list is taken out of the process map and deleted.\<close>

lemma remove_object:
  assumes h: "holds gone X S" and t: "t \<notin> set (sc_done S @ sc_todo S)"
    and g: "\<And>q. gone q \<subseteq> gone' q"
      "\<And>q p ts nx. sc_objects S q = Some p \<Longrightarrow> pr_kind p = Autonomous ts nx \<Longrightarrow> t \<in> set ts \<Longrightarrow> t \<in> gone' q"
    and u: "u = S\<lparr>sc_map := removeAll t (sc_map S), sc_objects := (sc_objects S)(t := None)\<rparr>"
  shows "holds gone' X u"
proof -
  have f: "sc_done u = sc_done S" "sc_todo u = sc_todo S" "sc_map u = removeAll t (sc_map S)" "sc_groups u = sc_groups S"
    "sc_resources u = sc_resources S" "\<And>q. sc_objects u q = (if q = t then None else sc_objects S q)"
    by (simp_all add: u)
  have l: "lists_ok S" "groups_ok X S" "waits_ok S" "\<And>q p. sc_objects S q = Some p \<Longrightarrow> kind_ok gone S q p"
    using h unfolding holds_def by auto
  have "lists_ok u"
    unfolding lists_ok_def
  proof (intro conjI ballI)
    fix q assume q: "q \<in> set (sc_done u @ sc_todo u)"
    then have "q \<noteq> t" using t by (auto simp: f)
    then show "\<exists>p ts nx. sc_objects u q = Some p \<and> pr_kind p = Autonomous ts nx"
      using l(1) q unfolding lists_ok_def f by auto
  next
    have "dom (sc_objects u) \<subseteq> dom (sc_objects S)" by (auto simp: f dom_def)
    then show "finite (dom (sc_objects u))" using l(1) unfolding lists_ok_def by (auto intro: finite_subset)
  qed (use l(1) in \<open>auto simp: lists_ok_def f\<close>)
  moreover have "kind_ok gone' u q p" if q: "sc_objects u q = Some p" for q p
  proof -
    have qs: "sc_objects S q = Some p" using q by (simp add: f split: if_splits)
    show ?thesis
    proof (cases "pr_kind p")
      case (Autonomous ts nx)
      have "\<exists>x. sc_objects u t' = Some x \<and> pr_kind x = ChildThread q" if t': "t' \<in> set ts - gone' q" for t'
      proof -
        have "t' \<in> set ts - gone q" using t' g(1) by blast
        then obtain y where y: "sc_objects S t' = Some y" "pr_kind y = ChildThread q"
          using l(4) [OF qs] Autonomous unfolding kind_ok_def by auto
        have "t' \<noteq> t" using g(2) [OF qs Autonomous] t' by auto
        then show ?thesis using y f by simp
      qed
      then show ?thesis using l(4) [OF qs] Autonomous unfolding kind_ok_def by simp
    qed (use l(4) [OF qs] in \<open>simp add: kind_ok_def\<close>)
  qed
  moreover have "groups_ok X u"
    by (rule groups_ok_shrink [OF l(2,1) f(4)]) (auto simp: members_def f split: if_splits)
  moreover have "waits_ok u" using l(3) unfolding waits_ok_def f by auto
  ultimately show ?thesis unfolding holds_def by blast
qed

lemma in_lists_Autonomous:
  "holds gone X S \<Longrightarrow> q \<in> set (sc_done S @ sc_todo S) \<Longrightarrow> \<exists>p ts nx. sc_objects S q = Some p \<and> pr_kind p = Autonomous ts nx"
  unfolding holds_def lists_ok_def by blast

lemma in_threads_ChildThread:
  "holds gone X S \<Longrightarrow> sc_objects S q = Some p \<Longrightarrow> pr_kind p = Autonomous ts nx \<Longrightarrow> t \<in> set ts - gone q \<Longrightarrow>
   \<exists>x. sc_objects S t = Some x \<and> pr_kind x = ChildThread q"
  unfolding holds_def kind_ok_def by fastforce

lemma remove_thread:
  assumes h: "holds gone X S" and t: "sc_objects S t = Some x" "pr_kind x = ChildThread pid"
    and g: "\<And>q. gone q \<subseteq> gone' q" "\<And>p ts nx. sc_objects S pid = Some p \<Longrightarrow> pr_kind p = Autonomous ts nx \<Longrightarrow> t \<in> set ts \<Longrightarrow> t \<in> gone' pid"
    and u: "u = S\<lparr>sc_map := removeAll t (sc_map S), sc_objects := (sc_objects S)(t := None)\<rparr>"
  shows "holds gone' X u"
proof (rule remove_object [OF h _ g(1) _ u])
  show "t \<notin> set (sc_done S @ sc_todo S)" using in_lists_Autonomous [OF h] t by fastforce
  fix q p ts nx assume q: "sc_objects S q = Some p" "pr_kind p = Autonomous ts nx" "t \<in> set ts"
  show "t \<in> gone' q"
  proof (cases "t \<in> gone q")
    case False
    then have "q = pid" using in_threads_ChildThread [OF h q(1,2)] q(3) t by fastforce
    then show ?thesis using g(2) q by blast
  qed (use g(1) in blast)
qed

text \<open>One round of \<open>DestroyThreads\<close>. \<open>same_main pid S t\<close>: the process stays, with its list.\<close>

definition same_main :: "int \<Rightarrow> sched \<Rightarrow> sched \<Rightarrow> bool" where
  "same_main pid S t \<longleftrightarrow> sc_done t = sc_done S \<and> sc_todo t = sc_todo S \<and>
     (\<exists>p p'. sc_objects S pid = Some p \<and> sc_objects t pid = Some p' \<and> pr_kind p' = pr_kind p \<and>
        pr_mainThreadID p' = pr_mainThreadID p \<and> (live p' \<longrightarrow> live p))"

lemma same_main_trans: "same_main pid S t \<Longrightarrow> same_main pid t u \<Longrightarrow> same_main pid S u"
  by (auto simp: same_main_def)

lemma same_main_tame: "tame S t \<Longrightarrow> sc_objects S pid = Some p \<Longrightarrow> same_main pid S t"
  by (frule (1) tameD) (auto simp: same_main_def tame_lists)

lemma same_main_object: "same_main pid S t \<Longrightarrow> \<exists>p. sc_objects t pid = Some p"
  by (auto simp: same_main_def)

lemma Destroy_thread_ok:
  assumes h: "holds gone X S" and t: "sc_objects S t = Some x" "live x" "t \<notin> X"
  shows "wp False (Destroy_thread t) (\<lambda>_ u. holds gone X u \<and> tame S u) (\<lambda>_ _. False) S"
proof -
  let ?S = "S\<lparr>sc_objects := (sc_objects S)(t \<mapsto> x\<lparr>pr_status := TERMINATED\<rparr>)\<rparr>"
  have c: "calm S ?S"
    by (rule calm_upd [where q = t and p = x and p' = "x\<lparr>pr_status := TERMINATED\<rparr>"]) (use t in \<open>auto simp: live_def\<close>)
  have l: "lists_ok S" "groups_ok X S" using h by (simp_all add: holds_def)
  have "groups_ok (insert t X) ?S"
    by (rule groups_ok_shrink [OF l(2,1)]) (use t in \<open>auto simp: members_def split: if_splits\<close>)
  then have h': "holds gone (insert t X) ?S" using holds_calm [OF h c] by (simp add: holds_def)
  have o: "sc_objects ?S t = Some (x\<lparr>pr_status := TERMINATED\<rparr>)" "\<not> live (x\<lparr>pr_status := TERMINATED\<rparr>)" by (simp_all add: live_def)
  show ?thesis
    unfolding Destroy_thread_def wp_then_do setStatus_def wp_change t(1) option.case
    by (rule wp_mono [OF Destroy_rest_ok [OF h' o t(3)]]) (use calm_tame [OF c] tame_trans in auto)
qed

lemma destroy_one:
  assumes h: "holds ((\<lambda>_. {})(pid := D)) {pid} S" and p: "sc_objects S pid = Some p" "pr_kind p = Autonomous ts nx"
    and t: "t \<in> set ts" "t \<notin> D"
  shows "wp False (and_then (object t) (\<lambda>p.
      then_do (only_if (pr_status p \<noteq> TERMINATED \<and> pr_status p \<noteq> RELEASED) (Destroy_thread t))
        (then_do (Release t) (then_do (RemoveFromProcessMap t) (delete t)))))
    (\<lambda>_ u. holds ((\<lambda>_. {})(pid := insert t D)) {pid} u \<and> same_main pid S u) (\<lambda>_ _. False) S"
proof -
  have "kind_ok ((\<lambda>_. {})(pid := D)) S pid p" using h p(1) by (simp add: holds_def)
  then obtain x where x: "sc_objects S t = Some x" "pr_kind x = ChildThread pid" using p(2) t unfolding kind_ok_def by auto
  have ne: "t \<noteq> pid" using x p by auto
  have rest: "wp False (then_do (Release t) (then_do (RemoveFromProcessMap t) (delete t)))
      (\<lambda>_ u. holds ((\<lambda>_. {})(pid := insert t D)) {pid} u \<and> same_main pid S u) (\<lambda>_ _. False) S2"
    if h2: "holds ((\<lambda>_. {})(pid := D)) {pid} S2" and s2: "tame S S2" for S2
  proof -
    obtain y where y: "sc_objects S2 t = Some y" "pr_kind y = ChildThread pid" using tameD [OF s2 x(1)] x(2) by auto
    let ?S3 = "S2\<lparr>sc_objects := (sc_objects S2)(t \<mapsto> y\<lparr>pr_status := RELEASED\<rparr>)\<rparr>"
    have c: "calm S2 ?S3"
      by (rule calm_upd [where q = t and p = y and p' = "y\<lparr>pr_status := RELEASED\<rparr>"]) (use y in \<open>auto simp: live_def\<close>)
    define u where "u = ?S3\<lparr>sc_map := removeAll t (sc_map ?S3), sc_objects := (sc_objects ?S3)(t := None)\<rparr>"
    have "holds ((\<lambda>_. {})(pid := insert t D)) {pid} u"
      by (rule remove_thread [OF holds_calm [OF h2 c] _ _ _ _ u_def, of "y\<lparr>pr_status := RELEASED\<rparr>"]) (use y in auto)
    moreover have "same_main pid S2 u" using ne tameD [OF s2 p(1)] by (auto simp: same_main_def u_def)
    ultimately show ?thesis
      using same_main_trans [OF same_main_tame [OF s2 p(1)]] y
      by (simp add: wp_rules Release_def setStatus_def RemoveFromProcessMap_def u_def)
  qed
  show ?thesis
  proof (cases "live x")
    case True
    then have l: "(pr_status x \<noteq> TERMINATED \<and> pr_status x \<noteq> RELEASED) = True" by (simp add: live_def)
    show ?thesis
      unfolding wp_and_then wp_object x(1) option.case wp_then_do only_if_def l if_True
      by (rule wp_mono [OF Destroy_thread_ok [OF h x(1) True]]) (use ne rest in \<open>auto simp: wp_then_do\<close>)
  next
    case False
    then have l: "(pr_status x \<noteq> TERMINATED \<and> pr_status x \<noteq> RELEASED) = False" by (simp add: live_def)
    show ?thesis
      using rest [OF h] calm_tame [OF calm_refl] unfolding wp_and_then wp_object x(1) option.case wp_then_do only_if_def l if_False wp_yield by simp
  qed
qed

lemma new_threads:
  assumes h: "holds ((\<lambda>_. {})(pid := D)) X S" and p: "sc_objects S pid = Some p" "pr_kind p = Autonomous ts nx"
    and ts: "distinct ts'" "set ts' \<subseteq> set ts - D" "\<forall>i. nx' = Some i \<longrightarrow> i < length ts'"
  shows "holds (\<lambda>_. {}) X (S\<lparr>sc_objects := (sc_objects S)(pid \<mapsto> p\<lparr>pr_kind := Autonomous ts' nx'\<rparr>)\<rparr>)"
proof -
  let ?S = "S\<lparr>sc_objects := (sc_objects S)(pid \<mapsto> p\<lparr>pr_kind := Autonomous ts' nx'\<rparr>)\<rparr>"
  have l: "lists_ok S" "groups_ok X S" "waits_ok S" "\<And>q p. sc_objects S q = Some p \<Longrightarrow> kind_ok ((\<lambda>_. {})(pid := D)) S q p"
    using h unfolding holds_def by auto
  have "lists_ok ?S" using l(1) unfolding lists_ok_def by auto
  moreover have "groups_ok X ?S"
    by (rule groups_ok_shrink [OF l(2,1)]) (use p in \<open>auto simp: members_def live_def split: if_splits\<close>)
  moreover have "waits_ok ?S" using l(3) p unfolding waits_ok_def by auto
  moreover have "kind_ok (\<lambda>_. {}) ?S q r" if r: "sc_objects ?S q = Some r" for q r
  proof (cases "q = pid")
    case True
    then have e: "r = p\<lparr>pr_kind := Autonomous ts' nx'\<rparr>" using r by simp
    have k: "pr_mainThreadID p = pid" "\<forall>t \<in> set ts - D. \<exists>x. sc_objects S t = Some x \<and> pr_kind x = ChildThread pid"
      using l(4) [OF p(1)] p(2) by (simp_all add: kind_ok_def)
    have "\<exists>x. sc_objects ?S t = Some x \<and> pr_kind x = ChildThread pid" if t: "t \<in> set ts'" for t
    proof -
      obtain x where "sc_objects S t = Some x" "pr_kind x = ChildThread pid"
        using bspec [OF k(2) subsetD [OF ts(2) t]] by auto
      then show ?thesis using p by (cases "t = pid") simp_all
    qed
    then show ?thesis using True k(1) ts(1,3) by (simp add: kind_ok_def e)
  next
    case False
    then have "kind_ok ((\<lambda>_. {})(pid := D)) S q r" using r l(4) by simp
    then show ?thesis using False p by (auto simp: kind_ok_def split: proc_kind.splits)
  qed
  ultimately show ?thesis unfolding holds_def by blast
qed

text \<open>\<open>same_id pid S t\<close>: the same lists, and the object is still there.\<close>

definition same_id :: "int \<Rightarrow> sched \<Rightarrow> sched \<Rightarrow> bool" where
  "same_id pid S t \<longleftrightarrow> sc_done t = sc_done S \<and> sc_todo t = sc_todo S \<and>
     (\<exists>p p'. sc_objects S pid = Some p \<and> sc_objects t pid = Some p' \<and> pr_mainThreadID p' = pr_mainThreadID p \<and>
        (live p' \<longrightarrow> live p))"

lemma same_id_trans: "same_id pid S t \<Longrightarrow> same_id pid t u \<Longrightarrow> same_id pid S u"
  by (auto simp: same_id_def)

lemma same_id_tame: "tame S t \<Longrightarrow> sc_objects S pid = Some p \<Longrightarrow> same_id pid S t"
  by (frule (1) tameD) (auto simp: same_id_def tame_lists)

lemma DestroyThreads_ok:
  assumes h: "holds (\<lambda>_. {}) {pid} S" and p: "sc_objects S pid = Some p"
  shows "wp False (DestroyThreads pid) (\<lambda>_ t. holds (\<lambda>_. {}) {pid} t \<and> same_id pid S t) (\<lambda>_ _. False) S"
proof (cases "pr_kind p")
  case (Autonomous ts nx)
  let ?I = "\<lambda>k t. holds ((\<lambda>_. {})(pid := set (take k ts))) {pid} t \<and> same_main pid S t"
  have d: "distinct ts" using h p Autonomous unfolding holds_def kind_ok_def by fastforce
  let ?one = "\<lambda>t. and_then (object t) (\<lambda>p.
      then_do (only_if (pr_status p \<noteq> TERMINATED \<and> pr_status p \<noteq> RELEASED) (Destroy_thread t))
        (then_do (Release t) (then_do (RemoveFromProcessMap t) (delete t))))"
  have loop: "wp False (steps ?one ts) (\<lambda>_. ?I (length ts)) (\<lambda>_ _. False) S"
  proof (rule wp_steps [where I = ?I])
    have "(\<lambda>_. {} :: int set)(pid := {}) = (\<lambda>_. {})" by auto
    then show "?I 0 S" using h p by (auto simp: same_main_def)
  next
    fix k t assume k: "k < length ts" and i: "?I k t"
    then obtain p' where p': "sc_objects t pid = Some p'" "pr_kind p' = Autonomous ts nx"
      using p Autonomous by (auto simp: same_main_def)
    have n: "ts ! k \<in> set ts" "ts ! k \<notin> set (take k ts)" using k d by (auto simp: in_set_conv_nth nth_eq_iff_index_eq)
    have "insert (ts ! k) (set (take k ts)) = set (take (Suc k) ts)" using k by (simp add: take_Suc_conv_app_nth)
    then show "wp False (?one (ts ! k)) (\<lambda>_. ?I (Suc k)) (\<lambda>_ _. False) t"
      using wp_mono [OF destroy_one [OF conjunct1 [OF i] p' n]] same_main_trans [OF conjunct2 [OF i]] by auto
  qed auto
  show ?thesis
    unfolding DestroyThreads_def wp_and_then wp_object p option.case Autonomous proc_kind.case wp_then_do
  proof (rule wp_mono [OF loop], goal_cases)
    case (1 _ t)
    then obtain p' where p': "sc_objects t pid = Some p'" "pr_kind p' = Autonomous ts nx" "pr_mainThreadID p' = pr_mainThreadID p"
      using p Autonomous by (auto simp: same_main_def)
    from new_threads [OF conjunct1 [OF 1] p'(1,2), of "[]" None] show ?case
      using 1 p p' by (auto simp: wp_change same_id_def same_main_def)
  qed simp_all
qed (use h p in \<open>simp add: DestroyThreads_def wp_rules same_id_def\<close>)

lemma Destroy_ok:
  assumes h: "holds (\<lambda>_. {}) {pid} S" and p: "sc_objects S pid = Some p"
  shows "wp False (Destroy pid) (\<lambda>_ t. sched_ok t \<and> same_id pid S t) (\<lambda>_ _. False) S"
proof -
  let ?S = "S\<lparr>sc_objects := (sc_objects S)(pid \<mapsto> p\<lparr>pr_status := TERMINATED\<rparr>)\<rparr>"
  have c: "calm S ?S"
    by (rule calm_upd [where q = pid and p = p and p' = "p\<lparr>pr_status := TERMINATED\<rparr>"]) (use p in \<open>auto simp: live_def\<close>)
  have dead: "sc_objects ?S pid = Some (p\<lparr>pr_status := TERMINATED\<rparr>)" "\<not> live (p\<lparr>pr_status := TERMINATED\<rparr>)"
    by (simp_all add: live_def)
  show ?thesis
    unfolding Destroy_def wp_then_do setStatus_def wp_change p option.case
  proof (rule wp_mono [OF DestroyThreads_ok [OF holds_calm [OF h c] dead(1)]], goal_cases)
    case (1 _ t)
    then obtain p' where p': "sc_objects t pid = Some p'" "\<not> live p'" using dead by (auto simp: same_id_def)
    have "holds (\<lambda>_. {}) (insert pid {}) t" using 1 by simp
    note rest = Destroy_rest_ok [OF this p'] and keep = 1
    show ?case
    proof (rule wp_mono [OF rest], goal_cases)
      case (2 _ u)
      have "same_id pid t u" using 2 same_id_tame p' by blast
      then have "same_id pid S u" using same_id_trans [OF same_id_tame [OF calm_tame [OF c] p]] keep same_id_trans by blast
      then show ?case using 2 by (simp add: sched_ok_def)
    qed simp_all
  qed simp_all
qed

section \<open>A round of the scheduler\<close>

lemma insert_live: "holds gone X S \<Longrightarrow> sc_objects S q = Some p \<Longrightarrow> live p \<Longrightarrow> holds gone (insert q X) S"
proof -
  assume a: "holds gone X S" "sc_objects S q = Some p" "live p"
  then have "members (insert q X) S = members X S" by (fastforce simp: members_def fun_eq_iff)
  then show ?thesis using a(1) by (simp add: holds_def groups_ok_def)
qed

lemma same_id_refl: "sc_objects S pid = Some p \<Longrightarrow> same_id pid S S"
  by (simp add: same_id_def)

lemma DoContextSwitch_ok:
  assumes h: "sched_ok S" and p: "sc_objects S pid = Some p" and sl: "slice_ok sl"
  shows "wp False (DoContextSwitch sl pid) (\<lambda>_ t. sched_ok t \<and> same_id pid S t) (\<lambda>_ _. False) S"
proof -
  let ?S = "S\<lparr>sc_current := pid\<rparr>"
  have c0: "calm S ?S" by (rule calm_same) simp_all
  have h0: "holds (\<lambda>_. {}) {} ?S" using holds_calm [OF h [unfolded sched_ok_def] c0] .
  have p0: "sc_objects ?S pid = Some p" using p by simp
  have en: "calm t (t\<lparr>sc_taskSwitch := True\<rparr>)" for t by (rule calm_same) simp_all
  show ?thesis
    unfolding DoContextSwitch_def wp_then_do wp_modify wp_and_then
  proof (rule wp_mono [OF wake_ok [OF h0 p0]], goal_cases)
    case (1 go t)
    then have c1: "calm S t" using calm_trans [OF c0] by blast
    show ?case
    proof (cases go)
      case False
      then show ?thesis using holds_calm [OF h [unfolded sched_ok_def] c1] same_id_tame [OF calm_tame [OF c1] p]
        by (simp add: only_if_def wp_yield sched_ok_def)
    next
      case True
      then obtain p1 where p1: "sc_objects t pid = Some p1" "live p1" "sc_current t = pid" using 1 by auto
      let ?t = "t\<lparr>sc_contextSwitch := False\<rparr>"
      have c2: "calm S ?t" by (rule calm_trans [OF c1]) (rule calm_same, simp_all)
      have h2: "holds (\<lambda>_. {}) {} ?t" by (rule holds_calm [OF h [unfolded sched_ok_def] c2])
      have h3: "holds (\<lambda>_. {}) {pid} ?t" by (rule insert_live [OF h2]) (use p1 in simp_all)
      have r: "running pid ?t" using p1 by (simp add: running_def)
      show ?thesis
        unfolding only_if_def if_P [OF True] wp_then_do wp_modify wp_and_then
      proof (rule wp_mono [OF run_slice_ok [OF h2 r sl]], goal_cases)
        case (1 _ u)
        then have c3: "calm S u" "calm ?t u" using calm_trans [OF c2] by blast+
        obtain p3 where p3: "sc_objects u pid = Some p3" using tameD [OF calm_tame [OF c3(1)] p] by blast
        have e: "sched_ok v \<and> same_id pid S v \<Longrightarrow> sched_ok (v\<lparr>sc_taskSwitch := True\<rparr>) \<and> same_id pid S (v\<lparr>sc_taskSwitch := True\<rparr>)" for v
          using holds_calm [OF _ en] by (auto simp: sched_ok_def same_id_def)
        show ?case
        proof (cases "\<not> sc_contextSwitch u \<or> pr_status p3 = TERMINATED")
          case True
          show ?thesis
            unfolding wp_gets wp_object p3 option.case if_P [OF True] task_switch_def wp_modify
            by (rule wp_mono [OF Destroy_ok [OF holds_calm [OF h3 c3(2)] p3]])
              (use e same_id_trans [OF same_id_tame [OF calm_tame [OF c3(1)] p]] in auto)
        next
          case False
          have "sched_ok u" using holds_calm [OF h [unfolded sched_ok_def] c3(1)] by (simp add: sched_ok_def)
          then show ?thesis
            using e [of u] same_id_tame [OF calm_tame [OF c3(1)] p]
            unfolding wp_gets wp_object p3 option.case if_not_P [OF False] task_switch_def wp_modify wp_yield by simp
        qed
      qed simp_all
    qed
  qed simp_all
qed

text \<open>The process or the thread of it that is switched to.\<close>

definition turn :: "int \<Rightarrow> int \<Rightarrow> sched \<Rightarrow> sched \<Rightarrow> bool" where
  "turn q pid S t \<longleftrightarrow> sched_ok t \<and> sc_done t = sc_done S \<and> sc_todo t = sc_todo S \<and>
     (\<exists>p. sc_objects t pid = Some p \<and> (pid = q \<or> pr_kind p = ChildThread q))"

lemma keep_threads:
  assumes "sched_ok S" "sc_objects S q = Some p" "pr_kind p = Autonomous ts nx"
    "distinct ts'" "set ts' \<subseteq> set ts" "\<forall>i. nx' = Some i \<longrightarrow> i < length ts'"
  shows "sched_ok (S\<lparr>sc_objects := (sc_objects S)(q \<mapsto> p\<lparr>pr_kind := Autonomous ts' nx'\<rparr>)\<rparr>)"
proof -
  have "(\<lambda>_. {} :: int set)(q := {}) = (\<lambda>_. {})" by auto
  then show ?thesis
    using new_threads [of q "{}" "{}" S p ts nx ts' nx'] assms by (simp add: sched_ok_def)
qed

lemma Threads_loop_ok:
  assumes "sched_ok S" "sc_objects S q = Some p" "pr_kind p = Autonomous (pre @ post) nx"
  shows "wp False (Threads_loop q pre post) (\<lambda>pid t. turn q pid S t) (\<lambda>_ _. False) S"
  using assms
proof (induction q pre post arbitrary: S p nx rule: Threads_loop.induct)
  case (1 q pre0 post0)
  obtain pre post where e: "(case post0 of [] \<Rightarrow> ([], pre0) | _ \<Rightarrow> (pre0, post0)) = (pre, post)" "pre @ post = pre0 @ post0"
    by (cases post0) auto
  have k: "pr_kind p = Autonomous (pre @ post) nx" using "1.prems"(3) e(2) by simp
  have d: "distinct (pre @ post)"
    using "1.prems"(1,2) k unfolding sched_ok_def holds_def kind_ok_def by fastforce
  show ?case
  proof (cases post)
    case Nil
    then show ?thesis using "1.prems"(1,2) by (simp add: Threads_loop.simps [of q pre0 post0] e(1) wp_yield turn_def)
  next
    case (Cons t post1)
    obtain x where x: "sc_objects S t = Some x" "pr_kind x = ChildThread q"
      using in_threads_ChildThread [OF "1.prems"(1) [unfolded sched_ok_def] "1.prems"(2) k, of t] Cons by auto
    have ne: "t \<noteq> q" using x k "1.prems"(2) by auto
    show ?thesis
    proof (cases "pr_status x = RELEASED")
      case False
      have "sched_ok (S\<lparr>sc_objects := (sc_objects S)(q \<mapsto> p\<lparr>pr_kind := Autonomous (pre @ t # post1)
          (if post1 = [] then None else Some (Suc (length pre)))\<rparr>)\<rparr>)"
        by (rule keep_threads [OF "1.prems"(1,2) k]) (use d Cons in auto)
      then show ?thesis using x ne False "1.prems"(2)
        by (simp add: Threads_loop.simps [of q pre0 post0] e(1) Cons Let_def wp_rules turn_def)
    next
      case True
      let ?p = "p\<lparr>pr_kind := Autonomous (pre @ post1) (if post1 = [] then None else Some (length pre))\<rparr>"
      let ?S = "S\<lparr>sc_objects := (sc_objects S)(q \<mapsto> ?p)\<rparr>"
      define u where "u = ?S\<lparr>sc_map := removeAll t (sc_map ?S), sc_objects := (sc_objects ?S)(t := None)\<rparr>"
      have "sched_ok ?S" by (rule keep_threads [OF "1.prems"(1,2) k]) (use d Cons in auto)
      then have "sched_ok u" unfolding sched_ok_def
        by (rule remove_thread [OF _ _ x(2) _ _ u_def]) (use x ne d Cons in auto)
      moreover have "sc_objects u q = Some ?p" using ne by (simp add: u_def)
      ultimately have "wp False (Threads_loop q pre post1) (\<lambda>pid t. turn q pid u t) (\<lambda>_ _. False) u"
        using "1.IH" [OF refl e(1) [symmetric] Cons True] by simp
      then have "wp False (Threads_loop q pre post1) (\<lambda>pid t. turn q pid S t) (\<lambda>_ _. False) u"
        by (rule wp_mono) (auto simp: turn_def u_def)
      then show ?thesis using x ne True "1.prems"(2)
        by (simp add: Threads_loop.simps [of q pre0 post0] e(1) Cons Let_def wp_rules RemoveFromProcessMap_def u_def)
    qed
  qed
qed

lemma forSchedule_ok:
  assumes h: "sched_ok S" and p: "sc_objects S q = Some p" "pr_kind p = Autonomous ts nx"
  shows "wp False (forSchedule q) (\<lambda>pid t. turn q pid S t) (\<lambda>_ _. False) S"
proof (cases "live p")
  case True
  then have l: "\<not> (pr_status p = TERMINATED \<or> pr_status p = RELEASED)" by (simp add: live_def)
  show ?thesis
  proof (cases nx)
    case None
    have "distinct ts" using h p unfolding sched_ok_def holds_def kind_ok_def by fastforce
    then have "sched_ok (S\<lparr>sc_objects := (sc_objects S)(q \<mapsto> p\<lparr>pr_kind := Autonomous ts (if ts = [] then None else Some 0)\<rparr>)\<rparr>)"
      by (intro keep_threads [OF h p]) auto
    then show ?thesis using l None p by (simp add: forSchedule_def wp_rules turn_def)
  next
    case (Some i)
    then show ?thesis using Threads_loop_ok [OF h p(1), of "take i ts" "drop i ts" nx] l p
      by (simp add: forSchedule_def wp_rules)
  qed
qed (use h p in \<open>auto simp: forSchedule_def wp_rules turn_def live_def\<close>)

text \<open>The scheduler list from the iterator on, and the step of the iterator.\<close>

definition rotated :: "sched \<Rightarrow> int list \<times> int list" where
  "rotated S = (if sc_todo S = [] then ([], sc_done S) else (sc_done S, sc_todo S))"

definition served :: "sched \<Rightarrow> sched \<Rightarrow> bool" where
  "served S t \<longleftrightarrow> (case rotated S of (ds, []) \<Rightarrow> sc_done t = [] \<and> sc_todo t = []
     | (ds, q # qs) \<Rightarrow> sc_todo t = qs \<and> (sc_done t = ds \<or> sc_done t = ds @ [q]))"

lemma holds_lists:
  assumes h: "holds gone X S" and e: "sc_objects t = sc_objects S" "sc_map t = sc_map S" "sc_groups t = sc_groups S"
    "sc_resources t = sc_resources S" "distinct (sc_done t @ sc_todo t)" "set (sc_done t @ sc_todo t) \<subseteq> set (sc_done S @ sc_todo S)"
  shows "holds gone X t"
proof -
  have "kind_ok gone t q p = kind_ok gone S q p" for q p unfolding kind_ok_def e(1) ..
  moreover have "lists_ok t" using h e(5,6) unfolding holds_def lists_ok_def e(1,2) by blast
  moreover have "members X t = members X S" by (simp add: members_def e(1) fun_eq_iff)
  ultimately show ?thesis using h by (simp add: holds_def groups_ok_def waits_ok_def e(1-4))
qed

lemma Schedule_step_ok:
  assumes h: "sched_ok S" and sl: "slice_ok sl"
  shows "wp False (Schedule_step sl) (\<lambda>_ t. sched_ok t \<and> served S t) (\<lambda>_ _. False) S"
proof -
  define S0 where "S0 = (if sc_todo S = [] then S\<lparr>sc_todo := sc_done S, sc_done := []\<rparr> else S)"
  have r: "sc_done S0 = fst (rotated S)" "sc_todo S0 = snd (rotated S)" by (simp_all add: S0_def rotated_def)
  have h0: "sched_ok S0"
    using h holds_lists [of "\<lambda>_. {}" "{}" S S0] by (auto simp: S0_def sched_ok_def holds_def lists_ok_def)
  show ?thesis
  proof (cases "sc_todo S0")
    case Nil
    then have "rotated S = ([], [])" using r by (cases "rotated S") (auto simp: rotated_def split: if_splits)
    then show ?thesis using Nil h0 r by (simp add: Schedule_step_def wp_rules S0_def [symmetric] served_def)
  next
    case (Cons q qs)
    then obtain p ts nx where q: "sc_objects S0 q = Some p" "pr_kind p = Autonomous ts nx"
      using in_lists_Autonomous [OF h0 [unfolded sched_ok_def], of q] by auto
    have rot: "rotated S = (sc_done S0, q # qs)" using r Cons by (cases "rotated S") simp
    have dist: "distinct (sc_done S0 @ q # qs)" using h0 Cons by (simp add: sched_ok_def holds_def lists_ok_def)
    show ?thesis
      unfolding Schedule_step_def wp_then_do wp_modify wp_and_then wp_gets S0_def [symmetric] Cons list.case
    proof (rule wp_mono [OF forSchedule_ok [OF h0 q]], goal_cases)
      case (1 pid t)
      then obtain p1 where p1: "sc_objects t pid = Some p1" "pid = q \<or> pr_kind p1 = ChildThread q" and ht: "sched_ok t"
        and lt: "sc_done t = sc_done S0" "sc_todo t = q # qs"
        using Cons by (auto simp: turn_def)
      show ?case
      proof (rule wp_mono [OF DoContextSwitch_ok [OF ht p1(1) sl]], goal_cases)
        case (1 _ u)
        then obtain p2 where p2: "sc_objects u pid = Some p2" "pr_mainThreadID p2 = pr_mainThreadID p1" and hu: "sched_ok u"
          and lu: "sc_done u = sc_done S0" "sc_todo u = q # qs"
          using p1(1) lt by (auto simp: same_id_def)
        have k1: "kind_ok (\<lambda>_. {}) t pid p1" using ht p1(1) by (simp add: sched_ok_def holds_def)
        show ?case
        proof (cases "\<not> isChildThread pid p2 \<and> pr_status p2 = RELEASED")
          case False
          have "sched_ok (u\<lparr>sc_todo := qs, sc_done := sc_done S0 @ [q]\<rparr>)"
            unfolding sched_ok_def by (rule holds_lists [OF hu [unfolded sched_ok_def]]) (use lu dist in auto)
          then show ?thesis using False p2 lu rot by (auto simp: wp_rules served_def Let_def)
        next
          case True
          have e: "pid = q"
          proof (rule ccontr)
            assume "pid \<noteq> q"
            then have "pr_kind p1 = ChildThread q" using p1(2) by blast
            then have "pr_mainThreadID p1 \<noteq> pid" using k1 by (simp add: kind_ok_def)
            then show False using True p2(2) by (simp add: isChildThread_def)
          qed
          let ?v = "u\<lparr>sc_todo := qs, sc_done := sc_done S0\<rparr>"
          have hv: "holds (\<lambda>_. {}) {} ?v"
            by (rule holds_lists [OF hu [unfolded sched_ok_def]]) (use lu dist in auto)
          define w where "w = ?v\<lparr>sc_map := removeAll q (sc_map ?v), sc_objects := (sc_objects ?v)(q := None)\<rparr>"
          have au: "\<exists>p ts nx. sc_objects u q = Some p \<and> pr_kind p = Autonomous ts nx"
            using in_lists_Autonomous [OF hu [unfolded sched_ok_def], of q] lu by simp
          have "holds (\<lambda>_. {}) {} w"
          proof (rule remove_object [OF hv _ _ _ w_def])
            show "q \<notin> set (sc_done ?v @ sc_todo ?v)" using dist by simp
            fix q' p ts nx assume q': "sc_objects ?v q' = Some p" "pr_kind p = Autonomous ts nx" "q \<in> set ts"
            then show "q \<in> {}" using in_threads_ChildThread [OF hv q'(1,2), of q] au by auto
          qed simp
          then show ?thesis using True p2 e lu rot
            by (simp add: wp_rules served_def Let_def RemoveFromProcessMap_def w_def sched_ok_def)
        qed
      qed simp_all
    qed simp_all
  qed
qed

end
