(* ===== verification/SchedFacts.thy ===== *)
theory SchedFacts
  imports SchedProofs
begin

text \<open>
  What the scheduler gives: every process of its list has its turn within one round of the list. And what it
  does not: a killed process is not destroyed, a resource may have two holders, a wake-up that comes early is lost.
\<close>

section \<open>Turns\<close>

text \<open>The list from the iterator on, in the order in which it is served.\<close>

abbreviation cyclic :: "sched \<Rightarrow> int list" where
  "cyclic S \<equiv> sc_todo S @ sc_done S"

definition next_process :: "sched \<Rightarrow> int option" where
  "next_process S = (case sc_todo S of q # _ \<Rightarrow> Some q | [] \<Rightarrow> (case sc_done S of q # _ \<Rightarrow> Some q | [] \<Rightarrow> None))"

lemma next_process_cyclic: "next_process S = (case cyclic S of [] \<Rightarrow> None | q # _ \<Rightarrow> Some q)"
  by (simp add: next_process_def split: list.split)

lemma served_cyclic: "served S t \<Longrightarrow> cyclic S = q # qs \<Longrightarrow> cyclic t = qs \<or> cyclic t = qs @ [q]"
  by (auto simp: served_def rotated_def split: if_splits list.splits)

lemma rounds_ok:
  assumes "sched_ok S" "\<And>k. k < n \<Longrightarrow> slice_ok (slices k)" "n \<le> length (cyclic S)"
  shows "wp False (StartScheduler slices n) (\<lambda>_ t. sched_ok t \<and> (\<exists>xs. cyclic t = drop n (cyclic S) @ xs)) (\<lambda>_ _. False) S"
  unfolding StartScheduler_def
proof (rule wp_steps [where I = "\<lambda>k t. sched_ok t \<and> (\<exists>xs. cyclic t = drop k (cyclic S) @ xs)"], goal_cases)
  case 1
  show ?case using assms(1) by simp
next
  case (2 k t)
  then have k: "k < n" "[0..<n] ! k = k" by simp_all
  obtain xs where xs: "sched_ok t" "cyclic t = drop k (cyclic S) @ xs" using 2 by blast
  have "drop k (cyclic S) = cyclic S ! k # drop (Suc k) (cyclic S)" using k assms(3) by (intro Cons_nth_drop_Suc [symmetric]) simp
  then have c: "cyclic t = cyclic S ! k # (drop (Suc k) (cyclic S) @ xs)" using xs(2) by simp
  show ?case
    unfolding k(2)
  proof (rule wp_mono [OF Schedule_step_ok [OF xs(1) assms(2) [OF k(1)]]], goal_cases)
    case (1 _ u)
    then show ?case using served_cyclic [OF _ c] by fastforce
  qed simp_all
qed simp_all

text \<open>C8: While no processes are created, every process in the scheduler list has its turn: if \<open>i\<close> entries
  come before it from the iterator on, then the first \<open>i\<close> rounds of \<open>StartScheduler\<close> come to
  an end whatever the processes do in their slices - wait, exit, kill each other, signal - no object
  that is deleted is used, the invariant is kept and the next round is for that process.
\<close>

theorem scheduler_serves_in_turn:
  assumes "sched_ok S" "\<forall>k < i. slice_ok (slices k)" "i < length (sc_todo S @ sc_done S)"
  shows "\<exists>t. StartScheduler slices i S = Some (Inr (), t) \<and> sched_ok t \<and>
     next_process t = Some ((sc_todo S @ sc_done S) ! i)"
proof -
  have "wp False (StartScheduler slices i) (\<lambda>_ t. sched_ok t \<and> (\<exists>xs. cyclic t = drop i (cyclic S) @ xs)) (\<lambda>_ _. False) S"
    using assms by (intro rounds_ok) auto
  then obtain t xs where t: "StartScheduler slices i S = Some (Inr (), t)" "sched_ok t" "cyclic t = drop i (cyclic S) @ xs"
    unfolding wp_returns by auto
  have "drop i (cyclic S) = cyclic S ! i # drop (Suc i) (cyclic S)"
    using assms(3) by (intro Cons_nth_drop_Suc [symmetric])
  then have "next_process t = Some (cyclic S ! i)" unfolding next_process_cyclic t(3) by (simp only: append.simps list.case)
  then show ?thesis using t by blast
qed

text \<open>A kernel process and a child that waits for its next turn.\<close>

definition sample_proc :: "proc_kind \<Rightarrow> int \<Rightarrow> int \<Rightarrow> proc" where
  "sample_proc k main parent = \<lparr>pr_kind = k, pr_mainThreadID = main, pr_parentProcessID = parent, pr_status = RUN,
     pr_stateInfo = ProcessStateInfo, pr_group = 1, pr_childProcessIDs = []\<rparr>"

definition sample_sched :: sched where
  "sample_sched = \<lparr>sc_objects = [0 \<mapsto> (sample_proc (Autonomous [2] (Some 0)) 0 (-1))\<lparr>pr_childProcessIDs := [1]\<rparr>,
       1 \<mapsto> sample_proc (Autonomous [] None) 1 0, 2 \<mapsto> sample_proc (ChildThread 0) 0 0],
     sc_map = [0, 1, 2], sc_done = [1], sc_todo = [0], sc_nextPid = 3, sc_current = 1, sc_kernelPid = 0,
     sc_groups = [1 \<mapsto> \<lparr>gr_iProcessCount = 3, gr_fgProcessList = [0]\<rparr>], sc_groupSeq = 1, sc_fgGroup = 1,
     sc_kernelModeStateInfo = ProcessStateInfo, sc_resources = replicate 5 False, sc_irqs = (\<lambda>_. 0), sc_clock = 0,
     sc_contextSwitch = False, sc_taskSwitch = True\<rparr>"

lemma sample_sched_ok: "sched_ok sample_sched"
proof -
  have m: "members {} sample_sched g = (if g = 1 then {0, 1, 2} else {})" for g
    by (auto simp: members_def sample_sched_def sample_proc_def live_def)
  have "lists_ok sample_sched" by (simp add: lists_ok_def sample_sched_def sample_proc_def)
  moreover have "kind_ok (\<lambda>_. {}) sample_sched q p" if "sc_objects sample_sched q = Some p" for q p
    using that by (auto simp: kind_ok_def sample_sched_def sample_proc_def split: if_splits)
  moreover have "groups_ok {} sample_sched" unfolding groups_ok_def m by (simp add: sample_sched_def)
  moreover have "waits_ok sample_sched" by (auto simp: waits_ok_def sample_sched_def sample_proc_def)
  ultimately show ?thesis by (simp add: sched_ok_def holds_def)
qed

lemma scheduler_serves_in_turn_witness:
  "\<exists>t. StartScheduler (\<lambda>_. ([InterruptSignal 1], Kills 1)) 1 sample_sched = Some (Inr (), t) \<and> sched_ok t \<and>
     next_process t = Some ((sc_todo sample_sched @ sc_done sample_sched) ! 1)"
  by (rule scheduler_serves_in_turn [OF sample_sched_ok]) (simp_all add: slice_ok_def sample_sched_def)

section \<open>What goes wrong\<close>

lemma terminated_round:
  assumes "next_process S = Some v" "sc_objects S v = Some p" "pr_status p = TERMINATED" "sched_ok S"
  shows "wp False (Schedule_step sl) (\<lambda>_ t. sc_groups t = sc_groups S \<and> (\<forall>q. q \<noteq> v \<longrightarrow> sc_objects t q = sc_objects S q) \<and>
     sc_objects t v = (if pr_parentProcessID p = sc_kernelPid S then None else Some p)) (\<lambda>_ _. False) S"
proof -
  obtain q qs where t: "(if sc_todo S = [] then sc_done S else sc_todo S) = v # qs"
    using assms(1) by (auto simp: next_process_def split: list.splits if_splits)
  have "v \<in> set (sc_done S @ sc_todo S)" using t by (auto split: if_splits)
  then obtain ts nx where "pr_kind p = Autonomous ts nx" using in_lists_Autonomous assms(2,4) unfolding sched_ok_def by fastforce
  then have m: "pr_mainThreadID p = v" using assms(2,4) unfolding sched_ok_def holds_def kind_ok_def by fastforce
  show ?thesis
    using t m assms(2,3)
    by (cases "sc_todo S = []") (auto simp: Schedule_step_def forSchedule_def DoContextSwitch_def wake_def Let_def wp_rules status_defs
        isChildThread_def RemoveFromProcessMap_def)
qed

text \<open>C9: A process that another one kills is not destroyed. \<open>Kill\<close> only sets its status, and when the
  scheduler comes to it, it deletes the object of a child of the kernel and leaves any other as it
  is: its threads and child processes are neither ended nor given a new parent, and its process
  group still counts it.
\<close>

theorem killed_process_is_not_destroyed:
  assumes "sc_objects S v = Some p" "v \<in> set (sc_map S)"
  shows "\<exists>t. Kill v S = Some (Inr (), t) \<and> sc_objects t = (sc_objects S)(v \<mapsto> p\<lparr>pr_status := TERMINATED\<rparr>) \<and>
     sc_groups t = sc_groups S \<and>
     (\<forall>u sl. sched_ok u \<and> sc_objects u v = sc_objects t v \<and> next_process u = Some v \<longrightarrow>
       (\<exists>w. Schedule_step sl u = Some (Inr (), w) \<and> sc_groups w = sc_groups u \<and>
          (\<forall>q. q \<noteq> v \<longrightarrow> sc_objects w q = sc_objects u q) \<and>
          (pr_parentProcessID p = sc_kernelPid u \<longrightarrow> sc_objects w v = None)))"
proof -
  define t where "t = S\<lparr>sc_objects := (sc_objects S)(v \<mapsto> p\<lparr>pr_status := TERMINATED\<rparr>), sc_taskSwitch := False, sc_contextSwitch := True\<rparr>"
  have k: "wp False (Kill v) (\<lambda>_ u. u = t) (\<lambda>_ _. False) S"
    using assms by (simp add: Kill_def ProcessManager_Yield_def task_switch_def wp_rules status_defs t_def)
  have "\<exists>w. Schedule_step sl u = Some (Inr (), w) \<and> sc_groups w = sc_groups u \<and>
      (\<forall>q. q \<noteq> v \<longrightarrow> sc_objects w q = sc_objects u q) \<and> (pr_parentProcessID p = sc_kernelPid u \<longrightarrow> sc_objects w v = None)"
    if "sched_ok u" "sc_objects u v = sc_objects t v" "next_process u = Some v" for u sl
    using terminated_round [of u v "p\<lparr>pr_status := TERMINATED\<rparr>" sl] that unfolding wp_returns t_def by auto
  then show ?thesis using k unfolding wp_returns by (auto simp: t_def)
qed

lemma killed_process_is_not_destroyed_witness:
  "\<exists>t. Kill 0 sample_sched = Some (Inr (), t) \<and>
     sc_objects t = (sc_objects sample_sched)(0 \<mapsto> (sample_proc (Autonomous [2] (Some 0)) 0 (-1))\<lparr>pr_childProcessIDs := [1]\<rparr>\<lparr>pr_status := TERMINATED\<rparr>) \<and>
     sc_groups t = sc_groups sample_sched \<and>
     (\<forall>u sl. sched_ok u \<and> sc_objects u 0 = sc_objects t 0 \<and> next_process u = Some 0 \<longrightarrow>
       (\<exists>w. Schedule_step sl u = Some (Inr (), w) \<and> sc_groups w = sc_groups u \<and>
          (\<forall>q. q \<noteq> 0 \<longrightarrow> sc_objects w q = sc_objects u q) \<and>
          (pr_parentProcessID ((sample_proc (Autonomous [2] (Some 0)) 0 (-1))\<lparr>pr_childProcessIDs := [1]\<rparr>) = sc_kernelPid u \<longrightarrow> sc_objects w 0 = None)))"
  by (rule killed_process_is_not_destroyed) (simp_all add: sample_sched_def)

text \<open>C10: A process that waited for a resource does not hold it when \<open>ResourceMutex::Lock\<close> returns. The process that locks a busy
  resource waits; in whatever state the scheduler comes to it with the resource free, it gives it the processor, \<open>Lock\<close> goes on behind
  its call of \<open>WaitOnResource\<close> and returns true with the resource still marked free, and whoever locks it next gets true as well.
\<close>

theorem awaited_resource_has_two_holders:
  assumes "sc_current S = a" "0 \<le> a" "sc_objects S a = Some p" "r < MAX_RESOURCE" "length (sc_resources S) = MAX_RESOURCE" "sc_resources S ! r"
  shows "\<exists>t. ResourceMutex_Lock True r S = Some (Inr None, t) \<and> sc_resources t = sc_resources S \<and>
     (\<forall>u. sc_objects u a = sc_objects t a \<and> length (sc_resources u) = MAX_RESOURCE \<and> \<not> sc_resources u ! r \<longrightarrow>
       (\<exists>v w. wake a u = Some (Inr True, v) \<and> Lock_end v = Some (Inr True, w) \<and> sc_resources w = sc_resources u \<and>
         (\<forall>b blocking. \<exists>x. ResourceMutex_Lock blocking r (w\<lparr>sc_current := b\<rparr>) = Some (Inr (Some True), x) \<and>
           sc_resources x = (sc_resources u)[r := True])))"
proof -
  let ?waits = "\<lambda>t. \<exists>q. sc_objects t a = Some q \<and> pr_status q = WAIT_RESOURCE \<and> si_waitResourceId (pr_stateInfo q) = r"
  have "wp False (ResourceMutex_Lock True r) (\<lambda>b t. b = None \<and> sc_resources t = sc_resources S \<and> ?waits t) (\<lambda>_ _. False) S"
    using assms by (simp add: ResourceMutex_Lock_def IsResourceBusy_def WaitOnResource_def wait_with_def task_switch_def
        ProcessManager_Yield_def wp_rules status_defs)
  then obtain t q where t: "ResourceMutex_Lock True r S = Some (Inr None, t)" "sc_resources t = sc_resources S" "sc_objects t a = Some q"
    "pr_status q = WAIT_RESOURCE" "si_waitResourceId (pr_stateInfo q) = r" unfolding wp_returns by auto
  have "\<exists>v w. wake a u = Some (Inr True, v) \<and> Lock_end v = Some (Inr True, w) \<and> sc_resources w = sc_resources u \<and>
      (\<forall>b blocking. \<exists>x. ResourceMutex_Lock blocking r (w\<lparr>sc_current := b\<rparr>) = Some (Inr (Some True), x) \<and> sc_resources x = (sc_resources u)[r := True])"
    if "sc_objects u a = sc_objects t a" "length (sc_resources u) = MAX_RESOURCE" "\<not> sc_resources u ! r" for u
  proof -
    have "wp False (wake a) (\<lambda>b v. b \<and> sc_resources v = sc_resources u) (\<lambda>_ _. False) u"
      using that t(3-5) assms(4) by (auto simp: wake_def Let_def IsResourceBusy_def wp_rules status_defs)
    then obtain v where v: "wake a u = Some (Inr True, v)" "sc_resources v = sc_resources u" unfolding wp_returns by auto
    have "wp False Lock_end (\<lambda>b w. b \<and> sc_resources w = sc_resources u) (\<lambda>_ _. False) v"
      using v(2) by (simp add: Lock_end_def task_switch_def wp_rules)
    then obtain w where w: "Lock_end v = Some (Inr True, w)" "sc_resources w = sc_resources u" unfolding wp_returns by auto
    have "wp False (ResourceMutex_Lock blocking r) (\<lambda>c x. c = Some True \<and> sc_resources x = (sc_resources u)[r := True])
        (\<lambda>_ _. False) (w\<lparr>sc_current := b\<rparr>)" for b blocking
      using that(2,3) w(2) assms(4)
      by (simp add: ResourceMutex_Lock_def Lock_end_def task_switch_def IsResourceBusy_def SetResourceBusy_def wp_rules)
    then show ?thesis using v(1) w unfolding wp_returns by blast
  qed
  then show ?thesis using t(1,2) by blast
qed

definition contended_sched :: sched where
  "contended_sched = sample_sched\<lparr>sc_resources := (replicate 5 False)[2 := True]\<rparr>"

lemma awaited_resource_has_two_holders_witness:
  "\<exists>t. ResourceMutex_Lock True 2 contended_sched = Some (Inr None, t) \<and> sc_resources t = sc_resources contended_sched \<and>
     (\<exists>v w x. wake 1 (t\<lparr>sc_resources := replicate 5 False\<rparr>) = Some (Inr True, v) \<and> Lock_end v = Some (Inr True, w) \<and>
        ResourceMutex_Lock True 2 (w\<lparr>sc_current := 0\<rparr>) = Some (Inr (Some True), x))"
proof -
  have "sc_current contended_sched = 1" "sc_objects contended_sched 1 = Some (sample_proc (Autonomous [] None) 1 0)"
    "length (sc_resources contended_sched) = 5" "sc_resources contended_sched ! 2"
    by (simp_all add: contended_sched_def sample_sched_def)
  from awaited_resource_has_two_holders [OF this(1) _ this(2) _ this(3) this(4)]
  obtain t where t: "ResourceMutex_Lock True 2 contended_sched = Some (Inr None, t)" "sc_resources t = sc_resources contended_sched"
    "\<And>u. sc_objects u 1 = sc_objects t 1 \<Longrightarrow> length (sc_resources u) = 5 \<Longrightarrow> \<not> sc_resources u ! 2 \<Longrightarrow>
       (\<exists>v w. wake 1 u = Some (Inr True, v) \<and> Lock_end v = Some (Inr True, w) \<and> sc_resources w = sc_resources u \<and>
         (\<forall>b blocking. \<exists>x. ResourceMutex_Lock blocking 2 (w\<lparr>sc_current := b\<rparr>) = Some (Inr (Some True), x) \<and>
           sc_resources x = (sc_resources u)[2 := True]))" by auto
  show ?thesis using t(1,2) t(3) [of "t\<lparr>sc_resources := replicate 5 False\<rparr>"] by simp blast
qed

text \<open>A wake-up that comes early is lost: when the kernel service completes a request before the
  process that made it calls \<open>WaitOnKernelService\<close>, the call clears the mark, and while nobody
  completes another request of the process it never runs again.
\<close>

theorem early_wakeup_is_lost:
  assumes "sc_objects S me = Some p" "sc_current S = me" "0 \<le> me" "me \<in> set (sc_map S)"
  shows "\<exists>t. then_do (WakeUpFromKSWait me) WaitOnKernelService S = Some (Inr (), t) \<and>
     (\<forall>u. sc_objects u me = sc_objects t me \<longrightarrow> wake me u = Some (Inr False, u))"
proof -
  have "wp False (then_do (WakeUpFromKSWait me) WaitOnKernelService)
      (\<lambda>_ t. \<exists>p'. sc_objects t me = Some p' \<and> pr_status p' = WAIT_KERNEL_SERVICE \<and> \<not> si_kernelServiceComplete (pr_stateInfo p')) (\<lambda>_ _. False) S"
    using assms by (auto simp: WakeUpFromKSWait_def WaitOnKernelService_def wait_with_def ProcessManager_Yield_def task_switch_def
        wp_rules status_defs)
  then obtain t p' where t: "then_do (WakeUpFromKSWait me) WaitOnKernelService S = Some (Inr (), t)"
      "sc_objects t me = Some p'" "pr_status p' = WAIT_KERNEL_SERVICE" "\<not> si_kernelServiceComplete (pr_stateInfo p')"
    unfolding wp_returns by auto
  have "wake me u = Some (Inr False, u)" if "sc_objects u me = Some p'" for u
    using that t(3,4) by (simp add: wake_def object_def and_then_def gets_def the_or_def yield_def Let_def)
  then show ?thesis using t(1,2) by auto
qed

lemma early_wakeup_is_lost_witness:
  "\<exists>t. then_do (WakeUpFromKSWait 1) WaitOnKernelService sample_sched = Some (Inr (), t) \<and>
     (\<forall>u. sc_objects u 1 = sc_objects t 1 \<longrightarrow> wake 1 u = Some (Inr False, u))"
  by (rule early_wakeup_is_lost [where p = "sample_proc (Autonomous [] None) 1 0"]) (simp_all add: sample_sched_def)

end
