(* ===== verification/Partitions.thy ===== *)
theory Partitions
  imports FsTable
begin

text \<open>
  The partition tables of a disk, \<open>drivers/PartitionManager.cpp\<close>: reading the master boot record, the
  chain of extended boot records and the GUID partition table, creating and deleting partitions.

  The disk below is a \<open>block_io\<close> with the size \<open>pt_size\<close>; a sector buffer is a list of 512 bytes. The
  chain of extended records and the array of GUID entries are read until an empty entry comes; a
  disk without one makes the loop endless, so the loops have fuel (\<open>fuel\<close> sectors) and are undefined
  without. \<open>upan::list\<close> is used like \<open>std::list\<close>; \<open>pop_back\<close> of an empty list is undefined, and an
  iterator stays at its element when the list grows.
\<close>

section \<open>Records\<close>

abbreviation (input) SI_EXT :: u8 where "SI_EXT \<equiv> 5"
abbreviation (input) SI_EMTY :: u8 where "SI_EMTY \<equiv> 1"
abbreviation (input) SI_GPT :: u8 where "SI_GPT \<equiv> 0xEE"
abbreviation (input) DEF_START_SEC :: u32 where "DEF_START_SEC \<equiv> 63"
abbreviation (input) MAX_NO_OF_PRIMARY_PARTITIONS :: nat where "MAX_NO_OF_PRIMARY_PARTITIONS \<equiv> 4"

datatype partition_types = ACTIVE | EXTENEDED | NORMAL

record mbr_info =
  BootIndicator :: u8
  StartHead :: u8
  StartSector :: u8
  StartCylinder :: u8
  SystemIndicator :: u8
  EndHead :: u8
  EndSector :: u8
  EndCylinder :: u8
  LBAStartSector :: u32
  LBANoOfSectors :: u32

definition empty_info :: mbr_info where
  "empty_info = \<lparr>BootIndicator = 0, StartHead = 0, StartSector = 0, StartCylinder = 0, SystemIndicator = 0,
     EndHead = 0, EndSector = 0, EndCylinder = 0, LBAStartSector = 0, LBANoOfSectors = 0\<rparr>"

definition MBRPartitionInfo :: "u32 \<Rightarrow> u32 \<Rightarrow> partition_types \<Rightarrow> mbr_info" where
  "MBRPartitionInfo lbaStart sz type =
     \<lparr>BootIndicator = (if type = ACTIVE then 0x80 else 0), StartHead = 255, StartSector = 255, StartCylinder = 254,
      SystemIndicator = (if type = EXTENEDED then SI_EXT else SI_EMTY), EndHead = 255, EndSector = 255, EndCylinder = 254,
      LBAStartSector = lbaStart, LBANoOfSectors = sz\<rparr>"

definition info_IsEmpty :: "mbr_info \<Rightarrow> bool" where
  "info_IsEmpty p \<longleftrightarrow> SystemIndicator p = 0 \<or> LBANoOfSectors p = 0"

text \<open>\<open>struct MBRPartitionInfo\<close>, packed: 16 bytes; entry \<open>i\<close> of the table at \<open>0x1BE\<close> of a sector.\<close>

definition info_bytes :: "mbr_info \<Rightarrow> u8 list" where
  "info_bytes p = [BootIndicator p, StartHead p, StartSector p, StartCylinder p, SystemIndicator p, EndHead p, EndSector p,
     EndCylinder p] @ bytes_of [LBAStartSector p, LBANoOfSectors p]"

definition info_of_bytes :: "u8 list \<Rightarrow> mbr_info" where
  "info_of_bytes bs = \<lparr>BootIndicator = bs ! 0, StartHead = bs ! 1, StartSector = bs ! 2, StartCylinder = bs ! 3,
     SystemIndicator = bs ! 4, EndHead = bs ! 5, EndSector = bs ! 6, EndCylinder = bs ! 7,
     LBAStartSector = hd (words_of (drop 8 bs)), LBANoOfSectors = hd (words_of (drop 12 bs))\<rparr>"

definition get_info :: "nat \<Rightarrow> u8 list \<Rightarrow> mbr_info" where
  "get_info i buf = info_of_bytes (take 16 (drop (0x1BE + 16 * i) buf))"

definition put_info :: "nat \<Rightarrow> mbr_info \<Rightarrow> u8 list \<Rightarrow> u8 list" where
  "put_info i p buf = take (0x1BE + 16 * i) buf @ info_bytes p @ drop (0x1BE + 16 * i + 16) buf"

record partition_entry =
  pe_start :: u32
  pe_size :: u32
  pe_fsId :: u8

record ext_table =
  ext_current :: mbr_info
  ext_start :: u32

record 'd ptable =
  pt_gpt :: bool
  pt_mbr :: bool
  pt_ext :: bool
  pt_extEntry :: mbr_info
  pt_primary :: "mbr_info list"
  pt_extList :: "ext_table list"
  pt_partitions :: "partition_entry list"
  pt_size :: u32
  pt_disk :: 'd

datatype partition_error =
    DiskError drive_error
  | UnsupportedSignature
  | PrimaryPartitionFull
  | ExtendedExists
  | NoPrimaryPartitions
  | InsufficientSpace
  | NoExtendedPartition
  | PartitionTableEmpty
  | ExtTableEmpty

type_synonym ('d, 'a) pt_eff = "('d ptable, partition_error, 'a) eff"

definition disk_read :: "'d block_io \<Rightarrow> u32 \<Rightarrow> ('d, sector) pt_eff" where
  "disk_read io s st =
     (case io_read io s 1 [zeros] (pt_disk st) of
        None \<Rightarrow> None
      | Some (Inl e, _, d) \<Rightarrow> Some (Inl (DiskError e), st\<lparr>pt_disk := d\<rparr>)
      | Some (Inr _, buf, d) \<Rightarrow> Some (Inr (hd buf), st\<lparr>pt_disk := d\<rparr>))"

definition disk_write :: "'d block_io \<Rightarrow> u32 \<Rightarrow> sector \<Rightarrow> ('d, unit) pt_eff" where
  "disk_write io s buf st =
     (case io_write io s 1 [buf] (pt_disk st) of
        None \<Rightarrow> None
      | Some (Inl e, d) \<Rightarrow> Some (Inl (DiskError e), st\<lparr>pt_disk := d\<rparr>)
      | Some (Inr _, d) \<Rightarrow> Some (Inr (), st\<lparr>pt_disk := d\<rparr>))"

section \<open>Reading the tables\<close>

text \<open>The loop of \<open>VerifyMBR\<close>: whether it is a GUID table, \<open>bPartitioned\<close>, the active partitions, the sectors.\<close>

function VerifyMBR_loop :: "sector \<Rightarrow> nat \<Rightarrow> u32 \<Rightarrow> u32 \<Rightarrow> bool \<Rightarrow> u32 \<Rightarrow> bool \<times> bool \<times> u32 \<times> u32" where
  "VerifyMBR_loop buf i active prevEnd partitioned count =
     (if \<not> i < MAX_NO_OF_PRIMARY_PARTITIONS then (False, partitioned, active, count)
      else
        let p = get_info i buf;
            active = (if BootIndicator p = 0x80 then active + 1 else active)
        in if info_IsEmpty p then (False, partitioned, active, count)
           else if LBAStartSector p > prevEnd then
             if i = 0 \<and> SystemIndicator p = SI_GPT then (True, True, active, count + LBANoOfSectors p)
             else VerifyMBR_loop buf (i + 1) active (LBAStartSector p + LBANoOfSectors p - 1) True (count + LBANoOfSectors p)
           else (False, False, active, count))"
  by pat_completeness auto
termination
  by (relation "measure (\<lambda>(buf, i, _). MAX_NO_OF_PRIMARY_PARTITIONS - i)") auto

declare VerifyMBR_loop.simps [simp del]

definition VerifyMBR :: "sector \<Rightarrow> ('d, unit) pt_eff" where
  "VerifyMBR buf = modify (\<lambda>st.
     case VerifyMBR_loop buf 0 0 0 False 0 of (gpt, partitioned, active, count) \<Rightarrow>
       if gpt then st\<lparr>pt_gpt := True\<rparr>
       else st\<lparr>pt_mbr := \<not> (\<not> partitioned \<or> active \<noteq> 1 \<or> count > pt_size st)\<rparr>)"

definition entry_of :: "u32 \<Rightarrow> mbr_info \<Rightarrow> partition_entry" where
  "entry_of offset p = \<lparr>pe_start = LBAStartSector p + offset, pe_size = LBANoOfSectors p, pe_fsId = SystemIndicator p\<rparr>"

text \<open>The primary entries of the boot record.\<close>

fun ReadPrimary_loop :: "sector \<Rightarrow> nat list \<Rightarrow> 'd ptable \<Rightarrow> 'd ptable" where
  "ReadPrimary_loop buf [] st = st"
| "ReadPrimary_loop buf (i # is) st =
     (let p = get_info i buf
      in if info_IsEmpty p then st
         else ReadPrimary_loop buf is
           (if SystemIndicator p = SI_EXT then st\<lparr>pt_ext := True, pt_extEntry := p\<rparr>
            else st\<lparr>pt_primary := pt_primary st @ [p], pt_partitions := pt_partitions st @ [entry_of 0 p]\<rparr>))"

fun ReadExt_loop :: "'d block_io \<Rightarrow> nat \<Rightarrow> u32 \<Rightarrow> u32 \<Rightarrow> ('d, unit) pt_eff" where
  "ReadExt_loop io 0 uiExtSectorID uiStartExtSectorID = undef"
| "ReadExt_loop io (Suc n) uiExtSectorID uiStartExtSectorID =
     and_then (disk_read io uiExtSectorID) (\<lambda>buf.
     if info_IsEmpty (get_info 0 buf) then yield ()
     else
       then_do (modify (\<lambda>st. st\<lparr>pt_extList := pt_extList st @ [\<lparr>ext_current = get_info 0 buf, ext_start = uiExtSectorID\<rparr>],
           pt_partitions := pt_partitions st @ [entry_of uiExtSectorID (get_info 0 buf)]\<rparr>))
         (if info_IsEmpty (get_info 1 buf) then yield ()
          else ReadExt_loop io n (uiStartExtSectorID + LBAStartSector (get_info 1 buf)) uiStartExtSectorID))"

definition ReadMBRPartition :: "'d block_io \<Rightarrow> nat \<Rightarrow> sector \<Rightarrow> ('d, unit) pt_eff" where
  "ReadMBRPartition io fuel buf =
     then_do (modify (ReadPrimary_loop buf [0..<MAX_NO_OF_PRIMARY_PARTITIONS]))
       (and_then (gets id) (\<lambda>st.
        if \<not> pt_ext st then yield ()
        else ReadExt_loop io fuel (LBAStartSector (pt_extEntry st)) (LBAStartSector (pt_extEntry st))))"

subsection \<open>The GUID table\<close>

definition le64 :: "u8 list \<Rightarrow> u64" where
  "le64 bs = (case words_of (take 8 bs) of lo # hi # _ \<Rightarrow> ucast lo OR push_bit 32 (ucast hi) | _ \<Rightarrow> 0)"

definition CheckSignature :: "sector \<Rightarrow> bool" where
  "CheckSignature buf \<longleftrightarrow> take 8 buf = [0x45, 0x46, 0x49, 0x20, 0x50, 0x41, 0x52, 0x54]"

definition PartArrStartLBA :: "sector \<Rightarrow> u64" where
  "PartArrStartLBA buf = le64 (drop 72 buf)"

definition gpt_IsEmpty :: "u8 list \<Rightarrow> bool" where
  "gpt_IsEmpty e \<longleftrightarrow> list_all (\<lambda>b. b = 0) (take 16 e)"

definition gpt_entry :: "u8 list \<Rightarrow> partition_entry" where
  "gpt_entry e = (let firstLBA = le64 (drop 32 e); lastLBA = le64 (drop 40 e)
     in \<lparr>pe_start = ucast firstLBA, pe_size = ucast (lastLBA - firstLBA + 1), pe_fsId = SI_EMTY\<rparr>)"

text \<open>The entries of one sector; whether an empty one ends the table.\<close>

fun ReadEntries_loop :: "sector \<Rightarrow> nat list \<Rightarrow> partition_entry list \<Rightarrow> bool \<times> partition_entry list" where
  "ReadEntries_loop buf [] ps = (False, ps)"
| "ReadEntries_loop buf (i # is) ps =
     (let e = drop (128 * i) buf
      in if gpt_IsEmpty e then (True, ps) else ReadEntries_loop buf is (ps @ [gpt_entry e]))"

fun ReadGPT_loop :: "'d block_io \<Rightarrow> nat \<Rightarrow> u32 \<Rightarrow> ('d, unit) pt_eff" where
  "ReadGPT_loop io 0 s = undef"
| "ReadGPT_loop io (Suc n) s =
     and_then (disk_read io s) (\<lambda>buf. and_then (gets pt_partitions) (\<lambda>old.
     case ReadEntries_loop buf [0..<4] old of (stop, ps) \<Rightarrow>
       then_do (modify (\<lambda>st. st\<lparr>pt_partitions := ps\<rparr>))
         (if stop then yield () else ReadGPT_loop io n (s + 1))))"

definition ReadGPT :: "'d block_io \<Rightarrow> nat \<Rightarrow> ('d, unit) pt_eff" where
  "ReadGPT io fuel =
     and_then (disk_read io 1) (\<lambda>buf.
     if \<not> CheckSignature buf then throw UnsupportedSignature
     else ReadGPT_loop io fuel (ucast (PartArrStartLBA buf)))"

text \<open>The constructor, on a disk of the given size.\<close>

definition fresh_ptable :: "u32 \<Rightarrow> 'd \<Rightarrow> 'd ptable" where
  "fresh_ptable sz d = \<lparr>pt_gpt = False, pt_mbr = False, pt_ext = False, pt_extEntry = empty_info, pt_primary = [],
     pt_extList = [], pt_partitions = [], pt_size = sz, pt_disk = d\<rparr>"

definition PartitionTable :: "'d block_io \<Rightarrow> nat \<Rightarrow> ('d, unit) pt_eff" where
  "PartitionTable io fuel =
     and_then (disk_read io 0) (\<lambda>buf.
     then_do (VerifyMBR buf)
       (and_then (gets id) (\<lambda>st.
        if pt_mbr st then ReadMBRPartition io fuel buf else if pt_gpt st then ReadGPT io fuel else yield ())))"

section \<open>Creating and deleting\<close>

definition put_signature :: "sector \<Rightarrow> sector" where
  "put_signature buf = buf[510 := 0x55, 511 := 0xAA]"

definition clear_boot :: "mbr_info \<Rightarrow> mbr_info" where
  "clear_boot p = p\<lparr>BootIndicator := 0\<rparr>"

definition used_sectors :: "'d ptable \<Rightarrow> u32" where
  "used_sectors st = (if pt_primary st = [] then DEF_START_SEC
     else LBAStartSector (last (pt_primary st)) + LBANoOfSectors (last (pt_primary st)))"

definition CreatePrimaryPartitionEntry :: "'d block_io \<Rightarrow> u32 \<Rightarrow> partition_types \<Rightarrow> ('d, unit) pt_eff" where
  "CreatePrimaryPartitionEntry io uiSizeInSectors type =
     and_then (gets id) (\<lambda>st.
     if length (pt_primary st) = MAX_NO_OF_PRIMARY_PARTITIONS then throw PrimaryPartitionFull
     else if pt_ext st then throw ExtendedExists
     else if pt_primary st = [] \<and> type = EXTENEDED then throw NoPrimaryPartitions
     else
       let type = (if pt_primary st = [] then ACTIVE else type);
           uiUsedSizeInSectors = used_sectors st;
           n = length (pt_primary st)
       in if pt_size st \<ge> uiUsedSizeInSectors \<and> pt_size st - uiUsedSizeInSectors < uiSizeInSectors then throw InsufficientSpace
          else
            and_then (disk_read io 0) (\<lambda>buf.
            let buf = put_signature buf;
                buf = (if type = ACTIVE then fold (\<lambda>i b. put_info i (clear_boot (get_info i b)) b) [0..<n] buf else buf);
                pi = MBRPartitionInfo uiUsedSizeInSectors uiSizeInSectors type
            in then_do
                 (modify (\<lambda>st. st\<lparr>pt_primary := (if type = ACTIVE then map clear_boot (pt_primary st) else pt_primary st) @ [pi]\<rparr>))
                 (disk_write io 0 (put_info n pi buf))))"

definition CreateExtPartitionEntry :: "'d block_io \<Rightarrow> u32 \<Rightarrow> ('d, unit) pt_eff" where
  "CreateExtPartitionEntry io uiSizeInSectors =
     and_then (gets id) (\<lambda>st.
     if \<not> pt_ext st then throw NoExtendedPartition
     else
       let lastExt = (if pt_extList st = [] then None else Some (last (pt_extList st)));
           uiUsedSizeInSectors = (case lastExt of None \<Rightarrow> 0
             | Some l \<Rightarrow> ext_start l + LBAStartSector (ext_current l) + LBANoOfSectors (ext_current l) - LBAStartSector (pt_extEntry st));
           uiTotalSizeInSectors = LBANoOfSectors (pt_extEntry st)
       in if uiTotalSizeInSectors \<ge> uiUsedSizeInSectors \<and> uiTotalSizeInSectors - uiUsedSizeInSectors < uiSizeInSectors
          then throw InsufficientSpace
          else
            let uiNewPartitionSector = uiUsedSizeInSectors + LBAStartSector (pt_extEntry st);
                info = MBRPartitionInfo DEF_START_SEC (uiSizeInSectors - DEF_START_SEC) NORMAL
            in then_do (modify (\<lambda>st. st\<lparr>pt_extList := pt_extList st @ [\<lparr>ext_current = info, ext_start = uiNewPartitionSector\<rparr>]\<rparr>))
                 (and_then (disk_read io uiNewPartitionSector) (\<lambda>buf.
                  then_do (disk_write io uiNewPartitionSector (put_info 1 empty_info (put_info 0 info (put_signature buf))))
                    (case lastExt of None \<Rightarrow> yield ()
                     | Some l \<Rightarrow>
                         and_then (disk_read io (ext_start l)) (\<lambda>buf.
                         disk_write io (ext_start l)
                           (put_info 1 (MBRPartitionInfo uiUsedSizeInSectors uiSizeInSectors EXTENEDED) buf))))))"

text \<open>\<open>pop_back\<close>.\<close>

definition pop_partitions :: "('d, unit) pt_eff" where
  "pop_partitions = and_then (gets pt_partitions) (\<lambda>ps.
     if ps = [] then undef else modify (\<lambda>st. st\<lparr>pt_partitions := butlast ps\<rparr>))"

definition DeletePrimaryPartition :: "'d block_io \<Rightarrow> ('d, unit) pt_eff" where
  "DeletePrimaryPartition io =
     and_then (gets id) (\<lambda>st.
     if pt_primary st = [] then throw PartitionTableEmpty
     else
       and_then (disk_read io 0) (\<lambda>buf.
       and_then
         (if pt_ext st then
            then_do
              (steps (\<lambda>ep. and_then (disk_read io (ext_start ep)) (\<lambda>eb.
                 then_do (disk_write io (ext_start ep) (put_info 1 empty_info (put_info 0 empty_info eb))) pop_partitions))
                (pt_extList st))
              (then_do (modify (\<lambda>st. st\<lparr>pt_extList := [], pt_ext := False, pt_extEntry := empty_info\<rparr>))
                 (yield (length (pt_primary st))))
          else
            then_do (modify (\<lambda>st. st\<lparr>pt_primary := butlast (pt_primary st)\<rparr>))
              (then_do pop_partitions (yield (length (pt_primary st) - 1))))
         (\<lambda>i. disk_write io 0 (put_info i empty_info buf))))"

definition DeleteExtPartition :: "'d block_io \<Rightarrow> ('d, unit) pt_eff" where
  "DeleteExtPartition io =
     and_then (gets id) (\<lambda>st.
     if pt_extList st = [] \<or> \<not> pt_ext st then throw ExtTableEmpty
     else
       let cur = ext_start (last (pt_extList st))
       in then_do
            (if butlast (pt_extList st) = [] then yield ()
             else
               let prev = ext_start (last (butlast (pt_extList st)))
               in and_then (disk_read io prev) (\<lambda>buf. disk_write io prev (put_info 1 empty_info buf)))
            (and_then (disk_read io cur) (\<lambda>buf.
             then_do (disk_write io cur (put_info 1 empty_info (put_info 0 empty_info buf)))
               (then_do (modify (\<lambda>st. st\<lparr>pt_extList := butlast (pt_extList st)\<rparr>)) pop_partitions))))"

text \<open>\<open>while(_partitions.size())\<close>: every round that returns removes an extended entry or a partition.\<close>

fun Clear_loop :: "'d block_io \<Rightarrow> nat \<Rightarrow> ('d, unit) pt_eff" where
  "Clear_loop io 0 = undef"
| "Clear_loop io (Suc n) = and_then (gets pt_partitions) (\<lambda>ps.
     if ps = [] then yield () else then_do (DeletePrimaryPartition io) (Clear_loop io n))"

definition ClearPartitionTable :: "'d block_io \<Rightarrow> ('d, unit) pt_eff" where
  "ClearPartitionTable io = and_then (gets pt_partitions) (\<lambda>ps. Clear_loop io (length ps + 2))"

text \<open>\<open>RawDiskDrive::UpdateSystemIndicator\<close>.\<close>

definition UpdateSystemIndicator :: "'d block_io \<Rightarrow> u32 \<Rightarrow> u8 \<Rightarrow> ('d, unit) pt_eff" where
  "UpdateSystemIndicator io uiLBAStartSector uiSystemIndicator =
     and_then (disk_read io 0) (\<lambda>buf.
     let hits = filter (\<lambda>i. LBAStartSector (get_info i buf) = uiLBAStartSector) [0..<4]
     in disk_write io 0 (case hits of [] \<Rightarrow> buf
          | i # _ \<Rightarrow> put_info i ((get_info i buf)\<lparr>SystemIndicator := uiSystemIndicator\<rparr>) buf))"

end
