(* ===== verification/PartitionProofs.thy ===== *)
theory PartitionProofs
  imports Partitions Drives FsProofs
begin

text \<open>
  What the partition tables hold: a table that was created entry by entry is read back as it is, and
  its partitions lie apart inside the disk. \<open>table_ok\<close> relates the object and the boot record: the
  entries of the record are those of the list, ascending from sector 1 on, and one of them is active.
\<close>

section \<open>Entries in a sector\<close>

lemma length_info_bytes [simp]: "length (info_bytes p) = 16"
  by (simp add: info_bytes_def)

lemma eight:
  "drop 8 ([a, b, c, d, e, f, g, h] @ ys) = ys" "drop 12 ([a, b, c, d, e, f, g, h] @ ys) = drop 4 ys"
  "([a, b, c, d, e, f, g, h] @ ys) ! 0 = a" "([a, b, c, d, e, f, g, h] @ ys) ! 1 = b" "([a, b, c, d, e, f, g, h] @ ys) ! 2 = c"
  "([a, b, c, d, e, f, g, h] @ ys) ! 3 = d" "([a, b, c, d, e, f, g, h] @ ys) ! 4 = e" "([a, b, c, d, e, f, g, h] @ ys) ! 5 = f"
  "([a, b, c, d, e, f, g, h] @ ys) ! 6 = g" "([a, b, c, d, e, f, g, h] @ ys) ! 7 = h"
  by simp_all

lemma drop4_bytes_of: "drop 4 (bytes_of (w # ws)) = bytes_of ws"
  by (simp only: bytes_of.simps numeral_eq_Suc pred_numeral_simps BitM.simps drop_Suc_Cons drop_0 One_nat_def drop_0)

lemma info_of_bytes_inverse [simp]: "info_of_bytes (info_bytes p) = p"
proof -
  show ?thesis
    unfolding info_of_bytes_def info_bytes_def eight drop4_bytes_of words_of_bytes_of by simp
qed

lemma splice_other:
  assumes "length b = 16" "a + 16 \<le> length buf" "c + 16 \<le> length buf" "c + 16 \<le> a \<or> a + 16 \<le> c"
  shows "take 16 (drop c (take a buf @ b @ drop (a + 16) buf)) = take 16 (drop c buf)"
proof (cases "c + 16 \<le> a")
  case True
  then have "length (take (a - c) (drop c buf)) = a - c" using assms by simp
  then show ?thesis using True assms by (simp add: drop_take take_append min_def)
next
  case False
  then have "a + 16 \<le> c" using assms by simp
  then have "drop c (take a buf @ b @ drop (a + 16) buf) = drop c buf"
    using assms by (simp add: drop_append)
  then show ?thesis by simp
qed

lemma get_put_info:
  assumes "length buf = 512" "i < 4" "j < 4"
  shows "get_info i (put_info j p buf) = (if i = j then p else get_info i buf)"
proof (cases "i = j")
  case False
  then have "446 + 16 * i + 16 \<le> 446 + 16 * j \<or> 446 + 16 * j + 16 \<le> 446 + 16 * i" by linarith
  then have "take 16 (drop (446 + 16 * i) (take (446 + 16 * j) buf @ info_bytes p @ drop (446 + 16 * j + 16) buf)) =
      take 16 (drop (446 + 16 * i) buf)"
    using assms by (intro splice_other) auto
  then show ?thesis using False by (simp add: get_info_def put_info_def)
qed (use assms in \<open>simp add: get_info_def put_info_def\<close>)

lemma length_put_info [simp]: "length buf = 512 \<Longrightarrow> j < 4 \<Longrightarrow> length (put_info j p buf) = 512"
  by (simp add: put_info_def)

lemma get_put_signature [simp]: "length buf = 512 \<Longrightarrow> i < 4 \<Longrightarrow> get_info i (put_signature buf) = get_info i buf"
  by (simp add: get_info_def put_signature_def drop_update_swap take_update_swap list_update_beyond)

lemma length_put_signature [simp]: "length (put_signature buf) = length buf"
  by (simp add: put_signature_def)

lemma clear_boots:
  assumes "length buf = 512" "n \<le> 4"
  shows "length (fold (\<lambda>i b. put_info i (clear_boot (get_info i b)) b) [0..<n] buf) = 512 \<and>
    (\<forall>i < 4. get_info i (fold (\<lambda>i b. put_info i (clear_boot (get_info i b)) b) [0..<n] buf) =
      (if i < n then clear_boot (get_info i buf) else get_info i buf))"
  using assms(2)
proof (induction n)
  case (Suc n)
  then show ?case by (auto simp: get_put_info less_Suc_eq)
qed (use assms in simp)

section \<open>The layout\<close>

text \<open>\<open>ascending b ps l\<close>: the partitions come one after the other from sector \<open>b\<close> on, below \<open>l\<close>.\<close>

fun ascending :: "nat \<Rightarrow> mbr_info list \<Rightarrow> nat \<Rightarrow> bool" where
  "ascending b [] l \<longleftrightarrow> b \<le> l"
| "ascending b (p # ps) l \<longleftrightarrow> b \<le> unat (LBAStartSector p) \<and> LBANoOfSectors p \<noteq> 0 \<and>
     ascending (unat (LBAStartSector p) + unat (LBANoOfSectors p)) ps l"

definition end_of :: "nat \<Rightarrow> mbr_info list \<Rightarrow> nat" where
  "end_of b ps = (if ps = [] then b else unat (LBAStartSector (last ps)) + unat (LBANoOfSectors (last ps)))"

lemma ascending_append:
  "ascending b (ps @ qs) l \<longleftrightarrow> ascending b ps (end_of b ps) \<and> ascending (end_of b ps) qs l"
  by (induction b ps l rule: ascending.induct) (auto simp: end_of_def)

lemma ascending_le: "ascending b ps l \<Longrightarrow> b + (\<Sum>p \<leftarrow> ps. unat (LBANoOfSectors p)) \<le> l"
  by (induction b ps l rule: ascending.induct) auto

lemma ascending_mono: "ascending b ps l \<Longrightarrow> l \<le> l' \<Longrightarrow> ascending b ps l'"
  by (induction b ps l rule: ascending.induct) auto

lemma ascending_end: "ascending b ps l \<Longrightarrow> end_of b ps \<le> l"
  by (induction b ps l rule: ascending.induct) (auto simp: end_of_def split: if_splits)

lemma ascending_to_end: "ascending b ps l \<Longrightarrow> ascending b ps (end_of b ps)"
  using ascending_append [of b ps "[]" l] by simp

lemma ascending_nonempty: "ascending b ps l \<Longrightarrow> p \<in> set ps \<Longrightarrow> LBANoOfSectors p \<noteq> 0"
  by (induction b ps l rule: ascending.induct) auto

lemma ascending_clear: "ascending b (map clear_boot ps) l = ascending b ps l"
  by (induction b ps l rule: ascending.induct) (auto simp: clear_boot_def)

lemma end_of_clear: "end_of b (map clear_boot ps) = end_of b ps"
  by (simp add: end_of_def last_map clear_boot_def)

definition sectors_of :: "mbr_info \<Rightarrow> nat set" where
  "sectors_of p = {unat (LBAStartSector p) ..< unat (LBAStartSector p) + unat (LBANoOfSectors p)}"

lemma ascending_inside: "ascending b ps l \<Longrightarrow> p \<in> set ps \<Longrightarrow> sectors_of p \<subseteq> {b ..< l}"
proof (induction b ps l rule: ascending.induct)
  case (2 b q ps l)
  then have "unat (LBAStartSector q) + unat (LBANoOfSectors q) \<le> l" using ascending_le [of _ ps l] by fastforce
  then show ?case using 2 by (cases "p = q") (fastforce simp: sectors_of_def)+
qed simp

lemma ascending_apart:
  "ascending b ps l \<Longrightarrow> i < j \<Longrightarrow> j < length ps \<Longrightarrow> sectors_of (ps ! i) \<inter> sectors_of (ps ! j) = {}"
proof (induction b ps l arbitrary: i j rule: ascending.induct)
  case (2 b p ps l)
  show ?case
  proof (cases i)
    case 0
    have "sectors_of (ps ! (j - 1)) \<subseteq> {unat (LBAStartSector p) + unat (LBANoOfSectors p) ..< l}"
      using 2 0 by (intro ascending_inside) auto
    then show ?thesis using 0 2 by (fastforce simp: sectors_of_def nth_Cons')
  next
    case (Suc k)
    then show ?thesis using 2 by (cases j) auto
  qed
qed simp

definition active :: "mbr_info \<Rightarrow> bool" where
  "active p \<longleftrightarrow> BootIndicator p = 0x80"

text \<open>The boot record agrees with the list.\<close>

definition recorded :: "sector \<Rightarrow> mbr_info list \<Rightarrow> bool" where
  "recorded buf ps \<longleftrightarrow> length buf = 512 \<and> length ps \<le> 4 \<and> (\<forall>i < length ps. get_info i buf = ps ! i) \<and>
     (\<forall>i < 4. length ps \<le> i \<longrightarrow> info_IsEmpty (get_info i buf) \<and> \<not> active (get_info i buf))"

definition table_ok :: "(u32 \<Rightarrow> sector) \<Rightarrow> 'd ptable \<Rightarrow> bool" where
  "table_ok disk st \<longleftrightarrow> \<not> pt_ext st \<and> recorded (disk 0) (pt_primary st) \<and> ascending 1 (pt_primary st) (unat (pt_size st)) \<and>
     (\<forall>p \<in> set (pt_primary st). SystemIndicator p \<notin> {0, SI_EXT, SI_GPT}) \<and>
     length (filter active (pt_primary st)) = (if pt_primary st = [] then 0 else 1)"

section \<open>Reading back\<close>

lemma sum_u32:
  assumes "(\<Sum>p \<leftarrow> ps. unat (LBANoOfSectors p)) < 4294967296"
  shows "unat (\<Sum>p \<leftarrow> ps. LBANoOfSectors p) = (\<Sum>p \<leftarrow> ps. unat (LBANoOfSectors p))"
  using assms
proof (induction ps)
  case (Cons p ps)
  then have "unat (\<Sum>p \<leftarrow> ps. LBANoOfSectors p) = (\<Sum>p \<leftarrow> ps. unat (LBANoOfSectors p))" by simp
  then show ?case using Cons.prems by (simp add: unat_add_no_wrap)
qed simp

lemma VerifyMBR_loop_recorded:
  assumes "\<forall>i < length ps. get_info (k + i) buf = ps ! i" "k + length ps \<le> 4"
    "k + length ps < 4 \<longrightarrow> info_IsEmpty (get_info (k + length ps) buf)" "k + length ps < 4 \<longrightarrow> \<not> active (get_info (k + length ps) buf)"
    "ascending b ps l" "l < 4294967296" "unat pe = b - 1" "1 \<le> b" "\<forall>p \<in> set ps. SystemIndicator p \<notin> {0, SI_EXT, SI_GPT}"
  shows "VerifyMBR_loop buf k a pe part cnt =
    (False, part \<or> ps \<noteq> [], a + of_nat (length (filter active ps)), cnt + (\<Sum>p \<leftarrow> ps. LBANoOfSectors p))"
  using assms
proof (induction ps arbitrary: k b a pe part cnt)
  case Nil
  then show ?case by (subst VerifyMBR_loop.simps) (auto simp: Let_def active_def)
next
  case (Cons p ps)
  have k: "k < 4" "get_info k buf = p" using Cons.prems(1,2) by (auto dest: spec [of _ 0])
  let ?e = "LBAStartSector p + LBANoOfSectors p - 1"
  have a: "b \<le> unat (LBAStartSector p)" "LBANoOfSectors p \<noteq> 0"
    "ascending (unat (LBAStartSector p) + unat (LBANoOfSectors p)) ps l" using Cons.prems(5) by auto
  have n: "0 < unat (LBANoOfSectors p)" using a(2) by (simp add: unat_gt_0)
  have le: "unat (LBAStartSector p) + unat (LBANoOfSectors p) \<le> l" using ascending_le [OF a(3)] by simp
  have s: "unat (LBAStartSector p + LBANoOfSectors p) = unat (LBAStartSector p) + unat (LBANoOfSectors p)"
    using le Cons.prems(6) by (intro unat_add_no_wrap) simp
  have "unat ?e = unat (LBAStartSector p) + unat (LBANoOfSectors p) - 1"
    using s n by (subst unat_sub_no_wrap) (simp_all add: word_le_nat_alt)
  note pe = this
  have next_entries: "\<forall>i < length ps. get_info (Suc k + i) buf = ps ! i"
    using Cons.prems(1) by (metis Suc_less_eq add_Suc_right add_Suc_shift length_Cons nth_Cons_Suc)
  have ih: "VerifyMBR_loop buf (Suc k) a' ?e True cnt' =
      (False, True, a' + of_nat (length (filter active ps)), cnt' + (\<Sum>p \<leftarrow> ps. LBANoOfSectors p))" for a' cnt'
    using Cons.IH [OF next_entries _ _ _ a(3) Cons.prems(6), where pe = ?e and a = a' and part = True and cnt = cnt']
      Cons.prems(2,3,4,9) n pe by simp
  have gt: "LBAStartSector p > pe" using a(1) Cons.prems(7,8) by (simp add: word_less_nat_alt)
  have sys: "SystemIndicator p \<noteq> 0" "SystemIndicator p \<noteq> SI_GPT" using Cons.prems(9) by auto
  show ?case
    by (subst VerifyMBR_loop.simps) (simp add: k gt sys a(2) ih info_IsEmpty_def Let_def active_def add.assoc)
qed

lemma ReadPrimary_loop_recorded:
  assumes "\<forall>i < length ps. get_info (k + i) buf = ps ! i" "k + length ps \<le> 4"
    "k + length ps < 4 \<longrightarrow> info_IsEmpty (get_info (k + length ps) buf)"
    "\<forall>p \<in> set ps. SystemIndicator p \<notin> {0, SI_EXT, SI_GPT} \<and> LBANoOfSectors p \<noteq> 0"
  shows "ReadPrimary_loop buf [k..<4] (st :: 'd ptable) =
    st\<lparr>pt_primary := pt_primary st @ ps, pt_partitions := pt_partitions st @ map (entry_of 0) ps\<rparr>"
  using assms
proof (induction ps arbitrary: k st)
  case Nil
  then show ?case by (cases "k < 4") (auto simp: upt_conv_Cons Let_def)
next
  case (Cons p ps)
  have k: "k < 4" "get_info k buf = p" using Cons.prems(1,2) by (auto dest: spec [of _ 0])
  have p: "\<not> info_IsEmpty p" "SystemIndicator p \<noteq> SI_EXT" using Cons.prems(4) by (auto simp: info_IsEmpty_def)
  have next_entries: "\<forall>i < length ps. get_info (Suc k + i) buf = ps ! i"
    using Cons.prems(1) by (metis Suc_less_eq add_Suc_right add_Suc_shift length_Cons nth_Cons_Suc)
  have ih: "ReadPrimary_loop buf [Suc k..<4] st' =
      st'\<lparr>pt_primary := pt_primary st' @ ps, pt_partitions := pt_partitions st' @ map (entry_of 0) ps\<rparr>" for st' :: "'d ptable"
    using Cons.IH [OF next_entries, of st'] Cons.prems(2-4) by simp
  show ?case using k p ih by (simp add: upt_conv_Cons Let_def)
qed

section \<open>On a disk\<close>

context block_device
begin

lemma wp_disk_read:
  assumes "ok (pt_disk st)" "unat s < capacity"
    "\<And>d. ok d \<Longrightarrow> contents d = contents (pt_disk st) \<Longrightarrow> Q (contents (pt_disk st) s) (st\<lparr>pt_disk := d\<rparr>)"
    "\<And>e d. ok d \<Longrightarrow> contents d = contents (pt_disk st) \<Longrightarrow> X (DiskError e) (st\<lparr>pt_disk := d\<rparr>)"
  shows "wp False (disk_read io s) Q X st"
  by (rule read_one [OF assms(1,2), where b = zeros]) (use assms(3,4) in \<open>auto simp: wp_def disk_read_def\<close>)

lemma wp_disk_write:
  assumes "ok (pt_disk st)" "unat s < capacity"
    "\<And>d. ok d \<Longrightarrow> contents d = (contents (pt_disk st))(s := b) \<Longrightarrow> Q () (st\<lparr>pt_disk := d\<rparr>)"
    "\<And>e d. ok d \<Longrightarrow> contents d = contents (pt_disk st) \<or> contents d = (contents (pt_disk st))(s := b) \<Longrightarrow>
       X (DiskError e) (st\<lparr>pt_disk := d\<rparr>)"
  shows "wp False (disk_write io s b) Q X st"
  by (rule write_one [OF assms(1,2), where b = b]) (use assms(3,4) in \<open>auto simp: wp_def disk_write_def\<close>)

text \<open>A table that is recorded is read back.\<close>

lemma PartitionTable_reads:
  assumes d: "ok (pt_disk st)" "0 < capacity" and st: "st = fresh_ptable sz d0"
    and ps: "recorded (contents d0 0) ps" "ascending 1 ps (unat sz)" "length (filter active ps) = 1"
      "\<forall>p \<in> set ps. SystemIndicator p \<notin> {0, SI_EXT, SI_GPT}"
  shows "wp False (PartitionTable io fuel)
    (\<lambda>_ t. pt_mbr t \<and> \<not> pt_ext t \<and> pt_primary t = ps \<and> pt_partitions t = map (entry_of 0) ps) (\<lambda>e _. \<exists>x. e = DiskError x) st"
proof -
  let ?buf = "contents d0 0"
  have r: "length ?buf = 512" "length ps \<le> 4" "\<forall>i < length ps. get_info (0 + i) ?buf = ps ! i"
    "0 + length ps < 4 \<longrightarrow> info_IsEmpty (get_info (0 + length ps) ?buf)" "0 + length ps < 4 \<longrightarrow> \<not> active (get_info (0 + length ps) ?buf)"
    using ps(1) by (auto simp: recorded_def)
  have v: "VerifyMBR_loop ?buf 0 0 0 False 0 = (False, ps \<noteq> [], of_nat (length (filter active ps)), \<Sum>p \<leftarrow> ps. LBANoOfSectors p)"
    using VerifyMBR_loop_recorded [OF r(3) _ r(4,5) ps(2), of 0 0 False 0] ps(4) r(2) by simp
  have ne: "ps \<noteq> []" using ps(3) by auto
  have sum: "(\<Sum>p \<leftarrow> ps. unat (LBANoOfSectors p)) \<le> unat sz" using ascending_le [OF ps(2)] by simp
  then have "(\<Sum>p \<leftarrow> ps. LBANoOfSectors p) \<le> sz"
    using sum_u32 [of ps] u32_unat_bound [of sz] by (simp add: word_le_nat_alt)
  then have nle: "\<not> sz < (\<Sum>p \<leftarrow> ps. LBANoOfSectors p)" by (simp add: not_less)
  have "LBANoOfSectors p \<noteq> 0" if "p \<in> set ps" for p
    using ascending_nonempty [OF ps(2) that] .
  then have pr: "ReadPrimary_loop ?buf [0..<4] t =
      t\<lparr>pt_primary := pt_primary t @ ps, pt_partitions := pt_partitions t @ map (entry_of 0) ps\<rparr>" for t :: "'a ptable"
    using ReadPrimary_loop_recorded [OF r(3) _ r(4)] ps(4) r(2) by simp
  show ?thesis
    unfolding PartitionTable_def wp_and_then st
  proof (rule wp_disk_read, goal_cases)
    case (3 d)
    show ?case
      unfolding wp_then_do VerifyMBR_def wp_modify wp_gets wp_and_then
      by (simp add: v fresh_ptable_def ps(3) ne nle ReadMBRPartition_def wp_rules pr)
  qed (use d st in \<open>simp_all add: fresh_ptable_def\<close>)
qed

text \<open>Creating an entry.\<close>

lemma CreatePrimary_records:
  assumes d: "ok (pt_disk st)" "0 < capacity" and t: "table_ok (contents (pt_disk st)) st"
    and a: "n \<noteq> 0" "type \<noteq> EXTENEDED" "63 \<le> pt_size st"
  shows "wp False (CreatePrimaryPartitionEntry io n type) (\<lambda>_ u. ok (pt_disk u) \<and> table_ok (contents (pt_disk u)) u \<and>
      pt_size u = pt_size st \<and> length (pt_primary u) = Suc (length (pt_primary st)) \<and> LBANoOfSectors (last (pt_primary u)) = n)
    (\<lambda>_ _. True) st"
proof (cases "length (pt_primary st) = 4 \<or> pt_ext st")
  case False
  let ?ps = "pt_primary st" and ?u = "used_sectors st"
  define ty where "ty = (if ?ps = [] then ACTIVE else type)"
  define pi where "pi = MBRPartitionInfo ?u n ty"
  define qs where "qs = (if ty = ACTIVE then map clear_boot ?ps else ?ps)"
  have rec: "recorded (contents (pt_disk st) 0) ?ps" and asc: "ascending 1 ?ps (unat (pt_size st))"
    and sys: "\<forall>p \<in> set ?ps. SystemIndicator p \<notin> {0, SI_EXT, SI_GPT}"
    and act: "length (filter active ?ps) = (if ?ps = [] then 0 else 1)"
    using t by (auto simp: table_ok_def)
  have len: "length ?ps < 4" using rec False by (auto simp: recorded_def)
  have used: "end_of 1 ?ps \<le> unat ?u" "unat ?u \<le> unat (pt_size st)"
  proof -
    have "end_of 1 ?ps \<le> unat (pt_size st)" by (rule ascending_end [OF asc])
    then show "end_of 1 ?ps \<le> unat ?u" "unat ?u \<le> unat (pt_size st)"
      using a(3) u32_unat_bound [of "pt_size st"]
      by (auto simp: used_sectors_def end_of_def unat_add_no_wrap word_le_nat_alt simp del: u32_unat_bound)
  qed
  show ?thesis
  proof (cases "pt_size st - ?u < n")
    case True
    then show ?thesis using False a(2) used(2)
      by (simp add: CreatePrimaryPartitionEntry_def wp_rules Let_def word_le_nat_alt)
  next
    case fits: False
    have room: "unat ?u + unat n \<le> unat (pt_size st)"
      using fits used(2) by (simp add: not_less word_le_nat_alt unat_sub)
    have ty: "ty \<noteq> EXTENEDED" "?ps = [] \<Longrightarrow> ty = ACTIVE" using a(2) by (auto simp: ty_def)
    have e: "end_of 1 qs = end_of 1 ?ps" "length qs = length ?ps" by (auto simp: qs_def end_of_clear)
    have "ascending 1 qs (end_of 1 qs)" using ascending_to_end [OF asc] by (simp add: qs_def ascending_clear end_of_clear)
    then have asc': "ascending 1 (qs @ [pi]) (unat (pt_size st))"
      using used(1) room a(1) e(1) by (simp add: ascending_append pi_def MBRPartitionInfo_def)
    have sys': "\<forall>p \<in> set (qs @ [pi]). SystemIndicator p \<notin> {0, SI_EXT, SI_GPT}"
      using sys ty(1) by (auto simp: qs_def pi_def MBRPartitionInfo_def clear_boot_def)
    have none: "filter active (map clear_boot xs) = []" for xs by (simp add: active_def clear_boot_def filter_empty_conv)
    have act': "length (filter active (qs @ [pi])) = 1"
      using act ty none by (cases "ty = ACTIVE") (auto simp: qs_def pi_def MBRPartitionInfo_def active_def)
    have buf: "recorded (put_info (length ?ps) pi (if ty = ACTIVE
        then fold (\<lambda>i b. put_info i (clear_boot (get_info i b)) b) [0..<length ?ps] (put_signature b) else put_signature b)) (qs @ [pi])"
      if b: "recorded b ?ps" for b
    proof -
      define B where "B = (if ty = ACTIVE then fold (\<lambda>i b. put_info i (clear_boot (get_info i b)) b) [0..<length ?ps] (put_signature b) else put_signature b)"
      have l: "length b = 512" and g: "\<And>i. i < length ?ps \<Longrightarrow> get_info i b = ?ps ! i"
        and z: "\<And>i. i < 4 \<Longrightarrow> length ?ps \<le> i \<Longrightarrow> info_IsEmpty (get_info i b) \<and> \<not> active (get_info i b)"
        using b by (auto simp: recorded_def)
      have L: "length B = 512" and G: "\<And>i. i < 4 \<Longrightarrow> get_info i B = (if ty = ACTIVE \<and> i < length ?ps then clear_boot (get_info i b) else get_info i b)"
        using clear_boots [of "put_signature b" "length ?ps"] l len by (auto simp: B_def)
      have "recorded (put_info (length ?ps) pi B) (qs @ [pi])"
        unfolding recorded_def
      proof (intro conjI allI impI)
        fix i assume i: "i < length (qs @ [pi])"
        then have "i < 4" using len e(2) by simp
        then show "get_info i (put_info (length ?ps) pi B) = (qs @ [pi]) ! i"
          using i len e(2) g by (auto simp: get_put_info [OF L] G qs_def nth_append)
      qed (use len e(2) z in \<open>auto simp: get_put_info [OF L] G L\<close>)
      then show ?thesis by (simp only: B_def)
    qed
    have c: "\<not> length ?ps = 4" "\<not> pt_ext st" "\<not> (?ps = [] \<and> type = EXTENEDED)" "\<not> (pt_size st \<ge> ?u \<and> pt_size st - ?u < n)"
      using False a(2) fits by auto
    have new: "table_ok (contents d') (st\<lparr>pt_disk := d, pt_primary := qs @ [pi], pt_disk := d'\<rparr>)"
      if "contents d' = (contents (pt_disk st))(0 := put_info (length ?ps) pi (if ty = ACTIVE
        then fold (\<lambda>i b. put_info i (clear_boot (get_info i b)) b) [0..<length ?ps] (put_signature (contents (pt_disk st) 0))
        else put_signature (contents (pt_disk st) 0)))" for d d'
      using that buf [OF rec] c(2) asc' sys' act' by (simp add: table_ok_def)
    show ?thesis
      unfolding CreatePrimaryPartitionEntry_def wp_and_then wp_gets id_apply Let_def if_not_P [OF c(1)] if_not_P [OF c(2)]
        if_not_P [OF c(3)] if_not_P [OF c(4)] ty_def [symmetric] pi_def [symmetric] wp_then_do wp_modify
    proof (rule wp_disk_read [OF d(1)], goal_cases)
      case (2 d)
      show ?case
      proof (rule wp_disk_write, goal_cases)
        case (3 d')
        then show ?case using new [of d' d] 2 by (cases "ty = ACTIVE") (simp_all add: qs_def pi_def MBRPartitionInfo_def)
      qed (use 2 d(2) in simp_all)
    qed (use d(2) in simp_all)
  qed
qed (auto simp: CreatePrimaryPartitionEntry_def wp_rules)

end

text \<open>The disk itself, as \<open>RawDiskDrive\<close> reads and writes it: of a known type (\<open>True\<close>) or not.\<close>

definition raw_io :: "bool \<Rightarrow> medium block_io" where
  "raw_io known = \<lparr>
     io_read = (\<lambda>s n buf m. if \<not> known then Some (Inl InvalidDeviceType, buf, m)
       else let (f, m') = next_fault m in if f then Some (Inl DeviceFault, buf, m')
            else Some (Inr (), map (\<lambda>i. md_sectors m' (s + of_nat i)) [0..<unat n], m')),
     io_write = (\<lambda>s n buf m. if \<not> known then Some (Inl InvalidDeviceType, m)
       else let (f, m') = next_fault m in if f then Some (Inl DeviceFault, m')
            else Some (Inr (), m'\<lparr>md_sectors := overwrite (md_sectors m') s buf\<rparr>))\<rparr>"

interpretation raw: block_device "raw_io known" "\<lambda>_. True" md_sectors cap
  by unfold_locales
    (auto simp: raw_io_def next_fault_def Let_def overwrite_def in_range_def word_le_nat_alt split: if_splits list.splits prod.splits)

text \<open>C34: When a primary partition is created on a disk whose boot record agrees with the table, the new
  record agrees with the new table: the partitions lie apart, inside the disk, one of them is active,
  the last one has the size asked for, and a \<open>PartitionTable\<close> constructed on the disk reads exactly
  these partitions, unless the disk fails.\<close>

theorem created_partitions_read_back:
  assumes "table_ok (md_sectors (pt_disk st)) st" "n \<noteq> 0" "type \<noteq> EXTENEDED" "63 \<le> pt_size st"
    "CreatePrimaryPartitionEntry (raw_io True) n type st = Some (Inr (), u)"
  shows "table_ok (md_sectors (pt_disk u)) u \<and> length (pt_primary u) = Suc (length (pt_primary st)) \<and>
     LBANoOfSectors (last (pt_primary u)) = n \<and>
     (\<forall>p \<in> set (pt_primary u). sectors_of p \<subseteq> {1 ..< unat (pt_size st)}) \<and>
     (\<forall>j < length (pt_primary u). \<forall>i < j. sectors_of (pt_primary u ! i) \<inter> sectors_of (pt_primary u ! j) = {}) \<and>
     (\<exists>r v. PartitionTable (raw_io True) fuel (fresh_ptable (pt_size st) (pt_disk u)) = Some (r, v) \<and>
        ((\<exists>e. r = Inl (DiskError e)) \<or>
         r = Inr () \<and> pt_mbr v \<and> pt_primary v = pt_primary u \<and> pt_partitions v = map (entry_of 0) (pt_primary u)))"
proof -
  have "table_ok (md_sectors (pt_disk u)) u \<and> pt_size u = pt_size st \<and>
      length (pt_primary u) = Suc (length (pt_primary st)) \<and> LBANoOfSectors (last (pt_primary u)) = n"
    using raw.CreatePrimary_records [where known = True and cap = 1 and st = st and n = n and type = type] assms by (auto simp: wp_def)
  then have u: "table_ok (md_sectors (pt_disk u)) u" "pt_size u = pt_size st" "pt_primary u \<noteq> []"
      "length (pt_primary u) = Suc (length (pt_primary st))" "LBANoOfSectors (last (pt_primary u)) = n"
    by auto
  then have a: "recorded (md_sectors (pt_disk u) 0) (pt_primary u)" "ascending 1 (pt_primary u) (unat (pt_size st))"
      "length (filter active (pt_primary u)) = 1" "\<forall>p \<in> set (pt_primary u). SystemIndicator p \<notin> {0, SI_EXT, SI_GPT}"
    by (auto simp: table_ok_def)
  have "wp False (PartitionTable (raw_io True) fuel) (\<lambda>_ t. pt_mbr t \<and> \<not> pt_ext t \<and> pt_primary t = pt_primary u \<and>
      pt_partitions t = map (entry_of 0) (pt_primary u)) (\<lambda>e _. \<exists>x. e = DiskError x) (fresh_ptable (pt_size st) (pt_disk u))"
    by (rule raw.PartitionTable_reads [where known = True and cap = 1, OF _ _ refl a]) simp_all
  then have "\<exists>r v. PartitionTable (raw_io True) fuel (fresh_ptable (pt_size st) (pt_disk u)) = Some (r, v) \<and>
        ((\<exists>e. r = Inl (DiskError e)) \<or>
         r = Inr () \<and> pt_mbr v \<and> pt_primary v = pt_primary u \<and> pt_partitions v = map (entry_of 0) (pt_primary u))"
    unfolding wp_outcome by auto
  then show ?thesis
    using u ascending_inside [OF a(2)] ascending_apart [OF a(2)] by blast
qed

text \<open>A disk of zeros, on which one partition is made.\<close>

definition blank_disk :: medium where
  "blank_disk = \<lparr>md_sectors = (\<lambda>_. zeros), md_faults = []\<rparr>"

lemma get_info_zeros: "i < 4 \<Longrightarrow> get_info i zeros = empty_info"
proof -
  assume "i < 4"
  then have "take 16 (drop (0x1BE + 16 * i) zeros) = replicate 16 0"
    by (simp add: zeros_def min_def)
  moreover have "words_of (replicate 8 0) = [0, 0]" "words_of (replicate 4 0) = [0]" by (simp_all add: numeral_eq_Suc)
  ultimately show ?thesis by (simp add: get_info_def info_of_bytes_def empty_info_def)
qed

lemma blank_disk_ok: "table_ok (md_sectors blank_disk) (fresh_ptable 1000 blank_disk)"
  by (simp add: table_ok_def fresh_ptable_def recorded_def blank_disk_def get_info_zeros info_IsEmpty_def active_def empty_info_def)
    (simp add: zeros_def)

lemma created_partitions_read_back_witness:
  "\<exists>u. CreatePrimaryPartitionEntry (raw_io True) 100 NORMAL (fresh_ptable 1000 blank_disk) = Some (Inr (), u) \<and>
     table_ok (md_sectors (pt_disk u)) u \<and> length (pt_primary u) = 1 \<and>
     (\<exists>r v. PartitionTable (raw_io True) 0 (fresh_ptable 1000 (pt_disk u)) = Some (r, v) \<and>
        ((\<exists>e. r = Inl (DiskError e)) \<or>
         r = Inr () \<and> pt_mbr v \<and> pt_primary v = pt_primary u \<and> pt_partitions v = map (entry_of 0) (pt_primary u)))"
proof -
  have "\<exists>u. CreatePrimaryPartitionEntry (raw_io True) 100 NORMAL (fresh_ptable 1000 blank_disk) = Some (Inr (), u)"
    by (simp add: CreatePrimaryPartitionEntry_def and_then_def then_do_def gets_def modify_def disk_read_def disk_write_def raw_io_def
        next_fault_def fresh_ptable_def blank_disk_def used_sectors_def Let_def)
  then obtain u where u: "CreatePrimaryPartitionEntry (raw_io True) 100 NORMAL (fresh_ptable 1000 blank_disk) = Some (Inr (), u)" ..
  have s: "pt_disk (fresh_ptable 1000 blank_disk) = blank_disk" "pt_size (fresh_ptable 1000 blank_disk) = 1000"
    "pt_primary (fresh_ptable 1000 blank_disk) = []"
    by (simp_all add: fresh_ptable_def)
  show ?thesis
    using created_partitions_read_back [OF _ _ _ _ u, of 0] blank_disk_ok u by (simp add: s)
qed

section \<open>Chains of extended records\<close>

lemma ReadExt_loop_cyclic:
  assumes "s \<in> C" "md_faults (pt_disk st) = []"
    "\<forall>s \<in> C. \<not> info_IsEmpty (get_info 0 (md_sectors (pt_disk st) s)) \<and> \<not> info_IsEmpty (get_info 1 (md_sectors (pt_disk st) s)) \<and>
       start + LBAStartSector (get_info 1 (md_sectors (pt_disk st) s)) \<in> C"
  shows "ReadExt_loop (raw_io True) fuel s start st = None"
  using assms
proof (induction fuel arbitrary: s st)
  case (Suc n)
  let ?buf = "md_sectors (pt_disk st) s"
  have r: "disk_read (raw_io True) s st = Some (Inr ?buf, st)"
    using Suc.prems(2) by (simp add: disk_read_def raw_io_def next_fault_def)
  let ?st = "st\<lparr>pt_extList := pt_extList st @ [\<lparr>ext_current = get_info 0 ?buf, ext_start = s\<rparr>],
           pt_partitions := pt_partitions st @ [entry_of s (get_info 0 ?buf)]\<rparr>"
  have "ReadExt_loop (raw_io True) n (start + LBAStartSector (get_info 1 ?buf)) start ?st = None"
    using Suc.prems by (intro Suc.IH) auto
  then show ?case using r Suc.prems by (simp add: and_then_def then_do_def modify_def)
qed (simp add: undef_def)

text \<open>C35: A chain of extended boot records that comes back to a record of its own - each record names
  a partition and a next record - is followed forever: \<open>PartitionTable\<close> never returns on such a disk,
  however many records it reads.\<close>

theorem cyclic_extended_chain_never_ends:
  assumes "md_faults d = []" "VerifyMBR_loop (md_sectors d 0) 0 0 0 False 0 = (False, True, 1, count)" "count \<le> sz"
    "pt_ext (ReadPrimary_loop (md_sectors d 0) [0..<4] (fresh_ptable sz d))"
    "start = LBAStartSector (pt_extEntry (ReadPrimary_loop (md_sectors d 0) [0..<4] (fresh_ptable sz d)))" "start \<in> C"
    "\<forall>s \<in> C. \<not> info_IsEmpty (get_info 0 (md_sectors d s)) \<and> \<not> info_IsEmpty (get_info 1 (md_sectors d s)) \<and>
       start + LBAStartSector (get_info 1 (md_sectors d s)) \<in> C"
  shows "PartitionTable (raw_io True) fuel (fresh_ptable sz d) = None"
proof -
  have disk: "pt_disk (ReadPrimary_loop buf ks st) = pt_disk st" for buf ks and st :: "medium ptable"
    by (induction buf ks st rule: ReadPrimary_loop.induct) (simp_all add: Let_def)
  have mbr: "ReadPrimary_loop buf ks (st\<lparr>pt_mbr := True\<rparr>) = (ReadPrimary_loop buf ks st)\<lparr>pt_mbr := True\<rparr>"
    for buf ks and st :: "medium ptable"
  proof (induction ks arbitrary: st)
    case (Cons k ks)
    have e: "st\<lparr>pt_mbr := True, pt_ext := a, pt_extEntry := b\<rparr> = st\<lparr>pt_ext := a, pt_extEntry := b, pt_mbr := True\<rparr>"
      "st\<lparr>pt_mbr := True, pt_primary := ps, pt_partitions := qs\<rparr> = st\<lparr>pt_primary := ps, pt_partitions := qs, pt_mbr := True\<rparr>" for a b ps qs
      by simp_all
    show ?case by (auto simp: Let_def e Cons.IH)
  qed simp
  have r: "disk_read (raw_io True) 0 (fresh_ptable sz d) = Some (Inr (md_sectors d 0), fresh_ptable sz d)"
    using assms(1) by (simp add: disk_read_def raw_io_def next_fault_def fresh_ptable_def)
  let ?st = "ReadPrimary_loop (md_sectors d 0) [0..<4] (fresh_ptable sz d)"
  have "ReadExt_loop (raw_io True) fuel start start (?st\<lparr>pt_mbr := True\<rparr>) = None"
    using assms(1,6,7) by (intro ReadExt_loop_cyclic [where C = C]) (simp_all add: disk fresh_ptable_def)
  moreover have "VerifyMBR (md_sectors d 0) (fresh_ptable sz d) = Some (Inr (), (fresh_ptable sz d)\<lparr>pt_mbr := True\<rparr>)"
    using assms(2,3) by (simp add: VerifyMBR_def modify_def fresh_ptable_def not_less)
  ultimately show ?thesis
    using assms(4,5) r
    by (simp add: PartitionTable_def and_then_def then_do_def modify_def gets_def ReadMBRPartition_def mbr)
qed

text \<open>A disk whose only extended record names itself as the next one.\<close>

definition cyclic_disk :: medium where
  "cyclic_disk = \<lparr>md_sectors = (\<lambda>_. zeros)
     (0 := put_info 1 (MBRPartitionInfo 100 50 EXTENEDED) (put_info 0 (MBRPartitionInfo 63 10 ACTIVE) zeros),
      100 := put_info 1 (MBRPartitionInfo 0 50 EXTENEDED) (put_info 0 (MBRPartitionInfo 63 10 NORMAL) zeros)), md_faults = []\<rparr>"

lemma cyclic_extended_chain_never_ends_witness:
  "\<forall>fuel. PartitionTable (raw_io True) fuel (fresh_ptable 1000 cyclic_disk) = None"
proof
  fix fuel
  have z: "length zeros = 512" by (simp add: zeros_def)
  have e: "get_info 0 (md_sectors cyclic_disk 0) = MBRPartitionInfo 63 10 ACTIVE" "get_info 1 (md_sectors cyclic_disk 0) = MBRPartitionInfo 100 50 EXTENEDED"
    "get_info 2 (md_sectors cyclic_disk 0) = empty_info" "get_info 3 (md_sectors cyclic_disk 0) = empty_info"
    "get_info 0 (md_sectors cyclic_disk 100) = MBRPartitionInfo 63 10 NORMAL" "get_info 1 (md_sectors cyclic_disk 100) = MBRPartitionInfo 0 50 EXTENEDED"
    by (simp_all add: cyclic_disk_def get_put_info z get_info_zeros)
  have v: "VerifyMBR_loop (md_sectors cyclic_disk 0) 0 0 0 False 0 = (False, True, 1, 60)"
    by (subst VerifyMBR_loop.simps, simp add: e MBRPartitionInfo_def info_IsEmpty_def Let_def,
        subst VerifyMBR_loop.simps, simp add: e [unfolded One_nat_def] MBRPartitionInfo_def info_IsEmpty_def Let_def,
        subst VerifyMBR_loop.simps, simp add: e [unfolded numeral_2_eq_2] empty_info_def info_IsEmpty_def Let_def)
  have r: "ReadPrimary_loop (md_sectors cyclic_disk 0) [0..<4] (fresh_ptable 1000 cyclic_disk) =
      (fresh_ptable 1000 cyclic_disk)\<lparr>pt_primary := [MBRPartitionInfo 63 10 ACTIVE], pt_partitions := [entry_of 0 (MBRPartitionInfo 63 10 ACTIVE)],
         pt_ext := True, pt_extEntry := MBRPartitionInfo 100 50 EXTENEDED\<rparr>"
    by (simp add: upt_conv_Cons e [unfolded One_nat_def numeral_2_eq_2] e Let_def MBRPartitionInfo_def info_IsEmpty_def empty_info_def fresh_ptable_def)
  show "PartitionTable (raw_io True) fuel (fresh_ptable 1000 cyclic_disk) = None"
  proof (rule cyclic_extended_chain_never_ends [where C = "{100}" and start = 100, OF _ v])
    show "md_faults cyclic_disk = []" by (simp add: cyclic_disk_def)
    show "\<forall>s \<in> {100}. \<not> info_IsEmpty (get_info 0 (md_sectors cyclic_disk s)) \<and> \<not> info_IsEmpty (get_info 1 (md_sectors cyclic_disk s)) \<and>
       100 + LBAStartSector (get_info 1 (md_sectors cyclic_disk s)) \<in> {100}"
      by (simp add: e [unfolded One_nat_def] e MBRPartitionInfo_def info_IsEmpty_def)
  qed (simp_all add: r MBRPartitionInfo_def)
qed

end
