(* ===== verification/AddressSpace.thy ===== *)
theory AddressSpace
  imports Effects Paging
begin

text \<open>
  The address space of a user process and of its threads: the page directory, the page tables, the
  pages of the image, the stack and the libraries, from \<open>process/UserProcess.cpp\<close>,
  \<open>SchedulableProcess::Common\<close> of \<open>process/SchedulableProcess.cpp\<close> and \<open>process/UserThread.cpp\<close>, with
  the two pages mapped into the space of the kernel by \<open>process/DynamicLinkLoader.cpp\<close> and
  \<open>process/ProcessEnv.cpp\<close>.

  The state is the memory manager together with the members of the \<open>UserProcess\<close>; entries of tables
  are read and written through pointers into physical memory as in \<open>Paging\<close>, \<open>SEG\<close> is
  \<open>GLOBAL_DATA_SEGMENT_BASE\<close>. \<open>us_pdbr\<close> is \<open>_taskState.CR3_PDBR\<close>.
\<close>

abbreviation (input) PROCESS_SPACE_FOR_OS :: nat where "PROCESS_SPACE_FOR_OS \<equiv> 32"
abbreviation (input) PROCESS_CG_STACK_PAGES :: nat where "PROCESS_CG_STACK_PAGES \<equiv> 8"
abbreviation (input) NO_OF_PAGES_FOR_STARTUP_ARGS :: nat where "NO_OF_PAGES_FOR_STARTUP_ARGS \<equiv> 1"
abbreviation (input) PROCESS_BASE :: u32 where "PROCESS_BASE \<equiv> 0x8000000"
abbreviation (input) PROCESS_STACK_TOP_ADDRESS :: u32 where "PROCESS_STACK_TOP_ADDRESS \<equiv> 0xFFC00000"
abbreviation (input) PROCESS_SEC_HEADER_ADDR :: u32 where "PROCESS_SEC_HEADER_ADDR \<equiv> 0x153F000"
abbreviation (input) PROCESS_ENV_PAGE :: u32 where "PROCESS_ENV_PAGE \<equiv> 0x1540000"

record dll_info =
  dll_id :: nat
  dll_rawLoadAddress :: u32
  dll_noOfPages :: u32

record uspace = paging +
  us_processBase :: u32
  us_noOfPagesForPTE :: u32
  us_noOfPagesForProcess :: u32
  us_noOfPagesForDLLPTE :: u32
  us_totalNoOfPagesForDLL :: u32
  us_startPDEForDLL :: u32
  us_stackPTEAddress :: u32
  us_pdbr :: u32
  us_loadedDLLs :: "string list"
  us_dllInfoMap :: "string \<rightharpoonup> dll_info"

type_synonym 'a us_eff = "(uspace, page_error, 'a) eff"

definition dealloc_page :: "u32 \<Rightarrow> unit us_eff" where
  "dealloc_page p s = (case DeAllocatePhysicalPage p s of None \<Rightarrow> None | Some t \<Rightarrow> Some (Inr (), t))"

definition read_entry :: "u32 \<Rightarrow> u32 \<Rightarrow> u32 \<Rightarrow> u32 us_eff" where
  "read_entry SEG t i = gets (\<lambda>s. entry SEG (phys s) t i)"

definition write_entry :: "u32 \<Rightarrow> u32 \<Rightarrow> u32 \<Rightarrow> u32 \<Rightarrow> unit us_eff" where
  "write_entry SEG t i v = modify (\<lambda>s. s\<lparr>phys := set_entry SEG (phys s) t i v\<rparr>)"

section \<open>What processes and threads share\<close>

definition GetProcessSizeInPages :: "u32 \<Rightarrow> u32" where
  "GetProcessSizeInPages uiSizeInBytes = (uiSizeInBytes - 1) div PAGE_SIZE + 1"

definition GetPTESizeInPages :: "u32 \<Rightarrow> u32" where
  "GetPTESizeInPages uiSizeInPages = (uiSizeInPages - 1) div 1024 + 1"

definition AllocatePDE :: "u32 \<Rightarrow> u32 us_eff" where
  "AllocatePDE SEG = and_then AllocatePhysicalPage (\<lambda>uiFreePageNo.
     then_do (steps (\<lambda>i. write_entry SEG (uiFreePageNo * PAGE_SIZE) (of_nat i) 2) [0..<PAGE_TABLE_ENTRIES])
       (yield (uiFreePageNo * PAGE_SIZE)))"

definition UpdatePDEWithStackPTE :: "u32 \<Rightarrow> u32 \<Rightarrow> u32 \<Rightarrow> unit us_eff" where
  "UpdatePDEWithStackPTE SEG pdeAddress stackPTEAddress =
     write_entry SEG pdeAddress PROCESS_STACK_PDE_ID (stackPTEAddress AND 0xFFFFF000 OR 7)"

definition AllocatePTEForStack :: "u32 \<Rightarrow> u32 us_eff" where
  "AllocatePTEForStack SEG = and_then AllocatePhysicalPage (\<lambda>p.
     then_do (steps (\<lambda>j. write_entry SEG (p * PAGE_SIZE) (of_nat j) 2) [0..<PAGE_TABLE_ENTRIES])
       (yield (p * PAGE_SIZE)))"

definition AllocateStackSpace :: "u32 \<Rightarrow> u32 \<Rightarrow> unit us_eff" where
  "AllocateStackSpace SEG pteAddress =
     steps (\<lambda>i. and_then AllocatePhysicalPage (\<lambda>uiFreePageNo.
       write_entry SEG pteAddress (of_nat (PAGE_TABLE_ENTRIES - 1 - i))
         ((uiFreePageNo * PAGE_SIZE) AND 0xFFFFF000 OR (if i > PROCESS_CG_STACK_PAGES - 1 then 7 else 3))))
       [0..<PROCESS_CG_STACK_PAGES + NO_OF_PAGES_FOR_STARTUP_ARGS]"

definition DeAllocateStackSpace :: "u32 \<Rightarrow> u32 \<Rightarrow> unit us_eff" where
  "DeAllocateStackSpace SEG stackPTEAddress =
     steps (\<lambda>i. and_then (read_entry SEG stackPTEAddress (of_nat i)) (\<lambda>pageEntry.
       let isPresent = pageEntry AND 1; pageAddress = pageEntry AND 0xFFFFF000
       in only_if (isPresent \<noteq> 0 \<and> pageAddress \<noteq> 0) (dealloc_page (pageAddress div PAGE_SIZE))))
       [0..<PAGE_TABLE_ENTRIES]"

section \<open>The address space of a process\<close>

definition ProcessPDEBase :: "uspace \<Rightarrow> u32" where
  "ProcessPDEBase s = us_processBase s div PAGE_SIZE div 1024"

definition ProcessPageBase :: "uspace \<Rightarrow> u32" where
  "ProcessPageBase s = (us_processBase s div PAGE_SIZE) mod 1024"

text \<open>\<open>uiPDEIndex\<close> after the loop: that of the last table, 0 when there is none beyond the space of the kernel.\<close>

definition AllocatePTE :: "u32 \<Rightarrow> u32 \<Rightarrow> unit us_eff" where
  "AllocatePTE SEG uiPDEAddress = and_then (gets id) (\<lambda>s.
     let n = unat (us_noOfPagesForPTE s); base = ProcessPDEBase s
     in then_do
          (steps (\<lambda>i. and_then AllocatePhysicalPage (\<lambda>uiFreePageNo.
             then_do (steps (\<lambda>j. write_entry SEG (uiFreePageNo * PAGE_SIZE) (of_nat j) 2) [0..<PAGE_TABLE_ENTRIES])
               (write_entry SEG uiPDEAddress (if i < PROCESS_SPACE_FOR_OS then of_nat i else of_nat i + base)
                 ((uiFreePageNo * PAGE_SIZE) AND 0xFFFFF000 OR 7)))) [0..<n])
          (then_do (modify (\<lambda>s. s\<lparr>us_startPDEForDLL := (if n \<le> PROCESS_SPACE_FOR_OS then 0 else of_nat (n - 1) + base) + 1\<rparr>))
             (and_then (AllocatePTEForStack SEG) (\<lambda>stack. modify (\<lambda>s. s\<lparr>us_stackPTEAddress := stack\<rparr>)))))"

definition InitializeProcessSpaceForOS :: "u32 \<Rightarrow> u32 \<Rightarrow> unit us_eff" where
  "InitializeProcessSpaceForOS SEG uiPDEAddress =
     steps (\<lambda>i. and_then (gets MEM_PDBR) (\<lambda>pdbr.
       and_then (read_entry SEG pdbr (of_nat i)) (\<lambda>kernel.
       and_then (read_entry SEG uiPDEAddress (of_nat i)) (\<lambda>own.
       steps (\<lambda>j. and_then (read_entry SEG (kernel AND 0xFFFFF000) (of_nat j)) (\<lambda>v.
         write_entry SEG (own AND 0xFFFFF000) (of_nat j) (v AND 0xFFFFF000 OR 5))) [0..<PAGE_TABLE_ENTRIES]))))
       [0..<PROCESS_SPACE_FOR_OS]"

definition image_pde :: "uspace \<Rightarrow> nat \<Rightarrow> u32" where
  "image_pde s i = (ProcessPageBase s + of_nat i) div 1024 + ProcessPDEBase s + of_nat PROCESS_SPACE_FOR_OS"

definition image_pte :: "uspace \<Rightarrow> nat \<Rightarrow> u32" where
  "image_pte s i = (ProcessPageBase s + of_nat i) mod 1024"

definition InitializeProcessSpaceForProcess :: "u32 \<Rightarrow> u32 \<Rightarrow> unit us_eff" where
  "InitializeProcessSpaceForProcess SEG uiPDEAddress = and_then (gets id) (\<lambda>s.
     then_do
       (steps (\<lambda>i. and_then AllocatePhysicalPage (\<lambda>uiFreePageNo.
          and_then (read_entry SEG uiPDEAddress (image_pde s i)) (\<lambda>e.
          write_entry SEG (e AND 0xFFFFF000) (image_pte s i) ((uiFreePageNo * PAGE_SIZE) AND 0xFFFFF000 OR 7))))
         [0..<unat (us_noOfPagesForProcess s)])
       (AllocateStackSpace SEG (us_stackPTEAddress s)))"

definition AllocateAddressSpace :: "u32 \<Rightarrow> u32 us_eff" where
  "AllocateAddressSpace SEG = and_then (AllocatePDE SEG) (\<lambda>uiPDEAddress.
     then_do (AllocatePTE SEG uiPDEAddress)
       (then_do (InitializeProcessSpaceForOS SEG uiPDEAddress)
          (then_do (InitializeProcessSpaceForProcess SEG uiPDEAddress) (yield uiPDEAddress))))"

definition DeAllocateProcessSpace :: "u32 \<Rightarrow> unit us_eff" where
  "DeAllocateProcessSpace SEG = and_then (gets id) (\<lambda>s.
     then_do
       (steps (\<lambda>i. and_then (read_entry SEG (us_pdbr s) (image_pde s i)) (\<lambda>t.
          and_then (read_entry SEG (t AND 0xFFFFF000) (image_pte s i)) (\<lambda>e.
          dealloc_page ((e AND 0xFFFFF000) div PAGE_SIZE)))) [0..<unat (us_noOfPagesForProcess s)])
       (DeAllocateStackSpace SEG (us_stackPTEAddress s)))"

definition DeAllocatePTE :: "u32 \<Rightarrow> unit us_eff" where
  "DeAllocatePTE SEG = and_then (gets id) (\<lambda>s.
     then_do
       (steps (\<lambda>i. and_then (read_entry SEG (us_pdbr s) (if i < PROCESS_SPACE_FOR_OS then of_nat i else of_nat i + ProcessPDEBase s)) (\<lambda>e.
          dealloc_page ((e AND 0xFFFFF000) div PAGE_SIZE))) [0..<unat (us_noOfPagesForPTE s)])
       (dealloc_page (us_stackPTEAddress s div PAGE_SIZE)))"

definition DeAllocateAddressSpace :: "u32 \<Rightarrow> unit us_eff" where
  "DeAllocateAddressSpace SEG =
     then_do (DeAllocateProcessSpace SEG)
       (then_do (DeAllocatePTE SEG) (and_then (gets us_pdbr) (\<lambda>p. dealloc_page (p div PAGE_SIZE))))"

section \<open>Pages in the space of the kernel\<close>

text \<open>\<open>DynamicLinkLoader_Initialize\<close>: the address of the page for the section headers.\<close>

definition DynamicLinkLoader_Initialize :: "u32 \<Rightarrow> u32 \<Rightarrow> u32 us_eff" where
  "DynamicLinkLoader_Initialize SEG uiPDEAddress = and_then AllocatePhysicalPage (\<lambda>uiFreePageNo.
     and_then (read_entry SEG uiPDEAddress (drop_bit 22 PROCESS_SEC_HEADER_ADDR AND 0x3FF)) (\<lambda>t.
     then_do (write_entry SEG (t AND 0xFFFFF000) (drop_bit 12 PROCESS_SEC_HEADER_ADDR AND 0x3FF)
         ((uiFreePageNo * PAGE_SIZE) AND 0xFFFFF000 OR 3))
       (yield (uiFreePageNo * PAGE_SIZE - SEG))))"

definition DynamicLinkLoader_UnInitialize :: "u32 \<Rightarrow> unit us_eff" where
  "DynamicLinkLoader_UnInitialize SEG = and_then (gets us_pdbr) (\<lambda>pdbr.
     and_then (read_entry SEG pdbr (drop_bit 22 PROCESS_SEC_HEADER_ADDR AND 0x3FF)) (\<lambda>t.
     and_then (read_entry SEG (t AND 0xFFFFF000) (drop_bit 12 PROCESS_SEC_HEADER_ADDR AND 0x3FF)) (\<lambda>e.
     dealloc_page ((e AND 0xFFFFF000) div PAGE_SIZE))))"

text \<open>The page number of the environment, and the mapping of a new page for it; \<open>init\<close> fills the page.\<close>

definition ProcessEnv_GetProcessEnvPageNumber :: "u32 \<Rightarrow> u32 us_eff" where
  "ProcessEnv_GetProcessEnvPageNumber SEG = and_then (gets us_pdbr) (\<lambda>pdbr.
     and_then (read_entry SEG pdbr (drop_bit 22 PROCESS_ENV_PAGE AND 0x3FF)) (\<lambda>t.
     and_then (read_entry SEG (t AND 0xFFFFF000) (drop_bit 12 PROCESS_ENV_PAGE AND 0x3FF)) (\<lambda>e.
     yield ((e AND 0xFFFFF000) div PAGE_SIZE))))"

definition ProcessEnv_UnInitialize :: "u32 \<Rightarrow> unit us_eff" where
  "ProcessEnv_UnInitialize SEG = and_then (ProcessEnv_GetProcessEnvPageNumber SEG) dealloc_page"

section \<open>Libraries\<close>

definition MapDLLPagesToProcess :: "u32 \<Rightarrow> u32 \<Rightarrow> string \<Rightarrow> unit us_eff" where
  "MapDLLPagesToProcess SEG noOfPagesForDLL dllName = and_then (gets id) (\<lambda>s.
     let uiNoOfPagesForDLLPTE = GetPTESizeInPages (us_totalNoOfPagesForDLL s + noOfPagesForDLL);
         start = us_startPDEForDLL s; total = us_totalNoOfPagesForDLL s
     in then_do
          (steps (\<lambda>i. and_then AllocatePhysicalPage (\<lambda>uiFreePageNo.
             write_entry SEG (us_pdbr s) (start + of_nat i) ((uiFreePageNo * PAGE_SIZE) AND 0xFFFFF000 OR 7)))
            [unat (us_noOfPagesForDLLPTE s)..<unat uiNoOfPagesForDLLPTE])
          (then_do
             (steps (\<lambda>i. and_then AllocatePhysicalPage (\<lambda>uiFreePageNo.
                and_then (read_entry SEG (us_pdbr s) ((of_nat i + total) div 1024 + start)) (\<lambda>t.
                write_entry SEG (t AND 0xFFFFF000) ((of_nat i + total) mod 1024)
                  ((uiFreePageNo * PAGE_SIZE) AND 0xFFFFF000 OR 7)))) [0..<unat noOfPagesForDLL])
             (modify (\<lambda>s.
                let loadAddress = start * PAGE_SIZE * 1024 + total * PAGE_SIZE; dlls = us_loadedDLLs s @ [dllName]
                in s\<lparr>us_loadedDLLs := dlls,
                     us_dllInfoMap := (if us_dllInfoMap s dllName = None
                       then (us_dllInfoMap s)(dllName \<mapsto> \<lparr>dll_id = length dlls - 1, dll_rawLoadAddress = loadAddress, dll_noOfPages = noOfPagesForDLL\<rparr>)
                       else us_dllInfoMap s),
                     us_noOfPagesForDLLPTE := uiNoOfPagesForDLLPTE,
                     us_totalNoOfPagesForDLL := total + noOfPagesForDLL\<rparr>))))"

text \<open>Releasing them: the entries of a library table are read at \<open>uiPTEAddress\<close> itself, without
  \<open>GLOBAL_DATA_SEGMENT_BASE\<close>.\<close>

fun FreeDLLTable_loop :: "u32 \<Rightarrow> nat \<Rightarrow> nat \<Rightarrow> nat \<Rightarrow> nat us_eff" where
  "FreeDLLTable_loop uiPTEAddress k 0 noOfPages = yield noOfPages"
| "FreeDLLTable_loop uiPTEAddress k (Suc n) noOfPages =
     (if noOfPages = 0 then yield 0
      else
        and_then (gets (\<lambda>s. load32 (phys s) (uiPTEAddress + 4 * of_nat k))) (\<lambda>page.
        then_do (only_if (page AND 1 \<noteq> 0 \<and> page AND 0xFFFFF000 \<noteq> 0) (dealloc_page ((page AND 0xFFFFF000) div PAGE_SIZE)))
          (FreeDLLTable_loop uiPTEAddress (Suc k) n (noOfPages - 1))))"

fun FreeDLL_loop :: "u32 \<Rightarrow> nat list \<Rightarrow> nat \<Rightarrow> unit us_eff" where
  "FreeDLL_loop SEG [] noOfPages = yield ()"
| "FreeDLL_loop SEG (i # is) noOfPages = and_then (gets id) (\<lambda>s.
     let e = entry SEG (phys s) (us_pdbr s) (of_nat i + us_startPDEForDLL s); t = e AND 0xFFFFF000
     in if e AND 1 \<noteq> 0 \<and> t \<noteq> 0 then
          and_then (FreeDLLTable_loop t 0 PAGE_TABLE_ENTRIES noOfPages) (\<lambda>noOfPages.
          then_do (dealloc_page (t div PAGE_SIZE)) (FreeDLL_loop SEG is noOfPages))
        else FreeDLL_loop SEG is noOfPages)"

definition DeAllocateDLLPages :: "u32 \<Rightarrow> unit us_eff" where
  "DeAllocateDLLPages SEG = and_then (gets id) (\<lambda>s.
     FreeDLL_loop SEG [0..<unat (us_noOfPagesForDLLPTE s)] (unat (us_totalNoOfPagesForDLL s)))"

definition getDLLInfo :: "int \<Rightarrow> uspace \<Rightarrow> dll_info option" where
  "getDLLInfo n s = (if n < 0 \<or> n \<ge> int (length (us_loadedDLLs s)) then None
     else us_dllInfoMap s (us_loadedDLLs s ! nat n))"

section \<open>Threads and the switch to them\<close>

text \<open>The stack of a \<open>UserThread\<close>: its table and its pages, in the physical memory of the process.\<close>

definition UserThread_stack :: "u32 \<Rightarrow> u32 us_eff" where
  "UserThread_stack SEG = and_then (AllocatePTEForStack SEG) (\<lambda>stack.
     then_do (AllocateStackSpace SEG stack) (yield stack))"

definition UserThread_DeAllocateResources :: "u32 \<Rightarrow> u32 \<Rightarrow> unit us_eff" where
  "UserThread_DeAllocateResources SEG stack =
     then_do (DeAllocateStackSpace SEG stack) (dealloc_page (stack div PAGE_SIZE))"

definition onLoad :: "u32 \<Rightarrow> u32 \<Rightarrow> unit us_eff" where
  "onLoad SEG stack = and_then (gets us_pdbr) (\<lambda>pdbr. UpdatePDEWithStackPTE SEG pdbr stack)"

end
