(* ===== verification/AddressProofs.thy ===== *)
theory AddressProofs
  imports AddressSpace
begin

text \<open>
  The address space of a process takes frames that were free, leaves all other frames alone, and
  gives exactly these frames back when it is released. A state is seen through the set of frames in
  use (\<open>used\<close>), the entries of the frames read as tables (\<open>tbl\<close>) and the members that the
  operations do not change (\<open>kept\<close>).
\<close>

section \<open>States seen as tables\<close>

definition used :: "uspace \<Rightarrow> nat set" where
  "used s = {n. n < 32 * length (m_uiPageMap s) \<and> page_bit (m_uiPageMap s) n}"

definition tbl :: "u32 \<Rightarrow> uspace \<Rightarrow> nat \<Rightarrow> nat \<Rightarrow> u32" where
  "tbl SEG s f k = (if f < 1048576 \<and> k < 1024 then load32 (phys s) (cell SEG (f * 1024 + k)) else 0)"

definition kept :: "uspace \<Rightarrow> u32 \<times> u32 \<times> u32 \<times> u32 \<times> u32" where
  "kept s = (MEM_PDBR s, us_processBase s, us_noOfPagesForPTE s, us_noOfPagesForProcess s, us_pdbr s)"

lemma kept_simps [simp]:
  "kept (s\<lparr>m_uiPageMap := m\<rparr>) = kept s" "kept (s\<lparr>phys := p\<rparr>) = kept s" "kept (s\<lparr>us_startPDEForDLL := x\<rparr>) = kept s"
  "kept (s\<lparr>us_stackPTEAddress := x\<rparr>) = kept s"
  by (simp_all add: kept_def)

lemma keptD:
  assumes "kept t = kept s"
  shows "MEM_PDBR t = MEM_PDBR s" "us_processBase t = us_processBase s" "us_noOfPagesForPTE t = us_noOfPagesForPTE s"
    "us_noOfPagesForProcess t = us_noOfPagesForProcess s" "us_pdbr t = us_pdbr s"
    "ProcessPDEBase t = ProcessPDEBase s" "ProcessPageBase t = ProcessPageBase s" "image_pde t = image_pde s" "image_pte t = image_pte s"
  using assms by (simp_all add: kept_def ProcessPDEBase_def ProcessPageBase_def image_pde_def image_pte_def fun_eq_iff)

lemma used_bound: "page_maps_ok s \<Longrightarrow> n \<in> used s \<Longrightarrow> n < 1048576 \<and> n < 32 * length (m_uiPageMap s)"
  by (auto simp: used_def page_maps_ok_def)

lemma wp_alloc:
  assumes "page_maps_ok s"
    "\<And>n t. n < 1048576 \<Longrightarrow> n \<notin> used s \<Longrightarrow> page_maps_ok t \<Longrightarrow> kept t = kept s \<Longrightarrow> us_stackPTEAddress t = us_stackPTEAddress s \<Longrightarrow>
       used t = insert n (used s) \<Longrightarrow> tbl SEG t = tbl SEG s \<Longrightarrow> Q (of_nat n) t"
    "(\<forall>n. \<not> free_page s n) \<Longrightarrow> X OutOfMemoryPages s"
  shows "wp False AllocatePhysicalPage Q X s"
proof (cases rule: AllocatePhysicalPage_cases [OF assms(1)])
  case 1
  then show ?thesis using assms(3) by (simp add: wp_def)
next
  case (2 n m)
  then have "Q (of_nat n) (s\<lparr>m_uiPageMap := m\<rparr>)"
    using assms(1) by (intro assms(2)) (auto simp: used_def free_page_def tbl_def fun_eq_iff page_maps_ok_def)
  then show ?thesis using 2 by (simp add: wp_def)
qed

lemma wp_dealloc:
  assumes "page_maps_ok s" "n \<in> used s"
    "\<And>t. page_maps_ok t \<Longrightarrow> kept t = kept s \<Longrightarrow> us_stackPTEAddress t = us_stackPTEAddress s \<Longrightarrow> used t = used s - {n} \<Longrightarrow>
       tbl SEG t = tbl SEG s \<Longrightarrow> Q () t"
  shows "wp False (dealloc_page (of_nat n)) Q X s"
proof -
  have n: "unat (of_nat n :: u32) = n" using used_bound [OF assms(1,2)] by (simp add: of_nat_unat_u32)
  obtain m where m: "DeAllocatePhysicalPage (of_nat n) s = Some (s\<lparr>m_uiPageMap := m\<rparr>)" "length m = length (m_uiPageMap s)"
      "\<forall>k. page_bit m k \<longleftrightarrow> k \<noteq> n \<and> page_bit (m_uiPageMap s) k"
    using DeAllocatePhysicalPage_spec [of "of_nat n" s] used_bound [OF assms(1,2)] n by auto
  have "Q () (s\<lparr>m_uiPageMap := m\<rparr>)"
    using assms(1) m by (intro assms(3)) (auto simp: used_def tbl_def fun_eq_iff)
  then show ?thesis by (simp add: wp_def dealloc_page_def m(1))
qed

lemma wp_read:
  assumes "f < 1048576" "k < 1024"
  shows "wp u (read_entry SEG (of_nat (f * 4096)) (of_nat k)) Q X s = Q (tbl SEG s f k) s"
  using assms by (simp only: read_entry_def wp_gets entry_cell tbl_def if_True conj_absorb simp_thms)

lemma wp_write:
  assumes "page_maps_ok s" "f < 1048576" "k < 1024"
    "\<And>t. page_maps_ok t \<Longrightarrow> kept t = kept s \<Longrightarrow> us_stackPTEAddress t = us_stackPTEAddress s \<Longrightarrow> used t = used s \<Longrightarrow>
       tbl SEG t = (tbl SEG s)(f := (tbl SEG s f)(k := v)) \<Longrightarrow> Q () t"
  shows "wp u (write_entry SEG (of_nat (f * 4096)) (of_nat k) v) Q X s"
proof -
  let ?t = "s\<lparr>phys := set_entry SEG (phys s) (of_nat (f * 4096)) (of_nat k) v\<rparr>"
  have "tbl SEG ?t f' k' = ((tbl SEG s)(f := (tbl SEG s f)(k := v))) f' k'" for f' k'
    using assms(2,3) by (simp add: tbl_def entry_cell(2) load_store_cell cell_less cell_eq_iff del: of_nat_mult)
  then have "tbl SEG ?t = (tbl SEG s)(f := (tbl SEG s f)(k := v))" by blast
  then have "Q () ?t" using assms(1) by (intro assms(4)) (simp_all add: used_def page_maps_ok_def)
  then show ?thesis by (simp add: write_entry_def wp_modify)
qed

text \<open>A table that is filled with entries that are not present.\<close>

definition blank :: "nat \<Rightarrow> u32" where
  "blank k = (if k < 1024 then 2 else 0)"

lemma wp_fill:
  assumes "page_maps_ok s" "f < 1048576"
    "\<And>t. page_maps_ok t \<Longrightarrow> kept t = kept s \<Longrightarrow> us_stackPTEAddress t = us_stackPTEAddress s \<Longrightarrow> used t = used s \<Longrightarrow>
       tbl SEG t = (tbl SEG s)(f := blank) \<Longrightarrow> Q () t"
  shows "wp False (steps (\<lambda>j. write_entry SEG (of_nat f * 4096) (of_nat j) 2) [0..<1024]) Q X s"
proof (rule wp_steps [where I = "\<lambda>k t. page_maps_ok t \<and> kept t = kept s \<and> us_stackPTEAddress t = us_stackPTEAddress s \<and> used t = used s \<and>
    tbl SEG t = (tbl SEG s)(f := (\<lambda>j. if j < k then 2 else tbl SEG s f j))"], goal_cases)
  case 1
  show ?case using assms(1) by simp
next
  case (2 k t)
  then have k: "k < 1024" "[0..<1024] ! k = k" by simp_all
  have "wp False (write_entry SEG (of_nat (f * 4096)) (of_nat k) 2) (\<lambda>_ t. page_maps_ok t \<and> kept t = kept s \<and>
      us_stackPTEAddress t = us_stackPTEAddress s \<and> used t = used s \<and>
      tbl SEG t = (tbl SEG s)(f := (\<lambda>j. if j < Suc k then 2 else tbl SEG s f j))) X t"
  proof (rule wp_write [OF _ assms(2) k(1)], goal_cases)
    case (2 t')
    have "((\<lambda>j. if j < k then 2 else tbl SEG s f j)(k := 2)) = (\<lambda>j. if j < Suc k then 2 else tbl SEG s f j)"
      by (auto simp: fun_eq_iff)
    then show ?case using 2 \<open>_ \<and> _\<close> by simp
  qed (use 2 in simp)
  then show ?case unfolding k(2) by simp
next
  case (3 t)
  have "(\<lambda>j. if j < 1024 then 2 else tbl SEG s f j) = blank" by (auto simp: fun_eq_iff blank_def tbl_def)
  then show ?case using 3 by (intro assms(3)) simp_all
qed

section \<open>Allocating\<close>

abbreviation oom :: "page_error \<Rightarrow> uspace \<Rightarrow> bool" where
  "oom \<equiv> \<lambda>e t. e = OutOfMemoryPages \<and> (\<forall>n. \<not> free_page t n)"

text \<open>From \<open>s\<close> to \<open>t\<close> the frames \<open>F\<close>, free in \<open>s\<close>, were taken; only the entries of the frames \<open>W\<close> changed.\<close>

definition grown :: "u32 \<Rightarrow> nat set \<Rightarrow> nat set \<Rightarrow> uspace \<Rightarrow> uspace \<Rightarrow> bool" where
  "grown SEG F W s t \<longleftrightarrow> page_maps_ok t \<and> kept t = kept s \<and> used t = used s \<union> F \<and> F \<inter> used s = {} \<and>
     (\<forall>f. f \<notin> W \<longrightarrow> tbl SEG t f = tbl SEG s f)"

lemma grown_refl: "page_maps_ok s \<Longrightarrow> grown SEG {} {} s s"
  by (simp add: grown_def)

lemma grown_trans: "grown SEG F W s t \<Longrightarrow> grown SEG F' W' t u \<Longrightarrow> grown SEG (F \<union> F') (W \<union> W') s u"
  by (auto simp: grown_def)

lemma grown_mono: "grown SEG F W s t \<Longrightarrow> W \<subseteq> W' \<Longrightarrow> grown SEG F W' s t"
  by (auto simp: grown_def)

lemma grown_join:
  "grown SEG F W s t \<Longrightarrow> grown SEG F' W' t u \<Longrightarrow> F'' = F \<union> F' \<Longrightarrow> W \<union> W' \<subseteq> W'' \<Longrightarrow> grown SEG F'' W'' s u"
  using grown_mono [OF grown_trans] by blast

lemma wp_blank_table:
  assumes "page_maps_ok s"
    "\<And>f t. f < 1048576 \<Longrightarrow> f \<notin> used s \<Longrightarrow> grown SEG {f} {f} s t \<Longrightarrow> us_stackPTEAddress t = us_stackPTEAddress s \<Longrightarrow>
       tbl SEG t f = blank \<Longrightarrow> Q (of_nat f * 4096) t"
  shows "wp False (and_then AllocatePhysicalPage (\<lambda>p.
     then_do (steps (\<lambda>i. write_entry SEG (p * PAGE_SIZE) (of_nat i) 2) [0..<PAGE_TABLE_ENTRIES]) (yield (p * PAGE_SIZE)))) Q oom s"
  unfolding wp_and_then wp_then_do wp_yield
proof (rule wp_alloc [where SEG = SEG, OF assms(1)], goal_cases)
  case (1 f t)
  show ?case by (rule wp_fill) (use 1 in \<open>auto simp: grown_def intro!: assms(2)\<close>)
qed simp

definition table_of :: "nat \<Rightarrow> nat \<Rightarrow> nat" where
  "table_of base i = (if i < 32 then i else i + base)"

lemma table_of_inj: "table_of base i = table_of base j \<longleftrightarrow> i = j"
  by (auto simp: table_of_def)

lemma pde_word:
  "(if i < 32 then of_nat i else of_nat i + ProcessPDEBase s) = (of_nat (table_of (unat (ProcessPDEBase s)) i) :: u32)"
  by (simp add: table_of_def)

lemma entry_frame: "f < 1048576 \<Longrightarrow> fl < 8 \<Longrightarrow> frame_of ((of_nat f * PAGE_SIZE) AND 0xFFFFF000 OR fl) = f"
  by (rule make_entry)

text \<open>The tables of a process: table \<open>i\<close> is frame \<open>T ! i\<close>.\<close>

definition tables_at :: "u32 \<Rightarrow> nat \<Rightarrow> nat \<Rightarrow> nat list \<Rightarrow> uspace \<Rightarrow> bool" where
  "tables_at SEG d base T t \<longleftrightarrow> (\<forall>i < length T. frame_of (tbl SEG t d (table_of base i)) = T ! i)"

definition fresh_list :: "nat list \<Rightarrow> uspace \<Rightarrow> bool" where
  "fresh_list T s \<longleftrightarrow> distinct T \<and> set T \<inter> used s = {} \<and> (\<forall>f \<in> set T. f < 1048576)"

lemma wp_tables:
  assumes s: "page_maps_ok s" "d \<in> used s" "d < 1048576" and b: "base = unat (ProcessPDEBase s)" "n + base < 1024"
  shows "wp False (steps (\<lambda>i. and_then AllocatePhysicalPage (\<lambda>p.
             then_do (steps (\<lambda>j. write_entry SEG (p * PAGE_SIZE) (of_nat j) 2) [0..<PAGE_TABLE_ENTRIES])
               (write_entry SEG (of_nat d * 4096) (if i < PROCESS_SPACE_FOR_OS then of_nat i else of_nat i + ProcessPDEBase s)
                 ((p * PAGE_SIZE) AND 0xFFFFF000 OR 7)))) [0..<n])
    (\<lambda>_ t. us_stackPTEAddress t = us_stackPTEAddress s \<and> (\<exists>T. length T = n \<and> fresh_list T s \<and>
       grown SEG (set T) (insert d (set T)) s t \<and> tables_at SEG d base T t)) oom s"
proof (rule wp_steps [where I = "\<lambda>k t. us_stackPTEAddress t = us_stackPTEAddress s \<and> (\<exists>T. length T = k \<and> fresh_list T s \<and>
       grown SEG (set T) (insert d (set T)) s t \<and> tables_at SEG d base T t)"], goal_cases)
  case 1
  show ?case using s(1) by (auto simp: fresh_list_def grown_def tables_at_def)
next
  case (2 k t)
  then obtain T where T: "length T = k" "fresh_list T s" "grown SEG (set T) (insert d (set T)) s t" "tables_at SEG d base T t"
    and st: "us_stackPTEAddress t = us_stackPTEAddress s" by blast
  have k: "k < n" "[0..<n] ! k = k" using 2 by simp_all
  have tk: "table_of base k < 1024" using k b(2) by (auto simp: table_of_def)
  have ut: "used t = used s \<union> set T" "page_maps_ok t" using T(3) by (simp_all add: grown_def)
  show ?case
    unfolding k(2) wp_and_then wp_then_do pde_word b(1) [symmetric]
  proof (rule wp_alloc [where SEG = SEG, OF ut(2)], goal_cases)
    case (1 f t1)
    have fd: "f \<noteq> d" "f \<notin> set T" "f \<notin> used s" using 1(2) ut s(2) by auto
    show ?case
    proof (rule wp_fill, goal_cases)
      case (3 t2)
      have "wp False (write_entry SEG (of_nat (d * 4096)) (of_nat (table_of base k)) ((of_nat f * 4096) AND 0xFFFFF000 OR 7))
        (\<lambda>_ t. us_stackPTEAddress t = us_stackPTEAddress s \<and> (\<exists>T. length T = Suc k \<and> fresh_list T s \<and>
           grown SEG (set T) (insert d (set T)) s t \<and> tables_at SEG d base T t)) oom t2"
      proof (rule wp_write [OF _ s(3) tk], goal_cases)
        case (2 t3)
        have e: "frame_of ((of_nat f * 4096) AND 0xFFFFF000 OR 7) = f" using entry_frame [OF 1(1), of 7] by simp
        have t: "tbl SEG t3 = ((tbl SEG t)(f := blank))(d := (tbl SEG t d)(table_of base k := (of_nat f * 4096) AND 0xFFFFF000 OR 7))"
          using 2(5) 3(5) 1(7) fd(1) by simp
        have "tables_at SEG d base (T @ [f]) t3"
          using T(1,4) fd e by (auto simp: tables_at_def t table_of_inj nth_append less_Suc_eq)
        moreover have "grown SEG (set (T @ [f])) (insert d (set (T @ [f]))) s t3"
          using T(3) 1 2 3 fd by (auto simp: grown_def t)
        moreover have "fresh_list (T @ [f]) s" using T(2) fd 1(1) by (auto simp: fresh_list_def)
        ultimately show ?case using T(1) st 1 2 3 by (intro conjI exI [of _ "T @ [f]"]) simp_all
      qed (use 3 in simp)
      then show ?case by simp
    qed (use 1 in simp_all)
  qed simp
qed simp

lemma wp_AllocatePTE:
  assumes s: "page_maps_ok s" "d \<in> used s" "d < 1048576" and b: "base = unat (ProcessPDEBase s)" "n = unat (us_noOfPagesForPTE s)" "n + base < 1024"
  shows "wp False (AllocatePTE SEG (of_nat d * 4096))
    (\<lambda>_ t. \<exists>T S. length T = n \<and> fresh_list (S # T) s \<and> us_stackPTEAddress t = of_nat S * 4096 \<and>
       grown SEG (set (S # T)) (insert d (set (S # T))) s t \<and> tables_at SEG d base T t \<and> tbl SEG t S = blank) oom s"
  unfolding AllocatePTE_def wp_and_then wp_gets Let_def id_apply wp_then_do b(2) [symmetric]
proof (rule wp_mono [OF wp_tables [OF s b(1,3)]], goal_cases)
  case (1 _ t)
  then obtain T where T: "length T = n" "fresh_list T s" "grown SEG (set T) (insert d (set T)) s t" "tables_at SEG d base T t"
    by blast
  have d: "d \<notin> set T" using T(2) s(2) by (auto simp: fresh_list_def)
  define t1 where "t1 = t\<lparr>us_startPDEForDLL := (if n \<le> PROCESS_SPACE_FOR_OS then 0 else of_nat (n - 1) + ProcessPDEBase s) + 1\<rparr>"
  have t1: "page_maps_ok t1" "kept t1 = kept t" "used t1 = used t" "tbl SEG t1 = tbl SEG t"
    using T(3) by (simp_all add: t1_def grown_def page_maps_ok_def used_def tbl_def fun_eq_iff)
  show ?case
    unfolding wp_modify t1_def [symmetric] AllocatePTEForStack_def
  proof (rule wp_blank_table [OF t1(1)], goal_cases)
    case (1 S t2)
    have S: "S \<notin> used s" "S \<notin> set T" "S \<noteq> d" using 1(2) T(3) t1 s(2) by (auto simp: grown_def)
    let ?t3 = "t2\<lparr>us_stackPTEAddress := of_nat S * 4096\<rparr>"
    have e: "page_maps_ok ?t3 = page_maps_ok t2" "used ?t3 = used t2" "tbl SEG ?t3 = tbl SEG t2"
      by (simp_all add: page_maps_ok_def used_def tbl_def fun_eq_iff)
    have "fresh_list (S # T) s" using T(2) S 1(1) by (simp add: fresh_list_def)
    moreover have "grown SEG (set (S # T)) (insert d (set (S # T))) s ?t3"
      using T(3) 1(3) t1 e S by (auto simp: grown_def)
    moreover have "tables_at SEG d base T ?t3" using T(4) 1(3) S t1 e by (auto simp: tables_at_def grown_def)
    ultimately show ?case using T(1) 1(5) e by (intro exI [of _ T] exI [of _ S]) simp
  qed
qed simp_all

text \<open>Sharing the kernel writes into the first tables only.\<close>

lemma wp_read_any: "wp u (read_entry SEG a i) Q X s = Q (entry SEG (phys s) a i) s"
  by (simp add: read_entry_def wp_gets)

lemma wp_share:
  assumes s: "page_maps_ok s" "d < 1048576" "d \<notin> set T" "32 \<le> length T" "tables_at SEG d base T s" "\<forall>f \<in> set T. f < 1048576"
  shows "wp False (InitializeProcessSpaceForOS SEG (of_nat d * 4096))
    (\<lambda>_ t. grown SEG {} (set T) s t \<and> us_stackPTEAddress t = us_stackPTEAddress s) oom s"
  unfolding InitializeProcessSpaceForOS_def
proof (rule wp_steps [where I = "\<lambda>k t. grown SEG {} (set T) s t \<and> us_stackPTEAddress t = us_stackPTEAddress s"], goal_cases)
  case 1
  then show ?case using s(1) by (simp add: grown_def)
next
  case (2 k t)
  then have k: "k < 32" "[0..<32] ! k = k" and g: "grown SEG {} (set T) s t" "us_stackPTEAddress t = us_stackPTEAddress s" by simp_all
  have td: "tbl SEG t d = tbl SEG s d" using g s(3) by (auto simp: grown_def)
  have fr: "frame_of (tbl SEG t d k) = T ! k" using s(4,5) k td by (auto simp: tables_at_def table_of_def dest: spec [of _ k])
  have Tk: "T ! k \<in> set T" using k s(4) by simp
  define own where "own = tbl SEG t d k"
  have rd: "wp False (read_entry SEG (of_nat d * 4096) (of_nat k)) Q oom t = Q own t" for Q
    using wp_read [of d k False SEG Q oom t] s(2) k by (simp add: own_def)
  have own: "own AND 0xFFFFF000 = of_nat (T ! k * 4096)" using fr by (simp only: own_def entry_address)
  show ?case
    unfolding k(2) wp_and_then wp_gets wp_read_any [where i = "of_nat k" and a = "MEM_PDBR t"] rd
  proof (rule wp_steps [where I = "\<lambda>_ t. grown SEG {} (set T) s t \<and> us_stackPTEAddress t = us_stackPTEAddress s"], goal_cases)
    case (2 j u)
    then have j: "j < 1024" "[0..<1024] ! j = j" by simp_all
    show ?case
      unfolding j(2) own wp_read_any wp_and_then
    proof (rule wp_write [OF _ _ j(1)], goal_cases)
      case (3 v)
      then show ?case using 2 Tk by (auto simp: grown_def)
    qed (use 2 Tk s(6) in \<open>auto simp: grown_def\<close>)
  qed (use g in simp_all)
qed simp


section \<open>The pages of the image\<close>

lemma wp_table_read:
  "f < 1048576 \<Longrightarrow> k < 1024 \<Longrightarrow> wp u (read_entry SEG (of_nat f * 4096) (of_nat k)) Q X s = Q (tbl SEG s f k) s"
  using wp_read [of f k u SEG Q X s] by simp

lemma page_no: "f < 1048576 \<Longrightarrow> (of_nat f * 4096 :: u32) div 4096 = of_nat f"
proof -
  assume f: "f < 1048576"
  have "(of_nat (f * 4096) :: u32) div 4096 = of_nat f"
    using f by (simp add: word_unat_eq_iff unat_div_distrib of_nat_unat_u32 del: of_nat_mult)
  then show ?thesis by simp
qed

lemma image_index:
  assumes "p = unat (ProcessPageBase s)" "base = unat (ProcessPDEBase s)" "(p + i) div 1024 + 32 + base < 1024"
  shows "image_pde s i = of_nat (table_of base ((p + i) div 1024 + 32))" "image_pte s i = of_nat ((p + i) mod 1024)"
    "table_of base ((p + i) div 1024 + 32) < 1024"
proof -
  have b: "p + i < 4294967296" using assms(3) by linarith
  have w: "ProcessPageBase s + of_nat i = (of_nat (p + i) :: u32)" by (simp add: assms(1))
  have d: "(of_nat (p + i) :: u32) div 1024 = of_nat ((p + i) div 1024)"
    and m: "(of_nat (p + i) :: u32) mod 1024 = of_nat ((p + i) mod 1024)"
    using b by (simp_all add: word_unat_eq_iff unat_div_distrib unat_mod_distrib of_nat_unat_u32 del: of_nat_add)
  show "image_pde s i = of_nat (table_of base ((p + i) div 1024 + 32))"
    unfolding image_pde_def w d by (simp add: table_of_def assms(2))
  show "image_pte s i = of_nat ((p + i) mod 1024)" unfolding image_pte_def w m ..
  show "table_of base ((p + i) div 1024 + 32) < 1024" using assms(3) by (simp add: table_of_def)
qed


text \<open>\<open>mapped\<close>: page \<open>i\<close> of the image, counted from the directory entry it begins in, is frame \<open>P ! i\<close>.\<close>

definition mapped :: "u32 \<Rightarrow> nat \<Rightarrow> nat list \<Rightarrow> nat list \<Rightarrow> uspace \<Rightarrow> bool" where
  "mapped SEG p T P t \<longleftrightarrow> (\<forall>i < length P. frame_of (tbl SEG t (T ! ((p + i) div 1024 + 32)) ((p + i) mod 1024)) = P ! i)"

lemma fresh_snoc: "fresh_list P s \<Longrightarrow> f < 1048576 \<Longrightarrow> f \<notin> used s \<Longrightarrow> f \<notin> set P \<Longrightarrow> fresh_list (P @ [f]) s"
  by (auto simp: fresh_list_def)

lemma wp_image:
  assumes s: "page_maps_ok s" "d < 1048576" "d \<notin> set T" "distinct T" "tables_at SEG d base T s" "\<forall>f \<in> set T. f < 1048576"
    and b: "p = unat (ProcessPageBase s)" "base = unat (ProcessPDEBase s)" "length T + base < 1024"
    and N: "0 < N \<Longrightarrow> (p + N - 1) div 1024 + 32 < length T"
  shows "wp False (steps (\<lambda>i. and_then AllocatePhysicalPage (\<lambda>uiFreePageNo.
          and_then (read_entry SEG (of_nat d * 4096) (image_pde s i)) (\<lambda>e.
          write_entry SEG (e AND 0xFFFFF000) (image_pte s i) ((uiFreePageNo * PAGE_SIZE) AND 0xFFFFF000 OR 7)))) [0..<N])
    (\<lambda>_ t. us_stackPTEAddress t = us_stackPTEAddress s \<and> (\<exists>P. length P = N \<and> fresh_list P s \<and>
       grown SEG (set P) (set T) s t \<and> mapped SEG p T P t)) oom s"
proof (rule wp_steps [where I = "\<lambda>k t. us_stackPTEAddress t = us_stackPTEAddress s \<and> (\<exists>P. length P = k \<and> fresh_list P s \<and>
       grown SEG (set P) (set T) s t \<and> mapped SEG p T P t)"], goal_cases)
  case 1
  then show ?case using s(1) by (auto simp: grown_def mapped_def fresh_list_def)
next
  case (2 k t)
  then obtain P where P: "length P = k" "fresh_list P s" "grown SEG (set P) (set T) s t" "mapped SEG p T P t"
    and st: "us_stackPTEAddress t = us_stackPTEAddress s" by blast
  have k: "k < N" "[0..<N] ! k = k" using 2 by simp_all
  let ?q = "\<lambda>i. (p + i) div 1024 + 32" and ?r = "\<lambda>i. (p + i) mod 1024"
  have q: "?q i < length T" if "i < N" for i
    using N that div_le_mono [of "p + i" "p + N - 1" 1024] by linarith
  have ix: "image_pde s k = of_nat (table_of base (?q k))" "image_pte s k = of_nat (?r k)" "table_of base (?q k) < 1024"
    using image_index [OF b(1,2), of k] q [OF k(1)] b(3) by simp_all
  have fr: "frame_of (tbl SEG t d (table_of base (?q k))) = T ! ?q k"
    using s(3,5) P(3) q [OF k(1)] by (simp add: grown_def tables_at_def)
  have Tk: "T ! ?q k < 1048576" "T ! ?q k \<in> set T" using s(6) q [OF k(1)] by simp_all
  have ot: "page_maps_ok t" "used t = used s \<union> set P" using P(3) by (simp_all add: grown_def)
  show ?case
    unfolding k(2) wp_and_then ix(1,2)
  proof (rule wp_alloc [where SEG = SEG, OF ot(1)], goal_cases)
    case (1 f t1)
    define e where "e = tbl SEG t1 d (table_of base (?q k))"
    have e: "e AND 0xFFFFF000 = of_nat (T ! ?q k * 4096)" using fr 1(7) by (simp only: e_def entry_address)
    have f: "f \<notin> used s" "f \<notin> set P" using 1(2) ot(2) by simp_all
    have fw: "frame_of ((of_nat f * 4096) AND 0xFFFFF000 OR 7) = f" using entry_frame [OF 1(1), of 7] by simp
    show ?case
      unfolding wp_table_read [OF s(2) ix(3)] e_def [symmetric] e
    proof (rule wp_write [where SEG = SEG, OF 1(3) Tk(1)], goal_cases)
      case (2 t2)
      have t2: "tbl SEG t2 = (tbl SEG t)(T ! ?q k := (tbl SEG t (T ! ?q k))(?r k := (of_nat f * 4096) AND 0xFFFFF000 OR 7))"
        using 2(5) 1(7) by simp
      have "frame_of (tbl SEG t2 (T ! ?q i) (?r i)) = (P @ [f]) ! i" if i: "i < Suc k" for i
      proof (cases "i = k")
        case True
        then show ?thesis using P(1) fw by (simp add: t2 nth_append)
      next
        case False
        then have ik: "i < k" using i by simp
        have "\<not> (?q i = ?q k \<and> ?r i = ?r k)"
          using False div_mult_mod_eq [of "p + i" 1024] div_mult_mod_eq [of "p + k" 1024] by (metis add_left_cancel add_right_cancel)
        then have "\<not> (T ! ?q i = T ! ?q k \<and> ?r i = ?r k)"
          using nth_eq_iff_index_eq [OF s(4) q q [OF k(1)], of i] ik k(1) by simp
        then have "tbl SEG t2 (T ! ?q i) (?r i) = tbl SEG t (T ! ?q i) (?r i)" by (auto simp: t2)
        then show ?thesis using P(1,4) ik by (simp add: mapped_def nth_append)
      qed
      then have "mapped SEG p T (P @ [f]) t2" using P(1) by (simp add: mapped_def)
      moreover have "grown SEG (set (P @ [f])) (set T) s t2"
        using P(3) 1 2 f Tk(2) by (auto simp: grown_def t2)
      ultimately show ?case using fresh_snoc [OF P(2) 1(1) f] P(1) st 1 2 by (intro conjI exI [of _ "P @ [f]"]) simp_all
    qed simp
  qed simp
qed simp

section \<open>The pages of the stack\<close>

text \<open>The entries of a stack table: the last \<open>length P\<close> ones are present, the others are not.\<close>

definition stacked :: "u32 \<Rightarrow> nat \<Rightarrow> nat list \<Rightarrow> uspace \<Rightarrow> bool" where
  "stacked SEG S P t \<longleftrightarrow> (\<forall>j < 1024. if j + length P < 1024 then tbl SEG t S j = 2
     else tbl SEG t S j AND 1 = 1 \<and> frame_of (tbl SEG t S j) = P ! (1023 - j))"

lemma stack_word: "(of_nat (PAGE_TABLE_ENTRIES - 1 - i) :: u32) = of_nat (1023 - i)"
  by simp

lemma wp_stack:
  assumes s: "page_maps_ok s" "S < 1048576" "\<forall>j < 1024. tbl SEG s S j = 2"
  shows "wp False (AllocateStackSpace SEG (of_nat S * 4096))
    (\<lambda>_ t. us_stackPTEAddress t = us_stackPTEAddress s \<and> (\<exists>P. length P = 9 \<and> fresh_list P s \<and>
       grown SEG (set P) {S} s t \<and> stacked SEG S P t)) oom s"
  unfolding AllocateStackSpace_def
proof (rule wp_steps [where I = "\<lambda>k t. us_stackPTEAddress t = us_stackPTEAddress s \<and> (\<exists>P. length P = k \<and> fresh_list P s \<and>
       grown SEG (set P) {S} s t \<and> stacked SEG S P t)"], goal_cases)
  case 1
  then show ?case using s(1,3) by (auto simp: grown_def stacked_def fresh_list_def)
next
  case (2 k t)
  then obtain P where P: "length P = k" "fresh_list P s" "grown SEG (set P) {S} s t" "stacked SEG S P t"
    and st: "us_stackPTEAddress t = us_stackPTEAddress s" by blast
  have k: "k < 9" "[0..<8 + 1] ! k = k" using 2 by (simp_all del: upt_Suc)
  have ot: "page_maps_ok t" "used t = used s \<union> set P" using P(3) by (simp_all add: grown_def)
  define fl :: u32 where "fl = (if k > PROCESS_CG_STACK_PAGES - 1 then 7 else 3)"
  have fl: "fl < 8" "fl AND 1 = 1" by (simp_all add: fl_def)
  show ?case
    unfolding k(2) wp_and_then fl_def [symmetric]
  proof (rule wp_alloc [where SEG = SEG, OF ot(1)], goal_cases)
    case (1 f t1)
    have f: "f \<notin> used s" "f \<notin> set P" using 1(2) ot(2) by simp_all
    let ?e = "(of_nat f * PAGE_SIZE) AND 0xFFFFF000 OR fl :: u32"
    have fw: "frame_of ?e = f" using entry_frame [OF 1(1) fl(1)] .
    have e7: "?e AND 7 = fl" using make_entry(2) [OF 1(1) fl(1)] .
    have e1: "?e AND 1 = 1"
    proof -
      have "?e AND 1 = (?e AND 7) AND 1" by (simp add: and.assoc)
      then show ?thesis using e7 fl(2) by simp
    qed
    have "wp False (write_entry SEG (of_nat (S * 4096)) (of_nat (1023 - k)) ?e)
      (\<lambda>_ t. us_stackPTEAddress t = us_stackPTEAddress s \<and> (\<exists>P. length P = Suc k \<and> fresh_list P s \<and>
       grown SEG (set P) {S} s t \<and> stacked SEG S P t)) oom t1"
    proof (rule wp_write [where SEG = SEG, OF 1(3) s(2)], goal_cases)
      case (2 t2)
      have t2: "tbl SEG t2 = (tbl SEG t)(S := (tbl SEG t S)(1023 - k := ?e))" using 2(5) 1(7) by simp
      have "stacked SEG S (P @ [f]) t2"
        unfolding stacked_def
      proof (intro allI impI)
        fix j :: nat assume j: "j < 1024"
        have old: "if j + k < 1024 then tbl SEG t S j = 2 else tbl SEG t S j AND 1 = 1 \<and> frame_of (tbl SEG t S j) = P ! (1023 - j)"
          using P(1,4) j by (simp add: stacked_def)
        show "if j + length (P @ [f]) < 1024 then tbl SEG t2 S j = 2
           else tbl SEG t2 S j AND 1 = 1 \<and> frame_of (tbl SEG t2 S j) = (P @ [f]) ! (1023 - j)"
        proof (cases "j = 1023 - k")
          case True
          then have "tbl SEG t2 S j = ?e" "\<not> j + length (P @ [f]) < 1024" "(P @ [f]) ! (1023 - j) = f"
            using P(1) k(1) by (simp_all add: t2 nth_append)
          then show ?thesis using e1 fw by simp
        next
          case False
          then have "tbl SEG t2 S j = tbl SEG t S j" by (simp add: t2)
          then show ?thesis using old False j k(1) P(1) by (auto simp: nth_append split: if_splits)
        qed
      qed
      moreover have "grown SEG (set (P @ [f])) {S} s t2" using P(3) 1 2 f by (auto simp: grown_def t2)
      ultimately show ?case using fresh_snoc [OF P(2) 1(1) f] P(1) st 1 2 by (intro conjI exI [of _ "P @ [f]"]) simp_all
    qed simp
    then show ?case by (simp add: mult.commute)
  qed simp
qed simp


section \<open>The whole address space\<close>

text \<open>What \<open>AllocateAddressSpace\<close> sets up: the directory in frame \<open>d\<close>, the tables \<open>T\<close>, the stack table \<open>S\<close>, the pages
  \<open>P\<close> of the image and \<open>K\<close> of the stack.\<close>

definition space_at :: "u32 \<Rightarrow> nat \<Rightarrow> nat list \<Rightarrow> nat \<Rightarrow> nat list \<Rightarrow> nat list \<Rightarrow> uspace \<Rightarrow> bool" where
  "space_at SEG d T S P K t \<longleftrightarrow> length T = unat (us_noOfPagesForPTE t) \<and> length P = unat (us_noOfPagesForProcess t) \<and>
     length K = 9 \<and> us_stackPTEAddress t = of_nat S * 4096 \<and> tables_at SEG d (unat (ProcessPDEBase t)) T t \<and>
     mapped SEG (unat (ProcessPageBase t)) T P t \<and> stacked SEG S K t"

text \<open>The sizes that \<open>Load\<close> computes, within the directory.\<close>

definition sizes_ok :: "uspace \<Rightarrow> bool" where
  "sizes_ok s \<longleftrightarrow> 0 < us_noOfPagesForProcess s \<and> us_noOfPagesForProcess s \<le> 0x400000 \<and>
     us_noOfPagesForPTE s = GetPTESizeInPages (us_noOfPagesForProcess s + ProcessPageBase s) + of_nat PROCESS_SPACE_FOR_OS \<and>
     unat (us_noOfPagesForPTE s) + unat (ProcessPDEBase s) < 1024"

lemma sizes:
  assumes "sizes_ok s"
  shows "unat (us_noOfPagesForPTE s) = (unat (ProcessPageBase s) + unat (us_noOfPagesForProcess s) - 1) div 1024 + 33"
    "0 < unat (us_noOfPagesForProcess s)"
proof -
  let ?N = "unat (us_noOfPagesForProcess s)" and ?p = "unat (ProcessPageBase s)"
  have p: "?p < 1024" by (simp add: ProcessPageBase_def unat_mod_distrib)
  have N: "0 < ?N" "?N \<le> 0x400000"
    using assms by (simp_all add: sizes_ok_def word_le_nat_alt word_less_nat_alt)
  define x where "x = ?p + ?N - 1"
  have x: "x < 4294967296" using p N by (simp add: x_def)
  have "us_noOfPagesForProcess s + ProcessPageBase s - 1 = of_nat x"
    using N by (simp add: x_def of_nat_diff algebra_simps)
  then have "us_noOfPagesForPTE s = of_nat x div 1024 + 1 + 32"
    using assms by (simp add: sizes_ok_def GetPTESizeInPages_def)
  also have "of_nat x div 1024 = (of_nat (x div 1024) :: u32)"
    using x by (simp add: word_unat_eq_iff unat_div_distrib of_nat_unat_u32)
  also have "of_nat (x div 1024) + 1 + 32 = (of_nat (x div 1024 + 33) :: u32)"
    by simp
  finally have e: "us_noOfPagesForPTE s = of_nat (x div 1024 + 33)" .
  have "x div 1024 + 33 < 4294967296" using p N by (simp add: x_def)
  then show "unat (us_noOfPagesForPTE s) = (?p + ?N - 1) div 1024 + 33"
    unfolding e x_def [symmetric] by (rule of_nat_unat_u32)
  show "0 < ?N" by (rule N(1))
qed

lemma fresh_later: "fresh_list L t \<Longrightarrow> grown SEG F W s t \<Longrightarrow> fresh_list M s \<Longrightarrow> set M \<subseteq> F \<Longrightarrow> fresh_list (M @ L) s"
  by (auto simp: fresh_list_def grown_def)

lemma wp_space:
  assumes s: "page_maps_ok s" "sizes_ok s"
  shows "wp False (AllocateAddressSpace SEG)
    (\<lambda>pde t. \<exists>d T S P K. pde = of_nat d * 4096 \<and> fresh_list (d # S # T @ P @ K) s \<and>
       grown SEG (set (d # S # T @ P @ K)) (set (d # S # T)) s t \<and> space_at SEG d T S P K t) oom s"
  unfolding AllocateAddressSpace_def wp_and_then wp_then_do unfolding AllocatePDE_def
proof (rule wp_blank_table [OF s(1)], goal_cases)
  case (1 d t)
  let ?n = "unat (us_noOfPagesForPTE s)" and ?N = "unat (us_noOfPagesForProcess s)"
  let ?base = "unat (ProcessPDEBase s)" and ?p = "unat (ProcessPageBase s)"
  have k1: "kept t = kept s" "page_maps_ok t" "d \<in> used t" using 1(3) by (simp_all add: grown_def)
  have nb: "?n + ?base < 1024" "?n = (?p + ?N - 1) div 1024 + 33" "0 < ?N"
    using s(2) sizes [OF s(2)] by (simp_all add: sizes_ok_def)
  show ?case
  proof (rule wp_mono [OF wp_AllocatePTE [OF k1(2,3) 1(1), of ?base ?n SEG]], goal_cases)
    case 1
    show ?case using keptD(6) [OF k1(1)] by simp
  next
    case 2
    show ?case using keptD(3) [OF k1(1)] by simp
  next
    case 3
    show ?case by (rule nb(1))
  next
    case (4 _ t1)
    then obtain T S where T: "length T = ?n" "fresh_list (S # T) t" "us_stackPTEAddress t1 = of_nat S * 4096"
      "grown SEG (set (S # T)) (insert d (set (S # T))) t t1" "tables_at SEG d ?base T t1" "tbl SEG t1 S = blank" by blast
    have d: "d \<notin> set T" "d \<noteq> S" "S \<notin> set T" "distinct T" "\<forall>f \<in> set T. f < 1048576" "S < 1048576"
      using T(2) k1(3) by (auto simp: fresh_list_def)
    have fr1: "fresh_list (d # S # T) s"
      using fresh_later [OF T(2) 1(3), of "[d]"] 1(1,2) by (simp add: fresh_list_def)
    have g1: "grown SEG (set (d # S # T)) (set (d # S # T)) s t1" by (rule grown_join [OF 1(3) T(4)]) auto
    have ok1: "page_maps_ok t1" using T(4) by (simp add: grown_def)
    show ?case
    proof (rule wp_mono [OF wp_share [OF ok1 1(1) d(1) _ T(5) d(5)]], goal_cases)
      case 1
      show ?case using nb(2) T(1) by simp
    next
      case (2 _ t2)
      then have g2: "grown SEG {} (set T) t1 t2" and st2: "us_stackPTEAddress t2 = of_nat S * 4096"
        using T(3) by simp_all
      have g02: "grown SEG (set (d # S # T)) (set (d # S # T)) s t2" by (rule grown_join [OF g1 g2]) auto
      have k2: "kept t2 = kept s" "page_maps_ok t2" using g02 by (simp_all add: grown_def)
      have td2: "tables_at SEG d ?base T t2" using T(5) g2 d(1) by (simp add: tables_at_def grown_def)
      have b2: "tbl SEG t2 S = blank" using T(6) g2 d(3) by (simp add: grown_def)
      have pb: "?p = unat (ProcessPageBase t2)" "?base = unat (ProcessPDEBase t2)" "unat (us_noOfPagesForProcess t2) = ?N"
        using keptD [OF k2(1)] by simp_all
      show ?case
        unfolding InitializeProcessSpaceForProcess_def wp_and_then [where m = "gets id"] wp_gets wp_then_do id_apply st2 pb(3)
      proof (rule wp_mono [OF wp_image [OF k2(2) \<open>d < 1048576\<close> d(1,4) td2 d(5) pb(1,2)]], goal_cases)
        case 1
        show ?case using nb(1) T(1) by simp
      next
        case 2
        show ?case using nb(2) T(1) by simp
      next
        case (3 _ t3)
        then obtain P where P: "length P = ?N" "fresh_list P t2" "grown SEG (set P) (set T) t2 t3" "mapped SEG ?p T P t3"
          and st3: "us_stackPTEAddress t3 = of_nat S * 4096" using st2 by auto
        have g03: "grown SEG (set (d # S # T @ P)) (set (d # S # T)) s t3"
          by (rule grown_join [OF g02 P(3)]) auto
        have fr3: "fresh_list (d # S # T @ P) s" using fresh_later [OF P(2) g02 fr1] by simp
        have ok3: "page_maps_ok t3" using g03 by (simp add: grown_def)
        have b3: "\<forall>j < 1024. tbl SEG t3 S j = 2" using b2 P(3) d(3) by (simp add: grown_def blank_def)
        have td3: "tables_at SEG d ?base T t3" using td2 P(3) d(1) by (simp add: tables_at_def grown_def)
        show ?case
        proof (rule wp_mono [OF wp_stack [OF ok3 d(6) b3]], goal_cases)
          case (1 _ t4)
          then obtain K where K: "length K = 9" "fresh_list K t3" "grown SEG (set K) {S} t3 t4" "stacked SEG S K t4"
            and st4: "us_stackPTEAddress t4 = of_nat S * 4096" using st3 by auto
          have g04: "grown SEG (set (d # S # T @ P @ K)) (set (d # S # T)) s t4"
            by (rule grown_join [OF g03 K(3)]) auto
          have fr4: "fresh_list (d # S # T @ P @ K) s" using fresh_later [OF K(2) g03 fr3] by simp
          have k4: "kept t4 = kept s" using g04 by (simp add: grown_def)
          have q: "(?p + i) div 1024 + 32 < length T" if "i < ?N" for i
            using nb(2,3) T(1) that div_le_mono [of "?p + i" "?p + ?N - 1" 1024] by linarith
          have "T ! ((?p + i) div 1024 + 32) \<noteq> S" if "i < ?N" for i using nth_mem [OF q [OF that]] d(3) by metis
          then have "mapped SEG ?p T P t4" using P(1,4) K(3) by (simp add: mapped_def grown_def)
          moreover have "tables_at SEG d ?base T t4" using td3 K(3) d(2) by (simp add: tables_at_def grown_def)
          ultimately have "space_at SEG d T S P K t4"
            using keptD [OF k4] T(1) P(1) K(1,4) st4 by (simp add: space_at_def)
          then show ?case unfolding wp_yield using fr4 g04 by blast
        qed simp_all
      qed simp_all
    qed simp_all
  qed simp_all
qed


section \<open>Releasing\<close>

definition same :: "u32 \<Rightarrow> uspace \<Rightarrow> uspace \<Rightarrow> bool" where
  "same SEG s t \<longleftrightarrow> page_maps_ok t \<and> kept t = kept s \<and> us_stackPTEAddress t = us_stackPTEAddress s \<and> tbl SEG t = tbl SEG s"

text \<open>A loop that frees the frame \<open>g i\<close>, if any, in round \<open>i\<close>.\<close>

lemma wp_release:
  assumes s: "page_maps_ok s"
    and f: "\<And>i t Q. i < length xs \<Longrightarrow> same SEG s t \<Longrightarrow>
      (case g i of None \<Rightarrow> Q () t | Some n \<Rightarrow> wp False (dealloc_page (of_nat n)) Q X t) \<Longrightarrow> wp False (f (xs ! i)) Q X t"
    and g: "\<And>i n. i < length xs \<Longrightarrow> g i = Some n \<Longrightarrow> n \<in> used s"
      "\<And>i j n. i < length xs \<Longrightarrow> j < length xs \<Longrightarrow> g i = Some n \<Longrightarrow> g j = Some n \<Longrightarrow> i = j"
    and Q: "\<And>t. same SEG s t \<Longrightarrow> used t = used s - {n. \<exists>i < length xs. g i = Some n} \<Longrightarrow> Q () t"
  shows "wp False (steps f xs) Q X s"
proof (rule wp_steps [where I = "\<lambda>k t. same SEG s t \<and> used t = used s - {n. \<exists>i < k. g i = Some n}"], goal_cases)
  case 1
  then show ?case using s by (simp add: same_def)
next
  case (2 k t)
  then have t: "same SEG s t" "used t = used s - {n. \<exists>i < k. g i = Some n}" by simp_all
  show ?case
  proof (cases "g k")
    case None
    then have "{n. \<exists>i < Suc k. g i = Some n} = {n. \<exists>i < k. g i = Some n}" by (auto simp: less_Suc_eq)
    then show ?thesis using t None by (intro f [OF 2(1) t(1)]) simp
  next
    case (Some n)
    have "g i \<noteq> Some n" if "i < k" for i using g(2) [of i k n] Some 2(1) that by auto
    then have "n \<in> used t" using g(1) [OF 2(1) Some] t(2) by auto
    moreover have "{m. \<exists>i < Suc k. g i = Some m} = insert n {n. \<exists>i < k. g i = Some n}" using Some by (auto simp: less_Suc_eq)
    ultimately show ?thesis
      using t Some by (intro f [OF 2(1) t(1)]) (auto simp: same_def intro!: wp_dealloc [where SEG = SEG])
  qed
next
  case (3 t)
  then show ?case using Q by simp
qed

lemma release_list: "length L = n \<Longrightarrow> {m. \<exists>i < n. L ! i = m} = set L"
  by (auto simp: in_set_conv_nth)

lemma entry_page: "(e AND 0xFFFFF000) div PAGE_SIZE = (of_nat (frame_of e) :: u32)"
  using page_no [OF frame_of_less] by (simp only: entry_address of_nat_mult) simp

text \<open>Releasing the pages of a stack.\<close>

lemma wp_free_stack:
  assumes s: "page_maps_ok s" "S < 1048576" "stacked SEG S K s" "set K \<subseteq> used s" "distinct K" "length K \<le> 1024" "0 \<notin> set K"
    and Q: "\<And>t. same SEG s t \<Longrightarrow> used t = used s - set K \<Longrightarrow> Q () t"
  shows "wp False (DeAllocateStackSpace SEG (of_nat S * 4096)) Q X s"
  unfolding DeAllocateStackSpace_def
proof (rule wp_release [where SEG = SEG and g = "\<lambda>i. if i + length K < 1024 then None else Some (K ! (1023 - i))", OF s(1)], goal_cases)
  case (1 i t R)
  then have i: "i < 1024" "[0..<1024] ! i = i" by simp_all
  have e: "tbl SEG t S i = tbl SEG s S i" using 1(2) by (simp add: same_def)
  show ?case
  proof (cases "i + length K < 1024")
    case True
    then have "tbl SEG t S i = 2" using s(3) i(1) by (simp add: stacked_def e)
    then show ?thesis
      using 1(3) True unfolding i(2) wp_and_then wp_table_read [OF s(2) i(1)] Let_def by (simp add: wp_only_if)
  next
    case False
    then have f: "tbl SEG t S i AND 1 = 1" "frame_of (tbl SEG t S i) = K ! (1023 - i)" using s(3) i(1) by (simp_all add: stacked_def e)
    have n: "K ! (1023 - i) \<in> set K" using False i(1) by simp
    have "tbl SEG t S i AND 0xFFFFF000 \<noteq> 0"
    proof
      assume "tbl SEG t S i AND 0xFFFFF000 = 0"
      then have "frame_of (tbl SEG t S i) = frame_of (0 :: u32)"
        using entry_page [of "tbl SEG t S i"] of_nat_unat_u32 [of "frame_of (tbl SEG t S i)"] frame_of_less [of "tbl SEG t S i"]
        by (simp add: frame_of_def)
      then show False using f(2) n s(7) by (simp add: frame_of_def)
    qed
    then show ?thesis
      using 1(3) False f unfolding i(2) wp_and_then wp_table_read [OF s(2) i(1)] Let_def entry_page
      by (simp add: wp_only_if)
  qed
next
  case (2 i n)
  then show ?case using s(4) by (auto split: if_splits)
next
  case (3 i j n)
  then have "1023 - i = 1023 - j"
    using s(5) by (auto simp: nth_eq_iff_index_eq split: if_splits)
  then show ?case using 3 by simp
next
  case (4 t)
  have "{n. \<exists>i<1024. (if i + length K < 1024 then None else Some (K ! (1023 - i))) = Some n} = set K" (is "?L = _")
  proof
    show "?L \<subseteq> set K" by (auto split: if_splits)
    show "set K \<subseteq> ?L"
    proof
      fix n assume "n \<in> set K"
      then obtain j where "j < length K" "K ! j = n" by (auto simp: in_set_conv_nth)
      then show "n \<in> ?L" using s(6) by (intro CollectI exI [of _ "1023 - j"]) auto
    qed
  qed
  then show ?case using 4 by (intro Q) simp_all
qed


lemma wp_free_space:
  assumes s: "page_maps_ok s" "sizes_ok s" "space_at SEG d T S P K s" "us_pdbr s = of_nat d * 4096"
      "distinct (d # S # T @ P @ K)" "set (d # S # T @ P @ K) \<subseteq> used s" "0 \<notin> set K"
  shows "wp False (DeAllocateAddressSpace SEG) (\<lambda>_ t. used t = used s - set (d # S # T @ P @ K)) (\<lambda>_ _. False) s"
proof -
  let ?n = "unat (us_noOfPagesForPTE s)" and ?N = "unat (us_noOfPagesForProcess s)"
  let ?base = "unat (ProcessPDEBase s)" and ?p = "unat (ProcessPageBase s)"
  let ?q = "\<lambda>i. (?p + i) div 1024 + 32" and ?r = "\<lambda>i. (?p + i) mod 1024"
  have b: "f < 1048576" if "f \<in> set (d # S # T @ P @ K)" for f using used_bound [OF s(1)] s(6) that by blast
  have sp: "length T = ?n" "length P = ?N" "length K = 9" "us_stackPTEAddress s = of_nat S * 4096"
      "tables_at SEG d ?base T s" "mapped SEG ?p T P s" "stacked SEG S K s"
    using s(3) by (simp_all add: space_at_def)
  have nb: "?n + ?base < 1024" "?n = (?p + ?N - 1) div 1024 + 33" "0 < ?N"
    using s(2) sizes [OF s(2)] by (simp_all add: sizes_ok_def)
  have q: "?q i < length T" if "i < ?N" for i
    using nb sp(1) that div_le_mono [of "?p + i" "?p + ?N - 1" 1024] by linarith
  have ix: "image_pde s i = of_nat (table_of ?base (?q i))" "image_pte s i = of_nat (?r i)" "table_of ?base (?q i) < 1024" if "i < ?N" for i
    using image_index [OF refl refl, of s i] q [OF that] nb(1) sp(1) by simp_all
  have k: "us_pdbr t = of_nat d * 4096" "us_noOfPagesForPTE t = us_noOfPagesForPTE s" "us_stackPTEAddress t = of_nat S * 4096"
      "ProcessPDEBase t = ProcessPDEBase s" if "same SEG s t" for t
    using that keptD [of t s] s(4) sp(4) by (simp_all add: same_def)
  show ?thesis
    unfolding DeAllocateAddressSpace_def DeAllocateProcessSpace_def wp_then_do wp_and_then [where m = "gets id"] wp_gets id_apply s(4) sp(4)
  proof (rule wp_release [where SEG = SEG and g = "\<lambda>i. Some (P ! i)", OF s(1)], goal_cases)
    case (1 i t R)
    then have i: "i < ?N" "[0..<?N] ! i = i" by simp_all
    have e: "tbl SEG t = tbl SEG s" using 1(2) by (simp add: same_def)
    have tq: "frame_of (tbl SEG s d (table_of ?base (?q i))) = T ! ?q i" using sp(5) q [OF i(1)] by (simp add: tables_at_def)
    have a: "tbl SEG s d (table_of ?base (?q i)) AND 0xFFFFF000 = of_nat (T ! ?q i) * 4096"
      using tq by (simp only: entry_address of_nat_mult) simp
    have pq: "frame_of (tbl SEG s (T ! ?q i) (?r i)) = P ! i" using sp(2,6) i(1) by (simp add: mapped_def)
    have T1: "T ! ?q i < 1048576" using b q [OF i(1)] by simp
    show ?case
      using 1(3) unfolding i(2) ix [OF i(1)] wp_and_then
      by (simp only: wp_table_read [OF b [of d, OF list.set_intros(1)] ix(3) [OF i(1)]] e a
          wp_table_read [OF T1 mod_less_divisor [OF zero_less_numeral]] entry_page pq option.case)
  next
    case (4 t1)
    have u1: "used t1 = used s - set P" using 4(2) sp(2) by (simp add: release_list)
    have st1: "stacked SEG S K t1" using sp(7) 4(1) by (simp add: stacked_def same_def)
    have K1: "set K \<subseteq> used t1" using s(5,6) u1 by auto
    have ok1: "page_maps_ok t1" using 4(1) by (simp add: same_def)
    show ?case
    proof (rule wp_free_stack [OF ok1 _ st1 K1], goal_cases)
      case (5 t2)
      have s2: "same SEG s t2" using 4(1) 5(1) by (simp add: same_def)
      have u2: "used t2 = used s - set P - set K" using 5(2) u1 by simp
      have ok2: "page_maps_ok t2" using s2 by (simp add: same_def)
      have "set T \<subseteq> used t2" using s(5,6) u2 by auto
      then have Tm: "T ! i \<in> used t2" if "i < ?n" for i using nth_mem [of i T] sp(1) that by auto
      have Td: "distinct T" using s(5) by simp
      show ?case
        unfolding DeAllocatePTE_def wp_then_do wp_and_then [where m = "gets id"] wp_gets id_apply k [OF s2] pde_word
      proof (rule wp_release [where SEG = SEG and g = "\<lambda>i. Some (T ! i)", OF ok2], goal_cases)
        case (1 i t R)
        then have i: "i < ?n" "[0..<?n] ! i = i" by simp_all
        have e: "tbl SEG t = tbl SEG s" using 1(2) s2 by (simp add: same_def)
        have ti: "table_of ?base i < 1024" using i(1) nb(1) by (simp add: table_of_def)
        have tq: "frame_of (tbl SEG s d (table_of ?base i)) = T ! i" using sp(1,5) i(1) by (simp add: tables_at_def)
        show ?case
          using 1(3) unfolding i(2) wp_and_then
          by (simp only: wp_table_read [OF b [of d, OF list.set_intros(1)] ti] e entry_page tq option.case)
      next
        case (4 t3)
        have s3: "same SEG s t3" using s2 4(1) by (simp add: same_def)
        have u3: "used t3 = used s - set P - set K - set T" using 4(2) sp(1) u2 by (simp add: release_list)
        have ok3: "page_maps_ok t3" using s3 by (simp add: same_def)
        have S: "S \<in> used t3" "d \<in> used t3" "S \<noteq> d" using s(5,6) u3 by auto
        show ?case
          unfolding page_no [OF b [of S, OF list.set_intros(2) [OF list.set_intros(1)]]]
        proof (rule wp_dealloc [where SEG = SEG, OF ok3 S(1)], goal_cases)
          case (1 t4)
          have "us_pdbr t4 div PAGE_SIZE = of_nat d" using k(1) [OF s3] keptD(5) [OF 1(2)] page_no [OF b [of d]] by simp
          then show ?case
            unfolding wp_and_then wp_gets using 1 S u3
            by (auto intro!: wp_dealloc [where SEG = SEG])
        qed
      qed (use Tm Td sp(1) in \<open>auto simp: nth_eq_iff_index_eq\<close>)
    qed (use s(5,7) sp(3) b in auto)
  qed (use s(5,6) sp(2) in \<open>auto simp: nth_eq_iff_index_eq\<close>)
qed


lemma grown_pdbr: "same SEG t u \<Longrightarrow> tables_at SEG d b T u = tables_at SEG d b T t"
  by (simp add: same_def tables_at_def)

text \<open>C3: For the sizes that \<open>Load\<close> computes, \<open>AllocateAddressSpace\<close> returns, or throws \<open>OutOfMemoryPages\<close> with every
  page of the memory in use, what it took included. When it returns the directory at \<open>pde\<close>: it has taken exactly the frames for the image, the tables, the stack (nine pages and a
  table) and the directory, all of them free before and different; no table in a frame in use before has changed; every
  page of the image is reached through the directory in a frame of its own; and \<open>DeAllocateAddressSpace\<close> of the process
  with this directory gives back exactly these frames.\<close>

theorem address_space_is_given_back:
  assumes "page_maps_ok s" "sizes_ok s" "0 \<in> used s"
  shows "(\<exists>t. AllocateAddressSpace SEG s = Some (Inl OutOfMemoryPages, t) \<and> (\<forall>n. \<not> free_page t n)) \<or>
    (\<exists>pde t F. AllocateAddressSpace SEG s = Some (Inr pde, t) \<and> F \<inter> used s = {} \<and> used t = used s \<union> F \<and>
       card F = unat (us_noOfPagesForProcess s) + unat (us_noOfPagesForPTE s) + 11 \<and>
       (\<forall>f \<in> used s. tbl SEG t f = tbl SEG s f) \<and>
       (\<exists>P. distinct P \<and> set P \<subseteq> F \<and> length P = unat (us_noOfPagesForProcess s) \<and>
          (\<forall>i < length P. frame_of (tbl SEG t (frame_of (tbl SEG t (frame_of pde) (unat (image_pde s i)))) (unat (image_pte s i))) = P ! i)) \<and>
       (\<exists>u. DeAllocateAddressSpace SEG (t\<lparr>us_pdbr := pde\<rparr>) = Some (Inr (), u) \<and> used u = used s))"
proof -
  consider e t where "AllocateAddressSpace SEG s = Some (Inl e, t)" "e = OutOfMemoryPages" "\<forall>n. \<not> free_page t n"
    | pde t d T S P K where "AllocateAddressSpace SEG s = Some (Inr pde, t)" "pde = of_nat d * 4096"
      "fresh_list (d # S # T @ P @ K) s" "grown SEG (set (d # S # T @ P @ K)) (set (d # S # T)) s t" "space_at SEG d T S P K t"
    using wp_space [OF assms(1,2), of SEG] unfolding wp_outcome by blast
  then show ?thesis
  proof cases
    case (2 pde t d T S P K)
    let ?F = "set (d # S # T @ P @ K)" and ?t = "t\<lparr>us_pdbr := pde\<rparr>"
    let ?p = "unat (ProcessPageBase s)" and ?base = "unat (ProcessPDEBase s)" and ?N = "unat (us_noOfPagesForProcess s)"
    have kt: "kept t = kept s" "page_maps_ok t" "used t = used s \<union> ?F" using 2(4) by (simp_all add: grown_def)
    have dist: "distinct (d # S # T @ P @ K)" and Ff: "?F \<inter> used s = {}" "\<forall>f \<in> ?F. f < 1048576"
      using 2(3) by (simp_all add: fresh_list_def)
    have sp: "length T = unat (us_noOfPagesForPTE s)" "length P = ?N" "length K = 9"
        "tables_at SEG d ?base T t" "mapped SEG ?p T P t"
      using 2(5) keptD [OF kt(1)] by (simp_all add: space_at_def)
    have "card ?F = ?N + unat (us_noOfPagesForPTE s) + 11"
      unfolding distinct_card [OF dist] using sp by simp
    moreover have "\<forall>f \<in> used s. tbl SEG t f = tbl SEG s f" using 2(4) Ff(1) by (auto simp: grown_def)
    moreover have "frame_of (tbl SEG t (frame_of (tbl SEG t (frame_of pde) (unat (image_pde s i)))) (unat (image_pte s i))) = P ! i"
      if "i < ?N" for i
    proof -
      have nb: "unat (us_noOfPagesForPTE s) + ?base < 1024" "unat (us_noOfPagesForPTE s) = (?p + ?N - 1) div 1024 + 33"
        using assms(2) sizes [OF assms(2)] by (simp_all add: sizes_ok_def)
      have q: "(?p + i) div 1024 + 32 < length T"
        using nb sp(1) that div_le_mono [of "?p + i" "?p + ?N - 1" 1024] by linarith
      have ix: "unat (image_pde s i) = table_of ?base ((?p + i) div 1024 + 32)" "unat (image_pte s i) = (?p + i) mod 1024"
        using image_index [OF refl refl, of s i] q nb(1) sp(1) by (simp_all add: of_nat_unat_u32)
      have fd: "frame_of pde = d"
      proof -
        have "unat (of_nat (d * 4096) :: u32) = d * 4096" using Ff(2) by (intro of_nat_unat_u32) simp
        then show ?thesis using 2(2) by (simp add: frame_of_div)
      qed
      show ?thesis unfolding fd ix using sp(4,5) q that sp(2) by (simp add: tables_at_def mapped_def)
    qed
    moreover have "\<exists>u. DeAllocateAddressSpace SEG ?t = Some (Inr (), u) \<and> used u = used s"
    proof -
      have e: "used ?t = used t" "tbl SEG ?t = tbl SEG t" "page_maps_ok ?t" "us_pdbr ?t = of_nat d * 4096"
        using kt(2) 2(2) by (simp_all add: used_def tbl_def fun_eq_iff page_maps_ok_def)
      have b: "ProcessPageBase ?t = ProcessPageBase t" "ProcessPDEBase ?t = ProcessPDEBase t"
        "us_noOfPagesForPTE ?t = us_noOfPagesForPTE t" "us_noOfPagesForProcess ?t = us_noOfPagesForProcess t"
        by (simp_all add: ProcessPageBase_def ProcessPDEBase_def)
      have sz: "sizes_ok ?t" using assms(2) unfolding sizes_ok_def b keptD [OF kt(1)] .
      have "space_at SEG d T S P K ?t"
        using 2(5) unfolding space_at_def tables_at_def mapped_def stacked_def b e(2) by simp
      moreover have "?F \<subseteq> used ?t" using kt(3) e(1) by blast
      moreover have "0 \<notin> set K" using Ff(1) assms(3) by auto
      ultimately have "wp False (DeAllocateAddressSpace SEG) (\<lambda>_ u. used u = used ?t - ?F) (\<lambda>_ _. False) ?t"
        by (intro wp_free_space [OF e(3) sz _ e(4) dist])
      moreover have "used ?t - ?F = used s" using e(1) kt(3) Ff(1) by blast
      ultimately show ?thesis unfolding wp_returns by auto
    qed
    ultimately show ?thesis
      using 2(1) kt(3) Ff(1) dist sp(2) by (intro disjI2 exI [of _ pde] exI [of _ t] exI [of _ ?F]) auto
  qed blast
qed


definition sample_uspace :: uspace where
  "sample_uspace = \<lparr>m_uiPageMap = 0xFFFFFFFF # replicate 3 0, m_uiPageMapSize = 4, m_uiResvSize = 1,
     m_uiKernelPagePoolMap = [1], m_uiKernelPagePoolMapSize = 1, m_uiKernelPagePoolStartPage = 28672,
     m_iNoOfKernelProcessStackBlocks = 1, m_bAllocationMapForKernelProcessStackBlock = [True],
     phys = \<lambda>_. 0, m_uiNoOfPages = 128, m_uiPDEBase = 0x1420000, m_uiPTEBase = 0x1000000,
     m_uipKernelProcessStackPTEBase = 0, MEM_PDBR = 0x1420000,
     us_processBase = 0x8000000, us_noOfPagesForPTE = 33, us_noOfPagesForProcess = 5, us_noOfPagesForDLLPTE = 0,
     us_totalNoOfPagesForDLL = 0, us_startPDEForDLL = 0, us_stackPTEAddress = 0, us_pdbr = 0,
     us_loadedDLLs = [], us_dllInfoMap = \<lambda>_. None\<rparr>"

theorem address_space_is_given_back_witness:
  "(\<exists>t. AllocateAddressSpace 0 sample_uspace = Some (Inl OutOfMemoryPages, t) \<and> (\<forall>n. \<not> free_page t n)) \<or>
    (\<exists>pde t F. AllocateAddressSpace 0 sample_uspace = Some (Inr pde, t) \<and> F \<inter> used sample_uspace = {} \<and>
       used t = used sample_uspace \<union> F \<and>
       card F = unat (us_noOfPagesForProcess sample_uspace) + unat (us_noOfPagesForPTE sample_uspace) + 11 \<and>
       (\<forall>f \<in> used sample_uspace. tbl 0 t f = tbl 0 sample_uspace f) \<and>
       (\<exists>P. distinct P \<and> set P \<subseteq> F \<and> length P = unat (us_noOfPagesForProcess sample_uspace) \<and>
          (\<forall>i < length P. frame_of (tbl 0 t (frame_of (tbl 0 t (frame_of pde) (unat (image_pde sample_uspace i))))
             (unat (image_pte sample_uspace i))) = P ! i)) \<and>
       (\<exists>u. DeAllocateAddressSpace 0 (t\<lparr>us_pdbr := pde\<rparr>) = Some (Inr (), u) \<and> used u = used sample_uspace))"
proof (rule address_space_is_given_back)
  show "page_maps_ok sample_uspace" by (simp add: page_maps_ok_def sample_uspace_def)
  show "sizes_ok sample_uspace"
    by (simp add: sizes_ok_def sample_uspace_def GetPTESizeInPages_def ProcessPageBase_def ProcessPDEBase_def)
  show "0 \<in> used sample_uspace" by (simp add: used_def page_bit_def sample_uspace_def)
qed

end
