(* ===== verification/CycleRing.thy ===== *)
theory CycleRing
  imports Prelude
begin

text \<open>
  The protocol of cycle bits by which the driver of the xHCI controller and the hardware share rings in
  memory. A ring has \<open>N\<close> places; place \<open>i\<close> holds an element \<open>f i\<close> with the cycle bit \<open>b i\<close>. The producer
  is at place \<open>n\<close> with cycle state \<open>p\<close>, the consumer at place \<open>c\<close> with cycle state \<open>k\<close>; place \<open>N\<close> stands
  for a wrap that is still to be made. No index of the other side is read: the bits alone tell the
  consumer which places are filled.
\<close>

text \<open>The elements that the bits hand over to the consumer: from its place on as long as the bits agree with its
  state, and, when this reaches the end and the wrap is marked (\<open>w\<close>), from the start with the other state.\<close>

definition handed_over :: "nat \<Rightarrow> (nat \<Rightarrow> 'a) \<Rightarrow> (nat \<Rightarrow> bool) \<Rightarrow> bool \<Rightarrow> nat \<Rightarrow> bool \<Rightarrow> 'a list" where
  "handed_over N f b w c k =
     (let first = takeWhile (\<lambda>i. b i = k) [c..<N]
      in map f first @ (if length first = N - c \<and> w = k then map f (takeWhile (\<lambda>i. b i = (\<not> k)) [0..<N]) else []))"

text \<open>The relation of the two sides, with the list of the elements on the way.\<close>

definition ring_rep :: "nat \<Rightarrow> (nat \<Rightarrow> 'a) \<Rightarrow> (nat \<Rightarrow> bool) \<Rightarrow> bool \<Rightarrow> nat \<Rightarrow> bool \<Rightarrow> nat \<Rightarrow> bool \<Rightarrow> 'a list \<Rightarrow> bool" where
  "ring_rep N f b w n p c k q \<longleftrightarrow> n \<le> N \<and> c \<le> N \<and> (\<forall>i < N. b i = (if i < n then p else \<not> p)) \<and> w = (\<not> p) \<and>
     (if p = k then c \<le> n \<and> q = map f [c..<n] else n \<le> c \<and> q = map f [c..<N] @ map f [0..<n])"

lemma ring_length: "ring_rep N f b w n p c k q \<Longrightarrow> length q = (if p = k then n - c else N - c + n)"
  by (auto simp: ring_rep_def split: if_splits)

lemma ring_less: "ring_rep N f b w n p c k q \<Longrightarrow> length q \<le> N"
  by (auto simp: ring_rep_def split: if_splits)

lemma takeWhile_upt:
  assumes "a \<le> m" "m \<le> N" "\<And>i. a \<le> i \<Longrightarrow> i < m \<Longrightarrow> P i" "m < N \<Longrightarrow> \<not> P m"
  shows "takeWhile P [a..<N] = [a..<m]"
proof -
  have "takeWhile P [a..<N] = takeWhile P ([a..<m] @ [m..<N])"
    using assms(1,2) upt_add_eq_append [of a m "N - m"] by simp
  also have "\<dots> = [a..<m] @ takeWhile P [m..<N]" using assms(3) by (intro takeWhile_append2) auto
  also have "takeWhile P [m..<N] = []" using assms(4) by (cases "m < N") (simp_all add: upt_conv_Cons)
  finally show ?thesis by simp
qed

text \<open>What the consumer sees is exactly what is on the way.\<close>

lemma handed_over_is_queue:
  assumes "ring_rep N f b w n p c k q"
  shows "handed_over N f b w c k = q"
proof (cases "p = k")
  case True
  then have r: "c \<le> n" "n \<le> N" "q = map f [c..<n]" "\<And>i. i < N \<Longrightarrow> b i = (if i < n then k else \<not> k)" "w = (\<not> k)"
    using assms by (simp_all add: ring_rep_def)
  have "takeWhile (\<lambda>i. b i = k) [c..<N] = [c..<n]" using r by (intro takeWhile_upt) auto
  then show ?thesis using r by (simp add: handed_over_def)
next
  case False
  then have r: "n \<le> c" "c \<le> N" "q = map f [c..<N] @ map f [0..<n]" "\<And>i. i < N \<Longrightarrow> b i = (if i < n then p else \<not> p)"
    "w = k" "p = (\<not> k)"
    using assms by (auto simp: ring_rep_def)
  have first: "takeWhile (\<lambda>i. b i = k) [c..<N] = [c..<N]" using r by (intro takeWhile_upt) auto
  have second: "takeWhile (\<lambda>i. b i = (\<not> k)) [0..<N] = [0..<n]" using r by (intro takeWhile_upt) auto
  show ?thesis unfolding handed_over_def Let_def first second using r(3,5) by simp
qed

lemma ring_init: "(\<And>i. i < N \<Longrightarrow> b i = (\<not> p)) \<Longrightarrow> ring_rep N f b (\<not> p) 0 p 0 p []"
  by (simp add: ring_rep_def)

text \<open>The producer fills its place.\<close>

lemma ring_put:
  assumes "ring_rep N f b w n p c k q" "n < N" "length q < N"
  shows "ring_rep N (f(n := x)) (b(n := p)) w (Suc n) p c k (q @ [x])"
proof -
  have u: "map (f(n := x)) [a..<m] = map f [a..<m]" if "m \<le> n \<or> n < a" for a m
    using that by auto
  show ?thesis
  proof (cases "p = k")
    case True
    then show ?thesis using assms u [of n c] by (auto simp: ring_rep_def)
  next
    case False
    then have "n < c" using ring_length [OF assms(1)] assms by (auto simp: ring_rep_def)
    then show ?thesis using False assms u [of N c] u [of n 0] by (auto simp: ring_rep_def)
  qed
qed

text \<open>The producer wraps: the mark of the wrap takes its state, which is then toggled.\<close>

lemma ring_wrap_put:
  assumes "ring_rep N f b w N p c k q" "length q < N \<or> c < N"
  shows "ring_rep N f b p 0 (\<not> p) c k q"
proof (cases "p = k")
  case True
  then show ?thesis using assms(1) by (auto simp: ring_rep_def)
next
  case False
  then have "c = N" using assms(1) by (simp add: ring_rep_def)
  then show ?thesis using ring_length [OF assms(1)] assms(2) False by simp
qed

text \<open>The consumer takes an element; it sees one exactly when one is on the way.\<close>

lemma ring_get:
  assumes "ring_rep N f b w n p c k q" "c < N"
  shows "b c = k \<longleftrightarrow> q \<noteq> []" "q \<noteq> [] \<Longrightarrow> f c = hd q \<and> ring_rep N f b w n p (Suc c) k (tl q)"
proof -
  have "b c = (if c < n then p else \<not> p)" using assms by (simp add: ring_rep_def)
  moreover have "q \<noteq> [] \<longleftrightarrow> (p = k \<longrightarrow> c < n)"
    using assms by (cases "p = k") (auto simp: ring_rep_def)
  ultimately show "b c = k \<longleftrightarrow> q \<noteq> []" using assms by (cases "p = k") (simp_all add: ring_rep_def not_le)
  show "f c = hd q \<and> ring_rep N f b w n p (Suc c) k (tl q)" if "q \<noteq> []"
  proof (cases "p = k")
    case True
    then have "c < n" using assms(1) that by (auto simp: ring_rep_def)
    then show ?thesis using True assms by (auto simp: ring_rep_def upt_conv_Cons)
  next
    case False
    then show ?thesis using assms by (auto simp: ring_rep_def upt_conv_Cons)
  qed
qed

text \<open>The consumer follows the wrap; it sees the mark exactly when the producer has wrapped.\<close>

lemma ring_wrap_get:
  assumes "ring_rep N f b w n p N k q"
  shows "w = k \<longleftrightarrow> p \<noteq> k" "w = k \<Longrightarrow> ring_rep N f b w n p 0 (\<not> k) q" "w \<noteq> k \<Longrightarrow> q = []"
  using assms by (auto simp: ring_rep_def)

end
