(* ===== verification/XhciRing.thy ===== *)
theory XhciRing
  imports Effects CycleRing
begin

text \<open>
  The rings that the driver of the xHCI controller shares with the hardware: the transfer request blocks
  and the transfer ring of \<open>drivers/usb/xhci/TRB.h\<close> and \<open>TRB.cpp\<close>, the command ring and the event ring of
  \<open>XHCIController.h\<close> and \<open>XHCIController.cpp\<close>, and the results of events that wait to be picked up.

  A ring is a list of blocks at a kernel address; reading or writing a block outside the list is undefined. \<open>SEG\<close>
  is \<open>GLOBAL_DATA_SEGMENT_BASE\<close>, the difference of the real and the kernel address of a byte.
\<close>

unbundle bit_operations_syntax

definition Bit_IsSet :: "u32 \<Rightarrow> u32 \<Rightarrow> bool" where
  "Bit_IsSet dword bitPos = (dword AND bitPos \<noteq> 0)"

definition Bit_Set :: "u32 \<Rightarrow> u32 \<Rightarrow> bool \<Rightarrow> u32" where
  "Bit_Set dword bitPos enable = (if enable then dword OR bitPos else dword AND NOT bitPos)"

abbreviation (input) PAGE_SIZE :: u32 where "PAGE_SIZE \<equiv> 4096"

abbreviation (input) KERNEL_REAL_ADDRESS :: "u32 \<Rightarrow> u32 \<Rightarrow> u32" where
  "KERNEL_REAL_ADDRESS SEG a \<equiv> a + SEG"

abbreviation (input) KERNEL_VIRTUAL_ADDRESS :: "u32 \<Rightarrow> u32 \<Rightarrow> u32" where
  "KERNEL_VIRTUAL_ADDRESS SEG a \<equiv> a - SEG"

section \<open>Blocks\<close>

record trb =
  trb_b1 :: u32
  trb_b2 :: u32
  trb_b3 :: u32
  trb_b4 :: u32

definition TRB :: trb where
  "TRB = \<lparr>trb_b1 = 0, trb_b2 = 0, trb_b3 = 0, trb_b4 = 0\<rparr>"

definition TRB_setType :: "u32 \<Rightarrow> trb \<Rightarrow> trb" where
  "TRB_setType ty t = t\<lparr>trb_b4 := (trb_b4 t AND NOT (push_bit 10 0x3F)) OR push_bit 10 (ty AND 0x3F)\<rparr>"

definition TRB_Type :: "trb \<Rightarrow> u32" where
  "TRB_Type t = drop_bit 10 (trb_b4 t) AND 0x3F"

definition SetCycleBit :: "bool \<Rightarrow> trb \<Rightarrow> trb" where
  "SetCycleBit v t = t\<lparr>trb_b4 := Bit_Set (trb_b4 t) 0x1 v\<rparr>"

definition IsCycleBitSet :: "trb \<Rightarrow> bool" where
  "IsCycleBitSet t = Bit_IsSet (trb_b4 t) 0x1"

definition SetLinkAddr :: "u64 \<Rightarrow> trb \<Rightarrow> trb" where
  "SetLinkAddr la t = t\<lparr>trb_b1 := ucast (la AND 0xFFFFFFFF), trb_b2 := ucast (drop_bit 32 la)\<rparr>"

definition GetLinkAddr :: "trb \<Rightarrow> u64" where
  "GetLinkAddr t = push_bit 32 (ucast (trb_b2 t)) OR ucast (trb_b1 t)"

definition SetToggleBit :: "bool \<Rightarrow> trb \<Rightarrow> trb" where
  "SetToggleBit v t = t\<lparr>trb_b4 := Bit_Set (trb_b4 t) 0x2 v\<rparr>"

definition IsToggleBitSet :: "trb \<Rightarrow> bool" where
  "IsToggleBitSet t = Bit_IsSet (trb_b4 t) 0x2"

definition SetInterrupterTarget :: "u32 \<Rightarrow> trb \<Rightarrow> trb" where
  "SetInterrupterTarget itarget t =
     t\<lparr>trb_b3 := (trb_b3 t AND NOT (push_bit 22 0x3FF)) OR push_bit 22 (itarget AND 0x3FF)\<rparr>"

definition GetInterrupterTarget :: "trb \<Rightarrow> u32" where
  "GetInterrupterTarget t = drop_bit 22 (trb_b3 t) AND 0x3FF"

definition LinkTRB :: trb where
  "LinkTRB = TRB_setType 6 TRB"

text \<open>The commands; \<open>None\<close> is the exception for an input context that is not aligned to 16 bytes.\<close>

definition SetSlotID :: "u32 \<Rightarrow> trb \<Rightarrow> trb" where
  "SetSlotID slotID t = t\<lparr>trb_b4 := trb_b4 t OR push_bit 24 slotID\<rparr>"

definition EnableSlotTRB :: "u32 \<Rightarrow> trb" where
  "EnableSlotTRB slotType = (let t = TRB_setType 9 TRB in t\<lparr>trb_b4 := trb_b4 t OR push_bit 16 slotType\<rparr>)"

definition DisableSlotTRB :: "u32 \<Rightarrow> trb" where
  "DisableSlotTRB slotID = SetSlotID slotID (TRB_setType 10 TRB)"

definition AddressDeviceTRB :: "u32 \<Rightarrow> u32 \<Rightarrow> bool \<Rightarrow> trb option" where
  "AddressDeviceTRB inputContextPtr slotID blockSetAddressReq =
     (if inputContextPtr AND 0xF \<noteq> 0 then None
      else Some (SetSlotID slotID (TRB_setType 11
        (TRB\<lparr>trb_b1 := inputContextPtr, trb_b4 := 0 OR push_bit 9 (if blockSetAddressReq then 1 else 0)\<rparr>))))"

definition ConfigureEndPointTRB :: "u32 \<Rightarrow> u32 \<Rightarrow> trb option" where
  "ConfigureEndPointTRB inputContextPtr slotID =
     (if inputContextPtr AND 0xF \<noteq> 0 then None else Some (SetSlotID slotID (TRB_setType 12 (TRB\<lparr>trb_b1 := inputContextPtr\<rparr>))))"

definition EvaluateContextTRB :: "u32 \<Rightarrow> u32 \<Rightarrow> trb option" where
  "EvaluateContextTRB inputContextPtr slotID =
     (if inputContextPtr AND 0xF \<noteq> 0 then None else Some (SetSlotID slotID (TRB_setType 13 (TRB\<lparr>trb_b1 := inputContextPtr\<rparr>))))"

text \<open>Events.\<close>

definition TRBPointer :: "trb \<Rightarrow> u64" where
  "TRBPointer t = push_bit 32 (ucast (trb_b2 t)) OR ucast (trb_b1 t)"

definition CompletionCode :: "trb \<Rightarrow> u32" where
  "CompletionCode t = drop_bit 24 (trb_b3 t)"

definition IsCommandSuccess :: "trb \<Rightarrow> bool" where
  "IsCommandSuccess t \<longleftrightarrow> CompletionCode t = 1"

definition EventSlotID :: "trb \<Rightarrow> u32" where
  "EventSlotID t = drop_bit 24 (trb_b4 t)"

definition TransferLength :: "trb \<Rightarrow> u32" where
  "TransferLength t = trb_b3 t AND 0xFFFFFF"

datatype xhci_error =
  InvalidEventTRB u32
| CommandNotSuccessful u32
| TransferNotSuccessful u32
| NoEventResult u32
| NotInterruptResult u64

definition ValidateCommandResult :: "trb \<Rightarrow> xhci_error option" where
  "ValidateCommandResult t =
     (if TRB_Type t \<noteq> 33 then Some (InvalidEventTRB (TRB_Type t))
      else if \<not> IsCommandSuccess t then Some (CommandNotSuccessful (CompletionCode t)) else None)"

definition ValidateTransferResult :: "trb \<Rightarrow> xhci_error option" where
  "ValidateTransferResult t =
     (if TRB_Type t \<noteq> 32 then Some (InvalidEventTRB (TRB_Type t))
      else if \<not> IsCommandSuccess t then Some (TransferNotSuccessful (CompletionCode t)) else None)"

section \<open>The transfer ring\<close>

abbreviation (input) INTERRUPT_ON_COMPLETE :: u32 where "INTERRUPT_ON_COMPLETE \<equiv> 0x20"

record tring =
  tr_size :: u32
  tr_cycleState :: bool
  tr_nextTRBIndex :: u32
  tr_trbs :: "trb list"
  tr_freeSlots :: u32
  tr_dqIndex :: u32
  tr_base :: u32

type_synonym 'a tr_eff = "(tring, unit, 'a) eff"

definition change_trb :: "nat \<Rightarrow> (trb \<Rightarrow> trb) \<Rightarrow> unit tr_eff" where
  "change_trb i f = and_then (gets tr_trbs) (\<lambda>ts.
     if i < length ts then modify (\<lambda>r. r\<lparr>tr_trbs := ts[i := f (ts ! i)]\<rparr>) else undef)"

text \<open>The constructor, with the address \<open>base\<close> that the kernel heap gives for the blocks.\<close>

definition TransferRing :: "u32 \<Rightarrow> u32 \<Rightarrow> u32 \<Rightarrow> tring option" where
  "TransferRing SEG base siz = (if siz = 0 then None else
     let link = SetToggleBit True (SetLinkAddr (ucast (KERNEL_REAL_ADDRESS SEG base)) LinkTRB)
     in Some \<lparr>tr_size = siz, tr_cycleState = True, tr_nextTRBIndex = 0,
              tr_trbs = (replicate (unat siz) TRB)[unat (siz - 1) := link],
              tr_freeSlots = siz - 1, tr_dqIndex = 0, tr_base = base\<rparr>)"

definition NextTRB :: "nat tr_eff" where
  "NextTRB = and_then (gets id) (\<lambda>r.
     then_do
       (only_if (tr_nextTRBIndex r = tr_size r - 1)
         (then_do (change_trb (unat (tr_nextTRBIndex r)) (SetCycleBit (tr_cycleState r)))
           (modify (\<lambda>r. r\<lparr>tr_nextTRBIndex := 0, tr_cycleState := \<not> tr_cycleState r\<rparr>))))
       (then_do (modify (\<lambda>r. r\<lparr>tr_freeSlots := tr_freeSlots r - 1\<rparr>))
         (and_then (gets tr_nextTRBIndex) (\<lambda>n.
           then_do (modify (\<lambda>r. r\<lparr>tr_nextTRBIndex := n + 1\<rparr>)) (yield (unat n))))))"

text \<open>What every operation does with the block it gets: six stores, of its four words, its type and the cycle bit, in this order.
  \<open>plain_stores\<close> are the first four.\<close>

definition plain_stores :: "nat \<Rightarrow> u32 \<Rightarrow> u32 \<Rightarrow> u32 \<Rightarrow> u32 \<Rightarrow> unit tr_eff" where
  "plain_stores i b1 b2 b3 b4 =
     then_do (change_trb i (\<lambda>t. t\<lparr>trb_b1 := b1\<rparr>))
       (then_do (change_trb i (\<lambda>t. t\<lparr>trb_b2 := b2\<rparr>))
         (then_do (change_trb i (\<lambda>t. t\<lparr>trb_b3 := b3\<rparr>))
           (change_trb i (\<lambda>t. t\<lparr>trb_b4 := b4\<rparr>))))"

definition put_TRB :: "u32 \<Rightarrow> u32 \<Rightarrow> u32 \<Rightarrow> u32 \<Rightarrow> u32 \<Rightarrow> nat tr_eff" where
  "put_TRB b1 b2 b3 b4 ty = and_then NextTRB (\<lambda>i.
     then_do (plain_stores i b1 b2 b3 b4)
       (then_do (change_trb i (TRB_setType ty))
         (and_then (gets tr_cycleState) (\<lambda>cycleState.
           then_do (change_trb i (SetCycleBit cycleState)) (yield i)))))"

definition trb_address :: "tring \<Rightarrow> nat \<Rightarrow> u32" where
  "trb_address r i = tr_base r + 16 * of_nat i"

datatype TransferType = NO_DATA_STAGE | RESERVED_STAGE | OUT_DATA_STAGE | IN_DATA_STAGE

fun transfer_code :: "TransferType \<Rightarrow> u32" where
  "transfer_code NO_DATA_STAGE = 0"
| "transfer_code RESERVED_STAGE = 1"
| "transfer_code OUT_DATA_STAGE = 2"
| "transfer_code IN_DATA_STAGE = 3"

datatype DataDirection = DIR_OUT | DIR_IN

fun direction_code :: "DataDirection \<Rightarrow> u32" where
  "direction_code DIR_OUT = 0"
| "direction_code DIR_IN = 1"

definition AddSetupStageTRB :: "u32 \<Rightarrow> u32 \<Rightarrow> u32 \<Rightarrow> u32 \<Rightarrow> u32 \<Rightarrow> TransferType \<Rightarrow> unit tr_eff" where
  "AddSetupStageTRB bmRequestType bmRequest wValue wIndex wLength trt = then_do
     (put_TRB (push_bit 16 wValue OR push_bit 8 bmRequest OR bmRequestType) (push_bit 16 wLength OR wIndex) 8
        (push_bit 16 (transfer_code trt) OR push_bit 6 1) 2)
     (yield ())"

text \<open>The data stage. \<open>maxPacketSize\<close> is a 16 bit value of a descriptor; for 0 the division is undefined.\<close>

function DataStage_loop :: "u32 \<Rightarrow> int \<Rightarrow> int \<Rightarrow> u32 \<Rightarrow> DataDirection \<Rightarrow> nat \<Rightarrow> unit tr_eff" where
  "DataStage_loop dataBufferAddr transferLen remainingPackets trbType dir maxPacketSize =
     (if transferLen > 0 \<and> maxPacketSize > 0 then
        then_do
          (put_TRB dataBufferAddr 0
            (push_bit 17 (of_int remainingPackets) OR of_int (min transferLen (int maxPacketSize)))
            (push_bit 16 (direction_code dir) OR push_bit 4 (if remainingPackets \<noteq> 0 then 1 else 0)) trbType)
          (DataStage_loop (dataBufferAddr + of_nat maxPacketSize) (transferLen - int maxPacketSize) (remainingPackets - 1) 1
             DIR_OUT maxPacketSize)
      else yield ())"
  by pat_completeness auto
termination
  by (relation "measure (\<lambda>(_, transferLen, _). nat transferLen)") auto

declare DataStage_loop.simps [simp del]

definition AddDataStageTRB :: "u32 \<Rightarrow> u32 \<Rightarrow> u32 \<Rightarrow> DataDirection \<Rightarrow> nat \<Rightarrow> unit tr_eff" where
  "AddDataStageTRB SEG dataBufferAddr len dir maxPacketSize =
     (if maxPacketSize = 0 then undef else
        let mps = of_nat maxPacketSize; remainingPackets = sint ((len + (mps - 1)) div mps - 1)
        in DataStage_loop (KERNEL_REAL_ADDRESS SEG dataBufferAddr) (sint len)
             (if remainingPackets < 0 then 0 else remainingPackets) 3 dir maxPacketSize)"

definition AddStatusStageTRB :: "u32 \<Rightarrow> u32 tr_eff" where
  "AddStatusStageTRB dir = and_then (put_TRB 0 0 0 (push_bit 16 dir OR INTERRUPT_ON_COMPLETE) 4) (\<lambda>i.
     gets (\<lambda>r. trb_address r i))"

definition AddEventDataTRB :: "u32 \<Rightarrow> bool \<Rightarrow> unit tr_eff" where
  "AddEventDataTRB statusAddr ioc =
     then_do (put_TRB statusAddr 0 0 (if ioc then INTERRUPT_ON_COMPLETE else 0) 7) (yield ())"

lemma page_offset: "uint ((a :: u32) mod 4096) < 4096"
  by (simp add: uint_mod_distrib)

text \<open>A buffer in pieces that do not cross a page; the result is the address of the last block, 0 for none.\<close>

function DataTRB_loop :: "u32 \<Rightarrow> int \<Rightarrow> DataDirection \<Rightarrow> nat \<Rightarrow> u32 \<Rightarrow> u32 tr_eff" where
  "DataTRB_loop dataBufferAddr remainingBytes dir maxPacketSize lastTRB =
     (if remainingBytes > 0 then
        let rest = 4096 - uint (dataBufferAddr mod 4096);
            bytesToTransfer = (if remainingBytes < rest then remainingBytes else rest);
            remaining = remainingBytes - bytesToTransfer;
            remainingPackets = (remaining + (int maxPacketSize - 1)) div int maxPacketSize;
            ioc = remainingPackets \<le> 0
        in if maxPacketSize = 0 then undef
           else and_then (put_TRB dataBufferAddr 0 (push_bit 17 (of_int remainingPackets) OR of_int bytesToTransfer)
             (push_bit 16 (direction_code dir) OR push_bit 4 (if remainingPackets \<noteq> 0 then 1 else 0) OR
                (if ioc then INTERRUPT_ON_COMPLETE else 0)) 1) (\<lambda>i.
             and_then (gets (\<lambda>r. trb_address r i)) (\<lambda>a.
               DataTRB_loop (dataBufferAddr + of_int bytesToTransfer) remaining dir maxPacketSize (if ioc then a else lastTRB)))
      else yield lastTRB)"
  by pat_completeness auto
termination
  by (relation "measure (\<lambda>(_, remainingBytes, _). nat remainingBytes)") (use page_offset in \<open>auto split: if_splits\<close>)

declare DataTRB_loop.simps [simp del]

definition requiredSlots :: "u32 \<Rightarrow> u32 \<Rightarrow> u32" where
  "requiredSlots dataBufferAddr len =
     (let startAlign = dataBufferAddr mod PAGE_SIZE = 0; endAlign = (dataBufferAddr + len) mod PAGE_SIZE = 0
      in len div PAGE_SIZE +
         (if \<not> startAlign then
            (if \<not> endAlign \<and> dataBufferAddr div PAGE_SIZE \<noteq> (dataBufferAddr + len) div PAGE_SIZE then 2 else 1)
          else if \<not> endAlign then 1 else 0))"

definition AddDataTRB :: "u32 \<Rightarrow> u32 \<Rightarrow> u32 \<Rightarrow> DataDirection \<Rightarrow> nat \<Rightarrow> (string + u32) tr_eff" where
  "AddDataTRB SEG dataBufferAddr len dir maxPacketSize = (let addr = KERNEL_REAL_ADDRESS SEG dataBufferAddr in
     and_then (gets tr_freeSlots) (\<lambda>freeSlots.
       if requiredSlots addr len > freeSlots then yield (Inl ''Transfer Ring is Full!'')
       else and_then (DataTRB_loop addr (sint len) dir maxPacketSize 0) (\<lambda>lastTRB. yield (Inr lastTRB))))"

definition UpdateDeEnQPtr :: "u32 \<Rightarrow> unit tr_eff" where
  "UpdateDeEnQPtr dnqPtr = and_then (gets id) (\<lambda>r.
     let curdqIndex = (dnqPtr - tr_base r) div 16;
         freeSlots = (if curdqIndex < tr_dqIndex r then tr_size r - tr_dqIndex r + curdqIndex else curdqIndex - tr_dqIndex r + 1)
     in if tr_size r = 1 then undef
        else modify (\<lambda>r. r\<lparr>tr_freeSlots := tr_freeSlots r + freeSlots, tr_dqIndex := (curdqIndex + 1) mod (tr_size r - 1)\<rparr>))"

text \<open>\<open>ControlEndPoint::SetupTransfer\<close> of \<open>XHCIContext.cpp\<close>: the three stages of a control transfer, with \<open>dataBuffer\<close>
  translated twice to a real address; the result is the address of the status block.\<close>

definition Control_SetupTransfer :: "u32 \<Rightarrow> u32 \<Rightarrow> u32 \<Rightarrow> u32 \<Rightarrow> u32 \<Rightarrow> u32 \<Rightarrow> TransferType \<Rightarrow> u32 \<Rightarrow> nat \<Rightarrow> u32 tr_eff" where
  "Control_SetupTransfer SEG bmRequestType bmRequest wValue wIndex wLength trt dataBuffer maxPacketSize =
     then_do (AddSetupStageTRB bmRequestType bmRequest wValue wIndex wLength trt)
       (then_do
         (only_if (trt \<noteq> NO_DATA_STAGE)
           (AddDataStageTRB SEG (KERNEL_REAL_ADDRESS SEG dataBuffer) wLength (if trt = IN_DATA_STAGE then DIR_IN else DIR_OUT) maxPacketSize))
         (AddStatusStageTRB (direction_code (if wLength > 0 \<and> trt = IN_DATA_STAGE then DIR_OUT else DIR_IN))))"

section \<open>The command ring\<close>

record cmd_ring =
  cr_cmd :: trb
  cr_link :: trb
  cr_pcs :: bool

definition CommandManager :: "u64 \<Rightarrow> cmd_ring" where
  "CommandManager ringAddr =
     \<lparr>cr_cmd = TRB, cr_link = SetToggleBit True (SetLinkAddr ringAddr LinkTRB), cr_pcs = True\<rparr>"

definition Apply :: "cmd_ring \<Rightarrow> cmd_ring" where
  "Apply r = r\<lparr>cr_cmd := SetCycleBit (cr_pcs r) (cr_cmd r), cr_link := SetCycleBit (cr_pcs r) (cr_link r), cr_pcs := \<not> cr_pcs r\<rparr>"

definition Command_EnableSlot :: "u32 \<Rightarrow> cmd_ring \<Rightarrow> cmd_ring" where
  "Command_EnableSlot slotType r = Apply (r\<lparr>cr_cmd := EnableSlotTRB slotType\<rparr>)"

definition Command_DisableSlot :: "u32 \<Rightarrow> cmd_ring \<Rightarrow> cmd_ring" where
  "Command_DisableSlot slotID r = Apply (r\<lparr>cr_cmd := DisableSlotTRB slotID\<rparr>)"

definition Command_AddressDevice :: "u32 \<Rightarrow> u32 \<Rightarrow> bool \<Rightarrow> cmd_ring \<Rightarrow> cmd_ring option" where
  "Command_AddressDevice icptr slotID blockSetAddressReq r =
     map_option (\<lambda>t. Apply (r\<lparr>cr_cmd := t\<rparr>)) (AddressDeviceTRB icptr slotID blockSetAddressReq)"

definition Command_ConfigureEndPoint :: "u32 \<Rightarrow> u32 \<Rightarrow> cmd_ring \<Rightarrow> cmd_ring option" where
  "Command_ConfigureEndPoint icptr slotID r = map_option (\<lambda>t. Apply (r\<lparr>cr_cmd := t\<rparr>)) (ConfigureEndPointTRB icptr slotID)"

definition Command_EvaluateContext :: "u32 \<Rightarrow> u32 \<Rightarrow> cmd_ring \<Rightarrow> cmd_ring option" where
  "Command_EvaluateContext icptr slotID r = map_option (\<lambda>t. Apply (r\<lparr>cr_cmd := t\<rparr>)) (EvaluateContextTRB icptr slotID)"

section \<open>The event ring and the results of events\<close>

text \<open>The one segment of \<open>ERST_SIZE\<close> events at the real address \<open>xc_ersAddr\<close>, the pointer \<open>_erdqPtr\<close> of the interrupter and
  the cycle state; \<open>_eventResults\<close>, the processes whose event has completed, and the transfer rings of the interrupt end points
  of the contexts, by a number for the context. \<open>xc_handled\<close> are the calls of the interrupt data handlers.\<close>

abbreviation (input) ERST_SIZE :: nat where "ERST_SIZE \<equiv> 256"

datatype event_result =
  WaitedEventResult int trb
| InterruptEventResult nat int u32 trb

record xctl =
  xc_events :: "trb list"
  xc_ersAddr :: u64
  xc_erdqPtr :: u64
  xc_eventCycleBit :: bool
  xc_results :: "u32 \<rightharpoonup> event_result"
  xc_completed :: "int list"
  xc_rings :: "nat \<rightharpoonup> tring"
  xc_handled :: "(nat \<times> u32) list"

type_synonym 'a xc_eff = "(xctl, xhci_error, 'a) eff"

definition setDQPtr :: "u64 \<Rightarrow> xctl \<Rightarrow> xctl" where
  "setDQPtr addr s = s\<lparr>xc_erdqPtr := (addr AND NOT 0xF) OR push_bit 3 1\<rparr>"

definition DQPtr :: "u32 \<Rightarrow> xctl \<Rightarrow> u32" where
  "DQPtr SEG s = KERNEL_VIRTUAL_ADDRESS SEG (ucast (xc_erdqPtr s)) AND NOT 0xF"

definition ERSegment :: "u32 \<Rightarrow> xctl \<Rightarrow> u32" where
  "ERSegment SEG s = KERNEL_VIRTUAL_ADDRESS SEG (ucast (xc_ersAddr s))"

definition IsLastDQPtr :: "u32 \<Rightarrow> xctl \<Rightarrow> bool" where
  "IsLastDQPtr SEG s \<longleftrightarrow> DQPtr SEG s = ERSegment SEG s + 16 * of_nat (ERST_SIZE - 1)"

definition IncrementDQPtr :: "u32 \<Rightarrow> unit xc_eff" where
  "IncrementDQPtr SEG = modify (\<lambda>s.
     if IsLastDQPtr SEG s then setDQPtr (xc_ersAddr s) s else setDQPtr (xc_erdqPtr s + 16) s)"

text \<open>The event at the pointer, read from the segment.\<close>

definition DQEvent :: "u32 \<Rightarrow> trb xc_eff" where
  "DQEvent SEG = and_then (gets id) (\<lambda>s.
     let i = unat ((DQPtr SEG s - ERSegment SEG s) div 16)
     in if i < length (xc_events s) then yield (xc_events s ! i) else undef)"

definition ConsumeEventResult :: "u32 \<Rightarrow> event_result xc_eff" where
  "ConsumeEventResult trbId = and_then (gets xc_results) (\<lambda>results.
     case results trbId of
       None \<Rightarrow> throw (NoEventResult trbId)
     | Some r \<Rightarrow> then_do (modify (\<lambda>s. s\<lparr>xc_results := results(trbId := None)\<rparr>)) (yield r))"

definition RegisterForWaitedEventResult :: "u32 \<Rightarrow> int \<Rightarrow> unit xc_eff" where
  "RegisterForWaitedEventResult trbId pid = modify (\<lambda>s. s\<lparr>xc_results := (xc_results s)(trbId \<mapsto> WaitedEventResult pid TRB)\<rparr>)"

definition InitiateInterruptTransfer :: "nat \<Rightarrow> u32 \<Rightarrow> int \<Rightarrow> u32 \<Rightarrow> unit xc_eff" where
  "InitiateInterruptTransfer context trbId pid interruptDataAddress =
     modify (\<lambda>s. s\<lparr>xc_results := (xc_results s)(trbId \<mapsto> InterruptEventResult context pid interruptDataAddress TRB)\<rparr>)"

definition OnInterrupt :: "nat \<Rightarrow> trb \<Rightarrow> u32 \<Rightarrow> unit xc_eff" where
  "OnInterrupt context r interruptDataAddress = and_then (gets xc_rings) (\<lambda>rings.
     case rings context of
       None \<Rightarrow> undef
     | Some ring \<Rightarrow> (case UpdateDeEnQPtr (ucast (TRBPointer r)) ring of
         Some (Inr _, ring') \<Rightarrow> modify (\<lambda>s. s\<lparr>xc_rings := rings(context \<mapsto> ring'),
           xc_handled := xc_handled s @ [(context, interruptDataAddress)]\<rparr>)
       | _ \<Rightarrow> undef))"

text \<open>\<open>Consume\<close> of the two kinds; the exceptions of the second are caught there.\<close>

fun Consume :: "u32 \<Rightarrow> trb \<Rightarrow> event_result \<Rightarrow> unit xc_eff" where
  "Consume trbId r (WaitedEventResult pid _) =
     modify (\<lambda>s. s\<lparr>xc_results := (xc_results s)(trbId \<mapsto> WaitedEventResult pid r), xc_completed := xc_completed s @ [pid]\<rparr>)"
| "Consume trbId r (InterruptEventResult context pid dataAddress _) =
     then_do (modify (\<lambda>s. s\<lparr>xc_results := (xc_results s)(trbId \<mapsto> InterruptEventResult context pid dataAddress r)\<rparr>))
       (catch
         (case ValidateTransferResult r of
            Some e \<Rightarrow> throw e
          | None \<Rightarrow> and_then (ConsumeEventResult (ucast (TRBPointer r))) (\<lambda>eventResult. case eventResult of
              WaitedEventResult _ _ \<Rightarrow> throw (NotInterruptResult (TRBPointer r))
            | InterruptEventResult _ _ address _ \<Rightarrow> OnInterrupt context r address))
         (\<lambda>e. yield ()))"

definition PublishEventResult :: "trb \<Rightarrow> unit xc_eff" where
  "PublishEventResult result = and_then (gets xc_results) (\<lambda>results.
     case results (ucast (TRBPointer result)) of
       None \<Rightarrow> yield ()
     | Some er \<Rightarrow> Consume (ucast (TRBPointer result)) result er)"

fun NotifyEvents_loop :: "u32 \<Rightarrow> nat \<Rightarrow> unit xc_eff" where
  "NotifyEvents_loop SEG 0 = yield ()"
| "NotifyEvents_loop SEG (Suc n) = and_then (DQEvent SEG) (\<lambda>event. and_then (gets xc_eventCycleBit) (\<lambda>cycle.
     only_if (IsCycleBitSet event = cycle)
       (then_do (modify (\<lambda>s. if IsLastDQPtr SEG s then s\<lparr>xc_eventCycleBit := \<not> xc_eventCycleBit s\<rparr> else s))
         (then_do (PublishEventResult event)
           (then_do (IncrementDQPtr SEG) (NotifyEvents_loop SEG n))))))"

definition NotifyEvents :: "u32 \<Rightarrow> unit xc_eff" where
  "NotifyEvents SEG = NotifyEvents_loop SEG ERST_SIZE"

text \<open>Waiting by polling: \<open>hw\<close> is what the hardware does to the memory while the process sleeps. An event of another block is
  taken off the ring and dropped.\<close>

fun PollEvent_loop :: "u32 \<Rightarrow> (xctl \<Rightarrow> xctl) \<Rightarrow> u32 \<Rightarrow> nat \<Rightarrow> trb option xc_eff" where
  "PollEvent_loop SEG hw trbId 0 = yield None"
| "PollEvent_loop SEG hw trbId (Suc n) = and_then (DQEvent SEG) (\<lambda>event. and_then (gets xc_eventCycleBit) (\<lambda>cycle.
     if IsCycleBitSet event = cycle then
       then_do (modify (\<lambda>s. if IsLastDQPtr SEG s then s\<lparr>xc_eventCycleBit := \<not> xc_eventCycleBit s\<rparr> else s))
         (then_do (IncrementDQPtr SEG)
           (if TRBPointer event = ucast trbId then yield (Some event)
            else then_do (modify hw) (PollEvent_loop SEG hw trbId n)))
     else then_do (modify hw) (PollEvent_loop SEG hw trbId n)))"

definition WaitForEvent :: "u32 \<Rightarrow> (xctl \<Rightarrow> xctl) \<Rightarrow> u32 \<Rightarrow> trb option xc_eff" where
  "WaitForEvent SEG hw trbId = PollEvent_loop SEG hw trbId 199"

end
