(* ===== verification/XhciProofs.thy ===== *)
theory XhciProofs
  imports XhciRing
begin

text \<open>
  What the controller finds on a transfer ring, and what the driver finds on the event ring: the queue of \<open>CycleRing\<close>,
  whose places are the blocks before the link.
\<close>

section \<open>Bits of blocks\<close>

text \<open>A block without its cycle bit.\<close>

definition body :: "trb \<Rightarrow> trb" where
  "body = SetCycleBit False"

lemma cycle_bit: "IsCycleBitSet t = bit (trb_b4 t) 0"
  by (simp add: IsCycleBitSet_def Bit_IsSet_def and_one_eq bit_0 odd_iff_mod_2_eq_one)

lemma cycle_simps [simp]:
  "IsCycleBitSet (SetCycleBit v t) = v" "body (SetCycleBit v t) = body t" "body (body t) = body t"
proof -
  show "IsCycleBitSet (SetCycleBit v t) = v"
    unfolding cycle_bit by (simp add: SetCycleBit_def Bit_Set_def bit_or_iff bit_and_iff bit_not_iff bit_1_iff del: bit_0)
  have b: "body (SetCycleBit v t) = body t" for v
  proof -
    have "(x OR 1) AND NOT 1 = x AND NOT 1" "x AND NOT 1 AND NOT 1 = x AND NOT 1" for x :: u32
      by (intro bit_eqI; auto simp: bit_and_iff bit_or_iff bit_not_iff bit_1_iff)+
    then show ?thesis by (cases v) (simp_all add: body_def SetCycleBit_def Bit_Set_def)
  qed
  show "body (SetCycleBit v t) = body t" by (rule b)
  show "body (body t) = body t" using b [of False] by (simp add: body_def)
qed

lemma body_fields [simp]: "trb_b1 (body t) = trb_b1 t" "trb_b2 (body t) = trb_b2 t" "trb_b3 (body t) = trb_b3 t"
  by (simp_all add: body_def SetCycleBit_def)

lemma body_bit: "0 < n \<Longrightarrow> bit (trb_b4 (body t)) n = bit (trb_b4 t) n"
  by (simp add: body_def SetCycleBit_def Bit_Set_def bit_and_iff bit_not_iff bit_1_iff possible_bit_def) (auto dest: bit_imp_possible_bit simp: possible_bit_def)

section \<open>The transfer ring as a queue\<close>

text \<open>The blocks that the memory of the ring hands over to a controller at place \<open>c\<close> with cycle state \<open>k\<close>.\<close>

definition transfers :: "tring \<Rightarrow> nat \<Rightarrow> bool \<Rightarrow> trb list" where
  "transfers r c k = (let ts = tr_trbs r; N = length ts - 1
     in handed_over N (\<lambda>i. body (ts ! i)) (\<lambda>i. IsCycleBitSet (ts ! i)) (IsCycleBitSet (ts ! N)) c k)"

definition ring_link :: "u32 \<Rightarrow> u32 \<Rightarrow> trb" where
  "ring_link SEG base = body (SetToggleBit True (SetLinkAddr (ucast (KERNEL_REAL_ADDRESS SEG base)) LinkTRB))"

text \<open>\<open>q\<close> is on the way to the controller at \<open>c\<close>, \<open>u\<close> blocks that it has fetched are not free again.\<close>

definition tring_ok :: "u32 \<Rightarrow> tring \<Rightarrow> nat \<Rightarrow> bool \<Rightarrow> nat \<Rightarrow> trb list \<Rightarrow> bool" where
  "tring_ok SEG r c k u q \<longleftrightarrow> (let ts = tr_trbs r; N = length ts - 1
     in unat (tr_size r) = length ts \<and> 2 \<le> length ts \<and> length ts \<le> 65536 \<and> body (ts ! N) = ring_link SEG (tr_base r) \<and>
        ring_rep N (\<lambda>i. body (ts ! i)) (\<lambda>i. IsCycleBitSet (ts ! i)) (IsCycleBitSet (ts ! N))
          (unat (tr_nextTRBIndex r)) (tr_cycleState r) c k q \<and>
        u + length q + unat (tr_freeSlots r) = N \<and> unat (tr_dqIndex r) < N \<and> (unat (tr_dqIndex r) + u) mod N = c mod N)"

lemma tring_ok_transfers: "tring_ok SEG r c k u q \<Longrightarrow> transfers r c k = q"
  by (auto simp: tring_ok_def transfers_def Let_def dest: handed_over_is_queue)

lemma ring_cong:
  "ring_rep N f b w n p c k q \<Longrightarrow> w' = w \<Longrightarrow> (\<And>i. i < N \<Longrightarrow> f' i = f i) \<Longrightarrow> (\<And>i. i < N \<Longrightarrow> b' i = b i) \<Longrightarrow> ring_rep N f' b' w' n p c k q"
  by (auto simp: ring_rep_def split: if_splits)

lemma wp_change_trb:
  "i < length (tr_trbs r) \<Longrightarrow> wp u (change_trb i f) Q X r = Q () (r\<lparr>tr_trbs := (tr_trbs r)[i := f (tr_trbs r ! i)]\<rparr>)"
  by (simp add: change_trb_def wp_and_then wp_gets wp_modify)

lemma size_less: "unat (tr_size r) = length (tr_trbs r) \<Longrightarrow> 2 \<le> length (tr_trbs r) \<Longrightarrow> unat (tr_size r - 1) = length (tr_trbs r) - 1"
  by (subst unat_sub) (simp_all add: word_le_nat_alt)

text \<open>A block that fits is appended to the queue.\<close>

lemma wp_NextTRB:
  assumes ok: "tring_ok SEG r c k u q" and free: "0 < unat (tr_freeSlots r)"
    and Q: "\<And>r' n x. tr_base r' = tr_base r \<Longrightarrow> unat (tr_freeSlots r') = unat (tr_freeSlots r) - 1 \<Longrightarrow> n < length (tr_trbs r') - 1 \<Longrightarrow>
      (\<And>x. tring_ok SEG (r'\<lparr>tr_trbs := (tr_trbs r')[n := SetCycleBit (tr_cycleState r') x]\<rparr>) c k u (q @ [body x])) \<Longrightarrow> Q n r'"
  shows "wp False NextTRB Q X r"
proof -
  define ts where "ts = tr_trbs r"
  define N where "N = length ts - 1"
  let ?f = "\<lambda>ts i. body (ts ! i)" and ?b = "\<lambda>ts i. IsCycleBitSet (ts ! i)"
  have o: "unat (tr_size r) = length ts" "2 \<le> length ts" "length ts \<le> 65536" "body (ts ! N) = ring_link SEG (tr_base r)"
    "ring_rep N (?f ts) (?b ts) (?b ts N) (unat (tr_nextTRBIndex r)) (tr_cycleState r) c k q"
    "u + length q + unat (tr_freeSlots r) = N" "unat (tr_dqIndex r) < N" "(unat (tr_dqIndex r) + u) mod N = c mod N"
    using ok by (simp_all add: tring_ok_def Let_def ts_def N_def)
  have N: "0 < N" "N < length ts" "length ts = Suc N" using o(2) by (simp_all add: N_def)
  have q: "length q < N" using o(6) free by simp
  have last: "unat (tr_size r - 1) = N" using size_less [of r] o(1,2) by (simp add: ts_def N_def)
  have nN: "unat (tr_nextTRBIndex r) \<le> N" using o(5) by (simp add: ring_rep_def)
  have fr: "unat (tr_freeSlots r - 1) = unat (tr_freeSlots r) - 1"
    using free by (subst unat_sub) (simp_all add: word_le_nat_alt)
  have step: "tring_ok SEG (r0\<lparr>tr_freeSlots := tr_freeSlots r - 1, tr_nextTRBIndex := n + 1,
        tr_trbs := (tr_trbs r0)[unat n := SetCycleBit (tr_cycleState r0) x]\<rparr>) c k u (q @ [body x])"
    if r0: "tr_size r0 = tr_size r" "tr_base r0 = tr_base r" "length (tr_trbs r0) = Suc N" "body (tr_trbs r0 ! N) = ring_link SEG (tr_base r)"
      "tr_dqIndex r0 = tr_dqIndex r"
      and n: "unat n < N" and rr: "ring_rep N (?f (tr_trbs r0)) (?b (tr_trbs r0)) (?b (tr_trbs r0) N) (unat n) (tr_cycleState r0) c k q"
    for r0 n x
  proof -
    let ?ts = "(tr_trbs r0)[unat n := SetCycleBit (tr_cycleState r0) x]"
    have "ring_rep N ((?f (tr_trbs r0))(unat n := body x)) ((?b (tr_trbs r0))(unat n := tr_cycleState r0)) (?b (tr_trbs r0) N)
        (Suc (unat n)) (tr_cycleState r0) c k (q @ [body x])"
      by (rule ring_put [OF rr n q])
    then have "ring_rep N (?f ?ts) (?b ?ts) (?b ?ts N) (Suc (unat n)) (tr_cycleState r0) c k (q @ [body x])"
      using n r0(3) by (elim ring_cong) (auto simp: nth_list_update)
    moreover have "unat (n + 1) = Suc (unat n)"
      using n u32_unat_bound [of "tr_size r"] o(1) N by (simp add: unat_add_no_wrap)
    ultimately show ?thesis
      using r0 o n q free fr N(3) by (simp add: tring_ok_def Let_def ts_def [symmetric] N_def [symmetric] nth_list_update)
  qed
  show ?thesis
  proof (cases "tr_nextTRBIndex r = tr_size r - 1")
    case False
    then have "unat (tr_nextTRBIndex r) < N" using nN last by (metis le_neq_implies_less word_unat_eq_iff)
    then have "\<And>x. tring_ok SEG (r\<lparr>tr_freeSlots := tr_freeSlots r - 1, tr_nextTRBIndex := tr_nextTRBIndex r + 1,
        tr_trbs := (tr_trbs r)[unat (tr_nextTRBIndex r) := SetCycleBit (tr_cycleState r) x]\<rparr>) c k u (q @ [body x])"
      using o N by (intro step) (simp_all add: ts_def [symmetric])
    then show ?thesis
      unfolding NextTRB_def wp_and_then wp_then_do wp_gets wp_only_if wp_modify wp_yield id_apply if_not_P [OF False]
      using fr \<open>unat (tr_nextTRBIndex r) < N\<close> N by (intro Q) (simp_all add: ts_def [symmetric])
  next
    case True
    then have n: "unat (tr_nextTRBIndex r) = N" using last by simp
    define r0 where "r0 = r\<lparr>tr_trbs := ts[N := SetCycleBit (tr_cycleState r) (ts ! N)], tr_nextTRBIndex := 0, tr_cycleState := \<not> tr_cycleState r\<rparr>"
    have cs0: "tr_cycleState r0 = (\<not> tr_cycleState r)" by (simp add: r0_def)
    have "ring_rep N (?f ts) (?b ts) (tr_cycleState r) 0 (\<not> tr_cycleState r) c k q"
      using o(5) q unfolding n by (intro ring_wrap_put) auto
    then have "ring_rep N (?f (tr_trbs r0)) (?b (tr_trbs r0)) (?b (tr_trbs r0) N) (unat (0 :: u32)) (tr_cycleState r0) c k q"
      using N unfolding cs0 unat_0 by (elim ring_cong) (auto simp: r0_def nth_list_update)
    then have "\<And>x. tring_ok SEG (r0\<lparr>tr_freeSlots := tr_freeSlots r - 1, tr_nextTRBIndex := 0 + 1,
        tr_trbs := (tr_trbs r0)[unat (0 :: u32) := SetCycleBit (tr_cycleState r0) x]\<rparr>) c k u (q @ [body x])"
      using o N by (intro step) (simp_all add: r0_def)
    then show ?thesis
      unfolding NextTRB_def wp_and_then wp_then_do wp_gets wp_only_if wp_modify wp_yield id_apply if_P [OF True]
      using fr N n by (simp add: wp_change_trb ts_def [symmetric]) (intro Q; simp add: r0_def ts_def [symmetric])
  qed
qed


lemma wp_plain_stores:
  assumes "i < length (tr_trbs r)"
  shows "wp u (plain_stores i b1 b2 b3 b4) Q X r =
    Q () (r\<lparr>tr_trbs := (tr_trbs r)[i := \<lparr>trb_b1 = b1, trb_b2 = b2, trb_b3 = b3, trb_b4 = b4\<rparr>]\<rparr>)"
proof -
  have t: "t\<lparr>trb_b1 := b1, trb_b2 := b2, trb_b3 := b3, trb_b4 := b4\<rparr> = \<lparr>trb_b1 = b1, trb_b2 = b2, trb_b3 = b3, trb_b4 = b4\<rparr>" for t :: trb
    by (cases t) simp
  show ?thesis using assms by (simp add: plain_stores_def wp_then_do wp_change_trb t)
qed

text \<open>Between the stores: with cycle state 0 the plain stores, the last of which has bit 0 clear, hand the block over to the controller
  before its type is there; with cycle state 1 it stays with the driver until the cycle bit is set.\<close>

lemma block_visible_without_type:
  assumes "i < length (tr_trbs r)" "\<not> bit b4 0" "drop_bit 10 b4 AND 0x3F = 0"
  shows "wp u (plain_stores i b1 b2 b3 b4) (\<lambda>_ s. let t = tr_trbs s ! i in TRB_Type t = 0 \<and>
    (IsCycleBitSet t = tr_cycleState s \<longleftrightarrow> \<not> tr_cycleState r)) X r"
proof -
  have "b4 AND 1 = 0" using assms(2) by (simp add: bit_simps and_one_eq even_iff_mod_2_eq_zero [symmetric] bit_0)
  then show ?thesis using assms(1,3) by (simp add: wp_plain_stores Let_def TRB_Type_def IsCycleBitSet_def Bit_IsSet_def)
qed

lemma wp_put_TRB:
  assumes ok: "tring_ok SEG r c k u q" and free: "0 < unat (tr_freeSlots r)"
    and Q: "\<And>r' n. tr_base r' = tr_base r \<Longrightarrow> unat (tr_freeSlots r') = unat (tr_freeSlots r) - 1 \<Longrightarrow>
      tring_ok SEG r' c k u (q @ [body (TRB_setType ty \<lparr>trb_b1 = b1, trb_b2 = b2, trb_b3 = b3, trb_b4 = b4\<rparr>)]) \<Longrightarrow> Q n r'"
  shows "wp False (put_TRB b1 b2 b3 b4 ty) Q X r"
  unfolding put_TRB_def wp_and_then
proof (rule wp_NextTRB [OF ok free])
  fix r' n
  assume r': "tr_base r' = tr_base r" "unat (tr_freeSlots r') = unat (tr_freeSlots r) - 1" "n < length (tr_trbs r') - 1"
    and t: "\<And>x. tring_ok SEG (r'\<lparr>tr_trbs := (tr_trbs r')[n := SetCycleBit (tr_cycleState r') x]\<rparr>) c k u (q @ [body x])"
  then have n: "n < length (tr_trbs r')" by simp
  show "wp False (then_do (plain_stores n b1 b2 b3 b4) (then_do (change_trb n (TRB_setType ty)) (and_then (gets tr_cycleState) (\<lambda>x.
      then_do (change_trb n (SetCycleBit x)) (yield n))))) Q X r'"
    using n by (simp add: wp_then_do wp_and_then wp_gets wp_plain_stores wp_change_trb wp_yield) (use r' t in \<open>intro Q; simp\<close>)
qed

section \<open>The blocks of a buffer\<close>

text \<open>The bytes that a block transfers.\<close>

definition block_bytes :: "trb \<Rightarrow> nat list" where
  "block_bytes t = [unat (trb_b1 t) ..< unat (trb_b1 t) + unat (trb_b3 t AND 0x1FFFF)]"

text \<open>The blocks \<open>L\<close> of one buffer: normal blocks, none across a page, all but the last chained to the next one, the last
  one with the interrupt on completion.\<close>

definition buffer_blocks :: "trb list \<Rightarrow> bool" where
  "buffer_blocks L \<longleftrightarrow> (\<forall>t \<in> set L. TRB_Type t = 1 \<and> unat (trb_b1 t) mod 4096 + unat (trb_b3 t AND 0x1FFFF) \<le> 4096) \<and>
     (\<forall>t \<in> set (butlast L). bit (trb_b4 t) 4 \<and> \<not> bit (trb_b4 t) 5) \<and>
     (L \<noteq> [] \<longrightarrow> \<not> bit (trb_b4 (last L)) 4 \<and> bit (trb_b4 (last L)) 5)"

definition page_count :: "nat \<Rightarrow> nat \<Rightarrow> nat" where
  "page_count a n = (if n = 0 then 0 else (a + n - 1) div 4096 - a div 4096 + 1)"

lemma page_count_step:
  assumes "0 < n" "b = min n (4096 - a mod 4096)"
  shows "page_count a n = Suc (page_count (a + b) (n - b))" "0 < b" "b \<le> n" "b \<le> 4096" "a mod 4096 + b \<le> 4096"
proof -
  obtain q m where am: "a = 4096 * q + m" "m < 4096"
    using div_mult_mod_eq [of a 4096] by (metis mod_less_divisor mult.commute zero_less_numeral)
  then have b': "b = min n (4096 - m)" using assms(2) by simp
  show "0 < b" "b \<le> n" "b \<le> 4096" "a mod 4096 + b \<le> 4096" using assms(1) am b' by (auto simp: min_def)
  show "page_count a n = Suc (page_count (a + b) (n - b))"
  proof (cases "m + n \<le> 4096")
    case True
    then have "b = n" using b' by simp
    moreover have "a + n - 1 = (m + n - 1) + 4096 * q" using am(1) assms(1) by simp
    then have "(a + n - 1) div 4096 = (m + n - 1) div 4096 + q" by (simp only: div_mult_self2 zero_neq_numeral not_False_eq_True)
    ultimately show ?thesis using True am assms(1) by (simp add: page_count_def)
  next
    case False
    then have bb: "b = 4096 - m" "b < n" using b' am(2) by simp_all
    then have "a + b = 4096 * Suc q" using am by simp
    then have "(a + b) div 4096 = Suc q" by (metis nonzero_mult_div_cancel_left zero_neq_numeral)
    moreover have e: "a + b + (n - b) = a + n" "a + b \<le> a + n - 1" using bb by simp_all
    moreover define x where "x = (a + n - 1) div 4096"
    ultimately have "page_count (a + b) (n - b) = x - Suc q + 1" using bb(2) by (simp add: page_count_def)
    moreover have "page_count a n = x - q + 1" using assms(1) am by (simp add: page_count_def x_def)
    moreover have "Suc q \<le> x" using div_le_mono [OF e(2), of 4096] \<open>(a + b) div 4096 = Suc q\<close> by (simp add: x_def)
    ultimately show ?thesis by simp
  qed
qed

lemma split_word:
  assumes "b < 131072"
  shows "(push_bit 17 x OR of_nat b) AND 0x1FFFF = (of_nat b :: u32)"
proof -
  have "unat (take_bit 17 (of_nat b :: u32)) = unat (of_nat b :: u32)"
    using assms by (simp add: unsigned_take_bit_eq of_nat_unat_u32 take_bit_nat_eq_self)
  then have t: "take_bit 17 (of_nat b :: u32) = of_nat b" by (simp only: word_unat_eq_iff)
  have m: "(0x1FFFF :: u32) = mask 17" by (simp add: mask_eq_exp_minus_1)
  show ?thesis unfolding m take_bit_eq_mask [symmetric] using t by (simp add: take_bit_or take_bit_push_bit)
qed


lemma bit_six: "bit (0x3F :: u32) n \<longleftrightarrow> n < 6"
proof -
  have m: "(0x3F :: u32) = mask 6" by (simp add: mask_eq_exp_minus_1)
  show ?thesis unfolding m bit_mask_iff by (auto simp: possible_bit_def)
qed

lemmas word_bits = bit_and_iff bit_or_iff bit_not_iff bit_push_bit_iff bit_drop_bit_eq bit_six possible_bit_def

lemma setType_b4: "trb_b4 (TRB_setType ty t) = (trb_b4 t AND NOT (push_bit 10 0x3F)) OR push_bit 10 (ty AND 0x3F)"
  by (simp add: TRB_setType_def)

lemma TRB_setType_simps:
  "trb_b1 (TRB_setType ty t) = trb_b1 t" "trb_b3 (TRB_setType ty t) = trb_b3 t"
  by (simp_all add: TRB_setType_def)

lemma TRB_setType_low: "n < 10 \<Longrightarrow> bit (trb_b4 (TRB_setType ty t)) n = bit (trb_b4 t) n"
  unfolding setType_b4 word_bits by auto

lemma TRB_Type_body: "TRB_Type (body t) = TRB_Type t"
  unfolding TRB_Type_def by (intro bit_eqI) (auto simp: bit_and_iff bit_drop_bit_eq body_bit)

lemma TRB_Type_set: "TRB_Type (TRB_setType ty t) = ty AND 0x3F"
  unfolding TRB_Type_def setType_b4 by (intro bit_eqI, unfold word_bits) auto

text \<open>The loop appends the blocks of the buffer; the third word of the first one.\<close>

definition first_word3 :: "nat \<Rightarrow> nat \<Rightarrow> nat \<Rightarrow> u32" where
  "first_word3 a n mps = (let b = min n (4096 - a mod 4096) in push_bit 17 (of_int ((int n - int b + (int mps - 1)) div int mps)) OR of_nat b)"

lemma wp_DataTRB_loop:
  fixes n :: nat
  assumes "tring_ok SEG r c k u q" "0 < mps" "mps \<le> 65535" "n < 2147483648" "unat a + n < 4294967296"
    "page_count (unat a) n \<le> unat (tr_freeSlots r)"
  shows "wp False (DataTRB_loop a (int n) dir mps l)
    (\<lambda>_ r'. tr_base r' = tr_base r \<and> (\<exists>L. tring_ok SEG r' c k u (q @ L) \<and> length L = page_count (unat a) n \<and> buffer_blocks L \<and>
       concat (map block_bytes L) = [unat a ..< unat a + n] \<and> (0 < n \<longrightarrow> trb_b3 (hd L) = first_word3 (unat a) n mps))) (\<lambda>_ _. False) r"
  using assms
proof (induction n arbitrary: r a l q rule: less_induct)
  case (less n)
  show ?case
  proof (cases "n = 0")
    case True
    then show ?thesis using less.prems(1)
      by (subst DataTRB_loop.simps) (auto simp: wp_yield page_count_def buffer_blocks_def intro: exI [of _ "[]"])
  next
    case False
    define b where "b = min n (4096 - unat a mod 4096)"
    have b: "page_count (unat a) n = Suc (page_count (unat a + b) (n - b))" "0 < b" "b \<le> n" "b \<le> 4096" "unat a mod 4096 + b \<le> 4096"
      using page_count_step [OF _ b_def] False by simp_all
    define p where "p = (int n - int b + (int mps - 1)) div int mps"
    have bi: "(if int n < 4096 - uint (a mod 4096) then int n else 4096 - uint (a mod 4096)) = int b"
    proof -
      have m: "unat (a mod 4096) = unat a mod 4096" by (simp add: unat_mod_distrib)
      have "unat a mod 4096 < 4096" by simp
      then show ?thesis unfolding uint_nat m b_def min_def by (auto simp: of_nat_diff)
    qed
    have p0: "p \<le> 0 \<longleftrightarrow> n = b" "p \<noteq> 0 \<longleftrightarrow> n \<noteq> b"
    proof -
      have "p = 0" if "n = b" using that less.prems(2) by (simp add: p_def)
      moreover have "0 < p" if "n \<noteq> b"
        using that b(3) less.prems(2) by (simp add: p_def pos_imp_zdiv_pos_iff)
      ultimately show "p \<le> 0 \<longleftrightarrow> n = b" "p \<noteq> 0 \<longleftrightarrow> n \<noteq> b" by force+
    qed
    define t where "t = body (TRB_setType 1 \<lparr>trb_b1 = a, trb_b2 = 0, trb_b3 = push_bit 17 (of_int p) OR of_int (int b),
      trb_b4 = push_bit 16 (direction_code dir) OR push_bit 4 (if p \<noteq> 0 then 1 else 0) OR (if p \<le> 0 then INTERRUPT_ON_COMPLETE else 0)\<rparr>)"
    have w: "unat (a + of_nat b) = unat a + b" using less.prems(5) b(3) by (simp add: unat_add_no_wrap of_nat_unat_u32)
    have t3: "trb_b3 t AND 0x1FFFF = of_nat b" using b(4) split_word [of b "of_int p"] by (simp add: t_def TRB_setType_simps)
    have t1: "trb_b1 t = a" "TRB_Type t = 1" by (simp_all add: t_def TRB_setType_simps TRB_Type_body TRB_Type_set)
    have dirbit: "direction_code dir = 0 \<or> direction_code dir = 1" by (cases dir) simp_all
    have t4: "bit (trb_b4 t) 4 \<longleftrightarrow> n \<noteq> b" "bit (trb_b4 t) 5 \<longleftrightarrow> n = b"
      using p0 dirbit by (auto simp: t_def body_bit TRB_setType_low bit_or_iff bit_push_bit_iff)
    have tb: "block_bytes t = [unat a ..< unat a + b]"
      using b(4) by (simp add: block_bytes_def t1 t3 of_nat_unat_u32)
    have free: "0 < unat (tr_freeSlots r)" using less.prems(6) b(1) by simp
    have pos: "(int n > 0) = True" "(mps = 0) = False" using False less.prems(2) by simp_all
    have step: "DataTRB_loop a (int n) dir mps l = and_then (put_TRB a 0 (push_bit 17 (of_int p) OR of_int (int b))
        (push_bit 16 (direction_code dir) OR push_bit 4 (if p \<noteq> 0 then 1 else 0) OR (if p \<le> 0 then INTERRUPT_ON_COMPLETE else 0)) 1)
        (\<lambda>i. and_then (gets (\<lambda>r. trb_address r i)) (\<lambda>x.
           DataTRB_loop (a + of_int (int b)) (int n - int b) dir mps (if p \<le> 0 then x else l)))"
      by (subst DataTRB_loop.simps) (simp only: bi Let_def if_True if_False pos p_def)
    show ?thesis
      unfolding step wp_and_then wp_gets
    proof (rule wp_put_TRB [OF less.prems(1) free], goal_cases)
      case (1 r' i)
      have ok: "tring_ok SEG r' c k u (q @ [t])" using 1(3) by (simp only: t_def)
      have e: "int n - int b = int (n - b)" "a + of_int (int b) = a + of_nat b" using b(3) by (simp_all add: of_nat_diff)
      have "page_count (unat (a + of_nat b)) (n - b) \<le> unat (tr_freeSlots r')" using less.prems(6) b(1) 1(2) by (simp add: w)
      then have "wp False (DataTRB_loop (a + of_nat b) (int (n - b)) dir mps (if p \<le> 0 then trb_address r' i else l))
        (\<lambda>_ r''. tr_base r'' = tr_base r' \<and> (\<exists>L. tring_ok SEG r'' c k u ((q @ [t]) @ L) \<and>
           length L = page_count (unat (a + of_nat b)) (n - b) \<and> buffer_blocks L \<and>
           concat (map block_bytes L) = [unat (a + of_nat b) ..< unat (a + of_nat b) + (n - b)] \<and>
           (0 < n - b \<longrightarrow> trb_b3 (hd L) = first_word3 (unat (a + of_nat b)) (n - b) mps))) (\<lambda>_ _. False) r'"
        using b(2,3) False less.prems(2-5) by (intro less.IH [OF _ ok]) (simp_all add: w)
      then show ?case
        unfolding e w
      proof (rule wp_mono, goal_cases)
        case (1 _ r'')
        then obtain L where L: "tr_base r'' = tr_base r'" "tring_ok SEG r'' c k u (q @ t # L)" "length L = page_count (unat a + b) (n - b)"
          "buffer_blocks L" "concat (map block_bytes L) = [unat a + b ..< unat a + b + (n - b)]" by auto
        have nil: "L = [] \<longleftrightarrow> n = b" using L(3) b(3) by (auto simp: page_count_def split: if_splits)
        have "buffer_blocks (t # L)"
          using L(4) nil t1 t3 t4 b(4,5) by (auto simp: buffer_blocks_def of_nat_unat_u32)
        moreover have "concat (map block_bytes (t # L)) = [unat a ..< unat a + n]"
          using L(5) b(3) upt_add_eq_append [of "unat a" "unat a + b" "n - b"] by (simp add: tb)
        moreover have "trb_b3 t = first_word3 (unat a) n mps"
          by (simp add: t_def TRB_setType_simps first_word3_def Let_def b_def [symmetric] p_def)
        ultimately show ?case using L(1-3) b(1) \<open>tr_base r' = tr_base r\<close> by (intro conjI exI [of _ "t # L"]) simp_all
      qed simp_all
    qed
  qed
qed


text \<open>The estimate of the driver is enough.\<close>

lemma requiredSlots_enough:
  assumes "unat a + unat len < 4294967296"
  shows "page_count (unat a) (unat len) \<le> unat (requiredSlots a len)"
proof (cases "unat len = 0")
  case False
  define x y z v where "x = unat a div 4096" "y = unat a mod 4096" "z = unat len div 4096" "v = unat len mod 4096"
  have a: "unat a = 4096 * x + y" "y < 4096" and n: "unat len = 4096 * z + v" "v < 4096"
    by (simp_all add: x_y_z_v_def)
  have words: "a mod 4096 = 0 \<longleftrightarrow> y = 0" "(a + len) mod 4096 = 0 \<longleftrightarrow> (y + v) mod 4096 = 0"
      "a div 4096 = (a + len) div 4096 \<longleftrightarrow> x = (unat a + unat len) div 4096" "unat (len div 4096) = z"
    using assms by (simp_all add: word_unat_eq_iff unat_mod_distrib unat_div_distrib unat_add_no_wrap x_y_z_v_def mod_add_eq)
  define s :: nat where "s = (if y \<noteq> 0 then if (y + v) mod 4096 \<noteq> 0 \<and> x \<noteq> (unat a + unat len) div 4096 then 2 else 1
     else if (y + v) mod 4096 \<noteq> 0 then 1 else 0)"
  have "requiredSlots a len = len div 4096 + of_nat s"
    by (simp add: requiredSlots_def Let_def words s_def)
  moreover have "z < 1048576" using n u32_unat_bound [of len] by simp
  moreover have "s \<le> 2" by (simp add: s_def)
  ultimately have r: "unat (requiredSlots a len) = z + s"
    using words(4) by (simp add: unat_add_no_wrap of_nat_unat_u32)
  consider "y + v = 0" "0 < z" | "0 < y + v" "y + v \<le> 4096" | "4096 < y + v" using False n by linarith
  then show ?thesis
  proof cases
    case 1
    then have "(unat a + unat len - 1) div 4096 = x + z - 1" using a n by (intro div_nat_eqI) auto
    then show ?thesis using 1 False r by (simp add: page_count_def x_y_z_v_def(1) [symmetric])
  next
    case 2
    then have "(unat a + unat len - 1) div 4096 = x + z" using a n by (intro div_nat_eqI) auto
    moreover have "1 \<le> s" using 2 n(2) by (auto simp: s_def)
    ultimately show ?thesis using False r by (simp add: page_count_def x_y_z_v_def(1) [symmetric])
  next
    case 3
    have "(unat a + unat len - 1) div 4096 = x + z + 1" "(unat a + unat len) div 4096 = x + z + 1" using 3 a n by (auto intro!: div_nat_eqI)
    moreover have "(y + v) mod 4096 = y + v - 4096" using 3 a n by (simp add: mod_if)
    ultimately show ?thesis using 3 False r n(2) by (simp add: page_count_def x_y_z_v_def(1) [symmetric] s_def)
  qed
qed (simp add: page_count_def)

lemma wp_AddDataTRB:
  assumes ok: "tring_ok SEG r c k u q" and m: "0 < mps" "mps \<le> 65535"
    and len: "unat len < 2147483648" "unat (a + SEG) + unat len < 4294967296"
  shows "wp False (AddDataTRB SEG a len dir mps)
    (\<lambda>x r'. tr_base r' = tr_base r \<and> (case x of Inl _ \<Rightarrow> tr_freeSlots r < requiredSlots (a + SEG) len \<and> r' = r
      | Inr _ \<Rightarrow> (\<exists>L. tring_ok SEG r' c k u (q @ L) \<and> buffer_blocks L \<and>
       concat (map block_bytes L) = [unat (a + SEG) ..< unat (a + SEG) + unat len] \<and>
       (0 < unat len \<longrightarrow> L \<noteq> [] \<and> trb_b3 (hd L) = first_word3 (unat (a + SEG)) (unat len) mps)))) (\<lambda>_ _. False) r"
proof (cases "requiredSlots (a + SEG) len > tr_freeSlots r")
  case True
  show ?thesis unfolding AddDataTRB_def Let_def wp_and_then wp_gets if_P [OF True] wp_yield using True by simp
next
  case False
  have si: "sint len = int (unat len)" by (rule sint_small [OF len(1)])
  have "page_count (unat (a + SEG)) (unat len) \<le> unat (tr_freeSlots r)"
    using requiredSlots_enough [OF len(2)] False by (simp add: not_less word_le_nat_alt)
  note run = wp_DataTRB_loop [OF ok m len this, of dir 0]
  show ?thesis
    unfolding AddDataTRB_def Let_def wp_and_then wp_gets if_not_P [OF False] wp_yield si
    by (rule wp_mono [OF run]) (auto simp: page_count_def)
qed


section \<open>The other side\<close>

text \<open>The next block that is handed over at place \<open>c\<close> with cycle state \<open>k\<close>, and the place and state behind it; the link is
  followed and toggles the state.\<close>

definition fetch :: "tring \<Rightarrow> nat \<Rightarrow> bool \<Rightarrow> (trb \<times> nat \<times> bool) option" where
  "fetch r c k = (let ts = tr_trbs r; N = length ts - 1;
     (d, l) = (if c = N \<and> IsCycleBitSet (ts ! N) = k then (0, \<not> k) else (c, k))
     in if d < N \<and> IsCycleBitSet (ts ! d) = l then Some (body (ts ! d), Suc d, l) else None)"

lemma fetch_ok:
  assumes ok: "tring_ok SEG r c k u q"
  shows "fetch r c k = None \<longleftrightarrow> q = []"
    "fetch r c k = Some (t, d, l) \<Longrightarrow> \<exists>q'. q = t # q' \<and> tring_ok SEG r d l (Suc u) q'"
proof -
  define ts where "ts = tr_trbs r"
  define N where "N = length ts - 1"
  let ?ring = "ring_rep N (\<lambda>i. body (ts ! i)) (\<lambda>i. IsCycleBitSet (ts ! i)) (IsCycleBitSet (ts ! N)) (unat (tr_nextTRBIndex r)) (tr_cycleState r)"
  have o: "?ring c k q" "0 < N" using ok by (auto simp: tring_ok_def Let_def ts_def N_def)
  define p where "p = (if c = N \<and> IsCycleBitSet (ts ! N) = k then (0, \<not> k) else (c, k))"
  obtain d' l' where p: "p = (d', l')" by (cases p)
  have le: "c \<le> N" using o(1) by (simp add: ring_rep_def)
  have rl: "?ring d' l' q \<and> d' mod N = c mod N \<and> (d' = N \<longrightarrow> q = []) \<and> d' \<le> N"
  proof (cases "c = N \<and> IsCycleBitSet (ts ! N) = k")
    case True
    then have "?ring 0 (\<not> k) q" using o(1) ring_wrap_get(2) [of N _ _ "IsCycleBitSet (ts ! N)" _ _ k q] by simp
    then show ?thesis using True p o(2) by (simp add: p_def)
  next
    case False
    then have "p = (c, k)" unfolding p_def by (rule if_not_P)
    then have "d' = c" "l' = k" using p by simp_all
    moreover have "q = []" if "c = N" using that False o(1) ring_wrap_get(3) [of N _ _ "IsCycleBitSet (ts ! N)" _ _ k q] by simp
    ultimately show ?thesis using o(1) le by simp
  qed
  then have r: "?ring d' l' q" and m: "d' mod N = c mod N" and last: "d' = N \<Longrightarrow> q = []" and le': "d' \<le> N" by simp_all
  have f: "fetch r c k = (if d' < N \<and> IsCycleBitSet (ts ! d') = l' then Some (body (ts ! d'), Suc d', l') else None)"
    using p by (simp add: fetch_def Let_def ts_def N_def p_def)
  show "fetch r c k = None \<longleftrightarrow> q = []"
    using ring_get(1) [OF r] last le' unfolding f by (cases "d' < N") auto
  assume "fetch r c k = Some (t, d, l)"
  then have d: "d' < N" "IsCycleBitSet (ts ! d') = l'" "t = body (ts ! d')" "d = Suc d'" "l = l'" by (simp_all add: f split: if_splits)
  then have q: "q \<noteq> []" using ring_get(1) [OF r d(1)] by simp
  then have g: "t = hd q" "?ring d l (tl q)" using ring_get(2) [OF r d(1) q] d by simp_all
  have "(unat (tr_dqIndex r) + Suc u) mod N = Suc d' mod N"
    using ok m by (simp add: tring_ok_def Let_def ts_def N_def mod_Suc)
  then have "tring_ok SEG r d l (Suc u) (tl q)"
    using ok g(2) q d(4) by (cases q) (auto simp: tring_ok_def Let_def ts_def N_def)
  then show "\<exists>q'. q = t # q' \<and> tring_ok SEG r d l (Suc u) q'" using q g(1) by (intro exI [of _ "tl q"]) simp
qed

text \<open>An event for the block fetched as the \<open>i\<close>-th of those that are not free gives back it and the ones before it.\<close>

lemma wp_UpdateDeEnQPtr:
  assumes ok: "tring_ok SEG r c k u q" and i: "i < u"
  shows "wp False (UpdateDeEnQPtr (trb_address r ((unat (tr_dqIndex r) + i) mod (length (tr_trbs r) - 1))))
    (\<lambda>_ r'. tr_base r' = tr_base r \<and> tr_trbs r' = tr_trbs r \<and> tring_ok SEG r' c k (u - Suc i) q \<and>
       unat (tr_freeSlots r') = unat (tr_freeSlots r) + Suc i) (\<lambda>_ _. False) r"
proof -
  define N where "N = length (tr_trbs r) - 1"
  define dq where "dq = unat (tr_dqIndex r)"
  define x where "x = (dq + i) mod N"
  have o: "unat (tr_size r) = Suc N" "0 < N" "N < 65536" "u + length q + unat (tr_freeSlots r) = N" "dq < N"
      "(dq + u) mod N = c mod N"
    using ok by (auto simp: tring_ok_def Let_def N_def dq_def)
  have x: "x < N" using o(2) by (simp add: x_def)
  have iN: "i < N" using i o(4) by simp
  have cur: "(trb_address r x - tr_base r) div 16 = of_nat x"
  proof -
    have "(of_nat (16 * x) :: u32) div 16 = of_nat x"
      using x o(3) by (simp add: word_unat_eq_iff unat_div_distrib of_nat_unat_u32 del: of_nat_mult)
    then show ?thesis by (simp add: trb_address_def)
  qed
  have ux: "unat (of_nat x :: u32) = x" using x o(3) by (simp add: of_nat_unat_u32)
  define fs where "fs = (if of_nat x < tr_dqIndex r then tr_size r - tr_dqIndex r + of_nat x else of_nat x - tr_dqIndex r + 1)"
  have fs: "fs = of_nat (Suc i)"
  proof (cases "dq + i < N")
    case True
    then have "x = dq + i" by (simp add: x_def)
    moreover then have "\<not> of_nat x < tr_dqIndex r" using ux by (simp add: word_less_nat_alt dq_def)
    ultimately show ?thesis by (simp add: fs_def dq_def)
  next
    case False
    then have "x = dq + i - N" using o(5) iN by (simp add: x_def le_mod_geq not_less)
    then have xx: "x + N = dq + i" using False by simp
    then have "of_nat x < tr_dqIndex r" using ux iN by (simp add: word_less_nat_alt dq_def)
    moreover have "tr_size r = of_nat (Suc N)"
    proof -
      have "of_nat (unat (tr_size r)) = tr_size r" by simp
      then show ?thesis unfolding o(1) by (rule sym)
    qed
    moreover have "tr_dqIndex r = of_nat dq" by (simp add: dq_def)
    moreover have "of_nat (Suc N) - of_nat dq + of_nat x = (of_nat (Suc i) :: u32)"
      using arg_cong [OF xx, of "of_nat :: nat \<Rightarrow> u32"] by (simp add: algebra_simps)
    ultimately show ?thesis by (simp add: fs_def)
  qed
  have fr: "unat (tr_freeSlots r + of_nat (Suc i)) = unat (tr_freeSlots r) + Suc i"
    using o(3,4) i by (simp add: unat_add_no_wrap of_nat_unat_u32 del: of_nat_Suc)
  have s1: "tr_size r \<noteq> 1" using o(1,2) by auto
  have nx: "unat ((of_nat x + 1) mod (tr_size r - 1)) = (dq + Suc i) mod N"
  proof -
    have "unat (tr_size r - 1) = N" using o(1) by (subst unat_sub) (simp_all add: word_le_nat_alt)
    moreover have "unat (of_nat x + 1 :: u32) = Suc x" using ux x o(3) by (simp add: unat_add_no_wrap)
    ultimately show ?thesis by (simp add: unat_mod_distrib x_def mod_Suc_eq)
  qed
  have "((dq + Suc i) mod N + (u - Suc i)) mod N = (dq + Suc i + (u - Suc i)) mod N" by (rule mod_add_left_eq)
  also have "dq + Suc i + (u - Suc i) = dq + u" using i by simp
  finally have "((dq + Suc i) mod N + (u - Suc i)) mod N = c mod N" using o(6) by simp
  then show ?thesis
    unfolding UpdateDeEnQPtr_def wp_and_then wp_gets id_apply Let_def dq_def [symmetric] N_def [symmetric] x_def [symmetric] cur
      fs_def [symmetric] fs if_not_P [OF s1] wp_modify
    using ok fr nx o i by (simp add: tring_ok_def Let_def N_def [symmetric] dq_def [symmetric])
qed


section \<open>Runs\<close>

text \<open>A driver that transfers buffers through a ring, and a controller that follows the cycle bits and reports some of the
  blocks it has fetched. \<open>transfer_run SEG r c k u fetched requested\<close>: this is reached with the ring \<open>r\<close>, the controller at \<open>c\<close>
  with cycle state \<open>k\<close>, \<open>u\<close> blocks fetched and not given back, after these blocks were fetched and these buffers accepted.\<close>

inductive transfer_run :: "u32 \<Rightarrow> tring \<Rightarrow> nat \<Rightarrow> bool \<Rightarrow> nat \<Rightarrow> trb list \<Rightarrow> (u32 \<times> u32) list \<Rightarrow> bool" for SEG :: u32 where
  start: "TransferRing SEG base siz = Some r \<Longrightarrow> 2 \<le> siz \<Longrightarrow> siz \<le> 65536 \<Longrightarrow> transfer_run SEG r 0 True 0 [] []"
| add: "transfer_run SEG r c k u fetched requested \<Longrightarrow> AddDataTRB SEG a len dir mps r = Some (Inr x, r') \<Longrightarrow> 0 < mps \<Longrightarrow>
    mps \<le> 65535 \<Longrightarrow> unat len < 2147483648 \<Longrightarrow> unat (a + SEG) + unat len < 4294967296 \<Longrightarrow>
    transfer_run SEG r' c k u fetched (requested @ (case x of Inl _ \<Rightarrow> [] | Inr _ \<Rightarrow> [(a + SEG, len)]))"
| fetch: "transfer_run SEG r c k u fetched requested \<Longrightarrow> fetch r c k = Some (t, d, l) \<Longrightarrow>
    transfer_run SEG r d l (Suc u) (fetched @ [t]) requested"
| report: "transfer_run SEG r c k u fetched requested \<Longrightarrow> i < u \<Longrightarrow>
    UpdateDeEnQPtr (trb_address r ((unat (tr_dqIndex r) + i) mod (length (tr_trbs r) - 1))) r = Some (Inr (), r') \<Longrightarrow>
    transfer_run SEG r' c k (u - Suc i) fetched requested"

definition requested_bytes :: "(u32 \<times> u32) list \<Rightarrow> nat list" where
  "requested_bytes bs = concat (map (\<lambda>(a, len). [unat a ..< unat a + unat len]) bs)"

lemma TransferRing_ok:
  assumes "TransferRing SEG base siz = Some r" "2 \<le> siz" "siz \<le> 65536"
  shows "tring_ok SEG r 0 True 0 []"
proof -
  define n where "n = unat siz"
  have n: "2 \<le> n" "n \<le> 65536" using assms(2,3) by (simp_all add: n_def word_le_nat_alt)
  have last: "unat (siz - 1) = n - 1" unfolding n_def using assms(2) by (subst unat_sub) (simp_all add: word_le_nat_alt)
  let ?link = "SetToggleBit True (SetLinkAddr (ucast (KERNEL_REAL_ADDRESS SEG base)) LinkTRB)"
  have r: "r = \<lparr>tr_size = siz, tr_cycleState = True, tr_nextTRBIndex = 0, tr_trbs = (replicate n TRB)[n - 1 := ?link],
      tr_freeSlots = siz - 1, tr_dqIndex = 0, tr_base = base\<rparr>"
    using assms(1,2) by (auto simp: TransferRing_def Let_def last n_def split: if_splits)
  have cyc: "\<not> IsCycleBitSet TRB" "\<not> IsCycleBitSet ?link"
    by (simp_all add: IsCycleBitSet_def Bit_IsSet_def TRB_def SetToggleBit_def SetLinkAddr_def LinkTRB_def TRB_setType_def Bit_Set_def)
  have "ring_rep (n - 1) (\<lambda>i. body (tr_trbs r ! i)) (\<lambda>i. IsCycleBitSet (tr_trbs r ! i)) (\<not> True) 0 True 0 True []"
    using n by (intro ring_init) (simp add: r cyc nth_list_update)
  then show ?thesis
    using n last by (simp add: tring_ok_def Let_def r cyc ring_link_def n_def)
qed

lemma transfer_run_ok:
  assumes "transfer_run SEG r c k u fetched requested"
  shows "\<exists>q. tring_ok SEG r c k u q \<and> concat (map block_bytes (fetched @ q)) = requested_bytes requested \<and>
    (\<forall>t \<in> set (fetched @ q). TRB_Type t = 1 \<and> unat (trb_b1 t) mod 4096 + unat (trb_b3 t AND 0x1FFFF) \<le> 4096)"
  using assms
proof induction
  case (start base siz r)
  then show ?case using TransferRing_ok by (intro exI [of _ "[]"]) (simp add: requested_bytes_def)
next
  case (add r c k u fetched requested a len dir mps x r')
  then obtain q where q: "tring_ok SEG r c k u q" "concat (map block_bytes (fetched @ q)) = requested_bytes requested"
      "\<forall>t \<in> set (fetched @ q). TRB_Type t = 1 \<and> unat (trb_b1 t) mod 4096 + unat (trb_b3 t AND 0x1FFFF) \<le> 4096" by blast
  note post = wp_result [OF wp_AddDataTRB [OF q(1) add.hyps(3-6)] add.hyps(2)]
  show ?case
  proof (cases x)
    case (Inl e)
    then show ?thesis using post q by auto
  next
    case (Inr b)
    then obtain L where L: "tring_ok SEG r' c k u (q @ L)" "buffer_blocks L"
        "concat (map block_bytes L) = [unat (a + SEG) ..< unat (a + SEG) + unat len]"
      using post by auto
    then show ?thesis using q Inr by (intro exI [of _ "q @ L"]) (auto simp: requested_bytes_def buffer_blocks_def)
  qed
next
  case (fetch r c k u fetched requested t d l)
  then obtain q where q: "tring_ok SEG r c k u q" "concat (map block_bytes (fetched @ q)) = requested_bytes requested"
      "\<forall>t \<in> set (fetched @ q). TRB_Type t = 1 \<and> unat (trb_b1 t) mod 4096 + unat (trb_b3 t AND 0x1FFFF) \<le> 4096" by blast
  obtain q' where "q = t # q'" "tring_ok SEG r d l (Suc u) q'" using fetch_ok(2) [OF q(1) fetch.hyps(2)] by blast
  then show ?case using q by (intro exI [of _ q']) auto
next
  case (report r c k u fetched requested i r')
  then obtain q where q: "tring_ok SEG r c k u q" "concat (map block_bytes (fetched @ q)) = requested_bytes requested"
      "\<forall>t \<in> set (fetched @ q). TRB_Type t = 1 \<and> unat (trb_b1 t) mod 4096 + unat (trb_b3 t AND 0x1FFFF) \<le> 4096" by blast
  then show ?case using wp_result [OF wp_UpdateDeEnQPtr [OF q(1) report.hyps(2)] report.hyps(3)] by auto
qed

text \<open>C4: A transfer ring is a queue of buffers. Whatever buffers the driver puts on it with \<open>AddDataTRB\<close> (accepted or refused
  because the ring is full), however the controller follows the cycle bits and whichever of the blocks it has fetched it reports,
  the blocks fetched, followed by the blocks that the memory of the ring hands over to it, transfer exactly the bytes of the
  buffers accepted, in their order, each block within one page; and the blocks not free are those handed over and those
  fetched and not reported. The controller acts between the operations of the driver, not between the stores of a block.\<close>

theorem transfer_ring_is_a_queue:
  assumes "transfer_run SEG r c k u fetched requested"
  shows "concat (map block_bytes (fetched @ transfers r c k)) = requested_bytes requested \<and>
    (\<forall>t \<in> set (fetched @ transfers r c k). TRB_Type t = 1 \<and> unat (trb_b1 t) mod 4096 + unat (trb_b3 t AND 0x1FFFF) \<le> 4096) \<and>
    u + length (transfers r c k) + unat (tr_freeSlots r) = length (tr_trbs r) - 1"
proof -
  obtain q where q: "tring_ok SEG r c k u q" "concat (map block_bytes (fetched @ q)) = requested_bytes requested"
      "\<forall>t \<in> set (fetched @ q). TRB_Type t = 1 \<and> unat (trb_b1 t) mod 4096 + unat (trb_b3 t AND 0x1FFFF) \<le> 4096"
    using transfer_run_ok [OF assms] by blast
  then show ?thesis using tring_ok_transfers [OF q(1)] by (simp add: tring_ok_def Let_def)
qed


section \<open>The size field of a block\<close>

lemma AddDataTRB_accepts:
  assumes "tring_ok SEG r c k u q" "0 < mps" "mps \<le> 65535" "unat len < 2147483648" "unat (a + SEG) + unat len < 4294967296"
    "requiredSlots (a + SEG) len \<le> tr_freeSlots r"
  shows "\<exists>x r'. AddDataTRB SEG a len dir mps r = Some (Inr (Inr x), r')"
proof -
  obtain y r' where y: "AddDataTRB SEG a len dir mps r = Some (Inr y, r')"
    using wp_AddDataTRB [OF assms(1-5)] unfolding wp_returns by blast
  then show ?thesis using wp_result [OF wp_AddDataTRB [OF assms(1-5)] y] assms(6) by (cases y) auto
qed

lemma interrupter_bits:
  assumes "p < 32768" "b < 131072"
  shows "drop_bit 22 (push_bit 17 (of_nat p) OR of_nat b :: u32) AND 0x3FF = of_nat (p div 32)"
proof -
  have small: "bit (of_nat n :: u32) j \<longleftrightarrow> bit n j" if "n < 4294967296" for n j
  proof (cases "j < 32")
    case False
    then have "n < 2 ^ j" using that power_increasing [of 32 j "2 :: nat"] by simp
    then have "\<not> bit n j" by (simp add: bit_iff_odd)
    then show ?thesis using False impossible_bit [of j "of_nat n :: u32"] by (simp add: possible_bit_def)
  qed (simp add: bit_of_nat_iff possible_bit_def)
  have high: "\<not> bit n j" if "n < 2 ^ i" "i \<le> j" for n i j :: nat
  proof -
    have "(2 :: nat) ^ i \<le> 2 ^ j" using that(2) by (rule power_increasing) simp
    then have "n < 2 ^ j" using that(1) by linarith
    then show ?thesis by (simp add: bit_iff_odd)
  qed
  have m: "(0x3FF :: u32) = mask 10" by (simp add: mask_eq_exp_minus_1)
  show ?thesis
  proof (rule bit_eqI)
    fix j
    assume "possible_bit TYPE(u32) j"
    then have j: "j < 32" by (simp add: possible_bit_def)
    have "bit (drop_bit 22 (push_bit 17 (of_nat p) OR of_nat b :: u32) AND 0x3FF) j \<longleftrightarrow> j < 10 \<and> bit p (5 + j)"
      unfolding m bit_and_iff bit_drop_bit_eq bit_or_iff bit_push_bit_iff bit_mask_iff comp_apply
      using assms small [of p] small [of b] high [of b 17 "22 + j"] by (auto simp: possible_bit_def)
    also have "\<dots> \<longleftrightarrow> bit p (5 + j)" using high [of p 15 "5 + j"] assms(1) by (cases "j < 10") auto
    also have "\<dots> \<longleftrightarrow> bit (p div 32) j" by (simp add: bit_iff_odd div_mult2_eq power_add)
    also have "\<dots> \<longleftrightarrow> bit (of_nat (p div 32) :: u32) j" using assms(1) by (subst small) simp_all
    finally show "bit (drop_bit 22 (push_bit 17 (of_nat p) OR of_nat b :: u32) AND 0x3FF) j \<longleftrightarrow> bit (of_nat (p div 32) :: u32) j" .
  qed
qed

text \<open>The number of packets left after a block is written over its size field of five bits: for a buffer that begins at a page and
  leaves \<open>p\<close> packets after the first page, the first block put on the ring names the interrupter \<open>p div 32\<close>, where the driver
  serves the interrupter 0 only.\<close>

theorem size_field_overflows_into_interrupter:
  assumes "transfer_run SEG r c k u fetched requested" "AddDataTRB SEG a len dir mps r = Some (Inr (Inr x), r')"
    "0 < mps" "mps \<le> 65535" "4096 < unat len" "unat len < 2147483648" "unat (a + SEG) + unat len < 4294967296"
    "unat (a + SEG) mod 4096 = 0" "p = (unat len - 4096 + (mps - 1)) div mps" "p < 32768"
  shows "\<exists>t L. transfers r' c k = transfers r c k @ t # L \<and> GetInterrupterTarget t = of_nat (p div 32)"
proof -
  obtain q where q: "tring_ok SEG r c k u q" using transfer_run_ok [OF assms(1)] by blast
  obtain L where L: "tring_ok SEG r' c k u (q @ L)" "L \<noteq> []" "trb_b3 (hd L) = first_word3 (unat (a + SEG)) (unat len) mps"
    using wp_result [OF wp_AddDataTRB [OF q assms(3,4,6,7)] assms(2)] assms(5) by auto
  have b: "min (unat len) (4096 - unat (a + SEG) mod 4096) = 4096" using assms(5,8) by simp
  have "int (unat len) - int 4096 + (int mps - 1) = int (unat len - 4096 + (mps - 1))"
    using assms(3,5) by (simp add: of_nat_diff)
  then have p: "(int (unat len) - int 4096 + (int mps - 1)) div int mps = int p" by (simp only: zdiv_int assms(9))
  have "first_word3 (unat (a + SEG)) (unat len) mps = push_bit 17 (of_nat p) OR of_nat 4096"
    unfolding first_word3_def Let_def b p by (simp only: of_int_of_nat_eq)
  then have "GetInterrupterTarget (hd L) = of_nat (p div 32)"
    using interrupter_bits [OF assms(10), of 4096] L(3) by (simp add: GetInterrupterTarget_def)
  then show ?thesis
    using tring_ok_transfers [OF q] tring_ok_transfers [OF L(1)] L(2) by (intro exI [of _ "hd L"] exI [of _ "tl L"]) simp
qed


text \<open>A ring of 64 blocks that has accepted a buffer of 64 KB at the address \<open>0x10000\<close>, for packets of 512 bytes.\<close>

lemma sample_ring_run:
  "\<exists>r x r'. transfer_run 0 r 0 True 0 [] [] \<and> AddDataTRB 0 0x10000 0x10000 DIR_IN 512 r = Some (Inr (Inr x), r')"
proof -
  obtain r where r: "TransferRing 0 0x1000 64 = Some r" "tr_freeSlots r = 63" by (simp add: TransferRing_def Let_def)
  have "requiredSlots (0x10000 + 0) 0x10000 \<le> tr_freeSlots r" by (simp add: requiredSlots_def Let_def r(2))
  then obtain x r' where "AddDataTRB 0 0x10000 0x10000 DIR_IN 512 r = Some (Inr (Inr x), r')"
    using AddDataTRB_accepts [OF TransferRing_ok [OF r(1)], of 512 "0x10000" "0x10000" DIR_IN] by auto
  moreover have "transfer_run 0 r 0 True 0 [] []" by (rule transfer_run.start [OF r(1)]) simp_all
  ultimately show ?thesis by blast
qed

theorem transfer_ring_is_a_queue_witness:
  "\<exists>r. concat (map block_bytes ([] @ transfers r 0 True)) = requested_bytes [(0x10000, 0x10000)] \<and>
    (\<forall>t \<in> set ([] @ transfers r 0 True). TRB_Type t = 1 \<and> unat (trb_b1 t) mod 4096 + unat (trb_b3 t AND 0x1FFFF) \<le> 4096) \<and>
    0 + length (transfers r 0 True) + unat (tr_freeSlots r) = length (tr_trbs r) - 1"
proof -
  obtain r x r' where r: "transfer_run 0 r 0 True 0 [] []" "AddDataTRB 0 0x10000 0x10000 DIR_IN 512 r = Some (Inr (Inr x), r')"
    using sample_ring_run by blast
  have "transfer_run 0 r' 0 True 0 [] [(0x10000, 0x10000)]"
    using transfer_run.add [OF r] by simp
  then show ?thesis using transfer_ring_is_a_queue [of 0 r' 0 True 0 "[]"] by blast
qed

theorem size_field_overflows_into_interrupter_witness:
  "\<exists>r r' t L. transfers r' 0 True = transfers r 0 True @ t # L \<and> GetInterrupterTarget t = of_nat (120 div 32)"
proof -
  obtain r x r' where r: "transfer_run 0 r 0 True 0 [] []" "AddDataTRB 0 0x10000 0x10000 DIR_IN 512 r = Some (Inr (Inr x), r')"
    using sample_ring_run by blast
  then show ?thesis using size_field_overflows_into_interrupter [OF r, of 120] by auto
qed

section \<open>The event ring\<close>

text \<open>The driver is at place \<open>c\<close> of the segment and the events \<open>q\<close> are handed over to it: written by the hardware, which follows
  the protocol as the producer.\<close>

definition events_ok :: "u32 \<Rightarrow> xctl \<Rightarrow> nat \<Rightarrow> trb list \<Rightarrow> bool" where
  "events_ok SEG s c q \<longleftrightarrow> length (xc_events s) = ERST_SIZE \<and> c < ERST_SIZE \<and> (\<exists>g b. SEG = 16 * g \<and> xc_ersAddr s = 16 * b) \<and>
     (\<exists>e. xc_erdqPtr s = xc_ersAddr s + 16 * of_nat c + e \<and> (e = 0 \<or> e = 8)) \<and>
     (\<exists>n p. ring_rep ERST_SIZE (\<lambda>i. xc_events s ! i) (\<lambda>i. IsCycleBitSet (xc_events s ! i)) (\<not> p) n p c (xc_eventCycleBit s) q)"

definition moved :: "u64 \<Rightarrow> bool \<Rightarrow> xctl \<Rightarrow> xctl" where
  "moved d b s = s\<lparr>xc_erdqPtr := d, xc_eventCycleBit := b\<rparr>"

lemma aligned_add:
  fixes w :: "'a :: len word"
  assumes "take_bit 4 w = 0" "e = 0 \<or> e = 8"
  shows "(w + e) AND NOT 0xF = w" "(w AND NOT 0xF) = w"
proof -
  have m: "(0xF :: 'a word) = mask 4" by (simp add: mask_eq_exp_minus_1)
  have b: "\<not> bit w j" if "j < 4" for j
  proof -
    have "bit (take_bit 4 w) j = False" unfolding assms(1) by simp
    then show ?thesis using that by (simp add: bit_take_bit_iff)
  qed
  have eight: "(8 :: 'a word) = push_bit 3 1" by (simp add: push_bit_eq_mult)
  have e: "j = 3" if "bit e j" for j
    using assms(2) that unfolding eight by (elim disjE) (simp_all only: bit_push_bit_iff bit_1_iff bit_0_eq bot_apply simp_thms, auto)
  have e4: "j < 4" if "bit e j" for j using e [OF that] by simp
  have "\<not> (bit w j \<and> bit e j)" for j using b [of j] e [of j] by auto
  then have "w AND e = 0" by (intro bit_eqI) (auto simp: bit_and_iff)
  then have "w + e = w OR e" by (rule disjunctive_add_eq_or)
  then show "(w + e) AND NOT 0xF = w" "(w AND NOT 0xF) = w"
    using b e4 by (auto intro!: bit_eqI dest: e4 simp: m bit_and_iff bit_or_iff bit_not_iff bit_mask_iff bit_imp_possible_bit)
qed


lemma take_bit_16: "take_bit 4 (16 * x :: 'a :: len word) = 0"
proof -
  have "16 * x = push_bit 4 x" by (simp add: push_bit_eq_mult mult.commute)
  then show ?thesis by (simp add: take_bit_push_bit)
qed

lemma ucast_sums:
  fixes a b :: u64
  shows "(ucast (a + b) :: u32) = ucast a + ucast b" "(ucast (a * b) :: u32) = ucast a * ucast b"
    "(ucast (of_nat n :: u64) :: u32) = of_nat n"
proof -
  have down: "(word_of_int (x mod 2 ^ LENGTH(64)) :: u32) = word_of_int x" for x
    by (simp add: word_of_int_eq_iff take_bit_eq_mod mod_mod_cancel)
  have u: "(ucast w :: u32) = word_of_int (uint w)" for w :: u64 by (rule ucast_eq)
  show add: "(ucast (a + b) :: u32) = ucast a + ucast b" for a b :: u64
    unfolding u uint_word_ariths(1) down by (rule wi_hom_add [symmetric])
  show "(ucast (a * b) :: u32) = ucast a * ucast b"
    unfolding u uint_word_ariths(3) down by (rule wi_hom_mult [symmetric])
  show "(ucast (of_nat n :: u64) :: u32) = of_nat n"
    by (induction n) (simp_all add: add)
qed

lemma event_pointers:
  assumes "events_ok SEG s c q"
  shows "IsLastDQPtr SEG s \<longleftrightarrow> c = 255" "unat ((DQPtr SEG s - ERSegment SEG s) div 16) = c"
    "setDQPtr (xc_ersAddr s) s = s\<lparr>xc_erdqPtr := xc_ersAddr s + 8\<rparr>"
    "setDQPtr (xc_erdqPtr s + 16) s = s\<lparr>xc_erdqPtr := xc_ersAddr s + 16 * of_nat (Suc c) + 8\<rparr>"
proof -
  obtain e where e: "xc_erdqPtr s = xc_ersAddr s + 16 * of_nat c + e" "e = 0 \<or> e = 8" using assms by (auto simp: events_ok_def)
  obtain g b where al: "SEG = 16 * g" "xc_ersAddr s = 16 * b" using assms by (auto simp: events_ok_def)
  have c: "c < 256" using assms by (simp add: events_ok_def)
  define v where "v = ucast b - g"
  have v: "ERSegment SEG s = 16 * v" unfolding ERSegment_def al ucast_sums by (simp add: v_def right_diff_distrib)
  have ue: "(ucast e :: u32) = 0 \<or> (ucast e :: u32) = 8" using e(2) by auto
  have "DQPtr SEG s = (16 * (v + of_nat c) + ucast e) AND NOT 0xF"
  proof -
    have "KERNEL_VIRTUAL_ADDRESS SEG (ucast (xc_erdqPtr s)) = 16 * (v + of_nat c) + ucast e"
      unfolding e(1) al ucast_sums by (simp add: v_def right_diff_distrib distrib_left)
    then show ?thesis by (simp add: DQPtr_def)
  qed
  then have d: "DQPtr SEG s = 16 * v + 16 * of_nat c"
    using aligned_add(1) [OF take_bit_16 ue, of "v + of_nat c"] by (simp add: distrib_left)
  have small: "unat (16 * of_nat a :: u32) = 16 * a" if "a < 256" for a
    using that of_nat_unat_u32 [of "16 * a"] by simp
  have "(16 * of_nat c :: u32) = 16 * of_nat 255 \<longleftrightarrow> c = 255"
    unfolding word_unat_eq_iff small [OF c] small [of 255, simplified] by simp
  then show "IsLastDQPtr SEG s \<longleftrightarrow> c = 255" by (simp add: IsLastDQPtr_def d v)
  show "unat ((DQPtr SEG s - ERSegment SEG s) div 16) = c"
    using small [OF c] by (simp add: d v unat_div_distrib)
  have set8: "w OR push_bit 3 1 = w + 8" if "take_bit 4 w = 0" for w :: u64
  proof -
    have "w AND push_bit 3 1 = 0"
    proof (rule bit_eqI)
      fix j
      have "bit (take_bit 4 w) j = False" unfolding that by simp
      then show "bit (w AND push_bit 3 1) j = bit (0 :: u64) j"
        unfolding bit_and_iff bit_push_bit_iff bit_1_iff by (auto simp: bit_take_bit_iff)
    qed
    then have "w + push_bit 3 1 = w OR push_bit 3 1" by (rule disjunctive_add_eq_or)
    then show ?thesis by (simp add: push_bit_eq_mult)
  qed
  have "take_bit 4 (16 * b) = 0" by (rule take_bit_16)
  then show "setDQPtr (xc_ersAddr s) s = s\<lparr>xc_erdqPtr := xc_ersAddr s + 8\<rparr>"
    unfolding setDQPtr_def al by (simp only: aligned_add(2) [OF _ disjI1 [OF refl]] set8)
  define w where "w = 16 * (b + of_nat (Suc c))"
  have w: "take_bit 4 w = 0" unfolding w_def by (rule take_bit_16)
  have p: "xc_erdqPtr s + 16 = w + e" unfolding e(1) al w_def by (simp add: distrib_left)
  have "setDQPtr (xc_erdqPtr s + 16) s = s\<lparr>xc_erdqPtr := w + 8\<rparr>"
    unfolding setDQPtr_def p aligned_add(1) [OF w e(2)] set8 [OF w] ..
  then show "setDQPtr (xc_erdqPtr s + 16) s = s\<lparr>xc_erdqPtr := xc_ersAddr s + 16 * of_nat (Suc c) + 8\<rparr>"
    unfolding w_def al by (simp add: distrib_left)
qed

section \<open>Publishing\<close>

text \<open>Operations that do not look at the pointer into the event ring, and keep the ring.\<close>

definition blind :: "'a xc_eff \<Rightarrow> bool" where
  "blind m \<longleftrightarrow> (\<forall>s d b. m (moved d b s) = map_option (map_prod id (moved d b)) (m s)) \<and>
     (\<forall>s r t. m s = Some (r, t) \<longrightarrow> xc_events t = xc_events s \<and> xc_ersAddr t = xc_ersAddr s \<and> xc_erdqPtr t = xc_erdqPtr s \<and>
        xc_eventCycleBit t = xc_eventCycleBit s)"

lemma blindI:
  assumes "\<And>s d b. m (moved d b s) = map_option (map_prod id (moved d b)) (m s)"
    "\<And>s r t. m s = Some (r, t) \<Longrightarrow> xc_events t = xc_events s \<and> xc_ersAddr t = xc_ersAddr s \<and> xc_erdqPtr t = xc_erdqPtr s \<and>
        xc_eventCycleBit t = xc_eventCycleBit s"
  shows "blind m"
  using assms by (auto simp: blind_def)

lemma blind_and_then: "blind m \<Longrightarrow> (\<And>x. blind (f x)) \<Longrightarrow> blind (and_then m f)"
  unfolding blind_def and_then_def by (auto split: option.splits sum.splits prod.splits) 

lemma blind_yield: "blind (yield x)" and blind_throw: "blind (throw e)" and blind_undef: "blind undef"
  by (auto simp: blind_def yield_def throw_def undef_def)

lemma blind_gets: "(\<And>s d b. f (moved d b s) = f s) \<Longrightarrow> blind (gets f)"
  by (auto simp: blind_def gets_def)

lemma blind_modify:
  "(\<And>s d b. f (moved d b s) = moved d b (f s)) \<Longrightarrow>
   (\<And>s. xc_events (f s) = xc_events s \<and> xc_ersAddr (f s) = xc_ersAddr s \<and> xc_erdqPtr (f s) = xc_erdqPtr s \<and>
      xc_eventCycleBit (f s) = xc_eventCycleBit s) \<Longrightarrow> blind (modify f)"
  by (auto simp: blind_def modify_def)

lemma blind_catch: "blind m \<Longrightarrow> (\<And>e. blind (h e)) \<Longrightarrow> blind (catch m h)"
  unfolding blind_def catch_def by (auto split: option.splits sum.splits prod.splits)

lemmas blind_rules = blind_and_then blind_yield blind_throw blind_undef blind_gets blind_modify blind_catch

lemma blind_ConsumeEventResult: "blind (ConsumeEventResult i)"
  unfolding ConsumeEventResult_def then_do_def
  by (intro blind_rules) (auto simp: moved_def intro!: blind_rules split: option.split)

lemma blind_OnInterrupt: "blind (OnInterrupt ctx r a)"
proof -
  have "blind (case v of Some (Inr _, ring') \<Rightarrow> modify (\<lambda>s. s\<lparr>xc_rings := rings(ctx \<mapsto> ring'), xc_handled := xc_handled s @ [(ctx, a)]\<rparr>)
      | _ \<Rightarrow> undef)" for v :: "((unit + unit) \<times> tring) option" and rings
  proof -
    have "blind (modify (\<lambda>s. s\<lparr>xc_rings := R, xc_handled := xc_handled s @ h\<rparr>))" for R h
      by (rule blind_modify) (simp_all add: moved_def)
    then show ?thesis by (simp add: blind_undef split: option.split sum.split prod.split)
  qed
  then have "blind (case rings ctx of None \<Rightarrow> undef | Some ring \<Rightarrow> (case UpdateDeEnQPtr (ucast (TRBPointer r)) ring of
      Some (Inr _, ring') \<Rightarrow> modify (\<lambda>s. s\<lparr>xc_rings := rings(ctx \<mapsto> ring'), xc_handled := xc_handled s @ [(ctx, a)]\<rparr>)
      | _ \<Rightarrow> undef))" for rings
    by (cases "rings ctx") (simp_all add: blind_undef)
  then show ?thesis unfolding OnInterrupt_def by (intro blind_rules) (simp_all add: moved_def)
qed

lemma blind_Consume: "blind (Consume t e er)"
proof (cases er)
  case (WaitedEventResult pid r)
  then show ?thesis by (simp add: blind_modify moved_def)
next
  case (InterruptEventResult ctx pid a r)
  have "blind (case v of WaitedEventResult x y \<Rightarrow> throw f | InterruptEventResult x y z r \<Rightarrow> OnInterrupt ctx e z)" for v f
    by (cases v) (simp_all add: blind_throw blind_OnInterrupt)
  then have "blind (case ValidateTransferResult e of Some x \<Rightarrow> throw x
      | None \<Rightarrow> and_then (ConsumeEventResult (ucast (TRBPointer e))) (\<lambda>v. case v of
          WaitedEventResult x y \<Rightarrow> throw (NotInterruptResult (TRBPointer e)) | InterruptEventResult x y z r \<Rightarrow> OnInterrupt ctx e z))"
    by (cases "ValidateTransferResult e") (simp_all add: blind_throw blind_and_then blind_ConsumeEventResult)
  then show ?thesis
    unfolding InterruptEventResult Consume.simps then_do_def by (intro blind_rules) (simp_all add: moved_def)
qed

lemma blind_publish: "blind (PublishEventResult e)"
proof -
  have "blind (case v of None \<Rightarrow> yield () | Some er \<Rightarrow> Consume i e er)" for v i
    by (cases v) (simp_all add: blind_yield blind_Consume)
  then show ?thesis unfolding PublishEventResult_def by (intro blind_rules) (simp add: moved_def)
qed

lemma blind_steps: "blind (steps PublishEventResult q)"
  by (induction q) (simp_all add: blind_yield then_do_def blind_and_then blind_publish)

text \<open>The loop publishes what is handed over, as long as it is allowed to.\<close>

lemma NotifyEvents_loop_publishes:
  assumes "events_ok SEG s c q" "length q \<le> m" "steps PublishEventResult q s = Some (Inr (), t)"
  shows "\<exists>d b c'. NotifyEvents_loop SEG m s = Some (Inr (), moved d b t) \<and> events_ok SEG (moved d b t) c' []"
  using assms
proof (induction m arbitrary: s c q t)
  case 0
  then have "t = s" "q = []" by (simp_all add: yield_def)
  moreover have "moved (xc_erdqPtr s) (xc_eventCycleBit s) s = s" by (simp add: moved_def)
  ultimately show ?case using 0(1) by (intro exI [of _ "xc_erdqPtr s"] exI [of _ "xc_eventCycleBit s"] exI [of _ c]) (simp add: yield_def)
next
  case (Suc m)
  obtain n p where ring: "ring_rep 256 (\<lambda>i. xc_events s ! i) (\<lambda>i. IsCycleBitSet (xc_events s ! i)) (\<not> p) n p c (xc_eventCycleBit s) q"
    and c: "c < 256" "length (xc_events s) = 256"
    using Suc.prems(1) by (auto simp: events_ok_def)
  note ptr = event_pointers [OF Suc.prems(1)]
  let ?e = "xc_events s ! c"
  have dq: "DQEvent SEG s = Some (Inr ?e, s)"
    using c by (simp add: DQEvent_def and_then_def gets_def yield_def ptr(2) Let_def)
  have g: "IsCycleBitSet ?e = xc_eventCycleBit s \<longleftrightarrow> q \<noteq> []" by (rule ring_get(1) [OF ring c(1)])
  show ?case
  proof (cases q)
    case Nil
    have "NotifyEvents_loop SEG (Suc m) s = Some (Inr (), s)"
      using g Nil by (simp add: and_then_def dq gets_def only_if_def yield_def)
    moreover have "t = s" using Nil Suc.prems(3) by (simp add: yield_def)
    moreover have "moved (xc_erdqPtr s) (xc_eventCycleBit s) s = s" by (simp add: moved_def)
    ultimately show ?thesis
      using Suc.prems(1) Nil by (intro exI [of _ "xc_erdqPtr s"] exI [of _ "xc_eventCycleBit s"] exI [of _ c]) simp
  next
    case (Cons e q')
    have e: "?e = e" "ring_rep 256 (\<lambda>i. xc_events s ! i) (\<lambda>i. IsCycleBitSet (xc_events s ! i)) (\<not> p) n p (Suc c) (xc_eventCycleBit s) q'"
      using ring_get(2) [OF ring c(1)] Cons by simp_all
    obtain s1 where s1: "PublishEventResult e s = Some (Inr (), s1)" "steps PublishEventResult q' s1 = Some (Inr (), t)"
      using Suc.prems(3) Cons by (auto simp: then_do_def and_then_def split: option.splits sum.splits prod.splits)
    have k: "xc_events s1 = xc_events s" "xc_ersAddr s1 = xc_ersAddr s" "xc_erdqPtr s1 = xc_erdqPtr s"
      "xc_eventCycleBit s1 = xc_eventCycleBit s"
      using blind_publish [of e] s1(1) by (auto simp: blind_def)
    define b where "b = (if c = 255 then \<not> xc_eventCycleBit s else xc_eventCycleBit s)"
    define d where "d = (if c = 255 then xc_ersAddr s + 8 else xc_ersAddr s + 16 * of_nat (Suc c) + 8)"
    define c1 where "c1 = (if c = 255 then 0 else Suc c)"
    define s' where "s' = (if IsLastDQPtr SEG s then s\<lparr>xc_eventCycleBit := \<not> xc_eventCycleBit s\<rparr> else s)"
    have s': "s' = moved (xc_erdqPtr s) b s" by (simp add: s'_def moved_def ptr(1) b_def)
    have pub: "PublishEventResult e s' = Some (Inr (), moved (xc_erdqPtr s) b s1)"
      using blind_publish [of e] s1(1) unfolding s' by (simp add: blind_def)
    have inc: "IncrementDQPtr SEG (moved (xc_erdqPtr s) b s1) = Some (Inr (), moved d b s1)"
    proof -
      have "IsLastDQPtr SEG (moved (xc_erdqPtr s) b s1) \<longleftrightarrow> c = 255"
        using ptr(1) k by (simp add: IsLastDQPtr_def DQPtr_def ERSegment_def moved_def)
      moreover have "setDQPtr x (moved y b s1) = moved (xc_erdqPtr (setDQPtr x s)) b s1" for x y
        by (simp add: setDQPtr_def moved_def)
      ultimately show ?thesis
        using ptr(3,4) k by (simp add: IncrementDQPtr_def modify_def moved_def d_def)
    qed
    have "NotifyEvents_loop SEG (Suc m) s = NotifyEvents_loop SEG m (moved d b s1)"
      using g Cons pub inc
      by (simp add: and_then_def then_do_def dq gets_def only_if_def modify_def e(1) s'_def [symmetric])
    moreover have "\<exists>n p. ring_rep 256 (\<lambda>i. xc_events s ! i) (\<lambda>i. IsCycleBitSet (xc_events s ! i)) (\<not> p) n p c1 b q'"
    proof (cases "c = 255")
      case False
      then show ?thesis using e(2) by (auto simp: c1_def b_def)
    next
      case True
      then have r: "ring_rep 256 (\<lambda>i. xc_events s ! i) (\<lambda>i. IsCycleBitSet (xc_events s ! i)) (\<not> p) n p 256 (xc_eventCycleBit s) q'"
        using e(2) by simp
      show ?thesis
      proof (cases "p = xc_eventCycleBit s")
        case False
        then have "ring_rep 256 (\<lambda>i. xc_events s ! i) (\<lambda>i. IsCycleBitSet (xc_events s ! i)) (\<not> p) n p 0 (\<not> xc_eventCycleBit s) q'"
          using ring_wrap_get(2) [OF r] by auto
        then show ?thesis using True by (intro exI [of _ n] exI [of _ p]) (simp add: c1_def b_def)
      next
        case p: True
        then have n: "n = 256" "q' = []" using r by (auto simp: ring_rep_def)
        then have "ring_rep 256 (\<lambda>i. xc_events s ! i) (\<lambda>i. IsCycleBitSet (xc_events s ! i)) p 0 (\<not> p) 256 (xc_eventCycleBit s) q'"
          using ring_wrap_put [of 256 "\<lambda>i. xc_events s ! i" "\<lambda>i. IsCycleBitSet (xc_events s ! i)" "\<not> p" p 256 "xc_eventCycleBit s" q'] r by simp
        then have "ring_rep 256 (\<lambda>i. xc_events s ! i) (\<lambda>i. IsCycleBitSet (xc_events s ! i)) p 0 (\<not> p) 0 (\<not> xc_eventCycleBit s) q'"
          using ring_wrap_get(2) p by blast
        then show ?thesis using True by (intro exI [of _ 0] exI [of _ "\<not> p"]) (simp add: c1_def b_def)
      qed
    qed
    moreover from calculation(2) have "events_ok SEG (moved d b s1) c1 q'"
      using Suc.prems(1) k c unfolding events_ok_def by (auto simp: moved_def c1_def d_def)
    moreover have "steps PublishEventResult q' (moved d b s1) = Some (Inr (), moved d b t)"
      using blind_steps [of q'] s1(2) by (simp add: blind_def)
    moreover have "moved d' b' (moved d b t) = moved d' b' t" for d' b' by (simp add: moved_def)
    ultimately show ?thesis using Suc.IH [of "moved d b s1" c1 q' "moved d b t"] Suc.prems(2) Cons by simp
  qed
qed


text \<open>C15: \<open>NotifyEvents\<close> publishes exactly the events that the hardware has handed over, in their order, and leaves the pointer and the
  cycle state of the driver behind the last of them, with none left; publishing gives each event to the result registered for its
  block.\<close>

theorem events_are_published_in_order:
  assumes "events_ok SEG s c q" "steps PublishEventResult q s = Some (Inr (), t)"
  shows "\<exists>d b c'. NotifyEvents SEG s = Some (Inr (), moved d b t) \<and> events_ok SEG (moved d b t) c' []"
proof -
  have "length q \<le> 256" using assms(1) ring_less by (auto simp: events_ok_def)
  then show ?thesis unfolding NotifyEvents_def by (rule NotifyEvents_loop_publishes [OF assms(1) _ assms(2)])
qed

text \<open>Two events on the ring, the first of a command that process 7 waits for.\<close>

definition sample_event :: "u32 \<Rightarrow> trb" where
  "sample_event a = \<lparr>trb_b1 = a, trb_b2 = 0, trb_b3 = 0x1000000, trb_b4 = 0x8401\<rparr>"

definition sample_events :: xctl where
  "sample_events = \<lparr>xc_events = sample_event 0x1000 # sample_event 0x2000 # replicate 254 TRB, xc_ersAddr = 0x8000,
     xc_erdqPtr = 0x8000, xc_eventCycleBit = True, xc_results = [0x1000 \<mapsto> WaitedEventResult 7 TRB], xc_completed = [],
     xc_rings = \<lambda>_. None, xc_handled = []\<rparr>"

lemma sample_events_ok: "events_ok 0 sample_events 0 [sample_event 0x1000, sample_event 0x2000]"
proof -
  let ?ev = "xc_events sample_events"
  have cyc: "IsCycleBitSet (sample_event a)" "\<not> IsCycleBitSet TRB" for a
    by (simp_all add: sample_event_def TRB_def IsCycleBitSet_def Bit_IsSet_def)
  have "IsCycleBitSet (?ev ! i) = (i < 2)" if "i < 256" for i
    using that by (cases i rule: nat.exhaust; cases "i - 1") (auto simp: sample_events_def cyc nth_Cons')
  moreover have "[0..<2] = [0, 1]" by (simp add: upt_conv_Cons)
  ultimately have "ring_rep 256 (\<lambda>i. ?ev ! i) (\<lambda>i. IsCycleBitSet (?ev ! i)) (\<not> True) 2 True 0 True [sample_event 0x1000, sample_event 0x2000]"
    by (simp add: ring_rep_def) (simp add: sample_events_def)
  then have "\<exists>n p. ring_rep 256 (\<lambda>i. ?ev ! i) (\<lambda>i. IsCycleBitSet (?ev ! i)) (\<not> p) n p 0 (xc_eventCycleBit sample_events)
      [sample_event 0x1000, sample_event 0x2000]"
    by (intro exI [of _ 2] exI [of _ True]) (simp add: sample_events_def)
  moreover have "\<exists>g b. (0 :: u32) = 16 * g \<and> (0x8000 :: u64) = 16 * b" by (intro exI [of _ 0] exI [of _ "0x800"]) simp
  ultimately show ?thesis unfolding events_ok_def
    by (intro conjI) (simp_all add: sample_events_def)
qed

theorem events_are_published_in_order_witness:
  "\<exists>t. NotifyEvents 0 sample_events = Some (Inr (), t) \<and> xc_completed t = [7]"
proof -
  have p: "TRBPointer (sample_event 0x1000) = 0x1000" "TRBPointer (sample_event 0x2000) = 0x2000"
    by (simp_all add: TRBPointer_def sample_event_def)
  have "\<exists>t. steps PublishEventResult [sample_event 0x1000, sample_event 0x2000] sample_events = Some (Inr (), t) \<and> xc_completed t = [7]"
    by (simp add: then_do_def and_then_def PublishEventResult_def gets_def modify_def yield_def p sample_events_def)
  then obtain t where t: "steps PublishEventResult [sample_event 0x1000, sample_event 0x2000] sample_events = Some (Inr (), t)"
      "xc_completed t = [7]" by blast
  then show ?thesis using events_are_published_in_order [OF sample_events_ok t(1)] by (auto simp: moved_def)
qed

end
