(* ===== verification/XhciContext.thy ===== *)
theory XhciContext
  imports XhciRing
begin

text \<open>
  The contexts through which the driver describes a device and its end points to the xHCI controller, from
  \<open>drivers/usb/xhci/XHCIContext.h\<close> and \<open>XHCIContext.cpp\<close>: the slot context, the end point contexts and
  what is computed from the end point descriptors of \<open>drivers/usb/USBStructures.h\<close>. Contexts are the words
  that the controller reads; \<open>char\<close> members of descriptors are signed bytes.
\<close>

section \<open>End point descriptors\<close>

datatype ep_direction = EP_IN | EP_OUT | EP_BI
datatype ep_type = EP_CONTROL | EP_ISOCHRONOUS | EP_BULK | EP_INTERRUPT

record endpoint_desc =
  bEndpointAddress :: u8
  bmAttributes :: u8
  wMaxPacketSize :: u16
  bInterval :: u8

definition EP_Direction :: "endpoint_desc \<Rightarrow> ep_direction" where
  "EP_Direction e = (if bEndpointAddress e AND 0x80 \<noteq> 0 then EP_IN else EP_OUT)"

definition EP_Address :: "endpoint_desc \<Rightarrow> u32" where
  "EP_Address e = ucast (bEndpointAddress e) AND 0xF"

definition EP_Type :: "endpoint_desc \<Rightarrow> ep_type" where
  "EP_Type e = (let ty = bmAttributes e AND 0x03 in
     if ty = 0 then EP_CONTROL else if ty = 1 then EP_ISOCHRONOUS else if ty = 2 then EP_BULK else EP_INTERRUPT)"

section \<open>The slot context\<close>

record slot_context =
  sl_context1 :: u32
  sl_context2 :: u32
  sl_context3 :: u32
  sl_context4 :: u32

datatype slot_state = Slot_Disabled_Enabled | Slot_Default | Slot_Addressed | Slot_Configured | Slot_Undefined

definition SetContextEntries :: "u32 \<Rightarrow> slot_context \<Rightarrow> slot_context" where
  "SetContextEntries val s = s\<lparr>sl_context1 := (sl_context1 s AND NOT 0x1F000000) OR push_bit 27 val\<rparr>"

definition Slot_Init :: "u32 \<Rightarrow> u32 \<Rightarrow> u32 \<Rightarrow> slot_context \<Rightarrow> slot_context" where
  "Slot_Init portId routeString speed s0 =
     (let s1 = s0\<lparr>sl_context1 := (sl_context1 s0 AND NOT 0xFFFFF) OR routeString\<rparr>;
          s2 = s1\<lparr>sl_context1 := (sl_context1 s1 AND NOT 0x00F00000) OR push_bit 20 speed\<rparr>;
          s3 = SetContextEntries 1 s2
      in s3\<lparr>sl_context2 := (sl_context2 s3 AND NOT 0x00FF0000) OR push_bit 16 portId\<rparr>)"

definition SlotState :: "slot_context \<Rightarrow> slot_state" where
  "SlotState s = (let state = drop_bit 27 (sl_context4 s) in
     if state = 0 then Slot_Disabled_Enabled else if state = 1 then Slot_Default else if state = 2 then Slot_Addressed
     else if state = 3 then Slot_Configured else Slot_Undefined)"

definition DevAddress :: "slot_context \<Rightarrow> u32" where
  "DevAddress s = sl_context4 s AND 0xFF"

definition DevSpeed :: "slot_context \<Rightarrow> u32" where
  "DevSpeed s = drop_bit 20 (sl_context1 s) AND 0xF"

section \<open>End point contexts\<close>

record ep_context =
  ep_context1 :: u32
  ep_context2 :: u32
  ep_trDQPtr :: u64
  ep_context3 :: u32

definition EndPointContext :: ep_context where
  "EndPointContext = \<lparr>ep_context1 = 0, ep_context2 = 0, ep_trDQPtr = 0, ep_context3 = 0\<rparr>"

definition EPType_set :: "u32 \<Rightarrow> ep_context \<Rightarrow> ep_context" where
  "EPType_set v e = e\<lparr>ep_context2 := (ep_context2 e AND NOT (push_bit 3 0x7)) OR push_bit 3 (v AND 0x7)\<rparr>"

definition EPType :: "ep_context \<Rightarrow> u32" where
  "EPType e = drop_bit 3 (ep_context2 e) AND 0x7"

text \<open>The value or-ed in is \<open>maxBurstSize && 0xFF << 8\<close>, the logical and: 1 or 0.\<close>

definition SetMaxBurstSize :: "u32 \<Rightarrow> ep_context \<Rightarrow> ep_context" where
  "SetMaxBurstSize maxBurstSize e =
     e\<lparr>ep_context2 := (ep_context2 e AND NOT (push_bit 8 0xFF)) OR (if maxBurstSize \<noteq> 0 \<and> push_bit 8 0xFF \<noteq> (0 :: u32) then 1 else 0)\<rparr>"

definition SetMaxESITPayload :: "u32 \<Rightarrow> ep_context \<Rightarrow> ep_context" where
  "SetMaxESITPayload p e = e\<lparr>ep_context3 := (ep_context3 e AND NOT (push_bit 16 0xFFFF)) OR push_bit 16 (p AND 0xFFFF)\<rparr>"

definition SetInterval :: "u32 \<Rightarrow> ep_context \<Rightarrow> ep_context" where
  "SetInterval interval e = e\<lparr>ep_context1 := (ep_context1 e AND NOT (push_bit 16 0xFF)) OR push_bit 16 (interval AND 0xFF)\<rparr>"

definition EP_MaxPacketSize :: "ep_context \<Rightarrow> u32" where
  "EP_MaxPacketSize e = drop_bit 16 (ep_context2 e) AND 0xFFFF"

datatype ep_state = EP_Disabled | EP_Running | EP_Halted | EP_Stopped | EP_Error | EP_Undefined

definition EPState :: "ep_context \<Rightarrow> ep_state" where
  "EPState e = (let state = ep_context1 e AND 0x7 in
     if state = 0 then EP_Disabled else if state = 1 then EP_Running else if state = 2 then EP_Halted
     else if state = 3 then EP_Stopped else if state = 4 then EP_Error else EP_Undefined)"

text \<open>\<open>EndPointContext::Init\<close>; \<open>maxPacketSize\<close> is the 16 bit value of a descriptor or of a port.\<close>

definition EP_Init :: "u32 \<Rightarrow> ep_direction \<Rightarrow> ep_type \<Rightarrow> u32 \<Rightarrow> ep_context \<Rightarrow> ep_context" where
  "EP_Init dqPtr dir type maxPacketSize e0 =
     (let avg = (if dir = EP_BI then 8 else if maxPacketSize div 2 = 0 then 1 else maxPacketSize div 2);
          (epType, avgTRBLen) = (case type of EP_CONTROL \<Rightarrow> (4, 8) | EP_ISOCHRONOUS \<Rightarrow> (1, avg) | EP_BULK \<Rightarrow> (2, avg) | EP_INTERRUPT \<Rightarrow> (3, avg));
          e1 = EPType_set (if dir = EP_IN then epType + 4 else epType) e0;
          e2 = e1\<lparr>ep_context1 := ep_context1 e1 AND 0xFF008000\<rparr>;
          e3 = e2\<lparr>ep_context2 := (ep_context2 e2 AND NOT (push_bit 16 0xFFFF)) OR push_bit 16 maxPacketSize\<rparr>;
          e4 = SetMaxBurstSize 0 e3;
          e5 = e4\<lparr>ep_context2 := (ep_context2 e4 AND NOT 0x7) OR 0x6\<rparr>
      in e5\<lparr>ep_context3 := avgTRBLen, ep_trDQPtr := ucast (dqPtr OR 0x1)\<rparr>)"

section \<open>Adding end points\<close>

abbreviation (input) FULL_SPEED :: u32 where "FULL_SPEED \<equiv> 1"
abbreviation (input) LOW_SPEED :: u32 where "LOW_SPEED \<equiv> 2"
abbreviation (input) HIGH_SPEED :: u32 where "HIGH_SPEED \<equiv> 3"
abbreviation (input) SUPER_SPEED :: u32 where "SUPER_SPEED \<equiv> 4"

function Interval_loop :: "u32 \<Rightarrow> u32 \<Rightarrow> u32" where
  "Interval_loop residue interval = (if residue \<ge> 2 then Interval_loop (residue div 2) (interval + 1) else interval)"
  by pat_completeness auto
termination
  by (relation "measure (\<lambda>(residue, _). unat residue)") (auto simp: unat_div_distrib word_le_nat_alt)

declare Interval_loop.simps [simp del]

text \<open>The exponent of the interval; \<open>bInterval\<close> is a signed byte.\<close>

definition InterruptInterval :: "u32 \<Rightarrow> u8 \<Rightarrow> u32" where
  "InterruptInterval speed b =
     (let interval = scast b in
      if speed = LOW_SPEED \<or> speed = FULL_SPEED then
        let i = Interval_loop (scast b * 8) 0 in if i < 3 then 3 else if i > 10 then 10 else i
      else if speed = HIGH_SPEED \<or> speed = SUPER_SPEED then
        if interval > 15 then 15 else if interval \<noteq> 0 then interval - 1 else interval
      else interval)"

text \<open>The contexts of a device, the slot and the thirty end points behind end point 0, and the end points added so far: their kind, their
  identifier and the transfer ring at the kernel address \<open>ring\<close> that was made for it.\<close>

datatype ep_kind = BulkIn | BulkOut | InterruptIn | InterruptOut

record input_context =
  ic_addContextFlags :: u32
  ic_dropContextFlags :: u32
  ic_slot :: slot_context
  ic_eps :: "ep_context list"
  ic_added :: "(ep_kind \<times> u32) list"

datatype ep_error = UnsupportedEndPoint ep_direction ep_type | InvalidEndPointIndex u32

definition DataEndPoint :: "u32 \<Rightarrow> u32 \<Rightarrow> endpoint_desc \<Rightarrow> input_context \<Rightarrow> ep_error + (nat \<times> u32 \<times> input_context)" where
  "DataEndPoint SEG ring e ic =
     (let epOffset = (if EP_Direction e = EP_IN then 1 else 2); epIndex = EP_Address e * 2 - epOffset
      in if epIndex \<ge> 30 then Inl (InvalidEndPointIndex epIndex)
         else Inr (unat epIndex, epIndex + 2,
           ic\<lparr>ic_eps := (ic_eps ic)[unat epIndex :=
             EP_Init (KERNEL_REAL_ADDRESS SEG ring) (EP_Direction e) (EP_Type e) (ucast (wMaxPacketSize e)) (ic_eps ic ! unat epIndex)]\<rparr>))"

definition InterruptEndPoint :: "u32 \<Rightarrow> u32 \<Rightarrow> endpoint_desc \<Rightarrow> input_context \<Rightarrow> ep_error + (nat \<times> u32 \<times> input_context)" where
  "InterruptEndPoint SEG ring e ic = (case DataEndPoint SEG ring e ic of
     Inl x \<Rightarrow> Inl x
   | Inr (i, epId, ic') \<Rightarrow>
       let maxBurstSize = drop_bit 11 (ucast (wMaxPacketSize e) AND 0x1800);
           c = SetInterval (InterruptInterval (DevSpeed (ic_slot ic')) (bInterval e))
                 (SetMaxESITPayload (ucast (wMaxPacketSize e) * (maxBurstSize + 1)) (SetMaxBurstSize maxBurstSize (ic_eps ic' ! i)))
       in Inr (i, epId, ic'\<lparr>ic_eps := (ic_eps ic')[i := c]\<rparr>))"

definition AddEndPoint :: "u32 \<Rightarrow> u32 \<Rightarrow> endpoint_desc \<Rightarrow> input_context \<Rightarrow> ep_error + (u32 \<times> input_context)" where
  "AddEndPoint SEG ring e ic =
     (let add = (\<lambda>kind. (\<lambda>r. case r of Inl x \<Rightarrow> Inl x | Inr (i, epId, ic') \<Rightarrow> Inr (epId, ic'\<lparr>ic_added := ic_added ic' @ [(kind, epId)]\<rparr>)))
      in case (EP_Direction e, EP_Type e) of
        (EP_IN, EP_BULK) \<Rightarrow> add BulkIn (DataEndPoint SEG ring e ic)
      | (EP_IN, EP_INTERRUPT) \<Rightarrow> add InterruptIn (InterruptEndPoint SEG ring e ic)
      | (EP_OUT, EP_BULK) \<Rightarrow> add BulkOut (DataEndPoint SEG ring e ic)
      | (EP_OUT, EP_INTERRUPT) \<Rightarrow> add InterruptOut (InterruptEndPoint SEG ring e ic)
      | (d, t) \<Rightarrow> Inl (UnsupportedEndPoint d t))"

text \<open>\<open>XHCIDevice::ConfigureEndPoint\<close> up to the commands: all end points of the configurations are added, the number of
  contexts and the flags are set. \<open>rings\<close> gives the rings in the order of the end points.\<close>

fun AddEndPoints_loop :: "u32 \<Rightarrow> (u32 \<times> endpoint_desc) list \<Rightarrow> u32 \<Rightarrow> u32 \<Rightarrow> input_context \<Rightarrow> ep_error + (u32 \<times> u32 \<times> input_context)" where
  "AddEndPoints_loop SEG [] lastEPId addContextFlag ic = Inr (lastEPId, addContextFlag, ic)"
| "AddEndPoints_loop SEG ((ring, e) # es) lastEPId addContextFlag ic = (case AddEndPoint SEG ring e ic of
     Inl x \<Rightarrow> Inl x
   | Inr (epId, ic') \<Rightarrow> AddEndPoints_loop SEG es (if lastEPId < epId then epId else lastEPId)
       (addContextFlag OR push_bit (unat epId) 1) ic')"

definition Device_ConfigureEndPoint :: "u32 \<Rightarrow> (u32 \<times> endpoint_desc) list \<Rightarrow> input_context \<Rightarrow> ep_error + input_context" where
  "Device_ConfigureEndPoint SEG es ic = (case AddEndPoints_loop SEG es 0 1 ic of
     Inl x \<Rightarrow> Inl x
   | Inr (lastEPId, addContextFlag, ic') \<Rightarrow> Inr (ic'\<lparr>ic_slot := SetContextEntries lastEPId (ic_slot ic'),
       ic_addContextFlags := addContextFlag, ic_dropContextFlags := NOT addContextFlag AND NOT 0x3\<rparr>))"

section \<open>What they mean\<close>

lemma Interval_loop_log:
  "2 ^ n \<le> unat r \<Longrightarrow> unat r < 2 ^ Suc n \<Longrightarrow> Interval_loop r i = i + of_nat n"
proof (induction n arbitrary: r i)
  case 0
  then show ?case by (subst Interval_loop.simps) (simp add: word_le_nat_alt)
next
  case (Suc n)
  have "2 \<le> (2 :: nat) ^ Suc n" by simp
  then have "2 \<le> r" using Suc.prems(1) by (simp add: word_le_nat_alt del: power_Suc)
  moreover have "2 ^ n \<le> unat (r div 2)" "unat (r div 2) < 2 ^ Suc n" using Suc.prems by (simp_all add: unat_div_distrib)
  ultimately show ?case using Suc.IH [of "r div 2" "i + 1"] by (subst Interval_loop.simps) simp
qed


lemma floor_log:
  fixes m :: nat
  assumes "0 < m"
  obtains n where "2 ^ n \<le> m" "m < 2 ^ Suc n"
proof -
  have "\<exists>n. 2 ^ n \<le> m \<and> m < 2 ^ Suc n"
    using assms
  proof (induction m rule: less_induct)
    case (less m)
    show ?case
    proof (cases "m = 1")
      case False
      then obtain n where "2 ^ n \<le> m div 2" "m div 2 < 2 ^ Suc n" using less.IH [of "m div 2"] less.prems by auto
      then have "2 ^ Suc n \<le> m" "m < 2 ^ Suc (Suc n)" by auto
      then show ?thesis by blast
    qed (auto intro: exI [of _ 0])
  qed
  then show thesis using that by blast
qed

lemma byte_less: "unat (b :: u8) < 256"
  using unsigned_less [of b, where ?'a = nat] by simp

lemma sint_byte: "sint (b :: u8) = (if unat b < 128 then int (unat b) else int (unat b) - 256)"
proof -
  have u: "uint b = int (unat b)" by simp
  have b: "unat b < 256" by (rule byte_less)
  have "bit (uint b) 7 \<longleftrightarrow> \<not> unat b < 128"
  proof (cases "unat b < 128")
    case False
    then have "uint b div 128 = 1" using u b by linarith
    then show ?thesis using False by (simp add: bit_iff_odd)
  next
    case True
    then have "uint b div 128 = 0" using u by linarith
    then show ?thesis using True by (simp add: bit_iff_odd)
  qed
  moreover have "take_bit 8 (uint b) = uint b" by (simp add: unsigned_take_bit_eq [symmetric] take_bit_word_eq_self)
  ultimately have "sint b = (if unat b < 128 then uint b else uint b - 256)"
    by (simp add: sint_uint signed_take_bit_eq_take_bit_minus)
  then show ?thesis by simp
qed

lemma word_range: "(4294967296 :: u32) = 0"
  by (simp add: word_uint_eq_iff)

lemma slow_interval:
  assumes "b \<noteq> 0" "speed = FULL_SPEED \<or> speed = LOW_SPEED"
  defines "n \<equiv> unat (InterruptInterval speed b)"
  shows "2 ^ n \<le> 8 * unat b \<and> 8 * unat b < 2 ^ Suc n \<and> 3 \<le> n \<and> n \<le> 10"
proof -
  define B where "B = unat b"
  have B: "0 < B" "B < 256" using assms byte_less [of b] by (simp_all add: B_def unat_gt_0)
  note sp = assms(2)
  show ?thesis
  proof (cases "B < 128")
    case True
    then have "(scast b :: u32) = of_nat B" by (simp add: scast_eq sint_byte B_def)
    then have r: "unat (scast b * 8 :: u32) = 8 * B" using B of_nat_unat_u32 [of "B * 8"] by simp
    obtain m where m: "2 ^ m \<le> 8 * B" "8 * B < 2 ^ Suc m" using floor_log [of "8 * B"] B by auto
    have "m < 10"
    proof (rule ccontr)
      assume "\<not> m < 10"
      then have "(2 :: nat) ^ 10 \<le> 2 ^ m" by (intro power_increasing) simp_all
      then show False using m(1) True by simp
    qed
    moreover have "3 \<le> m"
    proof (rule ccontr)
      assume "\<not> 3 \<le> m"
      then have "(2 :: nat) ^ Suc m \<le> 2 ^ 3" by (intro power_increasing) simp_all
      then show False using m(2) B by simp
    qed
    moreover have "Interval_loop (scast b * 8) 0 = of_nat m" using Interval_loop_log [of m "scast b * 8" 0] m r by simp
    ultimately have "n = m"
      using sp by (auto simp: n_def InterruptInterval_def Let_def word_less_nat_alt of_nat_unat_u32)
    then show ?thesis using m \<open>m < 10\<close> \<open>3 \<le> m\<close> by (simp add: B_def)
  next
    case False
    then have "(scast b :: u32) = of_int (int B - 256)" by (simp add: scast_eq sint_byte B_def)
    also have "\<dots> * 8 = of_int (4294967296 - 8 * (256 - int B))"
      using of_int_diff [of 4294967296 "8 * (256 - int B)", where ?'a = u32] word_range by (simp add: algebra_simps)
    also have "\<dots> = of_nat (4294967296 - 8 * (256 - B))" using B by (simp add: of_nat_diff)
    finally have sb: "(scast b :: u32) * 8 = of_nat (4294967296 - 8 * (256 - B))" .
    have r: "unat (scast b * 8 :: u32) = 4294967296 - 8 * (256 - B)"
      unfolding sb by (rule of_nat_unat_u32) (use B False in simp)
    have "Interval_loop (scast b * 8) 0 = of_nat 31"
      using Interval_loop_log [of 31 "scast b * 8" 0] r False B by simp
    then have "n = 10" using sp by (auto simp: n_def InterruptInterval_def Let_def)
    then show ?thesis using False B by (simp add: B_def)
  qed
qed

lemma zero_interval: "speed = FULL_SPEED \<or> speed = LOW_SPEED \<Longrightarrow> unat (InterruptInterval speed 0) = 3"
  by (auto simp: InterruptInterval_def Let_def Interval_loop.simps)

lemma fast_interval:
  assumes "speed = HIGH_SPEED \<or> speed = SUPER_SPEED"
  shows "unat (InterruptInterval speed b) = min 15 (unat b - 1)"
proof -
  define i :: u32 where "i = scast b"
  have I: "InterruptInterval speed b = (if i > 15 then 15 else if i \<noteq> 0 then i - 1 else i)"
    using assms by (auto simp: InterruptInterval_def Let_def i_def)
  show ?thesis
  proof (cases "unat b < 128")
    case True
    then have "unat i = unat b"
      using of_nat_unat_u32 [of "unat b"] by (simp add: i_def scast_eq sint_byte)
    moreover have "unat (i - 1) = unat i - 1" if "i \<noteq> 0" using that by (simp add: unat_minus_one)
    ultimately show ?thesis using I by (auto simp: word_less_nat_alt)
  next
    case False
    have b: "unat b < 256" by (rule byte_less)
    have "i = of_int (int (unat b) - 256)" using False by (simp add: i_def scast_eq sint_byte)
    also have "\<dots> = of_int (4294967296 + (int (unat b) - 256))"
      using word_range by (simp only: of_int_add of_int_numeral) simp
    also have "\<dots> = of_nat (4294967296 - (256 - unat b))" using b by (simp add: of_nat_diff)
    finally have i: "i = of_nat (4294967296 - (256 - unat b))" .
    have "unat i = 4294967296 - (256 - unat b)"
      unfolding i by (rule of_nat_unat_u32) (use b False in simp)
    then have "15 < i" using b False by (simp add: word_less_nat_alt)
    then show ?thesis using I False by simp
  qed
qed

text \<open>C25: The exponent that the driver computes for an interrupt end point, for every byte of the descriptor (which is read as a
  signed number) and every speed. For a full or low speed device it is the binary logarithm of the interval of the descriptor in
  units of an eighth of a frame and lies in the range 3 to 10 of the controller, with 3 for the byte 0; for a high or super speed
  device it is the byte less one, between 0 and 15; for any other speed the byte is passed on with its sign.\<close>

theorem interrupt_interval_is_logarithm:
  "let n = unat (InterruptInterval speed b)
   in if speed = FULL_SPEED \<or> speed = LOW_SPEED then
        if b = 0 then n = 3 else 2 ^ n \<le> 8 * unat b \<and> 8 * unat b < 2 ^ Suc n \<and> 3 \<le> n \<and> n \<le> 10
      else if speed = HIGH_SPEED \<or> speed = SUPER_SPEED then n = min 15 (unat b - 1)
      else InterruptInterval speed b = scast b"
proof (cases "speed = FULL_SPEED \<or> speed = LOW_SPEED")
  case True
  then show ?thesis using slow_interval [of b speed] zero_interval [of speed] by (simp add: Let_def)
next
  case False
  then show ?thesis using fast_interval [of speed b] by (simp add: Let_def InterruptInterval_def)
qed

end
