(* ===== verification/Display.thy ===== *)
theory Display
  imports Effects
begin

text \<open>
  The text console: \<open>display/Display.h\<close> and \<open>Display.cpp\<close> with the VGA text mode of \<open>VGAConsole.cpp\<close>. The
  kernel and every process group have a buffer of characters and attributes and a cursor of their own; what
  the kernel or the process group in the foreground writes also goes to the video hardware, through the three
  virtual methods of the class, which are the fields of a record here.

  The colours of \<open>ColorPalettes.h\<close> and the character \<open>NO_CHAR\<close> come from the library \<open>libupanix\<close> and are
  parameters. The \<open>memcpy\<close> of overlapping bytes of one array, always towards lower addresses here, moves them (as a copy byte
  by byte does; the C standard leaves it undefined). A cursor is never negative (\<open>MoveCursor\<close> and \<open>SetCursor\<close>
  refuse it), so positions are natural numbers.
\<close>

section \<open>Attributes\<close>

record palette =
  FG_WHITE :: u8
  FG_BLACK :: u8
  FG_RED :: u8
  BG_WHITE :: u8
  BG_BLACK :: u8
  BG_GREEN :: u8
  NO_CHAR :: u8

record attribute =
  m_blink :: u8
  m_fgColor :: u8
  m_bgColor :: u8
  m_Attr :: u8

definition UpdateAttrVal :: "attribute \<Rightarrow> attribute" where
  "UpdateAttrVal a = a\<lparr>m_Attr := m_blink a OR m_fgColor a OR m_bgColor a\<rparr>"

definition Attribute_default :: "palette \<Rightarrow> attribute" where
  "Attribute_default P = UpdateAttrVal \<lparr>m_blink = 0, m_fgColor = FG_WHITE P, m_bgColor = BG_BLACK P, m_Attr = 0\<rparr>"

definition Attribute_colors :: "u8 \<Rightarrow> u8 \<Rightarrow> attribute" where
  "Attribute_colors fgColor bgColor = UpdateAttrVal \<lparr>m_blink = 0, m_fgColor = fgColor, m_bgColor = bgColor, m_Attr = 0\<rparr>"

definition Attribute_blink :: "u8 \<Rightarrow> u8 \<Rightarrow> u8 \<Rightarrow> attribute" where
  "Attribute_blink blink fgColor bgColor = UpdateAttrVal \<lparr>m_blink = blink, m_fgColor = fgColor, m_bgColor = bgColor, m_Attr = 0\<rparr>"

definition Attribute_raw :: "palette \<Rightarrow> u8 \<Rightarrow> attribute" where
  "Attribute_raw P rawAttr = UpdateAttrVal \<lparr>m_blink = rawAttr AND 0x80, m_fgColor = rawAttr AND FG_WHITE P,
     m_bgColor = rawAttr AND BG_WHITE P, m_Attr = 0\<rparr>"

definition SetBlink :: "u8 \<Rightarrow> attribute \<Rightarrow> attribute" where
  "SetBlink blink a = UpdateAttrVal (a\<lparr>m_blink := blink\<rparr>)"

definition SetFGColor :: "u8 \<Rightarrow> attribute \<Rightarrow> attribute" where
  "SetFGColor fgColor a = UpdateAttrVal (a\<lparr>m_fgColor := fgColor\<rparr>)"

definition SetBGColor :: "u8 \<Rightarrow> attribute \<Rightarrow> attribute" where
  "SetBGColor bgColor a = UpdateAttrVal (a\<lparr>m_bgColor := bgColor\<rparr>)"

definition WHITE_ON_BLACK :: "palette \<Rightarrow> u8" where
  "WHITE_ON_BLACK P = m_Attr (Attribute_colors (FG_WHITE P) (BG_BLACK P))"

section \<open>Buffers\<close>

definition copy_bytes :: "nat \<Rightarrow> nat \<Rightarrow> nat \<Rightarrow> u8 list \<Rightarrow> u8 list" where
  "copy_bytes dest src n xs = take dest xs @ take n (drop src xs) @ drop (dest + n) xs"

abbreviation (input) BLANK :: u8 where "BLANK \<equiv> 0x20"

record dbuf =
  db_cursor :: nat
  db_bytes :: "u8 list"

fun blanks :: "palette \<Rightarrow> nat \<Rightarrow> u8 list" where
  "blanks P 0 = []"
| "blanks P (Suc n) = BLANK # WHITE_ON_BLACK P # blanks P n"

definition DisplayBuffer :: "palette \<Rightarrow> nat \<Rightarrow> nat \<Rightarrow> dbuf" where
  "DisplayBuffer P rows columns = \<lparr>db_cursor = 0, db_bytes = blanks P (rows * columns)\<rparr>"

datatype caller = Kernel | Process nat

text \<open>\<open>'v\<close> is the state of the video hardware, \<open>d_caller\<close> who runs, \<open>d_fg\<close> the process group in the foreground.\<close>

record 'v disp =
  d_rows :: nat
  d_cols :: nat
  d_kernel :: dbuf
  d_groups :: "nat \<rightharpoonup> dbuf"
  d_fg :: "nat option"
  d_caller :: caller
  d_video :: 'v

record 'v console =
  DirectPutChar :: "nat \<Rightarrow> u8 \<Rightarrow> u8 \<Rightarrow> 'v \<Rightarrow> 'v option"
  DoScrollDown :: "'v \<Rightarrow> 'v option"
  GotoCursor :: "nat \<Rightarrow> 'v \<Rightarrow> 'v option"

type_synonym ('v, 'a) d_eff = "('v disp, unit, 'a) eff"

definition on_screen :: "'v disp \<Rightarrow> bool" where
  "on_screen s = (case d_caller s of Kernel \<Rightarrow> True | Process g \<Rightarrow> d_fg s = Some g)"

definition GetDisplayBuffer :: "('v, dbuf) d_eff" where
  "GetDisplayBuffer = and_then (gets id) (\<lambda>s. case d_caller s of
     Kernel \<Rightarrow> yield (d_kernel s)
   | Process g \<Rightarrow> (case d_groups s g of None \<Rightarrow> undef | Some b \<Rightarrow> yield b))"

definition change_buffer :: "(dbuf \<Rightarrow> dbuf) \<Rightarrow> ('v, unit) d_eff" where
  "change_buffer f = and_then GetDisplayBuffer (\<lambda>b. modify (\<lambda>s. case d_caller s of
     Kernel \<Rightarrow> s\<lparr>d_kernel := f b\<rparr>
   | Process g \<Rightarrow> s\<lparr>d_groups := (d_groups s)(g \<mapsto> f b)\<rparr>))"

definition video :: "('v \<Rightarrow> 'v option) \<Rightarrow> ('v, unit) d_eff" where
  "video f = and_then (gets d_video) (\<lambda>v. case f v of None \<Rightarrow> undef | Some v' \<Rightarrow> modify (\<lambda>s. s\<lparr>d_video := v'\<rparr>))"

definition GetCurrentCursorPosition :: "('v, nat) d_eff" where
  "GetCurrentCursorPosition = and_then GetDisplayBuffer (\<lambda>b. yield (db_cursor b))"

definition GetCurrentDisplayBytePosition :: "('v, nat) d_eff" where
  "GetCurrentDisplayBytePosition = and_then GetDisplayBuffer (\<lambda>b. yield (db_cursor b * 2))"

definition Display_GetChar :: "nat \<Rightarrow> ('v, u8) d_eff" where
  "Display_GetChar iPos = and_then GetDisplayBuffer (\<lambda>b. if iPos < length (db_bytes b) then yield (db_bytes b ! iPos) else undef)"

definition Buffer_PutChar :: "nat \<Rightarrow> u8 \<Rightarrow> ('v, bool) d_eff" where
  "Buffer_PutChar pos val = and_then (Display_GetChar pos) (\<lambda>old.
     if old \<noteq> val then then_do (change_buffer (\<lambda>b. b\<lparr>db_bytes := (db_bytes b)[pos := val]\<rparr>)) (yield True) else yield False)"

definition PutCharOnBuffer :: "nat \<Rightarrow> u8 \<Rightarrow> u8 \<Rightarrow> ('v, bool) d_eff" where
  "PutCharOnBuffer iPos ch attr = and_then (Buffer_PutChar iPos ch) (\<lambda>charChanged.
     and_then (Buffer_PutChar (iPos + 1) attr) (\<lambda>attrChanged. yield (charChanged \<or> attrChanged)))"

definition PutChar :: "'v console \<Rightarrow> nat \<Rightarrow> u8 \<Rightarrow> u8 \<Rightarrow> ('v, unit) d_eff" where
  "PutChar C iPos ch attr = and_then (PutCharOnBuffer iPos ch attr) (\<lambda>changed. and_then (gets on_screen) (\<lambda>screen.
     only_if (changed \<and> screen) (video (DirectPutChar C iPos ch attr))))"

definition UpdateCursorPosition :: "'v console \<Rightarrow> nat \<Rightarrow> bool \<Rightarrow> ('v, unit) d_eff" where
  "UpdateCursorPosition C iCursorPos bUpdateCursorOnScreen = then_do (change_buffer (\<lambda>b. b\<lparr>db_cursor := iCursorPos\<rparr>))
     (and_then (gets on_screen) (\<lambda>screen.
       only_if (bUpdateCursorOnScreen \<and> screen) (and_then GetCurrentCursorPosition (\<lambda>p. video (GotoCursor C p)))))"

section \<open>Operations\<close>

text \<open>The bytes of the buffer one line up, and a blank line.\<close>

definition scrolled :: "palette \<Rightarrow> nat \<Rightarrow> nat \<Rightarrow> u8 list \<Rightarrow> u8 list option" where
  "scrolled P rows cols bs =
     (let n = (rows - 1) * cols * 2; moved = copy_bytes 0 (cols * 2) n bs
      in if rows = 0 \<or> length bs < n + cols * 2 then None else Some (take n moved @ blanks P cols @ drop (n + cols * 2) moved))"

definition ScrollDown :: "palette \<Rightarrow> 'v console \<Rightarrow> ('v, unit) d_eff" where
  "ScrollDown P C = and_then (gets id) (\<lambda>s. and_then GetDisplayBuffer (\<lambda>b.
     only_if (db_cursor b \<ge> d_rows s * d_cols s)
       (case scrolled P (d_rows s) (d_cols s) (db_bytes b) of
          None \<Rightarrow> undef
        | Some bs \<Rightarrow> then_do (change_buffer (\<lambda>b. b\<lparr>db_bytes := bs\<rparr>))
            (then_do (only_if (on_screen s) (video (DoScrollDown C)))
              (UpdateCursorPosition C ((d_rows s - 1) * d_cols s) True)))))"

definition NextLine :: "palette \<Rightarrow> 'v console \<Rightarrow> ('v, unit) d_eff" where
  "NextLine P C = and_then (gets d_cols) (\<lambda>cols. and_then GetCurrentCursorPosition (\<lambda>p.
     if cols = 0 then undef
     else then_do (UpdateCursorPosition C ((p div cols + 1) * cols) True) (ScrollDown P C)))"

definition Character_plain :: "palette \<Rightarrow> 'v console \<Rightarrow> u8 \<Rightarrow> u8 \<Rightarrow> ('v, unit) d_eff" where
  "Character_plain P C ch attr = and_then GetCurrentDisplayBytePosition (\<lambda>i. then_do (PutChar C i ch attr)
     (and_then GetCurrentCursorPosition (\<lambda>p. then_do (UpdateCursorPosition C (p + 1) True) (ScrollDown P C))))"

definition Character :: "palette \<Rightarrow> 'v console \<Rightarrow> u8 \<Rightarrow> u8 \<Rightarrow> ('v, unit) d_eff" where
  "Character P C ch attr =
     (if ch = 0x0A then NextLine P C
      else if ch = 0x09 then steps (\<lambda>_. Character_plain P C BLANK attr) [0 ..< 4]
      else Character_plain P C ch attr)"

text \<open>A message is given without its final 0.\<close>

definition Message :: "palette \<Rightarrow> 'v console \<Rightarrow> u8 list \<Rightarrow> attribute \<Rightarrow> ('v, unit) d_eff" where
  "Message P C message attr = steps (\<lambda>ch. Character P C ch (m_Attr attr)) message"

definition Message_raw :: "palette \<Rightarrow> 'v console \<Rightarrow> u8 list \<Rightarrow> u8 \<Rightarrow> ('v, unit) d_eff" where
  "Message_raw P C message rawAttr = steps (\<lambda>ch. Character P C ch (m_Attr (Attribute_raw P rawAttr))) message"

definition nMessage :: "palette \<Rightarrow> 'v console \<Rightarrow> u8 list \<Rightarrow> nat \<Rightarrow> attribute \<Rightarrow> ('v, unit) d_eff" where
  "nMessage P C message len attr =
     (if length message < len then undef else steps (\<lambda>i. Character P C (message ! i) (m_Attr attr)) [0 ..< len])"

definition ClearScreen :: "palette \<Rightarrow> 'v console \<Rightarrow> ('v, unit) d_eff" where
  "ClearScreen P C = and_then (gets id) (\<lambda>s.
     then_do (steps (\<lambda>i. PutChar C (2 * i) BLANK (WHITE_ON_BLACK P)) [0 ..< d_rows s * d_cols s])
       (UpdateCursorPosition C 0 True))"

text \<open>The loop of \<open>ClearLine\<close>, by the character position \<open>p\<close> of the byte position \<open>2 * p\<close>.\<close>

function ClearLine_loop :: "palette \<Rightarrow> 'v console \<Rightarrow> nat \<Rightarrow> nat \<Rightarrow> ('v, unit) d_eff" where
  "ClearLine_loop P C cols p =
     (if cols = 0 then undef
      else if p mod cols \<noteq> 0 then then_do (PutChar C (2 * p) BLANK (WHITE_ON_BLACK P)) (ClearLine_loop P C cols (p + 1))
      else yield ())"
  by pat_completeness auto
termination
proof (relation "measure (\<lambda>(_, _, cols, p). if p mod cols = 0 then 0 else cols - p mod cols)", goal_cases)
  case (2 P C cols p)
  then have "p mod cols < cols" by simp
  then show ?case using 2 by (cases "Suc (p mod cols) = cols") (auto simp: mod_Suc intro: diff_less_mono2)
qed simp

declare ClearLine_loop.simps [simp del]

definition ClearLine :: "palette \<Rightarrow> 'v console \<Rightarrow> int \<Rightarrow> ('v, unit) d_eff" where
  "ClearLine P C iStartPos = and_then (gets d_cols) (\<lambda>cols. and_then GetCurrentCursorPosition (\<lambda>p.
     let start = (if iStartPos = - 1 then p else if \<not> (0 \<le> iStartPos \<and> iStartPos < int cols) then p else nat iStartPos)
     in then_do (ClearLine_loop P C cols start) (UpdateCursorPosition C start True)))"

definition SetCursor :: "'v console \<Rightarrow> int \<Rightarrow> bool \<Rightarrow> ('v, unit) d_eff" where
  "SetCursor C iCurPos bUpdateCursorOnScreen = and_then (gets id) (\<lambda>s.
     only_if (0 \<le> iCurPos \<and> iCurPos < int (d_rows s * d_cols s)) (UpdateCursorPosition C (nat iCurPos) bUpdateCursorOnScreen))"

text \<open>The sum of \<open>MoveCursor\<close> may overflow, which is undefined.\<close>

definition MoveCursor :: "'v console \<Rightarrow> int \<Rightarrow> ('v, unit) d_eff" where
  "MoveCursor C iOffSet = and_then (gets id) (\<lambda>s. and_then GetCurrentCursorPosition (\<lambda>p.
     let iPos = int p + iOffSet
     in if iPos > 2147483647 \<or> iPos < - 2147483648 then undef
        else only_if (0 \<le> iPos \<and> iPos < int (d_cols s * d_rows s)) (UpdateCursorPosition C (nat iPos) True)))"

definition RawCharacter :: "palette \<Rightarrow> 'v console \<Rightarrow> u8 \<Rightarrow> u8 \<Rightarrow> bool \<Rightarrow> ('v, unit) d_eff" where
  "RawCharacter P C ch attr bUpdateCursorOnScreen = and_then GetCurrentDisplayBytePosition (\<lambda>i.
     then_do (PutChar C i (if ch = NO_CHAR P then BLANK else ch) attr)
       (and_then GetCurrentCursorPosition (\<lambda>p. UpdateCursorPosition C (p + 1) bUpdateCursorOnScreen)))"

text \<open>A picture of \<open>rows\<close> lines of \<open>cols\<close> characters; \<open>src\<close> holds the pairs of a character and an attribute. \<open>curPos\<close>, an \<open>int\<close>, grows
  by an \<open>unsigned\<close>, so it wraps around.\<close>

definition wrap_int :: "int \<Rightarrow> int" where
  "wrap_int i = sint (word_of_int i :: u32)"

definition RawCharacterArea :: "palette \<Rightarrow> 'v console \<Rightarrow> (u8 \<times> u8) list \<Rightarrow> nat \<Rightarrow> nat \<Rightarrow> int \<Rightarrow> ('v, unit) d_eff" where
  "RawCharacterArea P C src rows cols curPos = and_then (gets d_cols) (\<lambda>maxColumns.
     if length src < rows * cols then undef
     else then_do (SetCursor C curPos False)
       (steps (\<lambda>r. then_do
            (steps (\<lambda>c. RawCharacter P C (fst (src ! (r * cols + c))) (m_Attr (Attribute_raw P (snd (src ! (r * cols + c))))) False) [0 ..< cols])
            (SetCursor C (wrap_int (curPos + int ((r + 1) * maxColumns))) False))
          [0 ..< rows]))"

text \<open>\<open>LoadMessage\<close> pads the message to 50 columns in a buffer of 50 bytes, counting in a byte.\<close>

definition LoadMessage :: "palette \<Rightarrow> 'v console \<Rightarrow> u8 list \<Rightarrow> bool \<Rightarrow> ('v, unit) d_eff" where
  "LoadMessage P C loadMessage success =
     (let width = (50 - of_nat (length loadMessage) :: u8); white = Attribute_colors (FG_WHITE P) (BG_BLACK P)
      in if unat width \<ge> 50 then undef
         else then_do (Message P C [0x0A, BLANK] white) (then_do (Message P C loadMessage white)
           (then_do (Message P C (replicate (unat width) BLANK) white)
             (if success then Message P C [0x5B, BLANK, 0x4F, 0x4B, BLANK, 0x5D] (Attribute_colors (FG_BLACK P) (BG_GREEN P))
              else Message P C [0x5B, BLANK, 0x46, 0x41, 0x49, 0x4C, 0x45, 0x44, BLANK, 0x5D] (Attribute_colors (FG_RED P) (BG_WHITE P))))))"

text \<open>\<open>GotoCursor\<close> looks at the cursor of the caller, not of the foreground.\<close>

definition RefreshScreen :: "'v console \<Rightarrow> ('v, unit) d_eff" where
  "RefreshScreen C = and_then (gets id) (\<lambda>s. case d_fg s of
     None \<Rightarrow> yield ()
   | Some g \<Rightarrow> (case d_groups s g of
       None \<Rightarrow> undef
     | Some b \<Rightarrow> if length (db_bytes b) < 2 * (d_rows s * d_cols s) then undef
         else then_do (steps (\<lambda>i. video (DirectPutChar C (2 * i) (db_bytes b ! (2 * i)) (db_bytes b ! (2 * i + 1)))) [0 ..< d_rows s * d_cols s])
           (and_then GetCurrentCursorPosition (\<lambda>p. video (GotoCursor C p)))))"

text \<open>A new process group gets a buffer.\<close>

definition CreateDisplayBuffer :: "palette \<Rightarrow> nat \<Rightarrow> ('v, unit) d_eff" where
  "CreateDisplayBuffer P g = modify (\<lambda>s. s\<lparr>d_groups := (d_groups s)(g \<mapsto> DisplayBuffer P (d_rows s) (d_cols s))\<rparr>)"

text \<open>The constructor of \<open>ProcessGroup\<close>, and the switch of \<open>SessionManager_SwitchToSession\<close> to a session that runs.\<close>

definition ProcessGroup_display :: "palette \<Rightarrow> nat \<Rightarrow> bool \<Rightarrow> ('v, unit) d_eff" where
  "ProcessGroup_display P g isFGProcessGroup =
     then_do (CreateDisplayBuffer P g) (only_if isFGProcessGroup (modify (\<lambda>s. s\<lparr>d_fg := Some g\<rparr>)))"

definition SwitchToSession :: "'v console \<Rightarrow> nat \<Rightarrow> ('v, unit) d_eff" where
  "SwitchToSession C g = then_do (modify (\<lambda>s. s\<lparr>d_fg := Some g\<rparr>)) (RefreshScreen C)"

definition Display :: "palette \<Rightarrow> nat \<Rightarrow> nat \<Rightarrow> 'v \<Rightarrow> 'v disp" where
  "Display P rows columns v = \<lparr>d_rows = rows, d_cols = columns, d_kernel = DisplayBuffer P rows columns, d_groups = Map.empty,
     d_fg = None, d_caller = Kernel, d_video = v\<rparr>"

section \<open>The VGA text mode\<close>

text \<open>The bytes from \<open>VIDEO_BUFFER_ADDRESS\<close> on, and the registers of the CRT controller behind the ports \<open>0x3D4\<close> (index) and
  \<open>0x3D5\<close> (data).\<close>

record vga =
  vga_memory :: "u8 list"
  crt_index :: u8
  crt_regs :: "u8 \<Rightarrow> u8"

definition vga_out :: "u16 \<Rightarrow> u8 \<Rightarrow> vga \<Rightarrow> vga" where
  "vga_out port b v =
     (if port = 0x3D4 then v\<lparr>crt_index := b\<rparr>
      else if port = 0x3D5 then v\<lparr>crt_regs := (crt_regs v)(crt_index v := b)\<rparr> else v)"

definition VGA_InitCursor :: "vga \<Rightarrow> vga" where
  "VGA_InitCursor v0 =
     (let v1 = vga_out 0x3D4 0x0A v0; bCurStart = crt_regs v1 (crt_index v1);
          v2 = vga_out 0x3D4 0x0A v1; bCurEnd = crt_regs v2 (crt_index v2);
          v3 = vga_out 0x3D5 ((bCurStart AND 0xC0) OR 13) (vga_out 0x3D4 0x0A v2)
      in vga_out 0x3D5 ((bCurEnd AND 0xE0) OR 14) (vga_out 0x3D4 0x0B v3))"

definition VGA_GotoCursor :: "nat \<Rightarrow> nat \<Rightarrow> nat \<Rightarrow> vga \<Rightarrow> vga option" where
  "VGA_GotoCursor rows cols iPos v =
     (if iPos \<ge> cols * rows then Some v
      else Some (vga_out 0x3D5 (of_nat (iPos div 256 mod 256)) (vga_out 0x3D4 14
        (vga_out 0x3D5 (of_nat (iPos mod 256)) (vga_out 0x3D4 15 v)))))"

definition VGA_DirectPutChar :: "nat \<Rightarrow> u8 \<Rightarrow> u8 \<Rightarrow> vga \<Rightarrow> vga option" where
  "VGA_DirectPutChar iPos ch attr v =
     (if iPos + 1 < length (vga_memory v) then Some (v\<lparr>vga_memory := (vga_memory v)[iPos := ch, iPos + 1 := attr]\<rparr>) else None)"

definition VGA_DoScrollDown :: "palette \<Rightarrow> nat \<Rightarrow> nat \<Rightarrow> vga \<Rightarrow> vga option" where
  "VGA_DoScrollDown P rows cols v = map_option (\<lambda>m. v\<lparr>vga_memory := m\<rparr>) (scrolled P rows cols (vga_memory v))"

definition VGAConsole :: "palette \<Rightarrow> vga console" where
  "VGAConsole P = \<lparr>DirectPutChar = VGA_DirectPutChar, DoScrollDown = VGA_DoScrollDown P 25 80, GotoCursor = VGA_GotoCursor 25 80\<rparr>"

end
