(* ===== verification/DisplayProofs.thy ===== *)
theory DisplayProofs
  imports Display
begin

text \<open>
  What the text console shows. The laws of the video hardware that the display relies on are the locale
  \<open>text_screen\<close>, interpreted on the VGA text mode; in it the operations are shown to change the buffer of the
  caller as an abstract terminal does, and to keep the screen equal to the buffer of the foreground.
\<close>

lemma length_blanks [simp]: "length (blanks P n) = 2 * n"
  by (induction n) simp_all

lemma scrolled_eq:
  assumes "length bs = 2 * (rows * cols)" "0 < rows"
  shows "scrolled P rows cols bs = Some (drop (2 * cols) bs @ blanks P cols)"
proof -
  obtain r where r: "rows = Suc r" using assms(2) by (cases rows) auto
  then have l: "length bs = r * cols * 2 + cols * 2" using assms(1) by (simp add: algebra_simps)
  have "copy_bytes 0 (cols * 2) (r * cols * 2) bs = take (r * cols * 2) (drop (cols * 2) bs) @ drop (r * cols * 2) bs"
    using l by (simp add: copy_bytes_def)
  then show ?thesis using l by (simp add: scrolled_def r mult.commute)
qed

section \<open>The abstract terminal\<close>

text \<open>A terminal of \<open>n\<close> lines of \<open>cols\<close> cells, each a character with its attribute: the place of the next character and the cells.\<close>

type_synonym terminal = "nat \<times> (u8 \<times> u8) list"

definition term_scroll :: "palette \<Rightarrow> nat \<Rightarrow> nat \<Rightarrow> terminal \<Rightarrow> terminal" where
  "term_scroll P rows cols t =
     (if rows * cols \<le> fst t then ((rows - 1) * cols, drop cols (snd t) @ replicate cols (BLANK, WHITE_ON_BLACK P)) else t)"

definition term_plain :: "palette \<Rightarrow> nat \<Rightarrow> nat \<Rightarrow> u8 \<Rightarrow> u8 \<Rightarrow> terminal \<Rightarrow> terminal" where
  "term_plain P rows cols attr ch t = term_scroll P rows cols (fst t + 1, (snd t)[fst t := (ch, attr)])"

definition term_char :: "palette \<Rightarrow> nat \<Rightarrow> nat \<Rightarrow> u8 \<Rightarrow> terminal \<Rightarrow> u8 \<Rightarrow> terminal" where
  "term_char P rows cols attr t ch =
     (if ch = 0x0A then term_scroll P rows cols ((fst t div cols + 1) * cols, snd t)
      else if ch = 0x09 then (term_plain P rows cols attr BLANK ^^ 4) t
      else term_plain P rows cols attr ch t)"

text \<open>The terminal of a buffer.\<close>

fun cells :: "u8 list \<Rightarrow> (u8 \<times> u8) list" where
  "cells (c # a # bs) = (c, a) # cells bs"
| "cells bs = []"

definition terminal_of :: "dbuf \<Rightarrow> terminal" where
  "terminal_of b = (db_cursor b, cells (db_bytes b))"

lemma cells_blanks [simp]: "cells (blanks P n) = replicate n (BLANK, WHITE_ON_BLACK P)"
  by (induction n) simp_all

lemma cells_append: "length xs = 2 * n \<Longrightarrow> cells (xs @ ys) = cells xs @ cells ys"
proof (induction n arbitrary: xs)
  case (Suc n)
  then obtain c a bs where "xs = c # a # bs" by (cases xs; cases "tl xs") auto
  then show ?case using Suc by simp
qed simp

lemma cells_drop: "length xs = 2 * m \<Longrightarrow> n \<le> m \<Longrightarrow> cells (drop (2 * n) xs) = drop n (cells xs)"
proof (induction n arbitrary: xs m)
  case (Suc n)
  then obtain c a bs where "xs = c # a # bs" by (cases xs; cases "tl xs") auto
  then show ?case using Suc.IH [of bs "m - 1"] Suc.prems by simp
qed simp

lemma cells_update: "length xs = 2 * m \<Longrightarrow> p < m \<Longrightarrow> cells (xs[2 * p := c, Suc (2 * p) := a]) = (cells xs)[p := (c, a)]"
proof (induction p arbitrary: xs m)
  case 0
  then obtain x y bs where "xs = x # y # bs" by (cases xs; cases "tl xs") auto
  then show ?case by simp
next
  case (Suc p)
  then obtain x y bs where "xs = x # y # bs" by (cases xs; cases "tl xs") auto
  then show ?case using Suc.IH [of bs "m - 1"] Suc.prems by simp
qed

lemma length_cells: "length xs = 2 * n \<Longrightarrow> length (cells xs) = n"
proof (induction n arbitrary: xs)
  case (Suc n)
  then obtain c a bs where "xs = c # a # bs" by (cases xs; cases "tl xs") auto
  then show ?case using Suc by simp
qed simp

section \<open>The caller's buffer\<close>

definition cur_buf :: "'v disp \<Rightarrow> dbuf" where
  "cur_buf s = (case d_caller s of Kernel \<Rightarrow> d_kernel s | Process g \<Rightarrow> the (d_groups s g))"

definition put_buf :: "dbuf \<Rightarrow> 'v disp \<Rightarrow> 'v disp" where
  "put_buf b s = (case d_caller s of Kernel \<Rightarrow> s\<lparr>d_kernel := b\<rparr> | Process g \<Rightarrow> s\<lparr>d_groups := (d_groups s)(g \<mapsto> b)\<rparr>)"

definition caller_ok :: "'v disp \<Rightarrow> bool" where
  "caller_ok s \<longleftrightarrow> (\<forall>g. d_caller s = Process g \<longrightarrow> d_groups s g \<noteq> None)"

lemma put_buf_simps [simp]:
  "d_rows (put_buf b s) = d_rows s" "d_cols (put_buf b s) = d_cols s" "d_caller (put_buf b s) = d_caller s"
  "d_fg (put_buf b s) = d_fg s" "d_video (put_buf b s) = d_video s" "cur_buf (put_buf b s) = b" "caller_ok (put_buf b s)"
  "on_screen (put_buf b s) = on_screen s" "put_buf b (put_buf c s) = put_buf b s"
  "put_buf b (s\<lparr>d_video := v\<rparr>) = (put_buf b s)\<lparr>d_video := v\<rparr>"
  by (auto simp: put_buf_def cur_buf_def caller_ok_def on_screen_def split: caller.splits)

lemma video_simps [simp]:
  "cur_buf (s\<lparr>d_video := v\<rparr>) = cur_buf s" "caller_ok (s\<lparr>d_video := v\<rparr>) = caller_ok s" "on_screen (s\<lparr>d_video := v\<rparr>) = on_screen s"
  by (simp_all add: cur_buf_def caller_ok_def on_screen_def split: caller.split)

lemma put_cur_buf [simp]: "caller_ok s \<Longrightarrow> put_buf (cur_buf s) s = s"
  by (auto simp: put_buf_def cur_buf_def caller_ok_def map_upd_triv split: caller.splits)

lemma run_get: "caller_ok s \<Longrightarrow> and_then GetDisplayBuffer k s = k (cur_buf s) s"
  by (auto simp: GetDisplayBuffer_def and_then_def gets_def yield_def caller_ok_def cur_buf_def split: caller.splits option.splits)

lemma run_change: "caller_ok s \<Longrightarrow> change_buffer f s = Some (Inr (), put_buf (f (cur_buf s)) s)"
  by (simp add: change_buffer_def run_get modify_def put_buf_def split: caller.split)

lemma run_cursor: "caller_ok s \<Longrightarrow> and_then GetCurrentCursorPosition k s = k (db_cursor (cur_buf s)) s"
  "caller_ok s \<Longrightarrow> and_then GetCurrentDisplayBytePosition k s = k (db_cursor (cur_buf s) * 2) s"
  by (simp_all add: GetCurrentCursorPosition_def GetCurrentDisplayBytePosition_def and_then_def run_get [unfolded and_then_def]
      GetDisplayBuffer_def gets_def yield_def cur_buf_def caller_ok_def split: caller.splits option.splits)
    (auto simp: undef_def yield_def split: option.splits)

lemma run_change_then: "caller_ok s \<Longrightarrow> and_then (change_buffer f) k s = k () (put_buf (f (cur_buf s)) s)"
  by (simp add: and_then_def run_change)

lemma run_video: "f (d_video s) = Some v \<Longrightarrow> and_then (video f) k s = k () (s\<lparr>d_video := v\<rparr>)"
  "f (d_video s) = Some v \<Longrightarrow> video f s = Some (Inr (), s\<lparr>d_video := v\<rparr>)"
  by (simp_all add: video_def run_then run_gets modify_def and_then_def gets_def)

lemma run_Buffer_PutChar:
  assumes "caller_ok s" "i < length (db_bytes (cur_buf s))"
  shows "and_then (Buffer_PutChar i v) k s = k (db_bytes (cur_buf s) ! i \<noteq> v)
    (put_buf ((cur_buf s)\<lparr>db_bytes := (db_bytes (cur_buf s))[i := v]\<rparr>) s)"
proof (cases "db_bytes (cur_buf s) ! i = v")
  case True
  then have "(cur_buf s)\<lparr>db_bytes := (db_bytes (cur_buf s))[i := v]\<rparr> = cur_buf s" using assms(2) by auto
  then show ?thesis using assms True by (simp add: Buffer_PutChar_def Display_GetChar_def run_then run_get)
next
  case False
  then show ?thesis using assms
    by (simp add: Buffer_PutChar_def Display_GetChar_def run_then run_get run_change_then)
qed

section \<open>Runs of the console\<close>

datatype display_op =
  OpClearScreen | OpNextLine | OpMessage "u8 list" attribute | OpMessageRaw "u8 list" u8 | OpnMessage "u8 list" nat attribute |
  OpCharacter u8 attribute | OpMoveCursor int | OpSetCursor int bool | OpClearLine int | OpLoadMessage "u8 list" bool |
  OpRawCharacter u8 attribute bool | OpRawCharacterArea "(u8 \<times> u8) list" nat nat int

fun run_op :: "palette \<Rightarrow> 'v console \<Rightarrow> display_op \<Rightarrow> ('v, unit) d_eff" where
  "run_op P C OpClearScreen = ClearScreen P C"
| "run_op P C OpNextLine = NextLine P C"
| "run_op P C (OpMessage msg attr) = Message P C msg attr"
| "run_op P C (OpMessageRaw msg a) = Message_raw P C msg a"
| "run_op P C (OpnMessage msg len attr) = nMessage P C msg len attr"
| "run_op P C (OpCharacter ch attr) = Character P C ch (m_Attr attr)"
| "run_op P C (OpMoveCursor i) = MoveCursor C i"
| "run_op P C (OpSetCursor i u) = SetCursor C i u"
| "run_op P C (OpClearLine i) = ClearLine P C i"
| "run_op P C (OpLoadMessage msg r) = LoadMessage P C msg r"
| "run_op P C (OpRawCharacter ch attr u) = RawCharacter P C ch (m_Attr attr) u"
| "run_op P C (OpRawCharacterArea src rs cs i) = RawCharacterArea P C src rs cs i"

text \<open>A caller, whose group exists, runs an operation; a new process group is made, in the foreground or not (the object of a group
  is new); the user switches to a group.\<close>

datatype display_event = Call caller display_op | NewGroup nat bool | Show nat

fun run_event :: "palette \<Rightarrow> 'v console \<Rightarrow> display_event \<Rightarrow> ('v, unit) d_eff" where
  "run_event P C (Call c p) = then_do (modify (\<lambda>s. s\<lparr>d_caller := c\<rparr>)) (and_then GetDisplayBuffer (\<lambda>_. run_op P C p))"
| "run_event P C (NewGroup g fg) = and_then (gets d_groups) (\<lambda>G. if G g = None then ProcessGroup_display P g fg else undef)"
| "run_event P C (Show g) = SwitchToSession C g"

text \<open>When an operation is defined: no character is put behind the last of the \<open>n\<close> cells (where the cursor stands after a raw
  character on the last one), no sum overflows, and the sources are as long as the caller says. \<open>area_fits\<close> follows the cursor
  \<open>k\<close> from line to line of an area of \<open>cs\<close> columns placed at \<open>pos\<close>; a position outside the screen of \<open>w\<close> columns is ignored;
  a position is an \<open>int\<close> that wraps around.\<close>

definition placed :: "nat \<Rightarrow> int \<Rightarrow> nat \<Rightarrow> nat" where
  "placed n pos k = (if 0 \<le> pos \<and> pos < int n then nat pos else k)"

fun area_fits :: "nat \<Rightarrow> nat \<Rightarrow> nat \<Rightarrow> int \<Rightarrow> nat \<Rightarrow> nat \<Rightarrow> bool" where
  "area_fits n w cs pos 0 k \<longleftrightarrow> True"
| "area_fits n w cs pos (Suc rs) k \<longleftrightarrow> k + cs \<le> n \<and> area_fits n w cs (pos + int w) rs (placed n (wrap_int (pos + int w)) (k + cs))"

fun op_defined :: "nat \<Rightarrow> nat \<Rightarrow> display_op \<Rightarrow> nat \<Rightarrow> bool" where
  "op_defined n w (OpMessage msg attr) k \<longleftrightarrow> k < n \<or> msg = [] \<or> hd msg = 0x0A"
| "op_defined n w (OpMessageRaw msg a) k \<longleftrightarrow> k < n \<or> msg = [] \<or> hd msg = 0x0A"
| "op_defined n w (OpnMessage msg len attr) k \<longleftrightarrow> len \<le> length msg \<and> (k < n \<or> len = 0 \<or> msg ! 0 = 0x0A)"
| "op_defined n w (OpCharacter ch attr) k \<longleftrightarrow> k < n \<or> ch = 0x0A"
| "op_defined n w (OpMoveCursor i) k \<longleftrightarrow> - 2147483648 \<le> int k + i \<and> int k + i \<le> 2147483647"
| "op_defined n w (OpLoadMessage msg r) k \<longleftrightarrow> length msg mod 256 \<in> {1..50}"
| "op_defined n w (OpRawCharacter ch attr u) k \<longleftrightarrow> k < n"
| "op_defined n w (OpRawCharacterArea src rs cs pos) k \<longleftrightarrow> rs * cs \<le> length src \<and> area_fits n w cs pos rs (placed n pos k)"
| "op_defined n w p k \<longleftrightarrow> True"

definition caller_buffer :: "caller \<Rightarrow> 'v disp \<Rightarrow> dbuf option" where
  "caller_buffer c s = (case c of Kernel \<Rightarrow> Some (d_kernel s) | Process g \<Rightarrow> d_groups s g)"

fun event_defined :: "'v disp \<Rightarrow> display_event \<Rightarrow> bool" where
  "event_defined s (Call c p) \<longleftrightarrow> (case caller_buffer c s of None \<Rightarrow> False
     | Some b \<Rightarrow> op_defined (d_rows s * d_cols s) (d_cols s) p (db_cursor b))"
| "event_defined s (NewGroup g fg) \<longleftrightarrow> d_groups s g = None"
| "event_defined s (Show g) \<longleftrightarrow> d_groups s g \<noteq> None"

text \<open>The events after which the screen may differ from the foreground: the kernel writes, or a group is made in the foreground.\<close>

fun keeps_screen :: "display_event \<Rightarrow> bool" where
  "keeps_screen (Call c p) \<longleftrightarrow> c \<noteq> Kernel"
| "keeps_screen (NewGroup g fg) \<longleftrightarrow> \<not> fg"
| "keeps_screen (Show g) \<longleftrightarrow> True"

section \<open>A video hardware that shows text\<close>

locale text_screen =
  fixes C :: "'v console" and shown :: "'v \<Rightarrow> u8 list" and P :: palette and rows cols :: nat
  assumes proper: "0 < rows" "0 < cols"
    and put: "p < rows * cols \<Longrightarrow> length (shown v) = 2 * (rows * cols) \<Longrightarrow>
      \<exists>v'. DirectPutChar C (2 * p) c a v = Some v' \<and> shown v' = (shown v)[2 * p := c, Suc (2 * p) := a]"
    and scroll: "length (shown v) = 2 * (rows * cols) \<Longrightarrow>
      \<exists>v'. DoScrollDown C v = Some v' \<and> shown v' = drop (2 * cols) (shown v) @ blanks P cols"
    and goto: "\<exists>v'. GotoCursor C p v = Some v' \<and> shown v' = shown v"
begin

definition fits :: "'v disp \<Rightarrow> bool" where
  "fits s \<longleftrightarrow> caller_ok s \<and> d_rows s = rows \<and> d_cols s = cols \<and> length (db_bytes (cur_buf s)) = 2 * (rows * cols) \<and>
     length (shown (d_video s)) = 2 * (rows * cols)"

text \<open>The caller's buffer is now \<open>b\<close>, and the screen has followed it if the caller is on the screen; nothing else has changed.\<close>

definition drawn :: "'v disp \<Rightarrow> dbuf \<Rightarrow> 'v disp \<Rightarrow> bool" where
  "drawn s b s' \<longleftrightarrow> (\<exists>v. s' = put_buf b (s\<lparr>d_video := v\<rparr>) \<and> length (db_bytes b) = 2 * (rows * cols) \<and> length (shown v) = 2 * (rows * cols) \<and>
     (if on_screen s then shown (d_video s) = db_bytes (cur_buf s) \<longrightarrow> shown v = db_bytes b else shown v = shown (d_video s)))"

definition acts :: "(dbuf \<Rightarrow> bool) \<Rightarrow> ('v, unit) d_eff \<Rightarrow> (dbuf \<Rightarrow> dbuf) \<Rightarrow> bool" where
  "acts p m F \<longleftrightarrow> (\<forall>s. fits s \<longrightarrow> p (cur_buf s) \<longrightarrow> (\<exists>s'. m s = Some (Inr (), s') \<and> drawn s (F (cur_buf s)) s'))"

lemma drawn_fits: "fits s \<Longrightarrow> drawn s b s' \<Longrightarrow> fits s' \<and> cur_buf s' = b \<and> on_screen s' = on_screen s"
  by (auto simp: fits_def drawn_def)

lemma drawn_trans:
  assumes "drawn s b t" "drawn t c u"
  shows "drawn s c u"
proof -
  obtain v where v: "t = put_buf b (s\<lparr>d_video := v\<rparr>)"
    "if on_screen s then shown (d_video s) = db_bytes (cur_buf s) \<longrightarrow> shown v = db_bytes b else shown v = shown (d_video s)"
    using assms(1) unfolding drawn_def by blast
  obtain w where w: "u = put_buf c (t\<lparr>d_video := w\<rparr>)" "length (db_bytes c) = 2 * (rows * cols)" "length (shown w) = 2 * (rows * cols)"
    "if on_screen t then shown (d_video t) = db_bytes (cur_buf t) \<longrightarrow> shown w = db_bytes c else shown w = shown (d_video t)"
    using assms(2) unfolding drawn_def by blast
  have t: "on_screen t = on_screen s" "d_video t = v" "cur_buf t = b" by (simp_all add: v(1))
  have "u = put_buf c (s\<lparr>d_video := w\<rparr>)" by (simp add: w(1) v(1))
  moreover have "if on_screen s then shown (d_video s) = db_bytes (cur_buf s) \<longrightarrow> shown w = db_bytes c else shown w = shown (d_video s)"
    using v(2) w(4) unfolding t by (cases "on_screen s") simp_all
  ultimately show ?thesis unfolding drawn_def using w(2,3) by blast
qed

lemma acts_yield: "acts p (yield ()) (\<lambda>b. b)"
  unfolding acts_def yield_def
proof (intro allI impI exI conjI)
  fix s :: "'v disp"
  assume "fits s"
  then show "drawn s (cur_buf s) s" unfolding drawn_def fits_def by (intro exI [of _ "d_video s"]) simp
qed (rule refl)

lemma acts_then_do:
  assumes "acts p m F" "acts q k G" "\<And>b. length (db_bytes b) = 2 * (rows * cols) \<Longrightarrow> p b \<Longrightarrow> q (F b)"
  shows "acts p (then_do m k) (\<lambda>b. G (F b))"
  unfolding acts_def
proof (intro allI impI)
  fix s :: "'v disp"
  assume s: "fits s" "p (cur_buf s)"
  then obtain t where t: "m s = Some (Inr (), t)" "drawn s (F (cur_buf s)) t" using assms(1) by (auto simp: acts_def)
  then have "fits t" "cur_buf t = F (cur_buf s)" using drawn_fits [OF s(1)] by auto
  moreover have "q (F (cur_buf s))" using assms(3) s by (simp add: fits_def)
  ultimately obtain u where "k t = Some (Inr (), u)" "drawn t (G (F (cur_buf s))) u" using assms(2) by (auto simp: acts_def)
  then show "\<exists>s'. then_do m k s = Some (Inr (), s') \<and> drawn s (G (F (cur_buf s))) s'"
    using t drawn_trans [OF t(2)] by (auto simp: then_do_def and_then_def)
qed

lemma acts_weaken: "acts q m F \<Longrightarrow> (\<And>b. length (db_bytes b) = 2 * (rows * cols) \<Longrightarrow> p b \<Longrightarrow> q b \<and> F b = G b) \<Longrightarrow> acts p m G"
  unfolding acts_def fits_def by metis

lemma acts_cursor: "(\<And>b. p b \<Longrightarrow> acts (\<lambda>x. x = b) (k (db_cursor b)) F) \<Longrightarrow> acts p (and_then GetCurrentCursorPosition k) F"
  by (auto simp: acts_def fits_def run_cursor)

lemma acts_byte: "(\<And>b. p b \<Longrightarrow> acts (\<lambda>x. x = b) (k (db_cursor b * 2)) F) \<Longrightarrow> acts p (and_then GetCurrentDisplayBytePosition k) F"
  by (auto simp: acts_def fits_def run_cursor)

lemma acts_gets: "(\<And>s. fits s \<Longrightarrow> p (cur_buf s) \<Longrightarrow> acts (\<lambda>x. x = cur_buf s) (k (f s)) F) \<Longrightarrow> acts p (and_then (gets f) k) F"
  by (auto simp: acts_def fits_def run_gets)

lemma acts_if: "(c \<Longrightarrow> acts p m F) \<Longrightarrow> (\<not> c \<Longrightarrow> acts p k F) \<Longrightarrow> acts p (if c then m else k) F"
  by simp

lemma acts_PutChar:
  "acts (\<lambda>b. i < rows * cols) (PutChar C (2 * i) ch attr) (\<lambda>b. b\<lparr>db_bytes := (db_bytes b)[2 * i := ch, Suc (2 * i) := attr]\<rparr>)"
  unfolding acts_def
proof (intro allI impI)
  fix s :: "'v disp"
  let ?b = "cur_buf s" and ?d = "(cur_buf s)\<lparr>db_bytes := (db_bytes (cur_buf s))[2 * i := ch, Suc (2 * i) := attr]\<rparr>"
  assume s: "fits s" and i: "i < rows * cols"
  have l: "2 * i < length (db_bytes ?b)" "Suc (2 * i) < length (db_bytes ?b)" "caller_ok s" using s i by (auto simp: fits_def)
  let ?c = "db_bytes ?b ! (2 * i) \<noteq> ch" and ?e = "db_bytes ?b ! Suc (2 * i) \<noteq> attr"
  have run: "PutChar C (2 * i) ch attr s =
      only_if ((?c \<or> ?e) \<and> on_screen s) (video (DirectPutChar C (2 * i) ch attr)) (put_buf ?d s)"
    unfolding PutChar_def PutCharOnBuffer_def using l by (simp add: run_then run_Buffer_PutChar run_gets)
  show "\<exists>s'. PutChar C (2 * i) ch attr s = Some (Inr (), s') \<and> drawn s ?d s'"
  proof (cases "(?c \<or> ?e) \<and> on_screen s")
    case True
    obtain v where v: "DirectPutChar C (2 * i) ch attr (d_video s) = Some v" "shown v = (shown (d_video s))[2 * i := ch, Suc (2 * i) := attr]"
      using put [OF i, of "d_video s" ch attr] s by (auto simp: fits_def)
    have "PutChar C (2 * i) ch attr s = Some (Inr (), (put_buf ?d s)\<lparr>d_video := v\<rparr>)"
      using True v(1) unfolding run by (auto simp: only_if_def run_video)
    moreover have "drawn s ?d ((put_buf ?d s)\<lparr>d_video := v\<rparr>)"
      unfolding drawn_def using s v(2) True by (intro exI [of _ v]) (auto simp: fits_def)
    ultimately show ?thesis by blast
  next
    case False
    have "db_bytes ?d = db_bytes ?b" if "on_screen s"
      using that False by (auto simp: list_update_same_conv l)
    then have "drawn s ?d (put_buf ?d s)"
      unfolding drawn_def using s by (intro exI [of _ "d_video s"]) (auto simp: fits_def)
    then show ?thesis using False unfolding run by (auto simp: only_if_def yield_def)
  qed
qed

lemma acts_Update: "acts p (UpdateCursorPosition C n u) (\<lambda>b. b\<lparr>db_cursor := n\<rparr>)"
  unfolding acts_def
proof (intro allI impI)
  fix s :: "'v disp"
  assume s: "fits s"
  let ?b = "(cur_buf s)\<lparr>db_cursor := n\<rparr>"
  have run: "UpdateCursorPosition C n u s = only_if (u \<and> on_screen s) (video (GotoCursor C n)) (put_buf ?b s)"
    using s by (simp add: UpdateCursorPosition_def run_then run_change_then fits_def run_gets run_cursor only_if_def)
  obtain v where v: "GotoCursor C n (d_video s) = Some v" "shown v = shown (d_video s)" using goto by blast
  show "\<exists>s'. UpdateCursorPosition C n u s = Some (Inr (), s') \<and> drawn s ?b s'"
  proof (cases "u \<and> on_screen s")
    case True
    have "drawn s ?b ((put_buf ?b s)\<lparr>d_video := v\<rparr>)"
      unfolding drawn_def using s v(2) by (intro exI [of _ v]) (auto simp: fits_def)
    then show ?thesis using True v(1) unfolding run by (auto simp: only_if_def run_video)
  next
    case False
    have "drawn s ?b (put_buf ?b s)" unfolding drawn_def using s by (intro exI [of _ "d_video s"]) (auto simp: fits_def)
    then show ?thesis using False unfolding run by (auto simp: only_if_def yield_def)
  qed
qed

definition buf_scroll :: "dbuf \<Rightarrow> dbuf" where
  "buf_scroll b = (if rows * cols \<le> db_cursor b then b\<lparr>db_bytes := drop (2 * cols) (db_bytes b) @ blanks P cols, db_cursor := (rows - 1) * cols\<rparr> else b)"

lemma acts_ScrollDown: "acts p (ScrollDown P C) buf_scroll"
  unfolding acts_def
proof (intro allI impI)
  fix s :: "'v disp"
  assume s: "fits s"
  show "\<exists>s'. ScrollDown P C s = Some (Inr (), s') \<and> drawn s (buf_scroll (cur_buf s)) s'"
  proof (cases "rows * cols \<le> db_cursor (cur_buf s)")
    case False
    then have "ScrollDown P C s = yield () s"
      using s by (simp add: ScrollDown_def run_gets run_get fits_def only_if_def)
    then show ?thesis using acts_yield [of "\<lambda>_. True"] s False by (simp add: acts_def buf_scroll_def)
  next
    case True
    let ?bs = "drop (2 * cols) (db_bytes (cur_buf s)) @ blanks P cols"
    let ?b = "(cur_buf s)\<lparr>db_bytes := ?bs\<rparr>"
    have sc: "scrolled P rows cols (db_bytes (cur_buf s)) = Some ?bs"
      using s by (intro scrolled_eq [OF _ proper(1)]) (simp add: fits_def)
    have fit: "2 * cols \<le> 2 * (rows * cols)" using proper by simp
    obtain v where v: "DoScrollDown C (d_video s) = Some v" "shown v = drop (2 * cols) (shown (d_video s)) @ blanks P cols"
      using scroll s by (auto simp: fits_def)
    define t where "t = (if on_screen s then (put_buf ?b s)\<lparr>d_video := v\<rparr> else put_buf ?b s)"
    have t: "drawn s ?b t"
    proof (cases "on_screen s")
      case True
      then show ?thesis unfolding drawn_def t_def using s v(2) fit by (intro exI [of _ v]) (auto simp: fits_def)
    next
      case False
      then show ?thesis unfolding drawn_def t_def using s fit by (intro exI [of _ "d_video s"]) (auto simp: fits_def)
    qed
    have "ScrollDown P C s = UpdateCursorPosition C ((rows - 1) * cols) True t"
      using s True sc v(1)
      by (simp add: ScrollDown_def run_gets run_get fits_def only_if_def run_then run_change_then t_def run_video)
    moreover obtain u where "UpdateCursorPosition C ((rows - 1) * cols) True t = Some (Inr (), u)"
      "drawn t (?b\<lparr>db_cursor := (rows - 1) * cols\<rparr>) u"
      using acts_Update [of "\<lambda>_. True" "(rows - 1) * cols" True] drawn_fits [OF s t] by (auto simp: acts_def)
    ultimately show ?thesis using drawn_trans [OF t] True by (auto simp: buf_scroll_def)
  qed
qed

subsection \<open>Text goes to the terminal\<close>

definition inside :: "dbuf \<Rightarrow> bool" where
  "inside b \<longleftrightarrow> db_cursor b < rows * cols \<and> length (db_bytes b) = 2 * (rows * cols)"

definition buf_plain :: "u8 \<Rightarrow> u8 \<Rightarrow> dbuf \<Rightarrow> dbuf" where
  "buf_plain attr ch b = buf_scroll (b\<lparr>db_bytes := (db_bytes b)[2 * db_cursor b := ch, Suc (2 * db_cursor b) := attr], db_cursor := db_cursor b + 1\<rparr>)"

definition buf_line :: "dbuf \<Rightarrow> dbuf" where
  "buf_line b = buf_scroll (b\<lparr>db_cursor := (db_cursor b div cols + 1) * cols\<rparr>)"

definition buf_char :: "u8 \<Rightarrow> u8 \<Rightarrow> dbuf \<Rightarrow> dbuf" where
  "buf_char attr ch b = (if ch = 0x0A then buf_line b else if ch = 0x09 then (buf_plain attr BLANK ^^ 4) b else buf_plain attr ch b)"

lemma room: "2 * cols \<le> 2 * (rows * cols)" "(rows - 1) * cols < rows * cols" "(rows - 1) * cols + cols = rows * cols"
  using proper by (cases rows; simp)+

lemma inside_scroll: "length (db_bytes b) = 2 * (rows * cols) \<Longrightarrow> inside (buf_scroll b)"
  using room by (auto simp: inside_def buf_scroll_def)

lemma inside_plain: "inside b \<Longrightarrow> inside (buf_plain attr ch b)"
  unfolding buf_plain_def by (rule inside_scroll) (simp add: inside_def)

lemma inside_line: "length (db_bytes b) = 2 * (rows * cols) \<Longrightarrow> inside (buf_line b)"
  unfolding buf_line_def by (rule inside_scroll) simp

lemma inside_char: "inside b \<Longrightarrow> inside (buf_char attr ch b)"
  using inside_line [of b] by (simp add: buf_char_def inside_plain numeral_eq_Suc) (simp add: inside_def)

lemma acts_plain: "acts inside (Character_plain P C ch attr) (buf_plain attr ch)"
  unfolding Character_plain_def
proof (rule acts_byte)
  fix b
  assume b: "inside b"
  let ?d = "b\<lparr>db_bytes := (db_bytes b)[2 * db_cursor b := ch, Suc (2 * db_cursor b) := attr]\<rparr>"
  have tail: "acts (\<lambda>x. x = ?d) (and_then GetCurrentCursorPosition (\<lambda>p. then_do (UpdateCursorPosition C (p + 1) True) (ScrollDown P C)))
    (\<lambda>x. buf_scroll (x\<lparr>db_cursor := db_cursor ?d + 1\<rparr>))"
    by (rule acts_cursor) (auto intro: acts_then_do [OF acts_Update acts_ScrollDown [of "\<lambda>_. True"]])
  have "acts (\<lambda>x. x = b) (then_do (PutChar C (2 * db_cursor b) ch attr)
      (and_then GetCurrentCursorPosition (\<lambda>p. then_do (UpdateCursorPosition C (p + 1) True) (ScrollDown P C))))
    (\<lambda>x. buf_scroll ((x\<lparr>db_bytes := (db_bytes x)[2 * db_cursor b := ch, Suc (2 * db_cursor b) := attr]\<rparr>)\<lparr>db_cursor := db_cursor ?d + 1\<rparr>))"
    using b by (intro acts_then_do [OF acts_weaken [OF acts_PutChar] tail]) (auto simp: inside_def)
  then show "acts (\<lambda>x. x = b) (then_do (PutChar C (db_cursor b * 2) ch attr)
      (and_then GetCurrentCursorPosition (\<lambda>p. then_do (UpdateCursorPosition C (p + 1) True) (ScrollDown P C)))) (buf_plain attr ch)"
    by (subst mult.commute, elim acts_weaken) (simp add: buf_plain_def)
qed

lemma acts_line: "acts p (NextLine P C) buf_line"
  unfolding NextLine_def
proof (rule acts_gets, rule acts_cursor)
  fix s :: "'v disp" and b
  assume s: "fits s" "b = cur_buf s"
  have "acts (\<lambda>x. x = b) (then_do (UpdateCursorPosition C ((db_cursor b div cols + 1) * cols) True) (ScrollDown P C))
    (\<lambda>x. buf_scroll (x\<lparr>db_cursor := (db_cursor b div cols + 1) * cols\<rparr>))"
    by (rule acts_then_do [OF acts_Update acts_ScrollDown [of "\<lambda>_. True"]]) simp
  then have "acts (\<lambda>x. x = b) (then_do (UpdateCursorPosition C ((db_cursor b div cols + 1) * cols) True) (ScrollDown P C)) buf_line"
    by (rule acts_weaken) (simp add: buf_line_def)
  then show "acts (\<lambda>x. x = b) (if d_cols s = 0 then undef
      else then_do (UpdateCursorPosition C ((db_cursor b div d_cols s + 1) * d_cols s) True) (ScrollDown P C)) buf_line"
    using s proper by (simp add: fits_def)
qed

lemma acts_steps:
  assumes "\<And>x. x \<in> set xs \<Longrightarrow> acts inside (f x) (F x)" "\<And>x b. inside b \<Longrightarrow> inside (F x b)"
  shows "acts inside (steps f xs) (fold F xs)"
  using assms(1)
proof (induction xs)
  case Nil
  then show ?case by (simp add: acts_weaken [OF acts_yield])
next
  case (Cons x xs)
  have "acts inside (then_do (f x) (steps f xs)) (\<lambda>b. fold F xs (F x b))"
    by (rule acts_then_do [OF Cons.prems Cons.IH]) (use Cons.prems assms(2) in auto)
  then show ?case by (simp add: comp_def)
qed

lemma acts_char: "acts inside (Character P C ch attr) (buf_char attr ch)"
proof -
  have "acts inside (steps (\<lambda>_. Character_plain P C BLANK attr) [0 ..< 4]) (fold (\<lambda>_. buf_plain attr BLANK) [0 ..< 4])"
    by (rule acts_steps) (auto intro: acts_plain inside_plain)
  then have "acts inside (steps (\<lambda>_. Character_plain P C BLANK attr) [0 ..< 4]) (buf_plain attr BLANK ^^ 4)"
    by (rule acts_weaken) (simp add: upt_conv_Cons numeral_eq_Suc)
  then show ?thesis
    unfolding Character_def
    by (auto intro!: acts_if acts_weaken [OF acts_line] acts_weaken [OF acts_plain] elim!: acts_weaken simp: buf_char_def)
qed

lemma acts_Message: "acts inside (Message P C msg attr) (fold (buf_char (m_Attr attr)) msg)"
  unfolding Message_def by (rule acts_steps) (auto intro: acts_char inside_char)

subsection \<open>The terminal\<close>

lemma terminal_scroll: "length (db_bytes b) = 2 * (rows * cols) \<Longrightarrow> terminal_of (buf_scroll b) = term_scroll P rows cols (terminal_of b)"
  using room by (simp add: terminal_of_def buf_scroll_def term_scroll_def cells_drop
      cells_append [of "drop (2 * cols) (db_bytes b)" "rows * cols - cols"] diff_mult_distrib2)

lemma terminal_plain: "inside b \<Longrightarrow> terminal_of (buf_plain attr ch b) = term_plain P rows cols attr ch (terminal_of b)"
  by (simp add: buf_plain_def inside_def terminal_scroll term_plain_def) (simp add: terminal_of_def cells_update)

lemma terminal_plains: "inside b \<Longrightarrow> terminal_of ((buf_plain attr ch ^^ n) b) = (term_plain P rows cols attr ch ^^ n) (terminal_of b) \<and>
    inside ((buf_plain attr ch ^^ n) b)"
  by (induction n) (simp_all add: terminal_plain inside_plain)

lemma terminal_char: "inside b \<Longrightarrow> terminal_of (buf_char attr ch b) = term_char P rows cols attr (terminal_of b) ch"
  by (simp add: buf_char_def buf_line_def inside_def terminal_scroll term_char_def terminal_plain terminal_plains [unfolded inside_def])
    (simp add: terminal_of_def)

lemma terminal_text: "inside b \<Longrightarrow> terminal_of (fold (buf_char attr) msg b) = foldl (term_char P rows cols attr) (terminal_of b) msg \<and>
    inside (fold (buf_char attr) msg b)"
  by (induction msg arbitrary: b) (simp_all add: terminal_char inside_char)

subsection \<open>All operations\<close>

definition typed :: "('v, unit) d_eff \<Rightarrow> bool" where
  "typed m \<longleftrightarrow> (\<forall>s. fits s \<longrightarrow> inside (cur_buf s) \<longrightarrow> (\<exists>s'. m s = Some (Inr (), s') \<and> drawn s (cur_buf s') s' \<and> inside (cur_buf s')))"

lemma typed_acts:
  assumes "acts inside m F" "\<And>b. inside b \<Longrightarrow> inside (F b)"
  shows "typed m"
  unfolding typed_def
proof (intro allI impI)
  fix s :: "'v disp"
  assume s: "fits s" "inside (cur_buf s)"
  then obtain t where t: "m s = Some (Inr (), t)" "drawn s (F (cur_buf s)) t" using assms(1) by (auto simp: acts_def)
  then show "\<exists>s'. m s = Some (Inr (), s') \<and> drawn s (cur_buf s') s' \<and> inside (cur_buf s')"
    using drawn_fits [OF s(1) t(2)] assms(2) [OF s(2)] by auto
qed

lemma typed_then_do:
  assumes "typed m" "typed k"
  shows "typed (then_do m k)"
  unfolding typed_def
proof (intro allI impI)
  fix s :: "'v disp"
  assume s: "fits s" "inside (cur_buf s)"
  then obtain t where t: "m s = Some (Inr (), t)" "drawn s (cur_buf t) t" "inside (cur_buf t)" using assms(1) by (auto simp: typed_def)
  then obtain u where u: "k t = Some (Inr (), u)" "drawn t (cur_buf u) u" "inside (cur_buf u)"
    using assms(2) drawn_fits [OF s(1) t(2)] by (auto simp: typed_def)
  show "\<exists>s'. then_do m k s = Some (Inr (), s') \<and> drawn s (cur_buf s') s' \<and> inside (cur_buf s')"
    using t(1) u drawn_trans [OF t(2) u(2)] by (auto simp: then_do_def and_then_def)
qed

lemma typed_yield: "typed (yield ())"
  by (rule typed_acts [OF acts_yield [of inside]]) simp

lemma typed_steps: "(\<And>x. x \<in> set xs \<Longrightarrow> typed (f x)) \<Longrightarrow> typed (steps f xs)"
  by (induction xs) (simp_all add: typed_yield typed_then_do)

lemma typed_char: "typed (Character P C ch attr)"
  by (rule typed_acts [OF acts_char inside_char])

lemma typed_text: "typed (steps (\<lambda>i. Character P C (f i) attr) xs)"
  by (rule typed_steps) (rule typed_char)

text \<open>The cursor may also stand right behind the last cell. \<open>outcome d R m s\<close>: the operation is defined in \<open>s\<close> when \<open>d\<close> holds and only
  then; it draws and leaves the caller a buffer with \<open>R\<close>. \<open>does D R m\<close>: so in every state, by the place of the cursor.\<close>

definition near :: "dbuf \<Rightarrow> bool" where
  "near b \<longleftrightarrow> db_cursor b \<le> rows * cols \<and> length (db_bytes b) = 2 * (rows * cols)"

definition outcome :: "bool \<Rightarrow> (dbuf \<Rightarrow> bool) \<Rightarrow> ('v, unit) d_eff \<Rightarrow> 'v disp \<Rightarrow> bool" where
  "outcome d R m s \<longleftrightarrow>
     (if d then \<exists>s'. m s = Some (Inr (), s') \<and> drawn s (cur_buf s') s' \<and> near (cur_buf s') \<and> R (cur_buf s') else m s = None)"

definition does :: "(nat \<Rightarrow> bool) \<Rightarrow> (nat \<Rightarrow> dbuf \<Rightarrow> bool) \<Rightarrow> ('v, unit) d_eff \<Rightarrow> bool" where
  "does D R m \<longleftrightarrow> (\<forall>s. fits s \<longrightarrow> near (cur_buf s) \<longrightarrow> outcome (D (db_cursor (cur_buf s))) (R (db_cursor (cur_buf s))) m s)"

lemma doesD: "does D R m \<Longrightarrow> fits s \<Longrightarrow> near (cur_buf s) \<Longrightarrow> outcome (D (db_cursor (cur_buf s))) (R (db_cursor (cur_buf s))) m s"
  by (simp add: does_def)

lemma doesI: "(\<And>s. fits s \<Longrightarrow> near (cur_buf s) \<Longrightarrow> outcome (D (db_cursor (cur_buf s))) (R (db_cursor (cur_buf s))) m s) \<Longrightarrow> does D R m"
  by (simp add: does_def)

lemma outcome_weaken: "outcome d R m s \<Longrightarrow> d = e \<Longrightarrow> (\<And>b. R b \<Longrightarrow> near b \<Longrightarrow> S b) \<Longrightarrow> outcome e S m s"
  by (auto simp: outcome_def)

lemma does_weaken:
  assumes "does D R m" "\<And>k. k \<le> rows * cols \<Longrightarrow> D k = E k" "\<And>k b. R k b \<Longrightarrow> near b \<Longrightarrow> S k b"
  shows "does E S m"
proof (rule doesI)
  fix s :: "'v disp"
  assume s: "fits s" "near (cur_buf s)"
  then have "D (db_cursor (cur_buf s)) = E (db_cursor (cur_buf s))" by (intro assms(2)) (simp add: near_def)
  then show "outcome (E (db_cursor (cur_buf s))) (S (db_cursor (cur_buf s))) m s"
    by (rule outcome_weaken [OF doesD [OF assms(1) s]]) (rule assms(3))
qed

lemma outcome_undef: "m s = None \<Longrightarrow> \<not> d \<Longrightarrow> outcome d R m s"
  by (simp add: outcome_def)

lemma outcome_then:
  assumes "fits s" "outcome d R m s" "\<And>t. d \<Longrightarrow> fits t \<Longrightarrow> near (cur_buf t) \<Longrightarrow> R (cur_buf t) \<Longrightarrow> outcome e S k t"
  shows "outcome (d \<and> e) S (then_do m k) s"
proof (cases d)
  case False
  then show ?thesis using assms(2) by (simp add: outcome_def then_do_def and_then_def)
next
  case True
  then obtain t where t: "m s = Some (Inr (), t)" "drawn s (cur_buf t) t" "near (cur_buf t)" "R (cur_buf t)"
    using assms(2) by (auto simp: outcome_def)
  have "outcome e S k t" using assms(3) [OF True _ t(3,4)] drawn_fits [OF assms(1) t(2)] by blast
  then show ?thesis
    using t(1) True drawn_trans [OF t(2)] by (auto simp: outcome_def then_do_def and_then_def)
qed

lemma outcome_typed: "typed m \<Longrightarrow> fits s \<Longrightarrow> inside (cur_buf s) \<Longrightarrow> outcome True inside m s"
  by (auto simp: typed_def outcome_def inside_def near_def)

lemma outcome_acts:
  assumes "acts near m F" "fits s" "near (cur_buf s)" "near (F (cur_buf s))" "R (F (cur_buf s))"
  shows "outcome True R m s"
proof -
  obtain t where t: "m s = Some (Inr (), t)" "drawn s (F (cur_buf s)) t" using assms by (auto simp: acts_def)
  then show ?thesis using drawn_fits [OF assms(2) t(2)] assms(4,5) by (auto simp: outcome_def)
qed

lemma outcome_cursor: "fits s \<Longrightarrow> outcome d R (k (db_cursor (cur_buf s))) s \<Longrightarrow> outcome d R (and_then GetCurrentCursorPosition k) s"
  "fits s \<Longrightarrow> outcome d R (k (db_cursor (cur_buf s) * 2)) s \<Longrightarrow> outcome d R (and_then GetCurrentDisplayBytePosition k) s"
  by (simp_all add: outcome_def run_cursor fits_def)

lemma outcome_gets: "outcome d R (k (f s)) s \<Longrightarrow> outcome d R (and_then (gets f) k) s"
  by (simp add: outcome_def run_gets)

lemma outcome_only_if:
  "(c \<Longrightarrow> outcome d R m s) \<Longrightarrow> (\<not> c \<Longrightarrow> outcome d R (yield ()) s) \<Longrightarrow> outcome d R (only_if c m) s"
  by (simp add: only_if_def)

lemma near_acts: "acts (\<lambda>_. True) m F \<Longrightarrow> acts near m F"
  by (rule acts_weaken) simp_all

lemma does_PutChar:
  assumes "i < rows * cols"
  shows "does (\<lambda>_. True) (\<lambda>k b. db_cursor b = k) (PutChar C (2 * i) ch attr)"
proof -
  have "acts near (PutChar C (2 * i) ch attr) (\<lambda>b. b\<lparr>db_bytes := (db_bytes b)[2 * i := ch, Suc (2 * i) := attr]\<rparr>)"
    by (rule acts_weaken [OF acts_PutChar]) (use assms in simp_all)
  then show ?thesis by (rule doesI [OF outcome_acts]) (auto simp: near_def)
qed

lemma does_Update: "n \<le> rows * cols \<Longrightarrow> does (\<lambda>_. True) (\<lambda>k b. db_cursor b = n) (UpdateCursorPosition C n u)"
  by (rule doesI, rule outcome_acts [OF acts_Update]) (auto simp: near_def)

lemma does_line: "does (\<lambda>_. True) (\<lambda>_. inside) (NextLine P C)"
  by (rule doesI, rule outcome_acts [OF acts_line]) (use inside_line in \<open>auto simp: near_def inside_def less_imp_le\<close>)

lemma does_yield: "does (\<lambda>_. True) (\<lambda>k b. db_cursor b = k) (yield ())"
  by (rule doesI, rule outcome_acts [OF acts_yield]) simp_all

lemma does_steps:
  assumes "\<And>x. x \<in> set xs \<Longrightarrow> does (\<lambda>_. True) (\<lambda>_ _. True) (f x)"
  shows "does (\<lambda>_. True) (\<lambda>_ _. True) (steps f xs)"
  using assms
proof (induction xs)
  case Nil
  show ?case unfolding steps.simps by (rule does_weaken [OF does_yield]) simp_all
next
  case (Cons x xs)
  have "outcome (True \<and> True) (\<lambda>_. True) (then_do (f x) (steps f xs)) s" if "fits s" "near (cur_buf s)" for s
    by (rule outcome_then [OF that(1) doesD [OF Cons.prems that]]) (use doesD [OF Cons.IH] Cons.prems in auto)
  then show ?case by (simp add: does_def)
qed

subsection \<open>Text, wherever the cursor stands\<close>

lemma at_end: "near b \<Longrightarrow> \<not> inside b \<Longrightarrow> db_cursor b = rows * cols"
  by (auto simp: near_def inside_def)

lemma PutChar_end: "fits s \<Longrightarrow> PutChar C (rows * cols * 2) ch attr s = None"
  by (simp add: PutChar_def PutCharOnBuffer_def Buffer_PutChar_def Display_GetChar_def fits_def and_then_def run_get [unfolded and_then_def])
    (simp add: undef_def)

lemma plain_end: "fits s \<Longrightarrow> db_cursor (cur_buf s) = rows * cols \<Longrightarrow> Character_plain P C ch attr s = None"
  using PutChar_end [of s ch attr]
  by (simp add: Character_plain_def run_cursor fits_def) (simp add: then_do_def and_then_def)

lemma does_char: "does (\<lambda>k. k < rows * cols \<or> ch = 0x0A) (\<lambda>_. inside) (Character P C ch attr)"
proof (rule doesI)
  fix s :: "'v disp"
  assume s: "fits s" "near (cur_buf s)"
  show "outcome (db_cursor (cur_buf s) < rows * cols \<or> ch = 0x0A) inside (Character P C ch attr) s"
  proof (cases "ch = 0x0A")
    case True
    then show ?thesis using doesD [OF does_line s] by (simp add: Character_def)
  next
    case line: False
    show ?thesis
    proof (cases "inside (cur_buf s)")
      case True
      then show ?thesis using outcome_typed [OF typed_char s(1) True] line by (simp add: inside_def)
    next
      case False
      then have e: "db_cursor (cur_buf s) = rows * cols" using at_end s(2) by blast
      have "Character P C ch attr s = None"
        using line plain_end [OF s(1) e] by (simp add: Character_def upt_conv_Cons then_do_def and_then_def)
      then show ?thesis using e line by (intro outcome_undef) simp_all
    qed
  qed
qed

lemma does_text:
  "does (\<lambda>k. k < rows * cols \<or> xs = [] \<or> f (hd xs) = 0x0A) (\<lambda>k b. xs \<noteq> [] \<longrightarrow> inside b) (steps (\<lambda>i. Character P C (f i) attr) xs)"
proof (cases xs)
  case Nil
  show ?thesis unfolding Nil steps.simps by (rule does_weaken [OF does_yield]) simp_all
next
  case (Cons x ys)
  have "outcome ((db_cursor (cur_buf s) < rows * cols \<or> f x = 0x0A) \<and> True) inside
      (then_do (Character P C (f x) attr) (steps (\<lambda>i. Character P C (f i) attr) ys)) s" if "fits s" "near (cur_buf s)" for s
    by (rule outcome_then [OF that(1) doesD [OF does_char that]]) (rule outcome_typed [OF typed_text])
  then show ?thesis unfolding Cons by (auto simp: does_def elim!: outcome_weaken)
qed

lemma does_then:
  assumes "does D R m" "does E S k" "\<And>i b. D i \<Longrightarrow> R i b \<Longrightarrow> near b \<Longrightarrow> E (db_cursor b) = F i"
    "\<And>i b c. D i \<Longrightarrow> R i b \<Longrightarrow> S (db_cursor b) c \<Longrightarrow> Q i c"
  shows "does (\<lambda>i. D i \<and> F i) Q (then_do m k)"
proof (rule doesI)
  fix s :: "'v disp"
  let ?i = "db_cursor (cur_buf s)"
  assume s: "fits s" "near (cur_buf s)"
  show "outcome (D ?i \<and> F ?i) (Q ?i) (then_do m k) s"
  proof (rule outcome_then [OF s(1) doesD [OF assms(1) s]])
    fix t :: "'v disp"
    assume t: "D ?i" "fits t" "near (cur_buf t)" "R ?i (cur_buf t)"
    show "outcome (F ?i) (Q ?i) k t"
      by (rule outcome_weaken [OF doesD [OF assms(2) t(2,3)]]) (use assms(3) [OF t(1,4,3)] assms(4) [OF t(1,4)] in auto)
  qed
qed

lemma does_ClearScreen: "does (\<lambda>_. True) (\<lambda>_. inside) (ClearScreen P C)"
  unfolding ClearScreen_def
proof (rule doesI, rule outcome_gets)
  fix s :: "'v disp"
  assume s: "fits s" "near (cur_buf s)"
  then have d: "d_rows (id s) = rows" "d_cols (id s) = cols" by (simp_all add: fits_def)
  have "does (\<lambda>_. True) (\<lambda>_ _. True) (steps (\<lambda>i. PutChar C (2 * i) BLANK (WHITE_ON_BLACK P)) [0 ..< rows * cols])"
    by (rule does_steps, rule does_weaken [OF does_PutChar]) simp_all
  from does_then [OF this does_Update [of 0], where F = "\<lambda>_. True" and Q = "\<lambda>_ b. db_cursor b = 0"]
  have "does (\<lambda>_. True) (\<lambda>_ b. db_cursor b = 0) (then_do (steps (\<lambda>i. PutChar C (2 * i) BLANK (WHITE_ON_BLACK P)) [0 ..< rows * cols])
      (UpdateCursorPosition C 0 True))" by simp
  from outcome_weaken [OF doesD [OF this s]]
  show "outcome True inside (then_do (steps (\<lambda>i. PutChar C (2 * i) BLANK (WHITE_ON_BLACK P)) [0 ..< d_rows (id s) * d_cols (id s)])
      (UpdateCursorPosition C 0 True)) s"
    unfolding d using proper by (simp add: inside_def near_def)
qed

lemma does_SetCursor: "does (\<lambda>_. True) (\<lambda>k b. db_cursor b = placed (rows * cols) i k) (SetCursor C i u)"
  unfolding SetCursor_def
proof (rule doesI, rule outcome_gets)
  fix s :: "'v disp"
  assume s: "fits s" "near (cur_buf s)"
  then have d: "d_rows (id s) = rows" "d_cols (id s) = cols" by (simp_all add: fits_def)
  show "outcome True (\<lambda>b. db_cursor b = placed (rows * cols) i (db_cursor (cur_buf s)))
      (only_if (0 \<le> i \<and> i < int (d_rows (id s) * d_cols (id s))) (UpdateCursorPosition C (nat i) u)) s"
    unfolding d
  proof (rule outcome_only_if)
    assume i: "0 \<le> i \<and> i < int (rows * cols)"
    then have "nat i \<le> rows * cols" by linarith
    from doesD [OF does_Update [OF this] s] i
    show "outcome True (\<lambda>b. db_cursor b = placed (rows * cols) i (db_cursor (cur_buf s))) (UpdateCursorPosition C (nat i) u) s"
      by (simp add: placed_def)
  next
    assume "\<not> (0 \<le> i \<and> i < int (rows * cols))"
    then have "placed (rows * cols) i (db_cursor (cur_buf s)) = db_cursor (cur_buf s)" unfolding placed_def by (rule if_not_P)
    with doesD [OF does_yield s]
    show "outcome True (\<lambda>b. db_cursor b = placed (rows * cols) i (db_cursor (cur_buf s))) (yield ()) s" by simp
  qed
qed

lemma does_MoveCursor: "does (\<lambda>k. - 2147483648 \<le> int k + i \<and> int k + i \<le> 2147483647) (\<lambda>_ _. True) (MoveCursor C i)"
  unfolding MoveCursor_def
proof (rule doesI, rule outcome_gets, rule outcome_cursor)
  fix s :: "'v disp"
  let ?p = "int (db_cursor (cur_buf s)) + i"
  assume s: "fits s" "near (cur_buf s)"
  then have d: "d_rows (id s) = rows" "d_cols (id s) = cols" by (simp_all add: fits_def)
  show "outcome (- 2147483648 \<le> ?p \<and> ?p \<le> 2147483647) (\<lambda>_. True)
      (let iPos = ?p in if iPos > 2147483647 \<or> iPos < - 2147483648 then undef
        else only_if (0 \<le> iPos \<and> iPos < int (d_cols (id s) * d_rows (id s))) (UpdateCursorPosition C (nat iPos) True)) s"
  proof (cases "?p > 2147483647 \<or> ?p < - 2147483648")
    case True
    then show ?thesis by (auto simp: Let_def undef_def intro!: outcome_undef)
  next
    case False
    have "outcome True (\<lambda>_. True) (only_if (0 \<le> ?p \<and> ?p < int (cols * rows)) (UpdateCursorPosition C (nat ?p) True)) s"
    proof (rule outcome_only_if)
      assume "0 \<le> ?p \<and> ?p < int (cols * rows)"
      then have "nat ?p < cols * rows" by linarith
      then have "nat ?p \<le> rows * cols" by (simp add: mult.commute)
      from doesD [OF does_Update [OF this] s] show "outcome True (\<lambda>_. True) (UpdateCursorPosition C (nat ?p) True) s"
        by (rule outcome_weaken) simp_all
    next
      show "outcome True (\<lambda>_. True) (yield ()) s" by (rule outcome_weaken [OF doesD [OF does_yield s]]) simp_all
    qed
    then show ?thesis using False unfolding d Let_def by (auto simp del: not_less elim: outcome_weaken)
  qed
qed (simp add: fits_def)

lemma does_ClearLine_loop: "p < rows * cols \<or> p mod cols = 0 \<Longrightarrow> does (\<lambda>_. True) (\<lambda>_ _. True) (ClearLine_loop P C cols p)"
proof (induction "if p mod cols = 0 then 0 else cols - p mod cols" arbitrary: p rule: less_induct)
  case less
  show ?case
  proof (cases "p mod cols = 0")
    case True
    then show ?thesis using proper does_weaken [OF does_yield] by (subst ClearLine_loop.simps) simp
  next
    case False
    then have p: "p < rows * cols" using less.prems by simp
    have c: "p mod cols < cols" using proper by simp
    have next_le: "p + 1 < rows * cols \<or> (p + 1) mod cols = 0"
    proof (cases "p + 1 = rows * cols")
      case True
      then show ?thesis by simp
    qed (use p in simp)
    have smaller: "(if (p + 1) mod cols = 0 then 0 else cols - (p + 1) mod cols) < (if p mod cols = 0 then 0 else cols - p mod cols)"
      using False c by (cases "Suc (p mod cols) = cols") (auto simp: mod_Suc intro: diff_less_mono2)
    have "does (\<lambda>_. True) (\<lambda>_ _. True) (ClearLine_loop P C cols (p + 1))" by (rule less.hyps [OF smaller next_le])
    from does_then [OF does_PutChar [OF p] this, where F = "\<lambda>_. True" and Q = "\<lambda>_ _. True"]
    show ?thesis using False proper p by (subst ClearLine_loop.simps) simp
  qed
qed

lemma does_ClearLine: "does (\<lambda>_. True) (\<lambda>_ _. True) (ClearLine P C i)"
  unfolding ClearLine_def
proof (rule doesI, rule outcome_gets, rule outcome_cursor)
  fix s :: "'v disp"
  let ?p = "db_cursor (cur_buf s)"
  define start where "start = (if i = - 1 then ?p else if \<not> (0 \<le> i \<and> i < int cols) then ?p else nat i)"
  assume s: "fits s" "near (cur_buf s)"
  then have d: "d_cols s = cols" by (simp add: fits_def)
  have "cols \<le> rows * cols" using proper by simp
  then have "nat i < rows * cols" if "0 \<le> i" "i < int cols" using that by linarith
  then have st: "start \<le> rows * cols" "start < rows * cols \<or> start mod cols = 0"
    using s(2) by (auto simp: start_def near_def le_less)
  from doesD [OF does_then [OF does_ClearLine_loop [OF st(2)] does_Update [OF st(1)], where F = "\<lambda>_. True" and Q = "\<lambda>_ _. True"] s]
  show "outcome True (\<lambda>_. True) (let start = (if i = - 1 then ?p else if \<not> (0 \<le> i \<and> i < int (d_cols s)) then ?p else nat i)
     in then_do (ClearLine_loop P C (d_cols s) start) (UpdateCursorPosition C start True)) s"
    unfolding Let_def d start_def [symmetric] by simp
qed (simp add: fits_def)

lemma does_LoadMessage: "does (\<lambda>_. length msg mod 256 \<in> {1..50}) (\<lambda>_ _. True) (LoadMessage P C msg r)"
proof (rule doesI)
  fix s :: "'v disp"
  assume s: "fits s" "near (cur_buf s)"
  define l where "l = length msg mod 256"
  have l: "(of_nat (length msg) :: u8) = of_nat l" "l < 256"
    by (simp_all add: l_def word_unat_eq_iff unat_of_nat)
  have w: "50 \<le> unat (50 - of_nat (length msg) :: u8) \<longleftrightarrow> l \<notin> {1..50}"
  proof (cases "l \<le> 50")
    case True
    then have "unat (50 - of_nat l :: u8) = 50 - l"
      by (subst unat_sub) (simp_all add: word_le_nat_alt unat_of_nat)
    then show ?thesis using True unfolding l(1) by auto
  next
    case False
    have "(50 - of_nat l :: u8) = of_nat (306 - l)" using l(2) False by (simp add: of_nat_diff)
    then have "unat (50 - of_nat l :: u8) = unat (of_nat (306 - l) :: u8)" by simp
    also have "\<dots> = 306 - l" using l(2) False by (subst unat_of_nat) simp
    finally have "unat (50 - of_nat l :: u8) = 306 - l" .
    then show ?thesis using l(2) False unfolding l(1) by auto
  qed
  show "outcome (length msg mod 256 \<in> {1..50}) (\<lambda>_. True) (LoadMessage P C msg r) s"
  proof (cases "length msg mod 256 \<in> {1..50}")
    case False
    then show ?thesis using w by (intro outcome_undef) (simp_all add: LoadMessage_def l_def undef_def)
  next
    case True
    define white where "white = Attribute_colors (FG_WHITE P) (BG_BLACK P)"
    define body where "body = then_do (Message P C msg white) (then_do (Message P C (replicate (unat (50 - of_nat (length msg) :: u8)) BLANK) white)
      (if r then Message P C [0x5B, BLANK, 0x4F, 0x4B, BLANK, 0x5D] (Attribute_colors (FG_BLACK P) (BG_GREEN P))
       else Message P C [0x5B, BLANK, 0x46, 0x41, 0x49, 0x4C, 0x45, 0x44, BLANK, 0x5D] (Attribute_colors (FG_RED P) (BG_WHITE P))))"
    have all_typed: "typed (Message P C m a)" for m a using typed_text [of "\<lambda>x. x"] by (simp add: Message_def)
    from all_typed have body: "typed body" unfolding body_def by (auto intro!: typed_then_do)
    have "does (\<lambda>_. True) (\<lambda>_. inside) (Message P C [0x0A, BLANK] white)"
      using does_text [of "[0x0A, BLANK]" "\<lambda>x. x" "m_Attr white"] unfolding Message_def by (rule does_weaken) simp_all
    from outcome_then [OF s(1) doesD [OF this s] outcome_typed [OF body]]
    have "outcome True (\<lambda>_. True) (then_do (Message P C [0x0A, BLANK] white) body) s" by (auto elim: outcome_weaken)
    moreover have "LoadMessage P C msg r = then_do (Message P C [0x0A, BLANK] white) body"
      using w True by (simp add: LoadMessage_def body_def white_def Let_def l_def)
    ultimately show ?thesis using True by simp
  qed
qed

lemma does_nMessage: "does (\<lambda>k. len \<le> length msg \<and> (k < rows * cols \<or> len = 0 \<or> msg ! 0 = 0x0A)) (\<lambda>_ _. True) (nMessage P C msg len attr)"
proof (cases "length msg < len")
  case True
  then show ?thesis by (auto simp: nMessage_def undef_def intro!: doesI outcome_undef)
next
  case False
  then have "nMessage P C msg len attr = steps (\<lambda>i. Character P C (msg ! i) (m_Attr attr)) [0 ..< len]" by (simp add: nMessage_def)
  moreover have "hd [0 ..< len] = 0" if "len \<noteq> 0" using that by simp
  ultimately show ?thesis
    using does_text [of "[0 ..< len]" "\<lambda>i. msg ! i" "m_Attr attr"] False
    by (cases "len = 0") (auto elim!: does_weaken)
qed

lemma does_RawCharacter: "does (\<lambda>k. k < rows * cols) (\<lambda>k b. db_cursor b = k + 1) (RawCharacter P C ch attr u)"
  unfolding RawCharacter_def
proof (rule doesI, rule outcome_cursor)
  fix s :: "'v disp"
  let ?k = "db_cursor (cur_buf s)" and ?c = "if ch = NO_CHAR P then BLANK else ch"
  assume s: "fits s" "near (cur_buf s)"
  show "outcome (?k < rows * cols) (\<lambda>b. db_cursor b = ?k + 1)
      (then_do (PutChar C (?k * 2) ?c attr) (and_then GetCurrentCursorPosition (\<lambda>p. UpdateCursorPosition C (p + 1) u))) s"
  proof (cases "?k < rows * cols")
    case True
    then have k: "?k + 1 \<le> rows * cols" by simp
    have "outcome True (\<lambda>b. db_cursor b = ?k + 1) (and_then GetCurrentCursorPosition (\<lambda>p. UpdateCursorPosition C (p + 1) u)) t"
      if t: "fits t" "near (cur_buf t)" "db_cursor (cur_buf t) = ?k" for t
      by (rule outcome_cursor(1) [OF t(1)]) (simp only: t(3) doesD [OF does_Update [OF k] t(1,2)])
    then have "outcome (True \<and> True) (\<lambda>b. db_cursor b = ?k + 1) (then_do (PutChar C (2 * ?k) ?c attr)
      (and_then GetCurrentCursorPosition (\<lambda>p. UpdateCursorPosition C (p + 1) u))) s"
      by (intro outcome_then [OF s(1) doesD [OF does_PutChar [OF True] s]])
    then show ?thesis using True by (simp only: mult.commute [of ?k 2]) simp
  next
    case False
    then have "?k = rows * cols" using s(2) by (simp add: near_def)
    then show ?thesis using PutChar_end [OF s(1)] by (intro outcome_undef) (simp_all add: then_do_def and_then_def)
  qed
qed (simp add: fits_def)

lemma does_row:
  "does (\<lambda>k. k + length xs \<le> rows * cols) (\<lambda>k b. db_cursor b = k + length xs) (steps (\<lambda>c. RawCharacter P C (f c) (g c) u) xs)"
proof (induction xs)
  case Nil
  show ?case unfolding steps.simps by (rule does_weaken [OF does_yield]) simp_all
next
  case (Cons x xs)
  from does_then [OF does_RawCharacter Cons.IH, where F = "\<lambda>k. k + 1 + length xs \<le> rows * cols"
      and Q = "\<lambda>k b. db_cursor b = k + length (x # xs)"]
  have "does (\<lambda>k. k < rows * cols \<and> k + 1 + length xs \<le> rows * cols) (\<lambda>k b. db_cursor b = k + length (x # xs))
      (steps (\<lambda>c. RawCharacter P C (f c) (g c) u) (x # xs))" by simp
  then show ?case by (rule does_weaken) auto
qed

lemma does_lines:
  "does (area_fits (rows * cols) cols cs (pos + int (j * cols)) m) (\<lambda>_ _. True)
    (steps (\<lambda>r. then_do (steps (\<lambda>c. RawCharacter P C (f r c) (g r c) False) [0 ..< cs]) (SetCursor C (wrap_int (pos + int ((r + 1) * cols))) False)) [j ..< j + m])"
proof (induction m arbitrary: j)
  case 0
  show ?case unfolding add_0_right upt_rec_numeral by (simp, rule does_weaken [OF does_yield]) simp_all
next
  case (Suc m)
  let ?line = "\<lambda>r. then_do (steps (\<lambda>c. RawCharacter P C (f r c) (g r c) False) [0 ..< cs]) (SetCursor C (wrap_int (pos + int ((r + 1) * cols))) False)"
  let ?q = "pos + int ((j + 1) * cols)"
  have u: "[j ..< j + Suc m] = j # [j + 1 ..< j + 1 + m]" by (simp add: upt_rec)
  from does_then [OF does_row [of "[0 ..< cs]"] does_SetCursor, where F = "\<lambda>_. True" and Q = "\<lambda>k b. db_cursor b = placed (rows * cols) (wrap_int ?q) (k + cs)"]
  have line: "does (\<lambda>k. k + cs \<le> rows * cols) (\<lambda>k b. db_cursor b = placed (rows * cols) (wrap_int ?q) (k + cs)) (?line j)" by simp
  from does_then [OF line Suc.IH [of "j + 1"], where F = "\<lambda>k. area_fits (rows * cols) cols cs ?q m (placed (rows * cols) (wrap_int ?q) (k + cs))"
      and Q = "\<lambda>_ _. True"]
  have "does (\<lambda>k. k + cs \<le> rows * cols \<and> area_fits (rows * cols) cols cs ?q m (placed (rows * cols) (wrap_int ?q) (k + cs))) (\<lambda>_ _. True)
      (then_do (?line j) (steps ?line [j + 1 ..< j + 1 + m]))" by simp
  moreover have "pos + int (j * cols) + int cols = ?q" by (simp add: algebra_simps)
  then have "area_fits (rows * cols) cols cs (pos + int (j * cols)) (Suc m) =
      (\<lambda>k. k + cs \<le> rows * cols \<and> area_fits (rows * cols) cols cs ?q m (placed (rows * cols) (wrap_int ?q) (k + cs)))"
    by (simp only: fun_eq_iff area_fits.simps) simp
  ultimately show ?case unfolding u steps.simps by (simp only:)
qed

lemma does_RawCharacterArea:
  "does (\<lambda>k. rs * cs \<le> length src \<and> area_fits (rows * cols) cols cs pos rs (placed (rows * cols) pos k)) (\<lambda>_ _. True)
    (RawCharacterArea P C src rs cs pos)"
  unfolding RawCharacterArea_def
proof (rule doesI, rule outcome_gets)
  fix s :: "'v disp"
  let ?k = "db_cursor (cur_buf s)"
  let ?lines = "\<lambda>w. steps (\<lambda>r. then_do
            (steps (\<lambda>c. RawCharacter P C (fst (src ! (r * cs + c))) (m_Attr (Attribute_raw P (snd (src ! (r * cs + c))))) False) [0 ..< cs])
            (SetCursor C (wrap_int (pos + int ((r + 1) * w))) False)) [0 ..< rs]"
  assume s: "fits s" "near (cur_buf s)"
  then have d: "d_cols s = cols" by (simp add: fits_def)
  show "outcome (rs * cs \<le> length src \<and> area_fits (rows * cols) cols cs pos rs (placed (rows * cols) pos ?k)) (\<lambda>_. True)
     (if length src < rs * cs then undef else then_do (SetCursor C pos False) (?lines (d_cols s))) s"
  proof (cases "length src < rs * cs")
    case True
    then show ?thesis by (simp add: outcome_undef undef_def)
  next
    case False
    have "does (area_fits (rows * cols) cols cs pos rs) (\<lambda>_ _. True) (?lines cols)"
      using does_lines [of cs pos 0 rs] by simp
    from doesD [OF does_then [OF does_SetCursor this, where F = "\<lambda>k. area_fits (rows * cols) cols cs pos rs (placed (rows * cols) pos k)"
        and Q = "\<lambda>_ _. True"] s]
    show ?thesis using False unfolding d by simp
  qed
qed

lemma does_op: "does (op_defined (rows * cols) cols p) (\<lambda>_ _. True) (run_op P C p)"
proof (cases p)
  case (OpMessage msg attr)
  then show ?thesis using does_text [of msg "\<lambda>x. x" "m_Attr attr"] by (simp add: Message_def) (erule does_weaken; simp)
next
  case (OpMessageRaw msg a)
  then show ?thesis using does_text [of msg "\<lambda>x. x" "m_Attr (Attribute_raw P a)"] by (simp add: Message_raw_def) (erule does_weaken; simp)
next
  case (OpnMessage msg len attr)
  then show ?thesis using does_nMessage [of len msg attr] by (simp, elim does_weaken) simp_all
next
  case (OpCharacter ch attr)
  then show ?thesis using does_char [of ch "m_Attr attr"] by (simp, elim does_weaken) simp_all
next
  case OpNextLine
  then show ?thesis using does_line by (simp, elim does_weaken) simp_all
next
  case OpClearScreen
  then show ?thesis using does_ClearScreen by (simp, elim does_weaken) simp_all
next
  case (OpSetCursor i u)
  then show ?thesis using does_SetCursor [of i u] by (simp, elim does_weaken) simp_all
next
  case (OpMoveCursor i)
  then show ?thesis using does_MoveCursor [of i] by (simp, elim does_weaken) simp_all
next
  case (OpClearLine i)
  then show ?thesis using does_ClearLine [of i] by (simp, elim does_weaken) simp_all
next
  case (OpLoadMessage msg r)
  then show ?thesis using does_LoadMessage [of msg r] by (simp, elim does_weaken) simp_all
next
  case (OpRawCharacter ch attr u)
  then show ?thesis using does_RawCharacter [of ch "m_Attr attr" u] by (simp, elim does_weaken) simp_all
next
  case (OpRawCharacterArea src rs cs pos)
  then show ?thesis using does_RawCharacterArea [of rs cs src pos] by (simp, elim does_weaken) simp_all
qed

lemma run_show:
  assumes "n \<le> rows * cols" "length bs = 2 * (rows * cols)" "length (shown (d_video s)) = 2 * (rows * cols)"
  shows "\<exists>v. steps (\<lambda>i. video (DirectPutChar C (2 * i) (bs ! (2 * i)) (bs ! (2 * i + 1)))) [0 ..< n] s = Some (Inr (), s\<lparr>d_video := v\<rparr>) \<and>
    shown v = take (2 * n) bs @ drop (2 * n) (shown (d_video s))"
  using assms(1)
proof (induction n)
  case 0
  then show ?case by (intro exI [of _ "d_video s"]) (simp add: yield_def)
next
  case (Suc n)
  then obtain v where v: "steps (\<lambda>i. video (DirectPutChar C (2 * i) (bs ! (2 * i)) (bs ! (2 * i + 1)))) [0 ..< n] s = Some (Inr (), s\<lparr>d_video := v\<rparr>)"
    "shown v = take (2 * n) bs @ drop (2 * n) (shown (d_video s))" by auto
  have l: "length (shown v) = 2 * (rows * cols)" using Suc.prems assms v(2) by simp
  obtain w where w: "DirectPutChar C (2 * n) (bs ! (2 * n)) (bs ! (2 * n + 1)) v = Some w"
    "shown w = (shown v)[2 * n := bs ! (2 * n), Suc (2 * n) := bs ! (2 * n + 1)]" using put [of n v] l Suc.prems by auto
  have "shown w = take (2 * Suc n) bs @ drop (2 * Suc n) (shown (d_video s))"
  proof (rule nth_equalityI)
    show "length (shown w) = length (take (2 * Suc n) bs @ drop (2 * Suc n) (shown (d_video s)))"
      using Suc.prems assms l by (simp add: w(2))
    fix i
    assume i: "i < length (shown w)"
    then have "shown w ! i = (if i = 2 * n \<or> i = Suc (2 * n) then bs ! i else shown v ! i)"
      using l by (auto simp: w(2) nth_list_update)
    also have "shown v ! i = (if i < 2 * n then bs ! i else shown (d_video s) ! i)"
      using i Suc.prems assms by (auto simp: v(2) nth_append w(2))
    finally show "shown w ! i = (take (2 * Suc n) bs @ drop (2 * Suc n) (shown (d_video s))) ! i"
      using i Suc.prems assms by (auto simp: nth_append w(2) v(2) intro!: arg_cong [of _ _ "\<lambda>k. shown (d_video s) ! k"])
  qed
  moreover have "steps f (xs @ [x]) s = (case steps f xs s of None \<Rightarrow> None | Some (Inl e, t) \<Rightarrow> Some (Inl e, t) | Some (Inr _, t) \<Rightarrow> f x t)"
    for f :: "nat \<Rightarrow> ('v disp, unit, unit) eff" and xs x s
    by (induction xs arbitrary: s) (auto simp: then_do_def and_then_def yield_def split: option.split sum.split prod.split)
  ultimately show ?case using v(1) w(1) by (auto simp: run_video)
qed

lemma SwitchToSession_shows:
  assumes "fits s" "d_groups s g = Some b" "length (db_bytes b) = 2 * (rows * cols)"
  shows "\<exists>v. SwitchToSession C g s = Some (Inr (), s\<lparr>d_fg := Some g, d_video := v\<rparr>) \<and> shown v = db_bytes b"
proof -
  let ?t = "s\<lparr>d_fg := Some g\<rparr>"
  have d: "length (shown (d_video ?t)) = 2 * (rows * cols)" using assms(1) by (simp add: fits_def)
  obtain v where v: "steps (\<lambda>i. video (DirectPutChar C (2 * i) (db_bytes b ! (2 * i)) (db_bytes b ! (2 * i + 1)))) [0 ..< rows * cols] ?t =
      Some (Inr (), ?t\<lparr>d_video := v\<rparr>)" "shown v = db_bytes b"
    using run_show [OF order_refl assms(3) d] assms(3) d by auto
  obtain w where w: "GotoCursor C (db_cursor (cur_buf s)) v = Some w" "shown w = shown v" using goto by blast
  have c: "caller_ok (?t\<lparr>d_video := v\<rparr>)" "cur_buf (?t\<lparr>d_video := v\<rparr>) = cur_buf s"
    using assms(1) by (simp_all add: fits_def caller_ok_def cur_buf_def split: caller.split)
  have "SwitchToSession C g s = Some (Inr (), (?t\<lparr>d_video := v\<rparr>)\<lparr>d_video := w\<rparr>)"
    using assms v(1) w(1) c
    by (simp add: SwitchToSession_def RefreshScreen_def run_then run_gets fits_def then_do_def and_then_def [of "steps _ _"] run_cursor run_video)
  then show ?thesis using v(2) w(2) by auto
qed

subsection \<open>Runs\<close>

definition all_ok :: "'v disp \<Rightarrow> bool" where
  "all_ok s \<longleftrightarrow> d_rows s = rows \<and> d_cols s = cols \<and> near (d_kernel s) \<and> (\<forall>g b. d_groups s g = Some b \<longrightarrow> near b) \<and>
     length (shown (d_video s)) = 2 * (rows * cols) \<and> caller_ok s"

definition agrees :: "'v disp \<Rightarrow> bool" where
  "agrees s \<longleftrightarrow> (\<exists>g b. d_fg s = Some g \<and> d_groups s g = Some b \<and> shown (d_video s) = db_bytes b)"

lemma all_ok_fits: "all_ok s \<Longrightarrow> fits s \<and> near (cur_buf s)"
  by (auto simp: all_ok_def fits_def cur_buf_def caller_ok_def near_def split: caller.split)

lemma drawn_all_ok:
  assumes "all_ok s" "drawn s b s'" "near b"
  shows "all_ok s'"
proof -
  obtain v where v: "s' = put_buf b (s\<lparr>d_video := v\<rparr>)" "length (shown v) = 2 * (rows * cols)"
    using assms(2) unfolding drawn_def by blast
  have "near (d_kernel s') \<and> (\<forall>g b. d_groups s' g = Some b \<longrightarrow> near b)"
    using assms(1,3) unfolding v(1) by (auto simp: put_buf_def all_ok_def caller_ok_def split: caller.split if_splits)
  then show ?thesis using assms(1) v by (simp add: all_ok_def)
qed

lemma drawn_agrees:
  assumes "all_ok s" "drawn s b s'" "agrees s" "d_caller s \<noteq> Kernel"
  shows "agrees s'"
proof -
  obtain v where v: "s' = put_buf b (s\<lparr>d_video := v\<rparr>)"
    "if on_screen s then shown (d_video s) = db_bytes (cur_buf s) \<longrightarrow> shown v = db_bytes b else shown v = shown (d_video s)"
    using assms(2) unfolding drawn_def by blast
  obtain h where h: "d_caller s = Process h" using assms(4) by (cases "d_caller s") auto
  obtain g c where g: "d_fg s = Some g" "d_groups s g = Some c" "shown (d_video s) = db_bytes c" using assms(3) by (auto simp: agrees_def)
  show ?thesis
  proof (cases "g = h")
    case True
    then have "shown v = db_bytes b" using v(2) g h by (simp add: on_screen_def cur_buf_def)
    then show ?thesis using True g h by (simp add: v(1) agrees_def put_buf_def)
  next
    case False
    then have "shown v = db_bytes c" using v(2) g h by (simp add: on_screen_def)
    then show ?thesis using False g h by (auto simp: v(1) agrees_def put_buf_def)
  qed
qed

text \<open>Every event: defined exactly when \<open>event_defined\<close> says so, and then it keeps the buffers well formed and the screen equal to
  the foreground, which a switch establishes.\<close>

lemma run_event_exact:
  assumes "all_ok s"
  shows "if event_defined s e
    then \<exists>s'. run_event P C e s = Some (Inr (), s') \<and> all_ok s' \<and> ((agrees s \<or> (\<exists>g. e = Show g)) \<and> keeps_screen e \<longrightarrow> agrees s')
    else run_event P C e s = None"
proof (cases e)
  case (Call c p)
  let ?t = "s\<lparr>d_caller := c\<rparr>"
  show ?thesis
  proof (cases "caller_buffer c s")
    case None
    then have "and_then GetDisplayBuffer (\<lambda>_. run_op P C p) ?t = None"
      by (auto simp: GetDisplayBuffer_def caller_buffer_def and_then_def undef_def gets_def split: caller.splits)
    then have "run_event P C e s = None" by (simp add: Call run_then)
    then show ?thesis using None Call by simp
  next
    case (Some b)
    have t: "all_ok ?t" "agrees ?t = agrees s" "cur_buf ?t = b" "d_rows s = rows" "d_cols s = cols"
      using assms Some by (auto simp: all_ok_def caller_ok_def agrees_def cur_buf_def caller_buffer_def split: caller.splits)
    have "caller_ok ?t" using t(1) by (simp add: all_ok_def)
    then have run: "run_event P C e s = run_op P C p ?t" by (simp add: Call run_then run_get)
    have "event_defined s e = op_defined (rows * cols) cols p (db_cursor b)" using Some t(4,5) by (simp add: Call)
    moreover have "outcome (op_defined (rows * cols) cols p (db_cursor b)) (\<lambda>_. True) (run_op P C p) ?t"
      using doesD [OF does_op [of p], of ?t] all_ok_fits [OF t(1)] t(3) by simp
    moreover have "agrees s'" if "drawn ?t (cur_buf s') s'" "agrees s" "c \<noteq> Kernel" for s'
      using drawn_agrees [OF t(1) that(1)] that(2,3) t(2) by simp
    ultimately show ?thesis
      using drawn_all_ok [OF t(1)] unfolding run outcome_def by (auto simp: Call)
  qed
next
  case (NewGroup g fg)
  let ?t = "s\<lparr>d_groups := (d_groups s)(g \<mapsto> DisplayBuffer P (d_rows s) (d_cols s)), d_fg := (if fg then Some g else d_fg s)\<rparr>"
  show ?thesis
  proof (cases "d_groups s g = None")
    case True
    then have "run_event P C e s = Some (Inr (), ?t)"
      by (auto simp: NewGroup ProcessGroup_display_def CreateDisplayBuffer_def run_then run_gets only_if_def modify_def yield_def)
    moreover have "all_ok ?t" using assms proper by (auto simp: all_ok_def caller_ok_def near_def DisplayBuffer_def)
    moreover have "agrees ?t" if "agrees s" "\<not> fg" using that True by (auto simp: agrees_def)
    ultimately show ?thesis using NewGroup True by auto
  next
    case False
    then show ?thesis by (auto simp: NewGroup run_gets undef_def)
  qed
next
  case (Show g)
  show ?thesis
  proof (cases "d_groups s g")
    case None
    then show ?thesis by (simp add: Show SwitchToSession_def RefreshScreen_def run_then run_gets undef_def)
  next
    case (Some b)
    then have "near b" using assms by (simp add: all_ok_def)
    then obtain v where v: "SwitchToSession C g s = Some (Inr (), s\<lparr>d_fg := Some g, d_video := v\<rparr>)" "shown v = db_bytes b"
      using SwitchToSession_shows [OF _ Some] all_ok_fits [OF assms] by (auto simp: near_def)
    have "all_ok (s\<lparr>d_fg := Some g, d_video := v\<rparr>)" using assms v(2) \<open>near b\<close> by (simp add: all_ok_def caller_ok_def near_def)
    moreover have "agrees (s\<lparr>d_fg := Some g, d_video := v\<rparr>)" using Some v(2) by (simp add: agrees_def)
    ultimately show ?thesis using v(1) Show Some by auto
  qed
qed

lemma run_events_agree:
  assumes "all_ok s" "agrees s" "list_all keeps_screen es" "steps (run_event P C) es s = Some (r, s')"
  shows "agrees s'"
  using assms
proof (induction es arbitrary: s)
  case Nil
  then show ?case by (simp add: yield_def)
next
  case (Cons e es)
  have "run_event P C e s \<noteq> None" using Cons.prems(4) by (cases "run_event P C e s") (simp_all add: then_do_def and_then_def)
  then obtain t where t: "run_event P C e s = Some (Inr (), t)" "all_ok t" "agrees t"
    using run_event_exact [OF Cons.prems(1), of e] Cons.prems(2,3) by (auto split: if_splits)
  then show ?case using Cons.IH [OF t(2,3)] Cons.prems(3,4) by (simp add: then_do_def and_then_def)
qed

end

section \<open>The VGA text mode\<close>

definition vga_shown :: "vga \<Rightarrow> u8 list" where
  "vga_shown v = take 4000 (vga_memory v)"

lemma vga_out_memory [simp]: "vga_memory (vga_out p b v) = vga_memory v"
  by (simp add: vga_out_def)

lemma vga_scrolls:
  assumes "4000 \<le> length m"
  shows "\<exists>m'. scrolled P 25 80 m = Some m' \<and> take 4000 m' = drop 160 (take 4000 m) @ blanks P 80"
proof -
  have "copy_bytes 0 160 3840 m = take 3840 (drop 160 m) @ drop 3840 m" using assms by (simp add: copy_bytes_def)
  then show ?thesis using assms by (simp add: scrolled_def drop_take)
qed

interpretation vga: text_screen "VGAConsole P" vga_shown P 25 80 for P
proof unfold_locales
  fix p :: nat and c a v
  assume "p < 25 * 80" "length (vga_shown v) = 2 * (25 * 80)"
  then show "\<exists>v'. DirectPutChar (VGAConsole P) (2 * p) c a v = Some v' \<and> vga_shown v' = (vga_shown v)[2 * p := c, Suc (2 * p) := a]"
    by (simp add: VGAConsole_def VGA_DirectPutChar_def vga_shown_def take_update_swap)
next
  fix v
  assume "length (vga_shown v) = 2 * (25 * 80)"
  then have "4000 \<le> length (vga_memory v)" by (simp add: vga_shown_def)
  then show "\<exists>v'. DoScrollDown (VGAConsole P) v = Some v' \<and> vga_shown v' = drop (2 * 80) (vga_shown v) @ blanks P 80"
    using vga_scrolls [of "vga_memory v" P] by (auto simp: VGAConsole_def VGA_DoScrollDown_def vga_shown_def)
next
  fix p :: nat and v
  show "\<exists>v'. GotoCursor (VGAConsole P) p v = Some v' \<and> vga_shown v' = vga_shown v"
    by (simp add: VGAConsole_def VGA_GotoCursor_def vga_shown_def)
qed simp_all

definition console_ok :: "vga disp \<Rightarrow> bool" where
  "console_ok s \<longleftrightarrow> d_rows s = 25 \<and> d_cols s = 80 \<and> 4000 \<le> length (vga_memory (d_video s)) \<and>
     (\<forall>b \<in> insert (d_kernel s) (ran (d_groups s)). db_cursor b < 2000 \<and> length (db_bytes b) = 4000) \<and>
     (\<forall>g. d_caller s = Process g \<longrightarrow> g \<in> dom (d_groups s))"

lemma console_fits:
  assumes "console_ok s"
  shows "vga.fits s" "vga.inside (cur_buf s)"
proof -
  have ran: "d_groups s g = Some b \<Longrightarrow> b \<in> ran (d_groups s)" for g b by (rule ranI)
  show "vga.fits s" using assms ran
    by (auto simp: console_ok_def vga.fits_def vga_shown_def cur_buf_def caller_ok_def split: caller.split)
  show "vga.inside (cur_buf s)" using assms ran
    by (auto simp: console_ok_def vga.inside_def cur_buf_def split: caller.split)
qed

text \<open>The cursor may stand right behind the last cell, where a raw character on the last cell leaves it.\<close>

definition console_sound :: "vga disp \<Rightarrow> bool" where
  "console_sound s \<longleftrightarrow> d_rows s = 25 \<and> d_cols s = 80 \<and> 4000 \<le> length (vga_memory (d_video s)) \<and>
     (\<forall>b \<in> insert (d_kernel s) (ran (d_groups s)). db_cursor b \<le> 2000 \<and> length (db_bytes b) = 4000) \<and>
     (\<forall>g. d_caller s = Process g \<longrightarrow> g \<in> dom (d_groups s))"

lemma console_all_ok: "console_sound s = vga.all_ok s"
proof -
  have v: "length (vga_shown v) = 2 * (25 * 80) \<longleftrightarrow> 4000 \<le> length (vga_memory v)" for v by (auto simp: vga_shown_def)
  have b: "vga.near b \<longleftrightarrow> db_cursor b \<le> 2000 \<and> length (db_bytes b) = 4000" for b by (simp add: vga.near_def)
  show ?thesis unfolding console_sound_def vga.all_ok_def v b caller_ok_def by (auto simp: ran_def dom_def)
qed

text \<open>C7: Which operations of the console are defined. With every buffer of 25 lines of 80 cells and every cursor inside or right behind
  the last cell, an event - any operation of \<open>Display\<close> by the kernel or a process group (\<open>ShowProgress\<close> aside), a new group, a
  switch of the foreground - runs to its end and keeps this exactly when \<open>event_defined\<close> holds: its group exists (a new one does not yet); no character is put
  where the cursor stands behind the last cell (a new line there scrolls), nor over the end by \<open>RawCharacterArea\<close>; the offset of
  \<open>MoveCursor\<close> does not overflow; \<open>LoadMessage\<close> has 1 to 50 characters modulo 256; \<open>nMessage\<close> and \<open>RawCharacterArea\<close> get a source as long as
  they are told. In every other case it leaves a buffer or overflows.\<close>

theorem console_operation_defined_iff:
  assumes "console_sound s"
  shows "if event_defined s e then \<exists>s'. run_event P (VGAConsole P) e s = Some (Inr (), s') \<and> console_sound s'
    else run_event P (VGAConsole P) e s = None"
  using vga.run_event_exact [of s e P] assms by (auto simp: console_all_ok split: if_splits)

text \<open>C5: From the switch to a session on, after any run that is defined, the memory of the video hardware holds the buffer of the group
  in the foreground: the process groups in the foreground and in the background use any operation of the console (raw characters and
  areas included), the user switches between sessions, groups are made in the background. Left out are writes of the kernel and groups
  made in the foreground, which the screen does not follow.\<close>

theorem screen_shows_the_foreground:
  assumes "console_sound s" "list_all keeps_screen es"
    "steps (run_event P (VGAConsole P)) (Show g # es) s = Some (r, s')"
  shows "\<exists>h b. d_fg s' = Some h \<and> d_groups s' h = Some b \<and> take 4000 (vga_memory (d_video s')) = db_bytes b"
proof -
  have "run_event P (VGAConsole P) (Show g) s \<noteq> None"
    using assms(3) by (cases "run_event P (VGAConsole P) (Show g) s") (simp_all add: then_do_def and_then_def)
  then obtain t where t: "run_event P (VGAConsole P) (Show g) s = Some (Inr (), t)" "vga.all_ok t" "vga.agrees t"
    using vga.run_event_exact [of s "Show g" P] assms(1) by (auto simp: console_all_ok split: if_splits)
  have "steps (run_event P (VGAConsole P)) es t = Some (r, s')" using assms(3) t(1) by (simp add: then_do_def and_then_def)
  from vga.run_events_agree [OF t(2,3) assms(2) this] show ?thesis by (auto simp: vga.agrees_def vga_shown_def)
qed

text \<open>C6: Writing a message changes the buffer of the caller exactly as a terminal of 25 lines does: characters and attributes at the
  cursor, new lines, tabs of four blanks, and at the end of the screen the text moves up by a line; no other buffer is changed.\<close>

theorem message_is_terminal_output:
  assumes "console_ok s"
  shows "\<exists>s'. Message P (VGAConsole P) msg attr s = Some (Inr (), s') \<and>
    terminal_of (cur_buf s') = foldl (term_char P 25 80 (m_Attr attr)) (terminal_of (cur_buf s)) msg \<and>
    s' = put_buf (cur_buf s') (s\<lparr>d_video := d_video s'\<rparr>)"
proof -
  note s = console_fits [OF assms]
  obtain s' where s': "Message P (VGAConsole P) msg attr s = Some (Inr (), s')"
    "vga.drawn s (fold (vga.buf_char P (m_Attr attr)) msg (cur_buf s)) s'"
    using vga.acts_Message [of P msg attr] s unfolding vga.acts_def by blast
  have "cur_buf s' = fold (vga.buf_char P (m_Attr attr)) msg (cur_buf s)" using vga.drawn_fits [OF s(1) s'(2)] by simp
  then show ?thesis using s' vga.terminal_text [OF s(2)] by (auto simp: vga.drawn_def)
qed

lemma blanks_nth: "i < n \<Longrightarrow> blanks P n ! (2 * i) = BLANK \<and> blanks P n ! Suc (2 * i) = WHITE_ON_BLACK P"
proof (induction n arbitrary: i)
  case (Suc n)
  then show ?case by (cases i) auto
qed simp

lemma PutChar_unchanged:
  assumes "caller_ok s" "Suc (2 * i) < length (db_bytes (cur_buf s))" "db_bytes (cur_buf s) ! (2 * i) = ch" "db_bytes (cur_buf s) ! Suc (2 * i) = attr"
  shows "PutChar C (2 * i) ch attr s = Some (Inr (), s)"
proof -
  have "(cur_buf s)\<lparr>db_bytes := (db_bytes (cur_buf s))[2 * i := ch]\<rparr> = cur_buf s"
    "(cur_buf s)\<lparr>db_bytes := (db_bytes (cur_buf s))[Suc (2 * i) := attr]\<rparr> = cur_buf s" using assms by auto
  then show ?thesis using assms
    by (simp add: PutChar_def PutCharOnBuffer_def run_then run_Buffer_PutChar run_gets only_if_def) (simp add: yield_def)
qed

lemma steps_unchanged: "(\<And>x. x \<in> set xs \<Longrightarrow> f x s = Some (Inr (), s)) \<Longrightarrow> steps f xs s = Some (Inr (), s)"
  by (induction xs) (simp_all add: yield_def then_do_def and_then_def)

text \<open>C23: A new session starts with a blank buffer, and its \<open>ClearScreen\<close>, like every operation, draws only characters that differ
  from those of the buffer: nothing is drawn, the screen goes on showing the session before.\<close>

theorem new_session_keeps_old_screen:
  assumes "console_ok s" "g \<notin> dom (d_groups s)"
  shows "\<exists>s'. then_do (ProcessGroup_display P g True) (run_event P (VGAConsole P) (Call (Process g) OpClearScreen)) s = Some (Inr (), s') \<and>
    d_fg s' = Some g \<and> vga_memory (d_video s') = vga_memory (d_video s)"
proof -
  let ?b = "DisplayBuffer P 25 80"
  let ?t = "s\<lparr>d_groups := (d_groups s)(g \<mapsto> ?b), d_fg := Some g, d_caller := Process g\<rparr>"
  have d: "d_rows s = 25" "d_cols s = 80" using assms(1) by (simp_all add: console_ok_def)
  have t: "caller_ok ?t" "cur_buf ?t = ?b" "on_screen ?t" by (simp_all add: caller_ok_def cur_buf_def on_screen_def)
  have same: "steps (\<lambda>i. PutChar (VGAConsole P) (2 * i) BLANK (WHITE_ON_BLACK P)) [0 ..< 2000] ?t = Some (Inr (), ?t)"
    by (rule steps_unchanged) (use t blanks_nth [of _ 2000] in \<open>auto simp: DisplayBuffer_def intro!: PutChar_unchanged\<close>)
  obtain v where v: "VGA_GotoCursor 25 80 0 (d_video s) = Some v" "vga_memory v = vga_memory (d_video s)"
    by (simp add: VGA_GotoCursor_def)
  have "run_event P (VGAConsole P) (Call (Process g) OpClearScreen) (s\<lparr>d_groups := (d_groups s)(g \<mapsto> ?b), d_fg := Some g\<rparr>) =
      UpdateCursorPosition (VGAConsole P) 0 True ?t"
    using same d t(1) by (simp add: run_then run_get ClearScreen_def run_gets) (simp add: and_then_def)
  also have "\<dots> = Some (Inr (), (put_buf (?b\<lparr>db_cursor := 0\<rparr>) ?t)\<lparr>d_video := v\<rparr>)"
    using t v(1) by (simp add: UpdateCursorPosition_def run_then run_change_then run_gets run_cursor only_if_def run_video VGAConsole_def)
  finally show ?thesis
    using v(2) d by (simp add: ProcessGroup_display_def CreateDisplayBuffer_def run_then only_if_def put_buf_def)
qed

text \<open>\<open>RawCharacter\<close> advances the cursor without looking at the end of the buffer: behind the last cell the next character is
  written outside the buffer of the process group.\<close>

theorem raw_character_leaves_the_buffer:
  assumes "console_ok s" "db_cursor (cur_buf s) = 1999"
  shows "then_do (RawCharacter P (VGAConsole P) ch attr u) (RawCharacter P (VGAConsole P) ch' attr' u') s = None"
proof -
  let ?C = "VGAConsole P" and ?c = "if ch = NO_CHAR P then BLANK else ch"
  note s = console_fits [OF assms(1)]
  obtain t where t: "PutChar ?C (2 * 1999) ?c attr s = Some (Inr (), t)"
    "vga.drawn s ((cur_buf s)\<lparr>db_bytes := (db_bytes (cur_buf s))[2 * 1999 := ?c, Suc (2 * 1999) := attr]\<rparr>) t"
    using vga.acts_PutChar [of 1999 P ?c attr] s(1) unfolding vga.acts_def by auto
  have ft: "vga.fits t" "db_cursor (cur_buf t) = 1999" using vga.drawn_fits [OF s(1) t(2)] assms(2) by auto
  obtain r where r: "UpdateCursorPosition ?C 2000 u t = Some (Inr (), r)" "vga.drawn t ((cur_buf t)\<lparr>db_cursor := 2000\<rparr>) r"
    using vga.acts_Update [of "\<lambda>_. True" P 2000 u] ft(1) unfolding vga.acts_def by auto
  have fr: "vga.fits r" "db_cursor (cur_buf r) = 2000" using vga.drawn_fits [OF ft(1) r(2)] by auto
  have first: "PutChar ?C 3998 ?c attr s = Some (Inr (), t)" using t(1) by simp
  have step: "and_then (PutChar ?C 3998 ?c attr) k s = k () t" for k :: "unit \<Rightarrow> (vga, unit) d_eff"
    by (rule run_step [where m = "PutChar ?C 3998 ?c attr" and s = s, OF first])
  have "RawCharacter P ?C ch attr u s = Some (Inr (), r)"
    using s(1) assms(2) r(1) ft
    by (simp add: RawCharacter_def run_cursor vga.fits_def run_then step split del: if_split)
  moreover have "RawCharacter P ?C ch' attr' u' r = None"
    using fr by (simp add: RawCharacter_def run_cursor vga.fits_def run_then PutChar_def PutCharOnBuffer_def Buffer_PutChar_def
        Display_GetChar_def run_get) (simp add: undef_def and_then_def)
  ultimately show ?thesis by (simp add: then_do_def and_then_def)
qed

section \<open>A sample\<close>

definition sample_palette :: palette where
  "sample_palette = \<lparr>FG_WHITE = 0x0F, FG_BLACK = 0, FG_RED = 4, BG_WHITE = 0x70, BG_BLACK = 0, BG_GREEN = 0x20, NO_CHAR = 0xFF\<rparr>"

definition sample_console :: "vga disp" where
  "sample_console = Display sample_palette 25 80 \<lparr>vga_memory = replicate 4000 0, crt_index = 0, crt_regs = (\<lambda>_. 0)\<rparr>"

lemma sample_console_ok: "console_ok sample_console" "dom (d_groups sample_console) = {}"
  by (simp_all add: console_ok_def sample_console_def Display_def DisplayBuffer_def)

lemma sample_group_ok:
  assumes "s = sample_console\<lparr>d_groups := [1 \<mapsto> DisplayBuffer sample_palette 25 80, 2 \<mapsto> DisplayBuffer sample_palette 25 80]\<rparr>"
  shows "console_sound s" "d_groups s 1 = Some (DisplayBuffer sample_palette 25 80)"
  unfolding assms by (auto simp: console_sound_def sample_console_def Display_def DisplayBuffer_def ran_def)

theorem console_operation_defined_iff_witness:
  "(\<exists>s'. run_event sample_palette (VGAConsole sample_palette) (Call (Process 1) (OpRawCharacterArea (replicate 160 (0x41, 7)) 2 80 1840))
      (sample_console\<lparr>d_groups := [1 \<mapsto> DisplayBuffer sample_palette 25 80, 2 \<mapsto> DisplayBuffer sample_palette 25 80]\<rparr>) = Some (Inr (), s') \<and>
    console_sound s')"
proof -
  define s where "s = sample_console\<lparr>d_groups := [1 \<mapsto> DisplayBuffer sample_palette 25 80, 2 \<mapsto> DisplayBuffer sample_palette 25 80]\<rparr>"
  note ok = sample_group_ok [OF s_def]
  have "d_rows s = 25" "d_cols s = 80" by (simp_all add: s_def sample_console_def Display_def)
  then have "event_defined s (Call (Process 1) (OpRawCharacterArea (replicate 160 (0x41, 7)) 2 80 1840))"
    using ok(2) by (simp add: caller_buffer_def placed_def wrap_int_def numeral_2_eq_2)
  then show ?thesis
    using console_operation_defined_iff [OF ok(1), where e = "Call (Process 1) (OpRawCharacterArea (replicate 160 (0x41, 7)) 2 80 1840)"]
    unfolding s_def [symmetric] by (simp only: if_True)
qed

theorem screen_shows_the_foreground_witness:
  "\<exists>s' h b. steps (run_event sample_palette (VGAConsole sample_palette)) [Show 1, Call (Process 1) (OpRawCharacter 0x41 (Attribute_default sample_palette) True)]
     (sample_console\<lparr>d_groups := [1 \<mapsto> DisplayBuffer sample_palette 25 80, 2 \<mapsto> DisplayBuffer sample_palette 25 80]\<rparr>) = Some (Inr (), s') \<and>
     d_fg s' = Some h \<and> d_groups s' h = Some b \<and> take 4000 (vga_memory (d_video s')) = db_bytes b"
proof -
  define s where "s = sample_console\<lparr>d_groups := [1 \<mapsto> DisplayBuffer sample_palette 25 80, 2 \<mapsto> DisplayBuffer sample_palette 25 80]\<rparr>"
  let ?C = "VGAConsole sample_palette" and ?e = "Call (Process 1) (OpRawCharacter 0x41 (Attribute_default sample_palette) True)"
  note ok = sample_group_ok [OF s_def]
  obtain v where v: "run_event sample_palette ?C (Show 1) s = Some (Inr (), s\<lparr>d_fg := Some 1, d_video := v\<rparr>)"
    "vga_shown v = db_bytes (DisplayBuffer sample_palette 25 80)"
    using vga.SwitchToSession_shows [of s 1 "DisplayBuffer sample_palette 25 80" sample_palette] vga.all_ok_fits ok
    by (auto simp: console_all_ok DisplayBuffer_def)
  let ?t = "s\<lparr>d_fg := Some 1, d_video := v\<rparr>"
  have "vga.all_ok ?t" using ok v(2) by (simp add: console_all_ok vga.all_ok_def caller_ok_def DisplayBuffer_def)
  moreover have "event_defined ?t ?e" using ok(2) by (simp add: caller_buffer_def DisplayBuffer_def s_def sample_console_def Display_def)
  ultimately obtain s' where "run_event sample_palette ?C ?e ?t = Some (Inr (), s')" using vga.run_event_exact [of ?t ?e] by auto
  then have run: "steps (run_event sample_palette ?C) [Show 1, ?e] s = Some (Inr (), s')"
    using v(1) by (simp add: then_do_def and_then_def yield_def del: run_event.simps)
  from screen_shows_the_foreground [OF ok(1) _ run] run show ?thesis unfolding s_def by auto
qed

theorem message_is_terminal_output_witness:
  "\<exists>s'. Message sample_palette (VGAConsole sample_palette) [0x41, 0x09, 0x0A] (Attribute_default sample_palette) sample_console = Some (Inr (), s') \<and>
    terminal_of (cur_buf s') = foldl (term_char sample_palette 25 80 (m_Attr (Attribute_default sample_palette))) (terminal_of (cur_buf sample_console)) [0x41, 0x09, 0x0A]"
  using message_is_terminal_output [OF sample_console_ok(1), of sample_palette "[0x41, 0x09, 0x0A]"] by blast

theorem new_session_keeps_old_screen_witness:
  "\<exists>s'. then_do (ProcessGroup_display sample_palette 1 True) (run_event sample_palette (VGAConsole sample_palette) (Call (Process 1) OpClearScreen))
     sample_console = Some (Inr (), s') \<and> vga_memory (d_video s') = replicate 4000 0"
  using new_session_keeps_old_screen [OF sample_console_ok(1), of 1 sample_palette] sample_console_ok(2)
  by (auto simp: sample_console_def Display_def)

theorem raw_character_leaves_the_buffer_witness:
  "then_do (RawCharacter sample_palette (VGAConsole sample_palette) 0x41 7 True) (RawCharacter sample_palette (VGAConsole sample_palette) 0x42 7 True)
     (sample_console\<lparr>d_kernel := (DisplayBuffer sample_palette 25 80)\<lparr>db_cursor := 1999\<rparr>\<rparr>) = None"
proof (rule raw_character_leaves_the_buffer)
  show "console_ok (sample_console\<lparr>d_kernel := (DisplayBuffer sample_palette 25 80)\<lparr>db_cursor := 1999\<rparr>\<rparr>)"
    using sample_console_ok(1) by (auto simp: console_ok_def sample_console_def Display_def DisplayBuffer_def)
qed (simp add: cur_buf_def sample_console_def Display_def)

end
