(* ===== verification/PortIO.thy ===== *)
theory PortIO
  imports Effects
begin

text \<open>
  Input and output on ports (\<open>kernel/PortCom.cpp\<close>). A device is any function that says what a read gives after
  what has been read and written before, so what is proved holds for every hardware. The state of a driver
  carries the trace of its accesses, the latest first; interrupt lines that are switched are part of it.
\<close>

datatype io =
  In8 u16 u8 | In16 u16 u16 | In32 u16 u32
| Out8 u16 u8 | Out16 u16 u16 | Out32 u16 u32
| DisableIRQ nat | EnableIRQ nat | RegisterIRQ nat | SendEOI nat
| Sleep nat

record device =
  reads8 :: "io list \<Rightarrow> u16 \<Rightarrow> u8"
  reads16 :: "io list \<Rightarrow> u16 \<Rightarrow> u16"
  reads32 :: "io list \<Rightarrow> u16 \<Rightarrow> u32"

record driver =
  trace :: "io list"

definition emit :: "io \<Rightarrow> ('s driver_scheme, 'e, unit) eff" where
  "emit e = modify (\<lambda>s. s\<lparr>trace := e # trace s\<rparr>)"

definition PortCom_SendByte :: "u16 \<Rightarrow> u8 \<Rightarrow> ('s driver_scheme, 'e, unit) eff" where
  "PortCom_SendByte port v = emit (Out8 port v)"

definition PortCom_SendWord :: "u16 \<Rightarrow> u16 \<Rightarrow> ('s driver_scheme, 'e, unit) eff" where
  "PortCom_SendWord port v = emit (Out16 port v)"

definition PortCom_SendDoubleWord :: "u16 \<Rightarrow> u32 \<Rightarrow> ('s driver_scheme, 'e, unit) eff" where
  "PortCom_SendDoubleWord port v = emit (Out32 port v)"

definition PortCom_ReceiveByte :: "device \<Rightarrow> u16 \<Rightarrow> ('s driver_scheme, 'e, u8) eff" where
  "PortCom_ReceiveByte D port = and_then (gets (\<lambda>s. reads8 D (trace s) port)) (\<lambda>v. then_do (emit (In8 port v)) (yield v))"

definition PortCom_ReceiveWord :: "device \<Rightarrow> u16 \<Rightarrow> ('s driver_scheme, 'e, u16) eff" where
  "PortCom_ReceiveWord D port = and_then (gets (\<lambda>s. reads16 D (trace s) port)) (\<lambda>v. then_do (emit (In16 port v)) (yield v))"

definition PortCom_ReceiveDoubleWord :: "device \<Rightarrow> u16 \<Rightarrow> ('s driver_scheme, 'e, u32) eff" where
  "PortCom_ReceiveDoubleWord D port = and_then (gets (\<lambda>s. reads32 D (trace s) port)) (\<lambda>v. then_do (emit (In32 port v)) (yield v))"

lemma wp_emit [wp_rules]: "wp u (emit e) Q X = (\<lambda>s. Q () (s\<lparr>trace := e # trace s\<rparr>))"
  by (simp add: emit_def wp_modify)

lemma wp_ports [wp_rules]:
  "wp u (PortCom_SendByte p v) Q X = (\<lambda>s. Q () (s\<lparr>trace := Out8 p v # trace s\<rparr>))"
  "wp u (PortCom_SendWord p w) Q X = (\<lambda>s. Q () (s\<lparr>trace := Out16 p w # trace s\<rparr>))"
  "wp u (PortCom_SendDoubleWord p d) Q X = (\<lambda>s. Q () (s\<lparr>trace := Out32 p d # trace s\<rparr>))"
  "wp u (PortCom_ReceiveByte D p) Q8 X = (\<lambda>s. Q8 (reads8 D (trace s) p) (s\<lparr>trace := In8 p (reads8 D (trace s) p) # trace s\<rparr>))"
  "wp u (PortCom_ReceiveWord D p) Q16 X = (\<lambda>s. Q16 (reads16 D (trace s) p) (s\<lparr>trace := In16 p (reads16 D (trace s) p) # trace s\<rparr>))"
  "wp u (PortCom_ReceiveDoubleWord D p) Q32 X = (\<lambda>s. Q32 (reads32 D (trace s) p) (s\<lparr>trace := In32 p (reads32 D (trace s) p) # trace s\<rparr>))"
  by (simp_all add: PortCom_SendByte_def PortCom_SendWord_def PortCom_SendDoubleWord_def PortCom_ReceiveByte_def PortCom_ReceiveWord_def
      PortCom_ReceiveDoubleWord_def wp_rules)

text \<open>Operations that keep a property of the trace, whether they return or throw.\<close>

definition keeps_trace :: "(io list \<Rightarrow> bool) \<Rightarrow> ('s driver_scheme, 'e, 'a) eff \<Rightarrow> bool" where
  "keeps_trace I m \<longleftrightarrow> (\<forall>s. I (trace s) \<longrightarrow> wp False m (\<lambda>_ t. I (trace t)) (\<lambda>_ t. I (trace t)) s)"

lemma keeps_traceI: "(\<And>s. I (trace s) \<Longrightarrow> wp False m (\<lambda>_ t. I (trace t)) (\<lambda>_ t. I (trace t)) s) \<Longrightarrow> keeps_trace I m"
  by (simp add: keeps_trace_def)

lemma keeps_traceD: "keeps_trace I m \<Longrightarrow> I (trace s) \<Longrightarrow> wp False m (\<lambda>_ t. I (trace t)) (\<lambda>_ t. I (trace t)) s"
  by (simp add: keeps_trace_def)

named_theorems keeps_rules \<open>operations that keep a property of the trace\<close>

lemma keeps_yield [keeps_rules]: "keeps_trace I (yield x)"
  by (simp add: keeps_trace_def wp_rules)

lemma keeps_throw [keeps_rules]: "keeps_trace I (throw e)"
  by (simp add: keeps_trace_def wp_rules)

lemma keeps_gets: "keeps_trace I (gets f)"
  by (simp add: keeps_trace_def wp_rules)

lemma keeps_and_then [keeps_rules]: "keeps_trace I m \<Longrightarrow> (\<And>x. keeps_trace I (f x)) \<Longrightarrow> keeps_trace I (and_then m f)"
  unfolding keeps_trace_def wp_and_then by (blast intro: wp_mono)

lemma keeps_then_do [keeps_rules]: "keeps_trace I m \<Longrightarrow> keeps_trace I k \<Longrightarrow> keeps_trace I (then_do m k)"
  unfolding then_do_def by (rule keeps_and_then)

lemma keeps_catch [keeps_rules]: "keeps_trace I m \<Longrightarrow> (\<And>e. keeps_trace I (h e)) \<Longrightarrow> keeps_trace I (catch m h)"
  unfolding keeps_trace_def wp_catch by (blast intro: wp_mono)

lemma keeps_if [keeps_rules]: "(b \<Longrightarrow> keeps_trace I m) \<Longrightarrow> (\<not> b \<Longrightarrow> keeps_trace I k) \<Longrightarrow> keeps_trace I (if b then m else k)"
  by simp

lemma keeps_only_if [keeps_rules]: "(b \<Longrightarrow> keeps_trace I m) \<Longrightarrow> keeps_trace I (only_if b m)"
  by (simp add: only_if_def keeps_yield)

lemma keeps_the_or [keeps_rules]: "keeps_trace I m \<Longrightarrow> keeps_trace I (the_or m x)"
  by (cases x) (simp_all add: the_or_def keeps_yield)

lemma keeps_steps: "(\<And>x. x \<in> set xs \<Longrightarrow> keeps_trace I (f x)) \<Longrightarrow> keeps_trace I (steps f xs)"
  by (induction xs) (simp_all add: keeps_rules)

end
