(* ===== verification/PS2.thy ===== *)
theory PS2
  imports PortIO
begin

text \<open>
  The PS/2 controller with its keyboard and mouse: \<open>drivers/ps2/PS2Controller.cpp\<close>, \<open>PS2KeyboardDriver.cpp\<close>,
  \<open>PS2MouseDriver.cpp\<close>, \<open>kernel/KBInputHandler.cpp\<close> and the cursor of \<open>drivers/video/GraphicsVideo.cpp\<close>. The
  interrupt lines of keyboard and mouse are 1 and 12.
\<close>

section \<open>The controller\<close>

abbreviation (input) COMMAND_PORT :: u16 where "COMMAND_PORT \<equiv> 0x64"
abbreviation (input) DATA_PORT :: u16 where "DATA_PORT \<equiv> 0x60"
abbreviation (input) STAT_OBF :: u8 where "STAT_OBF \<equiv> 0x01"
abbreviation (input) STAT_IBF :: u8 where "STAT_IBF \<equiv> 0x02"
abbreviation (input) CMD_REBOOT :: u8 where "CMD_REBOOT \<equiv> 0xFE"
abbreviation (input) CMD_DISABLE_PORT1 :: u8 where "CMD_DISABLE_PORT1 \<equiv> 0xAD"
abbreviation (input) CMD_ENABLE_PORT1 :: u8 where "CMD_ENABLE_PORT1 \<equiv> 0xAE"
abbreviation (input) CMD_DISABLE_PORT2 :: u8 where "CMD_DISABLE_PORT2 \<equiv> 0xA7"
abbreviation (input) CMD_ENABLE_PORT2 :: u8 where "CMD_ENABLE_PORT2 \<equiv> 0xA8"
abbreviation (input) CMD_WRITE_NEXT_PORT2 :: u8 where "CMD_WRITE_NEXT_PORT2 \<equiv> 0xD4"
abbreviation (input) KEYBOARD_IRQ :: nat where "KEYBOARD_IRQ \<equiv> 1"
abbreviation (input) MOUSE_IRQ :: nat where "MOUSE_IRQ \<equiv> 12"

datatype ps2_error =
  CommandFailed u16 u8
| NoResponse string
| InvalidAck u8
| SelfTestFailed
| NoWorkingPorts

text \<open>The state of the controller's driver: which of the drivers of its devices exist.\<close>

record ps2 = driver +
  has_keyboard :: bool
  has_mouse :: bool

type_synonym 'a ps2_eff = "(ps2, ps2_error, 'a) eff"

abbreviation (input) TIMEOUT :: nat where "TIMEOUT \<equiv> 0xFFFFF"

text \<open>The loops of the waits give what is left of the time.\<close>

fun WaitForWrite_loop :: "device \<Rightarrow> nat \<Rightarrow> ('s driver_scheme, ps2_error, nat) eff" where
  "WaitForWrite_loop D 0 = yield 0"
| "WaitForWrite_loop D (Suc n) = and_then (PortCom_ReceiveByte D COMMAND_PORT) (\<lambda>st.
     if st AND STAT_IBF \<noteq> 0 then WaitForWrite_loop D n else yield (Suc n))"

definition WaitForWrite :: "device \<Rightarrow> ('s driver_scheme, ps2_error, bool) eff" where
  "WaitForWrite D = and_then (WaitForWrite_loop D TIMEOUT) (\<lambda>iTimeOut. yield (iTimeOut > 0))"

fun WaitForRead_loop :: "device \<Rightarrow> nat \<Rightarrow> ('s driver_scheme, ps2_error, nat) eff" where
  "WaitForRead_loop D 0 = yield 0"
| "WaitForRead_loop D (Suc n) = and_then (PortCom_ReceiveByte D COMMAND_PORT) (\<lambda>st.
     if st AND STAT_OBF = 0 then WaitForRead_loop D n else yield (Suc n))"

definition WaitForRead :: "device \<Rightarrow> ('s driver_scheme, ps2_error, bool) eff" where
  "WaitForRead D = and_then (WaitForRead_loop D TIMEOUT) (\<lambda>iTimeOut. yield (iTimeOut > 0))"

definition Reboot :: "device \<Rightarrow> unit ps2_eff" where
  "Reboot D = and_then (WaitForWrite D) (\<lambda>_. PortCom_SendByte COMMAND_PORT CMD_REBOOT)"

definition SendCommand :: "device \<Rightarrow> u16 \<Rightarrow> u8 \<Rightarrow> unit ps2_eff" where
  "SendCommand D port cmd = and_then (WaitForWrite D) (\<lambda>ok.
     if \<not> ok then throw (CommandFailed port cmd) else PortCom_SendByte port cmd)"

definition SendCommand2 :: "device \<Rightarrow> u8 \<Rightarrow> unit ps2_eff" where
  "SendCommand2 D command = then_do (SendCommand D COMMAND_PORT CMD_WRITE_NEXT_PORT2) (SendCommand D DATA_PORT command)"

definition ReceiveData :: "device \<Rightarrow> u8 option ps2_eff" where
  "ReceiveData D = and_then (WaitForRead D) (\<lambda>ok.
     if \<not> ok then yield None else and_then (PortCom_ReceiveByte D DATA_PORT) (\<lambda>b. yield (Some b)))"

definition ReceiveOrThrow :: "device \<Rightarrow> string \<Rightarrow> u8 ps2_eff" where
  "ReceiveOrThrow D what = and_then (ReceiveData D) (the_or (throw (NoResponse what)))"

definition WaitForAck :: "device \<Rightarrow> unit ps2_eff" where
  "WaitForAck D = and_then (ReceiveOrThrow D ''ack timed out'') (\<lambda>b. if b \<noteq> 0xFA then throw (InvalidAck b) else yield ())"

fun ClearOutputBuffer_loop :: "device \<Rightarrow> nat \<Rightarrow> unit ps2_eff" where
  "ClearOutputBuffer_loop D 0 = yield ()"
| "ClearOutputBuffer_loop D (Suc n) = and_then (WaitForRead D) (\<lambda>ok.
     if \<not> ok then yield () else and_then (PortCom_ReceiveByte D DATA_PORT) (\<lambda>_. ClearOutputBuffer_loop D n))"

definition ClearOutputBuffer :: "device \<Rightarrow> unit ps2_eff" where
  "ClearOutputBuffer D = ClearOutputBuffer_loop D 1000"

text \<open>The constructors of the drivers run once. \<open>RegisterIRQ\<close> and \<open>EnableIRQ\<close> are those of the interrupt manager.\<close>

definition PS2KeyboardDriver_Instance :: "device \<Rightarrow> unit ps2_eff" where
  "PS2KeyboardDriver_Instance D = and_then (gets has_keyboard) (\<lambda>has. only_if (\<not> has)
     (then_do (modify (\<lambda>s. s\<lparr>has_keyboard := True\<rparr>))
     (then_do (emit (DisableIRQ KEYBOARD_IRQ)) (then_do (emit (RegisterIRQ KEYBOARD_IRQ)) (then_do (emit (EnableIRQ KEYBOARD_IRQ))
       (and_then (PortCom_ReceiveByte D DATA_PORT) (\<lambda>_. yield ())))))))"

definition PS2MouseDriver_Instance :: "unit ps2_eff" where
  "PS2MouseDriver_Instance = and_then (gets has_mouse) (\<lambda>has. only_if (\<not> has)
     (then_do (modify (\<lambda>s. s\<lparr>has_mouse := True\<rparr>))
     (then_do (emit (DisableIRQ MOUSE_IRQ)) (then_do (emit (RegisterIRQ MOUSE_IRQ)) (emit (EnableIRQ MOUSE_IRQ))))))"

definition InitDriver :: "device \<Rightarrow> u8 \<Rightarrow> unit ps2_eff" where
  "InitDriver D devCode =
     (if devCode = 0xAB then PS2KeyboardDriver_Instance D
      else if devCode = 0x00 \<or> devCode = 0x03 \<or> devCode = 0x04 then PS2MouseDriver_Instance else yield ())"

definition Initialize_port1 :: "device \<Rightarrow> unit ps2_eff" where
  "Initialize_port1 D =
     then_do (SendCommand D COMMAND_PORT CMD_ENABLE_PORT1)
    (then_do (SendCommand D DATA_PORT 0xF5) (then_do (WaitForAck D)
    (then_do (SendCommand D DATA_PORT 0xF2) (then_do (WaitForAck D)
    (and_then (ReceiveOrThrow D ''failed to read first byte of device id response'') (\<lambda>devCode1.
     and_then (ReceiveData D) (\<lambda>devCode2.
     then_do (SendCommand D DATA_PORT 0xF4) (then_do (WaitForAck D) (InitDriver D devCode1)))))))))"

definition Initialize_port2 :: "device \<Rightarrow> unit ps2_eff" where
  "Initialize_port2 D =
     then_do (SendCommand D COMMAND_PORT CMD_ENABLE_PORT2)
    (then_do (SendCommand2 D 0xF5) (then_do (WaitForAck D)
    (then_do (SendCommand2 D 0xF2) (then_do (WaitForAck D)
    (and_then (ReceiveOrThrow D ''failed to read first byte of device id response'') (\<lambda>devCode1.
     and_then (ReceiveData D) (\<lambda>devCode2.
     then_do (SendCommand2 D 0xF4) (then_do (WaitForAck D) (InitDriver D devCode1)))))))))"

text \<open>Whether the second channel exists, asked when the configuration byte allows it; the answer is not used afterwards.
  The second configuration byte replaces the first one.\<close>

definition Initialize_channels :: "device \<Rightarrow> u8 \<Rightarrow> bool \<Rightarrow> u8 ps2_eff" where
  "Initialize_channels D status dualChannelController =
     (if \<not> dualChannelController then yield status else
      then_do (SendCommand D COMMAND_PORT CMD_ENABLE_PORT2)
     (then_do (SendCommand D COMMAND_PORT 0x20)
     (and_then (ReceiveOrThrow D ''failed to read status'') (\<lambda>status.
        then_do (only_if (status AND 0x20 = 0) (SendCommand D COMMAND_PORT CMD_DISABLE_PORT2)) (yield status)))))"

definition PS2_Initialize :: "device \<Rightarrow> unit ps2_eff" where
  "PS2_Initialize D =
     then_do (emit (DisableIRQ KEYBOARD_IRQ)) (then_do (emit (DisableIRQ MOUSE_IRQ))
    (then_do (SendCommand D COMMAND_PORT CMD_DISABLE_PORT1)
    (then_do (SendCommand D COMMAND_PORT CMD_DISABLE_PORT2)
    (then_do (ClearOutputBuffer D)
    (then_do (SendCommand D COMMAND_PORT 0x20)
    (and_then (ReceiveOrThrow D ''failed read status'') (\<lambda>status0.
     let dual = (status0 AND 0x20 \<noteq> 0); status1 = status0 AND NOT 0x33 in
     then_do (SendCommand D COMMAND_PORT 0x60)
    (then_do (SendCommand D DATA_PORT status1)
    (then_do (SendCommand D COMMAND_PORT 0xAA)
    (and_then (ReceiveOrThrow D ''failed to read self test response'') (\<lambda>selfTestResp.
     if selfTestResp \<noteq> 0x55 then
       then_do (SendCommand D COMMAND_PORT 0x60) (then_do (SendCommand D DATA_PORT status1) (throw SelfTestFailed))
     else
     and_then (Initialize_channels D status1 dual) (\<lambda>status2.
     then_do (SendCommand D COMMAND_PORT 0xAB)
    (and_then (ReceiveOrThrow D ''failed to test ack from port1'') (\<lambda>ack1. let port1Good = (ack1 = 0) in
     then_do (SendCommand D COMMAND_PORT 0xA9)
    (and_then (ReceiveOrThrow D ''failed to test ack from port2'') (\<lambda>ack2. let port2Good = (ack2 = 0) in
     if \<not> port1Good \<and> \<not> port2Good then throw NoWorkingPorts
     else
     then_do (only_if port1Good (Initialize_port1 D))
    (then_do (ClearOutputBuffer D)
    (then_do (only_if port2Good (Initialize_port2 D))
    (then_do (SendCommand D COMMAND_PORT 0x60)
       (SendCommand D DATA_PORT (status2 OR (if port1Good then 1 else 0) OR (if port2Good then 2 else 0))))))))))))))))))))))"

text \<open>The constructor catches the exceptions; the result says which message is shown.\<close>

definition PS2Controller :: "device \<Rightarrow> bool ps2_eff" where
  "PS2Controller D = catch (then_do (PS2_Initialize D) (yield True)) (\<lambda>_. yield False)"

section \<open>The keyboard\<close>

abbreviation (input) Keyboard_ESC :: u8 where "Keyboard_ESC \<equiv> 1"
abbreviation (input) Keyboard_BACKSPACE :: u8 where "Keyboard_BACKSPACE \<equiv> 2"
abbreviation (input) Keyboard_ENTER :: u8 where "Keyboard_ENTER \<equiv> 3"
abbreviation (input) Keyboard_LEFT_CTRL :: u8 where "Keyboard_LEFT_CTRL \<equiv> 4"
abbreviation (input) Keyboard_LEFT_SHIFT :: u8 where "Keyboard_LEFT_SHIFT \<equiv> 5"
abbreviation (input) Keyboard_LEFT_ALT :: u8 where "Keyboard_LEFT_ALT \<equiv> 6"
abbreviation (input) Keyboard_RIGHT_SHIFT :: u8 where "Keyboard_RIGHT_SHIFT \<equiv> 7"
abbreviation (input) Keyboard_CAPS_LOCK :: u8 where "Keyboard_CAPS_LOCK \<equiv> 10"
abbreviation (input) Keyboard_F1 :: u8 where "Keyboard_F1 \<equiv> 19"
abbreviation (input) Keyboard_NA_CHAR :: u8 where "Keyboard_NA_CHAR \<equiv> 0xFF"
abbreviation (input) EXTRA_KEYS :: u8 where "EXTRA_KEYS \<equiv> 224"
abbreviation (input) MAX_KEYBOARD_CHARS :: nat where "MAX_KEYBOARD_CHARS \<equiv> 84"
abbreviation (input) CTRL_VALUE :: u8 where "CTRL_VALUE \<equiv> 100"

text \<open>The characters of the maps by their codes, 84 each.\<close>

definition GENERIC_KEY_MAP :: "u8 list" where
  "GENERIC_KEY_MAP =
    [0xFF, 1, 0x31, 0x32, 0x33, 0x34, 0x35, 0x36, 0x37, 0x38, 0x39,
     0x30, 0x2D, 0x3D, 2, 0x09, 0x71, 0x77, 0x65, 0x72,
     0x74, 0x79, 0x75, 0x69, 0x6F, 0x70, 0x5B, 0x5D, 3,
     4, 0x61, 0x73, 0x64, 0x66, 0x67, 0x68, 0x6A, 0x6B,
     0x6C, 0x3B, 0x27, 0x60, 5, 0x5C, 0x7A, 0x78, 0x63,
     0x76, 0x62, 0x6E, 0x6D, 0x2C, 0x2E, 0x2F, 7, 0x2A,
     6, 0x20, 10, 19, 20,
     21, 22, 23, 24, 25,
     26, 27, 28, 0xFF, 0xFF, 154,
     150, 158, 0xFF, 152, 0xFF,
     153, 0xFF, 155, 151,
     159, 156, 157]"

definition GENERIC_SHIFTED_KEY_MAP :: "u8 list" where
  "GENERIC_SHIFTED_KEY_MAP =
    [0xFF, 1, 0x21, 0x40, 0x23, 0x24, 0x25, 0x5E, 0x26, 0x2A, 0x28,
     0x29, 0x5F, 0x2B, 2, 0x09, 0x51, 0x57, 0x45, 0x52,
     0x54, 0x59, 0x55, 0x49, 0x4F, 0x50, 0x7B, 0x7D, 3,
     4, 0x41, 0x53, 0x44, 0x46, 0x47, 0x48, 0x4A, 0x4B,
     0x4C, 0x3A, 0x22, 0x7E, 5, 0x7C, 0x5A, 0x58, 0x43,
     0x56, 0x42, 0x4E, 0x4D, 0x3C, 0x3E, 0x3F, 7, 0x2A,
     6, 0x20, 10, 19, 20,
     21, 22, 23, 24, 25,
     26, 27, 28, 0xFF, 0xFF, 154,
     150, 158, 0xFF, 152, 0xFF,
     153, 0xFF, 155, 151,
     159, 156, 157]"

datatype kb_output = Queued u8 | SessionSwitch u8

text \<open>\<open>kb_output\<close> are the calls of \<open>PutToQueueBuffer\<close> and \<open>SessionManager_SwitchToSession\<close>.\<close>

record keyboard = driver +
  isShiftKey :: bool
  isCapsLock :: bool
  isCtrlKey :: bool
  kb_out :: "kb_output list"

definition PS2KeyboardDriver :: keyboard where
  "PS2KeyboardDriver = \<lparr>trace = [], isShiftKey = False, isCapsLock = False, isCtrlKey = False, kb_out = []\<rparr>"

definition Keyboard_Decode :: "u8 \<Rightarrow> keyboard \<Rightarrow> u8 \<times> keyboard" where
  "Keyboard_Decode rawKey0 k =
     (if rawKey0 = EXTRA_KEYS then (Keyboard_NA_CHAR, k) else
      let keyRelease = (rawKey0 AND 0x80 \<noteq> 0); rawKey = (if keyRelease then rawKey0 - 0x80 else rawKey0) in
      if unat rawKey \<ge> MAX_KEYBOARD_CHARS then (Keyboard_NA_CHAR, k) else
      let mappedKey = GENERIC_KEY_MAP ! unat rawKey; letter = (mappedKey \<ge> 0x61 \<and> mappedKey \<le> 0x7A) in
      if keyRelease then
        (Keyboard_NA_CHAR,
         if mappedKey = Keyboard_LEFT_SHIFT \<or> mappedKey = Keyboard_RIGHT_SHIFT then k\<lparr>isShiftKey := False\<rparr>
         else if mappedKey = Keyboard_LEFT_CTRL then k\<lparr>isCtrlKey := False\<rparr> else k)
      else if mappedKey = Keyboard_LEFT_SHIFT \<or> mappedKey = Keyboard_RIGHT_SHIFT then (Keyboard_NA_CHAR, k\<lparr>isShiftKey := True\<rparr>)
      else if mappedKey = Keyboard_CAPS_LOCK then (Keyboard_NA_CHAR, k\<lparr>isCapsLock := \<not> isCapsLock k\<rparr>)
      else if mappedKey = Keyboard_LEFT_CTRL then (Keyboard_NA_CHAR, k\<lparr>isCtrlKey := True\<rparr>)
      else if isShiftKey k then
        (if letter \<and> isCapsLock k then mappedKey else GENERIC_SHIFTED_KEY_MAP ! unat rawKey, k)
      else (if letter \<and> isCapsLock k then GENERIC_SHIFTED_KEY_MAP ! unat rawKey else mappedKey, k))"

definition KBInputHandler_InRegList :: "u8 \<Rightarrow> bool" where
  "KBInputHandler_InRegList key \<longleftrightarrow> key \<in> {19, 20, 21, 22, 23, 24, 25, 26}"

definition SessionManager_KeyToSessionIDMap :: "u8 \<Rightarrow> u8" where
  "SessionManager_KeyToSessionIDMap key = key - Keyboard_F1"

definition KBInputHandler_Process :: "u8 \<Rightarrow> keyboard \<Rightarrow> bool \<times> keyboard" where
  "KBInputHandler_Process key k =
     (if KBInputHandler_InRegList key then (True, k\<lparr>kb_out := kb_out k @ [SessionSwitch (SessionManager_KeyToSessionIDMap key)]\<rparr>)
      else (False, k))"

definition Keyboard_Process :: "u8 \<Rightarrow> keyboard \<Rightarrow> keyboard" where
  "Keyboard_Process rawKey k0 =
     (let (kbKey0, k1) = Keyboard_Decode rawKey k0
      in if kbKey0 = Keyboard_NA_CHAR then k1
         else let kbKey = (if isCtrlKey k1 then kbKey0 + CTRL_VALUE else kbKey0); (handled, k2) = KBInputHandler_Process kbKey k1
           in if handled then k2 else k2\<lparr>kb_out := kb_out k2 @ [Queued kbKey]\<rparr>)"

text \<open>The handler of the keyboard's interrupt reads a byte unless the controller says that it is the mouse's.\<close>

definition KBDriver_Handler :: "device \<Rightarrow> (keyboard, ps2_error, unit) eff" where
  "KBDriver_Handler D = and_then (WaitForRead D) (\<lambda>_. and_then (PortCom_ReceiveByte D COMMAND_PORT) (\<lambda>st.
     then_do (only_if (st AND 0x20 = 0) (and_then (PortCom_ReceiveByte D DATA_PORT) (\<lambda>b. modify (Keyboard_Process b))))
       (emit (SendEOI KEYBOARD_IRQ))))"

section \<open>The mouse\<close>

record mouse = driver +
  packetData :: "u8 list"
  dataCounter :: nat
  screen_width :: nat
  screen_height :: nat
  mouseX :: int
  mouseY :: int

definition SetMouseCursorPos :: "int \<Rightarrow> int \<Rightarrow> 's mouse_scheme \<Rightarrow> 's mouse_scheme" where
  "SetMouseCursorPos x y s =
     (let newX = (if x < 0 then 0 else if x \<ge> int (screen_width s) then int (screen_width s) - 1 else x);
          newY = (if y < 0 then 0 else if y \<ge> int (screen_height s) then int (screen_height s) - 1 else y)
      in if newX \<noteq> mouseX s \<or> newY \<noteq> mouseY s then s\<lparr>mouseX := newX, mouseY := newY\<rparr> else s)"

text \<open>\<open>Mouse_Packet\<close> is what the body of \<open>PS2MouseDriver::Process\<close> does with a byte of the mouse.\<close>

definition Mouse_Packet :: "u8 \<Rightarrow> 's mouse_scheme \<Rightarrow> 's mouse_scheme option" where
  "Mouse_Packet b s =
     (if dataCounter s \<ge> length (packetData s) then None else
      let s1 = s\<lparr>packetData := (packetData s)[dataCounter s := b], dataCounter := dataCounter s + 1\<rparr>
      in if dataCounter s1 \<noteq> 3 then Some s1 else
         let s2 = s1\<lparr>dataCounter := 0\<rparr>; status = packetData s2 ! 0
         in if status AND 0x8 = 0 \<or> status AND 0xC0 = 0xC0 then Some s2
            else Some (SetMouseCursorPos (mouseX s2 + sint (packetData s2 ! 1)) (mouseY s2 - sint (packetData s2 ! 2)) s2))"

definition ReceiveIRQData :: "device \<Rightarrow> (mouse, ps2_error, u8 option) eff" where
  "ReceiveIRQData D = and_then (WaitForRead D) (\<lambda>ok.
     if \<not> ok then throw (NoResponse ''Mouse Recv IRQ Data wait failed'')
     else and_then (PortCom_ReceiveByte D COMMAND_PORT) (\<lambda>status.
       if status AND 0x20 \<noteq> 0 then and_then (PortCom_ReceiveByte D DATA_PORT) (\<lambda>b. yield (Some b)) else yield None))"

definition Mouse_Process :: "device \<Rightarrow> (mouse, ps2_error, unit) eff" where
  "Mouse_Process D = and_then (ReceiveIRQData D) (\<lambda>data. case data of
     None \<Rightarrow> yield ()
   | Some b \<Rightarrow> and_then (gets (Mouse_Packet b)) (\<lambda>r. case r of None \<Rightarrow> undef | Some s \<Rightarrow> modify (\<lambda>_. s)))"

definition Mouse_Handler :: "device \<Rightarrow> (mouse, ps2_error, unit) eff" where
  "Mouse_Handler D = then_do (catch (Mouse_Process D) (\<lambda>_. yield ())) (emit (SendEOI MOUSE_IRQ))"

end
