(* ===== verification/PS2Proofs.thy ===== *)
theory PS2Proofs
  imports PS2
begin

text \<open>
  The handshake of the PS/2 controller, the meaning of keys and the place of the mouse cursor.
\<close>

section \<open>The handshake\<close>

text \<open>Traces have the latest access first.\<close>

definition seen :: "u8 \<Rightarrow> bool \<Rightarrow> io list \<Rightarrow> bool" where
  "seen flag v tr \<longleftrightarrow> (\<exists>st rest. tr = In8 COMMAND_PORT st # rest \<and> (st AND flag \<noteq> 0) = v)"

definition handshaken :: "io list \<Rightarrow> bool" where
  "handshaken tr \<longleftrightarrow> (\<forall>later p b earlier. tr = later @ Out8 p b # earlier \<longrightarrow> seen STAT_IBF False earlier)"

lemma handshaken_Cons: "handshaken (e # tr) \<longleftrightarrow> handshaken tr \<and> (\<forall>p b. e = Out8 p b \<longrightarrow> seen STAT_IBF False tr)"
  unfolding handshaken_def
proof (intro iffI conjI allI impI)
  fix later p b earlier
  assume "\<forall>later p b earlier. e # tr = later @ Out8 p b # earlier \<longrightarrow> seen STAT_IBF False earlier" "tr = later @ Out8 p b # earlier"
  then show "seen STAT_IBF False earlier" by (metis append_Cons)
next
  fix later p b earlier
  assume "(\<forall>later p b earlier. tr = later @ Out8 p b # earlier \<longrightarrow> seen STAT_IBF False earlier) \<and> (\<forall>p b. e = Out8 p b \<longrightarrow> seen STAT_IBF False tr)"
    "e # tr = later @ Out8 p b # earlier"
  then show "seen STAT_IBF False earlier" by (cases later) auto
qed auto

lemma keeps_receive [keeps_rules]: "keeps_trace handshaken (PortCom_ReceiveByte D p)"
  by (rule keeps_traceI) (simp add: wp_rules handshaken_Cons)

lemma keeps_emit_irq [keeps_rules]: "\<forall>p b. e \<noteq> Out8 p b \<Longrightarrow> keeps_trace handshaken (emit e)"
  by (rule keeps_traceI) (simp add: wp_rules handshaken_Cons)

lemma WaitForWrite_loop_seen:
  "handshaken (trace s) \<Longrightarrow>
   wp False (WaitForWrite_loop D n) (\<lambda>r t. handshaken (trace t) \<and> (0 < r \<longrightarrow> seen STAT_IBF False (trace t))) (\<lambda>_ t. handshaken (trace t)) s"
proof (induction n arbitrary: s)
  case 0
  then show ?case by (simp add: wp_rules)
next
  case (Suc n)
  show ?case
    by (simp only: WaitForWrite_loop.simps wp_and_then wp_ports)
      (use Suc in \<open>auto simp: wp_if wp_yield handshaken_Cons seen_def\<close>)
qed

lemma keeps_WaitForRead_loop: "keeps_trace handshaken (WaitForRead_loop D n)"
  by (induction n) (simp_all add: keeps_rules)

lemma keeps_WaitForRead [keeps_rules]: "keeps_trace handshaken (WaitForRead D)"
  unfolding WaitForRead_def by (intro keeps_rules keeps_WaitForRead_loop)

lemma keeps_SendCommand [keeps_rules]: "keeps_trace handshaken (SendCommand D port cmd)"
proof (rule keeps_traceI)
  fix s :: ps2
  assume "handshaken (trace s)"
  then show "wp False (SendCommand D port cmd) (\<lambda>_ t. handshaken (trace t)) (\<lambda>_ t. handshaken (trace t)) s"
    unfolding SendCommand_def WaitForWrite_def wp_and_then
    by (rule wp_mono [OF WaitForWrite_loop_seen]) (auto simp: wp_rules handshaken_Cons)
qed

lemma keeps_ReceiveData [keeps_rules]: "keeps_trace handshaken (ReceiveData D)"
  unfolding ReceiveData_def by (intro keeps_rules)

lemma keeps_ReceiveOrThrow [keeps_rules]: "keeps_trace handshaken (ReceiveOrThrow D w)"
  unfolding ReceiveOrThrow_def by (intro keeps_rules)

lemma keeps_WaitForAck [keeps_rules]: "keeps_trace handshaken (WaitForAck D)"
  unfolding WaitForAck_def by (intro keeps_rules)

lemma keeps_ClearOutputBuffer [keeps_rules]: "keeps_trace handshaken (ClearOutputBuffer D)"
proof -
  have "keeps_trace handshaken (ClearOutputBuffer_loop D n)" for n
    by (induction n) (simp_all add: keeps_rules)
  then show ?thesis by (simp add: ClearOutputBuffer_def)
qed

lemma keeps_modify_ps2:
  "keeps_trace I (modify (\<lambda>s :: ps2. s\<lparr>has_keyboard := b\<rparr>))" "keeps_trace I (modify (\<lambda>s :: ps2. s\<lparr>has_mouse := b\<rparr>))"
  by (simp_all add: keeps_trace_def wp_rules)

lemma keeps_InitDriver [keeps_rules]: "keeps_trace handshaken (InitDriver D c)"
  unfolding InitDriver_def PS2KeyboardDriver_Instance_def PS2MouseDriver_Instance_def
  by (intro keeps_rules keeps_gets keeps_modify_ps2) auto

lemma keeps_ports [keeps_rules]: "keeps_trace handshaken (Initialize_port1 D)" "keeps_trace handshaken (Initialize_port2 D)"
  "keeps_trace handshaken (Initialize_channels D st b)"
  unfolding Initialize_port1_def Initialize_port2_def Initialize_channels_def SendCommand2_def by (intro keeps_rules)+

lemma keeps_Initialize: "keeps_trace handshaken (PS2_Initialize D)"
  unfolding PS2_Initialize_def Let_def by (intro keeps_rules) auto

text \<open>C11: Whatever the controller answers, the initialisation comes to an end, and every byte that it writes, command or data, is written
  immediately after a status was read that says that the controller can take it.\<close>

theorem ps2_writes_are_handshaken:
  "\<exists>ok s'. PS2Controller D \<lparr>trace = [], has_keyboard = k, has_mouse = m\<rparr> = Some (Inr ok, s') \<and> handshaken (trace s')"
proof -
  let ?s = "\<lparr>trace = [], has_keyboard = k, has_mouse = m\<rparr> :: ps2"
  have "keeps_trace handshaken (then_do (PS2_Initialize D) (yield True))" by (intro keeps_rules keeps_Initialize)
  then have "wp False (then_do (PS2_Initialize D) (yield True)) (\<lambda>_ t. handshaken (trace t)) (\<lambda>_ t. handshaken (trace t)) ?s"
    by (rule keeps_traceD) (simp add: handshaken_def)
  then have "wp False (PS2Controller D) (\<lambda>_ t. handshaken (trace t)) (\<lambda>_ _. False) ?s"
    unfolding PS2Controller_def wp_catch wp_yield by (rule wp_mono) auto
  then show ?thesis unfolding wp_returns by auto
qed

section \<open>Keys\<close>

text \<open>What a history of raw keys means: a modifier is held when the last event of its keys was a press.\<close>

definition held :: "nat set \<Rightarrow> u8 list \<Rightarrow> bool" where
  "held S h \<longleftrightarrow> (let es = filter (\<lambda>k. unat k mod 128 \<in> S) h in es \<noteq> [] \<and> unat (last es) < 128)"

definition caps_lock :: "u8 list \<Rightarrow> bool" where
  "caps_lock h \<longleftrightarrow> odd (length (filter (\<lambda>k. unat k = 58) h))"

definition key_char :: "u8 list \<Rightarrow> u8 \<Rightarrow> u8" where
  "key_char h k =
     (if unat k \<ge> 84 \<or> unat k \<in> {29, 42, 54, 58} then 0xFF
      else let plain = GENERIC_KEY_MAP ! unat k; shifted = GENERIC_SHIFTED_KEY_MAP ! unat k; letter = (0x61 \<le> plain \<and> plain \<le> 0x7A);
               shift = held {42, 54} h
           in if letter then (if shift \<noteq> caps_lock h then shifted else plain) else if shift then shifted else plain)"

definition key_output :: "u8 list \<Rightarrow> u8 \<Rightarrow> kb_output list" where
  "key_output h k = (if key_char h k = 0xFF then []
     else let c = (if held {29} h then key_char h k + 100 else key_char h k)
       in [if unat c \<in> {19 ..< 27} then SessionSwitch (c - 19) else Queued c])"

lemma map_modifiers:
  assumes "i < 84"
  shows "GENERIC_KEY_MAP ! i = 5 \<or> GENERIC_KEY_MAP ! i = 7 \<longleftrightarrow> i \<in> {42, 54}" "GENERIC_KEY_MAP ! i = 10 \<longleftrightarrow> i = 58"
    "GENERIC_KEY_MAP ! i = 4 \<longleftrightarrow> i = 29"
proof -
  have m: "Q i \<longleftrightarrow> i \<in> set (filter Q [0 ..< 84])" for Q using assms by simp
  have "filter (\<lambda>i. GENERIC_KEY_MAP ! i = 5 \<or> GENERIC_KEY_MAP ! i = 7) [0 ..< 84] = [42, 54]" by code_simp
  then show "GENERIC_KEY_MAP ! i = 5 \<or> GENERIC_KEY_MAP ! i = 7 \<longleftrightarrow> i \<in> {42, 54}"
    unfolding m [of "\<lambda>i. GENERIC_KEY_MAP ! i = 5 \<or> GENERIC_KEY_MAP ! i = 7"] by (simp only: list.set)
  have "filter (\<lambda>i. GENERIC_KEY_MAP ! i = 10) [0 ..< 84] = [58]" by code_simp
  then show "GENERIC_KEY_MAP ! i = 10 \<longleftrightarrow> i = 58"
    unfolding m [of "\<lambda>i. GENERIC_KEY_MAP ! i = 10"] by (simp only: list.set) simp
  have "filter (\<lambda>i. GENERIC_KEY_MAP ! i = 4) [0 ..< 84] = [29]" by code_simp
  then show "GENERIC_KEY_MAP ! i = 4 \<longleftrightarrow> i = 29"
    unfolding m [of "\<lambda>i. GENERIC_KEY_MAP ! i = 4"] by (simp only: list.set) simp
qed

text \<open>The bits of a raw key.\<close>

lemma u8_less: "unat (k :: u8) < 256"
  using unsigned_less [of k, where ?'a = nat] by simp

lemma raw_key_bits: "((k :: u8) AND 0x80 \<noteq> 0) \<longleftrightarrow> 128 \<le> unat k"
proof -
  have "(k AND 0x80 \<noteq> 0) \<longleftrightarrow> bit k 7" using and_exp_eq_0_iff_not_bit [of k 7] by simp
  also have "\<dots> \<longleftrightarrow> bit (unat k) 7" by (simp add: bit_unsigned_iff)
  also have "\<dots> \<longleftrightarrow> 128 \<le> unat k"
  proof (cases "128 \<le> unat k")
    case True
    then have "unat k div 128 = 1" using u8_less [of k] by (simp add: div_nat_eqI)
    then show ?thesis using True by (simp add: bit_iff_odd)
  qed (simp add: bit_iff_odd)
  finally show ?thesis .
qed

lemma release_code: "128 \<le> unat (k :: u8) \<Longrightarrow> unat (k - 0x80) = unat k mod 128"
  using u8_less [of k] by (simp add: unat_sub word_le_nat_alt mod_if)

lemma held_snoc: "held S (h @ [k]) \<longleftrightarrow> (if unat k mod 128 \<in> S then unat k < 128 else held S h)"
  by (simp add: held_def Let_def)

lemma caps_lock_snoc: "caps_lock (h @ [k]) \<longleftrightarrow> (if unat k = 58 then \<not> caps_lock h else caps_lock h)"
  by (simp add: caps_lock_def)

definition tracks :: "u8 list \<Rightarrow> keyboard \<Rightarrow> bool" where
  "tracks h s \<longleftrightarrow> isShiftKey s = held {42, 54} h \<and> isCapsLock s = caps_lock h \<and> isCtrlKey s = held {29} h"

lemma Decode_tracks:
  assumes "tracks h s"
  shows "tracks (h @ [k]) (snd (Keyboard_Decode k s)) \<and> kb_out (snd (Keyboard_Decode k s)) = kb_out s \<and>
    fst (Keyboard_Decode k s) = key_char h k"
proof -
  define i where "i = unat k mod 128"
  have t: "isShiftKey s = held {42, 54} h" "isCapsLock s = caps_lock h" "isCtrlKey s = held {29} h"
    using assms by (simp_all add: tracks_def)
  consider (extra) "k = 224" | (outside) "k \<noteq> 224" "84 \<le> i" | (release) "k \<noteq> 224" "i < 84" "128 \<le> unat k"
    | (press) "i < 84" "unat k < 128" by linarith
  then show ?thesis
  proof cases
    case extra
    then show ?thesis using t by (simp add: Keyboard_Decode_def tracks_def held_snoc caps_lock_snoc key_char_def)
  next
    case outside
    then have d: "Keyboard_Decode k s = (0xFF, s)"
      using raw_key_bits [of k] release_code [of k] u8_less [of k] by (auto simp: Keyboard_Decode_def Let_def i_def)
    have "i \<notin> {42, 54}" "i \<noteq> 29" "unat k \<noteq> 58" "84 \<le> unat k" using outside(2) mod_less_eq_dividend [of "unat k" 128] by (auto simp: i_def)
    then show ?thesis using t by (simp add: d tracks_def held_snoc caps_lock_snoc key_char_def i_def)
  next
    case release
    then have r: "k AND 0x80 \<noteq> 0" "unat (k - 0x80) = i" "k \<noteq> 224" using raw_key_bits [of k] release_code [of k] by (auto simp: i_def)
    note m = map_modifiers [OF release(2)]
    have k: "unat k \<noteq> 58" "84 \<le> unat k" using release by auto
    have d: "Keyboard_Decode k s = (0xFF, if i \<in> {42, 54} then s\<lparr>isShiftKey := False\<rparr> else if i = 29 then s\<lparr>isCtrlKey := False\<rparr> else s)"
      using release r m by (simp add: Keyboard_Decode_def Let_def)
    show ?thesis
      using t k release by (auto simp: d tracks_def held_snoc caps_lock_snoc key_char_def i_def)
  next
    case press
    then have r: "k AND 0x80 = 0" "unat k = i" "k \<noteq> 224" using raw_key_bits [of k] by (auto simp: i_def)
    note m = map_modifiers [OF press(1)]
    let ?p = "GENERIC_KEY_MAP ! i" and ?q = "GENERIC_SHIFTED_KEY_MAP ! i"
    let ?l = "0x61 \<le> ?p \<and> ?p \<le> 0x7A"
    have d: "Keyboard_Decode k s = (if i \<in> {42, 54} then (0xFF, s\<lparr>isShiftKey := True\<rparr>) else if i = 58 then (0xFF, s\<lparr>isCapsLock := \<not> isCapsLock s\<rparr>)
        else if i = 29 then (0xFF, s\<lparr>isCtrlKey := True\<rparr>)
        else if isShiftKey s then (if ?l \<and> isCapsLock s then ?p else ?q, s) else (if ?l \<and> isCapsLock s then ?q else ?p, s))"
      using press r m by (simp add: Keyboard_Decode_def Let_def)
    show ?thesis
      using t press r by (auto simp: d tracks_def held_snoc caps_lock_snoc key_char_def Let_def)
  qed
qed

lemma InRegList_iff: "KBInputHandler_InRegList c \<longleftrightarrow> unat c \<in> {19 ..< 27}"
proof -
  have "c \<in> {19, 20, 21, 22, 23, 24, 25, 26} \<longleftrightarrow> unat c \<in> {19, 20, 21, 22, 23, 24, 25, 26}" for c :: u8
    by (simp add: word_unat_eq_iff)
  also have "\<dots> c \<longleftrightarrow> unat c \<in> {19 ..< 27}" for c :: u8 by auto
  finally show ?thesis by (simp add: KBInputHandler_InRegList_def)
qed

lemma Process_tracks:
  assumes "tracks h s"
  shows "tracks (h @ [k]) (Keyboard_Process k s) \<and> kb_out (Keyboard_Process k s) = kb_out s @ key_output h k"
proof -
  obtain c s1 where d: "Keyboard_Decode k s = (c, s1)" by fastforce
  then have t: "tracks (h @ [k]) s1" "kb_out s1 = kb_out s" "c = key_char h k" using Decode_tracks [OF assms, of k] by auto
  have "held {29} (h @ [k]) = held {29} h" if "c \<noteq> 0xFF"
  proof -
    have "unat k < 84 \<and> unat k \<noteq> 29" using that t(3) by (auto simp: key_char_def split: if_splits)
    then show ?thesis by (simp add: held_snoc)
  qed
  then have ctrl: "isCtrlKey s1 = held {29} h" if "c \<noteq> 0xFF" using that t(1) by (simp add: tracks_def)
  show ?thesis
  proof (cases "c = 0xFF")
    case True
    then show ?thesis using t by (simp add: Keyboard_Process_def d key_output_def)
  next
    case False
    then show ?thesis
      using t ctrl by (auto simp: Keyboard_Process_def d key_output_def KBInputHandler_Process_def InRegList_iff Let_def
          SessionManager_KeyToSessionIDMap_def tracks_def)
  qed
qed

text \<open>C12: For every history of raw keys, the characters queued and the switches of sessions are those of its presses: letters are capital when
  exactly one of shift and caps lock is on, the other keys follow shift; shift and control are held when the last event of one of
  their keys was a press, caps lock is on after an odd number of presses; control adds 100, and the function keys F1 to F8 switch
  sessions.\<close>

theorem keyboard_meaning:
  "kb_out (fold Keyboard_Process h PS2KeyboardDriver) = concat (map (\<lambda>i. key_output (take i h) (h ! i)) [0 ..< length h])"
proof -
  have "tracks h (fold Keyboard_Process h PS2KeyboardDriver) \<and>
    kb_out (fold Keyboard_Process h PS2KeyboardDriver) = concat (map (\<lambda>i. key_output (take i h) (h ! i)) [0 ..< length h])"
  proof (induction h rule: rev_induct)
    case Nil
    then show ?case by (simp add: tracks_def PS2KeyboardDriver_def held_def caps_lock_def)
  next
    case (snoc k h)
    have "map (\<lambda>i. key_output (take i (h @ [k])) ((h @ [k]) ! i)) [0 ..< length (h @ [k])] =
        map (\<lambda>i. key_output (take i h) (h ! i)) [0 ..< length h] @ [key_output h k]"
      by (rule nth_equalityI) (auto simp: nth_append less_Suc_eq)
    then have "concat (map (\<lambda>i. key_output (take i (h @ [k])) ((h @ [k]) ! i)) [0 ..< length (h @ [k])]) =
        concat (map (\<lambda>i. key_output (take i h) (h ! i)) [0 ..< length h]) @ key_output h k" by (simp only: concat_append) simp
    then show ?case using snoc Process_tracks [of h "fold Keyboard_Process h PS2KeyboardDriver" k] by (simp only: fold_append comp_def) simp
  qed
  then show ?thesis by simp
qed

text \<open>The byte of a key with control wraps: control and page up is the backspace key.\<close>

lemma control_page_up_is_backspace: "kb_out (fold Keyboard_Process [29, 73] PS2KeyboardDriver) = [Queued 2]"
  by code_simp

section \<open>The mouse\<close>

definition mouse_ok :: "mouse \<Rightarrow> bool" where
  "mouse_ok s \<longleftrightarrow> length (packetData s) = 10 \<and> dataCounter s < 3 \<and> 0 \<le> mouseX s \<and> mouseX s < int (screen_width s) \<and>
     0 \<le> mouseY s \<and> mouseY s < int (screen_height s)"

lemma Mouse_Packet_ok:
  assumes "mouse_ok s"
  shows "\<exists>s'. Mouse_Packet b s = Some s' \<and> mouse_ok s' \<and> trace s' = trace s"
  using assms by (auto simp: Mouse_Packet_def mouse_ok_def SetMouseCursorPos_def Let_def)

text \<open>C22: Whatever bytes the mouse sends and whatever the controller answers, the interrupt handler of the mouse returns, signals the end of
  the interrupt as its last access, and the cursor is on the screen.\<close>

theorem mouse_cursor_stays_on_screen:
  assumes "mouse_ok s"
  shows "\<exists>s'. Mouse_Handler D s = Some (Inr (), s') \<and> mouse_ok s' \<and> hd (trace s') = SendEOI 12"
proof -
  define ok where "ok = (\<lambda>t :: mouse. mouse_ok t)"
  have upd: "ok (t\<lparr>trace := x\<rparr>) = ok t" for t x by (simp add: ok_def mouse_ok_def)
  have loop: "wp False (WaitForRead_loop D n) (\<lambda>_. ok) (\<lambda>_. ok) t" if "ok t" for n t
    using that by (induction n arbitrary: t) (simp_all add: wp_rules upd)
  have packet: "wp False (case r of None \<Rightarrow> undef | Some u \<Rightarrow> modify (\<lambda>_. u)) (\<lambda>_. ok) (\<lambda>_. ok) t"
    if "ok t" "r = Mouse_Packet b t" for r b t
    using Mouse_Packet_ok [of t b] that by (auto simp: ok_def wp_rules)
  have receive: "wp False (ReceiveIRQData D) (\<lambda>_. ok) (\<lambda>_. ok) t" if "ok t" for t
    unfolding ReceiveIRQData_def WaitForRead_def wp_and_then
    by (rule wp_mono [OF loop [OF that]]) (simp_all add: wp_rules upd)
  have "wp False (case x of None \<Rightarrow> yield () | Some b \<Rightarrow> and_then (gets (Mouse_Packet b)) (\<lambda>r. case r of None \<Rightarrow> undef | Some s \<Rightarrow> modify (\<lambda>_. s)))
      (\<lambda>_. ok) (\<lambda>_. ok) t" if "ok t" for x t
    using that by (cases x) (simp_all add: wp_and_then wp_gets wp_yield packet [OF _ refl])
  then have process: "wp False (Mouse_Process D) (\<lambda>_. ok) (\<lambda>_. ok) s" if "ok s" for s
    unfolding Mouse_Process_def wp_and_then by (rule wp_mono [OF receive [OF that]]) simp_all
  have "wp False (Mouse_Handler D) (\<lambda>_ t. ok t \<and> hd (trace t) = SendEOI 12) (\<lambda>_ _. False) s"
    unfolding Mouse_Handler_def wp_then_do wp_catch
    by (rule wp_mono [OF process]) (use assms in \<open>simp_all add: wp_emit wp_yield upd ok_def [symmetric]\<close>)
  then show ?thesis unfolding wp_returns ok_def by auto
qed

theorem mouse_cursor_stays_on_screen_witness:
  "\<exists>s'. Mouse_Handler \<lparr>reads8 = (\<lambda>_ p. if p = 0x64 then 0x21 else 0x7F), reads16 = (\<lambda>_ _. 0), reads32 = (\<lambda>_ _. 0)\<rparr>
     \<lparr>trace = [], packetData = [8, 100, 0, 0, 0, 0, 0, 0, 0, 0], dataCounter = 2, screen_width = 80, screen_height = 25, mouseX = 0, mouseY = 0\<rparr>
     = Some (Inr (), s') \<and> hd (trace s') = SendEOI 12"
  using mouse_cursor_stays_on_screen [of "\<lparr>trace = [], packetData = [8, 100, 0, 0, 0, 0, 0, 0, 0, 0], dataCounter = 2, screen_width = 80,
    screen_height = 25, mouseX = 0, mouseY = 0\<rparr>"]
  by (auto simp: mouse_ok_def)

end
