(* ===== verification/Scsi.thy ===== *)
theory Scsi
  imports Effects FsProofs
begin

text \<open>
  SCSI disks behind USB mass storage: the commands of \<open>drivers/bus/SCSIHandler.cpp\<close> and their transport by
  \<open>drivers/usb/devices/USBMassBulkStorageDisk.cpp\<close>. The bulk pipes of the USB device (virtual methods of
  \<open>USBDevice\<close>) are a parameter with a state of its own; \<open>stale\<close> is what uninitialised memory holds.
\<close>

section \<open>Commands\<close>

definition SCSIHandler_commandSize :: "nat list" where
  "SCSIHandler_commandSize = [6, 10, 10, 12, 16, 12, 10, 10]"

definition SCSIHandler_GetCommandSize :: "u8 \<Rightarrow> nat" where
  "SCSIHandler_GetCommandSize iCode = SCSIHandler_commandSize ! unat (drop_bit 5 iCode AND 0x7)"

definition SCSIHandler_Rev32ToCPU :: "u32 \<Rightarrow> u32" where
  "SCSIHandler_Rev32ToCPU v = drop_bit 24 (v AND 0xFF000000) OR drop_bit 8 (v AND 0x00FF0000) OR
     push_bit 8 (v AND 0x0000FF00) OR push_bit 24 (v AND 0x000000FF)"

abbreviation (input) SCSI_TEST_UNIT_READY :: u8 where "SCSI_TEST_UNIT_READY \<equiv> 0x00"
abbreviation (input) SCSI_REQUEST_SENSE :: u8 where "SCSI_REQUEST_SENSE \<equiv> 0x03"
abbreviation (input) SCSI_INQUIRY :: u8 where "SCSI_INQUIRY \<equiv> 0x12"
abbreviation (input) SCSI_MODE_SENSE :: u8 where "SCSI_MODE_SENSE \<equiv> 0x1A"
abbreviation (input) SCSI_START_STOP :: u8 where "SCSI_START_STOP \<equiv> 0x1B"
abbreviation (input) SCSI_READ_CAPACITY :: u8 where "SCSI_READ_CAPACITY \<equiv> 0x25"
abbreviation (input) SCSI_READ_10 :: u8 where "SCSI_READ_10 \<equiv> 0x28"
abbreviation (input) SCSI_WRITE_10 :: u8 where "SCSI_WRITE_10 \<equiv> 0x2A"
abbreviation (input) SCSI_LOG_SENSE :: u8 where "SCSI_LOG_SENSE \<equiv> 0x4D"
abbreviation (input) SCSI_MODE_SENSE_10 :: u8 where "SCSI_MODE_SENSE_10 \<equiv> 0x5A"
abbreviation (input) SCSI_2 :: u8 where "SCSI_2 \<equiv> 3"

datatype scsi_direction = SCSI_DATA_WRITE | SCSI_DATA_READ | SCSI_DATA_NONE

text \<open>\<open>c_buffer\<close> are the bytes behind \<open>pRequestBuffer\<close>, \<open>c_sense\<close> the 64 bytes of sense data.\<close>

record scsi_command =
  c_channel :: u32
  c_device :: u32
  c_lun :: u32
  c_direction :: scsi_direction
  bCommand :: "u8 list"
  iCmdLen :: nat
  c_buffer :: "u8 list"
  iRequestLen :: u32
  iResult :: nat
  c_sense :: "u8 list"

record scsi_device =
  sd_openCount :: int
  sd_channel :: u32
  sd_device :: u32
  sd_lun :: u32
  sd_type :: u8
  sd_vendor :: "u8 list"
  sd_model :: "u8 list"
  sd_revision :: "u8 list"
  sd_sectorSize :: u32
  sd_sectors :: u32
  sd_size :: u32
  sd_level :: u8
  sd_removable :: bool

definition SCSICommand :: "u32 \<Rightarrow> u32 \<Rightarrow> u32 \<Rightarrow> scsi_command" where
  "SCSICommand channel device lun = \<lparr>c_channel = channel, c_device = device, c_lun = lun, c_direction = SCSI_DATA_NONE,
     bCommand = replicate 16 0, iCmdLen = 0, c_buffer = [], iRequestLen = 0, iResult = 0, c_sense = replicate 64 0\<rparr>"

definition SCSICommand_of :: "scsi_device \<Rightarrow> scsi_command" where
  "SCSICommand_of d = SCSICommand (sd_channel d) (sd_device d) (sd_lun d)"

definition set_command :: "(nat \<times> u8) list \<Rightarrow> scsi_command \<Rightarrow> scsi_command" where
  "set_command vs c = c\<lparr>bCommand := fold (\<lambda>(i, v) bs. bs[i := v]) vs (bCommand c)\<rparr>"

text \<open>The length of the data of a command, by its operation code.\<close>

definition pLenCodes :: string where
  "pLenCodes = ''00XLZ6XZBXBBXXXB'' @ ''00LBBLG0R0L0GG0X'' @
    ''XXXXT8XXB4B0BBBB'' @ ''ZZZ0B00HCSSZTBHH'' @
    ''M0HHB0X000H0HH0X'' @ ''XHH0HHXX0TH0H0XX'' @
    ''XXXXXXXXXXXXXXXX'' @ ''XXXXXXXXXXXXXXXX'' @
    ''XXXXXXXXXXXXXXXX'' @ ''XXXXXXXXXXXXXXXX'' @
    ''X0XXX00XB0BXBXBB'' @ ''ZZZ0XUIDU000XHBX'' @
    ''XXXXXXXXXXXXXXXX'' @ ''XXXXXXXXXXXXXXXX'' @
    ''XDXXXXXXXXXXXXXX'' @ ''XXW00HXXXXXXXXXX''"

text \<open>\<open>big_endian bs\<close> is the number that the shifts and ors of the code make of consecutive command bytes.\<close>

definition big_endian :: "u8 list \<Rightarrow> u32" where
  "big_endian bs = foldl (\<lambda>n b. push_bit 8 n OR ucast b) 0 bs"

definition SCSIHandler_GetTransferLen :: "scsi_command \<Rightarrow> u32" where
  "SCSIHandler_GetTransferLen c =
     (if c_direction c = SCSI_DATA_WRITE then iRequestLen c else
      let b = (\<lambda>i. bCommand c ! i); code = pLenCodes ! unat (b 0) in
      if code = CHR ''L'' then ucast (b 4)
      else if code = CHR ''M'' then ucast (b 8)
      else if code \<in> set ''0123456789'' then of_nat (of_char code - of_char (CHR ''0''))
      else if code = CHR ''G'' then big_endian [b 3, b 4]
      else if code = CHR ''H'' then big_endian [b 7, b 8]
      else if code = CHR ''I'' then big_endian [b 8, b 9]
      else if code = CHR ''R'' then big_endian [b 2, b 3, b 4]
      else if code = CHR ''S'' then big_endian [b 3, b 4, b 5]
      else if code = CHR ''T'' then big_endian [b 6, b 7, b 8]
      else if code = CHR ''U'' then big_endian [b 7, b 8, b 9]
      else if code = CHR ''C'' then big_endian [b 2, b 3, b 4, b 5]
      else if code = CHR ''D'' then big_endian [b 6, b 7, b 8, b 9]
      else if code = CHR ''V'' then 20
      else if code = CHR ''W'' then 24
      else iRequestLen c)"

section \<open>Sense data\<close>

datatype sense_status = SENSE_OK | SENSE_RETRY | SENSE_FATAL

definition SenseKey :: "u8 list \<Rightarrow> u8" where
  "SenseKey sense = sense ! 2 AND 0xF"

text \<open>The status of a unit that is not ready is never assigned, so reading it is undefined: \<open>None\<close>.\<close>

definition SCSIHandler_CheckSense :: "u8 list \<Rightarrow> sense_status option" where
  "SCSIHandler_CheckSense sense = (let key = SenseKey sense in
     if key = 0x00 \<or> key = 0x01 then Some SENSE_OK
     else if key = 0x02 then None
     else if key = 0x03 then Some SENSE_RETRY
     else if key = 0x04 \<or> key = 0x05 then Some SENSE_FATAL
     else if key = 0x06 then Some SENSE_RETRY
     else if key = 0x07 \<or> key = 0x08 \<or> key = 0x09 \<or> key = 0x0A then Some SENSE_FATAL
     else if key = 0x0B then Some SENSE_RETRY
     else Some SENSE_FATAL)"

definition SCSIHandler_UnitNotReady :: "u8 \<Rightarrow> u8 \<Rightarrow> sense_status option" where
  "SCSIHandler_UnitNotReady Asc Ascq =
     (if Asc = 0x00 then Some SENSE_RETRY
      else if Asc = 0x04 then
        (if Ascq = 0x00 \<or> Ascq = 0x01 then Some SENSE_RETRY
         else if Ascq = 0x02 then None
         else Some SENSE_FATAL)
      else Some SENSE_FATAL)"

section \<open>The bulk transport\<close>

datatype usb_status = USB_SUCCESS | USB_FAILURE | USB_ERROR | USB_SHORT_DATA

text \<open>The pipes: a read gives the bytes received, at most the number asked for, or fails.\<close>

record 'd usb_disk =
  BulkRead :: "nat \<Rightarrow> 'd \<Rightarrow> u8 list option \<times> 'd"
  BulkWrite :: "u8 list \<Rightarrow> 'd \<Rightarrow> bool \<times> 'd"
  CommandReset :: "'d \<Rightarrow> bool \<times> 'd"
  ClearHaltEndPoint :: "bool \<Rightarrow> 'd \<Rightarrow> bool \<times> 'd"
  bMaxLun :: u8
  stale :: "nat \<Rightarrow> u8 list"

datatype scsi_error = ReadFailed bool nat | WriteFailed bool nat | ResetFailed | NoDevice | InvalidEndPoints | NotSupported u16

type_synonym ('d, 'a) usb_eff = "('d, scsi_error, 'a) eff"

definition usb :: "('d \<Rightarrow> 'a \<times> 'd) \<Rightarrow> ('d, 'a) usb_eff" where
  "usb f d = Some (Inr (fst (f d)), snd (f d))"

abbreviation (input) US_BULK_MAX_TRANSFER_SIZE :: nat where "US_BULK_MAX_TRANSFER_SIZE \<equiv> 32768"

text \<open>\<open>ReadData_loop U len pos buf\<close> fills \<open>buf\<close> from \<open>pos\<close> on.\<close>

function ReadData_loop :: "'d usb_disk \<Rightarrow> nat \<Rightarrow> nat \<Rightarrow> u8 list \<Rightarrow> ('d, usb_status \<times> u8 list) usb_eff" where
  "ReadData_loop U len pos buf =
     (if len > 0 then
        let uiTranLen = (if len > US_BULK_MAX_TRANSFER_SIZE then US_BULK_MAX_TRANSFER_SIZE else len)
        in and_then (usb (BulkRead U uiTranLen)) (\<lambda>r. case r of
             None \<Rightarrow> yield (USB_FAILURE, buf)
           | Some bs \<Rightarrow>
               if length bs > uiTranLen \<or> pos + length bs > length buf then undef
               else ReadData_loop U (len - uiTranLen) (pos + uiTranLen) (take pos buf @ bs @ drop (pos + length bs) buf))
      else yield (USB_SUCCESS, buf))"
  by pat_completeness auto
termination by (relation "measure (\<lambda>(_, len, _, _). len)") (auto split: if_splits)

declare ReadData_loop.simps [simp del]

definition ReadData :: "'d usb_disk \<Rightarrow> u8 list \<Rightarrow> nat \<Rightarrow> ('d, usb_status \<times> u8 list) usb_eff" where
  "ReadData U buf len = ReadData_loop U len 0 buf"

function WriteData_loop :: "'d usb_disk \<Rightarrow> nat \<Rightarrow> nat \<Rightarrow> u8 list \<Rightarrow> ('d, usb_status) usb_eff" where
  "WriteData_loop U len pos buf =
     (if len > 0 then
        let uiTranLen = (if len > US_BULK_MAX_TRANSFER_SIZE then US_BULK_MAX_TRANSFER_SIZE else len)
        in if pos + uiTranLen > length buf then undef
           else and_then (usb (BulkWrite U (take uiTranLen (drop pos buf)))) (\<lambda>ok.
             if \<not> ok then yield USB_FAILURE else WriteData_loop U (len - uiTranLen) (pos + uiTranLen) buf)
      else yield USB_SUCCESS)"
  by pat_completeness auto
termination by (relation "measure (\<lambda>(_, len, _, _). len)") (auto split: if_splits)

declare WriteData_loop.simps [simp del]

definition WriteData :: "'d usb_disk \<Rightarrow> u8 list \<Rightarrow> nat \<Rightarrow> ('d, usb_status) usb_eff" where
  "WriteData U buf len = WriteData_loop U len 0 buf"

abbreviation (input) CBW_SIGNATURE :: u32 where "CBW_SIGNATURE \<equiv> 0x43425355"
abbreviation (input) CSW_SIGNATURE :: u32 where "CSW_SIGNATURE \<equiv> 0x53425355"

text \<open>The 31 bytes of a command block wrapper; copying more than 16 command bytes is undefined.\<close>

definition cbw_bytes :: "u32 \<Rightarrow> u8 \<Rightarrow> u8 \<Rightarrow> u8 \<Rightarrow> u8 list \<Rightarrow> u8 list" where
  "cbw_bytes uiDataTransferLen bFlags bLUN bCBLen bCommandBlock =
     bytes_of [CBW_SIGNATURE, 0, uiDataTransferLen] @ [bFlags, bLUN, bCBLen] @ bCommandBlock"

definition make_cbw :: "scsi_command \<Rightarrow> u8 list option" where
  "make_cbw c = (let n = iCmdLen c mod 32 in
     if n > 16 \<or> n > length (bCommand c) then None
     else Some (cbw_bytes (SCSIHandler_GetTransferLen c) (if c_direction c = SCSI_DATA_READ then 0x80 else 0x00)
       (drop_bit 5 (bCommand c ! 1) AND 0xF) (of_nat n) (take n (bCommand c) @ replicate (16 - n) 0)))"

definition check_csw :: "u8 list \<Rightarrow> usb_status" where
  "check_csw csw =
     (let ws = words_of (take 12 csw); st = csw ! 12
      in if ws ! 0 \<noteq> CSW_SIGNATURE \<or> ws ! 1 \<noteq> 0 \<or> st > 2 then USB_FAILURE
         else if st = 0 then (if ws ! 2 > 0 then USB_SHORT_DATA else USB_SUCCESS)
         else if st = 1 then USB_FAILURE else USB_ERROR)"

definition SendCommand :: "'d usb_disk \<Rightarrow> scsi_command \<Rightarrow> ('d, usb_status \<times> scsi_command) usb_eff" where
  "SendCommand U c = (case make_cbw c of None \<Rightarrow> undef | Some cbw \<Rightarrow>
     let len = unat (SCSIHandler_GetTransferLen c) in
     and_then (WriteData U cbw 31) (\<lambda>st1. if st1 \<noteq> USB_SUCCESS then yield (st1, c) else
     and_then (if c_direction c = SCSI_DATA_READ
         then and_then (ReadData U (c_buffer c) len) (\<lambda>(st, bs). yield (st, c\<lparr>c_buffer := bs\<rparr>))
         else and_then (WriteData U (c_buffer c) len) (\<lambda>st. yield (st, c)))
       (\<lambda>(st2, c). if st2 \<noteq> USB_SUCCESS then yield (st2, c) else
        and_then (ReadData U (stale U 13) 13) (\<lambda>(st3, csw). if st3 \<noteq> USB_SUCCESS then yield (st3, c) else
          yield (check_csw csw, c)))))"

definition DoReset :: "'d usb_disk \<Rightarrow> ('d, usb_status) usb_eff" where
  "DoReset U = and_then (usb (CommandReset U)) (\<lambda>a. if \<not> a then yield USB_FAILURE else
     and_then (usb (ClearHaltEndPoint U True)) (\<lambda>b. if \<not> b then yield USB_FAILURE else
     and_then (usb (ClearHaltEndPoint U False)) (\<lambda>c. if \<not> c then yield USB_FAILURE else yield USB_SUCCESS)))"

text \<open>The automatic request for sense data after a command that failed: the command is turned into a \<open>REQUEST SENSE\<close> with the
  sense bytes as buffer, and then restored.\<close>

definition sense_command :: "scsi_command \<Rightarrow> scsi_command" where
  "sense_command c = (set_command [(0, SCSI_REQUEST_SENSE), (1, bCommand c ! 1 AND 0xE0), (2, 0), (3, 0), (4, 18), (5, 0)] c)
     \<lparr>c_direction := SCSI_DATA_READ, c_buffer := c_sense c, iRequestLen := 18\<rparr>"

definition AutoSense :: "'d usb_disk \<Rightarrow> scsi_command \<Rightarrow> ('d, bool \<times> scsi_command) usb_eff" where
  "AutoSense U c = and_then (SendCommand U (sense_command c)) (\<lambda>(st, s).
     if st = USB_ERROR then
       and_then (DoReset U) (\<lambda>_. yield (False, s\<lparr>c_sense := c_buffer s, iResult := 2\<rparr>))
     else
       let c = c\<lparr>c_sense := c_buffer s\<rparr>
       in if c_sense c ! 2 AND 0xF = 0 then yield (False, c\<lparr>iResult := 0\<rparr>)
          else yield (st = USB_SUCCESS, c\<lparr>iResult := 3\<rparr>))"

definition QueueCommand :: "'d usb_disk \<Rightarrow> scsi_command \<Rightarrow> ('d, bool \<times> scsi_command) usb_eff" where
  "QueueCommand U c0 =
     (if c_lun c0 > ucast (bMaxLun U) then yield (False, c0) else
      and_then (SendCommand U c0) (\<lambda>(st, c).
        if st = USB_ERROR then and_then (DoReset U) (\<lambda>_. yield (False, c\<lparr>iResult := 1\<rparr>))
        else
          let c = c\<lparr>iResult := 0\<rparr>;
              bNeedSense = (st = USB_FAILURE \<or> st = USB_SHORT_DATA \<and>
                bCommand c ! 0 \<notin> {SCSI_REQUEST_SENSE, SCSI_INQUIRY, SCSI_MODE_SENSE, SCSI_LOG_SENSE, SCSI_MODE_SENSE_10})
          in if bNeedSense then AutoSense U c else yield (st = USB_SUCCESS, c)))"

section \<open>Disks\<close>

definition lun_byte :: "scsi_device \<Rightarrow> u8" where
  "lun_byte d = ucast (push_bit 5 (sd_lun d)) AND 0xE0"

definition ready_command :: "scsi_device \<Rightarrow> scsi_command" where
  "ready_command d = (set_command ((0, SCSI_TEST_UNIT_READY) # (if sd_level d \<le> SCSI_2 then [(1, lun_byte d)] else [])) (SCSICommand_of d))
     \<lparr>iCmdLen := SCSIHandler_GetCommandSize SCSI_TEST_UNIT_READY\<rparr>"

text \<open>\<open>SCSIHandler_TestReady\<close> for \<open>n\<close> rounds of its endless loop; the result \<open>True\<close> is \<open>SCSIHandler_SUCCESS\<close> (0), which is also what
  the result \<open>false\<close> of \<open>QueueCommand\<close> is when it is returned as a \<open>byte\<close>.\<close>

fun SCSIHandler_TestReady :: "'d usb_disk \<Rightarrow> scsi_device \<Rightarrow> nat \<Rightarrow> ('d, bool) usb_eff" where
  "SCSIHandler_TestReady U d 0 = undef"
| "SCSIHandler_TestReady U d (Suc n) = and_then (QueueCommand U (ready_command d)) (\<lambda>(bStatus, c).
     if SenseKey (c_sense c) \<noteq> 0 \<or> iResult c \<noteq> 0 then
       (case SCSIHandler_CheckSense (c_sense c) of
          None \<Rightarrow> undef
        | Some SENSE_OK \<Rightarrow> yield True
        | Some SENSE_RETRY \<Rightarrow> SCSIHandler_TestReady U d n
        | Some SENSE_FATAL \<Rightarrow> yield (\<not> bStatus))
     else yield True)"

definition capacity_command :: "'d usb_disk \<Rightarrow> scsi_device \<Rightarrow> scsi_command" where
  "capacity_command U d = (set_command [(0, SCSI_READ_CAPACITY), (1, lun_byte d)] (SCSICommand_of d))
     \<lparr>c_direction := SCSI_DATA_READ, c_buffer := stale U 8, iRequestLen := 8, iCmdLen := SCSIHandler_GetCommandSize SCSI_READ_CAPACITY\<rparr>"

definition set_capacity :: "u8 list \<Rightarrow> scsi_device \<Rightarrow> scsi_device" where
  "set_capacity cap d =
     (let ws = words_of cap; len = SCSIHandler_Rev32ToCPU (ws ! 1);
          size1 = (if len > 2048 then 2048 else len); n = 1 + SCSIHandler_Rev32ToCPU (ws ! 0)
      in d\<lparr>sd_sectorSize := size1, sd_sectors := n, sd_size := n * size1\<rparr>)"

fun SCSIHandler_ReadCapacity :: "'d usb_disk \<Rightarrow> scsi_device \<Rightarrow> nat \<Rightarrow> ('d, bool \<times> scsi_device) usb_eff" where
  "SCSIHandler_ReadCapacity U d 0 = undef"
| "SCSIHandler_ReadCapacity U d (Suc n) = and_then (QueueCommand U (capacity_command U d)) (\<lambda>(_, c).
     let d0 = d\<lparr>sd_sectors := 0, sd_sectorSize := 0, sd_size := 0\<rparr> in
     if SenseKey (c_sense c) \<noteq> 0 \<and> iResult c \<noteq> 0 then
       (case SCSIHandler_CheckSense (c_sense c) of
          None \<Rightarrow> undef
        | Some SENSE_OK \<Rightarrow> yield (True, set_capacity (c_buffer c) d0)
        | Some SENSE_RETRY \<Rightarrow> SCSIHandler_ReadCapacity U d n
        | Some SENSE_FATAL \<Rightarrow> yield (False, d0))
     else yield (True, set_capacity (c_buffer c) d0))"

definition SCSIHandler_GenericOpen :: "'d usb_disk \<Rightarrow> nat \<Rightarrow> scsi_device \<Rightarrow> ('d, bool \<times> scsi_device) usb_eff" where
  "SCSIHandler_GenericOpen U n d = and_then (SCSIHandler_TestReady U d n) (\<lambda>ready.
     if \<not> ready then yield (False, d) else
     and_then (SCSIHandler_ReadCapacity U d n) (\<lambda>(ok, d).
       yield (ok, if ok then d\<lparr>sd_openCount := sd_openCount d + 1\<rparr> else d)))"

definition SCSIHandler_GenericClose :: "scsi_device \<Rightarrow> scsi_device" where
  "SCSIHandler_GenericClose d = d\<lparr>sd_openCount := sd_openCount d - 1\<rparr>"

text \<open>\<open>READ(10)\<close> and \<open>WRITE(10)\<close>.\<close>

definition block_command :: "u8 \<Rightarrow> scsi_device \<Rightarrow> u32 \<Rightarrow> u32 \<Rightarrow> scsi_command" where
  "block_command opcode d uiBlock uiBlockCount =
     (set_command [(0, opcode), (1, if sd_level d \<le> SCSI_2 then lun_byte d else 0),
        (2, ucast (drop_bit 24 uiBlock) AND 0xFF), (3, ucast (drop_bit 16 uiBlock) AND 0xFF), (4, ucast (drop_bit 8 uiBlock) AND 0xFF),
        (5, ucast (uiBlock AND 0xFF)), (6, 0), (9, 0),
        (7, ucast (drop_bit 8 uiBlockCount) AND 0xFF), (8, ucast (uiBlockCount AND 0xFF))] (SCSICommand_of d))
     \<lparr>iRequestLen := uiBlockCount * sd_sectorSize d, iCmdLen := SCSIHandler_GetCommandSize opcode\<rparr>"

text \<open>\<open>pos\<close> is the offset of \<open>pDataBuffer\<close> in the caller's buffer.\<close>

function GenericRead_loop :: "'d usb_disk \<Rightarrow> scsi_device \<Rightarrow> u32 \<Rightarrow> u32 \<Rightarrow> nat \<Rightarrow> u8 list \<Rightarrow> ('d, u8 list) usb_eff" where
  "GenericRead_loop U d uiStartSector uiNumOfSectors pos buf =
     (if uiNumOfSectors > 0 then
        let uiBlockCount = (if uiNumOfSectors > 8 then 8 else uiNumOfSectors); c0 = block_command SCSI_READ_10 d uiStartSector uiBlockCount;
            uiReadLen = unat (iRequestLen c0)
        in if pos + uiReadLen > length buf then undef
           else and_then (QueueCommand U (c0\<lparr>c_direction := SCSI_DATA_READ, c_buffer := take uiReadLen (drop pos buf)\<rparr>)) (\<lambda>(bStatus, c).
             if \<not> bStatus \<or> iResult c \<noteq> 0 then throw (ReadFailed bStatus (iResult c))
             else GenericRead_loop U d (uiStartSector + uiBlockCount) (uiNumOfSectors - uiBlockCount) (pos + uiReadLen)
               (take pos buf @ c_buffer c @ drop (pos + uiReadLen) buf))
      else yield buf)"
  by pat_completeness auto
termination
  by (relation "measure (\<lambda>(_, _, _, n, _, _). unat n)") (auto simp: word_less_nat_alt unat_sub word_le_nat_alt)

declare GenericRead_loop.simps [simp del]

definition SCSIHandler_GenericRead :: "'d usb_disk \<Rightarrow> scsi_device \<Rightarrow> u32 \<Rightarrow> u32 \<Rightarrow> u8 list \<Rightarrow> ('d, u8 list) usb_eff" where
  "SCSIHandler_GenericRead U d uiStartSector uiNumOfSectors pDataBuffer = GenericRead_loop U d uiStartSector uiNumOfSectors 0 pDataBuffer"

function GenericWrite_loop :: "'d usb_disk \<Rightarrow> scsi_device \<Rightarrow> u32 \<Rightarrow> u32 \<Rightarrow> nat \<Rightarrow> u8 list \<Rightarrow> ('d, unit) usb_eff" where
  "GenericWrite_loop U d uiStartSector uiNumOfSectors pos buf =
     (if uiNumOfSectors > 0 then
        let uiBlockCount = (if uiNumOfSectors > 16 then 16 else uiNumOfSectors); c0 = block_command SCSI_WRITE_10 d uiStartSector uiBlockCount;
            uiWriteLen = unat (iRequestLen c0)
        in if pos + uiWriteLen > length buf then undef
           else and_then (QueueCommand U (c0\<lparr>c_direction := SCSI_DATA_WRITE, c_buffer := take uiWriteLen (drop pos buf)\<rparr>)) (\<lambda>(bStatus, c).
             if \<not> bStatus \<or> iResult c \<noteq> 0 then throw (WriteFailed bStatus (iResult c))
             else GenericWrite_loop U d (uiStartSector + uiBlockCount) (uiNumOfSectors - uiBlockCount) (pos + uiWriteLen) buf)
      else yield ())"
  by pat_completeness auto
termination
  by (relation "measure (\<lambda>(_, _, _, n, _, _). unat n)") (auto simp: word_less_nat_alt unat_sub word_le_nat_alt)

declare GenericWrite_loop.simps [simp del]

definition SCSIHandler_GenericWrite :: "'d usb_disk \<Rightarrow> scsi_device \<Rightarrow> u32 \<Rightarrow> u32 \<Rightarrow> u8 list \<Rightarrow> ('d, unit) usb_eff" where
  "SCSIHandler_GenericWrite U d uiStartSector uiNumOfSectors pDataBuffer = GenericWrite_loop U d uiStartSector uiNumOfSectors 0 pDataBuffer"

text \<open>\<open>SCSIHandler_DoStartStop\<close> builds a command and never queues it: \<open>iResult\<close> is still 0.\<close>

definition start_stop_command :: "scsi_device \<Rightarrow> u8 \<Rightarrow> scsi_command" where
  "start_stop_command d uiFlags = (set_command [(0, SCSI_START_STOP), (4, uiFlags)] (SCSICommand_of d))
     \<lparr>iCmdLen := SCSIHandler_GetCommandSize SCSI_START_STOP\<rparr>"

definition SCSIHandler_DoStartStop :: "scsi_device \<Rightarrow> u8 \<Rightarrow> ('d, bool) usb_eff" where
  "SCSIHandler_DoStartStop d uiFlags = yield (iResult (start_stop_command d uiFlags) = 0)"

definition SCSIHandler_Start :: "scsi_device \<Rightarrow> ('d, bool) usb_eff" where
  "SCSIHandler_Start d = SCSIHandler_DoStartStop d 0x01"

definition SCSIHandler_Eject :: "scsi_device \<Rightarrow> ('d, bool) usb_eff" where
  "SCSIHandler_Eject d = SCSIHandler_DoStartStop d 0x02"

definition SCSIHandler_RequestSense :: "'d usb_disk \<Rightarrow> scsi_device \<Rightarrow> u8 list \<Rightarrow> ('d, bool \<times> u8 list) usb_eff" where
  "SCSIHandler_RequestSense U d pSense =
     and_then (QueueCommand U ((set_command [(0, SCSI_REQUEST_SENSE), (4, 64)] (SCSICommand_of d))
        \<lparr>c_direction := SCSI_DATA_READ, c_buffer := pSense, iRequestLen := 64, iCmdLen := SCSIHandler_GetCommandSize SCSI_REQUEST_SENSE\<rparr>))
     (\<lambda>(_, c). yield (SenseKey (c_sense c) = 0 \<and> iResult c = 0, c_buffer c))"

definition SCSIHandler_ExtractString :: "u8 list \<Rightarrow> nat \<Rightarrow> nat \<Rightarrow> u8 list" where
  "SCSIHandler_ExtractString szSCSIResult iStart iEnd = map (\<lambda>i.
     if szSCSIResult ! i \<ge> 0x20 \<and> i < unat (szSCSIResult ! 4) + 5 then szSCSIResult ! i else 0x20) [iStart ..< iEnd]"

definition describe_disk :: "u32 \<Rightarrow> u32 \<Rightarrow> u32 \<Rightarrow> u8 list \<Rightarrow> scsi_device" where
  "describe_disk iChannel iDevice iLun r =
     \<lparr>sd_openCount = 0, sd_channel = iChannel, sd_device = iDevice, sd_lun = iLun, sd_type = r ! 0 AND 0x1F,
      sd_vendor = SCSIHandler_ExtractString r 8 16, sd_model = SCSIHandler_ExtractString r 16 32,
      sd_revision = SCSIHandler_ExtractString r 32 36, sd_sectorSize = 0, sd_sectors = 0, sd_size = 0,
      sd_level = r ! 2 AND 0x07, sd_removable = (drop_bit 7 (0x80 AND r ! 1) \<noteq> 0)\<rparr>"

definition SCSIHandler_CreateDisk :: "'d usb_disk \<Rightarrow> nat \<Rightarrow> u32 \<Rightarrow> u32 \<Rightarrow> u32 \<Rightarrow> u8 list \<Rightarrow> ('d, scsi_device option) usb_eff" where
  "SCSIHandler_CreateDisk U n iChannel iDevice iLun szSCSIResult =
     and_then (SCSIHandler_GenericOpen U n (describe_disk iChannel iDevice iLun szSCSIResult)) (\<lambda>(ok, d).
       yield (if ok then Some d else None))"

definition inquiry_command :: "'d usb_disk \<Rightarrow> u32 \<Rightarrow> u32 \<Rightarrow> u32 \<Rightarrow> scsi_command" where
  "inquiry_command U iChannel iDevice iLun =
     (set_command [(0, SCSI_INQUIRY), (1, ucast (push_bit 5 iLun) AND 0xE0), (4, 36)] (SCSICommand iChannel iDevice iLun))
     \<lparr>c_direction := SCSI_DATA_READ, iCmdLen := SCSIHandler_GetCommandSize SCSI_INQUIRY, c_buffer := stale U 256, iRequestLen := 256\<rparr>"

definition SCSIHandler_ScanDevice :: "'d usb_disk \<Rightarrow> nat \<Rightarrow> u32 \<Rightarrow> u32 \<Rightarrow> u32 \<Rightarrow> ('d, scsi_device option) usb_eff" where
  "SCSIHandler_ScanDevice U n iChannel iDevice iLun = and_then (QueueCommand U (inquiry_command U iChannel iDevice iLun)) (\<lambda>(bStatus, c).
     if \<not> bStatus \<or> iResult c \<noteq> 0 then yield None
     else if c_buffer c ! 0 AND 0x1F \<noteq> 0 then yield None
     else SCSIHandler_CreateDisk U n iChannel iDevice iLun (c_buffer c))"

section \<open>The driver\<close>

text \<open>The descriptors of a device, and the disk made of it: only unit 0 is looked for.\<close>

record usb_endpoint =
  bEndpointAddress :: u8
  bmAttributes :: u8
  wMaxPacketSize :: u16

record usb_interface =
  bInterfaceNumber :: u8
  bInterfaceClass :: u8
  bInterfaceSubClass :: u8
  bInterfaceProtocol :: u8
  pEndPoints :: "usb_endpoint list"

record bulk_disk =
  uiEndPointIn :: u8
  uiEndPointOut :: u8
  usInMaxPacketSize :: u16
  usOutMaxPacketSize :: u16
  bd_device :: scsi_device

definition is_bulk :: "usb_endpoint \<Rightarrow> bool" where
  "is_bulk e \<longleftrightarrow> bmAttributes e AND 0x03 = 2"

definition is_in :: "usb_endpoint \<Rightarrow> bool" where
  "is_in e \<longleftrightarrow> bEndpointAddress e AND 0x80 \<noteq> 0"

definition bulk_endpoints :: "usb_endpoint list \<Rightarrow> usb_endpoint option \<times> usb_endpoint option" where
  "bulk_endpoints es = foldl (\<lambda>(i, out) e. if is_bulk e then (if is_in e then (Some e, out) else (i, Some e)) else (i, out)) (None, None) es"

text \<open>\<open>USBulkDisk_Initialize\<close>, with the rounds \<open>n\<close> of the waiting loops.\<close>

definition USBulkDisk_Initialize :: "'d usb_disk \<Rightarrow> nat \<Rightarrow> ('d, scsi_device) usb_eff" where
  "USBulkDisk_Initialize U n = and_then (DoReset U) (\<lambda>st. if st \<noteq> USB_SUCCESS then throw ResetFailed else
     and_then (SCSIHandler_ScanDevice U n 0 0 0) (\<lambda>d. case d of None \<Rightarrow> throw NoDevice | Some d \<Rightarrow> yield d))"

definition MatchingInterfaceIndex :: "usb_interface list \<Rightarrow> nat option" where
  "MatchingInterfaceIndex ifs = find (\<lambda>i. bInterfaceClass (ifs ! i) = 8 \<and> bInterfaceProtocol (ifs ! i) = 0x50) [0..<length ifs]"

definition USBDiskDriver_AddDevice :: "'d usb_disk \<Rightarrow> nat \<Rightarrow> u16 \<Rightarrow> usb_interface list \<Rightarrow> ('d, bulk_disk option) usb_eff" where
  "USBDiskDriver_AddDevice U n sVendorID ifs = (case MatchingInterfaceIndex ifs of
     None \<Rightarrow> yield None
   | Some i \<Rightarrow>
       if sVendorID = 0x05DC then throw (NotSupported sVendorID)
       else if bInterfaceSubClass (ifs ! i) \<noteq> 6 then throw (NotSupported (ucast (bInterfaceSubClass (ifs ! i))))
       else case bulk_endpoints (pEndPoints (ifs ! i)) of
         (Some e, Some f) \<Rightarrow> and_then (USBulkDisk_Initialize U n) (\<lambda>d. yield (Some
           \<lparr>uiEndPointIn = bEndpointAddress e AND 0x0F, uiEndPointOut = bEndpointAddress f AND 0x0F,
            usInMaxPacketSize = wMaxPacketSize e, usOutMaxPacketSize = wMaxPacketSize f, bd_device = d\<rparr>))
       | _ \<Rightarrow> throw InvalidEndPoints)"

end
