(* ===== verification/ScsiProofs.thy ===== *)
theory ScsiProofs
  imports Scsi Drives
begin

text \<open>
  What the SCSI commands do. \<open>disk_unit\<close> is a mass storage device that follows the bulk-only protocol: it takes a command wrapper,
  moves the data and gives a status wrapper. Against it reading and writing sectors do what a disk promises; the other facts are
  about devices that fail.
\<close>

section \<open>Command bytes\<close>

lemma low_byte: "x AND 0xFF = (x :: u8)" "ucast (n AND 0xFF) = (ucast n :: u8)" for n :: u32
proof -
  have m: "(0xFF :: u8) = - 1" "(0xFF :: u32) = mask 8" by (simp_all add: mask_eq_exp_minus_1)
  show "x AND 0xFF = (x :: u8)" by (simp add: m(1))
  show "ucast (n AND 0xFF) = (ucast n :: u8)" by (rule bit_word_eqI) (simp add: m(2) bit_simps)
qed

lemma big_endian_bytes:
  "big_endian [ucast (drop_bit 24 n) AND 0xFF, ucast (drop_bit 16 n) AND 0xFF, ucast (drop_bit 8 n) AND 0xFF, ucast (n AND 0xFF)] = n"
  apply (rule bit_word_eqI)
  subgoal for i
    by (cases "16 \<le> i") (auto simp: big_endian_def low_byte bit_simps)
  done

lemma bit_small:
  assumes "n < 2 ^ k" "k < 32" "bit (n :: u32) i"
  shows "i < k"
proof -
  have "n AND mask k = n" using assms(1,2) word_2p_lem [of k n] by (simp add: mask_eq_iff word_size)
  then have "bit (n AND mask k) i" using assms(3) by simp
  then show ?thesis by (simp add: bit_simps)
qed

lemma big_endian_two:
  assumes "n < 0x10000"
  shows "big_endian [ucast (drop_bit 8 n) AND 0xFF, ucast (n AND 0xFF)] = n"
proof (rule bit_word_eqI)
  fix i assume "i < LENGTH(32)"
  have "bit n i \<Longrightarrow> i < 16" using bit_small [of n 16 i] assms by simp
  then show "bit (big_endian [ucast (drop_bit 8 n) AND 0xFF, ucast (n AND 0xFF)]) i \<longleftrightarrow> bit n i"
    by (auto simp: big_endian_def low_byte bit_simps)
qed

lemma unit_of_byte:
  assumes "l < 8"
  shows "unat (drop_bit 5 (ucast (push_bit 5 l) AND 0xE0 :: u8) AND 0xF) = unat (l :: u32)"
proof -
  have m: "(0xE0 :: u8) = push_bit 5 (mask 3)" "(0xF :: u8) = mask 4" by (simp_all add: mask_eq_exp_minus_1 push_bit_eq_mult)
  have b: "bit l i \<Longrightarrow> i < 3" for i using bit_small [of l 3 i] assms by simp
  have "drop_bit 5 (ucast (push_bit 5 l) AND 0xE0 :: u8) AND 0xF = ucast l"
    unfolding m by (rule bit_word_eqI) (auto simp: bit_simps dest: b)
  moreover have "unat (ucast l :: u8) = unat l" using assms by (simp add: unsigned_ucast_eq word_less_nat_alt take_bit_nat_eq_self)
  ultimately show ?thesis by simp
qed

section \<open>A reference device\<close>

text \<open>The units of the device are flat images of sectors of \<open>bsz\<close> bytes.\<close>

datatype disk_phase = Command_phase | Data_in "u8 list" | Data_out nat nat nat | Status_phase

record disk_unit =
  du_units :: "u8 list list"
  du_phase :: disk_phase

abbreviation (input) put_bytes :: "nat \<Rightarrow> u8 list \<Rightarrow> u8 list \<Rightarrow> u8 list" where "put_bytes pos bs img \<equiv> patch img pos bs"

definition disk_command :: "nat \<Rightarrow> u8 list \<Rightarrow> disk_unit \<Rightarrow> disk_phase option" where
  "disk_command bsz cbw s =
     (let ws = words_of (take 12 cbw); len = unat (ws ! 2); u = unat (cbw ! 13);
          lba = unat (big_endian [cbw ! 17, cbw ! 18, cbw ! 19, cbw ! 20]); n = unat (big_endian [cbw ! 22, cbw ! 23])
      in if length cbw \<noteq> 31 \<or> ws ! 0 \<noteq> CBW_SIGNATURE \<or> cbw ! 14 \<noteq> 10 then None
         else if u \<ge> length (du_units s) \<or> len \<noteq> n * bsz \<or> (lba + n) * bsz > length (du_units s ! u) then None
         else if cbw ! 15 = SCSI_READ_10 \<and> cbw ! 12 = 0x80 then Some (Data_in (take len (drop (lba * bsz) (du_units s ! u))))
         else if cbw ! 15 = SCSI_WRITE_10 \<and> cbw ! 12 = 0 then Some (Data_out u (lba * bsz) len)
         else None)"

definition disk_receive :: "nat \<Rightarrow> u8 list \<Rightarrow> disk_unit \<Rightarrow> bool \<times> disk_unit" where
  "disk_receive bsz bs s = (case du_phase s of
     Command_phase \<Rightarrow> (case disk_command bsz bs s of None \<Rightarrow> (False, s) | Some p \<Rightarrow> (True, s\<lparr>du_phase := p\<rparr>))
   | Data_out u pos len \<Rightarrow>
       if length bs = len then (True, s\<lparr>du_units := (du_units s)[u := put_bytes pos bs (du_units s ! u)], du_phase := Status_phase\<rparr>)
       else (False, s)
   | _ \<Rightarrow> (False, s))"

definition disk_send :: "nat \<Rightarrow> disk_unit \<Rightarrow> u8 list option \<times> disk_unit" where
  "disk_send n s = (case du_phase s of
     Data_in bs \<Rightarrow> if length bs = n then (Some bs, s\<lparr>du_phase := Status_phase\<rparr>) else (None, s)
   | Status_phase \<Rightarrow> if n = 13 then (Some (bytes_of [CSW_SIGNATURE, 0, 0] @ [0]), s\<lparr>du_phase := Command_phase\<rparr>) else (None, s)
   | _ \<Rightarrow> (None, s))"

definition disk_pipes :: "nat \<Rightarrow> disk_unit usb_disk" where
  "disk_pipes bsz = \<lparr>BulkRead = disk_send, BulkWrite = disk_receive bsz, CommandReset = (\<lambda>s. (True, s\<lparr>du_phase := Command_phase\<rparr>)),
     ClearHaltEndPoint = (\<lambda>_ s. (True, s)), bMaxLun = 7, stale = (\<lambda>n. replicate n 0)\<rparr>"

section \<open>One command\<close>

text \<open>The unit a command addresses: devices that report more than SCSI-2 get no unit in the command block.\<close>

definition unit_of :: "scsi_device \<Rightarrow> nat" where
  "unit_of d = (if sd_level d \<le> SCSI_2 then unat (sd_lun d) else 0)"

definition holds_disk :: "nat \<Rightarrow> scsi_device \<Rightarrow> disk_unit \<Rightarrow> bool" where
  "holds_disk bsz d s \<longleftrightarrow> sd_lun d < 8 \<and> unat (sd_sectorSize d) = bsz \<and> 0 < bsz \<and> bsz \<le> 2048 \<and>
     unit_of d < length (du_units s) \<and> du_phase s = Command_phase"

abbreviation (input) image :: "scsi_device \<Rightarrow> disk_unit \<Rightarrow> u8 list" where "image d s \<equiv> du_units s ! unit_of d"

lemma block_fields [simp]:
  "c_direction (block_command op d b n) = SCSI_DATA_NONE" "iRequestLen (block_command op d b n) = n * sd_sectorSize d"
  "iResult (block_command op d b n) = 0" "c_lun (block_command op d b n) = sd_lun d"
  by (simp_all add: block_command_def set_command_def SCSICommand_of_def SCSICommand_def)

lemma code_10: "SCSIHandler_GetCommandSize SCSI_READ_10 = 10" "SCSIHandler_GetCommandSize SCSI_WRITE_10 = 10"
  "pLenCodes ! unat SCSI_READ_10 = CHR ''B''" by code_simp+

lemma block_bytes:
  "bCommand (block_command op d b n) =
     [op, if sd_level d \<le> SCSI_2 then lun_byte d else 0, ucast (drop_bit 24 b) AND 0xFF, ucast (drop_bit 16 b) AND 0xFF,
      ucast (drop_bit 8 b) AND 0xFF, ucast (b AND 0xFF), 0, ucast (drop_bit 8 n) AND 0xFF, ucast (n AND 0xFF), 0, 0, 0, 0, 0, 0, 0]"
  by (simp add: block_command_def set_command_def SCSICommand_of_def SCSICommand_def numeral_eq_Suc)

lemma transfer_by_request:
  "c_direction c = SCSI_DATA_WRITE \<or> pLenCodes ! unat (bCommand c ! 0) = CHR ''B'' \<Longrightarrow> SCSIHandler_GetTransferLen c = iRequestLen c"
  unfolding SCSIHandler_GetTransferLen_def Let_def by (elim disjE) simp_all

lemma cbw_of_block:
  assumes "op = SCSI_READ_10 \<and> dir = SCSI_DATA_READ \<or> op = SCSI_WRITE_10 \<and> dir = SCSI_DATA_WRITE"
  shows "make_cbw (block_command op d b n\<lparr>c_direction := dir, c_buffer := bs\<rparr>) =
    Some (cbw_bytes (n * sd_sectorSize d) (if dir = SCSI_DATA_READ then 0x80 else 0)
      (drop_bit 5 (if sd_level d \<le> SCSI_2 then lun_byte d else 0) AND 0xF) 10
      ([op, if sd_level d \<le> SCSI_2 then lun_byte d else 0, ucast (drop_bit 24 b) AND 0xFF, ucast (drop_bit 16 b) AND 0xFF,
      ucast (drop_bit 8 b) AND 0xFF, ucast (b AND 0xFF), 0, ucast (drop_bit 8 n) AND 0xFF, ucast (n AND 0xFF), 0] @ replicate 6 0))"
proof -
  have l: "iCmdLen (block_command op d b n) = 10" using assms by (auto simp: block_command_def code_10)
  have t: "SCSIHandler_GetTransferLen (block_command op d b n\<lparr>c_direction := dir, c_buffer := bs\<rparr>) = n * sd_sectorSize d"
    using assms code_10(3) by (subst transfer_by_request) (auto simp: block_bytes)
  show ?thesis by (simp add: make_cbw_def l t block_bytes)
qed

lemma unit_byte: "sd_lun d < 8 \<Longrightarrow> unat (drop_bit 5 (if sd_level d \<le> SCSI_2 then lun_byte d else 0) AND 0xF :: u8) = unit_of d"
  using unit_of_byte [of "sd_lun d"] by (simp add: unit_of_def lun_byte_def)

abbreviation (input) transfer :: "u8 \<Rightarrow> scsi_direction \<Rightarrow> scsi_device \<Rightarrow> u32 \<Rightarrow> u32 \<Rightarrow> u8 list \<Rightarrow> scsi_command" where
  "transfer op dir d b n bs \<equiv> block_command op d b n\<lparr>c_direction := dir, c_buffer := bs\<rparr>"

lemma transfer_length:
  assumes "op = SCSI_READ_10 \<and> dir = SCSI_DATA_READ \<or> op = SCSI_WRITE_10 \<and> dir = SCSI_DATA_WRITE"
    "holds_disk bsz d s" "n \<le> 16"
  shows "unat (SCSIHandler_GetTransferLen (transfer op dir d b n bs)) = unat n * bsz" "unat (n * sd_sectorSize d) = unat n * bsz"
    "unat n * bsz \<le> 32768"
proof -
  have bsz: "unat (sd_sectorSize d) = bsz" "bsz \<le> 2048" using assms(2) by (simp_all add: holds_disk_def)
  have "unat n * bsz \<le> 16 * 2048" using assms(3) bsz by (intro mult_le_mono) (simp_all add: word_le_nat_alt)
  then show le: "unat n * bsz \<le> 32768" by simp
  then show u: "unat (n * sd_sectorSize d) = unat n * bsz" using bsz by (subst unat_mult_lem [THEN iffD1]) simp_all
  have "SCSIHandler_GetTransferLen (transfer op dir d b n bs) = n * sd_sectorSize d"
    using assms(1) code_10(3) by (subst transfer_by_request) (auto simp: block_bytes)
  then show "unat (SCSIHandler_GetTransferLen (transfer op dir d b n bs)) = unat n * bsz" using u by simp
qed

lemma disk_accepts:
  assumes op: "op = SCSI_READ_10 \<and> dir = SCSI_DATA_READ \<or> op = SCSI_WRITE_10 \<and> dir = SCSI_DATA_WRITE"
    and d: "holds_disk bsz d s" and n: "n \<le> 16" and fits: "(unat b + unat n) * bsz \<le> length (image d s)"
  shows "\<exists>cbw. make_cbw (block_command op d b n\<lparr>c_direction := dir, c_buffer := bs\<rparr>) = Some cbw \<and> length cbw = 31 \<and>
    disk_command bsz cbw s = Some (if dir = SCSI_DATA_READ then Data_in (take (unat n * bsz) (drop (unat b * bsz) (image d s)))
      else Data_out (unit_of d) (unat b * bsz) (unat n * bsz))"
proof -
  have n16: "n < 0x10000" using n by (simp add: word_less_nat_alt word_le_nat_alt)
  note len = transfer_length(2) [OF op d n]
  have w: "words_of (take 12 (bytes_of [x, y, z] @ r)) = [x, y, z]" for x y z r
    by (simp add: take_Cons' words_of_bytes_of [of "[x, y, z]", simplified])
  show ?thesis
    using op d fits unit_byte [of d]
    apply (simp add: cbw_of_block [OF op] disk_command_def cbw_bytes_def Let_def w len holds_disk_def nth_append del: bytes_of.simps)
    apply (simp add: big_endian_bytes big_endian_two [OF n16])
    apply auto
    done
qed

text \<open>One transfer over a pipe.\<close>

lemma WriteData_one:
  assumes "0 < len" "len \<le> 32768" "len \<le> length buf" "BulkWrite U (take len buf) s = (True, t)"
  shows "WriteData U buf len s = Some (Inr USB_SUCCESS, t)"
  using assms
  by (simp add: WriteData_def WriteData_loop.simps [of U len] WriteData_loop.simps [of U 0] Let_def and_then_def usb_def yield_def)

lemma ReadData_one:
  assumes "0 < len" "len \<le> 32768" "len \<le> length buf" "BulkRead U len s = (Some bs, t)" "length bs = len"
  shows "ReadData U buf len s = Some (Inr (USB_SUCCESS, bs @ drop len buf), t)"
  using assms
  by (simp add: ReadData_def ReadData_loop.simps [of U len] ReadData_loop.simps [of U 0] Let_def and_then_def usb_def yield_def)

lemma csw_ok: "check_csw (bytes_of [CSW_SIGNATURE, 0, 0] @ [0]) = USB_SUCCESS"
  by code_simp

text \<open>A command the device takes, with its data in one transfer, changes the device by that transfer.\<close>

lemma send_block_command:
  assumes d: "holds_disk bsz d s" and n: "0 < n" "n \<le> 16" and fits: "(unat b + unat n) * bsz \<le> length (image d s)"
    and bs: "length bs = unat n * bsz"
  shows "SendCommand (disk_pipes bsz) (transfer SCSI_READ_10 SCSI_DATA_READ d b n bs) s =
      Some (Inr (USB_SUCCESS, transfer SCSI_READ_10 SCSI_DATA_READ d b n (take (unat n * bsz) (drop (unat b * bsz) (image d s)))), s)"
    and "SendCommand (disk_pipes bsz) (transfer SCSI_WRITE_10 SCSI_DATA_WRITE d b n bs) s =
      Some (Inr (USB_SUCCESS, transfer SCSI_WRITE_10 SCSI_DATA_WRITE d b n bs),
        s\<lparr>du_units := (du_units s)[unit_of d := put_bytes (unat b * bsz) bs (image d s)]\<rparr>)"
proof -
  let ?U = "disk_pipes bsz" and ?len = "unat n * bsz"
  have ph: "du_phase s = Command_phase" and pos: "0 < ?len" using d n(1) by (auto simp: holds_disk_def word_less_nat_alt)
  have csw: "ReadData ?U (stale ?U 13) 13 t = Some (Inr (USB_SUCCESS, bytes_of [CSW_SIGNATURE, 0, 0] @ [0]), t\<lparr>du_phase := Command_phase\<rparr>)"
    if "du_phase t = Status_phase" for t
    using ReadData_one [of 13 "stale ?U 13" ?U t "bytes_of [CSW_SIGNATURE, 0, 0] @ [0]" "t\<lparr>du_phase := Command_phase\<rparr>"] that
    by (simp add: disk_pipes_def disk_send_def)
  have home: "s\<lparr>du_phase := Command_phase\<rparr> = s" using ph by simp
  have cmd: "WriteData ?U cbw 31 s = Some (Inr USB_SUCCESS, s\<lparr>du_phase := p\<rparr>)" if "length cbw = 31" "disk_command bsz cbw s = Some p" for cbw p
    using that ph by (intro WriteData_one) (simp_all add: disk_pipes_def disk_receive_def)
  note tl = transfer_length [OF _ d n(2)]
  show "SendCommand ?U (transfer SCSI_READ_10 SCSI_DATA_READ d b n bs) s =
      Some (Inr (USB_SUCCESS, transfer SCSI_READ_10 SCSI_DATA_READ d b n (take ?len (drop (unat b * bsz) (image d s)))), s)"
  proof -
    let ?bs = "take ?len (drop (unat b * bsz) (image d s))"
    obtain cbw where c: "make_cbw (transfer SCSI_READ_10 SCSI_DATA_READ d b n bs) = Some cbw" "length cbw = 31"
        "disk_command bsz cbw s = Some (Data_in ?bs)"
      using disk_accepts [of SCSI_READ_10 SCSI_DATA_READ, OF _ d n(2) fits] by auto
    have l: "length ?bs = ?len" using fits by (simp add: algebra_simps)
    have "ReadData ?U bs ?len (s\<lparr>du_phase := Data_in ?bs\<rparr>) = Some (Inr (USB_SUCCESS, ?bs @ drop ?len bs), s\<lparr>du_phase := Status_phase\<rparr>)"
      using pos tl(3) [of SCSI_READ_10 SCSI_DATA_READ] bs l by (intro ReadData_one) (simp_all add: disk_pipes_def disk_send_def)
    then show ?thesis using c tl(1) [of SCSI_READ_10 SCSI_DATA_READ] bs
      by (simp add: SendCommand_def Let_def and_then_def yield_def cmd [OF c(2,3)] csw csw_ok home del: bytes_of.simps)
  qed
  show "SendCommand ?U (transfer SCSI_WRITE_10 SCSI_DATA_WRITE d b n bs) s =
      Some (Inr (USB_SUCCESS, transfer SCSI_WRITE_10 SCSI_DATA_WRITE d b n bs),
        s\<lparr>du_units := (du_units s)[unit_of d := put_bytes (unat b * bsz) bs (image d s)]\<rparr>)"
  proof -
    let ?u = "(du_units s)[unit_of d := put_bytes (unat b * bsz) bs (image d s)]"
    obtain cbw where c: "make_cbw (transfer SCSI_WRITE_10 SCSI_DATA_WRITE d b n bs) = Some cbw" "length cbw = 31"
        "disk_command bsz cbw s = Some (Data_out (unit_of d) (unat b * bsz) ?len)"
      using disk_accepts [of SCSI_WRITE_10 SCSI_DATA_WRITE, OF _ d n(2) fits] by auto
    have "WriteData ?U bs ?len (s\<lparr>du_phase := Data_out (unit_of d) (unat b * bsz) ?len\<rparr>) =
        Some (Inr USB_SUCCESS, s\<lparr>du_units := ?u, du_phase := Status_phase\<rparr>)"
      using pos tl(3) [of SCSI_WRITE_10 SCSI_DATA_WRITE] bs by (intro WriteData_one) (simp_all add: disk_pipes_def disk_receive_def)
    then show ?thesis using c tl(1) [of SCSI_WRITE_10 SCSI_DATA_WRITE] bs ph
      by (simp add: SendCommand_def Let_def and_then_def yield_def cmd [OF c(2,3)] csw csw_ok del: bytes_of.simps)
  qed
qed

lemma queue_block_command:
  assumes d: "holds_disk bsz d s" and n: "0 < n" "n \<le> 16" and fits: "(unat b + unat n) * bsz \<le> length (image d s)"
    and bs: "length bs = unat n * bsz"
  shows "QueueCommand (disk_pipes bsz) (transfer SCSI_READ_10 SCSI_DATA_READ d b n bs) s =
      Some (Inr (True, transfer SCSI_READ_10 SCSI_DATA_READ d b n (take (unat n * bsz) (drop (unat b * bsz) (image d s)))), s)"
    and "QueueCommand (disk_pipes bsz) (transfer SCSI_WRITE_10 SCSI_DATA_WRITE d b n bs) s =
      Some (Inr (True, transfer SCSI_WRITE_10 SCSI_DATA_WRITE d b n bs),
        s\<lparr>du_units := (du_units s)[unit_of d := put_bytes (unat b * bsz) bs (image d s)]\<rparr>)"
proof -
  have lun: "\<not> ucast (bMaxLun (disk_pipes bsz)) < sd_lun d" using d
    by (simp add: holds_disk_def disk_pipes_def word_less_nat_alt)
  have r: "c\<lparr>iResult := 0\<rparr> = c" if "iResult c = 0" for c :: scsi_command using that by simp
  show "QueueCommand (disk_pipes bsz) (transfer SCSI_READ_10 SCSI_DATA_READ d b n bs) s =
      Some (Inr (True, transfer SCSI_READ_10 SCSI_DATA_READ d b n (take (unat n * bsz) (drop (unat b * bsz) (image d s)))), s)"
    using lun by (simp add: QueueCommand_def Let_def and_then_def yield_def send_block_command(1) [OF assms] r)
  show "QueueCommand (disk_pipes bsz) (transfer SCSI_WRITE_10 SCSI_DATA_WRITE d b n bs) s =
      Some (Inr (True, transfer SCSI_WRITE_10 SCSI_DATA_WRITE d b n bs),
        s\<lparr>du_units := (du_units s)[unit_of d := put_bytes (unat b * bsz) bs (image d s)]\<rparr>)"
    using lun by (simp add: QueueCommand_def Let_def and_then_def yield_def send_block_command(2) [OF assms] r)
qed

section \<open>Reading and writing sectors\<close>

lemma next_sectors:
  fixes b n k :: u32
  assumes "k < n" "unat b + unat n \<le> 2 ^ 32" "(unat b + unat n) * bsz \<le> len"
  shows "unat (n - k) = unat n - unat k" "unat (b + k) = unat b + unat k" "(unat b + unat k) * bsz \<le> len"
    "(unat (b + k) + unat (n - k)) * bsz \<le> len" "unat n * bsz = unat k * bsz + unat (n - k) * bsz"
proof -
  show nk: "unat (n - k) = unat n - unat k" using assms(1) by (simp add: unat_sub word_le_nat_alt word_less_nat_alt)
  show bk: "unat (b + k) = unat b + unat k" using assms(1,2) by (intro unat_add_no_wrap) (simp add: word_less_nat_alt)
  have k: "unat k < unat n" using assms(1) by (simp add: word_less_nat_alt)
  then have "(unat b + unat k) * bsz \<le> (unat b + unat n) * bsz" by (intro mult_le_mono) auto
  then show "(unat b + unat k) * bsz \<le> len" using assms(3) by (rule order_trans)
  show "(unat (b + k) + unat (n - k)) * bsz \<le> len" using assms(3) k by (simp add: nk bk)
  show "unat n * bsz = unat k * bsz + unat (n - k) * bsz" using k by (simp add: nk add_mult_distrib [symmetric])
qed

lemma read_step:
  fixes b n :: u32
  defines "k \<equiv> if n > 8 then 8 else n"
  assumes "holds_disk bsz d s" "0 < n" "(unat b + unat k) * bsz \<le> length (image d s)" "pos + unat k * bsz \<le> length buf"
  shows "GenericRead_loop (disk_pipes bsz) d b n pos buf s =
    GenericRead_loop (disk_pipes bsz) d (b + k) (n - k) (pos + unat k * bsz)
      (put_bytes pos (take (unat k * bsz) (drop (unat b * bsz) (image d s))) buf) s"
proof -
  have k: "0 < k" "k \<le> 16" using assms(3) by (auto simp: k_def word_le_nat_alt word_less_nat_alt)
  have l: "length (take (unat k * bsz) (drop pos buf)) = unat k * bsz" using assms(5) by simp
  have len: "unat (k * sd_sectorSize d) = unat k * bsz"
    using transfer_length(2) [OF _ assms(2) k(2)] by blast
  have m: "length (take (unat k * bsz) (drop (unat b * bsz) (image d s))) = unat k * bsz" using assms(4) by (simp add: algebra_simps)
  show ?thesis
    unfolding patch_def m
    using assms(3,5) queue_block_command(1) [OF assms(2) k assms(4) l]
    by (simp add: GenericRead_loop.simps [of _ d b n] k_def [symmetric] Let_def len and_then_def)
qed

lemma GenericRead_loop_disk:
  assumes "holds_disk bsz d s" "unat b + unat n \<le> 2 ^ 32" "(unat b + unat n) * bsz \<le> length (image d s)"
    "pos + unat n * bsz \<le> length buf"
  shows "GenericRead_loop (disk_pipes bsz) d b n pos buf s =
    Some (Inr (put_bytes pos (take (unat n * bsz) (drop (unat b * bsz) (image d s))) buf), s)"
  using assms(2-)
proof (induction "unat n" arbitrary: b n pos buf rule: less_induct)
  case less
  let ?img = "image d s"
  consider "n = 0" | "0 < n" "n \<le> 8" | "0 < n" "8 < n" by (metis linorder_not_le word_gt_0)
  then show ?case
  proof cases
    case 1
    then show ?thesis by (simp add: GenericRead_loop.simps yield_def)
  next
    case 2
    then show ?thesis using read_step [OF assms(1) 2(1), of b pos buf] 2(2) [THEN leD] less.prems by (simp add: GenericRead_loop.simps [of _ _ _ 0] yield_def)
  next
    case 3
    note nx = next_sectors [OF 3(2) less.prems(1,2)]
    let ?a = "take (unat (8 :: u32) * bsz) (drop (unat b * bsz) ?img)"
    have l: "length ?a = unat (8 :: u32) * bsz" using nx(3) by (simp add: algebra_simps)
    have "unat (n - 8) < unat n" using nx(1) 3(2) by (simp add: word_less_nat_alt)
    then have "GenericRead_loop (disk_pipes bsz) d (b + 8) (n - 8) (pos + unat (8 :: u32) * bsz) (put_bytes pos ?a buf) s =
        Some (Inr (put_bytes (pos + unat (8 :: u32) * bsz) (take (unat (n - 8) * bsz) (drop (unat (b + 8) * bsz) ?img)) (put_bytes pos ?a buf)), s)"
    proof (rule less.hyps)
      have "pos + length ?a \<le> length buf" unfolding l using nx(5) less.prems(3) by simp
      then have "length (put_bytes pos ?a buf) = length buf" by (rule length_patch)
      then show "pos + unat (8 :: u32) * bsz + unat (n - 8) * bsz \<le> length (put_bytes pos ?a buf)" using nx(5) less.prems(3) by simp
      show "unat (b + 8) + unat (n - 8) \<le> 2 ^ 32" using nx(1,2) less.prems(1) 3(2) by (simp add: word_less_nat_alt)
      show "(unat (b + 8) + unat (n - 8)) * bsz \<le> length ?img" by (rule nx(4))
    qed
    moreover have "GenericRead_loop (disk_pipes bsz) d b n pos buf s =
        GenericRead_loop (disk_pipes bsz) d (b + 8) (n - 8) (pos + unat (8 :: u32) * bsz) (put_bytes pos ?a buf) s"
      using 3(2) read_step [OF assms(1) 3(1), of b pos buf] nx(3,5) less.prems(3) by simp
    moreover have "put_bytes (pos + unat (8 :: u32) * bsz) (take (unat (n - 8) * bsz) (drop (unat (b + 8) * bsz) ?img)) (put_bytes pos ?a buf) =
        put_bytes pos (take (unat n * bsz) (drop (unat b * bsz) ?img)) buf"
    proof -
      have "take (unat n * bsz) (drop (unat b * bsz) ?img) = ?a @ take (unat (n - 8) * bsz) (drop (unat (b + 8) * bsz) ?img)"
        unfolding nx(5) nx(2) distrib_right take_add drop_drop by (simp only: add.commute)
      then show ?thesis using patch_patch [of pos ?a "take (unat (n - 8) * bsz) (drop (unat (b + 8) * bsz) ?img)" buf] l nx(4,5) less.prems(3)
        by simp
    qed
    ultimately show ?thesis by simp
  qed
qed

lemma write_step:
  fixes b n :: u32
  defines "k \<equiv> if n > 16 then 16 else n"
  assumes "holds_disk bsz d s" "0 < n" "(unat b + unat k) * bsz \<le> length (image d s)" "pos + unat k * bsz \<le> length buf"
  shows "GenericWrite_loop (disk_pipes bsz) d b n pos buf s =
    GenericWrite_loop (disk_pipes bsz) d (b + k) (n - k) (pos + unat k * bsz) buf
      (s\<lparr>du_units := (du_units s)[unit_of d := put_bytes (unat b * bsz) (take (unat k * bsz) (drop pos buf)) (image d s)]\<rparr>)"
proof -
  have k: "0 < k" "k \<le> 16" using assms(3) by (auto simp: k_def word_le_nat_alt word_less_nat_alt)
  have l: "length (take (unat k * bsz) (drop pos buf)) = unat k * bsz" using assms(5) by simp
  have len: "unat (k * sd_sectorSize d) = unat k * bsz"
    using transfer_length(2) [OF _ assms(2) k(2)] by blast
  show ?thesis
    using assms(3,5) queue_block_command(2) [OF assms(2) k assms(4) l]
    by (simp add: GenericWrite_loop.simps [of _ d b n] k_def [symmetric] Let_def len and_then_def)
qed

lemma GenericWrite_loop_disk:
  assumes "holds_disk bsz d s" "unat b + unat n \<le> 2 ^ 32" "(unat b + unat n) * bsz \<le> length (image d s)"
    "pos + unat n * bsz \<le> length buf"
  shows "GenericWrite_loop (disk_pipes bsz) d b n pos buf s =
    Some (Inr (), s\<lparr>du_units := (du_units s)[unit_of d := put_bytes (unat b * bsz) (take (unat n * bsz) (drop pos buf)) (image d s)]\<rparr>)"
  using assms
proof (induction "unat n" arbitrary: b n pos s rule: less_induct)
  case less
  let ?img = "image d s"
  consider "n = 0" | "0 < n" "n \<le> 16" | "0 < n" "16 < n" by (metis linorder_not_le word_gt_0)
  then show ?case
  proof cases
    case 1
    then show ?thesis by (simp add: GenericWrite_loop.simps yield_def)
  next
    case 2
    then show ?thesis using write_step [OF less.prems(1) 2(1), of b pos buf] 2(2) [THEN leD] less.prems
      by (simp add: GenericWrite_loop.simps [of _ _ _ 0] yield_def)
  next
    case 3
    note nx = next_sectors [OF 3(2) less.prems(2,3)]
    let ?a = "take (unat (16 :: u32) * bsz) (drop pos buf)" and ?c = "take (unat (n - 16) * bsz) (drop (pos + unat (16 :: u32) * bsz) buf)"
    let ?s = "s\<lparr>du_units := (du_units s)[unit_of d := put_bytes (unat b * bsz) ?a ?img]\<rparr>"
    have l: "length ?a = unat (16 :: u32) * bsz" "length ?c = unat (n - 16) * bsz" using nx(5) less.prems(4) by simp_all
    have u: "unit_of d < length (du_units s)" using less.prems(1) by (simp add: holds_disk_def)
    have fit: "unat b * bsz + length ?a \<le> length ?img" unfolding l using nx(3) by (simp add: distrib_right)
    have img: "image d ?s = put_bytes (unat b * bsz) ?a ?img" using u by simp
    have "unat (n - 16) < unat n" using nx(1) 3(2) by (simp add: word_less_nat_alt)
    then have "GenericWrite_loop (disk_pipes bsz) d (b + 16) (n - 16) (pos + unat (16 :: u32) * bsz) buf ?s =
        Some (Inr (), ?s\<lparr>du_units := (du_units ?s)[unit_of d := put_bytes (unat (b + 16) * bsz) ?c (image d ?s)]\<rparr>)"
    proof (rule less.hyps)
      show "holds_disk bsz d ?s" using less.prems(1) by (simp add: holds_disk_def)
      show "unat (b + 16) + unat (n - 16) \<le> 2 ^ 32" using nx(1,2) less.prems(2) 3(2) by (simp add: word_less_nat_alt)
      show "(unat (b + 16) + unat (n - 16)) * bsz \<le> length (image d ?s)" unfolding img length_patch [OF fit] by (rule nx(4))
      show "pos + unat (16 :: u32) * bsz + unat (n - 16) * bsz \<le> length buf" using nx(5) less.prems(4) by simp
    qed
    moreover have "put_bytes (unat (b + 16) * bsz) ?c (put_bytes (unat b * bsz) ?a ?img) =
        put_bytes (unat b * bsz) (take (unat n * bsz) (drop pos buf)) ?img"
    proof -
      have "take (unat n * bsz) (drop pos buf) = ?a @ ?c" unfolding nx(5) take_add drop_drop by (simp only: add.commute)
      moreover have "unat (b + 16) * bsz = unat b * bsz + length ?a" unfolding l nx(2) by (simp add: distrib_right)
      moreover have "unat b * bsz + length ?a + length ?c \<le> length ?img" using nx(4) unfolding l nx(2) by (simp add: distrib_right)
      ultimately show ?thesis by (simp only: patch_patch)
    qed
    ultimately show ?thesis
      using 3(2) write_step [OF less.prems(1) 3(1), of b pos buf] nx(3,5) less.prems(4) by (simp add: u)
  qed
qed

text \<open>C13: reading sectors of a disk that follows the protocol gives the bytes of these sectors of the addressed unit, at the start of
  the buffer, and leaves the disk as it was; writing puts the bytes of the buffer there and leaves all other bytes and units alone.\<close>

theorem scsi_disk_transfers_sectors:
  assumes "holds_disk bsz d s" "unat b + unat n \<le> 2 ^ 32" "(unat b + unat n) * bsz \<le> length (image d s)"
    "unat n * bsz \<le> length buf"
  shows "SCSIHandler_GenericRead (disk_pipes bsz) d b n buf s =
      Some (Inr (take (unat n * bsz) (drop (unat b * bsz) (image d s)) @ drop (unat n * bsz) buf), s) \<and>
    SCSIHandler_GenericWrite (disk_pipes bsz) d b n buf s = Some (Inr (), s\<lparr>du_units := (du_units s)[unit_of d :=
      take (unat b * bsz) (image d s) @ take (unat n * bsz) buf @ drop ((unat b + unat n) * bsz) (image d s)]\<rparr>)"
proof (intro conjI)
  have l: "length (take (unat n * bsz) (drop (unat b * bsz) (image d s))) = unat n * bsz"
    using assms(3) by (simp add: distrib_right)
  show "SCSIHandler_GenericRead (disk_pipes bsz) d b n buf s =
      Some (Inr (take (unat n * bsz) (drop (unat b * bsz) (image d s)) @ drop (unat n * bsz) buf), s)"
    using GenericRead_loop_disk [OF assms(1-3), of 0 buf] assms(4) l by (simp add: SCSIHandler_GenericRead_def patch_def)
  show "SCSIHandler_GenericWrite (disk_pipes bsz) d b n buf s = Some (Inr (), s\<lparr>du_units := (du_units s)[unit_of d :=
      take (unat b * bsz) (image d s) @ take (unat n * bsz) buf @ drop ((unat b + unat n) * bsz) (image d s)]\<rparr>)"
    using GenericWrite_loop_disk [OF assms(1-3), of 0 buf] assms(4)
    by (simp add: SCSIHandler_GenericWrite_def patch_def distrib_right min_absorb2)
qed

definition sample_unit :: disk_unit where
  "sample_unit = \<lparr>du_units = [replicate 16 0, map of_nat [0..<80]], du_phase = Command_phase\<rparr>"

definition sample_scsi_disk :: "u8 \<Rightarrow> scsi_device" where
  "sample_scsi_disk level = \<lparr>sd_openCount = 1, sd_channel = 0, sd_device = 0, sd_lun = 1, sd_type = 0, sd_vendor = [], sd_model = [],
     sd_revision = [], sd_sectorSize = 8, sd_sectors = 10, sd_size = 80, sd_level = level, sd_removable = True\<rparr>"

theorem scsi_disk_transfers_sectors_witness:
  "SCSIHandler_GenericRead (disk_pipes 8) (sample_scsi_disk 2) 0 9 (replicate 72 7) sample_unit = Some (Inr (map of_nat [0..<72]), sample_unit)"
proof -
  have "holds_disk 8 (sample_scsi_disk 2) sample_unit"
    by (simp add: holds_disk_def sample_scsi_disk_def sample_unit_def unit_of_def)
  moreover have "image (sample_scsi_disk 2) sample_unit = map of_nat [0..<80]"
    by (simp add: sample_scsi_disk_def sample_unit_def unit_of_def)
  ultimately show ?thesis
    using scsi_disk_transfers_sectors [of 8 "sample_scsi_disk 2" sample_unit 0 9 "replicate 72 7"]
    by (simp add: take_map take_upt)
qed

section \<open>Devices that fail\<close>

text \<open>A command without data leaves the buffers alone.\<close>

lemma SendCommand_no_data:
  assumes "SendCommand U c s = Some (Inr (st, c'), t)" "c_direction c \<noteq> SCSI_DATA_READ"
  shows "c' = c"
  using assms by (auto simp: SendCommand_def Let_def and_then_def yield_def undef_def split: option.splits sum.splits if_splits prod.splits)

lemma code_ready: "pLenCodes ! 0 = CHR ''0''" "SCSIHandler_GetCommandSize SCSI_TEST_UNIT_READY = 6"
  by code_simp+

lemma csw_phase: "check_csw (bytes_of [CSW_SIGNATURE, 0, 0] @ [2]) = USB_ERROR"
  by code_simp

lemma ready_fields [simp]:
  "c_direction (ready_command d) = SCSI_DATA_NONE" "c_lun (ready_command d) = sd_lun d" "c_sense (ready_command d) = replicate 64 0"
  "iCmdLen (ready_command d) = 6" "length (bCommand (ready_command d)) = 16" "bCommand (ready_command d) ! 0 = 0"
  by (simp_all add: ready_command_def set_command_def SCSICommand_of_def SCSICommand_def code_ready)

text \<open>C24: a device that answers \<open>TEST UNIT READY\<close> with a phase error (the answer that asks for a reset) is reported ready: the command
  has no sense data, and missing sense data count as \<open>SENSE_OK\<close>.\<close>

theorem failing_device_is_reported_ready:
  assumes "SendCommand U (ready_command d) s = Some (Inr (USB_ERROR, c), t)" "sd_lun d \<le> ucast (bMaxLun U)"
  shows "\<exists>t'. SCSIHandler_TestReady U d (Suc n) s = Some (Inr True, t')"
proof -
  have c: "c = ready_command d" using SendCommand_no_data [OF assms(1)] by simp
  obtain st t' where r: "DoReset U t = Some (Inr st, t')"
    by (cases "fst (CommandReset U t)"; cases "fst (ClearHaltEndPoint U True (snd (CommandReset U t)))";
        cases "fst (ClearHaltEndPoint U False (snd (ClearHaltEndPoint U True (snd (CommandReset U t)))))")
      (simp_all add: DoReset_def and_then_def usb_def yield_def)
  have "QueueCommand U (ready_command d) s = Some (Inr (False, ready_command d\<lparr>iResult := 1\<rparr>), t')"
    using assms r by (simp add: QueueCommand_def and_then_def yield_def c not_le [symmetric])
  then show ?thesis
    by (simp add: and_then_def yield_def SCSIHandler_CheckSense_def SenseKey_def Let_def)
qed

text \<open>A device that answers every command with a phase error.\<close>

definition broken_pipes :: "unit usb_disk" where
  "broken_pipes = \<lparr>BulkRead = (\<lambda>n s. (Some (bytes_of [CSW_SIGNATURE, 0, 0] @ [2]), s)), BulkWrite = (\<lambda>_ s. (True, s)),
     CommandReset = (\<lambda>s. (True, s)), ClearHaltEndPoint = (\<lambda>_ s. (True, s)), bMaxLun = 7, stale = (\<lambda>n. replicate n 0)\<rparr>"

theorem failing_device_is_reported_ready_witness:
  "\<exists>t'. SCSIHandler_TestReady broken_pipes (sample_scsi_disk 2) 1 () = Some (Inr True, t')"
proof -
  let ?d = "sample_scsi_disk 2"
  have l: "SCSIHandler_GetTransferLen (ready_command ?d) = 0"
    by (simp add: SCSIHandler_GetTransferLen_def Let_def code_ready)
  obtain cbw where c: "make_cbw (ready_command ?d) = Some cbw" "length cbw = 31"
    using l by (simp add: make_cbw_def cbw_bytes_def)
  have w: "WriteData broken_pipes cbw 31 () = Some (Inr USB_SUCCESS, ())"
    using c(2) by (intro WriteData_one) (simp_all add: broken_pipes_def)
  have r: "ReadData broken_pipes (stale broken_pipes 13) 13 () = Some (Inr (USB_SUCCESS, bytes_of [CSW_SIGNATURE, 0, 0] @ [2]), ())"
    using ReadData_one [of 13 "stale broken_pipes 13" broken_pipes "()" "bytes_of [CSW_SIGNATURE, 0, 0] @ [2]" "()"]
    by (simp add: broken_pipes_def)
  have "SendCommand broken_pipes (ready_command ?d) () = Some (Inr (USB_ERROR, ready_command ?d), ())"
    using c(1) w r l csw_phase by (simp add: SendCommand_def and_then_def yield_def WriteData_def WriteData_loop.simps [of _ 0] del: bytes_of.simps)
  then show ?thesis using failing_device_is_reported_ready [of broken_pipes "sample_scsi_disk 2" "()" _ _ 0]
    by (simp add: sample_scsi_disk_def broken_pipes_def)
qed

text \<open>A unit that needs attention again after every command is asked for ever: no number of rounds is enough.\<close>

theorem attention_for_ever_never_returns:
  assumes "\<And>s. ok s \<Longrightarrow> \<exists>st c t. QueueCommand U (ready_command d) s = Some (Inr (st, c), t) \<and> SenseKey (c_sense c) = 6 \<and> ok t"
    and "ok s"
  shows "SCSIHandler_TestReady U d n s = None"
  using assms(2)
proof (induction n arbitrary: s)
  case 0
  then show ?case by (simp add: undef_def)
next
  case (Suc n)
  obtain st c t where "QueueCommand U (ready_command d) s = Some (Inr (st, c), t)" "SenseKey (c_sense c) = 6" "ok t"
    using assms(1) [OF Suc.prems] by blast
  then show ?case using Suc.IH by (simp add: and_then_def SCSIHandler_CheckSense_def)
qed

end
