(* ===== verification/Ata.thy ===== *)
theory Ata
  imports Effects FsTable
begin

text \<open>
  IDE disks: the access to a port, programmed and DMA transfers, commands and the transfer of sectors, from
  \<open>drivers/ide/ATAPortOperation.cpp\<close>, \<open>ATAPortManager.cpp\<close>, \<open>ATACommandManager.cpp\<close>, \<open>ATADrive.cpp\<close> and
  \<open>ATATimingManager.cpp\<close>. The drive with its registers, ports or memory mapped, and the memory it shares for
  DMA are a parameter with a state of its own. The port operations other than \<open>Configure\<close> are never replaced
  by a vendor's module, and \<open>FlushRegs\<close> is always null. Delays are left out.
\<close>

section \<open>Ports and hardware\<close>

datatype ata_device = ATA_DEV_NONE | ATA_DEV_UNKNOWN | ATA_DEV_ATA | ATA_DEV_ATAPI

datatype ata_cable = ATA_CABLE_NONE | ATA_CABLE_UNKNOWN | ATA_CABLE_PATA40 | ATA_CABLE_PATA80 | ATA_CABLE_SATA

text \<open>The fields of the answer to the identify command that are used.\<close>

record ata_identify =
  usCylinders :: u16
  usHead :: u16
  usSectors :: u16
  szModelID :: "u8 list"
  bCapabilities :: u8
  usValid :: u16
  uiLBASectors :: u32
  usMultiWordDMAInfo :: u16
  usEIDEPIOModes :: u16
  usEIDEDMAMin :: u16
  usEIDEPIO :: u16
  usEIDEPIOOrdy :: u16
  usCommandSet2 :: u16
  usUltraDMAModes :: u16
  uiLBACapacity48 :: u32

definition ATAIdentifyInfo :: "u8 list \<Rightarrow> ata_identify" where
  "ATAIdentifyInfo bs = (let w = (\<lambda>i. from_le16 (drop i bs)); d = (\<lambda>i. hd (words_of (drop i bs))) in
     \<lparr>usCylinders = w 2, usHead = w 6, usSectors = w 12, szModelID = take 40 (drop 54 bs), bCapabilities = bs ! 99,
      usValid = w 106, uiLBASectors = d 120, usMultiWordDMAInfo = w 126, usEIDEPIOModes = w 128, usEIDEDMAMin = w 130,
      usEIDEPIO = w 134, usEIDEPIOOrdy = w 136, usCommandSet2 = w 166, usUltraDMAModes = w 176, uiLBACapacity48 = d 200\<rparr>)"

record ata_prd =
  prd_address :: u32
  prd_length :: u16
  prd_terminate :: u16

record ata_port =
  uiPort :: u32
  uiCable :: ata_cable
  uiDevice :: ata_device
  bConfigured :: bool
  bMMIO :: bool
  uiCurrentSpeed :: nat
  uiSupportedPortSpeed :: u32
  uiSupportedDriveSpeed :: u32
  bPIO32Bit :: bool
  bLBA48Bit :: bool
  szDeviceName :: "u8 list"
  uiDMARegs :: "u32 list"
  uiRegs :: "u32 list"
  ap_id :: ata_identify
  pPRDTable :: "ata_prd list"
  PRDTable_address :: u32
  pDMATransferAddr :: u32

record 'd ata_hw =
  hw_in8 :: "bool \<Rightarrow> u32 \<Rightarrow> 'd \<Rightarrow> u8 \<times> 'd"
  hw_in16 :: "bool \<Rightarrow> u32 \<Rightarrow> 'd \<Rightarrow> u16 \<times> 'd"
  hw_in32 :: "bool \<Rightarrow> u32 \<Rightarrow> 'd \<Rightarrow> u32 \<times> 'd"
  hw_out8 :: "bool \<Rightarrow> u32 \<Rightarrow> u8 \<Rightarrow> 'd \<Rightarrow> 'd"
  hw_out16 :: "bool \<Rightarrow> u32 \<Rightarrow> u16 \<Rightarrow> 'd \<Rightarrow> 'd"
  hw_out32 :: "bool \<Rightarrow> u32 \<Rightarrow> u32 \<Rightarrow> 'd \<Rightarrow> 'd"
  hw_wait_irq :: "'d \<Rightarrow> 'd option"
  hw_dma_fetch :: "nat \<Rightarrow> 'd \<Rightarrow> u8 list"
  hw_dma_store :: "u8 list \<Rightarrow> 'd \<Rightarrow> 'd"

record 'd ata =
  a_port :: ata_port
  a_hw :: 'd

datatype ata_error = ReadFailed int | WriteFailed int | NoTiming nat | NoPIOMode

type_synonym ('d, 'a) ata_eff = "('d ata, ata_error, 'a) eff"

datatype ata_status = ATA_SUCCESS | ATA_ERR_SIZE_TOO_BIG | ATA_ERR_MAX_LEN | ATA_FAILURE | ATA_ERR_TIMEOUT

abbreviation (input) ATA_REG_DATA :: nat where "ATA_REG_DATA \<equiv> 0"
abbreviation (input) ATA_REG_ERROR :: nat where "ATA_REG_ERROR \<equiv> 1"
abbreviation (input) ATA_REG_FEATURE :: nat where "ATA_REG_FEATURE \<equiv> 1"
abbreviation (input) ATA_REG_COUNT :: nat where "ATA_REG_COUNT \<equiv> 2"
abbreviation (input) ATA_REG_LBA_LOW :: nat where "ATA_REG_LBA_LOW \<equiv> 3"
abbreviation (input) ATA_REG_LBA_MID :: nat where "ATA_REG_LBA_MID \<equiv> 4"
abbreviation (input) ATA_REG_LBA_HIGH :: nat where "ATA_REG_LBA_HIGH \<equiv> 5"
abbreviation (input) ATA_REG_DEVICE :: nat where "ATA_REG_DEVICE \<equiv> 6"
abbreviation (input) ATA_REG_STATUS :: nat where "ATA_REG_STATUS \<equiv> 7"
abbreviation (input) ATA_REG_COMMAND :: nat where "ATA_REG_COMMAND \<equiv> 7"
abbreviation (input) ATA_REG_CONTROL :: nat where "ATA_REG_CONTROL \<equiv> 8"
abbreviation (input) ATAPI_REG_IRR :: nat where "ATAPI_REG_IRR \<equiv> 2"
abbreviation (input) ATAPI_REG_SAMTAG :: nat where "ATAPI_REG_SAMTAG \<equiv> 3"
abbreviation (input) ATAPI_REG_COUNT_LOW :: nat where "ATAPI_REG_COUNT_LOW \<equiv> 4"
abbreviation (input) ATAPI_REG_COUNT_HIGH :: nat where "ATAPI_REG_COUNT_HIGH \<equiv> 5"
abbreviation (input) ATA_REG_DMA_CONTROL :: nat where "ATA_REG_DMA_CONTROL \<equiv> 0"
abbreviation (input) ATA_REG_DMA_STATUS :: nat where "ATA_REG_DMA_STATUS \<equiv> 1"
abbreviation (input) ATA_REG_DMA_TABLE :: nat where "ATA_REG_DMA_TABLE \<equiv> 2"

abbreviation (input) ATA_STATUS_ERROR :: u8 where "ATA_STATUS_ERROR \<equiv> 0x01"
abbreviation (input) ATA_STATUS_DRQ :: u8 where "ATA_STATUS_DRQ \<equiv> 0x08"
abbreviation (input) ATA_STATUS_DRDY :: u8 where "ATA_STATUS_DRDY \<equiv> 0x40"
abbreviation (input) ATA_STATUS_BUSY :: u8 where "ATA_STATUS_BUSY \<equiv> 0x80"
abbreviation (input) ATA_CONTROL_INTDISABLE :: u8 where "ATA_CONTROL_INTDISABLE \<equiv> 0x02"
abbreviation (input) ATA_CONTROL_RESET :: u8 where "ATA_CONTROL_RESET \<equiv> 0x04"
abbreviation (input) ATA_CONTROL_DEFAULT :: u8 where "ATA_CONTROL_DEFAULT \<equiv> 0x08"
abbreviation (input) ATA_DEVICE_SLAVE :: u8 where "ATA_DEVICE_SLAVE \<equiv> 0x10"
abbreviation (input) ATA_DEVICE_LBA :: u8 where "ATA_DEVICE_LBA \<equiv> 0x40"
abbreviation (input) ATA_DEVICE_DEFAULT :: u8 where "ATA_DEVICE_DEFAULT \<equiv> 0xA0"
abbreviation (input) ATA_CMD_READ_PIO :: u8 where "ATA_CMD_READ_PIO \<equiv> 0x20"
abbreviation (input) ATA_CMD_READ_PIO_48 :: u8 where "ATA_CMD_READ_PIO_48 \<equiv> 0x24"
abbreviation (input) ATA_CMD_READ_DMA_48 :: u8 where "ATA_CMD_READ_DMA_48 \<equiv> 0x25"
abbreviation (input) ATA_CMD_WRITE_PIO :: u8 where "ATA_CMD_WRITE_PIO \<equiv> 0x30"
abbreviation (input) ATA_CMD_WRITE_PIO_48 :: u8 where "ATA_CMD_WRITE_PIO_48 \<equiv> 0x34"
abbreviation (input) ATA_CMD_WRITE_DMA_48 :: u8 where "ATA_CMD_WRITE_DMA_48 \<equiv> 0x35"
abbreviation (input) ATA_CMD_READ_DMA :: u8 where "ATA_CMD_READ_DMA \<equiv> 0xC8"
abbreviation (input) ATA_CMD_WRITE_DMA :: u8 where "ATA_CMD_WRITE_DMA \<equiv> 0xCA"
abbreviation (input) ATA_CMD_SET_FEATURES :: u8 where "ATA_CMD_SET_FEATURES \<equiv> 0xEF"
abbreviation (input) ATA_CMD_IDENTIFY :: u8 where "ATA_CMD_IDENTIFY \<equiv> 0xEC"
abbreviation (input) ATAPI_CMD_IDENTIFY :: u8 where "ATAPI_CMD_IDENTIFY \<equiv> 0xA1"
abbreviation (input) ATAPI_CMD_RESET :: u8 where "ATAPI_CMD_RESET \<equiv> 0x08"
abbreviation (input) ATAPI_CMD_PACKET :: u8 where "ATAPI_CMD_PACKET \<equiv> 0xA0"
abbreviation (input) ATA_DMA_STATUS_ERROR :: u8 where "ATA_DMA_STATUS_ERROR \<equiv> 0x02"
abbreviation (input) ATA_DMA_STATUS_IRQ :: u8 where "ATA_DMA_STATUS_IRQ \<equiv> 0x04"
abbreviation (input) ATA_DMA_CONTROL_READ :: u8 where "ATA_DMA_CONTROL_READ \<equiv> 0x08"
abbreviation (input) ATA_DMA_CONTROL_WRITE :: u8 where "ATA_DMA_CONTROL_WRITE \<equiv> 0x00"
abbreviation (input) ATA_DMA_CONTROL_START :: u8 where "ATA_DMA_CONTROL_START \<equiv> 0x01"

abbreviation (input) ATA_SPEED_PIO :: nat where "ATA_SPEED_PIO \<equiv> 0"
abbreviation (input) ATA_SPEED_PIO_3 :: nat where "ATA_SPEED_PIO_3 \<equiv> 1"
abbreviation (input) ATA_SPEED_PIO_5 :: nat where "ATA_SPEED_PIO_5 \<equiv> 3"
abbreviation (input) ATA_SPEED_DMA :: nat where "ATA_SPEED_DMA \<equiv> 4"
abbreviation (input) ATA_SPEED_MWDMA_0 :: nat where "ATA_SPEED_MWDMA_0 \<equiv> 5"
abbreviation (input) ATA_SPEED_MWDMA_2 :: nat where "ATA_SPEED_MWDMA_2 \<equiv> 7"
abbreviation (input) ATA_SPEED_UDMA_0 :: nat where "ATA_SPEED_UDMA_0 \<equiv> 8"
abbreviation (input) ATA_SPEED_HIGHEST :: nat where "ATA_SPEED_HIGHEST \<equiv> 15"

text \<open>Registers. A port number is passed to the port instructions as 16 bits.\<close>

definition hw_step :: "('d \<Rightarrow> 'a \<times> 'd) \<Rightarrow> ('d, 'a) ata_eff" where
  "hw_step f s = Some (Inr (fst (f (a_hw s))), s\<lparr>a_hw := snd (f (a_hw s))\<rparr>)"

definition reg_address :: "ata_port \<Rightarrow> u32 \<Rightarrow> u32" where
  "reg_address p a = (if bMMIO p then a else ucast (ucast a :: u16))"

definition ATA_READ_REG :: "'d ata_hw \<Rightarrow> nat \<Rightarrow> ('d, u8) ata_eff" where
  "ATA_READ_REG A reg = and_then (gets a_port) (\<lambda>p. hw_step (hw_in8 A (bMMIO p) (reg_address p (uiRegs p ! reg))))"

definition ATA_READ_REG16 :: "'d ata_hw \<Rightarrow> nat \<Rightarrow> ('d, u16) ata_eff" where
  "ATA_READ_REG16 A reg = and_then (gets a_port) (\<lambda>p. hw_step (hw_in16 A (bMMIO p) (reg_address p (uiRegs p ! reg))))"

definition ATA_READ_REG32 :: "'d ata_hw \<Rightarrow> nat \<Rightarrow> ('d, u32) ata_eff" where
  "ATA_READ_REG32 A reg = and_then (gets a_port) (\<lambda>p. hw_step (hw_in32 A (bMMIO p) (reg_address p (uiRegs p ! reg))))"

definition ATA_READ_DMA_REG :: "'d ata_hw \<Rightarrow> nat \<Rightarrow> ('d, u8) ata_eff" where
  "ATA_READ_DMA_REG A reg = and_then (gets a_port) (\<lambda>p. hw_step (hw_in8 A (bMMIO p) (reg_address p (uiDMARegs p ! reg))))"

definition ATA_WRITE_REG :: "'d ata_hw \<Rightarrow> nat \<Rightarrow> u8 \<Rightarrow> ('d, unit) ata_eff" where
  "ATA_WRITE_REG A reg v = and_then (gets a_port) (\<lambda>p. hw_step (\<lambda>d. ((), hw_out8 A (bMMIO p) (reg_address p (uiRegs p ! reg)) v d)))"

definition ATA_WRITE_REG16 :: "'d ata_hw \<Rightarrow> nat \<Rightarrow> u16 \<Rightarrow> ('d, unit) ata_eff" where
  "ATA_WRITE_REG16 A reg v = and_then (gets a_port) (\<lambda>p. hw_step (\<lambda>d. ((), hw_out16 A (bMMIO p) (reg_address p (uiRegs p ! reg)) v d)))"

definition ATA_WRITE_REG32 :: "'d ata_hw \<Rightarrow> nat \<Rightarrow> u32 \<Rightarrow> ('d, unit) ata_eff" where
  "ATA_WRITE_REG32 A reg v = and_then (gets a_port) (\<lambda>p. hw_step (\<lambda>d. ((), hw_out32 A (bMMIO p) (reg_address p (uiRegs p ! reg)) v d)))"

definition ATA_WRITE_DMA_REG :: "'d ata_hw \<Rightarrow> nat \<Rightarrow> u8 \<Rightarrow> ('d, unit) ata_eff" where
  "ATA_WRITE_DMA_REG A reg v = and_then (gets a_port) (\<lambda>p. hw_step (\<lambda>d. ((), hw_out8 A (bMMIO p) (reg_address p (uiDMARegs p ! reg)) v d)))"

definition ATA_WRITE_DMA_REG32 :: "'d ata_hw \<Rightarrow> nat \<Rightarrow> u32 \<Rightarrow> ('d, unit) ata_eff" where
  "ATA_WRITE_DMA_REG32 A reg v = and_then (gets a_port) (\<lambda>p. hw_step (\<lambda>d. ((), hw_out32 A (bMMIO p) (reg_address p (uiDMARegs p ! reg)) v d)))"

definition change_port :: "(ata_port \<Rightarrow> ata_port) \<Rightarrow> ('d, unit) ata_eff" where
  "change_port f = modify (\<lambda>s. s\<lparr>a_port := f (a_port s)\<rparr>)"

text \<open>\<open>wait_interrupt\<close> returns only when the interrupt comes.\<close>

definition wait_interrupt :: "'d ata_hw \<Rightarrow> ('d, unit) ata_eff" where
  "wait_interrupt A s = (case hw_wait_irq A (a_hw s) of None \<Rightarrow> None | Some d \<Rightarrow> Some (Inr (), s\<lparr>a_hw := d\<rparr>))"

section \<open>Port operations\<close>

text \<open>The table of the regions for a DMA transfer: \<open>k\<close> rounds of the loop over its 256 entries are left.\<close>

fun PRD_loop :: "nat \<Rightarrow> nat \<Rightarrow> int \<Rightarrow> u32 \<Rightarrow> ata_prd list \<Rightarrow> nat \<times> ata_prd list" where
  "PRD_loop 0 i iRemainingBytes uiTransferAddress t = (i, t)"
| "PRD_loop (Suc k) i iRemainingBytes uiTransferAddress t =
     (if iRemainingBytes > 0 then
        if iRemainingBytes < 65536
        then (i, t[i := \<lparr>prd_address = uiTransferAddress, prd_length = of_int iRemainingBytes, prd_terminate = 0x8000\<rparr>])
        else PRD_loop k (Suc i) (iRemainingBytes - 65536) (uiTransferAddress + 65536)
          (t[i := \<lparr>prd_address = uiTransferAddress, prd_length = 0, prd_terminate = 0\<rparr>])
      else (i, t))"

definition ATAPortOperation_PreparePortDMATable :: "u32 \<Rightarrow> ata_port \<Rightarrow> u32 \<Rightarrow> ata_status \<times> ata_port" where
  "ATAPortOperation_PreparePortDMATable SEG p uiLength0 =
     (let uiLength = (if uiLength0 mod 2 \<noteq> 0 then uiLength0 + 1 else uiLength0)
      in if uiLength > 0xFFFFF * 255 then (ATA_ERR_SIZE_TOO_BIG, p)
         else case PRD_loop 256 0 (sint uiLength) (pDMATransferAddr p + SEG) (pPRDTable p) of
           (uiPRDIndex, t) \<Rightarrow> (if uiPRDIndex = 256 then ATA_FAILURE else ATA_SUCCESS, p\<lparr>pPRDTable := t\<rparr>))"

definition drive_select :: "ata_port \<Rightarrow> u8" where
  "drive_select p = (if uiPort p = 0 then ATA_DEVICE_DEFAULT else ATA_DEVICE_DEFAULT OR ATA_DEVICE_SLAVE)"

definition ATAPortOperation_PortSelect :: "'d ata_hw \<Rightarrow> u8 \<Rightarrow> ('d, unit) ata_eff" where
  "ATAPortOperation_PortSelect A bAddress = and_then (gets a_port) (\<lambda>p.
     then_do (ATA_WRITE_REG A ATA_REG_DEVICE (drive_select p OR bAddress))
     (and_then (ATA_READ_REG A ATA_REG_CONTROL) (\<lambda>_. yield ())))"

definition PortPrepareDMA :: "'d ata_hw \<Rightarrow> u32 \<Rightarrow> u8 \<Rightarrow> u32 \<Rightarrow> ('d, ata_status) ata_eff" where
  "PortPrepareDMA A SEG bDirection uiLength =
     (if uiLength > 0x80000 then yield ATA_ERR_MAX_LEN else
      and_then (gets a_port) (\<lambda>p. case ATAPortOperation_PreparePortDMATable SEG p uiLength of (st, p') \<Rightarrow>
        then_do (change_port (\<lambda>_. p'))
          (if st \<noteq> ATA_SUCCESS then yield st else
           then_do (ATA_WRITE_DMA_REG32 A ATA_REG_DMA_TABLE (PRDTable_address p' - SEG))
           (then_do (ATA_WRITE_DMA_REG A ATA_REG_DMA_CONTROL bDirection)
           (and_then (ATA_READ_DMA_REG A ATA_REG_DMA_STATUS) (\<lambda>bStatus.
            then_do (ATA_WRITE_DMA_REG A ATA_REG_DMA_STATUS (bStatus OR ATA_DMA_STATUS_IRQ OR ATA_DMA_STATUS_ERROR))
              (yield ATA_SUCCESS)))))))"

definition ATAPortOperation_PortPrepareDMARead :: "'d ata_hw \<Rightarrow> u32 \<Rightarrow> u32 \<Rightarrow> ('d, ata_status) ata_eff" where
  "ATAPortOperation_PortPrepareDMARead A SEG uiLength = PortPrepareDMA A SEG ATA_DMA_CONTROL_READ uiLength"

definition ATAPortOperation_PortPrepareDMAWrite :: "'d ata_hw \<Rightarrow> u32 \<Rightarrow> u32 \<Rightarrow> ('d, ata_status) ata_eff" where
  "ATAPortOperation_PortPrepareDMAWrite A SEG uiLength = PortPrepareDMA A SEG ATA_DMA_CONTROL_WRITE uiLength"

definition ATAPortOperation_StartDMA :: "'d ata_hw \<Rightarrow> ('d, ata_status) ata_eff" where
  "ATAPortOperation_StartDMA A =
     and_then (ATA_READ_DMA_REG A ATA_REG_DMA_CONTROL) (\<lambda>bControl.
     then_do (ATA_WRITE_DMA_REG A ATA_REG_DMA_CONTROL (bControl OR ATA_DMA_CONTROL_START))
     (then_do (wait_interrupt A)
     (and_then (ATA_READ_DMA_REG A ATA_REG_DMA_CONTROL) (\<lambda>bControl.
      then_do (ATA_WRITE_DMA_REG A ATA_REG_DMA_CONTROL (bControl AND NOT ATA_DMA_CONTROL_START))
      (and_then (ATA_READ_DMA_REG A ATA_REG_DMA_STATUS) (\<lambda>bStatus.
       then_do (ATA_WRITE_DMA_REG A ATA_REG_DMA_STATUS (bStatus OR ATA_DMA_STATUS_IRQ OR ATA_DMA_STATUS_ERROR))
       (and_then (ATA_READ_REG A ATA_REG_CONTROL) (\<lambda>_.
        yield (if bStatus AND (ATA_DMA_STATUS_ERROR OR ATA_DMA_STATUS_IRQ) = ATA_DMA_STATUS_IRQ then ATA_SUCCESS else ATA_FAILURE)))))))))"

text \<open>Waiting for the drive: \<open>n\<close> reads of the status are left.\<close>

fun IOWait_loop :: "'d ata_hw \<Rightarrow> nat \<Rightarrow> nat \<Rightarrow> u8 \<Rightarrow> u8 \<Rightarrow> ('d, ata_status) ata_eff" where
  "IOWait_loop A reg 0 uiMask uiValue = yield ATA_ERR_TIMEOUT"
| "IOWait_loop A reg (Suc n) uiMask uiValue = and_then (ATA_READ_REG A reg) (\<lambda>bStatus.
     if bStatus AND uiMask = uiValue then yield ATA_SUCCESS else IOWait_loop A reg n uiMask uiValue)"

definition ATAPortManager_IOWait :: "'d ata_hw \<Rightarrow> u8 \<Rightarrow> u8 \<Rightarrow> ('d, ata_status) ata_eff" where
  "ATAPortManager_IOWait A = IOWait_loop A ATA_REG_STATUS 20"

definition ATAPortManager_IOWaitAlt :: "'d ata_hw \<Rightarrow> u8 \<Rightarrow> u8 \<Rightarrow> ('d, ata_status) ata_eff" where
  "ATAPortManager_IOWaitAlt A = IOWait_loop A ATA_REG_CONTROL 200"

definition ATAPortOperation_PortReset :: "'d ata_hw \<Rightarrow> ('d, ata_status) ata_eff" where
  "ATAPortOperation_PortReset A = and_then (gets a_port) (\<lambda>p.
     then_do (ATA_WRITE_REG A ATA_REG_CONTROL ATA_CONTROL_DEFAULT)
     (then_do (ATA_WRITE_REG A ATA_REG_DEVICE (drive_select p))
     (then_do (steps (\<lambda>(r, v). ATA_WRITE_REG A r v)
        [(ATA_REG_COUNT, 0x55), (ATA_REG_LBA_LOW, 0xAA), (ATA_REG_COUNT, 0x55), (ATA_REG_LBA_LOW, 0xAA), (ATA_REG_COUNT, 0x55),
         (ATA_REG_LBA_LOW, 0xAA)])
     (and_then (ATA_READ_REG A ATA_REG_COUNT) (\<lambda>uiCount.
      and_then (ATA_READ_REG A ATA_REG_LBA_LOW) (\<lambda>uiLBALow.
      if \<not> (uiCount = 0x55 \<and> uiLBALow = 0xAA) then yield ATA_FAILURE else
      then_do (ATA_WRITE_REG A ATA_REG_DEVICE (drive_select p))
      (then_do (ATA_WRITE_REG A ATA_REG_CONTROL (ATA_CONTROL_DEFAULT OR ATA_CONTROL_RESET))
      (then_do (ATA_WRITE_REG A ATA_REG_CONTROL ATA_CONTROL_DEFAULT)
      (and_then (ATAPortManager_IOWait A ATA_STATUS_BUSY 0) (\<lambda>st.
       if st \<noteq> ATA_SUCCESS then yield ATA_FAILURE else
       then_do (ATA_WRITE_REG A ATA_REG_DEVICE (drive_select p))
       (and_then (ATA_READ_REG A ATA_REG_COUNT) (\<lambda>uiCount.
        and_then (ATA_READ_REG A ATA_REG_LBA_LOW) (\<lambda>uiLBALow.
        yield (if uiCount = 0x01 \<and> uiLBALow = 0x01 then ATA_SUCCESS else ATA_FAILURE))))))))))))))"

section \<open>Programmed transfers\<close>

fun collect :: "nat \<Rightarrow> ('s, 'e, 'a) eff \<Rightarrow> ('s, 'e, 'a list) eff" where
  "collect 0 m = yield []"
| "collect (Suc n) m = and_then m (\<lambda>x. and_then (collect n m) (\<lambda>xs. yield (x # xs)))"

text \<open>The 512 bytes that the data register gives, and the writing of as many bytes to it.\<close>

definition read_block :: "'d ata_hw \<Rightarrow> ('d, u8 list) ata_eff" where
  "read_block A = and_then (gets a_port) (\<lambda>p.
     if bPIO32Bit p then and_then (collect 128 (ATA_READ_REG32 A ATA_REG_DATA)) (\<lambda>ws. yield (bytes_of ws))
     else and_then (collect 256 (ATA_READ_REG16 A ATA_REG_DATA)) (\<lambda>ws. yield (concat (map le16 ws))))"

definition write_block :: "'d ata_hw \<Rightarrow> u8 list \<Rightarrow> ('d, unit) ata_eff" where
  "write_block A bs = and_then (gets a_port) (\<lambda>p.
     if bPIO32Bit p then steps (ATA_WRITE_REG32 A ATA_REG_DATA) (words_of bs)
     else steps (\<lambda>i. ATA_WRITE_REG16 A ATA_REG_DATA (from_le16 (drop (2 * i) bs))) [0..<256])"

text \<open>\<open>IORead_loop A len \<open>to\<close> done buf\<close>: after a block the count of the rounds starts again. The blocks of \<open>IOWrite_loop\<close> are all the first
  512 bytes of the buffer.\<close>

function IORead_loop :: "'d ata_hw \<Rightarrow> nat \<Rightarrow> nat \<Rightarrow> nat \<Rightarrow> u8 list \<Rightarrow> ('d, ata_status \<times> u8 list) ata_eff" where
  "IORead_loop A uiLength to uiTransfered buf =
     (if to \<ge> 10 then yield (ATA_ERR_TIMEOUT, buf) else
      and_then (ATA_READ_REG A ATA_REG_CONTROL) (\<lambda>bStatus.
        if bStatus AND ATA_STATUS_DRQ = 0 \<and> bStatus AND ATA_STATUS_ERROR = 0 then IORead_loop A uiLength (to + 1) uiTransfered buf
        else if bStatus AND ATA_STATUS_ERROR \<noteq> 0 then and_then (ATA_READ_REG A ATA_REG_ERROR) (\<lambda>_. yield (ATA_ERR_TIMEOUT, buf))
        else if uiTransfered + 512 > length buf then undef
        else and_then (read_block A) (\<lambda>bs.
          let buf = take uiTransfered buf @ bs @ drop (uiTransfered + 512) buf in
          if uiTransfered + 512 \<ge> uiLength then yield (ATA_SUCCESS, buf)
          else and_then (ATA_READ_REG A ATA_REG_STATUS) (\<lambda>_. IORead_loop A uiLength 1 (uiTransfered + 512) buf))))"
  by pat_completeness auto
termination by (relation "measures [\<lambda>(_, len, _, tr, _). len - tr, \<lambda>(_, _, to, _, _). 10 - to]") auto

declare IORead_loop.simps [simp del]

definition ATAPortManager_IORead :: "'d ata_hw \<Rightarrow> u8 list \<Rightarrow> nat \<Rightarrow> ('d, ata_status \<times> u8 list) ata_eff" where
  "ATAPortManager_IORead A pBuffer uiLength = IORead_loop A uiLength 0 0 pBuffer"

function IOWrite_loop :: "'d ata_hw \<Rightarrow> nat \<Rightarrow> nat \<Rightarrow> nat \<Rightarrow> u8 list \<Rightarrow> ('d, ata_status) ata_eff" where
  "IOWrite_loop A uiLength to uiTransfered buf =
     (if to \<ge> 10 then yield ATA_ERR_TIMEOUT else
      and_then (ATA_READ_REG A ATA_REG_CONTROL) (\<lambda>bStatus.
        if bStatus AND ATA_STATUS_DRQ = 0 \<and> bStatus AND ATA_STATUS_ERROR = 0 then IOWrite_loop A uiLength (to + 1) uiTransfered buf
        else if bStatus AND ATA_STATUS_ERROR \<noteq> 0 then and_then (ATA_READ_REG A ATA_REG_ERROR) (\<lambda>_. yield ATA_ERR_TIMEOUT)
        else if 512 > length buf then undef
        else then_do (write_block A (take 512 buf))
          (if uiTransfered + 512 \<ge> uiLength then yield ATA_SUCCESS
           else and_then (ATA_READ_REG A ATA_REG_STATUS) (\<lambda>_. IOWrite_loop A uiLength 1 (uiTransfered + 512) buf))))"
  by pat_completeness auto
termination by (relation "measures [\<lambda>(_, len, _, tr, _). len - tr, \<lambda>(_, _, to, _, _). 10 - to]") auto

declare IOWrite_loop.simps [simp del]

definition ATAPortManager_IOWrite :: "'d ata_hw \<Rightarrow> u8 list \<Rightarrow> nat \<Rightarrow> ('d, ata_status) ata_eff" where
  "ATAPortManager_IOWrite A pBuffer uiLength = IOWrite_loop A uiLength 0 0 pBuffer"

section \<open>Finding and configuring drives\<close>

fun ATAPortManager_SwapBytes :: "u8 list \<Rightarrow> u8 list" where
  "ATAPortManager_SwapBytes (a # b # bs) = b # a # ATAPortManager_SwapBytes bs"
| "ATAPortManager_SwapBytes bs = bs"

text \<open>The name without its trailing blanks and with a zero; it is copied to an array of 32 bytes.\<close>

definition ATAPortManager_ReadModelID :: "u8 list \<Rightarrow> u8 list option" where
  "ATAPortManager_ReadModelID szSrc =
     (let name = rev (dropWhile (\<lambda>c. c = 0x20) (rev (ATAPortManager_SwapBytes szSrc)))
      in if length name + 1 > 32 then None else Some (name @ [0]))"

definition ATAPortManager_ResetATAPI :: "'d ata_hw \<Rightarrow> ('d, ata_status) ata_eff" where
  "ATAPortManager_ResetATAPI A =
     then_do (steps (\<lambda>(r, v). ATA_WRITE_REG A r v)
       [(ATA_REG_FEATURE, 0), (ATAPI_REG_IRR, 0), (ATAPI_REG_SAMTAG, 0), (ATAPI_REG_COUNT_LOW, 0), (ATAPI_REG_COUNT_HIGH, 0),
        (ATA_REG_COMMAND, ATAPI_CMD_RESET)])
       (ATAPortManager_IOWait A ATA_STATUS_BUSY 0)"

text \<open>The speeds of the drive: two of the four terms are comparisons, which give 0 or 1.\<close>

definition supported_speed :: "ata_identify \<Rightarrow> u32" where
  "supported_speed i =
     (let s0 = 1;
          s1 = (if usValid i AND 0x02 \<noteq> 0 then
                  s0 OR (if usEIDEPIOModes i AND 0x07 < 1 then 1 else 0) OR (if usMultiWordDMAInfo i AND 0x07 < 5 then 1 else 0)
                     OR (if usMultiWordDMAInfo i AND 0x07 \<noteq> 0 then push_bit ATA_SPEED_DMA 1 else 0)
                else s0)
      in if usValid i AND 0x04 \<noteq> 0 then s1 OR push_bit ATA_SPEED_DMA 1 OR push_bit ATA_SPEED_UDMA_0 (ucast (usUltraDMAModes i AND 0xFF))
         else s1)"

definition probed_device :: "u8 \<Rightarrow> u8 \<Rightarrow> u8 \<Rightarrow> ata_device" where
  "probed_device bLBAMid bLBAHigh bStatus =
     (if (bLBAMid = 0x00 \<and> bLBAHigh = 0x00 \<or> bLBAMid = 0xC3 \<and> bLBAHigh = 0xC3) \<and> bStatus \<noteq> 0 then ATA_DEV_ATA
      else if bLBAMid = 0x14 \<and> bLBAHigh = 0xEB \<or> bLBAMid = 0x69 \<and> bLBAHigh = 0x96 then ATA_DEV_ATAPI
      else ATA_DEV_NONE)"

definition IdentifyDrive :: "'d ata_hw \<Rightarrow> u8 list \<Rightarrow> ('d, unit) ata_eff" where
  "IdentifyDrive A junk = and_then (gets a_port) (\<lambda>p.
     then_do (ATAPortOperation_PortSelect A 0)
     (and_then (ATAPortManager_IOWait A ATA_STATUS_BUSY 0) (\<lambda>st.
      if st \<noteq> ATA_SUCCESS then change_port (\<lambda>p. p\<lparr>uiDevice := ATA_DEV_UNKNOWN\<rparr>) else
      then_do (ATA_WRITE_REG A ATA_REG_COMMAND (if uiDevice p = ATA_DEV_ATAPI then ATAPI_CMD_IDENTIFY else ATA_CMD_IDENTIFY))
      (then_do (wait_interrupt A)
      (and_then (ATAPortManager_IORead A junk 512) (\<lambda>(st, ID).
       if st \<noteq> ATA_SUCCESS then change_port (\<lambda>p. p\<lparr>uiDevice := ATA_DEV_UNKNOWN\<rparr>) else
       let i = ATAIdentifyInfo ID in
       case ATAPortManager_ReadModelID (szModelID i) of None \<Rightarrow> undef | Some name \<Rightarrow>
       then_do (change_port (\<lambda>p. p\<lparr>szDeviceName := name @ drop (length name) (szDeviceName p)\<rparr>))
         (if uiDevice p = ATA_DEV_ATA \<and> bCapabilities i AND 0x02 = 0 then change_port (\<lambda>p. p\<lparr>uiDevice := ATA_DEV_UNKNOWN\<rparr>)
          else change_port (\<lambda>p. p\<lparr>uiSupportedDriveSpeed := supported_speed i, bLBA48Bit := bLBA48Bit p \<or> usCommandSet2 i AND 0x400 \<noteq> 0,
            bPIO32Bit := True,
            ap_id := i\<lparr>szModelID := ATAPortManager_SwapBytes (szModelID i)\<rparr>\<rparr>))))))))"

definition ATAPortManager_Probe :: "'d ata_hw \<Rightarrow> u8 list \<Rightarrow> ('d, unit) ata_eff" where
  "ATAPortManager_Probe A junk = and_then (gets a_port) (\<lambda>p. if bConfigured p then yield () else
     and_then (ATAPortOperation_PortReset A) (\<lambda>st.
       if st \<noteq> ATA_SUCCESS then change_port (\<lambda>p. p\<lparr>uiDevice := ATA_DEV_NONE, uiCable := ATA_CABLE_NONE\<rparr>) else
       and_then (ATA_READ_REG A ATA_REG_LBA_HIGH) (\<lambda>bLBAHigh.
       and_then (ATA_READ_REG A ATA_REG_LBA_MID) (\<lambda>bLBAMid.
       and_then (ATA_READ_REG A ATA_REG_STATUS) (\<lambda>bStatus.
       case probed_device bLBAMid bLBAHigh bStatus of
         ATA_DEV_NONE \<Rightarrow> change_port (\<lambda>p. p\<lparr>uiDevice := ATA_DEV_NONE, uiCable := ATA_CABLE_NONE\<rparr>)
       | dev \<Rightarrow> then_do (change_port (\<lambda>p. p\<lparr>uiDevice := dev, bConfigured := True\<rparr>)) (IdentifyDrive A junk))))))"

text \<open>The highest speed that drive and port share, from \<open>i\<close> downwards. Below 0 the code shifts by more than 31 bits.\<close>

definition shared_speed :: "ata_port \<Rightarrow> nat \<Rightarrow> bool" where
  "shared_speed p i \<longleftrightarrow> uiSupportedPortSpeed p AND push_bit i 1 \<noteq> 0 \<and> uiSupportedDriveSpeed p AND push_bit i 1 \<noteq> 0"

fun best_speed :: "ata_port \<Rightarrow> nat \<Rightarrow> nat option" where
  "best_speed p i = (if shared_speed p i then Some i else case i of 0 \<Rightarrow> None | Suc j \<Rightarrow> best_speed p j)"

declare best_speed.simps [simp del]

definition ATAPortManager_ConfigureDrive :: "'d ata_hw \<Rightarrow> ('d, ata_status) ata_eff" where
  "ATAPortManager_ConfigureDrive A =
     then_do (change_port (\<lambda>p. p\<lparr>uiCurrentSpeed := ATA_SPEED_PIO\<rparr>))
     (and_then (gets a_port) (\<lambda>p. if uiDevice p \<noteq> ATA_DEV_ATAPI \<and> uiDevice p \<noteq> ATA_DEV_ATA then yield ATA_SUCCESS else
      then_do (ATAPortOperation_PortSelect A 0)
      (and_then (ATAPortManager_IOWait A ATA_STATUS_BUSY 0) (\<lambda>st. if st \<noteq> ATA_SUCCESS then yield st else
       and_then (if uiDevice p = ATA_DEV_ATAPI then ATAPortManager_ResetATAPI A else yield ATA_SUCCESS) (\<lambda>st. if st \<noteq> ATA_SUCCESS then yield st else
       case best_speed p ATA_SPEED_HIGHEST of
         None \<Rightarrow> undef
       | Some i \<Rightarrow>
           if i = ATA_SPEED_PIO then yield ATA_SUCCESS
           else if i = ATA_SPEED_DMA then then_do (change_port (\<lambda>p. p\<lparr>uiCurrentSpeed := ATA_SPEED_DMA\<rparr>)) (yield ATA_SUCCESS)
           else
             let uiSpeed = (if i \<ge> ATA_SPEED_UDMA_0 then 0x40 + (i - ATA_SPEED_UDMA_0)
                            else if i \<ge> ATA_SPEED_MWDMA_0 then 0x20 + (i - ATA_SPEED_MWDMA_0)
                            else 0x0B + (i - 1))
             in then_do (steps (\<lambda>(r, v). ATA_WRITE_REG A r v)
                  [(ATA_REG_COUNT, of_nat uiSpeed), (ATA_REG_LBA_LOW, 0), (ATA_REG_LBA_MID, 0), (ATA_REG_LBA_HIGH, 0), (ATA_REG_FEATURE, 0x03),
                   (ATA_REG_CONTROL, ATA_CONTROL_DEFAULT OR ATA_CONTROL_INTDISABLE), (ATA_REG_COMMAND, ATA_CMD_SET_FEATURES)])
                (and_then (ATAPortManager_IOWait A ATA_STATUS_BUSY 0) (\<lambda>st. if st \<noteq> ATA_SUCCESS then yield st else
                  then_do (change_port (\<lambda>p. p\<lparr>uiCurrentSpeed := i\<rparr>)) (yield ATA_SUCCESS))))))))"

section \<open>Commands\<close>

record ata_command =
  ac_command :: "u8 list"
  iStatus :: int
  iError :: int
  ac_senseKey :: u8
  bCanDMA :: bool
  pTransferBuffer :: "u8 list"
  uiTransferLength :: u32

abbreviation (input) ATACommandManager_ERR_IO :: int where "ATACommandManager_ERR_IO \<equiv> 1"

definition ATACommandManager_InitCommand :: ata_command where
  "ATACommandManager_InitCommand = \<lparr>ac_command = replicate 14 0, iStatus = 0, iError = 0, ac_senseKey = 0, bCanDMA = False,
     pTransferBuffer = [], uiTransferLength = 0\<rparr>"

text \<open>Up to three attempts.\<close>

fun attempts :: "nat \<Rightarrow> ('s, 'e, ata_status) eff \<Rightarrow> ('s, 'e, bool) eff" where
  "attempts 0 m = yield False"
| "attempts (Suc n) m = and_then m (\<lambda>st. if st = ATA_SUCCESS then yield True else attempts n m)"

fun read_attempts :: "nat \<Rightarrow> 'd ata_hw \<Rightarrow> u8 list \<Rightarrow> ('d, bool \<times> u8 list) ata_eff" where
  "read_attempts 0 A buf = yield (False, buf)"
| "read_attempts (Suc n) A buf = and_then (ATAPortManager_IORead A buf 512) (\<lambda>(st, buf).
     if st = ATA_SUCCESS then yield (True, buf) else read_attempts n A buf)"

text \<open>The blocks of a programmed transfer.\<close>

function PIO_loop :: "'d ata_hw \<Rightarrow> bool \<Rightarrow> nat \<Rightarrow> nat \<Rightarrow> u8 list \<Rightarrow> ('d, bool \<times> u8 list) ata_eff" where
  "PIO_loop A bWrite uiLength uiTransfered buf =
     (if uiTransfered < uiLength then
        and_then (if bWrite then and_then (attempts 3 (ATAPortManager_IOWrite A (drop uiTransfered buf) 512)) (\<lambda>ok. yield (ok, buf))
                  else and_then (read_attempts 3 A (drop uiTransfered buf)) (\<lambda>(ok, bs). yield (ok, take uiTransfered buf @ bs)))
          (\<lambda>(ok, buf). if ok then PIO_loop A bWrite uiLength (uiTransfered + 512) buf else yield (False, buf))
      else yield (True, buf))"
  by pat_completeness auto
termination by (relation "measure (\<lambda>(_, _, len, tr, _). len - tr)") auto

declare PIO_loop.simps [simp del]

definition transfer_command :: "bool \<Rightarrow> bool \<Rightarrow> bool \<Rightarrow> u8" where
  "transfer_command bDMA bWrite lba48 =
     (if bDMA then if bWrite then if lba48 then ATA_CMD_WRITE_DMA_48 else ATA_CMD_WRITE_DMA
                   else if lba48 then ATA_CMD_READ_DMA_48 else ATA_CMD_READ_DMA
      else if bWrite then if lba48 then ATA_CMD_WRITE_PIO_48 else ATA_CMD_WRITE_PIO
           else if lba48 then ATA_CMD_READ_PIO_48 else ATA_CMD_READ_PIO)"

definition failed_command :: "'d ata_hw \<Rightarrow> ata_command \<Rightarrow> ('d, ata_command) ata_eff" where
  "failed_command A c = and_then (ATA_READ_REG A ATA_REG_ERROR) (\<lambda>e. yield (c\<lparr>iError := uint e\<rparr>))"

definition write_registers :: "'d ata_hw \<Rightarrow> bool \<Rightarrow> ata_command \<Rightarrow> ('d, unit) ata_eff" where
  "write_registers A bDMA c = (let b = (\<lambda>i. ac_command c ! i) in
     then_do (ATAPortOperation_PortSelect A (b ATA_REG_DEVICE))
     (then_do (ATA_WRITE_REG A ATA_REG_CONTROL (if bDMA then b ATA_REG_CONTROL else b ATA_REG_CONTROL OR ATA_CONTROL_INTDISABLE))
     (and_then (gets a_port) (\<lambda>p.
       then_do (only_if (bLBA48Bit p) (steps (\<lambda>(r, v). ATA_WRITE_REG A r v)
         [(ATA_REG_FEATURE, b 9), (ATA_REG_COUNT, b 10), (ATA_REG_LBA_LOW, b 11), (ATA_REG_LBA_MID, b 12), (ATA_REG_LBA_HIGH, b 13)]))
       (steps (\<lambda>r. ATA_WRITE_REG A r (b r)) [ATA_REG_FEATURE, ATA_REG_COUNT, ATA_REG_LBA_LOW, ATA_REG_LBA_MID, ATA_REG_LBA_HIGH])))))"

text \<open>One round of the loop; \<open>again\<close> is the next one, after DMA has failed and was given up.\<close>

definition ATA_round :: "'d ata_hw \<Rightarrow> u32 \<Rightarrow> (ata_command \<Rightarrow> ('d, ata_command) ata_eff) \<Rightarrow> ata_command \<Rightarrow> ('d, ata_command) ata_eff" where
  "ATA_round A SEG again c0 = (let c = c0\<lparr>iStatus := - 1, iError := ATACommandManager_ERR_IO\<rparr>; bWrite = (ac_command c ! ATA_REG_COMMAND = ATA_CMD_WRITE_PIO) in
     and_then (gets a_port) (\<lambda>p. let bDMA = (uiCurrentSpeed p \<ge> ATA_SPEED_DMA) in
     and_then (ATAPortManager_IOWait A ATA_STATUS_BUSY 0) (\<lambda>st. if st \<noteq> ATA_SUCCESS then failed_command A c else
     then_do (write_registers A bDMA c)
     (and_then (ATAPortManager_IOWait A ATA_STATUS_BUSY 0) (\<lambda>st. if st \<noteq> ATA_SUCCESS then failed_command A c else
      let bCommand = transfer_command bDMA bWrite (bLBA48Bit p); len = unat (uiTransferLength c);
          give_up = then_do (change_port (\<lambda>p. p\<lparr>uiCurrentSpeed := ATA_SPEED_PIO\<rparr>)) in
      if bDMA then
        and_then (attempts 3 (if bWrite then ATAPortOperation_PortPrepareDMAWrite A SEG (uiTransferLength c)
            else ATAPortOperation_PortPrepareDMARead A SEG (uiTransferLength c))) (\<lambda>ok.
        if \<not> ok then give_up (again c) else
        then_do (ATA_WRITE_REG A ATA_REG_COMMAND bCommand)
        (and_then (ATA_READ_REG A ATA_REG_COMMAND) (\<lambda>_.
         then_do (only_if bWrite (if len > length (pTransferBuffer c) then undef
           else modify (\<lambda>s. s\<lparr>a_hw := hw_dma_store A (take len (pTransferBuffer c)) (a_hw s)\<rparr>)))
         (and_then (attempts 3 (ATAPortOperation_StartDMA A)) (\<lambda>ok.
          and_then (if bWrite then yield c else if len > length (pTransferBuffer c) then undef
            else gets (\<lambda>s. c\<lparr>pTransferBuffer := hw_dma_fetch A len (a_hw s) @ drop len (pTransferBuffer c)\<rparr>)) (\<lambda>c.
          if \<not> ok then give_up (again c) else yield (c\<lparr>iStatus := 0, iError := 0\<rparr>)))))))
        else
        then_do (ATA_WRITE_REG A ATA_REG_COMMAND bCommand)
        (and_then (ATA_READ_REG A ATA_REG_CONTROL) (\<lambda>_.
         and_then (PIO_loop A bWrite len 0 (pTransferBuffer c)) (\<lambda>(ok, buf).
          let c = c\<lparr>pTransferBuffer := buf\<rparr> in yield (if ok then c\<lparr>iStatus := 0, iError := 0\<rparr> else c)))))))))"

text \<open>After DMA was given up the round is a programmed transfer, which has no next one.\<close>

definition ATACommandManager_ExecuteATACommand :: "'d ata_hw \<Rightarrow> u32 \<Rightarrow> ata_command \<Rightarrow> ('d, ata_command) ata_eff" where
  "ATACommandManager_ExecuteATACommand A SEG = ATA_round A SEG (ATA_round A SEG (\<lambda>_. undef))"

subsection \<open>Packet commands\<close>

definition sense_error :: "'d ata_hw \<Rightarrow> ata_command \<Rightarrow> ('d, ata_command) ata_eff" where
  "sense_error A c = and_then (ATA_READ_REG A ATA_REG_ERROR) (\<lambda>e. yield (c\<lparr>iError := uint e, ac_senseKey := drop_bit 4 e\<rparr>))"

text \<open>\<open>pos\<close> is the offset of \<open>pBuffer\<close>: the transfer of 32 bits advances it by half the piece for every word, that of 16 bits by one byte
  for every word, of which it stores the low byte.\<close>

definition put_at :: "nat \<Rightarrow> u8 list \<Rightarrow> u8 list \<Rightarrow> u8 list option" where
  "put_at pos bs buf = (if pos + length bs > length buf then None else Some (take pos buf @ bs @ drop (pos + length bs) buf))"

definition read_piece :: "'d ata_hw \<Rightarrow> nat \<Rightarrow> nat \<Rightarrow> u8 list \<Rightarrow> ('d, nat \<times> u8 list) ata_eff" where
  "read_piece A uiCurrent pos buf = and_then (gets a_port) (\<lambda>p.
     if bPIO32Bit p \<and> uiCurrent mod 4 = 0 then
       and_then (collect (uiCurrent div 4) (ATA_READ_REG32 A ATA_REG_DATA)) (\<lambda>ws.
         and_then (the_or undef (put_at pos (bytes_of ws) buf)) (\<lambda>buf. yield (pos + (uiCurrent div 4) * (uiCurrent div 2), buf)))
     else
       and_then (collect (uiCurrent div 2) (ATA_READ_REG16 A ATA_REG_DATA)) (\<lambda>ws.
         and_then (the_or undef (put_at pos (map ucast ws) buf)) (\<lambda>buf. yield (pos + uiCurrent div 2, buf))))"

datatype packet_end = Transfer_over | Transfer_failed | Transfer_sense

text \<open>A piece has at least one byte, so the loop ends.\<close>

function packet_pieces :: "'d ata_hw \<Rightarrow> nat \<Rightarrow> nat \<Rightarrow> nat \<Rightarrow> u8 list \<Rightarrow> ('d, packet_end \<times> u8 list) ata_eff" where
  "packet_pieces A uiLength uiTransfered pos buf =
     (if uiTransfered < uiLength then
        and_then (ATAPortManager_IOWaitAlt A ATA_STATUS_DRQ ATA_STATUS_DRQ) (\<lambda>st. if st \<noteq> ATA_SUCCESS then yield (Transfer_failed, buf) else
        and_then (ATA_READ_REG A ATAPI_REG_COUNT_LOW) (\<lambda>bLow.
        and_then (ATA_READ_REG A ATAPI_REG_COUNT_HIGH) (\<lambda>bHigh.
          if unat bLow + unat bHigh * 256 = 0 then yield (Transfer_sense, buf) else
          and_then (read_piece A (min (unat bLow + unat bHigh * 256) uiLength) pos buf) (\<lambda>(pos, buf).
            let uiTransfered = uiTransfered + min (unat bLow + unat bHigh * 256) uiLength in
            if uiTransfered < uiLength then
              and_then (ATAPortManager_IOWait A ATA_STATUS_DRQ ATA_STATUS_DRQ) (\<lambda>st.
                if st \<noteq> ATA_SUCCESS then yield (Transfer_over, buf) else packet_pieces A uiLength uiTransfered pos buf)
            else yield (Transfer_over, buf)))))
      else yield (Transfer_over, buf))"
  by pat_completeness auto
termination by (relation "measure (\<lambda>(_, len, tr, _, _). len - tr)") auto

declare packet_pieces.simps [simp del]

fun command_complete :: "'d ata_hw \<Rightarrow> nat \<Rightarrow> ('d, bool) ata_eff" where
  "command_complete A 0 = yield False"
| "command_complete A (Suc n) = and_then (ATA_READ_REG A ATA_REG_STATUS) (\<lambda>b.
     if b AND ATA_STATUS_BUSY = 0 \<and> b AND ATA_STATUS_DRQ = 0 \<and> b AND ATA_STATUS_DRDY \<noteq> 0 then yield True else command_complete A n)"

fun data_request :: "'d ata_hw \<Rightarrow> nat \<Rightarrow> ('d, u8 option) ata_eff" where
  "data_request A 0 = yield None"
| "data_request A (Suc n) = and_then (ATA_READ_REG A ATA_REG_STATUS) (\<lambda>b.
     if b AND ATA_STATUS_BUSY = 0 \<and> (b AND ATA_STATUS_DRQ \<noteq> 0 \<or> b AND ATA_STATUS_ERROR \<noteq> 0) then yield (Some b) else data_request A n)"

text \<open>What a round ends with: the command returns, or the loop goes on, with the DMA flag given.\<close>

datatype packet_round = Returns ata_command | Goes_on bool ata_command

definition packet_data :: "'d ata_hw \<Rightarrow> bool \<Rightarrow> ata_command \<Rightarrow> ('d, packet_round) ata_eff" where
  "packet_data A bDMA c = (let uiLength = unat (uiTransferLength c); fails = yield (Returns c); sense = and_then (sense_error A c) (\<lambda>c. yield (Returns c)) in
     if uiLength = 0 then
       and_then (ATAPortManager_IOWaitAlt A ATA_STATUS_BUSY 0) (\<lambda>st. if st \<noteq> ATA_SUCCESS then fails else
         and_then (sense_error A c) (\<lambda>c. yield (Goes_on bDMA (c\<lparr>iStatus := 0\<rparr>))))
     else if bDMA then
       and_then (ATAPortOperation_StartDMA A) (\<lambda>st.
         if st \<noteq> ATA_SUCCESS then then_do (change_port (\<lambda>p. p\<lparr>uiCurrentSpeed := ATA_SPEED_PIO\<rparr>)) (yield (Goes_on False c))
         else if uiLength > length (pTransferBuffer c) then undef
         else gets (\<lambda>s. Returns (c\<lparr>pTransferBuffer := hw_dma_fetch A uiLength (a_hw s) @ drop uiLength (pTransferBuffer c), iStatus := 0, iError := 0\<rparr>)))
     else
       and_then (data_request A 2) (\<lambda>r. case r of None \<Rightarrow> fails | Some bStatus \<Rightarrow>
         if bStatus AND ATA_STATUS_ERROR \<noteq> 0 then sense else
         and_then (packet_pieces A uiLength 0 0 (pTransferBuffer c)) (\<lambda>(e, buf). let c = c\<lparr>pTransferBuffer := buf\<rparr> in
           case e of
             Transfer_failed \<Rightarrow> yield (Returns c)
           | Transfer_sense \<Rightarrow> and_then (sense_error A c) (\<lambda>c. yield (Returns c))
           | Transfer_over \<Rightarrow> and_then (command_complete A 200) (\<lambda>ok. yield (if ok then Goes_on bDMA c else Returns c)))))"

definition write_packet :: "'d ata_hw \<Rightarrow> ata_command \<Rightarrow> ('d, unit) ata_eff" where
  "write_packet A c = and_then (gets a_port) (\<lambda>p.
     if bPIO32Bit p then steps (ATA_WRITE_REG32 A ATA_REG_DATA) (words_of (take 12 (ac_command c)))
     else steps (\<lambda>i. ATA_WRITE_REG16 A ATA_REG_DATA (from_le16 (drop (2 * i) (ac_command c)))) [0..<6])"

definition packet_registers :: "'d ata_hw \<Rightarrow> bool \<Rightarrow> ata_command \<Rightarrow> ('d, unit) ata_eff" where
  "packet_registers A bDMA c = steps (\<lambda>(r, v). ATA_WRITE_REG A r v)
     [(ATA_REG_FEATURE, if bDMA then 0x01 else 0), (ATAPI_REG_IRR, 0), (ATAPI_REG_SAMTAG, 0),
      (ATAPI_REG_COUNT_LOW, ucast (uiTransferLength c AND 0xFF)), (ATAPI_REG_COUNT_HIGH, ucast (drop_bit 8 (uiTransferLength c) AND 0xFF)),
      (ATA_REG_CONTROL, if bDMA then ATA_CONTROL_DEFAULT else ATA_CONTROL_DEFAULT OR ATA_CONTROL_INTDISABLE)]"

definition ATAPI_round :: "'d ata_hw \<Rightarrow> u32 \<Rightarrow> bool \<Rightarrow> ata_command \<Rightarrow> ('d, packet_round) ata_eff" where
  "ATAPI_round A SEG bDMA0 c0 = (let c = c0\<lparr>iStatus := - 1, iError := ATACommandManager_ERR_IO\<rparr>; fails = yield (Returns c) in
     and_then (gets a_port) (\<lambda>p. let bDMA = (bDMA0 \<or> uiCurrentSpeed p \<ge> ATA_SPEED_DMA \<and> bCanDMA c) in
     then_do (ATAPortOperation_PortSelect A 0)
     (and_then (ATAPortManager_IOWait A ATA_STATUS_BUSY 0) (\<lambda>st. if st \<noteq> ATA_SUCCESS then fails else
      then_do (packet_registers A bDMA c)
      (and_then (if bDMA then attempts 3 (ATAPortOperation_PortPrepareDMARead A SEG (uiTransferLength c)) else yield True) (\<lambda>ok.
       if \<not> ok then then_do (change_port (\<lambda>p. p\<lparr>uiCurrentSpeed := ATA_SPEED_PIO\<rparr>)) (yield (Goes_on False c)) else
       then_do (ATA_WRITE_REG A ATA_REG_COMMAND ATAPI_CMD_PACKET)
       (and_then (ATA_READ_REG A ATA_REG_CONTROL) (\<lambda>_.
        and_then (ATAPortManager_IOWait A ATA_STATUS_BUSY 0) (\<lambda>st. if st \<noteq> ATA_SUCCESS then fails else
        and_then (ATA_READ_REG A ATA_REG_STATUS) (\<lambda>bStatus.
        if bStatus AND ATA_STATUS_ERROR \<noteq> 0 then and_then (sense_error A c) (\<lambda>c. yield (Returns c)) else
        and_then (ATAPortManager_IOWait A ATA_STATUS_DRQ ATA_STATUS_DRQ) (\<lambda>st. if st \<noteq> ATA_SUCCESS then fails else
        if bStatus AND ATA_STATUS_DRQ = 0 then yield (Goes_on bDMA c) else
        then_do (write_packet A c) (packet_data A bDMA c))))))))))))"

text \<open>\<open>n\<close> rounds of the loop.\<close>

fun ATAPI_loop :: "nat \<Rightarrow> 'd ata_hw \<Rightarrow> u32 \<Rightarrow> bool \<Rightarrow> ata_command \<Rightarrow> ('d, ata_command) ata_eff" where
  "ATAPI_loop 0 A SEG bDMA c = undef"
| "ATAPI_loop (Suc n) A SEG bDMA c = and_then (ATAPI_round A SEG bDMA c) (\<lambda>r.
     case r of Returns c \<Rightarrow> yield c | Goes_on bDMA c \<Rightarrow> ATAPI_loop n A SEG bDMA c)"

definition ATACommandManager_ExecuteATAPICommand :: "nat \<Rightarrow> 'd ata_hw \<Rightarrow> u32 \<Rightarrow> ata_command \<Rightarrow> ('d, ata_command) ata_eff" where
  "ATACommandManager_ExecuteATAPICommand n A SEG c = ATAPI_loop n A SEG False c"

definition ATACommandManager_Queue :: "nat \<Rightarrow> 'd ata_hw \<Rightarrow> u32 \<Rightarrow> ata_command \<Rightarrow> ('d, ata_command) ata_eff" where
  "ATACommandManager_Queue n A SEG c = and_then (gets a_port) (\<lambda>p.
     if uiDevice p = ATA_DEV_ATAPI then ATACommandManager_ExecuteATAPICommand n A SEG c else ATACommandManager_ExecuteATACommand A SEG c)"

section \<open>Sectors\<close>

definition sector_command :: "u8 \<Rightarrow> bool \<Rightarrow> u32 \<Rightarrow> u32 \<Rightarrow> u8 list \<Rightarrow> ata_command" where
  "sector_command cmd lba48 uiSectorAddress len buf =
     (let lo = (\<lambda>k. ucast (drop_bit k uiSectorAddress AND 0xFF)); hi = lo 24 :: u8 in
      ATACommandManager_InitCommand\<lparr>pTransferBuffer := buf, uiTransferLength := len,
        ac_command := [0, 0, ucast (len div 512), lo 0, lo 8, lo 16, (if lba48 then ATA_DEVICE_LBA else ATA_DEVICE_LBA OR hi), cmd,
          ATA_CONTROL_DEFAULT, 0, 0, (if lba48 then hi else 0), 0, 0]\<rparr>)"

text \<open>Pieces of 16 KB; \<open>uiSectorAddress\<close> advances by one for each of them.\<close>

function ATADrive_loop :: "nat \<Rightarrow> 'd ata_hw \<Rightarrow> u32 \<Rightarrow> bool \<Rightarrow> u32 \<Rightarrow> u32 \<Rightarrow> u32 \<Rightarrow> u8 list \<Rightarrow> ('d, u8 list) ata_eff" where
  "ATADrive_loop n A SEG bWrite uiLength uiSectorAddress uiBytesTransfered buf =
     (if uiBytesTransfered < uiLength then
        let len = (if uiLength - uiBytesTransfered < 16384 then uiLength - uiBytesTransfered else 16384); pos = unat uiBytesTransfered in
        and_then (gets a_port) (\<lambda>p.
        and_then (ATACommandManager_Queue n A SEG
            (sector_command (if bWrite then ATA_CMD_WRITE_PIO else ATA_CMD_READ_PIO) (bLBA48Bit p) uiSectorAddress len (drop pos buf))) (\<lambda>c.
          if iStatus c \<noteq> 0 then throw (if bWrite then WriteFailed (iStatus c) else ReadFailed (iStatus c))
          else ATADrive_loop n A SEG bWrite uiLength (uiSectorAddress + 1) (uiBytesTransfered + len) (take pos buf @ pTransferBuffer c)))
      else yield buf)"
  by pat_completeness auto
termination
proof (relation "measure (\<lambda>(_, _, _, _, len, _, tr, _). unat len - unat tr)", goal_cases)
  case (2 n A SEG bWrite uiLength uiSectorAddress uiBytesTransfered buf len pos p c)
  have "unat (uiLength - uiBytesTransfered) = unat uiLength - unat uiBytesTransfered" using 2(1) by (simp add: unat_sub)
  then have "unat len \<le> unat uiLength - unat uiBytesTransfered" "0 < unat len" using 2(1,2)
    by (auto simp: word_less_nat_alt split: if_splits)
  moreover from this have "unat (uiBytesTransfered + len) = unat uiBytesTransfered + unat len"
    using 2(1) by (intro unat_add_no_wrap) (simp add: word_less_nat_alt order.strict_trans1 [OF _ u32_unat_bound [of uiLength]])
  ultimately show ?case using 2(1) by (simp add: word_less_nat_alt)
qed simp

declare ATADrive_loop.simps [simp del]

definition ATADrive_Read :: "nat \<Rightarrow> 'd ata_hw \<Rightarrow> u32 \<Rightarrow> u32 \<Rightarrow> u8 list \<Rightarrow> u32 \<Rightarrow> ('d, u8 list) ata_eff" where
  "ATADrive_Read n A SEG uiSectorAddress pBuffer uiNoOfSectorsToTransfer =
     ATADrive_loop n A SEG False (uiNoOfSectorsToTransfer * 512) uiSectorAddress 0 pBuffer"

definition ATADrive_Write :: "nat \<Rightarrow> 'd ata_hw \<Rightarrow> u32 \<Rightarrow> u32 \<Rightarrow> u8 list \<Rightarrow> u32 \<Rightarrow> ('d, unit) ata_eff" where
  "ATADrive_Write n A SEG uiSectorAddress pBuffer uiNoOfSectorsToTransfer =
     and_then (ATADrive_loop n A SEG True (uiNoOfSectorsToTransfer * 512) uiSectorAddress 0 pBuffer) (\<lambda>_. yield ())"

definition ATADeviceController_GetDeviceSectorLimit :: "ata_port \<Rightarrow> u32" where
  "ATADeviceController_GetDeviceSectorLimit p = (if bLBA48Bit p then uiLBACapacity48 (ap_id p) else uiLBASectors (ap_id p))"

section \<open>Timing\<close>

record ata_timing =
  usSetup :: u16
  usAct8b :: u16
  usRec8b :: u16
  usCyc8b :: u16
  usAct :: u16
  usRec :: u16
  usCyc :: u16
  usUDMA :: u16

definition timing :: "nat list \<Rightarrow> ata_timing" where
  "timing v = (let t = (\<lambda>i. of_nat (v ! i)) in \<lparr>usSetup = t 0, usAct8b = t 1, usRec8b = t 2, usCyc8b = t 3, usAct = t 4, usRec = t 5,
     usCyc = t 6, usUDMA = t 7\<rparr>)"

definition ATATimingManager_Timings :: "(nat \<times> ata_timing) list" where
  "ATATimingManager_Timings = map (\<lambda>(m, v). (m, timing v))
    [(14, [0, 0, 0, 0, 0, 0, 0, 15]), (13, [0, 0, 0, 0, 0, 0, 0, 20]), (12, [0, 0, 0, 0, 0, 0, 0, 30]),
     (11, [0, 0, 0, 0, 0, 0, 0, 45]), (10, [0, 0, 0, 0, 0, 0, 0, 60]), (9, [0, 0, 0, 0, 0, 0, 0, 80]),
     (8, [0, 0, 0, 0, 0, 0, 0, 120]), (7, [25, 0, 0, 0, 70, 25, 120, 0]), (6, [45, 0, 0, 0, 80, 50, 150, 0]),
     (5, [60, 0, 0, 0, 215, 215, 480, 0]), (3, [20, 50, 30, 100, 50, 30, 100, 0]), (2, [25, 70, 25, 120, 70, 25, 120, 0]),
     (1, [30, 80, 70, 180, 80, 70, 180, 0]), (0, [30, 290, 40, 330, 100, 90, 240, 0])]"

definition ATATimingManager_FindMode :: "nat \<Rightarrow> ata_timing option" where
  "ATATimingManager_FindMode iSpeed = map_of ATATimingManager_Timings iSpeed"

definition EZ :: "u16 \<Rightarrow> u32 \<Rightarrow> u16" where
  "EZ v unit = (if v = 0 then 0 else ucast ((ucast v * 1000 - 1) div unit + 1))"

definition ATATimingManager_Quantize :: "ata_timing \<Rightarrow> u32 \<Rightarrow> u32 \<Rightarrow> ata_timing" where
  "ATATimingManager_Quantize s t u = \<lparr>usSetup = EZ (usSetup s) t, usAct8b = EZ (usAct8b s) t, usRec8b = EZ (usRec8b s) t,
     usCyc8b = EZ (usCyc8b s) t, usAct = EZ (usAct s) t, usRec = EZ (usRec s) t, usCyc = EZ (usCyc s) t, usUDMA = EZ (usUDMA s) u\<rparr>"

definition ATATimingManager_Merge :: "ata_timing \<Rightarrow> ata_timing \<Rightarrow> ata_timing \<Rightarrow> u32 \<Rightarrow> ata_timing" where
  "ATATimingManager_Merge a b r uiWhat = (let w = (\<lambda>m x f. if uiWhat AND m \<noteq> 0 then max (f a) (f b) else f x) in
     \<lparr>usSetup = w 0x01 r usSetup, usAct8b = w 0x02 r usAct8b, usRec8b = w 0x04 r usRec8b, usCyc8b = w 0x08 r usCyc8b,
      usAct = w 0x10 r usAct, usRec = w 0x20 r usRec, usCyc = w 0x40 r usCyc, usUDMA = w 0x80 r usUDMA\<rparr>)"

definition stretch :: "u16 \<Rightarrow> u16 \<Rightarrow> u16 \<Rightarrow> u16 \<times> u16" where
  "stretch act rec cyc =
     (if unat act + unat rec < unat cyc then
        let act' = act + of_nat ((unat cyc - (unat act + unat rec)) div 2) in (act', cyc - act')
      else (act, rec))"

definition adjust_cycles :: "ata_timing \<Rightarrow> ata_timing" where
  "adjust_cycles t = (let (a8, r8) = stretch (usAct8b t) (usRec8b t) (usCyc8b t); (a, r) = stretch (usAct t) (usRec t) (usCyc t)
     in t\<lparr>usAct8b := a8, usRec8b := r8, usAct := a, usRec := r\<rparr>)"

text \<open>\<open>uiSupportedDriveSpeed\<close> is multiplied with the mode, not masked.\<close>

definition pio_mode :: "ata_port \<Rightarrow> nat option" where
  "pio_mode p = find (\<lambda>i. uiSupportedPortSpeed p AND push_bit i 1 \<noteq> 0 \<and> uiSupportedDriveSpeed p * push_bit i 1 \<noteq> 0) [3, 2, 1, 0]"

text \<open>\<open>t\<close> is what the timing holds before: it is merged with the values of the drive, and then overwritten. The units are not 0.\<close>

function ATATimingManager_Compute :: "ata_port \<Rightarrow> nat \<Rightarrow> ata_timing \<Rightarrow> u32 \<Rightarrow> u32 \<Rightarrow> ata_error + ata_timing" where
  "ATATimingManager_Compute p iSpeed t uiTiming uiUDMATiming = (case ATATimingManager_FindMode iSpeed of
     None \<Rightarrow> Inl (NoTiming iSpeed)
   | Some s \<Rightarrow>
       let i = ap_id p; zero = timing (replicate 8 0);
           d = (if iSpeed = ATA_SPEED_PIO then zero\<lparr>usCyc := usEIDEPIO i, usCyc8b := usEIDEPIO i\<rparr>
                else if iSpeed \<le> ATA_SPEED_PIO_5 then zero\<lparr>usCyc := usEIDEPIOOrdy i, usCyc8b := usEIDEPIOOrdy i\<rparr>
                else if iSpeed \<le> ATA_SPEED_MWDMA_2 then zero\<lparr>usCyc := usEIDEDMAMin i\<rparr> else zero);
           t1 = (if usValid i AND 0x2 \<noteq> 0 then ATATimingManager_Merge d t t (0x40 OR 0x08) else t);
           t2 = ATATimingManager_Quantize s uiTiming uiUDMATiming
       in if iSpeed > ATA_SPEED_PIO_5 then
            case pio_mode p of
              None \<Rightarrow> Inl NoPIOMode
            | Some m \<Rightarrow> (if m < iSpeed then
                case ATATimingManager_Compute p m d uiTiming uiUDMATiming of
                  Inl e \<Rightarrow> Inl e
                | Inr q \<Rightarrow> Inr (adjust_cycles (ATATimingManager_Merge q t2 t2 0xff))
                else Inl NoPIOMode)
          else Inr (adjust_cycles t2))"
  by pat_completeness auto
termination by (relation "measure (\<lambda>(_, n, _). n)") auto

end
