(* ===== verification/AtaProofs.thy ===== *)
theory AtaProofs
  imports Ata FsProofs Drives
begin

text \<open>
  What commands do on an IDE disk. \<open>ide_disk\<close> is a drive with the registers of the legacy ports, with and without the registers
  of 48 bit addresses, that transfers sectors through its data register. Reading and writing of up to 32 sectors are those of an
  array of sectors; longer reads are characterised as well, and are not.
\<close>

section \<open>Bytes and words\<close>

lemma bytes_of_word: "bytes_of [ucast a OR push_bit 8 (ucast b) OR push_bit 16 (ucast c) OR push_bit 24 (ucast d)] = [a, b, c, d]"
proof -
  have "ucast (ucast a OR push_bit 8 (ucast b) OR push_bit 16 (ucast c) OR push_bit 24 (ucast d) :: u32) = a"
    by (rule bit_word_eqI) (auto simp: bit_simps dest: bit_imp_le_length)
  moreover have "ucast (drop_bit 8 (ucast a OR push_bit 8 (ucast b) OR push_bit 16 (ucast c) OR push_bit 24 (ucast d) :: u32)) = b"
    by (rule bit_word_eqI) (auto simp: bit_simps dest: bit_imp_le_length)
  moreover have "ucast (drop_bit 16 (ucast a OR push_bit 8 (ucast b) OR push_bit 16 (ucast c) OR push_bit 24 (ucast d) :: u32)) = c"
    by (rule bit_word_eqI) (auto simp: bit_simps dest: bit_imp_le_length)
  moreover have "ucast (drop_bit 24 (ucast a OR push_bit 8 (ucast b) OR push_bit 16 (ucast c) OR push_bit 24 (ucast d) :: u32)) = d"
    by (rule bit_word_eqI) (auto simp: bit_simps dest: bit_imp_le_length)
  ultimately show ?thesis by simp
qed

lemma bytes_of_words_of: "length bs mod 4 = 0 \<Longrightarrow> bytes_of (words_of bs) = bs"
proof (induction bs rule: words_of.induct)
  case (1 a b c d bs)
  have "length (a # b # c # d # bs) = length bs + 4" by simp
  then have "length bs mod 4 = 0" using 1(2) by (metis mod_add_self2)
  then show ?case using 1(1) bytes_of_word [of a b c d] by simp
qed auto

lemma le16_of_bytes: "le16 (from_le16 (a # b # r)) = [a, b]"
proof -
  have "ucast (ucast a OR push_bit 8 (ucast b) :: u16) = a" by (rule bit_word_eqI) (auto simp: bit_simps dest: bit_imp_le_length)
  moreover have "ucast (drop_bit 8 (ucast a OR push_bit 8 (ucast b) :: u16)) = b" by (rule bit_word_eqI) (auto simp: bit_simps dest: bit_imp_le_length)
  ultimately show ?thesis by (simp add: le16_def from_le16_def)
qed

section \<open>A reference drive\<close>

text \<open>A register keeps its value of before (\<open>ide_hob\<close>). Data are wanted by or from the drive while \<open>ide_in\<close> is not empty or
  \<open>ide_out\<close>, a place in the image and a number of bytes, not finished.\<close>

record ide_disk =
  ide_image :: "u8 list"
  ide_slave :: bool
  ide_cur :: "u8 list"
  ide_hob :: "u8 list"
  ide_in :: "u8 list"
  ide_out :: "nat \<times> nat"

definition ide_register :: "u32 \<Rightarrow> nat" where
  "ide_register a = (if a = 0x3F6 then 8 else unat (a - 0x1F0))"

definition ide_status :: "ide_disk \<Rightarrow> u8" where
  "ide_status d = (if ide_in d \<noteq> [] \<or> snd (ide_out d) > 0 then 0x48 else 0x40)"

definition join_bytes :: "u8 list \<Rightarrow> nat" where
  "join_bytes bs = foldr (\<lambda>b n. unat b + 256 * n) bs 0"

definition ide_range :: "ide_disk \<Rightarrow> bool \<Rightarrow> nat \<times> nat" where
  "ide_range d ext = (let c = (\<lambda>i. ide_cur d ! i); h = (\<lambda>i. ide_hob d ! i) in
     if ext then (join_bytes [c 3, c 4, c 5, h 3, h 4, h 5], join_bytes [c 2, h 2])
     else (join_bytes [c 3, c 4, c 5, c 6 AND 0xF], unat (c 2)))"

definition ide_command :: "u8 \<Rightarrow> ide_disk \<Rightarrow> ide_disk" where
  "ide_command cmd d = (let ext = (cmd \<in> {ATA_CMD_READ_PIO_48, ATA_CMD_WRITE_PIO_48}); (lba, n) = ide_range d ext; d0 = d\<lparr>ide_in := [], ide_out := (0, 0)\<rparr> in
     if (ide_cur d ! 6 AND ATA_DEVICE_SLAVE \<noteq> 0) \<noteq> ide_slave d \<or> ide_cur d ! 6 AND ATA_DEVICE_LBA = 0 \<or> n = 0 \<or>
        (lba + n) * 512 > length (ide_image d) then d0
     else if cmd = ATA_CMD_READ_PIO \<or> cmd = ATA_CMD_READ_PIO_48 then d0\<lparr>ide_in := take (n * 512) (drop (lba * 512) (ide_image d))\<rparr>
     else if cmd = ATA_CMD_WRITE_PIO \<or> cmd = ATA_CMD_WRITE_PIO_48 then d0\<lparr>ide_out := (lba * 512, n * 512)\<rparr>
     else d0)"

definition ide_write :: "nat \<Rightarrow> u8 \<Rightarrow> ide_disk \<Rightarrow> ide_disk" where
  "ide_write r v d = (if r = 7 then ide_command v d
     else if r = 8 then d else d\<lparr>ide_hob := (ide_hob d)[r := ide_cur d ! r], ide_cur := (ide_cur d)[r := v]\<rparr>)"

definition ide_take :: "nat \<Rightarrow> ide_disk \<Rightarrow> u8 list \<times> ide_disk" where
  "ide_take k d = (take k (ide_in d @ replicate k 0), d\<lparr>ide_in := drop k (ide_in d)\<rparr>)"

definition ide_put :: "u8 list \<Rightarrow> ide_disk \<Rightarrow> ide_disk" where
  "ide_put bs d = (case ide_out d of (pos, n) \<Rightarrow>
     if n = 0 then d else d\<lparr>ide_image := patch (ide_image d) pos bs, ide_out := (pos + length bs, n - length bs)\<rparr>)"

definition ide_drive :: "ide_disk ata_hw" where
  "ide_drive = \<lparr>
     hw_in8 = (\<lambda>m a d. (if ide_register a \<in> {7, 8} then ide_status d else ide_cur d ! ide_register a, d)),
     hw_in16 = (\<lambda>m a d. case ide_take 2 d of (bs, d) \<Rightarrow> (from_le16 bs, d)),
     hw_in32 = (\<lambda>m a d. case ide_take 4 d of (bs, d) \<Rightarrow> (hd (words_of bs), d)),
     hw_out8 = (\<lambda>m a v d. ide_write (ide_register a) v d),
     hw_out16 = (\<lambda>m a v d. ide_put (le16 v) d),
     hw_out32 = (\<lambda>m a v d. ide_put (bytes_of [v]) d),
     hw_wait_irq = (\<lambda>d. Some d), hw_dma_fetch = (\<lambda>n d. replicate n 0), hw_dma_store = (\<lambda>bs d. d)\<rparr>"

definition ide_port :: "ata_port \<Rightarrow> bool" where
  "ide_port p \<longleftrightarrow> \<not> bMMIO p \<and> uiRegs p = [0x1F0, 0x1F1, 0x1F2, 0x1F3, 0x1F4, 0x1F5, 0x1F6, 0x1F7, 0x3F6] \<and> uiCurrentSpeed p = ATA_SPEED_PIO \<and>
     uiDevice p = ATA_DEV_ATA"

definition ide_attached :: "ata_port \<Rightarrow> ide_disk \<Rightarrow> bool" where
  "ide_attached p d \<longleftrightarrow> ide_port p \<and> length (ide_cur d) = 9 \<and> length (ide_hob d) = 9 \<and> ide_slave d = (uiPort p \<noteq> 0)"

section \<open>Register accesses\<close>

lemma port_register:
  assumes "ide_port p" "r \<le> 8"
  shows "ide_register (reg_address p (uiRegs p ! r)) = r"
proof -
  have "r \<in> {0, 1, 2, 3, 4, 5, 6, 7, 8}" using assms(2) by auto
  then show ?thesis using assms(1) by (elim insertE) (simp_all add: ide_port_def reg_address_def ide_register_def)
qed

lemma run_write:
  assumes "ide_port (a_port s)" "r \<le> 8"
  shows "ATA_WRITE_REG ide_drive r v s = Some (Inr (), s\<lparr>a_hw := ide_write r v (a_hw s)\<rparr>)"
  using port_register [OF assms] by (simp add: ATA_WRITE_REG_def run_gets hw_step_def ide_drive_def)

lemma run_read:
  assumes "ide_port (a_port s)" "r \<le> 8"
  shows "ATA_READ_REG ide_drive r s = Some (Inr (if r \<in> {7, 8} then ide_status (a_hw s) else ide_cur (a_hw s) ! r), s)"
  using port_register [OF assms] by (simp add: ATA_READ_REG_def run_gets hw_step_def ide_drive_def)

lemma run_wait:
  assumes "ide_port (a_port s)"
  shows "ATAPortManager_IOWait ide_drive ATA_STATUS_BUSY 0 s = Some (Inr ATA_SUCCESS, s)"
proof -
  have n: "(20 :: nat) = Suc 19" by simp
  have "ide_status (a_hw s) AND ATA_STATUS_BUSY = 0" by (simp add: ide_status_def)
  then show ?thesis using run_read [OF assms, of 7]
    unfolding ATAPortManager_IOWait_def n IOWait_loop.simps(2) by (simp add: and_then_def yield_def)
qed

lemma run_write_then: "ide_port (a_port s) \<Longrightarrow> r \<le> 8 \<Longrightarrow>
    and_then (ATA_WRITE_REG ide_drive r v) k s = k () (s\<lparr>a_hw := ide_write r v (a_hw s)\<rparr>)"
  by (simp add: and_then_def run_write)

lemma run_read_then: "ide_port (a_port s) \<Longrightarrow> r \<le> 8 \<Longrightarrow>
    and_then (ATA_READ_REG ide_drive r) k s = k (if r \<in> {7, 8} then ide_status (a_hw s) else ide_cur (a_hw s) ! r) s"
  by (simp add: and_then_def run_read)

lemma run_wait_then: "ide_port (a_port s) \<Longrightarrow> and_then (ATAPortManager_IOWait ide_drive ATA_STATUS_BUSY 0) k s = k ATA_SUCCESS s"
  by (simp add: and_then_def run_wait)

lemma run_steps: "then_do (steps f (x # xs)) k s = then_do (f x) (then_do (steps f xs) k) s" "then_do (steps f []) k s = k s"
    "steps f (x # xs) s = then_do (f x) (steps f xs) s" "steps f [] s = Some (Inr (), s)"
  by (simp_all add: then_do_def run_then) (simp add: yield_def)

text \<open>The registers after a command was written: device, sector number and count, with the high bytes in the registers of before.\<close>

definition loaded :: "bool \<Rightarrow> ata_port \<Rightarrow> u8 list \<Rightarrow> ide_disk \<Rightarrow> bool" where
  "loaded ext p cmd d \<longleftrightarrow> (\<forall>r \<in> {2, 3, 4, 5}. ide_cur d ! r = cmd ! r) \<and> ide_cur d ! 6 = drive_select p OR cmd ! 6 \<and>
     (ext \<longrightarrow> (\<forall>r \<in> {2, 3, 4, 5}. ide_hob d ! r = cmd ! (r + 8)))"

lemma run_write_registers:
  assumes "ide_attached (a_port s) (a_hw s)"
  shows "\<exists>d. write_registers ide_drive bDMA c s = Some (Inr (), s\<lparr>a_hw := d\<rparr>) \<and> ide_attached (a_port s) d \<and> ide_image d = ide_image (a_hw s) \<and>
    loaded (bLBA48Bit (a_port s)) (a_port s) (ac_command c) d"
proof -
  have p: "ide_port (a_port s)" using assms by (simp add: ide_attached_def)
  obtain img sl c0 c1 c2 c3 c4 c5 c6 c7 c8 h0 h1 h2 h3 h4 h5 h6 h7 h8 i out where d: "a_hw s =
      \<lparr>ide_image = img, ide_slave = sl, ide_cur = [c0, c1, c2, c3, c4, c5, c6, c7, c8], ide_hob = [h0, h1, h2, h3, h4, h5, h6, h7, h8],
       ide_in = i, ide_out = out\<rparr>"
  proof (cases "a_hw s")
    case (fields img sl cur hob i out)
    moreover have "length cur = 9" "length hob = 9" using assms fields by (simp_all add: ide_attached_def)
    ultimately show ?thesis using that by (auto simp: numeral_eq_Suc length_Suc_conv)
  qed
  show ?thesis
    using assms p d
    apply (cases "bLBA48Bit (a_port s)")
     apply (simp_all add: write_registers_def Let_def ATAPortOperation_PortSelect_def run_then run_gets run_write_then run_read_then
        run_steps only_if_def ide_write_def loaded_def ide_attached_def yield_def)
     apply (rule exI, rule conjI, rule refl, simp)+
    done
qed

lemma address_byte: "unat (ucast (drop_bit k w AND 0xFF) :: u8) = unat (w :: u32) div 2 ^ k mod 256"
proof -
  have "(0xFF :: u32) = mask 8" by (simp add: mask_eq_exp_minus_1)
  then have "drop_bit k w AND 0xFF = take_bit 8 (drop_bit k w)" by (simp add: take_bit_eq_mask)
  then have "unat (ucast (drop_bit k w AND 0xFF) :: u8) = take_bit 8 (unat (drop_bit k w))"
    by (simp add: unsigned_ucast_eq unsigned_take_bit_eq)
  moreover have "unat (drop_bit k w) = unat w div 2 ^ k"
    unfolding unsigned_drop_bit_eq by (simp add: drop_bit_eq_div take_bit_nat_eq_self)
  ultimately show ?thesis by (simp only: take_bit_eq_mod) simp
qed

lemma join_bytes_word:
  "join_bytes [ucast (drop_bit 0 w AND 0xFF), ucast (drop_bit 8 w AND 0xFF), ucast (drop_bit 16 w AND 0xFF), ucast (drop_bit 24 w AND 0xFF)] =
     unat (w :: u32)"
proof -
  define u where "u = unat w"
  have "u div 256 div 256 = u div 65536" "u div 65536 div 256 = u div 16777216"
    unfolding div_mult2_eq [symmetric] by simp_all
  moreover have "u div 16777216 < 256" using u32_unat_bound [of w] unfolding u_def by (simp add: div_less_iff_less_mult)
  then have m: "u div 16777216 mod 256 = u div 16777216" by (rule mod_less)
  ultimately have "u mod 256 + 256 * (u div 256 mod 256 + 256 * (u div 65536 mod 256 + 256 * (u div 16777216 mod 256))) = u"
    using mod_mult_div_eq [of u 256] mod_mult_div_eq [of "u div 256" 256] mod_mult_div_eq [of "u div 65536" 256] m by simp
  then show ?thesis unfolding join_bytes_def foldr.simps address_byte comp_def id_def u_def [symmetric] using m by simp
qed

text \<open>The device register: the drive, the LBA flag and, without the registers of 48 bits, the top of a sector number of 28 bits.\<close>

lemma device_register:
  assumes "hi < (16 :: u8)"
  shows "(drive_select p OR (ATA_DEVICE_LBA OR hi)) AND 0xF = hi" "(drive_select p OR (ATA_DEVICE_LBA OR hi)) AND ATA_DEVICE_SLAVE \<noteq> 0 \<longleftrightarrow> uiPort p \<noteq> 0"
    "(drive_select p OR (ATA_DEVICE_LBA OR hi)) AND ATA_DEVICE_LBA \<noteq> 0"
proof -
  have u: "[0..<16] = [0, 1, 2, 3, 4, 5, 6, 7, 8, 9, 10, 11, 12, 13, 14, 15]" by code_simp
  obtain k where "hi = of_nat k" "k \<in> set [0..<16]"
    using that [of "unat hi"] assms by (simp add: word_less_nat_alt)
  then have "hi = 0 \<or> hi = 1 \<or> hi = 2 \<or> hi = 3 \<or> hi = 4 \<or> hi = 5 \<or> hi = 6 \<or> hi = 7 \<or> hi = 8 \<or> hi = 9 \<or> hi = 10 \<or> hi = 11 \<or> hi = 12 \<or> hi = 13 \<or> hi = 14 \<or> hi = 15"
    unfolding u by auto
  then show "(drive_select p OR (ATA_DEVICE_LBA OR hi)) AND 0xF = hi" "(drive_select p OR (ATA_DEVICE_LBA OR hi)) AND ATA_DEVICE_SLAVE \<noteq> 0 \<longleftrightarrow> uiPort p \<noteq> 0"
    "(drive_select p OR (ATA_DEVICE_LBA OR hi)) AND ATA_DEVICE_LBA \<noteq> 0"
    by (elim disjE; simp add: drive_select_def)+
qed

lemma run_block32:
  assumes "ide_port (a_port s)" "4 * n \<le> length (ide_in (a_hw s))"
  shows "collect n (ATA_READ_REG32 ide_drive ATA_REG_DATA) s =
    Some (Inr (words_of (take (4 * n) (ide_in (a_hw s)))), s\<lparr>a_hw := (a_hw s)\<lparr>ide_in := drop (4 * n) (ide_in (a_hw s))\<rparr>\<rparr>)"
  using assms
proof (induction n arbitrary: s)
  case 0
  then show ?case by (simp add: yield_def)
next
  case (Suc n)
  have "Suc (Suc (Suc (Suc 0))) \<le> length (ide_in (a_hw s))" using Suc.prems(2) by simp
  then obtain a b c d r where i: "ide_in (a_hw s) = a # b # c # d # r" by (auto simp: Suc_le_length_iff)
  have "ATA_READ_REG32 ide_drive ATA_REG_DATA s =
      Some (Inr (hd (words_of [a, b, c, d])), s\<lparr>a_hw := (a_hw s)\<lparr>ide_in := r\<rparr>\<rparr>)"
    by (simp add: ATA_READ_REG32_def run_gets hw_step_def ide_drive_def ide_take_def i)
  moreover have "take (4 + k) (a # b # c # d # r) = a # b # c # d # take k r" "drop (4 + k) (a # b # c # d # r) = drop k r" for k
    by (simp_all add: numeral_eq_Suc)
  ultimately show ?case using Suc.IH [of "s\<lparr>a_hw := (a_hw s)\<lparr>ide_in := r\<rparr>\<rparr>"] Suc.prems i
    by (simp add: and_then_def yield_def)
qed

lemma run_block16:
  assumes "ide_port (a_port s)" "2 * n \<le> length (ide_in (a_hw s))"
  shows "\<exists>ws. collect n (ATA_READ_REG16 ide_drive ATA_REG_DATA) s =
    Some (Inr ws, s\<lparr>a_hw := (a_hw s)\<lparr>ide_in := drop (2 * n) (ide_in (a_hw s))\<rparr>\<rparr>) \<and> concat (map le16 ws) = take (2 * n) (ide_in (a_hw s))"
  using assms
proof (induction n arbitrary: s)
  case 0
  then show ?case by (simp add: yield_def)
next
  case (Suc n)
  have "Suc (Suc 0) \<le> length (ide_in (a_hw s))" using Suc.prems(2) by simp
  then obtain a b r where i: "ide_in (a_hw s) = a # b # r" by (auto simp: Suc_le_length_iff)
  let ?s = "s\<lparr>a_hw := (a_hw s)\<lparr>ide_in := r\<rparr>\<rparr>"
  obtain ws where ws: "collect n (ATA_READ_REG16 ide_drive ATA_REG_DATA) ?s =
      Some (Inr ws, ?s\<lparr>a_hw := (a_hw ?s)\<lparr>ide_in := drop (2 * n) (ide_in (a_hw ?s))\<rparr>\<rparr>)" "concat (map le16 ws) = take (2 * n) (ide_in (a_hw ?s))"
    using Suc.IH [of ?s] Suc.prems i by auto
  have "ATA_READ_REG16 ide_drive ATA_REG_DATA s = Some (Inr (from_le16 [a, b]), ?s)"
    by (simp add: ATA_READ_REG16_def run_gets hw_step_def ide_drive_def ide_take_def i numeral_eq_Suc)
  moreover have "take (2 + k) (a # b # r) = a # b # take k r" "drop (2 + k) (a # b # r) = drop k r" for k
    by (simp_all add: numeral_eq_Suc)
  ultimately show ?case using ws i le16_of_bytes [of a b "[]"]
    by (intro exI [of _ "from_le16 [a, b] # ws"]) (simp add: and_then_def yield_def)
qed

lemma run_read_block:
  assumes "ide_port (a_port s)" "512 \<le> length (ide_in (a_hw s))"
  shows "read_block ide_drive s = Some (Inr (take 512 (ide_in (a_hw s))), s\<lparr>a_hw := (a_hw s)\<lparr>ide_in := drop 512 (ide_in (a_hw s))\<rparr>\<rparr>)"
proof (cases "bPIO32Bit (a_port s)")
  case True
  have "length (take 512 (ide_in (a_hw s))) mod 4 = 0" using assms(2) by simp
  then show ?thesis using True run_block32 [of s 128] assms
    by (simp add: read_block_def and_then_def yield_def gets_def bytes_of_words_of)
next
  case False
  then show ?thesis using run_block16 [of s 256] assms
    by (auto simp: read_block_def and_then_def yield_def gets_def)
qed

lemma run_IORead:
  assumes "ide_port (a_port s)" "512 \<le> length (ide_in (a_hw s))" "512 \<le> length buf"
  shows "ATAPortManager_IORead ide_drive buf 512 s = Some (Inr (ATA_SUCCESS, take 512 (ide_in (a_hw s)) @ drop 512 buf),
    s\<lparr>a_hw := (a_hw s)\<lparr>ide_in := drop 512 (ide_in (a_hw s))\<rparr>\<rparr>)"
proof -
  have "ide_status (a_hw s) = 0x48" using assms(2) by (auto simp: ide_status_def)
  then show ?thesis using run_read [OF assms(1), of 8] run_read_block [OF assms(1,2)] assms(3)
    by (simp add: ATAPortManager_IORead_def IORead_loop.simps [of _ _ 0] and_then_def yield_def Let_def)
qed

lemma run_PIO_read:
  assumes "ide_port (a_port s)" "length (ide_in (a_hw s)) = 512 * k" "tr + 512 * k = len" "len \<le> length buf"
  shows "PIO_loop ide_drive False len tr buf s =
    Some (Inr (True, take tr buf @ ide_in (a_hw s) @ drop len buf), s\<lparr>a_hw := (a_hw s)\<lparr>ide_in := []\<rparr>\<rparr>)"
  using assms
proof (induction k arbitrary: s tr buf)
  case 0
  then show ?case by (simp add: PIO_loop.simps yield_def)
next
  case (Suc k)
  let ?i = "ide_in (a_hw s)" and ?s = "s\<lparr>a_hw := (a_hw s)\<lparr>ide_in := drop 512 (ide_in (a_hw s))\<rparr>\<rparr>"
  let ?b = "take tr buf @ take 512 ?i @ drop 512 (drop tr buf)"
  have three: "read_attempts 3 ide_drive = read_attempts (Suc 2) ide_drive" by simp
  have "read_attempts 3 ide_drive (drop tr buf) s = Some (Inr (True, take 512 ?i @ drop 512 (drop tr buf)), ?s)"
    unfolding three read_attempts.simps using run_IORead [of s "drop tr buf"] Suc.prems by (simp add: and_then_def yield_def)
  then have step: "PIO_loop ide_drive False len tr buf s = PIO_loop ide_drive False len (tr + 512) ?b ?s"
    using Suc.prems(3) by (simp add: PIO_loop.simps [of _ _ _ tr] and_then_def yield_def)
  also have "\<dots> = Some (Inr (True, take (tr + 512) ?b @ ide_in (a_hw ?s) @ drop len ?b), ?s\<lparr>a_hw := (a_hw ?s)\<lparr>ide_in := []\<rparr>\<rparr>)"
    by (rule Suc.IH) (use Suc.prems in simp_all)
  also have "take (tr + 512) ?b @ ide_in (a_hw ?s) @ drop len ?b = take tr buf @ ?i @ drop len buf"
    using Suc.prems by (simp add: add.commute)
  finally show ?case by simp
qed

lemma run_puts:
  assumes f: "\<And>x s. x \<in> set xs \<Longrightarrow> ide_port (a_port s) \<Longrightarrow> f x s = Some (Inr (), s\<lparr>a_hw := ide_put (g x) (a_hw s)\<rparr>)" "\<And>x. x \<in> set xs \<Longrightarrow> g x \<noteq> []"
    and "ide_port (a_port s)" "ide_out (a_hw s) = (pos, n)" "length (concat (map g xs)) \<le> n" "pos + n \<le> length (ide_image (a_hw s))"
  shows "steps f xs s = Some (Inr (), s\<lparr>a_hw := (a_hw s)\<lparr>ide_image := patch (ide_image (a_hw s)) pos (concat (map g xs)),
      ide_out := (pos + length (concat (map g xs)), n - length (concat (map g xs)))\<rparr>\<rparr>)"
  using assms
proof (induction xs arbitrary: s pos n)
  case Nil
  then show ?case by (simp add: yield_def)
next
  case (Cons x xs)
  have g: "g x \<noteq> []" using Cons.prems(2) by simp
  let ?s = "s\<lparr>a_hw := ide_put (g x) (a_hw s)\<rparr>"
  have "0 < length (g x)" "length (g x) + length (concat (map g xs)) \<le> n" using g Cons.prems(5) by simp_all
  then have n: "n \<noteq> 0" "length (g x) \<le> n" by linarith+
  have put: "ide_put (g x) (a_hw s) =
      (a_hw s)\<lparr>ide_image := patch (ide_image (a_hw s)) pos (g x), ide_out := (pos + length (g x), n - length (g x))\<rparr>"
    using n Cons.prems(4) by (simp add: ide_put_def)
  have l: "length (patch (ide_image (a_hw s)) pos (g x)) = length (ide_image (a_hw s))" using n Cons.prems(6) by simp
  have "steps f xs ?s = Some (Inr (), ?s\<lparr>a_hw := (a_hw ?s)\<lparr>ide_image := patch (ide_image (a_hw ?s)) (pos + length (g x)) (concat (map g xs)),
      ide_out := (pos + length (g x) + length (concat (map g xs)), n - length (g x) - length (concat (map g xs)))\<rparr>\<rparr>)"
    by (rule Cons.IH) (use Cons.prems n put l in auto)
  moreover have "steps f (x # xs) s = steps f xs ?s" using Cons.prems(1) [of x s] Cons.prems(3) by (simp add: then_do_def and_then_def)
  ultimately show ?case using put patch_patch [of pos "g x" "concat (map g xs)" "ide_image (a_hw s)"] Cons.prems(5,6) by simp
qed

lemma concat_le16:
  assumes "length bs = 2 * n"
  shows "concat (map (\<lambda>i. le16 (from_le16 (drop (2 * i) bs))) [0..<n]) = bs"
  using assms
proof (induction n arbitrary: bs)
  case 0
  then show ?case by simp
next
  case (Suc n)
  have "Suc (Suc 0) \<le> length bs" using Suc.prems by simp
  then obtain a b r where bs: "bs = a # b # r" by (auto simp: Suc_le_length_iff)
  have "[0..<Suc n] = 0 # map Suc [0..<n]" by (simp add: upt_conv_Cons map_Suc_upt)
  then have "concat (map (\<lambda>i. le16 (from_le16 (drop (2 * i) bs))) [0..<Suc n]) =
      le16 (from_le16 bs) @ concat (map (\<lambda>i. le16 (from_le16 (drop (2 * i) r))) [0..<n])"
    by (simp add: bs comp_def)
  then show ?case using Suc.IH [of r] Suc.prems le16_of_bytes [of a b r] bs by simp
qed

lemma run_out: "ATA_WRITE_REG32 ide_drive ATA_REG_DATA w s = Some (Inr (), s\<lparr>a_hw := ide_put (bytes_of [w]) (a_hw s)\<rparr>)"
    "ATA_WRITE_REG16 ide_drive ATA_REG_DATA v s = Some (Inr (), s\<lparr>a_hw := ide_put (le16 v) (a_hw s)\<rparr>)"
  by (simp_all add: ATA_WRITE_REG32_def ATA_WRITE_REG16_def run_gets hw_step_def ide_drive_def)

lemma run_write_block:
  assumes "ide_port (a_port s)" "ide_out (a_hw s) = (pos, n)" "512 \<le> n" "pos + n \<le> length (ide_image (a_hw s))" "length bs = 512"
  shows "write_block ide_drive bs s = Some (Inr (), s\<lparr>a_hw := (a_hw s)\<lparr>ide_image := patch (ide_image (a_hw s)) pos bs, ide_out := (pos + 512, n - 512)\<rparr>\<rparr>)"
proof (cases "bPIO32Bit (a_port s)")
  case True
  have b: "concat (map (\<lambda>w. bytes_of [w]) (words_of bs)) = bs"
  proof -
    have "concat (map (\<lambda>w. bytes_of [w]) ws) = bytes_of ws" for ws by (induction ws) simp_all
    then show ?thesis using bytes_of_words_of [of bs] assms(5) by simp
  qed
  have "steps (ATA_WRITE_REG32 ide_drive ATA_REG_DATA) (words_of bs) s =
      Some (Inr (), s\<lparr>a_hw := (a_hw s)\<lparr>ide_image := patch (ide_image (a_hw s)) pos bs, ide_out := (pos + 512, n - 512)\<rparr>\<rparr>)"
    using run_puts [where f = "ATA_WRITE_REG32 ide_drive ATA_REG_DATA" and g = "\<lambda>w. bytes_of [w]" and xs = "words_of bs" and s = s] assms
    unfolding b by (simp add: run_out)
  then show ?thesis using True by (simp add: write_block_def and_then_def gets_def)
next
  case False
  have b: "concat (map (\<lambda>i. le16 (from_le16 (drop (2 * i) bs))) [0..<256]) = bs" using concat_le16 [of bs 256] assms(5) by simp
  have "steps (\<lambda>i. ATA_WRITE_REG16 ide_drive ATA_REG_DATA (from_le16 (drop (2 * i) bs))) [0..<256] s =
      Some (Inr (), s\<lparr>a_hw := (a_hw s)\<lparr>ide_image := patch (ide_image (a_hw s)) pos bs, ide_out := (pos + 512, n - 512)\<rparr>\<rparr>)"
    using run_puts [where f = "\<lambda>i. ATA_WRITE_REG16 ide_drive ATA_REG_DATA (from_le16 (drop (2 * i) bs))" and
        g = "\<lambda>i. le16 (from_le16 (drop (2 * i) bs))" and xs = "[0..<256]" and s = s] assms
    unfolding b by (simp add: run_out le16_def)
  then show ?thesis using False by (simp add: write_block_def and_then_def gets_def)
qed

lemma run_IOWrite:
  assumes "ide_port (a_port s)" "ide_out (a_hw s) = (pos, n)" "512 \<le> n" "pos + n \<le> length (ide_image (a_hw s))" "512 \<le> length bs"
  shows "ATAPortManager_IOWrite ide_drive bs 512 s = Some (Inr ATA_SUCCESS,
    s\<lparr>a_hw := (a_hw s)\<lparr>ide_image := patch (ide_image (a_hw s)) pos (take 512 bs), ide_out := (pos + 512, n - 512)\<rparr>\<rparr>)"
proof -
  have "ide_status (a_hw s) = 0x48" using assms(2,3) by (auto simp: ide_status_def)
  then show ?thesis using run_read [OF assms(1), of 8] run_write_block [OF assms(1-4), of "take 512 bs"] assms(5)
    by (simp add: ATAPortManager_IOWrite_def IOWrite_loop.simps [of _ _ 0] and_then_def then_do_def yield_def Let_def)
qed

lemma run_PIO_write:
  assumes "ide_port (a_port s)" "ide_out (a_hw s) = (pos, 512 * k)" "pos + 512 * k \<le> length (ide_image (a_hw s))"
    "tr + 512 * k = len" "len \<le> length buf"
  shows "PIO_loop ide_drive True len tr buf s = Some (Inr (True, buf),
    s\<lparr>a_hw := (a_hw s)\<lparr>ide_image := patch (ide_image (a_hw s)) pos (take (512 * k) (drop tr buf)), ide_out := (pos + 512 * k, 0)\<rparr>\<rparr>)"
  using assms
proof (induction k arbitrary: s tr pos)
  case 0
  then show ?case by (simp add: PIO_loop.simps yield_def)
next
  case (Suc k)
  let ?s = "s\<lparr>a_hw := (a_hw s)\<lparr>ide_image := patch (ide_image (a_hw s)) pos (take 512 (drop tr buf)), ide_out := (pos + 512, 512 * k)\<rparr>\<rparr>"
  have three: "attempts 3 m = attempts (Suc 2) m" for m :: "(ide_disk, ata_status) ata_eff" by simp
  have l: "length (take 512 (drop tr buf)) = 512" using Suc.prems(4,5) by simp
  have "attempts 3 (ATAPortManager_IOWrite ide_drive (drop tr buf) 512) s = Some (Inr True, ?s)"
    unfolding three attempts.simps using run_IOWrite [of s pos "512 * Suc k" "drop tr buf"] Suc.prems by (simp add: and_then_def yield_def)
  then have step: "PIO_loop ide_drive True len tr buf s = PIO_loop ide_drive True len (tr + 512) buf ?s"
    using Suc.prems(4) by (simp add: PIO_loop.simps [of _ _ _ tr] and_then_def yield_def)
  also have "\<dots> = Some (Inr (True, buf), ?s\<lparr>a_hw := (a_hw ?s)\<lparr>ide_image :=
      patch (ide_image (a_hw ?s)) (pos + 512) (take (512 * k) (drop (tr + 512) buf)), ide_out := (pos + 512 + 512 * k, 0)\<rparr>\<rparr>)"
    by (rule Suc.IH) (use Suc.prems l in simp_all)
  also have "patch (ide_image (a_hw ?s)) (pos + 512) (take (512 * k) (drop (tr + 512) buf)) =
      patch (ide_image (a_hw s)) pos (take (512 * Suc k) (drop tr buf))"
    using patch_patch [of pos "take 512 (drop tr buf)" "take (512 * k) (drop (tr + 512) buf)" "ide_image (a_hw s)"] Suc.prems l
    by (simp add: take_add add.commute)
  finally show ?case by (simp add: add.commute add.left_commute)
qed

section \<open>A command for sectors\<close>

lemma sector_command_fields [simp]:
  "pTransferBuffer (sector_command cmd e a len buf) = buf" "uiTransferLength (sector_command cmd e a len buf) = len"
  "ac_command (sector_command cmd e a len buf) ! 7 = cmd"
  by (simp_all add: sector_command_def Let_def)

lemma loaded_range:
  assumes "loaded e p (ac_command (sector_command cmd e a len buf)) d" "e \<or> a < 0x10000000" "unat len = 512 * k" "k < 256"
  shows "ide_range d e = (unat a, k)" "ide_cur d ! 6 AND ATA_DEVICE_SLAVE \<noteq> 0 \<longleftrightarrow> uiPort p \<noteq> 0" "ide_cur d ! 6 AND ATA_DEVICE_LBA \<noteq> 0"
proof -
  let ?b = "\<lambda>k. ucast (drop_bit k a AND 0xFF) :: u8"
  have cur: "ide_cur d ! 3 = ?b 0" "ide_cur d ! 4 = ?b 8" "ide_cur d ! 5 = ?b 16" "ide_cur d ! 2 = ucast (len div 512)"
      "ide_cur d ! 6 = drive_select p OR (if e then ATA_DEVICE_LBA else ATA_DEVICE_LBA OR ?b 24)"
    using assms(1) by (simp_all add: loaded_def sector_command_def Let_def)
  have hob: "e \<Longrightarrow> ide_hob d ! 2 = 0" "e \<Longrightarrow> ide_hob d ! 3 = ?b 24" "e \<Longrightarrow> ide_hob d ! 4 = 0" "e \<Longrightarrow> ide_hob d ! 5 = 0"
    using assms(1) by (simp_all add: loaded_def sector_command_def Let_def)
  have count: "unat (ucast (len div 512) :: u8) = k"
    using assms(3,4) by (simp add: unsigned_ucast_eq unat_div take_bit_nat_eq_self)
  have hi: "\<not> e \<Longrightarrow> ?b 24 < 16" using assms(2) address_byte [of 24 a] by (simp add: word_less_nat_alt less_mult_imp_div_less)
  show "ide_cur d ! 6 AND ATA_DEVICE_SLAVE \<noteq> 0 \<longleftrightarrow> uiPort p \<noteq> 0" "ide_cur d ! 6 AND ATA_DEVICE_LBA \<noteq> 0"
    using device_register [OF hi] device_register [of 0] by (cases e; simp add: cur)+
  show "ide_range d e = (unat a, k)"
  proof (cases e)
    case True
    have "join_bytes [x, y, z, w, 0, 0] = join_bytes [x, y, z, w]" "join_bytes [x, 0] = unat x" for x y z w by (simp_all add: join_bytes_def)
    then show ?thesis using True by (simp add: ide_range_def cur hob count join_bytes_word [simplified])
  next
    case False
    then show ?thesis using device_register(1) [OF hi] by (simp add: ide_range_def cur count join_bytes_word [simplified])
  qed
qed

lemma ATA_round_PIO:
  assumes "uiCurrentSpeed (a_port s) = ATA_SPEED_PIO"
  shows "ATA_round A SEG again c0 s = (let c = c0\<lparr>iStatus := - 1, iError := ATACommandManager_ERR_IO\<rparr>; w = (ac_command c ! ATA_REG_COMMAND = ATA_CMD_WRITE_PIO) in
    and_then (ATAPortManager_IOWait A ATA_STATUS_BUSY 0) (\<lambda>st. if st \<noteq> ATA_SUCCESS then failed_command A c else
    then_do (write_registers A False c)
    (and_then (ATAPortManager_IOWait A ATA_STATUS_BUSY 0) (\<lambda>st. if st \<noteq> ATA_SUCCESS then failed_command A c else
    then_do (ATA_WRITE_REG A ATA_REG_COMMAND (transfer_command False w (bLBA48Bit (a_port s))))
    (and_then (ATA_READ_REG A ATA_REG_CONTROL) (\<lambda>_.
     and_then (PIO_loop A w (unat (uiTransferLength c)) 0 (pTransferBuffer c)) (\<lambda>(ok, buf).
      let c = c\<lparr>pTransferBuffer := buf\<rparr> in yield (if ok then c\<lparr>iStatus := 0, iError := 0\<rparr> else c))))))) s)"
  using assms unfolding ATA_round_def Let_def run_gets by (simp cong: if_cong)

lemma run_sector_command:
  fixes a len :: u32
  defines "cmd \<equiv> \<lambda>w. if w then ATA_CMD_WRITE_PIO else ATA_CMD_READ_PIO"
  assumes at: "ide_attached (a_port s) (a_hw s)" and e: "bLBA48Bit (a_port s) \<or> a < 0x10000000"
    and k: "unat len = 512 * k" "0 < k" "k < 256" and fits: "(unat a + k) * 512 \<le> length (ide_image (a_hw s))" and buf: "512 * k \<le> length buf"
  shows "\<exists>d. ATACommandManager_Queue m ide_drive SEG (sector_command (cmd False) (bLBA48Bit (a_port s)) a len buf) s =
      Some (Inr (sector_command (cmd False) (bLBA48Bit (a_port s)) a len buf\<lparr>iStatus := 0, iError := 0,
        pTransferBuffer := take (512 * k) (drop (512 * unat a) (ide_image (a_hw s))) @ drop (512 * k) buf\<rparr>), s\<lparr>a_hw := d\<rparr>) \<and>
      ide_attached (a_port s) d \<and> ide_image d = ide_image (a_hw s)"
    "\<exists>d. ATACommandManager_Queue m ide_drive SEG (sector_command (cmd True) (bLBA48Bit (a_port s)) a len buf) s =
      Some (Inr (sector_command (cmd True) (bLBA48Bit (a_port s)) a len buf\<lparr>iStatus := 0, iError := 0\<rparr>), s\<lparr>a_hw := d\<rparr>) \<and>
      ide_attached (a_port s) d \<and> ide_image d = patch (ide_image (a_hw s)) (512 * unat a) (take (512 * k) buf)"
proof -
  let ?p = "a_port s" and ?e = "bLBA48Bit (a_port s)" and ?img = "ide_image (a_hw s)"
  have p: "ide_port ?p" "uiCurrentSpeed ?p = 0" "uiDevice ?p = ATA_DEV_ATA" using at by (simp_all add: ide_attached_def ide_port_def)
  have run: "\<exists>d. ide_attached ?p d \<and> ide_image d = ?img \<and>
      ATACommandManager_Queue m ide_drive SEG (sector_command (cmd w) ?e a len buf) s =
      and_then (PIO_loop ide_drive w (512 * k) 0 buf) (\<lambda>(ok, b). let c = sector_command (cmd w) ?e a len buf\<lparr>iStatus := - 1, iError := 1, pTransferBuffer := b\<rparr>
        in yield (if ok then c\<lparr>iStatus := 0, iError := 0\<rparr> else c))
      (s\<lparr>a_hw := if w then d\<lparr>ide_in := [], ide_out := (512 * unat a, 512 * k)\<rparr>
        else d\<lparr>ide_in := take (512 * k) (drop (512 * unat a) ?img), ide_out := (0, 0)\<rparr>\<rparr>)" for w
  proof -
    let ?c = "sector_command (cmd w) ?e a len buf\<lparr>iStatus := - 1, iError := 1\<rparr>"
    obtain d where d: "write_registers ide_drive False ?c s = Some (Inr (), s\<lparr>a_hw := d\<rparr>)" "ide_attached ?p d" "ide_image d = ?img"
        "loaded ?e ?p (ac_command (sector_command (cmd w) ?e a len buf)) d"
      using run_write_registers [OF at, of False ?c] by auto
    note r = loaded_range [OF d(4) e k(1,3)]
    have "ide_command (transfer_command False w ?e) d = (if w then d\<lparr>ide_in := [], ide_out := (512 * unat a, 512 * k)\<rparr>
        else d\<lparr>ide_in := take (512 * k) (drop (512 * unat a) ?img), ide_out := (0, 0)\<rparr>)"
      using r d(2,3) k(2) fits by (cases w; cases ?e) (simp_all add: ide_command_def transfer_command_def Let_def ide_attached_def mult.commute)
    then have "ide_write 7 (transfer_command False w ?e) d = (if w then d\<lparr>ide_in := [], ide_out := (512 * unat a, 512 * k)\<rparr>
        else d\<lparr>ide_in := take (512 * k) (drop (512 * unat a) ?img), ide_out := (0, 0)\<rparr>)" by (simp add: ide_write_def)
    moreover have "(cmd w = ATA_CMD_WRITE_PIO) = w" by (simp add: cmd_def)
    moreover have "and_then (write_registers ide_drive False ?c) g s = g () (s\<lparr>a_hw := d\<rparr>)" for g :: "unit \<Rightarrow> (ide_disk, ata_command) ata_eff"
      using d(1) by (simp add: and_then_def)
    ultimately show ?thesis using d(2,3) p k
      by (cases w; intro exI [of _ d]) (simp_all add: ATACommandManager_Queue_def ATACommandManager_ExecuteATACommand_def run_gets ATA_round_PIO run_then
        run_wait_then run_write_then run_read_then Let_def)
  qed
  show "\<exists>d. ATACommandManager_Queue m ide_drive SEG (sector_command (cmd False) ?e a len buf) s =
      Some (Inr (sector_command (cmd False) ?e a len buf\<lparr>iStatus := 0, iError := 0,
        pTransferBuffer := take (512 * k) (drop (512 * unat a) ?img) @ drop (512 * k) buf\<rparr>), s\<lparr>a_hw := d\<rparr>) \<and>
      ide_attached ?p d \<and> ide_image d = ?img"
  proof -
    obtain d where d: "ide_attached ?p d" "ide_image d = ?img" and r: "ATACommandManager_Queue m ide_drive SEG (sector_command (cmd False) ?e a len buf) s =
        and_then (PIO_loop ide_drive False (512 * k) 0 buf) (\<lambda>(ok, b). let c = sector_command (cmd False) ?e a len buf
          \<lparr>iStatus := - 1, iError := 1, pTransferBuffer := b\<rparr> in yield (if ok then c\<lparr>iStatus := 0, iError := 0\<rparr> else c))
        (s\<lparr>a_hw := d\<lparr>ide_in := take (512 * k) (drop (512 * unat a) ?img), ide_out := (0, 0)\<rparr>\<rparr>)"
      using run [of False] by auto
    let ?s = "s\<lparr>a_hw := d\<lparr>ide_in := take (512 * k) (drop (512 * unat a) ?img), ide_out := (0, 0)\<rparr>\<rparr>"
    have "length (ide_in (a_hw ?s)) = 512 * k" using fits by (simp add: algebra_simps)
    then have "PIO_loop ide_drive False (512 * k) 0 buf ?s = Some (Inr (True, take 0 buf @ ide_in (a_hw ?s) @ drop (512 * k) buf),
        ?s\<lparr>a_hw := (a_hw ?s)\<lparr>ide_in := []\<rparr>\<rparr>)"
      using p(1) buf by (intro run_PIO_read) simp_all
    then show ?thesis using d r
      by (intro exI [of _ "d\<lparr>ide_in := [], ide_out := (0, 0)\<rparr>"]) (simp add: and_then_def yield_def Let_def ide_attached_def)
  qed
  show "\<exists>d. ATACommandManager_Queue m ide_drive SEG (sector_command (cmd True) ?e a len buf) s =
      Some (Inr (sector_command (cmd True) ?e a len buf\<lparr>iStatus := 0, iError := 0\<rparr>), s\<lparr>a_hw := d\<rparr>) \<and>
      ide_attached ?p d \<and> ide_image d = patch ?img (512 * unat a) (take (512 * k) buf)"
  proof -
    obtain d where d: "ide_attached ?p d" "ide_image d = ?img" and r: "ATACommandManager_Queue m ide_drive SEG (sector_command (cmd True) ?e a len buf) s =
        and_then (PIO_loop ide_drive True (512 * k) 0 buf) (\<lambda>(ok, b). let c = sector_command (cmd True) ?e a len buf
          \<lparr>iStatus := - 1, iError := 1, pTransferBuffer := b\<rparr> in yield (if ok then c\<lparr>iStatus := 0, iError := 0\<rparr> else c))
        (s\<lparr>a_hw := d\<lparr>ide_in := [], ide_out := (512 * unat a, 512 * k)\<rparr>\<rparr>)"
      using run [of True] by auto
    let ?s = "s\<lparr>a_hw := d\<lparr>ide_in := [], ide_out := (512 * unat a, 512 * k)\<rparr>\<rparr>"
    have "PIO_loop ide_drive True (512 * k) 0 buf ?s = Some (Inr (True, buf),
        ?s\<lparr>a_hw := (a_hw ?s)\<lparr>ide_image := patch (ide_image (a_hw ?s)) (512 * unat a) (take (512 * k) (drop 0 buf)), ide_out := (512 * unat a + 512 * k, 0)\<rparr>\<rparr>)"
      using p(1) buf fits d(2) by (intro run_PIO_write) (simp_all add: algebra_simps)
    then show ?thesis using d r
      by (intro exI [of _ "d\<lparr>ide_image := patch ?img (512 * unat a) (take (512 * k) buf), ide_in := [], ide_out := (512 * unat a + 512 * k, 0)\<rparr>"])
        (simp add: and_then_def yield_def Let_def ide_attached_def)
  qed
qed

section \<open>Sectors\<close>

text \<open>What a read of \<open>n\<close> sectors gives: pieces of up to 32 sectors, each of which starts one sector after the piece before it.\<close>

function pieces :: "u8 list \<Rightarrow> nat \<Rightarrow> nat \<Rightarrow> u8 list" where
  "pieces img a n = (if n = 0 then [] else take (512 * min n 32) (drop (512 * a) img) @ pieces img (a + 1) (n - min n 32))"
  by pat_completeness auto
termination by (relation "measure (\<lambda>(_, _, n). n)") auto

declare pieces.simps [simp del]

lemma ATADrive_loop_reads:
  assumes "ide_attached (a_port s) (a_hw s)" "bLBA48Bit (a_port s) \<or> unat a + n \<le> 0x10000000" "(unat a + n) * 512 \<le> length (ide_image (a_hw s))"
    "unat a + n < 2 ^ 32" "unat len = unat tr + 512 * n" "unat len \<le> length buf"
  shows "\<exists>d. ATADrive_loop m ide_drive SEG False len a tr buf s =
      Some (Inr (take (unat tr) buf @ pieces (ide_image (a_hw s)) (unat a) n @ drop (unat len) buf), s\<lparr>a_hw := d\<rparr>) \<and>
    ide_attached (a_port s) d \<and> ide_image d = ide_image (a_hw s)"
  using assms
proof (induction n arbitrary: a tr buf s rule: less_induct)
  case (less n)
  show ?case
  proof (cases "n = 0")
    case True
    then have "len = tr" using less.prems(5) by (simp add: word_unat_eq_iff)
    then show ?thesis using True less.prems(1) by (intro exI [of _ "a_hw s"]) (simp add: ATADrive_loop.simps pieces.simps yield_def)
  next
    case False
    let ?k = "min n 32" and ?img = "ide_image (a_hw s)" and ?c = "\<lambda>l. sector_command ATA_CMD_READ_PIO (bLBA48Bit (a_port s)) a l (drop (unat tr) buf)"
    define l :: u32 where "l = (if len - tr < 16384 then len - tr else 16384)"
    have tr: "tr < len" "unat (len - tr) = 512 * n" using less.prems(5) False by (simp_all add: word_less_nat_alt unat_sub word_le_nat_alt)
    have l: "unat l = 512 * ?k" using tr by (auto simp: l_def word_less_nat_alt min_def)
    have k: "0 < ?k" "?k < 256" "?k \<le> n" using False by auto
    have fits: "(unat a + ?k) * 512 \<le> length ?img" by (rule le_trans [OF _ less.prems(3)]) (use k(3) in simp)
    have e: "bLBA48Bit (a_port s) \<or> a < 0x10000000" using less.prems(2) False by (auto simp: word_less_nat_alt)
    have buf: "512 * ?k \<le> length (drop (unat tr) buf)" using less.prems(5,6) k(3) by simp
    obtain d where d: "ATACommandManager_Queue m ide_drive SEG (?c l) s =
        Some (Inr (?c l\<lparr>iStatus := 0, iError := 0, pTransferBuffer := take (512 * ?k) (drop (512 * unat a) ?img) @ drop (512 * ?k) (drop (unat tr) buf)\<rparr>),
          s\<lparr>a_hw := d\<rparr>)" "ide_attached (a_port s) d" "ide_image d = ?img"
      using run_sector_command(1) [OF less.prems(1) e l k(1,2) fits buf, of m SEG] by auto
    let ?b = "take (unat tr) buf @ take (512 * ?k) (drop (512 * unat a) ?img) @ drop (unat tr + 512 * ?k) buf"
    have step: "ATADrive_loop m ide_drive SEG False len a tr buf s = ATADrive_loop m ide_drive SEG False len (a + 1) (tr + l) ?b (s\<lparr>a_hw := d\<rparr>)"
      using tr(1) d(1) by (simp add: ATADrive_loop.simps [of _ _ _ _ len a] l_def [symmetric] Let_def run_gets and_then_def gets_def add.commute)
    have a1: "unat (a + 1) = unat a + 1" using less.prems(4) False by (subst unat_add_no_wrap) simp_all
    have t1: "unat (tr + l) = unat tr + 512 * ?k"
    proof (subst unat_add_no_wrap)
      have "unat tr + unat l \<le> unat len" using less.prems(5) l k(3) by simp
      then show "unat tr + unat l < 2 ^ LENGTH(32)" by (rule le_less_trans) simp
    qed (simp add: l)
    have lp: "length (take (512 * ?k) (drop (512 * unat a) ?img)) = 512 * ?k" using fits by (simp add: algebra_simps)
    then have lb: "length ?b = length buf" using less.prems(5,6) k(3) by simp
    have "\<exists>d'. ATADrive_loop m ide_drive SEG False len (a + 1) (tr + l) ?b (s\<lparr>a_hw := d\<rparr>) =
      Some (Inr (take (unat (tr + l)) ?b @ pieces (ide_image (a_hw (s\<lparr>a_hw := d\<rparr>))) (unat (a + 1)) (n - ?k) @ drop (unat len) ?b),
        s\<lparr>a_hw := d\<rparr>\<lparr>a_hw := d'\<rparr>) \<and> ide_attached (a_port (s\<lparr>a_hw := d\<rparr>)) d' \<and> ide_image d' = ide_image (a_hw (s\<lparr>a_hw := d\<rparr>))"
    proof (rule less.IH)
      show "n - ?k < n" using False by simp
      show "unat len = unat (tr + l) + 512 * (n - ?k)" using less.prems(5) k(3) unfolding t1 by (simp add: diff_mult_distrib2)
    qed (use less.prems d(2,3) a1 k lb False in \<open>auto simp: algebra_simps\<close>)
    then obtain d' where d': "ATADrive_loop m ide_drive SEG False len (a + 1) (tr + l) ?b (s\<lparr>a_hw := d\<rparr>) =
      Some (Inr (take (unat (tr + l)) ?b @ pieces ?img (unat a + 1) (n - ?k) @ drop (unat len) ?b), s\<lparr>a_hw := d'\<rparr>)"
        "ide_attached (a_port s) d'" "ide_image d' = ?img"
      using d(3) a1 by auto
    have "take (unat (tr + l)) ?b @ pieces ?img (unat a + 1) (n - ?k) @ drop (unat len) ?b =
        take (unat tr) buf @ pieces ?img (unat a) n @ drop (unat len) buf"
      using False lp less.prems(5,6) k(3) unfolding t1 pieces.simps [of ?img "unat a" n] by (simp add: add.commute)
    then show ?thesis using step d' by auto
  qed
qed

lemma sector_length: "unat (n :: u32) \<le> 0x7FFFFF \<Longrightarrow> unat (n * 512) = 512 * unat n"
  by (subst unat_mult_lem [THEN iffD1]) simp_all

lemma ATADrive_Read_pieces:
  assumes "ide_attached (a_port s) (a_hw s)" "bLBA48Bit (a_port s) \<or> unat a + unat n \<le> 0x10000000"
    "(unat a + unat n) * 512 \<le> length (ide_image (a_hw s))" "unat a + unat n < 2 ^ 32" "unat n \<le> 0x7FFFFF" "512 * unat n \<le> length buf"
  shows "\<exists>d. ATADrive_Read m ide_drive SEG a buf n s = Some (Inr (pieces (ide_image (a_hw s)) (unat a) (unat n) @ drop (512 * unat n) buf),
      s\<lparr>a_hw := d\<rparr>) \<and> ide_attached (a_port s) d \<and> ide_image d = ide_image (a_hw s)"
  using ATADrive_loop_reads [OF assms(1-4), of "n * 512" 0 buf m SEG] sector_length [OF assms(5)] assms(6) by (simp add: ATADrive_Read_def)

lemma ATADrive_Write_sectors:
  assumes "ide_attached (a_port s) (a_hw s)" "bLBA48Bit (a_port s) \<or> unat a + unat n \<le> 0x10000000"
    "(unat a + unat n) * 512 \<le> length (ide_image (a_hw s))" "unat n \<le> 32" "512 * unat n \<le> length buf"
  shows "\<exists>d. ATADrive_Write m ide_drive SEG a buf n s = Some (Inr (), s\<lparr>a_hw := d\<rparr>) \<and>
    ide_attached (a_port s) d \<and> ide_image d = patch (ide_image (a_hw s)) (512 * unat a) (take (512 * unat n) buf)"
proof (cases "n = 0")
  case True
  then show ?thesis using assms(1)
    by (intro exI [of _ "a_hw s"]) (simp add: ATADrive_Write_def ATADrive_loop.simps and_then_def yield_def)
next
  case False
  let ?l = "n * 512" and ?c = "sector_command ATA_CMD_WRITE_PIO (bLBA48Bit (a_port s)) a (n * 512) buf"
  have l: "unat ?l = 512 * unat n" "0 < unat n" using sector_length [of n] assms(4) False by (simp_all add: word_gt_0 unat_gt_0)
  have e: "bLBA48Bit (a_port s) \<or> a < 0x10000000" using assms(2) l(2) by (auto simp: word_less_nat_alt)
  obtain d where d: "ATACommandManager_Queue m ide_drive SEG ?c s = Some (Inr (?c\<lparr>iStatus := 0, iError := 0\<rparr>), s\<lparr>a_hw := d\<rparr>)"
      "ide_attached (a_port s) d" "ide_image d = patch (ide_image (a_hw s)) (512 * unat a) (take (512 * unat n) buf)"
    using run_sector_command(2) [OF assms(1) e l(1,2) _ assms(3) assms(5), of m SEG] assms(4) by auto
  have len: "(if ?l - 0 < 16384 then ?l - 0 else 16384) = ?l" "0 < ?l"
    using l assms(4) by (auto simp: word_less_nat_alt word_unat_eq_iff)
  have "ATADrive_loop m ide_drive SEG True ?l a 0 buf s = Some (Inr buf, s\<lparr>a_hw := d\<rparr>)"
    using d(1) len by (simp add: ATADrive_loop.simps [of _ _ _ _ ?l a] ATADrive_loop.simps [of _ _ _ _ ?l "a + 1" ?l] Let_def run_gets and_then_def gets_def yield_def)
  then show ?thesis using d(2,3) by (intro exI [of _ d]) (simp add: ATADrive_Write_def and_then_def yield_def)
qed

text \<open>C14: Programmed transfers of up to 32 sectors are those of an array of sectors: reading gives the bytes of these sectors and leaves
  the disk alone, writing puts the bytes of the buffer there, with 28 and with 48 bit addresses, on either drive of the channel and with
  words of 16 and 32 bits.\<close>

theorem ide_disk_transfers_sectors:
  assumes "ide_attached (a_port s) (a_hw s)" "bLBA48Bit (a_port s) \<or> unat a + unat n \<le> 0x10000000"
    "(unat a + unat n) * 512 \<le> length (ide_image (a_hw s))" "unat a + unat n < 2 ^ 32" "unat n \<le> 32" "512 * unat n \<le> length buf"
  shows "(\<exists>d. ATADrive_Read m ide_drive SEG a buf n s =
        Some (Inr (take (512 * unat n) (drop (512 * unat a) (ide_image (a_hw s))) @ drop (512 * unat n) buf), s\<lparr>a_hw := d\<rparr>) \<and>
      ide_attached (a_port s) d \<and> ide_image d = ide_image (a_hw s)) \<and>
    (\<exists>d. ATADrive_Write m ide_drive SEG a buf n s = Some (Inr (), s\<lparr>a_hw := d\<rparr>) \<and> ide_attached (a_port s) d \<and>
      ide_image d = take (512 * unat a) (ide_image (a_hw s)) @ take (512 * unat n) buf @ drop (512 * (unat a + unat n)) (ide_image (a_hw s)))"
proof (intro conjI)
  have "pieces (ide_image (a_hw s)) (unat a) (unat n) = take (512 * unat n) (drop (512 * unat a) (ide_image (a_hw s)))"
    using assms(5) by (simp add: pieces.simps [of _ _ "unat n"] pieces.simps [of _ _ 0] min_def)
  then show "\<exists>d. ATADrive_Read m ide_drive SEG a buf n s =
        Some (Inr (take (512 * unat n) (drop (512 * unat a) (ide_image (a_hw s))) @ drop (512 * unat n) buf), s\<lparr>a_hw := d\<rparr>) \<and>
      ide_attached (a_port s) d \<and> ide_image d = ide_image (a_hw s)"
    using ATADrive_Read_pieces [OF assms(1-4) _ assms(6), of m SEG] assms(5) by simp
  show "\<exists>d. ATADrive_Write m ide_drive SEG a buf n s = Some (Inr (), s\<lparr>a_hw := d\<rparr>) \<and> ide_attached (a_port s) d \<and>
      ide_image d = take (512 * unat a) (ide_image (a_hw s)) @ take (512 * unat n) buf @ drop (512 * (unat a + unat n)) (ide_image (a_hw s))"
    using ATADrive_Write_sectors [OF assms(1-3,5,6), of m SEG] assms(6) by (simp add: patch_def distrib_left min_absorb2)
qed

definition sample_ide_port :: ata_port where
  "sample_ide_port = \<lparr>uiPort = 1, uiCable = ATA_CABLE_UNKNOWN, uiDevice = ATA_DEV_ATA, bConfigured = True, bMMIO = False, uiCurrentSpeed = 0,
     uiSupportedPortSpeed = 1, uiSupportedDriveSpeed = 1, bPIO32Bit = True, bLBA48Bit = False, szDeviceName = [], uiDMARegs = [0, 2, 4],
     uiRegs = [0x1F0, 0x1F1, 0x1F2, 0x1F3, 0x1F4, 0x1F5, 0x1F6, 0x1F7, 0x3F6], ap_id = ATAIdentifyInfo (replicate 512 0),
     pPRDTable = [], PRDTable_address = 0, pDMATransferAddr = 0\<rparr>"

definition sample_ide_disk :: "nat \<Rightarrow> ide_disk" where
  "sample_ide_disk n = \<lparr>ide_image = concat (map (\<lambda>k. replicate 512 (of_nat k)) [0..<n]), ide_slave = True, ide_cur = replicate 9 0,
     ide_hob = replicate 9 0, ide_in = [], ide_out = (0, 0)\<rparr>"

lemma sample_ide: "ide_attached sample_ide_port (sample_ide_disk n)" "length (ide_image (sample_ide_disk n)) = 512 * n"
  by (simp_all add: ide_attached_def ide_port_def sample_ide_port_def sample_ide_disk_def length_concat comp_def sum_list_const_mult
      sum_list_triv)

lemma sample_ide_sectors:
  assumes "k + j \<le> n"
  shows "take (512 * j) (drop (512 * k) (ide_image (sample_ide_disk n))) = concat (map (\<lambda>k. replicate 512 (of_nat k)) [k..<k + j])"
proof -
  let ?f = "\<lambda>k. replicate 512 (of_nat k :: u8)"
  have l: "length (concat (map ?f xs)) = 512 * length xs" for xs by (induction xs) simp_all
  have "[0..<n] = [0..<k] @ [k..<k + j] @ [k + j..<n]"
    using assms upt_add_eq_append [of 0 k "n - k"] upt_add_eq_append [of k "k + j" "n - (k + j)"] by simp
  then show ?thesis using l [of "[0..<k]"] l [of "[k..<k + j]"] by (simp add: sample_ide_disk_def)
qed

theorem ide_disk_transfers_sectors_witness:
  "\<exists>d. ATADrive_Read 0 ide_drive 0 1 (replicate 1024 9) 2 \<lparr>a_port = sample_ide_port, a_hw = sample_ide_disk 3\<rparr> =
    Some (Inr (replicate 512 1 @ replicate 512 2), \<lparr>a_port = sample_ide_port, a_hw = d\<rparr>)"
  using ide_disk_transfers_sectors [of "\<lparr>a_port = sample_ide_port, a_hw = sample_ide_disk 3\<rparr>" 1 2 "replicate 1024 9" 0 0]
    sample_ide [of 3] sample_ide_sectors [of 1 2 3] by (auto simp: upt_rec)

text \<open>A read of more than 32 sectors gives wrong sectors: its second piece starts one sector, not 32 sectors, after the first.\<close>

theorem long_ide_read_repeats_sectors:
  assumes "ide_attached (a_port s) (a_hw s)" "bLBA48Bit (a_port s) \<or> unat a + unat n \<le> 0x10000000"
    "(unat a + unat n) * 512 \<le> length (ide_image (a_hw s))" "unat a + unat n < 2 ^ 32" "32 < unat n" "unat n \<le> 64" "512 * unat n \<le> length buf"
  shows "\<exists>d. ATADrive_Read m ide_drive SEG a buf n s = Some (Inr (take (512 * 32) (drop (512 * unat a) (ide_image (a_hw s))) @
      take (512 * (unat n - 32)) (drop (512 * (unat a + 1)) (ide_image (a_hw s))) @ drop (512 * unat n) buf), s\<lparr>a_hw := d\<rparr>)"
proof -
  have "pieces (ide_image (a_hw s)) (unat a) (unat n) = take (512 * 32) (drop (512 * unat a) (ide_image (a_hw s))) @
      take (512 * (unat n - 32)) (drop (512 * (unat a + 1)) (ide_image (a_hw s)))"
    using assms(5,6) by (simp add: pieces.simps [of _ _ "unat n"] pieces.simps [of _ _ "unat n - 32"] pieces.simps [of _ _ 0] min_def)
  then show ?thesis using ATADrive_Read_pieces [OF assms(1-4) _ assms(7), of m SEG] assms(6) by auto
qed

theorem long_ide_read_repeats_sectors_witness:
  "\<exists>d. ATADrive_Read 0 ide_drive 0 0 (replicate 16896 9) 33 \<lparr>a_port = sample_ide_port, a_hw = sample_ide_disk 40\<rparr> =
    Some (Inr (concat (map (\<lambda>k. replicate 512 (of_nat k)) ([0..<32] @ [1]))), \<lparr>a_port = sample_ide_port, a_hw = d\<rparr>)"
  using long_ide_read_repeats_sectors [of "\<lparr>a_port = sample_ide_port, a_hw = sample_ide_disk 40\<rparr>" 0 33 "replicate 16896 9" 0 0]
    sample_ide [of 40] sample_ide_sectors [of 0 32 40] sample_ide_sectors [of 1 1 40] by simp

end
