(* ===== verification/Spec2Isabelle.thy ===== *)
theory Spec2Isabelle
  imports MDate Heap Paging FileDescs ProcEnv FileDisk FileOps SchedFacts PartitionProofs AddressProofs XhciProofs XhciContext DisplayProofs PS2Proofs ScsiProofs AtaProofs
begin

text \<open>
  Upanix is a small operating system for the i386: a kernel in C++ with paging, processes and threads under a round-robin scheduler,
  its own file system on partitioned disks behind a sector cache, a text console, and drivers for PS/2, USB and disks. This library models
  the parts of the kernel that decide something (allocators, page tables, caches, tables on disk, rings shared with hardware, state
  machines) as functions, one theory or group of theories per component, and proves what makes each of them correct, or where it is not,
  what goes wrong.

  \<^bold>\<open>Conventions.\<close> A struct or class is a record, an enumeration a datatype, an \<open>unsigned\<close>, \<open>byte\<close> or \<open>uint64_t\<close> a word of its width with
  wrap-around, a signed \<open>int\<close> an \<open>int\<close>; where it can leave its 32 bits the overflow is written out (\<open>int_op\<close> of \<open>MDate\<close>: undefined;
  \<open>wrap_int\<close> of \<open>Display\<close>: wraps), elsewhere an \<open>int\<close> stands for a value of its type. A thrown \<open>upan::exception\<close> or an error code is the left
  of a sum; undefined behaviour and reads of memory that the model says nothing of are \<open>None\<close>. Longer operations are written with the combinators of \<open>Effects\<close>, statement by statement;
  \<open>wp\<close> is their calculus. The containers of libupanix (a git submodule: vector, list, map, set, string, option) are read with the semantics
  of their namesakes in the C++ standard library, and the B-tree of the sector cache is a map. Hardware is a parameter: a function of what was
  read and written (\<open>PortIO\<close>), the pipes of a USB device (\<open>Scsi\<close>), the consumer at the other end of a ring (\<open>CycleRing\<close>). Every lemma on
  such a parameter holds for all of them or states what it needs of them. Printing on the console for debugging, delays, and the masking
  of interrupts are left out unless a theory says otherwise; system calls run one after the other. A run of
  operations (\<open>kernel_heap_run\<close>, \<open>fd_run\<close>, \<open>serves\<close>, \<open>run_event\<close>) does not restrict what the clients ask for; where a property needs a
  restriction, it is a hypothesis on the log of the run or on its list of operations.

  \<^bold>\<open>Memory.\<close> \<open>ByteMem\<close> is memory of bytes. \<open>Heap\<close>: the kernel and process heaps of \<open>memory/DMM.cpp\<close>, refined to a first-fit allocator over
  a tiling of chunks. \<open>Pool\<close>: the contract of everything that hands out numbered resources (a locale, interpreted wherever such an allocator
  occurs). \<open>Pages\<close> and \<open>Paging\<close>: the page bit map, kernel pages, stacks, page tables and page faults of \<open>memory/MemManager.cpp\<close>.
  \<open>AddressSpace\<close> and \<open>AddressProofs\<close>: building and releasing the address space of a process (\<open>process/UserProcess.cpp\<close>,
  \<open>UserThread.cpp\<close>); all frames are given back.

  \<^bold>\<open>Files.\<close> \<open>FileDescs\<close>: descriptors and \<open>dup2\<close>. \<open>BlockDev\<close> is the contract of a drive (a locale), \<open>Drives\<close> the cached drive of
  \<open>drivers/DeviceDrive.cpp\<close> and \<open>DiskCache.cpp\<close>, which refines an array of sectors, \<open>Volumes\<close> the drive with its cache on or off.
  \<open>FsTable\<close>: boot block, file system table and free pool of \<open>filesystem/FileSystem.cpp\<close>; \<open>FsProofs\<close> and \<open>FsDisk\<close> show it to be an array of
  entries under its table cache. \<open>Directory\<close>, \<open>FileIO\<close>, \<open>DirOps\<close>, \<open>FileOps\<close>: \<open>Directory.cpp\<close> and \<open>FileOperations.cpp\<close>;
  \<open>DirProofs\<close>, \<open>FileProofs\<close>, \<open>FileDisk\<close> show lookup and reading to be what the chains of sectors say. \<open>Partitions\<close> and \<open>PartitionProofs\<close>:
  \<open>drivers/PartitionManager.cpp\<close>. \<open>Scsi\<close> and \<open>ScsiProofs\<close>: SCSI disks over USB mass storage, against a reference device. \<open>Ata\<close> and \<open>AtaProofs\<close>:
  the IDE disks of \<open>drivers/ide\<close> - ports, programmed and DMA transfers, ATA and packet commands, timings -, whose transfers of up to 32
  sectors are shown to be those of an array of sectors on a reference drive.

  \<^bold>\<open>Processes.\<close> \<open>Scheduler\<close>, \<open>SchedProofs\<close>, \<open>SchedFacts\<close>: processes, threads, waiting, resources and the scheduler of
  \<open>process/ProcessManager.cpp\<close> and its neighbours as operations on a table of processes, with an invariant and service in turn.
  A resource lock (\<open>ResourceMutex_Lock\<close>) goes on with \<open>Lock_end\<close> when its process is given the processor again. \<open>ProcEnv\<close>: environment
  variables. \<open>MDate\<close>: the calendar library, measured by the closed formulas of the Julian and the Gregorian calendar (\<open>julian_day\<close>,
  \<open>gregorian_day\<close>).

  \<^bold>\<open>Devices.\<close> \<open>CycleRing\<close> is the protocol of rings with cycle bits (a locale), \<open>XhciRing\<close>, \<open>XhciProofs\<close> the transfer, command and event
  rings of the xHCI driver, \<open>XhciContext\<close> its contexts and registers. \<open>Display\<close> and \<open>DisplayProofs\<close>: the text console, shown to keep the
  screen equal to the buffer of the foreground session in every run that is defined, with the exact condition for an operation to be
  defined (a raw character may leave the buffer). \<open>PortIO\<close>, \<open>PS2\<close>, \<open>PS2Proofs\<close>: the PS/2 controller with keyboard and mouse.

  \<^bold>\<open>Parameters and bounds.\<close> The layout of a directory node and of the constants of the file system in unlisted headers are the records
  \<open>node_codec\<close>, \<open>node_consts\<close> and \<open>fs_consts\<close>, with sample instances; a loop that may wait for ever takes a number of rounds and is undefined
  when they run out (\<open>SCSIHandler_TestReady\<close>, the extended partition chain), so that a result for one number of rounds is the result of the
  code (\<open>ATAPI_loop\<close> too); polling loops of the drivers that count have their own bound. Addresses of the kernel are those of \<open>memory/MemConstants.h\<close>.

  \<^bold>\<open>Not modelled.\<close> The boot code and interrupt entries in assembler; code that only moves values between fixed registers (CPU features, MTRR, PAT,
  APIC set-up, floppy, set-up of IDE controllers); the frame buffer consoles beyond their contract; the commands of the shell and the
  system call stubs, which only call the operations modelled here; the loader of ELF files; the network stack; UHCI, EHCI and the
  registers of xHCI. The
  components of the manifest say for each part what is left out.
\<close>

end
